(* ===== verification/Prelude.thy ===== *)
theory Prelude
  imports Main "HOL-Library.Word"
begin

text \<open>
  Shared vocabulary of the FreakOS development: machine words, the outcome type of kernel
  functions with its sequencing operator, the error numbers and the rounding and bit macros of
  \<^verbatim>\<open>kern/include/types.h\<close>, and the generic lemmas the components use.

  Outcomes.  A kernel function either returns (\<open>Ret\<close>), stops the machine through
  \<^verbatim>\<open>panic\<close>/\<^verbatim>\<open>assert\<close> (\<open>Panic\<close>, with the message), performs an access C leaves undefined
  (\<open>Undef\<close>), gives up the processor in the middle of the function (\<open>Block\<close>: what happens
  after the task is woken up is then a separate step of the model), never returns (\<open>Hang\<close>), or
  touches an address the page tables do not map (\<open>Fault\<close>, with the address: the processor enters
  the page fault handler and restarts the access afterwards).
\<close>

unbundle bit_operations_syntax

section \<open>Collections\<close>

named_theorems kres_simps \<open>sequencing and inversion of kernel outcomes\<close>
named_theorems addr_simps \<open>word and address arithmetic\<close>

section \<open>Machine words\<close>

type_synonym u8 = "8 word"
type_synonym u16 = "16 word"
type_synonym u32 = "32 word"

text \<open>Pointers are 32-bit addresses; \<open>NULL\<close> is 0.\<close>

type_synonym ptr = u32

abbreviation (input) NULL :: ptr where "NULL \<equiv> 0"

section \<open>Outcomes of kernel functions\<close>

datatype 'a kres = Ret 'a | Panic string | Undef | Block | Hang | Fault u32

fun kbind :: "'a kres \<Rightarrow> ('a \<Rightarrow> 'b kres) \<Rightarrow> 'b kres" where
  "kbind (Ret x) f = f x"
| "kbind (Panic m) f = Panic m"
| "kbind Undef f = Undef"
| "kbind Block f = Block"
| "kbind Hang f = Hang"
| "kbind (Fault a) f = Fault a"

definition kassert :: "bool \<Rightarrow> string \<Rightarrow> 'a kres \<Rightarrow> 'a kres" where
  "kassert c m k = (if c then k else Panic m)"

lemma kbind_eq_Ret [kres_simps]:
  "(kbind m f = Ret y) = (\<exists>x. m = Ret x \<and> f x = Ret y)"
  by (cases m) auto

lemma kbind_Ret_id [simp]: "kbind m Ret = m"
  by (cases m) auto

lemma kbind_assoc: "kbind (kbind m f) g = kbind m (\<lambda>x. kbind (f x) g)"
  by (cases m) auto

lemma kbind_split:
  "P (kbind m f) = ((\<forall>x. m = Ret x \<longrightarrow> P (f x)) \<and> (\<forall>s. m = Panic s \<longrightarrow> P (Panic s)) \<and>
     (m = Undef \<longrightarrow> P Undef) \<and> (m = Block \<longrightarrow> P Block) \<and> (m = Hang \<longrightarrow> P Hang) \<and>
     (\<forall>a. m = Fault a \<longrightarrow> P (Fault a)))"
  by (cases m) auto

lemma kbind_cong [fundef_cong]:
  "m = m' \<Longrightarrow> (\<And>x. m' = Ret x \<Longrightarrow> f x = g x) \<Longrightarrow> kbind m f = kbind m' g"
  by (cases m') auto

text \<open>A loop given by a partial function: \<open>None\<close> is a loop that never ends.\<close>

definition kloop :: "'a option \<Rightarrow> 'a kres" where
  "kloop r = (case r of None \<Rightarrow> Hang | Some x \<Rightarrow> Ret x)"

lemma kloop_simps [simp]:
  "kloop None = Hang"
  "kloop (Some x) = Ret x"
  by (simp_all add: kloop_def)

text \<open>
  The loop of kernel functions: the body computes an outcome that either goes round again
  (\<open>Inl\<close>, with the loop variables) or leaves the loop (\<open>Inr\<close>: \<^verbatim>\<open>break\<close>, \<^verbatim>\<open>return\<close> or a false condition).
\<close>

partial_function (option) kiter :: "('a \<Rightarrow> ('a + 'b) kres) \<Rightarrow> 'a \<Rightarrow> 'b kres option" where
  "kiter body x =
     (case body x of
        Ret r \<Rightarrow> (case r of Inl x' \<Rightarrow> kiter body x' | Inr y \<Rightarrow> Some (Ret y))
      | Panic m \<Rightarrow> Some (Panic m) | Undef \<Rightarrow> Some Undef | Block \<Rightarrow> Some Block
      | Hang \<Rightarrow> Some Hang | Fault a \<Rightarrow> Some (Fault a))"

definition kwhile :: "('a \<Rightarrow> ('a + 'b) kres) \<Rightarrow> 'a \<Rightarrow> 'b kres" where
  "kwhile body x = (case kiter body x of None \<Rightarrow> Hang | Some r \<Rightarrow> r)"

lemma kwhile_unfold:
  "kwhile body x = kbind (body x) (\<lambda>r. case r of Inl x' \<Rightarrow> kwhile body x' | Inr y \<Rightarrow> Ret y)"
  unfolding kwhile_def
  by (subst kiter.simps) (auto split: kres.split sum.split)

text \<open>Total correctness: an invariant, and a measure that every further round decreases.\<close>

lemma kwhile_total:
  fixes \<mu> :: "'a \<Rightarrow> nat"
  assumes "I x"
    and "\<And>x. I x \<Longrightarrow> (\<exists>y. body x = Ret (Inr y) \<and> Q y) \<or> (\<exists>x'. body x = Ret (Inl x') \<and> I x' \<and> \<mu> x' < \<mu> x)"
  shows "\<exists>y. kwhile body x = Ret y \<and> Q y"
  using assms(1)
proof (induction "\<mu> x" arbitrary: x rule: less_induct)
  case less
  show ?case
    using assms(2) [OF less.prems]
  proof
    assume "\<exists>y. body x = Ret (Inr y) \<and> Q y"
    then show ?thesis by (subst kwhile_unfold) auto
  next
    assume "\<exists>x'. body x = Ret (Inl x') \<and> I x' \<and> \<mu> x' < \<mu> x"
    then show ?thesis using less.hyps by (subst kwhile_unfold) auto
  qed
qed

lemma kassert_simps [simp]:
  "kassert True m k = k"
  "kassert False m k = Panic m"
  by (simp_all add: kassert_def)

lemma kassert_eq_Ret [kres_simps]: "(kassert c m k = Ret y) = (c \<and> k = Ret y)"
  by (simp add: kassert_def)

section \<open>Error numbers (types.h)\<close>

abbreviation (input) E_OK :: int where "E_OK \<equiv> 0"
abbreviation (input) E_PNULL :: int where "E_PNULL \<equiv> 1"
abbreviation (input) E_INVAL :: int where "E_INVAL \<equiv> 11"
abbreviation (input) E_NOMEM :: int where "E_NOMEM \<equiv> 12"
abbreviation (input) E_KILLED :: int where "E_KILLED \<equiv> 13"
abbreviation (input) E_INVAL_ELF :: int where "E_INVAL_ELF \<equiv> 14"
abbreviation (input) E_NO_FREE_TASK :: int where "E_NO_FREE_TASK \<equiv> 15"
abbreviation (input) E_BAD_PROC :: int where "E_BAD_PROC \<equiv> 16"

section \<open>Macros and inline functions of types.h\<close>

definition ROUNDDOWN :: "u32 \<Rightarrow> u32 \<Rightarrow> u32" where
  "ROUNDDOWN a n = a - a mod n"

definition ROUNDUP :: "u32 \<Rightarrow> u32 \<Rightarrow> u32" where
  "ROUNDUP a n = ROUNDDOWN (a + n - 1) n"

definition GetBit :: "u32 \<Rightarrow> nat \<Rightarrow> u32" where
  "GetBit num pos = drop_bit pos num AND 1"

definition SetBit :: "u32 \<Rightarrow> nat \<Rightarrow> u32" where
  "SetBit num pos = num OR push_bit pos 1"

definition ClearBit :: "u32 \<Rightarrow> nat \<Rightarrow> u32" where
  "ClearBit num pos = num AND NOT (push_bit pos 1)"

lemma div_eq_nat_iff: "0 < n \<Longrightarrow> (x div n = q) = (n * q \<le> x \<and> x < n * q + (n :: nat))"
proof
  assume "0 < n" "x div n = q"
  then show "n * q \<le> x \<and> x < n * q + n"
    using mult_div_mod_eq [of n x] mod_less_divisor [of n x] by (metis le_add1 nat_add_left_cancel_less)
next
  assume "0 < n" "n * q \<le> x \<and> x < n * q + n"
  then show "x div n = q" by (intro div_nat_eqI) simp_all
qed

lemma unat_u32_less: "unat (x :: u32) < 4294967296"
proof -
  have "unat x < 2 ^ LENGTH(32)" by (rule unsigned_less)
  then show ?thesis by simp
qed

lemma u32_of_unat: "of_nat (unat x) = (x :: u32)"
  by simp

lemma unat_of_nat_u32: "i < 2 ^ 32 \<Longrightarrow> unat (of_nat i :: u32) = i"
  by (simp add: unsigned_of_nat take_bit_eq_mod)

lemma of_nat_u32_inject:
  "i < 2 ^ 32 \<Longrightarrow> j < 2 ^ 32 \<Longrightarrow> (of_nat i = (of_nat j :: u32)) = (i = j)"
  by (metis of_nat_eq_iff unat_of_nat_u32)

lemma sint_u32_bounds: "- 2147483648 \<le> sint (x :: u32)" "sint (x :: u32) < 2147483648"
  using sint_ge [of x] sint_lt [of x] by simp_all

lemma sint_u32_dec: "- 2147483648 < sint (x :: u32) \<Longrightarrow> sint (x - 1) = sint x - 1"
  using sint_u32_bounds [of x] by (simp add: sint_word_ariths signed_take_bit_int_eq_self)

lemma sint_u32_inc: "sint (x :: u32) < 2147483647 \<Longrightarrow> sint (x + 1) = sint x + 1"
  using sint_u32_bounds [of x] by (simp add: sint_word_ariths signed_take_bit_int_eq_self)

lemma and_not_mask_u32: "(x :: u32) AND NOT (mask n) = push_bit n (drop_bit n x)"
  by (rule bit_eqI)
    (auto simp: bit_and_iff bit_not_iff bit_mask_iff bit_push_bit_iff bit_drop_bit_eq possible_bit_word)

lemma GetBit_bit: "(GetBit num pos \<noteq> 0) = bit num pos"
  by (simp add: GetBit_def and_one_eq bit_iff_odd_drop_bit odd_iff_mod_2_eq_one)

lemma bit_SetBit: "bit (SetBit num pos) i = (bit num i \<or> i = pos \<and> i < 32)"
  by (auto simp: SetBit_def bit_or_iff bit_exp_iff possible_bit_word)

lemma bit_ClearBit: "bit (ClearBit num pos) i = (bit num i \<and> i \<noteq> pos)"
  by (auto simp: ClearBit_def bit_and_iff bit_not_iff bit_exp_iff possible_bit_word dest: bit_imp_le_length)

lemma unat_ROUNDDOWN: "unat (ROUNDDOWN a n) = unat a - unat a mod unat n"
proof -
  have "a mod n \<le> a"
    by (simp add: word_le_nat_alt unat_mod_distrib)
  then show ?thesis
    by (simp add: ROUNDDOWN_def unat_sub unat_mod_distrib)
qed

lemma unat_ROUNDUP:
  assumes "0 < unat n" and "unat a + unat n \<le> 2 ^ 32"
  shows "unat (ROUNDUP a n) = (unat a + unat n - 1) - (unat a + unat n - 1) mod unat n"
proof -
  have "unat (a + n - 1) = unat a + unat n - 1"
  proof (cases "unat a + unat n = 2 ^ 32")
    case True
    then have "unat (a + n) = 0"
      by (simp add: unat_word_ariths)
    then have "a + n = 0"
      by (simp add: unat_eq_zero)
    with True show ?thesis by (simp add: unsigned_minus_1_eq_mask mask_eq_exp_minus_1)
  next
    case False
    with assms have ok: "unat (a + n) = unat a + unat n"
      by (simp add: unat_word_ariths)
    with assms have "1 \<le> a + n"
      by (simp add: word_le_nat_alt)
    then show ?thesis using ok by (simp add: unat_sub)
  qed
  then show ?thesis by (simp add: ROUNDUP_def unat_ROUNDDOWN)
qed

end
