(* ===== verification/Intrusive_List.thy ===== *)
theory Intrusive_List
  imports Prelude
begin

text \<open>
  The intrusive circular doubly linked list of \<^verbatim>\<open>kern/include/list.h\<close>, at pointer level.
  A heap of links gives every node its two pointers; each inline function is a heap update with
  the assignments in the order of the source.  \<open>dlist h hd xs\<close> says that, starting from the
  header \<open>hd\<close>, the heap holds exactly the nodes \<open>xs\<close>, linked in both directions.  The lemmas show
  that every function acts on \<open>xs\<close> as the corresponding list operation; the locale
  \<open>linked_list\<close> is the interface the other components rely on when they treat such a list as
  the sequence of its nodes.
\<close>

section \<open>The pointers and the inline functions\<close>

record 'p list_heap =
  lp_prev :: "'p \<Rightarrow> 'p"
  lp_next :: "'p \<Rightarrow> 'p"

definition list_add_raw :: "'p \<Rightarrow> 'p \<Rightarrow> 'p \<Rightarrow> 'p list_heap \<Rightarrow> 'p list_heap" where
  "list_add_raw elem pr nx h =
     (let h1 = h\<lparr>lp_prev := (lp_prev h)(nx := elem)\<rparr>;
          h2 = h1\<lparr>lp_next := (lp_next h1)(pr := elem)\<rparr>;
          h3 = h2\<lparr>lp_next := (lp_next h2)(elem := nx)\<rparr>
      in h3\<lparr>lp_prev := (lp_prev h3)(elem := pr)\<rparr>)"

definition list_del_raw :: "'p \<Rightarrow> 'p \<Rightarrow> 'p list_heap \<Rightarrow> 'p list_heap" where
  "list_del_raw pr nx h =
     (let h1 = h\<lparr>lp_next := (lp_next h)(pr := nx)\<rparr>
      in h1\<lparr>lp_prev := (lp_prev h1)(nx := pr)\<rparr>)"

definition initList :: "'p \<Rightarrow> 'p list_heap \<Rightarrow> 'p list_heap" where
  "initList elem h = h\<lparr>lp_prev := (lp_prev h)(elem := elem), lp_next := (lp_next h)(elem := elem)\<rparr>"

definition listGetNext :: "'p list_heap \<Rightarrow> 'p \<Rightarrow> 'p" where
  "listGetNext h e = lp_next h e"

definition listGetPrev :: "'p list_heap \<Rightarrow> 'p \<Rightarrow> 'p" where
  "listGetPrev h e = lp_prev h e"

definition listAddBefore :: "'p \<Rightarrow> 'p \<Rightarrow> 'p list_heap \<Rightarrow> 'p list_heap" where
  "listAddBefore listelem elem h = list_add_raw elem (lp_prev h listelem) listelem h"

definition listAddAfter :: "'p \<Rightarrow> 'p \<Rightarrow> 'p list_heap \<Rightarrow> 'p list_heap" where
  "listAddAfter listelem elem h = list_add_raw elem listelem (lp_next h listelem) h"

definition listAdd :: "'p \<Rightarrow> 'p \<Rightarrow> 'p list_heap \<Rightarrow> 'p list_heap" where
  "listAdd l new h = listAddAfter l new h"

definition listAddTail :: "'p \<Rightarrow> 'p \<Rightarrow> 'p list_heap \<Rightarrow> 'p list_heap" where
  "listAddTail l new h = listAddBefore l new h"

definition listDel :: "'p \<Rightarrow> 'p list_heap \<Rightarrow> 'p list_heap" where
  "listDel e h = list_del_raw (lp_prev h e) (lp_next h e) h"

definition listDelInit :: "'p \<Rightarrow> 'p list_heap \<Rightarrow> 'p list_heap" where
  "listDelInit e h = initList e (listDel e h)"

definition listIsEmpty :: "'p list_heap \<Rightarrow> 'p \<Rightarrow> bool" where
  "listIsEmpty h l = (lp_next h l = l)"

text \<open>The macro \<^verbatim>\<open>listForEach\<close>: the nodes its loop body visits, \<open>None\<close> when it never ends.\<close>

partial_function (option) listForEach_from :: "'p list_heap \<Rightarrow> 'p \<Rightarrow> 'p \<Rightarrow> 'p list option" where
  "listForEach_from h l i =
     (if i = l then Some []
      else Option.bind (listForEach_from h l (lp_next h i)) (\<lambda>is. Some (i # is)))"

definition listForEach :: "'p list_heap \<Rightarrow> 'p \<Rightarrow> 'p list option" where
  "listForEach h l = listForEach_from h l (lp_next h l)"

text \<open>The same loop left with \<^verbatim>\<open>break\<close> or \<^verbatim>\<open>return\<close> at the first node that satisfies a condition.\<close>

partial_function (option) listFind_from :: "'p list_heap \<Rightarrow> 'p \<Rightarrow> ('p \<Rightarrow> bool) \<Rightarrow> 'p \<Rightarrow> 'p option option" where
  "listFind_from h l P i =
     (if i = l then Some None else if P i then Some (Some i) else listFind_from h l P (lp_next h i))"

definition listFind :: "'p list_heap \<Rightarrow> 'p \<Rightarrow> ('p \<Rightarrow> bool) \<Rightarrow> 'p option option" where
  "listFind h l P = listFind_from h l P (lp_next h l)"

section \<open>Representation\<close>

fun linked :: "'p list_heap \<Rightarrow> 'p \<Rightarrow> 'p list \<Rightarrow> 'p \<Rightarrow> bool" where
  "linked h a [] b = (lp_next h a = b \<and> lp_prev h b = a)"
| "linked h a (x # xs) b = (lp_next h a = x \<and> lp_prev h x = a \<and> linked h x xs b)"

definition dlist :: "'p list_heap \<Rightarrow> 'p \<Rightarrow> 'p list \<Rightarrow> bool" where
  "dlist h l xs = (distinct (l # xs) \<and> linked h l xs l)"

lemma linked_append:
  "linked h a (xs @ x # ys) b = (linked h a xs x \<and> linked h x ys b)"
  by (induction xs arbitrary: a) auto

lemma linked_cong:
  assumes "\<And>p. p \<in> insert a (set xs) \<Longrightarrow> lp_next h' p = lp_next h p"
    and "\<And>p. p \<in> insert b (set xs) \<Longrightarrow> lp_prev h' p = lp_prev h p"
  shows "linked h' a xs b = linked h a xs b"
  using assms by (induction xs arbitrary: a) auto

lemma linked_next: "linked h a xs b \<Longrightarrow> lp_next h a = hd (xs @ [b])"
  by (cases xs) auto

lemma linked_prev: "linked h a xs b \<Longrightarrow> lp_prev h b = last (a # xs)"
  by (induction xs arbitrary: a) auto

lemma linked_raw_add:
  assumes l: "linked h a (xs @ ys) b"
    and d: "distinct (xs @ ys)" "a \<notin> set (xs @ ys)" "b \<notin> set (xs @ ys)"
    and e: "e \<notin> {a, b} \<union> set (xs @ ys)"
  shows "linked (list_add_raw e (last (a # xs)) (hd (ys @ [b])) h) a (xs @ e # ys) b"
proof -
  let ?h = "list_add_raw e (last (a # xs)) (hd (ys @ [b])) h"
  have left: "linked ?h a xs e"
  proof (cases xs rule: rev_cases)
    case Nil
    then show ?thesis using e by (auto simp: list_add_raw_def Let_def)
  next
    case (snoc zs z)
    have "linked h a zs z"
      using l snoc by (simp add: linked_append)
    moreover have "linked ?h a zs z = linked h a zs z"
      by (rule linked_cong) (use snoc d e in \<open>cases ys; auto simp: list_add_raw_def Let_def\<close>)+
    moreover have "lp_next ?h z = e" "lp_prev ?h e = z"
      using snoc e by (auto simp: list_add_raw_def Let_def)
    ultimately show ?thesis
      using snoc linked_append [of ?h a zs z "[]" e] by simp
  qed
  have right: "linked ?h e ys b"
  proof (cases ys)
    case Nil
    then show ?thesis using e by (auto simp: list_add_raw_def Let_def)
  next
    case (Cons y zs)
    have "linked h y zs b"
      using l Cons by (simp add: linked_append)
    moreover have "linked ?h y zs b = linked h y zs b"
      by (rule linked_cong)
        (use Cons d e in \<open>cases xs rule: rev_cases; auto simp: list_add_raw_def Let_def\<close>)+
    ultimately show ?thesis
      using Cons e by (auto simp: list_add_raw_def Let_def)
  qed
  from left right show ?thesis by (simp add: linked_append)
qed

lemma dlist_raw_add:
  assumes "dlist h l (xs @ ys)" and "e \<noteq> l" and "e \<notin> set (xs @ ys)"
  shows "dlist (list_add_raw e (last (l # xs)) (hd (ys @ [l])) h) l (xs @ e # ys)"
  using assms linked_raw_add [of h l xs ys l e] by (auto simp: dlist_def)

lemma dlist_around:
  assumes "dlist h l (xs @ ys)"
  shows "lp_next h (last (l # xs)) = hd (ys @ [l])"
    and "lp_prev h (hd (ys @ [l])) = last (l # xs)"
proof -
  have k: "linked h l (xs @ ys) l" using assms by (simp add: dlist_def)
  show "lp_next h (last (l # xs)) = hd (ys @ [l])"
  proof (cases xs rule: rev_cases)
    case Nil
    then show ?thesis using linked_next [OF k] by simp
  next
    case (snoc zs z)
    then have "linked h z ys l" using k by (simp add: linked_append)
    then show ?thesis using snoc linked_next by force
  qed
  show "lp_prev h (hd (ys @ [l])) = last (l # xs)"
  proof (cases ys)
    case Nil
    then show ?thesis using linked_prev [OF k] by simp
  next
    case (Cons y zs)
    then have "linked h l xs y" using k by (simp add: linked_append)
    then show ?thesis using Cons linked_prev by force
  qed
qed


section \<open>The functions on represented lists\<close>

lemma dlist_init: "dlist (initList l h) l []"
  by (simp add: dlist_def initList_def)

lemma dlist_addAfter:
  assumes "dlist h l (xs @ x # ys)" and "e \<noteq> l" and "e \<notin> set (xs @ x # ys)"
  shows "dlist (listAddAfter x e h) l (xs @ x # e # ys)"
  using dlist_raw_add [of h l "xs @ [x]" ys e] dlist_around [of h l "xs @ [x]" ys] assms
  by (simp add: listAddAfter_def)

lemma dlist_add:
  assumes "dlist h l xs" and "e \<noteq> l" and "e \<notin> set xs"
  shows "dlist (listAdd l e h) l (e # xs)"
  using dlist_raw_add [of h l "[]" xs e] dlist_around [of h l "[]" xs] assms
  by (simp add: listAdd_def listAddAfter_def)

lemma dlist_addTail:
  assumes "dlist h l xs" and "e \<noteq> l" and "e \<notin> set xs"
  shows "dlist (listAddTail l e h) l (xs @ [e])"
  using dlist_raw_add [of h l xs "[]" e] dlist_around [of h l xs "[]"] assms
  by (simp add: listAddTail_def listAddBefore_def)

lemma dlist_del_split:
  assumes "dlist h l (xs @ e # ys)"
  shows "dlist (listDel e h) l (xs @ ys)"
proof -
  have k: "linked h l xs e" "linked h e ys l" and d: "distinct (l # xs @ e # ys)"
    using assms by (auto simp: dlist_def linked_append)
  have pn: "lp_prev h e = last (l # xs)" "lp_next h e = hd (ys @ [l])"
    using linked_prev [OF k(1)] linked_next [OF k(2)] by simp_all
  let ?h = "listDel e h"
  have h': "lp_next ?h = (lp_next h)(last (l # xs) := hd (ys @ [l]))"
    "lp_prev ?h = (lp_prev h)(hd (ys @ [l]) := last (l # xs))"
    using pn by (simp_all add: listDel_def list_del_raw_def Let_def)
  have "linked ?h l (xs @ ys) l"
  proof (cases ys)
    case Nil
    show ?thesis
    proof (cases xs rule: rev_cases)
      case Nil
      then show ?thesis using \<open>ys = []\<close> h' by simp
    next
      case (snoc zs z)
      then have "linked h l zs z" using k(1) by (simp add: linked_append)
      moreover have "linked ?h l zs z = linked h l zs z"
        by (rule linked_cong) (use h' snoc Nil d in auto)
      ultimately show ?thesis using Nil snoc h' by (simp add: linked_append)
    qed
  next
    case (Cons y zs)
    then have "linked h y zs l" using k(2) by simp
    moreover have "linked ?h y zs l = linked h y zs l"
      by (rule linked_cong) (use h' Cons d in \<open>cases xs rule: rev_cases; auto\<close>)+
    moreover have "linked ?h l xs y"
    proof (cases xs rule: rev_cases)
      case Nil
      then show ?thesis using Cons h' by simp
    next
      case (snoc ws w)
      then have "linked h l ws w" using k(1) by (simp add: linked_append)
      moreover have "linked ?h l ws w = linked h l ws w"
        by (rule linked_cong) (use h' snoc Cons d in auto)
      ultimately show ?thesis using Cons snoc h' by (simp add: linked_append)
    qed
    ultimately show ?thesis using Cons by (simp add: linked_append)
  qed
  with d show ?thesis by (auto simp: dlist_def)
qed

lemma dlist_del:
  assumes "dlist h l xs" and "e \<in> set xs"
  shows "dlist (listDel e h) l (remove1 e xs)"
proof -
  obtain ys zs where xs: "xs = ys @ e # zs" "e \<notin> set ys"
    using assms(2) split_list_first by metis
  then show ?thesis
    using dlist_del_split [of h l ys e zs] assms(1) by (simp add: remove1_append)
qed

lemma dlist_initList_other:
  assumes "dlist h l xs" and "e \<noteq> l" and "e \<notin> set xs"
  shows "dlist (initList e h) l xs"
proof -
  have "linked (initList e h) l xs l = linked h l xs l"
    by (rule linked_cong) (use assms in \<open>auto simp: initList_def\<close>)
  then show ?thesis using assms by (simp add: dlist_def)
qed

lemma dlist_delInit:
  assumes "dlist h l xs" and "e \<in> set xs"
  shows "dlist (listDelInit e h) l (remove1 e xs)"
proof -
  have "e \<noteq> l" "e \<notin> set (remove1 e xs)"
    using assms by (auto simp: dlist_def)
  then show ?thesis
    using dlist_initList_other [OF dlist_del [OF assms]] by (simp add: listDelInit_def)
qed

lemma dlist_isEmpty: "dlist h l xs \<Longrightarrow> listIsEmpty h l = (xs = [])"
  by (cases xs) (auto simp: dlist_def listIsEmpty_def)

lemma dlist_next: "dlist h l xs \<Longrightarrow> listGetNext h l = hd (xs @ [l])"
  by (auto simp: dlist_def listGetNext_def dest: linked_next)

lemma dlist_prev: "dlist h l xs \<Longrightarrow> listGetPrev h l = last (l # xs)"
  by (auto simp: dlist_def listGetPrev_def dest: linked_prev)

lemma dlist_next_elem:
  "dlist h l (xs @ x # ys) \<Longrightarrow> listGetNext h x = hd (ys @ [l])"
  by (auto simp: dlist_def listGetNext_def linked_append dest: linked_next)

lemma dlist_listForEach_from:
  assumes "dlist h l (xs @ ys)"
  shows "listForEach_from h l (hd (ys @ [l])) = Some ys"
  using assms
proof (induction ys arbitrary: xs)
  case Nil
  then show ?case by (simp add: listForEach_from.simps)
next
  case (Cons y ys)
  have "listForEach_from h l (hd (ys @ [l])) = Some ys"
    using Cons.IH [of "xs @ [y]"] Cons.prems by simp
  moreover have "y \<noteq> l" using Cons.prems by (auto simp: dlist_def)
  ultimately show ?case
    using dlist_next_elem [OF Cons.prems]
    by (simp add: listForEach_from.simps [of h l y] listGetNext_def)
qed

lemma dlist_listFind_from:
  assumes "dlist h l (xs @ ys)"
  shows "listFind_from h l P (hd (ys @ [l])) = Some (find P ys)"
  using assms
proof (induction ys arbitrary: xs)
  case Nil
  then show ?case by (simp add: listFind_from.simps)
next
  case (Cons y ys)
  have "listFind_from h l P (hd (ys @ [l])) = Some (find P ys)"
    using Cons.IH [of "xs @ [y]"] Cons.prems by simp
  moreover have "lp_next h y = hd (ys @ [l])" "y \<noteq> l"
    using dlist_next_elem [OF Cons.prems] Cons.prems by (auto simp: listGetNext_def dlist_def)
  ultimately show ?case by (subst listFind_from.simps) simp
qed

lemma dlist_listFind: "dlist h l xs \<Longrightarrow> listFind h l P = Some (find P xs)"
  using dlist_listFind_from [of h l "[]" xs P] dlist_next [of h l xs]
  by (simp add: listFind_def listGetNext_def)

text \<open>Two lists in one heap: an operation on one leaves the other alone.\<close>

lemma dlist_frame:
  assumes "dlist h l xs"
    and "\<And>p. p \<in> insert l (set xs) \<Longrightarrow> lp_next h' p = lp_next h p \<and> lp_prev h' p = lp_prev h p"
  shows "dlist h' l xs"
  using assms linked_cong [of l xs h' h l] by (auto simp: dlist_def)

section \<open>The interface\<close>

locale linked_list =
  fixes rep :: "'h \<Rightarrow> 'p \<Rightarrow> 'p list \<Rightarrow> bool"
    and init :: "'p \<Rightarrow> 'h \<Rightarrow> 'h"
    and add :: "'p \<Rightarrow> 'p \<Rightarrow> 'h \<Rightarrow> 'h"
    and add_tail :: "'p \<Rightarrow> 'p \<Rightarrow> 'h \<Rightarrow> 'h"
    and del :: "'p \<Rightarrow> 'h \<Rightarrow> 'h"
    and empty :: "'h \<Rightarrow> 'p \<Rightarrow> bool"
    and nxt :: "'h \<Rightarrow> 'p \<Rightarrow> 'p"
    and iter :: "'h \<Rightarrow> 'p \<Rightarrow> 'p list option"
  assumes rep_distinct: "rep h l xs \<Longrightarrow> distinct (l # xs)"
    and rep_init: "rep (init l h) l []"
    and rep_add: "rep h l xs \<Longrightarrow> e \<noteq> l \<Longrightarrow> e \<notin> set xs \<Longrightarrow> rep (add l e h) l (e # xs)"
    and rep_add_tail:
      "rep h l xs \<Longrightarrow> e \<noteq> l \<Longrightarrow> e \<notin> set xs \<Longrightarrow> rep (add_tail l e h) l (xs @ [e])"
    and rep_del: "rep h l xs \<Longrightarrow> e \<in> set xs \<Longrightarrow> rep (del e h) l (remove1 e xs)"
    and rep_empty: "rep h l xs \<Longrightarrow> empty h l = (xs = [])"
    and rep_next: "rep h l xs \<Longrightarrow> nxt h l = hd (xs @ [l])"
    and rep_iter: "rep h l xs \<Longrightarrow> iter h l = Some xs"
begin

text \<open>What clients use: adding at the tail and taking at the head is a queue.\<close>

lemma rep_add_tails:
  assumes "rep h l xs" and "distinct ys" and "set ys \<inter> insert l (set xs) = {}"
  shows "rep (fold (add_tail l) ys h) l (xs @ ys)"
  using assms
proof (induction ys arbitrary: h xs)
  case Nil
  then show ?case by simp
next
  case (Cons y ys)
  have "rep (add_tail l y h) l (xs @ [y])"
    using Cons.prems by (intro rep_add_tail) auto
  moreover have "set ys \<inter> insert l (set (xs @ [y])) = {}"
    using Cons.prems by auto
  ultimately show ?case using Cons.IH [of "add_tail l y h" "xs @ [y]"] Cons.prems by simp
qed

lemma rep_pop:
  assumes "rep h l (x # xs)"
  shows "nxt h l = x" and "rep (del (nxt h l) h) l xs"
proof -
  show n: "nxt h l = x" using rep_next [OF assms] by simp
  show "rep (del (nxt h l) h) l xs" using rep_del [OF assms, of x] n by simp
qed

lemma rep_functional: "rep h l xs \<Longrightarrow> rep h l ys \<Longrightarrow> xs = ys"
  by (metis rep_iter option.inject)

fun pops :: "nat \<Rightarrow> 'p \<Rightarrow> 'h \<Rightarrow> 'p list" where
  "pops 0 l h = []"
| "pops (Suc n) l h = nxt h l # pops n l (del (nxt h l) h)"

lemma fifo:
  assumes "rep h l []" and "distinct (l # ys)"
  shows "pops (length ys) l (fold (add_tail l) ys h) = ys"
proof -
  have "pops (length ys) l g = ys" if "rep g l ys" for g
    using that by (induction ys arbitrary: g) (auto dest: rep_pop)
  moreover have "rep (fold (add_tail l) ys h) l ys"
    using rep_add_tails [OF assms(1), of ys] assms(2) by simp
  ultimately show ?thesis by blast
qed

end

interpretation ll: linked_list dlist initList listAdd listAddTail listDelInit listIsEmpty
  listGetNext listForEach
proof unfold_locales
  show "dlist h l xs \<Longrightarrow> listForEach h l = Some xs" for h :: "'p list_heap" and l xs
    using dlist_listForEach_from [of h l "[]" xs] dlist_next [of h l xs]
    by (simp add: listForEach_def listGetNext_def)
qed (simp_all add: dlist_init dlist_add dlist_addTail dlist_delInit dlist_isEmpty dlist_next,
     simp add: dlist_def)

interpretation lld: linked_list dlist initList listAdd listAddTail listDel listIsEmpty
  listGetNext listForEach
  by unfold_locales
    (simp_all add: ll.rep_distinct dlist_init dlist_add dlist_addTail dlist_del dlist_isEmpty
      dlist_next ll.rep_iter del: distinct.simps)

end
