(* ===== verification/First_Fit_Spec.thy ===== *)
theory First_Fit_Spec
  imports Main
begin

text \<open>
  The abstract first-fit page allocator that \<^verbatim>\<open>kern/mm/ff_mmanager.c\<close> implements: its state is
  the list of free blocks, each given by its first page and its number of pages, in the order of
  the free list.  \<open>cover\<close> is the set of free pages, \<open>apart\<close> says that blocks neither overlap nor
  touch (freed blocks are always merged with their neighbours).
\<close>

type_synonym block = "nat \<times> nat"

definition pages_of :: "block \<Rightarrow> nat set" where
  "pages_of b = {fst b ..< fst b + snd b}"

definition cover :: "block list \<Rightarrow> nat set" where
  "cover bs = (\<Union>b \<in> set bs. pages_of b)"

definition gap :: "block \<Rightarrow> block \<Rightarrow> bool" where
  "gap a b = (fst a + snd a < fst b \<or> fst b + snd b < fst a)"

definition disjnt_blocks :: "block \<Rightarrow> block \<Rightarrow> bool" where
  "disjnt_blocks a b = (fst a + snd a \<le> fst b \<or> fst b + snd b \<le> fst a)"

fun apart :: "block list \<Rightarrow> bool" where
  "apart [] = True"
| "apart (b # bs) = (0 < snd b \<and> (\<forall>c \<in> set bs. gap b c) \<and> apart bs)"

definition total :: "block list \<Rightarrow> nat" where
  "total bs = sum_list (map snd bs)"

fun spec_alloc :: "nat \<Rightarrow> block list \<Rightarrow> (nat \<times> block list) option" where
  "spec_alloc n [] = None"
| "spec_alloc n ((p, m) # bs) =
     (if n \<le> m then Some (p, if n < m then (p + n, m - n) # bs else bs)
      else map_option (\<lambda>(q, bs'). (q, (p, m) # bs')) (spec_alloc n bs))"

fun spec_merge :: "nat \<Rightarrow> nat \<Rightarrow> block list \<Rightarrow> block \<times> block list" where
  "spec_merge b l [] = ((b, l), [])"
| "spec_merge b l ((p, m) # bs) =
     (if b + l = p then spec_merge b (l + m) bs
      else if p + m = b then spec_merge p (m + l) bs
      else (case spec_merge b l bs of (c, bs') \<Rightarrow> (c, (p, m) # bs')))"

definition spec_free :: "nat \<Rightarrow> nat \<Rightarrow> block list \<Rightarrow> block list" where
  "spec_free b l bs = (case spec_merge b l bs of (c, bs') \<Rightarrow> c # bs')"

section \<open>Basic facts\<close>

lemma cover_simps [simp]:
  "cover [] = {}"
  "cover (b # bs) = pages_of b \<union> cover bs"
  "cover (xs @ ys) = cover xs \<union> cover ys"
  by (auto simp: cover_def)

lemma total_simps [simp]:
  "total [] = 0"
  "total (b # bs) = snd b + total bs"
  "total (xs @ ys) = total xs + total ys"
  by (auto simp: total_def)

lemma gap_sym: "gap a b \<Longrightarrow> gap b a"
  by (auto simp: gap_def)

lemma gap_disjnt: "gap a b \<Longrightarrow> disjnt_blocks a b"
  by (auto simp: gap_def disjnt_blocks_def)

lemma apart_append:
  "apart (xs @ ys) = (apart xs \<and> apart ys \<and> (\<forall>a \<in> set xs. \<forall>b \<in> set ys. gap a b))"
  by (induction xs) auto

lemma apart_pos: "apart bs \<Longrightarrow> b \<in> set bs \<Longrightarrow> 0 < snd b"
  by (induction bs) auto

lemma apart_gap:
  "apart bs \<Longrightarrow> a \<in> set bs \<Longrightarrow> b \<in> set bs \<Longrightarrow> a \<noteq> b \<Longrightarrow> gap a b"
  by (induction bs) (auto simp: gap_sym)

lemma disjnt_blocks_iff:
  "0 < snd a \<Longrightarrow> 0 < snd b \<Longrightarrow> disjnt_blocks a b = (pages_of a \<inter> pages_of b = {})"
  by (auto simp: disjnt_blocks_def pages_of_def disjoint_iff)

lemma disjnt_cover:
  assumes "apart bs" and "0 < l"
  shows "(\<forall>c \<in> set bs. disjnt_blocks (b, l) c) = ({b ..< b + l} \<inter> cover bs = {})"
proof -
  have "disjnt_blocks (b, l) c = ({b ..< b + l} \<inter> pages_of c = {})" if "c \<in> set bs" for c
    using disjnt_blocks_iff [of "(b, l)" c] apart_pos [OF assms(1) that] assms(2)
    by (simp add: pages_of_def)
  then show ?thesis by (auto simp: cover_def)
qed

lemma apart_distinct: "apart bs \<Longrightarrow> distinct (map fst bs)"
  by (induction bs) (auto simp: gap_def)

lemma card_cover: "apart bs \<Longrightarrow> finite (cover bs) \<and> card (cover bs) = total bs"
proof (induction bs)
  case (Cons b bs)
  have "pages_of b \<inter> pages_of c = {}" if "c \<in> set bs" for c
    using Cons.prems apart_pos [of bs c] that
    by (subst disjnt_blocks_iff [symmetric]) (auto intro: gap_disjnt)
  then have "pages_of b \<inter> cover bs = {}" by (auto simp: cover_def)
  moreover have "finite (pages_of b)" "card (pages_of b) = snd b"
    by (simp_all add: pages_of_def)
  ultimately show ?case using Cons by (simp add: card_Un_disjoint)
qed simp

section \<open>Allocation\<close>

lemma spec_alloc_split:
  assumes "spec_alloc n bs = Some (p, bs')"
  shows "\<exists>xs m ys. bs = xs @ (p, m) # ys \<and> n \<le> m \<and> (\<forall>c \<in> set xs. snd c < n) \<and>
    bs' = xs @ (if n < m then [(p + n, m - n)] else []) @ ys"
  using assms
proof (induction n bs arbitrary: bs' rule: spec_alloc.induct)
  case (1 n)
  then show ?case by simp
next
  case (2 n q k bs)
  show ?case
  proof (cases "n \<le> k")
    case True
    then show ?thesis using 2 by (intro exI [of _ "[]"]) auto
  next
    case False
    then obtain cs where cs: "spec_alloc n bs = Some (p, cs)" "bs' = (q, k) # cs"
      using 2 by auto
    then obtain xs m ys where "bs = xs @ (p, m) # ys" "n \<le> m" "\<forall>c \<in> set xs. snd c < n"
      "cs = xs @ (if n < m then [(p + n, m - n)] else []) @ ys"
      using 2(1) [OF False cs(1)] by blast
    then show ?thesis using cs False by (intro exI [of _ "(q, k) # xs"]) auto
  qed
qed

lemma spec_alloc_None: "spec_alloc n bs = None \<longleftrightarrow> (\<forall>b \<in> set bs. snd b < n)"
  by (induction n bs rule: spec_alloc.induct) auto

lemma spec_alloc_apart:
  assumes "spec_alloc n bs = Some (p, bs')" and "apart bs" and "0 < n"
  shows "apart bs'"
proof -
  obtain xs m ys where b: "bs = xs @ (p, m) # ys" "n \<le> m"
    "bs' = xs @ (if n < m then [(p + n, m - n)] else []) @ ys"
    using spec_alloc_split [OF assms(1)] by blast
  show ?thesis
    using assms(2) b by (fastforce simp: apart_append gap_def)
qed

lemma spec_alloc_cover:
  assumes "spec_alloc n bs = Some (p, bs')" and "apart bs"
  shows "{p ..< p + n} \<subseteq> cover bs" and "cover bs' = cover bs - {p ..< p + n}"
    and "total bs = total bs' + n"
proof -
  obtain xs m ys where b: "bs = xs @ (p, m) # ys" "n \<le> m"
    "bs' = xs @ (if n < m then [(p + n, m - n)] else []) @ ys"
    using spec_alloc_split [OF assms(1)] by blast
  have gaps: "\<forall>c \<in> set (xs @ ys). gap (p, m) c"
    using assms(2) b(1) by (auto simp: apart_append gap_sym)
  have out: "{p ..< p + m} \<inter> (cover xs \<union> cover ys) = {}"
  proof -
    have "{p ..< p + m} \<inter> pages_of c = {}" if "c \<in> set (xs @ ys)" for c
      using bspec [OF gaps that] by (auto simp: pages_of_def gap_def)
    then show ?thesis by (auto simp: cover_def)
  qed
  have split: "pages_of (p, m) = {p ..< p + n} \<union> {p + n ..< p + m}"
    using b(2) by (auto simp: pages_of_def)
  show "{p ..< p + n} \<subseteq> cover bs"
    using b split by auto
  show "cover bs' = cover bs - {p ..< p + n}"
  proof -
    have "cover bs' = (cover xs \<union> cover ys) \<union> {p + n ..< p + m}"
      using b by (auto simp: pages_of_def)
    moreover have "cover bs = (cover xs \<union> cover ys) \<union> {p ..< p + n} \<union> {p + n ..< p + m}"
      using b split by auto
    moreover have "(cover xs \<union> cover ys) \<inter> {p ..< p + n} = {}"
      using out b(2) by force
    ultimately show ?thesis by auto
  qed
  show "total bs = total bs' + n"
    using b by auto
qed

section \<open>Release\<close>

lemma spec_merge_cover:
  "spec_merge b l bs = (c, bs') \<Longrightarrow>
     pages_of c \<union> cover bs' = {b ..< b + l} \<union> cover bs \<and> snd c + total bs' = l + total bs"
proof (induction b l bs arbitrary: c bs' rule: spec_merge.induct)
  case (1 b l)
  then show ?case by (auto simp: pages_of_def)
next
  case (2 b l p m bs)
  consider (up) "b + l = p" | (down) "b + l \<noteq> p" "p + m = b" | (no) "b + l \<noteq> p" "p + m \<noteq> b"
    by blast
  then show ?case
  proof cases
    case up
    have "{b ..< b + (l + m)} = {b ..< b + l} \<union> pages_of (p, m)"
      using up by (auto simp: pages_of_def)
    moreover have "spec_merge b (l + m) bs = (c, bs')"
      using "2.prems" up by simp
    ultimately show ?thesis using "2.IH"(1) [OF up, of c bs'] by auto
  next
    case down
    have "{p ..< p + (m + l)} = {b ..< b + l} \<union> pages_of (p, m)"
      using down by (auto simp: pages_of_def)
    moreover have "spec_merge p (m + l) bs = (c, bs')"
      using "2.prems" down by simp
    ultimately show ?thesis using "2.IH"(2) [OF down, of c bs'] by auto
  next
    case no
    then obtain bs'' where "spec_merge b l bs = (c, bs'')" "bs' = (p, m) # bs''"
      using "2.prems" by (auto split: prod.splits)
    then show ?thesis using "2.IH"(3) [OF no, of c bs''] by auto
  qed
qed

lemma spec_merge_subset: "spec_merge b l bs = (c, bs') \<Longrightarrow> set bs' \<subseteq> set bs"
proof (induction b l bs arbitrary: c bs' rule: spec_merge.induct)
  case (2 b l p m bs)
  show ?case
  proof (cases "b + l = p \<or> p + m = b")
    case True
    then show ?thesis using 2 by (auto split: if_splits)
  next
    case False
    then show ?thesis using 2(3) 2(4) by (auto split: prod.splits)
  qed
qed simp

text \<open>A block at a distance from everything merged keeps its distance from the result.\<close>

lemma spec_merge_gap:
  assumes "spec_merge b l bs = (c, bs')" and "gap (b, l) d" and "\<forall>e \<in> set bs. gap e d" and "0 < l"
    and "apart bs"
  shows "gap c d"
  using assms
proof (induction b l bs arbitrary: c bs' rule: spec_merge.induct)
  case (2 b l p m bs)
  consider "b + l = p" | "b + l \<noteq> p" "p + m = b" | "b + l \<noteq> p" "p + m \<noteq> b" by blast
  then show ?case
  proof cases
    case 1
    then have "gap (b, l + m) d" using 2 by (auto simp: gap_def)
    then show ?thesis using 1 2 by auto
  next
    case 2
    then have "gap (p, m + l) d" using "2.prems" by (auto simp: gap_def)
    then show ?thesis using 2 "2.IH"(2) "2.prems" by auto
  next
    case 3
    then show ?thesis using "2.IH"(3) "2.prems" by (auto split: prod.splits)
  qed
qed simp

lemma spec_merge_apart:
  assumes "spec_merge b l bs = (c, bs')" and "apart bs"
    and "\<forall>d \<in> set bs. disjnt_blocks (b, l) d" and "0 < l"
  shows "apart (c # bs')"
  using assms
proof (induction b l bs arbitrary: c bs' rule: spec_merge.induct)
  case (1 b l)
  then show ?case by auto
next
  case (2 b l p m bs)
  consider "b + l = p" | "b + l \<noteq> p" "p + m = b" | "b + l \<noteq> p" "p + m \<noteq> b" by blast
  then show ?case
  proof cases
    case 1
    then have "\<forall>d \<in> set bs. disjnt_blocks (b, l + m) d"
      using 2 by (fastforce simp: disjnt_blocks_def gap_def)
    then show ?thesis using 1 2 by auto
  next
    case 2
    then have "\<forall>d \<in> set bs. disjnt_blocks (p, m + l) d"
      using "2.prems" by (fastforce simp: disjnt_blocks_def gap_def)
    then show ?thesis using 2 "2.IH"(2) "2.prems" by auto
  next
    case 3
    then obtain bs'' where bs'': "spec_merge b l bs = (c, bs'')" "bs' = (p, m) # bs''"
      using "2.prems" by (auto split: prod.splits)
    then have ap: "apart (c # bs'')"
      using 3 "2.IH"(3) "2.prems" by auto
    have "gap (b, l) (p, m)"
      using 3 "2.prems" by (auto simp: gap_def disjnt_blocks_def)
    then have "gap c (p, m)"
      using spec_merge_gap [OF bs''(1), of "(p, m)"] "2.prems" by (auto simp: gap_sym)
    then show ?thesis
      using ap bs'' "2.prems" spec_merge_subset [OF bs''(1)] by (auto simp: gap_sym)
  qed
qed

lemma spec_free_correct:
  assumes "apart bs" and "0 < l" and "{b ..< b + l} \<inter> cover bs = {}"
  shows "apart (spec_free b l bs)"
    and "cover (spec_free b l bs) = {b ..< b + l} \<union> cover bs"
    and "total (spec_free b l bs) = l + total bs"
proof -
  obtain c bs' where m: "spec_merge b l bs = (c, bs')" by fastforce
  show "apart (spec_free b l bs)"
    using spec_merge_apart [OF m assms(1) _ assms(2)] disjnt_cover [OF assms(1,2)] assms(3) m
    by (simp add: spec_free_def)
  show "cover (spec_free b l bs) = {b ..< b + l} \<union> cover bs"
    "total (spec_free b l bs) = l + total bs"
    using spec_merge_cover [OF m] m by (auto simp: spec_free_def)
qed


section \<open>Completeness of the search\<close>

text \<open>Blocks never touch, so a run of free pages lies inside one block.\<close>

lemma run_in_block:
  assumes "apart bs" and "{p ..< p + n} \<subseteq> cover bs" and "0 < n"
  shows "\<exists>b \<in> set bs. {p ..< p + n} \<subseteq> pages_of b"
  using assms(2,3)
proof (induction n)
  case (Suc n)
  show ?case
  proof (cases n)
    case 0
    then show ?thesis using Suc.prems by (auto simp: cover_def)
  next
    case (Suc k)
    have "{p ..< p + n} \<subseteq> cover bs" using Suc.prems(1) by force
    then obtain b where b: "b \<in> set bs" "{p ..< p + n} \<subseteq> pages_of b"
      using Suc.IH Suc by blast
    have "p + n \<in> cover bs" using Suc.prems(1) by force
    then obtain c where c: "c \<in> set bs" "p + n \<in> pages_of c"
      unfolding cover_def by blast
    have "p + k \<in> pages_of b" using b(2) Suc by auto
    then have "b = c"
      using apart_gap [OF assms(1) b(1) c(1)] c(2) Suc by (force simp: gap_def pages_of_def)
    moreover have "{p ..< p + Suc n} = insert (p + n) {p ..< p + n}" by auto
    ultimately show ?thesis using b c by auto
  qed
qed simp

lemma spec_alloc_complete:
  assumes "apart bs" and "{p ..< p + n} \<subseteq> cover bs" and "0 < n"
  shows "spec_alloc n bs \<noteq> None"
proof -
  obtain b where b: "b \<in> set bs" "{p ..< p + n} \<subseteq> pages_of b"
    using run_in_block [OF assms] by blast
  have "p \<in> pages_of b" "p + n - 1 \<in> pages_of b" using b(2) assms(3) by auto
  then have "n \<le> snd b" by (auto simp: pages_of_def)
  then show ?thesis using b(1) spec_alloc_None [of n bs] by fastforce
qed

end
