(* ===== verification/PMM_Correct.thy ===== *)
theory PMM_Correct
  imports PMM First_Fit_Spec
begin

text \<open>
  The first-fit manager refines the abstract allocator of theory \<open>First_Fit_Spec\<close>.
  \<open>pmm_rel s bs\<close> relates a machine state to the list of its free blocks; it holds after
  \<^verbatim>\<open>initPMM\<close> and every operation keeps it.  In particular the pointer loops end, allocated
  blocks were free and are free no more, and released blocks are merged with their neighbours.
\<close>

definition heads :: "block list \<Rightarrow> list_node list" where
  "heads bs = map (\<lambda>b. PageN (fst b)) bs"

definition pmm_rel :: "'a pmm_scheme \<Rightarrow> block list \<Rightarrow> bool" where
  "pmm_rel s bs =
     (dlist (FreeLinks s) FreeHead (heads bs) \<and>
      (\<forall>b \<in> set bs. unat (property (Pages s (fst b))) = snd b \<and>
          fst b + snd b \<le> unat (PageCount s)) \<and>
      apart bs \<and>
      (\<forall>i < unat (PageCount s). bit (pg_flags (Pages s i)) PGP_property = (i \<in> fst ` set bs)) \<and>
      (\<forall>i \<in> cover bs. \<not> bit (pg_flags (Pages s i)) PGP_reserved) \<and>
      unat (free_page_count s) = total bs)"

section \<open>Frame facts\<close>

lemma heads_simps [simp]:
  "heads [] = []"
  "heads (b # bs) = PageN (fst b) # heads bs"
  "heads (xs @ ys) = heads xs @ heads ys"
  "PageN p \<in> set (heads bs) \<longleftrightarrow> p \<in> fst ` set bs"
  "FreeHead \<notin> set (heads bs)"
  by (auto simp: heads_def)

lemma upd_page_sel [simp]:
  "Pages (upd_page p f s) = (Pages s)(p := f (Pages s p))"
  "FreeLinks (upd_page p f s) = FreeLinks s"
  "PageCount (upd_page p f s) = PageCount s"
  "free_page_count (upd_page p f s) = free_page_count s"
  by (simp_all add: upd_page_def)

lemma upd_links_sel [simp]:
  "Pages (upd_links f s) = Pages s"
  "FreeLinks (upd_links f s) = f (FreeLinks s)"
  "PageCount (upd_links f s) = PageCount s"
  "free_page_count (upd_links f s) = free_page_count s"
  by (simp_all add: upd_links_def)

lemma pmm_rel_apart: "pmm_rel s bs \<Longrightarrow> apart bs"
  by (simp add: pmm_rel_def)

lemma pmm_rel_cover_bound: "pmm_rel s bs \<Longrightarrow> cover bs \<subseteq> {..< unat (PageCount s)}"
  by (fastforce simp: pmm_rel_def cover_def pages_of_def)

lemma pmm_rel_heads:
  "pmm_rel s bs \<Longrightarrow> b \<in> set bs \<Longrightarrow> fst b \<in> cover bs"
  using apart_pos [of bs b] by (force simp: pmm_rel_def cover_def pages_of_def)

text \<open>The free list determines the blocks.\<close>

lemma pmm_rel_unique:
  assumes "pmm_rel s bs" and "pmm_rel s cs"
  shows "bs = cs"
proof -
  have d: "dlist (FreeLinks s) FreeHead (heads bs)" "dlist (FreeLinks s) FreeHead (heads cs)"
    using assms by (simp_all add: pmm_rel_def)
  have "heads bs = heads cs" by (rule ll.rep_functional [OF d])
  then have "map (\<lambda>n. case n of PageN p \<Rightarrow> p) (heads bs) = map (\<lambda>n. case n of PageN p \<Rightarrow> p) (heads cs)"
    by simp
  then have f: "map fst bs = map fst cs"
    by (simp add: heads_def comp_def)
  have "bs = map (\<lambda>p. (p, unat (property (Pages s p)))) (map fst bs)" if "pmm_rel s bs" for bs
    using that by (auto simp: pmm_rel_def intro!: nth_equalityI)
  then show ?thesis using assms f by metis
qed

text \<open>
  What an allocator operation leaves alone: every other part of the state, the reserved marks,
  and the reference counts of the pages outside a given set.
\<close>

definition pmm_frame :: "nat set \<Rightarrow> 'a pmm_scheme \<Rightarrow> 'a pmm_scheme \<Rightarrow> bool" where
  "pmm_frame R s t \<longleftrightarrow>
     t = s\<lparr>Pages := Pages t, FreeLinks := FreeLinks t, free_page_count := free_page_count t\<rparr> \<and>
     (\<forall>i. bit (pg_flags (Pages t i)) PGP_reserved = bit (pg_flags (Pages s i)) PGP_reserved) \<and>
     (\<forall>i. i \<notin> R \<longrightarrow> ref (Pages t i) = ref (Pages s i))"

lemma pmm_frame_refl [simp]: "pmm_frame R s s"
  by (simp add: pmm_frame_def)

lemma pmm_frame_trans: "pmm_frame R s t \<Longrightarrow> pmm_frame R t u \<Longrightarrow> pmm_frame R s u"
  by (cases s, cases t, cases u) (simp add: pmm_frame_def)

lemma pmm_frame_mono: "pmm_frame R s t \<Longrightarrow> R \<subseteq> R' \<Longrightarrow> pmm_frame R' s t"
  unfolding pmm_frame_def by blast

lemma pmm_frame_PageCount: "pmm_frame R s t \<Longrightarrow> PageCount t = PageCount s"
  by (cases s, cases t) (simp add: pmm_frame_def)

section \<open>Allocation\<close>

lemma ff_find_fit_spec:
  assumes "dlist h FreeHead (heads (xs @ ys))"
    and "\<forall>b \<in> set (xs @ ys). unat (property (pgs (fst b))) = snd b"
  shows "ff_find_fit h pgs n (last (FreeHead # heads xs)) =
    Some (map_option fst (spec_alloc (unat n) ys))"
  using assms
proof (induction ys arbitrary: xs)
  case Nil
  then have "lp_next h (last (FreeHead # heads xs)) = FreeHead"
    using dlist_around [of h FreeHead "heads xs" "[]"] by simp
  then show ?case by (subst ff_find_fit.simps) (simp add: listGetNext_def)
next
  case (Cons y ys)
  obtain p m where y: "y = (p, m)" by fastforce
  have nx: "lp_next h (last (FreeHead # heads xs)) = PageN p"
    using dlist_around [of h FreeHead "heads xs" "heads (y # ys)"] Cons.prems y
    by simp
  have m: "unat (property (pgs p)) = m" using Cons.prems y by simp
  show ?case
  proof (cases "unat n \<le> m")
    case True
    then have "n \<le> property (pgs p)" using m by (simp add: word_le_nat_alt)
    then show ?thesis using True nx y by (subst ff_find_fit.simps) (simp add: listGetNext_def)
  next
    case False
    then have "\<not> n \<le> property (pgs p)" using m by (simp add: word_le_nat_alt)
    moreover have "ff_find_fit h pgs n (PageN p) = Some (map_option fst (spec_alloc (unat n) ys))"
      using Cons.IH [of "xs @ [y]"] Cons.prems y by simp
    ultimately show ?thesis
      using False nx y
      by (subst ff_find_fit.simps)
        (auto simp: listGetNext_def option.map_comp comp_def split_beta intro!: option.map_cong)
  qed
qed


text \<open>Other blocks start outside a given block.\<close>

lemma apart_heads_outside:
  assumes "apart (xs @ (p, m) # ys)" and "b \<in> set (xs @ ys)"
  shows "fst b \<notin> {p ..< p + m}" and "p \<noteq> fst b"
proof -
  have "gap (p, m) b" and "0 < snd b"
    using assms by (auto simp: apart_append gap_sym dest: apart_pos)
  then show "fst b \<notin> {p ..< p + m}" "p \<noteq> fst b" by (auto simp: gap_def)
qed

lemma ff_take_rel:
  assumes rel: "pmm_rel s bs" and sp: "spec_alloc (unat n) bs = Some (p, bs')" and n: "0 < n"
  shows "pmm_rel (ff_take p n s) bs'"
proof -
  obtain xs m ys where b: "bs = xs @ (p, m) # ys" "unat n \<le> m"
    "bs' = xs @ (if unat n < m then [(p + unat n, m - unat n)] else []) @ ys"
    using spec_alloc_split [OF sp] by blast
  have n0: "0 < unat n" using n by (simp add: word_less_nat_alt)
  have ap: "apart bs" using rel by (rule pmm_rel_apart)
  have pm: "unat (property (Pages s p)) = m" "p + m \<le> unat (PageCount s)"
    using rel b by (auto simp: pmm_rel_def)
  have lt: "n < property (Pages s p) \<longleftrightarrow> unat n < m"
    using pm by (simp add: word_less_nat_alt)
  have outside: "fst b \<notin> {p ..< p + m}" "fst b \<noteq> p" if "b \<in> set xs \<union> set ys" for b
    using apart_heads_outside [of xs p m ys b] ap b(1) that by auto
  let ?q = "p + unat n"
  let ?t = "ff_take p n s"
  have dl: "dlist (FreeLinks s) FreeHead (heads xs @ PageN p # heads ys)"
    using rel b by (simp add: pmm_rel_def)
  have links: "dlist (FreeLinks ?t) FreeHead (heads bs')"
  proof (cases "unat n < m")
    case True
    have "?q \<notin> fst ` (set xs \<union> set ys)"
      using outside True by force
    then have "PageN ?q \<notin> set (heads xs @ PageN p # heads ys)"
      using n0 by auto
    then have "dlist (listAdd (PageN p) (PageN ?q) (FreeLinks s)) FreeHead
        (heads xs @ PageN p # PageN ?q # heads ys)"
      using dlist_addAfter [OF dl, of "PageN ?q"] by (simp add: listAdd_def)
    then show ?thesis
      using dlist_del_split [of _ FreeHead "heads xs" "PageN p"] True lt b
      by (simp add: ff_take_def Let_def)
  next
    case False
    then show ?thesis
      using dlist_del_split [OF dl] lt b by (simp add: ff_take_def Let_def)
  qed
  have pages: "Pages ?t i =
      (if i = p then (Pages s p)\<lparr>pg_flags := ClearBit (pg_flags (Pages s p)) 1, property := n\<rparr>
       else if i = ?q \<and> unat n < m
       then (Pages s i)\<lparr>pg_flags := SetBit (pg_flags (Pages s i)) 1,
              property := property (Pages s p) - n\<rparr>
       else Pages s i)" for i
    using lt n0 by (auto simp: ff_take_def Let_def)
  have cnt: "PageCount ?t = PageCount s" "free_page_count ?t = free_page_count s - n"
    by (simp_all add: ff_take_def Let_def)
  have "unat (free_page_count ?t) = total bs'"
  proof -
    have "unat (free_page_count s) = total bs' + unat n"
      using rel spec_alloc_cover(3) [OF sp ap] by (simp add: pmm_rel_def)
    then show ?thesis using cnt by (simp add: unat_sub word_le_nat_alt)
  qed
  moreover have "unat (property (Pages ?t (fst c))) = snd c \<and> fst c + snd c \<le> unat (PageCount ?t)"
    if "c \<in> set bs'" for c
  proof (cases "c \<in> set xs \<union> set ys")
    case True
    then have "unat (property (Pages s (fst c))) = snd c \<and> fst c + snd c \<le> unat (PageCount s)"
      using rel b(1) by (auto simp: pmm_rel_def)
    then show ?thesis using outside [OF True] by (auto simp: pages cnt)
  next
    case False
    then have "c = (?q, m - unat n)" "unat n < m" using that b by (auto split: if_splits)
    moreover have "unat (property (Pages s p) - n) = m - unat n"
      using pm b(2) by (simp add: unat_sub word_le_nat_alt)
    ultimately show ?thesis using pm n0 by (simp add: pages cnt)
  qed
  moreover have "bit (pg_flags (Pages ?t i)) 1 = (i \<in> fst ` set bs')" if "i < unat (PageCount ?t)" for i
  proof -
    have old: "bit (pg_flags (Pages s i)) 1 = (i \<in> fst ` set bs)"
      using rel that cnt by (simp add: pmm_rel_def)
    have "p \<notin> fst ` set bs'"
      using outside n0 b by (force split: if_splits)
    moreover have "i \<in> fst ` set bs' \<longleftrightarrow> (i \<in> fst ` set bs \<or> i = ?q \<and> unat n < m)" if "i \<noteq> p"
      using b that by (auto split: if_splits)
    ultimately show ?thesis using old by (auto simp: pages bit_ClearBit bit_SetBit)
  qed
  moreover have "\<not> bit (pg_flags (Pages ?t i)) 0" if "i \<in> cover bs'" for i
  proof -
    have "\<not> bit (pg_flags (Pages s i)) 0"
      using rel that spec_alloc_cover(2) [OF sp ap] by (auto simp: pmm_rel_def)
    then show ?thesis by (auto simp: pages bit_ClearBit bit_SetBit)
  qed
  ultimately show ?thesis
    using links spec_alloc_apart [OF sp ap n0] by (simp add: pmm_rel_def)
qed

lemma ff_take_frame: "pmm_frame {} s (ff_take p n s)"
  by (auto simp: ff_take_def Let_def pmm_frame_def upd_page_def upd_links_def bit_SetBit bit_ClearBit)

lemma ff_alloc_refines:
  assumes "pmm_rel s bs" and "0 < n"
  shows "case spec_alloc (unat n) bs of
      None \<Rightarrow> ff_alloc_pages n s = Ret (None, s)
    | Some (p, bs') \<Rightarrow>
        \<exists>s'. ff_alloc_pages n s = Ret (Some p, s') \<and> pmm_rel s' bs' \<and> pmm_frame {} s s'"
proof -
  have find: "ff_find_fit (FreeLinks s) (Pages s) n FreeHead =
      Some (map_option fst (spec_alloc (unat n) bs))"
    using ff_find_fit_spec [of "FreeLinks s" "[]" bs "Pages s" n] assms(1)
    by (simp add: pmm_rel_def)
  show ?thesis
  proof (cases "spec_alloc (unat n) bs")
    case None
    then show ?thesis using find assms(2) by (simp add: ff_alloc_pages_def)
  next
    case (Some r)
    obtain p bs' where r: "r = (p, bs')" by fastforce
    have "unat (free_page_count s) = total bs' + unat n"
      using assms(1) spec_alloc_cover(3) [of "unat n" bs p bs'] pmm_rel_apart [OF assms(1)] Some r
      by (simp add: pmm_rel_def)
    then have "\<not> free_page_count s < n" by (simp add: word_less_nat_alt)
    then show ?thesis
      using find assms Some r ff_take_rel [OF assms(1) _ assms(2)] ff_take_frame
      by (simp add: ff_alloc_pages_def)
  qed
qed


section \<open>Release\<close>

definition flag_clear :: "'a pmm_scheme \<Rightarrow> nat \<Rightarrow> bool" where
  "flag_clear s i = (\<not> bit (pg_flags (Pages s i)) PGP_reserved \<and> \<not> bit (pg_flags (Pages s i)) PGP_property)"

definition marked :: "nat \<Rightarrow> nat \<Rightarrow> 'a pmm_scheme \<Rightarrow> 'a pmm_scheme" where
  "marked k p s = s\<lparr>Pages := (\<lambda>i. if p \<le> i \<and> i < p + k then (Pages s i)\<lparr>pg_flags := 0, ref := 0\<rparr>
                               else Pages s i)\<rparr>"

lemma ff_free_mark_eq:
  "ff_free_mark k p s =
     (if \<forall>i \<in> {p ..< p + k}. flag_clear s i then Ret (marked k p s)
      else Panic ''free page's flags error!'')"
proof (induction k arbitrary: p s)
  case 0
  have "(\<lambda>i. if p \<le> i \<and> i < p + 0 then (Pages s i)\<lparr>pg_flags := 0, ref := 0\<rparr> else Pages s i) = Pages s"
    by (auto simp: fun_eq_iff)
  then show ?case by (simp add: marked_def)
next
  case (Suc k)
  let ?s = "upd_page p (\<lambda>pg. pg\<lparr>pg_flags := 0, ref := 0\<rparr>) s"
  have range: "{p ..< p + Suc k} = insert p {Suc p ..< Suc p + k}" by auto
  have "flag_clear ?s i = flag_clear s i" if "i \<in> {Suc p ..< Suc p + k}" for i
    using that by (simp add: flag_clear_def)
  moreover have "marked k (Suc p) ?s = marked (Suc k) p s"
    by (auto simp: marked_def upd_page_def fun_eq_iff)
  ultimately show ?case
    using Suc [of "Suc p" ?s] unfolding range by (simp add: GetBit_bit flag_clear_def)
qed

text \<open>The state of the merging loop: the block in hand and the blocks still listed.\<close>

definition hold :: "'a pmm_scheme \<Rightarrow> nat \<Rightarrow> nat \<Rightarrow> block list \<Rightarrow> bool" where
  "hold s b l bs =
     (dlist (FreeLinks s) FreeHead (heads bs) \<and>
      (\<forall>c \<in> set ((b, l) # bs). unat (property (Pages s (fst c))) = snd c \<and>
          fst c + snd c \<le> unat (PageCount s)) \<and>
      apart bs \<and> 0 < l \<and> (\<forall>c \<in> set bs. disjnt_blocks (b, l) c) \<and>
      (\<forall>i < unat (PageCount s). bit (pg_flags (Pages s i)) PGP_property = (i \<in> insert b (fst ` set bs))) \<and>
      (\<forall>i \<in> {b ..< b + l} \<union> cover bs. \<not> bit (pg_flags (Pages s i)) PGP_reserved))"

lemma listDel_next_self:
  assumes "dlist h l xs" and "e \<in> set xs"
  shows "listGetNext (listDel e h) e = listGetNext h e"
proof -
  obtain ys zs where xs: "xs = ys @ e # zs" using assms(2) split_list by metis
  then have "lp_prev h e = last (l # ys)"
    using assms(1) by (auto simp: dlist_def linked_append dest: linked_prev)
  moreover have "last (l # ys) \<noteq> e"
    using assms(1) xs by (cases ys rule: rev_cases) (auto simp: dlist_def)
  ultimately show ?thesis by (simp add: listGetNext_def listDel_def list_del_raw_def Let_def)
qed

text \<open>Both ways of merging: the block at \<open>r\<close> absorbs the one behind it at \<open>q\<close>.\<close>

definition absorb :: "nat \<Rightarrow> nat \<Rightarrow> nat \<Rightarrow> 'a pmm_scheme \<Rightarrow> 'a pmm_scheme" where
  "absorb p r q s =
     upd_links (listDel (PageN p))
       (upd_page q (\<lambda>pg. pg\<lparr>pg_flags := ClearBit (pg_flags pg) PGP_property\<rparr>)
         (upd_page r (\<lambda>pg. pg\<lparr>property := property pg + property (Pages s q)\<rparr>) s))"

lemma ff_merge_step_eq:
  "ff_merge_step b p s =
     (if b + unat (property (Pages s b)) = p then (b, absorb p b p s)
      else if p + unat (property (Pages s p)) = b then (p, absorb p p b s) else (b, s))"
  by (simp add: ff_merge_step_def absorb_def Let_def)

lemma hold_absorb:
  assumes hold: "hold s b l (xs @ (p, m) # ys)" and adj: "r + k = q"
    and which: "(r, k) = (b, l) \<and> (q, j) = (p, m) \<or> (r, k) = (p, m) \<and> (q, j) = (b, l)"
  shows "hold (absorb p r q s) r (k + j) (xs @ ys)"
proof -
  let ?s = "absorb p r q s"
  have l0: "0 < l" and ap: "apart (xs @ (p, m) # ys)"
    and dj: "\<forall>c \<in> set (xs @ (p, m) # ys). disjnt_blocks (b, l) c"
    using hold by (auto simp: hold_def)
  have m0: "0 < m" using apart_pos [OF ap, of "(p, m)"] by simp
  have ne: "r \<noteq> q" "0 < k" "0 < j" using adj which l0 m0 by auto
  have pr: "unat (property (Pages s r)) = k" "unat (property (Pages s q)) = j"
    "q + j \<le> unat (PageCount s)"
    using hold which by (auto simp: hold_def)
  have pages: "Pages ?s i = (if i = r then (Pages s r)\<lparr>property := property (Pages s r) + property (Pages s q)\<rparr>
      else if i = q then (Pages s q)\<lparr>pg_flags := ClearBit (pg_flags (Pages s q)) 1\<rparr> else Pages s i)" for i
    using ne by (simp add: absorb_def)
  have rest: "FreeLinks ?s = listDel (PageN p) (FreeLinks s)" "PageCount ?s = PageCount s"
    by (simp_all add: absorb_def)
  have out: "fst c \<noteq> r" "fst c \<noteq> q" "disjnt_blocks (r, k + j) c" if c: "c \<in> set (xs @ ys)" for c
  proof -
    have "gap (p, m) c" "disjnt_blocks (b, l) c" "0 < snd c"
      using c ap dj apart_pos [OF ap, of c] by (auto simp: apart_append gap_sym)
    then show "fst c \<noteq> r" "fst c \<noteq> q" "disjnt_blocks (r, k + j) c"
      using adj which l0 m0 by (auto simp: gap_def disjnt_blocks_def)
  qed
  have "dlist (FreeLinks ?s) FreeHead (heads (xs @ ys))"
    using hold dlist_del_split [of "FreeLinks s" FreeHead "heads xs" "PageN p" "heads ys"]
    by (simp add: hold_def rest)
  moreover have "unat (property (Pages s r) + property (Pages s q)) = k + j"
    using pr adj unat_u32_less [of "PageCount s"] by (subst unat_add_lem [THEN iffD1]) auto
  moreover have "unat (property (Pages ?s (fst c))) = snd c \<and> fst c + snd c \<le> unat (PageCount ?s)"
    if "c \<in> set (xs @ ys)" for c
    using hold that out [OF that] by (auto simp: hold_def pages rest)
  moreover have "apart (xs @ ys)" using ap by (auto simp: apart_append)
  moreover have "bit (pg_flags (Pages ?s i)) 1 = (i \<in> insert r (fst ` set (xs @ ys)))"
    if "i < unat (PageCount ?s)" for i
  proof -
    have "bit (pg_flags (Pages s i)) 1 = (i \<in> insert r (insert q (fst ` set (xs @ ys))))"
      using hold that which by (auto simp: hold_def rest)
    moreover have "q \<notin> insert r (fst ` set (xs @ ys))" using out ne by force
    ultimately show ?thesis by (auto simp: pages bit_ClearBit)
  qed
  moreover have "\<not> bit (pg_flags (Pages ?s i)) 0" if "i \<in> {r ..< r + (k + j)} \<union> cover (xs @ ys)" for i
  proof -
    have "i \<in> {b ..< b + l} \<union> cover (xs @ (p, m) # ys)"
      using that adj which by (auto simp: pages_of_def)
    then have "\<not> bit (pg_flags (Pages s i)) 0" using hold by (simp add: hold_def)
    then show ?thesis by (auto simp: pages bit_ClearBit)
  qed
  ultimately show ?thesis
    using ne pr adj out by (auto simp: hold_def pages rest)
qed

lemma absorb_next:
  assumes "hold s b l (xs @ (p, m) # ys)"
  shows "listGetNext (FreeLinks (absorb p r q s)) (PageN p) = hd (heads ys @ [FreeHead])"
proof -
  have "dlist (FreeLinks s) FreeHead (heads xs @ PageN p # heads ys)"
    using assms by (simp add: hold_def)
  then show ?thesis
    using listDel_next_self [of "FreeLinks s" FreeHead "heads xs @ PageN p # heads ys" "PageN p"]
      dlist_next_elem [of "FreeLinks s" FreeHead "heads xs" "PageN p" "heads ys"]
    by (simp add: absorb_def)
qed

lemma absorb_frame: "pmm_frame R s (absorb p r q s)" "free_page_count (absorb p r q s) = free_page_count s"
  by (simp_all add: pmm_frame_def absorb_def upd_page_def upd_links_def bit_ClearBit)

lemma ff_merge_spec:
  assumes "hold s b l (xs @ ys)" and "spec_merge b l ys = ((b', l'), ys')"
  shows "\<exists>t. ff_merge b (hd (heads ys @ [FreeHead])) s = Some (b', t) \<and> hold t b' l' (xs @ ys') \<and>
    pmm_frame R s t \<and> free_page_count t = free_page_count s"
  using assms
proof (induction ys arbitrary: s b l xs ys')
  case Nil
  then show ?case by (simp add: ff_merge.simps)
next
  case (Cons y ys)
  obtain p m where y: "y = (p, m)" by fastforce
  have h: "hold s b l (xs @ (p, m) # ys)" using Cons.prems y by simp
  then have pr: "unat (property (Pages s b)) = l" "unat (property (Pages s p)) = m"
    by (auto simp: hold_def)
  have nx: "listGetNext (FreeLinks s) (PageN p) = hd (heads ys @ [FreeHead])"
    using h dlist_next_elem [of "FreeLinks s" FreeHead "heads xs" "PageN p" "heads ys"]
    by (simp add: hold_def)
  consider (up) "b + l = p" | (down) "b + l \<noteq> p" "p + m = b" | (no) "b + l \<noteq> p" "p + m \<noteq> b"
    by blast
  then show ?case
  proof cases
    case up
    then have "hold (absorb p b p s) b (l + m) (xs @ ys)"
      using hold_absorb [OF h, of b l p m] by simp
    from Cons.IH [OF this] Cons.prems(2) y up
    obtain t where t: "ff_merge b (hd (heads ys @ [FreeHead])) (absorb p b p s) = Some (b', t)"
      "hold t b' l' (xs @ ys')" "pmm_frame R (absorb p b p s) t"
      "free_page_count t = free_page_count (absorb p b p s)" by auto
    have "ff_merge b (PageN p) s = Some (b', t)"
      using t(1) pr up absorb_next [OF h, of b p]
      by (subst ff_merge.simps) (simp add: ff_merge_step_eq)
    then show ?thesis using t y pmm_frame_trans [OF absorb_frame(1)] absorb_frame(2) by auto
  next
    case down
    then have "hold (absorb p p b s) p (m + l) (xs @ ys)"
      using hold_absorb [OF h, of p m b l] by simp
    from Cons.IH [OF this] Cons.prems(2) y down
    obtain t where t: "ff_merge p (hd (heads ys @ [FreeHead])) (absorb p p b s) = Some (b', t)"
      "hold t b' l' (xs @ ys')" "pmm_frame R (absorb p p b s) t"
      "free_page_count t = free_page_count (absorb p p b s)" by auto
    have "ff_merge b (PageN p) s = Some (b', t)"
      using t(1) pr down absorb_next [OF h, of p b]
      by (subst ff_merge.simps) (simp add: ff_merge_step_eq)
    then show ?thesis using t y pmm_frame_trans [OF absorb_frame(1)] absorb_frame(2) by auto
  next
    case no
    then obtain ys'' where ys'': "spec_merge b l ys = ((b', l'), ys'')" "ys' = (p, m) # ys''"
      using Cons.prems(2) y by (auto split: prod.splits)
    have "hold s b l ((xs @ [(p, m)]) @ ys)" using h by simp
    from Cons.IH [OF this ys''(1)]
    obtain t where t: "ff_merge b (hd (heads ys @ [FreeHead])) s = Some (b', t)"
      "hold t b' l' (xs @ ys')" "pmm_frame R s t" "free_page_count t = free_page_count s"
      using ys'' by auto
    have "ff_merge b (PageN p) s = Some (b', t)"
      using t(1) pr no nx by (subst ff_merge.simps) (simp add: ff_merge_step_eq)
    then show ?thesis using t y by auto
  qed
qed


lemma hold_start:
  assumes rel: "pmm_rel s bs" and n: "0 < n" and bound: "base + unat n \<le> unat (PageCount s)"
    and res: "\<forall>i \<in> {base ..< base + unat n}. \<not> bit (pg_flags (Pages s i)) PGP_reserved"
    and new: "{base ..< base + unat n} \<inter> cover bs = {}"
    and t: "t = upd_page base (\<lambda>pg. pg\<lparr>pg_flags := SetBit (pg_flags pg) PGP_property\<rparr>)
      (upd_page base (\<lambda>pg. pg\<lparr>property := n\<rparr>) (marked (unat n) base s))"
  shows "hold t base (unat n) bs"
proof -
  have n0: "0 < unat n" using n by (simp add: word_less_nat_alt)
  have pages: "Pages t i =
      (if i = base then (Pages s i)\<lparr>pg_flags := SetBit 0 1, property := n, ref := 0\<rparr>
       else if i \<in> {base ..< base + unat n} then (Pages s i)\<lparr>pg_flags := 0, ref := 0\<rparr> else Pages s i)" for i
    using n0 by (auto simp: t marked_def)
  have heads_out: "fst c \<notin> {base ..< base + unat n}" if "c \<in> set bs" for c
    using pmm_rel_heads [OF rel that] new by auto
  have rest: "FreeLinks t = FreeLinks s" "PageCount t = PageCount s"
    by (simp_all add: t marked_def)
  show ?thesis
    unfolding hold_def
  proof (intro conjI allI impI)
    show "dlist (FreeLinks t) FreeHead (heads bs)" "apart bs"
      using rel by (simp_all add: rest pmm_rel_def)
    show "\<forall>c \<in> set ((base, unat n) # bs). unat (property (Pages t (fst c))) = snd c \<and>
        fst c + snd c \<le> unat (PageCount t)"
      using rel bound heads_out n0 by (force simp: pages rest pmm_rel_def)
    show "0 < unat n" by (rule n0)
    show "\<forall>c \<in> set bs. disjnt_blocks (base, unat n) c"
      using disjnt_cover [OF pmm_rel_apart [OF rel] n0] new by blast
    show "bit (pg_flags (Pages t i)) 1 = (i \<in> insert base (fst ` set bs))" if "i < unat (PageCount t)" for i
    proof (cases "i \<in> {base ..< base + unat n}")
      case True
      then show ?thesis using heads_out by (force simp: pages bit_SetBit)
    next
      case False
      then show ?thesis using rel that n0 by (auto simp: pages rest pmm_rel_def)
    qed
    show "\<forall>i \<in> {base ..< base + unat n} \<union> cover bs. \<not> bit (pg_flags (Pages t i)) 0"
      using rel new by (auto simp: pages pmm_rel_def bit_SetBit)
  qed
qed

lemma hold_finish:
  assumes hold: "hold t b l bs" and ap: "apart ((b, l) # bs)"
    and cnt: "unat c = l + total bs"
  shows "pmm_rel (upd_links (listAdd FreeHead (PageN b)) (t\<lparr>free_page_count := c\<rparr>)) ((b, l) # bs)"
proof -
  have "b \<notin> fst ` set bs" using apart_distinct [OF ap] by simp
  then have "dlist (listAdd FreeHead (PageN b) (FreeLinks t)) FreeHead (PageN b # heads bs)"
    using hold by (intro dlist_add) (auto simp: hold_def)
  then show ?thesis
    using hold ap cnt by (auto simp: hold_def pmm_rel_def pages_of_def)
qed

lemma ff_free_refines:
  assumes rel: "pmm_rel s bs" and n: "0 < n" and bound: "base + unat n \<le> unat (PageCount s)"
    and res: "\<forall>i \<in> {base ..< base + unat n}. \<not> bit (pg_flags (Pages s i)) PGP_reserved"
    and new: "{base ..< base + unat n} \<inter> cover bs = {}"
  shows "\<exists>s'. ff_free_pages base n s = Ret s' \<and> pmm_rel s' (spec_free base (unat n) bs) \<and>
    pmm_frame {base ..< base + unat n} s s' \<and> (\<forall>i \<in> {base ..< base + unat n}. ref (Pages s' i) = 0)"
proof -
  have n0: "0 < unat n" using n by (simp add: word_less_nat_alt)
  have ap: "apart bs" using rel by (rule pmm_rel_apart)
  have "flag_clear s i" if "i \<in> {base ..< base + unat n}" for i
  proof -
    have "i \<notin> fst ` set bs" using that new pmm_rel_heads [OF rel] by auto
    then show ?thesis using rel res that bound by (simp add: flag_clear_def pmm_rel_def)
  qed
  then have mark: "ff_free_mark (unat n) base s = Ret (marked (unat n) base s)"
    by (simp add: ff_free_mark_eq)
  define t where "t = upd_page base (\<lambda>pg. pg\<lparr>pg_flags := SetBit (pg_flags pg) PGP_property\<rparr>)
      (upd_page base (\<lambda>pg. pg\<lparr>property := n\<rparr>) (marked (unat n) base s))"
  have h: "hold t base (unat n) bs" by (rule hold_start [OF rel n bound res new t_def])
  have t_only: "pmm_frame {base ..< base + unat n} s t" "free_page_count t = free_page_count s"
    using res n0 by (auto simp: t_def marked_def upd_page_def pmm_frame_def bit_SetBit)
  obtain b' l' bs' where sm: "spec_merge base (unat n) bs = ((b', l'), bs')"
    by (metis surj_pair)
  have nx: "listGetNext (FreeLinks t) FreeHead = hd (heads bs @ [FreeHead])"
    using h dlist_next [of "FreeLinks t" FreeHead "heads bs"] by (simp add: hold_def)
  have h': "hold t base (unat n) ([] @ bs)" using h by simp
  obtain u where u0: "ff_merge base (hd (heads bs @ [FreeHead])) t = Some (b', u) \<and>
      hold u b' l' ([] @ bs') \<and> pmm_frame {} t u \<and> free_page_count u = free_page_count t"
    using ff_merge_spec [OF h' sm] by blast
  then have u: "ff_merge base (listGetNext (FreeLinks t) FreeHead) t = Some (b', u)"
    "hold u b' l' bs'" "pmm_frame {} t u" "free_page_count u = free_page_count s"
    by (simp_all only: nx append_Nil t_only(2))
  let ?c = "free_page_count u + n"
  let ?s' = "upd_links (listAdd FreeHead (PageN b')) (u\<lparr>free_page_count := ?c\<rparr>)"
  have tot: "l' + total bs' = unat n + total bs" using spec_merge_cover [OF sm] by simp
  have ap': "apart ((b', l') # bs')"
    using spec_merge_apart [OF sm ap _ n0] h by (simp add: hold_def)
  have "unat n + total bs \<le> unat (PageCount s)"
  proof -
    have "cover (spec_free base (unat n) bs) \<subseteq> {..< unat (PageCount s)}"
      using spec_free_correct(2) [OF ap n0 new] pmm_rel_cover_bound [OF rel] bound by auto
    then have "card (cover (spec_free base (unat n) bs)) \<le> unat (PageCount s)"
      using card_mono [of "{..< unat (PageCount s)}"] by simp
    then show ?thesis
      using card_cover [OF spec_free_correct(1) [OF ap n0 new]] spec_free_correct(3) [OF ap n0 new]
      by simp
  qed
  then have "unat ?c = l' + total bs'"
    using rel u(4) tot unat_u32_less [of "PageCount s"] n0
    by (subst unat_add_lem [THEN iffD1]) (auto simp: pmm_rel_def)
  then have "pmm_rel ?s' (spec_free base (unat n) bs)"
    using hold_finish [OF u(2) ap'] sm by (simp add: spec_free_def)
  moreover have "ff_free_pages base n s = Ret ?s'"
    using n bound mark u(1) by (simp add: ff_free_pages_def Let_def t_def)
  moreover have "pmm_frame {base ..< base + unat n} s ?s'"
    using pmm_frame_trans [OF t_only(1) pmm_frame_mono [OF u(3)]]
    by (rule pmm_frame_trans) (simp_all add: pmm_frame_def upd_links_def)
  moreover have "\<forall>i \<in> {base ..< base + unat n}. ref (Pages ?s' i) = 0"
    using u(3) by (auto simp: pmm_frame_def upd_links_def t_def upd_page_def marked_def)
  ultimately show ?thesis by blast
qed


lemma ff_free_pages_panics:
  assumes "0 < n" and "base + unat n \<le> unat (PageCount s)"
    and "i \<in> {base ..< base + unat n}" and "\<not> flag_clear s i"
  shows "ff_free_pages base n s = Panic ''free page's flags error!''"
  using assms by (auto simp: ff_free_pages_def ff_free_mark_eq)

section \<open>Initialisation\<close>

lemma pages_reserve_eq:
  "pages_reserve k i s =
     s\<lparr>Pages := (\<lambda>j. if i \<le> j \<and> j < i + k then (Pages s j)\<lparr>pg_flags := 1\<rparr> else Pages s j)\<rparr>"
proof (induction k arbitrary: i s)
  case 0
  have "(\<lambda>j. if i \<le> j \<and> j < i + 0 then (Pages s j)\<lparr>pg_flags := 1\<rparr> else Pages s j) = Pages s"
    by (auto simp: fun_eq_iff)
  then show ?case by simp
next
  case (Suc k)
  show ?case by (auto simp: Suc upd_page_def SetBit_def fun_eq_iff)
qed

lemma memmap_clear_eq:
  "memmap_clear k p s =
     s\<lparr>Pages := (\<lambda>j. if p \<le> j \<and> j < p + k \<and> pg_flags (Pages s j) \<noteq> 0
                    then (Pages s j)\<lparr>pg_flags := 0, property := 0, ref := 0\<rparr> else Pages s j)\<rparr>"
proof (induction k arbitrary: p s)
  case 0
  have "(\<lambda>j. if p \<le> j \<and> j < p + 0 \<and> pg_flags (Pages s j) \<noteq> 0
      then (Pages s j)\<lparr>pg_flags := 0, property := 0, ref := 0\<rparr> else Pages s j) = Pages s"
    by (auto simp: fun_eq_iff)
  then show ?case by simp
next
  case (Suc k)
  have "Pages (memmap_clear (Suc k) p s) j = Pages (s\<lparr>Pages := (\<lambda>j. if p \<le> j \<and> j < p + Suc k \<and>
      pg_flags (Pages s j) \<noteq> 0 then (Pages s j)\<lparr>pg_flags := 0, property := 0, ref := 0\<rparr> else Pages s j)\<rparr>) j" for j
    by (cases "j = p") (auto simp: Suc upd_page_def)
  moreover have "memmap_clear (Suc k) p s = s\<lparr>Pages := Pages (memmap_clear (Suc k) p s)\<rparr>"
    by (simp add: Suc upd_page_def)
  ultimately show ?case by (metis (no_types, lifting) ext pmm.select_convs(4) pmm.surjective pmm.update_convs(4))
qed

lemma getMemInfo_sel [simp]:
  "Pages (getMemInfo mmap s) = Pages s"
  "FreeLinks (getMemInfo mmap s) = FreeLinks s"
  "free_page_count (getMemInfo mmap s) = free_page_count s"
proof -
  have "Pages (getMemInfo mmap s) = Pages s \<and> FreeLinks (getMemInfo mmap s) = FreeLinks s \<and>
      free_page_count (getMemInfo mmap s) = free_page_count s"
    unfolding getMemInfo_def by (induction mmap arbitrary: s) auto
  then show "Pages (getMemInfo mmap s) = Pages s" "FreeLinks (getMemInfo mmap s) = FreeLinks s"
    "free_page_count (getMemInfo mmap s) = free_page_count s" by simp_all
qed

lemma getMemInfo_same:
  "PhyMemSize s = PhyMemEnd s \<Longrightarrow> PhyMemSize (getMemInfo mmap s) = PhyMemEnd (getMemInfo mmap s)"
  unfolding getMemInfo_def by (induction mmap arbitrary: s) auto

lemma ff_memmap_init_rel:
  assumes n: "0 < n" and bound: "base + unat n \<le> unat (PageCount s)"
    and empty: "dlist (FreeLinks s) FreeHead []" "free_page_count s = 0"
    and flags: "\<forall>i < unat (PageCount s). pg_flags (Pages s i) = 1"
  shows "\<exists>t. ff_memmap_init base n s = Ret t \<and> pmm_rel t [(base, unat n)]"
proof -
  have n0: "0 < unat n" using n by (simp add: word_less_nat_alt)
  let ?t = "upd_links (listAdd FreeHead (PageN base))
    ((upd_page base (\<lambda>pg. pg\<lparr>pg_flags := SetBit (pg_flags pg) PGP_property\<rparr>)
       (upd_page base (\<lambda>pg. pg\<lparr>property := n\<rparr>) (memmap_clear (unat n) base s)))\<lparr>free_page_count := n\<rparr>)"
  have "ff_memmap_init base n s = Ret ?t"
    using n bound empty(2) by (simp add: ff_memmap_init_def Let_def memmap_clear_eq)
  moreover have pages: "Pages ?t i =
      (if i = base then (Pages s i)\<lparr>pg_flags := 2, property := n, ref := 0\<rparr>
       else if base \<le> i \<and> i < base + unat n then (Pages s i)\<lparr>pg_flags := 0, property := 0, ref := 0\<rparr>
       else Pages s i)" if "i < unat (PageCount s)" for i
    using that flags bound n0 by (auto simp: memmap_clear_eq SetBit_def)
  have base_lt: "base < unat (PageCount s)" using bound n0 by simp
  have bits: "bit (2 :: u32) i = (i = 1)" for i
    using bit_SetBit [of 0 1 i] by (auto simp: SetBit_def)
  moreover have "pmm_rel ?t [(base, unat n)]"
    unfolding pmm_rel_def
  proof (intro conjI allI impI)
    show "dlist (FreeLinks ?t) FreeHead (heads [(base, unat n)])"
      using dlist_add [OF empty(1), of "PageN base"] by (simp add: memmap_clear_eq)
    show "\<forall>b \<in> set [(base, unat n)]. unat (property (Pages ?t (fst b))) = snd b \<and>
        fst b + snd b \<le> unat (PageCount ?t)"
      using pages [OF base_lt] bound by (simp add: memmap_clear_eq)
    show "apart [(base, unat n)]" using n0 by simp
    show "bit (pg_flags (Pages ?t i)) 1 = (i \<in> fst ` set [(base, unat n)])"
      if "i < unat (PageCount ?t)" for i
      using that flags pages [of i] bits by (auto simp: memmap_clear_eq bit_1_iff)
    show "\<forall>i \<in> cover [(base, unat n)]. \<not> bit (pg_flags (Pages ?t i)) 0"
    proof
      fix i assume "i \<in> cover [(base, unat n)]"
      then have "base \<le> i" "i < base + unat n" by (auto simp: pages_of_def)
      then show "\<not> bit (pg_flags (Pages ?t i)) 0" using pages [of i] bits bound by auto
    qed
    show "unat (free_page_count ?t) = total [(base, unat n)]" by simp
  qed
  ultimately show ?thesis by blast
qed


section \<open>The allocator interface\<close>

text \<open>
  What the clients of the physical memory manager rely on: \<open>inv\<close> is the well-formedness of the
  state, \<open>free\<close> its set of free pages, \<open>managed\<close> the pages the allocator may hand out or take back,
  \<open>refs\<close> their reference counts.
\<close>

locale page_allocator =
  fixes inv :: "'s \<Rightarrow> bool"
    and free :: "'s \<Rightarrow> nat set"
    and managed :: "'s \<Rightarrow> nat set"
    and refs :: "'s \<Rightarrow> nat \<Rightarrow> u32"
    and alloc :: "u32 \<Rightarrow> 's \<Rightarrow> (nat option \<times> 's) kres"
    and release :: "nat \<Rightarrow> u32 \<Rightarrow> 's \<Rightarrow> 's kres"
  assumes free_managed: "inv s \<Longrightarrow> free s \<subseteq> managed s"
    and alloc_none: "inv s \<Longrightarrow> 0 < n \<Longrightarrow> (\<nexists>p. {p ..< p + unat n} \<subseteq> free s) \<Longrightarrow> alloc n s = Ret (None, s)"
    and alloc_some: "inv s \<Longrightarrow> 0 < n \<Longrightarrow> {q ..< q + unat n} \<subseteq> free s \<Longrightarrow>
      \<exists>p s'. alloc n s = Ret (Some p, s') \<and> inv s' \<and> {p ..< p + unat n} \<subseteq> free s \<and>
        free s' = free s - {p ..< p + unat n} \<and> managed s' = managed s \<and> refs s' = refs s"
    and release_ok: "inv s \<Longrightarrow> 0 < n \<Longrightarrow> {b ..< b + unat n} \<subseteq> managed s - free s \<Longrightarrow>
      \<exists>s'. release b n s = Ret s' \<and> inv s' \<and> free s' = free s \<union> {b ..< b + unat n} \<and>
        managed s' = managed s \<and> (\<forall>i. i \<notin> {b ..< b + unat n} \<longrightarrow> refs s' i = refs s i)"
begin

lemma alloc_total:
  assumes "inv s" and "0 < n"
  shows "\<exists>r s'. alloc n s = Ret (r, s') \<and> inv s' \<and> managed s' = managed s \<and> refs s' = refs s"
  using alloc_none [OF assms] alloc_some [OF assms] assms(1) by (metis (no_types, lifting))

lemma alloc_SomeD:
  assumes "inv s" and "0 < n" and "alloc n s = Ret (Some p, s')"
  shows "inv s'" and "{p ..< p + unat n} \<subseteq> free s" and "free s' = free s - {p ..< p + unat n}"
    and "managed s' = managed s" and "refs s' = refs s"
proof -
  have "\<exists>q. {q ..< q + unat n} \<subseteq> free s"
    using alloc_none [OF assms(1,2)] assms(3) by fastforce
  then show "inv s'" "{p ..< p + unat n} \<subseteq> free s" "free s' = free s - {p ..< p + unat n}"
    "managed s' = managed s" "refs s' = refs s"
    using alloc_some [OF assms(1,2)] assms(3) by force+
qed

lemma alloc_NoneD:
  assumes "inv s" and "0 < n" and "alloc n s = Ret (None, s')"
  shows "s' = s" and "\<not> {p ..< p + unat n} \<subseteq> free s"
proof -
  show no: "\<not> {p ..< p + unat n} \<subseteq> free s" for p
    using alloc_some [OF assms(1,2), of p] assms(3) by auto
  show "s' = s" using alloc_none [OF assms(1,2)] no assms(3) by auto
qed

text \<open>Two live blocks never share a page.\<close>

lemma alloc_alloc_disjoint:
  assumes "inv s" and "0 < n" and "0 < m" and "alloc n s = Ret (Some p, s1)"
    and "alloc m s1 = Ret (Some q, s2)"
  shows "{p ..< p + unat n} \<inter> {q ..< q + unat m} = {}"
proof -
  have "{q ..< q + unat m} \<subseteq> free s - {p ..< p + unat n}"
    using alloc_SomeD [OF assms(1,2,4)] alloc_SomeD(2) [of s1 m q s2] assms(3,5) by simp
  then show ?thesis by blast
qed

text \<open>Releasing what was allocated gives the free pages back.\<close>

lemma alloc_release:
  assumes "inv s" and "0 < n" and "alloc n s = Ret (Some p, s1)"
  shows "\<exists>s2. release p n s1 = Ret s2 \<and> inv s2 \<and> free s2 = free s"
proof -
  note a = alloc_SomeD [OF assms]
  have "{p ..< p + unat n} \<subseteq> managed s1 - free s1"
    using a free_managed [OF assms(1)] by auto
  then obtain s2 where "release p n s1 = Ret s2" "inv s2" "free s2 = free s1 \<union> {p ..< p + unat n}"
    using release_ok [OF a(1) assms(2)] by blast
  moreover have "free s1 \<union> {p ..< p + unat n} = free s" using a(2,3) by blast
  ultimately show ?thesis by blast
qed

end

definition pmm_inv :: "'a pmm_scheme \<Rightarrow> bool" where
  "pmm_inv s = (\<exists>bs. pmm_rel s bs)"

definition free_set :: "'a pmm_scheme \<Rightarrow> nat set" where
  "free_set s = (\<Union>p \<in> {p. p < unat (PageCount s) \<and> bit (pg_flags (Pages s p)) PGP_property}.
     {p ..< p + unat (property (Pages s p))})"

definition managed_set :: "'a pmm_scheme \<Rightarrow> nat set" where
  "managed_set s = {i. i < unat (PageCount s) \<and> \<not> bit (pg_flags (Pages s i)) PGP_reserved}"

lemma free_set_cover:
  assumes "pmm_rel s bs"
  shows "free_set s = cover bs"
proof -
  have "b < unat (PageCount s)" if "b \<in> fst ` set bs" for b
    using that pmm_rel_cover_bound [OF assms] pmm_rel_heads [OF assms] by blast
  moreover have "\<forall>i < unat (PageCount s). bit (pg_flags (Pages s i)) 1 = (i \<in> fst ` set bs)"
    and len: "\<forall>b \<in> set bs. unat (property (Pages s (fst b))) = snd b"
    using assms by (simp_all add: pmm_rel_def)
  ultimately have "{p. p < unat (PageCount s) \<and> bit (pg_flags (Pages s p)) 1} = fst ` set bs"
    by blast
  then show ?thesis
    using len by (simp add: free_set_def cover_def pages_of_def)
qed

lemma managed_set_frame: "pmm_frame R s t \<Longrightarrow> managed_set t = managed_set s"
  using pmm_frame_PageCount [of R s t] by (auto simp: managed_set_def pmm_frame_def)

interpretation pmm: page_allocator pmm_inv free_set managed_set "\<lambda>s i. ref (Pages s i)"
  allocPhyPages freePhyPages
proof unfold_locales
  fix s :: "'a pmm_scheme"
  assume "pmm_inv s"
  then obtain bs where bs: "pmm_rel s bs" by (auto simp: pmm_inv_def)
  then have "\<forall>i \<in> cover bs. \<not> bit (pg_flags (Pages s i)) PGP_reserved" by (simp add: pmm_rel_def)
  then show "free_set s \<subseteq> managed_set s"
    using free_set_cover [OF bs] pmm_rel_cover_bound [OF bs] by (auto simp: managed_set_def)
next
  fix s :: "'a pmm_scheme" and n :: u32
  assume inv: "pmm_inv s" and n: "0 < n" and no: "\<nexists>p. {p ..< p + unat n} \<subseteq> free_set s"
  obtain bs where bs: "pmm_rel s bs" using inv by (auto simp: pmm_inv_def)
  have "spec_alloc (unat n) bs = None"
  proof (rule ccontr)
    assume "spec_alloc (unat n) bs \<noteq> None"
    then obtain p bs' where "spec_alloc (unat n) bs = Some (p, bs')" by auto
    then show False
      using spec_alloc_cover(1) pmm_rel_apart [OF bs] no free_set_cover [OF bs] by metis
  qed
  then show "allocPhyPages n s = Ret (None, s)"
    using ff_alloc_refines [OF bs n] by (simp add: allocPhyPages_def)
next
  fix s :: "'a pmm_scheme" and n :: u32 and q
  assume inv: "pmm_inv s" and n: "0 < n" and q: "{q ..< q + unat n} \<subseteq> free_set s"
  obtain bs where bs: "pmm_rel s bs" using inv by (auto simp: pmm_inv_def)
  have "0 < unat n" using n by (simp add: word_less_nat_alt)
  then obtain p bs' where sp: "spec_alloc (unat n) bs = Some (p, bs')"
    using spec_alloc_complete [OF pmm_rel_apart [OF bs]] q free_set_cover [OF bs] by fastforce
  then obtain t where t: "ff_alloc_pages n s = Ret (Some p, t)" "pmm_rel t bs'" "pmm_frame {} s t"
    using ff_alloc_refines [OF bs n] by auto
  show "\<exists>p s'. allocPhyPages n s = Ret (Some p, s') \<and> pmm_inv s' \<and> {p ..< p + unat n} \<subseteq> free_set s \<and>
      free_set s' = free_set s - {p ..< p + unat n} \<and> managed_set s' = managed_set s \<and>
      (\<lambda>i. ref (Pages s' i)) = (\<lambda>i. ref (Pages s i))"
    using t spec_alloc_cover [OF sp pmm_rel_apart [OF bs]] free_set_cover [OF bs]
      free_set_cover [OF t(2)] managed_set_frame [OF t(3)]
    by (intro exI [of _ p] exI [of _ t]) (auto simp: allocPhyPages_def pmm_inv_def pmm_frame_def)
next
  fix s :: "'a pmm_scheme" and n :: u32 and b
  assume inv: "pmm_inv s" and n: "0 < n" and b: "{b ..< b + unat n} \<subseteq> managed_set s - free_set s"
  obtain bs where bs: "pmm_rel s bs" using inv by (auto simp: pmm_inv_def)
  have n0: "0 < unat n" using n by (simp add: word_less_nat_alt)
  then have "b + unat n - 1 \<in> {b ..< b + unat n}" by auto
  then have "b + unat n - 1 \<in> managed_set s" using b by blast
  then have bound: "b + unat n \<le> unat (PageCount s)" using n0 by (auto simp: managed_set_def)
  have new: "{b ..< b + unat n} \<inter> cover bs = {}" using b free_set_cover [OF bs] by auto
  obtain t where t: "ff_free_pages b n s = Ret t" "pmm_rel t (spec_free b (unat n) bs)"
    "pmm_frame {b ..< b + unat n} s t"
    using ff_free_refines [OF bs n bound _ new] b by (auto simp: managed_set_def)
  show "\<exists>s'. freePhyPages b n s = Ret s' \<and> pmm_inv s' \<and> free_set s' = free_set s \<union> {b ..< b + unat n} \<and>
      managed_set s' = managed_set s \<and> (\<forall>i. i \<notin> {b ..< b + unat n} \<longrightarrow> ref (Pages s' i) = ref (Pages s i))"
    using t spec_free_correct(2) [OF pmm_rel_apart [OF bs] n0 new] free_set_cover [OF bs]
      free_set_cover [OF t(2)] managed_set_frame [OF t(3)]
    by (intro exI [of _ t]) (auto simp: freePhyPages_def pmm_inv_def pmm_frame_def)
qed

lemma allocPhyPages_frame: "allocPhyPages n s = Ret (r, s') \<Longrightarrow> pmm_frame {} s s'"
  by (auto simp: allocPhyPages_def ff_alloc_pages_def kassert_def kbind_eq_Ret ff_take_frame
      split: if_splits option.splits)

text \<open>The interface at a single page, with the frame conditions the clients need.\<close>

lemma allocPhyPages_one:
  assumes "pmm_inv s"
  shows "allocPhyPages 1 s = Ret (None, s) \<and> free_set s = {} \<or>
    (\<exists>p s'. allocPhyPages 1 s = Ret (Some p, s') \<and> p \<in> free_set s \<and> free_set s' = free_set s - {p} \<and>
      pmm_inv s' \<and> pmm_frame {} s s')"
proof -
  obtain bs where bs: "pmm_rel s bs" using assms by (auto simp: pmm_inv_def)
  show ?thesis
  proof (cases "spec_alloc 1 bs")
    case None
    have "free_set s = {}"
    proof (rule ccontr)
      assume "free_set s \<noteq> {}"
      then obtain q where "{q ..< q + 1} \<subseteq> cover bs" using free_set_cover [OF bs] by auto
      then show False using spec_alloc_complete [OF pmm_rel_apart [OF bs], of q 1] None by auto
    qed
    then show ?thesis using ff_alloc_refines [OF bs, of 1] None by (simp add: allocPhyPages_def)
  next
    case (Some r)
    obtain p bs' where r: "r = (p, bs')" by fastforce
    then obtain t where t: "ff_alloc_pages 1 s = Ret (Some p, t)" "pmm_rel t bs'" "pmm_frame {} s t"
      using ff_alloc_refines [OF bs, of 1] Some by auto
    moreover have "free_set t = free_set s - {p}" "p \<in> free_set s"
      using spec_alloc_cover [OF Some [unfolded r] pmm_rel_apart [OF bs]] free_set_cover [OF bs]
        free_set_cover [OF t(2)] by auto
    ultimately show ?thesis by (auto simp: allocPhyPages_def pmm_inv_def)
  qed
qed

lemma freePhyPages_one:
  assumes "pmm_inv s" and p: "p \<in> managed_set s - free_set s"
  shows "\<exists>s'. freePhyPages p 1 s = Ret s' \<and> pmm_inv s' \<and> free_set s' = insert p (free_set s) \<and>
    pmm_frame {p} s s' \<and> ref (Pages s' p) = 0"
proof -
  obtain bs where bs: "pmm_rel s bs" using assms by (auto simp: pmm_inv_def)
  have new: "{p ..< p + unat (1 :: u32)} \<inter> cover bs = {}" using p free_set_cover [OF bs] by auto
  obtain t where t: "ff_free_pages p 1 s = Ret t" "pmm_rel t (spec_free p (unat (1 :: u32)) bs)"
    "pmm_frame {p ..< p + unat (1 :: u32)} s t" "\<forall>i \<in> {p ..< p + unat (1 :: u32)}. ref (Pages t i) = 0"
    using ff_free_refines [OF bs _ _ _ new] p by (auto simp: managed_set_def)
  then show ?thesis
    using spec_free_correct(2) [OF pmm_rel_apart [OF bs] _ new] free_set_cover [OF bs]
      free_set_cover [OF t(2)]
    by (intro exI [of _ t]) (auto simp: freePhyPages_def pmm_inv_def)
qed

section \<open>A sample state\<close>

text \<open>Eight pages: four reserved, then one free block of four.\<close>

definition sample_pmm :: pmm where
  "sample_pmm =
     \<lparr>PhyMemSize = 0x8000, PhyMemEnd = 0x8000, PageCount = 8,
      Pages = (\<lambda>i. \<lparr>pg_flags = (if i < 4 then 1 else if i = 4 then 2 else 0),
                     property = (if i = 4 then 4 else 0), ref = 0\<rparr>),
      PagesAddr = 0xC0003000, FreeMemStart = 0x4000,
      FreeLinks = \<lparr>lp_prev = (\<lambda>n. if n = FreeHead then PageN 4 else FreeHead),
                   lp_next = (\<lambda>n. if n = FreeHead then PageN 4 else FreeHead)\<rparr>,
      free_page_count = 4\<rparr>"

lemma sample_pmm_rel: "pmm_rel sample_pmm [(4, 4)]"
proof -
  have b: "bit (1 :: u32) 1 = False" "bit (2 :: u32) 1 = True" "bit (2 :: u32) 0 = False"
    by (simp_all add: bit_1_iff)
  show ?thesis
    unfolding pmm_rel_def using b
    by (auto simp: sample_pmm_def dlist_def pages_of_def)
qed

lemma sample_pmm_facts:
  "pmm_inv sample_pmm" "free_set sample_pmm = {4 ..< 8}" "managed_set sample_pmm \<supseteq> {4 ..< 8}"
proof -
  show inv: "pmm_inv sample_pmm" using sample_pmm_rel by (auto simp: pmm_inv_def)
  show f: "free_set sample_pmm = {4 ..< 8}"
    using free_set_cover [OF sample_pmm_rel] by (simp add: pages_of_def)
  show "managed_set sample_pmm \<supseteq> {4 ..< 8}" using pmm.free_managed [OF inv] f by simp
qed

section \<open>Properties\<close>

text \<open>
  C1: on a well-formed free list with the blocks \<open>bs\<close>, in the order of the list, \<^verbatim>\<open>allocPhyPages(n)\<close> returns.  If some
  \<open>n\<close> consecutive pages are free it takes the first \<open>n\<close> pages of the first block of the list that is large enough, whose
  remaining pages stay in its place; exactly these pages are no longer free.  Otherwise it returns a null pointer and
  changes nothing.
\<close>

theorem allocPhyPages_correct:
  assumes "pmm_rel s bs" and "0 < n"
  shows "if \<exists>q. {q ..< q + unat n} \<subseteq> free_set s
    then \<exists>us p m vs s'. bs = us @ (p, m) # vs \<and> (\<forall>b \<in> set us. snd b < unat n) \<and> unat n \<le> m \<and>
      allocPhyPages n s = Ret (Some p, s') \<and> pmm_rel s' (us @ (if unat n < m then [(p + unat n, m - unat n)] else []) @ vs) \<and>
      {p ..< p + unat n} \<subseteq> free_set s \<and> free_set s' = free_set s - {p ..< p + unat n}
    else allocPhyPages n s = Ret (None, s)"
proof (cases "\<exists>q. {q ..< q + unat n} \<subseteq> free_set s")
  case True
  then obtain p bs' where sp: "spec_alloc (unat n) bs = Some (p, bs')"
    using spec_alloc_complete [OF pmm_rel_apart [OF assms(1)]] free_set_cover [OF assms(1)] assms(2)
    by (fastforce simp: word_less_nat_alt)
  obtain s' where s': "allocPhyPages n s = Ret (Some p, s')" "pmm_rel s' bs'"
    using ff_alloc_refines [OF assms] sp by (auto simp: allocPhyPages_def)
  obtain us m vs where "bs = us @ (p, m) # vs" "unat n \<le> m" "\<forall>b \<in> set us. snd b < unat n"
    "bs' = us @ (if unat n < m then [(p + unat n, m - unat n)] else []) @ vs"
    using spec_alloc_split [OF sp] by blast
  moreover have "{p ..< p + unat n} \<subseteq> free_set s" "free_set s' = free_set s - {p ..< p + unat n}"
    using spec_alloc_cover(1,2) [OF sp pmm_rel_apart [OF assms(1)]] free_set_cover [OF assms(1)] free_set_cover [OF s'(2)] by simp_all
  ultimately show ?thesis unfolding if_P [OF True] using s' by blast
next
  case False
  moreover have "pmm_inv s" using assms(1) by (auto simp: pmm_inv_def)
  ultimately show ?thesis using pmm.alloc_none [OF _ assms(2)] by (simp only: if_False) blast
qed

theorem allocPhyPages_correct_witness:
  "\<exists>s'. allocPhyPages 2 sample_pmm = Ret (Some 4, s') \<and> pmm_rel s' [(6, 2)] \<and> free_set s' = {6 ..< 8}"
proof -
  have ex: "\<exists>q. {q ..< q + unat (2 :: u32)} \<subseteq> free_set sample_pmm"
    using sample_pmm_facts(2) by (intro exI [of _ 4]) auto
  obtain us p m vs s' where r: "[(4, 4)] = us @ (p, m) # vs" "allocPhyPages 2 sample_pmm = Ret (Some p, s')"
    "pmm_rel s' (us @ (if unat (2 :: u32) < m then [(p + unat (2 :: u32), m - unat (2 :: u32))] else []) @ vs)"
    "free_set s' = free_set sample_pmm - {p ..< p + unat (2 :: u32)}"
    using allocPhyPages_correct [OF sample_pmm_rel, of 2, unfolded if_P [OF ex]] by auto
  have "us = []" "p = 4" "m = 4" "vs = []" using r(1) by (cases us; auto)+
  moreover have "{4 ..< 8} - {4 ..< 6} = {6 ..< 8 :: nat}" by auto
  ultimately show ?thesis using r(2-4) sample_pmm_facts(2) by simp
qed

text \<open>
  C2: \<^verbatim>\<open>freePhyPages(base, n)\<close> on pages that are neither reserved nor free returns, keeps the free
  list well formed (blocks merged with their neighbours on both sides) and adds exactly these
  pages to the free ones.
\<close>

theorem freePhyPages_correct:
  assumes "pmm_inv s" and "0 < n" and "{base ..< base + unat n} \<subseteq> managed_set s - free_set s"
  shows "\<exists>s'. freePhyPages base n s = Ret s' \<and> pmm_inv s' \<and>
    free_set s' = free_set s \<union> {base ..< base + unat n} \<and> managed_set s' = managed_set s"
  using pmm.release_ok [OF assms] by blast

theorem freePhyPages_correct_witness:
  "\<exists>p s1 s2. allocPhyPages 2 sample_pmm = Ret (Some p, s1) \<and> freePhyPages p 2 s1 = Ret s2 \<and>
     free_set s2 = {4 ..< 8}"
proof -
  have "{4 ..< 4 + unat (2 :: u32)} \<subseteq> free_set sample_pmm"
    using sample_pmm_facts(2) by auto
  from pmm.alloc_some [OF sample_pmm_facts(1) _ this]
  obtain p s1 where a: "allocPhyPages 2 sample_pmm = Ret (Some p, s1)" "pmm_inv s1"
    "{p ..< p + unat (2 :: u32)} \<subseteq> free_set sample_pmm"
    "free_set s1 = free_set sample_pmm - {p ..< p + unat (2 :: u32)}"
    "managed_set s1 = managed_set sample_pmm" by auto
  have "{p ..< p + unat (2 :: u32)} \<subseteq> managed_set s1 - free_set s1"
    using a sample_pmm_facts by blast
  from freePhyPages_correct [OF a(2) _ this]
  obtain s2 where "freePhyPages p 2 s1 = Ret s2" "free_set s2 = free_set s1 \<union> {p ..< p + unat (2 :: u32)}"
    by auto
  then show ?thesis
    using a sample_pmm_facts(2) by (intro exI [of _ p] exI [of _ s1] exI [of _ s2] conjI) auto
qed

text \<open>
  What is allocated can be released, and the free pages are then what they were.
\<close>

theorem alloc_free_roundtrip:
  assumes "pmm_inv s" and "0 < n" and "allocPhyPages n s = Ret (Some p, s1)"
  shows "\<exists>s2. freePhyPages p n s1 = Ret s2 \<and> pmm_inv s2 \<and> free_set s2 = free_set s"
  using pmm.alloc_release [OF assms] .

theorem alloc_free_roundtrip_witness:
  "\<exists>p s1 s2. allocPhyPages 3 sample_pmm = Ret (Some p, s1) \<and> freePhyPages p 3 s1 = Ret s2 \<and>
     free_set s2 = {4 ..< 8}"
proof -
  have "{4 ..< 4 + unat (3 :: u32)} \<subseteq> free_set sample_pmm"
    using sample_pmm_facts(2) by auto
  then obtain p s1 where "allocPhyPages 3 sample_pmm = Ret (Some p, s1)"
    using pmm.alloc_some [OF sample_pmm_facts(1), of 3 4] by auto
  then show ?thesis
    using alloc_free_roundtrip [OF sample_pmm_facts(1), of 3 p s1] sample_pmm_facts(2) by auto
qed

text \<open>
  \<^verbatim>\<open>getFreeMem\<close> walks the whole list, returns, and reports 4096 times \<^verbatim>\<open>free_page_count\<close>,
  which is the number of free pages.
\<close>

theorem getFreeMem_correct:
  assumes "pmm_inv s"
  shows "getFreeMem s = Ret (free_page_count s * PGSIZE) \<and>
    unat (free_page_count s) = card (free_set s)"
proof -
  obtain bs where bs: "pmm_rel s bs" using assms by (auto simp: pmm_inv_def)
  have "listForEach (FreeLinks s) FreeHead = Some (heads bs)"
    using bs by (intro ll.rep_iter) (simp add: pmm_rel_def)
  moreover have "foldl (\<lambda>n i. n + node_property s i) a (heads bs) = a + of_nat (total bs)"
    if "\<forall>b \<in> set bs. unat (property (Pages s (fst b))) = snd b" for a bs
    using that
  proof (induction bs arbitrary: a)
    case (Cons b bs)
    have "property (Pages s (fst b)) = of_nat (snd b)"
      using Cons.prems u32_of_unat by (metis list.set_intros(1))
    then show ?case using Cons by (simp add: node_property_def)
  qed simp
  moreover have "of_nat (total bs) = free_page_count s"
    using bs u32_of_unat by (metis pmm_rel_def)
  ultimately have "getFreeMem s = Ret (free_page_count s * PGSIZE)"
    using bs by (simp add: getFreeMem_def pmm_rel_def)
  then show ?thesis
    using bs card_cover [OF pmm_rel_apart [OF bs]] free_set_cover [OF bs] by (simp add: pmm_rel_def)
qed


theorem getFreeMem_correct_witness: "getFreeMem sample_pmm = Ret 0x4000"
  using getFreeMem_correct [OF sample_pmm_facts(1)] by (simp add: sample_pmm_def)


text \<open>
  C3: booting.  When the multiboot map gives a memory top above the end of the page descriptor
  array, \<^verbatim>\<open>initPMM\<close> returns with a well-formed free list whose single block is all of the memory
  from \<^verbatim>\<open>FreeMemStart\<close> up.
\<close>

theorem initPMM_establishes:
  assumes mmap: "PhyMemSize s = PhyMemEnd s" "memtop = PhyMemSize (getMemInfo mmap s)"
    and start: "fms = ROUNDUP (ROUNDUP kern_end PGSIZE + 20 * (memtop div PGSIZE)) PGSIZE - KERNEL_BASE"
    and room: "fms + PGSIZE \<le> memtop" "fms \<le> fms + PGSIZE"
  shows "\<exists>t. initPMM mmap kern_end s = Ret t \<and> pmm_inv t \<and> FreeMemStart t = fms \<and>
    free_set t = {unat fms div 4096 ..< unat fms div 4096 + (unat memtop - unat fms) div 4096}"
proof -
  define s3 where "s3 = pagesInit kern_end (freeAreaInit (getMemInfo mmap s))"
  have tops: "PhyMemEnd (getMemInfo mmap s) = memtop"
    using getMemInfo_same [OF mmap(1)] mmap(2) by simp
  have sel: "PageCount s3 = memtop div PGSIZE" "FreeMemStart s3 = fms" "PhyMemEnd s3 = memtop"
    "FreeLinks s3 = initList FreeHead (FreeLinks s)" "free_page_count s3 = 0"
    using mmap tops start
    by (simp_all add: s3_def pagesInit_def pages_reserve_eq freeAreaInit_def ff_free_area_init_def
        upd_links_def Let_def)
  have flags: "\<forall>i < unat (PageCount s3). pg_flags (Pages s3 i) = 1"
    by (simp add: s3_def pagesInit_def pages_reserve_eq freeAreaInit_def ff_free_area_init_def
        upd_links_def Let_def)
  have le: "unat fms + 4096 \<le> unat memtop"
  proof -
    have "unat (fms + PGSIZE) = unat fms + 4096"
      using unat_plus_simple [THEN iffD1, OF room(2)] by simp
    then show ?thesis using room(1) by (simp add: word_le_nat_alt)
  qed
  let ?base = "unat fms div 4096" and ?n = "(memtop - fms) div PGSIZE"
  have n: "unat ?n = (unat memtop - unat fms) div 4096"
    using le by (simp add: unat_div_distrib unat_sub word_le_nat_alt)
  have pc: "unat (PageCount s3) = unat memtop div 4096"
    by (simp add: sel unat_div_distrib)
  have bound: "?base + unat ?n \<le> unat (PageCount s3)"
    unfolding n pc using le div_add1_eq [of "unat fms" "unat memtop - unat fms" 4096] by simp
  have "pa2page (FreeMemStart s3) s3 = Ret ?base"
  proof -
    have "unat (drop_bit 12 fms) = ?base"
      by (simp add: drop_bit_eq_div unat_div_distrib)
    then show ?thesis
      using bound by (simp add: pa2page_def sel(2) word_less_nat_alt)
  qed
  moreover have "0 < ?n" using n le by (simp add: word_less_nat_alt div_greater_zero_iff)
  then obtain t where t: "ff_memmap_init ?base ?n s3 = Ret t" "pmm_rel t [(?base, unat ?n)]"
    using ff_memmap_init_rel [OF _ bound _ _ flags] sel dlist_init by metis
  ultimately have "initPMM mmap kern_end s = Ret t"
    by (simp add: initPMM_def Let_def memmapInit_def sel flip: s3_def)
  moreover have "FreeMemStart t = fms"
    using t(1) sel(2) \<open>0 < ?n\<close> bound
    by (auto simp: ff_memmap_init_def Let_def memmap_clear_eq upd_page_def upd_links_def)
  ultimately show ?thesis
    using t(2) free_set_cover [OF t(2)] n by (auto simp: pmm_inv_def pages_of_def)
qed

theorem initPMM_establishes_witness:
  "\<exists>t. initPMM [\<lparr>base_addr_low = 0x100000, length_low = 0x1F00000, mmap_type = 1\<rparr>] 0xC0200000
         (sample_pmm\<lparr>PhyMemSize := 0, PhyMemEnd := 0\<rparr>) = Ret t \<and>
       pmm_inv t \<and> FreeMemStart t = 0x228000 \<and> free_set t = {552 ..< 8192}" (is "\<exists>t. initPMM ?m ?k ?s = _ \<and> _")
  using initPMM_establishes [where s = ?s and memtop = "0x2000000" and mmap = ?m and fms = "0x228000" and kern_end = ?k]
  by (simp add: getMemInfo_def ROUNDUP_def ROUNDDOWN_def sample_pmm_def)

text \<open>
  Releasing a block whose first page still heads a free block, or a range that contains a
  reserved page, stops the kernel: \<^verbatim>\<open>freePhyPages\<close> panics and never corrupts the list.
\<close>

theorem freePhyPages_rejects:
  assumes "0 < n" and "base + unat n \<le> unat (PageCount s)" and "i \<in> {base ..< base + unat n}"
    and "bit (pg_flags (Pages s i)) PGP_reserved \<or> bit (pg_flags (Pages s i)) PGP_property"
  shows "freePhyPages base n s = Panic ''free page's flags error!''"
  unfolding freePhyPages_def using assms
  by (intro ff_free_pages_panics [of n base s i]) (auto simp: flag_clear_def)

theorem freePhyPages_rejects_witness:
  "freePhyPages 4 2 sample_pmm = Panic ''free page's flags error!''"
proof -
  have "bit (2 :: u32) 1" by simp
  then show ?thesis
    using freePhyPages_rejects [of 2 4 sample_pmm 4] by (simp add: sample_pmm_def)
qed

end
