(* ===== verification/Kmalloc.thy ===== *)
theory Kmalloc
  imports PMM_Correct
begin

text \<open>
  The kernel heap in use, \<^verbatim>\<open>kmalloc\<close> and \<^verbatim>\<open>kfree\<close> of \<^verbatim>\<open>kern/mm/kmalloc.c\<close>: whole pages from the
  physical memory manager, addressed through the kernel's direct mapping.  The bucket size
  computation of the older allocator in the same file is modelled too.

  \<^verbatim>\<open>dokmalloc2\<close> converts the result of \<^verbatim>\<open>allocPhyPages\<close> to an address without testing it; the
  subtraction of a null pointer from \<^verbatim>\<open>Pages\<close> is not defined in C, hence \<open>Undef\<close> on that branch.
\<close>

definition dokmalloc2 :: "u32 \<Rightarrow> 'a pmm_scheme \<Rightarrow> (ptr \<times> 'a pmm_scheme) kres" where
  "dokmalloc2 bytes s =
     (let pagen = ROUNDUP bytes 4096 div PGSIZE
      in kbind (allocPhyPages pagen s) (\<lambda>(paddr, s1).
           case paddr of
             None \<Rightarrow> Undef
           | Some page \<Rightarrow> Ret (page2pa page + KERNEL_BASE, s1)))"

definition dokfree2 :: "ptr \<Rightarrow> u32 \<Rightarrow> 'a pmm_scheme \<Rightarrow> 'a pmm_scheme kres" where
  "dokfree2 vaddr bytes s =
     (let pagen = ROUNDUP bytes 4096 div PGSIZE;
          vaddr2 = vaddr - KERNEL_BASE
      in kbind (pa2page vaddr2 s) (\<lambda>page. freePhyPages page pagen s))"

definition kmalloc :: "u32 \<Rightarrow> 'a pmm_scheme \<Rightarrow> (ptr \<times> 'a pmm_scheme) kres" where
  "kmalloc bytes s = dokmalloc2 bytes s"

definition kfree :: "ptr \<Rightarrow> u32 \<Rightarrow> 'a pmm_scheme \<Rightarrow> 'a pmm_scheme kres" where
  "kfree vaddr bytes s = dokfree2 vaddr bytes s"

text \<open>\<^verbatim>\<open>getBucketSlot\<close>: the loop doubles \<open>n\<close> from 16 while it is at most a page.\<close>

function bucket_slot_loop :: "int \<Rightarrow> int \<Rightarrow> int \<Rightarrow> int" where
  "bucket_slot_loop sz n i =
     (if 0 < n \<and> n * 2 \<le> 4096
      then if sz \<le> n * 2 then i else bucket_slot_loop sz (n * 2) (i + 1)
      else -1)"
  by pat_completeness auto
termination
  by (relation "measure (\<lambda>(sz, n, i). nat (4096 - n))") auto

definition getBucketSlot :: "int \<Rightarrow> int" where
  "getBucketSlot sz = (if sz \<le> 0 then -1 else bucket_slot_loop sz 16 0)"

section \<open>Pages and addresses\<close>

definition npages :: "u32 \<Rightarrow> nat" where
  "npages bytes = (unat bytes + 4095) div 4096"

lemma unat_npages:
  assumes "unat bytes \<le> 0xFFFFF000"
  shows "unat (ROUNDUP bytes 4096 div PGSIZE) = npages bytes"
proof -
  have "unat (ROUNDUP bytes 4096) =
      (unat bytes + unat (4096 :: u32) - 1) - (unat bytes + unat (4096 :: u32) - 1) mod unat (4096 :: u32)"
    using assms by (intro unat_ROUNDUP) simp_all
  moreover have "unat bytes + unat (4096 :: u32) - 1 = unat bytes + 4095" and "unat (4096 :: u32) = 4096"
    by simp_all
  ultimately have "unat (ROUNDUP bytes 4096) = (unat bytes + 4095) - (unat bytes + 4095) mod 4096"
    by (simp only:)
  then show ?thesis
    by (simp add: unat_div_distrib npages_def minus_mod_eq_mult_div)
qed

lemma npages_pos: "0 < bytes \<Longrightarrow> 0 < npages bytes"
  by (simp add: npages_def word_less_nat_alt)

text \<open>The direct mapping covers the pages below 2 to the 18: their kernel addresses do not wrap.\<close>

lemma unat_page2pa: "page < 0x40000 \<Longrightarrow> unat (page2pa page) = page * 4096"
  by (simp add: page2pa_def page2pagen_def push_bit_eq_mult unat_word_ariths unsigned_of_nat take_bit_eq_mod)

lemma kernel_addr:
  assumes "page < 0x40000"
  shows "unat (page2pa page + KERNEL_BASE) = page * 4096 + 0xC0000000"
    and "page2pa page + KERNEL_BASE - KERNEL_BASE = page2pa page"
    and "unat (drop_bit 12 (page2pa page)) = page"
  using unat_page2pa [OF assms] assms
  by (simp_all add: unat_word_ariths drop_bit_eq_div unat_div_distrib)

section \<open>Allocation and release of kernel objects\<close>

lemma free_set_bound: "pmm_inv s \<Longrightarrow> p \<in> free_set s \<Longrightarrow> p < unat (PageCount s)"
  using pmm.free_managed by (fastforce simp: managed_set_def)

lemma ROUNDUP_pages_pos:
  assumes "0 < bytes" and "unat bytes \<le> 0xFFFFF000"
  shows "0 < ROUNDUP bytes 4096 div PGSIZE"
  using npages_pos [OF assms(1)] unat_npages [OF assms(2)] by (simp add: word_less_nat_alt)

lemma kmalloc_Ret:
  assumes inv: "pmm_inv s" and b: "0 < bytes" "unat bytes \<le> 0xFFFFF000"
    and k: "kmalloc bytes s = Ret (v, s')"
  shows "\<exists>page. v = page2pa page + KERNEL_BASE \<and> {page ..< page + npages bytes} \<subseteq> free_set s \<and>
    free_set s' = free_set s - {page ..< page + npages bytes} \<and> pmm_inv s' \<and>
    managed_set s' = managed_set s \<and> allocPhyPages (ROUNDUP bytes 4096 div PGSIZE) s = Ret (Some page, s')"
proof -
  obtain page where a: "allocPhyPages (ROUNDUP bytes 4096 div PGSIZE) s = Ret (Some page, s')"
    "v = page2pa page + KERNEL_BASE"
    using k by (auto simp: kmalloc_def dokmalloc2_def kbind_eq_Ret split: option.splits)
  show ?thesis
    using pmm.alloc_SomeD [OF inv ROUNDUP_pages_pos [OF b] a(1)] unat_npages [OF b(2)] a by auto
qed

lemma kmalloc_frame: "kmalloc bytes s = Ret (v, s') \<Longrightarrow> pmm_frame {} s s'"
  by (auto simp: kmalloc_def dokmalloc2_def kbind_eq_Ret split: option.splits dest: allocPhyPages_frame)

lemma kmalloc_Some:
  assumes inv: "pmm_inv s" and b: "0 < bytes" "unat bytes \<le> 0xFFFFF000"
    and room: "{q ..< q + npages bytes} \<subseteq> free_set s"
  shows "\<exists>v s'. kmalloc bytes s = Ret (v, s')"
  using pmm.alloc_some [OF inv ROUNDUP_pages_pos [OF b], of q] room unat_npages [OF b(2)]
  by (auto simp: kmalloc_def dokmalloc2_def)

lemma kmalloc_kfree:
  assumes inv: "pmm_inv s" and b: "0 < bytes" "unat bytes \<le> 0xFFFFF000"
    and mem: "unat (PageCount s) \<le> 0x40000" and k: "kmalloc bytes s = Ret (v, s1)"
  shows "\<exists>s2. kfree v bytes s1 = Ret s2 \<and> pmm_inv s2 \<and> free_set s2 = free_set s"
proof -
  obtain page where p: "v = page2pa page + KERNEL_BASE" "{page ..< page + npages bytes} \<subseteq> free_set s"
    "allocPhyPages (ROUNDUP bytes 4096 div PGSIZE) s = Ret (Some page, s1)"
    "managed_set s1 = managed_set s"
    using kmalloc_Ret [OF inv b k] by blast
  have "page \<in> free_set s" using p(2) npages_pos [OF b(1)] by auto
  then have lt: "page < unat (PageCount s)" using free_set_bound [OF inv] by blast
  have "page \<in> managed_set s1"
    using p(4) \<open>page \<in> free_set s\<close> pmm.free_managed [OF inv] by auto
  then have "pa2page (v - KERNEL_BASE) s1 = Ret page"
    using kernel_addr [of page] lt mem p(1)
    by (simp add: pa2page_def word_less_nat_alt managed_set_def)
  then show ?thesis
    using pmm.alloc_release [OF inv ROUNDUP_pages_pos [OF b] p(3)]
    by (simp add: kfree_def dokfree2_def)
qed


lemma kmalloc_Undef:
  assumes inv: "pmm_inv s" and b: "0 < bytes" "unat bytes \<le> 0xFFFFF000"
    and full: "\<nexists>q. {q ..< q + npages bytes} \<subseteq> free_set s"
  shows "kmalloc bytes s = Undef"
  using pmm.alloc_none [OF inv ROUNDUP_pages_pos [OF b]] full unat_npages [OF b(2)]
  by (simp add: kmalloc_def dokmalloc2_def)

lemma bucket_slot_loop_spec:
  assumes "0 < sz" and "sz \<le> 4096" and "j \<le> 8" and "16 * 2 ^ j < sz \<or> j = 0"
  shows "\<exists>i. bucket_slot_loop sz (16 * 2 ^ j) (int j) = int i \<and> i < 8 \<and> sz \<le> 32 * 2 ^ i \<and>
    (i = 0 \<or> 16 * 2 ^ i < sz)"
  using assms
proof (induction "8 - j" arbitrary: j)
  case 0
  then have "j = 8" by simp
  then show ?case using 0 by simp
next
  case (Suc k)
  then have j: "j < 8" by simp
  have "(2 :: int) ^ j \<le> 2 ^ 7" using j by (intro power_increasing) auto
  then have le: "16 * 2 ^ j * 2 \<le> (4096 :: int)" by simp
  show ?case
  proof (cases "sz \<le> 32 * 2 ^ j")
    case True
    then have "bucket_slot_loop sz (16 * 2 ^ j) (int j) = int j"
      using le by (subst bucket_slot_loop.simps) simp
    then show ?thesis using True j Suc.prems by auto
  next
    case False
    then have "bucket_slot_loop sz (16 * 2 ^ j) (int j) = bucket_slot_loop sz (16 * 2 ^ Suc j) (int (Suc j))"
      using le by (subst bucket_slot_loop.simps) (simp add: algebra_simps)
    then show ?thesis using Suc.hyps(1) [of "Suc j"] Suc.hyps(2) Suc.prems False j by auto
  qed
qed

section \<open>Properties\<close>

text \<open>
  memory obtained with \<^verbatim>\<open>kmalloc\<close> and given back with \<^verbatim>\<open>kfree\<close> of the same size leaves the set
  of free pages as it was, on machines with at most 1GB.
\<close>

theorem kmalloc_kfree_roundtrip:
  assumes "pmm_inv s" and "0 < bytes" and "unat bytes \<le> 0xFFFFF000"
    and "unat (PageCount s) \<le> 0x40000" and "{q ..< q + npages bytes} \<subseteq> free_set s"
  shows "\<exists>v s1 s2. kmalloc bytes s = Ret (v, s1) \<and> kfree v bytes s1 = Ret s2 \<and>
    pmm_inv s2 \<and> free_set s2 = free_set s"
  using kmalloc_Some [OF assms(1-3,5)] kmalloc_kfree [OF assms(1-4)] by blast

theorem kmalloc_kfree_roundtrip_witness:
  "\<exists>v s1 s2. kmalloc 5000 sample_pmm = Ret (v, s1) \<and> kfree v 5000 s1 = Ret s2 \<and> free_set s2 = {4 ..< 8}"
proof -
  have "{4 ..< 4 + npages 5000} \<subseteq> free_set sample_pmm"
    using sample_pmm_facts(2) by (simp add: npages_def)
  then show ?thesis
    using kmalloc_kfree_roundtrip [OF sample_pmm_facts(1), of 5000 4] sample_pmm_facts(2)
    by (auto simp: sample_pmm_def)
qed

text \<open>
  \<^verbatim>\<open>kmalloc\<close> cannot report exhaustion.  When it returns, the address is a page-aligned
  kernel address, never null; when no run of pages is free it does not return a null pointer
  either, it computes an address from one.  A request of 0 bytes panics.
\<close>

theorem kmalloc_never_null:
  assumes "pmm_inv s" and "unat bytes \<le> 0xFFFFF000" and "unat (PageCount s) \<le> 0x40000"
  shows "if bytes = 0 then kmalloc bytes s = Panic ''alloc:n is must greater than 0!''
    else if \<exists>q. {q ..< q + npages bytes} \<subseteq> free_set s
    then \<exists>v s'. kmalloc bytes s = Ret (v, s') \<and> v \<noteq> NULL \<and> KERNEL_BASE \<le> v \<and> v mod PGSIZE = 0
    else kmalloc bytes s = Undef"
proof -
  have zero: "kmalloc 0 s = Panic ''alloc:n is must greater than 0!''"
    by (simp add: kmalloc_def dokmalloc2_def ROUNDUP_def ROUNDDOWN_def allocPhyPages_def
        ff_alloc_pages_def)
  have addr: "v \<noteq> NULL \<and> KERNEL_BASE \<le> v \<and> v mod PGSIZE = 0"
    if b0: "0 < bytes" and k: "kmalloc bytes s = Ret (v, s')" for v s'
  proof -
    obtain page where p: "v = page2pa page + KERNEL_BASE" "{page ..< page + npages bytes} \<subseteq> free_set s"
      using kmalloc_Ret [OF assms(1) b0 assms(2) k] by blast
    have "page \<in> free_set s" using p(2) npages_pos [OF b0] by auto
    then have "page < 0x40000" using free_set_bound [OF assms(1)] assms(3) by fastforce
    then have v: "unat v = page * 4096 + 0xC0000000" using kernel_addr(1) p(1) by simp
    then have "unat (v mod PGSIZE) = 0" by (simp add: unat_mod_distrib)
    moreover have "v \<noteq> 0" using v by auto
    ultimately show ?thesis using v by (simp add: word_le_nat_alt unat_eq_zero)
  qed
  show ?thesis
  proof (cases "bytes = 0")
    case True
    then show ?thesis using zero by simp
  next
    case False
    then have b: "0 < bytes" by (simp add: word_gt_0)
    show ?thesis
      using False kmalloc_Some [OF assms(1) b assms(2)] kmalloc_Undef [OF assms(1) b assms(2)] addr [OF b]
      by (metis (no_types, lifting))
  qed
qed

theorem kmalloc_never_null_witness: "kmalloc 20000 sample_pmm = Undef"
proof -
  have "\<not> {q ..< q + 5} \<subseteq> {4 ..< 8 :: nat}" for q
  proof
    assume "{q ..< q + 5} \<subseteq> {4 ..< 8}"
    then have "q \<in> {4 ..< 8}" "q + 4 \<in> {4 ..< 8}" by auto
    then show False by simp
  qed
  then show ?thesis
    using kmalloc_never_null [OF sample_pmm_facts(1), of 20000] sample_pmm_facts(2)
    by (simp add: npages_def sample_pmm_def split: if_splits)
qed

text \<open>
  \<^verbatim>\<open>getBucketSlot\<close> returns the index of the smallest bucket (32 bytes doubled up to a page)
  that holds the request, and -1 exactly for sizes that no bucket serves.
\<close>

theorem getBucketSlot_correct:
  "if 0 < sz \<and> sz \<le> 4096
   then \<exists>i. getBucketSlot sz = int i \<and> i < 8 \<and> i = (LEAST k. sz \<le> 32 * 2 ^ k)
   else getBucketSlot sz = -1"
proof (cases "0 < sz \<and> sz \<le> 4096")
  case True
  then obtain i where i: "getBucketSlot sz = int i" "i < 8" "sz \<le> 32 * 2 ^ i" "i = 0 \<or> 16 * 2 ^ i < sz"
    using bucket_slot_loop_spec [of sz 0] by (auto simp: getBucketSlot_def)
  have "i \<le> k" if k: "sz \<le> 32 * 2 ^ k" for k
  proof (rule ccontr)
    assume "\<not> i \<le> k"
    then have "(2 :: int) ^ Suc k \<le> 2 ^ i" "i \<noteq> 0"
      using power_increasing [of "Suc k" i "2 :: int"] by simp_all
    then show False using i(4) k by auto
  qed
  then have "i = (LEAST k. sz \<le> 32 * 2 ^ k)"
    by (intro Least_equality [symmetric] i(3))
  then show ?thesis using True i by auto
next
  case False
  have "getBucketSlot sz = -1" if "4096 < sz"
    using that by (simp add: getBucketSlot_def bucket_slot_loop.simps)
  then show ?thesis using False by (auto simp: getBucketSlot_def)
qed

end
