(* ===== verification/Strings.thy ===== *)
theory Strings
  imports Prelude
begin

text \<open>
  The byte and string routines of \<^verbatim>\<open>kern/include/string.h\<close> on a byte-addressed memory.  The
  pointer loops keep their order of accesses, so overlapping buffers behave as in the source;
  loops that only end at a terminator are partial functions (\<open>None\<close>: they never end).
  Addresses are 32-bit words and wrap around.
\<close>

type_synonym memory = "ptr \<Rightarrow> u8"

section \<open>The routines\<close>

partial_function (option) strlen_loop :: "memory \<Rightarrow> ptr \<Rightarrow> int \<Rightarrow> int option" where
  "strlen_loop m src len = (if m src \<noteq> 0 then strlen_loop m (src + 1) (len + 1) else Some len)"

definition strlen :: "memory \<Rightarrow> ptr \<Rightarrow> int option" where
  "strlen m src = strlen_loop m src 0"

fun strnlen_loop :: "memory \<Rightarrow> ptr \<Rightarrow> nat \<Rightarrow> nat \<Rightarrow> nat" where
  "strnlen_loop m s cnt 0 = cnt"
| "strnlen_loop m s cnt (Suc k) = (if m s \<noteq> 0 then strnlen_loop m (s + 1) (Suc cnt) k else cnt)"

text \<open>The counter stays below \<open>len\<close>; the last argument of the loop is \<open>len - cnt\<close>.\<close>

definition strnlen :: "memory \<Rightarrow> ptr \<Rightarrow> u32 \<Rightarrow> u32" where
  "strnlen m s len = of_nat (strnlen_loop m s 0 (unat len))"

fun memcpy_loop :: "ptr \<Rightarrow> ptr \<Rightarrow> nat \<Rightarrow> memory \<Rightarrow> memory" where
  "memcpy_loop dest src 0 m = m"
| "memcpy_loop dest src (Suc k) m = memcpy_loop (dest + 1) (src + 1) k (m(dest := m src))"

text \<open>The memory after the copy; the returned pointer is the end of the destination.\<close>

definition memcpy :: "ptr \<Rightarrow> ptr \<Rightarrow> u32 \<Rightarrow> memory \<Rightarrow> ptr \<times> memory" where
  "memcpy dest src len m = (dest + len, memcpy_loop dest src (unat len) m)"

fun memset_loop :: "ptr \<Rightarrow> u8 \<Rightarrow> nat \<Rightarrow> memory \<Rightarrow> memory" where
  "memset_loop dst val 0 m = m"
| "memset_loop dst val (Suc k) m = memset_loop (dst + 1) val k (m(dst := val))"

definition memset :: "ptr \<Rightarrow> u8 \<Rightarrow> u32 \<Rightarrow> memory \<Rightarrow> ptr \<times> memory" where
  "memset dest val len m = (dest, memset_loop dest val (unat len) m)"

definition bzero :: "ptr \<Rightarrow> u32 \<Rightarrow> memory \<Rightarrow> memory" where
  "bzero dest len m = snd (memset dest 0 len m)"

partial_function (option) memcmp_loop :: "memory \<Rightarrow> ptr \<Rightarrow> ptr \<Rightarrow> int \<Rightarrow> int option" where
  "memcmp_loop m buffer1 buffer2 count =
     (if count - 1 \<noteq> 0 \<and> m buffer1 = m buffer2
      then memcmp_loop m (buffer1 + 1) (buffer2 + 1) (count - 1)
      else Some (uint (m buffer1) - uint (m buffer2)))"

definition memcmp :: "memory \<Rightarrow> ptr \<Rightarrow> ptr \<Rightarrow> int \<Rightarrow> int option" where
  "memcmp m buffer1 buffer2 count = (if count = 0 then Some 0 else memcmp_loop m buffer1 buffer2 count)"

text \<open>
  \<^verbatim>\<open>strcmp\<close>: \<open>ret\<close> is not initialised in the source; \<open>None\<close> in the loop's accumulator stands for
  that, and returning it is \<open>Undef\<close>.  \<^verbatim>\<open>char\<close> is signed on this target.
\<close>

partial_function (option) strcmp_loop :: "memory \<Rightarrow> ptr \<Rightarrow> ptr \<Rightarrow> u32 \<Rightarrow> int option \<Rightarrow> int option option" where
  "strcmp_loop m str1 str2 i ret =
     (if m (str1 + i) \<noteq> 0 \<or> m (str2 + i) \<noteq> 0
      then let d = sint (m (str1 + i)) - sint (m (str2 + i))
           in if d = 0 then strcmp_loop m str1 str2 (i + 1) (Some d) else Some (Some d)
      else Some ret)"

definition strcmp :: "memory \<Rightarrow> ptr \<Rightarrow> ptr \<Rightarrow> int kres" where
  "strcmp m str1 str2 =
     kbind (kloop (strcmp_loop m str1 str2 0 None)) (\<lambda>ret.
       case ret of None \<Rightarrow> Undef | Some d \<Rightarrow> Ret d)"

partial_function (option) strcpy_loop :: "ptr \<Rightarrow> ptr \<Rightarrow> u32 \<Rightarrow> memory \<Rightarrow> memory option" where
  "strcpy_loop dest src i m =
     (if m (src + i) \<noteq> 0 then strcpy_loop dest src (i + 1) (m(dest + i := m (src + i)))
      else Some (m(dest + i := 0)))"

definition strcpy :: "ptr \<Rightarrow> ptr \<Rightarrow> memory \<Rightarrow> (ptr \<times> memory) kres" where
  "strcpy dest src m =
     (if src = NULL \<or> dest = NULL then Ret (dest, m)
      else kbind (kloop (strcpy_loop dest src 0 m)) (\<lambda>m'. Ret (dest, m')))"

text \<open>In \<^verbatim>\<open>strcat\<close> the copy loop writes at \<open>dest + dst_len\<close>.\<close>

definition strcat :: "ptr \<Rightarrow> ptr \<Rightarrow> memory \<Rightarrow> (ptr \<times> memory) kres" where
  "strcat dest src m =
     (if src = NULL \<or> dest = NULL then Ret (dest, m)
      else kbind (kloop (strlen m dest)) (\<lambda>dst_len.
           kbind (kloop (strcpy_loop (dest + of_int dst_len) src 0 m)) (\<lambda>m'. Ret (dest, m'))))"

section \<open>Strings in memory\<close>

text \<open>\<open>cstr m p cs\<close>: the bytes \<open>cs\<close>, none of them 0, and a terminator are at \<open>p\<close>.\<close>

fun cstr :: "memory \<Rightarrow> ptr \<Rightarrow> u8 list \<Rightarrow> bool" where
  "cstr m p [] = (m p = 0)"
| "cstr m p (c # cs) = (c \<noteq> 0 \<and> m p = c \<and> cstr m (p + 1) cs)"

definition span :: "ptr \<Rightarrow> nat \<Rightarrow> ptr set" where
  "span p n = (\<lambda>i. p + of_nat i) ` {..<n}"

lemma span_0 [simp]: "span p 0 = {}"
  by (simp add: span_def)

lemma span_Suc: "span p (Suc n) = insert p (span (p + 1) n)"
  by (simp add: span_def lessThan_Suc_eq_insert_0 image_image algebra_simps)

lemma span_numeral: "span p (numeral k) = insert p (span (p + 1) (pred_numeral k))"
  by (simp add: numeral_eq_Suc span_Suc)

lemma in_span_iff: "n \<le> 2 ^ 32 \<Longrightarrow> (a \<in> span p n) = (unat (a - p) < n)"
proof
  assume n: "n \<le> 2 ^ 32"
  show "unat (a - p) < n" if a: "a \<in> span p n"
  proof -
    obtain i where i: "i < n" "a = p + of_nat i" using a by (auto simp: span_def)
    then have "unat (a - p) = i" using n by (simp add: unsigned_of_nat take_bit_eq_mod)
    then show ?thesis using i by simp
  qed
next
  assume "unat (a - p) < n"
  moreover have "a = p + of_nat (unat (a - p))" by simp
  ultimately show "a \<in> span p n" unfolding span_def by (intro image_eqI) auto
qed

lemma span_self: "0 < n \<Longrightarrow> p \<in> span p n"
  unfolding span_def by (rule image_eqI [of _ _ 0]) simp_all

lemma cstr_span: "(\<And>a. a \<in> span p (Suc (length cs)) \<Longrightarrow> m' a = m a) \<Longrightarrow> cstr m' p cs = cstr m p cs"
proof (induction cs arbitrary: p)
  case (Cons c cs)
  have "cstr m' (p + 1) cs = cstr m (p + 1) cs"
    by (rule Cons.IH, rule Cons.prems) (simp add: span_Suc)
  moreover have "m' p = m p" by (rule Cons.prems) (simp add: span_Suc)
  ultimately show ?case by simp
qed (simp add: span_Suc)

lemma strlen_loop_cstr: "cstr m p cs \<Longrightarrow> strlen_loop m p n = Some (n + int (length cs))"
proof (induction cs arbitrary: p n)
  case Nil
  then show ?case by (subst strlen_loop.simps) simp
next
  case (Cons c cs)
  then show ?case by (subst strlen_loop.simps) simp
qed

lemma strlen_cstr: "cstr m p cs \<Longrightarrow> strlen m p = Some (int (length cs))"
  by (simp add: strlen_def strlen_loop_cstr)

lemma strnlen_loop_cstr: "cstr m p cs \<Longrightarrow> strnlen_loop m p n k = n + min k (length cs)"
  by (induction k arbitrary: p n cs) (case_tac cs, auto)+

lemma strnlen_loop_le: "strnlen_loop m p n k \<le> n + k"
proof (induction k arbitrary: p n)
  case (Suc k)
  show ?case using Suc [of "p + 1" "Suc n"] by simp
qed simp

lemma memcpy_loop_other: "a \<notin> span d k \<Longrightarrow> memcpy_loop d s k m a = m a"
  by (induction k arbitrary: d s m) (auto simp: span_Suc)

lemma memset_loop_spec: "memset_loop d v k m a = (if a \<in> span d k then v else m a)"
  by (induction k arbitrary: d m) (auto simp: span_Suc)

text \<open>A forward copy is right when the source does not lie before the destination within reach.\<close>

lemma memcpy_loop_copied:
  assumes "k \<le> 2 ^ 32" and "span d k \<inter> span s k = {}" and "i < k"
  shows "memcpy_loop d s k m (d + of_nat i) = m (s + of_nat i)"
  using assms
proof (induction k arbitrary: d s m i)
  case 0
  then show ?case by simp
next
  case (Suc k)
  have k: "k \<le> 2 ^ 32" "span (d + 1) k \<inter> span (s + 1) k = {}"
    using Suc.prems by (auto simp: span_Suc)
  show ?case
  proof (cases i)
    case 0
    have "d \<notin> span (d + 1) k"
    proof -
      have "unat (d - (d + 1)) = 2 ^ 32 - 1" by (simp add: unsigned_minus_1_eq_mask mask_eq_exp_minus_1)
      then show ?thesis using Suc.prems(1) k(1) in_span_iff [of k d "d + 1"] by simp
    qed
    then show ?thesis using 0 by (simp add: memcpy_loop_other)
  next
    case (Suc j)
    have "j < k" using Suc Suc.prems(3) by simp
    have "s + 1 + of_nat j \<noteq> d"
    proof
      assume "s + 1 + of_nat j = d"
      then have "d \<in> span s (Suc k)"
        unfolding span_def using Suc \<open>j < k\<close> by (intro image_eqI [of _ _ i]) (simp_all add: algebra_simps)
      then show False using Suc.prems(2) span_self [of "Suc k" d] by blast
    qed
    then have "memcpy_loop (d + 1) (s + 1) k (m(d := m s)) (d + 1 + of_nat j) = m (s + 1 + of_nat j)"
      by (subst Suc.IH [OF k \<open>j < k\<close>]) simp
    then show ?thesis using Suc by (simp only: memcpy_loop.simps of_nat_Suc add.assoc)
  qed
qed

lemma notin_next_span: "k < 2 ^ 32 \<Longrightarrow> d \<notin> span (d + 1) k"
proof -
  assume k: "k < 2 ^ 32"
  have "unat (d - (d + 1)) = 2 ^ 32 - 1" by (simp add: unsigned_minus_1_eq_mask mask_eq_exp_minus_1)
  then show ?thesis using k in_span_iff [of k d "d + 1"] by simp
qed

lemma strcpy_loop_cstr:
  assumes "cstr m (src + i) cs" and "Suc (length cs) \<le> 2 ^ 32"
    and "span (dest + i) (Suc (length cs)) \<inter> span (src + i) (Suc (length cs)) = {}"
  shows "\<exists>m'. strcpy_loop dest src i m = Some m' \<and> cstr m' (dest + i) cs \<and>
    (\<forall>a. a \<notin> span (dest + i) (Suc (length cs)) \<longrightarrow> m' a = m a)"
  using assms
proof (induction cs arbitrary: i m)
  case Nil
  then show ?case by (subst strcpy_loop.simps) (auto simp: span_Suc)
next
  case (Cons c cs)
  let ?m = "m(dest + i := c)"
  have d: "dest + i \<notin> span (src + i) (Suc (Suc (length cs)))"
    using Cons.prems(3) span_self [of "Suc (Suc (length cs))" "dest + i"] by auto
  have "cstr ?m (src + i + 1) cs = cstr m (src + i + 1) cs"
    using d by (intro cstr_span) (auto simp: span_Suc)
  then have "cstr ?m (src + (i + 1)) cs" using Cons.prems(1) by (simp add: add.assoc)
  moreover have "span (dest + (i + 1)) (Suc (length cs)) \<inter> span (src + (i + 1)) (Suc (length cs)) = {}"
    using Cons.prems(3) by (auto simp: span_Suc [of _ "Suc (length cs)"] add.assoc)
  ultimately obtain m' where m': "strcpy_loop dest src (i + 1) ?m = Some m'"
    "cstr m' (dest + (i + 1)) cs"
    "\<forall>a. a \<notin> span (dest + (i + 1)) (Suc (length cs)) \<longrightarrow> m' a = ?m a"
    using Cons.IH [of ?m "i + 1"] Suc_leD Cons.prems(2) by (metis length_Cons)
  have "dest + i \<notin> span (dest + i + 1) (Suc (length cs))"
    using Cons.prems(2) by (intro notin_next_span) simp
  then have "m' (dest + i) = c" using m'(3) by (simp add: add.assoc)
  moreover have "strcpy_loop dest src i m = Some m'"
    using m'(1) Cons.prems(1) by (subst strcpy_loop.simps) simp
  moreover have "m' a = m a" if "a \<notin> span (dest + i) (Suc (length (c # cs)))" for a
    using m'(3) that by (auto simp: span_Suc [of _ "Suc (length cs)"] add.assoc)
  ultimately show ?case using m'(2) Cons.prems(1) by (auto simp: add.assoc)
qed

text \<open>What \<^verbatim>\<open>strcmp\<close> computes: the difference of the first characters that differ.\<close>

fun strdiff :: "u8 list \<Rightarrow> u8 list \<Rightarrow> int" where
  "strdiff [] [] = 0"
| "strdiff (x # xs) [] = sint x"
| "strdiff [] (y # ys) = - sint y"
| "strdiff (x # xs) (y # ys) = (if x = y then strdiff xs ys else sint x - sint y)"

lemma sint_diff_0: "(sint (x :: u8) - sint y = 0) = (x = y)"
  by (metis eq_iff_diff_eq_0 signed_word_eqI)

lemma strcmp_loop_cstr:
  assumes "cstr m (s1 + i) xs" and "cstr m (s2 + i) ys"
  shows "strcmp_loop m s1 s2 i ret = Some (if xs = [] \<and> ys = [] then ret else Some (strdiff xs ys))"
  using assms
proof (induction xs ys arbitrary: i ret rule: strdiff.induct)
  case 1
  then show ?case by (subst strcmp_loop.simps) simp
next
  case (2 x xs)
  then have "sint x \<noteq> 0" using sint_diff_0 [of x 0] by simp
  with 2 show ?case by (subst strcmp_loop.simps) simp
next
  case (3 y ys)
  then have "sint y \<noteq> 0" using sint_diff_0 [of y 0] by simp
  with 3 show ?case by (subst strcmp_loop.simps) simp
next
  case (4 x xs y ys)
  show ?case
  proof (cases "x = y")
    case True
    then have "strcmp_loop m s1 s2 i ret = strcmp_loop m s1 s2 (i + 1) (Some 0)"
      using 4 by (subst strcmp_loop.simps) simp
    then show ?thesis using 4 True by (auto simp: add.assoc)
  next
    case False
    then have "sint x - sint y \<noteq> 0" using sint_diff_0 by blast
    then show ?thesis using 4 False by (subst strcmp_loop.simps) (auto simp: Let_def)
  qed
qed

lemma strdiff_eq_0: "0 \<notin> set xs \<Longrightarrow> 0 \<notin> set ys \<Longrightarrow> (strdiff xs ys = 0) = (xs = ys)"
proof (induction xs ys rule: strdiff.induct)
  case (2 x xs)
  then show ?case using sint_diff_0 [of x 0] by simp
next
  case (3 y ys)
  then show ?case using sint_diff_0 [of y 0] by simp
next
  case (4 x xs y ys)
  then show ?case using sint_diff_0 [of x y] by auto
qed simp

lemma strdiff_less:
  "0 \<notin> set xs \<Longrightarrow> 0 \<notin> set ys \<Longrightarrow>
   (strdiff xs ys < 0) = ord_class.lexordp (map sint xs @ [0]) (map sint ys @ [0])"
proof (induction xs ys rule: strdiff.induct)
  case (2 x xs)
  then show ?case using sint_diff_0 [of x 0] by simp
next
  case (3 y ys)
  then show ?case using sint_diff_0 [of y 0] by auto
next
  case (4 x xs y ys)
  then show ?case using sint_diff_0 [of x y] by auto
qed simp

lemma cstr_nonzero: "cstr m p cs \<Longrightarrow> 0 \<notin> set cs"
  by (induction cs arbitrary: p) auto

lemma cstr_end: "cstr m p cs \<Longrightarrow> m (p + of_nat (length cs)) = 0"
proof (induction cs arbitrary: p)
  case (Cons c cs)
  then show ?case using Cons.IH [of "p + 1"] by (simp add: add.assoc)
qed simp

lemma cstr_append:
  assumes "cstr m (p + of_nat (length xs)) ys" and "0 \<notin> set xs"
    and "\<And>j. j < length xs \<Longrightarrow> m (p + of_nat j) = xs ! j"
  shows "cstr m p (xs @ ys)"
  using assms
proof (induction xs arbitrary: p)
  case (Cons x xs)
  have "m (p + 1 + of_nat j) = xs ! j" if "j < length xs" for j
    using Cons.prems(3) [of "Suc j"] that by (simp add: add.assoc)
  then show ?case using Cons.IH [of "p + 1"] Cons.prems Cons.prems(3) [of 0] by (auto simp: add.assoc)
qed simp

lemma cstr_nth: "cstr m p cs \<Longrightarrow> j < length cs \<Longrightarrow> m (p + of_nat j) = cs ! j"
proof (induction cs arbitrary: p j)
  case (Cons c cs)
  then show ?case using Cons.IH [of "p + 1" "j - 1"] by (cases j) (auto simp: add.assoc)
qed simp

section \<open>Properties\<close>

text \<open>
  \<^verbatim>\<open>memcpy\<close> between buffers that do not overlap puts the source bytes at the destination,
  changes nothing else and returns the end of the destination.
\<close>

theorem memcpy_correct:
  assumes "span dest (unat len) \<inter> span src (unat len) = {}"
  shows "memcpy dest src len m =
    (dest + len, \<lambda>a. if a \<in> span dest (unat len) then m (src + (a - dest)) else m a)"
proof -
  have n: "unat len \<le> 2 ^ 32" using unat_u32_less [of len] by simp
  have "memcpy_loop dest src (unat len) m a = m (src + (a - dest))" if "a \<in> span dest (unat len)" for a
  proof -
    have "unat (a - dest) < unat len" using that in_span_iff [OF n] by blast
    then show ?thesis
      using memcpy_loop_copied [OF n assms, of "unat (a - dest)" m] by simp
  qed
  then show ?thesis by (auto simp: memcpy_def memcpy_loop_other)
qed

theorem memcpy_correct_witness:
  "snd (memcpy 100 200 4 (\<lambda>a. if a = 203 then 7 else 0)) 103 = 7"
proof -
  have "span 100 (unat (4 :: u32)) \<inter> span 200 (unat (4 :: u32)) = {}"
    by (simp add: span_Suc span_numeral)
  then have "memcpy 100 200 4 (\<lambda>a. if a = 203 then 7 else 0) =
      (100 + 4, \<lambda>a. if a \<in> span 100 (unat (4 :: u32))
        then (\<lambda>a. if a = 203 then 7 else 0) (200 + (a - 100)) else (\<lambda>a. if a = 203 then 7 else 0) a)"
    by (rule memcpy_correct)
  then show ?thesis by (simp add: in_span_iff)
qed

text \<open>
  \<^verbatim>\<open>strcat\<close> appends: when the destination holds \<open>xs\<close>, the source holds \<open>ys\<close> and the
  destination with the appended part does not overlap the source, it terminates, the destination
  then holds \<open>xs @ ys\<close> and memory outside the appended part is unchanged.  (\<^verbatim>\<open>strcpy\<close> is its copy loop.)
\<close>

theorem strcat_correct:
  assumes "cstr m dest xs" and "cstr m src ys" and "dest \<noteq> NULL" and "src \<noteq> NULL"
    and "length xs + Suc (length ys) \<le> 2 ^ 32"
    and "span dest (length xs + Suc (length ys)) \<inter> span src (Suc (length ys)) = {}"
  shows "\<exists>m'. strcat dest src m = Ret (dest, m') \<and> cstr m' dest (xs @ ys) \<and> cstr m' src ys \<and>
    (\<forall>a. a \<notin> span (dest + of_nat (length xs)) (Suc (length ys)) \<longrightarrow> m' a = m a)"
proof -
  let ?d = "dest + of_nat (length xs)"
  have sub: "span ?d (Suc (length ys)) \<subseteq> span dest (length xs + Suc (length ys))"
  proof
    fix a assume "a \<in> span ?d (Suc (length ys))"
    then obtain i where "i < Suc (length ys)" "a = ?d + of_nat i" by (auto simp: span_def)
    then show "a \<in> span dest (length xs + Suc (length ys))"
      unfolding span_def by (intro image_eqI [of _ _ "length xs + i"]) (simp_all add: add.assoc)
  qed
  have disj: "span (?d + 0) (Suc (length ys)) \<inter> span (src + 0) (Suc (length ys)) = {}"
    using assms(6) sub by auto
  obtain m' where m': "strcpy_loop ?d src 0 m = Some m'" "cstr m' (?d + 0) ys"
    "\<forall>a. a \<notin> span (?d + 0) (Suc (length ys)) \<longrightarrow> m' a = m a"
    using strcpy_loop_cstr [of m src 0 ys ?d] assms(2,5) disj by fastforce
  have "m' (dest + of_nat j) = xs ! j" if j: "j < length xs" for j
  proof -
    have "dest + of_nat j \<notin> span ?d (Suc (length ys))"
    proof
      assume "dest + of_nat j \<in> span ?d (Suc (length ys))"
      then obtain i where i: "i < Suc (length ys)" "of_nat j = (of_nat (length xs + i) :: u32)"
        by (auto simp: span_def add.assoc)
      then have "j = length xs + i"
        using of_nat_u32_inject [of j "length xs + i"] j assms(5) by simp
      then show False using j by simp
    qed
    then show ?thesis using m'(3) cstr_nth [OF assms(1) j] by simp
  qed
  then have "cstr m' dest (xs @ ys)"
    using m'(2) cstr_nonzero [OF assms(1)] by (intro cstr_append) simp_all
  moreover have "cstr m' src ys"
    using assms(2) m'(3) disj cstr_span [of src ys m' m] by auto
  moreover have "strcat dest src m = Ret (dest, m')"
    using m'(1) assms(3,4) strlen_cstr [OF assms(1)] by (simp add: strcat_def)
  ultimately show ?thesis using m'(3) by auto
qed

definition sample_mem :: memory where
  "sample_mem = (\<lambda>_. 0)(16 := 97, 32 := 98, 33 := 99)"

theorem strcat_correct_witness:
  "\<exists>m'. strcat 16 32 sample_mem = Ret (16, m') \<and> cstr m' 16 [97, 98, 99]"
proof -
  have "span 16 (length [97 :: u8] + Suc (length [98 :: u8, 99])) \<inter> span 32 (Suc (length [98 :: u8, 99])) = {}"
    by (simp add: span_Suc span_numeral)
  then show ?thesis
    using strcat_correct [of sample_mem 16 "[97]" 32 "[98, 99]"] by (auto simp: sample_mem_def)
qed

text \<open>
  \<^verbatim>\<open>strcmp\<close> terminates on terminated strings and its result has the sign of their comparison
  by signed characters with the terminator included, and is 0 exactly for equal strings; except that
  for two empty strings it returns a variable that was never assigned.
\<close>

theorem strcmp_correct:
  assumes "cstr m s1 xs" and "cstr m s2 ys"
  shows "if xs = [] \<and> ys = [] then strcmp m s1 s2 = Undef
    else \<exists>d. strcmp m s1 s2 = Ret d \<and> (d = 0) = (xs = ys) \<and>
      (d < 0) = ord_class.lexordp (map sint xs @ [0]) (map sint ys @ [0])"
  using strcmp_loop_cstr [of m s1 0 xs s2 ys None] assms
    strdiff_eq_0 [OF cstr_nonzero [OF assms(1)] cstr_nonzero [OF assms(2)]]
    strdiff_less [OF cstr_nonzero [OF assms(1)] cstr_nonzero [OF assms(2)]]
  by (auto simp: strcmp_def)

theorem strcmp_correct_witness:
  "(\<exists>d. strcmp sample_mem 16 32 = Ret d \<and> d < 0) \<and> strcmp sample_mem 20 40 = Undef"
  using strcmp_correct [of sample_mem 16 "[97]" 32 "[98, 99]"] strcmp_correct [of sample_mem 20 "[]" 40 "[]"]
  by (auto simp: sample_mem_def)

end
