(* ===== verification/Machine.thy ===== *)
theory Machine
  imports Kmalloc Strings
begin

text \<open>
  The memory the kernel addresses: bytes at kernel virtual addresses (physical memory through the
  direct mapping at \<^verbatim>\<open>KERNEL_BASE\<close>), 32-bit accesses in little-endian order, the page directory
  register, the translations the processor may have cached, and the kernel's own page directory.  The records of the kernel's own
  data structures are kept in typed fields of the state, separate from these bytes.
\<close>

record kmach = pmm +
  mem :: memory
  cr3 :: u32
  tlb :: "u32 set"
  KernelPGD :: ptr
  KernelPTE :: ptr
  kernel_cr3 :: u32

section \<open>32-bit accesses\<close>

definition ld32 :: "memory \<Rightarrow> ptr \<Rightarrow> u32" where
  "ld32 m a = ucast (m a) OR push_bit 8 (ucast (m (a + 1))) OR push_bit 16 (ucast (m (a + 2)))
     OR push_bit 24 (ucast (m (a + 3)))"

definition st32 :: "ptr \<Rightarrow> u32 \<Rightarrow> memory \<Rightarrow> memory" where
  "st32 a v m = m(a := ucast v, a + 1 := ucast (drop_bit 8 v), a + 2 := ucast (drop_bit 16 v),
     a + 3 := ucast (drop_bit 24 v))"

lemma ld32_st32 [simp]: "ld32 (st32 a v m) a = v"
proof (rule bit_eqI)
  fix n assume "possible_bit TYPE(u32) n"
  then have n: "n < 32" by (simp add: possible_bit_word)
  have d: "a + 1 \<noteq> a" "a + 2 \<noteq> a" "a + 3 \<noteq> a" "a + 2 \<noteq> a + 1" "a + 3 \<noteq> a + 1" "a + 3 \<noteq> a + 2"
    by simp_all
  consider "n < 8" | "8 \<le> n" "n < 16" | "16 \<le> n" "n < 24" | "24 \<le> n" by linarith
  then show "bit (ld32 (st32 a v m) a) n = bit v n"
    by cases (use n d in \<open>auto simp: ld32_def st32_def bit_or_iff bit_push_bit_iff bit_ucast_iff
        bit_drop_bit_eq possible_bit_word\<close>)
qed

definition aligned4 :: "ptr \<Rightarrow> bool" where
  "aligned4 a = (unat a mod 4 = 0)"

lemma unat_aligned_plus:
  assumes "aligned4 a" and "unat i < 4"
  shows "unat (a + i) = unat a + unat i"
proof -
  have "unat a + unat i < 4294967296"
    using assms unat_u32_less [of a] unfolding aligned4_def by presburger
  then show ?thesis by (simp add: unat_word_ariths)
qed

lemma aligned_plus_neq:
  assumes "aligned4 a" "aligned4 b" "a \<noteq> b" "unat i < 4" "unat j < 4"
  shows "a + i \<noteq> b + j"
proof
  assume "a + i = b + j"
  then have "unat a + unat i = unat b + unat j"
    using unat_aligned_plus [of a i] unat_aligned_plus [of b j] assms by simp
  then have "unat a = unat b"
    using assms(1,2,4,5) unfolding aligned4_def by presburger
  then show False using assms(3) by (simp add: word_unat_eq_iff)
qed

lemma ld32_st32_other:
  assumes "aligned4 a" "aligned4 b" "a \<noteq> b"
  shows "ld32 (st32 a v m) b = ld32 m b"
proof -
  have n: "b + j \<noteq> a + i" if "unat i < 4" "unat j < 4" for i j
    using aligned_plus_neq [OF assms(2,1)] assms(3) that by metis
  have "unat (0 :: u32) < 4" "unat (1 :: u32) < 4" "unat (2 :: u32) < 4" "unat (3 :: u32) < 4"
    by simp_all
  then have "st32 a v m (b + j) = m (b + j)" if "unat j < 4" for j
    using n [of 0 j] n [of 1 j] n [of 2 j] n [of 3 j] that by (simp add: st32_def)
  from this [of 0] this [of 1] this [of 2] this [of 3]
  show ?thesis by (simp add: ld32_def)
qed

lemma ld32_cong:
  "m' a = m a \<Longrightarrow> m' (a + 1) = m (a + 1) \<Longrightarrow> m' (a + 2) = m (a + 2) \<Longrightarrow> m' (a + 3) = m (a + 3) \<Longrightarrow>
   ld32 m' a = ld32 m a"
  by (simp add: ld32_def)

section \<open>Privileged operations\<close>

text \<open>\<^verbatim>\<open>lcr3\<close> empties the translation cache, \<^verbatim>\<open>invlpg\<close> drops one page from it.\<close>

definition lcr3 :: "u32 \<Rightarrow> 'a kmach_scheme \<Rightarrow> 'a kmach_scheme" where
  "lcr3 v s = s\<lparr>cr3 := v, tlb := {}\<rparr>"

definition invlpg :: "u32 \<Rightarrow> 'a kmach_scheme \<Rightarrow> 'a kmach_scheme" where
  "invlpg va s = s\<lparr>tlb := tlb s - {ROUNDDOWN va PGSIZE}\<rparr>"

text \<open>The state parts of the allocator do not depend on the machine's.\<close>

lemma pmm_of_kmach [simp]:
  "pmm_inv (s\<lparr>mem := m\<rparr>) = pmm_inv s" "free_set (s\<lparr>mem := m\<rparr>) = free_set s"
  "managed_set (s\<lparr>mem := m\<rparr>) = managed_set s"
  "pmm_inv (s\<lparr>tlb := t\<rparr>) = pmm_inv s" "free_set (s\<lparr>tlb := t\<rparr>) = free_set s"
  "managed_set (s\<lparr>tlb := t\<rparr>) = managed_set s"
  "pmm_inv (s\<lparr>cr3 := c\<rparr>) = pmm_inv s" "free_set (s\<lparr>cr3 := c\<rparr>) = free_set s"
  "managed_set (s\<lparr>cr3 := c\<rparr>) = managed_set s"
  "pmm_inv (s\<lparr>KernelPGD := k\<rparr>) = pmm_inv s" "free_set (s\<lparr>KernelPGD := k\<rparr>) = free_set s"
  "pmm_inv (s\<lparr>KernelPTE := k\<rparr>) = pmm_inv s" "free_set (s\<lparr>KernelPTE := k\<rparr>) = free_set s"
  "pmm_inv (s\<lparr>kernel_cr3 := k\<rparr>) = pmm_inv s" "free_set (s\<lparr>kernel_cr3 := k\<rparr>) = free_set s"
  by (simp_all add: pmm_inv_def pmm_rel_def free_set_def managed_set_def)

lemma pmm_frame_kmach:
  fixes s t :: "'a kmach_scheme"
  assumes "pmm_frame R s t"
  shows "mem t = mem s" "cr3 t = cr3 s" "tlb t = tlb s" "PageCount t = PageCount s"
    "managed_set t = managed_set s" "KernelPGD t = KernelPGD s" "KernelPTE t = KernelPTE s"
proof -
  have t: "t = s\<lparr>Pages := Pages t, FreeLinks := FreeLinks t, free_page_count := free_page_count t\<rparr>"
    using assms unfolding pmm_frame_def by blast
  show "mem t = mem s" "cr3 t = cr3 s" "tlb t = tlb s" "KernelPGD t = KernelPGD s" "KernelPTE t = KernelPTE s"
    by (subst t, simp)+
  show "PageCount t = PageCount s" using pmm_frame_PageCount [OF assms] .
  show "managed_set t = managed_set s" using managed_set_frame [OF assms] .
qed

lemma upd_ref_pmm [simp]:
  "pmm_inv (upd_page p (\<lambda>pg. pg\<lparr>ref := r pg\<rparr>) s) = pmm_inv s"
  "free_set (upd_page p (\<lambda>pg. pg\<lparr>ref := r pg\<rparr>) s) = free_set s"
  "managed_set (upd_page p (\<lambda>pg. pg\<lparr>ref := r pg\<rparr>) s) = managed_set s"
proof -
  have f: "pg_flags (Pages (upd_page p (\<lambda>pg. pg\<lparr>ref := r pg\<rparr>) s) i) = pg_flags (Pages s i)"
    "property (Pages (upd_page p (\<lambda>pg. pg\<lparr>ref := r pg\<rparr>) s) i) = property (Pages s i)" for i
    by (simp_all add: upd_page_def)
  show "free_set (upd_page p (\<lambda>pg. pg\<lparr>ref := r pg\<rparr>) s) = free_set s"
    "managed_set (upd_page p (\<lambda>pg. pg\<lparr>ref := r pg\<rparr>) s) = managed_set s"
    unfolding free_set_def managed_set_def f by (simp_all add: upd_page_def)
  show "pmm_inv (upd_page p (\<lambda>pg. pg\<lparr>ref := r pg\<rparr>) s) = pmm_inv s"
    unfolding pmm_inv_def pmm_rel_def f by (simp add: upd_page_def)
qed

end
