(* ===== verification/Paging.thy ===== *)
theory Paging
  imports Machine
begin

text \<open>
  Two-level page tables: \<^verbatim>\<open>kern/mm/page.c\<close> and the paging macros of \<^verbatim>\<open>kern/include/mm.h\<close>.  Page
  directories and tables are words in the kernel's memory; page structures are indices into the
  page array, as in the physical memory manager.  The debug output of the functions is left out.
\<close>

section \<open>Macros (mm.h)\<close>

abbreviation (input) PTE_PAGE_PERSENT :: u32 where "PTE_PAGE_PERSENT \<equiv> 0x1"
abbreviation (input) PTE_PAGE_WRITEABLE :: u32 where "PTE_PAGE_WRITEABLE \<equiv> 0x2"
abbreviation (input) PTE_PAGE_USER :: u32 where "PTE_PAGE_USER \<equiv> 0x4"
abbreviation (input) PTE_USER :: u32 where "PTE_USER \<equiv> 0x7"
abbreviation (input) PAGE_MASK :: u32 where "PAGE_MASK \<equiv> 0xFFFFF000"
abbreviation (input) PGDE_MAP_NBYTE :: u32 where "PGDE_MAP_NBYTE \<equiv> 0x400000"
abbreviation (input) USER_BASE :: u32 where "USER_BASE \<equiv> 0x00200000"
abbreviation (input) USER_TOP :: u32 where "USER_TOP \<equiv> 0xB0000000"
abbreviation (input) KERNEL_TOP :: u32 where "KERNEL_TOP \<equiv> 0xF8000000"

definition PGD_INDEX :: "u32 \<Rightarrow> u32" where
  "PGD_INDEX x = drop_bit 22 x AND 0x3FF"

definition PTE_INDEX :: "u32 \<Rightarrow> u32" where
  "PTE_INDEX x = drop_bit 12 x AND 0x3FF"

definition PG_OFFSET :: "u32 \<Rightarrow> u32" where
  "PG_OFFSET x = x AND 0xFFF"

definition PTE_ADDR :: "u32 \<Rightarrow> u32" where
  "PTE_ADDR pte = pte AND NOT 0xFFF"

abbreviation (input) PGD_ADDR :: "u32 \<Rightarrow> u32" where "PGD_ADDR pde \<equiv> PTE_ADDR pde"

definition rd32 :: "'a kmach_scheme \<Rightarrow> ptr \<Rightarrow> u32" where
  "rd32 s a = ld32 (mem s) a"

definition wr32 :: "ptr \<Rightarrow> u32 \<Rightarrow> 'a kmach_scheme \<Rightarrow> 'a kmach_scheme" where
  "wr32 a v s = s\<lparr>mem := st32 a v (mem s)\<rparr>"

section \<open>Page table entries\<close>

definition pte2page :: "u32 \<Rightarrow> 'a pmm_scheme \<Rightarrow> nat kres" where
  "pte2page pte s =
     (if pte AND PTE_PAGE_PERSENT = 0 then Panic ''pte2page err: invalid pte!''
      else pa2page (PTE_ADDR pte) s)"

definition pgd2page :: "u32 \<Rightarrow> 'a pmm_scheme \<Rightarrow> nat kres" where
  "pgd2page pgd s = pa2page (PGD_ADDR pgd) s"

definition tlb_invaildate :: "ptr \<Rightarrow> u32 \<Rightarrow> 'a kmach_scheme \<Rightarrow> 'a kmach_scheme kres" where
  "tlb_invaildate pgdir va s =
     kbind (kva2pa pgdir) (\<lambda>pa. Ret (if cr3 s = pa then invlpg va s else s))"

text \<open>The returned pointer is \<open>NULL\<close> when there is no table and none is to be, or can be, made.\<close>

definition get_pte :: "ptr \<Rightarrow> u32 \<Rightarrow> bool \<Rightarrow> 'a kmach_scheme \<Rightarrow> (ptr \<times> 'a kmach_scheme) kres" where
  "get_pte pgdir va create s =
     (let pgdp = pgdir + 4 * PGD_INDEX va;
          out = (\<lambda>s. kbind (pa2kva (PGD_ADDR (rd32 s pgdp)) s) (\<lambda>pt. Ret (pt + 4 * PTE_INDEX va, s)))
      in if rd32 s pgdp AND PTE_PAGE_PERSENT \<noteq> 0 then out s
         else if \<not> create then Ret (NULL, s)
         else kbind (allocPhyPages 1 s) (\<lambda>(phypage, s1).
           case phypage of
             None \<Rightarrow> Ret (NULL, s1)
           | Some page \<Rightarrow>
               let s2 = set_page_ref page 1 s1; pa = page2pa page
               in kbind (pa2kva pa s2) (\<lambda>pt.
                    let s3 = s2\<lparr>mem := snd (memset pt 0 PGSIZE (mem s2))\<rparr>;
                        s4 = wr32 pgdp (pa OR PTE_PAGE_USER OR PTE_PAGE_WRITEABLE OR PTE_PAGE_PERSENT) s3
                    in out s4)))"

definition get_page ::
    "ptr \<Rightarrow> u32 \<Rightarrow> ptr \<Rightarrow> 'a kmach_scheme \<Rightarrow> (nat option \<times> 'a kmach_scheme) kres" where
  "get_page pgdir va ptep_out s =
     kbind (get_pte pgdir va False s) (\<lambda>(ptep, s1).
       if ptep = NULL then Ret (None, s1)
       else if ptep_out = NULL then Undef
       else let s2 = wr32 ptep_out ptep s1
            in if rd32 s2 ptep AND PTE_PAGE_PERSENT \<noteq> 0
               then kbind (pte2page (rd32 s2 ptep) s2) (\<lambda>page. Ret (Some page, s2))
               else Ret (None, s2))"

definition pte_remove_page :: "ptr \<Rightarrow> u32 \<Rightarrow> ptr \<Rightarrow> 'a kmach_scheme \<Rightarrow> 'a kmach_scheme kres" where
  "pte_remove_page pgdir va ptep s =
     (if rd32 s ptep AND PTE_PAGE_PERSENT \<noteq> 0
      then kbind (pte2page (rd32 s ptep) s) (\<lambda>phypage.
             let (r, s1) = page_ref_dec phypage s
             in kbind (if r \<le> 0 then freePhyPages phypage 1 s1 else Ret s1) (\<lambda>s2.
                  tlb_invaildate pgdir va (wr32 ptep 0 s2)))
      else Ret s)"

definition page_remove :: "ptr \<Rightarrow> u32 \<Rightarrow> 'a kmach_scheme \<Rightarrow> 'a kmach_scheme kres" where
  "page_remove pgdir va s =
     kbind (get_pte pgdir va False s) (\<lambda>(ptep, s1).
       if ptep \<noteq> NULL then pte_remove_page pgdir va ptep s1 else Ret s1)"

definition page_insert ::
    "ptr \<Rightarrow> nat \<Rightarrow> u32 \<Rightarrow> u32 \<Rightarrow> 'a kmach_scheme \<Rightarrow> (int \<times> 'a kmach_scheme) kres" where
  "page_insert pgdir page va perm s =
     kbind (get_pte pgdir va True s) (\<lambda>(ptep, s1).
       if ptep = NULL then Ret (- E_NOMEM, s1)
       else let s2 = snd (page_ref_inc page s1)
            in kbind (if rd32 s2 ptep AND PTE_PAGE_PERSENT \<noteq> 0
                 then kbind (pte2page (rd32 s2 ptep) s2) (\<lambda>p.
                        if p = page then Ret (snd (page_ref_dec page s2))
                        else pte_remove_page pgdir va ptep s2)
                 else Ret s2) (\<lambda>s3.
               kbind (tlb_invaildate pgdir va (wr32 ptep (page2pa page OR PTE_PAGE_PERSENT OR perm) s3))
                 (\<lambda>s4. Ret (0, s4))))"

definition pgdir_alloc_page ::
    "ptr \<Rightarrow> u32 \<Rightarrow> u32 \<Rightarrow> 'a kmach_scheme \<Rightarrow> (nat option \<times> 'a kmach_scheme) kres" where
  "pgdir_alloc_page pgdir la perm s =
     kbind (allocPhyPages 1 s) (\<lambda>(pg, s1).
       case pg of
         None \<Rightarrow> Ret (None, s1)
       | Some page \<Rightarrow>
           kbind (page_insert pgdir page la perm s1) (\<lambda>(ret, s2).
             if ret \<noteq> 0 then kbind (freePhyPages page 1 s2) (\<lambda>s3. Ret (None, s3))
             else Ret (Some page, s2)))"

section \<open>Ranges\<close>

text \<open>\<^verbatim>\<open>isUserCanAccess\<close> and \<^verbatim>\<open>isKernelCanAccess\<close> are in vmm.c.\<close>

definition isUserCanAccess :: "u32 \<Rightarrow> u32 \<Rightarrow> bool" where
  "isUserCanAccess start fin = (USER_BASE \<le> start \<and> start < fin \<and> fin \<le> USER_TOP)"

definition isKernelCanAccess :: "u32 \<Rightarrow> u32 \<Rightarrow> bool" where
  "isKernelCanAccess start fin = (KERNEL_BASE \<le> start \<and> start < fin \<and> fin \<le> KERNEL_TOP)"

text \<open>One round of the \<^verbatim>\<open>do ... while (start != 0 && start < end)\<close> loops, then the loops.\<close>

definition unmap_range_body ::
    "ptr \<Rightarrow> u32 \<Rightarrow> u32 \<times> 'a kmach_scheme \<Rightarrow> (u32 \<times> 'a kmach_scheme + 'a kmach_scheme) kres" where
  "unmap_range_body pgdir fin = (\<lambda>(start, s).
     kbind (get_pte pgdir start False s) (\<lambda>(ptep, s1).
       kbind (if ptep = NULL then Ret (ROUNDDOWN (start + PGDE_MAP_NBYTE) PGDE_MAP_NBYTE, s1)
              else kbind (if rd32 s1 ptep \<noteq> 0 then pte_remove_page pgdir start ptep s1 else Ret s1)
                     (\<lambda>s2. Ret (start + PGSIZE, s2)))
         (\<lambda>(start', s2). Ret (if start' \<noteq> 0 \<and> start' < fin then Inl (start', s2) else Inr s2))))"

definition unmap_range :: "ptr \<Rightarrow> u32 \<Rightarrow> u32 \<Rightarrow> 'a kmach_scheme \<Rightarrow> 'a kmach_scheme kres" where
  "unmap_range pgdir start fin s =
     kassert (start mod PGSIZE = 0 \<and> fin mod PGSIZE = 0) ''unmap err!''
       (kassert (isUserCanAccess start fin) ''unmap err! user can access!''
         (kwhile (unmap_range_body pgdir fin) (start, s)))"

definition exit_range_body ::
    "ptr \<Rightarrow> u32 \<Rightarrow> u32 \<times> 'a kmach_scheme \<Rightarrow> (u32 \<times> 'a kmach_scheme + 'a kmach_scheme) kres" where
  "exit_range_body pgdir fin = (\<lambda>(start, s).
     let pde = pgdir + 4 * PGD_INDEX start
     in kbind (if rd32 s pde AND PTE_PAGE_PERSENT \<noteq> 0
               then kbind (pgd2page (rd32 s pde) s) (\<lambda>page.
                      kbind (freePhyPages page 1 s) (\<lambda>s1. Ret (wr32 pde 0 s1)))
               else Ret s) (\<lambda>s1.
          let start' = start + PGDE_MAP_NBYTE
          in Ret (if start' \<noteq> 0 \<and> start' < fin then Inl (start', s1) else Inr s1)))"

definition exit_range :: "ptr \<Rightarrow> u32 \<Rightarrow> u32 \<Rightarrow> 'a kmach_scheme \<Rightarrow> 'a kmach_scheme kres" where
  "exit_range pgdir start fin s =
     kassert (start mod PGSIZE = 0 \<and> fin mod PGSIZE = 0) ''exit_map err!''
       (kassert (isUserCanAccess start fin) ''exit_map err! user can access!''
         (kwhile (exit_range_body pgdir fin) (ROUNDDOWN start PGDE_MAP_NBYTE, s)))"

text \<open>\<^verbatim>\<open>copy_range\<close> ignores its last argument \<open>share\<close>.\<close>

definition copy_range_body ::
    "ptr \<Rightarrow> ptr \<Rightarrow> u32 \<Rightarrow> u32 \<times> 'a kmach_scheme \<Rightarrow>
     (u32 \<times> 'a kmach_scheme + int \<times> 'a kmach_scheme) kres" where
  "copy_range_body to from fin = (\<lambda>(start, s).
     let next = (\<lambda>(start', s'). Ret (if start' \<noteq> 0 \<and> start' < fin then Inl (start', s') else Inr (0, s')))
     in kbind (get_pte from start False s) (\<lambda>(ptep, s1).
          if ptep = NULL then next (ROUNDDOWN (start + PGDE_MAP_NBYTE) PGDE_MAP_NBYTE, s1)
          else if rd32 s1 ptep AND PTE_PAGE_PERSENT = 0 then next (start + PGSIZE, s1)
          else kbind (get_pte to start True s1) (\<lambda>(nptep, s2).
            if nptep = NULL then Ret (Inr (- E_NOMEM, s2))
            else let perm = rd32 s2 ptep AND PTE_USER
                 in kbind (pte2page (rd32 s2 ptep) s2) (\<lambda>page.
                    kbind (allocPhyPages 1 s2) (\<lambda>(np, s3).
                      case np of
                        None \<Rightarrow> Panic ''copy_range err!''
                      | Some npage \<Rightarrow>
                          kbind (page2kva page s3) (\<lambda>kva_src.
                          kbind (page2kva npage s3) (\<lambda>kva_dst.
                            let s4 = s3\<lparr>mem := snd (memcpy kva_dst kva_src PGSIZE (mem s3))\<rparr>
                            in kbind (page_insert to npage start perm s4) (\<lambda>(ret, s5).
                                 kassert (ret = 0) ''copy_range err!''
                                   (next (start + PGSIZE, s5))))))))))"

definition copy_range ::
    "ptr \<Rightarrow> ptr \<Rightarrow> u32 \<Rightarrow> u32 \<Rightarrow> bool \<Rightarrow> 'a kmach_scheme \<Rightarrow> (int \<times> 'a kmach_scheme) kres" where
  "copy_range to from start fin share s =
     kassert (start mod PGSIZE = 0 \<and> fin mod PGSIZE = 0) ''copy_range err!''
       (kassert (isUserCanAccess start fin) ''copy_range err! user can access!''
         (kwhile (copy_range_body to from fin) (start, s)))"

section \<open>The older mapping functions\<close>

definition switchPageDir :: "u32 \<Rightarrow> 'a kmach_scheme \<Rightarrow> 'a kmach_scheme" where
  "switchPageDir pd s = lcr3 pd s"

definition VMM_map ::
    "ptr \<Rightarrow> u32 \<Rightarrow> u32 \<Rightarrow> u32 \<Rightarrow> 'a kmach_scheme \<Rightarrow> 'a kmach_scheme kres" where
  "VMM_map pgd_now vaddr paddr flags s =
     (let pgdp = pgd_now + 4 * PGD_INDEX vaddr; pte = rd32 s pgdp AND PAGE_MASK
      in kbind (if pte = 0
           then kbind (kmalloc PGSIZE s) (\<lambda>(pt, s1).
                  let s2 = wr32 pgdp (pt OR PTE_PAGE_PERSENT OR PTE_PAGE_WRITEABLE) s1
                  in Ret (pt, s2\<lparr>mem := bzero pt PGSIZE (mem s2)\<rparr>))
           else Ret (pte + KERNEL_BASE, s)) (\<lambda>(pt, s3).
         Ret (invlpg vaddr (wr32 (pt + 4 * PTE_INDEX vaddr) (paddr AND PAGE_MASK OR flags) s3))))"

definition VMM_unmap :: "ptr \<Rightarrow> u32 \<Rightarrow> 'a kmach_scheme \<Rightarrow> 'a kmach_scheme" where
  "VMM_unmap pgd_now vaddr s =
     (let pte = rd32 s (pgd_now + 4 * PGD_INDEX vaddr) AND PAGE_MASK
      in if pte = 0 then s
         else invlpg vaddr (wr32 (pte + KERNEL_BASE + 4 * PTE_INDEX vaddr) 0 s))"

text \<open>The result is the returned flag and the value stored through \<open>paddr\<close>, when one is stored.\<close>

definition VMM_getMapping :: "ptr \<Rightarrow> u32 \<Rightarrow> ptr \<Rightarrow> 'a kmach_scheme \<Rightarrow> u32 \<times> u32 option" where
  "VMM_getMapping pgd_now vaddr paddr s =
     (let pte = rd32 s (pgd_now + 4 * PGD_INDEX vaddr) AND PAGE_MASK
      in if pte = 0 then (0, None)
         else let e = rd32 s (pte + KERNEL_BASE + 4 * PTE_INDEX vaddr)
              in if e \<noteq> 0 \<and> paddr \<noteq> NULL then (1, Some (e AND PAGE_MASK)) else (0, None))"

end
