(* ===== verification/Paging_Correct.thy ===== *)
theory Paging_Correct
  imports Paging
begin

text \<open>
  Correctness of the page table functions.  Page directories and tables are seen as words
  \<open>(frame, index)\<close>; \<open>pte_at\<close> is the table entry an address space holds for a directory and a table
  index, and \<open>uspace\<close> the invariant of a user address space: its tables are distinct allocated
  frames, and every page mapped in the user part is allocated, is no table, and has as many
  references as mappings.
\<close>

section \<open>Frames and words\<close>

definition kva :: "nat \<Rightarrow> ptr" where
  "kva f = page2pa f + KERNEL_BASE"

definition slot :: "nat \<Rightarrow> nat \<Rightarrow> ptr" where
  "slot f i = kva f + 4 * of_nat i"

definition pword :: "'a kmach_scheme \<Rightarrow> nat \<Rightarrow> nat \<Rightarrow> u32" where
  "pword s f i = rd32 s (slot f i)"

definition present :: "u32 \<Rightarrow> bool" where
  "present e = (e AND PTE_PAGE_PERSENT \<noteq> 0)"

definition frame_of :: "u32 \<Rightarrow> nat" where
  "frame_of e = unat (drop_bit 12 e)"

abbreviation (input) max_frames :: nat where "max_frames \<equiv> 0x38000"

lemma unat_slot:
  assumes "f < max_frames" and "i < 1024"
  shows "unat (slot f i) = 0xC0000000 + f * 4096 + 4 * i"
proof -
  have k: "unat (kva f) = f * 4096 + 0xC0000000"
    using kernel_addr(1) [of f] assms(1) by (simp add: kva_def)
  have i: "unat (4 * of_nat i :: u32) = 4 * i"
    using assms(2) by (simp add: unat_word_ariths unat_of_nat_u32)
  have "unat (kva f) + unat (4 * of_nat i :: u32) < 2 ^ LENGTH(32)"
    using assms by (simp only: k i) simp
  then have "unat (kva f + 4 * of_nat i) = unat (kva f) + unat (4 * of_nat i :: u32)"
    by (rule unat_add_lem [THEN iffD1])
  then show ?thesis by (simp only: slot_def k i)
qed

lemma slot_aligned: "f < max_frames \<Longrightarrow> i < 1024 \<Longrightarrow> aligned4 (slot f i)"
proof -
  assume "f < max_frames" and "i < 1024"
  then have "unat (slot f i) = 4 * (805306368 + f * 1024 + i)" by (simp add: unat_slot)
  then show ?thesis by (simp only: aligned4_def mod_mult_self1_is_0)
qed

lemma slot_eq_iff:
  assumes "f < max_frames" "g < max_frames" "i < 1024" "j < 1024"
  shows "(slot f i = slot g j) = (f = g \<and> i = j)"
proof
  assume "slot f i = slot g j"
  then have "f * 4096 + 4 * i = g * 4096 + 4 * j"
    using unat_slot [OF assms(1,3)] unat_slot [OF assms(2,4)] by simp
  moreover from this have "(f * 4096 + 4 * i) div 4096 = (g * 4096 + 4 * j) div 4096" by simp
  then have "f = g" using assms(3,4) by simp
  ultimately show "f = g \<and> i = j" by simp
qed simp

lemma pword_wr32:
  assumes "f < max_frames" "g < max_frames" "i < 1024" "j < 1024"
  shows "pword (wr32 (slot f i) v s) g j = (if g = f \<and> j = i then v else pword s g j)"
  using slot_eq_iff [OF assms] slot_aligned assms ld32_st32_other
  by (auto simp: pword_def rd32_def wr32_def)

lemma pword_mem_cong: "mem t = mem s \<Longrightarrow> pword t f i = pword s f i"
  by (simp add: pword_def rd32_def)

lemma slot_in_frames:
  assumes "f < max_frames" "i < 1024" "unat k < 4" "g + q \<le> max_frames" "0 < q"
  shows "(slot f i + k \<in> span (kva g) (4096 * q)) = (g \<le> f \<and> f < g + q)"
proof -
  have u: "unat (slot f i + k) = 0xC0000000 + f * 4096 + 4 * i + unat k"
    using unat_aligned_plus [OF slot_aligned [OF assms(1,2)] assms(3)] unat_slot [OF assms(1,2)] by simp
  have gm: "g < max_frames" using assms(4,5) by simp
  have g: "unat (kva g) = 0xC0000000 + g * 4096"
    using unat_slot [OF gm, of 0] by (simp add: slot_def)
  have span: "(slot f i + k \<in> span (kva g) (4096 * q)) = (unat (slot f i + k - kva g) < 4096 * q)"
    using assms(4) by (intro in_span_iff) simp
  show ?thesis
  proof (cases "kva g \<le> slot f i + k")
    case True
    then have "unat (slot f i + k - kva g) = (0xC0000000 + f * 4096 + 4 * i + unat k) - (0xC0000000 + g * 4096)"
      by (simp only: unat_sub u g)
    moreover have "0xC0000000 + g * 4096 \<le> 0xC0000000 + f * 4096 + 4 * i + unat k"
      using True by (simp only: word_le_nat_alt u g)
    ultimately show ?thesis using assms(2,3) span by auto
  next
    case False
    then have lt: "0xC0000000 + f * 4096 + 4 * i + unat k < 0xC0000000 + g * 4096"
      by (simp only: not_le word_less_nat_alt u g)
    have "unat (slot f i + k - kva g) \<ge> 4096 * q"
    proof (rule ccontr)
      assume "\<not> ?thesis"
      then have "unat (kva g) + unat (slot f i + k - kva g) < 2 ^ 32" using g assms(4) by simp
      then have "unat (kva g + (slot f i + k - kva g)) = unat (kva g) + unat (slot f i + k - kva g)"
        by (intro unat_add_lem [THEN iffD1]) simp
      then show False using lt u g by simp
    qed
    moreover have "f < g" using lt by simp
    ultimately show ?thesis using span by simp
  qed
qed

lemma pword_memset_frames:
  assumes "f + q \<le> max_frames" "0 < q" "g < max_frames" "j < 1024" "unat len = 4096 * q"
  shows "pword (s\<lparr>mem := snd (memset (kva f) 0 len (mem s))\<rparr>) g j = (if f \<le> g \<and> g < f + q then 0 else pword s g j)"
proof -
  have m: "snd (memset (kva f) 0 len (mem s)) (slot g j + k) =
      (if f \<le> g \<and> g < f + q then 0 else mem s (slot g j + k))"
    if "unat k < 4" for k
    using slot_in_frames [OF assms(3,4) that assms(1,2)] assms(5) by (auto simp: memset_def memset_loop_spec)
  show ?thesis
    using m [of 0] m [of 1] m [of 2] m [of 3]
    by (simp add: pword_def rd32_def ld32_def)
qed

lemma pword_memset:
  assumes "f < max_frames" "g < max_frames" "j < 1024"
  shows "pword (s\<lparr>mem := snd (memset (kva f) 0 PGSIZE (mem s))\<rparr>) g j = (if g = f then 0 else pword s g j)"
  using pword_memset_frames [of f 1 g j PGSIZE s] assms by auto

section \<open>Entries\<close>

lemma present_odd: "present e = odd e"
  by (simp add: present_def and_one_eq odd_iff_mod_2_eq_one)

lemma PTE_ADDR_eq: "PTE_ADDR e = push_bit 12 (drop_bit 12 e)"
proof -
  have "(0xFFF :: u32) = mask 12" by (simp add: mask_eq_exp_minus_1)
  then show ?thesis by (simp only: PTE_ADDR_def and_not_mask_u32)
qed

lemma PTE_ADDR_frame: "PTE_ADDR e + KERNEL_BASE = kva (frame_of e)"
  by (simp add: PTE_ADDR_eq kva_def page2pa_def page2pagen_def frame_of_def)

lemma drop_PTE_ADDR: "drop_bit 12 (PTE_ADDR e) = drop_bit 12 e"
  unfolding PTE_ADDR_eq
  by (rule bit_eqI) (auto simp: bit_drop_bit_eq bit_push_bit_iff possible_bit_word dest: bit_imp_le_length)

lemma flags_small: "(fl < 4096) = (drop_bit 12 fl = (0 :: u32))"
  by (simp add: drop_bit_eq_div word_less_nat_alt unat_div_distrib div_eq_0_iff flip: unat_eq_zero)

lemma frame_of_entry:
  assumes "f < max_frames" and "fl < 4096"
  shows "frame_of (page2pa f OR fl) = f"
proof -
  have "drop_bit 12 fl = (0 :: u32)"
    using assms(2) by (simp add: flags_small)
  then have "drop_bit 12 (page2pa f OR fl) = drop_bit 12 (page2pa f)" by (simp add: drop_bit_or)
  then show ?thesis using kernel_addr(3) [of f] assms(1) by (simp add: frame_of_def)
qed

lemma pa2page_entry:
  "frame_of e < unat (PageCount s) \<Longrightarrow> pa2page (PTE_ADDR e) s = Ret (frame_of e)"
  by (simp add: pa2page_def drop_PTE_ADDR frame_of_def word_less_nat_alt)

lemma pa2kva_entry:
  "frame_of e < unat (PageCount s) \<Longrightarrow> pa2kva (PTE_ADDR e) s = Ret (kva (frame_of e))"
  by (simp add: pa2kva_def pa2pagen_def drop_PTE_ADDR frame_of_def word_less_nat_alt
      PTE_ADDR_frame [unfolded frame_of_def])

lemma index_take_bit: "PGD_INDEX va = take_bit 10 (drop_bit 22 va)" "PTE_INDEX va = take_bit 10 (drop_bit 12 va)"
proof -
  have "(0x3FF :: u32) = mask 10" by (simp add: mask_eq_exp_minus_1)
  then show "PGD_INDEX va = take_bit 10 (drop_bit 22 va)" "PTE_INDEX va = take_bit 10 (drop_bit 12 va)"
    by (simp_all only: PGD_INDEX_def PTE_INDEX_def take_bit_eq_mask)
qed

lemma index_bounds: "unat (PGD_INDEX va) < 1024" "unat (PTE_INDEX va) < 1024"
proof -
  have "unat (take_bit 10 x) < 1024" for x :: u32
    using take_bit_nat_less_exp [of 10 "unat x"] by (simp add: unsigned_take_bit_eq)
  then show "unat (PGD_INDEX va) < 1024" "unat (PTE_INDEX va) < 1024"
    by (simp_all only: index_take_bit)
qed

section \<open>Address spaces\<close>

definition pte_at :: "'a kmach_scheme \<Rightarrow> nat \<Rightarrow> nat \<Rightarrow> nat \<Rightarrow> u32" where
  "pte_at s d i j = (if present (pword s d i) then pword s (frame_of (pword s d i)) j else 0)"

definition mappings :: "'a kmach_scheme \<Rightarrow> nat \<Rightarrow> nat \<Rightarrow> (nat \<times> nat) set" where
  "mappings s d f =
     {(i, j). i < 768 \<and> j < 1024 \<and> present (pte_at s d i j) \<and> frame_of (pte_at s d i j) = f}"

definition tables_ok :: "'a kmach_scheme \<Rightarrow> nat \<Rightarrow> bool" where
  "tables_ok s d \<longleftrightarrow>
     d < unat (PageCount s) \<and> d \<notin> free_set s \<and>
     (\<forall>i < 1024. present (pword s d i) \<longrightarrow>
        frame_of (pword s d i) < unat (PageCount s) \<and> frame_of (pword s d i) \<notin> free_set s \<and>
        frame_of (pword s d i) \<noteq> d \<and> (i < 768 \<longrightarrow> frame_of (pword s d i) \<in> managed_set s)) \<and>
     (\<forall>i < 1024. \<forall>j < 1024. present (pword s d i) \<longrightarrow> present (pword s d j) \<longrightarrow>
        frame_of (pword s d i) = frame_of (pword s d j) \<longrightarrow> i = j)"

text \<open>
  \<open>H\<close> gives the pages the kernel holds besides the mappings, with the references it holds on each:
  a page that was allocated and is about to be mapped, for instance.
\<close>

type_synonym holds = "nat \<rightharpoonup> int"

definition held :: "holds \<Rightarrow> nat \<Rightarrow> int" where
  "held H f = (case H f of None \<Rightarrow> 0 | Some k \<Rightarrow> k)"

definition mapped_ok :: "'a kmach_scheme \<Rightarrow> nat \<Rightarrow> holds \<Rightarrow> nat \<Rightarrow> bool" where
  "mapped_ok s d H f \<longleftrightarrow>
     f \<in> managed_set s \<and> f \<notin> free_set s \<and> f \<noteq> d \<and>
     (\<forall>i < 1024. present (pword s d i) \<longrightarrow> frame_of (pword s d i) \<noteq> f) \<and>
     page_ref s f = int (card (mappings s d f)) + held H f"

definition uspace :: "'a kmach_scheme \<Rightarrow> nat \<Rightarrow> holds \<Rightarrow> bool" where
  "uspace s d H \<longleftrightarrow>
     pmm_inv s \<and> unat (PageCount s) \<le> max_frames \<and> tables_ok s d \<and>
     (\<forall>f \<in> free_set s. page_ref s f = 0) \<and>
     (\<forall>f. mappings s d f \<noteq> {} \<or> f \<in> dom H \<longrightarrow> mapped_ok s d H f)"

text \<open>What the paging functions may change.\<close>

definition kframe :: "'a kmach_scheme \<Rightarrow> 'a kmach_scheme \<Rightarrow> bool" where
  "kframe s t \<longleftrightarrow>
     t = s\<lparr>Pages := Pages t, FreeLinks := FreeLinks t, free_page_count := free_page_count t,
           mem := mem t, tlb := tlb t\<rparr> \<and> managed_set t = managed_set s"

lemma kframe_refl [simp]: "kframe s s"
  by (simp add: kframe_def)

lemma kframe_trans: "kframe s t \<Longrightarrow> kframe t u \<Longrightarrow> kframe s u"
  by (cases s, cases t, cases u) (simp add: kframe_def)

lemma kframe_pmm: "pmm_frame R s t \<Longrightarrow> kframe s t"
  using managed_set_frame [of R s t] by (cases s, cases t) (simp add: kframe_def pmm_frame_def)

lemma kframe_upd [simp]:
  "kframe s (s\<lparr>mem := m\<rparr>)" "kframe s (s\<lparr>tlb := x\<rparr>)" "kframe s (wr32 a v s)" "kframe s (invlpg va s)"
  "kframe s (upd_page p (\<lambda>pg. pg\<lparr>ref := r pg\<rparr>) s)"
  by (simp_all add: kframe_def wr32_def invlpg_def)
    (simp add: upd_page_def)

lemma kframeD:
  assumes "kframe s t"
  shows "PageCount t = PageCount s" "managed_set t = managed_set s" "cr3 t = cr3 s"
  using assms by (cases s, cases t, simp add: kframe_def)+

lemma finite_mappings: "finite (mappings s d f)"
proof (rule finite_subset)
  show "mappings s d f \<subseteq> {..<768} \<times> {..<1024}" by (auto simp: mappings_def)
qed simp

lemma card_mappings: "card (mappings s d f) \<le> 786432"
proof -
  have "card (mappings s d f) \<le> card ({..<768 :: nat} \<times> {..<1024 :: nat})"
    by (rule card_mono) (auto simp: mappings_def)
  then show ?thesis by simp
qed

lemma uspace_tables:
  assumes "uspace s d H" "i < 1024" "present (pword s d i)"
  shows "frame_of (pword s d i) < unat (PageCount s)" "frame_of (pword s d i) < max_frames"
    "frame_of (pword s d i) \<notin> free_set s" "frame_of (pword s d i) \<noteq> d"
proof -
  have "tables_ok s d" "unat (PageCount s) \<le> max_frames" using assms(1) by (simp_all add: uspace_def)
  then show "frame_of (pword s d i) < unat (PageCount s)" "frame_of (pword s d i) < max_frames"
    "frame_of (pword s d i) \<notin> free_set s" "frame_of (pword s d i) \<noteq> d"
    using assms(2,3) by (fastforce simp: tables_ok_def)+
qed

lemma uspace_dir: "uspace s d H \<Longrightarrow> d < max_frames \<and> d < unat (PageCount s) \<and> d \<notin> free_set s"
  by (auto simp: uspace_def tables_ok_def)

text \<open>The address space only depends on the words of its tables and the state of its pages.\<close>

lemma pte_at_cong:
  assumes "\<And>i. i < 1024 \<Longrightarrow> pword t d i = pword s d i"
    and "\<And>i j. i < 1024 \<Longrightarrow> j < 1024 \<Longrightarrow> present (pword s d i) \<Longrightarrow>
      pword t (frame_of (pword s d i)) j = pword s (frame_of (pword s d i)) j"
    and "i < 1024" "j < 1024"
  shows "pte_at t d i j = pte_at s d i j"
  using assms by (simp add: pte_at_def)

lemma mappings_cong:
  assumes "\<And>i j. i < 1024 \<Longrightarrow> j < 1024 \<Longrightarrow> pte_at t d i j = pte_at s d i j"
  shows "mappings t d f = mappings s d f"
  using assms by (auto simp: mappings_def)

lemma kmach_upd_sel [simp]:
  "PageCount (wr32 a v s) = PageCount s" "Pages (wr32 a v s) = Pages s" "cr3 (wr32 a v s) = cr3 s"
  "tlb (wr32 a v s) = tlb s" "pmm_inv (wr32 a v s) = pmm_inv s" "free_set (wr32 a v s) = free_set s"
  "managed_set (wr32 a v s) = managed_set s"
  "PageCount (set_page_ref p r s) = PageCount s" "mem (set_page_ref p r s) = mem s"
  "cr3 (set_page_ref p r s) = cr3 s" "tlb (set_page_ref p r s) = tlb s"
  "pmm_inv (set_page_ref p r s) = pmm_inv s" "free_set (set_page_ref p r s) = free_set s"
  "managed_set (set_page_ref p r s) = managed_set s"
  by (simp_all add: wr32_def set_page_ref_def) (simp_all add: upd_page_def)

section \<open>Finding and making table entries\<close>

lemma pgdp_slot: "kva d + 4 * PGD_INDEX va = slot d (unat (PGD_INDEX va))"
  by (simp add: slot_def)

lemma ptep_slot: "kva f + 4 * PTE_INDEX va = slot f (unat (PTE_INDEX va))"
  by (simp add: slot_def)

lemma slot_not_null: "f < max_frames \<Longrightarrow> i < 1024 \<Longrightarrow> slot f i \<noteq> NULL"
  using unat_slot [of f i] by auto

lemma rd32_slot [simp]: "rd32 s (slot f i) = pword s f i"
  by (simp add: pword_def)

lemma get_pte_present:
  assumes "uspace s d H" and "present (pword s d (unat (PGD_INDEX va)))"
  shows "get_pte (kva d) va c s =
    Ret (slot (frame_of (pword s d (unat (PGD_INDEX va)))) (unat (PTE_INDEX va)), s)"
  using assms(2) uspace_tables(1) [OF assms(1) index_bounds(1) assms(2)]
  by (simp add: get_pte_def pgdp_slot pa2kva_entry ptep_slot flip: present_def)

lemma get_pte_absent:
  assumes "\<not> present (pword s d (unat (PGD_INDEX va)))"
  shows "get_pte (kva d) va False s = Ret (NULL, s)"
  using assms by (simp add: get_pte_def pgdp_slot flip: present_def)

lemma get_pte_full:
  assumes "uspace s d H" and "\<not> present (pword s d (unat (PGD_INDEX va)))" and "free_set s = {}"
  shows "get_pte (kva d) va True s = Ret (NULL, s)"
proof -
  have "pmm_inv s" using assms(1) by (simp add: uspace_def)
  then have "allocPhyPages 1 s = Ret (None, s)"
    using allocPhyPages_one assms(3) by fastforce
  then show ?thesis using assms(2) by (simp add: get_pte_def pgdp_slot flip: present_def)
qed

text \<open>The entry a new table gets in the directory.\<close>

definition new_pde :: "nat \<Rightarrow> u32" where
  "new_pde f = page2pa f OR PTE_PAGE_USER OR PTE_PAGE_WRITEABLE OR PTE_PAGE_PERSENT"

lemma new_pde_7: "new_pde f = page2pa f OR 7"
  by (simp add: new_pde_def or.assoc)

lemma new_pde: "f < max_frames \<Longrightarrow> frame_of (new_pde f) = f" "present (new_pde f)"
  by (simp_all add: new_pde_7 frame_of_entry present_odd even_or_iff)

lemma get_pte_create_run:
  assumes us: "uspace s d H" and ab: "\<not> present (pword s d (unat (PGD_INDEX va)))"
    and al: "allocPhyPages 1 s = Ret (Some f, s1)" and f: "f < unat (PageCount s)"
    and fr: "pmm_frame {} s s1"
  shows "get_pte (kva d) va True s =
    Ret (slot f (unat (PTE_INDEX va)),
      wr32 (slot d (unat (PGD_INDEX va))) (new_pde f)
        ((set_page_ref f 1 s1)\<lparr>mem := snd (memset (kva f) 0 PGSIZE (mem s1))\<rparr>))"
proof -
  have pc: "PageCount s1 = PageCount s" using pmm_frame_PageCount [OF fr] .
  have fm: "f < max_frames" using f us by (simp add: uspace_def)
  have kva_f: "pa2kva (page2pa f) t = Ret (kva f)" if "PageCount t = PageCount s" for t :: "'a kmach_scheme"
    using that f kernel_addr(3) [of f] fm by (simp add: pa2kva_def pa2pagen_def word_less_nat_alt kva_def)
  have out: "pa2kva (PTE_ADDR (new_pde f)) t = Ret (kva f)" if "PageCount t = PageCount s" for t :: "'a kmach_scheme"
    using that f new_pde(1) [OF fm] pa2kva_entry [of "new_pde f" t] by simp
  have d: "d < max_frames" using uspace_dir [OF us] by simp
  show ?thesis
    using ab al kva_f out d pc
    by (simp add: get_pte_def pgdp_slot ptep_slot Let_def pword_wr32 index_bounds
        flip: present_def new_pde_7)
qed

lemma managed_bound: "f \<in> managed_set s \<Longrightarrow> f < unat (PageCount s)"
  by (simp add: managed_set_def)

lemma pmm_frame_ref: "pmm_frame {} s t \<Longrightarrow> page_ref t g = page_ref s g"
  by (simp add: pmm_frame_def page_ref_def)

lemma page_ref_set: "page_ref (set_page_ref p r s) g = (if g = p then sint (word_of_int r :: u32) else page_ref s g)"
  by (simp add: page_ref_def set_page_ref_def upd_page_def)

lemma page_ref_mem [simp]: "page_ref (s\<lparr>mem := m\<rparr>) g = page_ref s g" "page_ref (wr32 a v s) g = page_ref s g"
  by (simp_all add: page_ref_def wr32_def)

lemma get_pte_alloc:
  assumes us: "uspace s d H" and ab: "\<not> present (pword s d (unat (PGD_INDEX va)))"
    and ne: "free_set s \<noteq> {}"
  shows "\<exists>f s'. get_pte (kva d) va True s = Ret (slot f (unat (PTE_INDEX va)), s') \<and>
    f \<in> free_set s \<and> free_set s' = free_set s - {f} \<and> uspace s' d H \<and> kframe s s' \<and>
    pword s' d (unat (PGD_INDEX va)) = new_pde f \<and>
    (\<forall>i < 1024. \<forall>j < 1024. pte_at s' d i j = pte_at s d i j) \<and>
    (\<forall>g. g \<notin> free_set s \<longrightarrow> page_ref s' g = page_ref s g)"
proof -
  let ?i = "unat (PGD_INDEX va)"
  have inv: "pmm_inv s" and pc: "unat (PageCount s) \<le> max_frames" and tab: "tables_ok s d"
    and map: "\<And>f. mappings s d f \<noteq> {} \<or> f \<in> dom H \<Longrightarrow> mapped_ok s d H f"
    using us by (auto simp: uspace_def)
  obtain f s1 where a: "allocPhyPages 1 s = Ret (Some f, s1)" "f \<in> free_set s" "free_set s1 = free_set s - {f}"
    "pmm_inv s1" "pmm_frame {} s s1"
    using allocPhyPages_one [OF inv] ne by auto
  have fm: "f \<in> managed_set s" using a(2) pmm.free_managed [OF inv] by blast
  then have fc: "f < unat (PageCount s)" "f < max_frames" using managed_bound pc by force+
  have d: "d < max_frames" "d < unat (PageCount s)" "d \<notin> free_set s" using uspace_dir [OF us] by auto
  then have df: "d \<noteq> f" using a(2) by auto
  define s2 where "s2 = (set_page_ref f 1 s1)\<lparr>mem := snd (memset (kva f) 0 PGSIZE (mem s1))\<rparr>"
  define s' where "s' = wr32 (slot d ?i) (new_pde f) s2"
  note fr = pmm_frame_kmach [OF a(5)]
  have w: "pword s' g j = (if g = d \<and> j = ?i then new_pde f else if g = f then 0 else pword s g j)"
    if "g < max_frames" "j < 1024" for g j
  proof -
    have "pword s2 g j = (if g = f then 0 else pword (set_page_ref f 1 s1) g j)"
      using pword_memset [OF fc(2) that, of "set_page_ref f 1 s1"] by (simp add: s2_def)
    moreover have "pword (set_page_ref f 1 s1) g j = pword s g j"
      using fr(1) by (intro pword_mem_cong) simp
    ultimately show ?thesis
      using pword_wr32 [OF d(1) that(1) index_bounds(1) that(2), of va "new_pde f" s2] by (auto simp: s'_def)
  qed
  have dir: "pword s' d j = (if j = ?i then new_pde f else pword s d j)" if "j < 1024" for j
    using w [OF d(1) that] df by simp
  have tb: "frame_of (pword s d j) < max_frames \<and> frame_of (pword s d j) \<noteq> f \<and> frame_of (pword s d j) \<noteq> d"
    if "j < 1024" "present (pword s d j)" for j
    using uspace_tables [OF us that] a(2) by auto
  have pte: "pte_at s' d i j = pte_at s d i j" if "i < 1024" "j < 1024" for i j
  proof (cases "i = ?i")
    case True
    then show ?thesis using ab dir w [OF fc(2) that(2)] that df new_pde [of f] fc by (simp add: pte_at_def)
  next
    case False
    then show ?thesis using that dir tb [OF that(1)] w [OF _ that(2)] by (simp add: pte_at_def)
  qed
  have sets: "free_set s' = free_set s - {f}" "managed_set s' = managed_set s" "PageCount s' = PageCount s"
    "pmm_inv s'"
    using a fr by (simp_all add: s'_def s2_def)
  have refs: "page_ref s' g = page_ref s g" if "g \<noteq> f" for g
    using that pmm_frame_ref [OF a(5)] by (simp add: s'_def s2_def page_ref_set)
  have "tables_ok s' d"
    unfolding tables_ok_def sets
  proof (intro conjI allI impI)
    fix i assume i: "i < 1024" "present (pword s' d i)"
    show "frame_of (pword s' d i) < unat (PageCount s)" "frame_of (pword s' d i) \<notin> free_set s - {f}"
      "frame_of (pword s' d i) \<noteq> d" "i < 768 \<Longrightarrow> frame_of (pword s' d i) \<in> managed_set s"
      using i dir [OF i(1)] tab fc fm df new_pde(1) [OF fc(2)] new_pde(2) [of f] by (auto simp: tables_ok_def split: if_splits)
  next
    fix i j assume ij: "i < 1024" "j < 1024" "present (pword s' d i)" "present (pword s' d j)"
      "frame_of (pword s' d i) = frame_of (pword s' d j)"
    then show "i = j"
      using dir [OF ij(1)] dir [OF ij(2)] tab tb [OF ij(1)] tb [OF ij(2)] new_pde(1) [OF fc(2)] new_pde(2) [of f]
      by (auto simp: tables_ok_def split: if_splits)
  qed (use d df in auto)
  moreover have "mapped_ok s' d H g" if g: "mappings s' d g \<noteq> {} \<or> g \<in> dom H" for g
  proof -
    have m: "mappings s' d g = mappings s d g" by (rule mappings_cong) (rule pte)
    then have ok: "mapped_ok s d H g" using g map by simp
    then have "g \<noteq> f" using a(2) by (auto simp: mapped_ok_def)
    then show ?thesis
      using ok refs dir new_pde(1) [OF fc(2)] new_pde(2) [of f] by (auto simp: mapped_ok_def sets m split: if_splits)
  qed
  moreover have "\<forall>g \<in> free_set s'. page_ref s' g = 0" using us sets(1) refs by (simp add: uspace_def)
  ultimately have "uspace s' d H" using sets pc by (simp add: uspace_def)
  moreover have "kframe s s'"
    unfolding s'_def s2_def set_page_ref_def
    by (rule kframe_trans [OF kframe_trans [OF kframe_trans
          [OF kframe_pmm [OF a(5)] kframe_upd(5)] kframe_upd(1)] kframe_upd(3)])
  moreover have "get_pte (kva d) va True s = Ret (slot f (unat (PTE_INDEX va)), s')"
    using get_pte_create_run [OF us ab a(1) fc(1) a(5)] by (simp add: s'_def s2_def)
  moreover have "pword s' d ?i = new_pde f" using dir [OF index_bounds(1)] by simp
  moreover have "\<forall>g. g \<notin> free_set s \<longrightarrow> page_ref s' g = page_ref s g" using refs a(2) by metis
  moreover have "\<forall>i < 1024. \<forall>j < 1024. pte_at s' d i j = pte_at s d i j" using pte by simp
  ultimately show ?thesis
    using a(2) sets(1) by (intro exI [of _ f] exI [of _ s'] conjI) assumption+
qed

section \<open>Changing an entry\<close>

lemma tables_ok_transfer:
  assumes "tables_ok s d" and "\<And>k. k < 1024 \<Longrightarrow> pword t d k = pword s d k"
    and "PageCount t = PageCount s" "managed_set t = managed_set s" and "d \<notin> free_set t"
    and "\<And>k. k < 1024 \<Longrightarrow> present (pword s d k) \<Longrightarrow> frame_of (pword s d k) \<notin> free_set t"
  shows "tables_ok t d"
  using assms(1) unfolding tables_ok_def assms(3,4)
  by (simp add: assms(2,5,6))

lemma write_entry:
  assumes us: "uspace s d H" and ij: "i < 1024" "j < 1024" and pr: "present (pword s d i)"
    and t_def: "t = wr32 (slot (frame_of (pword s d i)) j) v s"
  shows "\<And>k. k < 1024 \<Longrightarrow> pword t d k = pword s d k"
    and "\<And>i' j'. i' < 1024 \<Longrightarrow> j' < 1024 \<Longrightarrow>
      pte_at t d i' j' = (if i' = i \<and> j' = j then v else pte_at s d i' j')"
proof -
  note tb = uspace_tables [OF us]
  have d: "d < max_frames" using uspace_dir [OF us] by simp
  show dir: "pword t d k = pword s d k" if "k < 1024" for k
    using pword_wr32 [OF tb(2) [OF ij(1) pr] d ij(2) that] tb(4) [OF ij(1) pr] by (simp add: t_def)
  show "pte_at t d i' j' = (if i' = i \<and> j' = j then v else pte_at s d i' j')"
    if "i' < 1024" "j' < 1024" for i' j'
  proof (cases "present (pword s d i')")
    case False
    then show ?thesis using dir that pr by (auto simp: pte_at_def)
  next
    case True
    have "pword t (frame_of (pword s d i')) j' =
        (if frame_of (pword s d i') = frame_of (pword s d i) \<and> j' = j then v
         else pword s (frame_of (pword s d i')) j')"
      unfolding t_def by (rule pword_wr32 [OF tb(2) [OF ij(1) pr] tb(2) [OF that(1) True] ij(2) that(2)])
    moreover have "(frame_of (pword s d i') = frame_of (pword s d i)) = (i' = i)"
      using us that ij pr True by (auto simp: uspace_def tables_ok_def)
    ultimately show ?thesis using True dir that by (simp add: pte_at_def)
  qed
qed

lemma mappings_upd:
  assumes "\<And>i' j'. i' < 1024 \<Longrightarrow> j' < 1024 \<Longrightarrow>
      pte_at t d i' j' = (if i' = i \<and> j' = j then v else pte_at s d i' j')"
    and "i < 768" "j < 1024"
  shows "mappings t d g =
    (if present v \<and> frame_of v = g then insert (i, j) (mappings s d g) else mappings s d g - {(i, j)})"
  using assms by (auto simp: mappings_def split: if_splits)

lemma page_ref_dec_eq:
  assumes "1 \<le> page_ref s g"
  shows "page_ref_dec g s = (page_ref s g - 1, upd_page g (\<lambda>pg. pg\<lparr>ref := ref pg - 1\<rparr>) s)"
    and "page_ref (upd_page g (\<lambda>pg. pg\<lparr>ref := ref pg - 1\<rparr>) s) f = (if f = g then page_ref s g - 1 else page_ref s f)"
  using assms sint_u32_dec [of "ref (Pages s g)"]
  by (simp_all add: page_ref_dec_def Let_def page_ref_def upd_page_def)

lemma page_ref_inc_eq:
  assumes "page_ref s g < 2147483647"
  shows "page_ref_inc g s = (page_ref s g + 1, upd_page g (\<lambda>pg. pg\<lparr>ref := ref pg + 1\<rparr>) s)"
    and "page_ref (upd_page g (\<lambda>pg. pg\<lparr>ref := ref pg + 1\<rparr>) s) f = (if f = g then page_ref s g + 1 else page_ref s f)"
  using assms sint_u32_inc [of "ref (Pages s g)"]
  by (simp_all add: page_ref_inc_def Let_def page_ref_def upd_page_def)

lemma kva2pa_kva: "d < max_frames \<Longrightarrow> kva2pa (kva d) = Ret (page2pa d)"
proof -
  assume "d < max_frames"
  then have "KERNEL_BASE \<le> kva d" using kernel_addr(1) [of d] by (simp add: kva_def word_le_nat_alt)
  then show ?thesis by (simp add: kva2pa_def kva_def)
qed

lemma tlb_invaildate_ok:
  "d < max_frames \<Longrightarrow> tlb_invaildate (kva d) va s = Ret (if cr3 s = page2pa d then invlpg va s else s)"
  by (simp add: tlb_invaildate_def kva2pa_kva)

lemma upd_ref_sel [simp]:
  "mem (upd_page p f s) = mem s" "cr3 (upd_page p f s) = cr3 s" "tlb (upd_page p f s) = tlb s"
  "PageCount (upd_page p f s) = PageCount s"
  by (simp_all add: upd_page_def)

lemma invlpg_sel [simp]:
  "mem (invlpg va s) = mem s" "Pages (invlpg va s) = Pages s" "PageCount (invlpg va s) = PageCount s"
  "cr3 (invlpg va s) = cr3 s" "tlb (invlpg va s) = tlb s - {ROUNDDOWN va PGSIZE}"
  "free_set (invlpg va s) = free_set s" "managed_set (invlpg va s) = managed_set s"
  "pmm_inv (invlpg va s) = pmm_inv s"
  by (simp_all add: invlpg_def)

lemma pword_same [simp]:
  "pword (upd_page p h s) f i = pword s f i" "pword (invlpg va s) f i = pword s f i"
  by (simp_all add: pword_def rd32_def)

lemma pte_at_same [simp]:
  "pte_at (upd_page p h s) d i j = pte_at s d i j" "pte_at (invlpg va s) d i j = pte_at s d i j"
  by (simp_all add: pte_at_def)

lemma page_ref_invlpg [simp]: "page_ref (invlpg va s) g = page_ref s g"
  by (simp add: page_ref_def)

lemma pte_at_mem_cong: "mem t = mem s \<Longrightarrow> pte_at t d i j = pte_at s d i j"
  by (simp add: pte_at_def pword_mem_cong [of t s])

text \<open>Dropping one reference to a page, and the page with the last one.\<close>

lemma drop_page:
  assumes inv: "pmm_inv s" and g: "g \<in> managed_set s" "g \<notin> free_set s" and r: "1 \<le> page_ref s g"
  shows "\<exists>s'. (let (r, s1) = page_ref_dec g s in if r \<le> 0 then freePhyPages g 1 s1 else Ret s1) = Ret s' \<and>
    pmm_inv s' \<and> mem s' = mem s \<and> tlb s' = tlb s \<and> kframe s s' \<and>
    free_set s' = (if page_ref s g = 1 then insert g (free_set s) else free_set s) \<and>
    (\<forall>f. f \<noteq> g \<longrightarrow> page_ref s' f = page_ref s f) \<and>
    page_ref s' g = page_ref s g - 1"
proof -
  define s1 where "s1 = upd_page g (\<lambda>pg. pg\<lparr>ref := ref pg - 1\<rparr>) s"
  note dec = page_ref_dec_eq [OF r, folded s1_def]
  have s1: "pmm_inv s1" "free_set s1 = free_set s" "managed_set s1 = managed_set s" "mem s1 = mem s"
    "tlb s1 = tlb s" "kframe s s1"
    using inv by (simp_all add: s1_def)
  show ?thesis
  proof (cases "page_ref s g = 1")
    case True
    obtain s2 where s2: "freePhyPages g 1 s1 = Ret s2" "pmm_inv s2" "free_set s2 = insert g (free_set s1)"
      "pmm_frame {g} s1 s2" "ref (Pages s2 g) = 0"
      using freePhyPages_one [of s1 g] s1 g by auto
    have "\<forall>f. f \<noteq> g \<longrightarrow> page_ref s2 f = page_ref s f"
      using s2(4) dec(2) by (simp add: page_ref_def pmm_frame_def)
    moreover have "page_ref s2 g = 0" using s2(5) by (simp add: page_ref_def)
    ultimately show ?thesis
      using True dec(1) s2 s1 pmm_frame_kmach [OF s2(4)] kframe_trans [OF s1(6) kframe_pmm [OF s2(4)]]
      by (intro exI [of _ s2]) simp
  next
    case False
    then show ?thesis using dec s1 r by (intro exI [of _ s1]) simp
  qed
qed

lemma uspace_mapped:
  assumes "uspace s d H" "i < 768" "j < 1024" "present (pte_at s d i j)"
  shows "mapped_ok s d H (frame_of (pte_at s d i j))"
    and "0 < card (mappings s d (frame_of (pte_at s d i j)))"
proof -
  have m: "(i, j) \<in> mappings s d (frame_of (pte_at s d i j))"
    using assms(2-4) by (simp add: mappings_def)
  then show "mapped_ok s d H (frame_of (pte_at s d i j))" using assms(1) unfolding uspace_def by blast
  show "0 < card (mappings s d (frame_of (pte_at s d i j)))"
    using m finite_mappings [of s d] card_gt_0_iff by blast
qed

lemma pte_remove_ok:
  assumes us: "uspace s d H" and ij: "i = unat (PGD_INDEX va)" "i < 768" "j = unat (PTE_INDEX va)"
    and pd: "present (pword s d i)" and pr: "present (pte_at s d i j)"
    and g: "g = frame_of (pte_at s d i j)" and h: "g \<in> dom H \<Longrightarrow> 1 \<le> held H g"
  shows "\<exists>s'. pte_remove_page (kva d) va (slot (frame_of (pword s d i)) j) s = Ret s' \<and> uspace s' d H \<and>
    kframe s s' \<and> (\<forall>k < 1024. pword s' d k = pword s d k) \<and>
    (\<forall>a < 1024. \<forall>b < 1024. pte_at s' d a b = (if a = i \<and> b = j then 0 else pte_at s d a b)) \<and>
    free_set s' = (if page_ref s g = 1 then insert g (free_set s) else free_set s) \<and>
    (\<forall>f. f \<noteq> g \<longrightarrow> page_ref s' f = page_ref s f) \<and>
    tlb s' = (if cr3 s = page2pa d then tlb s - {ROUNDDOWN va PGSIZE} else tlb s)"
proof -
  have b: "i < 1024" "j < 1024" using ij index_bounds by auto
  have mo: "mapped_ok s d H g" and c: "0 < card (mappings s d g)"
    using uspace_mapped [OF us ij(2) b(2) pr] g by auto
  have h0: "0 \<le> held H g" using h by (cases "g \<in> dom H") (auto simp: held_def split: option.split)
  have r: "1 \<le> page_ref s g" using mo c h0 by (simp add: mapped_ok_def)
  have gm: "g \<in> managed_set s" "g \<notin> free_set s" using mo by (simp_all add: mapped_ok_def)
  have inv: "pmm_inv s" using us by (simp add: uspace_def)
  obtain s2 where s2: "(let (r, s1) = page_ref_dec g s in if r \<le> 0 then freePhyPages g 1 s1 else Ret s1) = Ret s2"
    "pmm_inv s2" "mem s2 = mem s" "tlb s2 = tlb s" "kframe s s2"
    "free_set s2 = (if page_ref s g = 1 then insert g (free_set s) else free_set s)"
    "\<forall>f. f \<noteq> g \<longrightarrow> page_ref s2 f = page_ref s f" "page_ref s2 g = page_ref s g - 1"
    using drop_page [OF inv gm r] by blast
  note kf = kframeD [OF s2(5)]
  let ?a = "slot (frame_of (pword s d i)) j"
  define s3 where "s3 = wr32 ?a 0 s2"
  define s' where "s' = (if cr3 s = page2pa d then invlpg va s3 else s3)"
  have e: "rd32 s ?a = pte_at s d i j" using pd by (simp add: pte_at_def)
  have d: "d < max_frames" using uspace_dir [OF us] by simp
  have run: "pte_remove_page (kva d) va ?a s = Ret s'"
  proof -
    have "pte2page (rd32 s ?a) s = Ret g"
      using pr e pa2page_entry [of "pte_at s d i j" s] managed_bound [OF gm(1)] g
      by (simp add: pte2page_def present_def)
    then have "pte_remove_page (kva d) va ?a s = tlb_invaildate (kva d) va s3"
      using s2(1) pr e unfolding pte_remove_page_def s3_def present_def
      by (cases "page_ref_dec g s") (simp split: if_splits)
    then show ?thesis using tlb_invaildate_ok [OF d, of va s3] kf by (simp add: s'_def s3_def)
  qed
  have m3: "mem s3 = mem (wr32 ?a 0 s)" using s2(3) by (simp add: s3_def wr32_def)
  have sm: "mem s' = mem (wr32 ?a 0 s)" using m3 by (simp add: s'_def)
  note we = write_entry [OF us b pd refl, where v = 0]
  have dir: "\<forall>k < 1024. pword s' d k = pword s d k"
    using we(1) pword_mem_cong [OF sm] by simp
  have pte: "pte_at s' d a b = (if a = i \<and> b = j then 0 else pte_at s d a b)" if "a < 1024" "b < 1024" for a b
    using we(2) [OF that] pte_at_mem_cong [OF sm] by simp
  have sel: "free_set s' = free_set s2" "PageCount s' = PageCount s" "managed_set s' = managed_set s"
    "pmm_inv s'" "\<And>f. page_ref s' f = page_ref s2 f"
    using s2 kf by (simp_all add: s'_def s3_def)
  have maps: "mappings s' d f = mappings s d f - {(i, j)}" for f
    using mappings_upd [OF pte ij(2) b(2), of f] by (simp add: present_def)
  have in_g: "(i, j) \<in> mappings s d f \<longleftrightarrow> f = g" for f
    using ij b pr g by (auto simp: mappings_def)
  have "tables_ok s' d"
  proof (rule tables_ok_transfer [of s])
    show "frame_of (pword s d k) \<notin> free_set s'" if "k < 1024" "present (pword s d k)" for k
      using uspace_tables(3) [OF us that] mo that by (auto simp: sel s2(6) mapped_ok_def split: if_splits)
    show "d \<notin> free_set s'" using uspace_dir [OF us] mo by (auto simp: sel s2(6) mapped_ok_def split: if_splits)
  qed (use us dir sel in \<open>auto simp: uspace_def\<close>)
  moreover have "mapped_ok s' d H f" if f: "mappings s' d f \<noteq> {} \<or> f \<in> dom H" for f
  proof (cases "f = g")
    case False
    have "mapped_ok s d H f" using f us maps unfolding uspace_def by blast
    then show ?thesis
      using False dir s2(7) maps [of f] in_g [of f] by (auto simp: mapped_ok_def sel s2(6))
  next
    case True
    have card: "card (mappings s' d g) = card (mappings s d g) - 1"
      using maps [of g] in_g [of g] finite_mappings [of s d g] by simp
    have "page_ref s g \<noteq> 1"
    proof
      assume one: "page_ref s g = 1"
      then have "card (mappings s d g) = 1" "held H g = 0" using mo c h0 by (auto simp: mapped_ok_def)
      then have "mappings s' d g = {}" "g \<notin> dom H"
        using card finite_mappings [of s' d g] h by auto
      then show False using f True by simp
    qed
    then show ?thesis
      using mo True dir s2(6,8) card c by (auto simp: mapped_ok_def sel)
  qed
  moreover have "\<forall>f \<in> free_set s'. page_ref s' f = 0"
  proof
    fix f assume f: "f \<in> free_set s'"
    show "page_ref s' f = 0"
    proof (cases "f = g")
      case True
      then show ?thesis using f gm s2(6,8) sel by (auto split: if_splits)
    next
      case False
      then have "f \<in> free_set s" using f sel(1) s2(6) by (auto split: if_splits)
      then show ?thesis using False us s2(7) sel(5) by (simp add: uspace_def)
    qed
  qed
  ultimately have "uspace s' d H" using us sel by (simp add: uspace_def)
  moreover have "kframe s s'"
    using s2(5) by (simp add: s'_def s3_def) (meson kframe_trans kframe_upd(3,4))
  moreover have "tlb s' = (if cr3 s = page2pa d then tlb s - {ROUNDDOWN va PGSIZE} else tlb s)"
    using s2(4) by (simp add: s'_def s3_def)
  ultimately show ?thesis
    using run dir pte s2(6,7) sel by (intro exI [of _ s']) simp
qed

section \<open>Mapping a page\<close>

lemma get_pte_create:
  assumes us: "uspace s d H" and i: "i = unat (PGD_INDEX va)"
    and room: "present (pword s d i) \<or> free_set s \<noteq> {}"
  shows "\<exists>s'. get_pte (kva d) va True s = Ret (slot (frame_of (pword s' d i)) (unat (PTE_INDEX va)), s') \<and>
    uspace s' d H \<and> kframe s s' \<and> present (pword s' d i) \<and> free_set s' \<subseteq> free_set s \<and>
    (\<forall>a < 1024. \<forall>b < 1024. pte_at s' d a b = pte_at s d a b) \<and>
    (\<forall>g. g \<notin> free_set s \<longrightarrow> page_ref s' g = page_ref s g)"
proof (cases "present (pword s d i)")
  case True
  then show ?thesis using get_pte_present [OF us] us i by (intro exI [of _ s]) simp
next
  case False
  then obtain f s' where s': "get_pte (kva d) va True s = Ret (slot f (unat (PTE_INDEX va)), s')"
    "f \<in> free_set s" "free_set s' = free_set s - {f}" "uspace s' d H" "kframe s s'" "pword s' d i = new_pde f"
    "\<forall>i < 1024. \<forall>j < 1024. pte_at s' d i j = pte_at s d i j" "\<forall>g. g \<notin> free_set s \<longrightarrow> page_ref s' g = page_ref s g"
    using get_pte_alloc [OF us] room i by blast
  have "f \<in> managed_set s" using s'(2) us pmm.free_managed [of s] by (auto simp: uspace_def)
  then have "f < max_frames" using managed_bound us by (fastforce simp: uspace_def)
  then show ?thesis using s' new_pde [of f] by (intro exI [of _ s']) auto
qed

text \<open>A change of reference counts that the held references account for.\<close>

lemma uspace_ref:
  assumes us: "uspace s d (H(p \<mapsto> m))" and t: "t = upd_page p (\<lambda>pg. pg\<lparr>ref := r pg\<rparr>) s"
    and "\<And>f. page_ref t f = (if f = p then page_ref s p + (m' - m) else page_ref s f)"
  shows "uspace t d (H(p \<mapsto> m'))"
proof -
  have "pmm_inv t" "free_set t = free_set s" "managed_set t = managed_set s" "PageCount t = PageCount s"
    and pw: "\<And>f i. pword t f i = pword s f i" and pte: "\<And>i j. pte_at t d i j = pte_at s d i j"
    using us t by (simp_all add: uspace_def)
  moreover have maps: "mappings t d f = mappings s d f" for f by (rule mappings_cong) (rule pte)
  ultimately have "tables_ok t d" using us by (simp add: uspace_def tables_ok_def)
  moreover have "mapped_ok t d (H(p \<mapsto> m')) f" if "mappings t d f \<noteq> {} \<or> f \<in> dom (H(p \<mapsto> m'))" for f
  proof -
    have "mapped_ok s d (H(p \<mapsto> m)) f" using that us maps by (auto simp: uspace_def)
    then show ?thesis
      using assms(3) [of f] \<open>free_set t = free_set s\<close> \<open>managed_set t = managed_set s\<close>
      by (auto simp: mapped_ok_def maps pw held_def)
  qed
  moreover have "p \<notin> free_set s" using us by (simp add: uspace_def mapped_ok_def)
  then have "\<forall>f \<in> free_set t. page_ref t f = 0"
    using us assms(3) \<open>free_set t = free_set s\<close> by (auto simp: uspace_def)
  ultimately show ?thesis
    using us \<open>pmm_inv t\<close> \<open>PageCount t = PageCount s\<close> by (simp add: uspace_def)
qed

lemma uspace_set_entry:
  assumes us: "uspace s d (H(page \<mapsto> m))" and ij: "i < 768" "j < 1024" and pd: "present (pword s d i)"
    and v: "present v" "frame_of v = page"
    and old: "\<not> present (pte_at s d i j) \<and> m = k + 1 \<or>
      present (pte_at s d i j) \<and> frame_of (pte_at s d i j) = page \<and> m = k"
    and t: "t = wr32 (slot (frame_of (pword s d i)) j) v s"
  shows "uspace t d (H(page \<mapsto> k))"
proof -
  have b: "i < 1024" using ij by simp
  note we = write_entry [OF us b ij(2) pd t]
  have maps: "mappings t d f = (if f = page then insert (i, j) (mappings s d f) else mappings s d f - {(i, j)})" for f
    using mappings_upd [OF we(2) ij] v by auto
  have out: "(i, j) \<notin> mappings s d f" if "f \<noteq> page" for f
    using old that by (auto simp: mappings_def)
  have sel: "free_set t = free_set s" "managed_set t = managed_set s" "PageCount t = PageCount s" "pmm_inv t"
    "\<And>f. page_ref t f = page_ref s f"
    using us t by (simp_all add: uspace_def)
  have "tables_ok t d"
  proof (rule tables_ok_transfer [of s])
    show "tables_ok s d" using us by (simp add: uspace_def)
    show "d \<notin> free_set t" using uspace_dir [OF us] sel(1) by simp
    show "frame_of (pword s d k) \<notin> free_set t" if "k < 1024" "present (pword s d k)" for k
      using uspace_tables(3) [OF us that] sel(1) by simp
  qed (simp_all only: we(1) sel)
  moreover have "mapped_ok t d (H(page \<mapsto> k)) f" if f: "mappings t d f \<noteq> {} \<or> f \<in> dom (H(page \<mapsto> k))" for f
  proof (cases "f = page")
    case False
    have "mappings s d f \<noteq> {} \<or> f \<in> dom (H(page \<mapsto> m))" using f maps [of f] False by auto
    then have "mapped_ok s d (H(page \<mapsto> m)) f" using us unfolding uspace_def by blast
    then show ?thesis
      using False maps [of f] out [OF False] we(1) by (auto simp: mapped_ok_def sel held_def)
  next
    case True
    have mo: "mapped_ok s d (H(page \<mapsto> m)) page" using us by (simp add: uspace_def)
    have "int (card (insert (i, j) (mappings s d page))) + k = int (card (mappings s d page)) + m"
    proof -
      have "(i, j) \<in> mappings s d page \<longleftrightarrow> present (pte_at s d i j) \<and> frame_of (pte_at s d i j) = page"
        using ij by (simp add: mappings_def)
      then show ?thesis
        using old finite_mappings [of s d page] by (elim disjE) (simp_all add: card_insert_if)
    qed
    then show ?thesis
      using True mo maps [of page] we(1) by (auto simp: mapped_ok_def sel held_def)
  qed
  ultimately show ?thesis using us sel by (simp add: uspace_def)
qed

lemma uspace_invlpg [simp]: "uspace (invlpg va s) d H = uspace s d H"
proof -
  have "mappings (invlpg va s) d f = mappings s d f" for f by (rule mappings_cong) simp
  then show ?thesis by (simp add: uspace_def tables_ok_def mapped_ok_def)
qed

text \<open>
  The middle of \<^verbatim>\<open>page_insert\<close>: after the reference to the new page is counted, the old entry is
  dropped, or the count taken back when the old entry already maps the page.
\<close>

definition insert_mid :: "ptr \<Rightarrow> nat \<Rightarrow> u32 \<Rightarrow> ptr \<Rightarrow> 'a kmach_scheme \<Rightarrow> 'a kmach_scheme kres" where
  "insert_mid pgdir page va ptep s2 =
     (if rd32 s2 ptep AND PTE_PAGE_PERSENT \<noteq> 0
      then kbind (pte2page (rd32 s2 ptep) s2) (\<lambda>p.
             if p = page then Ret (snd (page_ref_dec page s2)) else pte_remove_page pgdir va ptep s2)
      else Ret s2)"

lemma insert_mid_ok:
  assumes us: "uspace s d (H(page \<mapsto> k + 1))" and k: "0 \<le> k"
    and ij: "i = unat (PGD_INDEX va)" "i < 768" "j = unat (PTE_INDEX va)" and pd: "present (pword s d i)"
    and H: "\<forall>f \<in> dom H. 1 \<le> held H f"
  shows "\<exists>s' m. insert_mid (kva d) page va (slot (frame_of (pword s d i)) j) s = Ret s' \<and>
    uspace s' d (H(page \<mapsto> m)) \<and> kframe s s' \<and> pword s' d i = pword s d i \<and>
    (\<not> present (pte_at s' d i j) \<and> m = k + 1 \<or>
     present (pte_at s' d i j) \<and> frame_of (pte_at s' d i j) = page \<and> m = k) \<and>
    (\<forall>a < 1024. \<forall>b < 1024. \<not> (a = i \<and> b = j) \<longrightarrow> pte_at s' d a b = pte_at s d a b)"
proof -
  have b: "i < 1024" "j < 1024" using ij index_bounds by auto
  let ?a = "slot (frame_of (pword s d i)) j"
  have e: "rd32 s ?a = pte_at s d i j" using pd by (simp add: pte_at_def)
  let ?g = "frame_of (pte_at s d i j)"
  have p2: "pte2page (rd32 s ?a) s = Ret ?g" if "present (pte_at s d i j)"
  proof -
    have "?g < unat (PageCount s)"
      using uspace_mapped(1) [OF us ij(2) b(2) that] managed_bound by (auto simp: mapped_ok_def)
    then show ?thesis using that e pa2page_entry by (simp add: pte2page_def present_def)
  qed
  consider "\<not> present (pte_at s d i j)" | "present (pte_at s d i j)" "?g = page"
    | "present (pte_at s d i j)" "?g \<noteq> page" by blast
  then show ?thesis
  proof cases
    case 1
    then have "insert_mid (kva d) page va ?a s = Ret s" unfolding insert_mid_def e by (simp add: present_def)
    then show ?thesis using 1 us by (intro exI [of _ s] exI [of _ "k + 1"]) simp
  next
    case 2
    define t where "t = upd_page page (\<lambda>pg. pg\<lparr>ref := ref pg - 1\<rparr>) s"
    have "mapped_ok s d (H(page \<mapsto> k + 1)) page" using us by (simp add: uspace_def)
    then have r: "1 \<le> page_ref s page" using k by (simp add: mapped_ok_def held_def)
    note dec = page_ref_dec_eq [OF r, folded t_def]
    have "uspace t d (H(page \<mapsto> k))"
      using uspace_ref [OF us t_def [unfolded], of k] dec(2) by simp
    moreover have "insert_mid (kva d) page va ?a s = Ret t"
      using 2 p2 dec(1) unfolding insert_mid_def e by (simp add: present_def)
    ultimately show ?thesis using 2 by (intro exI [of _ t] exI [of _ k]) (simp add: t_def)
  next
    case 3
    have "1 \<le> held (H(page \<mapsto> k + 1)) ?g" if "?g \<in> dom (H(page \<mapsto> k + 1))"
      using that 3 H by (auto simp: held_def)
    then obtain s' where s': "pte_remove_page (kva d) va ?a s = Ret s'" "uspace s' d (H(page \<mapsto> k + 1))"
      "kframe s s'" "\<forall>k < 1024. pword s' d k = pword s d k"
      "\<forall>a < 1024. \<forall>b < 1024. pte_at s' d a b = (if a = i \<and> b = j then 0 else pte_at s d a b)"
      using pte_remove_ok [OF us ij pd 3(1) refl] by blast
    have "insert_mid (kva d) page va ?a s = Ret s'"
      using 3 p2 s'(1) unfolding insert_mid_def e by (simp add: present_def)
    moreover have "\<not> present (pte_at s' d i j)" using s'(5) b by (simp add: present_def)
    ultimately show ?thesis using s' b by (intro exI [of _ s'] exI [of _ "k + 1"]) simp
  qed
qed

lemma page_insert_ok:
  assumes us: "uspace s d (H(page \<mapsto> k))" and k: "0 \<le> k" "k \<le> 1000000"
    and ij: "i = unat (PGD_INDEX va)" "i < 768" "j = unat (PTE_INDEX va)" and perm: "perm < 4096"
    and H: "\<forall>f \<in> dom H. 1 \<le> held H f" and room: "present (pword s d i) \<or> free_set s \<noteq> {}"
  shows "\<exists>s'. page_insert (kva d) page va perm s = Ret (0, s') \<and> uspace s' d (H(page \<mapsto> k)) \<and> kframe s s' \<and>
    (\<forall>a < 1024. \<forall>b < 1024. pte_at s' d a b =
      (if a = i \<and> b = j then page2pa page OR PTE_PAGE_PERSENT OR perm else pte_at s d a b)) \<and>
    (cr3 s = page2pa d \<longrightarrow> ROUNDDOWN va PGSIZE \<notin> tlb s')"
proof -
  have b: "i < 1024" "j < 1024" using ij index_bounds by auto
  obtain s1 where s1: "get_pte (kva d) va True s = Ret (slot (frame_of (pword s1 d i)) j, s1)"
    "uspace s1 d (H(page \<mapsto> k))" "kframe s s1" "present (pword s1 d i)"
    "\<forall>a < 1024. \<forall>b < 1024. pte_at s1 d a b = pte_at s d a b"
    using get_pte_create [OF us ij(1) room] ij(3) by blast
  let ?a = "slot (frame_of (pword s1 d i)) j"
  have nn: "?a \<noteq> NULL" using slot_not_null uspace_tables(2) [OF s1(2) b(1) s1(4)] b(2) by blast
  have mo: "mapped_ok s1 d (H(page \<mapsto> k)) page" using s1(2) by (simp add: uspace_def)
  then have "page_ref s1 page = int (card (mappings s1 d page)) + k"
    by (simp add: mapped_ok_def held_def)
  then have r: "page_ref s1 page < 2147483647" using card_mappings [of s1 d page] k by simp
  define s2 where "s2 = upd_page page (\<lambda>pg. pg\<lparr>ref := ref pg + 1\<rparr>) s1"
  note inc = page_ref_inc_eq [OF r, folded s2_def]
  have u2: "uspace s2 d (H(page \<mapsto> k + 1))"
    using uspace_ref [OF s1(2) s2_def [unfolded], of "k + 1"] inc(2) by simp
  have pd2: "pword s2 d i = pword s1 d i" by (simp add: s2_def)
  obtain s3 m where s3: "insert_mid (kva d) page va ?a s2 = Ret s3" "uspace s3 d (H(page \<mapsto> m))" "kframe s2 s3"
    "pword s3 d i = pword s1 d i"
    "\<not> present (pte_at s3 d i j) \<and> m = k + 1 \<or>
     present (pte_at s3 d i j) \<and> frame_of (pte_at s3 d i j) = page \<and> m = k"
    "\<forall>a < 1024. \<forall>b < 1024. \<not> (a = i \<and> b = j) \<longrightarrow> pte_at s3 d a b = pte_at s2 d a b"
    using insert_mid_ok [OF u2 k(1) ij _ H] s1(4) pd2 by auto
  let ?v = "page2pa page OR PTE_PAGE_PERSENT OR perm"
  have "page \<in> managed_set s1" using mo by (simp add: mapped_ok_def)
  then have pm: "page < max_frames" using managed_bound s1(2) by (fastforce simp: uspace_def)
  have "1 OR perm < 4096"
    using perm flags_small [of "1 :: u32"] by (simp only: flags_small drop_bit_or) simp
  then have v: "frame_of ?v = page" "present ?v"
    using frame_of_entry [OF pm, of "1 OR perm"] by (simp_all add: or.assoc present_odd even_or_iff)
  define s4 where "s4 = wr32 ?a ?v s3"
  have u4: "uspace s4 d (H(page \<mapsto> k))"
    using uspace_set_entry [OF s3(2) ij(2) b(2) _ v(2,1) s3(5)] s1(4) s3(4) by (simp add: s4_def)
  note we = write_entry [OF s3(2) b _ s4_def [folded s3(4)]]
  define s' where "s' = (if cr3 s3 = page2pa d then invlpg va s4 else s4)"
  have d: "d < max_frames" using uspace_dir [OF us] by simp
  have "page_insert (kva d) page va perm s =
      kbind (insert_mid (kva d) page va ?a s2)
        (\<lambda>s3. kbind (tlb_invaildate (kva d) va (wr32 ?a ?v s3)) (\<lambda>s4. Ret (0, s4)))"
    using s1(1) nn inc(1) by (simp add: page_insert_def insert_mid_def)
  also have "\<dots> = Ret (0, s')"
    using s3(1) tlb_invaildate_ok [OF d, of va s4] by (simp add: s'_def s4_def)
  finally have run: "page_insert (kva d) page va perm s = Ret (0, s')" .
  have "kframe s1 s2" unfolding s2_def by (rule kframe_upd(5))
  then have kf: "kframe s s3" using kframe_trans [OF kframe_trans [OF s1(3)] s3(3)] by simp
  then have "kframe s s'"
    using kframe_trans [OF kframe_trans [OF kf kframe_upd(3)] kframe_upd(4)] kframe_trans [OF kf kframe_upd(3)]
    by (simp add: s'_def s4_def)
  moreover have "pte_at s' d a b = (if a = i \<and> b = j then ?v else pte_at s d a b)"
    if "a < 1024" "b < 1024" for a b
  proof -
    have "pte_at s' d a b = pte_at s4 d a b" by (simp add: s'_def)
    also have "\<dots> = (if a = i \<and> b = j then ?v else pte_at s3 d a b)"
      using we(2) that s1(4) s3(4) by simp
    finally show ?thesis using s3(6) s1(5) that by (simp add: s2_def)
  qed
  moreover have "cr3 s = page2pa d \<longrightarrow> ROUNDDOWN va PGSIZE \<notin> tlb s'"
    using kframeD(3) [OF kf] by (simp add: s'_def)
  ultimately show ?thesis using run u4 by (intro exI [of _ s']) (simp add: s'_def)
qed

section \<open>Translation\<close>

text \<open>What the processor's table walk yields for an address in the space with directory frame \<open>d\<close>.\<close>

definition translate :: "'a kmach_scheme \<Rightarrow> nat \<Rightarrow> u32 \<Rightarrow> u32 option" where
  "translate s d va =
     (let e = pte_at s d (unat (PGD_INDEX va)) (unat (PTE_INDEX va))
      in if present e then Some (PTE_ADDR e OR PG_OFFSET va) else None)"

definition same_page :: "u32 \<Rightarrow> u32 \<Rightarrow> bool" where
  "same_page a b = (drop_bit 12 a = drop_bit 12 b)"

lemma index_eq_iff: "(PGD_INDEX a = PGD_INDEX b \<and> PTE_INDEX a = PTE_INDEX b) = same_page a b"
proof
  assume eq: "PGD_INDEX a = PGD_INDEX b \<and> PTE_INDEX a = PTE_INDEX b"
  have lo: "bit a (12 + n) = bit b (12 + n)" if "n < 10" for n
    using arg_cong [OF conjunct2 [OF eq], of "\<lambda>x. bit x n"] that
    by (simp add: index_take_bit bit_take_bit_iff bit_drop_bit_eq)
  have hi: "bit a (22 + n) = bit b (22 + n)" if "n < 10" for n
    using arg_cong [OF conjunct1 [OF eq], of "\<lambda>x. bit x n"] that
    by (simp add: index_take_bit bit_take_bit_iff bit_drop_bit_eq)
  show "same_page a b"
    unfolding same_page_def
  proof (rule bit_eqI)
    fix n assume "possible_bit TYPE(u32) n"
    show "bit (drop_bit 12 a) n = bit (drop_bit 12 b) n"
    proof (cases "n < 10")
      case True
      then show ?thesis using lo [of n] by (simp add: bit_drop_bit_eq)
    next
      case False
      then show ?thesis
        using hi [of "n - 10"] by (cases "n < 20") (auto simp: bit_drop_bit_eq dest: bit_imp_le_length)
    qed
  qed
next
  assume s: "same_page a b"
  have "drop_bit 22 x = drop_bit 10 (drop_bit 12 x)" for x :: u32 by simp
  then show "PGD_INDEX a = PGD_INDEX b \<and> PTE_INDEX a = PTE_INDEX b"
    using s unfolding same_page_def index_take_bit by metis
qed

lemma index_eq_unat:
  "(unat (PGD_INDEX a) = unat (PGD_INDEX b) \<and> unat (PTE_INDEX a) = unat (PTE_INDEX b)) = same_page a b"
  using index_eq_iff by (simp add: word_unat_eq_iff)

lemma user_index: "va < KERNEL_BASE \<Longrightarrow> unat (PGD_INDEX va) < 768"
proof -
  assume "va < KERNEL_BASE"
  then have "unat va < 0xC0000000" by (simp add: word_less_nat_alt)
  moreover have "unat (drop_bit 22 va) = unat va div 4194304" by (simp add: drop_bit_eq_div unat_div_distrib)
  ultimately have "unat (drop_bit 22 va) < 768" by (simp add: less_mult_imp_div_less)
  moreover have "unat (PGD_INDEX va) \<le> unat (drop_bit 22 va)"
    by (simp add: index_take_bit unsigned_take_bit_eq take_bit_nat_less_eq_self)
  ultimately show ?thesis by simp
qed

lemma PTE_ADDR_new_entry:
  assumes "page < max_frames" "perm < 4096"
  shows "PTE_ADDR (page2pa page OR PTE_PAGE_PERSENT OR perm) = page2pa page"
    and "present (page2pa page OR PTE_PAGE_PERSENT OR perm)"
    and "frame_of (page2pa page OR PTE_PAGE_PERSENT OR perm) = page"
proof -
  have "drop_bit 12 (1 OR perm) = 0"
    using assms(2) flags_small [of "1 :: u32"] by (simp only: flags_small drop_bit_or) simp
  then have v: "drop_bit 12 (page2pa page OR 1 OR perm) = drop_bit 12 (page2pa page)"
    by (simp only: or.assoc drop_bit_or or.right_neutral)
  moreover have u: "unat (drop_bit 12 (page2pa page)) = page" using kernel_addr(3) [of page] assms(1) by simp
  then have "drop_bit 12 (page2pa page) = of_nat page" using u32_of_unat by metis
  ultimately show "PTE_ADDR (page2pa page OR PTE_PAGE_PERSENT OR perm) = page2pa page"
    by (simp add: PTE_ADDR_eq page2pa_def page2pagen_def)
  show "present (page2pa page OR PTE_PAGE_PERSENT OR perm)"
    by (simp add: present_odd even_or_iff)
  show "frame_of (page2pa page OR PTE_PAGE_PERSENT OR perm) = page"
    using u by (simp only: frame_of_def v)
qed

lemma translate_upd:
  assumes "\<forall>a < 1024. \<forall>b < 1024. pte_at t d a b =
      (if a = unat (PGD_INDEX va) \<and> b = unat (PTE_INDEX va) then v else pte_at s d a b)"
  shows "translate t d x =
    (if same_page x va then if present v then Some (PTE_ADDR v OR PG_OFFSET x) else None else translate s d x)"
  using assms index_eq_unat [of x va] index_bounds [of x] by (auto simp: translate_def Let_def)

section \<open>Whole operations\<close>

lemma page_remove_ok:
  assumes us: "uspace s d H" and H: "\<forall>f \<in> dom H. 1 \<le> held H f" and va: "va < KERNEL_BASE"
  shows "\<exists>s'. page_remove (kva d) va s = Ret s' \<and> uspace s' d H \<and> kframe s s' \<and>
    (\<forall>x. translate s' d x = (if same_page x va then None else translate s d x)) \<and>
    free_set s' = free_set s \<union>
      {f. f = frame_of (pte_at s d (unat (PGD_INDEX va)) (unat (PTE_INDEX va))) \<and>
          translate s d va \<noteq> None \<and> page_ref s f = 1}"
proof -
  let ?i = "unat (PGD_INDEX va)" and ?j = "unat (PTE_INDEX va)"
  have eq: "translate s d x = translate s d va" if "same_page x va" "\<not> present (pte_at s d ?i ?j)" for x
    using that index_eq_unat [of x va] by (simp add: translate_def)
  show ?thesis
  proof (cases "present (pword s d ?i)")
    case False
    then have "page_remove (kva d) va s = Ret s" by (simp add: page_remove_def get_pte_absent)
    moreover have "\<not> present (pte_at s d ?i ?j)" using False by (simp add: pte_at_def present_def)
    ultimately show ?thesis
      using us eq by (intro exI [of _ s]) (auto simp: translate_def)
  next
    case True
    have b: "?i < 1024" "?j < 1024" using index_bounds by auto
    have nn: "slot (frame_of (pword s d ?i)) ?j \<noteq> NULL"
      using slot_not_null uspace_tables(2) [OF us b(1) True] b(2) by blast
    have run: "page_remove (kva d) va s = pte_remove_page (kva d) va (slot (frame_of (pword s d ?i)) ?j) s"
      using get_pte_present [OF us True] nn by (simp add: page_remove_def)
    show ?thesis
    proof (cases "present (pte_at s d ?i ?j)")
      case False
      then have "page_remove (kva d) va s = Ret s"
        using run True by (simp add: pte_remove_page_def pte_at_def flip: present_def)
      then show ?thesis using False us eq by (intro exI [of _ s]) (auto simp: translate_def)
    next
      case pr: True
      let ?g = "frame_of (pte_at s d ?i ?j)"
      obtain s' where s': "pte_remove_page (kva d) va (slot (frame_of (pword s d ?i)) ?j) s = Ret s'"
        "uspace s' d H" "kframe s s'"
        "\<forall>a < 1024. \<forall>b < 1024. pte_at s' d a b = (if a = ?i \<and> b = ?j then 0 else pte_at s d a b)"
        "free_set s' = (if page_ref s ?g = 1 then insert ?g (free_set s) else free_set s)"
        using pte_remove_ok [OF us refl user_index [OF va] refl True pr refl] H by blast
      then show ?thesis
        using run pr translate_upd [OF s'(4)]
        by (intro exI [of _ s']) (auto simp: present_def translate_def)
    qed
  qed
qed

text \<open>Taking a page from the allocator, or giving back one that is not mapped.\<close>

lemma uspace_one_page:
  assumes us: "uspace s d H" and inv: "pmm_inv t" and kf: "kframe s t" and m: "mem t = mem s"
    and free: "free_set t \<subseteq> insert p (free_set s)"
    and p: "p \<noteq> d" "\<And>k. k < 1024 \<Longrightarrow> present (pword s d k) \<Longrightarrow> frame_of (pword s d k) \<noteq> p" "mappings s d p = {}"
    and ref: "\<And>f. f \<noteq> p \<Longrightarrow> page_ref t f = page_ref s f" "p \<in> free_set t \<Longrightarrow> page_ref t p = 0"
    and H': "\<And>f. f \<noteq> p \<Longrightarrow> H' f = H f" "p \<in> dom H' \<Longrightarrow> p \<in> managed_set s - free_set t \<and> page_ref t p = held H' p"
  shows "uspace t d H'"
proof -
  note kd = kframeD [OF kf]
  have pw: "pword t f i = pword s f i" for f i using pword_mem_cong [OF m] .
  have maps: "mappings t d f = mappings s d f" for f
    using pte_at_mem_cong [OF m] by (intro mappings_cong) simp
  have "tables_ok t d"
  proof (rule tables_ok_transfer [of s])
    show "frame_of (pword s d k) \<notin> free_set t" if "k < 1024" "present (pword s d k)" for k
      using uspace_tables(3) [OF us that] free p(2) [OF that] by blast
    show "d \<notin> free_set t" using uspace_dir [OF us] free p(1) by blast
  qed (use us pw kd in \<open>simp_all add: uspace_def\<close>)
  moreover have "mapped_ok t d H' f" if f: "mappings t d f \<noteq> {} \<or> f \<in> dom H'" for f
  proof (cases "f = p")
    case True
    then have "p \<in> dom H'" using f maps p(3) by simp
    then show ?thesis using True H'(2) p maps kd pw by (auto simp: mapped_ok_def)
  next
    case False
    then have "f \<in> dom H' \<longleftrightarrow> f \<in> dom H" "held H' f = held H f"
      using H'(1) [OF False] by (simp_all add: domIff held_def)
    moreover from this have "mapped_ok s d H f" using f maps us unfolding uspace_def by blast
    ultimately show ?thesis
      using False ref(1) [OF False] free maps kd pw by (auto simp: mapped_ok_def)
  qed
  moreover have "page_ref t f = 0" if "f \<in> free_set t" for f
    using that free ref us by (cases "f = p") (auto simp: uspace_def)
  ultimately show ?thesis using us inv kd by (simp add: uspace_def)
qed

lemma free_not_used:
  assumes us: "uspace s d H" and p: "p \<in> free_set s"
  shows "p \<noteq> d" "\<And>k. k < 1024 \<Longrightarrow> present (pword s d k) \<Longrightarrow> frame_of (pword s d k) \<noteq> p"
    "mappings s d p = {}" "p \<notin> dom H" "p \<in> managed_set s" "page_ref s p = 0"
proof -
  show "p \<noteq> d" using uspace_dir [OF us] p by auto
  show "frame_of (pword s d k) \<noteq> p" if "k < 1024" "present (pword s d k)" for k
    using uspace_tables(3) [OF us that] p by auto
  have "\<not> mapped_ok s d H p" using p by (simp add: mapped_ok_def)
  then show "mappings s d p = {}" "p \<notin> dom H" using us unfolding uspace_def by blast+
  show "p \<in> managed_set s" "page_ref s p = 0"
    using us p pmm.free_managed [of s] by (auto simp: uspace_def)
qed

lemma uspace_take:
  assumes us: "uspace s d H" and p: "p \<in> free_set s" and t: "pmm_inv t" "free_set t = free_set s - {p}"
    "pmm_frame {} s t"
  shows "uspace t d (H(p \<mapsto> 0))"
  using free_not_used [OF us p] t pmm_frame_ref [OF t(3)] pmm_frame_kmach [OF t(3)]
  by (intro uspace_one_page [OF us t(1) kframe_pmm [OF t(3)], of p]) (auto simp: held_def)

lemma uspace_unhold: "uspace s d (H(p \<mapsto> 0)) \<Longrightarrow> H p = None \<Longrightarrow> uspace s d H"
proof -
  assume us: "uspace s d (H(p \<mapsto> 0))" and n: "H p = None"
  have "mapped_ok s d (H(p \<mapsto> 0)) f = mapped_ok s d H f" for f
    using n by (simp add: mapped_ok_def held_def)
  then show ?thesis using us by (auto simp: uspace_def)
qed

lemma uspace_give:
  assumes us: "uspace s d (H(p \<mapsto> 0))" and p: "mappings s d p = {}" "H p = None"
  shows "\<exists>t. freePhyPages p 1 s = Ret t \<and> uspace t d H \<and> free_set t = insert p (free_set s) \<and>
    kframe s t \<and> mem t = mem s"
proof -
  have mo: "mapped_ok s d (H(p \<mapsto> 0)) p" using us by (simp add: uspace_def)
  then obtain t where t: "freePhyPages p 1 s = Ret t" "pmm_inv t" "free_set t = insert p (free_set s)"
    "pmm_frame {p} s t" "ref (Pages t p) = 0"
    using freePhyPages_one [of s p] us by (auto simp: uspace_def mapped_ok_def)
  have "uspace t d H"
    using mo p t pmm_frame_kmach [OF t(4)]
    by (intro uspace_one_page [OF us t(2) kframe_pmm [OF t(4)], of p])
      (auto simp: mapped_ok_def page_ref_def pmm_frame_def)
  then show ?thesis using t pmm_frame_kmach [OF t(4)] kframe_pmm [OF t(4)] by blast
qed

lemma page_insert_full:
  assumes "uspace s d H" and "\<not> present (pword s d (unat (PGD_INDEX va)))" and "free_set s = {}"
  shows "page_insert (kva d) page va perm s = Ret (- E_NOMEM, s)"
  using get_pte_full [OF assms] by (simp add: page_insert_def)

lemma pgdir_alloc_page_ok:
  assumes us: "uspace s d Map.empty" and va: "va < KERNEL_BASE" and perm: "perm < 4096"
  shows "\<exists>r s'. pgdir_alloc_page (kva d) va perm s = Ret (r, s') \<and> uspace s' d Map.empty \<and> kframe s s' \<and>
    (case r of
       None \<Rightarrow> (\<forall>x. translate s' d x = translate s d x) \<and> free_set s' = free_set s \<and>
         (free_set s = {} \<or> \<not> present (pword s d (unat (PGD_INDEX va))) \<and> (\<exists>p. free_set s = {p}))
     | Some page \<Rightarrow> page \<in> free_set s \<and> page_ref s' page = 1 \<and>
         (\<forall>x. translate s' d x =
            (if same_page x va then Some (page2pa page OR PG_OFFSET x) else translate s d x)))"
proof (cases "free_set s = {}")
  case True
  then have "allocPhyPages 1 s = Ret (None, s)" using us allocPhyPages_one [of s] by (auto simp: uspace_def)
  then show ?thesis using us True by (intro exI [of _ None] exI [of _ s]) (simp add: pgdir_alloc_page_def)
next
  case False
  let ?i = "unat (PGD_INDEX va)" and ?j = "unat (PTE_INDEX va)"
  obtain p s1 where a: "allocPhyPages 1 s = Ret (Some p, s1)" "p \<in> free_set s" "free_set s1 = free_set s - {p}"
    "pmm_inv s1" "pmm_frame {} s s1"
    using allocPhyPages_one [of s] us False by (auto simp: uspace_def)
  have u1: "uspace s1 d [p \<mapsto> 0]" using uspace_take [OF us a(2,4,3,5)] by simp
  have m1: "mem s1 = mem s" using pmm_frame_kmach [OF a(5)] by simp
  have np: "mappings s1 d p = {}"
    using free_not_used(3) [OF us a(2)] pte_at_mem_cong [OF m1] by (simp add: mappings_def)
  have p: "p < max_frames" using free_not_used(5) [OF us a(2)] managed_bound us by (fastforce simp: uspace_def)
  show ?thesis
  proof (cases "present (pword s d ?i) \<or> free_set s1 \<noteq> {}")
    case True
    then have room: "present (pword s1 d ?i) \<or> free_set s1 \<noteq> {}" using pword_mem_cong [OF m1] by simp
    obtain s2 where s2: "page_insert (kva d) p va perm s1 = Ret (0, s2)" "uspace s2 d [p \<mapsto> 0]" "kframe s1 s2"
      "\<forall>a < 1024. \<forall>b < 1024. pte_at s2 d a b =
        (if a = ?i \<and> b = ?j then page2pa p OR PTE_PAGE_PERSENT OR perm else pte_at s1 d a b)"
      using page_insert_ok [OF u1 _ _ refl user_index [OF va] refl perm _ room] by auto
    note e = PTE_ADDR_new_entry [OF p perm]
    have "mappings s2 d p = {(?i, ?j)}"
      using mappings_upd [of s2 d ?i ?j "page2pa p OR PTE_PAGE_PERSENT OR perm" s1 p]
        s2(4) user_index [OF va] index_bounds(2) np e by simp
    then have "page_ref s2 p = 1" using s2(2) by (simp add: uspace_def mapped_ok_def held_def)
    moreover have "translate s2 d x = (if same_page x va then Some (page2pa p OR PG_OFFSET x) else translate s d x)" for x
      using translate_upd [OF s2(4), of x] e pte_at_mem_cong [OF m1] by (simp add: translate_def)
    moreover have "pgdir_alloc_page (kva d) va perm s = Ret (Some p, s2)"
      using a(1) s2(1) by (simp add: pgdir_alloc_page_def)
    ultimately show ?thesis
      using a(2) uspace_unhold [OF s2(2)] kframe_trans [OF kframe_pmm [OF a(5)] s2(3)]
      by (intro exI [of _ "Some p"] exI [of _ s2]) simp
  next
    case False
    then have f: "page_insert (kva d) p va perm s1 = Ret (- E_NOMEM, s1)" "free_set s = {p}"
      using page_insert_full [OF u1] pword_mem_cong [OF m1] a(2,3) by auto
    obtain s3 where s3: "freePhyPages p 1 s1 = Ret s3" "uspace s3 d Map.empty" "free_set s3 = insert p (free_set s1)"
      "kframe s1 s3" "mem s3 = mem s1"
      using uspace_give [OF u1 np] by auto
    have "translate s3 d x = translate s d x" for x
      using pte_at_mem_cong [of s3 s d] s3(5) m1 by (simp add: translate_def)
    then show ?thesis
      using False a f s3 kframe_trans [OF kframe_pmm [OF a(5)] s3(4)]
      by (intro exI [of _ None] exI [of _ s3]) (simp add: pgdir_alloc_page_def)
  qed
qed

section \<open>Removing a range\<close>

lemma same_page_aligned:
  assumes "unat va mod 4096 = 0"
  shows "same_page x va = (unat va \<le> unat x \<and> unat x < unat va + 4096)"
proof -
  have "same_page x va = (unat x div 4096 = unat va div 4096)"
    by (simp add: same_page_def word_unat_eq_iff drop_bit_eq_div unat_div_distrib)
  also have "\<dots> = (unat va \<le> unat x \<and> unat x < unat va + 4096)"
    using div_eq_nat_iff [of 4096 "unat x" "unat va div 4096"] mult_div_mod_eq [of 4096 "unat va"] assms by simp
  finally show ?thesis .
qed

lemma PGD_INDEX_div: "unat (PGD_INDEX x) = unat x div 4194304"
proof -
  have "unat (drop_bit 22 x) = unat x div 4194304" by (simp add: drop_bit_eq_div unat_div_distrib)
  moreover have "unat x div 4194304 < 1024" using unat_u32_less [of x] by simp
  ultimately show ?thesis
    using take_bit_nat_eq_self [of "unat (drop_bit 22 x)" 10] by (simp only: index_take_bit unsigned_take_bit_eq) simp
qed

lemma next_table:
  assumes "unat va < 0xB0000000"
  shows "unat (ROUNDDOWN (va + PGDE_MAP_NBYTE) PGDE_MAP_NBYTE) = (unat va div 4194304 + 1) * 4194304"
proof -
  have "unat (va + PGDE_MAP_NBYTE) = unat va + 4194304"
    using assms by (subst unat_add_lem [THEN iffD1]) simp_all
  then have "unat (ROUNDDOWN (va + PGDE_MAP_NBYTE) PGDE_MAP_NBYTE) =
      (unat va + 4194304) - (unat va + 4194304) mod 4194304"
    using unat_ROUNDDOWN [of "va + PGDE_MAP_NBYTE" PGDE_MAP_NBYTE] by simp
  also have "\<dots> = (unat va + 4194304) div 4194304 * 4194304" by (rule minus_mod_eq_div_mult)
  also have "(unat va + 4194304) div 4194304 = unat va div 4194304 + 1" by simp
  finally show ?thesis .
qed

lemma next_page: "unat va < 0xB0000000 \<Longrightarrow> unat (va + PGSIZE) = unat va + 4096"
  by (subst unat_add_lem [THEN iffD1]) simp_all

text \<open>One round: the next address lies further on, and what lies between is unmapped.\<close>

lemma unmap_range_body_ok:
  assumes us: "uspace s d H" and H: "\<forall>f \<in> dom H. 1 \<le> held H f"
    and va: "unat va < 0xB0000000" "unat va mod 4096 = 0"
  shows "\<exists>nx s'. unmap_range_body (kva d) fin (va, s) =
      Ret (if nx \<noteq> 0 \<and> nx < fin then Inl (nx, s') else Inr s') \<and>
    uspace s' d H \<and> kframe s s' \<and> unat va < unat nx \<and> unat nx mod 4096 = 0 \<and>
    (unat nx = unat va + 4096 \<or> (\<forall>x. unat va \<le> unat x \<and> unat x < unat nx \<longrightarrow> translate s d x = None)) \<and>
    (\<forall>x. translate s' d x = (if unat va \<le> unat x \<and> unat x < unat nx then None else translate s d x))"
proof -
  let ?i = "unat (PGD_INDEX va)" and ?j = "unat (PTE_INDEX va)"
  have uva: "va < KERNEL_BASE" using va(1) by (simp add: word_less_nat_alt)
  show ?thesis
  proof (cases "present (pword s d ?i)")
    case False
    let ?n = "ROUNDDOWN (va + PGDE_MAP_NBYTE) PGDE_MAP_NBYTE"
    have n: "unat ?n = (unat va div 4194304 + 1) * 4194304" using next_table [OF va(1)] .
    have "translate s d x = None" if "unat va \<le> unat x" "unat x < unat ?n" for x
    proof -
      have "unat x div 4194304 = unat va div 4194304"
        using that n mult_div_mod_eq [of 4194304 "unat va"] by (subst div_eq_nat_iff) simp_all
      then have "unat (PGD_INDEX x) = ?i" unfolding PGD_INDEX_div .
      then have "pte_at s d (unat (PGD_INDEX x)) (unat (PTE_INDEX x)) = 0"
        using False by (simp add: pte_at_def)
      then show ?thesis by (simp add: translate_def present_def)
    qed
    moreover have "unat va < unat ?n"
      using n div_eq_nat_iff [of 4194304 "unat va" "unat va div 4194304"] by simp
    moreover have "unat ?n mod 4096 = 0"
    proof -
      have "unat ?n = 4096 * (1024 * (unat va div 4194304 + 1))" using n by simp
      then show ?thesis by (simp only: mod_mult_self1_is_0)
    qed
    moreover have "unmap_range_body (kva d) fin (va, s) = Ret (if ?n \<noteq> 0 \<and> ?n < fin then Inl (?n, s) else Inr s)"
      using get_pte_absent [OF False] by (simp add: unmap_range_body_def)
    ultimately show ?thesis using us by (intro exI [of _ ?n] exI [of _ s]) simp
  next
    case True
    have b: "?i < 1024" "?j < 1024" using index_bounds by auto
    let ?a = "slot (frame_of (pword s d ?i)) ?j"
    have nn: "?a \<noteq> NULL" using slot_not_null uspace_tables(2) [OF us b(1) True] b(2) by blast
    have rem: "page_remove (kva d) va s = pte_remove_page (kva d) va ?a s"
      using get_pte_present [OF us True] nn by (simp add: page_remove_def)
    obtain s' where s': "page_remove (kva d) va s = Ret s'" "uspace s' d H" "kframe s s'"
      "\<forall>x. translate s' d x = (if same_page x va then None else translate s d x)"
      using page_remove_ok [OF us H uva] by blast
    have "(if rd32 s ?a \<noteq> 0 then pte_remove_page (kva d) va ?a s else Ret s) = Ret s'"
      using s'(1) rem by (cases "rd32 s ?a = 0") (simp_all add: pte_remove_page_def)
    then have "unmap_range_body (kva d) fin (va, s) =
        Ret (if va + PGSIZE \<noteq> 0 \<and> va + PGSIZE < fin then Inl (va + PGSIZE, s') else Inr s')"
      using get_pte_present [OF us True] nn by (simp add: unmap_range_body_def del: rd32_slot)
    moreover have "unat (va + PGSIZE) mod 4096 = 0" using next_page [OF va(1)] va(2) by simp
    ultimately show ?thesis
      using s'(2-4) next_page [OF va(1)] same_page_aligned [OF va(2)]
      by (intro exI [of _ "va + PGSIZE"] exI [of _ s']) simp
  qed
qed

lemma unmap_range_ok:
  assumes us: "uspace s d H" and H: "\<forall>f \<in> dom H. 1 \<le> held H f"
    and al: "start mod PGSIZE = 0" "fin mod PGSIZE = 0" and ua: "isUserCanAccess start fin"
  shows "\<exists>s'. unmap_range (kva d) start fin s = Ret s' \<and> uspace s' d H \<and> kframe s s' \<and>
    (\<forall>x. translate s' d x = (if start \<le> x \<and> x < fin then None else translate s d x))"
proof -
  have amod: "unat start mod 4096 = 0" using al(1) unat_mod_distrib [of start PGSIZE] by simp
  have fmod: "unat fin mod 4096 = 0" using al(2) unat_mod_distrib [of fin PGSIZE] by simp
  have bnd: "unat start < unat fin" "unat fin \<le> 0xB0000000"
    using ua by (simp_all add: isUserCanAccess_def word_le_nat_alt word_less_nat_alt)
  define I where "I = (\<lambda>(va :: u32, t). unat start \<le> unat va \<and> unat va < unat fin \<and> unat va mod 4096 = 0 \<and>
    uspace t d H \<and> kframe s t \<and>
    (\<forall>x. translate t d x = (if unat start \<le> unat x \<and> unat x < unat va then None else translate s d x)))"
  define Q where "Q = (\<lambda>t. uspace t d H \<and> kframe s t \<and>
    (\<forall>x. translate t d x = (if start \<le> x \<and> x < fin then None else translate s d x)))"
  have "\<exists>t. kwhile (unmap_range_body (kva d) fin) (start, s) = Ret t \<and> Q t"
  proof (rule kwhile_total [where I = I and Q = Q and \<mu> = "\<lambda>(va, t). unat fin - unat va"])
    show "I (start, s)" using us bnd amod by (auto simp: I_def)
    fix x assume "I x"
    obtain va t where x: "x = (va, t)" by fastforce
    then have I: "unat start \<le> unat va" "unat va < unat fin" "unat va mod 4096 = 0" "uspace t d H" "kframe s t"
      "\<And>x. translate t d x = (if unat start \<le> unat x \<and> unat x < unat va then None else translate s d x)"
      using \<open>I x\<close> by (simp_all add: I_def)
    obtain nx t' where st: "unmap_range_body (kva d) fin (va, t) =
        Ret (if nx \<noteq> 0 \<and> nx < fin then Inl (nx, t') else Inr t')"
      "uspace t' d H" "kframe t t'" "unat va < unat nx" "unat nx mod 4096 = 0"
      "unat nx = unat va + 4096 \<or> (\<forall>x. unat va \<le> unat x \<and> unat x < unat nx \<longrightarrow> translate t d x = None)"
      "\<forall>x. translate t' d x = (if unat va \<le> unat x \<and> unat x < unat nx then None else translate t d x)"
      using unmap_range_body_ok [OF I(4) H less_le_trans [OF I(2) bnd(2)] I(3), of fin]
      by (elim exE conjE) (rule that)
    have tr: "translate t' d x = (if unat start \<le> unat x \<and> unat x < unat nx then None else translate s d x)" for x
      using st(4,7) I(1,6) by auto
    have kf: "kframe s t'" using kframe_trans [OF I(5) st(3)] .
    show "(\<exists>y. unmap_range_body (kva d) fin x = Ret (Inr y) \<and> Q y) \<or>
        (\<exists>x'. unmap_range_body (kva d) fin x = Ret (Inl x') \<and> I x' \<and>
          (case x' of (va, t) \<Rightarrow> unat fin - unat va) < (case x of (va, t) \<Rightarrow> unat fin - unat va))"
    proof (cases "nx < fin")
      case True
      moreover have "nx \<noteq> 0" using st(4) by auto
      ultimately show ?thesis
        using x st I kf tr by (intro disjI2 exI [of _ "(nx, t')"]) (auto simp: I_def word_less_nat_alt)
    next
      case False
      have "translate t' d x = (if start \<le> x \<and> x < fin then None else translate s d x)" for x
      proof (cases "unat fin \<le> unat x \<and> unat x < unat nx")
        case True
        have "unat nx \<noteq> unat va + 4096"
        proof
          assume nx: "unat nx = unat va + 4096"
          have "4096 dvd unat fin" "4096 dvd unat va" using fmod I(3) by (simp_all add: dvd_eq_mod_eq_0)
          then obtain p q where "unat fin = 4096 * p" "unat va = 4096 * q" unfolding dvd_def by blast
          then show False using nx True I(2) by simp
        qed
        then have "translate t d x = None" using st(6) True I(2) by auto
        then have "translate s d x = None" using I(6) [of x] True I(2) by simp
        then show ?thesis using tr [of x] by simp
      next
        case b: False
        then show ?thesis using tr False by (auto simp: word_le_nat_alt word_less_nat_alt)
      qed
      then show ?thesis using x st False kf by (intro disjI1 exI [of _ t']) (simp add: Q_def)
    qed
  qed
  then show ?thesis using al ua unfolding unmap_range_def Q_def by simp
qed

section \<open>The interface to address spaces\<close>

text \<open>What the clients of the page tables (page faults, program loading) rely on.\<close>

locale address_space =
  fixes wf :: "'s \<Rightarrow> 'd \<Rightarrow> bool"
    and look :: "'s \<Rightarrow> 'd \<Rightarrow> u32 \<Rightarrow> u32 option"
    and frames :: "'s \<Rightarrow> nat set"
    and user :: "u32 \<Rightarrow> bool"
    and map_page :: "'d \<Rightarrow> u32 \<Rightarrow> u32 \<Rightarrow> 's \<Rightarrow> (nat option \<times> 's) kres"
    and unmap_page :: "'d \<Rightarrow> u32 \<Rightarrow> 's \<Rightarrow> 's kres"
  assumes map_page_wf: "wf s d \<Longrightarrow> user va \<Longrightarrow> perm < 4096 \<Longrightarrow>
      \<exists>r s'. map_page d va perm s = Ret (r, s') \<and> wf s' d"
    and map_page_None: "wf s d \<Longrightarrow> user va \<Longrightarrow> perm < 4096 \<Longrightarrow> map_page d va perm s = Ret (None, s') \<Longrightarrow>
      look s' d = look s d \<and> frames s' = frames s"
    and map_page_Some: "wf s d \<Longrightarrow> user va \<Longrightarrow> perm < 4096 \<Longrightarrow> map_page d va perm s = Ret (Some f, s') \<Longrightarrow>
      f \<in> frames s \<and>
      look s' d = (\<lambda>x. if same_page x va then Some (page2pa f OR PG_OFFSET x) else look s d x)"
    and unmap_page_ok: "wf s d \<Longrightarrow> user va \<Longrightarrow>
      \<exists>s'. unmap_page d va s = Ret s' \<and> wf s' d \<and>
        look s' d = (\<lambda>x. if same_page x va then None else look s d x)"
begin

lemma map_unmap:
  assumes "wf s d" "user va" "perm < 4096" "map_page d va perm s = Ret (Some f, s1)"
    and fresh: "\<And>x. same_page x va \<Longrightarrow> look s d x = None"
  shows "\<exists>s2. unmap_page d va s1 = Ret s2 \<and> wf s2 d \<and> look s2 d = look s d"
proof -
  have "wf s1 d" using map_page_wf [OF assms(1-3)] assms(4) by auto
  then obtain s2 where "unmap_page d va s1 = Ret s2" "wf s2 d"
    "look s2 d = (\<lambda>x. if same_page x va then None else look s1 d x)"
    using unmap_page_ok assms(2) by blast
  then show ?thesis using map_page_Some [OF assms(1-4)] fresh by (auto simp: fun_eq_iff)
qed

text \<open>Mapping a page never disturbs what is mapped elsewhere.\<close>

lemma map_page_elsewhere:
  assumes "wf s d" "user va" "perm < 4096" "map_page d va perm s = Ret (r, s')" "\<not> same_page x va"
  shows "look s' d x = look s d x"
  using assms map_page_None [OF assms(1-3)] map_page_Some [OF assms(1-3)] by (cases r) auto

end

interpretation asp: address_space "\<lambda>s d. uspace s d Map.empty" translate free_set "\<lambda>va. va < KERNEL_BASE"
  "\<lambda>d. pgdir_alloc_page (kva d)" "\<lambda>d. page_remove (kva d)"
proof unfold_locales
  fix s :: "'a kmach_scheme" and d and va perm :: u32
  assume a: "uspace s d Map.empty" "va < KERNEL_BASE" "perm < 4096"
  note ok = pgdir_alloc_page_ok [OF a]
  show "\<exists>r s'. pgdir_alloc_page (kva d) va perm s = Ret (r, s') \<and> uspace s' d Map.empty"
    using ok by blast
  show "translate s' d = translate s d \<and> free_set s' = free_set s"
    if "pgdir_alloc_page (kva d) va perm s = Ret (None, s')" for s'
    using ok that by (auto simp: fun_eq_iff)
  show "f \<in> free_set s \<and>
      translate s' d = (\<lambda>x. if same_page x va then Some (page2pa f OR PG_OFFSET x) else translate s d x)"
    if "pgdir_alloc_page (kva d) va perm s = Ret (Some f, s')" for f s'
    using ok that by (auto simp: fun_eq_iff)
next
  fix s :: "'a kmach_scheme" and d va
  assume "uspace s d Map.empty" "va < KERNEL_BASE"
  then show "\<exists>s'. page_remove (kva d) va s = Ret s' \<and> uspace s' d Map.empty \<and>
      translate s' d = (\<lambda>x. if same_page x va then None else translate s d x)"
    using page_remove_ok [of s d Map.empty va] by (auto simp: fun_eq_iff)
qed

section \<open>A sample address space\<close>

text \<open>The sample allocator state with an empty page directory in frame 3 and zeroed memory.\<close>

definition sample_kmach :: kmach where
  "sample_kmach =
     \<lparr>PhyMemSize = PhyMemSize sample_pmm, PhyMemEnd = PhyMemEnd sample_pmm, PageCount = PageCount sample_pmm,
      Pages = Pages sample_pmm, PagesAddr = PagesAddr sample_pmm, FreeMemStart = FreeMemStart sample_pmm,
      FreeLinks = FreeLinks sample_pmm, free_page_count = free_page_count sample_pmm,
      mem = (\<lambda>_. 0), cr3 = page2pa 3, tlb = {0x800000},
      KernelPGD = kva 3, KernelPTE = kva 2, kernel_cr3 = page2pa 3\<rparr>"

lemma sample_kmach_pmm:
  "pmm_inv sample_kmach" "free_set sample_kmach = {4 ..< 8}" "PageCount sample_kmach = 8"
proof -
  have "pmm_rel sample_kmach bs = pmm_rel sample_pmm bs" for bs
    by (simp add: pmm_rel_def sample_kmach_def)
  then show "pmm_inv sample_kmach" using sample_pmm_facts(1) by (simp add: pmm_inv_def)
  have "free_set sample_kmach = free_set sample_pmm" by (simp add: free_set_def sample_kmach_def)
  then show "free_set sample_kmach = {4 ..< 8}" using sample_pmm_facts(2) by simp
  show "PageCount sample_kmach = 8" by (simp add: sample_kmach_def sample_pmm_def)
qed

lemma sample_kmach_words: "pword sample_kmach f i = 0" "pte_at sample_kmach d i j = 0"
  by (simp_all add: pte_at_def pword_def rd32_def ld32_def sample_kmach_def)

lemma sample_kmach_uspace: "uspace sample_kmach 3 Map.empty"
proof -
  have "page_ref sample_kmach f = 0" for f
    by (simp add: page_ref_def sample_kmach_def sample_pmm_def)
  then show ?thesis
    using sample_kmach_pmm
    by (simp add: uspace_def tables_ok_def mappings_def sample_kmach_words present_def)
qed

section \<open>Properties\<close>

text \<open>
  C4: \<^verbatim>\<open>page_insert\<close> of an allocated page at a user address returns 0 unless a page table is needed
  and no page is free, in which case it returns \<^verbatim>\<open>-E_NOMEM\<close> and changes nothing.  On success the
  address and the others of its page translate to the inserted page, every other address translates
  as before, reference counts again equal mappings, a page that lost its last mapping is free, and
  no stale translation stays cached for the current address space.
\<close>

theorem page_insert_correct:
  assumes "uspace s d [page \<mapsto> 0]" and "va < KERNEL_BASE" and "perm < 4096"
  shows "if \<not> present (pword s d (unat (PGD_INDEX va))) \<and> free_set s = {}
    then page_insert (kva d) page va perm s = Ret (- E_NOMEM, s)
    else \<exists>s'. page_insert (kva d) page va perm s = Ret (0, s') \<and> uspace s' d [page \<mapsto> 0] \<and> kframe s s' \<and>
      (\<forall>x. translate s' d x =
        (if same_page x va then Some (page2pa page OR PG_OFFSET x) else translate s d x)) \<and>
      (cr3 s \<noteq> page2pa d \<or> ROUNDDOWN va PGSIZE \<notin> tlb s')"
proof (cases "\<not> present (pword s d (unat (PGD_INDEX va))) \<and> free_set s = {}")
  case True
  then show ?thesis using page_insert_full [OF assms(1)] by simp
next
  case False
  have "page \<in> managed_set s" using assms(1) by (simp add: uspace_def mapped_ok_def)
  then have pm: "page < max_frames" using managed_bound assms(1) by (fastforce simp: uspace_def)
  obtain s' where s': "page_insert (kva d) page va perm s = Ret (0, s')" "uspace s' d [page \<mapsto> 0]" "kframe s s'"
    "\<forall>a < 1024. \<forall>b < 1024. pte_at s' d a b =
      (if a = unat (PGD_INDEX va) \<and> b = unat (PTE_INDEX va) then page2pa page OR PTE_PAGE_PERSENT OR perm
       else pte_at s d a b)"
    "cr3 s = page2pa d \<longrightarrow> ROUNDDOWN va PGSIZE \<notin> tlb s'"
    using page_insert_ok [OF assms(1) _ _ refl user_index [OF assms(2)] refl assms(3)] False by auto
  then show ?thesis
    using False translate_upd [OF s'(4)] PTE_ADDR_new_entry [OF pm assms(3)]
    by (simp only: if_False) (intro exI [of _ s'], auto)
qed

theorem page_insert_correct_witness:
  "\<exists>s1 s'. allocPhyPages 1 sample_kmach = Ret (Some 4, s1) \<and>
    page_insert (kva 3) 4 0x800000 PTE_USER s1 = Ret (0, s') \<and> translate s' 3 0x800123 = Some 0x4123"
proof -
  have "allocPhyPages 1 sample_pmm = Ret (Some 4, ff_take 4 1 sample_pmm)"
    by (simp add: allocPhyPages_def ff_alloc_pages_def ff_find_fit.simps sample_pmm_def listGetNext_def)
  have al: "allocPhyPages 1 sample_kmach = Ret (Some 4, ff_take 4 1 sample_kmach)"
    by (simp add: allocPhyPages_def ff_alloc_pages_def ff_find_fit.simps sample_kmach_def sample_pmm_def listGetNext_def)
  define s1 where "s1 = ff_take 4 1 sample_kmach"
  have a: "pmm_inv s1" "free_set s1 = free_set sample_kmach - {4}" "pmm_frame {} sample_kmach s1"
    using allocPhyPages_one [OF sample_kmach_pmm(1)] al by (auto simp: s1_def sample_kmach_pmm)
  have u: "uspace s1 3 [4 \<mapsto> 0]"
    using uspace_take [OF sample_kmach_uspace _ a(1-3)] sample_kmach_pmm(2) by simp
  have "5 \<in> free_set s1" using a(2) sample_kmach_pmm(2) by simp
  then have "free_set s1 \<noteq> {}" by blast
  then obtain s' where s': "page_insert (kva 3) 4 0x800000 PTE_USER s1 = Ret (0, s')"
    "\<forall>x. translate s' 3 x = (if same_page x 0x800000 then Some (page2pa 4 OR PG_OFFSET x) else translate s1 3 x)"
    using page_insert_correct [OF u, of "0x800000" PTE_USER] by auto
  have "translate s' 3 0x800123 = Some 0x4123"
    using s'(2) by (simp add: same_page_def page2pa_def page2pagen_def PG_OFFSET_def)
  then show ?thesis using al s'(1) by (auto simp: s1_def)
qed

text \<open>
  C5: \<^verbatim>\<open>page_remove\<close> on a user address returns, leaves no address of that page mapped and every other
  address as it was, and frees the page exactly when this was its last mapping.
\<close>

theorem page_remove_correct:
  assumes "uspace s d Map.empty" and "va < KERNEL_BASE"
  shows "\<exists>s'. page_remove (kva d) va s = Ret s' \<and> uspace s' d Map.empty \<and> kframe s s' \<and>
    (\<forall>x. translate s' d x = (if same_page x va then None else translate s d x)) \<and>
    free_set s' = free_set s \<union>
      {f. f = frame_of (pte_at s d (unat (PGD_INDEX va)) (unat (PTE_INDEX va))) \<and>
          translate s d va \<noteq> None \<and> page_ref s f = 1}"
  using page_remove_ok [OF assms(1) _ assms(2)] by simp

theorem page_remove_correct_witness:
  "\<exists>s'. page_remove (kva 3) 0x800000 sample_kmach = Ret s' \<and> free_set s' = {4 ..< 8}"
  using page_remove_correct [OF sample_kmach_uspace, of "0x800000"]
  by (auto simp: sample_kmach_pmm translate_def sample_kmach_words present_def)

text \<open>
  \<^verbatim>\<open>pgdir_alloc_page\<close> either maps a page that was free, with one reference, at the given user
  address and nowhere else, or returns a null pointer with the address space and the free pages as they
  were; it fails only when no page is free, or the single free page would be needed for a table.
\<close>

theorem pgdir_alloc_page_correct:
  assumes "uspace s d Map.empty" and "va < KERNEL_BASE" and "perm < 4096"
  shows "\<exists>r s'. pgdir_alloc_page (kva d) va perm s = Ret (r, s') \<and> uspace s' d Map.empty \<and> kframe s s' \<and>
    (case r of
       None \<Rightarrow> (\<forall>x. translate s' d x = translate s d x) \<and> free_set s' = free_set s \<and>
         (free_set s = {} \<or> \<not> present (pword s d (unat (PGD_INDEX va))) \<and> (\<exists>p. free_set s = {p}))
     | Some page \<Rightarrow> page \<in> free_set s \<and> page_ref s' page = 1 \<and>
         (\<forall>x. translate s' d x =
            (if same_page x va then Some (page2pa page OR PG_OFFSET x) else translate s d x)))"
  by (rule pgdir_alloc_page_ok [OF assms])

theorem pgdir_alloc_page_correct_witness:
  "\<exists>page s'. pgdir_alloc_page (kva 3) 0x800000 PTE_USER sample_kmach = Ret (Some page, s') \<and>
    page_ref s' page = 1"
proof -
  have "{4 ..< 8 :: nat} \<noteq> {p}" for p
  proof
    assume eq: "{4 ..< 8} = {p}"
    have "4 \<in> {4 ..< 8 :: nat}" "5 \<in> {4 ..< 8 :: nat}" by simp_all
    then show False unfolding eq by simp
  qed
  then have "\<not> (\<exists>p. {4 ..< 8 :: nat} = {p})" by blast
  then show ?thesis
    using pgdir_alloc_page_correct [OF sample_kmach_uspace, of "0x800000" PTE_USER] sample_kmach_pmm(2)
    by (auto split: option.splits)
qed

text \<open>
  C6: \<^verbatim>\<open>unmap_range\<close> over an aligned user range terminates, leaves no address of the range mapped and
  every address outside it translated as before, and keeps the address space well formed.
\<close>

theorem unmap_range_correct:
  assumes "uspace s d Map.empty" and "start mod PGSIZE = 0" and "fin mod PGSIZE = 0"
    and "isUserCanAccess start fin"
  shows "\<exists>s'. unmap_range (kva d) start fin s = Ret s' \<and> uspace s' d Map.empty \<and> kframe s s' \<and>
    (\<forall>x. translate s' d x = (if start \<le> x \<and> x < fin then None else translate s d x))"
  using unmap_range_ok [OF assms(1) _ assms(2-4)] by simp

theorem unmap_range_correct_witness:
  "\<exists>s'. unmap_range (kva 3) 0x800000 0xC00000 sample_kmach = Ret s' \<and> translate s' 3 0x900000 = None"
  using unmap_range_correct [OF sample_kmach_uspace, of "0x800000" "0xC00000"]
  by (auto simp: isUserCanAccess_def)

end
