(* ===== verification/Boot_VMM.thy ===== *)
theory Boot_VMM
  imports Paging_Correct
begin

text \<open>
  The kernel's own page directory, \<^verbatim>\<open>kern/mm/boot_vmm.c\<close>: one page for the directory, the tables
  for \<^verbatim>\<open>MAX_PHY_MEM_SIZE\<close> bytes, and the loops that fill them.  Registering the page fault handler
  and the messages are left out.  \<^verbatim>\<open>PGD_PHY_ECOUNT\<close> is 0x38000000/1024/4096 = 224 (the comments in
  mm.h and boot\_vmm.c say 256), while the directory loop fills all 256 kernel entries.
\<close>

abbreviation (input) PGD_ECOUNT :: nat where "PGD_ECOUNT \<equiv> 1024"
abbreviation (input) PGD_PHY_ECOUNT :: nat where "PGD_PHY_ECOUNT \<equiv> 224"

text \<open>The two loops of \<^verbatim>\<open>setBootKernelPGD\<close>: \<open>k\<close> rounds from index \<open>i\<close>.\<close>

fun set_pgd_loop :: "nat \<Rightarrow> nat \<Rightarrow> nat \<Rightarrow> 'a kmach_scheme \<Rightarrow> 'a kmach_scheme" where
  "set_pgd_loop 0 i j s = s"
| "set_pgd_loop (Suc k) i j s =
     set_pgd_loop k (Suc i) (Suc j)
       (wr32 (KernelPGD s + 4 * of_nat i)
         ((KernelPTE s + 4096 * of_nat j - KERNEL_BASE) OR PTE_PAGE_PERSENT OR PTE_PAGE_WRITEABLE) s)"

fun set_pte_loop :: "nat \<Rightarrow> nat \<Rightarrow> 'a kmach_scheme \<Rightarrow> 'a kmach_scheme" where
  "set_pte_loop 0 i s = s"
| "set_pte_loop (Suc k) i s =
     set_pte_loop k (Suc i)
       (wr32 (KernelPTE s + 4 * of_nat i)
         (push_bit 12 (of_nat i) OR PTE_PAGE_PERSENT OR PTE_PAGE_WRITEABLE) s)"

definition setBootKernelPGD :: "'a kmach_scheme \<Rightarrow> 'a kmach_scheme" where
  "setBootKernelPGD s =
     (let first = unat (PGD_INDEX KERNEL_BASE);
          s1 = set_pgd_loop (PGD_ECOUNT - first) first 0 s
      in set_pte_loop (PGD_ECOUNT * PGD_PHY_ECOUNT) 0 s1)"

definition initKernelPageTable :: "'a kmach_scheme \<Rightarrow> 'a kmach_scheme kres" where
  "initKernelPageTable s =
     kbind (kmalloc (4 * of_nat PGD_ECOUNT) s) (\<lambda>(pgd, s1).
     kbind (kmalloc (4 * of_nat PGD_ECOUNT * of_nat PGD_PHY_ECOUNT) (s1\<lparr>KernelPGD := pgd\<rparr>)) (\<lambda>(pte, s2).
       let s3 = s2\<lparr>KernelPTE := pte\<rparr>;
           s4 = s3\<lparr>mem := bzero (KernelPGD s3) (4 * of_nat PGD_ECOUNT) (mem s3)\<rparr>;
           s5 = s4\<lparr>mem := bzero (KernelPTE s4) (4 * of_nat PGD_ECOUNT * of_nat PGD_PHY_ECOUNT) (mem s4)\<rparr>;
           s6 = setBootKernelPGD s5;
           s7 = s6\<lparr>kernel_cr3 := KernelPGD s6 - KERNEL_BASE\<rparr>
       in Ret (switchPageDir (kernel_cr3 s7) s7)))"

text \<open>\<^verbatim>\<open>copy_kern_pgdir\<close>: the kernel half of the directory, \<open>k\<close> entries from \<open>i\<close>.\<close>

fun copy_kern_loop :: "nat \<Rightarrow> nat \<Rightarrow> ptr \<Rightarrow> 'a kmach_scheme \<Rightarrow> 'a kmach_scheme" where
  "copy_kern_loop 0 i to_pgdir s = s"
| "copy_kern_loop (Suc k) i to_pgdir s =
     copy_kern_loop k (Suc i) to_pgdir
       (wr32 (to_pgdir + 4 * of_nat i) (rd32 s (KernelPGD s + 4 * of_nat i)) s)"

definition copy_kern_pgdir :: "ptr \<Rightarrow> 'a kmach_scheme \<Rightarrow> 'a kmach_scheme" where
  "copy_kern_pgdir to_pgdir s =
     (let first = unat (PGD_INDEX KERNEL_BASE)
      in copy_kern_loop (PGD_ECOUNT - first) first to_pgdir s)"

section \<open>The loops on frames\<close>

lemma wr32_kernel_sel [simp]: "KernelPGD (wr32 a v s) = KernelPGD s" "KernelPTE (wr32 a v s) = KernelPTE s"
  by (simp_all add: wr32_def)

lemma kva_plus: "kva f + 4096 * of_nat q = kva (f + q)"
  by (simp add: kva_def page2pa_def page2pagen_def push_bit_eq_mult algebra_simps)

lemma table_slot:
  "kva p + 4 * of_nat m = slot (p + m div 1024) (m mod 1024)"
proof -
  have "(4 :: u32) * of_nat m = 4096 * of_nat (m div 1024) + 4 * of_nat (m mod 1024)"
  proof -
    have "of_nat m = (of_nat (1024 * (m div 1024) + m mod 1024) :: u32)" by simp
    also have "\<dots> = 1024 * of_nat (m div 1024) + of_nat (m mod 1024)"
      by (simp only: of_nat_add of_nat_mult of_nat_numeral)
    finally show ?thesis by (simp only: distrib_left) simp
  qed
  then show ?thesis using kva_plus [of p "m div 1024"] by (simp add: slot_def add.assoc [symmetric])
qed

definition pgd_entry :: "nat \<Rightarrow> u32" where
  "pgd_entry f = page2pa f OR PTE_PAGE_PERSENT OR PTE_PAGE_WRITEABLE"

definition pte_entry :: "nat \<Rightarrow> u32" where
  "pte_entry m = push_bit 12 (of_nat m) OR PTE_PAGE_PERSENT OR PTE_PAGE_WRITEABLE"

lemma set_pgd_loop_words:
  assumes "KernelPGD s = kva d" "KernelPTE s = kva p" "d < max_frames" "i + k \<le> 1024"
    and "g < max_frames" "n < 1024"
  shows "pword (set_pgd_loop k i j s) g n =
    (if g = d \<and> i \<le> n \<and> n < i + k then pgd_entry (p + j + (n - i)) else pword s g n)"
  using assms
proof (induction k arbitrary: i j s)
  case (Suc k)
  let ?s = "wr32 (slot d i) (pgd_entry (p + j)) s"
  have "KernelPTE s + 4096 * of_nat j - KERNEL_BASE = page2pa (p + j)"
    using kva_plus [of p j] Suc.prems(2) by (simp add: kva_def)
  then have step: "set_pgd_loop (Suc k) i j s = set_pgd_loop k (Suc i) (Suc j) ?s"
    using Suc.prems(1) by (simp add: slot_def pgd_entry_def)
  have "pword ?s g n = (if g = d \<and> n = i then pgd_entry (p + j) else pword s g n)"
    using Suc.prems by (intro pword_wr32) simp_all
  moreover have "pword (set_pgd_loop k (Suc i) (Suc j) ?s) g n =
    (if g = d \<and> Suc i \<le> n \<and> n < Suc i + k then pgd_entry (p + Suc j + (n - Suc i)) else pword ?s g n)"
    using Suc.prems by (intro Suc.IH) simp_all
  moreover have "p + Suc j + (n - Suc i) = p + j + (n - i)" if "Suc i \<le> n" using that by simp
  ultimately show ?case unfolding step by (cases "g = d"; cases "n = i") auto
qed auto

lemma set_pte_loop_words:
  assumes "KernelPTE s = kva p" "p + 224 \<le> max_frames" "i + k \<le> 229376" and "g < max_frames" "n < 1024"
  shows "pword (set_pte_loop k i s) g n =
    (if p \<le> g \<and> i \<le> (g - p) * 1024 + n \<and> (g - p) * 1024 + n < i + k
     then pte_entry ((g - p) * 1024 + n) else pword s g n)"
  using assms
proof (induction k arbitrary: i s)
  case (Suc k)
  let ?s = "wr32 (slot (p + i div 1024) (i mod 1024)) (pte_entry i) s"
  have "i div 1024 < 224" using Suc.prems(3) by (simp add: less_mult_imp_div_less)
  then have fr: "p + i div 1024 < max_frames" using Suc.prems(2) by simp
  then have step: "set_pte_loop (Suc k) i s = set_pte_loop k (Suc i) ?s"
    using Suc.prems(1) table_slot [of p i] by (simp add: pte_entry_def)
  have w: "pword ?s g n = (if g = p + i div 1024 \<and> n = i mod 1024 then pte_entry i else pword s g n)"
    using Suc.prems fr by (intro pword_wr32) simp_all
  have at: "g = p + i div 1024 \<and> n = i mod 1024 \<longleftrightarrow> p \<le> g \<and> (g - p) * 1024 + n = i"
    using Suc.prems(5) by auto
  have "pword (set_pte_loop k (Suc i) ?s) g n =
    (if p \<le> g \<and> Suc i \<le> (g - p) * 1024 + n \<and> (g - p) * 1024 + n < Suc i + k
     then pte_entry ((g - p) * 1024 + n) else pword ?s g n)"
    using Suc.prems by (intro Suc.IH) simp_all
  then show ?case unfolding step w at by auto
qed auto

section \<open>The kernel address space\<close>

lemma pte_entry_eq: "pte_entry f = pgd_entry f"
  by (simp add: pte_entry_def pgd_entry_def page2pa_def page2pagen_def)

lemma boot_entry:
  assumes "f < 0x40000"
  shows "present (pgd_entry f)" "frame_of (pgd_entry f) = f" "PTE_ADDR (pgd_entry f) = page2pa f"
proof -
  have "pgd_entry f = page2pa f OR 3" by (simp add: pgd_entry_def or.assoc)
  then have d: "drop_bit 12 (pgd_entry f) = drop_bit 12 (page2pa f)" by (simp add: drop_bit_or)
  show "present (pgd_entry f)" by (simp add: pgd_entry_def present_odd even_or_iff)
  show fr: "frame_of (pgd_entry f) = f" using d kernel_addr(3) [OF assms] by (simp add: frame_of_def)
  have "drop_bit 12 (pgd_entry f) = of_nat f" using fr unfolding frame_of_def by (metis u32_of_unat)
  then show "PTE_ADDR (pgd_entry f) = page2pa f" by (simp add: PTE_ADDR_eq page2pa_def page2pagen_def)
qed

lemma bzero_words:
  assumes "p + q \<le> max_frames" "0 < q" "g < max_frames" "n < 1024" "unat len = 4096 * q"
  shows "pword (s\<lparr>mem := bzero (kva p) len (mem s)\<rparr>) g n =
    (if p \<le> g \<and> g < p + q then 0 else pword s g n)"
  unfolding bzero_def by (rule pword_memset_frames [OF assms])

lemma setBootKernelPGD_words:
  assumes "KernelPGD s = kva d" "KernelPTE s = kva p" "d < max_frames" "p + 224 \<le> max_frames"
    and "d < p \<or> p + 224 \<le> d" and "g < max_frames" "n < 1024"
  shows "pword (setBootKernelPGD s) g n =
    (if g = d \<and> 768 \<le> n then pgd_entry (p + (n - 768))
     else if p \<le> g \<and> g < p + 224 then pte_entry ((g - p) * 1024 + n) else pword s g n)"
proof -
  let ?s1 = "set_pgd_loop 256 768 0 s"
  have first: "unat (PGD_INDEX KERNEL_BASE) = 768" by (simp add: PGD_INDEX_div)
  have k: "KernelPTE (set_pgd_loop k i j s) = KernelPTE s" for k i j
    by (induction k arbitrary: i j s) simp_all
  have w1: "pword ?s1 g n = (if g = d \<and> 768 \<le> n then pgd_entry (p + (n - 768)) else pword s g n)"
    using set_pgd_loop_words [of s d p 768 256 g n 0] assms by simp
  have "pword (set_pte_loop 229376 0 ?s1) g n =
    (if p \<le> g \<and> (g - p) * 1024 + n < 229376 then pte_entry ((g - p) * 1024 + n) else pword ?s1 g n)"
    using set_pte_loop_words [of ?s1 p 0 229376 g n] assms k by simp
  moreover have "p \<le> g \<and> (g - p) * 1024 + n < 229376 \<longleftrightarrow> p \<le> g \<and> g < p + 224"
    using assms(7) by auto
  ultimately show ?thesis
    using w1 assms(5) by (auto simp: setBootKernelPGD_def Let_def first)
qed

lemma unat_pa_offset:
  assumes "f < 0x40000"
  shows "unat (page2pa f OR PG_OFFSET va) = f * 4096 + unat va mod 4096"
proof -
  have off: "PG_OFFSET va = take_bit 12 va"
  proof -
    have "(0xFFF :: u32) = mask 12" by (simp add: mask_eq_exp_minus_1)
    then show ?thesis by (simp only: PG_OFFSET_def take_bit_eq_mask)
  qed
  have "page2pa f + PG_OFFSET va = page2pa f OR PG_OFFSET va"
    unfolding off page2pa_def
    by (rule disjunctive_add) (auto simp: bit_push_bit_iff bit_take_bit_iff)
  moreover have "unat (PG_OFFSET va) = unat va mod 4096"
    by (simp add: off unsigned_take_bit_eq take_bit_eq_mod unat_mod_distrib)
  moreover have "unat (page2pa f) + unat (PG_OFFSET va) < 2 ^ LENGTH(32)"
    using unat_page2pa [OF assms] assms calculation(2) mod_less_divisor [of 4096 "unat va"] by simp
  ultimately show ?thesis
    using unat_add_lem [of "page2pa f" "PG_OFFSET va"] unat_page2pa [OF assms] by simp
qed

lemma PTE_INDEX_div: "unat (PTE_INDEX x) = unat x div 4096 mod 1024"
  by (simp add: index_take_bit unsigned_take_bit_eq take_bit_eq_mod drop_bit_eq_div unat_div_distrib unat_mod_distrib)

lemma direct_mapping:
  assumes "\<And>n. n < 1024 \<Longrightarrow> pword s d n = (if 768 \<le> n then pgd_entry (p + (n - 768)) else 0)"
    and "\<And>q n. q < 224 \<Longrightarrow> n < 1024 \<Longrightarrow> pword s (p + q) n = pte_entry (q * 1024 + n)"
    and "p + 224 \<le> max_frames"
  shows "va < KERNEL_BASE \<Longrightarrow> translate s d va = None"
    and "KERNEL_BASE \<le> va \<Longrightarrow> va < KERNEL_TOP \<Longrightarrow> translate s d va = Some (va - KERNEL_BASE)"
proof -
  let ?i = "unat (PGD_INDEX va)" and ?j = "unat (PTE_INDEX va)"
  show "translate s d va = None" if "va < KERNEL_BASE"
    using user_index [OF that] assms(1) [OF index_bounds(1), of va] by (simp add: translate_def pte_at_def present_def)
  show "translate s d va = Some (va - KERNEL_BASE)" if lo: "KERNEL_BASE \<le> va" and hi: "va < KERNEL_TOP"
  proof -
    have b: "0xC0000000 \<le> unat va" "unat va < 0xF8000000"
      using lo hi by (simp_all add: word_le_nat_alt word_less_nat_alt)
    have i: "768 \<le> ?i" "?i < 992"
      using b unfolding PGD_INDEX_div by (simp_all add: less_mult_imp_div_less nat_le_iff_add [symmetric] le_div_geq div_le_mono)
    let ?f = "(?i - 768) * 1024 + ?j"
    have f: "?f < 0x38000" using i index_bounds(2) [of va] by simp
    have pd: "pword s d ?i = pgd_entry (p + (?i - 768))" using assms(1) [OF index_bounds(1), of va] i by simp
    have fr: "frame_of (pword s d ?i) = p + (?i - 768)" "present (pword s d ?i)"
      using pd boot_entry [of "p + (?i - 768)"] assms(3) i by simp_all
    have "pte_at s d ?i ?j = pgd_entry ?f"
      using fr assms(2) [of "?i - 768" ?j] i index_bounds(2) by (simp add: pte_at_def pte_entry_eq)
    then have "translate s d va = Some (page2pa ?f OR PG_OFFSET va)"
      using boot_entry [of ?f] f by (simp add: translate_def)
    moreover have "unat (page2pa ?f OR PG_OFFSET va) = unat (va - KERNEL_BASE)"
    proof -
      have "unat va = 4194304 * ?i + 4096 * ?j + unat va mod 4096"
      proof -
        have "unat va div 4194304 = unat va div 4096 div 1024"
          using div_mult2_eq [of "unat va" 4096 1024] by simp
        moreover have "4096 * (unat va div 4096) + unat va mod 4096 = unat va" by (rule mult_div_mod_eq)
        moreover have "1024 * (unat va div 4096 div 1024) + unat va div 4096 mod 1024 = unat va div 4096"
          by (rule mult_div_mod_eq)
        ultimately show ?thesis unfolding PGD_INDEX_div PTE_INDEX_div by linarith
      qed
      then have "?f * 4096 + unat va mod 4096 = unat va - 0xC0000000" using i by (simp add: algebra_simps diff_mult_distrib)
      moreover have "unat (va - KERNEL_BASE) = unat va - 0xC0000000" using unat_sub [OF lo] by simp
      ultimately show ?thesis using unat_pa_offset [of ?f va] f by simp
    qed
    ultimately show ?thesis by (simp add: word_unat_eq_iff)
  qed
qed

section \<open>Properties\<close>

lemma npages_boot: "npages 4096 = 1" "npages 917504 = 224"
  by (simp_all add: npages_def)

lemma kernel_kmalloc:
  assumes "pmm_inv s" "unat (PageCount s) \<le> max_frames" "0 < b" "unat b \<le> 0xFFFFF000"
    and "{q ..< q + npages b} \<subseteq> free_set s"
  shows "\<exists>f s'. kmalloc b s = Ret (kva f, s') \<and> {f ..< f + npages b} \<subseteq> free_set s \<and>
    free_set s' = free_set s - {f ..< f + npages b} \<and> pmm_inv s' \<and> pmm_frame {} s s' \<and> f + npages b \<le> max_frames"
proof -
  obtain v s' where k: "kmalloc b s = Ret (v, s')" using kmalloc_Some [OF assms(1,3-5)] by blast
  obtain f where f: "v = kva f" "{f ..< f + npages b} \<subseteq> free_set s"
    "free_set s' = free_set s - {f ..< f + npages b}" "pmm_inv s'"
    using kmalloc_Ret [OF assms(1,3,4) k] by (auto simp: kva_def)
  have "0 < npages b" using npages_pos [OF assms(3)] .
  then have "f + npages b - 1 \<in> free_set s" using f(2) by (intro subsetD [OF f(2)]) auto
  then have "f + npages b \<le> max_frames" using free_set_bound [OF assms(1)] assms(2) by fastforce
  then show ?thesis using k f kmalloc_frame [OF k] by blast
qed

lemma boot_loops_frame:
  "set_pgd_loop k i j s = s\<lparr>mem := mem (set_pgd_loop k i j s)\<rparr>"
  "set_pte_loop k i s = s\<lparr>mem := mem (set_pte_loop k i s)\<rparr>"
proof -
  show "set_pgd_loop k i j s = s\<lparr>mem := mem (set_pgd_loop k i j s)\<rparr>"
  proof (induction k arbitrary: i j s)
    case (Suc k)
    show ?case by (simp, subst Suc.IH, simp add: wr32_def)
  qed simp
  show "set_pte_loop k i s = s\<lparr>mem := mem (set_pte_loop k i s)\<rparr>"
  proof (induction k arbitrary: i s)
    case (Suc k)
    show ?case by (simp, subst Suc.IH, simp add: wr32_def)
  qed simp
qed

lemma setBootKernelPGD_frame: "setBootKernelPGD s = s\<lparr>mem := mem (setBootKernelPGD s)\<rparr>"
  unfolding setBootKernelPGD_def Let_def
  by (subst boot_loops_frame(2), subst (1) boot_loops_frame(1), simp)

text \<open>The page directory and the tables are two blocks of pages that do not meet.\<close>

lemma boot_blocks:
  assumes inv: "pmm_inv s" and pc: "unat (PageCount s) \<le> max_frames" and room: "{q ..< q + 449} \<subseteq> free_set s"
  obtains d s1 p s2 where "kmalloc 4096 s = Ret (kva d, s1)" "kmalloc 917504 (s1\<lparr>KernelPGD := kva d\<rparr>) = Ret (kva p, s2)"
    "pmm_inv s2" "free_set s2 = free_set s - {d} - {p ..< p + 224}" "KernelPGD s2 = kva d"
    "d < max_frames" "p + 224 \<le> max_frames" "d < p \<or> p + 224 \<le> d"
proof -
  have "q \<in> {q ..< q + 449}" by simp
  then have "{q ..< q + npages 4096} \<subseteq> free_set s" using room by (auto simp: npages_boot)
  then obtain d s1 where k1: "kmalloc 4096 s = Ret (kva d, s1)" "{d ..< d + 1} \<subseteq> free_set s"
    "free_set s1 = free_set s - {d ..< d + 1}" "pmm_inv s1" "pmm_frame {} s s1" "d + 1 \<le> max_frames"
    using kernel_kmalloc [OF inv pc, of 4096 q] by (auto simp: npages_boot)
  define t1 where "t1 = s1\<lparr>KernelPGD := kva d\<rparr>"
  have t1: "pmm_inv t1" "free_set t1 = free_set s - {d}" "unat (PageCount t1) \<le> max_frames"
    using k1 pc pmm_frame_kmach [OF k1(5)] by (auto simp: t1_def)
  have "{q ..< q + 224} \<subseteq> free_set s - {d} \<or> {q + 225 ..< q + 225 + 224} \<subseteq> free_set s - {d}"
  proof (cases "d < q + 225")
    case True
    then have "{q + 225 ..< q + 225 + 224} \<subseteq> free_set s - {d}" using room by auto
    then show ?thesis by blast
  next
    case False
    then have "{q ..< q + 224} \<subseteq> free_set s - {d}" using room by auto
    then show ?thesis by blast
  qed
  then obtain q' where "{q' ..< q' + npages 917504} \<subseteq> free_set t1" unfolding npages_boot t1(2) by blast
  then obtain p s2 where k2: "kmalloc 917504 t1 = Ret (kva p, s2)" "{p ..< p + 224} \<subseteq> free_set t1"
    "free_set s2 = free_set t1 - {p ..< p + 224}" "pmm_inv s2" "pmm_frame {} t1 s2" "p + 224 \<le> max_frames"
    using kernel_kmalloc [OF t1(1,3), of 917504 q'] by (auto simp: npages_boot)
  have "d < p \<or> p + 224 \<le> d" using k2(2) t1(2) by (metis Diff_iff atLeastLessThan_iff insertCI leI subsetD)
  moreover have "KernelPGD s2 = kva d" using pmm_frame_kmach(6) [OF k2(5)] by (simp add: t1_def)
  ultimately show ?thesis using that k1(1,6) k2 t1(2) unfolding t1_def by auto
qed

text \<open>The entries above \<^verbatim>\<open>KERNEL_TOP\<close> point past the tables.\<close>

lemma boot_past_tables:
  assumes dir: "\<And>n. n < 1024 \<Longrightarrow> pword s d n = (if 768 \<le> n then pgd_entry (p + (n - 768)) else 0)"
    and "p + 224 \<le> max_frames" "\<not> va < KERNEL_TOP"
  shows "present (pword s d (unat (PGD_INDEX va))) \<and> frame_of (pword s d (unat (PGD_INDEX va))) \<notin> {p ..< p + 224}"
proof -
  have "0xF8000000 \<le> unat va" using assms(3) by (simp add: not_less word_le_nat_alt)
  then have "0xF8000000 div 4194304 \<le> unat va div 4194304" by (rule div_le_mono)
  then have i: "992 \<le> unat (PGD_INDEX va)" by (simp add: PGD_INDEX_div)
  then have "pword s d (unat (PGD_INDEX va)) = pgd_entry (p + (unat (PGD_INDEX va) - 768))"
    using dir [OF index_bounds(1)] by simp
  moreover have "p + (unat (PGD_INDEX va) - 768) < 0x40000" "p + (unat (PGD_INDEX va) - 768) \<notin> {p ..< p + 224}"
    using i index_bounds(1) [of va] assms(2) by auto
  ultimately show ?thesis using boot_entry by metis
qed

text \<open>
  C7: with enough free memory, \<^verbatim>\<open>initKernelPageTable\<close> leaves a page directory under which no user
  address is mapped and every kernel address below \<^verbatim>\<open>KERNEL_TOP\<close> is mapped to its physical address.
  The directory entries for the addresses above are marked present too, but point past the tables
  that were allocated.
\<close>

theorem initKernelPageTable_correct:
  assumes inv: "pmm_inv s" and pc: "unat (PageCount s) \<le> max_frames" and room: "{q ..< q + 449} \<subseteq> free_set s"
  shows "\<exists>s' d p. initKernelPageTable s = Ret s' \<and> pmm_inv s' \<and> KernelPGD s' = kva d \<and> KernelPTE s' = kva p \<and>
    free_set s' = free_set s - {d} - {p ..< p + 224} \<and> cr3 s' = page2pa d \<and>
    (\<forall>va < KERNEL_BASE. translate s' d va = None) \<and>
    (\<forall>va. KERNEL_BASE \<le> va \<and> va < KERNEL_TOP \<longrightarrow> translate s' d va = Some (va - KERNEL_BASE)) \<and>
    (\<forall>va. va < KERNEL_TOP \<or>
      present (pword s' d (unat (PGD_INDEX va))) \<and> frame_of (pword s' d (unat (PGD_INDEX va))) \<notin> {p ..< p + 224})"
proof -
  obtain d s1 p s2 where k: "kmalloc 4096 s = Ret (kva d, s1)" "kmalloc 917504 (s1\<lparr>KernelPGD := kva d\<rparr>) = Ret (kva p, s2)"
    and inv2: "pmm_inv s2" and free2: "free_set s2 = free_set s - {d} - {p ..< p + 224}" and pgd: "KernelPGD s2 = kva d"
    and dm: "d < max_frames" and pm: "p + 224 \<le> max_frames" and dp: "d < p \<or> p + 224 \<le> d"
    using boot_blocks [OF inv pc room] .
  define s3 where "s3 = s2\<lparr>KernelPTE := kva p\<rparr>"
  define s4 where "s4 = s3\<lparr>mem := bzero (kva d) 4096 (mem s3)\<rparr>"
  define s5 where "s5 = s4\<lparr>mem := bzero (kva p) 917504 (mem s4)\<rparr>"
  define s6 where "s6 = setBootKernelPGD s5"
  have sel5: "KernelPGD s5 = kva d" "KernelPTE s5 = kva p" using pgd by (simp_all add: s5_def s4_def s3_def)
  have s6: "s6 = s5\<lparr>mem := mem s6\<rparr>" unfolding s6_def by (rule setBootKernelPGD_frame)
  have sel6: "KernelPGD s6 = kva d" "KernelPTE s6 = kva p" "pmm_inv s6" "free_set s6 = free_set s2"
    using sel5 inv2 by (subst s6, simp add: s5_def s4_def s3_def)+
  define s' where "s' = switchPageDir (kva d - KERNEL_BASE) (s6\<lparr>kernel_cr3 := kva d - KERNEL_BASE\<rparr>)"
  have run: "initKernelPageTable s = Ret s'"
    using k sel6(1) pgd by (simp add: initKernelPageTable_def s'_def s6_def s5_def s4_def s3_def Let_def)
  have m': "mem s' = mem s6" by (simp add: s'_def switchPageDir_def lcr3_def)
  have words: "pword s' g n =
    (if g = d \<and> 768 \<le> n then pgd_entry (p + (n - 768))
     else if p \<le> g \<and> g < p + 224 then pte_entry ((g - p) * 1024 + n) else pword s5 g n)"
    if "g < max_frames" "n < 1024" for g n
    using setBootKernelPGD_words [OF sel5 dm pm dp that] pword_mem_cong [OF m'] by (simp add: s6_def)
  have z: "pword s5 d n = 0" if "n < 1024" for n
  proof -
    have "pword s4 d n = 0" using bzero_words [of d 1 d n 4096 s3] that dm by (simp add: s4_def)
    then show ?thesis
      using bzero_words [of p 224 d n 917504 s4] pm that dm dp by (auto simp: s5_def)
  qed
  have dir: "pword s' d n = (if 768 \<le> n then pgd_entry (p + (n - 768)) else 0)" if "n < 1024" for n
    using words [OF dm that] z [OF that] dp by auto
  have tab: "pword s' (p + i) n = pte_entry (i * 1024 + n)" if "i < 224" "n < 1024" for i n
    using words [of "p + i" n] that pm dp by auto
  have "pmm_inv s'" "free_set s' = free_set s - {d} - {p ..< p + 224}" "cr3 s' = page2pa d"
    "KernelPGD s' = kva d" "KernelPTE s' = kva p"
    using sel6 free2 by (simp_all add: s'_def switchPageDir_def lcr3_def) (simp add: kva_def)
  moreover have "\<forall>va < KERNEL_BASE. translate s' d va = None"
    "\<forall>va. KERNEL_BASE \<le> va \<and> va < KERNEL_TOP \<longrightarrow> translate s' d va = Some (va - KERNEL_BASE)"
    using direct_mapping [OF dir tab pm] by blast+
  moreover have "\<forall>va. va < KERNEL_TOP \<or>
      present (pword s' d (unat (PGD_INDEX va))) \<and> frame_of (pword s' d (unat (PGD_INDEX va))) \<notin> {p ..< p + 224}"
    using boot_past_tables [OF dir pm] by blast
  ultimately show ?thesis using run by (intro exI [of _ s'] exI [of _ d] exI [of _ p] conjI)
qed

text \<open>A machine with 4096 pages of which all but the first four are free, in one block.\<close>

definition sample_boot :: kmach where
  "sample_boot = sample_kmach\<lparr>PageCount := 4096, Pages := (Pages sample_kmach)(4 := \<lparr>pg_flags = 2, property = 4092, ref = 0\<rparr>),
     free_page_count := 4092\<rparr>"

lemma sample_boot_rel: "pmm_rel sample_boot [(4, 4092)]"
proof -
  have b: "bit (1 :: u32) 1 = False" "bit (2 :: u32) 1 = True" "bit (2 :: u32) 0 = False"
    by (simp_all add: bit_1_iff)
  show ?thesis
    unfolding pmm_rel_def using b
    by (auto simp: sample_boot_def sample_kmach_def sample_pmm_def dlist_def pages_of_def)
qed

theorem initKernelPageTable_correct_witness:
  "\<exists>s' d. initKernelPageTable sample_boot = Ret s' \<and> translate s' d 0xC0001234 = Some 0x1234"
proof -
  have "{4 ..< 4 + 449} \<subseteq> free_set sample_boot"
    using free_set_cover [OF sample_boot_rel] by (auto simp: pages_of_def)
  moreover have "pmm_inv sample_boot" using sample_boot_rel by (auto simp: pmm_inv_def)
  moreover have "unat (PageCount sample_boot) \<le> max_frames" by (simp add: sample_boot_def)
  ultimately obtain s' d where "initKernelPageTable sample_boot = Ret s'"
    and t: "\<forall>va. KERNEL_BASE \<le> va \<and> va < KERNEL_TOP \<longrightarrow> translate s' d va = Some (va - KERNEL_BASE)"
    using initKernelPageTable_correct [of sample_boot 4] by blast
  moreover have "translate s' d 0xC0001234 = Some 0x1234" using t [rule_format, of "0xC0001234"] by simp
  ultimately show ?thesis by blast
qed

end
