(* ===== verification/Sched.thy ===== *)
theory Sched
  imports Machine
begin

text \<open>
  The scheduler: tasks and the run queue (\<^verbatim>\<open>kern/include/task.h\<close>, \<^verbatim>\<open>kern/krnl/task/sched.c\<close>), the
  timer interrupt (\<^verbatim>\<open>kern/driver/timer.c\<close>) and the context switch of \<^verbatim>\<open>switch_to_s\<close>.  The run queue
  is the intrusive list of the source, at pointer level.  Tasks are records in a store indexed by
  their address.  The functions that mask interrupts around their body run as one step.
\<close>

section \<open>Tasks and the state of the scheduler\<close>

datatype task_state = TASK_UNINIT | TASK_SLEEPING | TASK_RUNNABLE | TASK_ZOMBIE

abbreviation (input) WT_NOTWAIT :: u32 where "WT_NOTWAIT \<equiv> 0"
abbreviation (input) WT_INTERRUPTED :: u32 where "WT_INTERRUPTED \<equiv> 0x80000000"
abbreviation (input) WT_CHILD :: u32 where "WT_CHILD \<equiv> 0x80000001"
abbreviation (input) WT_KSEM :: u32 where "WT_KSEM \<equiv> 0x100"
abbreviation (input) WT_KBD :: u32 where "WT_KBD \<equiv> 0x80000004"
abbreviation (input) MAX_TIME_SLICES :: int where "MAX_TIME_SLICES \<equiv> 1"
abbreviation (input) KSTACKSIZE :: u32 where "KSTACKSIZE \<equiv> 8192"

record cpu_context =
  eip :: u32
  esp :: u32
  ebx :: u32
  ecx :: u32
  edx :: u32
  esi :: u32
  edi :: u32
  ebp :: u32

record task =
  tid :: int
  tname :: "u8 list"
  tstate :: task_state
  wait_state :: u32
  exit_code :: int
  runs :: int
  kstack :: ptr
  tflags :: u32
  parent :: ptr
  cptr :: ptr
  yptr :: ptr
  optr :: ptr
  tmm :: ptr
  tcontext :: cpu_context
  tif :: ptr
  tcr3 :: u32
  time_slice :: u32
  need_resched :: bool
  tfiles :: ptr

text \<open>The list pointers of the run queue: its head, and \<^verbatim>\<open>run_queue_ptr\<close> of a task.\<close>

datatype rq_node = RunHead | RunTask ptr

record ksched = kmach +
  tasks :: "ptr \<Rightarrow> task"
  CurrentTask :: ptr
  idle_task :: ptr
  RunLinks :: "rq_node list_heap"
  task_num :: u32
  max_time_slice :: int
  regs :: cpu_context
  ts_esp0 :: u32
  Timer_SysTick :: u32
  Timer_SysSecond :: u32

definition upd_task :: "ptr \<Rightarrow> (task \<Rightarrow> task) \<Rightarrow> 'a ksched_scheme \<Rightarrow> 'a ksched_scheme" where
  "upd_task t f s = s\<lparr>tasks := (tasks s)(t := f (tasks s t))\<rparr>"

section \<open>The run queue\<close>

definition initRunQueue :: "'a ksched_scheme \<Rightarrow> 'a ksched_scheme" where
  "initRunQueue s =
     s\<lparr>max_time_slice := MAX_TIME_SLICES, task_num := 0, RunLinks := initList RunHead (RunLinks s)\<rparr>"

text \<open>\<^verbatim>\<open>time_slice\<close> is unsigned, so \<^verbatim>\<open><= 0\<close> is a test for 0 and the second comparison is unsigned.\<close>

definition enqueueRunQueue :: "ptr \<Rightarrow> 'a ksched_scheme \<Rightarrow> 'a ksched_scheme kres" where
  "enqueueRunQueue task s =
     (if task = NULL then Panic ''enqueueRunQueue error!''
      else
        (let s1 = s\<lparr>RunLinks := listAddBefore RunHead (RunTask task) (RunLinks s)\<rparr>;
             ts = time_slice (tasks s1 task);
             s2 = (if ts = 0 \<or> of_int (max_time_slice s1) < ts
                   then upd_task task (\<lambda>t. t\<lparr>time_slice := of_int (max_time_slice s1)\<rparr>) s1 else s1)
         in Ret (s2\<lparr>task_num := task_num s2 + 1\<rparr>)))"

definition dequeueRunQueue :: "ptr \<Rightarrow> 'a ksched_scheme \<Rightarrow> 'a ksched_scheme kres" where
  "dequeueRunQueue task s =
     (if task = NULL then Panic ''dequeueRunQueue error!''
      else
        (let s1 = s\<lparr>RunLinks := listDelInit (RunTask task) (RunLinks s)\<rparr>
         in Ret (s1\<lparr>task_num := task_num s1 - 1\<rparr>)))"

definition getHeadRunQueue :: "'a ksched_scheme \<Rightarrow> ptr" where
  "getHeadRunQueue s = (case listGetNext (RunLinks s) RunHead of RunHead \<Rightarrow> NULL | RunTask t \<Rightarrow> t)"

section \<open>Switching\<close>

definition switch_to_s :: "ptr \<Rightarrow> ptr \<Rightarrow> 'a ksched_scheme \<Rightarrow> 'a ksched_scheme" where
  "switch_to_s from to s =
     (let s1 = upd_task from (\<lambda>t. t\<lparr>tcontext := regs s\<rparr>) s in s1\<lparr>regs := tcontext (tasks s1 to)\<rparr>)"

text \<open>
  \<^verbatim>\<open>kstack\<close> is a \<^verbatim>\<open>uint32_t *\<close>: \<^verbatim>\<open>next->kstack + KSTACKSIZE\<close> lies four times \<^verbatim>\<open>KSTACKSIZE\<close> bytes on.
\<close>

definition runTask :: "ptr \<Rightarrow> 'a ksched_scheme \<Rightarrow> 'a ksched_scheme" where
  "runTask next_task s =
     (if next_task \<noteq> CurrentTask s
      then
        (let prev = CurrentTask s;
             s1 = s\<lparr>CurrentTask := next_task\<rparr>;
             s2 = s1\<lparr>ts_esp0 := kstack (tasks s1 next_task) + 4 * KSTACKSIZE\<rparr>;
             s3 = lcr3 (tcr3 (tasks s2 next_task)) s2
         in switch_to_s prev next_task s3)
      else s)"

definition schedule :: "'a ksched_scheme \<Rightarrow> 'a ksched_scheme kres" where
  "schedule s =
     (let s1 = upd_task (CurrentTask s) (\<lambda>t. t\<lparr>need_resched := False\<rparr>) s
      in kbind (if tstate (tasks s1 (CurrentTask s1)) = TASK_RUNNABLE \<and> CurrentTask s1 \<noteq> idle_task s1
                then enqueueRunQueue (CurrentTask s1) s1 else Ret s1) (\<lambda>s2.
         let next = getHeadRunQueue s2
         in kbind (if next \<noteq> NULL then dequeueRunQueue next s2 else Ret s2) (\<lambda>s3.
              let next' = (if next = NULL then idle_task s3 else next)
              in Ret (if next' \<noteq> CurrentTask s3 then runTask next' s3 else s3))))"

section \<open>Waking up and the timer\<close>

definition wakeupTask :: "ptr \<Rightarrow> 'a ksched_scheme \<Rightarrow> 'a ksched_scheme kres" where
  "wakeupTask task s =
     (if tstate (tasks s task) = TASK_ZOMBIE then Panic ''try to wake up zombie task!''
      else if tstate (tasks s task) \<noteq> TASK_RUNNABLE
      then
        (let s1 = upd_task task (\<lambda>t. t\<lparr>tstate := TASK_RUNNABLE, wait_state := WT_NOTWAIT\<rparr>) s
         in if task \<noteq> CurrentTask s1 \<and> task \<noteq> idle_task s1 then enqueueRunQueue task s1 else Ret s1)
      else Ret s)"

definition tickTask :: "ptr \<Rightarrow> 'a ksched_scheme \<Rightarrow> 'a ksched_scheme" where
  "tickTask task s =
     (let s1 = (if 0 < time_slice (tasks s task)
                then upd_task task (\<lambda>t. t\<lparr>time_slice := time_slice t - 1\<rparr>) s else s)
      in if time_slice (tasks s1 task) = 0 then upd_task task (\<lambda>t. t\<lparr>need_resched := True\<rparr>) s1 else s1)"

definition tickCurrentTask :: "'a ksched_scheme \<Rightarrow> 'a ksched_scheme" where
  "tickCurrentTask s = tickTask (CurrentTask s) s"

definition timerCallBack :: "'a ksched_scheme \<Rightarrow> 'a ksched_scheme kres" where
  "timerCallBack s =
     (let s1 = s\<lparr>Timer_SysTick := Timer_SysTick s + 1\<rparr>;
          s2 = (if Timer_SysTick s1 mod 100 = 0 then s1\<lparr>Timer_SysSecond := Timer_SysSecond s1 + 1\<rparr> else s1);
          s3 = tickCurrentTask s2
      in if need_resched (tasks s3 (CurrentTask s3)) then schedule s3 else Ret s3)"

section \<open>The run queue as a list\<close>

text \<open>
  \<open>rq_inv s q L\<close>: the queue holds the tasks \<open>q\<close>; they are exactly the runnable ones among the
  existing tasks \<open>L\<close>, the current and the idle task apart; \<^verbatim>\<open>task_num\<close> counts them.
\<close>

definition ready :: "'a ksched_scheme \<Rightarrow> ptr set \<Rightarrow> ptr set" where
  "ready s L = {t \<in> L. t \<noteq> CurrentTask s \<and> t \<noteq> idle_task s \<and> tstate (tasks s t) = TASK_RUNNABLE}"

definition rq_inv :: "'a ksched_scheme \<Rightarrow> ptr list \<Rightarrow> ptr set \<Rightarrow> bool" where
  "rq_inv s q L \<longleftrightarrow>
     dlist (RunLinks s) RunHead (map RunTask q) \<and> task_num s = of_nat (length q) \<and> set q = ready s L \<and>
     NULL \<notin> L \<and> CurrentTask s \<in> L \<and> idle_task s \<in> L \<and> max_time_slice s = MAX_TIME_SLICES \<and>
     (\<forall>t \<in> set q. time_slice (tasks s t) = 1) \<and> (\<forall>t \<in> L. time_slice (tasks s t) \<le> 1)"

lemma upd_task_sel [simp]:
  "CurrentTask (upd_task t f s) = CurrentTask s" "idle_task (upd_task t f s) = idle_task s"
  "RunLinks (upd_task t f s) = RunLinks s" "task_num (upd_task t f s) = task_num s"
  "max_time_slice (upd_task t f s) = max_time_slice s"
  "tasks (upd_task t f s) = (tasks s)(t := f (tasks s t))"
  by (simp_all add: upd_task_def)

lemma dlist_RunTask: "distinct (RunHead # map RunTask q) = distinct q"
  by (auto simp: distinct_map inj_on_def)

lemma rq_distinct: "rq_inv s q L \<Longrightarrow> distinct q"
  by (simp add: rq_inv_def dlist_def distinct_map)

lemma getHead_queue:
  assumes "dlist (RunLinks s) RunHead (map RunTask q)"
  shows "getHeadRunQueue s = (case q of [] \<Rightarrow> NULL | t # _ \<Rightarrow> t)"
  using dlist_next [OF assms] by (cases q) (simp_all add: getHeadRunQueue_def)

lemma enqueue_eq:
  assumes "t \<noteq> NULL" and "max_time_slice s = 1"
  shows "enqueueRunQueue t s =
    Ret (s\<lparr>RunLinks := listAddBefore RunHead (RunTask t) (RunLinks s),
           tasks := (tasks s)(t := (tasks s t)\<lparr>time_slice := 1\<rparr>), task_num := task_num s + 1\<rparr>)"
proof -
  have "tasks s t = (tasks s t)\<lparr>time_slice := 1\<rparr>" if "\<not> (time_slice (tasks s t) = 0 \<or> 1 < time_slice (tasks s t))"
  proof -
    have "unat (time_slice (tasks s t)) \<noteq> 0" "\<not> 1 < unat (time_slice (tasks s t))"
      using that by (simp_all add: word_less_nat_alt unat_eq_zero)
    then have "time_slice (tasks s t) = 1" by (simp add: word_unat_eq_iff)
    then show ?thesis by simp
  qed
  then show ?thesis
    using assms by (auto simp: enqueueRunQueue_def Let_def upd_task_def fun_upd_idem_iff)
qed

lemma dlist_enqueue:
  "dlist h RunHead (map RunTask q) \<Longrightarrow> t \<notin> set q \<Longrightarrow>
   dlist (listAddBefore RunHead (RunTask t) h) RunHead (map RunTask (q @ [t]))"
  using dlist_addTail [of h RunHead "map RunTask q" "RunTask t"] by (auto simp: listAddTail_def)

lemma dlist_dequeue:
  "dlist h RunHead (map RunTask (t # q)) \<Longrightarrow> dlist (listDelInit (RunTask t) h) RunHead (map RunTask q)"
  using dlist_delInit [of h RunHead "map RunTask (t # q)" "RunTask t"] by simp

lemma runTask_sel [simp]:
  "RunLinks (runTask n s) = RunLinks s" "task_num (runTask n s) = task_num s"
  "idle_task (runTask n s) = idle_task s" "max_time_slice (runTask n s) = max_time_slice s"
  "CurrentTask (runTask n s) = n" "tstate (tasks (runTask n s) t) = tstate (tasks s t)"
  "time_slice (tasks (runTask n s) t) = time_slice (tasks s t)"
  "wait_state (tasks (runTask n s) t) = wait_state (tasks s t)"
  by (simp_all add: runTask_def switch_to_s_def Let_def lcr3_def)

text \<open>The scheduler touches none of the components built on top of it.\<close>

lemma queue_more:
  "enqueueRunQueue t s = Ret s' \<Longrightarrow> ksched.more s' = ksched.more s"
  "dequeueRunQueue t s = Ret s' \<Longrightarrow> ksched.more s' = ksched.more s"
  by (auto simp: enqueueRunQueue_def dequeueRunQueue_def Let_def upd_task_def split: if_splits)

lemma task_more [simp]:
  "ksched.more (upd_task t f s) = ksched.more s" "ksched.more (runTask t s) = ksched.more s"
  "ksched.more (tickTask t s) = ksched.more s"
  by (simp_all add: upd_task_def runTask_def switch_to_s_def tickTask_def Let_def lcr3_def)

lemma schedule_more: "schedule s = Ret s' \<Longrightarrow> ksched.more s' = ksched.more s"
proof -
  assume run: "schedule s = Ret s'"
  let ?s1 = "upd_task (CurrentTask s) (\<lambda>t. t\<lparr>need_resched := False\<rparr>) s"
  obtain s2 where s2: "(if tstate (tasks ?s1 (CurrentTask ?s1)) = TASK_RUNNABLE \<and> CurrentTask ?s1 \<noteq> idle_task ?s1
      then enqueueRunQueue (CurrentTask ?s1) ?s1 else Ret ?s1) = Ret s2"
    and r2: "kbind (if getHeadRunQueue s2 \<noteq> NULL then dequeueRunQueue (getHeadRunQueue s2) s2 else Ret s2)
      (\<lambda>s3. let next' = (if getHeadRunQueue s2 = NULL then idle_task s3 else getHeadRunQueue s2)
        in Ret (if next' \<noteq> CurrentTask s3 then runTask next' s3 else s3)) = Ret s'"
    using run unfolding schedule_def Let_def kbind_eq_Ret by blast
  have "ksched.more s2 = ksched.more s" using s2 by (auto split: if_splits dest!: queue_more(1))
  moreover obtain s3 where s3: "(if getHeadRunQueue s2 \<noteq> NULL then dequeueRunQueue (getHeadRunQueue s2) s2 else Ret s2) = Ret s3"
    and e3: "s' = (if (if getHeadRunQueue s2 = NULL then idle_task s3 else getHeadRunQueue s2) \<noteq> CurrentTask s3
      then runTask (if getHeadRunQueue s2 = NULL then idle_task s3 else getHeadRunQueue s2) s3 else s3)"
    using r2 unfolding Let_def kbind_eq_Ret kres.inject by blast
  from e3 have "ksched.more s' = ksched.more s3" by simp
  moreover have "ksched.more s3 = ksched.more s2" using s3 by (auto split: if_splits dest!: queue_more(2))
  ultimately show ?thesis by simp
qed

lemma wakeupTask_more: "wakeupTask t s = Ret s' \<Longrightarrow> ksched.more s' = ksched.more s"
  by (auto simp: wakeupTask_def Let_def split: if_splits dest!: queue_more(1))

lemma timer_more: "timerCallBack s = Ret s' \<Longrightarrow> ksched.more s' = ksched.more s"
  by (auto simp: timerCallBack_def tickCurrentTask_def Let_def split: if_splits dest!: schedule_more)

section \<open>Correctness of the operations\<close>

text \<open>The queue after the current task has been put back, and what \<^verbatim>\<open>schedule\<close> picks from it.\<close>

definition requeue :: "'a ksched_scheme \<Rightarrow> ptr list \<Rightarrow> ptr list" where
  "requeue s q =
     (if tstate (tasks s (CurrentTask s)) = TASK_RUNNABLE \<and> CurrentTask s \<noteq> idle_task s
      then q @ [CurrentTask s] else q)"

lemma schedule_ok:
  assumes inv: "rq_inv s q L"
  shows "\<exists>s'. schedule s = Ret s' \<and> rq_inv s' (tl (requeue s q)) L \<and>
    CurrentTask s' = (case requeue s q of [] \<Rightarrow> idle_task s | t # _ \<Rightarrow> t) \<and>
    idle_task s' = idle_task s \<and> (\<forall>t. tstate (tasks s' t) = tstate (tasks s t)) \<and>
    (\<forall>t. wait_state (tasks s' t) = wait_state (tasks s t))"
proof -
  let ?c = "CurrentTask s"
  define s1 where "s1 = upd_task ?c (\<lambda>t. t\<lparr>need_resched := False\<rparr>) s"
  have dl: "dlist (RunLinks s) RunHead (map RunTask q)" and n: "task_num s = of_nat (length q)"
    and set: "set q = ready s L" and nul: "NULL \<notin> L" "?c \<in> L" "idle_task s \<in> L" and mx: "max_time_slice s = 1"
    and ts: "\<forall>t \<in> set q. time_slice (tasks s t) = 1" and ts1: "\<forall>t \<in> L. time_slice (tasks s t) \<le> 1"
    using inv by (simp_all add: rq_inv_def)
  have "?c \<noteq> NULL" using nul(1,2) by metis
  moreover have "?c \<notin> set q" unfolding set by (simp add: ready_def)
  ultimately have cn: "?c \<noteq> NULL" "?c \<notin> set q" by simp_all
  have st1: "tstate (tasks s1 t) = tstate (tasks s t)" "wait_state (tasks s1 t) = wait_state (tasks s t)"
    "time_slice (tasks s1 t) = time_slice (tasks s t)" for t
    by (simp_all add: s1_def)
  let ?q = "requeue s q"
  obtain s2 where s2: "(if tstate (tasks s1 (CurrentTask s1)) = TASK_RUNNABLE \<and> CurrentTask s1 \<noteq> idle_task s1
        then enqueueRunQueue (CurrentTask s1) s1 else Ret s1) = Ret s2"
    "dlist (RunLinks s2) RunHead (map RunTask ?q)" "task_num s2 = of_nat (length ?q)"
    "CurrentTask s2 = ?c" "idle_task s2 = idle_task s" "max_time_slice s2 = 1"
    "\<forall>t. tstate (tasks s2 t) = tstate (tasks s t)" "\<forall>t. wait_state (tasks s2 t) = wait_state (tasks s t)"
    "\<forall>t \<in> set ?q. time_slice (tasks s2 t) = 1" "\<forall>t \<in> L. time_slice (tasks s2 t) \<le> 1"
  proof (cases "tstate (tasks s ?c) = TASK_RUNNABLE \<and> ?c \<noteq> idle_task s")
    case True
    have e: "enqueueRunQueue ?c s1 = Ret (s1\<lparr>RunLinks := listAddBefore RunHead (RunTask ?c) (RunLinks s1),
           tasks := (tasks s1)(?c := (tasks s1 ?c)\<lparr>time_slice := 1\<rparr>), task_num := task_num s1 + 1\<rparr>)"
      by (rule enqueue_eq [OF cn(1)]) (simp add: s1_def mx)
    define e2 where "e2 = s1\<lparr>RunLinks := listAddBefore RunHead (RunTask ?c) (RunLinks s1),
           tasks := (tasks s1)(?c := (tasks s1 ?c)\<lparr>time_slice := 1\<rparr>), task_num := task_num s1 + 1\<rparr>"
    have rq: "?q = q @ [?c]" using True by (simp add: requeue_def)
    show ?thesis
    proof (rule that [of e2])
      show "dlist (RunLinks e2) RunHead (map RunTask ?q)"
        using dlist_enqueue [OF dl cn(2)] by (simp add: e2_def s1_def rq)
    qed (use e True n mx ts ts1 st1 in \<open>simp_all add: e2_def s1_def rq\<close>)
  next
    case False
    then have rq: "?q = q" unfolding requeue_def by simp
    show ?thesis
      by (rule that [of s1]) (use False dl n mx ts ts1 in \<open>auto simp: rq s1_def\<close>)
  qed
  have step: "schedule s = kbind (if getHeadRunQueue s2 \<noteq> NULL then dequeueRunQueue (getHeadRunQueue s2) s2 else Ret s2)
      (\<lambda>s3. let next' = (if getHeadRunQueue s2 = NULL then idle_task s3 else getHeadRunQueue s2)
        in Ret (if next' \<noteq> CurrentTask s3 then runTask next' s3 else s3))"
    unfolding schedule_def s1_def [symmetric] Let_def s2(1) by simp
  have head: "getHeadRunQueue s2 = (case ?q of [] \<Rightarrow> NULL | t # _ \<Rightarrow> t)" using getHead_queue [OF s2(2)] .
  have dist: "distinct ?q" using s2(2) dlist_RunTask [of ?q] by (simp add: dlist_def)
  have setq: "set ?q = {t \<in> L. t \<noteq> idle_task s \<and> tstate (tasks s t) = TASK_RUNNABLE}"
    using set nul by (auto simp: requeue_def ready_def)
  show ?thesis
  proof (cases ?q)
    case Nil
    define s' where "s' = (if idle_task s \<noteq> ?c then runTask (idle_task s) s2 else s2)"
    have "schedule s = Ret s'"
      using s2(4,5) head Nil by (simp add: step s'_def)
    moreover have "rq_inv s' [] L"
      using s2 nul Nil setq by (auto simp: rq_inv_def ready_def s'_def)
    ultimately show ?thesis using s2 Nil by (intro exI [of _ s']) (simp add: s'_def)
  next
    case (Cons t r)
    have tL: "t \<in> L" "t \<noteq> NULL" using setq Cons nul by auto
    define s3 where "s3 = s2\<lparr>RunLinks := listDelInit (RunTask t) (RunLinks s2), task_num := task_num s2 - 1\<rparr>"
    define s' where "s' = (if t \<noteq> ?c then runTask t s3 else s3)"
    have dq: "dequeueRunQueue t s2 = Ret s3" using tL by (simp add: dequeueRunQueue_def s3_def)
    have run: "schedule s = Ret s'"
      using s2(4,5) head Cons tL dq by (simp add: step s'_def s3_def)
    have sel: "CurrentTask s' = t" "idle_task s' = idle_task s" "max_time_slice s' = 1"
      "RunLinks s' = RunLinks s3" "task_num s' = task_num s3"
      using s2(4-6) by (simp_all add: s'_def s3_def)
    have st: "tstate (tasks s' x) = tstate (tasks s x)" "wait_state (tasks s' x) = wait_state (tasks s x)"
      "time_slice (tasks s' x) = time_slice (tasks s2 x)" for x
      using s2(7,8) by (simp_all add: s'_def s3_def)
    have "rq_inv s' r L"
      unfolding rq_inv_def
    proof (intro conjI)
      show "dlist (RunLinks s') RunHead (map RunTask r)"
        using dlist_dequeue s2(2) Cons by (simp add: sel s3_def)
      show "task_num s' = of_nat (length r)" using s2(3) Cons by (simp add: sel s3_def)
      show "set r = ready s' L" using setq dist Cons st by (auto simp: ready_def sel)
      show "\<forall>x \<in> set r. time_slice (tasks s' x) = 1" using s2(9) Cons st by simp
    qed (use nul tL sel st s2(10) in simp_all)
    then show ?thesis using run sel st Cons by (intro exI [of _ s']) simp
  qed
qed

lemma wakeupTask_ok:
  assumes inv: "rq_inv s q L" and t: "t \<in> L" "tstate (tasks s t) \<noteq> TASK_ZOMBIE"
  shows "\<exists>s'. wakeupTask t s = Ret s' \<and>
    rq_inv s' (if tstate (tasks s t) \<noteq> TASK_RUNNABLE \<and> t \<noteq> CurrentTask s \<and> t \<noteq> idle_task s then q @ [t] else q) L \<and>
    CurrentTask s' = CurrentTask s \<and> idle_task s' = idle_task s \<and>
    (\<forall>x. tstate (tasks s' x) = (if x = t then TASK_RUNNABLE else tstate (tasks s x))) \<and>
    (\<forall>x. x \<noteq> t \<longrightarrow> tasks s' x = tasks s x)"
proof (cases "tstate (tasks s t) = TASK_RUNNABLE")
  case True
  then show ?thesis using inv by (intro exI [of _ s]) (simp add: wakeupTask_def)
next
  case False
  define s1 where "s1 = upd_task t (\<lambda>x. x\<lparr>tstate := TASK_RUNNABLE, wait_state := WT_NOTWAIT\<rparr>) s"
  have dl: "dlist (RunLinks s) RunHead (map RunTask q)" and n: "task_num s = of_nat (length q)"
    and set: "set q = ready s L" and nul: "NULL \<notin> L" "CurrentTask s \<in> L" "idle_task s \<in> L"
    and mx: "max_time_slice s = 1"
    and ts: "\<forall>t \<in> set q. time_slice (tasks s t) = 1" and ts1: "\<forall>t \<in> L. time_slice (tasks s t) \<le> 1"
    using inv by (simp_all add: rq_inv_def)
  have tn: "t \<noteq> NULL" using nul(1) t(1) by metis
  have tq: "t \<notin> set q" unfolding set using False by (simp add: ready_def)
  have ready1: "ready s1 L = ready s L \<union> (if t \<noteq> CurrentTask s \<and> t \<noteq> idle_task s then {t} else {})"
    using t(1) by (auto simp: ready_def s1_def)
  show ?thesis
  proof (cases "t \<noteq> CurrentTask s \<and> t \<noteq> idle_task s")
    case True
    define s' where "s' = s1\<lparr>RunLinks := listAddBefore RunHead (RunTask t) (RunLinks s1),
           tasks := (tasks s1)(t := (tasks s1 t)\<lparr>time_slice := 1\<rparr>), task_num := task_num s1 + 1\<rparr>"
    have "enqueueRunQueue t s1 = Ret s'"
      unfolding s'_def by (rule enqueue_eq [OF tn]) (simp add: s1_def mx)
    then have run: "wakeupTask t s = Ret s'"
      using False t(2) True by (simp add: wakeupTask_def s1_def)
    have rdy: "ready s' L = ready s1 L" by (auto simp: ready_def s'_def)
    have "rq_inv s' (q @ [t]) L"
      unfolding rq_inv_def
    proof (intro conjI)
      show "dlist (RunLinks s') RunHead (map RunTask (q @ [t]))"
        using dlist_enqueue [OF dl tq] by (simp add: s'_def s1_def)
      show "set (q @ [t]) = ready s' L" using set ready1 rdy True by simp
    qed (use n nul mx ts ts1 tq in \<open>simp_all add: s'_def s1_def\<close>)
    then show ?thesis
      using run False True by (intro exI [of _ s']) (simp add: s'_def s1_def)
  next
    case cur: False
    have "rq_inv s1 q L"
      unfolding rq_inv_def
    proof (intro conjI)
      show "set q = ready s1 L" using set ready1 cur by auto
    qed (use dl n nul mx ts ts1 tq in \<open>simp_all add: s1_def\<close>)
    moreover have "wakeupTask t s = Ret s1"
      using False t(2) cur by (auto simp: wakeupTask_def s1_def)
    ultimately show ?thesis using cur by (intro exI [of _ s1]) (auto simp: s1_def)
  qed
qed

text \<open>Updates of the current task that leave the queue alone.\<close>

lemma rq_inv_current:
  assumes "rq_inv s q L" and "time_slice (f (tasks s (CurrentTask s))) \<le> 1"
  shows "rq_inv (upd_task (CurrentTask s) f s) q L"
proof -
  have "CurrentTask s \<notin> set q" using assms(1) by (auto simp: rq_inv_def ready_def)
  then show ?thesis
    using assms by (auto simp: rq_inv_def ready_def)
qed

lemma rq_inv_cong:
  assumes "rq_inv s q L" and "tasks s' = tasks s" "CurrentTask s' = CurrentTask s" "idle_task s' = idle_task s"
    "RunLinks s' = RunLinks s" "task_num s' = task_num s" "max_time_slice s' = max_time_slice s"
  shows "rq_inv s' q L"
  using assms by (simp add: rq_inv_def ready_def)

lemma tick_forces_resched:
  assumes "time_slice (tasks s t) \<le> 1"
  shows "tickTask t s = upd_task t (\<lambda>x. x\<lparr>time_slice := 0, need_resched := True\<rparr>) s"
proof -
  have "unat (time_slice (tasks s t)) \<le> 1" using assms by (simp add: word_le_nat_alt)
  then have "time_slice (tasks s t) = 0 \<or> time_slice (tasks s t) = 1"
    by (metis le_Suc_eq One_nat_def le_zero_eq unat_eq_zero unsigned_1 word_unat_eq_iff)
  then show ?thesis
  proof
    assume z: "time_slice (tasks s t) = 0"
    have "x\<lparr>time_slice := 0, need_resched := True\<rparr> = x\<lparr>need_resched := True\<rparr>"
      if "time_slice x = 0" for x :: task
      using that by (cases x) simp
    then have e: "(tasks s t)\<lparr>time_slice := 0, need_resched := True\<rparr> = (tasks s t)\<lparr>need_resched := True\<rparr>"
      using z by blast
    have "tickTask t s = s\<lparr>tasks := (tasks s)(t := (tasks s t)\<lparr>need_resched := True\<rparr>)\<rparr>"
      using z by (simp add: tickTask_def upd_task_def)
    then show ?thesis by (simp only: upd_task_def e)
  qed (simp add: tickTask_def upd_task_def)
qed

lemma timer_ok:
  assumes inv: "rq_inv s q L"
  shows "\<exists>s'. timerCallBack s = Ret s' \<and> rq_inv s' (tl (requeue s q)) L \<and>
    CurrentTask s' = (case requeue s q of [] \<Rightarrow> idle_task s | t # _ \<Rightarrow> t) \<and>
    idle_task s' = idle_task s \<and> (\<forall>t. tstate (tasks s' t) = tstate (tasks s t))"
proof -
  define s2 where "s2 = (let s1 = s\<lparr>Timer_SysTick := Timer_SysTick s + 1\<rparr>
    in if Timer_SysTick s1 mod 100 = 0 then s1\<lparr>Timer_SysSecond := Timer_SysSecond s1 + 1\<rparr> else s1)"
  have sel: "tasks s2 = tasks s" "CurrentTask s2 = CurrentTask s" "idle_task s2 = idle_task s"
    "RunLinks s2 = RunLinks s" "task_num s2 = task_num s" "max_time_slice s2 = max_time_slice s"
    by (simp_all add: s2_def Let_def)
  have i2: "rq_inv s2 q L" using rq_inv_cong [OF inv sel] .
  have "time_slice (tasks s2 (CurrentTask s2)) \<le> 1" using i2 by (simp add: rq_inv_def)
  then have tick: "tickCurrentTask s2 = upd_task (CurrentTask s2) (\<lambda>x. x\<lparr>time_slice := 0, need_resched := True\<rparr>) s2"
    unfolding tickCurrentTask_def by (rule tick_forces_resched)
  define s3 where "s3 = upd_task (CurrentTask s2) (\<lambda>x. x\<lparr>time_slice := 0, need_resched := True\<rparr>) s2"
  have i3: "rq_inv s3 q L" unfolding s3_def by (rule rq_inv_current [OF i2]) simp
  have run: "timerCallBack s = schedule s3"
    using tick by (simp add: timerCallBack_def s2_def s3_def Let_def)
  have "requeue s3 q = requeue s q" "idle_task s3 = idle_task s" "\<And>t. tstate (tasks s3 t) = tstate (tasks s t)"
    by (simp_all add: requeue_def s3_def sel)
  then show ?thesis using schedule_ok [OF i3] run by (auto split: list.split)
qed

section \<open>Executions\<close>

text \<open>
  What can happen between two points where the scheduler is not running: the timer interrupt, a
  voluntary call of \<^verbatim>\<open>schedule\<close>, the current task going to sleep or exiting before such a call, and
  the wake-up of a task.
\<close>

inductive sched_step :: "ptr set \<Rightarrow> 'a ksched_scheme \<Rightarrow> 'a ksched_scheme \<Rightarrow> bool" for L where
  timer: "timerCallBack s = Ret s' \<Longrightarrow> sched_step L s s'"
| resched: "schedule s = Ret s' \<Longrightarrow> sched_step L s s'"
| sleep: "schedule (upd_task (CurrentTask s) (\<lambda>t. t\<lparr>tstate := TASK_SLEEPING, wait_state := w\<rparr>) s) = Ret s' \<Longrightarrow>
    sched_step L s s'"
| exit: "schedule (upd_task (CurrentTask s) (\<lambda>t. t\<lparr>tstate := TASK_ZOMBIE, exit_code := e\<rparr>) s) = Ret s' \<Longrightarrow>
    sched_step L s s'"
| wake: "t \<in> L \<Longrightarrow> wakeupTask t s = Ret s' \<Longrightarrow> sched_step L s s'"

inductive_cases sched_stepE: "sched_step L s s'"

inductive sched_reach :: "ptr set \<Rightarrow> 'a ksched_scheme \<Rightarrow> 'a ksched_scheme \<Rightarrow> bool" for L s0 where
  start: "sched_reach L s0 s0"
| step: "sched_reach L s0 s \<Longrightarrow> sched_step L s s' \<Longrightarrow> sched_reach L s0 s'"

lemma wakeup_zombie: "wakeupTask t s = Ret s' \<Longrightarrow> tstate (tasks s t) \<noteq> TASK_ZOMBIE"
  by (auto simp: wakeupTask_def)

lemma sched_step_inv:
  assumes "sched_step L s s'" and inv: "rq_inv s q L"
  shows "\<exists>q'. rq_inv s' q' L"
  using assms(1)
proof cases
  case timer
  then show ?thesis using timer_ok [OF inv] by auto
next
  case resched
  then show ?thesis using schedule_ok [OF inv] by auto
next
  case (sleep w)
  have "time_slice (tasks s (CurrentTask s)) \<le> 1" using inv by (simp add: rq_inv_def)
  then have "rq_inv (upd_task (CurrentTask s) (\<lambda>t. t\<lparr>tstate := TASK_SLEEPING, wait_state := w\<rparr>) s) q L"
    by (intro rq_inv_current [OF inv]) simp
  then show ?thesis using schedule_ok sleep by fastforce
next
  case (exit e)
  have "time_slice (tasks s (CurrentTask s)) \<le> 1" using inv by (simp add: rq_inv_def)
  then have "rq_inv (upd_task (CurrentTask s) (\<lambda>t. t\<lparr>tstate := TASK_ZOMBIE, exit_code := e\<rparr>) s) q L"
    by (intro rq_inv_current [OF inv]) simp
  then show ?thesis using schedule_ok exit by fastforce
next
  case (wake t)
  then show ?thesis using wakeupTask_ok [OF inv wake(1)] wakeup_zombie [OF wake(2)] by auto
qed

fun ticks :: "nat \<Rightarrow> 'a ksched_scheme \<Rightarrow> 'a ksched_scheme kres" where
  "ticks 0 s = Ret s"
| "ticks (Suc n) s = kbind (timerCallBack s) (ticks n)"

lemma ticks_run:
  assumes "rq_inv s q L" and "k < length q"
  shows "\<exists>s'. ticks (Suc k) s = Ret s' \<and> CurrentTask s' = q ! k"
  using assms
proof (induction k arbitrary: s q)
  case 0
  then obtain t r where q: "q = t # r" by (cases q) auto
  then show ?case using timer_ok [OF 0(1)] by (auto simp: requeue_def)
next
  case (Suc k)
  then obtain t r where q: "q = t # r" by (cases q) auto
  obtain s1 where s1: "timerCallBack s = Ret s1" "rq_inv s1 (tl (requeue s q)) L"
    using timer_ok [OF Suc.prems(1)] by blast
  have k: "k < length r" using Suc.prems(2) q by simp
  have "tl (requeue s q) = r \<or> tl (requeue s q) = r @ [CurrentTask s]" using q by (simp add: requeue_def)
  then have "k < length (tl (requeue s q))" "tl (requeue s q) ! k = q ! Suc k"
    using k q by (auto simp: nth_append simp del: length_tl)
  then show ?case using Suc.IH [OF s1(2)] s1(1) by auto
qed

section \<open>Sample state\<close>

definition blank_task :: task where
  "blank_task = \<lparr>tid = 0, tname = [], tstate = TASK_RUNNABLE, wait_state = 0, exit_code = 0, runs = 0, kstack = 0,
     tflags = 0, parent = 0, cptr = 0, yptr = 0, optr = 0, tmm = 0,
     tcontext = \<lparr>eip = 0, esp = 0, ebx = 0, ecx = 0, edx = 0, esi = 0, edi = 0, ebp = 0\<rparr>,
     tif = 0, tcr3 = 0, time_slice = 1, need_resched = False, tfiles = 0\<rparr>"

text \<open>The idle task at 16 runs, a second task at 32 waits in the queue, a third at 48 sleeps.\<close>

definition sample_sched :: ksched where
  "sample_sched =
     \<lparr>PhyMemSize = 0, PhyMemEnd = 0, PageCount = 0, Pages = (\<lambda>_. \<lparr>pg_flags = 0, property = 0, ref = 0\<rparr>),
      PagesAddr = 0, FreeMemStart = 0, FreeLinks = \<lparr>lp_prev = (\<lambda>x. x), lp_next = (\<lambda>x. x)\<rparr>, free_page_count = 0,
      mem = (\<lambda>_. 0), cr3 = 0, tlb = {}, KernelPGD = 0, KernelPTE = 0, kernel_cr3 = 0,
      tasks = (\<lambda>t. blank_task)(48 := blank_task\<lparr>tstate := TASK_SLEEPING\<rparr>), CurrentTask = 16, idle_task = 16,
      RunLinks = \<lparr>lp_prev = (\<lambda>n. if n = RunHead then RunTask 32 else RunHead),
                  lp_next = (\<lambda>n. if n = RunHead then RunTask 32 else RunHead)\<rparr>,
      task_num = 1, max_time_slice = 1, regs = tcontext blank_task, ts_esp0 = 0, Timer_SysTick = 0, Timer_SysSecond = 0\<rparr>"

lemma sample_sched_inv: "rq_inv sample_sched [32] {16, 32, 48}"
  by (auto simp: rq_inv_def ready_def sample_sched_def dlist_def blank_task_def)

section \<open>Properties\<close>

text \<open>
  C8: \<^verbatim>\<open>schedule\<close> always returns from a state with a well-formed queue.  A running task that is still
  runnable goes to the tail, the head of the queue gets the processor (the idle task if the queue is
  empty), no task is lost or duplicated, and no task's state changes.
\<close>

theorem schedule_correct:
  assumes "rq_inv s q L"
  shows "\<exists>s'. schedule s = Ret s' \<and> rq_inv s' (tl (requeue s q)) L \<and>
    CurrentTask s' = (case requeue s q of [] \<Rightarrow> idle_task s | t # _ \<Rightarrow> t) \<and>
    (\<forall>t. tstate (tasks s' t) = tstate (tasks s t))"
  using schedule_ok [OF assms] by blast

theorem schedule_correct_witness:
  "\<exists>s'. schedule sample_sched = Ret s' \<and> CurrentTask s' = 32 \<and> rq_inv s' [] {16, 32, 48}"
  using schedule_correct [OF sample_sched_inv] by (auto simp: requeue_def sample_sched_def)

text \<open>
  C9: the run queue invariant holds in every reachable state: the queue contains exactly the runnable
  tasks other than the current and the idle one, each once, and \<^verbatim>\<open>task_num\<close> counts them.
\<close>

theorem sched_invariant:
  assumes "sched_reach L s0 s" and "rq_inv s0 q0 L"
  shows "\<exists>q. rq_inv s q L \<and> distinct q \<and> set q = ready s L \<and> task_num s = of_nat (length q)"
proof -
  have "\<exists>q. rq_inv s q L"
    using assms by (induction rule: sched_reach.induct) (auto dest: sched_step_inv)
  then obtain q where q: "rq_inv s q L" by blast
  have "set q = ready s L" "task_num s = of_nat (length q)" using q unfolding rq_inv_def by blast+
  then show ?thesis using q rq_distinct [OF q] by blast
qed

theorem sched_invariant_witness:
  "\<exists>s q. wakeupTask 48 sample_sched = Ret s \<and> rq_inv s q {16, 32, 48} \<and> set q = {32, 48}"
proof -
  obtain s where s: "wakeupTask 48 sample_sched = Ret s" "rq_inv s [32, 48] {16, 32, 48}"
    using wakeupTask_ok [OF sample_sched_inv, of 48] by (auto simp: sample_sched_def blank_task_def)
  have "sched_reach {16, 32, 48} sample_sched s"
    by (rule sched_reach.step [OF sched_reach.start sched_step.wake [OF _ s(1)]]) simp
  then obtain q where "rq_inv s q {16, 32, 48}" "set q = ready s {16, 32, 48}"
    using sched_invariant [OF _ sample_sched_inv] by blast
  moreover have "ready s {16, 32, 48} = {32, 48}" using s(2) by (auto simp: rq_inv_def)
  ultimately show ?thesis using s(1) by blast
qed

text \<open>
  C10: no runnable task starves.  The task at position \<open>k\<close> of the run queue is running after at most
  \<open>k + 1\<close> timer interrupts, since every time slice is one tick long.
\<close>

theorem timer_round_robin:
  assumes "rq_inv s q L" and "k < length q"
  shows "\<exists>s'. ticks (Suc k) s = Ret s' \<and> CurrentTask s' = q ! k"
  by (rule ticks_run [OF assms])

theorem timer_round_robin_witness: "\<exists>s'. ticks 1 sample_sched = Ret s' \<and> CurrentTask s' = 32"
  using timer_round_robin [OF sample_sched_inv, of 0] by simp

text \<open>
  \<^verbatim>\<open>wakeupTask\<close> makes the task runnable and puts it at the tail of the queue once, unless it is
  runnable already, current or idle; waking a zombie is a panic.
\<close>

theorem wakeupTask_correct:
  assumes "rq_inv s q L" and "t \<in> L"
  shows "if tstate (tasks s t) = TASK_ZOMBIE then wakeupTask t s = Panic ''try to wake up zombie task!''
    else \<exists>s'. wakeupTask t s = Ret s' \<and> tstate (tasks s' t) = TASK_RUNNABLE \<and>
      rq_inv s' (if t \<in> set q \<or> t = CurrentTask s \<or> t = idle_task s then q else q @ [t]) L"
proof (cases "tstate (tasks s t) = TASK_ZOMBIE")
  case True
  then show ?thesis by (simp add: wakeupTask_def)
next
  case False
  have "t \<in> set q \<longleftrightarrow> t \<noteq> CurrentTask s \<and> t \<noteq> idle_task s \<and> tstate (tasks s t) = TASK_RUNNABLE"
    using assms by (auto simp: rq_inv_def ready_def)
  then have "(if tstate (tasks s t) \<noteq> TASK_RUNNABLE \<and> t \<noteq> CurrentTask s \<and> t \<noteq> idle_task s then q @ [t] else q) =
      (if t \<in> set q \<or> t = CurrentTask s \<or> t = idle_task s then q else q @ [t])"
    by auto
  then show ?thesis using wakeupTask_ok [OF assms False] False by auto
qed

theorem wakeupTask_correct_witness:
  "\<exists>s'. wakeupTask 48 sample_sched = Ret s' \<and> rq_inv s' [32, 48] {16, 32, 48}"
  using wakeupTask_correct [OF sample_sched_inv, of 48] by (auto simp: sample_sched_def blank_task_def)

end
