(* ===== verification/Sync.thy ===== *)
theory Sync
  imports Sched
begin

text \<open>
  Wait queues and semaphores: \<^verbatim>\<open>kern/krnl/sync/wait.c\<close> and \<^verbatim>\<open>kern/krnl/sync/sem.c\<close>.  A wait queue is
  the intrusive list of the source; its nodes are the addresses of \<^verbatim>\<open>Wait_t\<close> objects, the head
  included.  \<^verbatim>\<open>down\<close> calls \<^verbatim>\<open>schedule\<close> in the middle: \<open>down_enter\<close> is the part up to and including that
  call, \<open>down_resume\<close> what the task executes once it has the processor again.  The debug output is
  left out.
\<close>

record wait =
  wt_task :: ptr
  wt_flags :: u32

record semaphore =
  sem_value :: int

record ksync = ksched +
  waits :: "ptr \<Rightarrow> wait"
  WaitLinks :: "ptr list_heap"
  sems :: "ptr \<Rightarrow> semaphore"

definition upd_wait :: "ptr \<Rightarrow> (wait \<Rightarrow> wait) \<Rightarrow> 'a ksync_scheme \<Rightarrow> 'a ksync_scheme" where
  "upd_wait w f s = s\<lparr>waits := (waits s)(w := f (waits s w))\<rparr>"

definition upd_sem :: "ptr \<Rightarrow> (semaphore \<Rightarrow> semaphore) \<Rightarrow> 'a ksync_scheme \<Rightarrow> 'a ksync_scheme" where
  "upd_sem sem f s = s\<lparr>sems := (sems s)(sem := f (sems s sem))\<rparr>"

section \<open>Wait queues\<close>

definition waitInit :: "ptr \<Rightarrow> ptr \<Rightarrow> 'a ksync_scheme \<Rightarrow> 'a ksync_scheme" where
  "waitInit w task s =
     (let s1 = upd_wait w (\<lambda>x. x\<lparr>wt_task := task, wt_flags := WT_INTERRUPTED\<rparr>) s
      in s1\<lparr>WaitLinks := initList w (WaitLinks s1)\<rparr>)"

definition waitlistInit :: "ptr \<Rightarrow> 'a ksync_scheme \<Rightarrow> 'a ksync_scheme" where
  "waitlistInit head s = s\<lparr>WaitLinks := initList head (WaitLinks s)\<rparr>"

definition waitlistAdd :: "ptr \<Rightarrow> ptr \<Rightarrow> 'a ksync_scheme \<Rightarrow> 'a ksync_scheme" where
  "waitlistAdd head elem s = s\<lparr>WaitLinks := listAddTail head elem (WaitLinks s)\<rparr>"

definition waitlistDel :: "ptr \<Rightarrow> ptr \<Rightarrow> 'a ksync_scheme \<Rightarrow> 'a ksync_scheme" where
  "waitlistDel head elem s = s\<lparr>WaitLinks := listDelInit elem (WaitLinks s)\<rparr>"

definition waitlistIsEmpty :: "ptr \<Rightarrow> 'a ksync_scheme \<Rightarrow> bool" where
  "waitlistIsEmpty head s = listIsEmpty (WaitLinks s) head"

definition waitlistIsInList :: "ptr \<Rightarrow> 'a ksync_scheme \<Rightarrow> bool" where
  "waitlistIsInList elem s = (\<not> listIsEmpty (WaitLinks s) elem)"

definition waitlistGetNext :: "ptr \<Rightarrow> ptr \<Rightarrow> 'a ksync_scheme \<Rightarrow> ptr" where
  "waitlistGetNext head elem s =
     (let lp = listGetNext (WaitLinks s) elem in if lp \<noteq> head then lp else NULL)"

definition waitlistGetPrev :: "ptr \<Rightarrow> ptr \<Rightarrow> 'a ksync_scheme \<Rightarrow> ptr" where
  "waitlistGetPrev head elem s =
     (let lp = listGetPrev (WaitLinks s) elem in if lp \<noteq> head then lp else NULL)"

definition waitlistGetFirst :: "ptr \<Rightarrow> 'a ksync_scheme \<Rightarrow> ptr" where
  "waitlistGetFirst head s =
     (let lp = listGetNext (WaitLinks s) head in if lp \<noteq> head then lp else NULL)"

definition waitlistGetLast :: "ptr \<Rightarrow> 'a ksync_scheme \<Rightarrow> ptr" where
  "waitlistGetLast head s =
     (let lp = listGetPrev (WaitLinks s) head in if lp \<noteq> head then lp else NULL)"

definition wakeupWait :: "ptr \<Rightarrow> ptr \<Rightarrow> u32 \<Rightarrow> bool \<Rightarrow> 'a ksync_scheme \<Rightarrow> 'a ksync_scheme kres" where
  "wakeupWait head w wakeup_flags del s =
     (let s1 = (if del then waitlistDel head w s else s);
          s2 = upd_wait w (\<lambda>x. x\<lparr>wt_flags := wakeup_flags\<rparr>) s1
      in wakeupTask (wt_task (waits s2 w)) s2)"

definition wakeupFirst :: "ptr \<Rightarrow> u32 \<Rightarrow> bool \<Rightarrow> 'a ksync_scheme \<Rightarrow> 'a ksync_scheme kres" where
  "wakeupFirst head wakeup_flags del s =
     (let w = waitlistGetFirst head s
      in if w \<noteq> NULL then wakeupWait head w wakeup_flags del s else Ret s)"

definition wakeupAll_body ::
    "ptr \<Rightarrow> u32 \<Rightarrow> bool \<Rightarrow> ptr \<times> 'a ksync_scheme \<Rightarrow> (ptr \<times> 'a ksync_scheme + 'a ksync_scheme) kres" where
  "wakeupAll_body head wakeup_flags del = (\<lambda>(w, s).
     kbind (wakeupWait head w wakeup_flags del s) (\<lambda>s1.
       let w' = (if del then waitlistGetFirst head s1 else waitlistGetNext head w s1)
       in Ret (if w' \<noteq> NULL then Inl (w', s1) else Inr s1)))"

definition wakeupAll :: "ptr \<Rightarrow> u32 \<Rightarrow> bool \<Rightarrow> 'a ksync_scheme \<Rightarrow> 'a ksync_scheme kres" where
  "wakeupAll head wakeup_flags del s =
     (let w = waitlistGetFirst head s
      in if w \<noteq> NULL then kwhile (wakeupAll_body head wakeup_flags del) (w, s) else Ret s)"

definition waitAddCurrent :: "ptr \<Rightarrow> ptr \<Rightarrow> u32 \<Rightarrow> 'a ksync_scheme \<Rightarrow> 'a ksync_scheme kres" where
  "waitAddCurrent head w wstate s =
     kassert (CurrentTask s \<noteq> NULL) ''CurrentTask is NULL!''
       (let s1 = waitInit w (CurrentTask s) s;
            s2 = upd_task (CurrentTask s1) (\<lambda>t. t\<lparr>tstate := TASK_SLEEPING\<rparr>) s1;
            s3 = upd_task (CurrentTask s2) (\<lambda>t. t\<lparr>wait_state := wstate\<rparr>) s2
        in Ret (waitlistAdd head w s3))"

definition waitDelCurrent :: "ptr \<Rightarrow> ptr \<Rightarrow> 'a ksync_scheme \<Rightarrow> 'a ksync_scheme" where
  "waitDelCurrent head w s = (if waitlistIsInList w s then waitlistDel head w s else s)"

section \<open>Semaphores\<close>

text \<open>The wait queue of a semaphore follows its 32-bit value.\<close>

definition wait_queue :: "ptr \<Rightarrow> ptr" where
  "wait_queue sem = sem + 4"

definition initSem :: "ptr \<Rightarrow> int \<Rightarrow> 'a ksync_scheme \<Rightarrow> 'a ksync_scheme" where
  "initSem sem val s = waitlistInit (wait_queue sem) (upd_sem sem (\<lambda>x. x\<lparr>sem_value := val\<rparr>) s)"

text \<open>
  \<open>w\<close> is the address of the local \<^verbatim>\<open>__w\<close>.  The result is the value \<^verbatim>\<open>down\<close> returns at once, or \<open>None\<close>
  when it called \<^verbatim>\<open>schedule\<close>.
\<close>

definition down_enter :: "ptr \<Rightarrow> ptr \<Rightarrow> u32 \<Rightarrow> 'a ksync_scheme \<Rightarrow> (u32 option \<times> 'a ksync_scheme) kres" where
  "down_enter sem w wstate s =
     (if 0 < sem_value (sems s sem)
      then Ret (Some 0, upd_sem sem (\<lambda>x. x\<lparr>sem_value := sem_value x - 1\<rparr>) s)
      else kbind (waitAddCurrent (wait_queue sem) w wstate s) (\<lambda>s1.
           kbind (schedule s1) (\<lambda>s2. Ret (None, s2))))"

definition down_resume :: "ptr \<Rightarrow> ptr \<Rightarrow> u32 \<Rightarrow> 'a ksync_scheme \<Rightarrow> u32 \<times> 'a ksync_scheme" where
  "down_resume sem w wstate s =
     (let s1 = waitDelCurrent (wait_queue sem) w s
      in (if wt_flags (waits s1 w) \<noteq> wstate then wt_flags (waits s1 w) else 0, s1))"

definition up :: "ptr \<Rightarrow> u32 \<Rightarrow> 'a ksync_scheme \<Rightarrow> 'a ksync_scheme kres" where
  "up sem wstate s =
     (let w = waitlistGetFirst (wait_queue sem) s
      in if w = NULL then Ret (upd_sem sem (\<lambda>x. x\<lparr>sem_value := sem_value x + 1\<rparr>) s)
         else wakeupWait (wait_queue sem) w wstate True s)"

definition acquireSem_enter :: "ptr \<Rightarrow> ptr \<Rightarrow> 'a ksync_scheme \<Rightarrow> (bool \<times> 'a ksync_scheme) kres" where
  "acquireSem_enter sem w s =
     kbind (down_enter sem w WT_KSEM s) (\<lambda>(flag, s1).
       case flag of
         None \<Rightarrow> Ret (False, s1)
       | Some f \<Rightarrow> if f \<noteq> 0 then Panic ''Sem flag is not 0!'' else Ret (True, s1))"

definition acquireSem_resume :: "ptr \<Rightarrow> ptr \<Rightarrow> 'a ksync_scheme \<Rightarrow> 'a ksync_scheme kres" where
  "acquireSem_resume sem w s =
     (let (flag, s1) = down_resume sem w WT_KSEM s
      in if flag \<noteq> 0 then Panic ''Sem flag is not 0!'' else Ret s1)"

definition releaseSem :: "ptr \<Rightarrow> 'a ksync_scheme \<Rightarrow> 'a ksync_scheme kres" where
  "releaseSem sem s = up sem WT_KSEM s"

text \<open>
  For code that takes a lock: the semaphore is taken when it is free, otherwise the task blocks
  inside the call.
\<close>

definition acquireSem :: "ptr \<Rightarrow> 'a ksync_scheme \<Rightarrow> 'a ksync_scheme kres" where
  "acquireSem sem s =
     (if 0 < sem_value (sems s sem)
      then Ret (upd_sem sem (\<lambda>x. x\<lparr>sem_value := sem_value x - 1\<rparr>) s) else Block)"

lemma acquireSem_enter_free:
  "0 < sem_value (sems s sem) \<Longrightarrow> acquireSem sem s = Ret s' \<longleftrightarrow> acquireSem_enter sem w s = Ret (True, s')"
  by (simp add: acquireSem_def acquireSem_enter_def down_enter_def)

section \<open>Links of nodes outside a queue\<close>

lemma dlist_prev_in: "dlist h l xs \<Longrightarrow> e \<in> insert l (set xs) \<Longrightarrow> lp_prev h e \<in> insert l (set xs)"
proof -
  assume d: "dlist h l xs" and e: "e \<in> insert l (set xs)"
  show ?thesis
  proof (cases "e = l")
    case True
    then show ?thesis using dlist_prev [OF d] last_in_set [of "l # xs"] by (simp add: listGetPrev_def)
  next
    case False
    then obtain ys zs where xs: "xs = ys @ e # zs" using e by (auto dest: split_list)
    then have "linked h l ys e" using d by (simp add: dlist_def linked_append)
    then have "lp_prev h e = last (l # ys)" by (rule linked_prev)
    then show ?thesis using xs last_in_set [of "l # ys"] by auto
  qed
qed

lemma next_outside_add:
  assumes "dlist h l xs" and "p \<notin> insert l (set xs)" and "p \<noteq> e"
  shows "lp_next (listAddTail l e h) p = lp_next h p"
proof -
  have "lp_prev h l \<in> insert l (set xs)" using dlist_prev_in [OF assms(1)] by blast
  then have "p \<noteq> lp_prev h l" using assms(2) by blast
  then show ?thesis using assms by (simp add: listAddTail_def listAddBefore_def list_add_raw_def Let_def)
qed

lemma next_outside_del:
  assumes "dlist h l xs" and "e \<in> set xs" and "p \<notin> insert l (set xs)"
  shows "lp_next (listDelInit e h) p = lp_next h p"
proof -
  have "lp_prev h e \<in> insert l (set xs)" using dlist_prev_in [OF assms(1)] assms(2) by blast
  then have "p \<noteq> lp_prev h e" "p \<noteq> e" using assms(2,3) by blast+
  then show ?thesis using assms by (simp add: listDelInit_def initList_def listDel_def list_del_raw_def Let_def)
qed

lemma next_del_self: "lp_next (listDelInit e h) e = e"
  by (simp add: listDelInit_def initList_def)

section \<open>The semaphore invariant\<close>

text \<open>
  \<open>N\<close> is the initial value, \<open>H\<close> the tasks that hold the semaphore, \<open>q\<close> the waiting \<^verbatim>\<open>Wait_t\<close> objects in
  order, and \<open>G\<close> those whose task has been handed the semaphore but has not run since.
\<close>

definition waiting_ok :: "'a ksync_scheme \<Rightarrow> ptr set \<Rightarrow> ptr set \<Rightarrow> ptr \<Rightarrow> bool" where
  "waiting_ok s H L w \<longleftrightarrow>
     (let t = wt_task (waits s w)
      in w \<noteq> NULL \<and> t \<in> L \<and> t \<notin> H \<and> t \<noteq> CurrentTask s \<and> t \<noteq> idle_task s \<and> tstate (tasks s t) = TASK_SLEEPING)"

definition granted_ok :: "'a ksync_scheme \<Rightarrow> ptr set \<Rightarrow> ptr \<Rightarrow> bool" where
  "granted_ok s H w \<longleftrightarrow>
     wt_flags (waits s w) = WT_KSEM \<and> wt_task (waits s w) \<in> H \<and> listIsEmpty (WaitLinks s) w"

definition sem_inv :: "'a ksync_scheme \<Rightarrow> ptr \<Rightarrow> int \<Rightarrow> ptr set \<Rightarrow> ptr list \<Rightarrow> ptr set \<Rightarrow> ptr set \<Rightarrow> bool" where
  "sem_inv s sem N H q G L \<longleftrightarrow>
     dlist (WaitLinks s) (wait_queue sem) q \<and>
     0 \<le> sem_value (sems s sem) \<and> sem_value (sems s sem) + int (card H) = N \<and> finite H \<and>
     (q \<noteq> [] \<longrightarrow> sem_value (sems s sem) = 0) \<and>
     (\<forall>w \<in> set q. waiting_ok s H L w) \<and> inj_on (\<lambda>w. wt_task (waits s w)) (set q) \<and>
     (\<forall>w \<in> G. w \<notin> insert (wait_queue sem) (set q) \<and> granted_ok s H w) \<and>
     (\<exists>rq. rq_inv s rq L)"

lemma first_of_queue:
  assumes "dlist (WaitLinks s) h q" and "\<forall>w \<in> set q. w \<noteq> NULL"
  shows "waitlistGetFirst h s = (case q of [] \<Rightarrow> NULL | w # _ \<Rightarrow> w)"
  using ll.rep_next [OF assms(1)] ll.rep_distinct [OF assms(1)] assms(2)
  by (cases q) (auto simp: waitlistGetFirst_def)

lemma ksync_more:
  fixes s t :: "'a ksync_scheme"
  assumes "ksched.more t = ksched.more s"
  shows "waits t = waits s" "WaitLinks t = WaitLinks s" "sems t = sems s"
  using assms by (cases s, cases t, simp)+

lemmas schedule_ksync = ksync_more [OF schedule_more]
lemmas wakeupTask_ksync = ksync_more [OF wakeupTask_more]
lemmas timer_ksync = ksync_more [OF timer_more]

section \<open>Operations under the invariant\<close>

lemma ksync_upd_sel [simp]:
  "tasks (upd_sem sem f s) = tasks s" "CurrentTask (upd_sem sem f s) = CurrentTask s"
  "idle_task (upd_sem sem f s) = idle_task s" "waits (upd_sem sem f s) = waits s"
  "WaitLinks (upd_sem sem f s) = WaitLinks s" "sems (upd_sem sem f s) = (sems s)(sem := f (sems s sem))"
  "tasks (upd_wait w g s) = tasks s" "CurrentTask (upd_wait w g s) = CurrentTask s"
  "idle_task (upd_wait w g s) = idle_task s" "waits (upd_wait w g s) = (waits s)(w := g (waits s w))"
  "WaitLinks (upd_wait w g s) = WaitLinks s" "sems (upd_wait w g s) = sems s"
  "rq_inv (upd_sem sem f s) rq L = rq_inv s rq L" "rq_inv (upd_wait w g s) rq L = rq_inv s rq L"
  "rq_inv (s\<lparr>WaitLinks := h\<rparr>) rq L = rq_inv s rq L"
  by (simp_all add: upd_sem_def upd_wait_def rq_inv_def ready_def)

lemma upd_task_ksync [simp]:
  fixes s :: "'a ksync_scheme"
  shows "waits (upd_task t f s) = waits s" "WaitLinks (upd_task t f s) = WaitLinks s" "sems (upd_task t f s) = sems s"
  using ksync_more [OF task_more(1)] by blast+

lemma sem_acquire_fast:
  assumes inv: "sem_inv s sem N H q G L" and c: "CurrentTask s \<notin> H"
    and run: "acquireSem_enter sem w s = Ret (True, s')"
  shows "sem_inv s' sem N (insert (CurrentTask s) H) q G L"
proof -
  have v: "0 < sem_value (sems s sem)" and s': "s' = upd_sem sem (\<lambda>x. x\<lparr>sem_value := sem_value x - 1\<rparr>) s"
    using run by (auto simp: acquireSem_enter_def down_enter_def kbind_eq_Ret split: if_splits option.splits)
  have q: "q = []" using inv v by (auto simp: sem_inv_def)
  have "finite H" using inv by (simp add: sem_inv_def)
  then have "int (card (insert (CurrentTask s) H)) = int (card H) + 1" using c by simp
  then show ?thesis
    using inv v unfolding sem_inv_def s' q by (auto simp: granted_ok_def)
qed

lemma sem_acquire_block:
  assumes inv: "sem_inv s sem N H q G L" and c: "CurrentTask s \<notin> H" "CurrentTask s \<noteq> idle_task s"
    and w: "w \<noteq> NULL" "w \<noteq> wait_queue sem" "w \<notin> set q" "w \<notin> G"
    and v: "\<not> 0 < sem_value (sems s sem)"
  shows "\<exists>s'. acquireSem_enter sem w s = Ret (False, s') \<and> sem_inv s' sem N H (q @ [w]) G L"
proof -
  let ?c = "CurrentTask s" and ?h = "wait_queue sem"
  obtain rq where rq: "rq_inv s rq L" using inv by (auto simp: sem_inv_def)
  have cL: "?c \<in> L" "?c \<noteq> NULL" using rq unfolding rq_inv_def by metis+
  define s1 where "s1 = waitInit w ?c s"
  define s2 where "s2 = upd_task ?c (\<lambda>t. t\<lparr>tstate := TASK_SLEEPING\<rparr>) s1"
  define s3 where "s3 = upd_task ?c (\<lambda>t. t\<lparr>wait_state := WT_KSEM\<rparr>) s2"
  define s4 where "s4 = waitlistAdd ?h w s3"
  have sel1: "CurrentTask s1 = ?c" "idle_task s1 = idle_task s" "tasks s1 = tasks s" "sems s1 = sems s"
    "waits s1 = (waits s)(w := (waits s w)\<lparr>wt_task := ?c, wt_flags := WT_INTERRUPTED\<rparr>)"
    "WaitLinks s1 = initList w (WaitLinks s)"
    by (simp_all add: s1_def waitInit_def Let_def)
  have r1: "rq_inv s1 rq L" using rq by (simp add: s1_def waitInit_def Let_def)
  have ts: "time_slice (tasks s1 ?c) \<le> 1" using r1 cL by (simp add: rq_inv_def)
  have r2: "rq_inv s2 rq L"
    unfolding s2_def using rq_inv_current [OF r1, of "\<lambda>t. t\<lparr>tstate := TASK_SLEEPING\<rparr>"] ts sel1 by simp
  have "time_slice (tasks s2 ?c) \<le> 1" using ts by (simp add: s2_def)
  then have r3: "rq_inv s3 rq L"
    unfolding s3_def using rq_inv_current [OF r2, of "\<lambda>t. t\<lparr>wait_state := WT_KSEM\<rparr>"] sel1 by (simp add: s2_def)
  have r4: "rq_inv s4 rq L" using r3 by (simp add: s4_def waitlistAdd_def)
  have add: "waitAddCurrent ?h w WT_KSEM s = Ret s4"
    using cL sel1 by (simp add: waitAddCurrent_def Let_def s4_def s3_def s2_def s1_def)
  obtain s5 where s5: "schedule s4 = Ret s5" "rq_inv s5 (tl (requeue s4 rq)) L"
    "CurrentTask s5 = (case requeue s4 rq of [] \<Rightarrow> idle_task s4 | t # _ \<Rightarrow> t)" "idle_task s5 = idle_task s4"
    "\<forall>t. tstate (tasks s5 t) = tstate (tasks s4 t)"
    using schedule_ok [OF r4] by blast
  have cur4: "CurrentTask s4 = ?c" "idle_task s4 = idle_task s"
    using sel1 by (simp_all add: s4_def waitlistAdd_def s3_def s2_def)
  have st4: "tstate (tasks s4 t) = (if t = ?c then TASK_SLEEPING else tstate (tasks s t))" for t
    using sel1 by (simp add: s4_def waitlistAdd_def s3_def s2_def)
  have "requeue s4 rq = rq" using st4 cur4 by (simp add: requeue_def)
  then have cur5: "CurrentTask s5 = idle_task s \<or> CurrentTask s5 \<in> set rq"
    using s5(3) cur4 by (cases rq) auto
  have cur5': "CurrentTask s5 = idle_task s \<or> tstate (tasks s5 (CurrentTask s5)) = TASK_RUNNABLE"
  proof -
    have "set rq = ready s4 L" using r4 by (simp add: rq_inv_def)
    then show ?thesis using cur5 s5(5) by (auto simp: ready_def)
  qed
  note k5 = schedule_ksync [OF s5(1)]
  have l5: "WaitLinks s5 = listAddTail ?h w (initList w (WaitLinks s))" "sems s5 = sems s"
    "waits s5 = (waits s)(w := (waits s w)\<lparr>wt_task := ?c, wt_flags := WT_INTERRUPTED\<rparr>)"
    using k5 sel1 by (simp_all add: s4_def waitlistAdd_def s3_def s2_def)
  have d0: "dlist (initList w (WaitLinks s)) ?h q"
    using inv w by (intro dlist_initList_other) (auto simp: sem_inv_def)
  have d5: "dlist (WaitLinks s5) ?h (q @ [w])"
    unfolding l5 using ll.rep_add_tail [OF d0 w(2) w(3)] .
  have st5: "tstate (tasks s5 t) = (if t = ?c then TASK_SLEEPING else tstate (tasks s t))" for t
    using s5(5) st4 by simp
  have wk: "waiting_ok s H L x" if "x \<in> set q" for x using inv that by (simp add: sem_inv_def)
  have "waiting_ok s5 H L x" if x: "x \<in> set (q @ [w])" for x
  proof (cases "x = w")
    case True
    have "?c \<noteq> CurrentTask s5" using cur5' c(2) st5 [of ?c] by auto
    then show ?thesis using True w cL c st5 s5(4) cur4 by (simp add: waiting_ok_def l5)
  next
    case False
    then have xq: "x \<in> set q" using x by simp
    let ?t = "wt_task (waits s x)"
    have t: "x \<noteq> NULL" "?t \<in> L" "?t \<notin> H" "?t \<noteq> ?c" "?t \<noteq> idle_task s" "tstate (tasks s ?t) = TASK_SLEEPING"
      using wk [OF xq] by (simp_all add: waiting_ok_def Let_def)
    have "tstate (tasks s5 ?t) = TASK_SLEEPING" using st5 t by simp
    moreover from this have "?t \<noteq> CurrentTask s5" using cur5' t(5) by auto
    ultimately show ?thesis using t False s5(4) cur4 by (simp add: waiting_ok_def l5)
  qed
  moreover have "inj_on (\<lambda>x. wt_task (waits s5 x)) (set (q @ [w]))"
  proof -
    have "inj_on (\<lambda>x. wt_task (waits s x)) (set q)" using inv by (simp add: sem_inv_def)
    moreover have "?c \<notin> (\<lambda>x. wt_task (waits s x)) ` set q"
    proof
      assume "?c \<in> (\<lambda>x. wt_task (waits s x)) ` set q"
      then obtain x where "x \<in> set q" "?c = wt_task (waits s x)" by blast
      then show False using wk [of x] by (simp add: waiting_ok_def Let_def)
    qed
    moreover have "inj_on (\<lambda>x. wt_task (waits s5 x)) (set q) = inj_on (\<lambda>x. wt_task (waits s x)) (set q)"
      using w(3) by (intro inj_on_cong) (auto simp: l5)
    moreover have "(\<lambda>x. wt_task (waits s5 x)) ` set q = (\<lambda>x. wt_task (waits s x)) ` set q"
      using w(3) by (intro image_cong) (auto simp: l5)
    ultimately show ?thesis using w(3) by (simp add: l5)
  qed
  moreover have "x \<notin> insert ?h (set (q @ [w])) \<and> granted_ok s5 H x" if x: "x \<in> G" for x
  proof -
    have g: "x \<notin> insert ?h (set q)" "granted_ok s H x" using inv x by (auto simp: sem_inv_def)
    have xw: "x \<noteq> w" using w(4) x by auto
    have "lp_next (WaitLinks s5) x = lp_next (initList w (WaitLinks s)) x"
      unfolding l5 by (rule next_outside_add [OF d0 g(1) xw])
    then show ?thesis using g xw by (auto simp: granted_ok_def listIsEmpty_def l5 initList_def)
  qed
  ultimately have "sem_inv s5 sem N H (q @ [w]) G L"
    using inv d5 s5(2) v unfolding sem_inv_def l5 by auto
  moreover have "acquireSem_enter sem w s = Ret (False, s5)"
    using add s5(1) v by (simp add: acquireSem_enter_def down_enter_def)
  ultimately show ?thesis by blast
qed

lemma sem_release_free:
  assumes inv: "sem_inv s sem N H [] G L" and c: "CurrentTask s \<in> H"
    and g: "\<forall>w \<in> G. wt_task (waits s w) \<noteq> CurrentTask s"
  shows "\<exists>s'. releaseSem sem s = Ret s' \<and> sem_inv s' sem N (H - {CurrentTask s}) [] G L"
proof -
  have d: "dlist (WaitLinks s) (wait_queue sem) []" "finite H" using inv by (simp_all add: sem_inv_def)
  let ?s' = "upd_sem sem (\<lambda>x. x\<lparr>sem_value := sem_value x + 1\<rparr>) s"
  have run: "releaseSem sem s = Ret ?s'"
    using first_of_queue [OF d(1)] by (simp add: releaseSem_def up_def)
  have "Suc (card (H - {CurrentTask s})) = card H" using card_Suc_Diff1 [OF d(2) c] .
  then have "int (card (H - {CurrentTask s})) = int (card H) - 1" by linarith
  moreover have "granted_ok ?s' (H - {CurrentTask s}) w" if "w \<in> G" for w
    using inv g that by (simp add: sem_inv_def granted_ok_def)
  ultimately have "sem_inv ?s' sem N (H - {CurrentTask s}) [] G L"
    using inv by (simp add: sem_inv_def)
  then show ?thesis using run by blast
qed

lemma sem_release_handoff:
  assumes inv: "sem_inv s sem N H (w # r) G L" and c: "CurrentTask s \<in> H"
    and g: "\<forall>w \<in> G. wt_task (waits s w) \<noteq> CurrentTask s"
  shows "\<exists>s'. releaseSem sem s = Ret s' \<and>
    sem_inv s' sem N (insert (wt_task (waits s w)) (H - {CurrentTask s})) r (insert w G) L \<and>
    tstate (tasks s' (wt_task (waits s w))) = TASK_RUNNABLE"
proof -
  let ?t = "wt_task (waits s w)" and ?h = "wait_queue sem" and ?c = "CurrentTask s"
  let ?H = "insert ?t (H - {?c})"
  have d: "dlist (WaitLinks s) ?h (w # r)" and fin: "finite H" and inj: "inj_on (\<lambda>w. wt_task (waits s w)) (set (w # r))"
    and v: "sem_value (sems s sem) = 0" "sem_value (sems s sem) + int (card H) = N"
    using inv by (simp_all add: sem_inv_def)
  have wk: "\<And>x. x \<in> set (w # r) \<Longrightarrow> waiting_ok s H L x" and gr: "\<And>x. x \<in> G \<Longrightarrow> x \<notin> insert ?h (set (w # r)) \<and> granted_ok s H x"
    using inv unfolding sem_inv_def by blast+
  obtain rq where rq: "rq_inv s rq L" using inv by (auto simp: sem_inv_def)
  have t: "w \<noteq> NULL" "?t \<in> L" "?t \<notin> H" "?t \<noteq> ?c" "?t \<noteq> idle_task s" "tstate (tasks s ?t) = TASK_SLEEPING"
    using wk [of w] by (simp_all add: waiting_ok_def Let_def)
  have nul: "\<forall>x \<in> set (w # r). x \<noteq> NULL" using wk by (auto simp: waiting_ok_def Let_def)
  define s2 where "s2 = upd_wait w (\<lambda>x. x\<lparr>wt_flags := WT_KSEM\<rparr>) (waitlistDel ?h w s)"
  have sel2: "tasks s2 = tasks s" "CurrentTask s2 = ?c" "idle_task s2 = idle_task s" "sems s2 = sems s"
    "WaitLinks s2 = listDelInit w (WaitLinks s)" "waits s2 = (waits s)(w := (waits s w)\<lparr>wt_flags := WT_KSEM\<rparr>)"
    by (simp_all add: s2_def waitlistDel_def)
  have r2: "rq_inv s2 rq L" using rq by (simp add: s2_def waitlistDel_def)
  obtain s' q' where s': "wakeupTask ?t s2 = Ret s'" "rq_inv s' q' L" "CurrentTask s' = ?c" "idle_task s' = idle_task s"
    "\<forall>x. tstate (tasks s' x) = (if x = ?t then TASK_RUNNABLE else tstate (tasks s x))"
    using wakeupTask_ok [OF r2 t(2)] t sel2 by auto
  have run: "releaseSem sem s = Ret s'"
    using first_of_queue [OF d nul] t(1) s'(1)
    by (simp add: releaseSem_def up_def wakeupWait_def Let_def s2_def waitlistDel_def)
  note k = wakeupTask_ksync [OF s'(1)]
  have l': "WaitLinks s' = listDelInit w (WaitLinks s)" "sems s' = sems s"
    "waits s' = (waits s)(w := (waits s w)\<lparr>wt_flags := WT_KSEM\<rparr>)"
    using k sel2 by simp_all
  have wr: "w \<notin> set r" "w \<noteq> ?h" using ll.rep_distinct [OF d] by auto
  have "dlist (WaitLinks s') ?h r" unfolding l' using ll.rep_del [OF d, of w] by simp
  moreover have "waiting_ok s' ?H L x" if x: "x \<in> set r" for x
  proof -
    have "wt_task (waits s x) \<noteq> ?t" using inj x wr(1) by (auto simp: inj_on_def)
    then show ?thesis using wk [of x] x wr(1) s' by (auto simp: waiting_ok_def Let_def l')
  qed
  moreover have "inj_on (\<lambda>x. wt_task (waits s' x)) (set r)"
  proof -
    have "inj_on (\<lambda>x. wt_task (waits s' x)) (set r) = inj_on (\<lambda>x. wt_task (waits s x)) (set r)"
      by (intro inj_on_cong) (simp add: l')
    then show ?thesis using inj by (simp add: inj_on_insert)
  qed
  moreover have "x \<notin> insert ?h (set r) \<and> granted_ok s' ?H x" if x: "x \<in> insert w G" for x
  proof (cases "x = w")
    case True
    then show ?thesis using wr by (simp add: granted_ok_def l' listIsEmpty_def next_del_self)
  next
    case False
    then have xG: "x \<in> G" using x by simp
    have "lp_next (WaitLinks s') x = lp_next (WaitLinks s) x"
      unfolding l' using gr [OF xG] by (intro next_outside_del [OF d]) simp_all
    then show ?thesis using gr [OF xG] g xG False by (auto simp: granted_ok_def l' listIsEmpty_def)
  qed
  moreover have "int (card ?H) = int (card H)"
  proof -
    have "card ?H = Suc (card (H - {?c}))" using fin t(3) by simp
    also have "\<dots> = card H" by (rule card_Suc_Diff1 [OF fin c])
    finally show ?thesis by simp
  qed
  ultimately have "sem_inv s' sem N ?H r (insert w G) L"
    using v fin s'(2) unfolding sem_inv_def l'(2) by auto
  then show ?thesis using run s'(5) by auto
qed

lemma sem_resume:
  assumes inv: "sem_inv s sem N H q G L" and w: "w \<in> G"
  shows "acquireSem_resume sem w s = Ret s" and "sem_inv s sem N H q (G - {w}) L"
proof -
  have "granted_ok s H w" using inv w by (simp add: sem_inv_def)
  then show "acquireSem_resume sem w s = Ret s"
    by (simp add: acquireSem_resume_def down_resume_def waitDelCurrent_def waitlistIsInList_def granted_ok_def)
  show "sem_inv s sem N H q (G - {w}) L" using inv by (simp add: sem_inv_def)
qed

lemma sem_preempt:
  assumes inv: "sem_inv s sem N H q G L" and run: "timerCallBack s = Ret s'"
  shows "sem_inv s' sem N H q G L"
proof -
  obtain rq where rq: "rq_inv s rq L" using inv by (auto simp: sem_inv_def)
  note k = timer_ksync [OF run]
  obtain rq' where rq': "rq_inv s' rq' L" "CurrentTask s' = (case requeue s rq of [] \<Rightarrow> idle_task s | t # _ \<Rightarrow> t)"
    "idle_task s' = idle_task s" "\<forall>t. tstate (tasks s' t) = tstate (tasks s t)"
    using timer_ok [OF rq] run by auto
  have "CurrentTask s' = idle_task s \<or> tstate (tasks s (CurrentTask s')) = TASK_RUNNABLE"
  proof (cases "requeue s rq")
    case (Cons t ts)
    have "set (requeue s rq) \<subseteq> set rq \<union> (if CurrentTask s \<noteq> idle_task s \<and> tstate (tasks s (CurrentTask s)) = TASK_RUNNABLE then {CurrentTask s} else {})"
      by (auto simp: requeue_def)
    moreover have "set rq = ready s L" using rq by (simp add: rq_inv_def)
    ultimately have "t \<in> ready s L \<or> tstate (tasks s t) = TASK_RUNNABLE" using Cons by (auto split: if_splits)
    then show ?thesis using rq'(2) Cons by (auto simp: ready_def)
  qed (simp add: rq'(2))
  then have "waiting_ok s' H L w" if "waiting_ok s H L w" for w
    using that rq'(3,4) by (auto simp: waiting_ok_def Let_def k)
  then show ?thesis
    using inv rq'(1) unfolding sem_inv_def by (auto simp: k granted_ok_def)
qed

section \<open>Executions\<close>

text \<open>
  A state of an execution carries, beside the machine, the tasks \<open>H\<close> that hold the semaphore, the
  wait queue \<open>q\<close> and the granted \<^verbatim>\<open>Wait_t\<close> objects \<open>G\<close>.  A task takes the semaphore at once or blocks
  with a \<^verbatim>\<open>Wait_t\<close> on its own stack, a holder releases it, a task that was handed the semaphore comes
  back from \<^verbatim>\<open>schedule\<close>, and the timer interrupts.
\<close>

type_synonym 'a sem_state = "'a ksync_scheme \<times> ptr set \<times> ptr list \<times> ptr set"

inductive sem_step :: "ptr \<Rightarrow> 'a sem_state \<Rightarrow> 'a sem_state \<Rightarrow> bool" for sem where
  fast: "CurrentTask s \<notin> H \<Longrightarrow> acquireSem_enter sem w s = Ret (True, s') \<Longrightarrow>
    sem_step sem (s, H, q, G) (s', insert (CurrentTask s) H, q, G)"
| block: "CurrentTask s \<notin> H \<Longrightarrow> CurrentTask s \<noteq> idle_task s \<Longrightarrow>
    w \<noteq> NULL \<Longrightarrow> w \<notin> insert (wait_queue sem) (set q \<union> G) \<Longrightarrow>
    acquireSem_enter sem w s = Ret (False, s') \<Longrightarrow> sem_step sem (s, H, q, G) (s', H, q @ [w], G)"
| release: "CurrentTask s \<in> H \<Longrightarrow> \<forall>w \<in> G. wt_task (waits s w) \<noteq> CurrentTask s \<Longrightarrow> releaseSem sem s = Ret s' \<Longrightarrow>
    sem_step sem (s, H, [], G) (s', H - {CurrentTask s}, [], G)"
| handoff: "CurrentTask s \<in> H \<Longrightarrow> \<forall>w \<in> G. wt_task (waits s w) \<noteq> CurrentTask s \<Longrightarrow> releaseSem sem s = Ret s' \<Longrightarrow>
    sem_step sem (s, H, w # r, G) (s', insert (wt_task (waits s w)) (H - {CurrentTask s}), r, insert w G)"
| resume: "w \<in> G \<Longrightarrow> wt_task (waits s w) = CurrentTask s \<Longrightarrow> acquireSem_resume sem w s = Ret s' \<Longrightarrow>
    sem_step sem (s, H, q, G) (s', H, q, G - {w})"
| preempt: "timerCallBack s = Ret s' \<Longrightarrow> sem_step sem (s, H, q, G) (s', H, q, G)"

inductive sem_reach :: "ptr \<Rightarrow> 'a sem_state \<Rightarrow> 'a sem_state \<Rightarrow> bool" for sem c0 where
  start: "sem_reach sem c0 c0"
| step: "sem_reach sem c0 c \<Longrightarrow> sem_step sem c c' \<Longrightarrow> sem_reach sem c0 c'"

definition sem_ok :: "ptr \<Rightarrow> int \<Rightarrow> ptr set \<Rightarrow> 'a sem_state \<Rightarrow> bool" where
  "sem_ok sem N L = (\<lambda>(s, H, q, G). sem_inv s sem N H q G L)"

lemma sem_step_inv:
  assumes "sem_step sem c c'" and "sem_ok sem N L c"
  shows "sem_ok sem N L c'"
  using assms
proof (induction rule: sem_step.induct)
  case (fast s H w s' q G)
  then show ?case using sem_acquire_fast by (simp add: sem_ok_def)
next
  case (block s H w q G s')
  have "\<not> 0 < sem_value (sems s sem)"
    using block.hyps(5) by (auto simp: acquireSem_enter_def down_enter_def kbind_eq_Ret split: if_splits)
  then show ?case using sem_acquire_block [of s sem N H q G L w] block by (auto simp: sem_ok_def)
next
  case (release s H G s')
  then show ?case using sem_release_free [of s sem N H G L] by (auto simp: sem_ok_def)
next
  case (handoff s H G s' w r)
  then show ?case using sem_release_handoff [of s sem N H w r G L] by (auto simp: sem_ok_def)
next
  case (resume w G s s' H q)
  then show ?case using sem_resume [of s sem N H q G L w] by (auto simp: sem_ok_def)
next
  case (preempt s s' H q G)
  then show ?case using sem_preempt by (auto simp: sem_ok_def)
qed

lemma sem_reach_inv:
  "sem_reach sem c0 c \<Longrightarrow> sem_ok sem N L c0 \<Longrightarrow> sem_ok sem N L c"
  by (induction rule: sem_reach.induct) (auto intro: sem_step_inv)

lemma initSem_ok:
  assumes "rq_inv s rq L" and "0 \<le> N"
  shows "sem_ok sem N L (initSem sem N s, {}, [], {})"
  using assms by (auto simp: sem_ok_def sem_inv_def initSem_def waitlistInit_def initList_def dlist_def)

section \<open>Sample state\<close>

definition sample_sync :: ksync where
  "sample_sync = ksched.extend
     (sample_sched\<lparr>CurrentTask := 32, RunLinks := initList RunHead (RunLinks sample_sched), task_num := 0\<rparr>)
     (ksync.fields (\<lambda>_. \<lparr>wt_task = 0, wt_flags = 0\<rparr>) \<lparr>lp_prev = (\<lambda>x. x), lp_next = (\<lambda>x. x)\<rparr> (\<lambda>_. \<lparr>sem_value = 0\<rparr>))"

lemma sample_sync_inv: "rq_inv sample_sync [] {16, 32, 48}"
  by (auto simp: rq_inv_def ready_def sample_sync_def sample_sched_def dlist_def blank_task_def initList_def
      ksched.defs ksync.defs)

lemma sample_sync_cur: "CurrentTask sample_sync = 32" "idle_task sample_sync = 16"
  by (simp_all add: sample_sync_def sample_sched_def ksched.defs)

text \<open>A lock taken by task 32 and then requested by task 32's successor.\<close>

lemma sample_acquire:
  "acquireSem_enter 64 100 (initSem 64 1 sample_sync) =
     Ret (True, upd_sem 64 (\<lambda>x. x\<lparr>sem_value := sem_value x - 1\<rparr>) (initSem 64 1 sample_sync))"
  by (simp add: acquireSem_enter_def down_enter_def initSem_def waitlistInit_def)

definition sample_contended :: ksync where
  "sample_contended = sample_sync\<lparr>waits := (\<lambda>_. \<lparr>wt_task = 48, wt_flags = WT_INTERRUPTED\<rparr>),
     WaitLinks := listAddTail 68 100 (WaitLinks sample_sync)\<rparr>"

lemma sample_contended_inv: "sem_inv sample_contended 64 1 {32} [100] {} {16, 32, 48}"
proof -
  have "dlist (WaitLinks sample_sync) 68 []"
    by (simp add: sample_sync_def ksched.defs ksync.defs dlist_def)
  then have "dlist (listAddTail 68 100 (WaitLinks sample_sync)) 68 ([] @ [100])"
    by (rule ll.rep_add_tail) simp_all
  moreover have "rq_inv sample_contended [] {16, 32, 48}"
    using sample_sync_inv by (simp add: sample_contended_def rq_inv_def ready_def)
  ultimately show ?thesis
    by (auto simp: sem_inv_def waiting_ok_def wait_queue_def sample_contended_def sample_sync_def sample_sched_def
        ksched.defs ksync.defs blank_task_def)
qed

section \<open>Properties\<close>

text \<open>
  C11: in every execution from \<^verbatim>\<open>initSem(sem, N)\<close> the value and the number of holders add up to \<open>N\<close> and
  neither is negative, so a semaphore initialised with 1 has at most one holder; tasks wait only when
  the value is 0.
\<close>

theorem semaphore_mutual_exclusion:
  assumes "rq_inv s0 rq L" and "0 \<le> N" and "sem_reach sem (initSem sem N s0, {}, [], {}) (s, H, q, G)"
  shows "sem_value (sems s sem) + int (card H) = N \<and> finite H \<and> 0 \<le> sem_value (sems s sem) \<and>
    (q \<noteq> [] \<longrightarrow> sem_value (sems s sem) = 0) \<and> (N = 1 \<longrightarrow> (\<forall>t \<in> H. \<forall>t' \<in> H. t = t'))"
proof -
  have inv: "sem_inv s sem N H q G L"
    using sem_reach_inv [OF assms(3) initSem_ok [OF assms(1,2)]] by (simp add: sem_ok_def)
  have v: "sem_value (sems s sem) + int (card H) = N" "finite H" "0 \<le> sem_value (sems s sem)"
    "q \<noteq> [] \<longrightarrow> sem_value (sems s sem) = 0"
    using inv by (simp_all add: sem_inv_def)
  moreover have "\<forall>t \<in> H. \<forall>t' \<in> H. t = t'" if "N = 1"
  proof -
    have "card H \<le> Suc 0" using v that by linarith
    then show ?thesis using card_le_Suc0_iff_eq [OF v(2)] by blast
  qed
  ultimately show ?thesis by blast
qed

theorem semaphore_mutual_exclusion_witness:
  "\<exists>s. sem_reach 64 (initSem 64 1 sample_sync, {}, [], {}) (s, {32}, [], {}) \<and> sem_value (sems s 64) = 0"
proof -
  let ?s = "initSem 64 1 sample_sync"
  have "CurrentTask ?s = 32" by (simp add: initSem_def waitlistInit_def sample_sync_cur)
  then have "sem_step 64 (?s, {}, [], {}) (upd_sem 64 (\<lambda>x. x\<lparr>sem_value := sem_value x - 1\<rparr>) ?s, {32}, [], {})"
    using sem_step.fast [of ?s "{}" 64 100, OF _ sample_acquire] by simp
  then have r: "sem_reach 64 (?s, {}, [], {}) (upd_sem 64 (\<lambda>x. x\<lparr>sem_value := sem_value x - 1\<rparr>) ?s, {32}, [], {})"
    by (rule sem_reach.step [OF sem_reach.start])
  show ?thesis using r semaphore_mutual_exclusion [OF sample_sync_inv _ r] by auto
qed

text \<open>
  C12: \<^verbatim>\<open>releaseSem\<close> never fails, and serves the waiting tasks in the order in which they blocked: the
  task at the head of the queue becomes runnable and owns the semaphore without the value passing
  through a positive number, and when it runs again its \<^verbatim>\<open>acquireSem\<close> returns without a panic.
\<close>

theorem releaseSem_fifo:
  assumes "sem_inv s sem N H (w # r) G L" and "CurrentTask s \<in> H"
    and "\<forall>x \<in> G. wt_task (waits s x) \<noteq> CurrentTask s"
  shows "\<exists>s'. releaseSem sem s = Ret s' \<and> tstate (tasks s' (wt_task (waits s w))) = TASK_RUNNABLE \<and>
    sem_inv s' sem N (insert (wt_task (waits s w)) (H - {CurrentTask s})) r (insert w G) L \<and>
    sem_value (sems s' sem) = 0 \<and> acquireSem_resume sem w s' = Ret s'"
proof -
  obtain s' where s': "releaseSem sem s = Ret s'" "tstate (tasks s' (wt_task (waits s w))) = TASK_RUNNABLE"
    "sem_inv s' sem N (insert (wt_task (waits s w)) (H - {CurrentTask s})) r (insert w G) L"
    using sem_release_handoff [OF assms] by blast
  have "sem_value (sems s sem) = 0" "sem_value (sems s sem) + int (card H) = N" "finite H"
    using assms(1) by (simp_all add: sem_inv_def)
  moreover have "wt_task (waits s w) \<notin> H" using assms(1) by (simp add: sem_inv_def waiting_ok_def Let_def)
  ultimately have "int (card (insert (wt_task (waits s w)) (H - {CurrentTask s}))) = N"
    using card_Suc_Diff1 [OF \<open>finite H\<close> assms(2)] by simp
  moreover have "sem_value (sems s' sem) + int (card (insert (wt_task (waits s w)) (H - {CurrentTask s}))) = N"
    using s'(3) by (simp add: sem_inv_def)
  ultimately have "sem_value (sems s' sem) = 0" by linarith
  then show ?thesis using s' sem_resume(1) [OF s'(3)] by blast
qed

theorem releaseSem_fifo_witness:
  "\<exists>s'. releaseSem 64 sample_contended = Ret s' \<and> sem_inv s' 64 1 {48} [] {100} {16, 32, 48} \<and>
     acquireSem_resume 64 100 s' = Ret s'"
proof -
  have "CurrentTask sample_contended = 32" "wt_task (waits sample_contended 100) = 48"
    by (simp_all add: sample_contended_def sample_sync_cur)
  then show ?thesis using releaseSem_fifo [OF sample_contended_inv] by auto
qed

end
