(* ===== verification/VMM.thy ===== *)
theory VMM
  imports Paging_Correct Sync
begin

text \<open>
  Address spaces of tasks: the \<^verbatim>\<open>MemMap_t\<close> and \<^verbatim>\<open>VirtMemArea_t\<close> structures of
  \<^verbatim>\<open>kern/mm/vmm.c\<close>.  An address space has a sorted list of areas, a page directory, a reference
  count and a lock.  The areas of all address spaces are linked through one heap of links, the
  header of the list of \<open>mm\<close> being \<open>VmaHead mm\<close>.
\<close>

abbreviation (input) VMM_READ :: u32 where "VMM_READ \<equiv> 1"
abbreviation (input) VMM_WRITE :: u32 where "VMM_WRITE \<equiv> 2"
abbreviation (input) VMM_EXEC :: u32 where "VMM_EXEC \<equiv> 4"
abbreviation (input) VMM_STACK :: u32 where "VMM_STACK \<equiv> 8"

record vma =
  vm_mm :: ptr
  vm_start :: u32
  vm_end :: u32
  vm_flags :: u32

record mm_struct =
  vma_cache :: ptr
  pgdir :: ptr
  vma_count :: int
  mm_ref :: int
  lock_tid :: int

datatype vma_node = VmaHead ptr | VmaN ptr

fun lp2vma :: "vma_node \<Rightarrow> ptr" where
  "lp2vma (VmaN v) = v"
| "lp2vma (VmaHead mm) = mm"

text \<open>The frame the interrupt entry code pushes (idt.h).\<close>

record iframe =
  if_gs :: u32
  if_fs :: u32
  if_es :: u32
  if_ds :: u32
  if_edi :: u32
  if_esi :: u32
  if_ebp :: u32
  if_esp :: u32
  if_ebx :: u32
  if_edx :: u32
  if_ecx :: u32
  if_eax :: u32
  int_no :: u32
  err_code :: u32
  if_eip :: u32
  if_cs :: u32
  if_eflags :: u32
  user_esp :: u32
  if_ss :: u32

record kvm = ksync +
  mms :: "ptr \<Rightarrow> mm_struct"
  vmas :: "ptr \<Rightarrow> vma"
  VmaLinks :: "vma_node list_heap"
  iframes :: "ptr \<Rightarrow> iframe"
  TestMM :: ptr

definition upd_mm :: "ptr \<Rightarrow> (mm_struct \<Rightarrow> mm_struct) \<Rightarrow> 'a kvm_scheme \<Rightarrow> 'a kvm_scheme" where
  "upd_mm m f s = s\<lparr>mms := (mms s)(m := f (mms s m))\<rparr>"

definition upd_vma :: "ptr \<Rightarrow> (vma \<Rightarrow> vma) \<Rightarrow> 'a kvm_scheme \<Rightarrow> 'a kvm_scheme" where
  "upd_vma v f s = s\<lparr>vmas := (vmas s)(v := f (vmas s v))\<rparr>"

abbreviation (input) sizeof_MemMap_t :: u32 where "sizeof_MemMap_t \<equiv> 52"
abbreviation (input) sizeof_VirtMemArea_t :: u32 where "sizeof_VirtMemArea_t \<equiv> 24"

text \<open>The address of the field \<^verbatim>\<open>sem\<close> of an address space.\<close>

definition mm_sem :: "ptr \<Rightarrow> ptr" where
  "mm_sem mm = mm + 24"

section \<open>Reference count and lock\<close>

definition mm_ref_get :: "ptr \<Rightarrow> 'a kvm_scheme \<Rightarrow> int" where
  "mm_ref_get mm s = mm_ref (mms s mm)"

definition mm_ref_set :: "ptr \<Rightarrow> int \<Rightarrow> 'a kvm_scheme \<Rightarrow> 'a kvm_scheme" where
  "mm_ref_set mm val s = upd_mm mm (\<lambda>m. m\<lparr>mm_ref := val\<rparr>) s"

definition mm_ref_inc :: "ptr \<Rightarrow> 'a kvm_scheme \<Rightarrow> int \<times> 'a kvm_scheme" where
  "mm_ref_inc mm s = (let s1 = upd_mm mm (\<lambda>m. m\<lparr>mm_ref := mm_ref m + 1\<rparr>) s in (mm_ref (mms s1 mm), s1))"

definition mm_ref_dec :: "ptr \<Rightarrow> 'a kvm_scheme \<Rightarrow> int \<times> 'a kvm_scheme" where
  "mm_ref_dec mm s = (let s1 = upd_mm mm (\<lambda>m. m\<lparr>mm_ref := mm_ref m - 1\<rparr>) s in (mm_ref (mms s1 mm), s1))"

definition lock_mm :: "ptr \<Rightarrow> 'a kvm_scheme \<Rightarrow> 'a kvm_scheme kres" where
  "lock_mm mm s =
     (if mm \<noteq> NULL
      then kbind (acquireSem (mm_sem mm) s) (\<lambda>s1.
             Ret (if CurrentTask s1 \<noteq> NULL
                  then upd_mm mm (\<lambda>m. m\<lparr>lock_tid := tid (tasks s1 (CurrentTask s1))\<rparr>) s1 else s1))
      else Ret s)"

definition unlock_mm :: "ptr \<Rightarrow> 'a kvm_scheme \<Rightarrow> 'a kvm_scheme kres" where
  "unlock_mm mm s =
     (if mm \<noteq> NULL
      then kbind (releaseSem (mm_sem mm) s) (\<lambda>s1. Ret (upd_mm mm (\<lambda>m. m\<lparr>lock_tid := 0\<rparr>) s1))
      else Ret s)"

section \<open>Creation and destruction\<close>

definition mm_create :: "'a kvm_scheme \<Rightarrow> (ptr \<times> 'a kvm_scheme) kres" where
  "mm_create s =
     kbind (kmalloc sizeof_MemMap_t s) (\<lambda>(mm, s1).
       if mm \<noteq> NULL
       then let s2 = s1\<lparr>VmaLinks := initList (VmaHead mm) (VmaLinks s1)\<rparr>;
                s3 = upd_mm mm (\<lambda>m. m\<lparr>vma_cache := NULL, pgdir := NULL, vma_count := 0\<rparr>) s2;
                s4 = mm_ref_set mm 0 s3
            in Ret (mm, initSem (mm_sem mm) 1 s4)
       else Ret (mm, s1))"

definition mm_destroy_body :: "ptr \<Rightarrow> 'a kvm_scheme \<Rightarrow> ('a kvm_scheme + 'a kvm_scheme) kres" where
  "mm_destroy_body mm s =
     (let i = listGetNext (VmaLinks s) (VmaHead mm)
      in if i = VmaHead mm then Ret (Inr s)
         else kbind (kfree (lp2vma i) sizeof_VirtMemArea_t (s\<lparr>VmaLinks := listDel i (VmaLinks s)\<rparr>))
                (\<lambda>s1. Ret (Inl s1)))"

definition mm_destroy :: "ptr \<Rightarrow> 'a kvm_scheme \<Rightarrow> 'a kvm_scheme kres" where
  "mm_destroy mm s =
     (if mm = NULL then Ret s
      else if mm_ref_get mm s \<le> 0
      then kbind (kwhile (mm_destroy_body mm) s) (\<lambda>s1. kfree mm sizeof_MemMap_t s1)
      else Ret (snd (mm_ref_dec mm s)))"

definition vma_create :: "u32 \<Rightarrow> u32 \<Rightarrow> u32 \<Rightarrow> 'a kvm_scheme \<Rightarrow> (ptr \<times> 'a kvm_scheme) kres" where
  "vma_create start fin flags s =
     kbind (kmalloc sizeof_VirtMemArea_t s) (\<lambda>(v, s1).
       Ret (v, if v \<noteq> NULL then upd_vma v (\<lambda>a. a\<lparr>vm_start := start, vm_end := fin, vm_flags := flags\<rparr>) s1
               else s1))"

section \<open>Lookup and insertion\<close>

definition in_vma :: "'a kvm_scheme \<Rightarrow> u32 \<Rightarrow> ptr \<Rightarrow> bool" where
  "in_vma s vaddr v = (vm_start (vmas s v) \<le> vaddr \<and> vaddr < vm_end (vmas s v))"

definition find_vma :: "ptr \<Rightarrow> u32 \<Rightarrow> 'a kvm_scheme \<Rightarrow> (ptr \<times> 'a kvm_scheme) kres" where
  "find_vma mm vaddr s =
     (if mm = NULL then Ret (NULL, s)
      else let c = vma_cache (mms s mm)
           in kbind (if c \<noteq> NULL \<and> in_vma s vaddr c then Ret c
                     else kbind (kloop (listFind (VmaLinks s) (VmaHead mm) (\<lambda>i. in_vma s vaddr (lp2vma i))))
                            (\<lambda>found. Ret (case found of None \<Rightarrow> NULL | Some i \<Rightarrow> lp2vma i)))
                (\<lambda>v. Ret (v, if v \<noteq> NULL then upd_mm mm (\<lambda>m. m\<lparr>vma_cache := v\<rparr>) s else s)))"

definition check_vma_overlap :: "vma \<Rightarrow> vma \<Rightarrow> 'b kres \<Rightarrow> 'b kres" where
  "check_vma_overlap pv nx k =
     (if vm_end pv \<le> vm_start pv then Panic '' vma overlap :pstart>=pend!''
      else if vm_start nx < vm_end pv then Panic '' vma overlap :pend>=nstart!''
      else if vm_end nx \<le> vm_start nx then Panic '' vma overlap :nstart>=pend!''
      else k)"

text \<open>The search of \<^verbatim>\<open>insert_vma\<close>: the last node passed before the loop ends.\<close>

partial_function (option) insert_pos ::
    "'a kvm_scheme \<Rightarrow> vma_node \<Rightarrow> u32 \<Rightarrow> vma_node \<Rightarrow> vma_node \<Rightarrow> vma_node option" where
  "insert_pos s l start prev i =
     (if i = l then Some prev
      else if start < vm_start (vmas s (lp2vma i)) then Some prev
      else insert_pos s l start i (lp_next (VmaLinks s) i))"

definition insert_vma :: "ptr \<Rightarrow> ptr \<Rightarrow> 'a kvm_scheme \<Rightarrow> 'a kvm_scheme kres" where
  "insert_vma mm v s =
     (let l = VmaHead mm; a = vmas s v
      in if vm_end a \<le> vm_start a then Panic '' vma overlap :start>=end!''
         else kbind (kloop (insert_pos s l (vm_start a) l (listGetNext (VmaLinks s) l))) (\<lambda>prev.
           let nx = listGetNext (VmaLinks s) prev;
               link = Ret (upd_mm mm (\<lambda>m. m\<lparr>vma_count := vma_count m + 1\<rparr>)
                        ((upd_vma v (\<lambda>x. x\<lparr>vm_mm := mm\<rparr>) s)\<lparr>VmaLinks := listAddAfter prev (VmaN v) (VmaLinks s)\<rparr>));
               chk_next = (if nx \<noteq> l then check_vma_overlap a (vmas s (lp2vma nx)) link else link)
           in if prev \<noteq> l then check_vma_overlap (vmas s (lp2vma prev)) a chk_next else chk_next))"

definition mm_map :: "ptr \<Rightarrow> u32 \<Rightarrow> u32 \<Rightarrow> u32 \<Rightarrow> ptr \<Rightarrow> 'a kvm_scheme \<Rightarrow> (int \<times> 'a kvm_scheme) kres" where
  "mm_map mm start_vaddr len flags vma_out s =
     (let start = ROUNDDOWN start_vaddr PGSIZE; fin = ROUNDUP (start_vaddr + len) PGSIZE
      in if \<not> isUserCanAccess start fin then Ret (- E_INVAL, s)
         else if mm = NULL then Ret (- E_INVAL, s)
         else kbind (find_vma mm start s) (\<lambda>(v, s1).
           if v \<noteq> NULL \<and> vm_start (vmas s1 v) < fin then Ret (- E_INVAL, s1)
           else kbind (vma_create start fin flags s1) (\<lambda>(v, s2).
             if v = NULL then Ret (- E_NOMEM, s2)
             else kbind (insert_vma mm v s2) (\<lambda>s3.
               Ret (E_OK, if vma_out \<noteq> NULL then wr32 vma_out v s3 else s3)))))"

section \<open>Duplication and release of the pages\<close>

definition dup_mm_body ::
    "ptr \<Rightarrow> ptr \<Rightarrow> vma_node \<times> 'a kvm_scheme \<Rightarrow> (vma_node \<times> 'a kvm_scheme + int \<times> 'a kvm_scheme) kres" where
  "dup_mm_body to from = (\<lambda>(i, s).
     let i' = listGetPrev (VmaLinks s) i
     in if i' = VmaHead from then Ret (Inr (0, s))
        else let pv = vmas s (lp2vma i')
             in kbind (vma_create (vm_start pv) (vm_end pv) (vm_flags pv) s) (\<lambda>(nv, s1).
                  if nv = NULL then Ret (Inr (- E_NOMEM, s1))
                  else kbind (insert_vma to nv s1) (\<lambda>s2.
                       kbind (copy_range (pgdir (mms s2 to)) (pgdir (mms s2 from)) (vm_start (vmas s2 (lp2vma i')))
                                (vm_end (vmas s2 (lp2vma i'))) False s2) (\<lambda>(r, s3).
                         Ret (if r \<noteq> 0 then Inr (- E_NOMEM, s3) else Inl (i', s3))))))"

definition dup_mm :: "ptr \<Rightarrow> ptr \<Rightarrow> 'a kvm_scheme \<Rightarrow> (int \<times> 'a kvm_scheme) kres" where
  "dup_mm to from s =
     (if to = NULL \<or> from = NULL then Ret (- E_PNULL, s)
      else kwhile (dup_mm_body to from) (VmaHead from, s))"

text \<open>One \<^verbatim>\<open>listForEach\<close> loop of \<^verbatim>\<open>exit_mmap\<close>, applying \<open>f\<close> to the range of each area.\<close>

definition exit_mmap_body ::
    "(u32 \<Rightarrow> u32 \<Rightarrow> 'a kvm_scheme \<Rightarrow> 'a kvm_scheme kres) \<Rightarrow> ptr \<Rightarrow>
     vma_node \<times> 'a kvm_scheme \<Rightarrow> (vma_node \<times> 'a kvm_scheme + 'a kvm_scheme) kres" where
  "exit_mmap_body f mm = (\<lambda>(i, s).
     if i = VmaHead mm then Ret (Inr s)
     else kbind (f (vm_start (vmas s (lp2vma i))) (vm_end (vmas s (lp2vma i))) s)
            (\<lambda>s1. Ret (Inl (listGetNext (VmaLinks s1) i, s1))))"

definition exit_mmap :: "ptr \<Rightarrow> 'a kvm_scheme \<Rightarrow> 'a kvm_scheme kres" where
  "exit_mmap mm s =
     (if mm = NULL \<or> mm_ref_get mm s \<noteq> 0 then Panic ''exit mm err!''
      else let d = pgdir (mms s mm); first = (\<lambda>s. (listGetNext (VmaLinks s) (VmaHead mm), s))
           in kbind (kwhile (exit_mmap_body (unmap_range d) mm) (first s)) (\<lambda>s1.
                kwhile (exit_mmap_body (exit_range d) mm) (first s1)))"

end
