(* ===== verification/VMM_Correct.thy ===== *)
theory VMM_Correct
  imports VMM
begin

text \<open>
  Correctness of the area lists: lookup finds the one area that contains an address, insertion keeps
  the list sorted and disjoint and panics exactly on an overlap, and \<^verbatim>\<open>mm_map\<close> adds exactly the pages
  of the requested range.
\<close>

section \<open>The invariant\<close>

definition vm_inv :: "'a kvm_scheme \<Rightarrow> ptr \<Rightarrow> ptr list \<Rightarrow> bool" where
  "vm_inv s mm vs \<longleftrightarrow>
     mm \<noteq> NULL \<and> dlist (VmaLinks s) (VmaHead mm) (map VmaN vs) \<and> NULL \<notin> set vs \<and>
     (\<forall>v \<in> set vs. vm_start (vmas s v) < vm_end (vmas s v)) \<and>
     sorted_wrt (\<lambda>a b. vm_end (vmas s a) \<le> vm_start (vmas s b)) vs \<and>
     (vma_cache (mms s mm) = NULL \<or> vma_cache (mms s mm) \<in> set vs) \<and>
     vma_count (mms s mm) = int (length vs)"

definition overlap :: "vma \<Rightarrow> vma \<Rightarrow> bool" where
  "overlap a b \<longleftrightarrow> vm_start a < vm_end b \<and> vm_start b < vm_end a"

lemma upd_mm_sel [simp]:
  "mms (upd_mm m f s) = (mms s)(m := f (mms s m))" "vmas (upd_mm m f s) = vmas s"
  "VmaLinks (upd_mm m f s) = VmaLinks s" "mms (upd_vma v g s) = mms s"
  "vmas (upd_vma v g s) = (vmas s)(v := g (vmas s v))" "VmaLinks (upd_vma v g s) = VmaLinks s"
  by (simp_all add: upd_mm_def upd_vma_def)

lemma find_map: "find P (map f xs) = map_option f (find (P \<circ> f) xs)"
  by (induction xs) auto

lemma vma_unique:
  assumes "vm_inv s mm vs" "a \<in> set vs" "b \<in> set vs" "in_vma s x a" "in_vma s x b"
  shows "a = b"
proof -
  have "sorted_wrt (\<lambda>a b. vm_end (vmas s a) \<le> vm_start (vmas s b)) vs" using assms(1) by (simp add: vm_inv_def)
  then show ?thesis
    using assms(2-)
  proof (induction vs)
    case (Cons v vs)
    have "\<not> (in_vma s x v \<and> in_vma s x w)" if "w \<in> set vs" for w
      using Cons.prems(1) that by (fastforce simp: in_vma_def)
    then show ?case using Cons by auto
  qed simp
qed

section \<open>Lookup\<close>

lemma find_vma_eq:
  assumes inv: "vm_inv s mm vs"
  shows "\<exists>v. find_vma mm x s = Ret (v, if v \<noteq> NULL then upd_mm mm (\<lambda>m. m\<lparr>vma_cache := v\<rparr>) s else s) \<and>
    (if \<exists>a \<in> set vs. in_vma s x a then v \<in> set vs \<and> in_vma s x v else v = NULL)"
proof -
  let ?c = "vma_cache (mms s mm)" and ?v = "case find (in_vma s x) vs of None \<Rightarrow> NULL | Some v \<Rightarrow> v"
  have mm: "mm \<noteq> NULL" and dl: "dlist (VmaLinks s) (VmaHead mm) (map VmaN vs)" and c: "?c = NULL \<or> ?c \<in> set vs"
    using inv by (simp_all add: vm_inv_def)
  have "(\<lambda>i. in_vma s x (lp2vma i)) \<circ> VmaN = in_vma s x" by auto
  then have lf: "listFind (VmaLinks s) (VmaHead mm) (\<lambda>i. in_vma s x (lp2vma i)) = Some (map_option VmaN (find (in_vma s x) vs))"
    using dlist_listFind [OF dl] by (simp add: find_map)
  have found: "if \<exists>a \<in> set vs. in_vma s x a then ?v \<in> set vs \<and> in_vma s x ?v else ?v = NULL"
  proof (cases "find (in_vma s x) vs")
    case None
    then have "\<not> (\<exists>a \<in> set vs. in_vma s x a)" by (auto simp: find_None_iff)
    then show ?thesis using None by simp
  next
    case (Some v)
    then have "v \<in> set vs" "in_vma s x v" by (auto simp: find_Some_iff)
    then show ?thesis using Some by auto
  qed
  show ?thesis
  proof (cases "?c \<noteq> NULL \<and> in_vma s x ?c")
    case True
    then show ?thesis using c mm by (intro exI [of _ ?c]) (auto simp: find_vma_def Let_def)
  next
    case False
    have "find_vma mm x s = Ret (?v, if ?v \<noteq> NULL then upd_mm mm (\<lambda>m. m\<lparr>vma_cache := ?v\<rparr>) s else s)"
      unfolding find_vma_def Let_def if_not_P [OF False] lf using mm by (simp split: option.split)
    then show ?thesis using found by blast
  qed
qed

lemma vm_inv_cache:
  assumes "vm_inv s mm vs" and "v \<in> set vs"
  shows "vm_inv (upd_mm mm (\<lambda>m. m\<lparr>vma_cache := v\<rparr>) s) mm vs"
  using assms by (simp add: vm_inv_def)

section \<open>Insertion\<close>

lemma insert_pos_eq:
  assumes "dlist (VmaLinks s) l (map VmaN (pre @ post))" and "l = VmaHead mm"
  shows "insert_pos s l start (last (l # map VmaN pre)) (hd (map VmaN post @ [l])) =
    Some (last (l # map VmaN (pre @ takeWhile (\<lambda>v. vm_start (vmas s v) \<le> start) post)))"
  using assms(1)
proof (induction post arbitrary: pre)
  case Nil
  then show ?case by (subst insert_pos.simps) simp
next
  case (Cons v post)
  have "hd (map VmaN post @ [l]) = lp_next (VmaLinks s) (VmaN v)"
    using dlist_next_elem [of "VmaLinks s" l "map VmaN pre" "VmaN v" "map VmaN post"] Cons.prems
    by (simp add: listGetNext_def)
  then have "insert_pos s l start (VmaN v) (lp_next (VmaLinks s) (VmaN v)) =
      Some (last (l # map VmaN ((pre @ [v]) @ takeWhile (\<lambda>v. vm_start (vmas s v) \<le> start) post)))"
    using Cons.IH [of "pre @ [v]"] Cons.prems by simp
  moreover have "VmaN v \<noteq> l" using assms(2) by simp
  ultimately show ?case
    by (subst insert_pos.simps) (auto simp: not_le)
qed

lemma sorted_split_overlap:
  fixes S E :: "ptr \<Rightarrow> u32"
  assumes sorted: "sorted_wrt (\<lambda>a b. E a \<le> S b) vs" and ne: "\<forall>v \<in> set vs. S v < E v" and st: "st < en"
    and pre: "pre = takeWhile (\<lambda>v. S v \<le> st) vs" and post: "post = dropWhile (\<lambda>v. S v \<le> st) vs"
  shows "(\<exists>v \<in> set vs. S v < en \<and> st < E v) \<longleftrightarrow>
    (pre \<noteq> [] \<and> st < E (last pre)) \<or> (post \<noteq> [] \<and> S (hd post) < en)"
proof -
  have vs: "vs = pre @ post" using pre post by simp
  have srt: "sorted_wrt (\<lambda>a b. E a \<le> S b) pre" "sorted_wrt (\<lambda>a b. E a \<le> S b) post"
    using sorted unfolding vs sorted_wrt_append by auto
  have pS: "S v \<le> st" if "v \<in> set pre" for v using that pre by (auto dest: set_takeWhileD)
  have hS: "st < S (hd post)" if "post \<noteq> []" using that hd_dropWhile [of "\<lambda>v. S v \<le> st" vs] post by (simp add: not_le)
  have last: "E v \<le> E (last pre)" if v: "v \<in> set pre" for v
  proof -
    obtain ys z where p: "pre = ys @ [z]" using v by (cases pre rule: rev_cases) auto
    show ?thesis
    proof (cases "v = z")
      case False
      then have "E v \<le> S z" using srt(1) v p by (auto simp: sorted_wrt_append)
      moreover have "S z < E z" using ne p vs by auto
      ultimately show ?thesis using p by simp
    qed (simp add: p)
  qed
  have hd: "S (hd post) \<le> S v" if v: "v \<in> set post" for v
  proof -
    obtain z ys where p: "post = z # ys" using v by (cases post) auto
    show ?thesis
    proof (cases "v = z")
      case False
      then have "E z \<le> S v" using srt(2) v p by auto
      moreover have "S z < E z" using ne p vs by auto
      ultimately show ?thesis using p by simp
    qed (simp add: p)
  qed
  show ?thesis
  proof
    assume "\<exists>v \<in> set vs. S v < en \<and> st < E v"
    then obtain v where v: "v \<in> set pre \<or> v \<in> set post" "S v < en" "st < E v" using vs by auto
    from v(1) show "(pre \<noteq> [] \<and> st < E (last pre)) \<or> (post \<noteq> [] \<and> S (hd post) < en)"
    proof
      assume "v \<in> set pre"
      then show ?thesis using last [of v] v(3) by fastforce
    next
      assume "v \<in> set post"
      then show ?thesis using hd [of v] v(2) by fastforce
    qed
  next
    assume "(pre \<noteq> [] \<and> st < E (last pre)) \<or> (post \<noteq> [] \<and> S (hd post) < en)"
    then show "\<exists>v \<in> set vs. S v < en \<and> st < E v"
    proof (elim disjE conjE)
      assume p: "pre \<noteq> []" "st < E (last pre)"
      then have "last pre \<in> set vs" "S (last pre) < en" using pS [of "last pre"] vs st by fastforce+
      then show ?thesis using p(2) by blast
    next
      assume p: "post \<noteq> []" "S (hd post) < en"
      then have h: "hd post \<in> set vs" using vs by simp
      then have "st < E (hd post)" using hS [OF p(1)] ne by fastforce
      then show ?thesis using h p(2) by blast
    qed
  qed
qed

text \<open>Where a new area goes, and the two neighbours the code compares it with.\<close>

lemma insert_vma_eq:
  assumes inv: "vm_inv s mm vs" and v: "v \<notin> set vs" and a: "vm_start (vmas s v) < vm_end (vmas s v)"
    and pre: "pre = takeWhile (\<lambda>x. vm_start (vmas s x) \<le> vm_start (vmas s v)) vs"
    and post: "post = dropWhile (\<lambda>x. vm_start (vmas s x) \<le> vm_start (vmas s v)) vs"
  shows "if (pre \<noteq> [] \<and> vm_start (vmas s v) < vm_end (vmas s (last pre))) \<or>
            (post \<noteq> [] \<and> vm_start (vmas s (hd post)) < vm_end (vmas s v))
    then insert_vma mm v s = Panic '' vma overlap :pend>=nstart!''
    else insert_vma mm v s =
      Ret (upd_mm mm (\<lambda>m. m\<lparr>vma_count := vma_count m + 1\<rparr>) ((upd_vma v (\<lambda>x. x\<lparr>vm_mm := mm\<rparr>) s)
        \<lparr>VmaLinks := listAddAfter (last (VmaHead mm # map VmaN pre)) (VmaN v) (VmaLinks s)\<rparr>))"
proof -
  let ?l = "VmaHead mm"
  define prev nx where pn: "prev = last (?l # map VmaN pre)" "nx = hd (map VmaN post @ [?l])"
  have vs: "vs = pre @ post" using pre post by simp
  have dl: "dlist (VmaLinks s) ?l (map VmaN vs)" and ne: "\<forall>x \<in> set vs. vm_start (vmas s x) < vm_end (vmas s x)"
    using inv by (simp_all add: vm_inv_def)
  have pos: "insert_pos s ?l (vm_start (vmas s v)) ?l (listGetNext (VmaLinks s) ?l) = Some prev"
    using insert_pos_eq [of s ?l "[]" vs mm "vm_start (vmas s v)"] dl dlist_next [OF dl] pre by (simp add: pn)
  have nxt: "listGetNext (VmaLinks s) prev = nx"
    using dlist_around(1) [of "VmaLinks s" ?l "map VmaN pre" "map VmaN post"] dl vs by (simp add: listGetNext_def pn)
  have prev: "prev = ?l \<longleftrightarrow> pre = []" "pre \<noteq> [] \<Longrightarrow> lp2vma prev = last pre"
    by (simp_all add: last_map pn)
  have nx': "nx = ?l \<longleftrightarrow> post = []" "post \<noteq> [] \<Longrightarrow> lp2vma nx = hd post"
    by (cases post; simp add: pn)+
  have np: "pre \<noteq> [] \<Longrightarrow> vm_start (vmas s (last pre)) < vm_end (vmas s (last pre))"
    and nh: "post \<noteq> [] \<Longrightarrow> vm_start (vmas s (hd post)) < vm_end (vmas s (hd post))"
    using ne vs by simp_all
  show ?thesis
    unfolding insert_vma_def Let_def pos kloop_simps kbind.simps nxt prev(1) nx'(1) pn(1) [symmetric]
    using a np nh prev(2) nx'(2)
    by (cases "pre = []"; cases "post = []") (auto simp: check_vma_overlap_def)
qed

lemma insert_vma_inv:
  assumes inv: "vm_inv s mm vs" and v: "v \<notin> set vs" "v \<noteq> NULL" and a: "vm_start (vmas s v) < vm_end (vmas s v)"
    and vs: "vs = pre @ post"
    and le: "\<forall>x \<in> set pre. vm_end (vmas s x) \<le> vm_start (vmas s v)"
    and ge: "\<forall>x \<in> set post. vm_end (vmas s v) \<le> vm_start (vmas s x)"
    and s': "s' = upd_mm mm (\<lambda>m. m\<lparr>vma_count := vma_count m + 1\<rparr>) ((upd_vma v (\<lambda>x. x\<lparr>vm_mm := mm\<rparr>) s)
        \<lparr>VmaLinks := listAddAfter (last (VmaHead mm # map VmaN pre)) (VmaN v) (VmaLinks s)\<rparr>)"
  shows "vm_inv s' mm (pre @ v # post)"
proof -
  have dl: "dlist (VmaLinks s) (VmaHead mm) (map VmaN pre @ map VmaN post)" using inv vs by (simp add: vm_inv_def)
  have "dlist (listAddAfter (last (VmaHead mm # map VmaN pre)) (VmaN v) (VmaLinks s)) (VmaHead mm)
      (map VmaN pre @ VmaN v # map VmaN post)"
    unfolding listAddAfter_def dlist_around(1) [OF dl] by (rule dlist_raw_add [OF dl]) (use v vs in auto)
  then have "dlist (VmaLinks s') (VmaHead mm) (map VmaN (pre @ v # post))" using s' by simp
  moreover have st: "vm_start (vmas s' x) = vm_start (vmas s x)" "vm_end (vmas s' x) = vm_end (vmas s x)" for x
    using s' by simp_all
  moreover have "sorted_wrt (\<lambda>a b. vm_end (vmas s' a) \<le> vm_start (vmas s' b)) (pre @ v # post)"
    using inv vs le ge unfolding st by (auto simp: vm_inv_def sorted_wrt_append)
  ultimately show ?thesis
    using inv v a vs unfolding vm_inv_def st by (auto simp: s')
qed

lemma insert_vma_ok:
  assumes inv: "vm_inv s mm vs" and v: "v \<notin> set vs" "v \<noteq> NULL" and a: "vm_start (vmas s v) < vm_end (vmas s v)"
  shows "if \<exists>x \<in> set vs. overlap (vmas s v) (vmas s x)
    then insert_vma mm v s = Panic '' vma overlap :pend>=nstart!''
    else \<exists>s' pre post. vs = pre @ post \<and> insert_vma mm v s = Ret s' \<and> vm_inv s' mm (pre @ v # post) \<and>
      vmas s' = (vmas s)(v := (vmas s v)\<lparr>vm_mm := mm\<rparr>)"
proof -
  let ?S = "\<lambda>x. vm_start (vmas s x)" and ?E = "\<lambda>x. vm_end (vmas s x)"
  define pre post where pp: "pre = takeWhile (\<lambda>x. ?S x \<le> ?S v) vs" "post = dropWhile (\<lambda>x. ?S x \<le> ?S v) vs"
  have vs: "vs = pre @ post" by (simp add: pp)
  have srt: "sorted_wrt (\<lambda>a b. ?E a \<le> ?S b) vs" and ne: "\<forall>x \<in> set vs. ?S x < ?E x" using inv by (simp_all add: vm_inv_def)
  have ov: "(\<exists>x \<in> set vs. overlap (vmas s v) (vmas s x)) \<longleftrightarrow>
      (pre \<noteq> [] \<and> ?S v < ?E (last pre)) \<or> (post \<noteq> [] \<and> ?S (hd post) < ?E v)"
    using sorted_split_overlap [OF srt ne a pp] by (auto simp: overlap_def)
  show ?thesis
  proof (cases "\<exists>x \<in> set vs. overlap (vmas s v) (vmas s x)")
    case True
    then show ?thesis using insert_vma_eq [OF inv v(1) a pp] ov by simp
  next
    case False
    let ?s' = "upd_mm mm (\<lambda>m. m\<lparr>vma_count := vma_count m + 1\<rparr>) ((upd_vma v (\<lambda>x. x\<lparr>vm_mm := mm\<rparr>) s)
        \<lparr>VmaLinks := listAddAfter (last (VmaHead mm # map VmaN pre)) (VmaN v) (VmaLinks s)\<rparr>)"
    have run: "insert_vma mm v s = Ret ?s'" using insert_vma_eq [OF inv v(1) a pp] ov False by simp
    have le: "\<forall>x \<in> set pre. ?E x \<le> ?S v"
    proof
      fix x assume x: "x \<in> set pre"
      then have "?S x \<le> ?S v" "x \<in> set vs" by (auto simp: pp dest: set_takeWhileD)
      then show "?E x \<le> ?S v" using False a by (auto simp: overlap_def not_less)
    qed
    have ge: "\<forall>x \<in> set post. ?E v \<le> ?S x"
    proof
      fix x assume x: "x \<in> set post"
      have "sorted_wrt (\<lambda>a b. ?E a \<le> ?S b) post" using srt vs by (simp add: sorted_wrt_append)
      moreover have "?E v \<le> ?S (hd post)" using ov False x by (auto simp: not_less)
      moreover have "\<forall>y \<in> set post. ?S y < ?E y" using ne vs by simp
      ultimately show "?E v \<le> ?S x" using x by (cases post) (auto intro: order_trans less_imp_le)
    qed
    have "vm_inv ?s' mm (pre @ v # post)" by (rule insert_vma_inv [OF inv v a vs le ge]) simp
    moreover have "vmas ?s' = (vmas s)(v := (vmas s v)\<lparr>vm_mm := mm\<rparr>)" by simp
    ultimately show ?thesis unfolding if_not_P [OF False] using run vs by blast
  qed
qed

section \<open>Mapping a range\<close>

text \<open>A heap object keeps the page it lies in allocated.\<close>

definition heap_owned :: "'a pmm_scheme \<Rightarrow> ptr \<Rightarrow> bool" where
  "heap_owned s p \<longleftrightarrow> unat (p - KERNEL_BASE) div 4096 \<notin> free_set s"

lemma pmm_frame_kvm:
  fixes s t :: "'a kvm_scheme"
  assumes "pmm_frame R s t"
  shows "mms t = mms s" "vmas t = vmas s" "VmaLinks t = VmaLinks s"
proof -
  have t: "t = s\<lparr>Pages := Pages t, FreeLinks := FreeLinks t, free_page_count := free_page_count t\<rparr>"
    using assms unfolding pmm_frame_def by blast
  show "mms t = mms s" "vmas t = vmas s" "VmaLinks t = VmaLinks s" by (subst t, simp)+
qed

lemma vm_inv_cong:
  "vm_inv s mm vs \<Longrightarrow> mms t = mms s \<Longrightarrow> vmas t = vmas s \<Longrightarrow> VmaLinks t = VmaLinks s \<Longrightarrow> vm_inv t mm vs"
  by (simp add: vm_inv_def)

lemma kmalloc_fresh:
  fixes s :: "'a kvm_scheme"
  assumes "pmm_inv s" "unat (PageCount s) \<le> 0x40000" "0 < bytes" "unat bytes \<le> 4096" "free_set s \<noteq> {}"
  shows "\<exists>v s'. kmalloc bytes s = Ret (v, s') \<and> v \<noteq> NULL \<and> \<not> heap_owned s v \<and> pmm_frame {} s s' \<and> pmm_inv s'"
proof -
  have n: "npages bytes = 1"
    using assms(3,4) unfolding npages_def by (subst div_eq_nat_iff) (simp_all add: word_less_nat_alt)
  have b: "unat bytes \<le> 0xFFFFF000" using assms(4) by simp
  obtain q where "q \<in> free_set s" using assms(5) by blast
  then obtain v s' where k: "kmalloc bytes s = Ret (v, s')"
    using kmalloc_Some [OF assms(1,3) b, of q] n by auto
  obtain page where p: "v = page2pa page + KERNEL_BASE" "page \<in> free_set s" "pmm_inv s'"
    using kmalloc_Ret [OF assms(1,3) b k] n by auto
  have "page < 0x40000" using free_set_bound [OF assms(1) p(2)] assms(2) by simp
  note ka = kernel_addr [OF this] unat_page2pa [OF this]
  have "v \<noteq> NULL" using ka(1) p(1) by auto
  moreover have "unat (v - KERNEL_BASE) div 4096 = page" using ka p(1) by simp
  ultimately show ?thesis using k p kmalloc_frame [OF k] by (auto simp: heap_owned_def)
qed

lemma insert_vma_mem: "insert_vma mm v s = Ret s' \<Longrightarrow> mem s' = mem s"
  by (auto simp: insert_vma_def check_vma_overlap_def kbind_eq_Ret kassert_def Let_def upd_vma_def upd_mm_def split: if_splits)

lemma mm_map_ok:
  fixes s :: "'a kvm_scheme"
  assumes inv: "vm_inv s mm vs" and pmm: "pmm_inv s" "unat (PageCount s) \<le> 0x40000" "free_set s \<noteq> {}"
    and own: "\<forall>v \<in> set vs. heap_owned s v"
    and acc: "isUserCanAccess start fin"
    and start: "start = ROUNDDOWN va PGSIZE" and fin: "fin = ROUNDUP (va + len) PGSIZE"
    and free: "\<not> (\<exists>v \<in> set vs. in_vma s start v)"
  shows "if \<exists>v \<in> set vs. vm_start (vmas s v) < fin \<and> start < vm_end (vmas s v)
    then mm_map mm va len flags out s = Panic '' vma overlap :pend>=nstart!''
    else \<exists>s' v pre post. mm_map mm va len flags out s = Ret (E_OK, s') \<and> vs = pre @ post \<and>
      vm_inv s' mm (pre @ v # post) \<and>
      vmas s' v = \<lparr>vm_mm = mm, vm_start = start, vm_end = fin, vm_flags = flags\<rparr> \<and>
      (\<forall>x \<in> set vs. vmas s' x = vmas s x) \<and> mem s' = (if out = NULL then mem s else st32 out v (mem s))"
proof -
  have mm: "mm \<noteq> NULL" using inv by (simp add: vm_inv_def)
  have fv: "find_vma mm start s = Ret (NULL, s)" using find_vma_eq [OF inv, of start] free by auto
  obtain v s1 where k: "kmalloc sizeof_VirtMemArea_t s = Ret (v, s1)" "v \<noteq> NULL" "\<not> heap_owned s v" "pmm_frame {} s s1"
    using kmalloc_fresh [OF pmm(1,2), of sizeof_VirtMemArea_t] pmm(3) by auto
  note f = pmm_frame_kvm [OF k(4)]
  have v: "v \<notin> set vs" using own k(3) by blast
  define s2 where "s2 = upd_vma v (\<lambda>a. a\<lparr>vm_start := start, vm_end := fin, vm_flags := flags\<rparr>) s1"
  have sel: "mms s2 = mms s" "VmaLinks s2 = VmaLinks s" "vmas s2 v = (vmas s v)\<lparr>vm_start := start, vm_end := fin, vm_flags := flags\<rparr>"
    "\<And>x. x \<noteq> v \<Longrightarrow> vmas s2 x = vmas s x"
    using f by (simp_all add: s2_def)
  have same: "vmas s2 x = vmas s x" if "x \<in> set vs" for x using sel(4) [of x] that v by metis
  have inv2: "vm_inv s2 mm vs"
  proof -
    have "sorted_wrt (\<lambda>a b. vm_end (vmas s2 a) \<le> vm_start (vmas s2 b)) vs \<longleftrightarrow>
        sorted_wrt (\<lambda>a b. vm_end (vmas s a) \<le> vm_start (vmas s b)) vs"
      using same by (simp add: sorted_wrt_iff_nth_less)
    then show ?thesis using inv same sel by (simp add: vm_inv_def)
  qed
  have run: "mm_map mm va len flags out s = kbind (insert_vma mm v s2) (\<lambda>s3. Ret (E_OK, if out \<noteq> NULL then wr32 out v s3 else s3))"
    using acc mm fv k(1,2) unfolding mm_map_def Let_def start [symmetric] fin [symmetric]
    by (simp add: vma_create_def s2_def)
  have ne: "vm_start (vmas s2 v) < vm_end (vmas s2 v)" using acc sel(3) by (simp add: isUserCanAccess_def)
  have ov: "(\<exists>x \<in> set vs. overlap (vmas s2 v) (vmas s2 x)) \<longleftrightarrow>
      (\<exists>v \<in> set vs. vm_start (vmas s v) < fin \<and> start < vm_end (vmas s v))"
    using same sel(3) by (auto simp: overlap_def)
  note ins = insert_vma_ok [OF inv2 v k(2) ne, unfolded ov]
  show ?thesis
  proof (cases "\<exists>v \<in> set vs. vm_start (vmas s v) < fin \<and> start < vm_end (vmas s v)")
    case True
    then show ?thesis using ins run by simp
  next
    case False
    obtain s' pre post where p: "vs = pre @ post" "insert_vma mm v s2 = Ret s'" "vm_inv s' mm (pre @ v # post)"
      "vmas s' = (vmas s2)(v := (vmas s2 v)\<lparr>vm_mm := mm\<rparr>)"
      using ins unfolding if_not_P [OF False] by blast
    define t where "t = (if out \<noteq> NULL then wr32 out v s' else s')"
    have t: "mms t = mms s'" "vmas t = vmas s'" "VmaLinks t = VmaLinks s'" by (simp_all add: t_def wr32_def)
    have "mm_map mm va len flags out s = Ret (E_OK, t)" using run p(2) by (simp add: t_def)
    moreover have "vmas t v = \<lparr>vm_mm = mm, vm_start = start, vm_end = fin, vm_flags = flags\<rparr>"
      using p(4) sel(3) t(2) by (cases "vmas s v") simp
    moreover have "\<forall>x \<in> set vs. vmas t x = vmas s x" using p(4) same v t(2) by auto
    moreover have "mem t = (if out = NULL then mem s else st32 out v (mem s))"
      using insert_vma_mem [OF p(2)] pmm_frame_kmach(1) [OF k(4)] by (simp add: t_def wr32_def s2_def upd_vma_def)
    moreover have "vm_inv t mm (pre @ v # post)" using vm_inv_cong [OF p(3) t] .
    ultimately show ?thesis unfolding if_not_P [OF False] using p(1) by blast
  qed
qed

lemma mm_map_taken:
  assumes inv: "vm_inv s mm vs" and acc: "isUserCanAccess start fin"
    and start: "start = ROUNDDOWN va PGSIZE" and fin: "fin = ROUNDUP (va + len) PGSIZE"
    and tk: "\<exists>v \<in> set vs. in_vma s start v"
  shows "\<exists>s'. mm_map mm va len flags out s = Ret (- E_INVAL, s') \<and> vm_inv s' mm vs \<and> vmas s' = vmas s \<and> mem s' = mem s"
proof -
  obtain v where w: "find_vma mm start s = Ret (v, if v \<noteq> NULL then upd_mm mm (\<lambda>m. m\<lparr>vma_cache := v\<rparr>) s else s)"
    and i: "v \<in> set vs" "in_vma s start v"
    using find_vma_eq [OF inv, of start] unfolding if_P [OF tk] by blast
  have nn: "v \<noteq> NULL" "mm \<noteq> NULL" using i(1) inv unfolding vm_inv_def by metis+
  have v: "find_vma mm start s = Ret (v, upd_mm mm (\<lambda>m. m\<lparr>vma_cache := v\<rparr>) s)" using w nn(1) by simp
  have "vm_start (vmas s v) < fin" using i(2) acc by (auto simp: in_vma_def isUserCanAccess_def)
  then have "mm_map mm va len flags out s = Ret (- E_INVAL, upd_mm mm (\<lambda>m. m\<lparr>vma_cache := v\<rparr>) s)"
    using v nn acc unfolding mm_map_def Let_def start [symmetric] fin [symmetric] by simp
  then show ?thesis using vm_inv_cache [OF inv i(1)] by (auto simp: upd_mm_def)
qed

lemma mm_map_full:
  assumes inv: "vm_inv s mm vs" and pmm: "pmm_inv s" "free_set s = {}" and acc: "isUserCanAccess start fin"
    and start: "start = ROUNDDOWN va PGSIZE" and fin: "fin = ROUNDUP (va + len) PGSIZE"
    and free: "\<not> (\<exists>v \<in> set vs. in_vma s start v)"
  shows "mm_map mm va len flags out s = Undef"
proof -
  have mm: "mm \<noteq> NULL" using inv by (simp add: vm_inv_def)
  have fv: "find_vma mm start s = Ret (NULL, s)" using find_vma_eq [OF inv, of start] free by auto
  have "npages sizeof_VirtMemArea_t = 1" unfolding npages_def by simp
  then have "kmalloc sizeof_VirtMemArea_t s = Undef" using kmalloc_Undef [OF pmm(1), of sizeof_VirtMemArea_t] pmm(2) by simp
  then show ?thesis using fv mm acc unfolding mm_map_def Let_def start [symmetric] fin [symmetric] by (simp add: vma_create_def)
qed

section \<open>Sample state\<close>

text \<open>The sample allocator state and an address space at 0xC0001000 with one area, described at 0xC0002000.\<close>

definition sample_kvm :: kvm where
  "sample_kvm = ksync.extend
     (sample_sync\<lparr>PageCount := PageCount sample_kmach, Pages := Pages sample_kmach, FreeLinks := FreeLinks sample_kmach,
        free_page_count := free_page_count sample_kmach, FreeMemStart := FreeMemStart sample_kmach,
        PhyMemEnd := PhyMemEnd sample_kmach, PhyMemSize := PhyMemSize sample_kmach, PagesAddr := PagesAddr sample_kmach,
        mem := mem sample_kmach, cr3 := cr3 sample_kmach, tlb := tlb sample_kmach\<rparr>)
     (kvm.fields (\<lambda>_. \<lparr>vma_cache = 0, pgdir = 0xC0003000, vma_count = 1, mm_ref = 1, lock_tid = 0\<rparr>)
       (\<lambda>_. \<lparr>vm_mm = 0xC0001000, vm_start = 0x800000, vm_end = 0x900000, vm_flags = 3\<rparr>)
       (listAddTail (VmaHead 0xC0001000) (VmaN 0xC0002000)
          (initList (VmaHead 0xC0001000) \<lparr>lp_prev = (\<lambda>x. x), lp_next = (\<lambda>x. x)\<rparr>))
       (\<lambda>_. \<lparr>if_gs = 0, if_fs = 0, if_es = 0, if_ds = 0, if_edi = 0, if_esi = 0, if_ebp = 0, if_esp = 0, if_ebx = 0,
         if_edx = 0, if_ecx = 0, if_eax = 0, int_no = 0, err_code = 0, if_eip = 0, if_cs = 0, if_eflags = 0,
         user_esp = 0, if_ss = 0\<rparr>) 0)"

lemma sample_kvm_sel:
  "PageCount sample_kvm = 8" "Pages sample_kvm = Pages sample_kmach" "FreeLinks sample_kvm = FreeLinks sample_kmach"
  "free_page_count sample_kvm = free_page_count sample_kmach" "mem sample_kvm = mem sample_kmach"
  "vmas sample_kvm = (\<lambda>_. \<lparr>vm_mm = 0xC0001000, vm_start = 0x800000, vm_end = 0x900000, vm_flags = 3\<rparr>)"
  "mms sample_kvm = (\<lambda>_. \<lparr>vma_cache = 0, pgdir = 0xC0003000, vma_count = 1, mm_ref = 1, lock_tid = 0\<rparr>)"
  "VmaLinks sample_kvm = listAddTail (VmaHead 0xC0001000) (VmaN 0xC0002000)
     (initList (VmaHead 0xC0001000) \<lparr>lp_prev = (\<lambda>x. x), lp_next = (\<lambda>x. x)\<rparr>)"
  "TestMM sample_kvm = 0" "cr3 sample_kvm = cr3 sample_kmach"
  using sample_kmach_pmm(3)
  by (simp_all add: sample_kvm_def ksync.defs kvm.defs sample_sync_def ksched.defs sample_sched_def)

lemma sample_kvm_pmm: "pmm_inv sample_kvm" "free_set sample_kvm = {4 ..< 8}"
proof -
  have "pmm_rel sample_kvm bs = pmm_rel sample_kmach bs" for bs
    using sample_kmach_pmm(3) by (simp add: pmm_rel_def sample_kvm_sel)
  then show "pmm_inv sample_kvm" using sample_kmach_pmm(1) by (simp add: pmm_inv_def)
  have "free_set sample_kvm = free_set sample_kmach"
    using sample_kmach_pmm(3) by (simp add: free_set_def sample_kvm_sel)
  then show "free_set sample_kvm = {4 ..< 8}" using sample_kmach_pmm(2) by simp
qed

lemma sample_kvm_inv: "vm_inv sample_kvm 0xC0001000 [0xC0002000]"
proof -
  have "dlist (listAddTail (VmaHead 0xC0001000) (VmaN 0xC0002000)
     (initList (VmaHead 0xC0001000) \<lparr>lp_prev = (\<lambda>x. x), lp_next = (\<lambda>x. x)\<rparr>)) (VmaHead 0xC0001000) ([] @ [VmaN 0xC0002000])"
    by (rule ll.rep_add_tail) (simp_all add: ll.rep_init)
  then show ?thesis by (simp add: vm_inv_def sample_kvm_sel)
qed

lemma sample_kvm_owned: "heap_owned sample_kvm 0xC0002000"
  by (simp add: heap_owned_def sample_kvm_pmm(2))

section \<open>Properties\<close>

text \<open>
  C13: \<^verbatim>\<open>find_vma\<close> returns the one area that contains the address, and \<^verbatim>\<open>NULL\<close> when no area does, whatever
  the cache holds; the only field it writes is the cache.
\<close>

theorem find_vma_correct:
  assumes "vm_inv s mm vs"
  shows "\<exists>v s'. find_vma mm x s = Ret (v, s') \<and> vm_inv s' mm vs \<and> vmas s' = vmas s \<and>
    (v = NULL \<longleftrightarrow> (\<forall>a \<in> set vs. \<not> in_vma s x a)) \<and>
    (v \<noteq> NULL \<longrightarrow> (\<forall>a \<in> set vs. in_vma s x a \<longleftrightarrow> a = v) \<and> v \<in> set vs)"
proof -
  obtain v where v: "find_vma mm x s = Ret (v, if v \<noteq> NULL then upd_mm mm (\<lambda>m. m\<lparr>vma_cache := v\<rparr>) s else s)"
    "if \<exists>a \<in> set vs. in_vma s x a then v \<in> set vs \<and> in_vma s x v else v = NULL"
    using find_vma_eq [OF assms] by blast
  have nul: "NULL \<notin> set vs" using assms by (simp add: vm_inv_def)
  show ?thesis
  proof (cases "\<exists>a \<in> set vs. in_vma s x a")
    case True
    then have i: "v \<in> set vs" "in_vma s x v" using v(2) by simp_all
    have "v \<noteq> NULL" using i(1) nul by metis
    moreover have "in_vma s x a \<longleftrightarrow> a = v" if "a \<in> set vs" for a
      using vma_unique [OF assms that i(1) _ i(2)] i(2) by blast
    moreover have "find_vma mm x s = Ret (v, upd_mm mm (\<lambda>m. m\<lparr>vma_cache := v\<rparr>) s)"
      using v(1) \<open>v \<noteq> NULL\<close> by simp
    ultimately show ?thesis
      using vm_inv_cache [OF assms i(1)] i True
      by (intro exI [of _ v] exI [of _ "upd_mm mm (\<lambda>m. m\<lparr>vma_cache := v\<rparr>) s"]) simp
  next
    case False
    then show ?thesis using v assms by auto
  qed
qed

theorem find_vma_correct_witness:
  "\<exists>s'. find_vma 0xC0001000 0x812345 sample_kvm = Ret (0xC0002000, s')"
  using find_vma_correct [OF sample_kvm_inv, of "0x812345"] by (auto simp: in_vma_def sample_kvm_sel)

text \<open>
  C14: \<^verbatim>\<open>insert_vma\<close> of a well-formed new area keeps the list sorted by address and the areas disjoint, or
  panics; it panics exactly when the new area overlaps one in the list.
\<close>

theorem insert_vma_correct:
  assumes "vm_inv s mm vs" and "v \<notin> set vs" and "v \<noteq> NULL" and "vm_start (vmas s v) < vm_end (vmas s v)"
  shows "if \<exists>x \<in> set vs. overlap (vmas s v) (vmas s x)
    then insert_vma mm v s = Panic '' vma overlap :pend>=nstart!''
    else \<exists>s' pre post. vs = pre @ post \<and> insert_vma mm v s = Ret s' \<and> vm_inv s' mm (pre @ v # post) \<and>
      vmas s' = (vmas s)(v := (vmas s v)\<lparr>vm_mm := mm\<rparr>)"
  by (rule insert_vma_ok [OF assms])

theorem insert_vma_correct_witness:
  "insert_vma 0xC0001000 0xC0002100 sample_kvm = Panic '' vma overlap :pend>=nstart!''"
  using insert_vma_correct [OF sample_kvm_inv, of "0xC0002100"]
  by (simp add: overlap_def sample_kvm_sel)

text \<open>
  C15: \<^verbatim>\<open>mm_map\<close> on each of its branches.  A range outside user space and a null \<^verbatim>\<open>mm\<close> are refused with \<^verbatim>\<open>-E_INVAL\<close> without
  any effect; when the first page lies in an existing area it returns \<^verbatim>\<open>-E_INVAL\<close> and the areas stay as they are.  Otherwise,
  with no free page the allocator uses the null page, so that \<^verbatim>\<open>-E_NOMEM\<close> is never returned; when a later page of the range
  lies in an existing area, the kernel panics instead of returning an error; and in the remaining case exactly one area is
  added, from the first page to the last of the range, and stored through \<^verbatim>\<open>vma_out\<close> unless that is null.
\<close>

theorem mm_map_correct:
  fixes s :: "'a kvm_scheme"
  assumes "mm \<noteq> NULL \<longrightarrow> vm_inv s mm vs \<and> (\<forall>v \<in> set vs. heap_owned s v)" and "pmm_inv s" and "unat (PageCount s) \<le> 0x40000"
    and "start = ROUNDDOWN va PGSIZE" and "fin = ROUNDUP (va + len) PGSIZE"
  shows "if \<not> isUserCanAccess start fin \<or> mm = NULL then mm_map mm va len flags out s = Ret (- E_INVAL, s)
    else if \<exists>v \<in> set vs. in_vma s start v
    then \<exists>s'. mm_map mm va len flags out s = Ret (- E_INVAL, s') \<and> vm_inv s' mm vs \<and> vmas s' = vmas s \<and> mem s' = mem s
    else if free_set s = {} then mm_map mm va len flags out s = Undef
    else if \<exists>v \<in> set vs. vm_start (vmas s v) < fin \<and> start < vm_end (vmas s v)
    then mm_map mm va len flags out s = Panic '' vma overlap :pend>=nstart!''
    else \<exists>s' v pre post. mm_map mm va len flags out s = Ret (E_OK, s') \<and> vs = pre @ post \<and>
      vm_inv s' mm (pre @ v # post) \<and>
      vmas s' v = \<lparr>vm_mm = mm, vm_start = start, vm_end = fin, vm_flags = flags\<rparr> \<and>
      (\<forall>x \<in> set vs. vmas s' x = vmas s x) \<and> mem s' = (if out = NULL then mem s else st32 out v (mem s))"
proof (cases "\<not> isUserCanAccess start fin \<or> mm = NULL")
  case True
  then have "mm_map mm va len flags out s = Ret (- E_INVAL, s)"
    unfolding mm_map_def Let_def assms(4,5) [symmetric] by auto
  then show ?thesis unfolding if_P [OF True] .
next
  case 1: False
  then have inv: "vm_inv s mm vs" "\<forall>v \<in> set vs. heap_owned s v" and acc: "isUserCanAccess start fin" using assms(1) by auto
  consider (taken) "\<exists>v \<in> set vs. in_vma s start v" | (full) "\<not> (\<exists>v \<in> set vs. in_vma s start v)" "free_set s = {}"
    | (rest) "\<not> (\<exists>v \<in> set vs. in_vma s start v)" "free_set s \<noteq> {}" by blast
  then show ?thesis
  proof cases
    case taken
    show ?thesis unfolding if_not_P [OF 1] if_P [OF taken] by (rule mm_map_taken [OF inv(1) acc assms(4,5) taken])
  next
    case full
    show ?thesis unfolding if_not_P [OF 1] if_not_P [OF full(1)] if_P [OF full(2)]
      by (rule mm_map_full [OF inv(1) assms(2) full(2) acc assms(4,5) full(1)])
  next
    case rest
    show ?thesis unfolding if_not_P [OF 1] if_not_P [OF rest(1)] if_not_P [OF rest(2)]
      by (rule mm_map_ok [OF inv(1) assms(2,3) rest(2) inv(2) acc assms(4,5) rest(1)])
  qed
qed

theorem mm_map_correct_witness:
  "\<exists>s' v. mm_map 0xC0001000 0x700010 0x2000 3 0xC0008000 sample_kvm = Ret (0, s') \<and> ld32 (mem s') 0xC0008000 = v \<and> vm_inv s' 0xC0001000 [v, 0xC0002000] \<and>
     vmas s' v = \<lparr>vm_mm = 0xC0001000, vm_start = 0x700000, vm_end = 0x703000, vm_flags = 3\<rparr>"
proof -
  have acc: "isUserCanAccess 0x700000 0x703000" by (simp add: isUserCanAccess_def)
  have r: "0x700000 = ROUNDDOWN 0x700010 PGSIZE" "0x703000 = ROUNDUP (0x700010 + 0x2000) PGSIZE"
    by (simp_all add: ROUNDUP_def ROUNDDOWN_def)
  have h: "0xC0001000 \<noteq> NULL \<longrightarrow> vm_inv sample_kvm 0xC0001000 [0xC0002000] \<and> (\<forall>v \<in> set [0xC0002000]. heap_owned sample_kvm v)"
    "unat (PageCount sample_kvm) \<le> 0x40000" and ne: "free_set sample_kvm \<noteq> {}"
    using sample_kvm_pmm(2) sample_kvm_owned sample_kvm_inv by (simp_all add: sample_kvm_sel)
  have n3: "\<not> (0xC0008000 :: u32) = NULL" by simp
  have n0: "\<not> (\<not> isUserCanAccess 0x700000 0x703000 \<or> (0xC0001000 :: u32) = NULL)" using acc by simp
  have n1: "\<not> (\<exists>v \<in> set [0xC0002000]. in_vma sample_kvm 0x700000 v)"
    and n2: "\<not> (\<exists>v \<in> set [0xC0002000]. vm_start (vmas sample_kvm v) < 0x703000 \<and> 0x700000 < vm_end (vmas sample_kvm v))"
    by (simp_all add: in_vma_def sample_kvm_sel)
  obtain s' v pre post where p: "mm_map 0xC0001000 0x700010 0x2000 3 0xC0008000 sample_kvm = Ret (0, s')"
    "[0xC0002000] = pre @ post" "vm_inv s' 0xC0001000 (pre @ v # post)"
    "vmas s' v = \<lparr>vm_mm = 0xC0001000, vm_start = 0x700000, vm_end = 0x703000, vm_flags = 3\<rparr>"
    "\<forall>x \<in> set [0xC0002000]. vmas s' x = vmas sample_kvm x" "mem s' = st32 0xC0008000 v (mem sample_kvm)"
    using mm_map_correct [OF h(1) sample_kvm_pmm(1) h(2) r, where flags = 3 and out = "0xC0008000",
        unfolded if_not_P [OF n0] if_not_P [OF n1] if_not_P [OF ne] if_not_P [OF n2] if_not_P [OF n3]] by blast
  have "pre = []"
  proof (rule ccontr)
    assume "pre \<noteq> []"
    then have "pre = [0xC0002000]" using p(2) by (cases pre) auto
    then have "vm_end (vmas s' 0xC0002000) \<le> vm_start (vmas s' v)" using p(3) by (simp add: vm_inv_def)
    then show False using p(4,5) by (simp add: sample_kvm_sel)
  qed
  then show ?thesis using p by auto
qed

end
