(* ===== verification/Task_Core.thy ===== *)
theory Task_Core
  imports VMM_Correct
begin

text \<open>
  Task structures and exit: the part of \<^verbatim>\<open>kern/krnl/task/task.c\<close> that allocates tasks, keeps the list
  of all tasks and the family links (parent, youngest child, younger and older sibling), sets up page
  directories, and ends a task.
\<close>

abbreviation (input) TASK_NAME_LEN :: nat where "TASK_NAME_LEN \<equiv> 31"
abbreviation (input) sizeof_Task_t :: u32 where "sizeof_Task_t \<equiv> 148"
abbreviation (input) PF_EXITING :: u32 where "PF_EXITING \<equiv> 1"

text \<open>The list pointers of \<^verbatim>\<open>TaskList\<close>: its head and the field \<^verbatim>\<open>ptr\<close> of a task.\<close>

datatype task_node = TaskHead | TaskN ptr

fun lp2task :: "task_node \<Rightarrow> ptr" where
  "lp2task (TaskN t) = t"
| "lp2task TaskHead = NULL"

record ktask = kvm +
  init_task :: ptr
  TaskLinks :: "task_node list_heap"
  TaskCount :: u32

section \<open>Allocation\<close>

definition zero_context :: cpu_context where
  "zero_context = \<lparr>eip = 0, esp = 0, ebx = 0, ecx = 0, edx = 0, esi = 0, edi = 0, ebp = 0\<rparr>"

definition allocTask :: "'a ktask_scheme \<Rightarrow> (ptr \<times> 'a ktask_scheme) kres" where
  "allocTask s =
     kbind (kmalloc sizeof_Task_t s) (\<lambda>(task, s1).
       Ret (task, if task = NULL then s1
         else upd_task task (\<lambda>t. t\<lparr>tstate := TASK_UNINIT, wait_state := WT_NOTWAIT, time_slice := 0,
                need_resched := False, tid := -1, runs := 0, kstack := NULL, parent := NULL, cptr := NULL,
                optr := NULL, yptr := NULL, tmm := NULL, tcontext := zero_context, tif := NULL,
                tcr3 := kernel_cr3 s1, tflags := 0,
                tname := replicate TASK_NAME_LEN 0 @ drop TASK_NAME_LEN (tname t), tfiles := NULL\<rparr>) s1))"

definition setupNewKstack :: "ptr \<Rightarrow> 'a ktask_scheme \<Rightarrow> (int \<times> 'a ktask_scheme) kres" where
  "setupNewKstack task s =
     kbind (kmalloc KSTACKSIZE s) (\<lambda>(stack, s1).
       Ret (if stack \<noteq> NULL then (0, upd_task task (\<lambda>t. t\<lparr>kstack := stack\<rparr>) s1) else (E_NOMEM, s1)))"

definition freeKstack :: "ptr \<Rightarrow> 'a ktask_scheme \<Rightarrow> 'a ktask_scheme kres" where
  "freeKstack task s = kfree (kstack (tasks s task)) KSTACKSIZE s"

text \<open>\<open>name\<close> is the source buffer as a list of at least 31 bytes.\<close>

definition setTaskName :: "ptr \<Rightarrow> u8 list \<Rightarrow> 'a ktask_scheme \<Rightarrow> 'a ktask_scheme" where
  "setTaskName task name s = upd_task task (\<lambda>t. t\<lparr>tname := take TASK_NAME_LEN name @ [0]\<rparr>) s"

section \<open>The task list and the family links\<close>

definition add_task :: "ptr \<Rightarrow> 'a ktask_scheme \<Rightarrow> 'a ktask_scheme" where
  "add_task task s =
     (let s1 = s\<lparr>TaskLinks := listAdd TaskHead (TaskN task) (TaskLinks s)\<rparr>;
          s2 = upd_task task (\<lambda>t. t\<lparr>yptr := NULL\<rparr>) s1;
          p = parent (tasks s2 task);
          old = cptr (tasks s2 p);
          s3 = upd_task task (\<lambda>t. t\<lparr>optr := old\<rparr>) s2;
          s4 = (if old \<noteq> NULL then upd_task (optr (tasks s3 task)) (\<lambda>t. t\<lparr>yptr := task\<rparr>) s3 else s3);
          s5 = upd_task (parent (tasks s4 task)) (\<lambda>t. t\<lparr>cptr := task\<rparr>) s4
      in s5\<lparr>TaskCount := TaskCount s5 + 1\<rparr>)"

definition del_task :: "ptr \<Rightarrow> 'a ktask_scheme \<Rightarrow> 'a ktask_scheme" where
  "del_task task s =
     (let s1 = s\<lparr>TaskLinks := listDel (TaskN task) (TaskLinks s)\<rparr>;
          s2 = (if optr (tasks s1 task) \<noteq> NULL
                then upd_task (optr (tasks s1 task)) (\<lambda>t. t\<lparr>yptr := yptr (tasks s1 task)\<rparr>) s1 else s1);
          s3 = (if yptr (tasks s2 task) \<noteq> NULL
                then upd_task (yptr (tasks s2 task)) (\<lambda>t. t\<lparr>optr := optr (tasks s2 task)\<rparr>) s2
                else upd_task (parent (tasks s2 task)) (\<lambda>t. t\<lparr>cptr := optr (tasks s2 task)\<rparr>) s2)
      in s3\<lparr>TaskCount := TaskCount s3 - 1\<rparr>)"

definition find_task :: "int \<Rightarrow> 'a ktask_scheme \<Rightarrow> ptr kres" where
  "find_task i s =
     kbind (kloop (listFind (TaskLinks s) TaskHead (\<lambda>n. i = tid (tasks s (lp2task n)))))
       (\<lambda>r. Ret (case r of None \<Rightarrow> NULL | Some n \<Rightarrow> lp2task n))"

text \<open>The static variable \<^verbatim>\<open>newestPid\<close> is overwritten on entry and carries nothing over.\<close>

definition get_new_tid :: "'a ktask_scheme \<Rightarrow> u32" where
  "get_new_tid s = (TaskCount s - 1) + 1"

section \<open>Page directories\<close>

definition setup_pgdir :: "ptr \<Rightarrow> 'a ktask_scheme \<Rightarrow> (int \<times> 'a ktask_scheme) kres" where
  "setup_pgdir mm s =
     kbind (allocPhyPages 1 s) (\<lambda>(phypage, s1).
       case phypage of
         None \<Rightarrow> Ret (- E_NOMEM, s1)
       | Some page \<Rightarrow>
           kbind (page2kva page s1) (\<lambda>d.
             let s2 = s1\<lparr>mem := snd (memcpy d (KernelPGD s1) PGSIZE (mem s1))\<rparr>
             in Ret (0, upd_mm mm (\<lambda>m. m\<lparr>pgdir := d\<rparr>) s2)))"

definition put_pgdir :: "ptr \<Rightarrow> 'a ktask_scheme \<Rightarrow> 'a ktask_scheme kres" where
  "put_pgdir mm s = kbind (kva2page (pgdir (mms s mm)) s) (\<lambda>page. freePhyPages page 1 s)"

section \<open>Exit\<close>

text \<open>The end of an address space, as \<^verbatim>\<open>do_exit\<close> and \<^verbatim>\<open>do_execve\<close> perform it.\<close>

definition drop_mm :: "ptr \<Rightarrow> 'a ktask_scheme \<Rightarrow> 'a ktask_scheme kres" where
  "drop_mm mm s =
     (let s1 = lcr3 (kernel_cr3 s) s; (r, s2) = mm_ref_dec mm s1
      in kbind (if r = 0
                then kbind (exit_mmap mm s2) (\<lambda>s3. kbind (put_pgdir mm s3) (\<lambda>s4. mm_destroy mm s4))
                else Ret s2) (\<lambda>s5.
           Ret (upd_task (CurrentTask s5) (\<lambda>t. t\<lparr>tmm := NULL\<rparr>) s5)))"

text \<open>
  One round of the loop that gives the children of the current task \<open>c\<close> to \<^verbatim>\<open>init\<close>: the links of the
  child \<open>p\<close>, then the wake-up of \<^verbatim>\<open>init\<close>.
\<close>

definition move_child :: "ptr \<Rightarrow> ptr \<Rightarrow> ptr \<Rightarrow> 'a ktask_scheme \<Rightarrow> 'a ktask_scheme" where
  "move_child c i p s =
     (let s1 = upd_task c (\<lambda>t. t\<lparr>cptr := optr (tasks s p)\<rparr>) s;
          s2 = upd_task p (\<lambda>t. t\<lparr>yptr := NULL\<rparr>) s1;
          old = cptr (tasks s2 i);
          s3 = upd_task p (\<lambda>t. t\<lparr>optr := old\<rparr>) s2;
          s4 = (if old \<noteq> NULL then upd_task (cptr (tasks s3 i)) (\<lambda>t. t\<lparr>yptr := p\<rparr>) s3 else s3);
          s5 = upd_task p (\<lambda>t. t\<lparr>parent := i\<rparr>) s4
      in upd_task i (\<lambda>t. t\<lparr>cptr := p\<rparr>) s5)"

definition reparent_body :: "'a ktask_scheme \<Rightarrow> ('a ktask_scheme + 'a ktask_scheme) kres" where
  "reparent_body s =
     (let c = CurrentTask s; i = init_task s; p = cptr (tasks s c)
      in if p = NULL then Ret (Inr s)
         else let s1 = move_child c i p s
              in kbind (if tstate (tasks s1 p) = TASK_ZOMBIE \<and> wait_state (tasks s1 i) = WT_CHILD
                        then wakeupTask i s1 else Ret s1) (\<lambda>s2. Ret (Inl s2)))"

text \<open>
  The task after the last call of \<^verbatim>\<open>schedule\<close> is another one; were the exiting task to run again, it
  would reach the final \<^verbatim>\<open>panic\<close>.
\<close>

definition do_exit :: "int \<Rightarrow> 'a ktask_scheme \<Rightarrow> 'a ktask_scheme kres" where
  "do_exit code s =
     (if CurrentTask s = idle_task s then Panic ''Trying to exit idle!''
      else let c = CurrentTask s; mm = tmm (tasks s c)
           in kbind (if mm \<noteq> NULL then drop_mm mm s else Ret s) (\<lambda>s1.
              let s2 = upd_task c (\<lambda>t. t\<lparr>tstate := TASK_ZOMBIE, exit_code := code\<rparr>) s1;
                  p = parent (tasks s2 c)
              in kbind (if wait_state (tasks s2 p) = WT_CHILD then wakeupTask p s2 else Ret s2) (\<lambda>s3.
                 kbind (kwhile reparent_body s3) (\<lambda>s4.
                 kbind (schedule s4) (\<lambda>s5.
                   if CurrentTask s5 = c then Panic ''do_exit will not return!'' else Ret s5)))))"

end
