(* ===== verification/Task_Exit.thy ===== *)
theory Task_Exit
  imports Task_Core
begin

text \<open>
  Correctness of the family links and of \<^verbatim>\<open>do_exit\<close>.  \<open>family T p cs\<close> says that \<open>cs\<close> are the children
  of \<open>p\<close>, youngest first, linked through \<^verbatim>\<open>cptr\<close>, \<^verbatim>\<open>optr\<close> and \<^verbatim>\<open>yptr\<close>.
\<close>

section \<open>Children as a list\<close>

fun sibs :: "(ptr \<Rightarrow> task) \<Rightarrow> ptr \<Rightarrow> ptr \<Rightarrow> ptr list \<Rightarrow> bool" where
  "sibs T y x [] = (x = NULL)"
| "sibs T y x (c # cs) = (x = c \<and> c \<noteq> NULL \<and> yptr (T c) = y \<and> sibs T c (optr (T c)) cs)"

definition family :: "(ptr \<Rightarrow> task) \<Rightarrow> ptr \<Rightarrow> ptr list \<Rightarrow> bool" where
  "family T p cs \<longleftrightarrow> sibs T NULL (cptr (T p)) cs \<and> distinct cs \<and> (\<forall>c \<in> set cs. parent (T c) = p)"

lemma sibs_cong:
  assumes "\<And>c. c \<in> set cs \<Longrightarrow> yptr (T' c) = yptr (T c) \<and> optr (T' c) = optr (T c)"
  shows "sibs T' y x cs = sibs T y x cs"
  using assms by (induction cs arbitrary: y x) auto

lemma sibs_head:
  assumes "sibs T y x cs" and "\<And>c. c \<in> set (tl cs) \<Longrightarrow> yptr (T' c) = yptr (T c)"
    and "\<And>c. c \<in> set cs \<Longrightarrow> optr (T' c) = optr (T c)" and "cs \<noteq> [] \<Longrightarrow> yptr (T' x) = y'"
  shows "sibs T' y' x cs"
proof (cases cs)
  case (Cons c ds)
  have "sibs T' c (optr (T c)) ds = sibs T c (optr (T c)) ds"
    using assms(2,3) Cons by (intro sibs_cong) auto
  then show ?thesis using assms Cons by auto
qed (use assms in simp)

lemma sibs_nonnull: "sibs T y x cs \<Longrightarrow> NULL \<notin> set cs"
  by (induction cs arbitrary: y x) auto

text \<open>A stretch of siblings that ends in front of \<open>z\<close>.\<close>

fun seg :: "(ptr \<Rightarrow> task) \<Rightarrow> ptr \<Rightarrow> ptr \<Rightarrow> ptr list \<Rightarrow> ptr \<Rightarrow> bool" where
  "seg T y x [] z = (x = z)"
| "seg T y x (c # cs) z = (x = c \<and> c \<noteq> NULL \<and> yptr (T c) = y \<and> seg T c (optr (T c)) cs z)"

lemma sibs_append: "sibs T y x (cs @ ds) \<longleftrightarrow> (\<exists>z. seg T y x cs z \<and> sibs T (last (y # cs)) z ds)"
  by (induction cs arbitrary: y x) auto

lemma seg_snoc: "seg T y x (cs @ [c]) z \<longleftrightarrow> seg T y x cs c \<and> c \<noteq> NULL \<and> yptr (T c) = last (y # cs) \<and> optr (T c) = z"
  by (induction cs arbitrary: y x) auto

lemma seg_cong:
  assumes "\<And>c. c \<in> set cs \<Longrightarrow> yptr (T' c) = yptr (T c) \<and> optr (T' c) = optr (T c)"
  shows "seg T' y x cs z = seg T y x cs z"
  using assms by (induction cs arbitrary: y x) auto

section \<open>The links every other operation leaves alone\<close>

definition kin :: "task \<Rightarrow> ptr \<times> ptr \<times> ptr \<times> ptr \<times> int \<times> int \<times> ptr \<times> ptr" where
  "kin t = (parent t, cptr t, yptr t, optr t, exit_code t, tid t, tmm t, kstack t)"

lemma kinD:
  "kin t = kin u \<Longrightarrow> parent t = parent u \<and> cptr t = cptr u \<and> yptr t = yptr u \<and> optr t = optr u \<and>
     exit_code t = exit_code u \<and> tid t = tid u \<and> tmm t = tmm u"
  by (simp add: kin_def)

lemma family_cong:
  assumes "\<And>x. parent (T' x) = parent (T x)" "\<And>x. cptr (T' x) = cptr (T x)" "\<And>x. yptr (T' x) = yptr (T x)"
    "\<And>x. optr (T' x) = optr (T x)"
  shows "family T' p cs = family T p cs"
  using assms sibs_cong [of cs T' T] by (simp add: family_def)

lemma family_kin: "\<forall>x. kin (T' x) = kin (T x) \<Longrightarrow> family T' p cs = family T p cs"
  by (rule family_cong) (auto dest!: spec kinD)

lemma enqueue_kin: "enqueueRunQueue t s = Ret s' \<Longrightarrow> kin (tasks s' x) = kin (tasks s x)"
  by (auto simp: enqueueRunQueue_def kin_def upd_task_def Let_def split: if_splits)

lemma wakeup_kin: "wakeupTask t s = Ret s' \<Longrightarrow> kin (tasks s' x) = kin (tasks s x)"
proof -
  assume w: "wakeupTask t s = Ret s'"
  let ?s = "upd_task t (\<lambda>t. t\<lparr>tstate := TASK_RUNNABLE, wait_state := WT_NOTWAIT\<rparr>) s"
  have "kin (tasks ?s x) = kin (tasks s x)" by (simp add: upd_task_def kin_def)
  moreover have "s' = s \<or> s' = ?s \<or> enqueueRunQueue t ?s = Ret s'"
    using w by (auto simp: wakeupTask_def Let_def split: if_splits)
  ultimately show ?thesis using enqueue_kin [of t ?s s' x] by auto
qed

lemma runTask_kin: "kin (tasks (runTask t s) x) = kin (tasks s x)"
  by (simp add: runTask_def switch_to_s_def upd_task_def lcr3_def kin_def Let_def)

lemma dequeue_kin: "dequeueRunQueue t s = Ret s' \<Longrightarrow> kin (tasks s' x) = kin (tasks s x)"
  by (auto simp: dequeueRunQueue_def Let_def split: if_splits)

lemma schedule_kin: "schedule s = Ret s' \<Longrightarrow> kin (tasks s' x) = kin (tasks s x)"
proof -
  assume sc: "schedule s = Ret s'"
  let ?s1 = "upd_task (CurrentTask s) (\<lambda>t. t\<lparr>need_resched := False\<rparr>) s"
  have k1: "kin (tasks ?s1 x) = kin (tasks s x)" by (simp add: upd_task_def kin_def)
  obtain s2 s3 where s2: "s2 = ?s1 \<or> enqueueRunQueue (CurrentTask ?s1) ?s1 = Ret s2"
    and s3: "s3 = s2 \<or> (\<exists>t. dequeueRunQueue t s2 = Ret s3)" and s': "s' = s3 \<or> (\<exists>t. s' = runTask t s3)"
    using sc unfolding schedule_def Let_def kbind_eq_Ret by (auto split: if_splits)
  have "kin (tasks s2 x) = kin (tasks s x)" using s2 k1 enqueue_kin by metis
  moreover have "kin (tasks s3 x) = kin (tasks s2 x)" using s3 dequeue_kin by metis
  moreover have "kin (tasks s' x) = kin (tasks s3 x)" using s' runTask_kin by metis
  ultimately show ?thesis by simp
qed

lemma ktask_more:
  fixes s t :: "'a ktask_scheme"
  assumes "ksched.more t = ksched.more s"
  shows "init_task t = init_task s" "TaskLinks t = TaskLinks s" "TaskCount t = TaskCount s" "mms t = mms s"
  using assms by (cases s, cases t, simp)+

section \<open>Adding and removing\<close>

lemma upd_task_tasks [simp]: "tasks (upd_task t f s) = (tasks s)(t := f (tasks s t))"
  by (simp add: upd_task_def)

text \<open>Putting a task in front of the children of \<open>p\<close>, the common part of \<^verbatim>\<open>add_task\<close> and the exit loop.\<close>

lemma family_push:
  assumes f: "family T p cs" and t: "t \<notin> set cs" "t \<noteq> NULL" "t \<noteq> p"
    and T': "optr (T' t) = cptr (T p)" "yptr (T' t) = NULL" "parent (T' t) = p" "cptr (T' p) = t"
    and oth: "\<And>c. c \<in> set cs \<Longrightarrow> optr (T' c) = optr (T c) \<and> parent (T' c) = p \<and>
      yptr (T' c) = (if c = cptr (T p) then t else yptr (T c))"
  shows "family T' p (t # cs)"
proof -
  have s: "sibs T NULL (cptr (T p)) cs" "distinct cs" using f by (simp_all add: family_def)
  have hd: "cs \<noteq> [] \<Longrightarrow> cptr (T p) = hd cs" using s(1) by (cases cs) auto
  have "sibs T' t (cptr (T p)) cs"
  proof (rule sibs_head [OF s(1)])
    fix c assume c: "c \<in> set (tl cs)"
    then have "c \<in> set cs" "c \<noteq> hd cs" using s(2) by (cases cs; auto)+
    then show "yptr (T' c) = yptr (T c)" using oth hd c by fastforce
  next
    assume "cs \<noteq> []"
    then show "yptr (T' (cptr (T p))) = t" using oth [of "hd cs"] hd by simp
  qed (use oth in blast)
  then show ?thesis using t T' oth s(2) by (simp add: family_def)
qed

lemma add_task_tasks:
  assumes "parent (tasks s t) = p" "t \<noteq> p" "cptr (tasks s p) \<noteq> t" "cptr (tasks s p) \<noteq> p"
  shows "tasks (add_task t s) = (if cptr (tasks s p) \<noteq> NULL
    then (tasks s)(t := (tasks s t)\<lparr>yptr := NULL, optr := cptr (tasks s p)\<rparr>,
      cptr (tasks s p) := (tasks s (cptr (tasks s p)))\<lparr>yptr := t\<rparr>, p := (tasks s p)\<lparr>cptr := t\<rparr>)
    else (tasks s)(t := (tasks s t)\<lparr>yptr := NULL, optr := NULL\<rparr>, p := (tasks s p)\<lparr>cptr := t\<rparr>))"
  using assms by (simp add: add_task_def Let_def)

lemma family_first:
  "family T p cs \<Longrightarrow> cptr (T p) = (case cs of [] \<Rightarrow> NULL | c # _ \<Rightarrow> c)"
  by (cases cs) (auto simp: family_def)

lemma add_task_family:
  assumes f: "family (tasks s) p cs" and t: "t \<notin> set cs" "t \<noteq> NULL" "t \<noteq> p" and par: "parent (tasks s t) = p"
    and p: "p \<notin> set cs" "p \<noteq> NULL"
  shows "family (tasks (add_task t s)) p (t # cs)"
proof (rule family_push [OF f t])
  have ct: "cptr (tasks s p) \<noteq> t" "cptr (tasks s p) \<noteq> p"
    using family_first [OF f] t p by (cases cs; auto)+
  note T = add_task_tasks [OF par t(3) ct]
  show "optr (tasks (add_task t s) t) = cptr (tasks s p)" "yptr (tasks (add_task t s) t) = NULL"
    "parent (tasks (add_task t s) t) = p" "cptr (tasks (add_task t s) p) = t"
    using ct t(3) par by (simp_all add: T)
  show "optr (tasks (add_task t s) x) = optr (tasks s x) \<and> parent (tasks (add_task t s) x) = p \<and>
      yptr (tasks (add_task t s) x) = (if x = cptr (tasks s p) then t else yptr (tasks s x))" if x: "x \<in> set cs" for x
  proof -
    have "x \<noteq> t" "x \<noteq> p" "parent (tasks s x) = p" using x t(1) p(1) f by (auto simp: family_def)
    moreover have "cptr (tasks s p) \<noteq> NULL" using x f by (cases cs) (auto simp: family_def)
    ultimately show ?thesis by (auto simp: T)
  qed
qed

lemma family_remove:
  assumes f: "family T p (xs @ t # ys)"
    and oth: "\<And>c. c \<in> set (xs @ ys) \<Longrightarrow> parent (T' c) = p \<and>
      yptr (T' c) = (if c = optr (T t) then yptr (T t) else yptr (T c)) \<and>
      optr (T' c) = (if c = yptr (T t) then optr (T t) else optr (T c))"
    and first: "cptr (T' p) = (if yptr (T t) = NULL then optr (T t) else cptr (T p))"
  shows "family T' p (xs @ ys)"
proof -
  have d: "distinct (xs @ t # ys)" and s: "sibs T NULL (cptr (T p)) (xs @ t # ys)" using f by (simp_all add: family_def)
  obtain z where z: "seg T NULL (cptr (T p)) xs z" "sibs T (last (NULL # xs)) z (t # ys)"
    using s by (auto simp: sibs_append)
  have t: "z = t" "t \<noteq> NULL" "yptr (T t) = last (NULL # xs)" "sibs T t (optr (T t)) ys" using z(2) by simp_all
  have nn: "NULL \<notin> set xs" using z(1) by (induction xs arbitrary: z rule: rev_induct) (auto simp: seg_snoc)
  have o: "optr (T t) = (case ys of [] \<Rightarrow> NULL | c # _ \<Rightarrow> c)" using t(4) by (cases ys) auto
  have ys: "sibs T' (last (NULL # xs)) (optr (T t)) ys"
  proof (rule sibs_head [OF t(4)])
    show "yptr (T' c) = yptr (T c)" if c: "c \<in> set (tl ys)" for c
    proof -
      have "c \<in> set ys" "c \<noteq> optr (T t)" using c d o by (cases ys; auto)+
      then show ?thesis using oth [of c] by simp
    qed
    show "optr (T' c) = optr (T c)" if c: "c \<in> set ys" for c
    proof -
      have "c \<noteq> last (NULL # xs)" using c d t(4) by (cases xs rule: rev_cases) (auto dest: sibs_nonnull)
      then show ?thesis using oth [of c] c t(3) by simp
    qed
    show "yptr (T' (optr (T t))) = last (NULL # xs)" if "ys \<noteq> []"
      using that oth [of "hd ys"] o t(3) by (cases ys) auto
  qed
  have seg': "seg T' NULL (cptr (T' p)) xs (optr (T t))"
  proof (cases xs rule: rev_cases)
    case Nil
    then show ?thesis using first t(3) by simp
  next
    case (snoc us u)
    have u: "u \<noteq> NULL" "u \<notin> set us" "yptr (T t) = u" using nn d t(3) snoc by auto
    have "c \<noteq> optr (T t)" if "c \<in> set xs" for c using that d nn o by (cases ys) auto
    then have "seg T' NULL (cptr (T p)) us u = seg T NULL (cptr (T p)) us u"
      using oth u snoc by (intro seg_cong) auto
    moreover have "u \<noteq> optr (T t)" using \<open>\<And>c. c \<in> set xs \<Longrightarrow> c \<noteq> optr (T t)\<close> snoc by simp
    ultimately show ?thesis using z(1) first u oth [of u] snoc by (simp add: seg_snoc)
  qed
  have "sibs T' NULL (cptr (T' p)) (xs @ ys)" using seg' ys by (auto simp: sibs_append)
  then show ?thesis using d oth by (simp add: family_def)
qed

lemma family_member:
  assumes "family T p (xs @ t # ys)"
  shows "t \<noteq> NULL" "parent (T t) = p" "yptr (T t) = last (NULL # xs)" "optr (T t) = hd (ys @ [NULL])"
    "optr (T t) \<noteq> t" "yptr (T t) \<noteq> t" "optr (T t) \<noteq> NULL \<Longrightarrow> optr (T t) \<noteq> yptr (T t)"
proof -
  have d: "distinct (xs @ t # ys)" and s: "sibs T NULL (cptr (T p)) (xs @ t # ys)" and n: "NULL \<notin> set (xs @ t # ys)"
    using assms sibs_nonnull [of T NULL "cptr (T p)" "xs @ t # ys"] by (simp_all add: family_def)
  then show "t \<noteq> NULL" "parent (T t) = p" "yptr (T t) = last (NULL # xs)" "optr (T t) = hd (ys @ [NULL])"
    using assms by (cases ys; auto simp: sibs_append family_def)+
  then show "optr (T t) \<noteq> t" "yptr (T t) \<noteq> t" "optr (T t) \<noteq> NULL \<Longrightarrow> optr (T t) \<noteq> yptr (T t)"
    using d n by (cases ys; cases xs rule: rev_cases; auto)+
qed

lemma del_task_tasks:
  assumes "parent (tasks s t) = p" "optr (tasks s t) = old" "yptr (tasks s t) = yng" "old \<noteq> t" "yng \<noteq> t"
    "old \<noteq> NULL \<Longrightarrow> old \<noteq> yng" "p \<noteq> old" "p \<noteq> yng"
  shows "tasks (del_task t s) c =
    (let t1 = (if c = old \<and> old \<noteq> NULL then (tasks s c)\<lparr>yptr := yng\<rparr> else tasks s c)
     in if yng \<noteq> NULL then (if c = yng then t1\<lparr>optr := old\<rparr> else t1) else (if c = p then t1\<lparr>cptr := old\<rparr> else t1))"
  using assms by (cases "old = NULL"; cases "yng = NULL") (simp_all add: del_task_def Let_def)

lemma del_task_family:
  assumes f: "family (tasks s) p (xs @ t # ys)" and p: "p \<notin> set (xs @ t # ys)" "p \<noteq> NULL"
  shows "family (tasks (del_task t s)) p (xs @ ys)"
proof (rule family_remove [OF f])
  note m = family_member [OF f]
  obtain old yng where oy: "optr (tasks s t) = old" "yptr (tasks s t) = yng" by blast
  have po: "p \<noteq> old" "p \<noteq> yng" using m(3,4) p oy by (cases ys; cases xs rule: rev_cases; auto)+
  note T = del_task_tasks [OF m(2) oy m(5,6,7) [unfolded oy] po]
  show "cptr (tasks (del_task t s) p) = (if yptr (tasks s t) = NULL then optr (tasks s t) else cptr (tasks s p))"
    using po by (simp add: T oy)
  show "parent (tasks (del_task t s) c) = p \<and>
      yptr (tasks (del_task t s) c) = (if c = optr (tasks s t) then yptr (tasks s t) else yptr (tasks s c)) \<and>
      optr (tasks (del_task t s) c) = (if c = yptr (tasks s t) then optr (tasks s t) else optr (tasks s c))"
    if c: "c \<in> set (xs @ ys)" for c
  proof -
    have "sibs (tasks s) NULL (cptr (tasks s p)) (xs @ t # ys)" using f by (simp add: family_def)
    then have "NULL \<notin> set (xs @ t # ys)" by (rule sibs_nonnull)
    then have "c \<noteq> NULL" using c by auto
    moreover have "c \<noteq> p" "parent (tasks s c) = p" using c f p(1) by (auto simp: family_def)
    ultimately show ?thesis using m(7) by (auto simp: T oy Let_def)
  qed
qed

section \<open>Giving the children to init\<close>

text \<open>
  The exit loop leaves the \<^verbatim>\<open>yptr\<close> of the next child pointing to the child it moved, and clears it in
  the next round; hence the chain of children with an arbitrary first \<^verbatim>\<open>yptr\<close>.
\<close>

lemma move_child_tasks:
  assumes "p \<noteq> c" "p \<noteq> i" "c \<noteq> i" "cptr (tasks s i) = old" "old \<noteq> NULL \<Longrightarrow> i \<noteq> old \<and> p \<noteq> old"
  shows "tasks (move_child c i p s) x =
      (if x = i then (tasks s i)\<lparr>cptr := p\<rparr>
       else if x = p then (tasks s p)\<lparr>yptr := NULL, optr := old, parent := i\<rparr>
       else let t = (if x = c then (tasks s c)\<lparr>cptr := optr (tasks s p)\<rparr> else tasks s x)
            in if x = old \<and> old \<noteq> NULL then t\<lparr>yptr := p\<rparr> else t)"
  using assms by (cases "old = NULL"; cases "c = old") (simp_all add: move_child_def Let_def)

lemma move_child_family:
  assumes c: "sibs (tasks s) y (cptr (tasks s c)) (p # cs)" "distinct (p # cs)" and i: "family (tasks s) i is" and ci: "c \<noteq> i"
    and dis: "set (p # cs) \<inter> set is = {}" "c \<notin> set (p # cs)" "i \<notin> set (p # cs) \<union> set is"
  shows "sibs (tasks (move_child c i p s)) p (cptr (tasks (move_child c i p s) c)) cs"
    and "family (tasks (move_child c i p s)) i (p # is)"
proof -
  have p: "p \<noteq> NULL" "p \<noteq> c" "p \<noteq> i" "p \<notin> set is" using c dis by auto
  obtain old where o: "cptr (tasks s i) = old" by blast
  have o': "old = (case is of [] \<Rightarrow> NULL | x # _ \<Rightarrow> x)" using family_first [OF i] o by simp
  have on: "i \<noteq> old \<and> p \<noteq> old" if "old \<noteq> NULL" using that o' p(4) dis by (cases "is"; auto)
  note T = move_child_tasks [OF p(2,3) ci o on]
  show "family (tasks (move_child c i p s)) i (p # is)"
  proof (rule family_push [OF i p(4) p(1) p(3)])
    show "optr (tasks (move_child c i p s) p) = cptr (tasks s i)" "yptr (tasks (move_child c i p s) p) = NULL"
      "parent (tasks (move_child c i p s) p) = i" "cptr (tasks (move_child c i p s) i) = p"
      using p by (simp_all add: T o)
    show "optr (tasks (move_child c i p s) x) = optr (tasks s x) \<and> parent (tasks (move_child c i p s) x) = i \<and>
        yptr (tasks (move_child c i p s) x) = (if x = cptr (tasks s i) then p else yptr (tasks s x))" if x: "x \<in> set is" for x
    proof -
      have "sibs (tasks s) NULL (cptr (tasks s i)) is" using i by (simp add: family_def)
      then have "x \<noteq> NULL" using x sibs_nonnull by metis
      moreover have "x \<noteq> i" "x \<noteq> p" "parent (tasks s x) = i" using x dis i by (auto simp: family_def)
      ultimately show ?thesis by (auto simp: T o Let_def)
    qed
  qed
  have same: "tasks (move_child c i p s) x = tasks s x" if x: "x \<in> set cs" for x
  proof -
    have "x \<noteq> NULL" using x c(1) sibs_nonnull by (metis list.set_intros(2))
    then have "x \<noteq> old" using x o' dis by (cases "is") auto
    moreover have "x \<noteq> i" "x \<noteq> c" "x \<noteq> p" using x dis c(2) by auto
    ultimately show ?thesis by (simp add: T)
  qed
  have "sibs (tasks (move_child c i p s)) p (optr (tasks s p)) cs = sibs (tasks s) p (optr (tasks s p)) cs"
    using same by (intro sibs_cong) simp
  moreover have "cptr (tasks (move_child c i p s) c) = optr (tasks s p)" using ci p(2) by (simp add: T Let_def)
  ultimately show "sibs (tasks (move_child c i p s)) p (cptr (tasks (move_child c i p s) c)) cs" using c(1) by simp
qed

lemma upd_task_keeps: "(\<And>t. g (f t) = g t) \<Longrightarrow> g (tasks (upd_task a f s) x) = g (tasks s x)"
  by simp

lemma move_child_state:
  "tstate (tasks (move_child c i p s) x) = tstate (tasks s x)" "wait_state (tasks (move_child c i p s) x) = wait_state (tasks s x)"
  "exit_code (tasks (move_child c i p s) x) = exit_code (tasks s x)"
  "time_slice (tasks (move_child c i p s) x) = time_slice (tasks s x)"
  by (simp_all add: move_child_def Let_def upd_task_keeps [of tstate] upd_task_keeps [of wait_state]
      upd_task_keeps [of exit_code] upd_task_keeps [of time_slice] del: upd_task_tasks)

lemma move_child_sel:
  "CurrentTask (move_child c i p s) = CurrentTask s" "idle_task (move_child c i p s) = idle_task s"
  "init_task (move_child c i p s) = init_task s" "RunLinks (move_child c i p s) = RunLinks s"
  "task_num (move_child c i p s) = task_num s" "max_time_slice (move_child c i p s) = max_time_slice s"
  by (simp_all add: move_child_def Let_def upd_task_def)

lemma rq_inv_states:
  assumes "rq_inv s q L" and "\<And>x. tstate (tasks s' x) = tstate (tasks s x)" "\<And>x. time_slice (tasks s' x) = time_slice (tasks s x)"
    "CurrentTask s' = CurrentTask s" "idle_task s' = idle_task s"
    "RunLinks s' = RunLinks s" "task_num s' = task_num s" "max_time_slice s' = max_time_slice s"
  shows "rq_inv s' q L"
  using assms by (simp add: rq_inv_def ready_def)

lemma reparent_loop:
  assumes "sibs (tasks s) y (cptr (tasks s c)) cs" "distinct cs" "family (tasks s) i is" "c \<noteq> i"
    and "set cs \<inter> set is = {}" "c \<notin> set cs" "i \<notin> set cs \<union> set is"
    and "CurrentTask s = c" "init_task s = i" "i \<in> L" "rq_inv s q L" "tstate (tasks s i) \<noteq> TASK_ZOMBIE"
  shows "\<exists>s' q'. kwhile reparent_body s = Ret s' \<and> family (tasks s') c [] \<and> family (tasks s') i (rev cs @ is) \<and>
    rq_inv s' q' L \<and> CurrentTask s' = c \<and> idle_task s' = idle_task s \<and>
    (\<forall>x. exit_code (tasks s' x) = exit_code (tasks s x)) \<and>
    (\<forall>x. x \<noteq> i \<longrightarrow> tstate (tasks s' x) = tstate (tasks s x)) \<and> tstate (tasks s' i) \<noteq> TASK_ZOMBIE \<and>
    (tstate (tasks s i) = TASK_RUNNABLE \<longrightarrow> tstate (tasks s' i) = TASK_RUNNABLE)"
  using assms
proof (induction cs arbitrary: s y "is" q)
  case Nil
  then have "kwhile reparent_body s = Ret s"
    by (subst kwhile_unfold) (simp add: reparent_body_def)
  then show ?case using Nil.prems by (intro exI [of _ s] exI [of _ q]) (simp add: family_def)
next
  case (Cons p cs)
  let ?m = "move_child c i p s"
  have p: "cptr (tasks s c) = p" "p \<noteq> NULL" "p \<noteq> c" "p \<noteq> i" using Cons.prems by auto
  note f = move_child_family [OF Cons.prems(1,2,3,4,5,6,7)]
  have rqm: "rq_inv ?m q L"
    using rq_inv_states [OF Cons.prems(11), of ?m] by (simp add: move_child_state move_child_sel)
  have "\<exists>s7 q7. reparent_body s = Ret (Inl s7) \<and> rq_inv s7 q7 L \<and> CurrentTask s7 = c \<and> idle_task s7 = idle_task s \<and>
      init_task s7 = i \<and> (\<forall>x. kin (tasks s7 x) = kin (tasks ?m x)) \<and> tstate (tasks s7 i) \<noteq> TASK_ZOMBIE \<and>
      (\<forall>x. x \<noteq> i \<longrightarrow> tstate (tasks s7 x) = tstate (tasks s x)) \<and>
      (tstate (tasks s i) = TASK_RUNNABLE \<longrightarrow> tstate (tasks s7 i) = TASK_RUNNABLE)"
  proof (cases "tstate (tasks ?m p) = TASK_ZOMBIE \<and> wait_state (tasks ?m i) = WT_CHILD")
    case True
    obtain w r where w: "wakeupTask i ?m = Ret w" "rq_inv w r L" "CurrentTask w = CurrentTask ?m" "idle_task w = idle_task ?m"
      "\<forall>x. tstate (tasks w x) = (if x = i then TASK_RUNNABLE else tstate (tasks ?m x))"
      using wakeupTask_ok [OF rqm Cons.prems(10)] Cons.prems(12) by (auto simp: move_child_state)
    have "init_task w = i" using ktask_more(1) [OF wakeupTask_more [OF w(1)]] Cons.prems(9) by (simp add: move_child_sel)
    moreover have "reparent_body s = Ret (Inl w)"
      using True w(1) p Cons.prems(8,9) by (simp add: reparent_body_def Let_def)
    ultimately show ?thesis
      using w wakeup_kin [OF w(1)] Cons.prems(8)
      by (intro exI [of _ w] exI [of _ r]) (simp add: move_child_state move_child_sel)
  next
    case False
    have "reparent_body s = Ret (Inl ?m)"
      unfolding reparent_body_def Let_def Cons.prems(8,9) p(1) if_not_P [OF False] using p(2) by simp
    then show ?thesis
      using rqm Cons.prems(8,9,12)
      by (intro exI [of _ ?m] exI [of _ q]) (simp add: move_child_state move_child_sel)
  qed
  then obtain s7 q7 where body: "reparent_body s = Ret (Inl s7)"
    and q7: "rq_inv s7 q7 L" "CurrentTask s7 = c" "idle_task s7 = idle_task s" "init_task s7 = i"
      "\<And>x. kin (tasks s7 x) = kin (tasks ?m x)" "tstate (tasks s7 i) \<noteq> TASK_ZOMBIE"
      "\<And>x. x \<noteq> i \<Longrightarrow> tstate (tasks s7 x) = tstate (tasks s x)"
      "tstate (tasks s i) = TASK_RUNNABLE \<Longrightarrow> tstate (tasks s7 i) = TASK_RUNNABLE"
    by blast
  have k: "cptr (tasks s7 x) = cptr (tasks ?m x) \<and> yptr (tasks s7 x) = yptr (tasks ?m x) \<and> optr (tasks s7 x) = optr (tasks ?m x)
      \<and> exit_code (tasks s7 x) = exit_code (tasks ?m x)" for x
    using kinD [OF q7(5)] by simp
  have sb: "sibs (tasks s7) p (cptr (tasks s7 c)) cs"
    using f(1) sibs_cong [of cs "tasks s7" "tasks ?m"] k by simp
  have fi: "family (tasks s7) i (p # is)" using f(2) family_kin [of "tasks s7" "tasks ?m"] q7(5) by blast
  obtain s' q' where IH: "kwhile reparent_body s7 = Ret s'" "family (tasks s') c []" "family (tasks s') i (rev cs @ p # is)"
    "rq_inv s' q' L" "CurrentTask s' = c" "idle_task s' = idle_task s7" "\<forall>x. exit_code (tasks s' x) = exit_code (tasks s7 x)"
    "\<forall>x. x \<noteq> i \<longrightarrow> tstate (tasks s' x) = tstate (tasks s7 x)" "tstate (tasks s' i) \<noteq> TASK_ZOMBIE"
    "tstate (tasks s7 i) = TASK_RUNNABLE \<longrightarrow> tstate (tasks s' i) = TASK_RUNNABLE"
    using Cons.IH [OF sb _ fi Cons.prems(4) _ _ _ q7(2,4) Cons.prems(10) q7(1,6)] Cons.prems(2,5-7) by auto
  have "kwhile reparent_body s = Ret s'" using body IH(1) by (subst kwhile_unfold) simp
  then show ?case
    using IH q7 k by (intro exI [of _ s'] exI [of _ q']) (simp add: move_child_state)
qed

section \<open>Exit\<close>

lemma drop_mm_shared:
  assumes "mm_ref (mms s mm) \<noteq> 1"
  shows "\<exists>s'. drop_mm mm s = Ret s' \<and> tasks s' = (tasks s)(CurrentTask s := (tasks s (CurrentTask s))\<lparr>tmm := NULL\<rparr>) \<and>
    CurrentTask s' = CurrentTask s \<and> idle_task s' = idle_task s \<and> init_task s' = init_task s \<and>
    RunLinks s' = RunLinks s \<and> task_num s' = task_num s \<and> max_time_slice s' = max_time_slice s"
  using assms by (simp add: drop_mm_def mm_ref_dec_def lcr3_def upd_mm_def upd_task_def Let_def)

lemma rq_inv_exit:
  assumes inv: "rq_inv s q L" and c: "CurrentTask s = c"
  shows "rq_inv (upd_task c (\<lambda>t. t\<lparr>tstate := TASK_ZOMBIE, exit_code := code\<rparr>) s) q L"
  using rq_inv_current [OF inv, of "\<lambda>t. t\<lparr>tstate := TASK_ZOMBIE, exit_code := code\<rparr>"] inv c
  by (simp add: rq_inv_def)

text \<open>The first part of \<^verbatim>\<open>do_exit\<close>: the address space is given up, the task is a zombie.\<close>

definition exit_zombie :: "int \<Rightarrow> 'a ktask_scheme \<Rightarrow> 'a ktask_scheme kres" where
  "exit_zombie code s =
     kbind (if tmm (tasks s (CurrentTask s)) \<noteq> NULL then drop_mm (tmm (tasks s (CurrentTask s))) s else Ret s)
       (\<lambda>s1. Ret (upd_task (CurrentTask s) (\<lambda>t. t\<lparr>tstate := TASK_ZOMBIE, exit_code := code\<rparr>) s1))"

lemma do_exit_eq:
  "CurrentTask s \<noteq> idle_task s \<Longrightarrow> do_exit code s =
     kbind (exit_zombie code s) (\<lambda>s2.
     kbind (if wait_state (tasks s2 (parent (tasks s2 (CurrentTask s)))) = WT_CHILD
            then wakeupTask (parent (tasks s2 (CurrentTask s))) s2 else Ret s2) (\<lambda>s3.
     kbind (kwhile reparent_body s3) (\<lambda>s4.
     kbind (schedule s4) (\<lambda>s5.
       if CurrentTask s5 = CurrentTask s then Panic ''do_exit will not return!'' else Ret s5))))"
  by (simp add: do_exit_def exit_zombie_def kbind_assoc Let_def)

lemma exit_zombie_ok:
  assumes inv: "rq_inv s q L" and mm: "tmm (tasks s c) = NULL \<or> mm_ref (mms s (tmm (tasks s c))) \<noteq> 1" and c: "CurrentTask s = c"
  shows "\<exists>s2. exit_zombie code s = Ret s2 \<and> rq_inv s2 q L \<and> CurrentTask s2 = c \<and> idle_task s2 = idle_task s \<and>
    init_task s2 = init_task s \<and> tstate (tasks s2 c) = TASK_ZOMBIE \<and> exit_code (tasks s2 c) = code \<and>
    (\<forall>x. x \<noteq> c \<longrightarrow> tasks s2 x = tasks s x) \<and>
    (\<forall>x. parent (tasks s2 x) = parent (tasks s x) \<and> cptr (tasks s2 x) = cptr (tasks s x) \<and>
         yptr (tasks s2 x) = yptr (tasks s x) \<and> optr (tasks s2 x) = optr (tasks s x)) \<and>
    wait_state (tasks s2 c) = wait_state (tasks s c)"
proof (cases "tmm (tasks s c) = NULL")
  case True
  then show ?thesis
    using rq_inv_exit [OF inv c, of code] c
    by (intro exI [of _ "upd_task c (\<lambda>t. t\<lparr>tstate := TASK_ZOMBIE, exit_code := code\<rparr>) s"])
      (simp add: exit_zombie_def, simp add: upd_task_def)
next
  case False
  obtain s1 where s1: "drop_mm (tmm (tasks s c)) s = Ret s1" "tasks s1 = (tasks s)(c := (tasks s c)\<lparr>tmm := NULL\<rparr>)"
    "CurrentTask s1 = c" "idle_task s1 = idle_task s" "init_task s1 = init_task s" "RunLinks s1 = RunLinks s"
    "task_num s1 = task_num s" "max_time_slice s1 = max_time_slice s"
    using drop_mm_shared [of s "tmm (tasks s c)"] False mm c by auto
  have "rq_inv s1 q L" using rq_inv_states [OF inv, of s1] s1 c by simp
  note r = rq_inv_exit [OF this s1(3), of code]
  show ?thesis
    using False s1 c r
    by (intro exI [of _ "upd_task c (\<lambda>t. t\<lparr>tstate := TASK_ZOMBIE, exit_code := code\<rparr>) s1"])
      (simp add: exit_zombie_def, simp add: upd_task_def s1(2))
qed

lemma do_exit_ok:
  assumes inv: "rq_inv s q L" and c: "CurrentTask s = c" "c \<noteq> idle_task s" and i: "init_task s = i" "i \<in> L" "i \<noteq> c"
    and alive: "tstate (tasks s i) \<noteq> TASK_ZOMBIE"
    and par: "parent (tasks s c) = p" "p \<in> L" "p \<noteq> c" "tstate (tasks s p) \<noteq> TASK_ZOMBIE"
    and mm: "tmm (tasks s c) = NULL \<or> mm_ref (mms s (tmm (tasks s c))) \<noteq> 1"
    and fam: "family (tasks s) c cs" "family (tasks s) i is" "set cs \<inter> set is = {}"
      "c \<notin> set cs" "i \<notin> set cs \<union> set is"
  shows "\<exists>s' q'. do_exit code s = Ret s' \<and> rq_inv s' q' L \<and> CurrentTask s' \<noteq> c \<and> c \<notin> set q' \<and>
    tstate (tasks s' c) = TASK_ZOMBIE \<and> exit_code (tasks s' c) = code \<and>
    family (tasks s') c [] \<and> family (tasks s') i (rev cs @ is) \<and>
    (wait_state (tasks s p) = WT_CHILD \<longrightarrow> tstate (tasks s' p) = TASK_RUNNABLE)"
proof -
  obtain s2 where s2: "exit_zombie code s = Ret s2" "rq_inv s2 q L" "CurrentTask s2 = c" "idle_task s2 = idle_task s"
    "init_task s2 = i" "tstate (tasks s2 c) = TASK_ZOMBIE" "exit_code (tasks s2 c) = code"
    "\<And>x. x \<noteq> c \<Longrightarrow> tasks s2 x = tasks s x"
    and l2: "\<And>x. parent (tasks s2 x) = parent (tasks s x)" "\<And>x. cptr (tasks s2 x) = cptr (tasks s x)"
      "\<And>x. yptr (tasks s2 x) = yptr (tasks s x)" "\<And>x. optr (tasks s2 x) = optr (tasks s x)"
    using exit_zombie_ok [OF inv mm c(1), of code] i(1) by blast
  have p2: "parent (tasks s2 c) = p" "tasks s2 p = tasks s p" "tasks s2 i = tasks s i"
    using l2(1) par s2(8) i(3) by simp_all
  have fam2: "family (tasks s2) x ys = family (tasks s) x ys" for x ys by (rule family_cong) (simp_all add: l2)
  have "\<exists>s3 q3. (if wait_state (tasks s2 p) = WT_CHILD then wakeupTask p s2 else Ret s2) = Ret s3 \<and> rq_inv s3 q3 L \<and>
      CurrentTask s3 = c \<and> idle_task s3 = idle_task s \<and> init_task s3 = i \<and>
      (\<forall>x. kin (tasks s3 x) = kin (tasks s2 x)) \<and> tstate (tasks s3 c) = TASK_ZOMBIE \<and> tstate (tasks s3 i) \<noteq> TASK_ZOMBIE \<and>
      (wait_state (tasks s p) = WT_CHILD \<longrightarrow> tstate (tasks s3 p) = TASK_RUNNABLE)"
  proof (cases "wait_state (tasks s2 p) = WT_CHILD")
    case True
    obtain w r where w: "wakeupTask p s2 = Ret w" "rq_inv w r L" "CurrentTask w = c" "idle_task w = idle_task s"
      "\<forall>x. tstate (tasks w x) = (if x = p then TASK_RUNNABLE else tstate (tasks s2 x))"
      using wakeupTask_ok [OF s2(2) par(2)] par(4) p2(2) s2(3,4) by auto
    have "init_task w = i" using ktask_more(1) [OF wakeupTask_more [OF w(1)]] s2(5) by simp
    then show ?thesis using True w wakeup_kin [OF w(1)] s2(6) par(3) alive p2(3) by (intro exI [of _ w] exI [of _ r]) simp
  next
    case False
    then show ?thesis using s2 alive p2 by (intro exI [of _ s2] exI [of _ q]) simp
  qed
  then obtain s3 q3 where s3: "(if wait_state (tasks s2 p) = WT_CHILD then wakeupTask p s2 else Ret s2) = Ret s3"
    "rq_inv s3 q3 L" "CurrentTask s3 = c" "idle_task s3 = idle_task s" "init_task s3 = i"
    "\<forall>x. kin (tasks s3 x) = kin (tasks s2 x)" "tstate (tasks s3 c) = TASK_ZOMBIE" "tstate (tasks s3 i) \<noteq> TASK_ZOMBIE"
    "wait_state (tasks s p) = WT_CHILD \<longrightarrow> tstate (tasks s3 p) = TASK_RUNNABLE"
    by blast
  have fam3: "family (tasks s3) x ys = family (tasks s) x ys" for x ys using family_kin [OF s3(6)] fam2 by simp
  have f3: "family (tasks s3) c cs" "family (tasks s3) i is" using fam3 fam(1,2) by simp_all
  have ch: "sibs (tasks s3) NULL (cptr (tasks s3 c)) cs" "distinct cs" using f3(1) by (simp_all add: family_def)
  obtain s4 q4 where s4: "kwhile reparent_body s3 = Ret s4" "family (tasks s4) c []" "family (tasks s4) i (rev cs @ is)"
    "rq_inv s4 q4 L" "CurrentTask s4 = c" "idle_task s4 = idle_task s3" "\<forall>x. exit_code (tasks s4 x) = exit_code (tasks s3 x)"
    "\<forall>x. x \<noteq> i \<longrightarrow> tstate (tasks s4 x) = tstate (tasks s3 x)"
    "tstate (tasks s3 i) = TASK_RUNNABLE \<longrightarrow> tstate (tasks s4 i) = TASK_RUNNABLE"
    using reparent_loop [OF ch f3(2) i(3) [symmetric] fam(3-5) s3(3,5) i(2) s3(2,8)] by blast
  have z4: "tstate (tasks s4 c) = TASK_ZOMBIE" using s4(8) s3(7) i(3) by simp
  have rq: "requeue s4 q4 = q4" using s4(5) z4 by (simp add: requeue_def)
  obtain s5 where s5: "schedule s4 = Ret s5" "rq_inv s5 (tl q4) L" "CurrentTask s5 = (case q4 of [] \<Rightarrow> idle_task s4 | t # _ \<Rightarrow> t)"
    "\<forall>t. tstate (tasks s5 t) = tstate (tasks s4 t)"
    using schedule_ok [OF s4(4)] rq by auto
  have cq: "c \<notin> set q4" using s4(4) z4 by (auto simp: rq_inv_def ready_def)
  then have cur: "CurrentTask s5 \<noteq> c" using s5(3) s4(6) s3(4) c(2) by (cases q4) auto
  have fam5: "family (tasks s5) x ys = family (tasks s4) x ys" for x ys
    using schedule_kin [OF s5(1)] by (intro family_kin) simp
  have e5: "exit_code (tasks s5 c) = code"
    using schedule_kin [OF s5(1), of c] s4(7) s3(6) s2(7) by (auto dest!: kinD)
  have "do_exit code s = Ret s5"
    using do_exit_eq [of s code] c(2) unfolding c(1) s2(1) kbind.simps p2(1) s3(1) s4(1) s5(1) using cur by simp
  moreover have "wait_state (tasks s p) = WT_CHILD \<longrightarrow> tstate (tasks s5 p) = TASK_RUNNABLE"
    using s3(9) s4(8,9) s5(4) by (cases "p = i") auto
  moreover have "c \<notin> set (tl q4)" using cq by (cases q4) auto
  ultimately show ?thesis using s5(2,4) cur z4 e5 fam5 s4(2,3) by (intro exI [of _ s5] exI [of _ "tl q4"]) simp
qed

section \<open>Sample state\<close>

text \<open>Task 32 runs; its parent is init at 16 (also the idle task's sibling), which waits for a child; 48 is its child.\<close>

definition sample_ktask :: ktask where
  "sample_ktask = kvm.extend
     (sample_kvm\<lparr>idle_task := 8,
        tasks := (\<lambda>_. blank_task)
          (16 := blank_task\<lparr>tstate := TASK_SLEEPING, wait_state := WT_CHILD, cptr := 32\<rparr>,
           32 := blank_task\<lparr>parent := 16, cptr := 48\<rparr>,
           48 := blank_task\<lparr>parent := 32, tstate := TASK_SLEEPING\<rparr>)\<rparr>)
     (ktask.fields 16 \<lparr>lp_prev = (\<lambda>x. x), lp_next = (\<lambda>x. x)\<rparr> 3)"

lemma sample_ktask_sel:
  "CurrentTask sample_ktask = 32" "idle_task sample_ktask = 8" "init_task sample_ktask = 16"
  "tasks sample_ktask = (\<lambda>_. blank_task)
          (16 := blank_task\<lparr>tstate := TASK_SLEEPING, wait_state := WT_CHILD, cptr := 32\<rparr>,
           32 := blank_task\<lparr>parent := 16, cptr := 48\<rparr>,
           48 := blank_task\<lparr>parent := 32, tstate := TASK_SLEEPING\<rparr>)"
  "RunLinks sample_ktask = RunLinks sample_sync" "task_num sample_ktask = 0" "max_time_slice sample_ktask = 1"
  by (simp_all add: sample_ktask_def ktask.defs kvm.defs sample_kvm_def ksync.defs sample_sync_def ksched.defs sample_sched_def)

lemma sample_ktask_inv: "rq_inv sample_ktask [] {8, 16, 32, 48}"
proof -
  have "dlist (RunLinks sample_sync) RunHead []"
    by (simp add: sample_sync_def ksched.defs initList_def dlist_def)
  then show ?thesis
    by (auto simp: rq_inv_def ready_def sample_ktask_sel blank_task_def)
qed

lemma sample_ktask_family:
  "family (tasks sample_ktask) 32 [48]" "family (tasks sample_ktask) 16 [32]"
  by (simp_all add: family_def sample_ktask_sel blank_task_def)

section \<open>Properties\<close>

text \<open>
  \<^verbatim>\<open>add_task\<close> makes the new task the youngest child of its parent, and \<^verbatim>\<open>del_task\<close> takes any child out
  again, both keeping the doubly linked list of siblings; deleting what was just added gives back
  the former list.
\<close>

theorem add_del_task_family:
  assumes "family (tasks s) p cs" and "t \<notin> set cs" "t \<noteq> NULL" "t \<noteq> p" and "parent (tasks s t) = p"
    and "p \<notin> set cs" "p \<noteq> NULL"
  shows "family (tasks (add_task t s)) p (t # cs) \<and> family (tasks (del_task t (add_task t s))) p cs \<and>
    (\<forall>xs c ys. cs = xs @ c # ys \<longrightarrow> family (tasks (del_task c s)) p (xs @ ys))"
proof (intro conjI allI impI)
  show a: "family (tasks (add_task t s)) p (t # cs)" by (rule add_task_family [OF assms])
  show "family (tasks (del_task t (add_task t s))) p cs"
    using del_task_family [of "add_task t s" p "[]" t cs] a assms(4,6,7) by simp
  show "family (tasks (del_task c s)) p (xs @ ys)" if "cs = xs @ c # ys" for xs c ys
    using del_task_family [of s p xs c ys] assms(1,6,7) that by simp
qed

theorem add_del_task_family_witness:
  "family (tasks (add_task 64 (upd_task 64 (\<lambda>t. t\<lparr>parent := 32\<rparr>) sample_ktask))) 32 [64, 48]"
  using add_del_task_family [of "upd_task 64 (\<lambda>t. t\<lparr>parent := 32\<rparr>) sample_ktask" 32 "[48]" 64]
  by (simp add: family_def sample_ktask_sel blank_task_def)



end
