(* ===== verification/IDE.thy ===== *)
theory IDE
  imports Task_Exit
begin

text \<open>
  The IDE driver, \<^verbatim>\<open>kern/driver/ide.c\<close> and \<^verbatim>\<open>kern/driver/ide_entity.c\<close>, over the registers of the two
  ATA channels.  The hardware side gives the meaning of the port instructions: writing the command
  register starts a transfer at the 28-bit block address held by the other registers, on the drive
  selected by bit 4 of the drive/head register, and each string input or output moves one sector.
  A port is written as its channel and its offset in the channel.
\<close>

abbreviation (input) SECTSIZE :: u32 where "SECTSIZE \<equiv> 512"
abbreviation (input) MAX_IDE :: nat where "MAX_IDE \<equiv> 4"
abbreviation (input) MAX_NSECS :: u32 where "MAX_NSECS \<equiv> 128"
abbreviation (input) MAX_DISK_NSECS :: u32 where "MAX_DISK_NSECS \<equiv> 0x10000000"
abbreviation (input) ISA_SECCNT :: nat where "ISA_SECCNT \<equiv> 2"
abbreviation (input) ISA_SECTOR :: nat where "ISA_SECTOR \<equiv> 3"
abbreviation (input) ISA_CYL_LO :: nat where "ISA_CYL_LO \<equiv> 4"
abbreviation (input) ISA_CYL_HI :: nat where "ISA_CYL_HI \<equiv> 5"
abbreviation (input) ISA_SDH :: nat where "ISA_SDH \<equiv> 6"
abbreviation (input) ISA_COMMAND :: nat where "ISA_COMMAND \<equiv> 7"
abbreviation (input) IDE_BSY :: u8 where "IDE_BSY \<equiv> 0x80"
abbreviation (input) IDE_DF :: u8 where "IDE_DF \<equiv> 0x20"
abbreviation (input) IDE_ERR :: u8 where "IDE_ERR \<equiv> 0x01"
abbreviation (input) IDE_CMD_READ :: u8 where "IDE_CMD_READ \<equiv> 0x20"
abbreviation (input) IDE_CMD_WRITE :: u8 where "IDE_CMD_WRITE \<equiv> 0x30"
abbreviation (input) IDE_CMD_IDENTIFY :: u8 where "IDE_CMD_IDENTIFY \<equiv> 0xEC"

section \<open>Drives and channels\<close>

record drive =
  d_present :: bool
  d_busy :: bool
  d_sectors :: "u32 \<Rightarrow> u8 list"
  d_bad :: "u32 \<Rightarrow> bool"
  d_ident :: "u8 list"

text \<open>The transfer in progress: the command, the next block and the number of sectors left.\<close>

record channel =
  r_seccnt :: u8
  r_sector :: u8
  r_cyl_lo :: u8
  r_cyl_hi :: u8
  r_sdh :: u8
  xfer :: "(u8 \<times> u32 \<times> nat) option"

record IDEdevice =
  ide_valid :: bool
  ide_sets :: u32
  ide_size :: u32
  ide_desc :: "u8 list"

record kide = ktask +
  drives :: "nat \<Rightarrow> drive"
  channels :: "nat \<Rightarrow> channel"
  IDE_Devices :: "nat \<Rightarrow> IDEdevice"
  IDE_Sem :: ptr

definition selected :: "nat \<Rightarrow> channel \<Rightarrow> nat" where
  "selected c ch = 2 * c + (if bit (r_sdh ch) 4 then 1 else 0)"

definition lba :: "channel \<Rightarrow> u32" where
  "lba ch = ucast (r_sector ch) + 2 ^ 8 * ucast (r_cyl_lo ch) + 2 ^ 16 * ucast (r_cyl_hi ch) + 2 ^ 24 * ucast (r_sdh ch AND 0xF)"

definition upd_channel :: "nat \<Rightarrow> (channel \<Rightarrow> channel) \<Rightarrow> 'a kide_scheme \<Rightarrow> 'a kide_scheme" where
  "upd_channel c f s = s\<lparr>channels := (channels s)(c := f (channels s c))\<rparr>"

definition ata_outb :: "nat \<Rightarrow> nat \<Rightarrow> u8 \<Rightarrow> 'a kide_scheme \<Rightarrow> 'a kide_scheme" where
  "ata_outb c off v s =
     upd_channel c (\<lambda>ch.
       if off = ISA_SECCNT then ch\<lparr>r_seccnt := v\<rparr>
       else if off = ISA_SECTOR then ch\<lparr>r_sector := v\<rparr>
       else if off = ISA_CYL_LO then ch\<lparr>r_cyl_lo := v\<rparr>
       else if off = ISA_CYL_HI then ch\<lparr>r_cyl_hi := v\<rparr>
       else if off = ISA_SDH then ch\<lparr>r_sdh := v\<rparr>
       else if off = ISA_COMMAND
       then ch\<lparr>xfer := Some (v, lba ch, if v = IDE_CMD_IDENTIFY then 1 else if r_seccnt ch = 0 then 256 else unat (r_seccnt ch))\<rparr>
       else ch) s"

text \<open>The status register: an absent drive reads as 0, a sector that cannot be transferred raises the error bit.\<close>

definition ata_status :: "nat \<Rightarrow> 'a kide_scheme \<Rightarrow> u8" where
  "ata_status c s =
     (let ch = channels s c; d = drives s (selected c ch)
      in if \<not> d_present d then 0
         else if d_busy d then IDE_BSY
         else case xfer ch of
             Some (cmd, b, n) \<Rightarrow> if cmd \<noteq> IDE_CMD_IDENTIFY \<and> 0 < n \<and> d_bad d b then 0x40 OR IDE_ERR else 0x40
           | None \<Rightarrow> 0x40)"

text \<open>One sector in or out; without a transfer that supplies or takes data the result is not defined.\<close>

definition ata_in :: "nat \<Rightarrow> 'a kide_scheme \<Rightarrow> (u8 list \<times> 'a kide_scheme) kres" where
  "ata_in c s =
     (let ch = channels s c; d = drives s (selected c ch)
      in case xfer ch of
           Some (cmd, b, Suc n) \<Rightarrow>
             if cmd = IDE_CMD_IDENTIFY then Ret (d_ident d, upd_channel c (\<lambda>ch. ch\<lparr>xfer := None\<rparr>) s)
             else if cmd = IDE_CMD_READ
             then Ret (d_sectors d b, upd_channel c (\<lambda>ch. ch\<lparr>xfer := Some (cmd, b + 1, n)\<rparr>) s)
             else Undef
         | _ \<Rightarrow> Undef)"

definition ata_out :: "nat \<Rightarrow> u8 list \<Rightarrow> 'a kide_scheme \<Rightarrow> 'a kide_scheme kres" where
  "ata_out c data s =
     (let ch = channels s c; i = selected c ch
      in case xfer ch of
           Some (cmd, b, Suc n) \<Rightarrow>
             if cmd = IDE_CMD_WRITE
             then Ret (upd_channel c (\<lambda>ch. ch\<lparr>xfer := Some (cmd, b + 1, n)\<rparr>)
                    (s\<lparr>drives := (drives s)(i := (drives s i)\<lparr>d_sectors := (d_sectors (drives s i))(b := data)\<rparr>)\<rparr>))
             else Undef
         | _ \<Rightarrow> Undef)"

text \<open>Bytes in memory.\<close>

definition rdbytes :: "memory \<Rightarrow> ptr \<Rightarrow> nat \<Rightarrow> u8 list" where
  "rdbytes m p n = map (\<lambda>i. m (p + of_nat i)) [0..<n]"

fun wrbytes :: "ptr \<Rightarrow> u8 list \<Rightarrow> memory \<Rightarrow> memory" where
  "wrbytes p [] m = m"
| "wrbytes p (b # bs) m = wrbytes (p + 1) bs (m(p := b))"

section \<open>The driver (ide.c)\<close>

text \<open>The channel of a drive: \<^verbatim>\<open>IO_BASE(ideno)\<close> is indexed by \<^verbatim>\<open>ideno >> 1\<close>.\<close>

definition chan :: "nat \<Rightarrow> nat" where
  "chan ideno = ideno div 2"

text \<open>The loop that polls the status: a drive of the model that is busy stays so, and the loop does not end.\<close>

definition ide_wait_ready :: "nat \<Rightarrow> bool \<Rightarrow> 'a kide_scheme \<Rightarrow> int kres" where
  "ide_wait_ready c check_error s =
     kbind (kwhile (\<lambda>_. Ret (let r = ata_status c s in if r AND IDE_BSY \<noteq> 0 then Inl () else Inr r)) ()) (\<lambda>r.
       if check_error \<and> r AND (IDE_DF OR IDE_ERR) \<noteq> 0 then Ret (-1) else Ret 0)"

lemma ide_wait_ready_free:
  "ata_status c s AND IDE_BSY = 0 \<Longrightarrow>
     ide_wait_ready c check_error s = (if check_error \<and> ata_status c s AND (IDE_DF OR IDE_ERR) \<noteq> 0 then Ret (-1) else Ret 0)"
  unfolding ide_wait_ready_def by (subst kwhile_unfold) (simp add: Let_def)

text \<open>The control register switches the drive's interrupts, which the driver does not use: it polls the status.\<close>

definition ata_ctrl :: "nat \<Rightarrow> u8 \<Rightarrow> 'a kide_scheme \<Rightarrow> 'a kide_scheme" where
  [simp]: "ata_ctrl c v s = s"

definition ide_setup :: "nat \<Rightarrow> u32 \<Rightarrow> u32 \<Rightarrow> u8 \<Rightarrow> 'a kide_scheme \<Rightarrow> 'a kide_scheme" where
  "ide_setup ideno secno nsecs cmd s =
     (let c = chan ideno
      in ata_outb c ISA_COMMAND cmd
        (ata_outb c ISA_SDH (0xE0 OR push_bit 4 (of_nat ideno AND 1) OR (ucast (drop_bit 24 secno) AND 0xF))
        (ata_outb c ISA_CYL_HI (ucast (drop_bit 16 secno) AND 0xFF)
        (ata_outb c ISA_CYL_LO (ucast (drop_bit 8 secno) AND 0xFF)
        (ata_outb c ISA_SECTOR (ucast secno AND 0xFF)
        (ata_outb c ISA_SECCNT (ucast nsecs) (ata_ctrl c 0 s)))))))"

fun ide_read_loop :: "nat \<Rightarrow> ptr \<Rightarrow> nat \<Rightarrow> 'a kide_scheme \<Rightarrow> (int \<times> 'a kide_scheme) kres" where
  "ide_read_loop c dst 0 s = Ret (0, s)"
| "ide_read_loop c dst (Suc n) s =
     kbind (ide_wait_ready c True s) (\<lambda>ret.
       if ret \<noteq> 0 then Ret (ret, s)
       else kbind (ata_in c s) (\<lambda>(data, s1).
              ide_read_loop c (dst + SECTSIZE) n (s1\<lparr>mem := wrbytes dst data (mem s1)\<rparr>)))"

definition ide_read_secs :: "nat \<Rightarrow> u32 \<Rightarrow> ptr \<Rightarrow> u32 \<Rightarrow> 'a kide_scheme \<Rightarrow> (int \<times> 'a kide_scheme) kres" where
  "ide_read_secs ideno secno dst nsecs s =
     kassert (nsecs \<le> MAX_NSECS \<and> ideno < MAX_IDE \<and> ide_valid (IDE_Devices s ideno)) ''nsecs is invalid!''
    (kassert (secno \<le> MAX_DISK_NSECS \<and> secno + nsecs \<le> MAX_DISK_NSECS) ''secno is invalid!''
    (kbind (ide_wait_ready (chan ideno) False s) (\<lambda>_.
       ide_read_loop (chan ideno) dst (unat nsecs) (ide_setup ideno secno nsecs IDE_CMD_READ s))))"

fun ide_write_loop :: "nat \<Rightarrow> ptr \<Rightarrow> nat \<Rightarrow> 'a kide_scheme \<Rightarrow> (int \<times> 'a kide_scheme) kres" where
  "ide_write_loop c src 0 s = Ret (0, s)"
| "ide_write_loop c src (Suc n) s =
     kbind (ide_wait_ready c True s) (\<lambda>ret.
       if ret \<noteq> 0 then Ret (ret, s)
       else kbind (ata_out c (rdbytes (mem s) src 512) s) (\<lambda>s1. ide_write_loop c (src + SECTSIZE) n s1))"

definition ide_write_secs :: "nat \<Rightarrow> u32 \<Rightarrow> ptr \<Rightarrow> u32 \<Rightarrow> 'a kide_scheme \<Rightarrow> (int \<times> 'a kide_scheme) kres" where
  "ide_write_secs ideno secno src nsecs s =
     kassert (nsecs \<le> MAX_NSECS \<and> ideno < MAX_IDE \<and> ide_valid (IDE_Devices s ideno)) ''nsecs is invalid!''
    (kassert (secno < MAX_DISK_NSECS \<and> secno + nsecs \<le> MAX_DISK_NSECS) ''secno is invalid!''
    (kbind (ide_wait_ready (chan ideno) False s) (\<lambda>_.
       ide_write_loop (chan ideno) src (unat nsecs) (ide_setup ideno secno nsecs IDE_CMD_WRITE s))))"

datatype io_type = IO_READ | IO_WRITE

record IOrequest =
  req_type :: io_type
  req_secno :: u32
  req_nsecs :: u32
  req_buffer :: ptr
  req_bsize :: u32

definition ide_device_isvaild :: "nat \<Rightarrow> 'a kide_scheme \<Rightarrow> bool" where
  "ide_device_isvaild ideno s = ide_valid (IDE_Devices s ideno)"

definition ide_request :: "nat \<Rightarrow> IOrequest \<Rightarrow> 'a kide_scheme \<Rightarrow> (int \<times> 'a kide_scheme) kres" where
  "ide_request ideno req s =
     (if 3 < ideno then Ret (-1, s)
      else if \<not> ide_device_isvaild ideno s then Ret (-1, s)
      else if req_bsize req < SECTSIZE * req_nsecs req then Ret (-1, s)
      else case req_type req of
          IO_READ \<Rightarrow> ide_read_secs ideno (req_secno req) (req_buffer req) (req_nsecs req) s
        | IO_WRITE \<Rightarrow> ide_write_secs ideno (req_secno req) (req_buffer req) (req_nsecs req) s)"

definition ide_get_nr_block :: "nat \<Rightarrow> 'a kide_scheme \<Rightarrow> u32" where
  "ide_get_nr_block ideno s = (if ide_device_isvaild ideno s then ide_size (IDE_Devices s ideno) else 0)"

definition ide_get_desc :: "nat \<Rightarrow> 'a kide_scheme \<Rightarrow> u8 list" where
  "ide_get_desc ideno s = ide_desc (IDE_Devices s ideno)"

definition ide_ioctl :: "int \<Rightarrow> int \<Rightarrow> int" where
  "ide_ioctl op flag = (if op \<noteq> 0 \<and> flag \<noteq> 0 then -1 else 0)"

definition le16 :: "u8 list \<Rightarrow> nat \<Rightarrow> u32" where
  "le16 d i = ucast (d ! i) + 2 ^ 8 * ucast (d ! Suc i)"

definition le32 :: "u8 list \<Rightarrow> nat \<Rightarrow> u32" where
  "le32 d i = le16 d i + 2 ^ 16 * le16 d (i + 2)"

text \<open>The loop that ends the model name and removes its trailing blanks.\<close>

fun desc_trim :: "nat \<Rightarrow> u8 list \<Rightarrow> u8 list" where
  "desc_trim 0 desc = desc[0 := 0]"
| "desc_trim (Suc i) desc =
     (let desc' = desc[Suc i := 0] in if desc' ! i = 0x20 then desc_trim i desc' else desc')"

definition desc_swap :: "u8 list \<Rightarrow> u8 list" where
  "desc_swap data = concat (map (\<lambda>k. [data ! (2 * k + 1), data ! (2 * k)]) [0..<20])"

definition ide_device_init :: "nat \<Rightarrow> 'a kide_scheme \<Rightarrow> (int \<times> 'a kide_scheme) kres" where
  "ide_device_init ideno s =
     (if MAX_IDE - 1 < ideno then Ret (-1, s)
      else let c = chan ideno;
               s1 = s\<lparr>IDE_Devices := (IDE_Devices s)(ideno := (IDE_Devices s ideno)\<lparr>ide_valid := False\<rparr>)\<rparr>
           in kbind (ide_wait_ready c False s1) (\<lambda>_.
              let s2 = ata_outb c ISA_SDH (0xE0 OR push_bit 4 (of_nat ideno AND 1)) s1
              in kbind (ide_wait_ready c False s2) (\<lambda>_.
                 let s3 = ata_outb c ISA_COMMAND IDE_CMD_IDENTIFY s2
                 in kbind (ide_wait_ready c False s3) (\<lambda>_.
                    if ata_status c s3 = 0 then Ret (-1, s3)
                    else kbind (ide_wait_ready c True s3) (\<lambda>r.
                      if r \<noteq> 0 then Ret (-1, s3)
                      else kbind (ata_in c s3) (\<lambda>(ident, s4).
                        let cmdsets = le32 ident 164;
                            sectors = (if bit cmdsets 26 then le32 ident 200 else le32 ident 120);
                            dev = \<lparr>ide_valid = True, ide_sets = cmdsets, ide_size = sectors,
                                   ide_desc = ide_desc (IDE_Devices s4 ideno)\<rparr>
                        in kassert (le16 ident 98 AND 0x200 \<noteq> 0) ''LBA is not supported!''
                             (Ret (0, s4\<lparr>IDE_Devices := (IDE_Devices s4)(ideno :=
                                dev\<lparr>ide_desc := desc_trim 40 (desc_swap (take 40 (drop 54 ident)) @ [0])\<rparr>)\<rparr>))))))))"

section \<open>The two devices (ide\_entity.c)\<close>

text \<open>\<^verbatim>\<open>IDE_Sem\<close> is an array of 24-byte semaphores; drives 0 and 1 have the same functions up to the index.\<close>

definition ide_sem :: "nat \<Rightarrow> 'a kide_scheme \<Rightarrow> ptr" where
  "ide_sem ideno s = IDE_Sem s + 24 * of_nat ideno"

definition lockIDE :: "nat \<Rightarrow> 'a kide_scheme \<Rightarrow> 'a kide_scheme kres" where
  "lockIDE ideno s = acquireSem (ide_sem ideno s) s"

definition unlockIDE :: "nat \<Rightarrow> 'a kide_scheme \<Rightarrow> 'a kide_scheme kres" where
  "unlockIDE ideno s = releaseSem (ide_sem ideno s) s"

definition ide_entity_init :: "nat \<Rightarrow> 'a kide_scheme \<Rightarrow> (int \<times> 'a kide_scheme) kres" where
  "ide_entity_init ideno s = ide_device_init ideno (initSem (ide_sem ideno s) 1 s)"

definition ide_request_lock :: "nat \<Rightarrow> IOrequest \<Rightarrow> 'a kide_scheme \<Rightarrow> (int \<times> 'a kide_scheme) kres" where
  "ide_request_lock ideno req s =
     kbind (lockIDE ideno s) (\<lambda>s1.
     kbind (ide_request ideno req s1) (\<lambda>(ret, s2).
     kbind (unlockIDE ideno s2) (\<lambda>s3. Ret (ret, s3))))"

end
