(* ===== verification/IDE_Correct.thy ===== *)
theory IDE_Correct
  imports IDE
begin

text \<open>
  Correctness of the IDE driver: the register values it programs make the drive transfer exactly the
  requested sectors, and a transfer stops with an error at the first sector the drive cannot move.
\<close>

section \<open>Block address registers\<close>

lemma unat_mask8: "unat (x AND 0xFF :: u8) = unat x"
proof -
  have "x AND 0xFF = take_bit 8 x" by (simp add: take_bit_eq_mask mask_eq_exp_minus_1)
  then show ?thesis by (simp add: take_bit_word_eq_self)
qed

lemma unat_ucast8: "unat (ucast (x :: u32) :: u8) = unat x mod 256"
  by (simp add: unsigned_ucast_eq take_bit_eq_mod)

lemma digits_28:
  fixes n :: nat
  assumes "n < 2 ^ 28"
  shows "n mod 256 + 256 * (n div 256 mod 256) + 65536 * (n div 65536 mod 256) + 16777216 * (n div 16777216 mod 16) = n"
proof -
  have "n div 16777216 < 16" using assms by (simp add: less_mult_imp_div_less)
  then have a: "n div 16777216 mod 16 = n div 16777216" by simp
  have "n div 65536 div 256 = n div 16777216" "n div 256 div 256 = n div 65536" by (simp_all add: div_mult2_eq [symmetric])
  then have "n div 65536 = 256 * (n div 16777216) + n div 65536 mod 256" "n div 256 = 256 * (n div 65536) + n div 256 mod 256"
    "n = 256 * (n div 256) + n mod 256"
    by (metis mult_div_mod_eq)+
  then show ?thesis using a by linarith
qed

lemma u8_low_nibble: "unat (((0xE0 OR push_bit 4 (b AND 1) OR (x AND 0xF)) AND 0xF) :: u8) = unat x mod 16"
proof -
  have "((0xE0 OR push_bit 4 (b AND 1) OR (x AND 0xF)) AND 0xF) = x AND 0xF"
  proof (rule bit_eqI)
    fix n assume "possible_bit TYPE(u8) n"
    have m: "(0xF :: u8) = mask 4" by (simp add: mask_eq_exp_minus_1)
    have e: "\<not> bit (0xE0 :: u8) n" if "n < 4"
    proof -
      have "n = 0 \<or> n = 1 \<or> n = 2 \<or> n = 3" using that by auto
      then show ?thesis by auto
    qed
    show "bit ((0xE0 OR push_bit 4 (b AND 1) OR (x AND 0xF)) AND 0xF) n = bit (x AND 0xF) n"
      unfolding m using e by (auto simp: bit_and_iff bit_or_iff bit_push_bit_iff bit_mask_iff)
  qed
  also have "x AND 0xF = take_bit 4 x" by (simp add: take_bit_eq_mask mask_eq_exp_minus_1)
  finally have "((0xE0 OR push_bit 4 (b AND 1) OR (x AND 0xF)) AND 0xF) = take_bit 4 x" .
  moreover have "unat (take_bit 4 x) = unat x mod 2 ^ 4"
    by (simp add: take_bit_eq_mod unat_mod_distrib)
  ultimately show ?thesis by (simp only:) simp
qed

lemma sdh_drive: "bit ((0xE0 OR push_bit 4 (of_nat ideno AND 1) OR (x AND 0xF)) :: u8) 4 = odd ideno"
proof -
  have m: "(0xF :: u8) = mask 4" by (simp add: mask_eq_exp_minus_1)
  have e: "\<not> bit (0xE0 :: u8) 4" by simp
  have o: "bit (of_nat ideno AND 1 :: u8) 0 = odd ideno"
    by (simp add: bit_and_iff bit_0 even_and_iff)
  show ?thesis
    unfolding m using e o by (simp add: bit_and_iff bit_or_iff bit_push_bit_iff bit_mask_iff)
qed

text \<open>After the driver has programmed the registers.\<close>

definition setup_channel :: "nat \<Rightarrow> u32 \<Rightarrow> u32 \<Rightarrow> channel \<Rightarrow> channel" where
  "setup_channel ideno secno nsecs ch =
     ch\<lparr>r_seccnt := ucast nsecs, r_sector := ucast secno AND 0xFF, r_cyl_lo := ucast (drop_bit 8 secno) AND 0xFF,
        r_cyl_hi := ucast (drop_bit 16 secno) AND 0xFF,
        r_sdh := 0xE0 OR push_bit 4 (of_nat ideno AND 1) OR (ucast (drop_bit 24 secno) AND 0xF)\<rparr>"

lemma lba_setup:
  assumes "unat secno < 2 ^ 28"
  shows "lba (setup_channel ideno secno nsecs ch) = secno"
proof -
  let ?n = "unat secno"
  have d: "unat (drop_bit k secno) = ?n div 2 ^ k" for k
    using unat_drop_bit_eq [of k secno] by (simp only: drop_bit_eq_div)
  define ch' where "ch' = setup_channel ideno secno nsecs ch"
  have r: "unat (r_sector ch') = ?n mod 256" "unat (r_cyl_lo ch') = ?n div 256 mod 256"
    "unat (r_cyl_hi ch') = ?n div 65536 mod 256"
    by (simp_all add: ch'_def setup_channel_def unat_mask8 unat_ucast8 d)
  have sd: "r_sdh ch' = 0xE0 OR push_bit 4 (of_nat ideno AND 1) OR (ucast (drop_bit 24 secno) AND 0xF)"
    by (simp only: ch'_def setup_channel_def) (simp del: push_bit_and)
  have x: "unat (r_sdh ch' AND 0xF) = ?n div 16777216 mod 16"
    unfolding sd u8_low_nibble unat_ucast8 d by (simp add: mod_mod_cancel)
  have "unat (lba ch') =
      (?n mod 256 + 256 * (?n div 256 mod 256) + 65536 * (?n div 65536 mod 256) + 16777216 * (?n div 16777216 mod 16)) mod 2 ^ 32"
    unfolding lba_def
    by (simp add: unat_word_ariths unsigned_ucast_eq r x take_bit_eq_mod mod_mod_cancel mod_simps)
  also have "\<dots> = ?n" using digits_28 [OF assms] assms by simp
  finally show ?thesis by (simp add: word_unat_eq_iff ch'_def)
qed

lemma selected_setup: "selected (chan ideno) (setup_channel ideno secno nsecs ch\<lparr>xfer := x\<rparr>) = ideno"
proof -
  have "bit (r_sdh (setup_channel ideno secno nsecs ch\<lparr>xfer := x\<rparr>)) 4 = odd ideno"
    using sdh_drive [of ideno "ucast (drop_bit 24 secno)"] by (simp add: setup_channel_def del: push_bit_and)
  then show ?thesis by (auto simp: selected_def chan_def)
qed

lemma ide_setup_eq:
  assumes "unat secno < 2 ^ 28" "0 < nsecs" "nsecs \<le> MAX_NSECS" "cmd \<noteq> IDE_CMD_IDENTIFY"
  shows "ide_setup ideno secno nsecs cmd s =
    upd_channel (chan ideno) (\<lambda>ch. (setup_channel ideno secno nsecs ch)\<lparr>xfer := Some (cmd, secno, unat nsecs)\<rparr>) s"
proof -
  have n: "unat (ucast nsecs :: u8) = unat nsecs" using assms(3) by (simp add: unat_ucast8 word_le_nat_alt)
  have n0: "(ucast nsecs :: u8) \<noteq> 0"
  proof
    assume "(ucast nsecs :: u8) = 0"
    then have "unat nsecs = 0" using n by simp
    then show False using assms(2) by (simp add: word_less_nat_alt)
  qed
  show ?thesis
    using lba_setup [OF assms(1), of ideno nsecs "channels s (chan ideno)"] assms(4) n n0
    by (simp add: ide_setup_def ata_outb_def upd_channel_def setup_channel_def Let_def del: push_bit_and)
qed

section \<open>Transfers\<close>

text \<open>A channel in the middle of a transfer.\<close>

definition xfering :: "'a kide_scheme \<Rightarrow> nat \<Rightarrow> nat \<Rightarrow> u8 \<Rightarrow> u32 \<Rightarrow> nat \<Rightarrow> bool" where
  "xfering s c i cmd b n \<longleftrightarrow> xfer (channels s c) = Some (cmd, b, n) \<and> selected c (channels s c) = i"

lemma upd_channel_sel [simp]:
  "drives (upd_channel c f s) = drives s" "mem (upd_channel c f s) = mem s"
  "channels (upd_channel c f s) = (channels s)(c := f (channels s c))" "IDE_Devices (upd_channel c f s) = IDE_Devices s"
  by (simp_all add: upd_channel_def)

lemma selected_xfer [simp]: "selected c (ch\<lparr>xfer := x\<rparr>) = selected c ch"
  by (simp add: selected_def)

lemma wait_ready_xfer:
  assumes "xfering s c i cmd b (Suc n)" "cmd \<noteq> IDE_CMD_IDENTIFY" "d_present (drives s i)" "\<not> d_busy (drives s i)"
  shows "ide_wait_ready c True s = Ret (if d_bad (drives s i) b then -1 else 0)"
  using assms by (simp add: ide_wait_ready_free ata_status_def xfering_def Let_def)

lemma wrbytes_append: "wrbytes p (xs @ ys) m = wrbytes (p + of_nat (length xs)) ys (wrbytes p xs m)"
  by (induction xs arbitrary: p m) (simp_all add: algebra_simps)

lemma ide_read_loop_ok:
  assumes "xfering s c i IDE_CMD_READ b n" "d_present (drives s i)" "\<not> d_busy (drives s i)"
    "\<And>x. length (d_sectors (drives s i) x) = 512"
  shows "\<exists>s'. ide_read_loop c dst n s = Ret (if \<exists>k < n. d_bad (drives s i) (b + of_nat k) then -1 else 0, s') \<and>
    s' = s\<lparr>mem := mem s', channels := channels s'\<rparr> \<and>
    ((\<forall>k < n. \<not> d_bad (drives s i) (b + of_nat k)) \<longrightarrow>
      mem s' = wrbytes dst (concat (map (\<lambda>k. d_sectors (drives s i) (b + of_nat k)) [0..<n])) (mem s))"
  using assms
proof (induction n arbitrary: b dst s)
  case 0
  then show ?case by simp
next
  case (Suc n)
  let ?d = "drives s i"
  note w = wait_ready_xfer [OF Suc.prems(1) _ Suc.prems(2,3)]
  show ?case
  proof (cases "d_bad ?d b")
    case True
    then show ?thesis using w by (intro exI [of _ s]) force
  next
    case False
    define s1 where "s1 = (upd_channel c (\<lambda>ch. ch\<lparr>xfer := Some (IDE_CMD_READ, b + 1, n)\<rparr>) s)\<lparr>mem := wrbytes dst (d_sectors ?d b) (mem s)\<rparr>"
    have run: "ide_read_loop c dst (Suc n) s = ide_read_loop c (dst + SECTSIZE) n s1"
      using w False Suc.prems(1) by (simp add: ata_in_def xfering_def Let_def s1_def)
    have d1: "drives s1 = drives s" by (simp add: s1_def)
    have x1: "xfering s1 c i IDE_CMD_READ (b + 1) n" using Suc.prems(1) by (simp add: xfering_def s1_def)
    obtain s' where s': "ide_read_loop c (dst + SECTSIZE) n s1 = Ret (if \<exists>k < n. d_bad ?d (b + 1 + of_nat k) then -1 else 0, s')"
      "s' = s1\<lparr>mem := mem s', channels := channels s'\<rparr>"
      "(\<forall>k < n. \<not> d_bad ?d (b + 1 + of_nat k)) \<longrightarrow>
         mem s' = wrbytes (dst + SECTSIZE) (concat (map (\<lambda>k. d_sectors ?d (b + 1 + of_nat k)) [0..<n])) (mem s1)"
      using Suc.IH [OF x1, of "dst + SECTSIZE"] Suc.prems(2-4) d1 by auto
    have bad: "(\<exists>k < Suc n. d_bad ?d (b + of_nat k)) = (\<exists>k < n. d_bad ?d (b + 1 + of_nat k))"
      using False by (auto simp: less_Suc_eq_0_disj algebra_simps)
    have "[0..<Suc n] = 0 # map Suc [0..<n]" by (simp add: upt_conv_Cons map_Suc_upt del: upt_Suc)
    then have sects: "concat (map (\<lambda>k. d_sectors ?d (b + of_nat k)) [0..<Suc n]) =
        d_sectors ?d b @ concat (map (\<lambda>k. d_sectors ?d (b + 1 + of_nat k)) [0..<n])"
      by (simp add: comp_def algebra_simps del: upt_Suc)
    have "mem s' = wrbytes dst (concat (map (\<lambda>k. d_sectors ?d (b + of_nat k)) [0..<Suc n])) (mem s)"
      if "\<forall>k < Suc n. \<not> d_bad ?d (b + of_nat k)"
    proof -
      have "\<forall>k < n. \<not> d_bad ?d (b + 1 + of_nat k)" using bad that by blast
      then show ?thesis using s'(3) Suc.prems(4) sects by (simp add: wrbytes_append s1_def del: upt_Suc)
    qed
    moreover have "s' = s\<lparr>mem := mem s', channels := channels s'\<rparr>"
      by (subst s'(2)) (simp add: s1_def upd_channel_def)
    ultimately show ?thesis using s'(1) bad run by (intro exI [of _ s']) simp
  qed
qed

fun putsecs :: "u32 \<Rightarrow> u8 list list \<Rightarrow> (u32 \<Rightarrow> u8 list) \<Rightarrow> u32 \<Rightarrow> u8 list" where
  "putsecs b [] f = f"
| "putsecs b (d # ds) f = putsecs (b + 1) ds (f(b := d))"

lemma ide_write_loop_ok:
  assumes "xfering s c i IDE_CMD_WRITE b n" "d_present (drives s i)" "\<not> d_busy (drives s i)"
  shows "\<exists>s'. ide_write_loop c src n s = Ret (if \<exists>k < n. d_bad (drives s i) (b + of_nat k) then -1 else 0, s') \<and>
    s' = s\<lparr>drives := drives s', channels := channels s'\<rparr> \<and>
    ((\<forall>k < n. \<not> d_bad (drives s i) (b + of_nat k)) \<longrightarrow>
      drives s' = (drives s)(i := (drives s i)\<lparr>d_sectors :=
        putsecs b (map (\<lambda>k. rdbytes (mem s) (src + of_nat k * SECTSIZE) 512) [0..<n]) (d_sectors (drives s i))\<rparr>))"
  using assms
proof (induction n arbitrary: b src s)
  case 0
  then show ?case by simp
next
  case (Suc n)
  let ?d = "drives s i"
  note w = wait_ready_xfer [OF Suc.prems(1) _ Suc.prems(2,3)]
  show ?case
  proof (cases "d_bad ?d b")
    case True
    then show ?thesis using w by (intro exI [of _ s]) force
  next
    case False
    define s1 where "s1 = upd_channel c (\<lambda>ch. ch\<lparr>xfer := Some (IDE_CMD_WRITE, b + 1, n)\<rparr>)
      (s\<lparr>drives := (drives s)(i := ?d\<lparr>d_sectors := (d_sectors ?d)(b := rdbytes (mem s) src 512)\<rparr>)\<rparr>)"
    have run: "ide_write_loop c src (Suc n) s = ide_write_loop c (src + SECTSIZE) n s1"
      using w False Suc.prems(1) by (simp add: ata_out_def xfering_def Let_def s1_def)
    have d1: "drives s1 = (drives s)(i := ?d\<lparr>d_sectors := (d_sectors ?d)(b := rdbytes (mem s) src 512)\<rparr>)" "mem s1 = mem s"
      by (simp_all add: s1_def)
    have x1: "xfering s1 c i IDE_CMD_WRITE (b + 1) n" using Suc.prems(1) by (simp add: xfering_def s1_def)
    obtain s' where s': "ide_write_loop c (src + SECTSIZE) n s1 = Ret (if \<exists>k < n. d_bad ?d (b + 1 + of_nat k) then -1 else 0, s')"
      "s' = s1\<lparr>drives := drives s', channels := channels s'\<rparr>"
      "(\<forall>k < n. \<not> d_bad ?d (b + 1 + of_nat k)) \<longrightarrow> drives s' = (drives s1)(i := (drives s1 i)\<lparr>d_sectors :=
        putsecs (b + 1) (map (\<lambda>k. rdbytes (mem s) (src + SECTSIZE + of_nat k * SECTSIZE) 512) [0..<n]) (d_sectors (drives s1 i))\<rparr>)"
    proof -
      have d: "d_present (drives s1 i)" "\<not> d_busy (drives s1 i)" "d_bad (drives s1 i) = d_bad ?d"
        using Suc.prems(2,3) by (simp_all add: d1)
      show thesis using Suc.IH [OF x1 d(1,2), of "src + SECTSIZE"] unfolding d(3) d1(2) by (blast intro: that)
    qed
    have bad: "(\<exists>k < Suc n. d_bad ?d (b + of_nat k)) = (\<exists>k < n. d_bad ?d (b + 1 + of_nat k))"
      using False by (auto simp: less_Suc_eq_0_disj algebra_simps)
    have "[0..<Suc n] = 0 # map Suc [0..<n]" by (simp add: upt_conv_Cons map_Suc_upt del: upt_Suc)
    then have l: "map (\<lambda>k. rdbytes (mem s) (src + of_nat k * SECTSIZE) 512) [0..<Suc n] =
        rdbytes (mem s) src 512 # map (\<lambda>k. rdbytes (mem s) (src + SECTSIZE + of_nat k * SECTSIZE) 512) [0..<n]"
      by (simp add: comp_def algebra_simps del: upt_Suc)
    have "drives s' = (drives s)(i := ?d\<lparr>d_sectors :=
        putsecs b (map (\<lambda>k. rdbytes (mem s) (src + of_nat k * SECTSIZE) 512) [0..<Suc n]) (d_sectors ?d)\<rparr>)"
      if "\<forall>k < Suc n. \<not> d_bad ?d (b + of_nat k)"
    proof -
      have "\<forall>k < n. \<not> d_bad ?d (b + 1 + of_nat k)" using bad that by blast
      then show ?thesis unfolding l using s'(3) by (simp add: d1)
    qed
    moreover have "s' = s\<lparr>drives := drives s', channels := channels s'\<rparr>"
      by (subst s'(2)) (simp add: s1_def upd_channel_def)
    ultimately show ?thesis using s'(1) bad run by (intro exI [of _ s']) simp
  qed
qed

section \<open>Requests\<close>

text \<open>A drive that answers: probed, present and idle, as is the other drive of its channel, with 512-byte sectors.\<close>

definition ide_ready :: "'a kide_scheme \<Rightarrow> nat \<Rightarrow> bool" where
  "ide_ready s i \<longleftrightarrow> i < MAX_IDE \<and> ide_valid (IDE_Devices s i) \<and> d_present (drives s i) \<and>
     (\<forall>j. chan j = chan i \<longrightarrow> \<not> d_busy (drives s j)) \<and> (\<forall>x. length (d_sectors (drives s i) x) = 512)"

definition in_disk :: "u32 \<Rightarrow> u32 \<Rightarrow> bool" where
  "in_disk secno nsecs \<longleftrightarrow> 0 < nsecs \<and> nsecs \<le> MAX_NSECS \<and> secno < MAX_DISK_NSECS \<and> secno + nsecs \<le> MAX_DISK_NSECS"

lemma chan_selected: "chan (selected c ch) = c"
  by (simp add: chan_def selected_def)

lemma ready_wait: "ide_ready s i \<Longrightarrow> ide_wait_ready (chan i) False s = Ret 0"
  by (auto simp: ide_ready_def ide_wait_ready_free ata_status_def Let_def chan_selected split: option.splits)

lemma in_disk_lba: "in_disk secno nsecs \<Longrightarrow> unat secno < 2 ^ 28"
  by (simp add: in_disk_def word_less_nat_alt)

lemma setup_xfering:
  assumes "in_disk secno nsecs" "cmd \<noteq> IDE_CMD_IDENTIFY"
  shows "xfering (ide_setup i secno nsecs cmd s) (chan i) i cmd secno (unat nsecs)"
    and "ide_setup i secno nsecs cmd s = s\<lparr>channels := channels (ide_setup i secno nsecs cmd s)\<rparr>"
  using assms selected_setup [where ideno = i and secno = secno and nsecs = nsecs] ide_setup_eq [OF in_disk_lba [OF assms(1)], of nsecs cmd i s]
  by (auto simp: in_disk_def xfering_def upd_channel_def simp del: selected_xfer)

lemma ide_read_secs_ok:
  assumes "ide_ready s i" "in_disk secno nsecs"
  shows "\<exists>s'. ide_read_secs i secno dst nsecs s =
      Ret (if \<exists>k < unat nsecs. d_bad (drives s i) (secno + of_nat k) then -1 else 0, s') \<and>
    s' = s\<lparr>mem := mem s', channels := channels s'\<rparr> \<and>
    ((\<forall>k < unat nsecs. \<not> d_bad (drives s i) (secno + of_nat k)) \<longrightarrow>
      mem s' = wrbytes dst (concat (map (\<lambda>k. d_sectors (drives s i) (secno + of_nat k)) [0..<unat nsecs])) (mem s))"
proof -
  define s1 where "s1 = ide_setup i secno nsecs IDE_CMD_READ s"
  have x: "xfering s1 (chan i) i IDE_CMD_READ secno (unat nsecs)" and f: "s1 = s\<lparr>channels := channels s1\<rparr>"
    using setup_xfering [OF assms(2), of IDE_CMD_READ i s] by (simp_all add: s1_def)
  have d: "drives s1 = drives s" "mem s1 = mem s" by (subst f, simp)+
  have r: "d_present (drives s1 i)" "\<not> d_busy (drives s1 i)" "\<And>x. length (d_sectors (drives s1 i) x) = 512"
    using assms(1) by (auto simp: d ide_ready_def)
  obtain s' where s': "ide_read_loop (chan i) dst (unat nsecs) s1 =
      Ret (if \<exists>k < unat nsecs. d_bad (drives s i) (secno + of_nat k) then -1 else 0, s')"
    "s' = s1\<lparr>mem := mem s', channels := channels s'\<rparr>"
    "(\<forall>k < unat nsecs. \<not> d_bad (drives s i) (secno + of_nat k)) \<longrightarrow>
      mem s' = wrbytes dst (concat (map (\<lambda>k. d_sectors (drives s i) (secno + of_nat k)) [0..<unat nsecs])) (mem s)"
    using ide_read_loop_ok [OF x r, of dst] unfolding d by blast
  have "ide_read_secs i secno dst nsecs s = ide_read_loop (chan i) dst (unat nsecs) s1"
    using assms by (simp add: ide_read_secs_def ready_wait ide_ready_def in_disk_def s1_def word_less_nat_alt word_le_nat_alt)
  moreover have "s' = s\<lparr>mem := mem s', channels := channels s'\<rparr>"
    by (subst s'(2), subst f) simp
  ultimately show ?thesis using s'(1,3) by (intro exI [of _ s']) simp
qed

lemma ide_write_secs_ok:
  assumes "ide_ready s i" "in_disk secno nsecs"
  shows "\<exists>s'. ide_write_secs i secno src nsecs s =
      Ret (if \<exists>k < unat nsecs. d_bad (drives s i) (secno + of_nat k) then -1 else 0, s') \<and>
    s' = s\<lparr>drives := drives s', channels := channels s'\<rparr> \<and>
    ((\<forall>k < unat nsecs. \<not> d_bad (drives s i) (secno + of_nat k)) \<longrightarrow>
      drives s' = (drives s)(i := (drives s i)\<lparr>d_sectors := putsecs secno
        (map (\<lambda>k. rdbytes (mem s) (src + of_nat k * SECTSIZE) 512) [0..<unat nsecs]) (d_sectors (drives s i))\<rparr>))"
proof -
  define s1 where "s1 = ide_setup i secno nsecs IDE_CMD_WRITE s"
  have x: "xfering s1 (chan i) i IDE_CMD_WRITE secno (unat nsecs)" and f: "s1 = s\<lparr>channels := channels s1\<rparr>"
    using setup_xfering [OF assms(2), of IDE_CMD_WRITE i s] by (simp_all add: s1_def)
  have d: "drives s1 = drives s" "mem s1 = mem s" by (subst f, simp)+
  have r: "d_present (drives s1 i)" "\<not> d_busy (drives s1 i)"
    using assms(1) by (auto simp: d ide_ready_def)
  obtain s' where s': "ide_write_loop (chan i) src (unat nsecs) s1 =
      Ret (if \<exists>k < unat nsecs. d_bad (drives s i) (secno + of_nat k) then -1 else 0, s')"
    "s' = s1\<lparr>drives := drives s', channels := channels s'\<rparr>"
    "(\<forall>k < unat nsecs. \<not> d_bad (drives s i) (secno + of_nat k)) \<longrightarrow>
      drives s' = (drives s)(i := (drives s i)\<lparr>d_sectors := putsecs secno
        (map (\<lambda>k. rdbytes (mem s) (src + of_nat k * SECTSIZE) 512) [0..<unat nsecs]) (d_sectors (drives s i))\<rparr>)"
    using ide_write_loop_ok [OF x r, of src] unfolding d by blast
  have "ide_write_secs i secno src nsecs s = ide_write_loop (chan i) src (unat nsecs) s1"
    using assms by (simp add: ide_write_secs_def ready_wait ide_ready_def in_disk_def s1_def word_less_nat_alt word_le_nat_alt)
  moreover have "s' = s\<lparr>drives := drives s', channels := channels s'\<rparr>"
    by (subst s'(2), subst f) simp
  ultimately show ?thesis using s'(1,3) by (intro exI [of _ s']) simp
qed

section \<open>Buffers\<close>

lemma length_rdbytes [simp]: "length (rdbytes m p n) = n"
  by (simp add: rdbytes_def)

lemma wrbytes_outside: "(\<And>k. k < length bs \<Longrightarrow> a \<noteq> p + of_nat k) \<Longrightarrow> wrbytes p bs m a = m a"
proof (induction bs arbitrary: p m)
  case Nil
  then show ?case by simp
next
  case (Cons b bs)
  have "a \<noteq> p + 1 + of_nat k" if "k < length bs" for k
    using Cons.prems [of "Suc k"] that by (simp add: algebra_simps)
  moreover have "a \<noteq> p" using Cons.prems [of 0] by simp
  ultimately show ?case by (simp add: Cons.IH)
qed

lemma wrbytes_inside: "k < length bs \<Longrightarrow> length bs \<le> 2 ^ 32 \<Longrightarrow> wrbytes p bs m (p + of_nat k) = bs ! k"
proof (induction bs arbitrary: p m k)
  case Nil
  then show ?case by simp
next
  case (Cons b bs)
  show ?case
  proof (cases k)
    case 0
    have "p \<noteq> p + 1 + of_nat j" if "j < length bs" for j
    proof
      assume "p = p + 1 + of_nat j"
      then have "of_nat (Suc j) = (of_nat 0 :: u32)" by (simp add: algebra_simps)
      then show False using of_nat_u32_inject [of "Suc j" 0] that Cons.prems(2) by simp
    qed
    then show ?thesis using wrbytes_outside [of bs p "p + 1" "m(p := b)"] by (simp add: 0)
  next
    case (Suc j)
    then have "p + of_nat k = p + 1 + of_nat j" by simp
    then show ?thesis using Cons.prems Suc by (simp only:) (simp add: Cons.IH)
  qed
qed

lemma rdbytes_wrbytes: "n = length bs \<Longrightarrow> n \<le> 2 ^ 32 \<Longrightarrow> rdbytes (wrbytes p bs m) p n = bs"
  by (intro nth_equalityI) (simp_all add: rdbytes_def wrbytes_inside)

lemma rdbytes_sectors: "concat (map (\<lambda>k. rdbytes m (src + of_nat k * SECTSIZE) 512) [0..<n]) = rdbytes m src (n * 512)"
proof (induction n)
  case 0
  then show ?case by (simp add: rdbytes_def)
next
  case (Suc n)
  have "[0..<Suc n * 512] = [0..<n * 512] @ map (\<lambda>i. n * 512 + i) [0..<512]"
    using upt_add_eq_append [of 0 "n * 512" 512] by (simp add: map_add_upt add.commute)
  then have "rdbytes m src (Suc n * 512) = rdbytes m src (n * 512) @ rdbytes m (src + of_nat n * SECTSIZE) 512"
    by (simp add: rdbytes_def comp_def algebra_simps)
  then show ?case using Suc by simp
qed

lemma putsecs_outside: "(\<And>k. k < length ds \<Longrightarrow> x \<noteq> b + of_nat k) \<Longrightarrow> putsecs b ds f x = f x"
proof (induction ds arbitrary: b f)
  case Nil
  then show ?case by simp
next
  case (Cons d ds)
  have "x \<noteq> b + 1 + of_nat k" if "k < length ds" for k
    using Cons.prems [of "Suc k"] that by (simp add: algebra_simps)
  moreover have "x \<noteq> b" using Cons.prems [of 0] by simp
  ultimately show ?case by (simp add: Cons.IH)
qed

lemma putsecs_inside: "k < length ds \<Longrightarrow> length ds \<le> 2 ^ 32 \<Longrightarrow> putsecs b ds f (b + of_nat k) = ds ! k"
proof (induction ds arbitrary: b f k)
  case Nil
  then show ?case by simp
next
  case (Cons d ds)
  show ?case
  proof (cases k)
    case 0
    have "b \<noteq> b + 1 + of_nat j" if "j < length ds" for j
    proof
      assume "b = b + 1 + of_nat j"
      then have "of_nat (Suc j) = (of_nat 0 :: u32)" by (simp add: algebra_simps)
      then show False using of_nat_u32_inject [of "Suc j" 0] that Cons.prems(2) by simp
    qed
    then show ?thesis using putsecs_outside [of ds b "b + 1" "f(b := d)"] by (simp add: 0)
  next
    case (Suc j)
    then have "b + of_nat k = b + 1 + of_nat j" by simp
    then show ?thesis using Cons.prems Suc by (simp only:) (simp add: Cons.IH)
  qed
qed

section \<open>Locked requests\<close>

definition sem_free :: "'a ksync_scheme \<Rightarrow> ptr \<Rightarrow> bool" where
  "sem_free s sem \<longleftrightarrow> 0 < sem_value (sems s sem) \<and> waitlistIsEmpty (wait_queue sem) s"

lemma acquire_free:
  "sem_free s sem \<Longrightarrow> acquireSem sem s = Ret (upd_sem sem (\<lambda>x. x\<lparr>sem_value := sem_value x - 1\<rparr>) s)"
  by (simp add: sem_free_def acquireSem_def)

lemma release_free:
  assumes "sem_free s sem" "sems s2 = (sems s)(sem := (sems s sem)\<lparr>sem_value := sem_value (sems s sem) - 1\<rparr>)"
    "WaitLinks s2 = WaitLinks s"
  shows "releaseSem sem s2 = Ret (s2\<lparr>sems := sems s\<rparr>)"
proof -
  have "waitlistGetFirst (wait_queue sem) s2 = NULL"
    using assms(1,3) by (simp add: sem_free_def waitlistGetFirst_def waitlistIsEmpty_def listIsEmpty_def listGetNext_def)
  then show ?thesis by (simp add: releaseSem_def up_def upd_sem_def assms(2))
qed

lemma in_disk_bytes: "in_disk secno nsecs \<Longrightarrow> unat nsecs \<le> 128"
  by (simp add: in_disk_def word_le_nat_alt)

lemma ide_ready_sems [simp]: "ide_ready (s\<lparr>sems := x\<rparr>) i = ide_ready s i"
  by (simp add: ide_ready_def)

text \<open>A request for a drive whose lock is free and whose buffer is large enough.\<close>

definition req_ok :: "'a kide_scheme \<Rightarrow> nat \<Rightarrow> IOrequest \<Rightarrow> bool" where
  "req_ok s i req \<longleftrightarrow> ide_ready s i \<and> sem_free s (ide_sem i s) \<and> in_disk (req_secno req) (req_nsecs req) \<and>
     SECTSIZE * req_nsecs req \<le> req_bsize req"

definition req_bad :: "'a kide_scheme \<Rightarrow> nat \<Rightarrow> IOrequest \<Rightarrow> bool" where
  "req_bad s i req \<longleftrightarrow> (\<exists>k < unat (req_nsecs req). d_bad (drives s i) (req_secno req + of_nat k))"

lemma request_locked:
  assumes "req_ok s i req" and "ide_request i req s1 = Ret (r, s2)"
    and "s1 = upd_sem (ide_sem i s) (\<lambda>x. x\<lparr>sem_value := sem_value x - 1\<rparr>) s"
    and "s2 = s1\<lparr>mem := mem s2, drives := drives s2, channels := channels s2\<rparr>"
  shows "ide_request_lock i req s = Ret (r, s\<lparr>mem := mem s2, drives := drives s2, channels := channels s2\<rparr>)"
proof -
  have f: "sem_free s (ide_sem i s)" using assms(1) by (simp add: req_ok_def)
  have "sems s2 = sems s1" "WaitLinks s2 = WaitLinks s1" "IDE_Sem s2 = IDE_Sem s1" by (subst assms(4), simp)+
  then have "sems s2 = (sems s)(ide_sem i s := (sems s (ide_sem i s))\<lparr>sem_value := sem_value (sems s (ide_sem i s)) - 1\<rparr>)"
    "WaitLinks s2 = WaitLinks s" "ide_sem i s2 = ide_sem i s"
    by (simp_all add: assms(3) upd_sem_def ide_sem_def)
  then have u: "unlockIDE i s2 = Ret (s2\<lparr>sems := sems s\<rparr>)"
    using release_free [OF f, of s2] by (simp add: unlockIDE_def)
  have "lockIDE i s = Ret s1" using acquire_free [OF f] by (simp add: lockIDE_def assms(3))
  moreover have "s2\<lparr>sems := sems s\<rparr> = s\<lparr>mem := mem s2, drives := drives s2, channels := channels s2\<rparr>"
    by (subst assms(4)) (simp add: assms(3) upd_sem_def)
  ultimately show ?thesis using u assms(2) by (simp add: ide_request_lock_def)
qed

lemma request_read:
  assumes "req_ok s i req" "req_type req = IO_READ"
  shows "\<exists>s'. ide_request_lock i req s = Ret (if req_bad s i req then -1 else 0, s') \<and>
    s' = s\<lparr>mem := mem s', channels := channels s'\<rparr> \<and>
    (\<not> req_bad s i req \<longrightarrow> mem s' = wrbytes (req_buffer req)
      (concat (map (\<lambda>k. d_sectors (drives s i) (req_secno req + of_nat k)) [0..<unat (req_nsecs req)])) (mem s))"
proof -
  define s1 where "s1 = upd_sem (ide_sem i s) (\<lambda>x. x\<lparr>sem_value := sem_value x - 1\<rparr>) s"
  have sel: "ide_ready s1 i" "drives s1 = drives s" "mem s1 = mem s" "IDE_Devices s1 = IDE_Devices s"
    using assms(1) by (auto simp: s1_def upd_sem_def req_ok_def)
  obtain s2 where s2: "ide_read_secs i (req_secno req) (req_buffer req) (req_nsecs req) s1 =
      Ret (if req_bad s i req then -1 else 0, s2)" "s2 = s1\<lparr>mem := mem s2, channels := channels s2\<rparr>"
    "\<not> req_bad s i req \<longrightarrow> mem s2 = wrbytes (req_buffer req)
      (concat (map (\<lambda>k. d_sectors (drives s i) (req_secno req + of_nat k)) [0..<unat (req_nsecs req)])) (mem s)"
    using ide_read_secs_ok [OF sel(1), of "req_secno req" "req_nsecs req" "req_buffer req"] assms(1)
    unfolding req_ok_def req_bad_def sel by blast
  have d: "drives s2 = drives s" by (subst s2(2)) (simp add: sel)
  have "ide_request i req s1 = Ret (if req_bad s i req then -1 else 0, s2)"
    using assms s2(1) by (auto simp: ide_request_def req_ok_def ide_device_isvaild_def ide_ready_def sel)
  moreover have "s2 = s1\<lparr>mem := mem s2, drives := drives s2, channels := channels s2\<rparr>"
    by (subst s2(2)) (simp add: d sel)
  ultimately have "ide_request_lock i req s =
      Ret (if req_bad s i req then -1 else 0, s\<lparr>mem := mem s2, drives := drives s, channels := channels s2\<rparr>)"
    using request_locked [OF assms(1) _ s1_def] d by simp
  then show ?thesis using s2(3)
    by (intro exI [of _ "s\<lparr>mem := mem s2, drives := drives s, channels := channels s2\<rparr>"]) simp
qed

lemma request_write:
  assumes "req_ok s i req" "req_type req = IO_WRITE"
  shows "\<exists>s'. ide_request_lock i req s = Ret (if req_bad s i req then -1 else 0, s') \<and>
    s' = s\<lparr>drives := drives s', channels := channels s'\<rparr> \<and>
    (\<not> req_bad s i req \<longrightarrow> drives s' = (drives s)(i := (drives s i)\<lparr>d_sectors := putsecs (req_secno req)
      (map (\<lambda>k. rdbytes (mem s) (req_buffer req + of_nat k * SECTSIZE) 512) [0..<unat (req_nsecs req)])
      (d_sectors (drives s i))\<rparr>))"
proof -
  define s1 where "s1 = upd_sem (ide_sem i s) (\<lambda>x. x\<lparr>sem_value := sem_value x - 1\<rparr>) s"
  have sel: "ide_ready s1 i" "drives s1 = drives s" "mem s1 = mem s" "IDE_Devices s1 = IDE_Devices s"
    using assms(1) by (auto simp: s1_def upd_sem_def req_ok_def)
  obtain s2 where s2: "ide_write_secs i (req_secno req) (req_buffer req) (req_nsecs req) s1 =
      Ret (if req_bad s i req then -1 else 0, s2)" "s2 = s1\<lparr>drives := drives s2, channels := channels s2\<rparr>"
    "\<not> req_bad s i req \<longrightarrow> drives s2 = (drives s)(i := (drives s i)\<lparr>d_sectors := putsecs (req_secno req)
      (map (\<lambda>k. rdbytes (mem s) (req_buffer req + of_nat k * SECTSIZE) 512) [0..<unat (req_nsecs req)])
      (d_sectors (drives s i))\<rparr>)"
    using ide_write_secs_ok [OF sel(1), of "req_secno req" "req_nsecs req" "req_buffer req"] assms(1)
    unfolding req_ok_def req_bad_def sel by blast
  have d: "mem s2 = mem s" by (subst s2(2)) (simp add: sel)
  have "ide_request i req s1 = Ret (if req_bad s i req then -1 else 0, s2)"
    using assms s2(1) by (auto simp: ide_request_def req_ok_def ide_device_isvaild_def ide_ready_def sel)
  moreover have "s2 = s1\<lparr>mem := mem s2, drives := drives s2, channels := channels s2\<rparr>"
    by (subst s2(2)) (simp add: d sel)
  ultimately have "ide_request_lock i req s =
      Ret (if req_bad s i req then -1 else 0, s\<lparr>mem := mem s, drives := drives s2, channels := channels s2\<rparr>)"
    using request_locked [OF assms(1) _ s1_def] d by simp
  then show ?thesis using s2(3)
    by (intro exI [of _ "s\<lparr>mem := mem s, drives := drives s2, channels := channels s2\<rparr>"]) simp
qed

section \<open>Sample state\<close>

text \<open>One probed drive whose sectors all hold the byte 7; every semaphore is free.\<close>

definition sample_drive :: drive where
  "sample_drive = \<lparr>d_present = True, d_busy = False, d_sectors = (\<lambda>_. replicate 512 7), d_bad = (\<lambda>b. b = 9), d_ident = []\<rparr>"

definition sample_kide :: kide where
  "sample_kide = ktask.extend (sample_ktask\<lparr>sems := (\<lambda>_. \<lparr>sem_value = 1\<rparr>), WaitLinks := \<lparr>lp_prev = (\<lambda>x. x), lp_next = (\<lambda>x. x)\<rparr>\<rparr>)
     (kide.fields (\<lambda>_. sample_drive)
       (\<lambda>_. \<lparr>r_seccnt = 0, r_sector = 0, r_cyl_lo = 0, r_cyl_hi = 0, r_sdh = 0, xfer = None\<rparr>)
       (\<lambda>_. \<lparr>ide_valid = True, ide_sets = 0, ide_size = 100, ide_desc = []\<rparr>) 0xC0007000)"

lemma sample_kide_sel:
  "sems sample_kide = (\<lambda>_. \<lparr>sem_value = 1\<rparr>)" "WaitLinks sample_kide = \<lparr>lp_prev = (\<lambda>x. x), lp_next = (\<lambda>x. x)\<rparr>"
  "drives sample_kide = (\<lambda>_. sample_drive)"
  "IDE_Devices sample_kide = (\<lambda>_. \<lparr>ide_valid = True, ide_sets = 0, ide_size = 100, ide_desc = []\<rparr>)"
  by (simp_all add: sample_kide_def ktask.defs kide.defs)

lemma sample_kide_ready: "ide_ready sample_kide 0" "sem_free sample_kide sem"
  by (simp_all add: ide_ready_def sem_free_def sample_kide_sel sample_drive_def waitlistIsEmpty_def listIsEmpty_def)

section \<open>Properties\<close>

lemma length_sectors:
  "(\<And>x. length (f x) = 512) \<Longrightarrow> length (concat (map (\<lambda>k. f (b + of_nat k)) [0..<n])) = n * 512"
  by (induction n) simp_all

text \<open>
  C18: a read request to a drive in service delivers exactly the requested sectors, in order, into the buffer and
  changes no other memory; it fails exactly when one of the sectors cannot be read.  The drives and the
  lock are left as they were.
\<close>

theorem ide_read_correct:
  assumes "req_ok s i req" "req_type req = IO_READ"
  shows "\<exists>s'. ide_request_lock i req s = Ret (if req_bad s i req then -1 else 0, s') \<and>
    drives s' = drives s \<and> sems s' = sems s \<and>
    (\<not> req_bad s i req \<longrightarrow>
      rdbytes (mem s') (req_buffer req) (unat (req_nsecs req) * 512) =
        concat (map (\<lambda>k. d_sectors (drives s i) (req_secno req + of_nat k)) [0..<unat (req_nsecs req)]) \<and>
      (\<forall>a. (\<forall>k < unat (req_nsecs req) * 512. a \<noteq> req_buffer req + of_nat k) \<longrightarrow> mem s' a = mem s a))"
proof -
  let ?n = "unat (req_nsecs req)"
  let ?bs = "concat (map (\<lambda>k. d_sectors (drives s i) (req_secno req + of_nat k)) [0..<?n])"
  obtain s' where s': "ide_request_lock i req s = Ret (if req_bad s i req then -1 else 0, s')"
    "s' = s\<lparr>mem := mem s', channels := channels s'\<rparr>"
    "\<not> req_bad s i req \<longrightarrow> mem s' = wrbytes (req_buffer req) ?bs (mem s)"
    using request_read [OF assms] by blast
  have l: "length ?bs = ?n * 512"
    using assms(1) by (intro length_sectors) (simp add: req_ok_def ide_ready_def)
  have "?n \<le> 128" using assms(1) by (auto simp: req_ok_def intro: in_disk_bytes)
  then have "rdbytes (wrbytes (req_buffer req) ?bs (mem s)) (req_buffer req) (?n * 512) = ?bs"
    by (intro rdbytes_wrbytes) (simp_all add: l)
  moreover have "drives s' = drives s" "sems s' = sems s" by (subst s'(2), simp)+
  ultimately show ?thesis
    using s'(1,3) wrbytes_outside [where bs = ?bs] by (intro exI [of _ s']) (simp add: l)
qed

theorem ide_read_correct_witness:
  "\<exists>s'. ide_request_lock 0 \<lparr>req_type = IO_READ, req_secno = 5, req_nsecs = 2, req_buffer = 0xC0300000, req_bsize = 1024\<rparr> sample_kide = Ret (0, s') \<and>
     rdbytes (mem s') 0xC0300000 1024 = replicate 1024 7"
proof -
  define req where "req = \<lparr>req_type = IO_READ, req_secno = 5, req_nsecs = 2, req_buffer = 0xC0300000, req_bsize = 1024\<rparr>"
  have ok: "req_ok sample_kide 0 req" "req_type req = IO_READ"
    using sample_kide_ready by (simp_all add: req_ok_def req_def in_disk_def)
  have "k = 0 \<or> k = 1" if "k < 2" for k :: nat using that by auto
  then have nb: "\<not> req_bad sample_kide 0 req"
    by (fastforce simp: req_bad_def req_def sample_kide_sel sample_drive_def)
  have "[0..<2 :: nat] = [0, 1]" by (simp add: numeral_2_eq_2)
  then have "concat (map (\<lambda>k. d_sectors (drives sample_kide 0) (req_secno req + of_nat k)) [0..<unat (req_nsecs req)]) =
      replicate 1024 7"
    by (simp add: req_def sample_kide_sel sample_drive_def replicate_add [symmetric])
  then show ?thesis using ide_read_correct [OF ok] nb unfolding req_def [symmetric] by (auto simp: req_def)
qed

text \<open>
  C19: sectors written to a drive are read back unchanged, wherever the buffers are, and a write
  changes only the sectors it names, on that drive alone.
\<close>

theorem ide_write_read_roundtrip:
  assumes "req_ok s i req" "req_type req = IO_WRITE" and "\<not> req_bad s i req"
  shows "\<exists>s1 s2. ide_request_lock i req s = Ret (0, s1) \<and>
    ide_request_lock i (req\<lparr>req_type := IO_READ, req_buffer := dst\<rparr>) s1 = Ret (0, s2) \<and>
    rdbytes (mem s2) dst (unat (req_nsecs req) * 512) = rdbytes (mem s) (req_buffer req) (unat (req_nsecs req) * 512) \<and>
    (\<forall>j x. j \<noteq> i \<or> (\<forall>k < unat (req_nsecs req). x \<noteq> req_secno req + of_nat k) \<longrightarrow>
       d_sectors (drives s2 j) x = d_sectors (drives s j) x)"
proof -
  let ?n = "unat (req_nsecs req)" and ?b = "req_secno req" and ?r = "req\<lparr>req_type := IO_READ, req_buffer := dst\<rparr>"
  let ?ds = "map (\<lambda>k. rdbytes (mem s) (req_buffer req + of_nat k * SECTSIZE) 512) [0..<?n]"
  obtain s1 where s1: "ide_request_lock i req s = Ret (0, s1)" "s1 = s\<lparr>drives := drives s1, channels := channels s1\<rparr>"
    "drives s1 = (drives s)(i := (drives s i)\<lparr>d_sectors := putsecs ?b ?ds (d_sectors (drives s i))\<rparr>)"
    using request_write [OF assms(1,2)] assms(3) by auto
  have n: "?n \<le> 128" using assms(1) by (auto simp: req_ok_def intro: in_disk_bytes)
  have ins: "d_sectors (drives s1 i) (?b + of_nat k) = rdbytes (mem s) (req_buffer req + of_nat k * SECTSIZE) 512"
    if "k < ?n" for k using putsecs_inside [of k ?ds ?b] that n by (simp add: s1(3))
  have out: "d_sectors (drives s1 i) x = d_sectors (drives s i) x" if "\<forall>k < ?n. x \<noteq> ?b + of_nat k" for x
    using putsecs_outside [of ?ds x ?b] that by (simp add: s1(3))
  have "length (d_sectors (drives s1 i) x) = 512" for x
    using ins out [of x] assms(1) by (cases "\<forall>k < ?n. x \<noteq> ?b + of_nat k") (auto simp: req_ok_def ide_ready_def)
  moreover have "IDE_Devices s1 = IDE_Devices s" "sems s1 = sems s" "WaitLinks s1 = WaitLinks s" "IDE_Sem s1 = IDE_Sem s"
    by (subst s1(2), simp)+
  ultimately have ok: "req_ok s1 i ?r"
    using assms(1) by (auto simp: req_ok_def ide_ready_def sem_free_def ide_sem_def waitlistIsEmpty_def s1(3))
  have nb: "\<not> req_bad s1 i ?r" using assms(3) by (simp add: req_bad_def s1(3))
  have eq: "concat (map (\<lambda>k. d_sectors (drives s1 i) (?b + of_nat k)) [0..<?n]) = rdbytes (mem s) (req_buffer req) (?n * 512)"
    unfolding rdbytes_sectors [symmetric] by (intro arg_cong [where f = concat] map_cong) (simp_all add: ins)
  obtain s2 where s2: "ide_request_lock i ?r s1 = Ret (0, s2)" "s2 = s1\<lparr>mem := mem s2, channels := channels s2\<rparr>"
    "mem s2 = wrbytes dst (rdbytes (mem s) (req_buffer req) (?n * 512)) (mem s1)"
    using request_read [OF ok] nb eq by auto
  have "rdbytes (mem s2) dst (?n * 512) = rdbytes (mem s) (req_buffer req) (?n * 512)"
    unfolding s2(3) using n by (intro rdbytes_wrbytes) simp_all
  moreover have "drives s2 = drives s1" by (subst s2(2)) simp
  ultimately show ?thesis using s1(1) s2(1) out by (intro exI [of _ s1] exI [of _ s2]) (auto simp: s1(3))
qed

theorem ide_write_read_roundtrip_witness:
  "\<exists>s1 s2. ide_request_lock 0 \<lparr>req_type = IO_WRITE, req_secno = 3, req_nsecs = 1, req_buffer = 0xC0300000, req_bsize = 512\<rparr> sample_kide = Ret (0, s1) \<and>
     ide_request_lock 0 \<lparr>req_type = IO_READ, req_secno = 3, req_nsecs = 1, req_buffer = 0xC0400000, req_bsize = 512\<rparr> s1 = Ret (0, s2) \<and>
     rdbytes (mem s2) 0xC0400000 512 = rdbytes (mem sample_kide) 0xC0300000 512"
proof -
  define req where "req = \<lparr>req_type = IO_WRITE, req_secno = 3, req_nsecs = 1, req_buffer = 0xC0300000, req_bsize = 512\<rparr>"
  have "req_ok sample_kide 0 req" "req_type req = IO_WRITE" "\<not> req_bad sample_kide 0 req"
    using sample_kide_ready by (simp_all add: req_ok_def req_def in_disk_def req_bad_def sample_kide_sel sample_drive_def)
  from ide_write_read_roundtrip [OF this, of "0xC0400000"] show ?thesis by (auto simp: req_def)
qed

end
