(* ===== verification/Block.thy ===== *)
theory Block
  imports IDE_Correct
begin

text \<open>
  Block devices and partitions: \<^verbatim>\<open>kern/driver/block.c\<close>, \<^verbatim>\<open>setIDE_Device\<close> of \<^verbatim>\<open>kern/driver/ide_entity.c\<close> and
  \<^verbatim>\<open>kern/driver/partiton.c\<close>.  A device's table of functions is the number of the IDE drive whose
  functions it holds, or \<open>NoOps\<close> when its pointers are NULL.  A list node is the address of the device
  it is embedded in.  The printing functions are left out, but for what \<^verbatim>\<open>printDevice\<close> does to the
  devices.
\<close>

datatype blkops = NoOps | IdeOps nat

record blockdev =
  bd_id :: int
  bd_name :: string
  bd_active :: bool
  bd_block_size :: u32
  bd_base :: "nat option"
  bd_ops :: blkops

record MBR_Device =
  md_devid :: u32
  md_dev :: ptr
  mbr_diskinfo :: "u8 list"

record kblk = kide +
  blockdevs :: "ptr \<Rightarrow> blockdev"
  BlkLinks :: "ptr list_heap"
  BlockDeviceList :: ptr
  BlockDevsActiveCount :: u32
  next_devid :: int
  MBR_Temp :: ptr
  MBR_DeviceList :: ptr
  MBR_Devices :: "ptr \<Rightarrow> MBR_Device"
  MBRLinks :: "ptr list_heap"
  MBR_Count :: u32

definition upd_blk :: "ptr \<Rightarrow> (blockdev \<Rightarrow> blockdev) \<Rightarrow> 'a kblk_scheme \<Rightarrow> 'a kblk_scheme" where
  "upd_blk dev f s = s\<lparr>blockdevs := (blockdevs s)(dev := f (blockdevs s dev))\<rparr>"

section \<open>Calls through the function table\<close>

definition blk_init :: "ptr \<Rightarrow> 'a kblk_scheme \<Rightarrow> (int \<times> 'a kblk_scheme) kres" where
  "blk_init dev s = (case bd_ops (blockdevs s dev) of NoOps \<Rightarrow> Undef | IdeOps i \<Rightarrow> ide_entity_init i s)"

definition blk_is_vaild :: "ptr \<Rightarrow> 'a kblk_scheme \<Rightarrow> bool kres" where
  "blk_is_vaild dev s = (case bd_ops (blockdevs s dev) of NoOps \<Rightarrow> Undef | IdeOps i \<Rightarrow> Ret (ide_device_isvaild i s))"

definition blk_get_nr_block :: "ptr \<Rightarrow> 'a kblk_scheme \<Rightarrow> u32 kres" where
  "blk_get_nr_block dev s = (case bd_ops (blockdevs s dev) of NoOps \<Rightarrow> Undef | IdeOps i \<Rightarrow> Ret (ide_get_nr_block i s))"

definition blk_request :: "ptr \<Rightarrow> IOrequest \<Rightarrow> 'a kblk_scheme \<Rightarrow> (int \<times> 'a kblk_scheme) kres" where
  "blk_request dev req s = (case bd_ops (blockdevs s dev) of NoOps \<Rightarrow> Undef | IdeOps i \<Rightarrow> ide_request_lock i req s)"

section \<open>Devices\<close>

definition getNewDevid :: "'a kblk_scheme \<Rightarrow> int \<times> 'a kblk_scheme" where
  "getNewDevid s = (let next = next_devid s + 1 in (next, s\<lparr>next_devid := next\<rparr>))"

definition setIDE_Device :: "nat \<Rightarrow> ptr \<Rightarrow> 'a kblk_scheme \<Rightarrow> 'a kblk_scheme kres" where
  "setIDE_Device ideno dev s =
     (if dev = NULL then Panic ''blockdev is NULL in setIDE_Data()!''
      else if ideno = 0 \<or> ideno = 1
      then let (nid, s1) = getNewDevid s
           in Ret (upd_blk dev (\<lambda>d. d\<lparr>bd_id := nid, bd_name := (if ideno = 0 then ''IDE 0'' else ''IDE 1''),
                bd_block_size := SECTSIZE, bd_base := Some ideno, bd_ops := IdeOps ideno\<rparr>) s1)
      else if ideno = 2 \<or> ideno = 3
      then Ret (upd_blk dev (\<lambda>_. \<lparr>bd_id = 0, bd_name = [], bd_active = False, bd_block_size = 0, bd_base = None, bd_ops = NoOps\<rparr>) s)
      else Ret s)"

definition initBlock_one :: "nat \<Rightarrow> 'a kblk_scheme \<Rightarrow> 'a kblk_scheme kres" where
  "initBlock_one i s =
     kbind (kmalloc 52 s) (\<lambda>(dev, s1).
     if BlockDeviceList s1 = NULL then Panic ''block dev malloc error!''
     else kbind (setIDE_Device i dev s1) (\<lambda>s2.
       if bd_ops (blockdevs s2 dev) = NoOps then Ret (upd_blk dev (\<lambda>d. d\<lparr>bd_active := False\<rparr>) s2)
       else kbind (blk_init dev s2) (\<lambda>(r, s3).
         if r \<noteq> 0 then Ret (upd_blk dev (\<lambda>d. d\<lparr>bd_active := False\<rparr>) s3)
         else kbind (blk_is_vaild dev s3) (\<lambda>v.
           if v then let s4 = upd_blk dev (\<lambda>d. d\<lparr>bd_active := True\<rparr>) s3
                in Ret (s4\<lparr>BlkLinks := listAdd (BlockDeviceList s4) dev (BlkLinks s4),
                           BlockDevsActiveCount := BlockDevsActiveCount s4 + 1\<rparr>)
           else Ret s3))))"

fun initBlock_loop :: "nat \<Rightarrow> nat \<Rightarrow> 'a kblk_scheme \<Rightarrow> 'a kblk_scheme kres" where
  "initBlock_loop i 0 s = Ret s"
| "initBlock_loop i (Suc n) s = kbind (initBlock_one i s) (initBlock_loop (Suc i) n)"

text \<open>\<^verbatim>\<open>printDevice\<close> initialises every listed device once more.\<close>

definition printDevice_body :: "ptr \<times> 'a kblk_scheme \<Rightarrow> (ptr \<times> 'a kblk_scheme + 'a kblk_scheme) kres" where
  "printDevice_body = (\<lambda>(listi, s).
     if listi = BlockDeviceList s then Ret (Inr s)
     else if bd_ops (blockdevs s listi) = NoOps then Ret (Inl (listGetNext (BlkLinks s) listi, s))
     else kbind (blk_init listi s) (\<lambda>(r, s1). Ret (Inl (listGetNext (BlkLinks s1) listi, s1))))"

definition printDevice :: "'a kblk_scheme \<Rightarrow> 'a kblk_scheme kres" where
  "printDevice s = kwhile printDevice_body (listGetNext (BlkLinks s) (BlockDeviceList s), s)"

definition initBlockDevice :: "'a kblk_scheme \<Rightarrow> 'a kblk_scheme kres" where
  "initBlockDevice s =
     kbind (kmalloc 52 s) (\<lambda>(l, s1).
       let s2 = s1\<lparr>BlockDeviceList := l\<rparr>
       in if l = NULL then Panic ''BlockDeviceList malloc error!''
          else kbind (initBlock_loop 0 MAX_IDE (s2\<lparr>BlkLinks := initList l (BlkLinks s2)\<rparr>)) printDevice)"

definition getDeviceWithId :: "u32 \<Rightarrow> 'a kblk_scheme \<Rightarrow> ptr kres" where
  "getDeviceWithId devid s =
     kbind (kloop (listFind (BlkLinks s) (BlockDeviceList s)
       (\<lambda>dev. dev \<noteq> NULL \<and> of_int (bd_id (blockdevs s dev)) = devid))) (\<lambda>r.
       Ret (case r of Some dev \<Rightarrow> dev | None \<Rightarrow> NULL))"

section \<open>Partitions\<close>

text \<open>The boot sector as bytes: the 446 bytes of code, four 16-byte entries and the two magic bytes.\<close>

record PartitionDiskInfo =
  pi_active :: u8
  partition_type :: u8
  start_sector :: u32
  nsectors :: u32

definition partinfo :: "u8 list \<Rightarrow> nat \<Rightarrow> PartitionDiskInfo" where
  "partinfo mbr i = (let b = 446 + 16 * i
     in \<lparr>pi_active = mbr ! b, partition_type = mbr ! (b + 4), start_sector = le32 mbr (b + 8), nsectors = le32 mbr (b + 12)\<rparr>)"

definition magic_55 :: "u8 list \<Rightarrow> u8" where
  "magic_55 mbr = mbr ! 510"

definition magic_AA :: "u8 list \<Rightarrow> u8" where
  "magic_AA mbr = mbr ! 511"

definition readMBR_Info :: "ptr \<Rightarrow> 'a kblk_scheme \<Rightarrow> (ptr \<times> 'a kblk_scheme) kres" where
  "readMBR_Info dev s =
     kbind (blk_request dev \<lparr>req_type = IO_READ, req_secno = 0, req_nsecs = 1, req_buffer = MBR_Temp s, req_bsize = 512\<rparr> s)
       (\<lambda>(r, s1). if r \<noteq> 0 then Panic ''IO error!'' else Ret (MBR_Temp s1, s1))"

definition initPartition_body :: "ptr \<times> 'a kblk_scheme \<Rightarrow> (ptr \<times> 'a kblk_scheme + 'a kblk_scheme) kres" where
  "initPartition_body = (\<lambda>(listi, s).
     if listi = BlockDeviceList s then Ret (Inr s)
     else if \<not> bd_active (blockdevs s listi) then Ret (Inl (listGetNext (BlkLinks s) listi, s))
     else kbind (readMBR_Info listi s) (\<lambda>(p, s1).
       let s2 = s1\<lparr>MBR_Temp := p\<rparr>;
           mbr = rdbytes (mem s2) p 512
       in if magic_55 mbr = 0x55 \<and> magic_AA mbr = 0xAA
          then kbind (kmalloc 528 s2) (\<lambda>(md, s3).
                 if md = NULL then Undef
                 else Ret (Inl (listGetNext (BlkLinks s3) listi,
                   s3\<lparr>MBR_Devices := (MBR_Devices s3)(md :=
                         \<lparr>md_devid = of_int (bd_id (blockdevs s3 listi)), md_dev = listi, mbr_diskinfo = mbr\<rparr>),
                      MBR_Count := MBR_Count s3 + 1, MBRLinks := listAdd (MBR_DeviceList s3) md (MBRLinks s3)\<rparr>)))
          else Ret (Inl (listGetNext (BlkLinks s2) listi, s2))))"

definition initPartitionTable :: "'a kblk_scheme \<Rightarrow> 'a kblk_scheme kres" where
  "initPartitionTable s =
     kbind (kmalloc 512 s) (\<lambda>(p, s1).
       if p = NULL then Panic ''MBR_Temp malloc error!''
       else kbind (kmalloc 528 (s1\<lparr>MBR_Temp := p\<rparr>)) (\<lambda>(l, s2).
         if l = NULL then Panic ''MBR_DeviceList malloc error!''
         else let s3 = s2\<lparr>MBR_DeviceList := l, MBRLinks := initList l (MBRLinks s2)\<rparr>
              in kwhile initPartition_body (listGetNext (BlkLinks s3) (BlockDeviceList s3), s3)))"

definition getPartType :: "int \<Rightarrow> string" where
  "getPartType type =
     (if type = 0x00 then ''Unused''
      else if type = 0x06 then ''FAT16''
      else if type = 0x0B then ''FAT32''
      else if type = 0x05 then ''Extend''
      else if type = 0x07 then ''NTFS''
      else if type = 0x0F then ''LBAextend''
      else if type = 0x83 then ''Linux''
      else ''Unknown'')"

end
