(* ===== verification/Bcache.thy ===== *)
theory Bcache
  imports Block
begin

text \<open>
  The block cache, \<^verbatim>\<open>kern/driver/bcache.c\<close>: sixteen one-sector buffers in front of the block devices,
  replaced by age.  The entries are the array \<^verbatim>\<open>BlockCache\<close>; their data are bytes in memory at the
  address \<^verbatim>\<open>data\<close>, where the device requests put them.  The trace output is left out.
\<close>

abbreviation (input) N_BCACHE :: nat where "N_BCACHE \<equiv> 16"

record bcache =
  bc_size :: u32
  bc_data :: ptr
  bc_devid :: u32
  bc_dev :: ptr
  bc_secno :: u32
  bc_time :: u32
  bc_occupied :: bool
  bc_modified :: bool

record kbc = kblk +
  BlockCache :: "nat \<Rightarrow> bcache"
  BlockCacheSem :: ptr

definition upd_bc :: "nat \<Rightarrow> (bcache \<Rightarrow> bcache) \<Rightarrow> 'a kbc_scheme \<Rightarrow> 'a kbc_scheme" where
  "upd_bc i f s = s\<lparr>BlockCache := (BlockCache s)(i := f (BlockCache s i))\<rparr>"

fun initBlockCache_loop :: "nat \<Rightarrow> nat \<Rightarrow> 'a kbc_scheme \<Rightarrow> 'a kbc_scheme kres" where
  "initBlockCache_loop i 0 s = Ret s"
| "initBlockCache_loop i (Suc n) s =
     kbind (kmalloc SECTSIZE s) (\<lambda>(p, s1).
       if p = NULL then Panic ''BlockCache.data malloc error!''
       else initBlockCache_loop (Suc i) n
              (upd_bc i (\<lambda>_. \<lparr>bc_size = SECTSIZE, bc_data = p, bc_devid = 0, bc_dev = NULL, bc_secno = 0, bc_time = 0,
                          bc_occupied = False, bc_modified = False\<rparr>) s1))"

definition initBlockCache :: "'a kbc_scheme \<Rightarrow> 'a kbc_scheme kres" where
  "initBlockCache s =
     (let s1 = initSem (BlockCacheSem s) 1 s
      in kbind (kmalloc 512 s1) (\<lambda>(p, s2).
           if p = NULL then Panic ''BlockCache malloc error!'' else initBlockCache_loop 0 N_BCACHE s2))"

definition lockBlockCache :: "'a kbc_scheme \<Rightarrow> 'a kbc_scheme kres" where
  "lockBlockCache s = acquireSem (BlockCacheSem s) s"

definition unlockBlockCache :: "'a kbc_scheme \<Rightarrow> 'a kbc_scheme kres" where
  "unlockBlockCache s = releaseSem (BlockCacheSem s) s"

definition copyIOrequest :: "IOrequest \<Rightarrow> IOrequest \<Rightarrow> IOrequest" where
  "copyIOrequest dst src = dst\<lparr>req_bsize := req_bsize src, req_buffer := req_buffer src, req_type := req_type src,
     req_nsecs := req_nsecs src, req_secno := req_secno src\<rparr>"

definition disk_io_direct_oneblock :: "ptr \<Rightarrow> ptr \<Rightarrow> u32 \<Rightarrow> io_type \<Rightarrow> 'a kbc_scheme \<Rightarrow> (int \<times> 'a kbc_scheme) kres" where
  "disk_io_direct_oneblock dev buffer secno write s =
     (if dev = NULL then Panic ''blockdev is NULL in disk_io!''
      else kbind (blk_request dev \<lparr>req_type = write, req_secno = secno, req_nsecs = 1, req_buffer = buffer, req_bsize = SECTSIZE\<rparr> s)
             (\<lambda>(r, s1). Ret (if r \<noteq> 0 then 1 else 0, s1)))"

definition bc_hit :: "'a kbc_scheme \<Rightarrow> ptr \<Rightarrow> u32 \<Rightarrow> nat \<Rightarrow> bool" where
  "bc_hit s dev secno i \<longleftrightarrow> bc_occupied (BlockCache s i) \<and> bc_dev (BlockCache s i) = dev \<and> bc_secno (BlockCache s i) = secno"

text \<open>The search for a free entry keeps the oldest entry passed so far: \<open>Inl\<close> a free entry, \<open>Inr\<close> the oldest.\<close>

fun bc_scan :: "(nat \<Rightarrow> bcache) \<Rightarrow> nat list \<Rightarrow> nat \<Rightarrow> nat + nat" where
  "bc_scan B [] m = Inr m"
| "bc_scan B (i # is) m =
     (if \<not> bc_occupied (B i) then Inl i
      else bc_scan B is (if bc_time (B m) < bc_time (B i) then i else m))"

text \<open>Copy between entry \<open>i\<close> and the caller's buffer; \<open>fresh\<close> when the entry was just filled from the disk.\<close>

definition bc_copy :: "bool \<Rightarrow> nat \<Rightarrow> ptr \<Rightarrow> io_type \<Rightarrow> 'a kbc_scheme \<Rightarrow> 'a kbc_scheme" where
  "bc_copy fresh i buffer write s =
     (case write of
        IO_WRITE \<Rightarrow> upd_bc i (\<lambda>e. e\<lparr>bc_modified := True\<rparr>) (s\<lparr>mem := snd (memcpy (bc_data (BlockCache s i)) buffer SECTSIZE (mem s))\<rparr>)
      | IO_READ \<Rightarrow> upd_bc i (\<lambda>e. if fresh then e\<lparr>bc_modified := False\<rparr> else e)
                    (s\<lparr>mem := snd (memcpy buffer (bc_data (BlockCache s i)) SECTSIZE (mem s))\<rparr>))"

definition bc_tick :: "'a kbc_scheme \<Rightarrow> 'a kbc_scheme" where
  "bc_tick s = s\<lparr>BlockCache := (\<lambda>i. if i < N_BCACHE \<and> bc_occupied (BlockCache s i)
     then (BlockCache s i)\<lparr>bc_time := bc_time (BlockCache s i) + 1\<rparr> else BlockCache s i)\<rparr>"

definition bc_finish :: "'a kbc_scheme \<Rightarrow> (int \<times> 'a kbc_scheme) kres" where
  "bc_finish s = kbind (unlockBlockCache (bc_tick s)) (\<lambda>s1. Ret (0, s1))"

definition bc_fail :: "'a kbc_scheme \<Rightarrow> (int \<times> 'a kbc_scheme) kres" where
  "bc_fail s = kbind (unlockBlockCache s) (\<lambda>s1. Ret (1, s1))"

text \<open>Claim entry \<open>i\<close> for a sector and load it.\<close>

definition bc_claim :: "nat \<Rightarrow> ptr \<Rightarrow> u32 \<Rightarrow> 'a kbc_scheme \<Rightarrow> 'a kbc_scheme" where
  "bc_claim i dev secno s = upd_bc i (\<lambda>e. e\<lparr>bc_occupied := True, bc_secno := secno, bc_dev := dev,
     bc_devid := of_int (bd_id (blockdevs s dev))\<rparr>) s"

definition bc_load :: "nat \<Rightarrow> ptr \<Rightarrow> ptr \<Rightarrow> u32 \<Rightarrow> io_type \<Rightarrow> 'a kbc_scheme \<Rightarrow> (int \<times> 'a kbc_scheme) kres" where
  "bc_load i dev buffer secno write s =
     kbind (disk_io_direct_oneblock dev (bc_data (BlockCache s i)) secno IO_READ s) (\<lambda>(r, s1).
       if r \<noteq> 0 then bc_fail s1
       else bc_finish (upd_bc i (\<lambda>e. e\<lparr>bc_time := 0\<rparr>) (bc_copy True i buffer write s1)))"

definition bcache_rw :: "ptr \<Rightarrow> ptr \<Rightarrow> u32 \<Rightarrow> io_type \<Rightarrow> 'a kbc_scheme \<Rightarrow> (int \<times> 'a kbc_scheme) kres" where
  "bcache_rw dev buffer secno write s =
     kbind (lockBlockCache s) (\<lambda>s1.
     case find (bc_hit s1 dev secno) [0..<N_BCACHE] of
       Some i \<Rightarrow> bc_finish (upd_bc i (\<lambda>e. e\<lparr>bc_time := 0\<rparr>) (bc_copy False i buffer write s1))
     | None \<Rightarrow>
         (case bc_scan (BlockCache s1) [0..<N_BCACHE] 0 of
            Inl i \<Rightarrow> bc_load i dev buffer secno write (bc_claim i dev secno s1)
          | Inr m \<Rightarrow>
              kbind (if bc_modified (BlockCache s1 m)
                     then disk_io_direct_oneblock (bc_dev (BlockCache s1 m)) (bc_data (BlockCache s1 m)) (bc_secno (BlockCache s1 m)) IO_WRITE s1
                     else Ret (0, s1)) (\<lambda>(r, s2).
                if r \<noteq> 0 then bc_fail s2
                else bc_load m dev buffer secno write (bc_claim m dev secno (upd_bc m (\<lambda>e. e\<lparr>bc_time := 0\<rparr>) s2)))))"

text \<open>Loops over consecutive sectors, one request each, ended by the first failure.\<close>

fun each_sector :: "(ptr \<Rightarrow> u32 \<Rightarrow> 's \<Rightarrow> (int \<times> 's) kres) \<Rightarrow> ptr \<Rightarrow> u32 \<Rightarrow> nat \<Rightarrow> 's \<Rightarrow> (int \<times> 's) kres" where
  "each_sector rw buffer secno 0 s = Ret (0, s)"
| "each_sector rw buffer secno (Suc n) s =
     kbind (rw buffer secno s) (\<lambda>(r, s1). if r \<noteq> 0 then Ret (1, s1) else each_sector rw (buffer + SECTSIZE) (secno + 1) n s1)"

definition diskIO_BCache :: "ptr \<Rightarrow> IOrequest \<Rightarrow> 'a kbc_scheme \<Rightarrow> (int \<times> 'a kbc_scheme) kres" where
  "diskIO_BCache dev req s =
     (if dev = NULL then Panic ''blockdev is NULL in disk_io!''
      else each_sector (\<lambda>buffer secno. bcache_rw dev buffer secno (req_type req)) (req_buffer req) (req_secno req)
             (unat (req_nsecs req)) s)"

fun sync_loop :: "nat list \<Rightarrow> 'a kbc_scheme \<Rightarrow> (int \<times> 'a kbc_scheme) kres" where
  "sync_loop [] s = kbind (unlockBlockCache s) (\<lambda>s1. Ret (0, s1))"
| "sync_loop (i # is) s =
     (let e = BlockCache s i
      in if bc_occupied e \<and> bc_modified e
         then kbind (disk_io_direct_oneblock (bc_dev e) (bc_data e) (bc_secno e) IO_WRITE s) (\<lambda>(r, s1).
                if r \<noteq> 0 then bc_fail s1 else sync_loop is s1)
         else sync_loop is s)"

definition sync_all_bcache :: "'a kbc_scheme \<Rightarrow> (int \<times> 'a kbc_scheme) kres" where
  "sync_all_bcache s = kbind (lockBlockCache s) (sync_loop [0..<N_BCACHE])"

definition disk_io_direct :: "ptr \<Rightarrow> IOrequest \<Rightarrow> 'a kbc_scheme \<Rightarrow> (int \<times> 'a kbc_scheme) kres" where
  "disk_io_direct dev req s =
     (if dev = NULL then Panic ''blockdev is NULL in disk_io!''
      else kbind (blk_request dev req s) (\<lambda>(r, s1). Ret (if r \<noteq> 0 then 1 else 0, s1)))"

definition disk_io_block :: "ptr \<Rightarrow> ptr \<Rightarrow> u32 \<Rightarrow> u32 \<Rightarrow> io_type \<Rightarrow> 'a kbc_scheme \<Rightarrow> (int \<times> 'a kbc_scheme) kres" where
  "disk_io_block dev buffer secno nsecs write s =
     (if dev = NULL then Panic ''blockdev is NULL in disk_io!''
      else each_sector (\<lambda>buffer secno. blk_request dev
             \<lparr>req_type = write, req_secno = secno, req_nsecs = 1, req_buffer = buffer, req_bsize = SECTSIZE\<rparr>)
           buffer secno (unat nsecs) s)"

end
