(* ===== verification/Bcache_Correct.thy ===== *)
theory Bcache_Correct
  imports Bcache
begin

text \<open>
  Correctness of the block cache.  \<open>bview\<close> is what a client sees of the disks through the cache: the
  bytes of the entry that holds the sector, or the sector itself.  Reads return it, writes change
  one sector of it, evictions and write-backs leave it alone, and \<^verbatim>\<open>sync_all_bcache\<close> makes the disks
  agree with it.
\<close>

section \<open>What the cache shows\<close>

definition ideno :: "'a kblk_scheme \<Rightarrow> ptr \<Rightarrow> nat" where
  "ideno s dev = (case bd_ops (blockdevs s dev) of IdeOps i \<Rightarrow> i | NoOps \<Rightarrow> 0)"

definition disk :: "'a kblk_scheme \<Rightarrow> ptr \<Rightarrow> u32 \<Rightarrow> u8 list" where
  "disk s dev x = d_sectors (drives s (ideno s dev)) x"

definition bc_bytes :: "'a kbc_scheme \<Rightarrow> nat \<Rightarrow> u8 list" where
  "bc_bytes s i = rdbytes (mem s) (bc_data (BlockCache s i)) 512"

definition bview :: "'a kbc_scheme \<Rightarrow> ptr \<Rightarrow> u32 \<Rightarrow> u8 list" where
  "bview s dev x = (case find (bc_hit s dev x) [0..<N_BCACHE] of Some i \<Rightarrow> bc_bytes s i | None \<Rightarrow> disk s dev x)"

text \<open>A device in service, none of whose sectors is bad.\<close>

definition dev_ok :: "'a kbc_scheme \<Rightarrow> ptr \<Rightarrow> bool" where
  "dev_ok s dev \<longleftrightarrow> dev \<noteq> NULL \<and> bd_ops (blockdevs s dev) \<noteq> NoOps \<and> ide_ready s (ideno s dev) \<and>
     sem_free s (ide_sem (ideno s dev) s) \<and> (\<forall>x. \<not> d_bad (drives s (ideno s dev)) x)"

definition cache_inv :: "'a kbc_scheme \<Rightarrow> ptr set \<Rightarrow> bool" where
  "cache_inv s D \<longleftrightarrow> (\<forall>d \<in> D. dev_ok s d) \<and> inj_on (ideno s) D \<and>
     (\<forall>i < N_BCACHE. bc_occupied (BlockCache s i) \<longrightarrow> bc_dev (BlockCache s i) \<in> D \<and> bc_secno (BlockCache s i) < MAX_DISK_NSECS \<and>
        (\<not> bc_modified (BlockCache s i) \<longrightarrow> bc_bytes s i = disk s (bc_dev (BlockCache s i)) (bc_secno (BlockCache s i)))) \<and>
     (\<forall>i < N_BCACHE. \<forall>j < N_BCACHE. \<forall>d x. bc_hit s d x i \<longrightarrow> bc_hit s d x j \<longrightarrow> i = j) \<and>
     (\<forall>i < N_BCACHE. \<forall>j < N_BCACHE. i \<noteq> j \<longrightarrow> span (bc_data (BlockCache s i)) 512 \<inter> span (bc_data (BlockCache s j)) 512 = {})"

text \<open>The cache's lock is free and is not the lock of a device.\<close>

definition cache_free :: "'a kbc_scheme \<Rightarrow> ptr set \<Rightarrow> bool" where
  "cache_free s D \<longleftrightarrow> sem_free s (BlockCacheSem s) \<and> (\<forall>d \<in> D. ide_sem (ideno s d) s \<noteq> BlockCacheSem s)"

definition buffer_ok :: "'a kbc_scheme \<Rightarrow> ptr \<Rightarrow> bool" where
  "buffer_ok s buf \<longleftrightarrow> (\<forall>i < N_BCACHE. span (bc_data (BlockCache s i)) 512 \<inter> span buf 512 = {})"

lemma find_hit: "find P [0..<n] = Some i \<Longrightarrow> i < n \<and> P i"
  by (auto simp: find_Some_iff)

lemma find_miss: "find P [0..<n] = None \<Longrightarrow> i < n \<Longrightarrow> \<not> P i"
  by (auto simp: find_None_iff)

lemma bview_cases:
  obtains i where "i < N_BCACHE" "bc_hit s d x i" "bview s d x = bc_bytes s i"
  | "\<And>i. i < N_BCACHE \<Longrightarrow> \<not> bc_hit s d x i" "bview s d x = disk s d x"
  by (cases "find (bc_hit s d x) [0..<N_BCACHE]") (auto simp: bview_def dest: find_hit find_miss)

lemma bviewI:
  assumes "\<And>i. i < N_BCACHE \<Longrightarrow> bc_hit s d x i \<Longrightarrow> bc_bytes s i = v"
    and "(\<And>i. i < N_BCACHE \<Longrightarrow> \<not> bc_hit s d x i) \<Longrightarrow> disk s d x = v"
  shows "bview s d x = v"
  by (rule bview_cases [of s d x]) (use assms in auto)

lemma cache_invD:
  assumes "cache_inv s D"
  shows "d \<in> D \<Longrightarrow> dev_ok s d" and "d \<in> D \<Longrightarrow> d' \<in> D \<Longrightarrow> ideno s d = ideno s d' \<Longrightarrow> d = d'"
    and "i < N_BCACHE \<Longrightarrow> bc_hit s d x i \<Longrightarrow> d \<in> D \<and> x < MAX_DISK_NSECS"
    and "i < N_BCACHE \<Longrightarrow> bc_hit s d x i \<Longrightarrow> \<not> bc_modified (BlockCache s i) \<Longrightarrow> bc_bytes s i = disk s d x"
    and "i < N_BCACHE \<Longrightarrow> j < N_BCACHE \<Longrightarrow> bc_hit s d x i \<Longrightarrow> bc_hit s d x j \<Longrightarrow> i = j"
    and "i < N_BCACHE \<Longrightarrow> j < N_BCACHE \<Longrightarrow> i \<noteq> j \<Longrightarrow> span (bc_data (BlockCache s i)) 512 \<inter> span (bc_data (BlockCache s j)) 512 = {}"
  using assms by (auto simp: cache_inv_def bc_hit_def inj_on_def)

lemma cache_invI:
  assumes "\<And>d. d \<in> D \<Longrightarrow> dev_ok s d" and "inj_on (ideno s) D"
    and "\<And>i d x. i < N_BCACHE \<Longrightarrow> bc_hit s d x i \<Longrightarrow> d \<in> D \<and> x < MAX_DISK_NSECS"
    and "\<And>i d x. i < N_BCACHE \<Longrightarrow> bc_hit s d x i \<Longrightarrow> \<not> bc_modified (BlockCache s i) \<Longrightarrow> bc_bytes s i = disk s d x"
    and "\<And>i j d x. i < N_BCACHE \<Longrightarrow> j < N_BCACHE \<Longrightarrow> bc_hit s d x i \<Longrightarrow> bc_hit s d x j \<Longrightarrow> i = j"
    and "\<And>i j. i < N_BCACHE \<Longrightarrow> j < N_BCACHE \<Longrightarrow> i \<noteq> j \<Longrightarrow> span (bc_data (BlockCache s i)) 512 \<inter> span (bc_data (BlockCache s j)) 512 = {}"
  shows "cache_inv s D"
  unfolding cache_inv_def using assms by (intro conjI ballI allI impI) (auto simp: bc_hit_def)

lemma bview_hit:
  assumes "cache_inv s D" "i < N_BCACHE" "bc_hit s d x i"
  shows "bview s d x = bc_bytes s i"
  by (rule bviewI) (use assms cache_invD(5) [OF assms(1)] in blast)+

lemma bview_miss: "(\<And>i. i < N_BCACHE \<Longrightarrow> \<not> bc_hit s d x i) \<Longrightarrow> bview s d x = disk s d x"
  by (rule bviewI) auto

section \<open>Bytes\<close>

lemma rdbytes_cong: "(\<And>a. a \<in> span p n \<Longrightarrow> m a = m' a) \<Longrightarrow> rdbytes m p n = rdbytes m' p n"
  by (auto simp: rdbytes_def span_def)

lemma rdbytes_wrbytes_other:
  "length bs = k \<Longrightarrow> span p k \<inter> span q n = {} \<Longrightarrow> rdbytes (wrbytes p bs m) q n = rdbytes m q n"
  by (rule rdbytes_cong, rule wrbytes_outside) (auto simp: span_def)

lemma memcpy_sector:
  assumes "span d 512 \<inter> span b 512 = {}"
  shows "rdbytes (snd (memcpy d b SECTSIZE m)) d 512 = rdbytes m b 512"
    and "a \<notin> span d 512 \<Longrightarrow> snd (memcpy d b SECTSIZE m) a = m a"
    and "span d 512 \<inter> span q n = {} \<Longrightarrow> rdbytes (snd (memcpy d b SECTSIZE m)) q n = rdbytes m q n"
proof -
  have "memcpy_loop d b 512 m (d + of_nat i) = m (b + of_nat i)" if "i < 512" for i
    using memcpy_loop_copied [of 512 d b i m] assms that by simp
  then show "rdbytes (snd (memcpy d b SECTSIZE m)) d 512 = rdbytes m b 512"
    by (simp add: memcpy_def rdbytes_def)
  show o: "snd (memcpy d b SECTSIZE m) a = m a" if "a \<notin> span d 512" for a
    using memcpy_loop_other [OF that, of b m] by (simp add: memcpy_def)
  show "span d 512 \<inter> span q n = {} \<Longrightarrow> rdbytes (snd (memcpy d b SECTSIZE m)) q n = rdbytes m q n"
    by (rule rdbytes_cong, rule o) auto
qed

section \<open>Device requests for one sector\<close>

lemma dev_ok_request:
  assumes "dev_ok s dev" "x < MAX_DISK_NSECS" "req_secno req = x" "req_nsecs req = 1" "req_bsize req = SECTSIZE"
  shows "blk_request dev req s = ide_request_lock (ideno s dev) req s" "req_ok s (ideno s dev) req"
    "\<not> req_bad s (ideno s dev) req"
proof -
  show "blk_request dev req s = ide_request_lock (ideno s dev) req s"
    using assms(1) by (auto simp: blk_request_def dev_ok_def ideno_def split: blkops.splits)
  have "x + 1 \<le> MAX_DISK_NSECS" using assms(2) by (simp add: inc_le)
  then show "req_ok s (ideno s dev) req"
    using assms by (simp add: req_ok_def dev_ok_def in_disk_def)
  show "\<not> req_bad s (ideno s dev) req" using assms(1) by (simp add: req_bad_def dev_ok_def)
qed

lemma oneblock_read:
  assumes "dev_ok s dev" "x < MAX_DISK_NSECS"
  shows "\<exists>ch. disk_io_direct_oneblock dev buf x IO_READ s = Ret (0, s\<lparr>mem := wrbytes buf (disk s dev x) (mem s), channels := ch\<rparr>)"
proof -
  define req where "req = \<lparr>req_type = IO_READ, req_secno = x, req_nsecs = 1, req_buffer = buf, req_bsize = SECTSIZE\<rparr>"
  note r = dev_ok_request [OF assms, of req]
  obtain s' where s': "ide_request_lock (ideno s dev) req s = Ret (0, s')" "s' = s\<lparr>mem := mem s', channels := channels s'\<rparr>"
    "mem s' = wrbytes buf (disk s dev x) (mem s)"
    using request_read [OF r(2)] r(3) by (auto simp: req_def disk_def)
  have "disk_io_direct_oneblock dev buf x IO_READ s = Ret (0, s')"
    using s'(1) r(1) assms(1) by (simp add: disk_io_direct_oneblock_def req_def dev_ok_def)
  then show ?thesis using s'(2) unfolding s'(3) by metis
qed

lemma oneblock_write:
  assumes "dev_ok s dev" "x < MAX_DISK_NSECS" "ideno s dev = i"
  shows "\<exists>ch. disk_io_direct_oneblock dev buf x IO_WRITE s = Ret (0, s\<lparr>drives := (drives s)(i := (drives s i)\<lparr>d_sectors :=
    (d_sectors (drives s i))(x := rdbytes (mem s) buf 512)\<rparr>), channels := ch\<rparr>)"
proof -
  define req where "req = \<lparr>req_type = IO_WRITE, req_secno = x, req_nsecs = 1, req_buffer = buf, req_bsize = SECTSIZE\<rparr>"
  note r = dev_ok_request [OF assms(1,2), of req]
  obtain s' where s': "ide_request_lock (ideno s dev) req s = Ret (0, s')" "s' = s\<lparr>drives := drives s', channels := channels s'\<rparr>"
    "drives s' = (drives s)(i := (drives s i)\<lparr>d_sectors := (d_sectors (drives s i))(x := rdbytes (mem s) buf 512)\<rparr>)"
    using request_write [OF r(2)] r(3) by (auto simp: req_def assms(3))
  have "disk_io_direct_oneblock dev buf x IO_WRITE s = Ret (0, s')"
    using s'(1) r(1) assms(1) by (simp add: disk_io_direct_oneblock_def req_def dev_ok_def)
  then show ?thesis using s'(2) unfolding s'(3) by metis
qed

section \<open>Parts of the state the cache does not depend on\<close>

lemma channels_irrelevant [simp]:
  "bc_hit (s\<lparr>channels := c\<rparr>) = bc_hit s" "bc_bytes (s\<lparr>channels := c\<rparr>) = bc_bytes s" "disk (s\<lparr>channels := c\<rparr>) = disk s"
  "cache_inv (s\<lparr>channels := c\<rparr>) D = cache_inv s D" "buffer_ok (s\<lparr>channels := c\<rparr>) = buffer_ok s"
  "cache_free (s\<lparr>channels := c\<rparr>) D = cache_free s D"
  by (simp_all add: fun_eq_iff bc_hit_def bc_bytes_def disk_def ideno_def cache_inv_def dev_ok_def ide_ready_def sem_free_def
      ide_sem_def waitlistIsEmpty_def inj_on_def buffer_ok_def cache_free_def)

lemma bview_channels [simp]: "bview (s\<lparr>channels := c\<rparr>) = bview s"
  by (simp add: fun_eq_iff bview_def cong: option.case_cong)

lemma time_irrelevant [simp]:
  "bc_hit (upd_bc i (bc_time_update f) s) = bc_hit s" "bc_bytes (upd_bc i (bc_time_update f) s) = bc_bytes s"
  "disk (upd_bc i (bc_time_update f) s) = disk s" "bc_modified (BlockCache (upd_bc i (bc_time_update f) s) j) = bc_modified (BlockCache s j)"
  "bc_data (BlockCache (upd_bc i (bc_time_update f) s) j) = bc_data (BlockCache s j)"
  "dev_ok (upd_bc i (bc_time_update f) s) = dev_ok s" "ideno (upd_bc i (bc_time_update f) s) = ideno s"
  by (auto simp: fun_eq_iff bc_hit_def bc_bytes_def disk_def ideno_def dev_ok_def ide_ready_def sem_free_def
      ide_sem_def waitlistIsEmpty_def upd_bc_def)

lemma tick_irrelevant [simp]:
  "bc_hit (bc_tick s) = bc_hit s" "bc_bytes (bc_tick s) = bc_bytes s"
  "disk (bc_tick s) = disk s" "bc_modified (BlockCache (bc_tick s) j) = bc_modified (BlockCache s j)"
  "bc_data (BlockCache (bc_tick s) j) = bc_data (BlockCache s j)"
  "dev_ok (bc_tick s) = dev_ok s" "ideno (bc_tick s) = ideno s"
  by (auto simp: fun_eq_iff bc_hit_def bc_bytes_def disk_def ideno_def dev_ok_def ide_ready_def sem_free_def
      ide_sem_def waitlistIsEmpty_def bc_tick_def)

lemma cache_cong:
  assumes "bc_hit s' = bc_hit s" "bc_bytes s' = bc_bytes s" "disk s' = disk s" "ideno s' = ideno s"
    "\<And>j. bc_modified (BlockCache s' j) = bc_modified (BlockCache s j)" "\<And>j. bc_data (BlockCache s' j) = bc_data (BlockCache s j)"
    and "\<And>d. d \<in> D \<Longrightarrow> dev_ok s d \<Longrightarrow> dev_ok s' d" and "cache_inv s D"
  shows "cache_inv s' D" "bview s' = bview s" "buffer_ok s' = buffer_ok s"
proof -
  note inv = cache_invD [OF assms(8)]
  show "cache_inv s' D"
    by (rule cache_invI) (use inv assms in \<open>auto simp: inj_on_def simp del: not_less\<close>)
  show "bview s' = bview s" by (simp add: fun_eq_iff bview_def assms cong: option.case_cong)
  show "buffer_ok s' = buffer_ok s" by (simp add: fun_eq_iff buffer_ok_def assms)
qed

section \<open>The steps of \<^verbatim>\<open>bcache_rw\<close>\<close>

lemma bc_copy_basic [simp]:
  "bc_hit (bc_copy f i b w s) = bc_hit s" "bc_data (BlockCache (bc_copy f i b w s) j) = bc_data (BlockCache s j)"
  "disk (bc_copy f i b w s) = disk s" "ideno (bc_copy f i b w s) = ideno s" "dev_ok (bc_copy f i b w s) = dev_ok s"
  "drives (bc_copy f i b w s) = drives s" "sems (bc_copy f i b w s) = sems s" "WaitLinks (bc_copy f i b w s) = WaitLinks s"
  "BlockCacheSem (bc_copy f i b w s) = BlockCacheSem s" "IDE_Sem (bc_copy f i b w s) = IDE_Sem s"
  by (cases w; auto simp: fun_eq_iff bc_copy_def bc_hit_def disk_def ideno_def dev_ok_def ide_ready_def sem_free_def
      ide_sem_def waitlistIsEmpty_def upd_bc_def)+

text \<open>Two states with the same devices, entries and buffers.\<close>

lemma cache_inv_step:
  assumes "cache_inv s D" and "bc_hit s' = bc_hit s" "\<And>j. bc_data (BlockCache s' j) = bc_data (BlockCache s j)"
    "ideno s' = ideno s" "\<And>d. d \<in> D \<Longrightarrow> dev_ok s d \<Longrightarrow> dev_ok s' d"
    and "\<And>j d x. j < N_BCACHE \<Longrightarrow> bc_hit s d x j \<Longrightarrow> \<not> bc_modified (BlockCache s' j) \<Longrightarrow> bc_bytes s' j = disk s' d x"
  shows "cache_inv s' D"
  by (rule cache_invI)
    (use cache_invD [OF assms(1)] assms(2-6) in \<open>auto simp: inj_on_def simp del: not_less\<close>)

lemma bc_copy_read:
  assumes "cache_inv s D" "i < N_BCACHE" "bc_hit s dev x i" "buffer_ok s buf" "fresh \<longrightarrow> bc_bytes s i = disk s dev x"
    and "s' = bc_copy fresh i buf IO_READ s"
  shows "cache_inv s' D" "bview s' = bview s" "rdbytes (mem s') buf 512 = bview s dev x"
    "a \<notin> span buf 512 \<Longrightarrow> mem s' a = mem s a"
proof -
  have disj: "span (bc_data (BlockCache s j)) 512 \<inter> span buf 512 = {}" if "j < N_BCACHE" for j
    using assms(4) that by (simp add: buffer_ok_def)
  have m: "mem s' = snd (memcpy buf (bc_data (BlockCache s i)) SECTSIZE (mem s))"
    by (simp add: assms(6) bc_copy_def upd_bc_def)
  have d: "span buf 512 \<inter> span (bc_data (BlockCache s j)) 512 = {}" if "j < N_BCACHE" for j using disj [OF that] by blast
  have b: "bc_bytes s' j = bc_bytes s j" if "j < N_BCACHE" for j
    using memcpy_sector(3) [OF d [OF assms(2)] d [OF that]] by (simp add: bc_bytes_def assms(6) m [unfolded assms(6)])
  have md: "bc_modified (BlockCache s' j) = (if fresh \<and> j = i then False else bc_modified (BlockCache s j))" for j
    by (simp add: assms(6) bc_copy_def upd_bc_def)
  have clean: "bc_bytes s' j = disk s' e y" if "j < N_BCACHE" "bc_hit s e y j" "\<not> bc_modified (BlockCache s' j)" for j e y
  proof (cases "fresh \<and> j = i")
    case True
    then have "dev = e" "x = y" using assms(3) that(2) by (auto simp: bc_hit_def)
    then show ?thesis using True assms(5) b [OF assms(2)] by (simp add: assms(6))
  next
    case False
    then show ?thesis using cache_invD(4) [OF assms(1) that(1,2)] that(3) b [OF that(1)] md [of j] by (auto simp: assms(6))
  qed
  show "cache_inv s' D"
    by (rule cache_inv_step [OF assms(1)]) (simp_all add: clean, simp_all add: assms(6))
  show "bview s' = bview s"
  proof (intro ext)
    fix e y
    show "bview s' e y = bview s e y"
    proof (rule bviewI)
      show "bc_bytes s' j = bview s e y" if "j < N_BCACHE" "bc_hit s' e y j" for j
        using that bview_hit [OF assms(1)] b by (simp add: assms(6))
      show "disk s' e y = bview s e y" if "\<And>i. i < N_BCACHE \<Longrightarrow> \<not> bc_hit s' e y i"
        using that bview_miss [of s e y] by (simp add: assms(6))
    qed
  qed
  show "rdbytes (mem s') buf 512 = bview s dev x"
    using memcpy_sector(1) [OF d [OF assms(2)], of "mem s"] bview_hit [OF assms(1-3)] by (simp add: m bc_bytes_def)
  show "a \<notin> span buf 512 \<Longrightarrow> mem s' a = mem s a"
    using memcpy_sector(2) [OF d [OF assms(2)]] by (simp add: m)
qed

lemma bc_copy_write:
  assumes "cache_inv s D" "i < N_BCACHE" "bc_hit s dev x i" "buffer_ok s buf"
    and "s' = bc_copy fresh i buf IO_WRITE s"
  shows "cache_inv s' D" "bview s' = (bview s)(dev := (bview s dev)(x := rdbytes (mem s) buf 512))"
    "a \<notin> span (bc_data (BlockCache s i)) 512 \<Longrightarrow> mem s' a = mem s a"
proof -
  have disj: "span (bc_data (BlockCache s j)) 512 \<inter> span buf 512 = {}" if "j < N_BCACHE" for j
    using assms(4) that by (simp add: buffer_ok_def)
  have m: "mem s' = snd (memcpy (bc_data (BlockCache s i)) buf SECTSIZE (mem s))"
    by (simp add: assms(5) bc_copy_def upd_bc_def)
  have b: "bc_bytes s' j = (if j = i then rdbytes (mem s) buf 512 else bc_bytes s j)" if "j < N_BCACHE" for j
    using memcpy_sector(1) [OF disj [OF assms(2)], of "mem s"] cache_invD(6) [OF assms(1,2) that]
      memcpy_sector(3) [OF disj [OF assms(2)], of "bc_data (BlockCache s j)"]
    by (simp add: bc_bytes_def assms(5) m [unfolded assms(5)])
  have md: "bc_modified (BlockCache s' j) = (if j = i then True else bc_modified (BlockCache s j))" for j
    by (simp add: assms(5) bc_copy_def upd_bc_def)
  have clean: "bc_bytes s' j = disk s' e y" if "j < N_BCACHE" "bc_hit s e y j" "\<not> bc_modified (BlockCache s' j)" for j e y
    using cache_invD(4) [OF assms(1) that(1,2)] that(3) b [OF that(1)] md [of j] by (auto simp: assms(5) split: if_splits)
  show "cache_inv s' D"
    by (rule cache_inv_step [OF assms(1)]) (simp_all add: clean, simp_all add: assms(5))
  show "bview s' = (bview s)(dev := (bview s dev)(x := rdbytes (mem s) buf 512))"
  proof (intro ext)
    fix e y
    show "bview s' e y = ((bview s)(dev := (bview s dev)(x := rdbytes (mem s) buf 512))) e y"
    proof (rule bviewI)
      show "bc_bytes s' j = ((bview s)(dev := (bview s dev)(x := rdbytes (mem s) buf 512))) e y"
        if j: "j < N_BCACHE" "bc_hit s' e y j" for j
      proof -
        have h: "bc_hit s e y j" using j(2) by (simp add: assms(5))
        have "(dev = e \<and> x = y) = (j = i)"
          using cache_invD(5) [OF assms(1) assms(2) j(1) assms(3)] h assms(3) by (auto simp: bc_hit_def)
        then show ?thesis using b [OF j(1)] bview_hit [OF assms(1) j(1) h] by auto
      qed
      show "disk s' e y = ((bview s)(dev := (bview s dev)(x := rdbytes (mem s) buf 512))) e y"
        if "\<And>i. i < N_BCACHE \<Longrightarrow> \<not> bc_hit s' e y i"
        using that [OF assms(2)] that bview_miss [of s e y] assms(3) by (auto simp: assms(5))
    qed
  qed
  show "a \<notin> span (bc_data (BlockCache s i)) 512 \<Longrightarrow> mem s' a = mem s a"
    using memcpy_sector(2) [OF disj [OF assms(2)]] by (simp add: m)
qed

lemma writeback_step:
  assumes "cache_inv s D" "m < N_BCACHE" "bc_hit s dev x m" "ideno s dev = n"
    and "s' = s\<lparr>drives := (drives s)(n := (drives s n)\<lparr>d_sectors := (d_sectors (drives s n))(x := bc_bytes s m)\<rparr>), channels := ch\<rparr>"
  shows "cache_inv s' D" "\<And>d. d \<in> D \<Longrightarrow> bview s' d = bview s d"
    "\<And>d y. d \<in> D \<Longrightarrow> disk s' d y = (if d = dev \<and> y = x then bc_bytes s m else disk s d y)"
proof -
  have dev: "dev \<in> D" using cache_invD(3) [OF assms(1-3)] by simp
  have same: "bc_hit s' = bc_hit s" "bc_bytes s' = bc_bytes s" "BlockCache s' = BlockCache s" "ideno s' = ideno s" "buffer_ok s' = buffer_ok s"
    by (simp_all add: assms(5) fun_eq_iff bc_hit_def bc_bytes_def ideno_def buffer_ok_def)
  show dk: "disk s' d y = (if d = dev \<and> y = x then bc_bytes s m else disk s d y)" if "d \<in> D" for d y
  proof (cases "d = dev")
    case True
    then show ?thesis using assms(4) by (simp add: disk_def same) (simp add: assms(5))
  next
    case False
    then have "ideno s d \<noteq> n" using cache_invD(2) [OF assms(1) that dev] assms(4) by auto
    then show ?thesis using False by (simp add: disk_def same) (simp add: assms(5))
  qed
  have ok: "dev_ok s' d" if "dev_ok s d" for d
  proof -
    have k: "d_present (drives s' k) = d_present (drives s k)" "d_busy (drives s' k) = d_busy (drives s k)"
      "d_bad (drives s' k) = d_bad (drives s k)"
      "d_sectors (drives s' k) y = (if k = n \<and> y = x then bc_bytes s m else d_sectors (drives s k) y)" for k y
      by (simp_all add: assms(5))
    have "IDE_Devices s' = IDE_Devices s" "sem_free s' (ide_sem (ideno s d) s') = sem_free s (ide_sem (ideno s d) s)"
      "blockdevs s' = blockdevs s"
      by (simp_all add: assms(5) sem_free_def ide_sem_def waitlistIsEmpty_def)
    then show ?thesis using that by (simp add: dev_ok_def ide_ready_def same k bc_bytes_def)
  qed
  have clean: "bc_bytes s' j = disk s' e y" if j: "j < N_BCACHE" "bc_hit s e y j" "\<not> bc_modified (BlockCache s' j)" for j e y
  proof -
    have "e \<in> D" using cache_invD(3) [OF assms(1) j(1,2)] by simp
    moreover have "j = m" if "e = dev" "y = x" using cache_invD(5) [OF assms(1) j(1) assms(2) j(2)] assms(3) that by simp
    ultimately show ?thesis using dk cache_invD(4) [OF assms(1) j(1,2)] j(3) by (auto simp: same)
  qed
  show "cache_inv s' D"
    by (rule cache_inv_step [OF assms(1)]) (simp_all add: same(1,3,4) ok clean)
  show "bview s' d = bview s d" if "d \<in> D" for d
  proof (rule ext, rule bviewI)
    show "bc_bytes s' j = bview s d y" if "j < N_BCACHE" "bc_hit s' d y j" for y j
      using bview_hit [OF assms(1) that(1)] that(2) by (simp add: same)
    show "disk s' d y = bview s d y" if n: "\<And>i. i < N_BCACHE \<Longrightarrow> \<not> bc_hit s' d y i" for y
    proof -
      have "\<not> (d = dev \<and> y = x)" using n [OF assms(2)] assms(3) by (auto simp: same)
      then show ?thesis using dk [OF \<open>d \<in> D\<close>] bview_miss [of s d y] n by (auto simp: same)
    qed
  qed
qed

lemma load_step:
  assumes "cache_inv s D" "dev \<in> D" "x < MAX_DISK_NSECS" "i < N_BCACHE" and miss: "\<And>j. j < N_BCACHE \<Longrightarrow> \<not> bc_hit s dev x j"
    and out: "\<And>e y. bc_hit s e y i \<Longrightarrow> bc_bytes s i = disk s e y"
    and "s' = (bc_claim i dev x s)\<lparr>mem := wrbytes (bc_data (BlockCache s i)) (disk s dev x) (mem s), channels := ch\<rparr>"
  shows "cache_inv s' D" "bview s' = bview s" "bc_hit s' dev x i" "bc_bytes s' i = disk s' dev x"
    "a \<notin> span (bc_data (BlockCache s i)) 512 \<Longrightarrow> mem s' a = mem s a"
proof -
  have len: "length (disk s dev x) = 512"
    using cache_invD(1) [OF assms(1,2)] by (simp add: dev_ok_def ide_ready_def disk_def)
  have same: "disk s' = disk s" "ideno s' = ideno s" "dev_ok s' = dev_ok s"
    by (simp_all add: assms(7) bc_claim_def upd_bc_def fun_eq_iff disk_def ideno_def dev_ok_def ide_ready_def sem_free_def
        ide_sem_def waitlistIsEmpty_def)
  have data: "bc_data (BlockCache s' j) = bc_data (BlockCache s j)" "bc_modified (BlockCache s' j) = bc_modified (BlockCache s j)" for j
    by (simp_all add: assms(7) bc_claim_def upd_bc_def)
  have hit: "bc_hit s' e y j = (if j = i then e = dev \<and> y = x else bc_hit s e y j)" for e y j
    by (auto simp: assms(7) bc_claim_def upd_bc_def bc_hit_def)
  have m: "mem s' = wrbytes (bc_data (BlockCache s i)) (disk s dev x) (mem s)" by (simp add: assms(7))
  have b: "bc_bytes s' j = (if j = i then disk s dev x else bc_bytes s j)" if "j < N_BCACHE" for j
    using rdbytes_wrbytes [OF len [symmetric], of "bc_data (BlockCache s i)" "mem s"] cache_invD(6) [OF assms(1,4) that]
      rdbytes_wrbytes_other [OF len, of "bc_data (BlockCache s i)" "bc_data (BlockCache s j)" 512 "mem s"]
    by (simp add: bc_bytes_def data m)
  show "cache_inv s' D"
  proof (rule cache_invI)
    show "dev_ok s' d" if "d \<in> D" for d using cache_invD(1) [OF assms(1) that] by (simp add: same)
    show "inj_on (ideno s') D" using assms(1) by (simp add: same cache_inv_def)
    show "d \<in> D \<and> y < MAX_DISK_NSECS" if "j < N_BCACHE" "bc_hit s' d y j" for j d y
      using that cache_invD(3) [OF assms(1) that(1), of d y] assms(2,3) by (auto simp: hit split: if_splits)
    show "bc_bytes s' j = disk s' d y" if "j < N_BCACHE" "bc_hit s' d y j" "\<not> bc_modified (BlockCache s' j)" for j d y
      using that cache_invD(4) [OF assms(1) that(1), of d y] b by (auto simp: hit same data split: if_splits)
    show "j = k" if "j < N_BCACHE" "k < N_BCACHE" "bc_hit s' d y j" "bc_hit s' d y k" for j k d y
      using that cache_invD(5) [OF assms(1) that(1,2), of d y] miss by (auto simp: hit split: if_splits)
    show "span (bc_data (BlockCache s' j)) 512 \<inter> span (bc_data (BlockCache s' k)) 512 = {}"
      if "j < N_BCACHE" "k < N_BCACHE" "j \<noteq> k" for j k using cache_invD(6) [OF assms(1) that] by (simp add: data)
  qed
  show "bview s' = bview s"
  proof (intro ext)
    fix e y
    show "bview s' e y = bview s e y"
    proof (rule bviewI)
      show "bc_bytes s' j = bview s e y" if j: "j < N_BCACHE" "bc_hit s' e y j" for j
        using bview_hit [OF assms(1) j(1), of e y] bview_miss [OF miss] j b [OF j(1)] by (auto simp: hit split: if_splits)
      show "disk s' e y = bview s e y" if n: "\<And>i. i < N_BCACHE \<Longrightarrow> \<not> bc_hit s' e y i"
      proof (cases "bc_hit s e y i")
        case True
        then show ?thesis using bview_hit [OF assms(1,4) True] out [OF True] by (simp add: same)
      next
        case False
        then show ?thesis using bview_miss [of s e y] n by (metis hit same(1))
      qed
    qed
  qed
  show "bc_hit s' dev x i" by (simp add: hit)
  show "bc_bytes s' i = disk s' dev x" using b [OF assms(4)] by (simp add: same)
  show "a \<notin> span (bc_data (BlockCache s i)) 512 \<Longrightarrow> mem s' a = mem s a"
    unfolding m using len by (intro wrbytes_outside) (auto simp: span_def)
qed

section \<open>Reads and writes through the cache\<close>

definition cache_mem :: "'a kbc_scheme \<Rightarrow> ptr set" where
  "cache_mem s = (\<Union>i \<in> {..<N_BCACHE}. span (bc_data (BlockCache s i)) 512)"

text \<open>What a transfer between a buffer and a sector does to the view and to memory.\<close>

definition rw_effect :: "io_type \<Rightarrow> ptr \<Rightarrow> ptr \<Rightarrow> u32 \<Rightarrow> ptr set \<Rightarrow> 'a kbc_scheme \<Rightarrow> 'a kbc_scheme \<Rightarrow> bool" where
  "rw_effect w buf dev x D s t = (case w of
     IO_READ \<Rightarrow> (\<forall>d \<in> D. bview t d = bview s d) \<and> rdbytes (mem t) buf 512 = bview s dev x \<and>
       (\<forall>a. a \<notin> span buf 512 \<union> cache_mem s \<longrightarrow> mem t a = mem s a)
   | IO_WRITE \<Rightarrow> (\<forall>d \<in> D. bview t d = (if d = dev then (bview s dev)(x := rdbytes (mem s) buf 512) else bview s d)) \<and>
       (\<forall>a. a \<notin> cache_mem s \<longrightarrow> mem t a = mem s a))"

text \<open>What transfers never touch: the state without memory, semaphores, drives, controllers and cache entries.\<close>

definition io_rest :: "'a kbc_scheme \<Rightarrow> 'a kbc_scheme" where
  "io_rest s = s\<lparr>mem := undefined, sems := undefined, drives := undefined, channels := undefined, BlockCache := undefined\<rparr>"

lemma io_rest_upd [simp]:
  "io_rest (s\<lparr>mem := m\<rparr>) = io_rest s" "io_rest (s\<lparr>sems := e\<rparr>) = io_rest s" "io_rest (s\<lparr>drives := d\<rparr>) = io_rest s"
  "io_rest (s\<lparr>channels := c\<rparr>) = io_rest s" "io_rest (s\<lparr>BlockCache := b\<rparr>) = io_rest s"
  "io_rest (s\<lparr>drives := d, channels := c\<rparr>) = io_rest s" "io_rest (s\<lparr>mem := m, channels := c\<rparr>) = io_rest s"
  by (simp_all add: io_rest_def)

lemma io_rest_upd_fun [simp]: "io_rest (upd_bc i f s) = io_rest s" "io_rest (upd_sem k g s) = io_rest s"
  by (simp_all add: upd_bc_def upd_sem_def)

definition cframe :: "'a kbc_scheme \<Rightarrow> 'a kbc_scheme \<Rightarrow> bool" where
  "cframe s t \<longleftrightarrow> io_rest t = io_rest s \<and> sems t = sems s \<and> WaitLinks t = WaitLinks s \<and> BlockCacheSem t = BlockCacheSem s \<and> IDE_Sem t = IDE_Sem s \<and>
     blockdevs t = blockdevs s \<and> (\<forall>j. bc_data (BlockCache t j) = bc_data (BlockCache s j))"

lemma cframe_refl [simp]: "cframe s s"
  by (simp add: cframe_def)

lemma cframe_trans: "cframe s t \<Longrightarrow> cframe t u \<Longrightarrow> cframe s u"
  by (simp add: cframe_def)

lemma cframe_same:
  assumes "cframe s t"
  shows "cache_mem t = cache_mem s" "buffer_ok t = buffer_ok s" "ideno t = ideno s" "cache_free t = cache_free s"
  using assms by (simp_all add: cframe_def cache_mem_def buffer_ok_def ideno_def cache_free_def sem_free_def ide_sem_def
      waitlistIsEmpty_def fun_eq_iff)

lemma buffer_cache_mem: "buffer_ok s buf \<longleftrightarrow> span buf 512 \<inter> cache_mem s = {}"
  by (auto simp: buffer_ok_def cache_mem_def)

lemma copy_ok:
  assumes "cache_inv s D" "i < N_BCACHE" "bc_hit s dev x i" "buffer_ok s buf" "fresh \<longrightarrow> bc_bytes s i = disk s dev x"
    and "t = upd_bc i (bc_time_update f) (bc_copy fresh i buf w s)"
  shows "cache_inv t D" "cframe s t" "rw_effect w buf dev x D s t"
proof -
  define u where "u = bc_copy fresh i buf w s"
  have t: "t = upd_bc i (bc_time_update f) u" by (simp add: assms(6) u_def)
  have um: "mem t = mem u" by (simp add: t upd_bc_def)
  have in_mem: "span (bc_data (BlockCache s i)) 512 \<subseteq> cache_mem s" using assms(2) by (auto simp: cache_mem_def)
  have inv: "cache_inv u D"
    using bc_copy_read(1) [OF assms(1-5)] bc_copy_write(1) [OF assms(1-4)] by (cases w) (simp_all add: u_def)
  note cc = cache_cong [of t u D]
  show "cache_inv t D" by (rule cc) (simp_all add: t inv)
  have v: "bview t = bview u" by (rule cc) (simp_all add: t inv)
  show "cframe s t" by (cases w) (simp_all add: t u_def cframe_def upd_bc_def bc_copy_def)
  show "rw_effect w buf dev x D s t"
  proof (cases w)
    case IO_READ
    then show ?thesis using bc_copy_read(2,3,4) [OF assms(1-5), of u] v um by (simp add: rw_effect_def u_def)
  next
    case IO_WRITE
    then show ?thesis using bc_copy_write(2,3) [OF assms(1-4), of u] v um in_mem by (auto simp: rw_effect_def u_def)
  qed
qed

lemma rw_effect_before:
  assumes "\<And>d. d \<in> D \<Longrightarrow> bview s1 d = bview s d" "\<And>a. a \<notin> cache_mem s \<Longrightarrow> mem s1 a = mem s a" "cframe s s1"
    and "rw_effect w buf dev x D s1 t" "dev \<in> D" "buffer_ok s buf"
  shows "rw_effect w buf dev x D s t"
proof -
  have "rdbytes (mem s1) buf 512 = rdbytes (mem s) buf 512"
    by (rule rdbytes_cong, rule assms(2)) (use assms(6) in \<open>auto simp: buffer_cache_mem\<close>)
  then show ?thesis
    using assms(1,2,4,5) cframe_same(1) [OF assms(3)] by (auto simp: rw_effect_def split: io_type.splits)
qed

lemma load_ok:
  assumes "cache_inv s D" "dev \<in> D" "x < MAX_DISK_NSECS" "i < N_BCACHE" and miss: "\<And>j. j < N_BCACHE \<Longrightarrow> \<not> bc_hit s dev x j"
    and out: "\<And>e y. bc_hit s e y i \<Longrightarrow> bc_bytes s i = disk s e y" and "buffer_ok s buf"
  shows "\<exists>t. bc_load i dev buf x w (bc_claim i dev x s) = bc_finish t \<and> cache_inv t D \<and> cframe s t \<and> rw_effect w buf dev x D s t"
proof -
  define c where "c = bc_claim i dev x s"
  have sel: "bc_data (BlockCache c i) = bc_data (BlockCache s i)" "disk c = disk s" "mem c = mem s"
    by (simp_all add: c_def bc_claim_def upd_bc_def disk_def ideno_def fun_eq_iff)
  have "dev_ok c dev" using cache_invD(1) [OF assms(1,2)]
    by (simp add: c_def bc_claim_def upd_bc_def dev_ok_def ide_ready_def ideno_def sem_free_def ide_sem_def waitlistIsEmpty_def)
  then obtain ch where rd: "disk_io_direct_oneblock dev (bc_data (BlockCache c i)) x IO_READ c =
      Ret (0, c\<lparr>mem := wrbytes (bc_data (BlockCache s i)) (disk s dev x) (mem s), channels := ch\<rparr>)"
    using oneblock_read [of c dev x "bc_data (BlockCache s i)"] assms(3) by (auto simp: sel)
  define l where "l = c\<lparr>mem := wrbytes (bc_data (BlockCache s i)) (disk s dev x) (mem s), channels := ch\<rparr>"
  note ld = load_step [OF assms(1-4) miss out l_def [unfolded c_def]]
  have fr: "cframe s l" by (simp add: cframe_def l_def c_def bc_claim_def upd_bc_def)
  define t where "t = upd_bc i (\<lambda>e. e\<lparr>bc_time := 0\<rparr>) (bc_copy True i buf w l)"
  have cp: "cache_inv t D" "cframe l t" "rw_effect w buf dev x D l t"
    using copy_ok [OF ld(1) assms(4) ld(3) _ _ t_def] assms(7) ld(4) cframe_same(2) [OF fr] by simp_all
  have "rw_effect w buf dev x D s t"
    by (rule rw_effect_before [OF _ _ fr cp(3) assms(2,7)]) (use ld(2,5) assms(4) in \<open>auto simp: cache_mem_def\<close>)
  moreover have "bc_load i dev buf x w c = bc_finish t"
    using rd by (simp add: bc_load_def t_def l_def)
  ultimately show ?thesis using cp(1) cframe_trans [OF fr cp(2)] by (intro exI [of _ t]) (simp add: c_def)
qed

lemma bc_scan_free: "bc_scan B is m = Inl i \<Longrightarrow> i \<in> set is \<and> \<not> bc_occupied (B i)"
  by (induction B "is" m rule: bc_scan.induct) (auto split: if_splits)

lemma bc_scan_oldest:
  "bc_scan B is m = Inr j \<Longrightarrow>
     j \<in> insert m (set is) \<and> (\<forall>k \<in> set is. bc_occupied (B k)) \<and> (\<forall>k \<in> insert m (set is). bc_time (B k) \<le> bc_time (B j))"
proof (induction B "is" m rule: bc_scan.induct)
  case (2 B i "is" m)
  then have "bc_occupied (B i)" "bc_scan B is (if bc_time (B m) < bc_time (B i) then i else m) = Inr j" by (auto split: if_splits)
  with "2.IH" show ?case by (auto split: if_splits)
qed simp

definition bc_locked :: "'a kbc_scheme \<Rightarrow> 'a kbc_scheme" where
  "bc_locked s = upd_sem (BlockCacheSem s) (\<lambda>x. x\<lparr>sem_value := sem_value x - 1\<rparr>) s"

lemma lock_ok:
  assumes "cache_inv s D" "cache_free s D"
  shows "lockBlockCache s = Ret (bc_locked s)" "cache_inv (bc_locked s) D" "bview (bc_locked s) = bview s"
    "buffer_ok (bc_locked s) = buffer_ok s" "mem (bc_locked s) = mem s" "cache_mem (bc_locked s) = cache_mem s"
    "BlockCache (bc_locked s) = BlockCache s" "bc_hit (bc_locked s) = bc_hit s" "disk (bc_locked s) = disk s"
    "bc_bytes (bc_locked s) = bc_bytes s" "ideno (bc_locked s) = ideno s"
proof -
  show "lockBlockCache s = Ret (bc_locked s)"
    using assms(2) by (simp add: lockBlockCache_def bc_locked_def acquire_free cache_free_def)
  have sel: "bc_hit (bc_locked s) = bc_hit s" "bc_bytes (bc_locked s) = bc_bytes s" "disk (bc_locked s) = disk s"
    "ideno (bc_locked s) = ideno s" "BlockCache (bc_locked s) = BlockCache s"
    by (simp_all add: bc_locked_def upd_sem_def fun_eq_iff bc_hit_def bc_bytes_def disk_def ideno_def)
  have "dev_ok (bc_locked s) d" if "d \<in> D" "dev_ok s d" for d
    using that assms(2) by (auto simp: dev_ok_def ide_ready_def sel cache_free_def)
      (simp_all add: bc_locked_def upd_sem_def sem_free_def ide_sem_def waitlistIsEmpty_def)
  note cc = cache_cong [OF sel(1-4) _ _ this assms(1), simplified sel, OF refl refl]
  show "cache_inv (bc_locked s) D" "bview (bc_locked s) = bview s" "buffer_ok (bc_locked s) = buffer_ok s" by (rule cc; simp)+
  show "mem (bc_locked s) = mem s" "cache_mem (bc_locked s) = cache_mem s"
    by (simp_all add: bc_locked_def upd_sem_def cache_mem_def)
  show "BlockCache (bc_locked s) = BlockCache s" "bc_hit (bc_locked s) = bc_hit s" "disk (bc_locked s) = disk s"
    "bc_bytes (bc_locked s) = bc_bytes s" "ideno (bc_locked s) = ideno s" by (simp_all add: sel)
qed

lemma unlock_ok:
  assumes "cache_free s D" "cframe (bc_locked s) t" "cache_inv t D"
  shows "\<exists>t'. unlockBlockCache t = Ret t' \<and> cache_inv t' D \<and> cframe s t' \<and> bview t' = bview t \<and> mem t' = mem t \<and>
    disk t' = disk t \<and> BlockCache t' = BlockCache t"
proof -
  have f: "sems t = sems (bc_locked s)" "WaitLinks t = WaitLinks s" "BlockCacheSem t = BlockCacheSem s" "IDE_Sem t = IDE_Sem s"
    "blockdevs t = blockdevs s" "\<And>j. bc_data (BlockCache t j) = bc_data (BlockCache s j)"
    using assms(2) by (simp_all add: cframe_def bc_locked_def upd_sem_def)
  have run: "unlockBlockCache t = Ret (t\<lparr>sems := sems s\<rparr>)"
    using assms(1) f release_free [of s "BlockCacheSem s" t]
    by (simp add: unlockBlockCache_def cache_free_def bc_locked_def upd_sem_def)
  have sel: "bc_hit (t\<lparr>sems := sems s\<rparr>) = bc_hit t" "bc_bytes (t\<lparr>sems := sems s\<rparr>) = bc_bytes t" "disk (t\<lparr>sems := sems s\<rparr>) = disk t"
    "ideno (t\<lparr>sems := sems s\<rparr>) = ideno t"
    by (simp_all add: fun_eq_iff bc_hit_def bc_bytes_def disk_def ideno_def)
  have idt: "ideno t d = ideno s d" for d by (simp add: ideno_def f(5))
  have "dev_ok (t\<lparr>sems := sems s\<rparr>) d" if "d \<in> D" "dev_ok t d" for d
  proof -
    have "ide_sem (ideno s d) s \<noteq> BlockCacheSem s" using assms(1) that(1) by (simp add: cache_free_def)
    then have "sems t (ide_sem (ideno s d) s) = sems s (ide_sem (ideno s d) s)" by (simp add: f(1) bc_locked_def upd_sem_def)
    then show ?thesis using that(2)
      by (simp add: dev_ok_def ide_ready_def sem_free_def ide_sem_def waitlistIsEmpty_def sel idt f(4))
  qed
  note cc = cache_cong [OF sel _ _ this assms(3)]
  have "io_rest t = io_rest s" using assms(2) by (simp add: cframe_def bc_locked_def)
  then have "cframe s (t\<lparr>sems := sems s\<rparr>)" using f by (simp add: cframe_def)
  moreover have "cache_inv (t\<lparr>sems := sems s\<rparr>) D" "bview (t\<lparr>sems := sems s\<rparr>) = bview t" by (rule cc; simp)+
  ultimately show ?thesis using run by (simp add: sel)
qed

lemma finish_ok:
  assumes "cache_free s D" "cframe (bc_locked s) t" "cache_inv t D"
  shows "\<exists>t'. bc_finish t = Ret (0, t') \<and> cache_inv t' D \<and> cframe s t' \<and> bview t' = bview t \<and> mem t' = mem t"
proof -
  note cc = cache_cong [of "bc_tick t" t D]
  have inv: "cache_inv (bc_tick t) D" and v: "bview (bc_tick t) = bview t" by (rule cc; simp add: assms(3))+
  have m: "mem (bc_tick t) = mem t" by (simp add: bc_tick_def)
  have "cframe (bc_locked s) (bc_tick t)" using assms(2) by (simp add: cframe_def bc_tick_def)
  from unlock_ok [OF assms(1) this inv] show ?thesis
    by (auto simp: bc_finish_def v m)
qed

text \<open>Eviction: a modified entry is written back, after which its bytes are on the disk.\<close>

lemma evict_ok:
  assumes "cache_inv s D" "m < N_BCACHE" "e = BlockCache s m" "bc_occupied e"
  shows "\<exists>s2. (if bc_modified e then disk_io_direct_oneblock (bc_dev e) (bc_data e) (bc_secno e) IO_WRITE s else Ret (0, s)) = Ret (0, s2) \<and>
    cache_inv s2 D \<and> (\<forall>d \<in> D. bview s2 d = bview s d) \<and> bc_bytes s2 m = disk s2 (bc_dev e) (bc_secno e) \<and>
    bc_hit s2 = bc_hit s \<and> cframe s s2 \<and> mem s2 = mem s \<and> BlockCache s2 = BlockCache s \<and>
    (\<forall>d \<in> D. \<forall>y. \<not> bc_hit s d y m \<longrightarrow> disk s2 d y = disk s d y)"
proof -
  have hm: "bc_hit s (bc_dev e) (bc_secno e) m" using assms(3,4) by (simp add: bc_hit_def)
  show ?thesis
  proof (cases "bc_modified e")
    case True
    have dm: "bc_dev e \<in> D" "bc_secno e < MAX_DISK_NSECS" using cache_invD(3) [OF assms(1,2) hm] by simp_all
    obtain ch where wr: "disk_io_direct_oneblock (bc_dev e) (bc_data e) (bc_secno e) IO_WRITE s =
      Ret (0, s\<lparr>drives := (drives s)(ideno s (bc_dev e) := (drives s (ideno s (bc_dev e)))\<lparr>d_sectors :=
        (d_sectors (drives s (ideno s (bc_dev e))))(bc_secno e := bc_bytes s m)\<rparr>), channels := ch\<rparr>)" (is "_ = Ret (0, ?s2)")
      using oneblock_write [OF cache_invD(1) [OF assms(1) dm(1)] dm(2) refl, of "bc_data e"] by (auto simp: bc_bytes_def assms(3))
    define s2 where "s2 = ?s2"
    note wb = writeback_step [OF assms(1,2) hm refl s2_def]
    have "bc_bytes s2 m = bc_bytes s m" "bc_hit s2 = bc_hit s" "mem s2 = mem s" "cframe s s2" "BlockCache s2 = BlockCache s"
      by (simp_all add: s2_def bc_bytes_def bc_hit_def fun_eq_iff cframe_def)
    moreover have "disk s2 d y = disk s d y" if "d \<in> D" "\<not> bc_hit s d y m" for d y
      using wb(3) [OF that(1), of y] that(2) hm by auto
    ultimately show ?thesis using wr [folded s2_def] wb(1,2) wb(3) [OF dm(1), of "bc_secno e"] True by (intro exI [of _ s2]) simp
  next
    case False
    then show ?thesis using assms(1) cache_invD(4) [OF assms(1,2) hm] assms(3) by (intro exI [of _ s]) simp
  qed
qed

lemma evict_load_ok:
  assumes "cache_inv s D" "dev \<in> D" "x < MAX_DISK_NSECS" "m < N_BCACHE" and miss: "\<And>j. j < N_BCACHE \<Longrightarrow> \<not> bc_hit s dev x j"
    and "buffer_ok s buf" "e = BlockCache s m" "bc_occupied e"
  shows "\<exists>s2 t. (if bc_modified e then disk_io_direct_oneblock (bc_dev e) (bc_data e) (bc_secno e) IO_WRITE s else Ret (0, s)) = Ret (0, s2) \<and>
    bc_load m dev buf x w (bc_claim m dev x (upd_bc m (\<lambda>e. e\<lparr>bc_time := 0\<rparr>) s2)) = bc_finish t \<and>
    cache_inv t D \<and> cframe s t \<and> rw_effect w buf dev x D s t"
proof -
  obtain s2 where s2: "(if bc_modified e then disk_io_direct_oneblock (bc_dev e) (bc_data e) (bc_secno e) IO_WRITE s else Ret (0, s)) = Ret (0, s2)"
    "cache_inv s2 D" "\<forall>d \<in> D. bview s2 d = bview s d" "bc_bytes s2 m = disk s2 (bc_dev e) (bc_secno e)" "bc_hit s2 = bc_hit s"
    "cframe s s2" "mem s2 = mem s" using evict_ok [OF assms(1,4,7,8)] by blast
  define s3 where "s3 = upd_bc m (\<lambda>e. e\<lparr>bc_time := 0\<rparr>) s2"
  note cc = cache_cong [of s3 s2 D]
  have s3: "cache_inv s3 D" "bview s3 = bview s2" by (rule cc; simp add: s3_def s2(2))+
  have fr: "cframe s s3" using s2(6) by (auto simp: cframe_def s3_def upd_bc_def)
  have mm: "mem s3 = mem s" using s2(7) by (simp add: s3_def upd_bc_def)
  have out: "bc_bytes s3 m = disk s3 d y" if "bc_hit s3 d y m" for d y
    using that s2(4,5) assms(7) by (auto simp: s3_def bc_hit_def)
  have miss3: "\<not> bc_hit s3 dev x j" if "j < N_BCACHE" for j using miss [OF that] by (simp add: s3_def s2(5))
  have buf3: "buffer_ok s3 buf" using assms(6) cframe_same(2) [OF fr] by simp
  obtain t where t: "bc_load m dev buf x w (bc_claim m dev x s3) = bc_finish t" "cache_inv t D" "cframe s3 t" "rw_effect w buf dev x D s3 t"
    using load_ok [OF s3(1) assms(2-4) miss3 out buf3] by blast
  have "rw_effect w buf dev x D s t"
    by (rule rw_effect_before [OF _ _ fr t(4) assms(2,6)]) (simp_all add: s3(2) s2(3) mm)
  then show ?thesis using s2(1) t(1,2) cframe_trans [OF fr t(3)] unfolding s3_def by blast
qed

lemma bcache_rw_ok:
  assumes "cache_inv s D" "cache_free s D" "dev \<in> D" "x < MAX_DISK_NSECS" "buffer_ok s buf"
  shows "\<exists>s'. bcache_rw dev buf x w s = Ret (0, s') \<and> cache_inv s' D \<and> cframe s s' \<and> rw_effect w buf dev x D s s'"
proof -
  define s1 where "s1 = bc_locked s"
  note lk = lock_ok [OF assms(1,2), folded s1_def]
  have buf: "buffer_ok s1 buf" using assms(5) lk(4) by simp
  have fin: ?thesis if t: "bcache_rw dev buf x w s = bc_finish t" "cache_inv t D" "cframe s1 t" "rw_effect w buf dev x D s1 t" for t
  proof -
    obtain t' where "bc_finish t = Ret (0, t')" "cache_inv t' D" "cframe s t'" "bview t' = bview t" "mem t' = mem t"
      using finish_ok [OF assms(2) t(3) [unfolded s1_def] t(2)] by blast
    then show ?thesis using t(1,4) lk(3,5,6)
      by (intro exI [of _ t']) (auto simp: rw_effect_def split: io_type.splits)
  qed
  show ?thesis
  proof (cases "find (bc_hit s1 dev x) [0..<N_BCACHE]")
    case (Some i)
    then have i: "i < N_BCACHE" "bc_hit s1 dev x i" using find_hit by blast+
    show ?thesis
      by (rule fin [OF _ copy_ok [OF lk(2) i buf, of False, OF _ refl]]) (simp_all add: bcache_rw_def lk(1) Some del: upt_Suc)
  next
    case None
    then have miss: "\<not> bc_hit s1 dev x j" if "j < N_BCACHE" for j using find_miss that by blast
    show ?thesis
    proof (cases "bc_scan (BlockCache s1) [0..<N_BCACHE] 0")
      case (Inl i)
      then have i: "i < N_BCACHE" "\<not> bc_occupied (BlockCache s1 i)" using bc_scan_free by fastforce+
      then have "bc_bytes s1 i = disk s1 e y" if "bc_hit s1 e y i" for e y using that by (simp add: bc_hit_def)
      then obtain t where "bc_load i dev buf x w (bc_claim i dev x s1) = bc_finish t" "cache_inv t D" "cframe s1 t" "rw_effect w buf dev x D s1 t"
        using load_ok [OF lk(2) assms(3,4) i(1) miss _ buf] by blast
      then show ?thesis by (intro fin [of t]) (simp_all add: bcache_rw_def lk(1) None Inl del: upt_Suc)
    next
      case (Inr m)
      have m: "m < N_BCACHE" "bc_occupied (BlockCache s1 m)" using bc_scan_oldest [OF Inr] by auto
      obtain s2 t where e: "(if bc_modified (BlockCache s1 m)
          then disk_io_direct_oneblock (bc_dev (BlockCache s1 m)) (bc_data (BlockCache s1 m)) (bc_secno (BlockCache s1 m)) IO_WRITE s1
          else Ret (0, s1)) = Ret (0, s2)"
        "bc_load m dev buf x w (bc_claim m dev x (upd_bc m (\<lambda>e. e\<lparr>bc_time := 0\<rparr>) s2)) = bc_finish t"
        "cache_inv t D" "cframe s1 t" "rw_effect w buf dev x D s1 t"
        using evict_load_ok [OF lk(2) assms(3,4) m(1) miss buf refl m(2)] by blast
      show ?thesis by (rule fin [OF _ e(3-5)]) (simp add: bcache_rw_def lk(1) None Inr e(1,2) del: upt_Suc)
    qed
  qed
qed

section \<open>Synchronisation\<close>

definition bc_clean :: "'a kbc_scheme \<Rightarrow> nat \<Rightarrow> bool" where
  "bc_clean s i \<longleftrightarrow> (\<forall>d x. bc_hit s d x i \<longrightarrow> bc_bytes s i = disk s d x)"

lemma sync_step:
  assumes "cache_inv s D" "i < N_BCACHE" "e = BlockCache s i" "bc_occupied e" "bc_modified e"
  shows "\<exists>s2. disk_io_direct_oneblock (bc_dev e) (bc_data e) (bc_secno e) IO_WRITE s = Ret (0, s2) \<and> cache_inv s2 D \<and>
    (\<forall>d \<in> D. bview s2 d = bview s d) \<and> cframe s s2 \<and> mem s2 = mem s \<and> bc_clean s2 i \<and>
    (\<forall>j < N_BCACHE. bc_clean s j \<longrightarrow> bc_clean s2 j)"
proof -
  obtain s2 where s2: "disk_io_direct_oneblock (bc_dev e) (bc_data e) (bc_secno e) IO_WRITE s = Ret (0, s2)" "cache_inv s2 D"
    "\<forall>d \<in> D. bview s2 d = bview s d" "bc_bytes s2 i = disk s2 (bc_dev e) (bc_secno e)" "bc_hit s2 = bc_hit s" "cframe s s2" "mem s2 = mem s"
    "BlockCache s2 = BlockCache s" "\<forall>d \<in> D. \<forall>y. \<not> bc_hit s d y i \<longrightarrow> disk s2 d y = disk s d y"
    using evict_ok [OF assms(1-4)] assms(5) by (simp only: if_True) blast
  have c: "bc_clean s2 i" using s2(4) assms(3) by (auto simp: bc_clean_def s2(5) bc_hit_def)
  have "bc_clean s2 j" if j: "j < N_BCACHE" "bc_clean s j" for j
    unfolding bc_clean_def
  proof (intro allI impI)
    fix d x assume "bc_hit s2 d x j"
    then have h: "bc_hit s d x j" by (simp add: s2(5))
    show "bc_bytes s2 j = disk s2 d x"
    proof (cases "bc_hit s d x i")
      case True
      then have "j = i" using cache_invD(5) [OF assms(1) j(1) assms(2) h] by simp
      then show ?thesis using c h by (simp add: bc_clean_def s2(5))
    next
      case False
      moreover have "bc_bytes s2 j = bc_bytes s j" by (simp add: bc_bytes_def s2(7,8))
      ultimately show ?thesis using s2(9) cache_invD(3) [OF assms(1) j(1) h] j(2) h by (simp add: bc_clean_def)
    qed
  qed
  then show ?thesis using s2 c by (intro exI [of _ s2]) simp
qed

lemma sync_loop_ok:
  assumes "cache_free s0 D" "cframe (bc_locked s0) s" "cache_inv s D" "\<forall>i \<in> set is. i < N_BCACHE"
    "\<forall>i < N_BCACHE. i \<notin> set is \<longrightarrow> bc_clean s i"
  shows "\<exists>s'. sync_loop is s = Ret (0, s') \<and> cache_inv s' D \<and> cframe s0 s' \<and> (\<forall>d \<in> D. bview s' d = bview s d) \<and> mem s' = mem s \<and>
    (\<forall>i < N_BCACHE. bc_clean s' i)"
  using assms(2-5)
proof (induction "is" arbitrary: s)
  case Nil
  obtain t where t: "unlockBlockCache s = Ret t" "cache_inv t D" "cframe s0 t" "bview t = bview s" "mem t = mem s" "disk t = disk s"
    "BlockCache t = BlockCache s"
    using unlock_ok [OF assms(1) Nil.prems(1,2)] by blast
  have "bc_clean t i = bc_clean s i" for i
    by (simp add: bc_clean_def bc_hit_def bc_bytes_def t)
  then show ?case using t Nil.prems(4) by (intro exI [of _ t]) simp
next
  case (Cons i "is")
  let ?e = "BlockCache s i"
  have i: "i < N_BCACHE" using Cons.prems(3) by simp
  show ?case
  proof (cases "bc_occupied ?e \<and> bc_modified ?e")
    case True
    obtain s2 where s2: "disk_io_direct_oneblock (bc_dev ?e) (bc_data ?e) (bc_secno ?e) IO_WRITE s = Ret (0, s2)" "cache_inv s2 D"
      "\<forall>d \<in> D. bview s2 d = bview s d" "cframe s s2" "mem s2 = mem s" "bc_clean s2 i" "\<forall>j < N_BCACHE. bc_clean s j \<longrightarrow> bc_clean s2 j"
      using sync_step [OF Cons.prems(2) i refl] True by blast
    have "\<exists>s'. sync_loop is s2 = Ret (0, s') \<and> cache_inv s' D \<and> cframe s0 s' \<and> (\<forall>d \<in> D. bview s' d = bview s2 d) \<and> mem s' = mem s2 \<and>
        (\<forall>i < N_BCACHE. bc_clean s' i)"
      using cframe_trans [OF Cons.prems(1) s2(4)] s2(2,6,7) Cons.prems(3,4) by (intro Cons.IH) auto
    then show ?thesis using True s2(1,3,5) by (auto simp: Let_def)
  next
    case False
    have "bc_clean s i" using False cache_invD(4) [OF Cons.prems(2) i] by (auto simp: bc_clean_def bc_hit_def)
    then have "\<exists>s'. sync_loop is s = Ret (0, s') \<and> cache_inv s' D \<and> cframe s0 s' \<and> (\<forall>d \<in> D. bview s' d = bview s d) \<and> mem s' = mem s \<and>
        (\<forall>i < N_BCACHE. bc_clean s' i)"
      using Cons.prems by (intro Cons.IH) auto
    then show ?thesis using False by (auto simp: Let_def)
  qed
qed

lemma clean_view: "cache_inv s D \<Longrightarrow> \<forall>i < N_BCACHE. bc_clean s i \<Longrightarrow> disk s d x = bview s d x"
  by (rule bview_cases [of s d x]) (auto simp: bc_clean_def)

section \<open>Sector devices\<close>

text \<open>
  The contract of a layer that moves one sector at a time between memory and a store: \<open>rw\<close> is the
  operation, \<open>view\<close> the contents of the store, \<open>priv\<close> the memory the layer keeps for itself.
\<close>

locale sector_io =
  fixes rw :: "io_type \<Rightarrow> ptr \<Rightarrow> u32 \<Rightarrow> 's \<Rightarrow> (int \<times> 's) kres"
    and inv :: "'s \<Rightarrow> bool" and view :: "'s \<Rightarrow> u32 \<Rightarrow> u8 list" and memof :: "'s \<Rightarrow> memory" and priv :: "'s \<Rightarrow> ptr set"
  assumes sector_read: "inv s \<Longrightarrow> x < MAX_DISK_NSECS \<Longrightarrow> span buf 512 \<inter> priv s = {} \<Longrightarrow>
      \<exists>s'. rw IO_READ buf x s = Ret (0, s') \<and> inv s' \<and> view s' = view s \<and> priv s' = priv s \<and>
        rdbytes (memof s') buf 512 = view s x \<and> (\<forall>a. a \<notin> span buf 512 \<union> priv s \<longrightarrow> memof s' a = memof s a)"
    and sector_write: "inv s \<Longrightarrow> x < MAX_DISK_NSECS \<Longrightarrow> span buf 512 \<inter> priv s = {} \<Longrightarrow>
      \<exists>s'. rw IO_WRITE buf x s = Ret (0, s') \<and> inv s' \<and> view s' = (view s)(x := rdbytes (memof s) buf 512) \<and> priv s' = priv s \<and>
        (\<forall>a. a \<notin> priv s \<longrightarrow> memof s' a = memof s a)"
begin

lemma span_split: "span buf (512 + n) = span buf 512 \<union> span (buf + SECTSIZE) n"
proof -
  have "(\<lambda>i. 512 + i) ` {..<n} = {512..<512 + n}"
    using image_add_atLeastLessThan [of 512 0 n] by (simp add: lessThan_atLeast0 add.commute)
  then have "{..<512 + n} = {..<512} \<union> (\<lambda>i. 512 + i) ` {..<n}" by auto
  then show ?thesis by (simp add: span_def image_Un image_image algebra_simps)
qed

lemma span_apart:
  assumes "512 + n \<le> 2 ^ 32"
  shows "span buf 512 \<inter> span (buf + SECTSIZE) n = {}"
proof -
  have "of_nat i \<noteq> (of_nat (512 + j) :: u32)" if "i < 512" "j < n" for i j
    using of_nat_u32_inject [of i "512 + j"] that assms by simp
  then show ?thesis by (auto simp: span_def)
qed

lemma rdbytes_split: "rdbytes m buf (512 + n) = rdbytes m buf 512 @ rdbytes m (buf + SECTSIZE) n"
proof -
  have "[0..<512 + n] = [0..<512] @ map (\<lambda>i. 512 + i) [0..<n]"
    using upt_add_eq_append [of 0 512 n] by (simp add: map_add_upt add.commute)
  then show ?thesis by (simp add: rdbytes_def comp_def algebra_simps)
qed

lemma next_sector: "unat x + Suc n \<le> unat MAX_DISK_NSECS \<Longrightarrow> x < MAX_DISK_NSECS \<and> unat (x + 1) = Suc (unat x)"
  by (simp add: word_less_nat_alt unat_word_ariths)

lemma read_many:
  assumes "inv s" "unat x + n \<le> unat MAX_DISK_NSECS" "n * 512 \<le> 2 ^ 32" "span buf (n * 512) \<inter> priv s = {}"
  shows "\<exists>s'. each_sector (rw IO_READ) buf x n s = Ret (0, s') \<and> inv s' \<and> view s' = view s \<and> priv s' = priv s \<and>
    rdbytes (memof s') buf (n * 512) = concat (map (\<lambda>k. view s (x + of_nat k)) [0..<n]) \<and>
    (\<forall>a. a \<notin> span buf (n * 512) \<union> priv s \<longrightarrow> memof s' a = memof s a)"
  using assms
proof (induction n arbitrary: buf x s)
  case 0
  then show ?case by (simp add: rdbytes_def)
next
  case (Suc n)
  have sp: "span buf (Suc n * 512) = span buf 512 \<union> span (buf + SECTSIZE) (n * 512)" using span_split [of buf "n * 512"] by simp
  have x: "x < MAX_DISK_NSECS" "unat (x + 1) = Suc (unat x)" using next_sector [OF Suc.prems(2)] by simp_all
  obtain s1 where s1: "rw IO_READ buf x s = Ret (0, s1)" "inv s1" "view s1 = view s" "priv s1 = priv s"
    "rdbytes (memof s1) buf 512 = view s x" "\<forall>a. a \<notin> span buf 512 \<union> priv s \<longrightarrow> memof s1 a = memof s a"
    using sector_read [OF Suc.prems(1) x(1), of buf] Suc.prems(4) sp by auto
  obtain s' where s': "each_sector (rw IO_READ) (buf + SECTSIZE) (x + 1) n s1 = Ret (0, s')" "inv s'" "view s' = view s1" "priv s' = priv s1"
    "rdbytes (memof s') (buf + SECTSIZE) (n * 512) = concat (map (\<lambda>k. view s1 (x + 1 + of_nat k)) [0..<n])"
    "\<forall>a. a \<notin> span (buf + SECTSIZE) (n * 512) \<union> priv s1 \<longrightarrow> memof s' a = memof s1 a"
    using Suc.IH [OF s1(2), of "x + 1" "buf + SECTSIZE"] Suc.prems(2-4) x(2) sp by (auto simp: s1(4))
  have "rdbytes (memof s') buf 512 = rdbytes (memof s1) buf 512"
    by (rule rdbytes_cong)
      (use span_apart [of "n * 512" buf] Suc.prems(3,4) sp s'(6) in \<open>auto simp: s1(4)\<close>)
  moreover have "[0..<Suc n] = 0 # map Suc [0..<n]" by (simp add: upt_conv_Cons map_Suc_upt del: upt_Suc)
  ultimately have "rdbytes (memof s') buf (Suc n * 512) = concat (map (\<lambda>k. view s (x + of_nat k)) [0..<Suc n])"
    using rdbytes_split [of "memof s'" buf "n * 512"] s'(5) s1(3,5) by (simp add: comp_def algebra_simps del: upt_Suc)
  then show ?case using s1 s' sp by (intro exI [of _ s']) simp
qed

lemma write_many:
  assumes "inv s" "unat x + n \<le> unat MAX_DISK_NSECS" "n * 512 \<le> 2 ^ 32" "span buf (n * 512) \<inter> priv s = {}"
  shows "\<exists>s'. each_sector (rw IO_WRITE) buf x n s = Ret (0, s') \<and> inv s' \<and> priv s' = priv s \<and>
    view s' = putsecs x (map (\<lambda>k. rdbytes (memof s) (buf + of_nat k * SECTSIZE) 512) [0..<n]) (view s) \<and>
    (\<forall>a. a \<notin> priv s \<longrightarrow> memof s' a = memof s a)"
  using assms
proof (induction n arbitrary: buf x s)
  case 0
  then show ?case by simp
next
  case (Suc n)
  have sp: "span buf (Suc n * 512) = span buf 512 \<union> span (buf + SECTSIZE) (n * 512)" using span_split [of buf "n * 512"] by simp
  have x: "x < MAX_DISK_NSECS" "unat (x + 1) = Suc (unat x)" using next_sector [OF Suc.prems(2)] by simp_all
  obtain s1 where s1: "rw IO_WRITE buf x s = Ret (0, s1)" "inv s1" "view s1 = (view s)(x := rdbytes (memof s) buf 512)" "priv s1 = priv s"
    "\<forall>a. a \<notin> priv s \<longrightarrow> memof s1 a = memof s a"
    using sector_write [OF Suc.prems(1) x(1), of buf] Suc.prems(4) sp by auto
  obtain s' where s': "each_sector (rw IO_WRITE) (buf + SECTSIZE) (x + 1) n s1 = Ret (0, s')" "inv s'" "priv s' = priv s1"
    "view s' = putsecs (x + 1) (map (\<lambda>k. rdbytes (memof s1) (buf + SECTSIZE + of_nat k * SECTSIZE) 512) [0..<n]) (view s1)"
    "\<forall>a. a \<notin> priv s1 \<longrightarrow> memof s' a = memof s1 a"
    using Suc.IH [OF s1(2), of "x + 1" "buf + SECTSIZE"] Suc.prems(2-4) x(2) sp by (auto simp: s1(4))
  have "rdbytes (memof s1) (buf + SECTSIZE + of_nat k * SECTSIZE) 512 = rdbytes (memof s) (buf + of_nat (Suc k) * SECTSIZE) 512"
    if "k < n" for k
  proof -
    have "span (buf + of_nat (Suc k) * SECTSIZE) 512 \<subseteq> span buf (Suc n * 512)"
    proof
      fix a assume "a \<in> span (buf + of_nat (Suc k) * SECTSIZE) 512"
      then obtain i where i: "i < 512" "a = buf + of_nat (Suc k) * SECTSIZE + of_nat i" by (auto simp: span_def)
      then have "a = buf + of_nat (Suc k * 512 + i)" by (simp add: algebra_simps)
      moreover have "Suc k * 512 + i < Suc n * 512" using i(1) that by simp
      ultimately show "a \<in> span buf (Suc n * 512)" unfolding span_def by blast
    qed
    then have "rdbytes (memof s1) (buf + of_nat (Suc k) * SECTSIZE) 512 = rdbytes (memof s) (buf + of_nat (Suc k) * SECTSIZE) 512"
      using s1(5) Suc.prems(4) by (intro rdbytes_cong) blast
    then show ?thesis by (simp add: algebra_simps)
  qed
  then have "map (\<lambda>k. rdbytes (memof s) (buf + of_nat k * SECTSIZE) 512) [0..<Suc n] =
      rdbytes (memof s) buf 512 # map (\<lambda>k. rdbytes (memof s1) (buf + SECTSIZE + of_nat k * SECTSIZE) 512) [0..<n]"
    by (simp add: upt_conv_Cons map_Suc_upt [symmetric] comp_def del: upt_Suc)
  then have "view s' = putsecs x (map (\<lambda>k. rdbytes (memof s) (buf + of_nat k * SECTSIZE) 512) [0..<Suc n]) (view s)"
    by (simp add: s'(4) s1(3) del: upt_Suc)
  then show ?case using s1 s' by (intro exI [of _ s']) (simp del: upt_Suc)
qed

text \<open>What is written to a range of sectors is what is then read from it, into any buffer.\<close>

lemma write_read_many:
  assumes "inv s" "unat x + n \<le> unat MAX_DISK_NSECS" "n * 512 \<le> 2 ^ 32" "span buf (n * 512) \<inter> priv s = {}" "span dst (n * 512) \<inter> priv s = {}"
  shows "\<exists>s1 s2. each_sector (rw IO_WRITE) buf x n s = Ret (0, s1) \<and> each_sector (rw IO_READ) dst x n s1 = Ret (0, s2) \<and>
    rdbytes (memof s2) dst (n * 512) = rdbytes (memof s) buf (n * 512) \<and>
    (\<forall>y. (\<forall>k < n. y \<noteq> x + of_nat k) \<longrightarrow> view s2 y = view s y)"
proof -
  let ?ds = "map (\<lambda>k. rdbytes (memof s) (buf + of_nat k * SECTSIZE) 512) [0..<n]"
  obtain s1 where s1: "each_sector (rw IO_WRITE) buf x n s = Ret (0, s1)" "inv s1" "priv s1 = priv s" "view s1 = putsecs x ?ds (view s)"
    using write_many [OF assms(1-4)] by blast
  obtain s2 where s2: "each_sector (rw IO_READ) dst x n s1 = Ret (0, s2)" "view s2 = view s1"
    "rdbytes (memof s2) dst (n * 512) = concat (map (\<lambda>k. view s1 (x + of_nat k)) [0..<n])"
    using read_many [OF s1(2) assms(2,3), of dst] assms(5) s1(3) by auto
  have eq: "map (\<lambda>k. view s1 (x + of_nat k)) [0..<n] = ?ds"
    using putsecs_inside [of _ ?ds x "view s"] assms(3) by (auto simp: s1(4))
  have "rdbytes (memof s2) dst (n * 512) = rdbytes (memof s) buf (n * 512)" unfolding s2(3) eq by (rule rdbytes_sectors)
  moreover have "view s2 y = view s y" if "\<forall>k < n. y \<noteq> x + of_nat k" for y
    using putsecs_outside [of ?ds y x "view s"] that by (simp add: s1(4) s2(2))
  ultimately show ?thesis using s1(1) s2(1) by blast
qed

end

lemma bcache_rw_contract:
  assumes "cache_inv s D \<and> cache_free s D \<and> dev \<in> D" "x < MAX_DISK_NSECS" "span buf 512 \<inter> cache_mem s = {}"
  shows "\<exists>s'. bcache_rw dev buf x w s = Ret (0, s') \<and> (cache_inv s' D \<and> cache_free s' D \<and> dev \<in> D) \<and> cache_mem s' = cache_mem s \<and>
    rw_effect w buf dev x D s s'"
  using bcache_rw_ok [of s D dev x buf w] assms cframe_same by (metis buffer_cache_mem)

interpretation bc: sector_io "\<lambda>w buf x. bcache_rw dev buf x w" "\<lambda>s. cache_inv s D \<and> cache_free s D \<and> dev \<in> D"
  "\<lambda>s. bview s dev" mem cache_mem for dev D
proof unfold_locales
  fix s :: "'a kbc_scheme" and x :: u32 and buf :: ptr
  assume a: "cache_inv s D \<and> cache_free s D \<and> dev \<in> D" "x < MAX_DISK_NSECS" "span buf 512 \<inter> cache_mem s = {}"
  show "\<exists>s'. bcache_rw dev buf x IO_READ s = Ret (0, s') \<and> (cache_inv s' D \<and> cache_free s' D \<and> dev \<in> D) \<and> bview s' dev = bview s dev \<and>
      cache_mem s' = cache_mem s \<and> rdbytes (mem s') buf 512 = bview s dev x \<and> (\<forall>a. a \<notin> span buf 512 \<union> cache_mem s \<longrightarrow> mem s' a = mem s a)"
    using bcache_rw_contract [OF a, of IO_READ] by (auto simp: rw_effect_def)
  show "\<exists>s'. bcache_rw dev buf x IO_WRITE s = Ret (0, s') \<and> (cache_inv s' D \<and> cache_free s' D \<and> dev \<in> D) \<and>
      bview s' dev = (bview s dev)(x := rdbytes (mem s) buf 512) \<and> cache_mem s' = cache_mem s \<and> (\<forall>a. a \<notin> cache_mem s \<longrightarrow> mem s' a = mem s a)"
    using bcache_rw_contract [OF a, of IO_WRITE] by (fastforce simp: rw_effect_def)
qed

lemma oneblock_request:
  "disk_io_direct_oneblock dev buf x w s = Ret (0, s') \<Longrightarrow>
   blk_request dev \<lparr>req_type = w, req_secno = x, req_nsecs = 1, req_buffer = buf, req_bsize = SECTSIZE\<rparr> s = Ret (0, s')"
  by (auto simp: disk_io_direct_oneblock_def kbind_eq_Ret split: if_splits)

interpretation blk: sector_io
  "\<lambda>w buf x. blk_request dev \<lparr>req_type = w, req_secno = x, req_nsecs = 1, req_buffer = buf, req_bsize = SECTSIZE\<rparr>"
  "\<lambda>s :: 'a kbc_scheme. dev_ok s dev" "\<lambda>s. disk s dev" mem "\<lambda>_. {}" for dev
proof unfold_locales
  fix s :: "'a kbc_scheme" and x :: u32 and buf :: ptr
  assume a: "dev_ok s dev" "x < MAX_DISK_NSECS"
  have len: "length (disk s dev x) = 512" using a(1) by (simp add: dev_ok_def ide_ready_def disk_def)
  obtain ch where r: "blk_request dev \<lparr>req_type = IO_READ, req_secno = x, req_nsecs = 1, req_buffer = buf, req_bsize = SECTSIZE\<rparr> s =
      Ret (0, s\<lparr>mem := wrbytes buf (disk s dev x) (mem s), channels := ch\<rparr>)" (is "_ = Ret (0, ?s')")
    using oneblock_read [OF a, of buf] oneblock_request by blast
  have "dev_ok ?s' dev" "disk ?s' = disk s"
    using a(1) by (simp_all add: dev_ok_def ide_ready_def ideno_def sem_free_def ide_sem_def waitlistIsEmpty_def disk_def fun_eq_iff)
  moreover have "rdbytes (mem ?s') buf 512 = disk s dev x" using rdbytes_wrbytes [OF len [symmetric]] by simp
  moreover have "mem ?s' a = mem s a" if "a \<notin> span buf 512" for a
  proof -
    have "wrbytes buf (disk s dev x) (mem s) a = mem s a" by (rule wrbytes_outside) (use that len in \<open>auto simp: span_def\<close>)
    then show ?thesis by simp
  qed
  ultimately show "\<exists>s'. blk_request dev \<lparr>req_type = IO_READ, req_secno = x, req_nsecs = 1, req_buffer = buf, req_bsize = SECTSIZE\<rparr> s = Ret (0, s') \<and>
      dev_ok s' dev \<and> disk s' dev = disk s dev \<and> {} = {} \<and> rdbytes (mem s') buf 512 = disk s dev x \<and>
      (\<forall>a. a \<notin> span buf 512 \<union> {} \<longrightarrow> mem s' a = mem s a)"
    using r by auto
next
  fix s :: "'a kbc_scheme" and x :: u32 and buf :: ptr
  assume a: "dev_ok s dev" "x < MAX_DISK_NSECS"
  let ?n = "ideno s dev"
  obtain ch where r: "blk_request dev \<lparr>req_type = IO_WRITE, req_secno = x, req_nsecs = 1, req_buffer = buf, req_bsize = SECTSIZE\<rparr> s =
      Ret (0, s\<lparr>drives := (drives s)(?n := (drives s ?n)\<lparr>d_sectors := (d_sectors (drives s ?n))(x := rdbytes (mem s) buf 512)\<rparr>), channels := ch\<rparr>)"
    (is "_ = Ret (0, ?s')")
    using oneblock_write [OF a refl, of buf] oneblock_request by blast
  have i: "ideno (s\<lparr>drives := d\<rparr>) = ideno s" "ideno (s\<lparr>drives := d, channels := c\<rparr>) = ideno s" for d c
    by (simp_all add: ideno_def fun_eq_iff)
  have "dev_ok ?s' dev"
    using a(1) by (simp add: dev_ok_def ide_ready_def i sem_free_def ide_sem_def waitlistIsEmpty_def)
  moreover have "disk ?s' dev = (disk s dev)(x := rdbytes (mem s) buf 512)" by (simp add: disk_def i fun_eq_iff)
  ultimately show "\<exists>s'. blk_request dev \<lparr>req_type = IO_WRITE, req_secno = x, req_nsecs = 1, req_buffer = buf, req_bsize = SECTSIZE\<rparr> s = Ret (0, s') \<and>
      dev_ok s' dev \<and> disk s' dev = (disk s dev)(x := rdbytes (mem s) buf 512) \<and> {} = {} \<and> (\<forall>a. a \<notin> {} \<longrightarrow> mem s' a = mem s a)"
    using r by auto
qed

section \<open>A read that fails\<close>

lemma bcache_failed_read_ok:
  assumes "cache_free s {dev}" and d: "dev \<noteq> NULL" "bd_ops (blockdevs s dev) = IdeOps n" "ide_ready s n" "sem_free s (ide_sem n s)"
    "x < MAX_DISK_NSECS" "d_bad (drives s n) x"
    and "\<And>i. i < N_BCACHE \<Longrightarrow> \<not> bc_hit s dev x i" "bc_scan (BlockCache s) [0..<N_BCACHE] 0 = Inl i"
  shows "\<exists>s1. bcache_rw dev buf x IO_READ s = Ret (1, s1) \<and> bc_hit s1 dev x i \<and> cache_free s1 {dev}"
proof -
  define c where "c = bc_claim i dev x (bc_locked s)"
  define req where "req = \<lparr>req_type = IO_READ, req_secno = x, req_nsecs = 1, req_buffer = bc_data (BlockCache c i), req_bsize = SECTSIZE\<rparr>"
  have "ide_sem n s \<noteq> BlockCacheSem s" using assms(1) d(2) by (simp add: cache_free_def ideno_def)
  moreover have "x + 1 \<le> MAX_DISK_NSECS" using d(5) by (simp add: inc_le)
  ultimately have ok: "req_ok c n req" "req_bad c n req"
    using d by (simp_all add: c_def bc_claim_def upd_bc_def bc_locked_def upd_sem_def req_def req_ok_def req_bad_def ide_ready_def
        sem_free_def ide_sem_def waitlistIsEmpty_def in_disk_def)
  obtain l where l: "ide_request_lock n req c = Ret (-1, l)" "l = c\<lparr>mem := mem l, channels := channels l\<rparr>"
    using request_read [OF ok(1)] ok(2) by (auto simp: req_def)
  have "blockdevs c = blockdevs s" by (simp add: c_def bc_claim_def upd_bc_def bc_locked_def upd_sem_def)
  then have rd: "disk_io_direct_oneblock dev (bc_data (BlockCache c i)) x IO_READ c = Ret (1, l)"
    using l(1) d(1,2) by (simp add: disk_io_direct_oneblock_def blk_request_def req_def)
  have fr: "sems l = sems (bc_locked s)" "WaitLinks l = WaitLinks s" "BlockCacheSem l = BlockCacheSem s" "IDE_Sem l = IDE_Sem s" "blockdevs l = blockdevs s"
    by (subst l(2), simp add: c_def bc_claim_def upd_bc_def bc_locked_def upd_sem_def)+
  have ul: "unlockBlockCache l = Ret (l\<lparr>sems := sems s\<rparr>)"
    using release_free [of s "BlockCacheSem s" l] assms(1) fr
    by (simp add: unlockBlockCache_def cache_free_def bc_locked_def upd_sem_def)
  have h: "bc_hit (l\<lparr>sems := sems s\<rparr>) dev x i"
    by (subst l(2)) (simp add: bc_hit_def c_def bc_claim_def upd_bc_def)
  have cf: "cache_free (l\<lparr>sems := sems s\<rparr>) {dev}"
    using assms(1) by (simp add: cache_free_def sem_free_def waitlistIsEmpty_def ide_sem_def ideno_def fr)
  have "bc_hit (bc_locked s) = bc_hit s" "BlockCache (bc_locked s) = BlockCache s"
    by (simp_all add: bc_locked_def upd_sem_def bc_hit_def fun_eq_iff)
  moreover have "find (bc_hit s dev x) [0..<N_BCACHE] = None" using assms(8) by (simp add: find_None_iff del: upt_Suc)
  moreover have "lockBlockCache s = Ret (bc_locked s)"
    using assms(1) by (simp add: lockBlockCache_def bc_locked_def acquire_free cache_free_def)
  ultimately have "bcache_rw dev buf x IO_READ s = bc_load i dev buf x IO_READ c"
    using assms(9) by (simp add: bcache_rw_def c_def del: upt_Suc)
  also have "\<dots> = Ret (1, l\<lparr>sems := sems s\<rparr>)" using rd ul by (simp add: bc_load_def bc_fail_def)
  finally show ?thesis using h cf by blast
qed

lemma bcache_hit_any:
  assumes "cache_free s {dev}" "i < N_BCACHE" "bc_hit s dev x i"
  shows "\<exists>s'. bcache_rw dev buf x IO_READ s = Ret (0, s') \<and> channels s' = channels s \<and> drives s' = drives s"
proof -
  have e: "bc_hit (bc_locked s) = bc_hit s" "lockBlockCache s = Ret (bc_locked s)"
    using assms(1) by (simp_all add: lockBlockCache_def bc_locked_def acquire_free cache_free_def upd_sem_def bc_hit_def fun_eq_iff)
  obtain j where j: "find (bc_hit s dev x) [0..<N_BCACHE] = Some j"
    using assms(2,3) find_miss [of "bc_hit s dev x" N_BCACHE i] by fastforce
  define t where "t = bc_tick (upd_bc j (\<lambda>e. e\<lparr>bc_time := 0\<rparr>) (bc_copy False j buf IO_READ (bc_locked s)))"
  have t: "sems t = sems (bc_locked s)" "WaitLinks t = WaitLinks s" "BlockCacheSem t = BlockCacheSem s" "channels t = channels s" "drives t = drives s"
    by (simp_all add: t_def bc_tick_def upd_bc_def bc_copy_def bc_locked_def upd_sem_def)
  have "unlockBlockCache t = Ret (t\<lparr>sems := sems s\<rparr>)"
    using release_free [of s "BlockCacheSem s" t] assms(1) t
    by (simp add: unlockBlockCache_def cache_free_def bc_locked_def upd_sem_def)
  then have "bcache_rw dev buf x IO_READ s = Ret (0, t\<lparr>sems := sems s\<rparr>)"
    using j e by (simp add: bcache_rw_def bc_finish_def t_def del: upt_Suc)
  then show ?thesis using t by simp
qed

section \<open>Sample state\<close>

text \<open>An empty cache over one drive.\<close>

definition sample_kbc :: "(u32 \<Rightarrow> bool) \<Rightarrow> kbc" where
  "sample_kbc bad = kblk.extend
     (kide.extend (sample_kide\<lparr>drives := (\<lambda>_. sample_drive\<lparr>d_bad := bad\<rparr>)\<rparr>)
       (kblk.fields (\<lambda>_. \<lparr>bd_id = 0, bd_name = ''IDE 0'', bd_active = True, bd_block_size = 512, bd_base = Some 0, bd_ops = IdeOps 0\<rparr>)
         \<lparr>lp_prev = (\<lambda>x. x), lp_next = (\<lambda>x. x)\<rparr> 0xC0009000 1 0 0 0 (\<lambda>_. \<lparr>md_devid = 0, md_dev = 0, mbr_diskinfo = []\<rparr>)
         \<lparr>lp_prev = (\<lambda>x. x), lp_next = (\<lambda>x. x)\<rparr> 0))
     (kbc.fields (\<lambda>i. \<lparr>bc_size = 512, bc_data = 0xC0310000 + of_nat i * 512, bc_devid = 0, bc_dev = 0, bc_secno = 0, bc_time = 0,
        bc_occupied = False, bc_modified = False\<rparr>) 0xC000A000)"

lemma sample_kbc_sel:
  "sems (sample_kbc bad) = (\<lambda>_. \<lparr>sem_value = 1\<rparr>)" "WaitLinks (sample_kbc bad) = \<lparr>lp_prev = (\<lambda>x. x), lp_next = (\<lambda>x. x)\<rparr>"
  "drives (sample_kbc bad) = (\<lambda>_. sample_drive\<lparr>d_bad := bad\<rparr>)"
  "IDE_Devices (sample_kbc bad) = (\<lambda>_. \<lparr>ide_valid = True, ide_sets = 0, ide_size = 100, ide_desc = []\<rparr>)"
  "bd_ops (blockdevs (sample_kbc bad) d) = IdeOps 0" "IDE_Sem (sample_kbc bad) = 0xC0007000" "BlockCacheSem (sample_kbc bad) = 0xC000A000"
  "bc_data (BlockCache (sample_kbc bad) i) = 0xC0310000 + of_nat i * 512" "\<not> bc_occupied (BlockCache (sample_kbc bad) i)"
  by (simp_all add: sample_kbc_def kblk.defs kide.defs kbc.defs sample_kide_def ktask.defs)

lemma buffers_apart:
  assumes "i \<noteq> j" "i < 2 ^ 23" "j < 2 ^ 23"
  shows "span (b + of_nat i * 512) 512 \<inter> span (b + of_nat j * 512) 512 = {}"
proof -
  have "of_nat (i * 512 + a) \<noteq> (of_nat (j * 512 + c) :: u32)" if "a < 512" "c < 512" for a c
  proof -
    have "i * 512 + a < 2 ^ 32" "j * 512 + c < 2 ^ 32" using that assms by simp_all
    moreover have "i * 512 + a \<noteq> j * 512 + c" using that assms(1) div_eq_nat_iff [of 512 "i * 512 + a" i] div_eq_nat_iff [of 512 "i * 512 + a" j] by auto
    ultimately show ?thesis using of_nat_u32_inject by blast
  qed
  then show ?thesis by (auto simp: span_def algebra_simps)
qed

lemma sample_kbc_inv: "cache_inv (sample_kbc (\<lambda>_. False)) {0xC0009000}"
proof (rule cache_invI)
  show "dev_ok (sample_kbc (\<lambda>_. False)) d" if "d \<in> {0xC0009000}" for d
    using that by (simp add: dev_ok_def ideno_def ide_ready_def sem_free_def sample_kbc_sel sample_drive_def waitlistIsEmpty_def listIsEmpty_def)
  show "span (bc_data (BlockCache (sample_kbc (\<lambda>_. False)) i)) 512 \<inter> span (bc_data (BlockCache (sample_kbc (\<lambda>_. False)) j)) 512 = {}"
    if "i < N_BCACHE" "j < N_BCACHE" "i \<noteq> j" for i j
    unfolding sample_kbc_sel using that by (intro buffers_apart) simp_all
qed (simp_all add: bc_hit_def sample_kbc_sel)

lemma sample_kbc_free: "cache_free (sample_kbc bad) D"
  by (simp add: cache_free_def sem_free_def sample_kbc_sel waitlistIsEmpty_def listIsEmpty_def ide_sem_def ideno_def)

lemma sample_kbc_buffer:
  assumes "128 \<le> k" "k + n \<le> 2 ^ 23"
  shows "span (0xC0310000 + of_nat k * 512) (n * 512) \<inter> cache_mem (sample_kbc bad) = {}"
proof -
  have "span (b + of_nat k * 512) (n * 512) \<subseteq> (\<Union>j \<in> {k..<k + n}. span (b + of_nat j * 512) 512)" for b :: u32
  proof
    fix a assume "a \<in> span (b + of_nat k * 512) (n * 512)"
    then obtain i where i: "i < n * 512" "a = b + of_nat k * 512 + of_nat i" by (auto simp: span_def)
    have "a = b + of_nat (k + i div 512) * 512 + of_nat (i mod 512)"
    proof -
      have "of_nat i = (of_nat (i div 512) * 512 + of_nat (i mod 512) :: u32)"
        by (metis div_mult_mod_eq of_nat_add of_nat_mult of_nat_numeral)
      then show ?thesis using i(2) by (simp add: algebra_simps)
    qed
    moreover have "k + i div 512 \<in> {k..<k + n}" using i(1) by (simp add: less_mult_imp_div_less)
    moreover have "i mod 512 < 512" by simp
    ultimately show "a \<in> (\<Union>j \<in> {k..<k + n}. span (b + of_nat j * 512) 512)" unfolding span_def by blast
  qed
  moreover have "span (b + of_nat j * 512) 512 \<inter> span (b + of_nat i * 512) 512 = {}" if "j \<in> {k..<k + n}" "i < N_BCACHE" for b i j
    using that assms by (intro buffers_apart) auto
  ultimately show ?thesis unfolding cache_mem_def sample_kbc_sel by blast
qed

section \<open>Properties\<close>

text \<open>
  C20: through the cache, a read returns the current contents of the sector, a write changes exactly that
  sector of what the cache shows, and hits, loads, evictions and write-backs keep the invariant: no
  sector is cached twice, and an unmodified entry agrees with its disk.  Only the buffer of a read and
  the cache's own buffers change in memory.
\<close>

theorem bcache_rw_correct:
  assumes "cache_inv s D" "cache_free s D" "dev \<in> D" "x < MAX_DISK_NSECS" "buffer_ok s buf"
  shows "\<exists>s'. bcache_rw dev buf x w s = Ret (0, s') \<and> cache_inv s' D \<and> cache_free s' D \<and>
    (case w of
       IO_READ \<Rightarrow> (\<forall>d \<in> D. bview s' d = bview s d) \<and> rdbytes (mem s') buf 512 = bview s dev x \<and>
         (\<forall>a. a \<notin> span buf 512 \<union> cache_mem s \<longrightarrow> mem s' a = mem s a)
     | IO_WRITE \<Rightarrow> (\<forall>d \<in> D. bview s' d = (if d = dev then (bview s dev)(x := rdbytes (mem s) buf 512) else bview s d)) \<and>
         (\<forall>a. a \<notin> cache_mem s \<longrightarrow> mem s' a = mem s a))"
proof -
  obtain s' where "bcache_rw dev buf x w s = Ret (0, s')" "cache_inv s' D" "cframe s s'" "rw_effect w buf dev x D s s'"
    using bcache_rw_ok [OF assms] by blast
  then show ?thesis using cframe_same(4) [of s s'] assms(2) unfolding rw_effect_def by auto
qed

theorem bcache_rw_correct_witness:
  "\<exists>s'. bcache_rw 0xC0009000 0xC0330000 5 IO_READ (sample_kbc (\<lambda>_. False)) = Ret (0, s') \<and>
     rdbytes (mem s') 0xC0330000 512 = replicate 512 7"
proof -
  have b: "buffer_ok (sample_kbc (\<lambda>_. False)) 0xC0330000"
    using sample_kbc_buffer [of 256 1 "\<lambda>_. False"] by (simp add: buffer_cache_mem)
  have "bview (sample_kbc (\<lambda>_. False)) 0xC0009000 5 = replicate 512 7"
    using bview_miss [of "sample_kbc (\<lambda>_. False)" "0xC0009000" 5]
    by (simp add: bc_hit_def sample_kbc_sel disk_def sample_drive_def)
  then show ?thesis
    using bcache_rw_correct [OF sample_kbc_inv sample_kbc_free _ _ b, of "0xC0009000" 5 IO_READ] by auto
qed

text \<open>
  C21: after \<^verbatim>\<open>sync_all_bcache\<close> every sector of every disk holds what the cache shows for it, and what the
  cache shows has not changed.
\<close>

theorem sync_all_bcache_correct:
  assumes "cache_inv s D" "cache_free s D"
  shows "\<exists>s'. sync_all_bcache s = Ret (0, s') \<and> cache_inv s' D \<and> cache_free s' D \<and> mem s' = mem s \<and>
    (\<forall>d \<in> D. \<forall>x. bview s' d x = bview s d x \<and> disk s' d x = bview s d x)"
proof -
  note lk = lock_ok [OF assms]
  obtain s' where "sync_loop [0..<N_BCACHE] (bc_locked s) = Ret (0, s')" "cache_inv s' D" "cframe s s'" "\<forall>d \<in> D. bview s' d = bview s d"
    "mem s' = mem s" "\<forall>i < N_BCACHE. bc_clean s' i"
    using sync_loop_ok [OF assms(2) cframe_refl lk(2), of "[0..<N_BCACHE]"] unfolding lk(3,5) by auto
  moreover from this have "disk s' d x = bview s' d x" for d x using clean_view by blast
  ultimately show ?thesis using lk(1) cframe_same(4) [of s s'] assms(2)
    by (intro exI [of _ s']) (simp add: sync_all_bcache_def del: upt_Suc)
qed

theorem sync_all_bcache_correct_witness:
  "\<exists>s'. sync_all_bcache (sample_kbc (\<lambda>_. False)) = Ret (0, s') \<and> disk s' 0xC0009000 5 = bview s' 0xC0009000 5"
  using sync_all_bcache_correct [OF sample_kbc_inv sample_kbc_free] by auto

text \<open>
  C22: \<^verbatim>\<open>diskIO_BCache\<close> reads back, into any buffer, the sectors it wrote before, however many entries
  they displaced, and touches no other sector.
\<close>

theorem diskIO_BCache_roundtrip:
  assumes "cache_inv s D" "cache_free s D" "dev \<in> D" "dev \<noteq> NULL" and "unat x + unat n \<le> 0x10000000" "unat n * 512 \<le> 2 ^ 32"
    and "span buf (unat n * 512) \<inter> cache_mem s = {}" "span dst (unat n * 512) \<inter> cache_mem s = {}"
  shows "\<exists>s1 s2. diskIO_BCache dev \<lparr>req_type = IO_WRITE, req_secno = x, req_nsecs = n, req_buffer = buf, req_bsize = z\<rparr> s = Ret (0, s1) \<and>
    diskIO_BCache dev \<lparr>req_type = IO_READ, req_secno = x, req_nsecs = n, req_buffer = dst, req_bsize = z\<rparr> s1 = Ret (0, s2) \<and>
    rdbytes (mem s2) dst (unat n * 512) = rdbytes (mem s) buf (unat n * 512) \<and>
    (\<forall>y. (\<forall>k < unat n. y \<noteq> x + of_nat k) \<longrightarrow> bview s2 dev y = bview s dev y)"
  using bc.write_read_many [of s D dev x "unat n" buf dst] assms by (simp add: diskIO_BCache_def)

theorem diskIO_BCache_roundtrip_witness:
  "\<exists>s1 s2. diskIO_BCache 0xC0009000 \<lparr>req_type = IO_WRITE, req_secno = 5, req_nsecs = 20, req_buffer = 0xC0330000, req_bsize = 0\<rparr> (sample_kbc (\<lambda>_. False)) = Ret (0, s1) \<and>
     diskIO_BCache 0xC0009000 \<lparr>req_type = IO_READ, req_secno = 5, req_nsecs = 20, req_buffer = 0xC0350000, req_bsize = 0\<rparr> s1 = Ret (0, s2) \<and>
     rdbytes (mem s2) 0xC0350000 10240 = rdbytes (mem (sample_kbc (\<lambda>_. False))) 0xC0330000 10240"
  using diskIO_BCache_roundtrip [OF sample_kbc_inv sample_kbc_free, of "0xC0009000" 5 20 "0xC0330000" "0xC0350000" 0]
    sample_kbc_buffer [of 256 20 "\<lambda>_. False"] sample_kbc_buffer [of 512 20 "\<lambda>_. False"]
  by auto

text \<open>
  C23: when the disk cannot deliver a sector that a free entry was claimed for, \<^verbatim>\<open>bcache_rw\<close> reports the
  error but leaves the entry claimed, so the next read of the sector succeeds without asking the disk.
\<close>

theorem bcache_failed_read_stays:
  assumes "cache_free s {dev}" and "dev \<noteq> NULL" "bd_ops (blockdevs s dev) = IdeOps n" "ide_ready s n" "sem_free s (ide_sem n s)"
    "x < MAX_DISK_NSECS" "d_bad (drives s n) x"
    and "\<And>i. i < N_BCACHE \<Longrightarrow> \<not> bc_hit s dev x i" "bc_scan (BlockCache s) [0..<N_BCACHE] 0 = Inl i"
  shows "\<exists>s1 s2. bcache_rw dev buf x IO_READ s = Ret (1, s1) \<and> bcache_rw dev buf x IO_READ s1 = Ret (0, s2) \<and>
    channels s2 = channels s1 \<and> drives s2 = drives s1"
proof -
  have "i < N_BCACHE" using bc_scan_free [OF assms(9)] by simp
  moreover obtain s1 where "bcache_rw dev buf x IO_READ s = Ret (1, s1)" "bc_hit s1 dev x i" "cache_free s1 {dev}"
    using bcache_failed_read_ok [OF assms] by blast
  ultimately show ?thesis using bcache_hit_any by blast
qed

theorem bcache_failed_read_stays_witness:
  "\<exists>s1 s2. bcache_rw 0xC0009000 0xC0330000 9 IO_READ (sample_kbc (\<lambda>b. b = 9)) = Ret (1, s1) \<and>
     bcache_rw 0xC0009000 0xC0330000 9 IO_READ s1 = Ret (0, s2)"
proof -
  define s where "s = sample_kbc (\<lambda>b. b = 9)"
  have "bd_ops (blockdevs s 0xC0009000) = IdeOps 0" "ide_ready s 0" "sem_free s (ide_sem 0 s)" "d_bad (drives s 0) 9"
    "\<And>i. i < N_BCACHE \<Longrightarrow> \<not> bc_hit s 0xC0009000 9 i"
    by (simp_all add: s_def sample_kbc_sel ide_ready_def sem_free_def sample_drive_def waitlistIsEmpty_def listIsEmpty_def bc_hit_def)
  moreover have "bc_scan (BlockCache s) [0..<N_BCACHE] 0 = Inl 0"
    by (subst upt_conv_Cons) (simp_all add: s_def sample_kbc_sel del: upt_Suc)
  moreover have "cache_free s {0xC0009000}" unfolding s_def by (rule sample_kbc_free)
  ultimately show ?thesis
    using bcache_failed_read_stays [of s "0xC0009000" 0 9 0 "0xC0330000"] unfolding s_def [symmetric] by auto
qed

end
