(* ===== verification/PageFault.thy ===== *)
theory PageFault
  imports Task_Exit
begin

text \<open>
  Page faults (\<^verbatim>\<open>kern/mm/page_fault.c\<close>) and the kernel's accesses to user memory
  (\<^verbatim>\<open>checkUserMem\<close>, \<^verbatim>\<open>copyFromUser\<close>, \<^verbatim>\<open>copyToUser\<close>, \<^verbatim>\<open>copyLegalStr\<close> of \<^verbatim>\<open>kern/mm/vmm.c\<close>).  An access of the
  kernel to an address the page directory does not map enters the fault handler, which returns to
  the access when it could map a page and halts the machine otherwise.  The diagnostic output is left
  out.
\<close>

section \<open>The handler\<close>

definition do_pgfault :: "ptr \<Rightarrow> iframe \<Rightarrow> u32 \<Rightarrow> 'a kvm_scheme \<Rightarrow> (int \<times> 'a kvm_scheme) kres" where
  "do_pgfault mm fr cr2 s =
     (let e = err_code fr AND 3
      in kbind (find_vma mm cr2 s) (\<lambda>(v, s1).
        if v = NULL \<or> cr2 < vm_start (vmas s1 v) then Ret (- E_INVAL, s1)
        else let flags = vm_flags (vmas s1 v)
             in if e = 1 then Ret (- E_INVAL, s1)
                else if e = 0 \<and> flags AND (VMM_READ OR VMM_EXEC) = 0 then Ret (- E_INVAL, s1)
                else if e \<noteq> 0 \<and> flags AND VMM_WRITE = 0 then Ret (- E_INVAL, s1)
                else
                  let perm = PTE_PAGE_USER OR (if flags AND VMM_WRITE \<noteq> 0 then PTE_PAGE_WRITEABLE else 0);
                      addr = ROUNDDOWN cr2 PGSIZE;
                      d = pgdir (mms s1 mm)
                  in kbind (get_pte d addr True s1) (\<lambda>(ptep, s2).
                       if ptep = NULL then Ret (- E_NOMEM, s2)
                       else if rd32 s2 ptep = 0
                       then kbind (pgdir_alloc_page d addr perm s2) (\<lambda>(page, s3).
                              Ret (case page of None \<Rightarrow> - E_NOMEM | Some _ \<Rightarrow> 0, s3))
                       else if rd32 s2 ptep AND PTE_PAGE_PERSENT \<noteq> 0 then Panic ''error write a non-writable pte''
                       else Ret (- E_NOMEM, s2))))"

definition handlePageFault :: "iframe \<Rightarrow> u32 \<Rightarrow> 'a kvm_scheme \<Rightarrow> (int \<times> 'a kvm_scheme) kres" where
  "handlePageFault fr cr2 s =
     (if TestMM s \<noteq> NULL then do_pgfault (TestMM s) fr cr2 s
      else if CurrentTask s = NULL then Ret (-1, s)
      else do_pgfault (tmm (tasks s (CurrentTask s))) fr cr2 s)"

definition isIntrInKernel :: "iframe \<Rightarrow> bool" where
  "isIntrInKernel fr = (err_code fr AND 4 = 0)"

text \<open>\<^verbatim>\<open>haltSys\<close> masks the interrupts and stops the processor for good.\<close>

definition pageFaultCallback :: "iframe \<Rightarrow> u32 \<Rightarrow> 'a ktask_scheme \<Rightarrow> 'a ktask_scheme kres" where
  "pageFaultCallback fr cr2 s =
     kbind (handlePageFault fr cr2 s) (\<lambda>(ret, s1).
       if ret \<noteq> 0
       then if CurrentTask s1 = NULL then Hang
            else if isIntrInKernel fr then Hang
            else do_exit (- E_KILLED) s1
       else Ret s1)"

section \<open>Accesses of the kernel to virtual addresses\<close>

text \<open>
  The walk of the processor.  Addresses from \<^verbatim>\<open>KERNEL_BASE\<close> on are the direct mapping, which every
  page directory holds; the result is an address of the direct mapping.  The kernel runs with
  \<^verbatim>\<open>CR0.WP\<close> clear, so that read-only entries do not stop it.
\<close>

definition walk :: "'a kmach_scheme \<Rightarrow> u32 \<Rightarrow> ptr option" where
  "walk s va =
     (if KERNEL_BASE \<le> va then Some va
      else let pde = rd32 s (cr3 s + KERNEL_BASE + 4 * PGD_INDEX va)
           in if pde AND PTE_PAGE_PERSENT = 0 then None
              else let pte = rd32 s (PTE_ADDR pde + KERNEL_BASE + 4 * PTE_INDEX va)
                   in if pte AND PTE_PAGE_PERSENT = 0 then None
                      else Some (PTE_ADDR pte + PG_OFFSET va + KERNEL_BASE))"

text \<open>The frame of a fault in kernel mode on a page that is not present: only the error code is read.\<close>

definition kernel_fault_frame :: "bool \<Rightarrow> iframe" where
  "kernel_fault_frame write =
     \<lparr>if_gs = 0, if_fs = 0, if_es = 0, if_ds = 0, if_edi = 0, if_esi = 0, if_ebp = 0, if_esp = 0, if_ebx = 0,
      if_edx = 0, if_ecx = 0, if_eax = 0, int_no = 14, err_code = if write then 2 else 0, if_eip = 0, if_cs = 8,
      if_eflags = 0, user_esp = 0, if_ss = 0\<rparr>"

text \<open>The access is restarted when the handler returns; were the page still absent, it would fault for ever.\<close>

definition kaccess :: "bool \<Rightarrow> u32 \<Rightarrow> 'a ktask_scheme \<Rightarrow> (ptr \<times> 'a ktask_scheme) kres" where
  "kaccess write va s =
     (case walk s va of
        Some p \<Rightarrow> Ret (p, s)
      | None \<Rightarrow> kbind (pageFaultCallback (kernel_fault_frame write) va s) (\<lambda>s1.
          case walk s1 va of Some p \<Rightarrow> Ret (p, s1) | None \<Rightarrow> Hang))"

text \<open>The byte loops of \<^verbatim>\<open>memcpy\<close> and \<^verbatim>\<open>strnlen\<close> over virtual addresses.\<close>

fun vmemcpy :: "nat \<Rightarrow> u32 \<Rightarrow> u32 \<Rightarrow> 'a ktask_scheme \<Rightarrow> 'a ktask_scheme kres" where
  "vmemcpy 0 dst src s = Ret s"
| "vmemcpy (Suc n) dst src s =
     kbind (kaccess False src s) (\<lambda>(p, s1).
       let b = mem s1 p
       in kbind (kaccess True dst s1) (\<lambda>(q, s2).
            vmemcpy n (dst + 1) (src + 1) (s2\<lparr>mem := (mem s2)(q := b)\<rparr>)))"

fun vstrnlen :: "nat \<Rightarrow> nat \<Rightarrow> u32 \<Rightarrow> 'a ktask_scheme \<Rightarrow> (nat \<times> 'a ktask_scheme) kres" where
  "vstrnlen 0 cnt src s = Ret (cnt, s)"
| "vstrnlen (Suc n) cnt src s =
     kbind (kaccess False src s) (\<lambda>(p, s1).
       if mem s1 p = 0 then Ret (cnt, s1) else vstrnlen n (Suc cnt) (src + 1) s1)"

section \<open>Checked copies\<close>

text \<open>The loop runs while \<^verbatim>\<open>start < len\<close>, as in the source.\<close>

definition checkUserMem_body ::
    "ptr \<Rightarrow> u32 \<Rightarrow> bool \<Rightarrow> u32 \<times> 'a kvm_scheme \<Rightarrow> (u32 \<times> 'a kvm_scheme + bool \<times> 'a kvm_scheme) kres" where
  "checkUserMem_body mm len write = (\<lambda>(start, s).
     if \<not> start < len then Ret (Inr (True, s))
     else kbind (find_vma mm start s) (\<lambda>(v, s1).
       if v = NULL \<or> start < vm_start (vmas s1 v) then Ret (Inr (False, s1))
       else let a = vmas s1 v
            in if vm_flags a AND (if write then VMM_WRITE else VMM_READ) = 0 then Ret (Inr (False, s1))
               else if write \<and> vm_flags a AND VMM_STACK \<noteq> 0 \<and> start < vm_start a + PGSIZE then Ret (Inr (False, s1))
               else Ret (Inl (vm_end a, s1))))"

definition checkUserMem :: "ptr \<Rightarrow> u32 \<Rightarrow> u32 \<Rightarrow> bool \<Rightarrow> 'a kvm_scheme \<Rightarrow> (bool \<times> 'a kvm_scheme) kres" where
  "checkUserMem mm addr len write s =
     (if mm \<noteq> NULL
      then if \<not> isUserCanAccess addr (addr + len) then Ret (False, s)
           else kwhile (checkUserMem_body mm len write) (addr, s)
      else Ret (isKernelCanAccess addr (addr + len), s))"

definition copyFromUser :: "ptr \<Rightarrow> u32 \<Rightarrow> u32 \<Rightarrow> u32 \<Rightarrow> bool \<Rightarrow> 'a ktask_scheme \<Rightarrow> (bool \<times> 'a ktask_scheme) kres" where
  "copyFromUser mm dst src len writable s =
     kbind (checkUserMem mm src len writable s) (\<lambda>(ok, s1).
       if \<not> ok then Ret (False, s1)
       else kbind (vmemcpy (unat len) dst src s1) (\<lambda>s2. Ret (True, s2)))"

definition copyToUser :: "ptr \<Rightarrow> u32 \<Rightarrow> u32 \<Rightarrow> u32 \<Rightarrow> 'a ktask_scheme \<Rightarrow> (bool \<times> 'a ktask_scheme) kres" where
  "copyToUser mm dst src len s =
     kbind (checkUserMem mm dst len True s) (\<lambda>(ok, s1).
       if \<not> ok then Ret (False, s1)
       else kbind (vmemcpy (unat len) dst src s1) (\<lambda>s2. Ret (True, s2)))"

definition copyLegalStr_body ::
    "ptr \<Rightarrow> u32 \<times> u32 \<times> u32 \<times> u32 \<times> 'a ktask_scheme \<Rightarrow>
     (u32 \<times> u32 \<times> u32 \<times> u32 \<times> 'a ktask_scheme + bool \<times> 'a ktask_scheme) kres" where
  "copyLegalStr_body mm = (\<lambda>(dst, src, maxn, part0, s).
     let part = (if maxn < part0 then maxn else part0)
     in kbind (checkUserMem mm src part False s) (\<lambda>(ok, s1).
          if \<not> ok then Ret (Inr (False, s1))
          else kbind (vstrnlen (unat part) 0 src s1) (\<lambda>(alen, s2).
            if alen < unat part
            then kbind (vmemcpy (alen + 1) dst src s2) (\<lambda>s3. Ret (Inr (True, s3)))
            else if part = maxn then Ret (Inr (False, s2))
            else kbind (vmemcpy (unat part) dst src s2) (\<lambda>s3.
                   Ret (Inl (dst + part, src + part, maxn - part, PGSIZE, s3))))))"

definition copyLegalStr :: "ptr \<Rightarrow> u32 \<Rightarrow> u32 \<Rightarrow> u32 \<Rightarrow> 'a ktask_scheme \<Rightarrow> (bool \<times> 'a ktask_scheme) kres" where
  "copyLegalStr mm dst src maxn s =
     kwhile (copyLegalStr_body mm) (dst, src, maxn, ROUNDDOWN (src + PGSIZE) PGSIZE - src, s)"

section \<open>Correctness of the fault handler\<close>

text \<open>The accesses an area admits, by the two low bits of the error code.\<close>

definition fault_allowed :: "u32 \<Rightarrow> u32 \<Rightarrow> bool" where
  "fault_allowed e flags \<longleftrightarrow>
     (if e AND 3 = 0 then flags AND (VMM_READ OR VMM_EXEC) \<noteq> 0 else e AND 3 \<noteq> 1 \<and> flags AND VMM_WRITE \<noteq> 0)"

lemma same_page_ROUNDDOWN: "same_page (ROUNDDOWN va PGSIZE) va"
proof -
  have "(unat va - unat va mod 4096) div 4096 = unat va div 4096"
    by (simp add: minus_mod_eq_mult_div)
  then have "unat (drop_bit 12 (ROUNDDOWN va PGSIZE)) = unat (drop_bit 12 va)"
    by (simp add: drop_bit_eq_div unat_div_distrib unat_ROUNDDOWN)
  then show ?thesis unfolding same_page_def by (simp only: word_unat_eq_iff)
qed

lemma ROUNDDOWN_le: "ROUNDDOWN va n \<le> va"
  by (simp add: word_le_nat_alt unat_ROUNDDOWN)

lemma kframe_kvm:
  fixes s t :: "'a kvm_scheme"
  assumes "kframe s t"
  shows "mms t = mms s" "vmas t = vmas s" "VmaLinks t = VmaLinks s"
proof -
  have t: "t = s\<lparr>Pages := Pages t, FreeLinks := FreeLinks t, free_page_count := free_page_count t, mem := mem t, tlb := tlb t\<rparr>"
    using assms by (simp add: kframe_def)
  show "mms t = mms s" "vmas t = vmas s" "VmaLinks t = VmaLinks s" by (subst t, simp)+
qed

lemma upd_mm_kmach [simp]:
  "rd32 (upd_mm m f s) a = rd32 s a" "uspace (upd_mm m f s) d H = uspace s d H" "free_set (upd_mm m f s) = free_set s"
  "translate (upd_mm m f s) d x = translate s d x" "pte_at (upd_mm m f s) d i j = pte_at s d i j"
proof -
  have w: "rd32 (upd_mm m f s) a = rd32 s a" for a by (simp add: rd32_def upd_mm_def)
  then have p: "pword (upd_mm m f s) = pword s" by (intro ext) (simp add: pword_def w del: rd32_slot)
  have t: "pte_at (upd_mm m f s) = pte_at s" by (intro ext) (simp add: pte_at_def p)
  have fs: "free_set (upd_mm m f s) = free_set s" "managed_set (upd_mm m f s) = managed_set s"
    "PageCount (upd_mm m f s) = PageCount s" "page_ref (upd_mm m f s) = page_ref s"
    by (simp_all add: free_set_def managed_set_def upd_mm_def fun_eq_iff page_ref_def)
  have inv: "pmm_inv (upd_mm m f s) = pmm_inv s" by (simp add: pmm_inv_def pmm_rel_def upd_mm_def)
  show "rd32 (upd_mm m f s) a = rd32 s a" by (rule w)
  show "free_set (upd_mm m f s) = free_set s" by (rule fs)
  show "uspace (upd_mm m f s) d H = uspace s d H"
    by (simp add: uspace_def tables_ok_def mapped_ok_def mappings_def p t fs inv)
  show "translate (upd_mm m f s) d x = translate s d x" "pte_at (upd_mm m f s) d i j = pte_at s d i j"
    by (simp_all add: translate_def t)
qed

lemma get_pte_frees:
  assumes us: "uspace s d H" and run: "get_pte (kva d) va True s = Ret (p, s')"
  shows "\<exists>f. free_set s - {f} \<subseteq> free_set s'"
proof (cases "present (pword s d (unat (PGD_INDEX va)))")
  case True
  then have "s' = s" using get_pte_present [OF us, of va True] run by simp
  then show ?thesis by blast
next
  case absent: False
  show ?thesis
  proof (cases "free_set s = {}")
    case False
    obtain f t where "get_pte (kva d) va True s = Ret (slot f (unat (PTE_INDEX va)), t)" "free_set t = free_set s - {f}"
      using get_pte_alloc [OF us absent False] by blast
    then show ?thesis using run by auto
  qed simp
qed

lemma do_pgfault_refused:
  assumes inv: "vm_inv s mm vs" and no: "\<not> (\<exists>v \<in> set vs. in_vma s cr2 v \<and> fault_allowed (err_code fr) (vm_flags (vmas s v)))"
  shows "\<exists>s'. do_pgfault mm fr cr2 s = Ret (- E_INVAL, s') \<and> vm_inv s' mm vs \<and> mem s' = mem s \<and> free_set s' = free_set s"
proof -
  obtain v where v: "find_vma mm cr2 s = Ret (v, if v \<noteq> NULL then upd_mm mm (\<lambda>m. m\<lparr>vma_cache := v\<rparr>) s else s)"
    "if \<exists>a \<in> set vs. in_vma s cr2 a then v \<in> set vs \<and> in_vma s cr2 v else v = NULL"
    using find_vma_eq [OF inv] by blast
  have nul: "NULL \<notin> set vs" using inv by (simp add: vm_inv_def)
  show ?thesis
  proof (cases "\<exists>a \<in> set vs. in_vma s cr2 a")
    case True
    have i: "v \<in> set vs" "in_vma s cr2 v" using v(2) True by simp_all
    have vn: "v \<noteq> NULL" using i(1) nul by metis
    let ?s = "upd_mm mm (\<lambda>m. m\<lparr>vma_cache := v\<rparr>) s"
    have f: "find_vma mm cr2 s = Ret (v, ?s)" using v(1) vn by simp
    have "\<not> fault_allowed (err_code fr) (vm_flags (vmas s v))" using no i by blast
    then have "do_pgfault mm fr cr2 s = Ret (- E_INVAL, ?s)"
      using vn i(2) by (auto simp: do_pgfault_def f fault_allowed_def Let_def in_vma_def split: if_splits)
    moreover have "mem ?s = mem s" by (simp add: upd_mm_def)
    ultimately show ?thesis using vm_inv_cache [OF inv i(1)] by (intro exI [of _ ?s]) simp
  next
    case False
    then have "find_vma mm cr2 s = Ret (NULL, s)" using v by simp
    then have "do_pgfault mm fr cr2 s = Ret (- E_INVAL, s)" by (simp add: do_pgfault_def Let_def)
    then show ?thesis using inv by auto
  qed
qed

lemma do_pgfault_maps:
  fixes s :: "'a kvm_scheme"
  assumes inv: "vm_inv s mm vs" and d: "pgdir (mms s mm) = kva d" and us: "uspace s d Map.empty"
    and va: "cr2 < KERNEL_BASE" and v: "v \<in> set vs" "in_vma s cr2 v" "fault_allowed (err_code fr) (vm_flags (vmas s v))"
    and absent: "pte_at s d (unat (PGD_INDEX cr2)) (unat (PTE_INDEX cr2)) = 0"
    and free: "p \<in> free_set s" "q \<in> free_set s" "p \<noteq> q"
  shows "\<exists>page s'. do_pgfault mm fr cr2 s = Ret (0, s') \<and> vm_inv s' mm vs \<and> uspace s' d Map.empty \<and> page \<in> free_set s \<and>
    (\<forall>x. translate s' d x = (if same_page x cr2 then Some (page2pa page OR PG_OFFSET x) else translate s d x))"
proof -
  let ?s = "upd_mm mm (\<lambda>m. m\<lparr>vma_cache := v\<rparr>) s" and ?a = "ROUNDDOWN cr2 PGSIZE"
  let ?i = "unat (PGD_INDEX cr2)" and ?j = "unat (PTE_INDEX cr2)"
  have ix: "PGD_INDEX ?a = PGD_INDEX cr2" "PTE_INDEX ?a = PTE_INDEX cr2"
    using index_eq_iff [of ?a cr2] same_page_ROUNDDOWN by blast+
  have vn: "v \<noteq> NULL" using inv v(1) unfolding vm_inv_def by metis
  obtain w where w: "find_vma mm cr2 s = Ret (w, if w \<noteq> NULL then upd_mm mm (\<lambda>m. m\<lparr>vma_cache := w\<rparr>) s else s)"
    "if \<exists>a \<in> set vs. in_vma s cr2 a then w \<in> set vs \<and> in_vma s cr2 w else w = NULL"
    using find_vma_eq [OF inv] by blast
  have "\<exists>a \<in> set vs. in_vma s cr2 a" using v(1,2) by blast
  then have "w \<in> set vs" "in_vma s cr2 w" using w(2) by simp_all
  then have "w = v" using vma_unique [OF inv _ v(1) _ v(2)] by blast
  then have fv: "find_vma mm cr2 s = Ret (v, ?s)" using w(1) vn by simp
  have us1: "uspace ?s d Map.empty" using us by simp
  have f1: "free_set ?s \<noteq> {}" using free by auto
  obtain s2 where s2: "get_pte (kva d) ?a True ?s = Ret (slot (frame_of (pword s2 d ?i)) ?j, s2)" "uspace s2 d Map.empty"
    "kframe ?s s2" "present (pword s2 d ?i)" "free_set s2 \<subseteq> free_set ?s"
    "\<forall>a < 1024. \<forall>b < 1024. pte_at s2 d a b = pte_at ?s d a b"
    using get_pte_create [OF us1 refl, of ?a] f1 ix by auto
  have "pte_at s2 d ?i ?j = 0" using s2(6) absent index_bounds [of cr2] by simp
  then have p2: "pword s2 (frame_of (pword s2 d ?i)) ?j = 0" using s2(4) by (simp add: pte_at_def)
  have nn: "slot (frame_of (pword s2 d ?i)) ?j \<noteq> NULL"
    using uspace_tables(2) [OF s2(2) index_bounds(1) s2(4)] index_bounds(2) by (intro slot_not_null)
  obtain f where "free_set ?s - {f} \<subseteq> free_set s2" using get_pte_frees [OF us1 s2(1)] by blast
  then have f2: "free_set s2 \<noteq> {}" using free by (metis Diff_iff empty_iff singletonD subsetD upd_mm_kmach(3))
  let ?perm = "PTE_PAGE_USER OR (if vm_flags (vmas s v) AND VMM_WRITE \<noteq> 0 then PTE_PAGE_WRITEABLE else 0)"
  have "?a < KERNEL_BASE" "?perm < 4096" using ROUNDDOWN_le [of cr2 PGSIZE] va by auto
  from pgdir_alloc_page_ok [OF s2(2) this]
  obtain r s3 where s3: "pgdir_alloc_page (kva d) ?a ?perm s2 = Ret (r, s3)" "uspace s3 d Map.empty" "kframe s2 s3"
    "case r of None \<Rightarrow> (\<forall>x. translate s3 d x = translate s2 d x) \<and> free_set s3 = free_set s2 \<and>
         (free_set s2 = {} \<or> \<not> present (pword s2 d (unat (PGD_INDEX ?a))) \<and> (\<exists>p. free_set s2 = {p}))
     | Some page \<Rightarrow> page \<in> free_set s2 \<and> page_ref s3 page = 1 \<and> (\<forall>x. translate s3 d x =
            (if same_page x ?a then Some (page2pa page OR PG_OFFSET x) else translate s2 d x))"
    by blast
  obtain page where page: "r = Some page" "page \<in> free_set s2"
    "\<forall>x. translate s3 d x = (if same_page x ?a then Some (page2pa page OR PG_OFFSET x) else translate s2 d x)"
    using s3(4) f2 s2(4) ix by (cases r) auto
  have "do_pgfault mm fr cr2 s = Ret (0, s3)"
    using v(2,3) vn nn p2 s2(1) s3(1) page(1) d
    by (auto simp: do_pgfault_def fv fault_allowed_def Let_def in_vma_def split: if_splits)
  moreover have "vm_inv s3 mm vs"
    using vm_inv_cong [OF vm_inv_cache [OF inv v(1)]] kframe_kvm [OF kframe_trans [OF s2(3) s3(3)]] by blast
  moreover have "translate s2 d x = translate s d x" for x
    using s2(6) index_bounds [of x] by (simp add: translate_def)
  moreover have "same_page x ?a = same_page x cr2" for x
    using same_page_ROUNDDOWN [of cr2] by (simp add: same_page_def)
  moreover have "page \<in> free_set s" using page(2) s2(5) by auto
  ultimately show ?thesis using s3(2) page(3) by (intro exI [of _ page] exI [of _ s3]) simp
qed

section \<open>Properties\<close>

text \<open>
  C17: demand paging.  A fault on an unmapped page of an area that admits the access maps a free page
  there and at no other address, so that the access succeeds when it is restarted; a fault outside
  every area, or one the area does not admit, is refused with \<^verbatim>\<open>-E_INVAL\<close> and neither memory nor the
  free pages change.
\<close>

theorem do_pgfault_correct:
  fixes s :: "'a kvm_scheme"
  assumes "vm_inv s mm vs" and "pgdir (mms s mm) = kva d" and "uspace s d Map.empty" and "cr2 < KERNEL_BASE"
    and "pte_at s d (unat (PGD_INDEX cr2)) (unat (PTE_INDEX cr2)) = 0"
    and "p \<in> free_set s" and "q \<in> free_set s" and "p \<noteq> q"
  shows "if \<exists>v \<in> set vs. in_vma s cr2 v \<and> fault_allowed (err_code fr) (vm_flags (vmas s v))
    then \<exists>page s'. do_pgfault mm fr cr2 s = Ret (0, s') \<and> vm_inv s' mm vs \<and> uspace s' d Map.empty \<and> page \<in> free_set s \<and>
      (\<forall>x. translate s' d x = (if same_page x cr2 then Some (page2pa page OR PG_OFFSET x) else translate s d x))
    else \<exists>s'. do_pgfault mm fr cr2 s = Ret (- E_INVAL, s') \<and> vm_inv s' mm vs \<and> mem s' = mem s \<and> free_set s' = free_set s"
proof (cases "\<exists>v \<in> set vs. in_vma s cr2 v \<and> fault_allowed (err_code fr) (vm_flags (vmas s v))")
  case True
  then obtain v where v: "v \<in> set vs" "in_vma s cr2 v" "fault_allowed (err_code fr) (vm_flags (vmas s v))" by blast
  show ?thesis unfolding if_P [OF True] by (rule do_pgfault_maps [OF assms(1-4) v assms(5-8)])
next
  case False
  show ?thesis unfolding if_not_P [OF False] by (rule do_pgfault_refused [OF assms(1) False])
qed

lemma sample_kvm_uspace: "uspace sample_kvm 3 Map.empty"
proof -
  have w: "pword sample_kvm f i = 0" for f i
    by (simp add: pword_def rd32_def ld32_def sample_kvm_sel sample_kmach_def del: rd32_slot)
  have "page_ref sample_kvm f = 0" for f
    by (simp add: page_ref_def sample_kvm_sel sample_kmach_def sample_pmm_def)
  then show ?thesis
    using sample_kvm_pmm by (simp add: uspace_def tables_ok_def mappings_def pte_at_def w present_def sample_kvm_sel)
qed

theorem do_pgfault_correct_witness:
  "\<exists>page s'. do_pgfault 0xC0001000 (kernel_fault_frame True) 0x812345 sample_kvm = Ret (0, s') \<and>
     translate s' 3 0x812345 = Some (page2pa page OR 0x345)"
proof -
  have d: "pgdir (mms sample_kvm 0xC0001000) = kva 3" by (simp add: sample_kvm_sel kva_def page2pa_def page2pagen_def)
  have a: "pte_at sample_kvm 3 (unat (PGD_INDEX 0x812345)) (unat (PTE_INDEX 0x812345)) = 0"
    by (simp add: pte_at_def pword_def rd32_def ld32_def sample_kvm_sel sample_kmach_def del: rd32_slot)
  have t: "\<exists>v \<in> set [0xC0002000]. in_vma sample_kvm 0x812345 v \<and>
      fault_allowed (err_code (kernel_fault_frame True)) (vm_flags (vmas sample_kvm v))"
    by (simp add: in_vma_def sample_kvm_sel fault_allowed_def kernel_fault_frame_def)
  have f: "4 \<in> free_set sample_kvm" "5 \<in> free_set sample_kvm" "4 \<noteq> (5 :: nat)" using sample_kvm_pmm(2) by simp_all
  obtain page s' where p: "do_pgfault 0xC0001000 (kernel_fault_frame True) 0x812345 sample_kvm = Ret (0, s')"
    "\<forall>x. translate s' 3 x = (if same_page x 0x812345 then Some (page2pa page OR PG_OFFSET x) else translate sample_kvm 3 x)"
    using do_pgfault_correct [OF sample_kvm_inv d sample_kvm_uspace _ a f, where fr = "kernel_fault_frame True",
        unfolded if_P [OF t]] by auto
  then have "translate s' 3 0x812345 = Some (page2pa page OR 0x345)"
    by (simp add: same_page_def PG_OFFSET_def)
  then show ?thesis using p(1) by blast
qed

text \<open>
  \<^verbatim>\<open>checkUserMem\<close> for an address space accepts only ranges inside user space, so that no checked copy
  reaches the kernel.  It accepts every such range that is not longer than its own address, without
  looking at the areas at all: the loop compares the address with the length, not with the end.
\<close>

theorem checkUserMem_range_only:
  assumes "mm \<noteq> NULL" and "len \<le> addr"
  shows "checkUserMem mm addr len write s = Ret (isUserCanAccess addr (addr + len), s)"
proof (cases "isUserCanAccess addr (addr + len)")
  case True
  have "\<not> addr < len" using assms(2) by simp
  then have "kwhile (checkUserMem_body mm len write) (addr, s) = Ret (True, s)"
    by (subst kwhile_unfold) (simp add: checkUserMem_body_def)
  then show ?thesis using assms(1) True by (simp add: checkUserMem_def)
qed (use assms(1) in \<open>simp add: checkUserMem_def\<close>)

text \<open>The sample address space has an area up to 0x900000 only; a range beyond it is accepted all the same.\<close>

theorem checkUserMem_range_only_witness:
  "checkUserMem 0xC0001000 0x1000000 100 True sample_kvm = Ret (True, sample_kvm)"
  using checkUserMem_range_only [of "0xC0001000" 100 "0x1000000" True sample_kvm] by (simp add: isUserCanAccess_def)

end
