(* ===== verification/Console.thy ===== *)
theory Console
  imports Strings
begin

text \<open>
  The text console, \<^verbatim>\<open>kern/driver/console.c\<close>: 25 lines of 80 cells in video memory, a software cursor
  and the cursor registers of the display.  Cells are indexed from the start of video memory; an index of 2000
  or more lies outside the screen.
\<close>

record console =
  VideoAddr :: "nat \<Rightarrow> u16"
  CursorX :: u8
  CursorY :: u8
  vga_cursor :: u16

abbreviation (input) TC_black :: u16 where "TC_black \<equiv> 0"
abbreviation (input) TC_white :: u16 where "TC_white \<equiv> 7"

definition blank :: u16 where
  "blank = 32 OR push_bit 8 (push_bit 4 TC_black OR (TC_white AND 0x0F))"

text \<open>The two register pairs of the display receive the high and the low byte of the location.\<close>

definition moveCursor :: "console \<Rightarrow> console" where
  "moveCursor c = c\<lparr>vga_cursor := ucast (CursorY c) * 80 + ucast (CursorX c)\<rparr>"

definition consoleClear :: "console \<Rightarrow> console" where
  "consoleClear c =
     moveCursor (c\<lparr>VideoAddr := (\<lambda>i. if i < 80 * 25 then blank else VideoAddr c i), CursorX := 0, CursorY := 0\<rparr>)"

fun scroll_up :: "nat list \<Rightarrow> (nat \<Rightarrow> u16) \<Rightarrow> nat \<Rightarrow> u16" where
  "scroll_up [] v = v"
| "scroll_up (i # is) v = scroll_up is (v(i := v (i + 80)))"

fun fill_blank :: "nat list \<Rightarrow> (nat \<Rightarrow> u16) \<Rightarrow> nat \<Rightarrow> u16" where
  "fill_blank [] v = v"
| "fill_blank (i # is) v = fill_blank is (v(i := blank))"

definition consoleScroll :: "console \<Rightarrow> console" where
  "consoleScroll c =
     (if 25 \<le> CursorY c
      then c\<lparr>VideoAddr := fill_blank [24 * 80..<25 * 80] (scroll_up [0..<24 * 80] (VideoAddr c)), CursorY := 24\<rparr>
      else c)"

text \<open>\<^verbatim>\<open>char\<close> is signed: bytes from 0x80 on are below the blank.\<close>

definition console_char :: "u8 \<Rightarrow> u16 \<Rightarrow> console \<Rightarrow> console" where
  "console_char ch color c =
     (if ch = 8 \<and> CursorX c \<noteq> 0 then c\<lparr>CursorX := CursorX c - 1\<rparr>
      else if ch = 9 then c\<lparr>CursorX := ucast ((ucast (CursorX c) + 8) AND NOT 7 :: u32)\<rparr>
      else if ch = 13 then c\<lparr>CursorX := 0\<rparr>
      else if ch = 10 then c\<lparr>CursorX := 0, CursorY := CursorY c + 1\<rparr>
      else if 32 \<le> sint ch
      then c\<lparr>VideoAddr := (VideoAddr c)(unat (CursorY c) * 80 + unat (CursorX c) := ucast ch OR color), CursorX := CursorX c + 1\<rparr>
      else c)"

definition consolePutcColor :: "u8 \<Rightarrow> u16 \<Rightarrow> u16 \<Rightarrow> console \<Rightarrow> console" where
  "consolePutcColor ch back fore c =
     (let color = push_bit 8 (push_bit 4 back OR (fore AND 0x0f));
          c1 = console_char ch color c;
          c2 = (if 80 \<le> CursorX c1 then c1\<lparr>CursorX := 0, CursorY := CursorY c1 + 1\<rparr> else c1)
      in moveCursor (consoleScroll c2))"

definition consolePutc :: "u8 \<Rightarrow> console \<Rightarrow> console" where
  "consolePutc ch c = consolePutcColor ch TC_black TC_white c"

partial_function (option) consoleWriteStrColor :: "memory \<Rightarrow> ptr \<Rightarrow> u16 \<Rightarrow> u16 \<Rightarrow> console \<Rightarrow> console option" where
  "consoleWriteStrColor m str back fore c =
     (if m str \<noteq> 0 then consoleWriteStrColor m (str + 1) back fore (consolePutcColor (m str) back fore c) else Some c)"

definition consoleWriteStr :: "memory \<Rightarrow> ptr \<Rightarrow> console \<Rightarrow> console option" where
  "consoleWriteStr m str c = consoleWriteStrColor m str TC_black TC_white c"

section \<open>Numbers\<close>

definition index_char :: "u32 \<Rightarrow> u8" where
  "index_char d = [48, 49, 50, 51, 52, 53, 54, 55, 56, 57, 65, 66, 67, 68, 69, 70] ! unat d"

text \<open>The loop that stores the digits, least significant first, and the loop that reverses them.\<close>

partial_function (option) dec_digits :: "u32 \<Rightarrow> u32 \<Rightarrow> ptr \<Rightarrow> nat \<Rightarrow> memory \<Rightarrow> (nat \<times> memory) option" where
  "dec_digits radix unum str i m =
     (let m' = m(str + of_nat i := index_char (unum mod radix)); unum' = unum div radix
      in if unum' \<noteq> 0 then dec_digits radix unum' str (Suc i) m' else Some (Suc i, m'))"

fun dec_reverse :: "ptr \<Rightarrow> nat \<Rightarrow> nat \<Rightarrow> nat list \<Rightarrow> memory \<Rightarrow> memory" where
  "dec_reverse str i k [] m = m"
| "dec_reverse str i k (j # js) m =
     (let a = str + of_nat j; b = str + of_nat (i - 1 + k - j)
      in dec_reverse str i k js (m(a := m b, b := m a)))"

definition dec2str :: "int \<Rightarrow> ptr \<Rightarrow> u32 \<Rightarrow> memory \<Rightarrow> memory option" where
  "dec2str num str radix m =
     (let neg = (radix = 10 \<and> num < 0);
          unum = of_int (if neg then - num else num);
          (i0, m0) = (if neg then (1, m(str := 45)) else (0, m))
      in case dec_digits radix unum str i0 m0 of
           None \<Rightarrow> None
         | Some (i, m1) \<Rightarrow>
             let m2 = m1(str + of_nat i := 0);
                 k = (if m2 str = 45 then 1 else 0)
             in Some (dec_reverse str i k [k..<(i - 1) div 2 + 1] m2))"

text \<open>\<open>result\<close> is the address of the local buffer.\<close>

definition consoleWriteDec :: "memory \<Rightarrow> ptr \<Rightarrow> u32 \<Rightarrow> u16 \<Rightarrow> u16 \<Rightarrow> console \<Rightarrow> console option" where
  "consoleWriteDec m result n back fore c =
     (case dec2str (sint n) result 10 (memset_loop result 0 32 m) of
        None \<Rightarrow> None
      | Some m' \<Rightarrow> consoleWriteStrColor m' result back fore c)"

section \<open>The screen\<close>

definition console_ok :: "console \<Rightarrow> bool" where
  "console_ok c \<longleftrightarrow> CursorX c < 80 \<and> CursorY c < 25"

definition cursor_pos :: "console \<Rightarrow> nat" where
  "cursor_pos c = unat (CursorY c) * 80 + unat (CursorX c)"

definition scrolled :: "(nat \<Rightarrow> u16) \<Rightarrow> nat \<Rightarrow> u16" where
  "scrolled v = (\<lambda>i. if i < 1920 then v (i + 80) else if i < 2000 then blank else v i)"

lemma scroll_up_eq: "scroll_up [a..<a + n] v i = (if a \<le> i \<and> i < a + n then v (i + 80) else v i)"
proof (induction n arbitrary: a v)
  case (Suc n)
  have eq: "[a..<a + Suc n] = a # [Suc a..<Suc a + n]" by (simp add: upt_conv_Cons del: upt_Suc)
  show ?case unfolding eq scroll_up.simps Suc.IH by auto
qed auto

lemma fill_blank_eq: "fill_blank is v i = (if i \<in> set is then blank else v i)"
  by (induction "is" arbitrary: v) auto

lemma scroll_eq: "fill_blank [24 * 80..<25 * 80] (scroll_up [0..<24 * 80] v) = scrolled v"
proof
  fix i
  show "fill_blank [24 * 80..<25 * 80] (scroll_up [0..<24 * 80] v) i = scrolled v i"
    using scroll_up_eq [of 0 1920 v i] by (simp add: scrolled_def fill_blank_eq set_upt del: upt_Suc upt_rec_numeral)
qed

lemma consoleScroll_eq:
  "consoleScroll c = (if 25 \<le> CursorY c then c\<lparr>VideoAddr := scrolled (VideoAddr c), CursorY := 24\<rparr> else c)"
  unfolding consoleScroll_def scroll_eq ..

lemma unat_u8_less: "unat (x :: u8) < 256"
  using unsigned_less [of x] by simp

lemma tab_stop: "(x :: u8) < 80 \<Longrightarrow> unat (ucast ((ucast x + 8) AND NOT 7 :: u32) :: u8) = 8 * (unat x div 8) + 8"
proof -
  assume "x < 80"
  then have x: "unat x < 80" by (simp add: word_less_nat_alt)
  have m: "(7 :: u32) = mask 3" by (simp add: mask_eq_exp_minus_1)
  have u: "unat (ucast x + 8 :: u32) = unat x + 8" using x by (simp add: unat_word_ariths unsigned_ucast_eq take_bit_eq_mod)
  have "unat ((ucast x + 8) AND NOT 7 :: u32) = 8 * ((unat x + 8) div 8)"
    unfolding m and_not_mask_u32 using x u
    by (simp add: push_bit_eq_mult drop_bit_eq_div unat_word_ariths unat_div_distrib)
  then have "unat (ucast ((ucast x + 8) AND NOT 7 :: u32) :: u8) = 8 * ((unat x + 8) div 8) mod 256"
    by (simp add: unsigned_ucast_eq take_bit_eq_mod)
  moreover have "8 * ((unat x + 8) div 8) < 256" using x by (simp add: less_mult_imp_div_less)
  moreover have "(unat x + 8) div 8 = unat x div 8 + 1" by simp
  ultimately show ?thesis by simp
qed

text \<open>The column may reach 80 before it wraps, the line 25 before the screen scrolls.\<close>

lemma console_char_range:
  assumes "console_ok c"
  shows "unat (CursorX (console_char ch color c)) \<le> 80" "unat (CursorY (console_char ch color c)) \<le> 25"
    "25 \<le> unat (CursorY (console_char ch color c)) \<longrightarrow> unat (CursorX (console_char ch color c)) < 80"
proof -
  have x: "unat (CursorX c) < 80" "unat (CursorY c) < 25" using assms by (simp_all add: console_ok_def word_less_nat_alt)
  have d: "unat (CursorX c - 1) < 80" if "CursorX c \<noteq> 0"
    using that x by (simp add: unat_sub word_le_nat_alt unat_gt_0 Suc_le_eq)
  have i: "unat (CursorX c + 1) = Suc (unat (CursorX c))" "unat (CursorY c + 1) = Suc (unat (CursorY c))"
    using x by (simp_all add: unat_word_ariths)
  have "unat (CursorX c) div 8 < 10" using x(1) by simp
  then have t: "8 * (unat (CursorX c) div 8) + 8 \<le> 80" by linarith
  have tb: "unat (ucast ((ucast (CursorX c) + 8) AND NOT 7 :: u32) :: u8) = 8 * (unat (CursorX c) div 8) + 8"
    using tab_stop [of "CursorX c"] assms by (simp add: console_ok_def)
  show "unat (CursorX (console_char ch color c)) \<le> 80"
    using x d i t tb by (auto simp: console_char_def simp del: not_less)
  show "unat (CursorY (console_char ch color c)) \<le> 25"
    using x i by (auto simp: console_char_def)
  show "25 \<le> unat (CursorY (console_char ch color c)) \<longrightarrow> unat (CursorX (console_char ch color c)) < 80"
    using x i by (auto simp: console_char_def)
qed

section \<open>Properties\<close>

lemma unat_vga: "console_ok c \<Longrightarrow> unat (vga_cursor (moveCursor c)) = cursor_pos c"
proof -
  assume "console_ok c"
  then have x: "unat (CursorX c) < 80" "unat (CursorY c) < 25" by (simp_all add: console_ok_def word_less_nat_alt)
  then have "unat (CursorY c) * 80 + unat (CursorX c) < 65536" by simp
  then show ?thesis using x
    by (simp add: moveCursor_def cursor_pos_def unat_word_ariths unsigned_ucast_eq take_bit_eq_mod)
qed

lemma putc_ok:
  assumes "console_ok c"
  shows "console_ok (consolePutcColor ch back fore c)"
    "unat (vga_cursor (consolePutcColor ch back fore c)) = cursor_pos (consolePutcColor ch back fore c)"
proof -
  define c1 where "c1 = console_char ch (push_bit 8 (push_bit 4 back OR (fore AND 0x0f))) c"
  define c2 where "c2 = (if 80 \<le> CursorX c1 then c1\<lparr>CursorX := 0, CursorY := CursorY c1 + 1\<rparr> else c1)"
  note r = console_char_range [OF assms, of ch "push_bit 8 (push_bit 4 back OR (fore AND 0x0f))", folded c1_def]
  have "unat (CursorX c2) < 80" by (simp add: c2_def word_le_nat_alt)
  then have "console_ok (consoleScroll c2)"
    by (auto simp: consoleScroll_eq console_ok_def word_less_nat_alt word_le_nat_alt)
  moreover have e: "consolePutcColor ch back fore c = moveCursor (consoleScroll c2)"
    by (simp add: consolePutcColor_def c1_def c2_def Let_def)
  moreover have "cursor_pos (moveCursor x) = cursor_pos x" "console_ok (moveCursor x) = console_ok x" for x
    by (simp_all add: cursor_pos_def console_ok_def moveCursor_def)
  ultimately show "console_ok (consolePutcColor ch back fore c)"
    "unat (vga_cursor (consolePutcColor ch back fore c)) = cursor_pos (consolePutcColor ch back fore c)"
    using unat_vga by simp_all
qed

lemma putc_cells: "console_ok c \<Longrightarrow> 2000 \<le> i \<Longrightarrow> VideoAddr (consolePutcColor ch back fore c) i = VideoAddr c i"
proof -
  assume a: "console_ok c" "2000 \<le> i"
  then have "unat (CursorY c) * 80 + unat (CursorX c) \<noteq> i" by (auto simp: console_ok_def word_less_nat_alt)
  then have "VideoAddr (console_char ch color c) i = VideoAddr c i" for color by (simp add: console_char_def)
  then show ?thesis using a(2)
    by (simp add: consolePutcColor_def Let_def moveCursor_def consoleScroll_eq scrolled_def)
qed

lemma putc_printable:
  assumes "console_ok c" "32 \<le> sint ch" "v = (VideoAddr c)(cursor_pos c := ucast ch OR push_bit 8 (push_bit 4 back OR (fore AND 0x0f)))"
  shows "cursor_pos c < 1999 \<longrightarrow> VideoAddr (consolePutcColor ch back fore c) = v \<and> cursor_pos (consolePutcColor ch back fore c) = Suc (cursor_pos c)"
    "cursor_pos c = 1999 \<longrightarrow> VideoAddr (consolePutcColor ch back fore c) = scrolled v \<and> cursor_pos (consolePutcColor ch back fore c) = 1920"
proof -
  have x: "unat (CursorX c) < 80" "unat (CursorY c) < 25" using assms(1) by (simp_all add: console_ok_def word_less_nat_alt)
  have i: "unat (CursorX c + 1) = Suc (unat (CursorX c))" "unat (CursorY c + 1) = Suc (unat (CursorY c))"
    using x by (simp_all add: unat_word_ariths)
  have ch: "ch \<noteq> 8" "ch \<noteq> 9" "ch \<noteq> 13" "ch \<noteq> 10" using assms(2) by auto
  define c1 where "c1 = console_char ch (push_bit 8 (push_bit 4 back OR (fore AND 0x0f))) c"
  have c1: "VideoAddr c1 = v" "CursorX c1 = CursorX c + 1" "CursorY c1 = CursorY c"
    using ch assms(2) by (simp_all add: c1_def console_char_def assms(3) cursor_pos_def)
  have e: "consolePutcColor ch back fore c =
      moveCursor (consoleScroll (if 80 \<le> CursorX c1 then c1\<lparr>CursorX := 0, CursorY := CursorY c1 + 1\<rparr> else c1))"
    unfolding consolePutcColor_def Let_def c1_def ..
  show "cursor_pos c < 1999 \<longrightarrow> VideoAddr (consolePutcColor ch back fore c) = v \<and> cursor_pos (consolePutcColor ch back fore c) = Suc (cursor_pos c)"
    using x i by (auto simp: e c1 moveCursor_def consoleScroll_eq cursor_pos_def word_le_nat_alt)
  show "cursor_pos c = 1999 \<longrightarrow> VideoAddr (consolePutcColor ch back fore c) = scrolled v \<and> cursor_pos (consolePutcColor ch back fore c) = 1920"
    using x i by (auto simp: e c1 moveCursor_def consoleScroll_eq cursor_pos_def word_le_nat_alt)
qed

text \<open>
  C27: whatever character is printed, the cursor stays on the screen, the display's cursor register agrees
  with it and no cell beyond the screen is written; a printable character goes to the cursor, which
  advances by one cell, and at the last cell the screen scrolls up by one line.
\<close>

theorem consolePutcColor_correct:
  assumes "console_ok c"
  shows "console_ok (consolePutcColor ch back fore c) \<and>
    unat (vga_cursor (consolePutcColor ch back fore c)) = cursor_pos (consolePutcColor ch back fore c) \<and>
    (\<forall>i \<ge> 2000. VideoAddr (consolePutcColor ch back fore c) i = VideoAddr c i) \<and>
    (32 \<le> sint ch \<longrightarrow>
      (let v = (VideoAddr c)(cursor_pos c := ucast ch OR push_bit 8 (push_bit 4 back OR (fore AND 0x0f)))
       in if cursor_pos c < 1999
          then VideoAddr (consolePutcColor ch back fore c) = v \<and> cursor_pos (consolePutcColor ch back fore c) = Suc (cursor_pos c)
          else VideoAddr (consolePutcColor ch back fore c) = scrolled v \<and> cursor_pos (consolePutcColor ch back fore c) = 1920))"
proof -
  have last: "cursor_pos c = 1999" if "\<not> cursor_pos c < 1999"
    using assms that by (auto simp: console_ok_def word_less_nat_alt cursor_pos_def)
  show ?thesis unfolding Let_def
  proof (intro conjI impI allI)
    show "console_ok (consolePutcColor ch back fore c)"
      "unat (vga_cursor (consolePutcColor ch back fore c)) = cursor_pos (consolePutcColor ch back fore c)"
      using putc_ok [OF assms] by blast+
    show "VideoAddr (consolePutcColor ch back fore c) i = VideoAddr c i" if "2000 \<le> i" for i
      by (rule putc_cells [OF assms that])
  qed (use putc_printable [OF assms _ refl, of ch "back" fore] last in \<open>auto split: if_split\<close>)
qed

theorem consolePutcColor_correct_witness:
  "console_ok (consolePutcColor 65 0 7 (consoleClear \<lparr>VideoAddr = (\<lambda>_. 0), CursorX = 5, CursorY = 7, vga_cursor = 0\<rparr>))"
  using consolePutcColor_correct [of "consoleClear \<lparr>VideoAddr = (\<lambda>_. 0), CursorX = 5, CursorY = 7, vga_cursor = 0\<rparr>" 65 0 7]
  by (simp add: console_ok_def consoleClear_def moveCursor_def)

end
