(* ===== verification/Inode.thy ===== *)
theory Inode
  imports Bcache_Correct PageFault Console
begin

text \<open>
  Inodes and named devices: \<^verbatim>\<open>kern/fs/vfs/inode.c\<close>, \<^verbatim>\<open>kern/fs/vdev/vdev_inode.c\<close>, \<^verbatim>\<open>kern/fs/vdev/vdev.c\<close> and the part of
  \<^verbatim>\<open>kern/fs/vfs/vfs.c\<close> that lists file systems.  An inode names its table of operations; the tables
  themselves are a record of functions that is an argument of the code which calls through them, so
  that each device and file system supplies its own.  A NULL entry of a table is \<open>None\<close>.
\<close>

abbreviation (input) INODE_OK :: int where "INODE_OK \<equiv> 0"
abbreviation (input) INODE_PNULL :: int where "INODE_PNULL \<equiv> 1"
abbreviation (input) INDOE_NOT_DIR :: int where "INDOE_NOT_DIR \<equiv> 3"
abbreviation (input) INODE_DENIED :: int where "INODE_DENIED \<equiv> 4"
abbreviation (input) INODE_INTERNAL_ERR :: int where "INODE_INTERNAL_ERR \<equiv> 8"
abbreviation (input) INODE_NOT_DEV :: int where "INODE_NOT_DEV \<equiv> 9"
abbreviation (input) INODE_OP_NULL :: int where "INODE_OP_NULL \<equiv> 10"
abbreviation (input) INODE_TYPE_DIR :: u32 where "INODE_TYPE_DIR \<equiv> 2"

abbreviation (input) VDEV_PNULL :: int where "VDEV_PNULL \<equiv> 1"
abbreviation (input) VDEV_TYPE_ERR :: int where "VDEV_TYPE_ERR \<equiv> 2"
abbreviation (input) VDEV_NOT_EXIST :: int where "VDEV_NOT_EXIST \<equiv> 4"
abbreviation (input) VDEV_INTERNAL_ERR :: int where "VDEV_INTERNAL_ERR \<equiv> 4"
abbreviation (input) VDEV_NAME_LEN :: u32 where "VDEV_NAME_LEN \<equiv> 128"

abbreviation (input) sizeof_INode_t :: u32 where "sizeof_INode_t \<equiv> 620"
abbreviation (input) sizeof_vDev_t :: u32 where "sizeof_vDev_t \<equiv> 24"

section \<open>Data\<close>

datatype inode_type = FAT_Type | Dev_Type
datatype device_type = BlockDevice | CharDevice
datatype ops_id = StdinOps | StdoutOps | BlkOps | FatFileOps | FatDirOps

record inode =
  inode_kind :: inode_type
  i_ref :: int
  i_open :: int
  i_fs :: ptr
  i_ops :: ops_id
  dev_blkdev :: ptr
  dev_kind :: device_type
  dev_blocksize :: u32
  dev_blocks :: u32

record vDev =
  vd_name :: ptr
  vd_inode :: ptr
  vd_fs :: ptr
  vd_mountable :: bool

text \<open>The list heads \<^verbatim>\<open>vDevList\<close> and \<^verbatim>\<open>FS_List\<close>, and the list pointers embedded in devices and file systems.\<close>

datatype vdev_node = VdevHead | VdevN ptr
datatype fs_node = FsHead | FsN ptr

datatype file_status = FD_NONE | FD_INIT | FD_OPENED | FD_CLOSED

record File =
  f_status :: file_status
  f_readable :: bool
  f_writable :: bool
  f_fd :: int
  f_pos :: int
  f_inode :: ptr
  f_open_count :: int

record FileStruct =
  pwd :: ptr
  files_ref :: int
  file_next_id :: int

datatype file_node = FileHead ptr | FileN ptr

record kfs = kbc +
  inodes :: "ptr \<Rightarrow> inode"
  vdevs :: "ptr \<Rightarrow> vDev"
  VdevLinks :: "vdev_node list_heap"
  vDevListSem :: ptr
  fs_has_root :: "ptr \<Rightarrow> bool"
  FsLinks :: "fs_node list_heap"
  fs_name :: ptr
  fs_counter :: int
  files :: "ptr \<Rightarrow> File"
  filestructs :: "ptr \<Rightarrow> FileStruct"
  FileLinks :: "file_node list_heap"
  stdin_buffer :: ptr
  p_rpos :: int
  p_wpos :: int
  stdin_wait :: ptr
  blk_name :: ptr
  blk_counter :: int
  rodata :: "string \<Rightarrow> ptr"
  con :: console

record Stat =
  st_attr :: u32
  st_size :: u32

text \<open>
  The table of an inode's operations.  An out parameter is an argument for its old value and a
  component of the result for its new one; where the code tests the pointer itself, NULL is \<open>None\<close>.
\<close>

record 's INodeOps =
  iop_lookup :: "(ptr \<Rightarrow> ptr \<Rightarrow> ptr \<Rightarrow> 's \<Rightarrow> (int \<times> ptr \<times> 's) kres) option"
  iop_open :: "(ptr \<Rightarrow> u32 \<Rightarrow> 's \<Rightarrow> (int \<times> 's) kres) option"
  iop_read :: "(ptr \<Rightarrow> ptr \<Rightarrow> u32 \<Rightarrow> u32 \<Rightarrow> 's \<Rightarrow> (int \<times> u32 \<times> 's) kres) option"
  iop_write :: "(ptr \<Rightarrow> ptr \<Rightarrow> u32 \<Rightarrow> u32 \<Rightarrow> 's \<Rightarrow> (int \<times> u32 \<times> 's) kres) option"
  iop_lseek :: "(ptr \<Rightarrow> int \<Rightarrow> 's \<Rightarrow> (int \<times> 's) kres) option"
  iop_truncate :: "(ptr \<Rightarrow> u32 \<Rightarrow> 's \<Rightarrow> (int \<times> 's) kres) option"
  iop_create :: "(ptr \<Rightarrow> ptr \<Rightarrow> u32 \<Rightarrow> 's \<Rightarrow> (int \<times> 's) kres) option"
  iop_readdir :: "(ptr \<Rightarrow> ptr option \<Rightarrow> 's \<Rightarrow> (int \<times> ptr option \<times> 's) kres) option"
  iop_mkdir :: "(ptr \<Rightarrow> ptr \<Rightarrow> 's \<Rightarrow> (int \<times> 's) kres) option"
  iop_dev_io :: "(ptr \<Rightarrow> u32 \<Rightarrow> u32 \<Rightarrow> ptr \<Rightarrow> u32 \<Rightarrow> bool \<Rightarrow> 's \<Rightarrow> (int \<times> 's) kres) option"
  iop_dev_ioctl :: "(ptr \<Rightarrow> int \<Rightarrow> 's \<Rightarrow> (int \<times> 's) kres) option"
  iop_release :: "(ptr \<Rightarrow> 's \<Rightarrow> (int \<times> 's) kres) option"
  iop_delete :: "(ptr \<Rightarrow> ptr \<Rightarrow> 's \<Rightarrow> (int \<times> 's) kres) option"
  iop_rename :: "(ptr \<Rightarrow> ptr \<Rightarrow> 's \<Rightarrow> (int \<times> 's) kres) option"
  iop_stat :: "(ptr \<Rightarrow> Stat \<Rightarrow> 's \<Rightarrow> (int \<times> Stat \<times> 's) kres) option"
  iop_sync :: "(ptr \<Rightarrow> 's \<Rightarrow> (int \<times> 's) kres) option"
  iop_get_type :: "(ptr \<Rightarrow> 's \<Rightarrow> (int \<times> u32 \<times> 's) kres) option"

text \<open>All tables, and \<^verbatim>\<open>get_root_inode\<close> of the file systems.\<close>

record 's kops =
  ops_of :: "ops_id \<Rightarrow> 's INodeOps"
  get_root_inode :: "ptr \<Rightarrow> 's \<Rightarrow> (ptr \<times> 's) kres"

definition upd_inode :: "ptr \<Rightarrow> (inode \<Rightarrow> inode) \<Rightarrow> 'a kfs_scheme \<Rightarrow> 'a kfs_scheme" where
  "upd_inode i f s = s\<lparr>inodes := (inodes s)(i := f (inodes s i))\<rparr>"

definition iops :: "('a kfs_scheme) kops \<Rightarrow> ptr \<Rightarrow> 'a kfs_scheme \<Rightarrow> ('a kfs_scheme) INodeOps" where
  "iops K i s = ops_of K (i_ops (inodes s i))"

section \<open>Inodes (inode.c)\<close>

definition inode_ref_inc :: "ptr \<Rightarrow> 'a kfs_scheme \<Rightarrow> 'a kfs_scheme" where
  "inode_ref_inc i s = upd_inode i (\<lambda>n. n\<lparr>i_ref := i_ref n + 1\<rparr>) s"

definition inode_ref_dec :: "ptr \<Rightarrow> 'a kfs_scheme \<Rightarrow> 'a kfs_scheme" where
  "inode_ref_dec i s = upd_inode i (\<lambda>n. n\<lparr>i_ref := i_ref n - 1\<rparr>) s"

definition inode_open_inc :: "ptr \<Rightarrow> 'a kfs_scheme \<Rightarrow> 'a kfs_scheme" where
  "inode_open_inc i s = upd_inode i (\<lambda>n. n\<lparr>i_open := i_open n + 1\<rparr>) s"

definition inode_open_dec :: "ptr \<Rightarrow> 'a kfs_scheme \<Rightarrow> 'a kfs_scheme" where
  "inode_open_dec i s = upd_inode i (\<lambda>n. n\<lparr>i_open := i_open n - 1\<rparr>) s"

definition inode_alloc :: "inode_type \<Rightarrow> 'a kfs_scheme \<Rightarrow> (ptr \<times> 'a kfs_scheme) kres" where
  "inode_alloc type s =
     kbind (kmalloc sizeof_INode_t s) (\<lambda>(p, s1).
       if p \<noteq> NULL then Ret (p, upd_inode p (\<lambda>n. n\<lparr>inode_kind := type\<rparr>) s1) else Ret (NULL, s1))"

definition inode_free :: "ptr \<Rightarrow> 'a kfs_scheme \<Rightarrow> 'a kfs_scheme kres" where
  "inode_free i s = (if i \<noteq> NULL then kfree i sizeof_INode_t s else Ret s)"

definition inode_init :: "ptr \<Rightarrow> ops_id \<Rightarrow> ptr \<Rightarrow> 'a kfs_scheme \<Rightarrow> 'a kfs_scheme" where
  "inode_init i ops fs s =
     inode_ref_inc i (upd_inode i (\<lambda>n. n\<lparr>i_open := 0, i_ref := 0, i_ops := ops, i_fs := fs\<rparr>) s)"

definition create_vdev_inode :: "ops_id \<Rightarrow> 'a kfs_scheme \<Rightarrow> (ptr \<times> 'a kfs_scheme) kres" where
  "create_vdev_inode ops s =
     kbind (inode_alloc Dev_Type s) (\<lambda>(i, s1). if i = NULL then Ret (NULL, s1) else Ret (i, inode_init i ops NULL s1))"

section \<open>Named devices (vdev.c)\<close>

fun lp2vdev :: "vdev_node \<Rightarrow> ptr" where
  "lp2vdev (VdevN v) = v"
| "lp2vdev VdevHead = NULL"

fun lp2fs :: "fs_node \<Rightarrow> ptr" where
  "lp2fs (FsN f) = f"
| "lp2fs FsHead = NULL"

definition lock_vdevlist :: "'a kfs_scheme \<Rightarrow> 'a kfs_scheme kres" where
  "lock_vdevlist s = acquireSem (vDevListSem s) s"

definition unlock_vdevlist :: "'a kfs_scheme \<Rightarrow> 'a kfs_scheme kres" where
  "unlock_vdevlist s = releaseSem (vDevListSem s) s"

definition vdev_add_list :: "ptr \<Rightarrow> 'a kfs_scheme \<Rightarrow> 'a kfs_scheme" where
  "vdev_add_list v s = s\<lparr>VdevLinks := listAdd VdevHead (VdevN v) (VdevLinks s)\<rparr>"

definition vdev_root_body ::
    "('a kfs_scheme) kops \<Rightarrow> ptr \<Rightarrow> vdev_node \<times> 'a kfs_scheme \<Rightarrow> (vdev_node \<times> 'a kfs_scheme + ptr \<times> 'a kfs_scheme) kres" where
  "vdev_root_body K name = (\<lambda>(i, s).
     if i = VdevHead then Ret (Inr (NULL, s))
     else let v = vdevs s (lp2vdev i); next = listGetNext (VdevLinks s) i
          in kbind (strcmp (mem s) name (vd_name v)) (\<lambda>c.
               if c = 0
               then if vd_fs v \<noteq> NULL
                    then if fs_has_root s (vd_fs v)
                         then kbind (get_root_inode K (vd_fs v) s) (\<lambda>r. Ret (Inr r))
                         else Ret (Inl (next, s))
                    else if vd_inode v \<noteq> NULL then Ret (Inr (vd_inode v, s))
                    else Ret (Inl (next, s))
               else Ret (Inl (next, s))))"

definition vdev_get_root_inode :: "('a kfs_scheme) kops \<Rightarrow> ptr \<Rightarrow> 'a kfs_scheme \<Rightarrow> (ptr \<times> 'a kfs_scheme) kres" where
  "vdev_get_root_inode K name s = kwhile (vdev_root_body K name) (listGetNext (VdevLinks s) VdevHead, s)"

definition vdev_get_fs_name :: "ptr \<Rightarrow> 'a kfs_scheme \<Rightarrow> ptr kres" where
  "vdev_get_fs_name fs s =
     kbind (kloop (listFind (VdevLinks s) VdevHead (\<lambda>i. vd_fs (vdevs s (lp2vdev i)) = fs))) (\<lambda>r.
       Ret (case r of Some i \<Rightarrow> vd_name (vdevs s (lp2vdev i)) | None \<Rightarrow> NULL))"

definition check_vdev_body :: "'a kfs_scheme \<Rightarrow> ptr \<Rightarrow> vdev_node \<Rightarrow> (vdev_node + int) kres" where
  "check_vdev_body s name = (\<lambda>i.
     if i = VdevHead then Ret (Inr 0)
     else kbind (strcmp (mem s) name (vd_name (vdevs s (lp2vdev i)))) (\<lambda>c.
       Ret (if c = 0 then Inr 1 else Inl (listGetNext (VdevLinks s) i))))"

definition check_vdev_name :: "ptr \<Rightarrow> 'a kfs_scheme \<Rightarrow> int kres" where
  "check_vdev_name name s = kwhile (check_vdev_body s name) (listGetNext (VdevLinks s) VdevHead)"

text \<open>On its failure branches \<^verbatim>\<open>vdev_add\<close> ends without a return statement: no value is returned (\<open>None\<close>).\<close>

definition vdev_add :: "ptr \<Rightarrow> ptr \<Rightarrow> ptr \<Rightarrow> bool \<Rightarrow> 'a kfs_scheme \<Rightarrow> (int option \<times> 'a kfs_scheme) kres" where
  "vdev_add vdev_name dev_inode fs mountable s =
     (if vdev_name = NULL then Ret (Some VDEV_PNULL, s)
      else if \<not> (dev_inode = NULL \<and> fs \<noteq> NULL \<and> \<not> mountable \<or>
                 dev_inode \<noteq> NULL \<and> inode_kind (inodes s dev_inode) = Dev_Type) then Ret (Some VDEV_TYPE_ERR, s)
      else kbind (kmalloc VDEV_NAME_LEN s) (\<lambda>(name, s1).
        if name = NULL then Ret (Some VDEV_INTERNAL_ERR, s1)
        else kbind (strcpy name vdev_name (snd (memset name 0 VDEV_NAME_LEN (mem s1)))) (\<lambda>(_, m).
             kbind (lock_vdevlist (s1\<lparr>mem := m\<rparr>)) (\<lambda>s2.
             let failed = (\<lambda>s. kbind (unlock_vdevlist s) (\<lambda>s'. kbind (kfree name sizeof_vDev_t s') (\<lambda>s''. Ret (None, s''))))
             in kbind (check_vdev_name vdev_name s2) (\<lambda>c.
                if c \<noteq> 0 then failed s2
                else kbind (kmalloc sizeof_vDev_t s2) (\<lambda>(v, s3).
                  if v = NULL then failed s3
                  else let s4 = s3\<lparr>vdevs := (vdevs s3)(v := \<lparr>vd_name = name, vd_inode = dev_inode, vd_fs = fs, vd_mountable = mountable\<rparr>)\<rparr>
                       in kbind (unlock_vdevlist (vdev_add_list v s4)) (\<lambda>s5. Ret (Some 0, s5))))))))"

definition vdev_add_dev :: "ptr \<Rightarrow> ptr \<Rightarrow> bool \<Rightarrow> 'a kfs_scheme \<Rightarrow> (int option \<times> 'a kfs_scheme) kres" where
  "vdev_add_dev name inode mountable s = vdev_add name inode NULL mountable s"

definition vdev_add_fs :: "ptr \<Rightarrow> ptr \<Rightarrow> 'a kfs_scheme \<Rightarrow> (int option \<times> 'a kfs_scheme) kres" where
  "vdev_add_fs name fs s = vdev_add name NULL fs False s"

section \<open>File systems (vfs.c)\<close>

definition fs_add_list :: "ptr \<Rightarrow> 'a kfs_scheme \<Rightarrow> 'a kfs_scheme" where
  "fs_add_list fs s = s\<lparr>FsLinks := listAdd FsHead (FsN fs) (FsLinks s)\<rparr>"

definition get_new_fs_name :: "'a kfs_scheme \<Rightarrow> ptr \<times> 'a kfs_scheme" where
  "get_new_fs_name s =
     (let c = fs_counter s + 1
      in (fs_name s, s\<lparr>fs_counter := c, mem := (mem s)(fs_name s + 2 := of_int (c + 48))\<rparr>))"

definition fs_init_body :: "fs_node \<times> 'a kfs_scheme \<Rightarrow> (fs_node \<times> 'a kfs_scheme + 'a kfs_scheme) kres" where
  "fs_init_body = (\<lambda>(i, s).
     if i = FsHead then Ret (Inr s)
     else if lp2fs i \<noteq> NULL
     then let (name, s1) = get_new_fs_name s
          in kbind (vdev_add_fs name (lp2fs i) s1) (\<lambda>(_, s2). Ret (Inl (listGetNext (FsLinks s2) i, s2)))
     else Ret (Inl (listGetNext (FsLinks s) i, s)))"

definition fs_init_vdev :: "'a kfs_scheme \<Rightarrow> 'a kfs_scheme kres" where
  "fs_init_vdev s = kwhile fs_init_body (listGetNext (FsLinks s) FsHead, s)"

end
