(* ===== verification/VFS.thy ===== *)
theory VFS
  imports Inode
begin

text \<open>
  The virtual file system: path resolution (\<^verbatim>\<open>kern/fs/vfs/vfs_lookup.c\<close>), the working directory
  (\<^verbatim>\<open>kern/fs/vfs/vfs_pwd.c\<close>), opening and closing of inodes (\<^verbatim>\<open>kern/fs/vfs/vfs_file.c\<close>).  Paths are strings in
  memory; as in the source, resolving an absolute path overwrites the slash after the device name.
  \<open>K\<close> holds the operation tables.
\<close>

abbreviation (input) VFS_OK :: int where "VFS_OK \<equiv> 0"
abbreviation (input) VFS_INVAL :: int where "VFS_INVAL \<equiv> 1"
abbreviation (input) VFS_INVAL_OP :: int where "VFS_INVAL_OP \<equiv> 2"
abbreviation (input) VFS_NOT_EXIST :: int where "VFS_NOT_EXIST \<equiv> 3"
abbreviation (input) VFS_EXIST :: int where "VFS_EXIST \<equiv> 4"
abbreviation (input) VFS_OP_FAILED :: int where "VFS_OP_FAILED \<equiv> 5"
abbreviation (input) VFS_PNULL :: int where "VFS_PNULL \<equiv> 6"
abbreviation (input) VFS_MEM_ERR :: int where "VFS_MEM_ERR \<equiv> 7"

abbreviation (input) OPEN_MASK :: u32 where "OPEN_MASK \<equiv> 0xFF"
abbreviation (input) OPEN_READ :: u32 where "OPEN_READ \<equiv> 0"
abbreviation (input) OPEN_WRITE :: u32 where "OPEN_WRITE \<equiv> 1"
abbreviation (input) OPEN_RW :: u32 where "OPEN_RW \<equiv> 2"
abbreviation (input) OPEN_CREATE :: u32 where "OPEN_CREATE \<equiv> 4"
abbreviation (input) OPEN_EXIST :: u32 where "OPEN_EXIST \<equiv> 8"
abbreviation (input) OPEN_TRUNC :: u32 where "OPEN_TRUNC \<equiv> 0x10"
abbreviation (input) INODE_CREATE_EXIST :: u32 where "INODE_CREATE_EXIST \<equiv> 1"

abbreviation (input) SLASH :: u8 where "SLASH \<equiv> 47"

section \<open>The working directory (vfs\_pwd.c)\<close>

text \<open>The semaphore of a \<^verbatim>\<open>FileStruct_t\<close> follows its other fields.\<close>

definition files_sem :: "ptr \<Rightarrow> ptr" where
  "files_sem fs = fs + 20"

definition lock_files :: "ptr \<Rightarrow> 'a kfs_scheme \<Rightarrow> 'a kfs_scheme kres" where
  "lock_files fs s = acquireSem (files_sem fs) s"

definition unlock_files :: "ptr \<Rightarrow> 'a kfs_scheme \<Rightarrow> 'a kfs_scheme kres" where
  "unlock_files fs s = releaseSem (files_sem fs) s"

definition upd_filestruct :: "ptr \<Rightarrow> (FileStruct \<Rightarrow> FileStruct) \<Rightarrow> 'a kfs_scheme \<Rightarrow> 'a kfs_scheme" where
  "upd_filestruct fs f s = s\<lparr>filestructs := (filestructs s)(fs := f (filestructs s fs))\<rparr>"

definition get_cur_files :: "'a kfs_scheme \<Rightarrow> ptr" where
  "get_cur_files s = tfiles (tasks s (CurrentTask s))"

definition get_cur_pwd_inode :: "'a kfs_scheme \<Rightarrow> ptr" where
  "get_cur_pwd_inode s = pwd (filestructs s (get_cur_files s))"

definition set_cur_pwd_inode :: "ptr \<Rightarrow> 'a kfs_scheme \<Rightarrow> 'a kfs_scheme" where
  "set_cur_pwd_inode i s = upd_filestruct (get_cur_files s) (\<lambda>f. f\<lparr>pwd := i\<rparr>) s"

definition vfs_get_cur_inode :: "ptr \<Rightarrow> 'a kfs_scheme \<Rightarrow> int \<times> ptr \<times> 'a kfs_scheme" where
  "vfs_get_cur_inode out s =
     (let inode = get_cur_pwd_inode s
      in if inode \<noteq> NULL then (0, inode, inode_ref_inc inode s) else (1, out, s))"

definition vfs_set_cur_inode :: "('a kfs_scheme) kops \<Rightarrow> ptr \<Rightarrow> 'a kfs_scheme \<Rightarrow> (int \<times> 'a kfs_scheme) kres" where
  "vfs_set_cur_inode K inode s =
     kbind (lock_files (get_cur_files s) s) (\<lambda>s1.
       let old_inode = get_cur_pwd_inode s1;
           out = (\<lambda>ret s. kbind (unlock_files (get_cur_files s) s) (\<lambda>s'. Ret (ret, s')))
       in if old_inode = inode \<or> inode = NULL then out 0 s1
          else case iop_get_type (iops K inode s1) of
            None \<Rightarrow> out (- INODE_OP_NULL) s1
          | Some op \<Rightarrow>
              kbind (op inode s1) (\<lambda>(ret, type, s2).
                if ret \<noteq> INODE_OK then out ret s2
                else if type \<noteq> INODE_TYPE_DIR then out (- INDOE_NOT_DIR) s2
                else let s3 = set_cur_pwd_inode inode (inode_ref_inc inode s2)
                     in out ret (if old_inode \<noteq> NULL then inode_ref_dec old_inode s3 else s3)))"

section \<open>Paths (vfs\_lookup.c)\<close>

text \<open>The first slash of a path, or \<open>-1\<close>.\<close>

partial_function (option) slash_loop :: "memory \<Rightarrow> ptr \<Rightarrow> u32 \<Rightarrow> int option" where
  "slash_loop m path i =
     (if m (path + i) = 0 then Some (-1)
      else if m (path + i) = SLASH then Some (uint i)
      else slash_loop m path (i + 1))"

partial_function (option) name_loop :: "memory \<Rightarrow> ptr \<Rightarrow> u32 \<Rightarrow> u32 option" where
  "name_loop m path i =
     (if m (path + i) \<noteq> SLASH \<and> m (path + i) \<noteq> 0 then name_loop m path (i + 1) else Some i)"

text \<open>The result, \<^verbatim>\<open>*subpath\<close> and \<^verbatim>\<open>*vdev_inode_out\<close>.\<close>

definition vdev_parse_path ::
    "('a kfs_scheme) kops \<Rightarrow> ptr \<Rightarrow> ptr \<Rightarrow> 'a kfs_scheme \<Rightarrow> (int \<times> ptr \<times> ptr \<times> 'a kfs_scheme) kres" where
  "vdev_parse_path K path out s =
     kbind (kloop (strlen (mem s) path)) (\<lambda>path_len.
     kbind (kloop (slash_loop (mem s) path 0)) (\<lambda>slash.
       if slash \<noteq> 0 then let (ret, inode, s1) = vfs_get_cur_inode out s in Ret (ret, path, inode, s1)
       else kbind (kloop (name_loop (mem s) path 1)) (\<lambda>i.
         let s1 = s\<lparr>mem := (mem s)(path + i := 0)\<rparr>;
             j = (if sint i < path_len then i + 1 else i)
         in kbind (vdev_get_root_inode K (path + 1) s1) (\<lambda>(inode, s2).
              Ret (if inode = NULL then VDEV_NOT_EXIST else 0, path + j, inode, s2)))))"

definition vfs_lookup :: "('a kfs_scheme) kops \<Rightarrow> ptr \<Rightarrow> ptr \<Rightarrow> 'a kfs_scheme \<Rightarrow> (int \<times> ptr \<times> 'a kfs_scheme) kres" where
  "vfs_lookup K path out s =
     kbind (vdev_parse_path K path NULL s) (\<lambda>(ret, sub, vdev_inode, s1).
       if ret \<noteq> 0 then Ret (ret, out, s1)
       else if mem s1 sub \<noteq> 0
       then (case iop_lookup (iops K vdev_inode s1) of
               None \<Rightarrow> Ret (- INODE_OP_NULL, out, s1)
             | Some op \<Rightarrow>
                 kbind (op vdev_inode sub out s1) (\<lambda>(ret, inode, s2). Ret (ret, inode, inode_ref_dec vdev_inode s2)))
       else Ret (0, vdev_inode, s1))"

text \<open>The result, \<^verbatim>\<open>*vdev_inode_out\<close> and \<^verbatim>\<open>*endp\<close>.\<close>

definition vfs_lookup_parent :: "('a kfs_scheme) kops \<Rightarrow> ptr \<Rightarrow> 'a kfs_scheme \<Rightarrow> (int \<times> ptr \<times> ptr \<times> 'a kfs_scheme) kres" where
  "vfs_lookup_parent K path s =
     kbind (vdev_parse_path K path NULL s) (\<lambda>(ret, sub, inode, s1). Ret (ret, inode, sub, s1))"

definition vfs_change_cur_pwd :: "('a kfs_scheme) kops \<Rightarrow> ptr \<Rightarrow> 'a kfs_scheme \<Rightarrow> (int \<times> 'a kfs_scheme) kres" where
  "vfs_change_cur_pwd K path s =
     kbind (vfs_lookup K path NULL s) (\<lambda>(ret, inode, s1).
       if ret = 0 then kbind (vfs_set_cur_inode K inode s1) (\<lambda>(ret, s2). Ret (ret, inode_ref_dec inode s2))
       else Ret (ret, s1))"

section \<open>Opening and closing (vfs\_file.c)\<close>

text \<open>The loop that puts the slashes back.\<close>

fun fill_slashes :: "ptr \<Rightarrow> nat \<Rightarrow> memory \<Rightarrow> memory" where
  "fill_slashes p 0 m = m"
| "fill_slashes p (Suc n) m = fill_slashes (p + 1) n (if m p = 0 then m(p := SLASH) else m)"

text \<open>Resolve the path, creating the file when it does not exist and \<^verbatim>\<open>OPEN_CREATE\<close> asks for it: \<open>Inl\<close> the code to fail with.\<close>

definition vfs_open_find ::
    "('a kfs_scheme) kops \<Rightarrow> ptr \<Rightarrow> nat \<Rightarrow> u32 \<Rightarrow> 'a kfs_scheme \<Rightarrow> ((int + ptr) \<times> 'a kfs_scheme) kres" where
  "vfs_open_find K path_in path_len open_flag s =
     (let exist = open_flag AND OPEN_EXIST \<noteq> 0; create = open_flag AND OPEN_CREATE \<noteq> 0;
          fill = (\<lambda>s. s\<lparr>mem := fill_slashes path_in path_len (mem s)\<rparr>)
      in kbind (vfs_lookup K path_in NULL s) (\<lambda>(ret, inode, s0).
           let s1 = fill s0
           in if ret \<noteq> 0
              then if create
                   then kbind (vfs_lookup_parent K path_in s1) (\<lambda>(ret, dir, name, s2).
                          if ret \<noteq> 0 then Ret (Inl VFS_INVAL, s2)
                          else case iop_create (iops K dir s2) of
                              None \<Rightarrow> Ret (Inl VFS_INVAL_OP, s2)
                            | Some op \<Rightarrow>
                                kbind (op dir name INODE_CREATE_EXIST s2) (\<lambda>(ret, s3).
                                  if ret \<noteq> 0 then Ret (Inl VFS_OP_FAILED, s3)
                                  else kbind (vfs_lookup K path_in inode (fill s3)) (\<lambda>(_, inode, s4). Ret (Inr inode, s4))))
                   else Ret (Inl VFS_NOT_EXIST, s1)
              else if exist \<and> create then Ret (Inl VFS_EXIST, s1)
              else Ret (Inr inode, s1)))"

definition vfs_open_inode ::
    "('a kfs_scheme) kops \<Rightarrow> ptr \<Rightarrow> u32 \<Rightarrow> 'a kfs_scheme \<Rightarrow> (int \<times> 'a kfs_scheme) kres" where
  "vfs_open_inode K inode open_flag s =
     (if inode = NULL then Ret (VFS_PNULL, s)
      else case iop_open (iops K inode s) of
          None \<Rightarrow> Ret (VFS_INVAL_OP, s)
        | Some op \<Rightarrow>
            kbind (op inode open_flag s) (\<lambda>(ret, s1).
              if ret \<noteq> 0 then Ret (ret, inode_ref_dec inode s1)
              else let s2 = inode_open_inc inode s1
                   in if open_flag AND OPEN_TRUNC \<noteq> 0 \<or> open_flag AND OPEN_CREATE \<noteq> 0
                      then case iop_truncate (iops K inode s2) of
                          None \<Rightarrow> Ret (VFS_INVAL_OP, s2)
                        | Some op \<Rightarrow>
                            kbind (op inode 0 s2) (\<lambda>(ret, s3).
                              if ret \<noteq> 0 then Ret (VFS_OP_FAILED, inode_open_dec inode (inode_ref_dec inode s3))
                              else Ret (VFS_OK, s3))
                      else Ret (VFS_OK, s2)))"

definition vfs_open :: "('a kfs_scheme) kops \<Rightarrow> ptr \<Rightarrow> u32 \<Rightarrow> ptr \<Rightarrow> 'a kfs_scheme \<Rightarrow> (int \<times> ptr \<times> 'a kfs_scheme) kres" where
  "vfs_open K path open_flag out s =
     kbind (kloop (strlen (mem s) path)) (\<lambda>path_len.
     kbind (kmalloc (of_int path_len) s) (\<lambda>(path_in, s1).
       if path_in = NULL then Ret (VFS_MEM_ERR, out, s1)
       else kbind (strcpy path_in path (mem s1)) (\<lambda>(_, m).
            kbind (vfs_open_find K path_in (nat path_len) open_flag (s1\<lparr>mem := m\<rparr>)) (\<lambda>(r, s2).
            kbind (case r of Inl ret \<Rightarrow> Ret (ret, out, s2)
                     | Inr inode \<Rightarrow> kbind (vfs_open_inode K inode open_flag s2) (\<lambda>(ret, s3).
                         Ret (ret, if ret = VFS_OK then inode else out, s3))) (\<lambda>(ret, out', s4).
            kbind (kfree path_in (of_int path_len) s4) (\<lambda>s5. Ret (ret, out', s5)))))))"

definition vfs_close :: "('a kfs_scheme) kops \<Rightarrow> ptr \<Rightarrow> 'a kfs_scheme \<Rightarrow> (int \<times> 'a kfs_scheme) kres" where
  "vfs_close K inode s =
     (if inode = NULL then Ret (VFS_INVAL, s)
      else case iop_sync (iops K inode s) of
          None \<Rightarrow> Ret (VFS_INVAL_OP, s)
        | Some op \<Rightarrow>
            kbind (op inode s) (\<lambda>(ret, s1).
              if ret \<noteq> 0 then Ret (VFS_OP_FAILED, inode_open_dec inode (inode_ref_dec inode s1))
              else Ret (0, inode_ref_dec inode (inode_open_dec inode s1))))"

end
