(* ===== verification/File.thy ===== *)
theory File
  imports VFS
begin

text \<open>
  Open files: \<^verbatim>\<open>kern/fs/file.c\<close>.  A task's \<^verbatim>\<open>FileStruct_t\<close> heads the list of its open files, each with a
  descriptor that is handed out once.  The printing functions and self tests are left out.
\<close>

abbreviation (input) FILE_OK :: int where "FILE_OK \<equiv> 0"
abbreviation (input) FILE_INVAL :: int where "FILE_INVAL \<equiv> 1"
abbreviation (input) FILE_INVAL_OP :: int where "FILE_INVAL_OP \<equiv> 2"
abbreviation (input) FILE_OP_FAILED :: int where "FILE_OP_FAILED \<equiv> 5"
abbreviation (input) FILE_MEM_ERR :: int where "FILE_MEM_ERR \<equiv> 7"
abbreviation (input) LSEEK_SET :: u32 where "LSEEK_SET \<equiv> 0"
abbreviation (input) LSEEK_CUR :: u32 where "LSEEK_CUR \<equiv> 1"
abbreviation (input) LSEEK_END :: u32 where "LSEEK_END \<equiv> 2"
abbreviation (input) sizeof_File_t :: u32 where "sizeof_File_t \<equiv> 36"
abbreviation (input) sizeof_FileStruct_t :: u32 where "sizeof_FileStruct_t \<equiv> 44"

fun lp2file :: "file_node \<Rightarrow> ptr" where
  "lp2file (FileN f) = f"
| "lp2file (FileHead _) = NULL"

definition upd_file :: "ptr \<Rightarrow> (File \<Rightarrow> File) \<Rightarrow> 'a kfs_scheme \<Rightarrow> 'a kfs_scheme" where
  "upd_file p f s = s\<lparr>files := (files s)(p := f (files s p))\<rparr>"

section \<open>Files\<close>

definition file_open_inc :: "ptr \<Rightarrow> 'a kfs_scheme \<Rightarrow> 'a kfs_scheme" where
  "file_open_inc f s = upd_file f (\<lambda>x. x\<lparr>f_open_count := f_open_count x + 1\<rparr>) s"

definition file_open_dec :: "ptr \<Rightarrow> 'a kfs_scheme \<Rightarrow> 'a kfs_scheme" where
  "file_open_dec f s = upd_file f (\<lambda>x. x\<lparr>f_open_count := f_open_count x - 1\<rparr>) s"

definition get_cur_file_list :: "'a kfs_scheme \<Rightarrow> file_node" where
  "get_cur_file_list s = FileHead (get_cur_files s)"

definition file_alloc_init :: "'a kfs_scheme \<Rightarrow> (ptr \<times> 'a kfs_scheme) kres" where
  "file_alloc_init s =
     kbind (kmalloc sizeof_File_t s) (\<lambda>(f, s1).
       if f = NULL then Ret (NULL, s1)
       else let s2 = upd_file f (\<lambda>_. \<lparr>f_status = FD_INIT, f_readable = False, f_writable = False, f_fd = 0, f_pos = 0,
                                     f_inode = NULL, f_open_count = 0\<rparr>) s1
            in Ret (f, s2\<lparr>FileLinks := initList (FileN f) (FileLinks s2)\<rparr>))"

definition find_file_with_fd :: "int \<Rightarrow> 'a kfs_scheme \<Rightarrow> ptr kres" where
  "find_file_with_fd fd s =
     kbind (kloop (listFind (FileLinks s) (get_cur_file_list s) (\<lambda>i. lp2file i \<noteq> NULL \<and> fd = f_fd (files s (lp2file i))))) (\<lambda>r.
       Ret (case r of Some i \<Rightarrow> lp2file i | None \<Rightarrow> NULL))"

definition file_test_rw :: "int \<Rightarrow> bool \<Rightarrow> bool \<Rightarrow> 'a kfs_scheme \<Rightarrow> bool kres" where
  "file_test_rw fd readable writeable s =
     kbind (find_file_with_fd fd s) (\<lambda>f.
       Ret (if f = NULL then False
            else if readable \<and> \<not> f_readable (files s f) then False
            else if writeable \<and> \<not> f_writable (files s f) then False
            else True))"

definition files_get_next_file_id :: "ptr \<Rightarrow> 'a kfs_scheme \<Rightarrow> int \<times> 'a kfs_scheme" where
  "files_get_next_file_id fs s =
     (let i = file_next_id (filestructs s fs) in (i, upd_filestruct fs (\<lambda>x. x\<lparr>file_next_id := file_next_id x + 1\<rparr>) s))"

definition files_add_list :: "ptr \<Rightarrow> ptr \<Rightarrow> 'a kfs_scheme \<Rightarrow> 'a kfs_scheme" where
  "files_add_list to f s = s\<lparr>FileLinks := listAdd (FileHead to) (FileN f) (FileLinks s)\<rparr>"

definition files_del_list :: "ptr \<Rightarrow> 'a kfs_scheme \<Rightarrow> 'a kfs_scheme" where
  "files_del_list f s = s\<lparr>FileLinks := listDel (FileN f) (FileLinks s)\<rparr>"

text \<open>The part of \<^verbatim>\<open>file_open\<close> after the inode has been opened.\<close>

definition file_install :: "ptr \<Rightarrow> ptr \<Rightarrow> ptr \<Rightarrow> bool \<Rightarrow> bool \<Rightarrow> 'a kfs_scheme \<Rightarrow> (int \<times> 'a kfs_scheme) kres" where
  "file_install fs new_file inode readable writeable s =
     kbind (lock_files fs s) (\<lambda>s1.
     kbind (kloop (listFind (FileLinks s1) (FileHead fs) (\<lambda>i. f_inode (files s1 (lp2file i)) = inode))) (\<lambda>found.
     kbind (case found of
              Some i \<Rightarrow> kbind (kfree new_file sizeof_File_t s1) (\<lambda>s2. Ret (True, lp2file i, s2))
            | None \<Rightarrow> Ret (False, new_file, s1)) (\<lambda>(has_same, f, s2).
     kbind (unlock_files fs s2) (\<lambda>s3.
       let s4 = upd_file f (\<lambda>x. x\<lparr>f_status := FD_OPENED, f_inode := inode, f_pos := 0, f_readable := readable, f_writable := writeable\<rparr>) s3
       in if \<not> has_same
          then let s5 = file_open_inc f s4;
                   (n, s6) = files_get_next_file_id fs s5;
                   s7 = files_add_list fs f (upd_file f (\<lambda>x. x\<lparr>f_fd := n\<rparr>) s6)
               in Ret (f_fd (files s7 f), s7)
          else Ret (f_fd (files s4 f), s4)))))"

definition file_open :: "('a kfs_scheme) kops \<Rightarrow> ptr \<Rightarrow> u32 \<Rightarrow> 'a kfs_scheme \<Rightarrow> (int \<times> 'a kfs_scheme) kres" where
  "file_open K path open_flag s =
     (let mode = open_flag AND OPEN_MASK;
          readable = (mode = OPEN_READ \<or> mode = OPEN_RW);
          writeable = (mode = OPEN_WRITE \<or> mode = OPEN_RW);
          fs = get_cur_files s
      in kbind (file_alloc_init s) (\<lambda>(new_file, s1).
           if new_file = NULL then Ret (- FILE_MEM_ERR, s1)
           else kbind (vfs_open K path open_flag NULL s1) (\<lambda>(ret, inode, s2).
             if ret \<noteq> 0 then kbind (kfree new_file sizeof_File_t s2) (\<lambda>s3. Ret (- FILE_OP_FAILED, s3))
             else file_install fs new_file inode readable writeable s2)))"

definition file_close :: "('a kfs_scheme) kops \<Rightarrow> int \<Rightarrow> 'a kfs_scheme \<Rightarrow> (int \<times> 'a kfs_scheme) kres" where
  "file_close K fd s =
     kbind (find_file_with_fd fd s) (\<lambda>f.
       if f = NULL then Ret (- FILE_INVAL, s)
       else kbind (vfs_close K (f_inode (files s f)) s) (\<lambda>(_, s1).
            kbind (kfree f sizeof_File_t (files_del_list f (file_open_dec f s1))) (\<lambda>s2. Ret (FILE_OK, s2))))"

text \<open>\<^verbatim>\<open>file_read\<close> and \<^verbatim>\<open>file_write\<close> differ in the permission they test and the operation they call.\<close>

definition file_rw ::
    "(File \<Rightarrow> bool) \<Rightarrow> (('a kfs_scheme) INodeOps \<Rightarrow> (ptr \<Rightarrow> ptr \<Rightarrow> u32 \<Rightarrow> u32 \<Rightarrow> 'a kfs_scheme \<Rightarrow> (int \<times> u32 \<times> 'a kfs_scheme) kres) option) \<Rightarrow>
     ('a kfs_scheme) kops \<Rightarrow> int \<Rightarrow> ptr \<Rightarrow> u32 \<Rightarrow> u32 \<Rightarrow> 'a kfs_scheme \<Rightarrow> (int \<times> u32 \<times> 'a kfs_scheme) kres" where
  "file_rw allowed iop K fd buf blen copied s =
     kbind (find_file_with_fd fd s) (\<lambda>f.
       if f = NULL then Ret (- FILE_INVAL, copied, s)
       else if \<not> allowed (files s f) then Ret (- FILE_INVAL, copied, s)
       else case iop (iops K (f_inode (files s f)) s) of
           None \<Rightarrow> Ret (- FILE_INVAL_OP, copied, s)
         | Some op \<Rightarrow>
             let s1 = file_open_inc f s
             in kbind (op (f_inode (files s1 f)) buf blen 0 s1) (\<lambda>(ret, n, s2).
                  if ret \<noteq> 0 then Ret (- FILE_OP_FAILED, copied, file_open_dec f s2)
                  else let s3 = (if f_status (files s2 f) = FD_OPENED
                                 then upd_file f (\<lambda>x. x\<lparr>f_pos := sint (of_int (f_pos x) + blen)\<rparr>) s2 else s2)
                       in Ret (0, n, file_open_dec f s3)))"

definition file_read :: "('a kfs_scheme) kops \<Rightarrow> int \<Rightarrow> ptr \<Rightarrow> u32 \<Rightarrow> u32 \<Rightarrow> 'a kfs_scheme \<Rightarrow> (int \<times> u32 \<times> 'a kfs_scheme) kres" where
  "file_read = file_rw f_readable iop_read"

definition file_write :: "('a kfs_scheme) kops \<Rightarrow> int \<Rightarrow> ptr \<Rightarrow> u32 \<Rightarrow> u32 \<Rightarrow> 'a kfs_scheme \<Rightarrow> (int \<times> u32 \<times> 'a kfs_scheme) kres" where
  "file_write = file_rw f_writable iop_write"

text \<open>
  The target of a seek: \<open>Inl\<close> the error.  Positions are \<^verbatim>\<open>int32_t\<close>: a sum out of their range is undefined.  The local \<^verbatim>\<open>stat\<close> is
  not initialised; only its size is used, which \<^verbatim>\<open>fat_stat\<close>, the one \<^verbatim>\<open>iop_stat\<close> of the kernel, sets whenever it returns 0.
\<close>

definition seek_target :: "('a kfs_scheme) kops \<Rightarrow> ptr \<Rightarrow> int \<Rightarrow> u32 \<Rightarrow> 'a kfs_scheme \<Rightarrow> ((int + int) \<times> 'a kfs_scheme) kres" where
  "seek_target K f pos flag s =
     (if flag = LSEEK_SET then Ret (Inr pos, s)
      else if flag = LSEEK_CUR
      then let pos' = pos + f_pos (files s f)
           in if -0x80000000 \<le> pos' \<and> pos' \<le> 0x7FFFFFFF then Ret (Inr pos', s) else Undef
      else if flag = LSEEK_END
      then case iop_stat (iops K (f_inode (files s f)) s) of
          None \<Rightarrow> Ret (Inl (- FILE_INVAL_OP), s)
        | Some op \<Rightarrow>
            kbind (op (f_inode (files s f)) \<lparr>st_attr = 0, st_size = 0\<rparr> s) (\<lambda>(ret, st, s1).
              if ret \<noteq> 0 then Ret (Inl (- FILE_OP_FAILED), s1)
              else Ret (Inr (sint (of_int pos + st_size st)), s1))
      else Ret (Inl (- FILE_INVAL), s))"

definition file_seek :: "('a kfs_scheme) kops \<Rightarrow> int \<Rightarrow> int \<Rightarrow> u32 \<Rightarrow> 'a kfs_scheme \<Rightarrow> (int \<times> 'a kfs_scheme) kres" where
  "file_seek K fd pos flag s =
     kbind (find_file_with_fd fd s) (\<lambda>f.
       if f = NULL then Ret (- FILE_INVAL, s)
       else kbind (seek_target K f pos flag (file_open_inc f s)) (\<lambda>(t, s1).
         case t of
           Inl ret \<Rightarrow> Ret (ret, file_open_dec f s1)
         | Inr pos \<Rightarrow>
             (case iop_lseek (iops K (f_inode (files s1 f)) s1) of
                None \<Rightarrow> Ret (- FILE_INVAL_OP, file_open_dec f s1)
              | Some op \<Rightarrow>
                  kbind (op (f_inode (files s1 f)) pos s1) (\<lambda>(ret, s2).
                    if ret \<noteq> 0 then Ret (- FILE_OP_FAILED, file_open_dec f s2)
                    else Ret (0, file_open_dec f (upd_file f (\<lambda>x. x\<lparr>f_pos := pos\<rparr>) s2))))))"

definition file_fstat :: "('a kfs_scheme) kops \<Rightarrow> int \<Rightarrow> Stat \<Rightarrow> 'a kfs_scheme \<Rightarrow> (int \<times> Stat \<times> 'a kfs_scheme) kres" where
  "file_fstat K fd stat s =
     kbind (find_file_with_fd fd s) (\<lambda>f.
       if f = NULL then Ret (- FILE_INVAL, stat, s)
       else case iop_stat (iops K (f_inode (files s f)) s) of
           None \<Rightarrow> Ret (- FILE_INVAL_OP, stat, s)
         | Some op \<Rightarrow>
             let s1 = file_open_inc f s
             in kbind (op (f_inode (files s1 f)) stat s1) (\<lambda>(ret, st, s2). Ret (ret, st, file_open_dec f s2)))"

definition file_fsync :: "('a kfs_scheme) kops \<Rightarrow> int \<Rightarrow> 'a kfs_scheme \<Rightarrow> (int \<times> 'a kfs_scheme) kres" where
  "file_fsync K fd s =
     kbind (find_file_with_fd fd s) (\<lambda>f.
       if f = NULL then Ret (- FILE_INVAL, s)
       else case iop_sync (iops K (f_inode (files s f)) s) of
           None \<Rightarrow> Ret (- FILE_INVAL_OP, s)
         | Some op \<Rightarrow>
             let s1 = file_open_inc f s
             in kbind (op (f_inode (files s1 f)) s1) (\<lambda>(ret, s2).
                  Ret (if ret \<noteq> 0 then - FILE_OP_FAILED else 0, file_open_dec f s2)))"

section \<open>File tables\<close>

definition file_dup :: "ptr \<Rightarrow> ptr \<Rightarrow> 'a kfs_scheme \<Rightarrow> 'a kfs_scheme kres" where
  "file_dup to from s =
     (if to = NULL \<or> from = NULL then Panic ''file dup error''
      else let x = files s from;
               s1 = upd_file to (\<lambda>y. y\<lparr>f_fd := f_fd x, f_pos := f_pos x, f_readable := f_readable x, f_writable := f_writable x\<rparr>) s;
               s2 = inode_open_inc (f_inode x) (inode_ref_inc (f_inode x) s1)
           in Ret (file_open_inc to (upd_file to (\<lambda>y. y\<lparr>f_inode := f_inode x, f_status := FD_OPENED\<rparr>) s2)))"

definition files_create :: "'a kfs_scheme \<Rightarrow> (ptr \<times> 'a kfs_scheme) kres" where
  "files_create s =
     kbind (kmalloc sizeof_FileStruct_t s) (\<lambda>(fs, s1).
       if fs = NULL then Ret (NULL, s1)
       else let s2 = upd_filestruct fs (\<lambda>_. \<lparr>pwd = NULL, files_ref = 0, file_next_id = 0\<rparr>) s1
            in Ret (fs, initSem (files_sem fs) 1 (s2\<lparr>FileLinks := initList (FileHead fs) (FileLinks s2)\<rparr>)))"

text \<open>
  The memory is released through the wrong structure type: 12 bytes into the file, and with the size
  of a memory area.
\<close>

definition files_closeall_body ::
    "('a kfs_scheme) kops \<Rightarrow> ptr \<Rightarrow> 'a kfs_scheme \<Rightarrow> ('a kfs_scheme + 'a kfs_scheme) kres" where
  "files_closeall_body K fs s =
     (let i = listGetNext (FileLinks s) (FileHead fs); f = lp2file i
      in if i = FileHead fs then Ret (Inr s)
         else kbind (if f \<noteq> NULL
                     then (case iop_sync (iops K (f_inode (files s f)) s) of
                             Some op \<Rightarrow> kbind (op (f_inode (files s f)) s) (\<lambda>(_, s1). Ret s1)
                           | None \<Rightarrow> Ret s)
                     else Ret s) (\<lambda>s1.
              kbind (kfree (f + 12) sizeof_VirtMemArea_t (s1\<lparr>FileLinks := listDel i (FileLinks s1)\<rparr>)) (\<lambda>s2. Ret (Inl s2))))"

definition files_closeall :: "('a kfs_scheme) kops \<Rightarrow> ptr \<Rightarrow> 'a kfs_scheme \<Rightarrow> 'a kfs_scheme kres" where
  "files_closeall K fs s =
     (if fs = NULL then Panic ''files dup error'' else kwhile (files_closeall_body K fs) s)"

definition files_dup_body :: "ptr \<Rightarrow> ptr \<Rightarrow> file_node \<times> 'a kfs_scheme \<Rightarrow> (file_node \<times> 'a kfs_scheme + 'a kfs_scheme) kres" where
  "files_dup_body to from = (\<lambda>(i, s).
     if i = FileHead from then Ret (Inr s)
     else kbind (file_alloc_init s) (\<lambda>(f, s1).
          kbind (file_dup f (lp2file i) s1) (\<lambda>s2.
            let s3 = files_add_list to f s2 in Ret (Inl (listGetNext (FileLinks s3) i, s3)))))"

definition files_dup :: "ptr \<Rightarrow> ptr \<Rightarrow> 'a kfs_scheme \<Rightarrow> (int \<times> 'a kfs_scheme) kres" where
  "files_dup to from s =
     (if to = NULL \<or> from = NULL then Panic ''files dup error''
      else if files_ref (filestructs s to) \<noteq> 0 then Panic ''files.ref is not 0!''
      else let x = filestructs s from;
               s1 = upd_filestruct to (\<lambda>y. y\<lparr>pwd := pwd x, file_next_id := file_next_id x\<rparr>) s;
               s2 = (if pwd x \<noteq> NULL then inode_ref_inc (pwd x) s1 else s1)
           in kbind (lock_files from s2) (\<lambda>s3.
              kbind (kwhile (files_dup_body to from) (listGetNext (FileLinks s3) (FileHead from), s3)) (\<lambda>s4.
              kbind (unlock_files from s4) (\<lambda>s5. Ret (0, s5)))))"

definition files_get_ref :: "ptr \<Rightarrow> 'a kfs_scheme \<Rightarrow> int" where
  "files_get_ref fs s = files_ref (filestructs s fs)"

definition files_ref_inc :: "ptr \<Rightarrow> 'a kfs_scheme \<Rightarrow> int \<times> 'a kfs_scheme" where
  "files_ref_inc fs s = (files_ref (filestructs s fs) + 1, upd_filestruct fs (\<lambda>x. x\<lparr>files_ref := files_ref x + 1\<rparr>) s)"

definition files_ref_dec :: "ptr \<Rightarrow> 'a kfs_scheme \<Rightarrow> int \<times> 'a kfs_scheme" where
  "files_ref_dec fs s = (files_ref (filestructs s fs) - 1, upd_filestruct fs (\<lambda>x. x\<lparr>files_ref := files_ref x - 1\<rparr>) s)"

end
