(* ===== verification/Sysfile.thy ===== *)
theory Sysfile
  imports File
begin

text \<open>
  The file system calls, \<^verbatim>\<open>kern/fs/sysfile.c\<close>: transfers between user memory and open files through a
  kernel buffer of one page.
\<close>

abbreviation (input) IOBUF_SIZE :: u32 where "IOBUF_SIZE \<equiv> 4096"
abbreviation (input) FS_MAX_FPATH_LEN :: u32 where "FS_MAX_FPATH_LEN \<equiv> 4095"

definition cur_mm :: "'a kfs_scheme \<Rightarrow> ptr" where
  "cur_mm s = tmm (tasks s (CurrentTask s))"

text \<open>The result and \<^verbatim>\<open>*to\<close>.\<close>

definition copy_path :: "u32 \<Rightarrow> 'a kfs_scheme \<Rightarrow> (int \<times> ptr \<times> 'a kfs_scheme) kres" where
  "copy_path from s =
     (let mm = cur_mm s
      in kbind (kmalloc (FS_MAX_FPATH_LEN + 1) s) (\<lambda>(buffer, s1).
           if buffer = NULL then Ret (- E_NOMEM, NULL, s1)
           else kbind (lock_mm mm s1) (\<lambda>s2.
                kbind (copyLegalStr mm buffer from (FS_MAX_FPATH_LEN + 1) s2) (\<lambda>(ok, s3).
                kbind (unlock_mm mm s3) (\<lambda>s4.
                  if ok then Ret (0, buffer, s4)
                  else kbind (kfree buffer (FS_MAX_FPATH_LEN + 1) s4) (\<lambda>s5. Ret (- E_INVAL, NULL, s5)))))))"

definition sysfile_open :: "('a kfs_scheme) kops \<Rightarrow> u32 \<Rightarrow> u32 \<Rightarrow> 'a kfs_scheme \<Rightarrow> (int \<times> 'a kfs_scheme) kres" where
  "sysfile_open K upath open_flags s =
     kbind (copy_path upath s) (\<lambda>(ret, path, s1).
       if ret \<noteq> 0 then Ret (ret, s1)
       else kbind (file_open K path open_flags s1) (\<lambda>(ret, s2).
            kbind (kfree path (FS_MAX_FPATH_LEN + 1) s2) (\<lambda>s3. Ret (ret, s3))))"

definition sysfile_close :: "('a kfs_scheme) kops \<Rightarrow> int \<Rightarrow> 'a kfs_scheme \<Rightarrow> (int \<times> 'a kfs_scheme) kres" where
  "sysfile_close K fd s = file_close K fd s"

text \<open>
  The loops keep the user address, the number of bytes left, the number copied and the last result;
  they leave with the last result and the number copied.
\<close>

definition sysfile_read_body ::
    "('a kfs_scheme) kops \<Rightarrow> ptr \<Rightarrow> int \<Rightarrow> ptr \<Rightarrow> u32 \<times> u32 \<times> u32 \<times> int \<times> 'a kfs_scheme \<Rightarrow>
     (u32 \<times> u32 \<times> u32 \<times> int \<times> 'a kfs_scheme + int \<times> u32 \<times> 'a kfs_scheme) kres" where
  "sysfile_read_body K mm fd buffer = (\<lambda>(base, len, copied, ret, s).
     if len = 0 then Ret (Inr (ret, copied, s))
     else let alen = (if len < IOBUF_SIZE then len else IOBUF_SIZE)
          in kbind (file_read K fd buffer alen alen s) (\<lambda>(ret, alen, s1).
             kbind (if alen \<noteq> 0
                    then kbind (lock_mm mm s1) (\<lambda>s2.
                         kbind (copyToUser mm base buffer alen s2) (\<lambda>(ok, s3).
                         kbind (unlock_mm mm s3) (\<lambda>s4.
                           Ret (if ok then (base + alen, len - alen, copied + alen, s4) else (base, len, copied, s4)))))
                    else Ret (base, len, copied, s1)) (\<lambda>(base, len, copied, s2).
               Ret (if ret \<noteq> 0 \<or> alen = 0 then Inr (ret, copied, s2) else Inl (base, len, copied, ret, s2)))))"

definition sysfile_write_body ::
    "('a kfs_scheme) kops \<Rightarrow> ptr \<Rightarrow> int \<Rightarrow> ptr \<Rightarrow> u32 \<times> u32 \<times> u32 \<times> int \<times> 'a kfs_scheme \<Rightarrow>
     (u32 \<times> u32 \<times> u32 \<times> int \<times> 'a kfs_scheme + int \<times> u32 \<times> 'a kfs_scheme) kres" where
  "sysfile_write_body K mm fd buffer = (\<lambda>(base, len, copied, ret, s).
     if len = 0 then Ret (Inr (ret, copied, s))
     else let alen = (if len < IOBUF_SIZE then len else IOBUF_SIZE)
          in kbind (lock_mm mm s) (\<lambda>s1.
             kbind (copyFromUser mm buffer base alen False s1) (\<lambda>(ok, s2).
             kbind (unlock_mm mm s2) (\<lambda>s3.
             let ret = (if ok then ret else - E_INVAL)
             in kbind (if ret = 0
                       then kbind (file_write K fd buffer alen alen s3) (\<lambda>(ret, alen, s4).
                              Ret (if alen \<noteq> 0 then (base + alen, len - alen, copied + alen, ret, alen, s4)
                                   else (base, len, copied, ret, alen, s4)))
                       else Ret (base, len, copied, ret, alen, s3)) (\<lambda>(base, len, copied, ret, alen, s4).
                  Ret (if ret \<noteq> 0 \<or> alen = 0 then Inr (ret, copied, s4) else Inl (base, len, copied, ret, s4)))))))"

definition sysfile_rw ::
    "(('a kfs_scheme) kops \<Rightarrow> ptr \<Rightarrow> int \<Rightarrow> ptr \<Rightarrow> u32 \<times> u32 \<times> u32 \<times> int \<times> 'a kfs_scheme \<Rightarrow>
       (u32 \<times> u32 \<times> u32 \<times> int \<times> 'a kfs_scheme + int \<times> u32 \<times> 'a kfs_scheme) kres) \<Rightarrow> bool \<Rightarrow>
     ('a kfs_scheme) kops \<Rightarrow> int \<Rightarrow> u32 \<Rightarrow> u32 \<Rightarrow> 'a kfs_scheme \<Rightarrow> (int \<times> 'a kfs_scheme) kres" where
  "sysfile_rw body write K fd base len s =
     (let mm = cur_mm s
      in if len = 0 then Ret (0, s)
         else kbind (file_test_rw fd (\<not> write) write s) (\<lambda>ok.
           if \<not> ok then Ret (- E_INVAL, s)
           else kbind (kmalloc IOBUF_SIZE s) (\<lambda>(buffer, s1).
             if buffer = NULL then Ret (- E_NOMEM, s1)
             else kbind (kwhile (body K mm fd buffer) (base, len, 0, 0, s1)) (\<lambda>(ret, copied, s2).
                  kbind (kfree buffer IOBUF_SIZE s2) (\<lambda>s3.
                    Ret (if copied \<noteq> 0 then sint copied else ret, s3))))))"

definition sysfile_read :: "('a kfs_scheme) kops \<Rightarrow> int \<Rightarrow> u32 \<Rightarrow> u32 \<Rightarrow> 'a kfs_scheme \<Rightarrow> (int \<times> 'a kfs_scheme) kres" where
  "sysfile_read = sysfile_rw sysfile_read_body False"

definition sysfile_write :: "('a kfs_scheme) kops \<Rightarrow> int \<Rightarrow> u32 \<Rightarrow> u32 \<Rightarrow> 'a kfs_scheme \<Rightarrow> (int \<times> 'a kfs_scheme) kres" where
  "sysfile_write = sysfile_rw sysfile_write_body True"

definition sysfile_seek :: "('a kfs_scheme) kops \<Rightarrow> int \<Rightarrow> int \<Rightarrow> u32 \<Rightarrow> 'a kfs_scheme \<Rightarrow> (int \<times> 'a kfs_scheme) kres" where
  "sysfile_seek K fd pos flag s = file_seek K fd pos flag s"

text \<open>\<open>loc\<close> is the address of the local \<^verbatim>\<open>__local_stat\<close> on the kernel stack.\<close>

definition sysfile_fstat :: "('a kfs_scheme) kops \<Rightarrow> ptr \<Rightarrow> int \<Rightarrow> u32 \<Rightarrow> 'a kfs_scheme \<Rightarrow> (int \<times> 'a kfs_scheme) kres" where
  "sysfile_fstat K loc fd ustat s =
     (let mm = cur_mm s
      in kbind (file_fstat K fd \<lparr>st_attr = ld32 (mem s) loc, st_size = ld32 (mem s) (loc + 4)\<rparr> s) (\<lambda>(ret, st, s1).
           if ret \<noteq> 0 then Ret (ret, s1)
           else let s2 = s1\<lparr>mem := st32 (loc + 4) (st_size st) (st32 loc (st_attr st) (mem s1))\<rparr>
                in kbind (lock_mm mm s2) (\<lambda>s3.
                   kbind (copyToUser mm ustat loc 8 s3) (\<lambda>(ok, s4).
                   kbind (unlock_mm mm s4) (\<lambda>s5. Ret (if ok then ret else - E_INVAL, s5))))))"

definition sysfile_fsync :: "('a kfs_scheme) kops \<Rightarrow> int \<Rightarrow> 'a kfs_scheme \<Rightarrow> (int \<times> 'a kfs_scheme) kres" where
  "sysfile_fsync K fd s = file_fsync K fd s"

end
