(* ===== verification/Stdio.thy ===== *)
theory Stdio
  imports Sysfile "HOL-Library.Signed_Division"
begin

text \<open>
  The device inodes: standard input (\<^verbatim>\<open>kern/fs/stdio/stdin_inode.c\<close>), standard output
  (\<^verbatim>\<open>kern/fs/stdio/stdout_inode.c\<close>) and block devices (\<^verbatim>\<open>kern/fs/block/blk_inode.c\<close>), and their registration as named
  devices.  Reading standard input blocks while its buffer is empty: \<open>stdin_do_read_enter\<close> is the
  read up to and including the call of \<^verbatim>\<open>schedule\<close>, \<open>stdin_do_read_resume\<close> what follows it.
\<close>

abbreviation (input) STDIN_BUF_LEN :: int where "STDIN_BUF_LEN \<equiv> 2048"

section \<open>Standard input\<close>

text \<open>The positions are \<^verbatim>\<open>int32_t\<close>: incrementing the largest is undefined, and \<^verbatim>\<open>%\<close> truncates towards zero.\<close>

definition stdin_slot :: "int \<Rightarrow> 'a kfs_scheme \<Rightarrow> ptr" where
  "stdin_slot pos s = stdin_buffer s + of_int (pos smod STDIN_BUF_LEN)"

definition stdin_do_write :: "u8 \<Rightarrow> 'a kfs_scheme \<Rightarrow> 'a kfs_scheme kres" where
  "stdin_do_write c s =
     (if c \<noteq> 0
      then let s1 = s\<lparr>mem := (mem s)(stdin_slot (p_wpos s) s := c)\<rparr>;
               room = p_wpos s1 - p_rpos s1 < STDIN_BUF_LEN;
               s2 = (if room then s1\<lparr>p_wpos := p_wpos s1 + 1\<rparr> else s1)
           in if room \<and> p_wpos s1 = 0x7FFFFFFF then Undef
              else if \<not> waitlistIsEmpty (stdin_wait s2) s2 then wakeupAll (stdin_wait s2) WT_KBD True s2 else Ret s2
      else Ret s)"

text \<open>Copy what is buffered: \<open>Inl\<close> the number of bytes when the request is satisfied, \<open>Inr\<close> what is left of it when the buffer ran empty.\<close>

fun stdin_read_loop :: "ptr \<Rightarrow> nat \<Rightarrow> int \<Rightarrow> 'a kfs_scheme \<Rightarrow> (int + ptr \<times> nat \<times> int) \<times> 'a kfs_scheme" where
  "stdin_read_loop buf 0 ret s = (Inl ret, s)"
| "stdin_read_loop buf (Suc n) ret s =
     (if p_rpos s < p_wpos s
      then stdin_read_loop (buf + 1) n (ret + 1)
             (s\<lparr>mem := (mem s)(buf := mem s (stdin_slot (p_rpos s) s)), p_rpos := p_rpos s + 1\<rparr>)
      else (Inr (buf, Suc n, ret), s))"

text \<open>\<open>w\<close> is the address of the local \<^verbatim>\<open>_wait\<close>.\<close>

definition stdin_do_read_enter ::
    "ptr \<Rightarrow> ptr \<Rightarrow> nat \<Rightarrow> int \<Rightarrow> 'a kfs_scheme \<Rightarrow> ((int + ptr \<times> nat \<times> int) \<times> 'a kfs_scheme) kres" where
  "stdin_do_read_enter w buf n ret s =
     (case stdin_read_loop buf n ret s of
        (Inl r, s1) \<Rightarrow> Ret (Inl r, s1)
      | (Inr rest, s1) \<Rightarrow>
          kbind (waitAddCurrent (stdin_wait s1) w WT_KBD s1) (\<lambda>s2.
          kbind (schedule s2) (\<lambda>s3. Ret (Inr rest, s3))))"

definition stdin_do_read_resume ::
    "ptr \<Rightarrow> ptr \<times> nat \<times> int \<Rightarrow> 'a kfs_scheme \<Rightarrow> ((int + ptr \<times> nat \<times> int) \<times> 'a kfs_scheme) kres" where
  "stdin_do_read_resume w rest s =
     (case rest of (buf, n, ret) \<Rightarrow>
        let s1 = waitDelCurrent (stdin_wait s) w s
        in if wt_flags (waits s1 w) = WT_KBD then stdin_do_read_enter w buf n ret s1 else Ret (Inl ret, s1))"

text \<open>
  The read as a call, for callers that are not cut at the switch to another task: \<open>Block\<close> when the buffer runs empty, with the
  characters read so far delivered by \<open>stdin_do_read_enter\<close>.
\<close>

definition stdin_do_read :: "ptr \<Rightarrow> u32 \<Rightarrow> 'a kfs_scheme \<Rightarrow> (int \<times> 'a kfs_scheme) kres" where
  "stdin_do_read buf len s =
     (case stdin_read_loop buf (unat len) 0 s of (Inl r, s1) \<Rightarrow> Ret (r, s1) | (Inr _, s1) \<Rightarrow> Block)"

definition stdin_open :: "ptr \<Rightarrow> u32 \<Rightarrow> 'a kfs_scheme \<Rightarrow> (int \<times> 'a kfs_scheme) kres" where
  "stdin_open inode flag s = Ret (0, s)"

definition stdin_io :: "ptr \<Rightarrow> u32 \<Rightarrow> u32 \<Rightarrow> ptr \<Rightarrow> u32 \<Rightarrow> bool \<Rightarrow> 'a kfs_scheme \<Rightarrow> (int \<times> 'a kfs_scheme) kres" where
  "stdin_io inode secno nsec buffer blen write s =
     (if inode = NULL \<or> buffer = NULL then Ret (- INODE_PNULL, s)
      else if inode_kind (inodes s inode) \<noteq> Dev_Type then Ret (- INODE_NOT_DEV, s)
      else if \<not> write then stdin_do_read buffer blen s
      else Ret (- INODE_DENIED, s))"

text \<open>The fourth parameter is not a pointer: the number of bytes read is not stored.\<close>

definition stdin_read :: "ptr \<Rightarrow> ptr \<Rightarrow> u32 \<Rightarrow> u32 \<Rightarrow> 'a kfs_scheme \<Rightarrow> (int \<times> u32 \<times> 'a kfs_scheme) kres" where
  "stdin_read inode buffer len copied s =
     kbind (stdin_io inode 0 0 buffer len False s) (\<lambda>(ret, s1). Ret (ret, copied, s1))"

definition dev_ioctl :: "ptr \<Rightarrow> int \<Rightarrow> 'a kfs_scheme \<Rightarrow> (int \<times> 'a kfs_scheme) kres" where
  "dev_ioctl inode ctrl s = Ret (0, s)"

definition no_ops :: "'s INodeOps" where
  "no_ops = \<lparr>iop_lookup = None, iop_open = None, iop_read = None, iop_write = None, iop_lseek = None, iop_truncate = None,
     iop_create = None, iop_readdir = None, iop_mkdir = None, iop_dev_io = None, iop_dev_ioctl = None,
     iop_release = None, iop_delete = None, iop_rename = None, iop_stat = None, iop_sync = None, iop_get_type = None\<rparr>"

definition stdin_dev_op :: "('a kfs_scheme) INodeOps" where
  "stdin_dev_op = no_ops\<lparr>iop_open := Some stdin_open, iop_read := Some stdin_read, iop_dev_io := Some stdin_io,
     iop_dev_ioctl := Some dev_ioctl\<rparr>"

section \<open>Standard output\<close>

definition stdout_open :: "ptr \<Rightarrow> u32 \<Rightarrow> 'a kfs_scheme \<Rightarrow> (int \<times> 'a kfs_scheme) kres" where
  "stdout_open inode flag s = Ret (0, s)"

fun stdout_loop :: "ptr \<Rightarrow> nat \<Rightarrow> 'a kfs_scheme \<Rightarrow> 'a kfs_scheme" where
  "stdout_loop buffer 0 s = s"
| "stdout_loop buffer (Suc n) s = stdout_loop (buffer + 1) n (s\<lparr>con := consolePutc (mem s buffer) (con s)\<rparr>)"

definition stdout_io :: "ptr \<Rightarrow> u32 \<Rightarrow> u32 \<Rightarrow> ptr \<Rightarrow> u32 \<Rightarrow> bool \<Rightarrow> 'a kfs_scheme \<Rightarrow> (int \<times> 'a kfs_scheme) kres" where
  "stdout_io inode secno nsec buffer blen write s =
     (if inode = NULL \<or> buffer = NULL then Ret (- INODE_PNULL, s)
      else if inode_kind (inodes s inode) \<noteq> Dev_Type then Ret (- INODE_NOT_DEV, s)
      else if write then Ret (INODE_OK, stdout_loop buffer (unat blen) s)
      else Ret (- INODE_DENIED, s))"

definition stdout_write :: "ptr \<Rightarrow> ptr \<Rightarrow> u32 \<Rightarrow> u32 \<Rightarrow> 'a kfs_scheme \<Rightarrow> (int \<times> u32 \<times> 'a kfs_scheme) kres" where
  "stdout_write inode buffer len copied s =
     kbind (stdout_io inode 0 0 buffer len True s) (\<lambda>(ret, s1). Ret (ret, copied, s1))"

definition stdout_dev_op :: "('a kfs_scheme) INodeOps" where
  "stdout_dev_op = no_ops\<lparr>iop_open := Some stdout_open, iop_write := Some stdout_write, iop_dev_io := Some stdout_io,
     iop_dev_ioctl := Some dev_ioctl\<rparr>"

section \<open>Block devices\<close>

text \<open>
  \<^verbatim>\<open>blkdev_open\<close> and \<^verbatim>\<open>blkdev_io\<close> are declared \<^verbatim>\<open>void\<close> but called through pointers to functions that return a
  number: their results are not defined.
\<close>

definition blkdev_io :: "ptr \<Rightarrow> u32 \<Rightarrow> u32 \<Rightarrow> ptr \<Rightarrow> u32 \<Rightarrow> bool \<Rightarrow> 'a kfs_scheme \<Rightarrow> 'a kfs_scheme kres" where
  "blkdev_io inode secno nsec buffer blen write s =
     (if inode = NULL \<or> buffer = NULL then Ret s
      else if inode_kind (inodes s inode) \<noteq> Dev_Type then Ret s
      else kbind (diskIO_BCache (dev_blkdev (inodes s inode))
                    \<lparr>req_type = (if write then IO_WRITE else IO_READ), req_secno = secno, req_nsecs = nsec, req_buffer = buffer, req_bsize = blen\<rparr> s)
             (\<lambda>(_, s1). Ret s1))"

definition blk_dev_op :: "('a kfs_scheme) INodeOps" where
  "blk_dev_op = no_ops\<lparr>iop_open := Some (\<lambda>inode flag s. Undef),
     iop_dev_io := Some (\<lambda>inode secno nsec buffer blen write s. kbind (blkdev_io inode secno nsec buffer blen write s) (\<lambda>_. Undef)),
     iop_dev_ioctl := Some dev_ioctl\<rparr>"

definition get_new_blk_name :: "'a kfs_scheme \<Rightarrow> ptr \<times> 'a kfs_scheme" where
  "get_new_blk_name s =
     (let c = blk_counter s + 1
      in (blk_name s, s\<lparr>blk_counter := c, mem := (mem s)(blk_name s + 5 := of_int (c + 48))\<rparr>))"

definition blkdev_devinode_init :: "ptr \<Rightarrow> ptr \<Rightarrow> 'a kfs_scheme \<Rightarrow> (int \<times> 'a kfs_scheme) kres" where
  "blkdev_devinode_init inode blkdev s =
     (if inode = NULL then Ret (- INODE_PNULL, s)
      else kbind (blk_get_nr_block blkdev s) (\<lambda>n.
        Ret (0, upd_inode inode (\<lambda>x. x\<lparr>dev_blkdev := blkdev, dev_kind := BlockDevice, dev_blocks := n,
                  dev_blocksize := bd_block_size (blockdevs s blkdev)\<rparr>) s)))"

definition chr_devinode_init :: "ptr \<Rightarrow> 'a kfs_scheme \<Rightarrow> 'a kfs_scheme" where
  "chr_devinode_init inode s =
     (if inode = NULL then s else upd_inode inode (\<lambda>x. x\<lparr>dev_kind := CharDevice, dev_blocks := 0, dev_blocksize := 0\<rparr>) s)"

section \<open>Registration\<close>

definition stdin_init_vdev :: "'a kfs_scheme \<Rightarrow> 'a kfs_scheme kres" where
  "stdin_init_vdev s =
     kbind (kmalloc 2048 s) (\<lambda>(b, s1).
       if b = NULL then Panic ''stdin buffer kmalloc error!''
       else let s2 = s1\<lparr>stdin_buffer := b\<rparr>
            in kbind (create_vdev_inode StdinOps (waitlistInit (stdin_wait s2) s2)) (\<lambda>(inode, s3).
               kbind (vdev_add_dev (rodata s3 ''stdin'') inode False (chr_devinode_init inode s3)) (\<lambda>(_, s4). Ret s4)))"

definition stdout_init_vdev :: "'a kfs_scheme \<Rightarrow> 'a kfs_scheme kres" where
  "stdout_init_vdev s =
     kbind (create_vdev_inode StdoutOps s) (\<lambda>(inode, s1).
     kbind (vdev_add_dev (rodata s1 ''stdout'') inode False (chr_devinode_init inode s1)) (\<lambda>(_, s2). Ret s2))"

definition blk_init_body :: "ptr \<times> 'a kfs_scheme \<Rightarrow> (ptr \<times> 'a kfs_scheme + 'a kfs_scheme) kres" where
  "blk_init_body = (\<lambda>(listi, s).
     if listi = BlockDeviceList s then Ret (Inr s)
     else if listi \<noteq> NULL
     then kbind (create_vdev_inode BlkOps s) (\<lambda>(inode, s1).
          kbind (blkdev_devinode_init inode listi s1) (\<lambda>(_, s2).
            let (name, s3) = get_new_blk_name s2
            in kbind (vdev_add_dev name inode True s3) (\<lambda>(_, s4). Ret (Inl (listGetNext (BlkLinks s4) listi, s4)))))
     else Ret (Inl (listGetNext (BlkLinks s) listi, s)))"

definition blk_init_vdev :: "'a kfs_scheme \<Rightarrow> 'a kfs_scheme kres" where
  "blk_init_vdev s = kwhile blk_init_body (listGetNext (BlkLinks s) (BlockDeviceList s), s)"

definition init_vDev :: "'a kfs_scheme \<Rightarrow> 'a kfs_scheme kres" where
  "init_vDev s =
     (let s1 = initSem (vDevListSem s) 1 (s\<lparr>VdevLinks := initList VdevHead (VdevLinks s)\<rparr>)
      in kbind (stdin_init_vdev s1) (\<lambda>s2. kbind (stdout_init_vdev s2) (\<lambda>s3. kbind (blk_init_vdev s3) fs_init_vdev)))"

text \<open>The kernel's tables; those of the FAT file system are supplied by it.\<close>

definition kernel_ops ::
    "('a kfs_scheme) INodeOps \<Rightarrow> ('a kfs_scheme) INodeOps \<Rightarrow> (ptr \<Rightarrow> 'a kfs_scheme \<Rightarrow> (ptr \<times> 'a kfs_scheme) kres) \<Rightarrow> ('a kfs_scheme) kops" where
  "kernel_ops fat_file_op fat_dir_op get_fatfs_root_inode =
     \<lparr>ops_of = (\<lambda>i. case i of StdinOps \<Rightarrow> stdin_dev_op | StdoutOps \<Rightarrow> stdout_dev_op | BlkOps \<Rightarrow> blk_dev_op
                  | FatFileOps \<Rightarrow> fat_file_op | FatDirOps \<Rightarrow> fat_dir_op),
      get_root_inode = get_fatfs_root_inode\<rparr>"

end
