(* ===== verification/Wait_Lists.thy ===== *)
theory Wait_Lists
  imports Sync
begin

text \<open>
  Correctness of the wait lists of \<^verbatim>\<open>kern/krnl/sync/wait.c\<close> beyond semaphores: a task that goes to sleep on a list, and
  \<^verbatim>\<open>wakeupAll\<close>, which makes every task of the list runnable in order.
\<close>

lemma sched_mem:
  "wakeupTask t s = Ret s' \<Longrightarrow> mem s' = mem s"
  "schedule s = Ret s' \<Longrightarrow> mem s' = mem s"
  by (auto simp: wakeupTask_def schedule_def enqueueRunQueue_def dequeueRunQueue_def kbind_eq_Ret upd_task_def runTask_def switch_to_s_def
      lcr3_def Let_def split: if_splits)

text \<open>The tasks that sleep on the waiters \<open>ws\<close>, each on one of them.\<close>

definition sleepers :: "'a ksync_scheme \<Rightarrow> ptr set \<Rightarrow> ptr list \<Rightarrow> bool" where
  "sleepers s L ws \<longleftrightarrow> (\<forall>w \<in> set ws. waiting_ok s {} L w) \<and> distinct (map (\<lambda>w. wt_task (waits s w)) ws)"

lemma wakeupAll_step:
  assumes rq: "rq_inv s q L" and d: "dlist (WaitLinks s) h (w # ws)" and sl: "sleepers s L (w # ws)"
  shows "\<exists>s'. wakeupWait h w f True s = Ret s' \<and> rq_inv s' (q @ [wt_task (waits s w)]) L \<and> dlist (WaitLinks s') h ws \<and> sleepers s' L ws \<and>
    CurrentTask s' = CurrentTask s \<and> idle_task s' = idle_task s \<and> ksync.more s' = ksync.more s \<and> mem s' = mem s \<and>
    (\<forall>x. tstate (tasks s' x) = (if x = wt_task (waits s w) then TASK_RUNNABLE else tstate (tasks s x))) \<and>
    waits s' = (waits s)(w := (waits s w)\<lparr>wt_flags := f\<rparr>) \<and> WaitLinks s' = listDelInit w (WaitLinks s)"
proof -
  let ?t = "wt_task (waits s w)"
  define s2 where "s2 = upd_wait w (\<lambda>x. x\<lparr>wt_flags := f\<rparr>) (waitlistDel h w s)"
  have t: "?t \<in> L" "?t \<noteq> CurrentTask s" "?t \<noteq> idle_task s" "tstate (tasks s ?t) = TASK_SLEEPING"
    using sl by (simp_all add: sleepers_def waiting_ok_def Let_def)
  have sel2: "tasks s2 = tasks s" "CurrentTask s2 = CurrentTask s" "idle_task s2 = idle_task s" "mem s2 = mem s"
    "WaitLinks s2 = listDelInit w (WaitLinks s)" "waits s2 = (waits s)(w := (waits s w)\<lparr>wt_flags := f\<rparr>)" "ksync.more s2 = ksync.more s"
    by (simp_all add: s2_def waitlistDel_def upd_wait_def)
  have r2: "rq_inv s2 q L" using rq by (simp add: s2_def waitlistDel_def)
  obtain s' where s': "wakeupTask ?t s2 = Ret s'" "rq_inv s' (q @ [?t]) L" "CurrentTask s' = CurrentTask s" "idle_task s' = idle_task s"
    "\<forall>x. tstate (tasks s' x) = (if x = ?t then TASK_RUNNABLE else tstate (tasks s x))"
    using wakeupTask_ok [OF r2 t(1)] t sel2 by auto
  have run: "wakeupWait h w f True s = Ret s'" using s'(1) by (simp add: wakeupWait_def Let_def s2_def waitlistDel_def)
  have k: "waits s' = waits s2" "WaitLinks s' = WaitLinks s2" using wakeupTask_ksync [OF s'(1)] by simp_all
  have m: "ksync.more s' = ksync.more s2"
    using wakeupTask_more [OF s'(1)] by (cases s', cases s2) simp
  have w: "w \<notin> set ws" using ll.rep_distinct [OF d] by auto
  have "dlist (WaitLinks s') h ws" unfolding k sel2 using ll.rep_del [OF d, of w] by simp
  moreover have "sleepers s' L ws"
  proof -
    have e: "wt_task (waits s' x) = wt_task (waits s x)" for x by (simp add: k sel2)
    have "wt_task (waits s x) \<noteq> ?t" if "x \<in> set ws" for x using sl that unfolding sleepers_def by (simp add: image_iff) metis
    then have "waiting_ok s' {} L x" if "x \<in> set ws" for x
      using sl that s'(3-5) e by (auto simp: sleepers_def waiting_ok_def Let_def)
    moreover have m: "map (\<lambda>w. wt_task (waits s' w)) ws = map (\<lambda>w. wt_task (waits s w)) ws" by (simp add: e)
    ultimately show ?thesis using sl unfolding sleepers_def m by simp
  qed
  ultimately show ?thesis using run s' k m sel2 sched_mem(1) [OF s'(1)] by (intro exI [of _ s']) simp
qed

lemma wakeupAll_loop:
  assumes "rq_inv s q L" "dlist (WaitLinks s) h (w # ws)" "sleepers s L (w # ws)"
  shows "\<exists>s'. kwhile (wakeupAll_body h f True) (w, s) = Ret s' \<and> rq_inv s' (q @ map (\<lambda>w. wt_task (waits s w)) (w # ws)) L \<and>
    dlist (WaitLinks s') h [] \<and> CurrentTask s' = CurrentTask s \<and> idle_task s' = idle_task s \<and> ksync.more s' = ksync.more s \<and> mem s' = mem s \<and>
    (\<forall>x. tstate (tasks s' x) = (if x \<in> (\<lambda>w. wt_task (waits s w)) ` set (w # ws) then TASK_RUNNABLE else tstate (tasks s x))) \<and>
    waits s' = (\<lambda>x. if x \<in> set (w # ws) then (waits s x)\<lparr>wt_flags := f\<rparr> else waits s x) \<and>
    (\<forall>x \<in> set (w # ws). listIsEmpty (WaitLinks s') x) \<and> (\<forall>x. x \<notin> insert h (set (w # ws)) \<longrightarrow> lp_next (WaitLinks s') x = lp_next (WaitLinks s) x)"
  using assms
proof (induction ws arbitrary: s q w)
  case Nil
  obtain s' where s': "wakeupWait h w f True s = Ret s'" "rq_inv s' (q @ [wt_task (waits s w)]) L" "dlist (WaitLinks s') h []"
    "CurrentTask s' = CurrentTask s" "idle_task s' = idle_task s" "ksync.more s' = ksync.more s" "mem s' = mem s"
    "\<forall>x. tstate (tasks s' x) = (if x = wt_task (waits s w) then TASK_RUNNABLE else tstate (tasks s x))"
    "waits s' = (waits s)(w := (waits s w)\<lparr>wt_flags := f\<rparr>)" "WaitLinks s' = listDelInit w (WaitLinks s)"
    using wakeupAll_step [OF Nil] by blast
  have "waitlistGetFirst h s' = NULL" using first_of_queue [OF s'(3)] by simp
  then have "kwhile (wakeupAll_body h f True) (w, s) = Ret s'"
    using s'(1) by (subst kwhile_unfold) (simp add: wakeupAll_body_def Let_def)
  moreover have "\<forall>x. x \<notin> {h, w} \<longrightarrow> lp_next (WaitLinks s') x = lp_next (WaitLinks s) x"
    unfolding s'(10) using next_outside_del [OF Nil(2), of w] by simp
  ultimately show ?case using s' by (intro exI [of _ s']) (auto simp: listIsEmpty_def next_del_self)
next
  case (Cons v ws)
  obtain s1 where s1: "wakeupWait h w f True s = Ret s1" "rq_inv s1 (q @ [wt_task (waits s w)]) L" "dlist (WaitLinks s1) h (v # ws)" "sleepers s1 L (v # ws)"
    "CurrentTask s1 = CurrentTask s" "idle_task s1 = idle_task s" "ksync.more s1 = ksync.more s" "mem s1 = mem s"
    "\<forall>x. tstate (tasks s1 x) = (if x = wt_task (waits s w) then TASK_RUNNABLE else tstate (tasks s x))"
    "waits s1 = (waits s)(w := (waits s w)\<lparr>wt_flags := f\<rparr>)" "WaitLinks s1 = listDelInit w (WaitLinks s)"
    using wakeupAll_step [OF Cons.prems] by blast
  have vn: "v \<noteq> NULL" "\<forall>x \<in> set (v # ws). x \<noteq> NULL" using s1(4) by (auto simp: sleepers_def waiting_ok_def Let_def)
  have "waitlistGetFirst h s1 = v" using first_of_queue [OF s1(3) vn(2)] by simp
  then have run: "kwhile (wakeupAll_body h f True) (w, s) = kwhile (wakeupAll_body h f True) (v, s1)"
    using s1(1) vn(1) by (subst kwhile_unfold) (simp add: wakeupAll_body_def Let_def)
  obtain s' where s': "kwhile (wakeupAll_body h f True) (v, s1) = Ret s'"
    "rq_inv s' ((q @ [wt_task (waits s w)]) @ map (\<lambda>w. wt_task (waits s1 w)) (v # ws)) L"
    "dlist (WaitLinks s') h []" "CurrentTask s' = CurrentTask s1" "idle_task s' = idle_task s1" "ksync.more s' = ksync.more s1" "mem s' = mem s1"
    "\<forall>x. tstate (tasks s' x) = (if x \<in> (\<lambda>w. wt_task (waits s1 w)) ` set (v # ws) then TASK_RUNNABLE else tstate (tasks s1 x))"
    "waits s' = (\<lambda>x. if x \<in> set (v # ws) then (waits s1 x)\<lparr>wt_flags := f\<rparr> else waits s1 x)"
    "\<forall>x \<in> set (v # ws). listIsEmpty (WaitLinks s') x" "\<forall>x. x \<notin> insert h (set (v # ws)) \<longrightarrow> lp_next (WaitLinks s') x = lp_next (WaitLinks s1) x"
    using Cons.IH [OF s1(2-4)] by blast
  have w: "w \<notin> set (v # ws)" "w \<noteq> h" using ll.rep_distinct [OF Cons.prems(2)] by auto
  have e: "wt_task (waits s1 x) = wt_task (waits s x)" for x by (simp add: s1(10))
  have tst: "\<forall>x. tstate (tasks s' x) = (if x \<in> (\<lambda>w. wt_task (waits s w)) ` set (w # v # ws) then TASK_RUNNABLE else tstate (tasks s x))"
    unfolding s'(8) [THEN spec] s1(9) [THEN spec] e by auto
  have wt: "waits s' = (\<lambda>x. if x \<in> set (w # v # ws) then (waits s x)\<lparr>wt_flags := f\<rparr> else waits s x)"
    unfolding s'(9) s1(10) using w(1) by (auto simp: fun_eq_iff)
  have "listIsEmpty (WaitLinks s') w"
    using s'(11) w unfolding listIsEmpty_def s1(11) by (simp add: next_del_self)
  moreover have "\<forall>x. x \<notin> insert h (set (w # v # ws)) \<longrightarrow> lp_next (WaitLinks s') x = lp_next (WaitLinks s) x"
    using s'(11) next_outside_del [OF Cons.prems(2), of w] unfolding s1(11) by simp
  moreover have "rq_inv s' (q @ map (\<lambda>w. wt_task (waits s w)) (w # v # ws)) L" using s'(2) unfolding e by simp
  ultimately show ?case using run s' s1 tst wt by (intro exI [of _ s']) simp
qed

lemma wakeupAll_ok:
  assumes "rq_inv s q L" "dlist (WaitLinks s) h ws" "sleepers s L ws"
  shows "\<exists>s'. wakeupAll h f True s = Ret s' \<and> rq_inv s' (q @ map (\<lambda>w. wt_task (waits s w)) ws) L \<and>
    dlist (WaitLinks s') h [] \<and> CurrentTask s' = CurrentTask s \<and> idle_task s' = idle_task s \<and> ksync.more s' = ksync.more s \<and> mem s' = mem s \<and>
    (\<forall>x. tstate (tasks s' x) = (if x \<in> (\<lambda>w. wt_task (waits s w)) ` set ws then TASK_RUNNABLE else tstate (tasks s x))) \<and>
    waits s' = (\<lambda>x. if x \<in> set ws then (waits s x)\<lparr>wt_flags := f\<rparr> else waits s x) \<and>
    (\<forall>x \<in> set ws. listIsEmpty (WaitLinks s') x) \<and> (\<forall>x. x \<notin> insert h (set ws) \<longrightarrow> lp_next (WaitLinks s') x = lp_next (WaitLinks s) x)"
proof -
  have n: "\<forall>x \<in> set ws. x \<noteq> NULL" using assms(3) by (auto simp: sleepers_def waiting_ok_def Let_def)
  note f = first_of_queue [OF assms(2) n]
  show ?thesis
  proof (cases ws)
    case Nil
    then show ?thesis using f assms by (intro exI [of _ s]) (simp add: wakeupAll_def)
  next
    case (Cons w vs)
    then have "wakeupAll h f True s = kwhile (wakeupAll_body h f True) (w, s)" using f n by (simp add: wakeupAll_def)
    then show ?thesis using wakeupAll_loop [of s q L h w vs f] assms Cons by simp
  qed
qed

text \<open>The current task goes to sleep on a list and another one runs.\<close>

lemma sleep_on_ok:
  fixes s :: "'a ksync_scheme"
  assumes rq: "rq_inv s q L" and d: "dlist (WaitLinks s) h ws" and sl: "sleepers s L ws"
    and c: "CurrentTask s \<noteq> idle_task s" and w: "w \<noteq> NULL" "w \<noteq> h" "w \<notin> set ws" "CurrentTask s \<notin> (\<lambda>w. wt_task (waits s w)) ` set ws"
  shows "\<exists>s1 s'. waitAddCurrent h w f s = Ret s1 \<and> schedule s1 = Ret s' \<and> rq_inv s' (tl q) L \<and>
    CurrentTask s' = (case q of [] \<Rightarrow> idle_task s | t # _ \<Rightarrow> t) \<and> idle_task s' = idle_task s \<and>
    dlist (WaitLinks s') h (ws @ [w]) \<and> wt_task (waits s' w) = CurrentTask s \<and> sleepers s' L (ws @ [w]) \<and>
    (\<forall>x. tstate (tasks s' x) = (if x = CurrentTask s then TASK_SLEEPING else tstate (tasks s x))) \<and>
    ksync.more s' = ksync.more s \<and> mem s' = mem s"
proof -
  let ?c = "CurrentTask s"
  have cL: "?c \<in> L" "?c \<noteq> NULL" using rq unfolding rq_inv_def by metis+
  define s1 where "s1 = waitInit w ?c s"
  define s2 where "s2 = upd_task ?c (\<lambda>t. t\<lparr>tstate := TASK_SLEEPING\<rparr>) s1"
  define s3 where "s3 = upd_task ?c (\<lambda>t. t\<lparr>wait_state := f\<rparr>) s2"
  define s4 where "s4 = waitlistAdd h w s3"
  have sel1: "CurrentTask s1 = ?c" "idle_task s1 = idle_task s" "tasks s1 = tasks s" "mem s1 = mem s" "ksync.more s1 = ksync.more s"
    "waits s1 = (waits s)(w := (waits s w)\<lparr>wt_task := ?c, wt_flags := WT_INTERRUPTED\<rparr>)"
    "WaitLinks s1 = initList w (WaitLinks s)"
    by (simp_all add: s1_def waitInit_def upd_wait_def Let_def)
  have r1: "rq_inv s1 q L" using rq by (simp add: s1_def waitInit_def Let_def)
  have ts: "time_slice (tasks s1 ?c) \<le> 1" using r1 cL by (simp add: rq_inv_def)
  have r2: "rq_inv s2 q L"
    unfolding s2_def using rq_inv_current [OF r1, of "\<lambda>t. t\<lparr>tstate := TASK_SLEEPING\<rparr>"] ts sel1 by simp
  have "time_slice (tasks s2 ?c) \<le> 1" using ts by (simp add: s2_def)
  then have r3: "rq_inv s3 q L"
    unfolding s3_def using rq_inv_current [OF r2, of "\<lambda>t. t\<lparr>wait_state := f\<rparr>"] sel1 by (simp add: s2_def)
  have r4: "rq_inv s4 q L" using r3 by (simp add: s4_def waitlistAdd_def)
  have add: "waitAddCurrent h w f s = Ret s4"
    using cL sel1 by (simp add: waitAddCurrent_def Let_def s4_def s3_def s2_def s1_def)
  have cur4: "CurrentTask s4 = ?c" "idle_task s4 = idle_task s"
    using sel1 by (simp_all add: s4_def waitlistAdd_def s3_def s2_def)
  have st4: "tstate (tasks s4 t) = (if t = ?c then TASK_SLEEPING else tstate (tasks s t))" for t
    using sel1 by (simp add: s4_def waitlistAdd_def s3_def s2_def)
  have rqq: "requeue s4 q = q" using st4 cur4 by (simp add: requeue_def)
  obtain s5 where s5: "schedule s4 = Ret s5" "rq_inv s5 (tl q) L"
    "CurrentTask s5 = (case q of [] \<Rightarrow> idle_task s | t # _ \<Rightarrow> t)" "idle_task s5 = idle_task s"
    "\<forall>t. tstate (tasks s5 t) = tstate (tasks s4 t)"
    using schedule_ok [OF r4] unfolding rqq cur4 by blast
  have m4: "mem s4 = mem s" "ksync.more s4 = ksync.more s"
    using sel1 by (simp_all add: s4_def waitlistAdd_def s3_def s2_def upd_task_def)
  have m5: "mem s5 = mem s" "ksync.more s5 = ksync.more s"
    using sched_mem(2) [OF s5(1)] schedule_more [OF s5(1)] m4 by (simp, cases s5, cases s4, simp)
  have l5: "WaitLinks s5 = listAddTail h w (initList w (WaitLinks s))"
    "waits s5 = (waits s)(w := (waits s w)\<lparr>wt_task := ?c, wt_flags := WT_INTERRUPTED\<rparr>)"
    using schedule_ksync [OF s5(1)] sel1 by (simp_all add: s4_def waitlistAdd_def s3_def s2_def)
  have d0: "dlist (initList w (WaitLinks s)) h ws" using d w by (intro dlist_initList_other) auto
  have d5: "dlist (WaitLinks s5) h (ws @ [w])" unfolding l5 using ll.rep_add_tail [OF d0 w(2) w(3)] .
  have cur5: "CurrentTask s5 = idle_task s \<or> tstate (tasks s (CurrentTask s5)) = TASK_RUNNABLE"
  proof -
    have "set q = ready s L" using rq by (simp add: rq_inv_def)
    then show ?thesis using s5(3) by (cases q) (auto simp: ready_def)
  qed
  have cne: "CurrentTask s5 \<noteq> ?c"
  proof -
    have "set q = ready s L" using rq by (simp add: rq_inv_def)
    then show ?thesis using s5(3) c by (cases q) (auto simp: ready_def)
  qed
  have "sleepers s5 L (ws @ [w])"
  proof -
    have e: "wt_task (waits s5 x) = wt_task (waits s x)" if "x \<in> set ws" for x using that w(3) by (auto simp: l5)
    have ok: "waiting_ok s5 {} L x" if x: "x \<in> set ws" for x
    proof -
      have o: "x \<noteq> NULL" "wt_task (waits s x) \<in> L" "wt_task (waits s x) \<noteq> idle_task s" "tstate (tasks s (wt_task (waits s x))) = TASK_SLEEPING"
        using sl x by (simp_all add: sleepers_def waiting_ok_def Let_def)
      moreover have "wt_task (waits s x) \<noteq> CurrentTask s5" using o(3,4) cur5 by auto
      moreover have "wt_task (waits s x) \<noteq> ?c" using w(4) x by (metis imageI)
      ultimately show ?thesis using e [OF x] s5(4,5) st4 by (simp add: waiting_ok_def Let_def)
    qed
    have "waiting_ok s5 {} L w" using w(1) cL c cne s5(4,5) st4 by (simp add: waiting_ok_def Let_def l5)
    moreover have m: "map (\<lambda>w. wt_task (waits s5 w)) (ws @ [w]) = map (\<lambda>w. wt_task (waits s w)) ws @ [?c]"
      using e by (simp del: l5) (simp add: l5)
    ultimately show ?thesis using sl ok w(4) unfolding sleepers_def m by simp
  qed
  then show ?thesis using add s5 d5 m5 st4 by (intro exI [of _ s4] exI [of _ s5]) (simp add: l5)
qed

end
