(* ===== verification/Stdio_Correct.thy ===== *)
theory Stdio_Correct
  imports Stdio Wait_Lists
begin

text \<open>
  Standard input as a queue: the ring buffer between \<^verbatim>\<open>p_rpos\<close> and \<^verbatim>\<open>p_wpos\<close> refines a queue of at most 2048
  characters, from which reads take in order.
\<close>

section \<open>The ring buffer\<close>

definition stdin_inv :: "'a kfs_scheme \<Rightarrow> bool" where
  "stdin_inv s \<longleftrightarrow> 0 \<le> p_rpos s \<and> p_rpos s \<le> p_wpos s \<and> p_wpos s \<le> p_rpos s + STDIN_BUF_LEN \<and> p_wpos s \<le> 0x7FFFFFFF"

definition stdin_queue :: "'a kfs_scheme \<Rightarrow> u8 list" where
  "stdin_queue s = map (\<lambda>k. mem s (stdin_slot (p_rpos s + int k) s)) [0..<nat (p_wpos s - p_rpos s)]"

definition stdin_ring :: "'a kfs_scheme \<Rightarrow> ptr set" where
  "stdin_ring s = span (stdin_buffer s) 2048"

lemma slot_mod: "0 \<le> p \<Longrightarrow> stdin_slot p s = stdin_buffer s + of_nat (nat (p mod 2048))"
proof -
  assume "0 \<le> p"
  then have "p smod 2048 = p mod 2048" by (simp add: smod_int_alt_def sgn_if)
  then show ?thesis by (simp add: stdin_slot_def)
qed

lemma slot_inject:
  assumes "0 < d" "d < STDIN_BUF_LEN" "0 \<le> p"
  shows "stdin_slot (p + d) s \<noteq> stdin_slot p s"
proof
  assume "stdin_slot (p + d) s = stdin_slot p s"
  then have "of_nat (nat ((p + d) mod 2048)) = (of_nat (nat (p mod 2048)) :: u32)" using assms by (simp add: slot_mod)
  moreover have "nat (x mod 2048) < 2 ^ 32" for x :: int
    using pos_mod_bound [of 2048 x] by (simp add: nat_less_iff)
  ultimately have "nat ((p + d) mod 2048) = nat (p mod 2048)" using of_nat_u32_inject by blast
  then have "(p + d) mod 2048 = p mod 2048" by (simp add: eq_nat_nat_iff)
  then have "2048 dvd d" by (metis add_diff_cancel_left' mod_eq_dvd_iff)
  then show False using assms zdvd_not_zless [of d 2048] by simp
qed

lemma slot_in_ring: "0 \<le> p \<Longrightarrow> stdin_slot p s \<in> stdin_ring s"
proof -
  assume p: "0 \<le> p"
  have "nat (p mod 2048) \<in> {..<2048}" using pos_mod_bound [of 2048 p] by (simp add: nat_less_iff)
  then show ?thesis unfolding stdin_ring_def span_def slot_mod [OF p] by (rule imageI)
qed

lemma slot_frame [simp]:
  "stdin_slot p (s\<lparr>mem := m\<rparr>) = stdin_slot p s" "stdin_slot p (s\<lparr>p_wpos := w\<rparr>) = stdin_slot p s"
  "stdin_slot p (s\<lparr>p_rpos := r\<rparr>) = stdin_slot p s"
  by (simp_all add: stdin_slot_def)

lemma length_queue: "length (stdin_queue s) = nat (p_wpos s - p_rpos s)"
  by (simp add: stdin_queue_def)

text \<open>The character goes into the ring; the rest of the state is as before.\<close>

definition stdin_put :: "u8 \<Rightarrow> 'a kfs_scheme \<Rightarrow> 'a kfs_scheme" where
  "stdin_put c s = (let s1 = s\<lparr>mem := (mem s)(stdin_slot (p_wpos s) s := c)\<rparr>
     in if p_wpos s - p_rpos s < STDIN_BUF_LEN then s1\<lparr>p_wpos := p_wpos s + 1\<rparr> else s1)"

abbreviation (input) stdin_accepts :: "u8 list \<Rightarrow> u8 \<Rightarrow> u8 list" where
  "stdin_accepts q c \<equiv> (if length q < 2048 then q @ [c] else c # tl q)"

lemma stdin_put_queue:
  assumes "stdin_inv s" "length (stdin_queue s) = 2048 \<or> p_wpos s < 0x7FFFFFFF"
  shows "stdin_inv (stdin_put c s)" "stdin_queue (stdin_put c s) = stdin_accepts (stdin_queue s) c"
proof -
  define n where "n = nat (p_wpos s - p_rpos s)"
  have w: "p_wpos s = p_rpos s + int n" "0 \<le> p_rpos s" "n \<le> 2048"
    using assms(1) by (simp_all add: n_def stdin_inv_def nat_le_iff)
  define m where "m = (mem s)(stdin_slot (p_wpos s) s := c)"
  have s': "stdin_put c s = (if n < 2048 then s\<lparr>mem := m, p_wpos := p_wpos s + 1\<rparr> else s\<lparr>mem := m\<rparr>)"
    by (simp add: stdin_put_def m_def w(1))
  have keep: "m (stdin_slot (p_rpos s + int k) s) = mem s (stdin_slot (p_rpos s + int k) s)" if "k < n" "n - k < 2048" for k
  proof -
    have "stdin_slot (p_rpos s + int k + int (n - k)) s \<noteq> stdin_slot (p_rpos s + int k) s"
      using that w(2) by (intro slot_inject) simp_all
    then show ?thesis using that(1) by (simp add: m_def w of_nat_diff algebra_simps)
  qed
  show "stdin_queue (stdin_put c s) = stdin_accepts (stdin_queue s) c"
  proof (cases "n < 2048")
    case True
    then have "stdin_queue (stdin_put c s) = map (\<lambda>k. m (stdin_slot (p_rpos s + int k) s)) [0..<Suc n]"
      using w by (simp add: stdin_queue_def s' nat_add_distrib)
    moreover have "m (stdin_slot (p_rpos s + int n) s) = c" by (simp add: m_def w)
    ultimately show ?thesis using True keep by (simp add: length_queue n_def [symmetric]) (simp add: stdin_queue_def n_def)
  next
    case False
    then have n: "n = 2048" using w(3) by simp
    have full: "stdin_slot (p_rpos s + int 0) s = stdin_slot (p_wpos s) s" using w(2) by (simp add: slot_mod w(1) n)
    obtain k where k: "n = Suc k" using n by (cases n) simp_all
    have l: "[0..<n] = 0 # map Suc [0..<k]" unfolding k by (simp add: upt_conv_Cons map_Suc_upt del: upt_Suc)
    have "stdin_queue (stdin_put c s) = map (\<lambda>k. m (stdin_slot (p_rpos s + int k) s)) [0..<n]"
      using w n by (simp add: stdin_queue_def s' del: upt_rec_numeral)
    also have "\<dots> = c # map (\<lambda>k. mem s (stdin_slot (p_rpos s + int (Suc k)) s)) [0..<k]"
      using keep [of "Suc _"] full k n unfolding l by (simp add: m_def [symmetric]) (simp add: m_def)
    also have "\<dots> = c # tl (stdin_queue s)"
      unfolding stdin_queue_def n_def [symmetric] l by (simp add: comp_def)
    finally show ?thesis using n by (simp add: length_queue n_def [symmetric])
  qed
  show "stdin_inv (stdin_put c s)" using assms w by (auto simp: stdin_inv_def s' length_queue n_def [symmetric])
qed

lemma stdin_put_sel:
  "ksync.truncate (stdin_put c s) = (ksync.truncate s)\<lparr>mem := mem (stdin_put c s)\<rparr>"
  "stdin_wait (stdin_put c s) = stdin_wait s" "stdin_buffer (stdin_put c s) = stdin_buffer s" "WaitLinks (stdin_put c s) = WaitLinks s"
  "waits (stdin_put c s) = waits s" "tasks (stdin_put c s) = tasks s" "CurrentTask (stdin_put c s) = CurrentTask s"
  "idle_task (stdin_put c s) = idle_task s" "rq_inv (stdin_put c s) q L = rq_inv s q L" "sleepers (stdin_put c s) L ws = sleepers s L ws"
  "kfs.more (stdin_put c s) = kfs.more s"
  by (simp_all add: stdin_put_def Let_def ksync.defs rq_inv_def ready_def sleepers_def waiting_ok_def)

text \<open>What standard input depends on.\<close>

lemma stdin_cong:
  fixes s t :: "'a kfs_scheme"
  assumes "ksync.more t = ksync.more s" "mem t = mem s"
  shows "stdin_inv t = stdin_inv s" "stdin_queue t = stdin_queue s" "stdin_wait t = stdin_wait s" "stdin_ring t = stdin_ring s"
    "kfs.more t = kfs.more s"
proof -
  have "p_rpos t = p_rpos s" "p_wpos t = p_wpos s" "stdin_buffer t = stdin_buffer s" and w: "stdin_wait t = stdin_wait s" "kfs.more t = kfs.more s"
    using assms(1) by (cases s, cases t, simp)+
  then show "stdin_inv t = stdin_inv s" "stdin_queue t = stdin_queue s" "stdin_wait t = stdin_wait s" "stdin_ring t = stdin_ring s"
    "kfs.more t = kfs.more s"
    using assms(2) by (simp_all add: stdin_inv_def stdin_queue_def stdin_slot_def stdin_ring_def)
qed

lemma stdin_do_write_ok:
  fixes s :: "'a kfs_scheme"
  assumes "stdin_inv s" "c \<noteq> 0" "rq_inv s q L" "dlist (WaitLinks s) (stdin_wait s) ws" "sleepers s L ws"
  shows "if length (stdin_queue s) < 2048 \<and> p_wpos s = 0x7FFFFFFF then stdin_do_write c s = Undef
    else \<exists>s'. stdin_do_write c s = Ret s' \<and> stdin_inv s' \<and> stdin_queue s' = stdin_accepts (stdin_queue s) c \<and>
      rq_inv s' (q @ map (\<lambda>w. wt_task (waits s w)) ws) L \<and> dlist (WaitLinks s') (stdin_wait s') [] \<and>
      (\<forall>w \<in> set ws. tstate (tasks s' (wt_task (waits s w))) = TASK_RUNNABLE \<and> waits s' w = (waits s w)\<lparr>wt_flags := WT_KBD\<rparr> \<and>
         listIsEmpty (WaitLinks s') w) \<and>
      stdin_wait s' = stdin_wait s \<and> mem s' = mem (stdin_put c s) \<and> kfs.more s' = kfs.more s"
proof -
  have room: "p_wpos s - p_rpos s < STDIN_BUF_LEN \<longleftrightarrow> length (stdin_queue s) < 2048"
    using assms(1) by (auto simp: length_queue stdin_inv_def)
  have e: "waitlistIsEmpty (stdin_wait s) (stdin_put c s) \<longleftrightarrow> ws = []"
    using ll.rep_empty [OF assms(4)] by (simp add: waitlistIsEmpty_def stdin_put_sel)
  have run: "stdin_do_write c s = (if length (stdin_queue s) < 2048 \<and> p_wpos s = 0x7FFFFFFF then Undef
      else if ws \<noteq> [] then wakeupAll (stdin_wait s) WT_KBD True (stdin_put c s) else Ret (stdin_put c s))"
    using assms(2) e by (cases "length (stdin_queue s) < 2048") (simp_all add: stdin_do_write_def Let_def room [symmetric] stdin_put_def)
  show ?thesis
  proof (cases "length (stdin_queue s) < 2048 \<and> p_wpos s = 0x7FFFFFFF")
    case False
    have len: "length (stdin_queue s) = 2048 \<or> p_wpos s < 0x7FFFFFFF"
      using False assms(1) by (auto simp: length_queue stdin_inv_def)
    note p = stdin_put_queue [OF assms(1) len, of c]
    obtain s' where s': "wakeupAll (stdin_wait s) WT_KBD True (stdin_put c s) = Ret s'"
      "rq_inv s' (q @ map (\<lambda>w. wt_task (waits s w)) ws) L" "dlist (WaitLinks s') (stdin_wait s) []"
      "ksync.more s' = ksync.more (stdin_put c s)" "mem s' = mem (stdin_put c s)"
      "\<forall>x. tstate (tasks s' x) = (if x \<in> (\<lambda>w. wt_task (waits s w)) ` set ws then TASK_RUNNABLE else tstate (tasks s x))"
      "waits s' = (\<lambda>x. if x \<in> set ws then (waits s x)\<lparr>wt_flags := WT_KBD\<rparr> else waits s x)" "\<forall>x \<in> set ws. listIsEmpty (WaitLinks s') x"
      using wakeupAll_ok [of "stdin_put c s" q L "stdin_wait s" ws WT_KBD] assms(3-5) unfolding stdin_put_sel by blast
    have "stdin_do_write c s = Ret s'"
    proof (cases "ws = []")
      case True
      have "waitlistGetFirst (stdin_wait s) (stdin_put c s) = NULL"
        using first_of_queue [of "stdin_put c s" "stdin_wait s" ws] assms(4) True by (simp add: stdin_put_sel)
      then have "s' = stdin_put c s" using s'(1) by (simp add: wakeupAll_def)
      then show ?thesis using run False True by simp
    qed (use run False s'(1) in simp)
    moreover have "stdin_inv s'" "stdin_queue s' = stdin_accepts (stdin_queue s) c" "stdin_wait s' = stdin_wait s" "kfs.more s' = kfs.more s"
      using stdin_cong [OF s'(4,5)] p stdin_put_sel(2,11) [of c s] by simp_all
    ultimately show ?thesis unfolding if_not_P [OF False] using s' by (intro exI [of _ s']) auto
  qed (use run in simp)
qed

text \<open>The reading loop takes what there is, up to what is asked for.\<close>

lemma stdin_read_loop_ok:
  fixes s :: "'a kfs_scheme"
  assumes "stdin_inv s" "span buf n \<inter> stdin_ring s = {}" "n \<le> 2 ^ 32" "k = min n (length (stdin_queue s))"
  shows "\<exists>s'. stdin_read_loop buf n r s = (if k = n then Inl (r + int n) else Inr (buf + of_nat k, n - k, r + int k), s') \<and>
    stdin_inv s' \<and> stdin_queue s' = drop k (stdin_queue s) \<and>
    rdbytes (mem s') buf k = take k (stdin_queue s) \<and> (\<forall>a. a \<notin> span buf k \<longrightarrow> mem s' a = mem s a) \<and>
    s' = s\<lparr>mem := mem s', p_rpos := p_rpos s'\<rparr>"
  using assms
proof (induction n arbitrary: buf r s k)
  case 0
  then show ?case by (simp add: rdbytes_def)
next
  case (Suc n)
  show ?case
  proof (cases "p_rpos s < p_wpos s")
    case False
    then have "length (stdin_queue s) = 0" by (simp add: length_queue)
    then have "k = 0" using Suc.prems(4) by simp
    then show ?thesis using False Suc.prems(1) by (intro exI [of _ s]) (simp add: rdbytes_def)
  next
    case lt: True
    define s1 where "s1 = s\<lparr>mem := (mem s)(buf := mem s (stdin_slot (p_rpos s) s)), p_rpos := p_rpos s + 1\<rparr>"
    have r0: "0 \<le> p_rpos s" using Suc.prems(1) by (simp add: stdin_inv_def)
    have len: "nat (p_wpos s - p_rpos s) = Suc (nat (p_wpos s - (p_rpos s + 1)))" using lt by simp
    have nb: "stdin_slot p s \<noteq> buf" if "0 \<le> p" for p using slot_in_ring [OF that, of s] Suc.prems(2) by (auto simp: span_Suc)
    have q: "stdin_queue s = mem s (stdin_slot (p_rpos s) s) # stdin_queue s1"
      unfolding stdin_queue_def len upt_conv_Cons [OF zero_less_Suc] map_Suc_upt [symmetric]
      using nb r0 by (simp add: s1_def comp_def algebra_simps del: upt_Suc)
    have i1: "stdin_inv s1" using Suc.prems(1) lt by (simp add: stdin_inv_def s1_def)
    obtain j where k: "k = Suc j" "j = min n (length (stdin_queue s1))" using Suc.prems(4) q by simp
    obtain s' where s': "stdin_read_loop (buf + 1) n (r + 1) s1 = (if j = n then Inl (r + 1 + int n) else Inr (buf + 1 + of_nat j, n - j, r + 1 + int j), s')"
      "stdin_inv s'" "stdin_queue s' = drop j (stdin_queue s1)" "rdbytes (mem s') (buf + 1) j = take j (stdin_queue s1)"
      "\<forall>a. a \<notin> span (buf + 1) j \<longrightarrow> mem s' a = mem s1 a" "s' = s1\<lparr>mem := mem s', p_rpos := p_rpos s'\<rparr>"
      using Suc.IH [OF i1 _ _ k(2), of "buf + 1" "r + 1"] Suc.prems(2,3) by (auto simp: span_Suc stdin_ring_def s1_def)
    have "stdin_read_loop buf (Suc n) r s = (if k = Suc n then Inl (r + int (Suc n)) else Inr (buf + of_nat k, Suc n - k, r + int k), s')"
      using s'(1) lt k(1) by (simp add: s1_def add.assoc)
    moreover have "mem s' buf = mem s (stdin_slot (p_rpos s) s)"
      using s'(5) notin_next_span [of j buf] Suc.prems(3) k(2) by (simp add: s1_def)
    moreover have "rdbytes (mem s') buf (Suc j) = mem s' buf # rdbytes (mem s') (buf + 1) j"
      unfolding rdbytes_def upt_conv_Cons [OF zero_less_Suc] map_Suc_upt [symmetric] by (simp add: comp_def algebra_simps del: upt_Suc)
    moreover have "mem s' a = mem s a" if "a \<notin> span buf (Suc j)" for a
      using s'(5) that by (simp add: span_Suc s1_def)
    moreover have "s' = s\<lparr>mem := mem s', p_rpos := p_rpos s'\<rparr>" by (subst s'(6)) (simp add: s1_def)
    ultimately show ?thesis using s'(2-4) q k(1) by (intro exI [of _ s']) simp
  qed
qed

text \<open>
  A read that finds enough characters returns; otherwise the task sleeps on the list of readers with what is left of its request.
\<close>

lemma stdin_do_read_ok:
  fixes s :: "'a kfs_scheme"
  assumes "stdin_inv s" "span buf n \<inter> stdin_ring s = {}" "n \<le> 2 ^ 32" "k = min n (length (stdin_queue s))"
    and rq: "rq_inv s q L" "dlist (WaitLinks s) (stdin_wait s) ws" "sleepers s L ws" "CurrentTask s \<noteq> idle_task s"
      "w \<noteq> NULL" "w \<noteq> stdin_wait s" "w \<notin> set ws" "CurrentTask s \<notin> (\<lambda>w. wt_task (waits s w)) ` set ws"
  shows "\<exists>s'. stdin_do_read_enter w buf n r s = Ret (if k = n then Inl (r + int n) else Inr (buf + of_nat k, n - k, r + int k), s') \<and>
    stdin_inv s' \<and> stdin_queue s' = drop k (stdin_queue s) \<and>
    rdbytes (mem s') buf k = take k (stdin_queue s) \<and> (\<forall>a. a \<notin> span buf k \<longrightarrow> mem s' a = mem s a) \<and>
    (if k = n then CurrentTask s' = CurrentTask s \<and> tasks s' = tasks s \<and> WaitLinks s' = WaitLinks s
     else CurrentTask s' = (case q of [] \<Rightarrow> idle_task s | t # _ \<Rightarrow> t) \<and> rq_inv s' (tl q) L \<and> tstate (tasks s' (CurrentTask s)) = TASK_SLEEPING \<and>
       dlist (WaitLinks s') (stdin_wait s') (ws @ [w]) \<and> sleepers s' L (ws @ [w]) \<and> wt_task (waits s' w) = CurrentTask s)"
proof -
  obtain s1 where s1: "stdin_read_loop buf n r s = (if k = n then Inl (r + int n) else Inr (buf + of_nat k, n - k, r + int k), s1)"
    "stdin_inv s1" "stdin_queue s1 = drop k (stdin_queue s)" "rdbytes (mem s1) buf k = take k (stdin_queue s)"
    "\<forall>a. a \<notin> span buf k \<longrightarrow> mem s1 a = mem s a" "s1 = s\<lparr>mem := mem s1, p_rpos := p_rpos s1\<rparr>"
    using stdin_read_loop_ok [OF assms(1-4)] by blast
  have sel: "CurrentTask s1 = CurrentTask s" "idle_task s1 = idle_task s" "tasks s1 = tasks s" "WaitLinks s1 = WaitLinks s" "waits s1 = waits s"
    "stdin_wait s1 = stdin_wait s"
    by (subst s1(6), simp)+
  have inv: "rq_inv s1 q L = rq_inv s q L" "sleepers s1 L ws = sleepers s L ws"
    by (subst s1(6), simp add: rq_inv_def ready_def sleepers_def waiting_ok_def)+
  show ?thesis
  proof (cases "k = n")
    case True
    then show ?thesis using s1 sel by (intro exI [of _ s1]) (simp add: stdin_do_read_enter_def)
  next
    case False
    obtain s2 s' where s': "waitAddCurrent (stdin_wait s) w WT_KBD s1 = Ret s2" "schedule s2 = Ret s'" "rq_inv s' (tl q) L"
      "CurrentTask s' = (case q of [] \<Rightarrow> idle_task s | t # _ \<Rightarrow> t)" "dlist (WaitLinks s') (stdin_wait s) (ws @ [w])"
      "wt_task (waits s' w) = CurrentTask s" "sleepers s' L (ws @ [w])"
      "\<forall>x. tstate (tasks s' x) = (if x = CurrentTask s then TASK_SLEEPING else tstate (tasks s x))"
      "ksync.more s' = ksync.more s1" "mem s' = mem s1"
      using sleep_on_ok [of s1 q L "stdin_wait s" ws w WT_KBD] rq unfolding inv sel by blast
    note c = stdin_cong [OF s'(9,10)]
    have "stdin_do_read_enter w buf n r s = Ret (Inr (buf + of_nat k, n - k, r + int k), s')"
      using s1(1) False s'(1,2) sel(6) by (simp add: stdin_do_read_enter_def)
    then show ?thesis using False s' s1 c sel(6) by (intro exI [of _ s']) simp
  qed
qed

section \<open>Sample state\<close>

definition sample_kfs :: kfs where
  "sample_kfs = kbc.extend (sample_kbc (\<lambda>_. False))
     (kfs.fields (\<lambda>_. \<lparr>inode_kind = Dev_Type, i_ref = 1, i_open = 0, i_fs = 0, i_ops = StdinOps, dev_blkdev = 0, dev_kind = CharDevice,
          dev_blocksize = 0, dev_blocks = 0\<rparr>)
       (\<lambda>_. \<lparr>vd_name = 0xC0360000, vd_inode = 0xC0361000, vd_fs = 0, vd_mountable = False\<rparr>)
       (listAdd VdevHead (VdevN 0xC0362000) (initList VdevHead \<lparr>lp_prev = (\<lambda>x. x), lp_next = (\<lambda>x. x)\<rparr>))
       0xC000B000 (\<lambda>_. False) \<lparr>lp_prev = (\<lambda>x. x), lp_next = (\<lambda>x. x)\<rparr> 0xC000C000 (-1)
       (\<lambda>_. \<lparr>f_status = FD_OPENED, f_readable = True, f_writable = False, f_fd = 0, f_pos = 0, f_inode = 0xC0361000, f_open_count = 1\<rparr>)
       (\<lambda>_. \<lparr>pwd = 0, files_ref = 1, file_next_id = 1\<rparr>)
       (listAdd (FileHead 0) (FileN 0xC0363000) (initList (FileHead 0) \<lparr>lp_prev = (\<lambda>x. x), lp_next = (\<lambda>x. x)\<rparr>))
       0xC0370000 0 0 0xC000D000 0xC000E000 (-1) (\<lambda>_. 0xC000F000)
       \<lparr>VideoAddr = (\<lambda>_. 0), CursorX = 0, CursorY = 0, vga_cursor = 0\<rparr>)"

lemma sample_kfs_sel:
  "p_rpos sample_kfs = 0" "p_wpos sample_kfs = 0" "stdin_buffer sample_kfs = 0xC0370000" "stdin_wait sample_kfs = 0xC000D000"
  "WaitLinks sample_kfs = \<lparr>lp_prev = (\<lambda>x. x), lp_next = (\<lambda>x. x)\<rparr>" "sems sample_kfs = (\<lambda>_. \<lparr>sem_value = 1\<rparr>)"
  by (simp_all add: sample_kfs_def kbc.defs kfs.defs sample_kbc_def kblk.defs kide.defs sample_kide_def ktask.defs)

section \<open>Properties\<close>

text \<open>
  C26: standard input is a queue of characters.  A character from the keyboard is appended, except that with 2048
  characters unread it replaces the oldest one; every task that waits for input becomes runnable, in order, and is told why.  A read takes the oldest
  characters, in order, and returns when it has as many as it asked for; otherwise the task sleeps on the list of readers with the rest of its request,
  another task runs, and once woken it goes on reading with that rest.  Only the \<open>2\<^sup>3\<^sup>1\<close>-th character overflows the write position.
\<close>

theorem stdin_fifo:
  fixes s :: "'a kfs_scheme"
  assumes "stdin_inv s" "rq_inv s q L" "dlist (WaitLinks s) (stdin_wait s) ws" "sleepers s L ws"
  shows "(\<forall>c. c \<noteq> 0 \<longrightarrow>
      (if length (stdin_queue s) < 2048 \<and> p_wpos s = 0x7FFFFFFF then stdin_do_write c s = Undef
       else \<exists>s'. stdin_do_write c s = Ret s' \<and> stdin_inv s' \<and>
         stdin_queue s' = (if length (stdin_queue s) < 2048 then stdin_queue s @ [c] else c # tl (stdin_queue s)) \<and>
         rq_inv s' (q @ map (\<lambda>w. wt_task (waits s w)) ws) L \<and> dlist (WaitLinks s') (stdin_wait s') [] \<and>
         (\<forall>w \<in> set ws. tstate (tasks s' (wt_task (waits s w))) = TASK_RUNNABLE \<and> wt_flags (waits s' w) = WT_KBD \<and> listIsEmpty (WaitLinks s') w))) \<and>
    (\<forall>w buf n r. span buf n \<inter> stdin_ring s = {} \<and> n \<le> 2 ^ 32 \<and> CurrentTask s \<noteq> idle_task s \<and> w \<noteq> NULL \<and> w \<noteq> stdin_wait s \<and> w \<notin> set ws \<and>
        CurrentTask s \<notin> (\<lambda>w. wt_task (waits s w)) ` set ws \<longrightarrow>
      (let k = min n (length (stdin_queue s)) in
       \<exists>s'. stdin_do_read_enter w buf n r s = Ret (if k = n then Inl (r + int n) else Inr (buf + of_nat k, n - k, r + int k), s') \<and>
         stdin_inv s' \<and> stdin_queue s' = drop k (stdin_queue s) \<and>
         rdbytes (mem s') buf k = take k (stdin_queue s) \<and> (\<forall>a. a \<notin> span buf k \<longrightarrow> mem s' a = mem s a) \<and>
         (if k = n then CurrentTask s' = CurrentTask s \<and> tasks s' = tasks s \<and> WaitLinks s' = WaitLinks s
          else CurrentTask s' = (case q of [] \<Rightarrow> idle_task s | t # _ \<Rightarrow> t) \<and> rq_inv s' (tl q) L \<and> tstate (tasks s' (CurrentTask s)) = TASK_SLEEPING \<and>
            dlist (WaitLinks s') (stdin_wait s') (ws @ [w]) \<and> sleepers s' L (ws @ [w]) \<and> wt_task (waits s' w) = CurrentTask s))) \<and>
    (\<forall>w buf n r. listIsEmpty (WaitLinks s) w \<and> wt_flags (waits s w) = WT_KBD \<longrightarrow>
      stdin_do_read_resume w (buf, n, r) s = stdin_do_read_enter w buf n r s)"
proof (intro conjI allI impI, goal_cases)
  case (1 c)
  show ?case using stdin_do_write_ok [OF assms(1) 1 assms(2-4)] by (auto split: if_splits)
next
  case (2 w buf n r)
  then show ?case unfolding Let_def using stdin_do_read_ok [OF assms(1) _ _ refl assms(2-4)] by blast
next
  case (3 w buf n r)
  then show ?case by (simp add: stdin_do_read_resume_def waitDelCurrent_def waitlistIsInList_def)
qed

text \<open>In the sample, \<^verbatim>\<open>init\<close> waits for input.\<close>

definition sample_reader :: kfs where
  "sample_reader = sample_kfs\<lparr>waits := (\<lambda>_. \<lparr>wt_task = 16, wt_flags = WT_INTERRUPTED\<rparr>),
     WaitLinks := listAddTail 0xC000D000 0xC0010000 (WaitLinks sample_kfs)\<rparr>"

lemma sample_reader_ok:
  "stdin_inv sample_reader" "stdin_queue sample_reader = []" "p_wpos sample_reader = 0" "stdin_wait sample_reader = 0xC000D000"
  "rq_inv sample_reader [] {8, 16, 32, 48}" "dlist (WaitLinks sample_reader) 0xC000D000 [0xC0010000]" "sleepers sample_reader {8, 16, 32, 48} [0xC0010000]"
  "wt_task (waits sample_reader w) = 16"
proof -
  have s: "p_rpos sample_reader = 0" "p_wpos sample_reader = 0" by (simp_all add: sample_reader_def sample_kfs_sel)
  show "stdin_inv sample_reader" "stdin_queue sample_reader = []" "p_wpos sample_reader = 0" by (simp_all add: stdin_inv_def stdin_queue_def s)
  show "stdin_wait sample_reader = 0xC000D000" "wt_task (waits sample_reader w) = 16" by (simp_all add: sample_reader_def sample_kfs_sel)
  have k: "tasks sample_reader = tasks sample_ktask" "CurrentTask sample_reader = CurrentTask sample_ktask" "idle_task sample_reader = idle_task sample_ktask"
    "RunLinks sample_reader = RunLinks sample_ktask" "task_num sample_reader = task_num sample_ktask" "max_time_slice sample_reader = max_time_slice sample_ktask"
    by (simp_all add: sample_reader_def sample_kfs_def kbc.defs kfs.defs sample_kbc_def kblk.defs kide.defs sample_kide_def ktask.defs)
  show "rq_inv sample_reader [] {8, 16, 32, 48}" using sample_ktask_inv by (simp add: rq_inv_def ready_def k)
  have "dlist (WaitLinks sample_kfs) 0xC000D000 []" by (simp add: sample_kfs_sel dlist_def)
  then show "dlist (WaitLinks sample_reader) 0xC000D000 [0xC0010000]"
    using ll.rep_add_tail [of "WaitLinks sample_kfs" "0xC000D000" "[]" "0xC0010000"] by (simp add: sample_reader_def)
  show "sleepers sample_reader {8, 16, 32, 48} [0xC0010000]"
    by (simp add: sleepers_def waiting_ok_def Let_def k sample_ktask_sel) (simp add: sample_reader_def blank_task_def)
qed

theorem stdin_fifo_witness:
  "\<exists>s'. stdin_do_write 65 sample_reader = Ret s' \<and> stdin_queue s' = [65] \<and> tstate (tasks s' 16) = TASK_RUNNABLE"
proof -
  have "\<not> (length (stdin_queue sample_reader) < 2048 \<and> p_wpos sample_reader = 0x7FFFFFFF)" "(65 :: u8) \<noteq> 0" by (simp_all add: sample_reader_ok)
  moreover note conjunct1 [OF stdin_fifo [OF sample_reader_ok(1,5), unfolded sample_reader_ok(4), OF sample_reader_ok(6,7)], rule_format, of 65]
  ultimately show ?thesis by (auto simp: sample_reader_ok(2,8))
qed

end
