(* ===== verification/VFS_Correct.thy ===== *)
theory VFS_Correct
  imports Stdio_Correct
begin

text \<open>
  Correctness of path resolution: the named device of an absolute path is looked up by name, the
  rest of the path is what the device is asked for, and the overwritten slash can be put back.
\<close>

section \<open>Names\<close>

lemma strcmp_cstr:
  assumes "cstr m p xs" "cstr m q ys" "xs \<noteq> []"
  shows "\<exists>d. strcmp m p q = Ret d \<and> (d = 0) = (xs = ys)"
  using strcmp_loop_cstr [of m p 0 xs q ys None] assms strdiff_eq_0 [OF cstr_nonzero [OF assms(1)] cstr_nonzero [OF assms(2)]]
  by (auto simp: strcmp_def)

text \<open>The table of named devices: the list \<open>vs\<close>, newest first, with names \<open>nm\<close>; each stands for a device or for a file system.\<close>

definition vdev_rep :: "'a kfs_scheme \<Rightarrow> (ptr \<Rightarrow> u8 list) \<Rightarrow> ptr list \<Rightarrow> bool" where
  "vdev_rep s nm vs \<longleftrightarrow> dlist (VdevLinks s) VdevHead (map VdevN vs) \<and>
     (\<forall>v \<in> set vs. cstr (mem s) (vd_name (vdevs s v)) (nm v) \<and> (vd_fs (vdevs s v) = NULL \<longrightarrow> vd_inode (vdevs s v) \<noteq> NULL) \<and>
        (vd_fs (vdevs s v) \<noteq> NULL \<longrightarrow> fs_has_root s (vd_fs (vdevs s v))))"

definition vdev_root :: "('a kfs_scheme) kops \<Rightarrow> ptr \<Rightarrow> 'a kfs_scheme \<Rightarrow> (ptr \<times> 'a kfs_scheme) kres" where
  "vdev_root K v s = (if vd_fs (vdevs s v) \<noteq> NULL then get_root_inode K (vd_fs (vdevs s v)) s else Ret (vd_inode (vdevs s v), s))"

lemma vdev_root_loop:
  assumes "dlist (VdevLinks s) VdevHead (map VdevN (us @ vs))" "vdev_rep s nm (us @ vs)" "cstr (mem s) name cs" "cs \<noteq> []"
  shows "kwhile (vdev_root_body K name) (hd (map VdevN vs @ [VdevHead]), s) =
    (case find (\<lambda>v. nm v = cs) vs of None \<Rightarrow> Ret (NULL, s) | Some v \<Rightarrow> vdev_root K v s)"
  using assms(1,2)
proof (induction vs arbitrary: us)
  case Nil
  then show ?case by (subst kwhile_unfold) (simp add: vdev_root_body_def)
next
  case (Cons v vs)
  have nx: "listGetNext (VdevLinks s) (VdevN v) = hd (map VdevN vs @ [VdevHead])"
    using dlist_next_elem [of "VdevLinks s" VdevHead "map VdevN us" "VdevN v" "map VdevN vs"] Cons.prems(1) by simp
  have v: "cstr (mem s) (vd_name (vdevs s v)) (nm v)" "vd_fs (vdevs s v) = NULL \<longrightarrow> vd_inode (vdevs s v) \<noteq> NULL"
    "vd_fs (vdevs s v) \<noteq> NULL \<longrightarrow> fs_has_root s (vd_fs (vdevs s v))"
    using Cons.prems(2) by (simp_all add: vdev_rep_def)
  obtain d where d: "strcmp (mem s) name (vd_name (vdevs s v)) = Ret d" "(d = 0) = (cs = nm v)"
    using strcmp_cstr [OF assms(3) v(1) assms(4)] by blast
  show ?case
  proof (cases "nm v = cs")
    case True
    then show ?thesis using d v(2,3)
      by (subst kwhile_unfold) (auto simp: vdev_root_body_def vdev_root_def Let_def kbind_assoc)
  next
    case False
    then have "kwhile (vdev_root_body K name) (VdevN v, s) = kwhile (vdev_root_body K name) (hd (map VdevN vs @ [VdevHead]), s)"
      using d nx by (subst kwhile_unfold) (auto simp: vdev_root_body_def Let_def)
    then show ?thesis using Cons.IH [of "us @ [v]"] Cons.prems False by simp
  qed
qed

lemma vdev_root_find:
  assumes "vdev_rep s nm vs" "cstr (mem s) name cs" "cs \<noteq> []"
  shows "vdev_get_root_inode K name s = (case find (\<lambda>v. nm v = cs) vs of None \<Rightarrow> Ret (NULL, s) | Some v \<Rightarrow> vdev_root K v s)"
  using vdev_root_loop [of s "[]" vs nm name cs K] assms dlist_next [of "VdevLinks s" VdevHead "map VdevN vs"]
  by (simp add: vdev_get_root_inode_def vdev_rep_def)

section \<open>Scanning a path\<close>

lemma slash_loop_cstr:
  "cstr m (p + i) cs \<Longrightarrow> unat i + length cs < 2 ^ 32 \<Longrightarrow>
   \<exists>r. slash_loop m p i = Some r \<and> (r = 0) = (i = 0 \<and> cs \<noteq> [] \<and> hd cs = SLASH)"
proof (induction cs arbitrary: i)
  case Nil
  then show ?case by (subst slash_loop.simps) simp
next
  case (Cons c cs)
  show ?case
  proof (cases "c = SLASH")
    case True
    then show ?thesis using Cons.prems(1) by (subst slash_loop.simps) (simp add: uint_0_iff)
  next
    case False
    have i: "unat (i + 1) = Suc (unat i)" using Cons.prems(2) by (simp add: unat_word_ariths)
    then have "i + 1 \<noteq> 0" by auto
    moreover obtain r where "slash_loop m p (i + 1) = Some r" "(r = 0) = (i + 1 = 0 \<and> cs \<noteq> [] \<and> hd cs = SLASH)"
      using Cons.IH [of "i + 1"] Cons.prems i by (auto simp: add.assoc)
    ultimately show ?thesis using False Cons.prems(1) by (subst slash_loop.simps) simp
  qed
qed

lemma name_loop_cstr:
  "cstr m (p + i) (cs @ rest) \<Longrightarrow> SLASH \<notin> set cs \<Longrightarrow> rest = [] \<or> hd rest = SLASH \<Longrightarrow> name_loop m p i = Some (i + of_nat (length cs))"
proof (induction cs arbitrary: i)
  case Nil
  then show ?case by (subst name_loop.simps) (cases rest; simp)
next
  case (Cons c cs)
  then have "name_loop m p (i + 1) = Some (i + 1 + of_nat (length cs))" by (intro Cons.IH) (simp_all add: add.assoc)
  then show ?case using Cons.prems by (subst name_loop.simps) (simp add: algebra_simps)
qed

lemma fill_slashes_eq: "n \<le> 2 ^ 32 \<Longrightarrow> fill_slashes p n m a = (if a \<in> span p n \<and> m a = 0 then SLASH else m a)"
proof (induction n arbitrary: p m)
  case (Suc n)
  have "p \<notin> span (p + 1) n" using notin_next_span [of n p] Suc.prems by simp
  then show ?case using Suc by (auto simp: span_Suc)
qed simp

lemma cstr_tail: "cstr m p (xs @ ys) \<Longrightarrow> cstr m (p + of_nat (length xs)) ys"
proof (induction xs arbitrary: p)
  case (Cons x xs)
  then show ?case using Cons.IH [of "p + 1"] by (simp add: add.assoc)
qed simp

lemma cstr_cut:
  assumes "cstr m p (xs @ ys)" "length xs < 2 ^ 32"
  shows "cstr (m(p + of_nat (length xs) := 0)) p xs"
  using assms
proof (induction xs arbitrary: p)
  case (Cons x xs)
  have "p \<noteq> p + of_nat (length (x # xs))"
    using of_nat_u32_inject [of "length (x # xs)" 0] Cons.prems(2) by simp
  then show ?case using Cons.IH [of "p + 1"] Cons.prems by (auto simp: add.assoc)
qed simp

section \<open>Properties\<close>

lemma cut_restored:
  assumes "cstr m p (xs @ rest)" "length (xs @ rest) < 2 ^ 32" "rest = [] \<or> hd rest = SLASH"
  shows "fill_slashes p (length (xs @ rest)) (m(p + of_nat (length xs) := 0)) = m"
proof
  fix a
  let ?x = "p + of_nat (length xs)" and ?n = "length (xs @ rest)"
  have nz: "m b \<noteq> 0" if b: "b \<in> span p ?n" for b
  proof -
    obtain i where i: "i < ?n" "b = p + of_nat i" using b by (auto simp: span_def)
    then have "m b = (xs @ rest) ! i" using cstr_nth [OF assms(1)] by simp
    then show ?thesis using cstr_nonzero [OF assms(1)] nth_mem [OF i(1)] by metis
  qed
  have x: "?x \<notin> span p ?n \<and> m ?x = 0 \<or> ?x \<in> span p ?n \<and> m ?x = SLASH"
  proof (cases rest)
    case Nil
    then show ?thesis using cstr_end [OF assms(1)] nz [of ?x] by auto
  next
    case (Cons c cs)
    have "m ?x = c" using cstr_nth [OF assms(1), of "length xs"] Cons by simp
    moreover have "?x \<in> span p ?n" using Cons by (auto simp: span_def)
    ultimately show ?thesis using assms(3) Cons by simp
  qed
  show "fill_slashes p ?n (m(?x := 0)) a = m a"
    using fill_slashes_eq [of ?n p "m(?x := 0)" a] assms(2) x nz by auto
qed

lemma vdev_parse_path_ok:
  assumes "cstr (mem s) p (SLASH # cs @ rest)" "cs \<noteq> []" "SLASH \<notin> set cs" "rest = [] \<or> hd rest = SLASH"
    and "Suc (length cs + length rest) < 2 ^ 31"
    and "vdev_rep s nm vs"
    and "\<And>v. v \<in> set vs \<Longrightarrow> p + of_nat (Suc (length cs)) \<notin> span (vd_name (vdevs s v)) (Suc (length (nm v)))"
    and "s' = s\<lparr>mem := (mem s)(p + of_nat (Suc (length cs)) := 0)\<rparr>"
    and "sub = p + of_nat (Suc (length cs) + (if rest = [] then 0 else 1))"
  shows "vdev_parse_path K p out s =
      (case find (\<lambda>v. nm v = cs) vs of
         None \<Rightarrow> Ret (VDEV_NOT_EXIST, sub, NULL, s')
       | Some v \<Rightarrow> kbind (vdev_root K v s') (\<lambda>(inode, s2). Ret (if inode = NULL then VDEV_NOT_EXIST else 0, sub, inode, s2))) \<and>
    cstr (mem s') sub (tl rest) \<and> fill_slashes p (Suc (length cs + length rest)) (mem s') = mem s"
proof -
  let ?n = "length cs"
  have c: "cstr (mem s) p ((SLASH # cs) @ rest)" using assms(1) by simp
  have len: "strlen (mem s) p = Some (int (Suc (?n + length rest)))" using strlen_cstr [OF assms(1)] by simp
  obtain r where sl: "slash_loop (mem s) p 0 = Some r" "r = 0"
    using slash_loop_cstr [of "mem s" p 0 "SLASH # cs @ rest"] assms(1,5) by auto
  have nl: "name_loop (mem s) p 1 = Some (of_nat (Suc ?n))"
    using name_loop_cstr [of "mem s" p 1 cs rest] assms(1,3,4) by simp
  have si: "sint (of_nat (Suc ?n) :: u32) = int (Suc ?n)"
    using assms(5) by (simp add: signed_of_nat signed_take_bit_int_eq_self del: of_nat_Suc)
  have j: "(if sint (of_nat (Suc ?n) :: u32) < int (Suc (?n + length rest)) then of_nat (Suc ?n) + 1 else of_nat (Suc ?n)) =
      (of_nat (Suc ?n + (if rest = [] then 0 else 1)) :: u32)"
    unfolding si by (cases rest) simp_all
  have nm: "cstr (mem s') (p + 1) cs"
    using cstr_cut [of "mem s" "p + 1" cs rest] assms(1,5,8) by (simp add: add.assoc)
  have "cstr (mem s') (vd_name (vdevs s v)) (nm v) = cstr (mem s) (vd_name (vdevs s v)) (nm v)" if "v \<in> set vs" for v
    by (rule cstr_span) (use assms(7) [OF that] assms(8) in auto)
  then have rep: "vdev_rep s' nm vs" using assms(6,8) by (simp add: vdev_rep_def)
  have run: "vdev_parse_path K p out s =
      kbind (vdev_get_root_inode K (p + 1) s') (\<lambda>(inode, s2). Ret (if inode = NULL then VDEV_NOT_EXIST else 0, sub, inode, s2))"
    unfolding vdev_parse_path_def len sl nl kloop_simps kbind.simps Let_def j using assms(8,9) by simp
  have sub: "cstr (mem s') sub (tl rest)"
  proof (cases rest)
    case Nil
    then show ?thesis by (simp add: assms(8,9))
  next
    case (Cons x xs)
    have t: "cstr (mem s) sub xs" using cstr_tail [of "mem s" p "SLASH # cs @ [x]" xs] assms(1,9) Cons by (simp add: algebra_simps)
    have e: "sub = (p + of_nat (Suc ?n)) + 1" by (simp add: assms(9) Cons algebra_simps)
    have "p + of_nat (Suc ?n) \<notin> span sub (Suc (length xs))"
      unfolding e by (rule notin_next_span) (use assms(5) Cons in simp)
    then have "cstr (mem s') sub xs = cstr (mem s) sub xs" by (intro cstr_span) (auto simp: assms(8))
    then show ?thesis using t Cons by simp
  qed
  have "fill_slashes p (Suc (?n + length rest)) (mem s') = mem s"
    using cut_restored [OF c _ assms(4)] assms(5) by (simp add: assms(8))
  then show ?thesis
    using vdev_root_find [OF rep nm assms(2), of K] run sub by (cases "find (\<lambda>v. nm v = cs) vs") simp_all
qed

text \<open>
  C24: the path of a device name and a rest resolves to the device of that name, or the root of the file system of
  that name, asked for the rest without its slash; an unknown name is \<^verbatim>\<open>VDEV_NOT_EXIST\<close>.  The path in memory is cut
  after the name, and \<^verbatim>\<open>vfs_open\<close>'s loop over it gives back the former memory.
\<close>

theorem vdev_parse_path_correct:
  assumes "cstr (mem s) p (SLASH # cs @ rest)" "cs \<noteq> []" "SLASH \<notin> set cs" "rest = [] \<or> hd rest = SLASH"
    and "Suc (length cs + length rest) < 2 ^ 31"
    and "vdev_rep s nm vs"
    and "\<And>v. v \<in> set vs \<Longrightarrow> p + of_nat (Suc (length cs)) \<notin> span (vd_name (vdevs s v)) (Suc (length (nm v)))"
    and "s' = s\<lparr>mem := (mem s)(p + of_nat (Suc (length cs)) := 0)\<rparr>"
    and "sub = p + of_nat (Suc (length cs) + (if rest = [] then 0 else 1))"
  shows "vdev_parse_path K p out s =
      (case find (\<lambda>v. nm v = cs) vs of
         None \<Rightarrow> Ret (VDEV_NOT_EXIST, sub, NULL, s')
       | Some v \<Rightarrow> kbind (vdev_root K v s') (\<lambda>(inode, s2). Ret (if inode = NULL then VDEV_NOT_EXIST else 0, sub, inode, s2))) \<and>
    cstr (mem s') sub (tl rest) \<and> fill_slashes p (Suc (length cs + length rest)) (mem s') = mem s"
  by (rule vdev_parse_path_ok [OF assms])

theorem vdev_parse_path_correct_witness:
  "\<exists>s'. vdev_parse_path (kernel_ops no_ops no_ops (\<lambda>fs s. Ret (0, s))) 0xC0390000 0
      (sample_kfs\<lparr>mem := (\<lambda>_. 0)(0xC0360000 := 97, 0xC0390000 := 47, 0xC0390001 := 97, 0xC0390002 := 47, 0xC0390003 := 98)\<rparr>) =
    Ret (0, 0xC0390003, 0xC0361000, s')"
proof -
  define s where "s = sample_kfs\<lparr>mem := (\<lambda>_. 0)(0xC0360000 := 97, 0xC0390000 := 47, 0xC0390001 := 97, 0xC0390002 := 47, 0xC0390003 := 98)\<rparr>"
  have v: "vdevs s = (\<lambda>_. \<lparr>vd_name = 0xC0360000, vd_inode = 0xC0361000, vd_fs = 0, vd_mountable = False\<rparr>)"
    "VdevLinks s = listAdd VdevHead (VdevN 0xC0362000) (initList VdevHead \<lparr>lp_prev = (\<lambda>x. x), lp_next = (\<lambda>x. x)\<rparr>)"
    by (simp_all add: s_def sample_kfs_def kbc.defs kfs.defs)
  have "dlist (VdevLinks s) VdevHead [VdevN 0xC0362000]"
    by (simp add: v dlist_def listAdd_def listAddAfter_def list_add_raw_def initList_def)
  then have rep: "vdev_rep s (\<lambda>_. [97]) [0xC0362000]" by (simp add: vdev_rep_def v) (simp add: s_def)
  have c: "cstr (mem s) 0xC0390000 (SLASH # [97] @ [47, 98])" by (simp add: s_def)
  have d: "(0xC0390000 :: ptr) + of_nat (Suc (length [97 :: u8])) \<notin> span (vd_name (vdevs s x)) (Suc (length [97 :: u8]))" for x
    by (simp add: v span_Suc)
  show ?thesis
    using vdev_parse_path_correct [OF c _ _ _ _ rep d refl refl, of "kernel_ops no_ops no_ops (\<lambda>fs s. Ret (0, s))" 0]
    unfolding s_def [symmetric] by (auto simp: vdev_root_def v)
qed

end
