(* ===== verification/File_Correct.thy ===== *)
theory File_Correct
  imports VFS_Correct
begin

text \<open>
  Correctness of the table of open files, and of opening a device by its path from the system's
  side: allocation of the file object, the private copy of the path, resolution, the device's own
  open, the descriptor.
\<close>

section \<open>One-page objects\<close>

lemma pmm_same:
  assumes "pmm.truncate t = pmm.truncate s"
  shows "pmm_inv t = pmm_inv s" "free_set t = free_set s" "managed_set t = managed_set s" "PageCount t = PageCount s"
proof -
  have f: "PageCount t = PageCount s" "Pages t = Pages s" "FreeLinks t = FreeLinks s" "free_page_count t = free_page_count s"
    using assms by (simp_all add: pmm.defs)
  show "PageCount t = PageCount s" by (rule f)
  show "pmm_inv t = pmm_inv s" "free_set t = free_set s" "managed_set t = managed_set s"
    by (simp_all add: pmm_inv_def pmm_rel_def free_set_def managed_set_def f)
qed

lemma one_page: "0 < (bytes :: u32) \<Longrightarrow> unat bytes \<le> 4096 \<Longrightarrow> ROUNDUP bytes 4096 div PGSIZE = 1"
proof -
  assume b: "0 < bytes" "unat bytes \<le> 4096"
  have "npages bytes = 1" using b unfolding npages_def by (subst div_eq_nat_iff) (simp_all add: word_less_nat_alt)
  then have "unat (ROUNDUP bytes 4096 div PGSIZE) = 1" using unat_npages [of bytes] b by simp
  then show ?thesis by (simp add: word_unat_eq_iff)
qed

lemma kmalloc_page:
  assumes "pmm_inv s" "unat (PageCount s) \<le> 0x40000" "0 < bytes" "unat bytes \<le> 4096" "free_set s \<noteq> {}"
  shows "\<exists>p s'. kmalloc bytes s = Ret (kva p, s') \<and> p \<in> free_set s \<and> p < 0x40000 \<and> free_set s' = free_set s - {p} \<and>
    pmm_inv s' \<and> managed_set s' = managed_set s \<and> p \<in> managed_set s' \<and> pmm_frame {} s s'"
proof -
  obtain p s' where p: "allocPhyPages 1 s = Ret (Some p, s')" "p \<in> free_set s" "free_set s' = free_set s - {p}" "pmm_inv s'" "pmm_frame {} s s'"
    using allocPhyPages_one [OF assms(1)] assms(5) by auto
  have "p \<in> managed_set s" using p(2) pmm.free_managed [OF assms(1)] by blast
  then show ?thesis using p one_page [OF assms(3,4)] free_set_bound [OF assms(1) p(2)] assms(2) managed_set_frame [OF p(5)]
    by (auto simp: kmalloc_def dokmalloc2_def kva_def)
qed

lemma kfree_page:
  assumes "pmm_inv s" "unat (PageCount s) \<le> 0x40000" "0 < bytes" "unat bytes \<le> 4096" "p \<in> managed_set s" "p \<notin> free_set s"
  shows "\<exists>s'. kfree (kva p) bytes s = Ret s' \<and> pmm_inv s' \<and> free_set s' = insert p (free_set s) \<and> managed_set s' = managed_set s \<and> pmm_frame {p} s s'"
proof -
  obtain s' where s': "freePhyPages p 1 s = Ret s'" "pmm_inv s'" "free_set s' = insert p (free_set s)" "pmm_frame {p} s s'"
    using freePhyPages_one [OF assms(1), of p] assms(5,6) by blast
  have lt: "p < unat (PageCount s)" using assms(5) by (simp add: managed_set_def)
  then have "pa2page (kva p - KERNEL_BASE) s = Ret p"
    using kernel_addr [of p] assms(2) by (simp add: pa2page_def kva_def word_less_nat_alt)
  then show ?thesis using s' one_page [OF assms(3,4)] managed_set_frame [OF s'(4)] by (simp add: kfree_def dokfree2_def)
qed

lemma kva_page:
  assumes "p < 0x40000" "k < 4096"
  shows "unat (kva p + of_nat k - KERNEL_BASE) div 4096 = p"
proof -
  have "kva p + of_nat k - KERNEL_BASE = page2pa p + of_nat k" by (simp add: kva_def)
  then have "unat (kva p + of_nat k - KERNEL_BASE) = unat (page2pa p + of_nat k)" by (rule arg_cong)
  also have "\<dots> = p * 4096 + k"
    using unat_page2pa [OF assms(1)] assms by (simp add: unat_word_ariths unsigned_of_nat take_bit_eq_mod)
  finally have "unat (kva p + of_nat k - KERNEL_BASE) = p * 4096 + k" .
  then show ?thesis using assms(2) by (simp only: div_mult_self3)
qed

lemma page_span:
  assumes "p < 0x40000" "p \<in> free_set s" "n \<le> 4096"
  shows "a \<in> span (kva p) n \<Longrightarrow> \<not> heap_owned s a"
  using kva_page [OF assms(1)] assms(2,3) by (auto simp: span_def heap_owned_def)

lemma kva_nonnull: "p < 0x40000 \<Longrightarrow> kva p \<noteq> NULL"
  using kernel_addr(1) [of p] unfolding kva_def by (metis unat_0 add_is_0 zero_neq_numeral)

lemma pmm_frame_kfs:
  fixes s t :: "'a kfs_scheme"
  assumes "pmm_frame R s t"
  shows "mem t = mem s" "files t = files s" "filestructs t = filestructs s" "FileLinks t = FileLinks s" "vdevs t = vdevs s"
    "VdevLinks t = VdevLinks s" "inodes t = inodes s" "sems t = sems s" "WaitLinks t = WaitLinks s" "tasks t = tasks s"
    "CurrentTask t = CurrentTask s" "fs_has_root t = fs_has_root s" "PageCount t = PageCount s"
proof -
  have t: "t = s\<lparr>Pages := Pages t, FreeLinks := FreeLinks t, free_page_count := free_page_count t\<rparr>"
    using assms unfolding pmm_frame_def by blast
  show "mem t = mem s" "files t = files s" "filestructs t = filestructs s" "FileLinks t = FileLinks s" "vdevs t = vdevs s"
    "VdevLinks t = VdevLinks s" "inodes t = inodes s" "sems t = sems s" "WaitLinks t = WaitLinks s" "tasks t = tasks s"
    "CurrentTask t = CurrentTask s" "fs_has_root t = fs_has_root s" "PageCount t = PageCount s" by (subst t, simp)+
qed

section \<open>The table of open files\<close>

definition files_inv :: "'a kfs_scheme \<Rightarrow> ptr \<Rightarrow> ptr list \<Rightarrow> bool" where
  "files_inv s fs L \<longleftrightarrow> dlist (FileLinks s) (FileHead fs) (map FileN L) \<and> NULL \<notin> set L \<and>
     distinct (map (\<lambda>f. f_fd (files s f)) L) \<and> (\<forall>f \<in> set L. 0 \<le> f_fd (files s f) \<and> f_fd (files s f) < file_next_id (filestructs s fs)) \<and>
     0 \<le> file_next_id (filestructs s fs)"

lemma find_map_node: "find P (map FileN L) = map_option FileN (find (\<lambda>f. P (FileN f)) L)"
  by (induction L) auto

lemma map_remove1_node: "remove1 (FileN f) (map FileN L) = map FileN (remove1 f L)"
  by (induction L) auto

lemma find_file_ok:
  assumes "files_inv s (get_cur_files s) L"
  shows "find_file_with_fd fd s = Ret (case find (\<lambda>f. f_fd (files s f) = fd) L of Some f \<Rightarrow> f | None \<Rightarrow> NULL)"
proof -
  have e: "find (\<lambda>f. lp2file (FileN f) \<noteq> NULL \<and> fd = f_fd (files s (lp2file (FileN f)))) L = find (\<lambda>f. f_fd (files s f) = fd) L"
    using assms by (intro find_cong) (auto simp: files_inv_def)
  have "listFind (FileLinks s) (get_cur_file_list s) (\<lambda>i. lp2file i \<noteq> NULL \<and> fd = f_fd (files s (lp2file i))) =
      Some (map_option FileN (find (\<lambda>f. f_fd (files s f) = fd) L))"
    using dlist_listFind [of "FileLinks s" "get_cur_file_list s" "map FileN L"] assms e
    by (simp add: files_inv_def get_cur_file_list_def find_map_node)
  then show ?thesis by (cases "find (\<lambda>f. f_fd (files s f) = fd) L") (simp_all add: find_file_with_fd_def)
qed

lemma find_fd:
  assumes "files_inv s fs L" "f \<in> set L"
  shows "find (\<lambda>g. f_fd (files s g) = f_fd (files s f)) L = Some f"
proof -
  have "distinct (map (\<lambda>f. f_fd (files s f)) L)" using assms(1) by (simp add: files_inv_def)
  then show ?thesis using assms(2) by (induction L) (auto simp: image_iff)
qed

lemma files_inv_cong:
  "files_inv s fs L \<Longrightarrow> files t = files s \<Longrightarrow> filestructs t = filestructs s \<Longrightarrow> FileLinks t = FileLinks s \<Longrightarrow> files_inv t fs L"
  by (simp add: files_inv_def)

lemma file_install_new:
  assumes inv: "files_inv s fs L" and "sem_free s (files_sem fs)" and f: "f \<notin> set L" "f \<noteq> NULL"
    and new: "\<And>g. g \<in> set L \<Longrightarrow> f_inode (files s g) \<noteq> inode"
  shows "\<exists>s'. file_install fs f inode r w s = Ret (file_next_id (filestructs s fs), s') \<and> files_inv s' fs (f # L) \<and>
    files s' = (files s)(f := (files s f)\<lparr>f_status := FD_OPENED, f_inode := inode, f_pos := 0, f_readable := r, f_writable := w,
      f_open_count := f_open_count (files s f) + 1, f_fd := file_next_id (filestructs s fs)\<rparr>) \<and>
    inodes s' = inodes s \<and> mem s' = mem s \<and> sems s' = sems s \<and> free_set s' = free_set s \<and> pmm_inv s' = pmm_inv s \<and>
    managed_set s' = managed_set s \<and> PageCount s' = PageCount s \<and> get_cur_files s' = get_cur_files s"
proof -
  define s1 where "s1 = upd_sem (files_sem fs) (\<lambda>x. x\<lparr>sem_value := sem_value x - 1\<rparr>) s"
  have lk: "lock_files fs s = Ret s1" using acquire_free [OF assms(2)] by (simp add: lock_files_def s1_def)
  have s1: "files s1 = files s" "FileLinks s1 = FileLinks s" "filestructs s1 = filestructs s"
    by (simp_all add: s1_def upd_sem_def)
  have "find (\<lambda>g. f_inode (files s g) = inode) L = None" using new by (auto simp: find_None_iff)
  then have fd: "listFind (FileLinks s1) (FileHead fs) (\<lambda>i. f_inode (files s1 (lp2file i)) = inode) = Some None"
    using dlist_listFind [of "FileLinks s" "FileHead fs" "map FileN L"] inv by (simp add: s1 files_inv_def find_map_node)
  have ul: "unlock_files fs s1 = Ret (s1\<lparr>sems := sems s\<rparr>)"
    using release_free [OF assms(2), of s1] by (simp add: unlock_files_def s1_def upd_sem_def)
  have e: "s1\<lparr>sems := sems s\<rparr> = s" by (simp add: s1_def upd_sem_def)
  define n where "n = file_next_id (filestructs s fs)"
  define x where "x = (files s f)\<lparr>f_status := FD_OPENED, f_inode := inode, f_pos := 0, f_readable := r, f_writable := w,
    f_open_count := f_open_count (files s f) + 1, f_fd := n\<rparr>"
  define s' where "s' = s\<lparr>filestructs := (filestructs s)(fs := (filestructs s fs)\<lparr>file_next_id := n + 1\<rparr>), files := (files s)(f := x),
    FileLinks := listAdd (FileHead fs) (FileN f) (FileLinks s)\<rparr>"
  have run: "file_install fs f inode r w s = Ret (n, s')"
    using lk fd ul by (simp add: file_install_def e upd_file_def file_open_inc_def files_get_next_file_id_def upd_filestruct_def
        files_add_list_def Let_def s'_def n_def x_def)
  have "dlist (listAdd (FileHead fs) (FileN f) (FileLinks s)) (FileHead fs) (FileN f # map FileN L)"
    using inv f(1) by (intro ll.rep_add) (auto simp: files_inv_def)
  moreover have "f_fd (files s' g) = f_fd (files s g)" if "g \<in> set L" for g using that f(1) by (auto simp: s'_def)
  ultimately have "files_inv s' fs (f # L)"
    using inv f by (auto simp: files_inv_def s'_def x_def n_def cong: map_cong)
  moreover have "pmm_inv s' = pmm_inv s" "free_set s' = free_set s" "managed_set s' = managed_set s"
    by (rule pmm_same; simp add: s'_def pmm.defs)+
  ultimately show ?thesis using run by (simp add: s'_def x_def n_def get_cur_files_def)
qed

section \<open>Opening a device by its path\<close>

text \<open>What \<^verbatim>\<open>vfs_open\<close> may touch: the allocator, the memory of free pages, inodes.\<close>

definition vfs_frame :: "'a kfs_scheme \<Rightarrow> 'a kfs_scheme \<Rightarrow> bool" where
  "vfs_frame s t \<longleftrightarrow>
     t = s\<lparr>Pages := Pages t, FreeLinks := FreeLinks t, free_page_count := free_page_count t, mem := mem t, inodes := inodes t\<rparr>"

lemma vfs_frame_sel:
  assumes "vfs_frame s t"
  shows "files t = files s" "filestructs t = filestructs s" "FileLinks t = FileLinks s" "vdevs t = vdevs s" "VdevLinks t = VdevLinks s"
    "sems t = sems s" "WaitLinks t = WaitLinks s" "tasks t = tasks s" "CurrentTask t = CurrentTask s" "PageCount t = PageCount s"
  by (subst assms [unfolded vfs_frame_def], simp)+

lemma vfs_frame_iff:
  "vfs_frame s t \<longleftrightarrow> (\<exists>a b c d e. t = s\<lparr>Pages := a, FreeLinks := b, free_page_count := c, mem := d, inodes := e\<rparr>)"
proof
  assume "\<exists>a b c d e. t = s\<lparr>Pages := a, FreeLinks := b, free_page_count := c, mem := d, inodes := e\<rparr>"
  then obtain a b c d e where t: "t = s\<lparr>Pages := a, FreeLinks := b, free_page_count := c, mem := d, inodes := e\<rparr>" by blast
  show "vfs_frame s t" unfolding vfs_frame_def t by simp
qed (unfold vfs_frame_def, blast)

lemma vfs_frame_trans: "vfs_frame s t \<Longrightarrow> vfs_frame t u \<Longrightarrow> vfs_frame s u"
  unfolding vfs_frame_iff by clarsimp metis

lemma vfs_frame_pmm:
  assumes "pmm_frame R s (t :: 'a kfs_scheme)"
  shows "vfs_frame s t"
proof -
  have t: "t = s\<lparr>Pages := Pages t, FreeLinks := FreeLinks t, free_page_count := free_page_count t\<rparr>"
    using assms unfolding pmm_frame_def by blast
  have "mem t = mem s" "inodes t = inodes s" by (rule pmm_frame_kfs [OF assms])+
  then show ?thesis unfolding vfs_frame_def using t by simp
qed

lemma vfs_frame_upd: "vfs_frame s (s\<lparr>mem := m\<rparr>)" "vfs_frame s (s\<lparr>inodes := n\<rparr>)"
  by (simp_all add: vfs_frame_def)

lemma vdev_parse_device:
  assumes c: "cstr (mem t) p (SLASH # cs)" "cs \<noteq> []" "SLASH \<notin> set cs" "length cs \<le> 4094" and rep: "vdev_rep t nm vs"
    and sep: "\<And>v. v \<in> set vs \<Longrightarrow> p + of_nat (Suc (length cs)) \<notin> span (vd_name (vdevs t v)) (Suc (length (nm v)))"
    and v: "find (\<lambda>v. nm v = cs) vs = Some v" "vd_fs (vdevs t v) = NULL"
    and flag: "flag AND OPEN_CREATE = 0"
  shows "vfs_open_find K p (Suc (length cs)) flag t = Ret (Inr (vd_inode (vdevs t v)), t)"
proof -
  let ?t = "t\<lparr>mem := (mem t)(p + of_nat (Suc (length cs)) := 0)\<rparr>"
  have i: "vd_inode (vdevs t v) \<noteq> NULL"
    using rep v find_Some_iff [of "\<lambda>v. nm v = cs" vs v] nth_mem by (fastforce simp: vdev_rep_def)
  have p: "vdev_parse_path K p NULL t = Ret (0, p + of_nat (Suc (length cs)), vd_inode (vdevs t v), ?t)"
    "fill_slashes p (Suc (length cs)) (mem ?t) = mem t"
    using vdev_parse_path_ok [of t p cs "[]" nm vs ?t "p + of_nat (Suc (length cs))" K NULL] assms i
    by (simp_all add: vdev_root_def)
  have "vfs_lookup K p NULL t = Ret (0, vd_inode (vdevs t v), ?t)" by (simp add: vfs_lookup_def p(1))
  moreover have "?t\<lparr>mem := fill_slashes p (Suc (length cs)) (mem ?t)\<rparr> = t" unfolding p(2) by simp
  ultimately show ?thesis using flag by (simp add: vfs_open_find_def Let_def del: fill_slashes.simps)
qed

text \<open>The bytes that no free page holds: what is live before a call and unaffected by it.\<close>

definition kept :: "'a kfs_scheme \<Rightarrow> 'a kfs_scheme \<Rightarrow> bool" where
  "kept s t \<longleftrightarrow> (\<forall>a. heap_owned s a \<longrightarrow> mem t a = mem s a)"

lemma vdev_rep_kept:
  assumes "vdev_rep s nm vs" "kept s t" "vdevs t = vdevs s" "VdevLinks t = VdevLinks s" "fs_has_root t = fs_has_root s"
    and "\<And>v a. v \<in> set vs \<Longrightarrow> a \<in> span (vd_name (vdevs s v)) (Suc (length (nm v))) \<Longrightarrow> heap_owned s a"
  shows "vdev_rep t nm vs"
proof -
  have "cstr (mem t) (vd_name (vdevs s v)) (nm v) = cstr (mem s) (vd_name (vdevs s v)) (nm v)" if "v \<in> set vs" for v
    by (rule cstr_span) (use assms(2) assms(6) [OF that] in \<open>auto simp: kept_def\<close>)
  then show ?thesis using assms by (simp add: vdev_rep_def)
qed

lemma vfs_open_device:
  assumes c: "cstr (mem s) path (SLASH # cs)" "cs \<noteq> []" "SLASH \<notin> set cs" "length cs \<le> 4094" "path \<noteq> NULL"
    and rep: "vdev_rep s nm vs" "find (\<lambda>v. nm v = cs) vs = Some v" "vd_fs (vdevs s v) = NULL" "i = vd_inode (vdevs s v)"
    and pm: "pmm_inv s" "unat (PageCount s) \<le> 0x40000" "free_set s \<noteq> {}"
    and own: "\<And>a. a \<in> span path (length cs + 2) \<Longrightarrow> heap_owned s a"
      "\<And>v a. v \<in> set vs \<Longrightarrow> a \<in> span (vd_name (vdevs s v)) (Suc (length (nm v))) \<Longrightarrow> heap_owned s a"
    and op: "iop_open (iops K i s) = Some f" "\<And>t. f i flag t = Ret (0, t)"
    and flag: "flag AND OPEN_CREATE = 0" "flag AND OPEN_TRUNC = 0"
  shows "\<exists>s'. vfs_open K path flag out s = Ret (0, i, s') \<and> vfs_frame s s' \<and> kept s s' \<and> pmm_inv s' \<and> free_set s' = free_set s \<and>
    managed_set s' = managed_set s \<and> inodes s' = (inodes s)(i := (inodes s i)\<lparr>i_open := i_open (inodes s i) + 1\<rparr>)"
proof -
  let ?n = "Suc (length cs)"
  have b: "(0 :: u32) < of_nat ?n" "unat (of_nat ?n :: u32) \<le> 4096"
    using c(4) by (simp_all add: word_less_nat_alt unsigned_of_nat take_bit_nat_eq_self del: of_nat_Suc)
  obtain q s1 where q: "kmalloc (of_nat ?n) s = Ret (kva q, s1)" "q \<in> free_set s" "q < 0x40000" "free_set s1 = free_set s - {q}"
      "pmm_inv s1" "managed_set s1 = managed_set s" "q \<in> managed_set s1" "pmm_frame {} s s1"
    using kmalloc_page [OF pm(1,2) b pm(3)] by blast
  note k = pmm_frame_kfs [OF q(8)]
  have no: "\<not> heap_owned s a" if "a \<in> span (kva q) (Suc ?n)" for a
    using page_span [OF q(3,2) _ that] c(4) by simp
  obtain m where m: "strcpy_loop (kva q) path 0 (mem s1) = Some m" "cstr m (kva q) (SLASH # cs)"
      "\<And>a. a \<notin> span (kva q) (Suc ?n) \<Longrightarrow> m a = mem s1 a"
    using strcpy_loop_cstr [of "mem s1" path 0 "SLASH # cs" "kva q"] c no own(1) k(1) by auto
  have cp: "strcpy (kva q) path (mem s1) = Ret (kva q, m)" using m(1) c(5) kva_nonnull [OF q(3)] by (simp add: strcpy_def)
  define t where "t = s1\<lparr>mem := m\<rparr>"
  have kt: "kept s t" using no m(3) k(1) by (auto simp: kept_def t_def)
  have rt: "vdev_rep t nm vs" by (rule vdev_rep_kept [OF rep(1) kt _ _ _ own(2)]) (simp_all add: t_def k)
  have "kva q + of_nat ?n \<in> span (kva q) (Suc ?n)" unfolding span_def by (rule imageI) simp
  then have find: "vfs_open_find K (kva q) ?n flag t = Ret (Inr i, t)"
    using vdev_parse_device [of t "kva q" cs nm vs v flag K] m(2) c rt rep(2-4) flag(1) own(2) no
    by (auto simp: t_def k)
  have ne: "i \<noteq> NULL" using rep find_Some_iff [of "\<lambda>v. nm v = cs" vs v] nth_mem by (fastforce simp: vdev_rep_def)
  have opn: "vfs_open_inode K i flag t = Ret (0, inode_open_inc i t)"
    using op flag ne by (simp add: vfs_open_inode_def iops_def t_def k)
  define u where "u = inode_open_inc i t"
  have pu: "pmm.truncate u = pmm.truncate s1" by (simp add: u_def t_def inode_open_inc_def upd_inode_def pmm.defs)
  note pu = pmm_same [OF pu]
  obtain s' where s': "kfree (kva q) (of_nat ?n) u = Ret s'" "pmm_inv s'" "free_set s' = insert q (free_set u)"
      "managed_set s' = managed_set u" "pmm_frame {q} u s'"
    using kfree_page [OF _ _ b, of u q] q k pm(2) pu by auto
  have run: "vfs_open K path flag out s = Ret (0, i, s')"
    using q(1) cp find opn s'(1) kva_nonnull [OF q(3)] strlen_cstr [OF c(1)]
    by (simp add: vfs_open_def t_def u_def del: of_nat_Suc)
  have fr: "vfs_frame s s'"
    using vfs_frame_pmm [OF q(8)] vfs_frame_pmm [OF s'(5)] vfs_frame_upd(1) [of s1 m] vfs_frame_upd(2) [of t]
    unfolding t_def [symmetric] u_def inode_open_inc_def upd_inode_def by (blast intro: vfs_frame_trans)
  show ?thesis using run fr s' pu q kt
    pmm_frame_kfs(1,7) [OF s'(5)] k(1,7) unfolding kept_def
    by (auto simp: u_def t_def inode_open_inc_def upd_inode_def)
qed

section \<open>Opening and closing files\<close>

text \<open>What the allocation of the file object \<open>f\<close> may touch.\<close>

definition files_frame :: "ptr \<Rightarrow> 'a kfs_scheme \<Rightarrow> 'a kfs_scheme \<Rightarrow> bool" where
  "files_frame f s t \<longleftrightarrow>
     (\<exists>a b c d e. t = s\<lparr>Pages := a, FreeLinks := b, free_page_count := c, files := (files s)(f := d), FileLinks := e\<rparr>)"

lemma file_alloc_init_ok:
  assumes inv: "files_inv s fs L" and own: "\<And>f. f \<in> set L \<Longrightarrow> heap_owned s f"
    and pm: "pmm_inv s" "unat (PageCount s) \<le> 0x40000" "free_set s \<noteq> {}"
  shows "\<exists>p t. file_alloc_init s = Ret (kva p, t) \<and> p \<in> free_set s \<and> p < 0x40000 \<and> kva p \<notin> set L \<and> free_set t = free_set s - {p} \<and> pmm_inv t \<and>
    managed_set t = managed_set s \<and> p \<in> managed_set t \<and> files_inv t fs L \<and> PageCount t = PageCount s \<and>
    files_frame (kva p) s t"
proof -
  obtain p s1 where p: "kmalloc sizeof_File_t s = Ret (kva p, s1)" "p \<in> free_set s" "p < 0x40000" "free_set s1 = free_set s - {p}" "pmm_inv s1"
      "managed_set s1 = managed_set s" "p \<in> managed_set s1" "pmm_frame {} s s1"
    using kmalloc_page [of s sizeof_File_t, OF pm(1,2) _ _ pm(3)] by (auto simp: word_less_nat_alt)
  note k = pmm_frame_kfs [OF p(8)]
  have nL: "kva p \<notin> set L"
    using own page_span [OF p(3,2), of 1 "kva p"] by (auto simp: span_Suc)
  let ?x = "\<lparr>f_status = FD_INIT, f_readable = False, f_writable = False, f_fd = 0, f_pos = 0, f_inode = NULL, f_open_count = 0\<rparr>"
  define t where "t = s1\<lparr>files := (files s1)(kva p := ?x), FileLinks := initList (FileN (kva p)) (FileLinks s1)\<rparr>"
  have run: "file_alloc_init s = Ret (kva p, t)"
    using p(1) kva_nonnull [OF p(3)] by (simp add: file_alloc_init_def upd_file_def t_def)
  have "dlist (FileLinks t) (FileHead fs) (map FileN L)"
    unfolding t_def using inv nL by (auto simp: files_inv_def k intro!: dlist_initList_other)
  moreover have "files t f = files s f" if "f \<in> set L" for f using that nL by (auto simp: t_def k)
  ultimately have fi: "files_inv t fs L" using inv by (simp add: files_inv_def t_def k cong: map_cong)
  have "s1 = s\<lparr>Pages := Pages s1, FreeLinks := FreeLinks s1, free_page_count := free_page_count s1\<rparr>"
    using p(8) unfolding pmm_frame_def by blast
  then have e: "t = s\<lparr>Pages := Pages s1, FreeLinks := FreeLinks s1, free_page_count := free_page_count s1, files := (files s)(kva p := ?x),
      FileLinks := initList (FileN (kva p)) (FileLinks s1)\<rparr>"
    unfolding t_def k(2) by metis
  then have ff: "files_frame (kva p) s t" unfolding files_frame_def by blast
  have "pmm_inv t = pmm_inv s1" "free_set t = free_set s1" "managed_set t = managed_set s1" "PageCount t = PageCount s1"
    by (rule pmm_same; simp add: t_def pmm.defs)+
  then have m: "pmm_inv t" "free_set t = free_set s - {p}" "managed_set t = managed_set s" "p \<in> managed_set t" "PageCount t = PageCount s"
    using p(4-7) k by auto
  show ?thesis
    by (rule exI [of _ p], rule exI [of _ t]) (use run p(2,3) nL m fi ff in blast)
qed

lemma file_close_device:
  assumes inv: "files_inv s (get_cur_files s) L" and f: "kva p \<in> set L" "f_fd (files s (kva p)) = fd"
    and close: "vfs_close K (f_inode (files s (kva p))) s = Ret (r, s)"
    and pm: "pmm_inv s" "unat (PageCount s) \<le> 0x40000" "p \<in> managed_set s" "p \<notin> free_set s"
  shows "\<exists>s'. file_close K fd s = Ret (0, s') \<and> files_inv s' (get_cur_files s') (remove1 (kva p) L) \<and> pmm_inv s' \<and> free_set s' = insert p (free_set s) \<and>
    find_file_with_fd fd s' = Ret NULL \<and> inodes s' = inodes s \<and> mem s' = mem s \<and> filestructs s' = filestructs s"
proof -
  let ?f = "kva p"
  have n: "?f \<noteq> NULL" using inv f(1) by (auto simp: files_inv_def)
  have fnd: "find_file_with_fd fd s = Ret ?f" using find_file_ok [OF inv, of fd] find_fd [OF inv f(1)] f(2) by simp
  define t where "t = files_del_list ?f (file_open_dec ?f s)"
  have t: "pmm.truncate t = pmm.truncate s" by (simp add: t_def files_del_list_def file_open_dec_def upd_file_def pmm.defs)
  obtain s' where s': "kfree ?f sizeof_File_t t = Ret s'" "pmm_inv s'" "free_set s' = insert p (free_set t)" "pmm_frame {p} t s'"
    using kfree_page [of t sizeof_File_t p] pm pmm_same [OF t] by (auto simp: word_less_nat_alt)
  note k = pmm_frame_kfs [OF s'(4)]
  have run: "file_close K fd s = Ret (0, s')" using fnd n close s'(1) by (simp add: file_close_def t_def)
  have cf: "get_cur_files s' = get_cur_files s" by (simp add: get_cur_files_def k t_def files_del_list_def file_open_dec_def upd_file_def)
  have dl: "dlist (FileLinks s') (FileHead (get_cur_files s)) (map FileN (remove1 ?f L))"
    using dlist_del [of "FileLinks s" "FileHead (get_cur_files s)" "map FileN L" "FileN ?f"] inv f(1)
    by (simp add: k t_def files_del_list_def file_open_dec_def upd_file_def files_inv_def map_remove1_node)
  have fd: "f_fd (files s' g) = f_fd (files s g)" for g by (simp add: k t_def files_del_list_def file_open_dec_def upd_file_def)
  have dist: "distinct L" using inv by (simp add: files_inv_def distinct_map)
  have "distinct (map (\<lambda>f. f_fd (files s f)) (remove1 ?f L))"
    using inv dist by (auto simp: files_inv_def distinct_map intro: inj_on_subset)
  then have inv': "files_inv s' (get_cur_files s') (remove1 ?f L)"
    using inv dl dist unfolding cf by (simp add: files_inv_def fd, simp add: k t_def files_del_list_def file_open_dec_def upd_file_def)
  have "\<forall>g \<in> set (remove1 ?f L). f_fd (files s g) \<noteq> fd"
    using inv f dist by (auto simp: files_inv_def distinct_map inj_on_def)
  then have "find (\<lambda>g. f_fd (files s' g) = fd) (remove1 ?f L) = None" by (auto simp: find_None_iff fd)
  then have "find_file_with_fd fd s' = Ret NULL" using find_file_ok [OF inv', of fd] by simp
  then show ?thesis using run inv' s'(2,3) pmm_same(2) [OF t]
    by (simp add: k) (simp add: t_def files_del_list_def file_open_dec_def upd_file_def)
qed

lemma open_device_ok:
  assumes c: "cstr (mem s) path (SLASH # cs)" "cs \<noteq> []" "SLASH \<notin> set cs" "length cs \<le> 4094" "path \<noteq> NULL"
    and rep: "vdev_rep s nm vs" "find (\<lambda>v. nm v = cs) vs = Some v" "vd_fs (vdevs s v) = NULL" "i = vd_inode (vdevs s v)"
    and pm: "pmm_inv s" "unat (PageCount s) \<le> 0x40000" "2 \<le> card (free_set s)"
    and own: "\<forall>a \<in> span path (length cs + 2). heap_owned s a"
      "\<forall>v \<in> set vs. \<forall>a \<in> span (vd_name (vdevs s v)) (Suc (length (nm v))). heap_owned s a"
      "\<forall>f \<in> set L. heap_owned s f"
    and files: "files_inv s (get_cur_files s) L" "sem_free s (files_sem (get_cur_files s))" "\<forall>f \<in> set L. f_inode (files s f) \<noteq> i"
    and K: "K = kernel_ops file_op dir_op root" "i_ops (inodes s i) \<in> {StdinOps, StdoutOps}"
    and flag: "flag AND OPEN_CREATE = 0" "flag AND OPEN_TRUNC = 0"
  shows "\<exists>p s'. file_open K path flag s = Ret (file_next_id (filestructs s (get_cur_files s)), s') \<and>
    files_inv s' (get_cur_files s') (kva p # L) \<and> find_file_with_fd (file_next_id (filestructs s (get_cur_files s))) s' = Ret (kva p) \<and>
    f_inode (files s' (kva p)) = i \<and> f_readable (files s' (kva p)) = (flag AND OPEN_MASK \<in> {OPEN_READ, OPEN_RW}) \<and>
    f_writable (files s' (kva p)) = (flag AND OPEN_MASK \<in> {OPEN_WRITE, OPEN_RW}) \<and>
    inodes s' = (inodes s)(i := (inodes s i)\<lparr>i_open := i_open (inodes s i) + 1\<rparr>) \<and> kept s s' \<and> pmm_inv s' \<and>
    p \<in> free_set s \<and> free_set s' = free_set s - {p} \<and> unat (PageCount s') \<le> 0x40000 \<and> p \<in> managed_set s' \<and>
    f_fd (files s' (kva p)) = file_next_id (filestructs s (get_cur_files s))"
proof -
  let ?fs = "get_cur_files s" and ?n = "file_next_id (filestructs s (get_cur_files s))"
  have ne: "free_set s \<noteq> {}" using pm(3) by auto
  obtain p t where t: "file_alloc_init s = Ret (kva p, t)" "p \<in> free_set s" "p < 0x40000" "kva p \<notin> set L" "free_set t = free_set s - {p}" "pmm_inv t"
      "managed_set t = managed_set s" "p \<in> managed_set t" "files_inv t ?fs L" "PageCount t = PageCount s"
      and ex: "files_frame (kva p) s t"
    using file_alloc_init_ok [OF files(1) bspec [OF own(3)] pm(1,2) ne] by blast
  obtain a b c' d e where tr: "t = s\<lparr>Pages := a, FreeLinks := b, free_page_count := c', files := (files s)(kva p := d), FileLinks := e\<rparr>"
    using ex unfolding files_frame_def by blast
  have ts: "mem t = mem s" "vdevs t = vdevs s" "VdevLinks t = VdevLinks s" "fs_has_root t = fs_has_root s" "inodes t = inodes s"
    "filestructs t = filestructs s" "sems t = sems s" "WaitLinks t = WaitLinks s" "get_cur_files t = ?fs"
    and tf: "\<And>g. g \<in> set L \<Longrightarrow> files t g = files s g"
    using t(4) by (auto simp: tr get_cur_files_def)
  have mono: "heap_owned s a \<Longrightarrow> heap_owned t a" for a using t(5) by (auto simp: heap_owned_def)
  have net: "free_set t \<noteq> {}"
  proof
    assume "free_set t = {}"
    then have "free_set s \<subseteq> {p}" using t(5) by blast
    then have "card (free_set s) \<le> card {p}" by (rule card_mono [rotated]) simp
    then show False using pm(3) by simp
  qed
  have rt: "vdev_rep t nm vs" using rep(1) by (simp add: vdev_rep_def ts)
  obtain g where g: "iop_open (iops K i t) = Some g" "\<And>u. g i flag u = Ret (0, u)"
    using K by (auto simp: iops_def kernel_ops_def stdin_dev_op_def stdout_dev_op_def ts stdin_open_def stdout_open_def no_ops_def)
  obtain u where u: "vfs_open K path flag NULL t = Ret (0, i, u)" "vfs_frame t u" "kept t u" "pmm_inv u" "free_set u = free_set t"
      "managed_set u = managed_set t" "inodes u = (inodes t)(i := (inodes t i)\<lparr>i_open := i_open (inodes t i) + 1\<rparr>)"
    using vfs_open_device [of t path cs nm vs v i K g flag NULL] c rt rep t(6,10) pm(2) net own mono g flag by (auto simp: ts)
  note us = vfs_frame_sel [OF u(2)]
  have sf: "sem_free u (files_sem ?fs)" using files(2) by (simp add: sem_free_def us ts waitlistIsEmpty_def)
  have uc: "get_cur_files u = ?fs" using ts(9) by (simp add: get_cur_files_def us)
  define r w where "r = (flag AND OPEN_MASK = OPEN_READ \<or> flag AND OPEN_MASK = OPEN_RW)"
    and "w = (flag AND OPEN_MASK = OPEN_WRITE \<or> flag AND OPEN_MASK = OPEN_RW)"
  obtain s' where s': "file_install ?fs (kva p) i r w u = Ret (?n, s')" "files_inv s' ?fs (kva p # L)"
      "files s' = (files u)(kva p := (files u (kva p))\<lparr>f_status := FD_OPENED, f_inode := i, f_pos := 0,
        f_readable := r, f_writable := w, f_open_count := f_open_count (files u (kva p)) + 1, f_fd := ?n\<rparr>)"
      "inodes s' = inodes u" "mem s' = mem u" "free_set s' = free_set u" "pmm_inv s' = pmm_inv u" "managed_set s' = managed_set u"
      "PageCount s' = PageCount u" "get_cur_files s' = get_cur_files u"
    using file_install_new [OF files_inv_cong [OF t(9) us(1,2,3)] sf t(4) kva_nonnull [OF t(3)], of i r w] files(3) by (auto simp: us ts tf)
  have run: "file_open K path flag s = Ret (?n, s')"
    using t(1) u(1) s'(1) kva_nonnull [OF t(3)] by (simp add: file_open_def Let_def r_def w_def)
  have "files_inv s' (get_cur_files s') (kva p # L)" using s'(2,10) uc by simp
  then have "find_file_with_fd ?n s' = Ret (kva p)" using find_file_ok [of s' "kva p # L" ?n] s'(3) by simp
  moreover have "kept s s'" using u(3) mono s'(5) by (simp add: kept_def ts)
  ultimately show ?thesis
    using run s' u t(2,5,8,10) pm(2) uc us(10) by (intro exI [of _ p] exI [of _ s']) (simp add: ts r_def w_def)
qed

section \<open>Properties\<close>

text \<open>
  C25: opening \<open>/name\<close>, where a character device is registered under the name, hands out the next
  descriptor, which then finds a file on the device's inode with the permissions asked for; the path copy is given back, live memory is
  unchanged.  Closing it removes the descriptor (a second close is \<^verbatim>\<open>-FILE_INVAL\<close>) and returns the file's page.
  The inode's open count stays incremented, as \<^verbatim>\<open>vfs_close\<close> gives up on devices without \<^verbatim>\<open>iop_sync\<close>.
\<close>

theorem file_open_close_device:
  assumes "cstr (mem s) path (SLASH # cs)" "cs \<noteq> []" "SLASH \<notin> set cs" "length cs \<le> 4094" "path \<noteq> NULL"
    and "vdev_rep s nm vs" "find (\<lambda>v. nm v = cs) vs = Some v" "vd_fs (vdevs s v) = NULL" "i = vd_inode (vdevs s v)"
    and "pmm_inv s" "unat (PageCount s) \<le> 0x40000" "2 \<le> card (free_set s)"
    and "\<forall>a \<in> span path (length cs + 2). heap_owned s a"
      "\<forall>v \<in> set vs. \<forall>a \<in> span (vd_name (vdevs s v)) (Suc (length (nm v))). heap_owned s a"
      "\<forall>f \<in> set L. heap_owned s f"
    and "files_inv s (get_cur_files s) L" "sem_free s (files_sem (get_cur_files s))" "\<forall>f \<in> set L. f_inode (files s f) \<noteq> i"
    and "K = kernel_ops file_op dir_op root" "i_ops (inodes s i) \<in> {StdinOps, StdoutOps}"
    and "flag AND OPEN_CREATE = 0" "flag AND OPEN_TRUNC = 0" "fd = file_next_id (filestructs s (get_cur_files s))"
  shows "\<exists>f s1 s2. file_open K path flag s = Ret (fd, s1) \<and> files_inv s1 (get_cur_files s1) (f # L) \<and> find_file_with_fd fd s1 = Ret f \<and>
    f_inode (files s1 f) = i \<and> f_readable (files s1 f) = (flag AND OPEN_MASK \<in> {OPEN_READ, OPEN_RW}) \<and>
    f_writable (files s1 f) = (flag AND OPEN_MASK \<in> {OPEN_WRITE, OPEN_RW}) \<and> kept s s1 \<and>
    file_close K fd s1 = Ret (0, s2) \<and> files_inv s2 (get_cur_files s2) L \<and> file_close K fd s2 = Ret (- FILE_INVAL, s2) \<and>
    pmm_inv s2 \<and> free_set s2 = free_set s \<and> i_open (inodes s2 i) = i_open (inodes s i) + 1"
proof -
  obtain p s1 where o: "file_open K path flag s = Ret (fd, s1)" "files_inv s1 (get_cur_files s1) (kva p # L)"
      "find_file_with_fd fd s1 = Ret (kva p)" "f_inode (files s1 (kva p)) = i"
      "f_readable (files s1 (kva p)) = (flag AND OPEN_MASK \<in> {OPEN_READ, OPEN_RW})"
      "f_writable (files s1 (kva p)) = (flag AND OPEN_MASK \<in> {OPEN_WRITE, OPEN_RW})"
      "inodes s1 = (inodes s)(i := (inodes s i)\<lparr>i_open := i_open (inodes s i) + 1\<rparr>)" "kept s s1" "pmm_inv s1"
      "p \<in> free_set s" "free_set s1 = free_set s - {p}" "unat (PageCount s1) \<le> 0x40000" "p \<in> managed_set s1" "f_fd (files s1 (kva p)) = fd"
    using open_device_ok [OF assms(1-22), folded assms(23)] by (elim exE conjE) (rule that; assumption)
  have "iop_sync (iops K i s1) = None"
    using assms(19,20) o(7) by (auto simp: iops_def kernel_ops_def stdin_dev_op_def stdout_dev_op_def no_ops_def)
  then have "vfs_close K (f_inode (files s1 (kva p))) s1 = Ret (if i = NULL then VFS_INVAL else VFS_INVAL_OP, s1)"
    unfolding o(4) by (simp add: vfs_close_def)
  then obtain s2 where s2: "file_close K fd s1 = Ret (0, s2)" "files_inv s2 (get_cur_files s2) (remove1 (kva p) (kva p # L))" "pmm_inv s2"
      "free_set s2 = insert p (free_set s1)" "find_file_with_fd fd s2 = Ret NULL" "inodes s2 = inodes s1"
    using file_close_device [OF o(2), of p fd K] o(9,11-14) by auto
  have "file_close K fd s2 = Ret (- FILE_INVAL, s2)" using s2(5) by (simp add: file_close_def)
  moreover have "free_set s2 = free_set s" using s2(4) o(10,11) by auto
  ultimately show ?thesis using o s2
    by (intro exI [of _ "kva p"] exI [of _ s1] exI [of _ s2]) simp
qed

definition sample_kfile :: kfs where
  "sample_kfile = sample_kfs\<lparr>mem := (\<lambda>_. 0)(0xC0360000 := 97, 0xC0390000 := 47, 0xC0390001 := 97),
     files := (\<lambda>_. \<lparr>f_status = FD_OPENED, f_readable = True, f_writable = False, f_fd = 0, f_pos = 0, f_inode = 0xC0364000, f_open_count = 1\<rparr>)\<rparr>"

lemma sample_kfile_sel:
  "vdevs sample_kfile = (\<lambda>_. \<lparr>vd_name = 0xC0360000, vd_inode = 0xC0361000, vd_fs = 0, vd_mountable = False\<rparr>)"
  "VdevLinks sample_kfile = listAdd VdevHead (VdevN 0xC0362000) (initList VdevHead \<lparr>lp_prev = (\<lambda>x. x), lp_next = (\<lambda>x. x)\<rparr>)"
  "FileLinks sample_kfile = listAdd (FileHead 0) (FileN 0xC0363000) (initList (FileHead 0) \<lparr>lp_prev = (\<lambda>x. x), lp_next = (\<lambda>x. x)\<rparr>)"
  "filestructs sample_kfile = (\<lambda>_. \<lparr>pwd = 0, files_ref = 1, file_next_id = 1\<rparr>)" "i_ops (inodes sample_kfile i) = StdinOps"
  "mem sample_kfile = (\<lambda>_. 0)(0xC0360000 := 97, 0xC0390000 := 47, 0xC0390001 := 97)"
  "files sample_kfile = (\<lambda>_. \<lparr>f_status = FD_OPENED, f_readable = True, f_writable = False, f_fd = 0, f_pos = 0, f_inode = 0xC0364000, f_open_count = 1\<rparr>)"
  "sem_free sample_kfile sem" "get_cur_files sample_kfile = 0"
  by (simp_all add: sample_kfile_def sample_kfs_def kbc.defs kfs.defs sem_free_def waitlistIsEmpty_def listIsEmpty_def get_cur_files_def
      sample_kbc_def kblk.defs kide.defs sample_kide_def ktask.defs sample_ktask_def kvm.defs sample_kvm_def ksync.defs sample_sync_def ksched.defs
      sample_sched_def blank_task_def)

lemma sample_kfile_pmm: "pmm_inv sample_kfile" "free_set sample_kfile = {4 ..< 8}" "unat (PageCount sample_kfile) \<le> 0x40000"
proof -
  have "pmm.truncate sample_kfile = pmm.truncate sample_kvm"
    by (simp add: sample_kfile_def sample_kfs_def kbc.defs kfs.defs sample_kbc_def kblk.defs kide.defs sample_kide_def ktask.defs
        sample_ktask_def kvm.defs pmm.defs)
  note e = pmm_same [OF this]
  show "pmm_inv sample_kfile" "free_set sample_kfile = {4 ..< 8}" using e sample_kvm_pmm by simp_all
  show "unat (PageCount sample_kfile) \<le> 0x40000" using e(4) by (simp add: sample_kvm_sel)
qed

theorem file_open_close_device_witness:
  "\<exists>s1 s2. file_open (kernel_ops no_ops no_ops (\<lambda>fs s. Ret (0, s))) 0xC0390000 OPEN_READ sample_kfile = Ret (1, s1) \<and>
     file_close (kernel_ops no_ops no_ops (\<lambda>fs s. Ret (0, s))) 1 s1 = Ret (0, s2) \<and> free_set s2 = {4 ..< 8}"
proof -
  have vd: "dlist (VdevLinks sample_kfile) VdevHead [VdevN 0xC0362000]"
    by (simp add: sample_kfile_sel dlist_def listAdd_def listAddAfter_def list_add_raw_def initList_def)
  have fd: "dlist (FileLinks sample_kfile) (FileHead 0) [FileN 0xC0363000]"
    by (simp add: sample_kfile_sel dlist_def listAdd_def listAddAfter_def list_add_raw_def initList_def)
  have rep: "vdev_rep sample_kfile (\<lambda>_. [97]) [0xC0362000]" using vd by (simp add: vdev_rep_def sample_kfile_sel)
  have inv: "files_inv sample_kfile (get_cur_files sample_kfile) [0xC0363000]"
    using fd by (simp add: files_inv_def sample_kfile_sel)
  have c: "cstr (mem sample_kfile) 0xC0390000 (SLASH # [97])" by (simp add: sample_kfile_sel)
  have own: "heap_owned sample_kfile 0xC0390000" "heap_owned sample_kfile 0xC0390001" "heap_owned sample_kfile 0xC0390002"
    "heap_owned sample_kfile 0xC0360000" "heap_owned sample_kfile 0xC0360001" "heap_owned sample_kfile 0xC0363000"
    by (simp_all add: heap_owned_def sample_kfile_pmm(2))
  have h: "\<forall>a \<in> span 0xC0390000 (length [97 :: u8] + 2). heap_owned sample_kfile a"
    "\<forall>v \<in> set [0xC0362000]. \<forall>a \<in> span (vd_name (vdevs sample_kfile v)) (Suc (length [97 :: u8])). heap_owned sample_kfile a"
    "\<forall>f \<in> set [0xC0363000]. heap_owned sample_kfile f"
    "\<forall>f \<in> set [0xC0363000]. f_inode (files sample_kfile f) \<noteq> vd_inode (vdevs sample_kfile 0xC0362000)"
    using own by (simp_all add: sample_kfile_sel numeral_3_eq_3 span_Suc)
  obtain f s1 s2 where "file_open (kernel_ops no_ops no_ops (\<lambda>fs s. Ret (0, s))) 0xC0390000 OPEN_READ sample_kfile = Ret (1, s1)"
    "file_close (kernel_ops no_ops no_ops (\<lambda>fs s. Ret (0, s))) 1 s1 = Ret (0, s2)" "free_set s2 = free_set sample_kfile"
    using file_open_close_device [OF c _ _ _ _ rep _ _ refl sample_kfile_pmm(1,3) _ h(1-3) inv sample_kfile_sel(8) h(4) refl _ _ _ refl,
        where flag = OPEN_READ and file_op = no_ops and dir_op = no_ops and root = "\<lambda>fs s. Ret (0, s)"]
    by (simp add: sample_kfile_sel sample_kfile_pmm(2)) blast
  then show ?thesis unfolding sample_kfile_pmm(2) by blast
qed

end
