(* ===== verification/FatBase.thy ===== *)
theory FatBase
  imports Inode
begin

text \<open>
  The FAT driver, \<^verbatim>\<open>kern/fs/fat/fat_base.c\<close> and its disk functions \<^verbatim>\<open>kern/fs/fat/fat_io.c\<close>: the sector window of a
  volume, the file allocation table, and the mounting of volumes.  The scalar fields of a
  \<^verbatim>\<open>FATBase_SuperBlock\<close> are a record; its \<^verbatim>\<open>win\<close> array is 512 bytes of memory, 48 bytes into the structure, where
  the disk functions put sectors and where pointers to directory entries point.
\<close>

abbreviation (input) SS :: u32 where "SS \<equiv> 512"
abbreviation (input) DRIVES :: u8 where "DRIVES \<equiv> 8"
abbreviation (input) FS_FAT12 :: u8 where "FS_FAT12 \<equiv> 1"
abbreviation (input) FS_FAT16 :: u8 where "FS_FAT16 \<equiv> 2"
abbreviation (input) FS_FAT32 :: u8 where "FS_FAT32 \<equiv> 3"
abbreviation (input) STA_NOINIT :: u8 where "STA_NOINIT \<equiv> 1"
abbreviation (input) STA_PROTECT :: u8 where "STA_PROTECT \<equiv> 4"

abbreviation (input) FR_OK :: int where "FR_OK \<equiv> 0"
abbreviation (input) FR_NOT_READY :: int where "FR_NOT_READY \<equiv> 1"
abbreviation (input) FR_NO_FILE :: int where "FR_NO_FILE \<equiv> 2"
abbreviation (input) FR_NO_PATH :: int where "FR_NO_PATH \<equiv> 3"
abbreviation (input) FR_INVALID_NAME :: int where "FR_INVALID_NAME \<equiv> 4"
abbreviation (input) FR_INVALID_DRIVE :: int where "FR_INVALID_DRIVE \<equiv> 5"
abbreviation (input) FR_DENIED :: int where "FR_DENIED \<equiv> 6"
abbreviation (input) FR_EXIST :: int where "FR_EXIST \<equiv> 7"
abbreviation (input) FR_RW_ERROR :: int where "FR_RW_ERROR \<equiv> 8"
abbreviation (input) FR_WRITE_PROTECTED :: int where "FR_WRITE_PROTECTED \<equiv> 9"
abbreviation (input) FR_NOT_ENABLED :: int where "FR_NOT_ENABLED \<equiv> 10"
abbreviation (input) FR_NO_FILESYSTEM :: int where "FR_NO_FILESYSTEM \<equiv> 11"
abbreviation (input) FR_INVALID_OBJECT :: int where "FR_INVALID_OBJECT \<equiv> 12"

section \<open>Data\<close>

record FATBase_SuperBlock =
  sb_id :: u16
  n_rootdir :: u16
  winsect :: u32
  sects_fat :: u32
  max_clust :: u32
  fatbase :: u32
  dirbase :: u32
  database :: u32
  last_clust :: u32
  free_clust :: u32
  fsi_sector :: u32
  fsi_flag :: u8
  fs_type :: u8
  sects_clust :: u8
  n_fats :: u8
  sb_drive :: u8
  winflag :: u8

record FATBase_DIR =
  dj_id :: u16
  dj_index :: u16
  dj_fs :: ptr
  dj_sclust :: u32
  dj_clust :: u32
  dj_sect :: u32

record FATBase_FILE =
  fp_id :: u16
  fp_flag :: u8
  sect_clust :: u8
  fp_fs :: ptr
  fptr :: u32
  fsize :: u32
  org_clust :: u32
  curr_clust :: u32
  curr_sect :: u32
  dir_sect :: u32
  dir_ptr :: ptr

record FATBase_FILINFO =
  fi_fsize :: u32
  fi_fdate :: u16
  fi_ftime :: u16
  fattrib :: u8
  fname :: "u8 list"

record FATBase_Partition =
  part_pd :: u8
  part_pt :: u8

record kfat = kfs +
  SBs :: "ptr \<Rightarrow> FATBase_SuperBlock"
  Fat_SuperBlock :: "nat \<Rightarrow> ptr"
  fsid :: u16
  Fat_Drives :: "nat \<Rightarrow> FATBase_Partition"
  FatFiles :: "ptr \<Rightarrow> FATBase_FILE"
  FatDirs :: "ptr \<Rightarrow> FATBase_DIR"

definition upd_sb :: "ptr \<Rightarrow> (FATBase_SuperBlock \<Rightarrow> FATBase_SuperBlock) \<Rightarrow> 'a kfat_scheme \<Rightarrow> 'a kfat_scheme" where
  "upd_sb fs f s = s\<lparr>SBs := (SBs s)(fs := f (SBs s fs))\<rparr>"

definition upd_mem :: "(memory \<Rightarrow> memory) \<Rightarrow> 'a kmach_scheme \<Rightarrow> 'a kmach_scheme" where
  "upd_mem f s = s\<lparr>mem := f (mem s)\<rparr>"

definition win :: "ptr \<Rightarrow> ptr" where
  "win fs = fs + 48"

abbreviation (input) sizeof_FATBase_SuperBlock :: u32 where "sizeof_FATBase_SuperBlock \<equiv> 560"

section \<open>Multi-byte access macros\<close>

definition LD_WORD :: "memory \<Rightarrow> ptr \<Rightarrow> u16" where
  "LD_WORD m p = ucast (m p) OR push_bit 8 (ucast (m (p + 1)))"

definition LD_DWORD :: "memory \<Rightarrow> ptr \<Rightarrow> u32" where
  "LD_DWORD m p = ld32 m p"

definition ST_WORD :: "ptr \<Rightarrow> u16 \<Rightarrow> memory \<Rightarrow> memory" where
  "ST_WORD p v m = m(p := ucast v, p + 1 := ucast (drop_bit 8 v))"

definition ST_DWORD :: "ptr \<Rightarrow> u32 \<Rightarrow> memory \<Rightarrow> memory" where
  "ST_DWORD p v m = st32 p v m"

section \<open>Disk functions (fat_io.c)\<close>

definition disk_read :: "ptr \<Rightarrow> ptr \<Rightarrow> u32 \<Rightarrow> u32 \<Rightarrow> 'a kbc_scheme \<Rightarrow> (int \<times> 'a kbc_scheme) kres" where
  "disk_read dev buffer secno nsecs s =
     each_sector (\<lambda>buf sec. diskIO_BCache dev \<lparr>req_type = IO_READ, req_secno = sec, req_nsecs = 1, req_buffer = buf, req_bsize = SECTSIZE\<rparr>)
       buffer secno (unat nsecs) s"

definition disk_write :: "ptr \<Rightarrow> ptr \<Rightarrow> u32 \<Rightarrow> u32 \<Rightarrow> 'a kbc_scheme \<Rightarrow> (int \<times> 'a kbc_scheme) kres" where
  "disk_write dev buffer secno nsecs s =
     each_sector (\<lambda>buf sec. diskIO_BCache dev \<lparr>req_type = IO_WRITE, req_secno = sec, req_nsecs = 1, req_buffer = buf, req_bsize = SECTSIZE\<rparr>)
       buffer secno (unat nsecs) s"

definition fatbase_disk_read :: "u8 \<Rightarrow> ptr \<Rightarrow> u32 \<Rightarrow> u32 \<Rightarrow> 'a kbc_scheme \<Rightarrow> (int \<times> 'a kbc_scheme) kres" where
  "fatbase_disk_read devid buffer secno nsecs s =
     kbind (getDeviceWithId (ucast devid) s) (\<lambda>dev. disk_read dev buffer secno nsecs s)"

definition fatbase_disk_write :: "u8 \<Rightarrow> ptr \<Rightarrow> u32 \<Rightarrow> u32 \<Rightarrow> 'a kbc_scheme \<Rightarrow> (int \<times> 'a kbc_scheme) kres" where
  "fatbase_disk_write devid buffer secno nsecs s =
     kbind (getDeviceWithId (ucast devid) s) (\<lambda>dev. disk_write dev buffer secno nsecs s)"

definition fatbase_disk_status :: "u8 \<Rightarrow> u8" where
  "fatbase_disk_status devid = 0"

definition fatbase_disk_initialize :: "u8 \<Rightarrow> u8" where
  "fatbase_disk_initialize devid = 0"

text \<open>The only command in use is \<^verbatim>\<open>CTRL_SYNC\<close>, which has no buffer.\<close>

definition fatbase_disk_ioctl :: "u8 \<Rightarrow> u8 \<Rightarrow> int" where
  "fatbase_disk_ioctl pdrv cmd = 0"

definition get_fattime :: u32 where
  "get_fattime = 0"

section \<open>The sector window\<close>

text \<open>The loop that writes the other copies of the file allocation table.\<close>

fun mirror_loop :: "nat \<Rightarrow> ptr \<Rightarrow> u32 \<Rightarrow> 'a kfat_scheme \<Rightarrow> 'a kfat_scheme kres" where
  "mirror_loop 0 fs wsect s = Ret s"
| "mirror_loop (Suc n) fs wsect s =
     (let wsect' = wsect + sects_fat (SBs s fs)
      in kbind (fatbase_disk_write (sb_drive (SBs s fs)) (win fs) wsect' 1 s) (\<lambda>(_, s1). mirror_loop n fs wsect' s1))"

definition window_flush :: "ptr \<Rightarrow> 'a kfat_scheme \<Rightarrow> (bool \<times> 'a kfat_scheme) kres" where
  "window_flush fs s =
     (if winflag (SBs s fs) = 0 then Ret (True, s)
      else let wsect = winsect (SBs s fs)
           in kbind (fatbase_disk_write (sb_drive (SBs s fs)) (win fs) wsect 1 s) (\<lambda>(r, s1).
                if r \<noteq> 0 then Ret (False, s1)
                else let s2 = upd_sb fs (\<lambda>b. b\<lparr>winflag := 0\<rparr>) s1
                     in if wsect < fatbase (SBs s2 fs) + sects_fat (SBs s2 fs)
                        then kbind (mirror_loop (unat (n_fats (SBs s2 fs)) - 1) fs wsect s2) (\<lambda>s3. Ret (True, s3))
                        else Ret (True, s2)))"

definition move_window :: "ptr \<Rightarrow> u32 \<Rightarrow> 'a kfat_scheme \<Rightarrow> (bool \<times> 'a kfat_scheme) kres" where
  "move_window fs sector s =
     (if winsect (SBs s fs) = sector then Ret (True, s)
      else kbind (window_flush fs s) (\<lambda>(ok, s1).
        if \<not> ok then Ret (False, s1)
        else if sector = 0 then Ret (True, s1)
        else kbind (fatbase_disk_read (sb_drive (SBs s1 fs)) (win fs) sector 1 s1) (\<lambda>(r, s2).
          if r \<noteq> 0 then Ret (False, s2) else Ret (True, upd_sb fs (\<lambda>b. b\<lparr>winsect := sector\<rparr>) s2))))"

definition fsinfo_bytes :: "ptr \<Rightarrow> FATBase_SuperBlock \<Rightarrow> memory \<Rightarrow> memory" where
  "fsinfo_bytes fs b m =
     (let m0 = snd (memset (win fs) 0 512 m); m1 = ST_WORD (win fs + 510) 0xAA55 m0; m2 = ST_DWORD (win fs) 0x41615252 m1;
          m3 = ST_DWORD (win fs + 484) 0x61417272 m2; m4 = ST_DWORD (win fs + 488) (free_clust b) m3
      in ST_DWORD (win fs + 492) (last_clust b) m4)"

definition fat_sync_fs :: "ptr \<Rightarrow> 'a kfat_scheme \<Rightarrow> (int \<times> 'a kfat_scheme) kres" where
  "fat_sync_fs fs s =
     kbind (move_window fs 0 (upd_sb fs (\<lambda>b. b\<lparr>winflag := 1\<rparr>) s)) (\<lambda>(ok, s1).
       if \<not> ok then Ret (FR_RW_ERROR, s1)
       else kbind
         (if fs_type (SBs s1 fs) = FS_FAT32 \<and> fsi_flag (SBs s1 fs) \<noteq> 0
          then let s2 = upd_sb fs (\<lambda>b. b\<lparr>winsect := 0\<rparr>) s1; s3 = upd_mem (fsinfo_bytes fs (SBs s2 fs)) s2
               in kbind (fatbase_disk_write (sb_drive (SBs s3 fs)) (win fs) (fsi_sector (SBs s3 fs)) 1 s3) (\<lambda>(_, s4).
                    Ret (upd_sb fs (\<lambda>b. b\<lparr>fsi_flag := 0\<rparr>) s4))
          else Ret s1) (\<lambda>s5.
         Ret (if fatbase_disk_ioctl (sb_drive (SBs s5 fs)) 0 \<noteq> 0 then FR_RW_ERROR else FR_OK, s5)))"

section \<open>The file allocation table\<close>

text \<open>The byte offset of a FAT12 entry, as a 16-bit value.\<close>

definition fat12_bc :: "u32 \<Rightarrow> u16" where
  "fat12_bc clust = ucast (ucast (ucast clust :: u16) * 3 div (2 :: u32))"

definition fat12_at :: "ptr \<Rightarrow> u16 \<Rightarrow> ptr" where
  "fat12_at fs bc = win fs + ucast (bc AND 511)"

definition fat12_sect :: "FATBase_SuperBlock \<Rightarrow> u16 \<Rightarrow> u32" where
  "fat12_sect b bc = fatbase b + ucast (bc div 512)"

definition get_cluster :: "ptr \<Rightarrow> u32 \<Rightarrow> 'a kfat_scheme \<Rightarrow> (u32 \<times> 'a kfat_scheme) kres" where
  "get_cluster fs clust s =
     (let b = SBs s fs
      in if \<not> (2 \<le> clust \<and> clust < max_clust b) then Ret (1, s)
         else if fs_type b = FS_FAT12
         then let bc = fat12_bc clust
              in kbind (move_window fs (fat12_sect b bc) s) (\<lambda>(ok, s1).
                   if \<not> ok then Ret (1, s1)
                   else let wc = (ucast (mem s1 (fat12_at fs bc)) :: u16)
                        in kbind (move_window fs (fat12_sect b (bc + 1)) s1) (\<lambda>(ok, s2).
                             if \<not> ok then Ret (1, s2)
                             else let wc' = wc OR push_bit 8 (ucast (mem s2 (fat12_at fs (bc + 1))))
                                  in Ret (ucast (if clust AND 1 \<noteq> 0 then drop_bit 4 wc' else wc' AND 0xFFF), s2)))
         else if fs_type b = FS_FAT16
         then kbind (move_window fs (fatbase b + clust div 256) s) (\<lambda>(ok, s1).
                Ret (if \<not> ok then 1 else ucast (LD_WORD (mem s1) (win fs + (ucast (ucast clust :: u16) * 2 AND 511))), s1))
         else if fs_type b = FS_FAT32
         then kbind (move_window fs (fatbase b + clust div 128) s) (\<lambda>(ok, s1).
                Ret (if \<not> ok then 1 else LD_DWORD (mem s1) (win fs + (ucast (ucast clust :: u16) * 4 AND 511)) AND 0x0FFFFFFF, s1))
         else Ret (1, s))"

definition set_winflag :: "ptr \<Rightarrow> 'a kfat_scheme \<Rightarrow> 'a kfat_scheme" where
  "set_winflag fs s = upd_sb fs (\<lambda>b. b\<lparr>winflag := 1\<rparr>) s"

definition put_cluster :: "ptr \<Rightarrow> u32 \<Rightarrow> u32 \<Rightarrow> 'a kfat_scheme \<Rightarrow> (bool \<times> 'a kfat_scheme) kres" where
  "put_cluster fs clust val s =
     (let b = SBs s fs
      in if fs_type b = FS_FAT12
         then let bc = fat12_bc clust
              in kbind (move_window fs (fat12_sect b bc) s) (\<lambda>(ok, s1).
                   if \<not> ok then Ret (False, s1)
                   else let p = fat12_at fs bc;
                            s2 = set_winflag fs (upd_mem (\<lambda>m. m(p := if clust AND 1 \<noteq> 0
                                   then (m p AND 0x0F) OR push_bit 4 (ucast val) else ucast val)) s1)
                        in kbind (move_window fs (fat12_sect b (bc + 1)) s2) (\<lambda>(ok, s3).
                             if \<not> ok then Ret (False, s3)
                             else let p = fat12_at fs (bc + 1)
                                  in Ret (True, set_winflag fs (upd_mem (\<lambda>m. m(p := if clust AND 1 \<noteq> 0
                                       then ucast (drop_bit 4 val) else (m p AND 0xF0) OR (ucast (drop_bit 8 val) AND 0x0F))) s3))))
         else if fs_type b = FS_FAT16
         then kbind (move_window fs (fatbase b + clust div 256) s) (\<lambda>(ok, s1).
                if \<not> ok then Ret (False, s1)
                else Ret (True, set_winflag fs (upd_mem (ST_WORD (win fs + (ucast (ucast clust :: u16) * 2 AND 511)) (ucast val)) s1)))
         else if fs_type b = FS_FAT32
         then kbind (move_window fs (fatbase b + clust div 128) s) (\<lambda>(ok, s1).
                if \<not> ok then Ret (False, s1)
                else Ret (True, set_winflag fs (upd_mem (ST_DWORD (win fs + (ucast (ucast clust :: u16) * 4 AND 511)) val) s1)))
         else Ret (False, s))"

text \<open>The number of free clusters is kept up to date once it is known.\<close>

definition count_free :: "(u32 \<Rightarrow> u32) \<Rightarrow> ptr \<Rightarrow> 'a kfat_scheme \<Rightarrow> 'a kfat_scheme" where
  "count_free f fs s =
     (if free_clust (SBs s fs) \<noteq> 0xFFFFFFFF then upd_sb fs (\<lambda>b. b\<lparr>free_clust := f (free_clust b), fsi_flag := 1\<rparr>) s else s)"

definition remove_chain_body :: "ptr \<Rightarrow> u32 \<times> 'a kfat_scheme \<Rightarrow> (u32 \<times> 'a kfat_scheme + bool \<times> 'a kfat_scheme) kres" where
  "remove_chain_body fs = (\<lambda>(clust, s).
     if \<not> (2 \<le> clust \<and> clust < max_clust (SBs s fs)) then Ret (Inr (True, s))
     else kbind (get_cluster fs clust s) (\<lambda>(nxt, s1).
       if nxt = 1 then Ret (Inr (False, s1))
       else kbind (put_cluster fs clust 0 s1) (\<lambda>(ok, s2).
         if \<not> ok then Ret (Inr (False, s2)) else Ret (Inl (nxt, count_free (\<lambda>n. n + 1) fs s2)))))"

definition remove_chain :: "ptr \<Rightarrow> u32 \<Rightarrow> 'a kfat_scheme \<Rightarrow> (bool \<times> 'a kfat_scheme) kres" where
  "remove_chain fs clust s = kwhile (remove_chain_body fs) (clust, s)"

text \<open>The search for a free cluster: \<open>Inl\<close> a value to return (0 or 1), \<open>Inr\<close> the free cluster.\<close>

definition find_free_body :: "ptr \<Rightarrow> u32 \<Rightarrow> u32 \<Rightarrow> u32 \<times> 'a kfat_scheme \<Rightarrow> (u32 \<times> 'a kfat_scheme + (u32 + u32) \<times> 'a kfat_scheme) kres" where
  "find_free_body fs scl mcl = (\<lambda>(ncl, s).
     let ncl1 = ncl + 1; ncl2 = (if mcl \<le> ncl1 then 2 else ncl1)
     in if mcl \<le> ncl1 \<and> scl < 2 then Ret (Inr (Inl 0, s))
        else kbind (get_cluster fs ncl2 s) (\<lambda>(cstat, s1).
          if cstat = 0 then Ret (Inr (Inr ncl2, s1))
          else if cstat = 1 then Ret (Inr (Inl 1, s1))
          else if ncl2 = scl then Ret (Inr (Inl 0, s1))
          else Ret (Inl (ncl2, s1))))"

definition link_cluster :: "ptr \<Rightarrow> u32 \<Rightarrow> u32 \<Rightarrow> 'a kfat_scheme \<Rightarrow> (u32 \<times> 'a kfat_scheme) kres" where
  "link_cluster fs clust ncl s =
     kbind (put_cluster fs ncl 0x0FFFFFFF s) (\<lambda>(ok, s1).
       if \<not> ok then Ret (1, s1)
       else kbind (if clust \<noteq> 0 then put_cluster fs clust ncl s1 else Ret (True, s1)) (\<lambda>(ok, s2).
         if \<not> ok then Ret (1, s2)
         else Ret (ncl, count_free (\<lambda>n. n - 1) fs (upd_sb fs (\<lambda>b. b\<lparr>last_clust := ncl\<rparr>) s2))))"

definition create_chain_from :: "ptr \<Rightarrow> u32 \<Rightarrow> u32 \<Rightarrow> u32 \<Rightarrow> 'a kfat_scheme \<Rightarrow> (u32 \<times> 'a kfat_scheme) kres" where
  "create_chain_from fs clust scl mcl s =
     kbind (kwhile (find_free_body fs scl mcl) (scl, s)) (\<lambda>(r, s1).
       case r of Inl e \<Rightarrow> Ret (e, s1) | Inr ncl \<Rightarrow> link_cluster fs clust ncl s1)"

definition create_chain :: "ptr \<Rightarrow> u32 \<Rightarrow> 'a kfat_scheme \<Rightarrow> (u32 \<times> 'a kfat_scheme) kres" where
  "create_chain fs clust s =
     (let mcl = max_clust (SBs s fs)
      in if clust = 0
         then let scl = last_clust (SBs s fs)
              in create_chain_from fs clust (if scl = 0 \<or> mcl \<le> scl then 1 else scl) mcl s
         else kbind (get_cluster fs clust s) (\<lambda>(cstat, s1).
           if cstat < 2 then Ret (1, s1)
           else if cstat < mcl then Ret (cstat, s1)
           else create_chain_from fs clust clust mcl s1))"

definition clust2sect :: "FATBase_SuperBlock \<Rightarrow> u32 \<Rightarrow> u32" where
  "clust2sect b clust =
     (let c = clust - 2 in if max_clust b - 2 \<le> c then 0 else c * ucast (sects_clust b) + database b)"

end
