(* ===== verification/FatDir.thy ===== *)
theory FatDir
  imports FatBase
begin

text \<open>
  The FAT driver, continued: directories, names in the 8.3 format, the tracing of paths, and the mounting of
  volumes (\<^verbatim>\<open>kern/fs/fat/fat_base.c\<close>).  A directory object is a value of type \<open>FATBase_DIR\<close>, passed in and
  returned; a name in the format of directory entries is a list of 12 bytes (name, extension, NT flag); a
  directory entry is an address in the window of its volume.
\<close>

abbreviation (input) AM_RDO :: u8 where "AM_RDO \<equiv> 0x01"
abbreviation (input) AM_HID :: u8 where "AM_HID \<equiv> 0x02"
abbreviation (input) AM_SYS :: u8 where "AM_SYS \<equiv> 0x04"
abbreviation (input) AM_VOL :: u8 where "AM_VOL \<equiv> 0x08"
abbreviation (input) AM_DIR :: u8 where "AM_DIR \<equiv> 0x10"
abbreviation (input) AM_ARC :: u8 where "AM_ARC \<equiv> 0x20"

abbreviation (input) DIR_Attr :: ptr where "DIR_Attr \<equiv> 11"
abbreviation (input) DIR_NTres :: ptr where "DIR_NTres \<equiv> 12"
abbreviation (input) DIR_CrtTime :: ptr where "DIR_CrtTime \<equiv> 14"
abbreviation (input) DIR_FstClusHI :: ptr where "DIR_FstClusHI \<equiv> 20"
abbreviation (input) DIR_WrtTime :: ptr where "DIR_WrtTime \<equiv> 22"
abbreviation (input) DIR_WrtDate :: ptr where "DIR_WrtDate \<equiv> 24"
abbreviation (input) DIR_FstClusLO :: ptr where "DIR_FstClusLO \<equiv> 26"
abbreviation (input) DIR_FileSize :: ptr where "DIR_FileSize \<equiv> 28"

section \<open>Directory entries\<close>

definition dir_entry_at :: "ptr \<Rightarrow> u16 \<Rightarrow> ptr" where
  "dir_entry_at fs index = win fs + ucast (index AND 15) * 32"

definition dir_first_clust :: "memory \<Rightarrow> ptr \<Rightarrow> u32" where
  "dir_first_clust m dir = push_bit 16 (ucast (LD_WORD m (dir + DIR_FstClusHI))) OR ucast (LD_WORD m (dir + DIR_FstClusLO))"

definition next_dir_entry :: "FATBase_DIR \<Rightarrow> 'a kfat_scheme \<Rightarrow> (bool \<times> FATBase_DIR \<times> 'a kfat_scheme) kres" where
  "next_dir_entry dj s =
     (let fs = dj_fs dj; idx = dj_index dj + 1
      in if idx AND 15 \<noteq> 0 then Ret (True, dj\<lparr>dj_index := idx\<rparr>, s)
         else let dj1 = dj\<lparr>dj_sect := dj_sect dj + 1\<rparr>
              in if dj_clust dj1 = 0
                 then if n_rootdir (SBs s fs) \<le> idx then Ret (False, dj1, s) else Ret (True, dj1\<lparr>dj_index := idx\<rparr>, s)
                 else if (ucast (idx div 16) :: u32) AND (ucast (sects_clust (SBs s fs)) - 1) = 0
                 then kbind (get_cluster fs (dj_clust dj1) s) (\<lambda>(clust, s1).
                   if clust < 2 \<or> max_clust (SBs s1 fs) \<le> clust then Ret (False, dj1, s1)
                   else Ret (True, dj1\<lparr>dj_clust := clust, dj_sect := clust2sect (SBs s1 fs) clust, dj_index := idx\<rparr>, s1))
                 else Ret (True, dj1\<lparr>dj_index := idx\<rparr>, s))"

text \<open>The loops of \<^verbatim>\<open>get_fileinfo\<close>: characters up to a space, at most \<open>n\<close>.\<close>

fun copy_name :: "(u8 \<Rightarrow> u8) \<Rightarrow> memory \<Rightarrow> ptr \<Rightarrow> nat \<Rightarrow> u8 list" where
  "copy_name f m p 0 = []"
| "copy_name f m p (Suc n) = (if m p = 0x20 then [] else f (m p) # copy_name f m (p + 1) n)"

definition lower_if :: "bool \<Rightarrow> u8 \<Rightarrow> u8" where
  "lower_if l c = (if l \<and> 0x41 \<le> c \<and> c \<le> 0x5A then c + 0x20 else c)"

definition get_fileinfo :: "memory \<Rightarrow> ptr \<Rightarrow> FATBase_FILINFO" where
  "get_fileinfo m dir =
     (let a = m (dir + DIR_NTres);
          body = copy_name (\<lambda>c. lower_if (a AND 0x08 \<noteq> 0) (if c = 0x05 then 0xE5 else c)) m dir 8;
          ext = (if m (dir + 8) \<noteq> 0x20 then 0x2E # copy_name (lower_if (a AND 0x10 \<noteq> 0)) m (dir + 8) 3 else [])
      in \<lparr>fi_fsize = LD_DWORD m (dir + DIR_FileSize), fi_fdate = LD_WORD m (dir + DIR_WrtDate), fi_ftime = LD_WORD m (dir + DIR_WrtTime),
          fattrib = m (dir + DIR_Attr), fname = body @ ext @ [0]\<rparr>)"

section \<open>Names\<close>

text \<open>
  What \<^verbatim>\<open>make_dirfile\<close> does with a character other than the separators and the dot: \<open>None\<close> where it is rejected,
  otherwise the character to store and the flags \<^verbatim>\<open>a\<close> and \<^verbatim>\<open>b\<close>.
\<close>

definition dirfile_char :: "u8 \<Rightarrow> u8 \<Rightarrow> u8 \<Rightarrow> u8 \<Rightarrow> u8 \<Rightarrow> (u8 \<times> u8 \<times> u8) option" where
  "dirfile_char c n t a b =
     (if 0x81 \<le> c \<and> c \<le> 0x9F \<or> 0xE0 \<le> c \<and> c \<le> 0xFC then Some (if n = 0 \<and> c = 0xE5 then 0x05 else c, a XOR 1, b)
      else if c = 0x22 then None
      else if c \<le> 0x29 then Some (c, a AND 0xFE, b)
      else if c \<le> 0x2C then None
      else if c \<le> 0x39 then Some (c, a AND 0xFE, b)
      else if c \<le> 0x3F then None
      else if a AND 1 \<noteq> 0 then Some (c, a AND 0xFE, b)
      else if c = 0x7C \<or> 0x5B \<le> c \<and> c \<le> 0x5D then None
      else let b' = (if 0x41 \<le> c \<and> c \<le> 0x5A then if t = 8 then b AND 0xF7 else b AND 0xEF else b)
           in if 0x61 \<le> c \<and> c \<le> 0x7A then Some (c - 0x20, (if t = 8 then a OR 0x08 else a OR 0x10) AND 0xFE, b')
              else Some (c, a AND 0xFE, b'))"

definition make_dirfile_body ::
  "memory \<Rightarrow> ptr \<times> u8 list \<times> u8 \<times> u8 \<times> u8 \<times> u8 \<Rightarrow> (ptr \<times> u8 list \<times> u8 \<times> u8 \<times> u8 \<times> u8 + u8 \<times> ptr \<times> u8 list) kres" where
  "make_dirfile_body m = (\<lambda>(path, fn, n, t, a, b).
     let c = m path; path' = path + 1; bad = Ret (Inr (1, path', fn))
     in if c = 0 \<or> c = 0x2F
        then if n = 0 then bad else Ret (Inr (c, path', fn[11 := a AND b]))
        else if c \<le> 0x20 \<or> c = 0x7F then bad
        else if c = 0x2E
        then if a AND 1 = 0 \<and> 1 \<le> n \<and> n \<le> 8 then Ret (Inl (path', fn, 8, 11, a, b)) else bad
        else case dirfile_char c n t a b of
               None \<Rightarrow> bad
             | Some (c', a', b') \<Rightarrow> if t \<le> n then bad else Ret (Inl (path', fn[unat n := c'], n + 1, t, a', b')))"

definition make_dirfile :: "memory \<Rightarrow> ptr \<Rightarrow> (u8 \<times> ptr \<times> u8 list) kres" where
  "make_dirfile m path = kwhile (make_dirfile_body m) (path, replicate 11 0x20 @ [0], 0, 8, 0, 0x18)"

section \<open>Tracing a path\<close>

definition root_dir :: "ptr \<Rightarrow> FATBase_SuperBlock \<Rightarrow> FATBase_DIR \<Rightarrow> FATBase_DIR" where
  "root_dir fs b dj =
     (if fs_type b = FS_FAT32 then dj\<lparr>dj_clust := dirbase b, dj_sclust := dirbase b, dj_sect := clust2sect b (dirbase b), dj_index := 0\<rparr>
      else dj\<lparr>dj_clust := 0, dj_sclust := 0, dj_sect := dirbase b, dj_index := 0\<rparr>)"

definition entry_matches :: "memory \<Rightarrow> ptr \<Rightarrow> u8 list \<Rightarrow> bool" where
  "entry_matches m dptr fn \<longleftrightarrow> m dptr \<noteq> 0xE5 \<and> m (dptr + DIR_Attr) AND AM_VOL = 0 \<and> rdbytes m dptr 11 = take 11 fn"

text \<open>The search for one segment: \<open>Inl\<close> an error to return, \<open>Inr\<close> the entry.\<close>

definition trace_search_body ::
  "u8 \<Rightarrow> u8 list \<Rightarrow> FATBase_DIR \<times> 'a kfat_scheme \<Rightarrow> (FATBase_DIR \<times> 'a kfat_scheme + (int + ptr) \<times> FATBase_DIR \<times> 'a kfat_scheme) kres" where
  "trace_search_body ds fn = (\<lambda>(dj, s).
     let fs = dj_fs dj; absent = (if ds = 0 then FR_NO_FILE else FR_NO_PATH)
     in kbind (move_window fs (dj_sect dj) s) (\<lambda>(ok, s1).
          if \<not> ok then Ret (Inr (Inl FR_RW_ERROR, dj, s1))
          else let dptr = dir_entry_at fs (dj_index dj)
               in if mem s1 dptr = 0 then Ret (Inr (Inl absent, dj, s1))
                  else if entry_matches (mem s1) dptr fn then Ret (Inr (Inr dptr, dj, s1))
                  else kbind (next_dir_entry dj s1) (\<lambda>(ok, dj', s2).
                    if \<not> ok then Ret (Inr (Inl absent, dj', s2)) else Ret (Inl (dj', s2)))))"

definition trace_search :: "u8 \<Rightarrow> u8 list \<Rightarrow> FATBase_DIR \<Rightarrow> 'a kfat_scheme \<Rightarrow> ((int + ptr) \<times> FATBase_DIR \<times> 'a kfat_scheme) kres" where
  "trace_search ds fn dj s = kwhile (trace_search_body ds fn) (dj, s)"

definition sub_dir :: "FATBase_SuperBlock \<Rightarrow> u32 \<Rightarrow> FATBase_DIR \<Rightarrow> FATBase_DIR" where
  "sub_dir b clust dj = dj\<lparr>dj_clust := clust, dj_sclust := clust, dj_sect := clust2sect b clust, dj_index := 2\<rparr>"

definition trace_path_body ::
  "ptr \<times> FATBase_DIR \<times> 'a kfat_scheme \<Rightarrow>
     (ptr \<times> FATBase_DIR \<times> 'a kfat_scheme + int \<times> FATBase_DIR \<times> u8 list \<times> ptr \<times> 'a kfat_scheme) kres" where
  "trace_path_body = (\<lambda>(path, dj, s).
     kbind (make_dirfile (mem s) path) (\<lambda>(ds, path', fn).
       if ds = 1 then Ret (Inr (FR_INVALID_NAME, dj, fn, NULL, s))
       else kbind (trace_search ds fn dj s) (\<lambda>(r, dj1, s1).
         case r of
           Inl e \<Rightarrow> Ret (Inr (e, dj1, fn, NULL, s1))
         | Inr dptr \<Rightarrow>
             if ds = 0 then Ret (Inr (FR_OK, dj1, fn, dptr, s1))
             else if mem s1 (dptr + DIR_Attr) AND AM_DIR = 0 then Ret (Inr (FR_NO_PATH, dj1, fn, NULL, s1))
             else Ret (Inl (path', sub_dir (SBs s1 (dj_fs dj1)) (dir_first_clust (mem s1) dptr) dj1, s1)))))"

definition trace_path :: "FATBase_DIR \<Rightarrow> ptr \<Rightarrow> 'a kfat_scheme \<Rightarrow> (int \<times> FATBase_DIR \<times> u8 list \<times> ptr \<times> 'a kfat_scheme) kres" where
  "trace_path dj path s =
     (let dj1 = root_dir (dj_fs dj) (SBs s (dj_fs dj)) dj
      in if mem s path = 0 then Ret (FR_OK, dj1, [], NULL, s) else kwhile trace_path_body (path, dj1, s))"

section \<open>Reserving an entry\<close>

text \<open>The search for an empty entry: \<open>Inl\<close> an error, \<open>Inr None\<close> the end of the table.\<close>

definition reserve_body ::
  "FATBase_DIR \<times> 'a kfat_scheme \<Rightarrow> (FATBase_DIR \<times> 'a kfat_scheme + (int + ptr option) \<times> FATBase_DIR \<times> 'a kfat_scheme) kres" where
  "reserve_body = (\<lambda>(dj, s).
     kbind (move_window (dj_fs dj) (dj_sect dj) s) (\<lambda>(ok, s1).
       if \<not> ok then Ret (Inr (Inl FR_RW_ERROR, dj, s1))
       else let dptr = dir_entry_at (dj_fs dj) (dj_index dj); c = mem s1 dptr
            in if c = 0 \<or> c = 0xE5 then Ret (Inr (Inr (Some dptr), dj, s1))
               else kbind (next_dir_entry dj s1) (\<lambda>(ok, dj', s2).
                 if ok then Ret (Inl (dj', s2)) else Ret (Inr (Inr None, dj', s2)))))"

text \<open>Consecutive sectors written from the window.\<close>

fun fill_sectors :: "nat \<Rightarrow> ptr \<Rightarrow> u32 \<Rightarrow> 'a kfat_scheme \<Rightarrow> (bool \<times> 'a kfat_scheme) kres" where
  "fill_sectors 0 fs sector s = Ret (True, s)"
| "fill_sectors (Suc n) fs sector s =
     kbind (fatbase_disk_write (sb_drive (SBs s fs)) (win fs) sector 1 s) (\<lambda>(r, s1).
       if r \<noteq> 0 then Ret (False, s1) else fill_sectors n fs (sector + 1) s1)"

definition stretch_dir :: "ptr \<Rightarrow> u32 \<Rightarrow> 'a kfat_scheme \<Rightarrow> (int \<times> ptr \<times> 'a kfat_scheme) kres" where
  "stretch_dir fs clust s =
     kbind (create_chain fs clust s) (\<lambda>(c, s1).
       if c = 0 then Ret (FR_DENIED, NULL, s1)
       else if c = 1 then Ret (FR_RW_ERROR, NULL, s1)
       else kbind (move_window fs 0 s1) (\<lambda>(ok, s2).
         if \<not> ok then Ret (FR_RW_ERROR, NULL, s2)
         else let sector = clust2sect (SBs s2 fs) c;
                  s3 = upd_mem (\<lambda>m. snd (memset (win fs) 0 SS m)) (upd_sb fs (\<lambda>b. b\<lparr>winsect := sector\<rparr>) s2)
              in kbind (fill_sectors (unat (sects_clust (SBs s3 fs))) fs sector s3) (\<lambda>(ok, s4).
                   if \<not> ok then Ret (FR_RW_ERROR, NULL, s4) else Ret (FR_OK, win fs, set_winflag fs s4))))"

definition reserve_direntry :: "FATBase_DIR \<Rightarrow> 'a kfat_scheme \<Rightarrow> (int \<times> FATBase_DIR \<times> ptr \<times> 'a kfat_scheme) kres" where
  "reserve_direntry dj s =
     (let fs = dj_fs dj; clust = dj_sclust dj;
          dj1 = (if clust \<noteq> 0 then dj\<lparr>dj_clust := clust, dj_sect := clust2sect (SBs s fs) clust, dj_index := 0\<rparr>
                 else dj\<lparr>dj_sect := dirbase (SBs s fs), dj_index := 0\<rparr>)
      in kbind (kwhile reserve_body (dj1, s)) (\<lambda>(r, dj2, s1).
           case r of
             Inl e \<Rightarrow> Ret (e, dj2, NULL, s1)
           | Inr (Some dptr) \<Rightarrow> Ret (FR_OK, dj2, dptr, s1)
           | Inr None \<Rightarrow> if clust = 0 then Ret (FR_DENIED, dj2, NULL, s1)
                         else kbind (stretch_dir fs (dj_clust dj2) s1) (\<lambda>(e, dptr, s2). Ret (e, dj2, dptr, s2))))"

section \<open>Mounting\<close>

definition check_fs :: "ptr \<Rightarrow> u32 \<Rightarrow> 'a kfat_scheme \<Rightarrow> (u8 \<times> 'a kfat_scheme) kres" where
  "check_fs fs sect s =
     kbind (fatbase_disk_read (sb_drive (SBs s fs)) (win fs) sect 1 s) (\<lambda>(r, s1).
       Ret (if r \<noteq> 0 then 2
            else if LD_WORD (mem s1) (win fs + 510) \<noteq> 0xAA55 then 2
            else if rdbytes (mem s1) (win fs + 54) 3 = [0x46, 0x41, 0x54] then 0
            else if rdbytes (mem s1) (win fs + 82) 5 = [0x46, 0x41, 0x54, 0x33, 0x32] \<and> mem s1 (win fs + 40) AND 0x80 = 0 then 0
            else 1, s1))"

text \<open>The drive number in front of a path, and the rest of the path.\<close>

definition path_drive :: "memory \<Rightarrow> ptr \<Rightarrow> (u8 \<times> ptr) kres" where
  "path_drive m path =
     kbind (kwhile (\<lambda>p. Ret (if m p = 0x20 then Inl (p + 1) else Inr p)) path) (\<lambda>p.
       let drv = m p - 0x30;
           (drv', p1) = (if drv \<le> 9 \<and> m (p + 1) = 0x3A then (drv, p + 2) else (0, p))
       in Ret (drv', if m p1 = 0x2F then p1 + 1 else p1))"

definition zero_sb :: FATBase_SuperBlock where
  "zero_sb = \<lparr>sb_id = 0, n_rootdir = 0, winsect = 0, sects_fat = 0, max_clust = 0, fatbase = 0, dirbase = 0, database = 0, last_clust = 0,
     free_clust = 0, fsi_sector = 0, fsi_flag = 0, fs_type = 0, sects_clust = 0, n_fats = 0, sb_drive = 0, winflag = 0\<rparr>"

definition clear_sb :: "ptr \<Rightarrow> 'a kfat_scheme \<Rightarrow> 'a kfat_scheme" where
  "clear_sb fs s = upd_mem (\<lambda>m. snd (memset (win fs) 0 512 m)) (upd_sb fs (\<lambda>_. zero_sb) s)"

text \<open>The search for the boot record: the given sector, or else the partition it lists.\<close>

definition find_volume :: "ptr \<Rightarrow> u8 \<Rightarrow> u32 \<Rightarrow> 'a kfat_scheme \<Rightarrow> (u8 \<times> u32 \<times> 'a kfat_scheme) kres" where
  "find_volume fs drv bootsect s =
     kbind (check_fs fs bootsect s) (\<lambda>(fmt, s1).
       if fmt \<noteq> 1 then Ret (fmt, bootsect, s1)
       else let pt = part_pt (Fat_Drives s1 (unat drv)); tbl = win fs + 446 + ucast pt * 16
            in if 4 \<le> pt then Undef
               else if mem s1 (tbl + 4) = 0 then Ret (fmt, bootsect, s1)
               else let boot = LD_DWORD (mem s1) (tbl + 8)
                    in kbind (check_fs fs boot s1) (\<lambda>(fmt', s2). Ret (fmt', boot, s2)))"

definition volume_format :: "u32 \<Rightarrow> u8" where
  "volume_format maxclust = (if 0xFFF7 \<le> maxclust then FS_FAT32 else if 0xFF7 \<le> maxclust then FS_FAT16 else FS_FAT12)"

text \<open>The geometry of the volume, from its boot record in the window.\<close>

definition read_geometry :: "memory \<Rightarrow> ptr \<Rightarrow> u32 \<Rightarrow> FATBase_SuperBlock \<Rightarrow> FATBase_SuperBlock" where
  "read_geometry m w bootsect b =
     (let fatsz16 = LD_WORD m (w + 22); fatsz = (if fatsz16 = 0 then LD_DWORD m (w + 36) else ucast fatsz16);
          nf = m (w + 16); fatsize = fatsz * ucast nf; rsvd = ucast (LD_WORD m (w + 14)); fatb = bootsect + rsvd;
          sc = m (w + 13); nroot = LD_WORD m (w + 17); rootsects = ucast (nroot div 16);
          tot16 = LD_WORD m (w + 19); totalsect = (if tot16 = 0 then LD_DWORD m (w + 32) else ucast tot16);
          maxclust = (totalsect - rsvd - fatsize - rootsects) div ucast sc + 2
      in b\<lparr>sects_fat := fatsz, n_fats := nf, fatbase := fatb, sects_clust := sc, n_rootdir := nroot, max_clust := maxclust,
           dirbase := (if volume_format maxclust = FS_FAT32 then LD_DWORD m (w + 44) else fatb + fatsize),
           database := fatb + fatsize + rootsects, free_clust := 0xFFFFFFFF\<rparr>)"

definition read_fsinfo :: "ptr \<Rightarrow> u32 \<Rightarrow> 'a kfat_scheme \<Rightarrow> 'a kfat_scheme kres" where
  "read_fsinfo fs bootsect s =
     (let s1 = upd_sb fs (\<lambda>b. b\<lparr>fsi_sector := bootsect + ucast (LD_WORD (mem s) (win fs + 48))\<rparr>) s
      in kbind (fatbase_disk_read (sb_drive (SBs s1 fs)) (win fs) (fsi_sector (SBs s1 fs)) 1 s1) (\<lambda>(r, s2).
           let m = mem s2; w = win fs
           in Ret (if r = 0 \<and> LD_WORD m (w + 510) = 0xAA55 \<and> LD_DWORD m w = 0x41615252 \<and> LD_DWORD m (w + 484) = 0x61417272
                   then upd_sb fs (\<lambda>b. b\<lparr>last_clust := LD_DWORD m (w + 492), free_clust := LD_DWORD m (w + 488)\<rparr>) s2
                   else s2)))"

definition mount_volume :: "ptr \<Rightarrow> u8 \<Rightarrow> u32 \<Rightarrow> bool \<Rightarrow> 'a kfat_scheme \<Rightarrow> (int \<times> 'a kfat_scheme) kres" where
  "mount_volume fs drv boot chk_wp s =
     (let s1 = upd_sb fs (\<lambda>b. b\<lparr>sb_drive := part_pd (Fat_Drives s (unat drv))\<rparr>) (clear_sb fs s);
          stat = fatbase_disk_initialize (sb_drive (SBs s1 fs))
      in if stat AND STA_NOINIT \<noteq> 0 then Ret (FR_NOT_READY, s1)
         else if chk_wp \<and> stat AND STA_PROTECT \<noteq> 0 then Ret (FR_WRITE_PROTECTED, s1)
         else kbind (find_volume fs drv boot s1) (\<lambda>(fmt, bootsect, s2).
           if fmt \<noteq> 0 \<or> LD_WORD (mem s2) (win fs + 11) \<noteq> 512 then Ret (FR_NO_FILESYSTEM, s2)
           else if mem s2 (win fs + 13) = 0 then Undef
           else let s3 = upd_sb fs (read_geometry (mem s2) (win fs) bootsect) s2;
                    fmt' = volume_format (max_clust (SBs s3 fs))
                in kbind (if fmt' = FS_FAT32 then read_fsinfo fs bootsect s3 else Ret s3) (\<lambda>s4.
                     let nid = fsid s4 + 1
                     in Ret (FR_OK, (upd_sb fs (\<lambda>b. b\<lparr>fs_type := fmt', sb_id := nid\<rparr>) s4)\<lparr>fsid := nid\<rparr>))))"

text \<open>The common part of the two ways to mount: the drive must be registered, and a mounted volume is kept.\<close>

definition mount_drive :: "u8 \<Rightarrow> u32 \<Rightarrow> bool \<Rightarrow> 'a kfat_scheme \<Rightarrow> (int \<times> ptr \<times> 'a kfat_scheme) kres" where
  "mount_drive drv bootsect chk_wp s =
     (if DRIVES \<le> drv then Ret (FR_INVALID_DRIVE, NULL, s)
      else let fs = Fat_SuperBlock s (unat drv)
           in if fs = NULL then Ret (FR_NOT_ENABLED, fs, s)
              else let stat = fatbase_disk_status (sb_drive (SBs s fs))
                   in if fs_type (SBs s fs) \<noteq> 0 \<and> stat AND STA_NOINIT = 0
                      then Ret (if chk_wp \<and> stat AND STA_PROTECT \<noteq> 0 then FR_WRITE_PROTECTED else FR_OK, fs, s)
                      else kbind (mount_volume fs drv bootsect chk_wp s) (\<lambda>(r, s1). Ret (r, fs, s1)))"

definition auto_mount :: "ptr \<Rightarrow> bool \<Rightarrow> 'a kfat_scheme \<Rightarrow> (int \<times> ptr \<times> ptr \<times> 'a kfat_scheme) kres" where
  "auto_mount path chk_wp s =
     kbind (path_drive (mem s) path) (\<lambda>(drv, path').
       kbind (mount_drive drv 0 chk_wp s) (\<lambda>(r, fs, s1). Ret (r, path', fs, s1)))"

definition validate :: "ptr \<Rightarrow> u16 \<Rightarrow> 'a kfat_scheme \<Rightarrow> int" where
  "validate fs fid s =
     (if fs = NULL \<or> fs_type (SBs s fs) = 0 \<or> sb_id (SBs s fs) \<noteq> fid then FR_INVALID_OBJECT
      else if fatbase_disk_status (sb_drive (SBs s fs)) AND STA_NOINIT \<noteq> 0 then FR_NOT_READY
      else FR_OK)"

definition f_mount :: "u8 \<Rightarrow> ptr \<Rightarrow> 'a kfat_scheme \<Rightarrow> int \<times> 'a kfat_scheme" where
  "f_mount drv fs s =
     (if DRIVES \<le> drv then (FR_INVALID_DRIVE, s)
      else let old = Fat_SuperBlock s (unat drv);
               s1 = (if old \<noteq> NULL then upd_sb old (\<lambda>b. b\<lparr>fs_type := 0\<rparr>) s else s);
               s2 = s1\<lparr>Fat_SuperBlock := (Fat_SuperBlock s1)(unat drv := fs)\<rparr>
           in (FR_OK, if fs \<noteq> NULL then upd_sb fs (\<lambda>b. b\<lparr>fs_type := 0\<rparr>) s2 else s2))"

end
