(* ===== verification/FatFile.thy ===== *)
theory FatFile
  imports FatDir
begin

text \<open>
  The FAT driver, continued: files (\<^verbatim>\<open>kern/fs/fat/fat_base.c\<close>).  The scalar fields of a \<^verbatim>\<open>FATBase_FILE\<close> are a record
  at its address; its sector buffer is 512 bytes of memory, 36 bytes into the structure.
\<close>

abbreviation (input) FA_READ :: u8 where "FA_READ \<equiv> 0x01"
abbreviation (input) FA_WRITE :: u8 where "FA_WRITE \<equiv> 0x02"
abbreviation (input) FA_CREATE_NEW :: u8 where "FA_CREATE_NEW \<equiv> 0x04"
abbreviation (input) FA_CREATE_ALWAYS :: u8 where "FA_CREATE_ALWAYS \<equiv> 0x08"
abbreviation (input) FA_OPEN_ALWAYS :: u8 where "FA_OPEN_ALWAYS \<equiv> 0x10"
abbreviation (input) FA__WRITTEN :: u8 where "FA__WRITTEN \<equiv> 0x20"
abbreviation (input) FA__DIRTY :: u8 where "FA__DIRTY \<equiv> 0x40"
abbreviation (input) FA__ERROR :: u8 where "FA__ERROR \<equiv> 0x80"

abbreviation (input) sizeof_FATBase_FILE :: u32 where "sizeof_FATBase_FILE \<equiv> 548"

definition upd_fp :: "ptr \<Rightarrow> (FATBase_FILE \<Rightarrow> FATBase_FILE) \<Rightarrow> 'a kfat_scheme \<Rightarrow> 'a kfat_scheme" where
  "upd_fp fp f s = s\<lparr>FatFiles := (FatFiles s)(fp := f (FatFiles s fp))\<rparr>"

definition fbuf :: "ptr \<Rightarrow> ptr" where
  "fbuf fp = fp + 36"

definition new_dj :: "ptr \<Rightarrow> FATBase_DIR" where
  "new_dj fs = \<lparr>dj_id = 0, dj_index = 0, dj_fs = fs, dj_sclust = 0, dj_clust = 0, dj_sect = 0\<rparr>"

section \<open>Opening\<close>

definition name_entry :: "ptr \<Rightarrow> u8 list \<Rightarrow> memory \<Rightarrow> memory" where
  "name_entry dir fn m = (wrbytes dir (take 11 fn) m)(dir + DIR_NTres := fn ! 11)"

definition blank_entry :: "ptr \<Rightarrow> u8 list \<Rightarrow> memory \<Rightarrow> memory" where
  "blank_entry dir fn m = name_entry dir fn (snd (memset dir 0 32 m))"

definition cut_entry :: "ptr \<Rightarrow> memory \<Rightarrow> memory" where
  "cut_entry dir m = ST_DWORD (dir + DIR_FileSize) 0 (ST_WORD (dir + DIR_FstClusLO) 0 (ST_WORD (dir + DIR_FstClusHI) 0 m))"

text \<open>The branch that may create the file: the result, the mode, the entry and the state.\<close>

definition open_create :: "u8 \<Rightarrow> int \<Rightarrow> FATBase_DIR \<Rightarrow> u8 list \<Rightarrow> ptr \<Rightarrow> 'a kfat_scheme \<Rightarrow> (int \<times> u8 \<times> ptr \<times> 'a kfat_scheme) kres" where
  "open_create mode res dj fn dir s =
     (let fs = dj_fs dj
      in if res \<noteq> FR_OK
         then if res \<noteq> FR_NO_FILE then Ret (res, mode, dir, s)
              else kbind (reserve_direntry dj s) (\<lambda>(res1, dj1, dir1, s1).
                if res1 \<noteq> FR_OK then Ret (res1, mode, dir1, s1)
                else Ret (FR_OK, mode OR FA_CREATE_ALWAYS, dir1, upd_mem (blank_entry dir1 fn) s1))
         else if mode AND FA_CREATE_NEW \<noteq> 0 then Ret (FR_EXIST, mode, dir, s)
         else if dir = NULL \<or> mem s (dir + DIR_Attr) AND (AM_RDO OR AM_DIR) \<noteq> 0 then Ret (FR_DENIED, mode, dir, s)
         else if mode AND FA_CREATE_ALWAYS \<noteq> 0
         then let rs = dir_first_clust (mem s) dir; s1 = set_winflag fs (upd_mem (cut_entry dir) s); ps = winsect (SBs s1 fs)
              in kbind (remove_chain fs rs s1) (\<lambda>(ok, s2).
                   if \<not> ok then Ret (FR_RW_ERROR, mode, dir, s2)
                   else kbind (move_window fs ps s2) (\<lambda>(ok, s3).
                     if \<not> ok then Ret (FR_RW_ERROR, mode, dir, s3)
                     else Ret (FR_OK, mode, dir, upd_sb fs (\<lambda>b. b\<lparr>last_clust := rs - 1\<rparr>) s3)))
         else Ret (FR_OK, mode, dir, s))"

definition open_reset :: "ptr \<Rightarrow> u8 \<Rightarrow> ptr \<Rightarrow> 'a kfat_scheme \<Rightarrow> u8 \<times> 'a kfat_scheme" where
  "open_reset fs mode dir s =
     (if mode AND FA_CREATE_ALWAYS \<noteq> 0
      then (mode OR FA__WRITTEN, set_winflag fs (upd_mem (\<lambda>m. ST_DWORD (dir + DIR_CrtTime) get_fattime (m(dir + DIR_Attr := 0))) s))
      else (mode, s))"

definition open_find :: "u8 \<Rightarrow> int \<Rightarrow> FATBase_DIR \<Rightarrow> u8 list \<Rightarrow> ptr \<Rightarrow> 'a kfat_scheme \<Rightarrow> (int \<times> u8 \<times> ptr \<times> 'a kfat_scheme) kres" where
  "open_find mode res dj fn dir s =
     (if mode AND (FA_CREATE_ALWAYS OR FA_OPEN_ALWAYS OR FA_CREATE_NEW) \<noteq> 0
      then kbind (open_create mode res dj fn dir s) (\<lambda>(res1, mode1, dir1, s1).
        if res1 \<noteq> FR_OK then Ret (res1, mode1, dir1, s1)
        else let (mode2, s2) = open_reset (dj_fs dj) mode1 dir1 s1 in Ret (FR_OK, mode2, dir1, s2))
      else if res \<noteq> FR_OK then Ret (res, mode, dir, s)
      else if dir = NULL \<or> mem s (dir + DIR_Attr) AND AM_DIR \<noteq> 0 then Ret (FR_NO_FILE, mode, dir, s)
      else if mode AND FA_WRITE \<noteq> 0 \<and> mem s (dir + DIR_Attr) AND AM_RDO \<noteq> 0 then Ret (FR_DENIED, mode, dir, s)
      else Ret (FR_OK, mode, dir, s))"

definition open_fill :: "ptr \<Rightarrow> ptr \<Rightarrow> u8 \<Rightarrow> ptr \<Rightarrow> 'a kfat_scheme \<Rightarrow> 'a kfat_scheme" where
  "open_fill fp fs mode dir s =
     upd_fp fp (\<lambda>f. f\<lparr>dir_sect := winsect (SBs s fs), dir_ptr := dir, fp_flag := mode, org_clust := dir_first_clust (mem s) dir,
       fsize := LD_DWORD (mem s) (dir + DIR_FileSize), fptr := 0, sect_clust := 1, fp_fs := fs, fp_id := sb_id (SBs s fs)\<rparr>) s"

definition fatbase_open :: "ptr \<Rightarrow> ptr \<Rightarrow> u8 \<Rightarrow> 'a kfat_scheme \<Rightarrow> (int \<times> 'a kfat_scheme) kres" where
  "fatbase_open fp path mode s =
     (let s0 = upd_fp fp (\<lambda>f. f\<lparr>fp_fs := NULL\<rparr>) s;
          mode0 = mode AND (FA_READ OR FA_WRITE OR FA_CREATE_ALWAYS OR FA_OPEN_ALWAYS OR FA_CREATE_NEW)
      in kbind (auto_mount path (mode0 AND (FA_WRITE OR FA_CREATE_ALWAYS OR FA_OPEN_ALWAYS OR FA_CREATE_NEW) \<noteq> 0) s0) (\<lambda>(res, path', fs, s1).
           if res \<noteq> FR_OK then Ret (res, s1)
           else kbind (trace_path (new_dj fs) path' s1) (\<lambda>(res, dj, fn, dir, s2).
             kbind (open_find mode0 res dj fn dir s2) (\<lambda>(res, mode1, dir1, s3).
               if res \<noteq> FR_OK then Ret (res, s3) else Ret (FR_OK, open_fill fp fs mode1 dir1 s3)))))"

section \<open>Reading\<close>

definition file_error :: "ptr \<Rightarrow> 'a kfat_scheme \<Rightarrow> 'a kfat_scheme" where
  "file_error fp s = upd_fp fp (\<lambda>f. f\<lparr>fp_flag := fp_flag f OR FA__ERROR\<rparr>) s"

definition flush_file :: "ptr \<Rightarrow> 'a kfat_scheme \<Rightarrow> (bool \<times> 'a kfat_scheme) kres" where
  "flush_file fp s =
     (let f = FatFiles s fp
      in if fp_flag f AND FA__DIRTY = 0 then Ret (True, s)
         else kbind (fatbase_disk_write (sb_drive (SBs s (fp_fs f))) (fbuf fp) (curr_sect f) 1 s) (\<lambda>(r, s1).
           if r \<noteq> 0 then Ret (False, s1) else Ret (True, upd_fp fp (\<lambda>f. f\<lparr>fp_flag := fp_flag f AND NOT FA__DIRTY\<rparr>) s1)))"

text \<open>The next sector of the file, on a sector boundary; \<open>None\<close> where there is no valid cluster.\<close>

definition read_sector :: "ptr \<Rightarrow> 'a kfat_scheme \<Rightarrow> (u32 option \<times> 'a kfat_scheme) kres" where
  "read_sector fp s =
     (let f = FatFiles s fp; fs = fp_fs f; left = sect_clust f - 1; s1 = upd_fp fp (\<lambda>f. f\<lparr>sect_clust := left\<rparr>) s
      in if left \<noteq> 0 then Ret (Some (curr_sect f + 1), s1)
         else kbind (if fptr f = 0 then Ret (org_clust f, s1) else get_cluster fs (curr_clust f) s1) (\<lambda>(clust, s2).
           if clust < 2 \<or> max_clust (SBs s2 fs) \<le> clust then Ret (None, s2)
           else Ret (Some (clust2sect (SBs s2 fs) clust),
                     upd_fp fp (\<lambda>f. f\<lparr>curr_clust := clust, sect_clust := sects_clust (SBs s2 fs)\<rparr>) s2)))"

text \<open>A round of the loops that read and write: the buffer, the bytes left, the bytes done, and the state.\<close>

type_synonym 'a rw = "ptr \<times> u32 \<times> u32 \<times> 'a kfat_scheme"

definition rw_next :: "ptr \<Rightarrow> u32 \<Rightarrow> ptr \<Rightarrow> u32 \<Rightarrow> u32 \<Rightarrow> 'a kfat_scheme \<Rightarrow> ('a rw + 'b) kres" where
  "rw_next fp cnt buff left got s =
     Ret (Inl (buff + cnt, left - cnt, got + cnt, upd_fp fp (\<lambda>f. f\<lparr>fptr := fptr f + cnt\<rparr>) s))"

definition rw_fraction :: "u32 \<Rightarrow> u32 \<Rightarrow> u32" where
  "rw_fraction pos left = (let n = SS - (pos AND 511) in if left < n then left else n)"

definition read_part :: "ptr \<Rightarrow> 'a rw \<Rightarrow> ('a rw + int \<times> u32 \<times> 'a kfat_scheme) kres" where
  "read_part fp = (\<lambda>(rbuff, btr, br, s).
     let pos = fptr (FatFiles s fp); rcnt = rw_fraction pos btr
     in rw_next fp rcnt rbuff btr br (upd_mem (\<lambda>m. snd (memcpy rbuff (fbuf fp + (pos AND 511)) rcnt m)) s))"

definition rw_many :: "ptr \<Rightarrow> u32 \<Rightarrow> 'a kfat_scheme \<Rightarrow> u32" where
  "rw_many fp left s = (let cc = left div SS; sc = ucast (sect_clust (FatFiles s fp)) in if sc < cc then sc else cc)"

definition rw_skip :: "ptr \<Rightarrow> u32 \<Rightarrow> 'a kfat_scheme \<Rightarrow> 'a kfat_scheme" where
  "rw_skip fp cc s = upd_fp fp (\<lambda>f. f\<lparr>sect_clust := sect_clust f - ucast (cc - 1), curr_sect := curr_sect f + (cc - 1)\<rparr>) s"

definition read_body :: "ptr \<Rightarrow> 'a rw \<Rightarrow> ('a rw + int \<times> u32 \<times> 'a kfat_scheme) kres" where
  "read_body fp = (\<lambda>(rbuff, btr, br, s).
     if btr = 0 then Ret (Inr (FR_OK, br, s))
     else if fptr (FatFiles s fp) AND 511 \<noteq> 0 then read_part fp (rbuff, btr, br, s)
     else kbind (read_sector fp s) (\<lambda>(r, s1).
       case r of
         None \<Rightarrow> Ret (Inr (FR_RW_ERROR, br, file_error fp s1))
       | Some sect \<Rightarrow> kbind (flush_file fp s1) (\<lambda>(ok, s2).
           if \<not> ok then Ret (Inr (FR_RW_ERROR, br, file_error fp s2))
           else let s3 = upd_fp fp (\<lambda>f. f\<lparr>curr_sect := sect\<rparr>) s2; drv = sb_drive (SBs s3 (fp_fs (FatFiles s3 fp)))
                in if btr div SS \<noteq> 0
                   then let cc = rw_many fp btr s3
                        in kbind (fatbase_disk_read drv rbuff sect (ucast (ucast cc :: u8)) s3) (\<lambda>(r, s4).
                             if r \<noteq> 0 then Ret (Inr (FR_RW_ERROR, br, file_error fp s4))
                             else rw_next fp (cc * SS) rbuff btr br (rw_skip fp cc s4))
                   else kbind (fatbase_disk_read drv (fbuf fp) sect 1 s3) (\<lambda>(r, s4).
                     if r \<noteq> 0 then Ret (Inr (FR_RW_ERROR, br, file_error fp s4)) else read_part fp (rbuff, btr, br, s4)))))"

definition fatbase_read :: "ptr \<Rightarrow> ptr \<Rightarrow> u32 \<Rightarrow> 'a kfat_scheme \<Rightarrow> (int \<times> u32 \<times> 'a kfat_scheme) kres" where
  "fatbase_read fp buff btr s =
     (let f = FatFiles s fp; res = validate (fp_fs f) (fp_id f) s
      in if res \<noteq> FR_OK then Ret (res, 0, s)
         else if fp_flag f AND FA__ERROR \<noteq> 0 then Ret (FR_RW_ERROR, 0, s)
         else if fp_flag f AND FA_READ = 0 then Ret (FR_DENIED, 0, s)
         else let remain = fsize f - fptr f
              in kwhile (read_body fp) (buff, if remain < btr then remain else btr, 0, s))"

section \<open>Writing\<close>

text \<open>
  The cluster for the data at a cluster boundary: the file's first one, created on demand, or the one that
  follows the current one, created on demand.
\<close>

definition write_clust :: "ptr \<Rightarrow> 'a kfat_scheme \<Rightarrow> (u32 \<times> 'a kfat_scheme) kres" where
  "write_clust fp s =
     (let f = FatFiles s fp
      in if fptr f = 0
         then if org_clust f = 0
              then kbind (create_chain (fp_fs f) 0 s) (\<lambda>(clust, s1). Ret (clust, upd_fp fp (\<lambda>f. f\<lparr>org_clust := clust\<rparr>) s1))
              else Ret (org_clust f, s)
         else create_chain (fp_fs f) (curr_clust f) s)"

text \<open>The next sector to write: \<open>Inl True\<close> when the disk is full, \<open>Inl False\<close> on an error.\<close>

definition write_sector :: "ptr \<Rightarrow> 'a kfat_scheme \<Rightarrow> ((bool + u32) \<times> 'a kfat_scheme) kres" where
  "write_sector fp s =
     (let f = FatFiles s fp; fs = fp_fs f; left = sect_clust f - 1; s1 = upd_fp fp (\<lambda>f. f\<lparr>sect_clust := left\<rparr>) s
      in if left \<noteq> 0 then Ret (Inr (curr_sect f + 1), s1)
         else kbind (write_clust fp s1) (\<lambda>(clust, s2).
           if clust = 0 then Ret (Inl True, s2)
           else if clust = 1 \<or> max_clust (SBs s2 fs) \<le> clust then Ret (Inl False, s2)
           else Ret (Inr (clust2sect (SBs s2 fs) clust),
                     upd_fp fp (\<lambda>f. f\<lparr>curr_clust := clust, sect_clust := sects_clust (SBs s2 fs)\<rparr>) s2)))"

definition write_part :: "ptr \<Rightarrow> 'a rw \<Rightarrow> ('a rw + bool \<times> u32 \<times> 'a kfat_scheme) kres" where
  "write_part fp = (\<lambda>(wbuff, btw, bw, s).
     let pos = fptr (FatFiles s fp); wcnt = rw_fraction pos btw;
         s1 = upd_mem (\<lambda>m. snd (memcpy (fbuf fp + (pos AND 511)) wbuff wcnt m)) s
     in rw_next fp wcnt wbuff btw bw (upd_fp fp (\<lambda>f. f\<lparr>fp_flag := fp_flag f OR FA__DIRTY\<rparr>) s1))"

text \<open>The result tells whether the loop ended normally (all bytes written or the disk full).\<close>

definition write_body :: "ptr \<Rightarrow> 'a rw \<Rightarrow> ('a rw + bool \<times> u32 \<times> 'a kfat_scheme) kres" where
  "write_body fp = (\<lambda>(wbuff, btw, bw, s).
     if btw = 0 then Ret (Inr (True, bw, s))
     else if fptr (FatFiles s fp) AND 511 \<noteq> 0 then write_part fp (wbuff, btw, bw, s)
     else kbind (write_sector fp s) (\<lambda>(r, s1).
       case r of
         Inl full \<Rightarrow> Ret (Inr (full, bw, s1))
       | Inr sect \<Rightarrow> kbind (flush_file fp s1) (\<lambda>(ok, s2).
           if \<not> ok then Ret (Inr (False, bw, s2))
           else let s3 = upd_fp fp (\<lambda>f. f\<lparr>curr_sect := sect\<rparr>) s2; drv = sb_drive (SBs s3 (fp_fs (FatFiles s3 fp)))
                in if btw div SS \<noteq> 0
                   then let cc = rw_many fp btw s3
                        in kbind (fatbase_disk_write drv wbuff sect (ucast (ucast cc :: u8)) s3) (\<lambda>(r, s4).
                             if r \<noteq> 0 then Ret (Inr (False, bw, s4)) else rw_next fp (cc * SS) wbuff btw bw (rw_skip fp cc s4))
                   else if fptr (FatFiles s3 fp) < fsize (FatFiles s3 fp)
                   then kbind (fatbase_disk_read drv (fbuf fp) sect 1 s3) (\<lambda>(r, s4).
                     if r \<noteq> 0 then Ret (Inr (False, bw, s4)) else write_part fp (wbuff, btw, bw, s4))
                   else write_part fp (wbuff, btw, bw, s3))))"

definition write_finish :: "ptr \<Rightarrow> 'a kfat_scheme \<Rightarrow> 'a kfat_scheme" where
  "write_finish fp s =
     upd_fp fp (\<lambda>f. f\<lparr>fsize := (if fsize f < fptr f then fptr f else fsize f), fp_flag := fp_flag f OR FA__WRITTEN\<rparr>) s"

definition fatbase_write :: "ptr \<Rightarrow> ptr \<Rightarrow> u32 \<Rightarrow> 'a kfat_scheme \<Rightarrow> (int \<times> u32 \<times> 'a kfat_scheme) kres" where
  "fatbase_write fp buff btw s =
     (let f = FatFiles s fp; res = validate (fp_fs f) (fp_id f) s
      in if res \<noteq> FR_OK then Ret (res, 0, s)
         else if fp_flag f AND FA__ERROR \<noteq> 0 then Ret (FR_RW_ERROR, 0, s)
         else if fp_flag f AND FA_WRITE = 0 then Ret (FR_DENIED, 0, s)
         else if fsize f + btw < fsize f then Ret (FR_OK, 0, s)
         else kbind (kwhile (write_body fp) (buff, btw, 0, s)) (\<lambda>(done', bw, s1).
           if done' then Ret (FR_OK, bw, write_finish fp s1) else Ret (FR_RW_ERROR, bw, file_error fp s1)))"

section \<open>Synchronising and closing\<close>

definition sync_entry :: "FATBase_FILE \<Rightarrow> memory \<Rightarrow> memory" where
  "sync_entry f m =
     (let dir = dir_ptr f; m1 = m(dir + DIR_Attr := m (dir + DIR_Attr) OR AM_ARC); m2 = ST_DWORD (dir + DIR_FileSize) (fsize f) m1;
          m3 = ST_WORD (dir + DIR_FstClusLO) (ucast (org_clust f)) m2; m4 = ST_WORD (dir + DIR_FstClusHI) (ucast (drop_bit 16 (org_clust f))) m3
      in ST_DWORD (dir + DIR_WrtTime) get_fattime m4)"

definition fatbase_sync :: "ptr \<Rightarrow> 'a kfat_scheme \<Rightarrow> (int \<times> 'a kfat_scheme) kres" where
  "fatbase_sync fp s =
     (let f = FatFiles s fp; res = validate (fp_fs f) (fp_id f) s
      in if res \<noteq> FR_OK \<or> fp_flag f AND FA__WRITTEN = 0 then Ret (res, s)
         else kbind (flush_file fp s) (\<lambda>(ok, s1).
           if \<not> ok then Ret (FR_RW_ERROR, s1)
           else kbind (move_window (fp_fs f) (dir_sect f) s1) (\<lambda>(ok, s2).
             if \<not> ok then Ret (FR_RW_ERROR, s2)
             else fat_sync_fs (fp_fs f)
               (upd_fp fp (\<lambda>f. f\<lparr>fp_flag := fp_flag f AND NOT FA__WRITTEN\<rparr>) (upd_mem (sync_entry (FatFiles s2 fp)) s2)))))"

definition fatbase_close :: "ptr \<Rightarrow> 'a kfat_scheme \<Rightarrow> (int \<times> 'a kfat_scheme) kres" where
  "fatbase_close fp s =
     kbind (fatbase_sync fp s) (\<lambda>(res, s1). Ret (res, if res = FR_OK then upd_fp fp (\<lambda>f. f\<lparr>fp_fs := NULL\<rparr>) s1 else s1))"

section \<open>Seeking and truncating\<close>

text \<open>The loop that skips clusters: \<open>None\<close> on an error, otherwise the cluster reached and the offset in it.\<close>

definition seek_body :: "ptr \<Rightarrow> u32 \<Rightarrow> u32 \<times> u32 \<times> 'a kfat_scheme \<Rightarrow> (u32 \<times> u32 \<times> 'a kfat_scheme + (u32 \<times> u32) option \<times> 'a kfat_scheme) kres" where
  "seek_body fp csize = (\<lambda>(clust, ofs, s).
     let fs = fp_fs (FatFiles s fp); s1 = upd_fp fp (\<lambda>f. f\<lparr>curr_clust := clust\<rparr>) s
     in if ofs \<le> csize then Ret (Inr (Some (clust, ofs), s1))
        else kbind (if fp_flag (FatFiles s1 fp) AND FA_WRITE \<noteq> 0 then create_chain fs clust s1 else get_cluster fs clust s1) (\<lambda>(c, s2).
          if c = 0 then Ret (Inr (Some (c, csize), s2))
          else if c = 1 \<or> max_clust (SBs s2 fs) \<le> c then Ret (Inr (None, s2))
          else Ret (Inl (c, ofs - csize, upd_fp fp (\<lambda>f. f\<lparr>fptr := fptr f + csize\<rparr>) s2))))"

text \<open>The end of the movement inside a cluster.\<close>

definition seek_load :: "ptr \<Rightarrow> u32 \<Rightarrow> u32 \<Rightarrow> 'a kfat_scheme \<Rightarrow> (bool \<times> 'a kfat_scheme) kres" where
  "seek_load fp clust ofs s =
     (let fs = fp_fs (FatFiles s fp); csect = (ucast ((ofs - 1) div SS) :: u8);
          s1 = upd_fp fp (\<lambda>f. f\<lparr>curr_sect := clust2sect (SBs s fs) clust + ucast csect\<rparr>) s
      in kbind (if ofs AND 511 \<noteq> 0 then fatbase_disk_read (sb_drive (SBs s1 fs)) (fbuf fp) (curr_sect (FatFiles s1 fp)) 1 s1 else Ret (0, s1)) (\<lambda>(r, s2).
           if r \<noteq> 0 then Ret (False, s2)
           else Ret (True, upd_fp fp (\<lambda>f. f\<lparr>sect_clust := sects_clust (SBs s2 fs) - csect, fptr := fptr f + ofs\<rparr>) s2)))"

definition seek_move :: "ptr \<Rightarrow> u32 \<Rightarrow> 'a kfat_scheme \<Rightarrow> (bool \<times> 'a kfat_scheme) kres" where
  "seek_move fp ofs s =
     (let f = FatFiles s fp; fs = fp_fs f
      in if ofs = 0 then Ret (True, s)
         else kbind (if org_clust f = 0
                     then kbind (create_chain fs 0 s) (\<lambda>(c, s1). Ret (c, if c = 1 then s1 else upd_fp fp (\<lambda>f. f\<lparr>org_clust := c\<rparr>) s1))
                     else Ret (org_clust f, s)) (\<lambda>(clust, s1).
           if org_clust f = 0 \<and> clust = 1 then Ret (False, s1)
           else if clust = 0 then Ret (True, s1)
           else kbind (kwhile (seek_body fp (ucast (sects_clust (SBs s1 fs)) * SS)) (clust, ofs, s1)) (\<lambda>(r, s2).
             case r of None \<Rightarrow> Ret (False, s2) | Some (c, ofs') \<Rightarrow> seek_load fp c ofs' s2)))"

definition fatbase_lseek :: "ptr \<Rightarrow> u32 \<Rightarrow> 'a kfat_scheme \<Rightarrow> (int \<times> 'a kfat_scheme) kres" where
  "fatbase_lseek fp ofs s =
     (let f = FatFiles s fp; res = validate (fp_fs f) (fp_id f) s
      in if res \<noteq> FR_OK then Ret (res, s)
         else if fp_flag f AND FA__ERROR \<noteq> 0 then Ret (FR_RW_ERROR, s)
         else kbind (flush_file fp s) (\<lambda>(ok, s1).
           if \<not> ok then Ret (FR_RW_ERROR, file_error fp s1)
           else let ofs' = (if fsize f < ofs \<and> fp_flag f AND FA_WRITE = 0 then fsize f else ofs)
                in kbind (seek_move fp ofs' (upd_fp fp (\<lambda>f. f\<lparr>fptr := 0, sect_clust := 1\<rparr>) s1)) (\<lambda>(ok, s2).
                     if \<not> ok then Ret (FR_RW_ERROR, file_error fp s2)
                     else Ret (FR_OK, if fp_flag (FatFiles s2 fp) AND FA_WRITE \<noteq> 0 \<and> fsize (FatFiles s2 fp) < fptr (FatFiles s2 fp)
                       then upd_fp fp (\<lambda>f. f\<lparr>fsize := fptr f, fp_flag := fp_flag f OR FA__WRITTEN\<rparr>) s2 else s2))))"

definition fatbase_tell :: "ptr \<Rightarrow> 'a kfat_scheme \<Rightarrow> int \<times> u32" where
  "fatbase_tell fp s = (FR_OK, fptr (FatFiles s fp))"

definition truncate_chain :: "ptr \<Rightarrow> 'a kfat_scheme \<Rightarrow> (bool \<times> 'a kfat_scheme) kres" where
  "truncate_chain fp s =
     (let f = FatFiles s fp; fs = fp_fs f
      in if fptr f = 0
         then kbind (remove_chain fs (org_clust f) s) (\<lambda>(ok, s1).
           Ret (ok, if ok then upd_fp fp (\<lambda>f. f\<lparr>org_clust := 0\<rparr>) s1 else s1))
         else kbind (get_cluster fs (curr_clust f) s) (\<lambda>(ncl, s1).
           if ncl < 2 then Ret (False, s1)
           else if \<not> ncl < max_clust (SBs s1 fs) then Ret (True, s1)
           else kbind (put_cluster fs (curr_clust f) 0x0FFFFFFF s1) (\<lambda>(ok, s2).
             if \<not> ok then Ret (False, s2) else remove_chain fs ncl s2)))"

definition fatbase_truncate :: "ptr \<Rightarrow> 'a kfat_scheme \<Rightarrow> (int \<times> 'a kfat_scheme) kres" where
  "fatbase_truncate fp s =
     (let f = FatFiles s fp; res = validate (fp_fs f) (fp_id f) s
      in if res \<noteq> FR_OK then Ret (res, s)
         else if fp_flag f AND FA__ERROR \<noteq> 0 then Ret (FR_RW_ERROR, s)
         else if fp_flag f AND FA_WRITE = 0 then Ret (FR_DENIED, s)
         else if \<not> fptr f < fsize f then Ret (FR_OK, s)
         else kbind (truncate_chain fp (upd_fp fp (\<lambda>f. f\<lparr>fsize := fptr f, fp_flag := fp_flag f OR FA__WRITTEN\<rparr>) s)) (\<lambda>(ok, s1).
           if ok then Ret (FR_OK, s1) else Ret (FR_RW_ERROR, file_error fp s1)))"

end
