(* ===== verification/FatOps.thy ===== *)
theory FatOps
  imports FatFile
begin

text \<open>
  The FAT driver, continued: the operations on directories and directory entries, and the count of free
  clusters (\<^verbatim>\<open>kern/fs/fat/fat_base.c\<close>).  A \<^verbatim>\<open>FATBase_FILINFO\<close> is a value, passed in and returned.
\<close>

section \<open>Directories\<close>

definition fatbase_opendir :: "ptr \<Rightarrow> ptr \<Rightarrow> 'a kfat_scheme \<Rightarrow> (int \<times> 'a kfat_scheme) kres" where
  "fatbase_opendir djp path s =
     kbind (auto_mount path False s) (\<lambda>(res, path', fs, s1).
       let put = (\<lambda>dj t. t\<lparr>FatDirs := (FatDirs t)(djp := dj)\<rparr>); dj0 = (FatDirs s1 djp)\<lparr>dj_fs := fs\<rparr>
       in if res \<noteq> FR_OK then Ret (res, put dj0 s1)
          else kbind (trace_path dj0 path' s1) (\<lambda>(res, dj, fn, dir, s2).
            if res \<noteq> FR_OK then Ret (res, put dj s2)
            else if dir = NULL then Ret (FR_OK, put (dj\<lparr>dj_id := sb_id (SBs s2 fs)\<rparr>) s2)
            else if mem s2 (dir + DIR_Attr) AND AM_DIR \<noteq> 0
            then let clust = dir_first_clust (mem s2) dir
                 in Ret (FR_OK, put (dj\<lparr>dj_clust := clust, dj_sect := clust2sect (SBs s2 fs) clust, dj_index := 2, dj_id := sb_id (SBs s2 fs)\<rparr>) s2)
            else Ret (FR_NO_FILE, put (dj\<lparr>dj_id := sb_id (SBs s2 fs)\<rparr>) s2)))"

definition readdir_body ::
  "FATBase_DIR \<times> FATBase_FILINFO \<times> 'a kfat_scheme \<Rightarrow>
     (FATBase_DIR \<times> FATBase_FILINFO \<times> 'a kfat_scheme + int \<times> FATBase_DIR \<times> FATBase_FILINFO \<times> 'a kfat_scheme) kres" where
  "readdir_body = (\<lambda>(dj, fi, s).
     if dj_sect dj = 0 then Ret (Inr (FR_OK, dj, fi, s))
     else kbind (move_window (dj_fs dj) (dj_sect dj) s) (\<lambda>(ok, s1).
       if \<not> ok then Ret (Inr (FR_RW_ERROR, dj, fi, s1))
       else let dir = dir_entry_at (dj_fs dj) (dj_index dj); c = mem s1 dir
            in if c = 0 then Ret (Inr (FR_OK, dj, fi, s1))
               else let fi1 = (if c \<noteq> 0xE5 \<and> mem s1 (dir + DIR_Attr) AND AM_VOL = 0 then get_fileinfo (mem s1) dir else fi)
                    in kbind (next_dir_entry dj s1) (\<lambda>(ok, dj1, s2).
                         let dj2 = (if ok then dj1 else dj1\<lparr>dj_sect := 0\<rparr>)
                         in if hd (fname fi1) \<noteq> 0 then Ret (Inr (FR_OK, dj2, fi1, s2)) else Ret (Inl (dj2, fi1, s2)))))"

definition fatbase_readdir :: "ptr \<Rightarrow> FATBase_FILINFO \<Rightarrow> 'a kfat_scheme \<Rightarrow> (int \<times> FATBase_FILINFO \<times> 'a kfat_scheme) kres" where
  "fatbase_readdir djp finfo s =
     (let dj = FatDirs s djp; res = validate (dj_fs dj) (dj_id dj) s
      in if res \<noteq> FR_OK then Ret (res, finfo, s)
         else kbind (kwhile readdir_body (dj, finfo\<lparr>fname := 0 # tl (fname finfo)\<rparr>, s)) (\<lambda>(res, dj1, fi, s1).
           Ret (res, fi, s1\<lparr>FatDirs := (FatDirs s1)(djp := dj1)\<rparr>)))"

text \<open>The prefix the operations on paths share: mount, then trace.\<close>

definition trace_mounted :: "ptr \<Rightarrow> bool \<Rightarrow> 'a kfat_scheme \<Rightarrow> (int \<times> FATBase_DIR \<times> u8 list \<times> ptr \<times> 'a kfat_scheme) kres" where
  "trace_mounted path chk_wp s =
     kbind (auto_mount path chk_wp s) (\<lambda>(res, path', fs, s1).
       if res \<noteq> FR_OK then Ret (res, new_dj fs, [], NULL, s1) else trace_path (new_dj fs) path' s1)"

definition fatbase_stat :: "ptr \<Rightarrow> FATBase_FILINFO \<Rightarrow> 'a kfat_scheme \<Rightarrow> (int \<times> FATBase_FILINFO \<times> 'a kfat_scheme) kres" where
  "fatbase_stat path finfo s =
     kbind (trace_mounted path False s) (\<lambda>(res, dj, fn, dir, s1).
       if res \<noteq> FR_OK then Ret (res, finfo, s1)
       else if dir \<noteq> NULL then Ret (FR_OK, get_fileinfo (mem s1) dir, s1) else Ret (FR_INVALID_NAME, finfo, s1))"

section \<open>Free clusters\<close>

definition getfree12_body :: "ptr \<Rightarrow> u32 \<times> u32 \<times> 'a kfat_scheme \<Rightarrow> (u32 \<times> u32 \<times> 'a kfat_scheme + u32 \<times> 'a kfat_scheme) kres" where
  "getfree12_body fs = (\<lambda>(clust, n, s).
     kbind (get_cluster fs clust s) (\<lambda>(c, s1).
       let n' = (if (ucast c :: u16) = 0 then n + 1 else n); clust' = clust + 1
       in if clust' < max_clust (SBs s1 fs) then Ret (Inl (clust', n', s1)) else Ret (Inr (n', s1))))"

text \<open>The scan of the table of the other formats: the clusters left, the sector, the counter \<^verbatim>\<open>f\<close>, the position and the count.\<close>

definition getfree_body ::
  "ptr \<Rightarrow> u32 \<times> u32 \<times> u8 \<times> ptr \<times> u32 \<times> 'a kfat_scheme \<Rightarrow> (u32 \<times> u32 \<times> u8 \<times> ptr \<times> u32 \<times> 'a kfat_scheme + u32 option \<times> 'a kfat_scheme) kres" where
  "getfree_body fs = (\<lambda>(clust, sect, f, p, n, s).
     kbind (if f = 0 then kbind (move_window fs sect s) (\<lambda>(ok, s1). Ret (ok, sect + 1, win fs, s1)) else Ret (True, sect, p, s)) (\<lambda>(ok, sect1, p1, s1).
       if \<not> ok then Ret (Inr (None, s1))
       else let fat16 = (fs_type (SBs s1 fs) = FS_FAT16);
                free = (if fat16 then LD_WORD (mem s1) p1 = 0 else LD_DWORD (mem s1) p1 = 0);
                n' = (if free then n + 1 else n);
                (p2, f') = (if fat16 then (p1 + 2, f + 1) else (p1 + 4, f + 2));
                clust' = clust - 1
            in if clust' \<noteq> 0 then Ret (Inl (clust', sect1, f', p2, n', s1)) else Ret (Inr (Some n', s1))))"

definition fatbase_getfree :: "ptr \<Rightarrow> 'a kfat_scheme \<Rightarrow> (int \<times> u32 option \<times> ptr \<times> 'a kfat_scheme) kres" where
  "fatbase_getfree drv s =
     kbind (auto_mount drv False s) (\<lambda>(res, _, fs, s1).
       let b = SBs s1 fs
       in if res \<noteq> FR_OK then Ret (res, None, fs, s1)
          else if free_clust b \<le> max_clust b - 2 then Ret (FR_OK, Some (free_clust b), fs, s1)
          else kbind (if fs_type b = FS_FAT12
                      then kbind (kwhile (getfree12_body fs) (2, 0, s1)) (\<lambda>(n, s2). Ret (Some n, s2))
                      else kwhile (getfree_body fs) (max_clust b, fatbase b, 0, NULL, 0, s1)) (\<lambda>(r, s2).
            case r of
              None \<Rightarrow> Ret (FR_RW_ERROR, None, fs, s2)
            | Some n \<Rightarrow> Ret (FR_OK, Some n, fs, upd_sb fs (\<lambda>b'. b'\<lparr>free_clust := n,
                fsi_flag := (if fs_type b = FS_FAT32 then 1 else fsi_flag b')\<rparr>) s2)))"

section \<open>Changing directory entries\<close>

text \<open>Whether a sub-directory is empty: \<open>Inl\<close> an error to return.\<close>

definition empty_body :: "FATBase_DIR \<times> 'a kfat_scheme \<Rightarrow> (FATBase_DIR \<times> 'a kfat_scheme + int \<times> 'a kfat_scheme) kres" where
  "empty_body = (\<lambda>(dj, s).
     kbind (move_window (dj_fs dj) (dj_sect dj) s) (\<lambda>(ok, s1).
       if \<not> ok then Ret (Inr (FR_RW_ERROR, s1))
       else let sdir = dir_entry_at (dj_fs dj) (dj_index dj)
            in if mem s1 sdir = 0 then Ret (Inr (FR_OK, s1))
               else if mem s1 sdir \<noteq> 0xE5 \<and> mem s1 (sdir + DIR_Attr) AND AM_VOL = 0 then Ret (Inr (FR_DENIED, s1))
               else kbind (next_dir_entry dj s1) (\<lambda>(ok, dj1, s2). if ok then Ret (Inl (dj1, s2)) else Ret (Inr (FR_OK, s2)))))"

definition fatbase_delete :: "ptr \<Rightarrow> 'a kfat_scheme \<Rightarrow> (int \<times> 'a kfat_scheme) kres" where
  "fatbase_delete path s =
     kbind (trace_mounted path True s) (\<lambda>(res, dj, fn, dir, s1).
       let fs = dj_fs dj; dsect = winsect (SBs s1 fs); dclust = dir_first_clust (mem s1) dir
       in if res \<noteq> FR_OK then Ret (res, s1)
          else if dir = NULL then Ret (FR_INVALID_NAME, s1)
          else if mem s1 (dir + DIR_Attr) AND AM_RDO \<noteq> 0 then Ret (FR_DENIED, s1)
          else kbind (if mem s1 (dir + DIR_Attr) AND AM_DIR \<noteq> 0
                      then kwhile empty_body (dj\<lparr>dj_clust := dclust, dj_sect := clust2sect (SBs s1 fs) dclust, dj_index := 2\<rparr>, s1)
                      else Ret (FR_OK, s1)) (\<lambda>(res, s2).
            if res \<noteq> FR_OK then Ret (res, s2)
            else kbind (move_window fs dsect s2) (\<lambda>(ok, s3).
              if \<not> ok then Ret (FR_RW_ERROR, s3)
              else kbind (remove_chain fs dclust (set_winflag fs (upd_mem (\<lambda>m. m(dir := 0xE5)) s3))) (\<lambda>(ok, s4).
                if \<not> ok then Ret (FR_RW_ERROR, s4) else fat_sync_fs fs s4))))"

text \<open>The first sector of a new directory: the entries for itself and its parent.\<close>

definition dot_entries :: "ptr \<Rightarrow> u32 \<Rightarrow> u32 \<Rightarrow> memory \<Rightarrow> memory" where
  "dot_entries fw dclust pclust m =
     (let m1 = (snd (memset fw 0x20 11 m))(fw := 0x2E, fw + DIR_Attr := AM_DIR); m2 = ST_DWORD (fw + DIR_WrtTime) get_fattime m1;
          m3 = (snd (memcpy (fw + 32) fw 32 m2))(fw + 33 := 0x2E);
          m4 = ST_WORD (fw + DIR_FstClusHI) (ucast (drop_bit 16 dclust)) (ST_WORD (fw + DIR_FstClusLO) (ucast dclust) m3)
      in ST_WORD (fw + 32 + DIR_FstClusHI) (ucast (drop_bit 16 pclust)) (ST_WORD (fw + 32 + DIR_FstClusLO) (ucast pclust) m4))"

definition dir_entry :: "ptr \<Rightarrow> u8 list \<Rightarrow> u32 \<Rightarrow> memory \<Rightarrow> memory" where
  "dir_entry dir fn dclust m =
     (let m1 = (blank_entry dir fn m)(dir + DIR_Attr := AM_DIR); m2 = ST_DWORD (dir + DIR_WrtTime) get_fattime m1
      in ST_WORD (dir + DIR_FstClusHI) (ucast (drop_bit 16 dclust)) (ST_WORD (dir + DIR_FstClusLO) (ucast dclust) m2))"

definition make_table :: "FATBase_DIR \<Rightarrow> u32 \<Rightarrow> u32 \<Rightarrow> 'a kfat_scheme \<Rightarrow> (bool \<times> 'a kfat_scheme) kres" where
  "make_table dj dclust dsect s =
     (let fs = dj_fs dj; s1 = upd_mem (\<lambda>m. snd (memset (win fs) 0 SS m)) s
      in kbind (fill_sectors (unat (sects_clust (SBs s1 fs)) - 1) fs (dsect + 1) s1) (\<lambda>(ok, s2).
           if \<not> ok then Ret (False, s2)
           else let b = SBs s2 fs; pclust = (if fs_type b = FS_FAT32 \<and> dj_sclust dj = dirbase b then 0 else dj_sclust dj)
                in Ret (True, set_winflag fs (upd_mem (dot_entries (win fs) dclust pclust) s2))))"

definition fatbase_mkdir :: "ptr \<Rightarrow> 'a kfat_scheme \<Rightarrow> (int \<times> 'a kfat_scheme) kres" where
  "fatbase_mkdir path s =
     kbind (trace_mounted path True s) (\<lambda>(res, dj, fn, _, s1).
       let fs = dj_fs dj
       in if res = FR_OK then Ret (FR_EXIST, s1)
          else if res \<noteq> FR_NO_FILE then Ret (res, s1)
          else kbind (reserve_direntry dj s1) (\<lambda>(res, dj1, dir, s2).
            if res \<noteq> FR_OK then Ret (res, s2)
            else let sect = winsect (SBs s2 fs)
                 in kbind (create_chain fs 0 s2) (\<lambda>(dclust, s3).
                      if dclust = 1 then Ret (FR_RW_ERROR, s3)
                      else let dsect = clust2sect (SBs s3 fs) dclust
                           in if dsect = 0 then Ret (FR_DENIED, s3)
                              else kbind (move_window fs dsect s3) (\<lambda>(ok, s4).
                                if \<not> ok then Ret (FR_RW_ERROR, s4)
                                else kbind (make_table dj1 dclust dsect s4) (\<lambda>(ok, s5).
                                  if \<not> ok then Ret (FR_RW_ERROR, s5)
                                  else kbind (move_window fs sect s5) (\<lambda>(ok, s6).
                                    if \<not> ok then Ret (FR_RW_ERROR, s6)
                                    else fat_sync_fs fs (upd_mem (dir_entry dir fn dclust) s6)))))))"

text \<open>Change the entry a path names and synchronise.\<close>

definition change_entry :: "(ptr \<Rightarrow> memory \<Rightarrow> memory) \<Rightarrow> ptr \<Rightarrow> 'a kfat_scheme \<Rightarrow> (int \<times> 'a kfat_scheme) kres" where
  "change_entry g path s =
     kbind (trace_mounted path True s) (\<lambda>(res, dj, fn, dir, s1).
       if res \<noteq> FR_OK then Ret (res, s1)
       else if dir = NULL then Ret (FR_INVALID_NAME, s1)
       else fat_sync_fs (dj_fs dj) (upd_mem (g dir) s1))"

definition fatbase_chmod :: "ptr \<Rightarrow> u8 \<Rightarrow> u8 \<Rightarrow> 'a kfat_scheme \<Rightarrow> (int \<times> 'a kfat_scheme) kres" where
  "fatbase_chmod path val msk s =
     (let k = msk AND (AM_RDO OR AM_HID OR AM_SYS OR AM_ARC)
      in change_entry (\<lambda>dir m. m(dir + DIR_Attr := (val AND k) OR (m (dir + DIR_Attr) AND NOT k))) path s)"

definition fatbase_utime :: "ptr \<Rightarrow> FATBase_FILINFO \<Rightarrow> 'a kfat_scheme \<Rightarrow> (int \<times> 'a kfat_scheme) kres" where
  "fatbase_utime path finfo s =
     change_entry (\<lambda>dir m. ST_WORD (dir + DIR_WrtDate) (fi_fdate finfo) (ST_WORD (dir + DIR_WrtTime) (fi_ftime finfo) m)) path s"

definition fatbase_rename :: "ptr \<Rightarrow> ptr \<Rightarrow> 'a kfat_scheme \<Rightarrow> (int \<times> 'a kfat_scheme) kres" where
  "fatbase_rename path_old path_new s =
     kbind (trace_mounted path_old True s) (\<lambda>(res, dj, _, dir_old, s1).
       let fs = dj_fs dj; sect_old = winsect (SBs s1 fs); direntry = rdbytes (mem s1) (dir_old + DIR_Attr) 21
       in if res \<noteq> FR_OK then Ret (res, s1)
          else if dir_old = NULL then Ret (FR_NO_FILE, s1)
          else kbind (trace_path dj path_new s1) (\<lambda>(res, dj1, fn, _, s2).
            if res = FR_OK then Ret (FR_EXIST, s2)
            else if res \<noteq> FR_NO_FILE then Ret (res, s2)
            else kbind (reserve_direntry dj1 s2) (\<lambda>(res, _, dir_new, s3).
              if res \<noteq> FR_OK then Ret (res, s3)
              else let s4 = set_winflag fs (upd_mem (\<lambda>m. name_entry dir_new fn (wrbytes (dir_new + DIR_Attr) direntry m)) s3)
                   in kbind (move_window fs sect_old s4) (\<lambda>(ok, s5).
                        if \<not> ok then Ret (FR_RW_ERROR, s5)
                        else fat_sync_fs fs (upd_mem (\<lambda>m. m(dir_old := 0xE5)) s5)))))"

text \<open>\<^verbatim>\<open>ls\<close>, without its output: the result of the last call.\<close>

definition ls_body :: "ptr \<Rightarrow> FATBase_FILINFO \<times> 'a kfat_scheme \<Rightarrow> (FATBase_FILINFO \<times> 'a kfat_scheme + int \<times> 'a kfat_scheme) kres" where
  "ls_body djp = (\<lambda>(fi, s).
     kbind (fatbase_readdir djp fi s) (\<lambda>(res, fi1, s1).
       if res \<noteq> FR_OK \<or> hd (fname fi1) = 0 then Ret (Inr (res, s1)) else Ret (Inl (fi1, s1))))"

definition ls :: "ptr \<Rightarrow> ptr \<Rightarrow> FATBase_FILINFO \<Rightarrow> 'a kfat_scheme \<Rightarrow> (int \<times> 'a kfat_scheme) kres" where
  "ls djp path fi s =
     kbind (fatbase_opendir djp path s) (\<lambda>(res, s1).
       if res = FR_NO_FILE then Ret (FR_OK, s1)
       else if res \<noteq> FR_OK then Ret (res, s1)
       else kwhile (ls_body djp) (fi, s1))"

end
