(* ===== verification/FatInode.thy ===== *)
theory FatInode
  imports FatOps Stdio
begin

text \<open>
  The FAT file system behind the inode interface: \<^verbatim>\<open>kern/fs/fat/fat_fs.c\<close>, \<^verbatim>\<open>kern/fs/fat/fat_lock.c\<close>,
  \<^verbatim>\<open>kern/fs/fat/fat_inode.c\<close> without its tests, \<^verbatim>\<open>fatbase_do_mount\<close>, and the detection of file systems in
  \<^verbatim>\<open>kern/fs/vfs/vfs.c\<close>.  A \<^verbatim>\<open>FatFs_t\<close> is the first member of its \<^verbatim>\<open>FileSystem_t\<close> and a \<^verbatim>\<open>FatINode_t\<close> the first
  member of its \<^verbatim>\<open>INode_t\<close>, so that each pair has one address; the driver's file or directory object is the
  union 20 bytes into the inode.
\<close>

abbreviation (input) INODE_NOT_FILE :: int where "INODE_NOT_FILE \<equiv> 2"
abbreviation (input) INODE_EXIST :: int where "INODE_EXIST \<equiv> 5"
abbreviation (input) INODE_NOT_EXIST :: int where "INODE_NOT_EXIST \<equiv> 6"
abbreviation (input) INODE_TYPE_REGULAR :: u32 where "INODE_TYPE_REGULAR \<equiv> 1"
abbreviation (input) INTERNAL_PATH_LEN :: u32 where "INTERNAL_PATH_LEN \<equiv> 512"
abbreviation (input) sizeof_FileSystem_t :: u32 where "sizeof_FileSystem_t \<equiv> 88"
abbreviation (input) PartitionType_FAT16 :: u8 where "PartitionType_FAT16 \<equiv> 0x06"
abbreviation (input) PartitionType_FAT32 :: u8 where "PartitionType_FAT32 \<equiv> 0x0B"

section \<open>Data\<close>

datatype FATINodeType = FAT_Type_File | FAT_Type_Dir

text \<open>\<^verbatim>\<open>fatbase_part\<close> points to an element of \<^verbatim>\<open>Fat_Drives\<close>: its index.\<close>

record FatFs =
  ff_active :: bool
  ff_devid :: u32
  ff_dev :: ptr
  ff_boot_sector :: u32
  fatbase_sb :: ptr
  fatbase_part :: nat
  fatbase_part_index :: u32
  next_id :: u32

record FatINode =
  fi_fatfs :: ptr
  fi_id :: u32
  internal_path :: ptr
  fi_flag :: u32
  fatinode_type :: FATINodeType

datatype fatinode_node = FatInodeHead ptr | FatInodeN ptr

text \<open>\<open>fatinfo\<close> is the address of a local variable of \<^verbatim>\<open>fat_readdir\<close>, whose name is passed on as a path.\<close>

record kfatfs = kfat +
  FatFss :: "ptr \<Rightarrow> FatFs"
  fatinodes :: "ptr \<Rightarrow> FatINode"
  FatInodeLinks :: "fatinode_node list_heap"
  FatPartitionActiveCount :: u32
  TempMainFS :: ptr
  fatinfo :: ptr

definition upd_ff :: "ptr \<Rightarrow> (FatFs \<Rightarrow> FatFs) \<Rightarrow> 'a kfatfs_scheme \<Rightarrow> 'a kfatfs_scheme" where
  "upd_ff p f s = s\<lparr>FatFss := (FatFss s)(p := f (FatFss s p))\<rparr>"

definition upd_fi :: "ptr \<Rightarrow> (FatINode \<Rightarrow> FatINode) \<Rightarrow> 'a kfatfs_scheme \<Rightarrow> 'a kfatfs_scheme" where
  "upd_fi p f s = s\<lparr>fatinodes := (fatinodes s)(p := f (fatinodes s p))\<rparr>"

definition fatbase_data :: "ptr \<Rightarrow> ptr" where
  "fatbase_data inode = inode + 20"

definition fat_sem :: "ptr \<Rightarrow> ptr" where
  "fat_sem fatfs = fatfs + 32"

definition fatinode_sem :: "ptr \<Rightarrow> ptr" where
  "fatinode_sem inode = inode + 568"

fun lp2fatinode :: "fatinode_node \<Rightarrow> ptr" where
  "lp2fatinode (FatInodeN p) = p"
| "lp2fatinode (FatInodeHead p) = NULL"

section \<open>Locks (fat_lock.c)\<close>

definition lockFatFS :: "ptr \<Rightarrow> 'a kfatfs_scheme \<Rightarrow> 'a kfatfs_scheme kres" where
  "lockFatFS fatfs s = acquireSem (fat_sem fatfs) s"

definition unlockFatFS :: "ptr \<Rightarrow> 'a kfatfs_scheme \<Rightarrow> 'a kfatfs_scheme kres" where
  "unlockFatFS fatfs s = releaseSem (fat_sem fatfs) s"

definition lockFatInode :: "ptr \<Rightarrow> 'a kfatfs_scheme \<Rightarrow> 'a kfatfs_scheme kres" where
  "lockFatInode fatinode s = acquireSem (fatinode_sem fatinode) s"

definition unlockFatInode :: "ptr \<Rightarrow> 'a kfatfs_scheme \<Rightarrow> 'a kfatfs_scheme kres" where
  "unlockFatInode fatinode s = releaseSem (fatinode_sem fatinode) s"

section \<open>Mounting (fat_base.c, fat_fs.c)\<close>

text \<open>The path \<^verbatim>\<open>"0:/"\<close> on the stack, with the index of the volume in its first character.\<close>

definition mount_path :: "u32 \<Rightarrow> memory" where
  "mount_path i = (\<lambda>_. 0)(0 := 0x30 + ucast i, 1 := 0x3A, 2 := 0x2F)"

text \<open>The second result is what is stored through \<^verbatim>\<open>rfs\<close>, if anything.\<close>

definition fatbase_do_mount :: "ptr \<Rightarrow> 'a kfatfs_scheme \<Rightarrow> (int \<times> ptr option \<times> 'a kfatfs_scheme) kres" where
  "fatbase_do_mount fatfs s =
     (let bootsect = (if fatfs \<noteq> NULL then ff_boot_sector (FatFss s fatfs) else 0);
          i = (if fatfs \<noteq> NULL then fatbase_part_index (FatFss s fatfs) else 0)
      in kbind (path_drive (mount_path i) 0) (\<lambda>(part, _).
           kbind (mount_drive part bootsect False s) (\<lambda>(r, fs, s1).
             Ret (r, if DRIVES \<le> part then None else Some fs, s1))))"

text \<open>\<^verbatim>\<open>mount\<close> of a FAT file system; the unused \<^verbatim>\<open>mountFatFs\<close> does not initialise the list of inodes.\<close>

definition do_mount_into :: "ptr \<Rightarrow> 'a kfatfs_scheme \<Rightarrow> (int \<times> 'a kfatfs_scheme) kres" where
  "do_mount_into fatfs s =
     kbind (fatbase_do_mount fatfs s) (\<lambda>(r, sb, s1).
       Ret (r, case sb of None \<Rightarrow> s1 | Some p \<Rightarrow> upd_ff fatfs (\<lambda>f. f\<lparr>fatbase_sb := p\<rparr>) s1))"

definition mountFatFs :: "ptr \<Rightarrow> 'a kfatfs_scheme \<Rightarrow> (int \<times> 'a kfatfs_scheme) kres" where
  "mountFatFs fatfs s = do_mount_into fatfs (initSem (fat_sem fatfs) 1 s)"

definition fatfs_mount :: "ptr \<Rightarrow> 'a kfatfs_scheme \<Rightarrow> (int \<times> 'a kfatfs_scheme) kres" where
  "fatfs_mount fs s =
     (let s1 = initSem (fat_sem fs) 1 s; s2 = s1\<lparr>FatInodeLinks := initList (FatInodeHead fs) (FatInodeLinks s1)\<rparr>
      in do_mount_into fs s2)"

definition setFATBASE_Partition :: "u32 \<Rightarrow> u32 \<Rightarrow> u32 \<Rightarrow> 'a kfatfs_scheme \<Rightarrow> nat \<times> 'a kfatfs_scheme" where
  "setFATBASE_Partition pindex devid partid s =
     (unat pindex, s\<lparr>Fat_Drives := (Fat_Drives s)(unat pindex := \<lparr>part_pd = ucast devid, part_pt = ucast partid\<rparr>)\<rparr>)"

text \<open>An index past the tables is outside the arrays.  The cleared semaphore and list are set up by \<^verbatim>\<open>fatfs_mount\<close>.\<close>

definition setFatFs :: "ptr \<Rightarrow> ptr \<Rightarrow> nat \<Rightarrow> u32 \<Rightarrow> 'a kfatfs_scheme \<Rightarrow> 'a kfatfs_scheme kres" where
  "setFatFs fatfs md partid fid s =
     (if fatfs = NULL then Panic ''fatfs is NULL!''
      else if 8 \<le> fid then Undef
      else let d = MBR_Devices s md
           in kbind (if Fat_SuperBlock s (unat fid) = NULL
                     then kbind (kmalloc sizeof_FATBase_SuperBlock s) (\<lambda>(p, s1). Ret (s1\<lparr>Fat_SuperBlock := (Fat_SuperBlock s1)(unat fid := p)\<rparr>))
                     else Ret s) (\<lambda>s1.
                let (part, s2) = setFATBASE_Partition fid (md_devid d) (of_nat partid) s1
                in Ret (upd_ff fatfs (\<lambda>_. \<lparr>ff_active = False, ff_devid = md_devid d, ff_dev = md_dev d,
                     ff_boot_sector = start_sector (partinfo (mbr_diskinfo d) partid), fatbase_sb = Fat_SuperBlock s2 (unat fid),
                     fatbase_part = part, fatbase_part_index = fid, next_id = 0\<rparr>)
                     (upd_sem (fat_sem fatfs) (\<lambda>x. x\<lparr>sem_value := 0\<rparr>) s2))))"

definition fatfs_sync :: "ptr \<Rightarrow> 'a kfatfs_scheme \<Rightarrow> int \<times> 'a kfatfs_scheme" where
  "fatfs_sync fs s = (0, s)"

definition fat32_count :: "u8 list \<Rightarrow> nat" where
  "fat32_count mbr = length (filter (\<lambda>i. partition_type (partinfo mbr i) = PartitionType_FAT32) [0..<4])"

definition getFatCount_body :: "ptr \<times> 'a kfatfs_scheme \<Rightarrow> (ptr \<times> 'a kfatfs_scheme + 'a kfatfs_scheme) kres" where
  "getFatCount_body = (\<lambda>(listi, s).
     if listi = MBR_DeviceList s then Ret (Inr s)
     else Ret (Inl (listGetNext (MBRLinks s) listi,
       s\<lparr>FatPartitionActiveCount := FatPartitionActiveCount s + of_nat (fat32_count (mbr_diskinfo (MBR_Devices s listi)))\<rparr>)))"

definition getFatCount :: "'a kfatfs_scheme \<Rightarrow> 'a kfatfs_scheme kres" where
  "getFatCount s = kwhile getFatCount_body (listGetNext (MBRLinks s) (MBR_DeviceList s), s)"

section \<open>Detection of file systems (vfs.c)\<close>

definition fs_alloc :: "'a kfatfs_scheme \<Rightarrow> (ptr \<times> 'a kfatfs_scheme) kres" where
  "fs_alloc s = kmalloc sizeof_FileSystem_t s"

definition detect_part :: "ptr \<Rightarrow> nat \<Rightarrow> u32 \<Rightarrow> 'a kfatfs_scheme \<Rightarrow> (u32 \<times> 'a kfatfs_scheme) kres" where
  "detect_part md i fid s =
     (let type = partition_type (partinfo (mbr_diskinfo (MBR_Devices s md)) i)
      in if type \<noteq> PartitionType_FAT16 \<and> type \<noteq> PartitionType_FAT32 then Ret (fid, s)
         else kbind (fs_alloc s) (\<lambda>(fs, s1).
           if fs = NULL then Undef
           else kbind (setFatFs fs md i fid (fs_add_list fs s1)) (\<lambda>s2.
             Ret (fid + 1, s2\<lparr>fs_has_root := (fs_has_root s2)(fs := True)\<rparr>))))"

fun detect_parts :: "ptr \<Rightarrow> nat list \<Rightarrow> u32 \<Rightarrow> 'a kfatfs_scheme \<Rightarrow> (u32 \<times> 'a kfatfs_scheme) kres" where
  "detect_parts md [] fid s = Ret (fid, s)"
| "detect_parts md (i # is) fid s = kbind (detect_part md i fid s) (\<lambda>(fid', s'). detect_parts md is fid' s')"

definition detectFS_body :: "ptr \<times> u32 \<times> 'a kfatfs_scheme \<Rightarrow> (ptr \<times> u32 \<times> 'a kfatfs_scheme + 'a kfatfs_scheme) kres" where
  "detectFS_body = (\<lambda>(listi, fid, s).
     if listi = MBR_DeviceList s then Ret (Inr s)
     else kbind (detect_parts listi [0..<4] fid s) (\<lambda>(fid', s1). Ret (Inl (listGetNext (MBRLinks s1) listi, fid', s1))))"

definition detectFS :: "'a kfatfs_scheme \<Rightarrow> 'a kfatfs_scheme kres" where
  "detectFS s = kwhile detectFS_body (listGetNext (MBRLinks s) (MBR_DeviceList s), 0, s)"

definition initFS_body :: "fs_node \<times> 'a kfatfs_scheme \<Rightarrow> (fs_node \<times> 'a kfatfs_scheme + 'a kfatfs_scheme) kres" where
  "initFS_body = (\<lambda>(listi, s).
     if listi = FsHead then Ret (Inr s)
     else let fs = lp2fs listi
          in kbind (fatfs_mount fs (s\<lparr>TempMainFS := fs\<rparr>)) (\<lambda>(_, s1). Ret (Inl (listGetNext (FsLinks s1) listi, s1))))"

definition initFS :: "'a kfatfs_scheme \<Rightarrow> 'a kfatfs_scheme kres" where
  "initFS s =
     kbind (detectFS (s\<lparr>FsLinks := initList FsHead (FsLinks s)\<rparr>)) (\<lambda>s1.
       kwhile initFS_body (listGetNext (FsLinks s1) FsHead, s1))"

section \<open>Inodes in memory (fat_inode.c)\<close>

definition fat_add_inode_list :: "ptr \<Rightarrow> ptr \<Rightarrow> 'a kfatfs_scheme \<Rightarrow> 'a kfatfs_scheme" where
  "fat_add_inode_list fatfs i s = s\<lparr>FatInodeLinks := listAdd (FatInodeHead fatfs) (FatInodeN i) (FatInodeLinks s)\<rparr>"

definition fat_del_inode_list :: "ptr \<Rightarrow> ptr \<Rightarrow> 'a kfatfs_scheme \<Rightarrow> 'a kfatfs_scheme" where
  "fat_del_inode_list fatfs i s = s\<lparr>FatInodeLinks := listDel (FatInodeN i) (FatInodeLinks s)\<rparr>"

definition free_fat_inode :: "ptr \<Rightarrow> 'a kfatfs_scheme \<Rightarrow> (int \<times> 'a kfatfs_scheme) kres" where
  "free_fat_inode inode s =
     (if inode \<noteq> NULL then kbind (kfree (internal_path (fatinodes s inode)) INTERNAL_PATH_LEN s) (\<lambda>s1. Ret (0, s1)) else Ret (1, s))"

definition check_prefix :: "memory \<Rightarrow> ptr \<Rightarrow> bool" where
  "check_prefix m str \<longleftrightarrow> str \<noteq> NULL \<and> 0x30 \<le> m str \<and> m str \<le> 0x39 \<and> m (str + 1) = 0x3A"

text \<open>\<^verbatim>\<open>strcat\<close> of a string that is a local array: its characters up to the first 0.\<close>

definition strcat_chars :: "ptr \<Rightarrow> u8 list \<Rightarrow> memory \<Rightarrow> memory kres" where
  "strcat_chars dest cs m =
     kbind (kloop (strlen m dest)) (\<lambda>n. Ret (wrbytes (dest + of_int n) (takeWhile (\<lambda>c. c \<noteq> 0) cs @ [0]) m))"

definition bulid_internal_path :: "ptr \<Rightarrow> ptr \<Rightarrow> ptr \<Rightarrow> 'a kfatfs_scheme \<Rightarrow> (ptr \<times> 'a kfatfs_scheme) kres" where
  "bulid_internal_path fatfs dest path s =
     (if fatfs = NULL \<or> dest = NULL \<or> path = NULL then Ret (NULL, s)
      else kbind (strcat_chars dest [ucast (fatbase_part_index (FatFss s fatfs)) + 0x30, 0x3A] (mem s)) (\<lambda>m1.
           kbind (if m1 path \<noteq> 0x2F then strcat dest (rodata s ''/'') m1 else Ret (dest, m1)) (\<lambda>(_, m2).
           kbind (strcat dest path m2) (\<lambda>(_, m3). Ret (dest, s\<lparr>mem := m3\<rparr>)))))"

definition fat_file_rw_nolock :: "ptr \<Rightarrow> ptr \<Rightarrow> u32 \<Rightarrow> bool \<Rightarrow> 'a kfatfs_scheme \<Rightarrow> (int \<times> u32 \<times> 'a kfatfs_scheme) kres" where
  "fat_file_rw_nolock inode buf len write s =
     (if \<not> write then fatbase_read (fatbase_data inode) buf len s else fatbase_write (fatbase_data inode) buf len s)"

definition fat_file_rw :: "bool \<Rightarrow> ptr \<Rightarrow> ptr \<Rightarrow> u32 \<Rightarrow> u32 \<Rightarrow> 'a kfatfs_scheme \<Rightarrow> (int \<times> u32 \<times> 'a kfatfs_scheme) kres" where
  "fat_file_rw write inode buf len copied s =
     (if inode = NULL \<or> buf = NULL then Ret (- INODE_PNULL, copied, s)
      else if fatinode_type (fatinodes s inode) \<noteq> FAT_Type_File then Ret (- INODE_NOT_FILE, copied, s)
      else kbind (lockFatInode inode s) (\<lambda>s1.
           kbind (fat_file_rw_nolock inode buf len write s1) (\<lambda>(ret, n, s2).
           kbind (unlockFatInode inode s2) (\<lambda>s3. Ret (ret, n, s3)))))"

definition getNewFatInodeId :: "ptr \<Rightarrow> 'a kfatfs_scheme \<Rightarrow> u32 \<times> 'a kfatfs_scheme" where
  "getNewFatInodeId fatfs s = (next_id (FatFss s fatfs), upd_ff fatfs (\<lambda>f. f\<lparr>next_id := next_id f + 1\<rparr>) s)"

definition find_list_fat_inode_withID_nolock :: "ptr \<Rightarrow> u32 \<Rightarrow> 'a kfatfs_scheme \<Rightarrow> ptr kres" where
  "find_list_fat_inode_withID_nolock fatfs i s =
     kbind (kloop (listFind (FatInodeLinks s) (FatInodeHead fatfs) (\<lambda>n. lp2fatinode n \<noteq> NULL \<and> fi_id (fatinodes s (lp2fatinode n)) = i))) (\<lambda>r.
       Ret (case r of Some n \<Rightarrow> lp2fatinode n | None \<Rightarrow> NULL))"

definition find_path_body :: "'a kfatfs_scheme \<Rightarrow> ptr \<Rightarrow> ptr \<Rightarrow> fatinode_node \<Rightarrow> (fatinode_node + ptr) kres" where
  "find_path_body s fatfs inpath = (\<lambda>i.
     if i = FatInodeHead fatfs then Ret (Inr NULL)
     else kbind (strcmp (mem s) (internal_path (fatinodes s (lp2fatinode i))) inpath) (\<lambda>c.
       Ret (if c = 0 then Inr (lp2fatinode i) else Inl (listGetNext (FatInodeLinks s) i))))"

definition find_list_fatinode_with_internal_path_nolock :: "ptr \<Rightarrow> ptr \<Rightarrow> 'a kfatfs_scheme \<Rightarrow> ptr kres" where
  "find_list_fatinode_with_internal_path_nolock fatfs inpath s =
     (if fatfs = NULL \<or> inpath = NULL then Ret NULL
      else kwhile (find_path_body s fatfs inpath) (listGetNext (FatInodeLinks s) (FatInodeHead fatfs)))"

definition construct_fatinode_info :: "ptr \<Rightarrow> ptr \<Rightarrow> FATINodeType \<Rightarrow> u32 \<Rightarrow> ptr \<Rightarrow> 'a kfatfs_scheme \<Rightarrow> ptr \<times> 'a kfatfs_scheme" where
  "construct_fatinode_info inode fatfs type flag inpath s =
     (if inode = NULL then (NULL, s)
      else let (i, s1) = getNewFatInodeId fatfs s
           in (inode, initSem (fatinode_sem inode) 1
                (upd_fi inode (\<lambda>_. \<lparr>fi_fatfs = fatfs, fi_id = i, internal_path = inpath, fi_flag = flag, fatinode_type = type\<rparr>) s1)))"

definition get_fat_inode_ops :: "FATINodeType \<Rightarrow> ops_id" where
  "get_fat_inode_ops type = (case type of FAT_Type_File \<Rightarrow> FatFileOps | FAT_Type_Dir \<Rightarrow> FatDirOps)"

text \<open>Opening a path as a file or as a directory: the type, or \<open>None\<close> when it is neither.\<close>

definition fat_open_either :: "ptr \<Rightarrow> ptr \<Rightarrow> 'a kfatfs_scheme \<Rightarrow> (FATINodeType option \<times> 'a kfatfs_scheme) kres" where
  "fat_open_either inode inpath s =
     kbind (fatbase_open (fatbase_data inode) inpath (FA_READ OR FA_WRITE) s) (\<lambda>(r, s1).
       if r = FR_OK then Ret (Some FAT_Type_File, s1)
       else kbind (fatbase_opendir (fatbase_data inode) inpath s1) (\<lambda>(r, s2).
         if r = FR_OK then Ret (Some FAT_Type_Dir, s2) else Ret (None, s2)))"

text \<open>
  The new inode's table of operations is NULL until its type is known; \<open>FatFileOps\<close> stands for it, as nothing
  reads it before.
\<close>

definition fat_load :: "ptr \<Rightarrow> ptr \<Rightarrow> 'a kfatfs_scheme \<Rightarrow> (ptr \<times> 'a kfatfs_scheme) kres" where
  "fat_load fatfs inpath s =
     kbind (inode_alloc FAT_Type s) (\<lambda>(inode, s1).
       let failed = (\<lambda>t. kbind (kfree inpath INTERNAL_PATH_LEN t) (\<lambda>t1. kbind (unlockFatFS fatfs t1) (\<lambda>t2. Ret (NULL, t2))))
       in if inode = NULL then failed s1
          else kbind (fat_open_either inode inpath (inode_init inode FatFileOps fatfs s1)) (\<lambda>(type, s2).
            case type of
              None \<Rightarrow> kbind (inode_free inode s2) failed
            | Some ty \<Rightarrow>
                let s3 = upd_inode inode (\<lambda>n. n\<lparr>i_ops := get_fat_inode_ops ty\<rparr>) s2;
                    (_, s4) = construct_fatinode_info inode fatfs ty 0 inpath s3
                in kbind (unlockFatFS fatfs (fat_add_inode_list fatfs inode s4)) (\<lambda>s5. Ret (inode, s5))))"

definition fat_find_inode :: "ptr \<Rightarrow> ptr \<Rightarrow> 'a kfatfs_scheme \<Rightarrow> (ptr \<times> 'a kfatfs_scheme) kres" where
  "fat_find_inode fatfs path s =
     kbind (lockFatFS fatfs s) (\<lambda>s1.
       let failed = (\<lambda>t. kbind (unlockFatFS fatfs t) (\<lambda>t1. Ret (NULL, t1)))
       in if fatfs = NULL \<or> path = NULL then failed s1
          else kbind (kmalloc INTERNAL_PATH_LEN s1) (\<lambda>(inpath, s2).
            if inpath = NULL then failed s2
            else kbind (bulid_internal_path fatfs inpath path (s2\<lparr>mem := snd (memset inpath 0 INTERNAL_PATH_LEN (mem s2))\<rparr>)) (\<lambda>(_, s3).
                 kbind (find_list_fatinode_with_internal_path_nolock fatfs inpath s3) (\<lambda>inode.
                   if inode \<noteq> NULL
                   then kbind (unlockFatFS fatfs s3) (\<lambda>s4. kbind (kfree inpath INTERNAL_PATH_LEN s4) (\<lambda>s5. Ret (inode, s5)))
                   else fat_load fatfs inpath s3))))"

definition get_fatfs_root_inode :: "ptr \<Rightarrow> 'a kfatfs_scheme \<Rightarrow> (ptr \<times> 'a kfatfs_scheme) kres" where
  "get_fatfs_root_inode fs s = fat_find_inode fs (rodata s ''/'') s"

definition fat_get_fsize :: "ptr \<Rightarrow> 'a kfatfs_scheme \<Rightarrow> int" where
  "fat_get_fsize inode s =
     (if inode = NULL then - 1
      else if fatinode_type (fatinodes s inode) \<noteq> FAT_Type_File then - 2
      else sint (fsize (FatFiles s (fatbase_data inode))))"

section \<open>The operations of FAT inodes (fat_inode.c)\<close>

text \<open>
  A path below a directory: the directory's path, a slash where needed, and the name, in the zeroed memory at
  \<open>dest\<close>.  An empty path is never stored in an inode; the character before it would be read.
\<close>

definition join_path :: "ptr \<Rightarrow> ptr \<Rightarrow> ptr \<Rightarrow> 'a kfatfs_scheme \<Rightarrow> 'a kfatfs_scheme kres" where
  "join_path dest dir name s =
     kbind (strcpy dest dir (snd (memset dest 0 INTERNAL_PATH_LEN (mem s)))) (\<lambda>(_, m1).
     kbind (kloop (strlen m1 dest)) (\<lambda>n.
     kbind (if m1 (dest + of_int n - 1) \<noteq> 0x2F \<and> m1 name \<noteq> 0x2F then strcat dest (rodata s ''/'') m1 else Ret (dest, m1)) (\<lambda>(_, m2).
     kbind (strcat dest name m2) (\<lambda>(_, m3). Ret (s\<lparr>mem := m3\<rparr>)))))"

definition fat_lookup :: "ptr \<Rightarrow> ptr \<Rightarrow> ptr \<Rightarrow> 'a kfatfs_scheme \<Rightarrow> (int \<times> ptr \<times> 'a kfatfs_scheme) kres" where
  "fat_lookup inode relative_path inode_out s =
     (if inode = NULL \<or> relative_path = NULL then Ret (- INODE_PNULL, inode_out, s)
      else if fatinode_type (fatinodes s inode) \<noteq> FAT_Type_Dir then Ret (- INDOE_NOT_DIR, inode_out, s)
      else kbind (kmalloc INTERNAL_PATH_LEN s) (\<lambda>(new_path, s1).
        if new_path = NULL then Ret (- INODE_INTERNAL_ERR, inode_out, s1)
        else kbind (join_path new_path (internal_path (fatinodes s1 inode) + 2) relative_path s1) (\<lambda>s2.
             kbind (fat_find_inode (i_fs (inodes s2 inode)) new_path s2) (\<lambda>(out, s3).
             kbind (kfree new_path INTERNAL_PATH_LEN s3) (\<lambda>s4.
               if out = NULL then Ret (- INODE_NOT_EXIST, inode_out, s4) else Ret (0, out, s4))))))"

definition fat_openfile :: "ptr \<Rightarrow> u32 \<Rightarrow> 'a kfatfs_scheme \<Rightarrow> (int \<times> 'a kfatfs_scheme) kres" where
  "fat_openfile inode flag s = Ret (0, s)"

definition fat_write :: "ptr \<Rightarrow> ptr \<Rightarrow> u32 \<Rightarrow> u32 \<Rightarrow> 'a kfatfs_scheme \<Rightarrow> (int \<times> u32 \<times> 'a kfatfs_scheme) kres" where
  "fat_write inode buf len copied s = fat_file_rw True inode buf len copied s"

definition fat_read :: "ptr \<Rightarrow> ptr \<Rightarrow> u32 \<Rightarrow> u32 \<Rightarrow> 'a kfatfs_scheme \<Rightarrow> (int \<times> u32 \<times> 'a kfatfs_scheme) kres" where
  "fat_read inode buf len copied s = fat_file_rw False inode buf len copied s"

definition fat_lseek :: "ptr \<Rightarrow> int \<Rightarrow> 'a kfatfs_scheme \<Rightarrow> (int \<times> 'a kfatfs_scheme) kres" where
  "fat_lseek inode off s =
     (if inode = NULL then Ret (- INODE_PNULL, s)
      else if fatinode_type (fatinodes s inode) \<noteq> FAT_Type_File then Ret (- INODE_NOT_FILE, s)
      else kbind (lockFatInode inode s) (\<lambda>s1.
           kbind (fatbase_lseek (fatbase_data inode) (of_int off) s1) (\<lambda>(ret, s2).
           kbind (unlockFatInode inode s2) (\<lambda>s3. Ret (ret, s3)))))"

text \<open>The results of the calls are dropped.\<close>

definition fat_truncate_nolock :: "ptr \<Rightarrow> u32 \<Rightarrow> 'a kfatfs_scheme \<Rightarrow> 'a kfatfs_scheme kres" where
  "fat_truncate_nolock fp len s =
     (let size = fsize (FatFiles s fp); save_fptr = snd (fatbase_tell fp s)
      in kbind (if size < len then kbind (fatbase_lseek fp len s) (\<lambda>(_, s1). Ret s1)
                else kbind (fatbase_lseek fp len s) (\<lambda>(_, s1). kbind (fatbase_truncate fp s1) (\<lambda>(_, s2). Ret s2))) (\<lambda>s3.
           kbind (fatbase_lseek fp save_fptr s3) (\<lambda>(_, s4). Ret s4)))"

definition fat_truncate :: "ptr \<Rightarrow> u32 \<Rightarrow> 'a kfatfs_scheme \<Rightarrow> (int \<times> 'a kfatfs_scheme) kres" where
  "fat_truncate inode len s =
     (if inode = NULL then Ret (- INODE_PNULL, s)
      else if fatinode_type (fatinodes s inode) \<noteq> FAT_Type_File then Ret (- INODE_NOT_FILE, s)
      else kbind (lockFatInode inode s) (\<lambda>s1.
           kbind (fat_truncate_nolock (fatbase_data inode) len s1) (\<lambda>s2.
           kbind (unlockFatInode inode s2) (\<lambda>s3. Ret (0, s3)))))"

text \<open>The result of \<^verbatim>\<open>fat_create\<close>, as the code computes it, and whether the file is closed.\<close>

definition fat_create_file :: "bool \<Rightarrow> ptr \<Rightarrow> ptr \<Rightarrow> 'a kfatfs_scheme \<Rightarrow> (int \<times> 'a kfatfs_scheme) kres" where
  "fat_create_file is_exist new_file new_path s =
     kbind (fatbase_open new_file new_path (if is_exist then FA_CREATE_ALWAYS else FA_CREATE_NEW) s) (\<lambda>(r, s1).
       if r = FR_OK then kbind (fatbase_close new_file s1) (\<lambda>(_, s2). Ret (INODE_OK, s2))
       else Ret (if is_exist then INODE_OK else if r = FR_EXIST then - INODE_EXIST else r, s1))"

definition fat_create :: "ptr \<Rightarrow> ptr \<Rightarrow> u32 \<Rightarrow> 'a kfatfs_scheme \<Rightarrow> (int \<times> 'a kfatfs_scheme) kres" where
  "fat_create inode name mode s =
     (if inode = NULL \<or> name = NULL then Ret (- INODE_PNULL, s)
      else if fatinode_type (fatinodes s inode) \<noteq> FAT_Type_Dir then Ret (- INDOE_NOT_DIR, s)
      else kbind (kmalloc INTERNAL_PATH_LEN s) (\<lambda>(new_path, s1).
        if new_path = NULL then Ret (- INODE_INTERNAL_ERR, s1)
        else kbind (kmalloc sizeof_FATBase_FILE s1) (\<lambda>(new_file, s2).
          if new_file = NULL then kbind (kfree new_path INTERNAL_PATH_LEN s2) (\<lambda>s3. Ret (- INODE_INTERNAL_ERR, s3))
          else kbind (join_path new_path (internal_path (fatinodes s2 inode)) name s2) (\<lambda>s3.
               kbind (fat_create_file (mode AND 0xFF = 1) new_file new_path s3) (\<lambda>(ret, s4).
               kbind (kfree new_file sizeof_FATBase_FILE s4) (\<lambda>s5.
               kbind (kfree new_path INTERNAL_PATH_LEN s5) (\<lambda>s6. Ret (ret, s6))))))))"

definition fat_opendir :: "ptr \<Rightarrow> u32 \<Rightarrow> 'a kfatfs_scheme \<Rightarrow> (int \<times> 'a kfatfs_scheme) kres" where
  "fat_opendir inode flag s = Ret (0, s)"

text \<open>The result of a failed lookup is 1: the comparison is assigned, not the error.\<close>

definition fat_readdir :: "ptr \<Rightarrow> ptr option \<Rightarrow> 'a kfatfs_scheme \<Rightarrow> (int \<times> ptr option \<times> 'a kfatfs_scheme) kres" where
  "fat_readdir inode inode_out s =
     (if inode = NULL then Ret (- INODE_PNULL, inode_out, s)
      else if fatinode_type (fatinodes s inode) \<noteq> FAT_Type_Dir then Ret (- INDOE_NOT_DIR, inode_out, s)
      else case inode_out of
        None \<Rightarrow> kbind (fatbase_opendir (fatbase_data inode) (internal_path (fatinodes s inode)) s) (\<lambda>(r, s1).
          Ret (if r \<noteq> FR_OK then - INODE_INTERNAL_ERR else r, None, s1))
      | Some out \<Rightarrow>
          kbind (fatbase_readdir (fatbase_data inode) \<lparr>fi_fsize = 0, fi_fdate = 0, fi_ftime = 0, fattrib = 0, fname = []\<rparr> s) (\<lambda>(r, fi, s1).
            if r \<noteq> FR_OK then Ret (- INODE_INTERNAL_ERR, Some out, s1)
            else if hd (fname fi) = 0 then Ret (INODE_OK, Some NULL, s1)
            else kbind (fat_lookup inode (fatinfo s1) out (upd_mem (wrbytes (fatinfo s1) (fname fi)) s1)) (\<lambda>(r, out', s2).
              Ret (if r \<noteq> INODE_OK then 1 else 0, Some out', s2))))"

definition fat_mkdir :: "ptr \<Rightarrow> ptr \<Rightarrow> 'a kfatfs_scheme \<Rightarrow> (int \<times> 'a kfatfs_scheme) kres" where
  "fat_mkdir inode dir_name s =
     (if inode = NULL \<or> dir_name = NULL then Ret (- INODE_PNULL, s)
      else if fatinode_type (fatinodes s inode) \<noteq> FAT_Type_Dir then Ret (- INDOE_NOT_DIR, s)
      else kbind (kmalloc INTERNAL_PATH_LEN s) (\<lambda>(new_path, s1).
        if new_path = NULL then Ret (- INODE_INTERNAL_ERR, s1)
        else kbind (join_path new_path (internal_path (fatinodes s1 inode)) dir_name s1) (\<lambda>s2.
             kbind (fatbase_mkdir new_path s2) (\<lambda>(r, s3).
             kbind (kfree new_path INTERNAL_PATH_LEN s3) (\<lambda>s4.
               Ret (if r = FR_OK then INODE_OK else if r = FR_EXIST then - INODE_EXIST else - INODE_INTERNAL_ERR, s4))))))"

definition fat_release :: "ptr \<Rightarrow> 'a kfatfs_scheme \<Rightarrow> (int \<times> 'a kfatfs_scheme) kres" where
  "fat_release inode s =
     (if inode = NULL then Ret (- INODE_PNULL, s)
      else let i = fatinodes s inode
           in kbind (case fatinode_type i of
                       FAT_Type_File \<Rightarrow> kbind (fatbase_close (fatbase_data inode) s) (\<lambda>(_, s1). Ret s1)
                     | FAT_Type_Dir \<Rightarrow> Ret s) (\<lambda>s1.
              kbind (kfree (internal_path (fatinodes s1 inode)) INTERNAL_PATH_LEN s1) (\<lambda>s2.
              kbind (inode_free inode (fat_del_inode_list (fi_fatfs i) inode s2)) (\<lambda>s3. Ret (INODE_OK, s3)))))"

definition fat_delete :: "ptr \<Rightarrow> ptr \<Rightarrow> 'a kfatfs_scheme \<Rightarrow> (int \<times> 'a kfatfs_scheme) kres" where
  "fat_delete inode name s = Ret (0, s)"

definition fat_rename :: "ptr \<Rightarrow> ptr \<Rightarrow> 'a kfatfs_scheme \<Rightarrow> (int \<times> 'a kfatfs_scheme) kres" where
  "fat_rename inode new s = Ret (0, s)"

text \<open>The pointer to the \<^verbatim>\<open>Stat_t\<close> is that of the caller's structure, never NULL.\<close>

definition fat_stat :: "ptr \<Rightarrow> Stat \<Rightarrow> 'a kfatfs_scheme \<Rightarrow> (int \<times> Stat \<times> 'a kfatfs_scheme) kres" where
  "fat_stat inode stat s =
     (if inode = NULL then Ret (- INODE_PNULL, stat, s)
      else kbind (fatbase_stat (internal_path (fatinodes s inode))
                    \<lparr>fi_fsize = 0, fi_fdate = 0, fi_ftime = 0, fattrib = 0, fname = []\<rparr> s) (\<lambda>(r, fi, s1).
        if r \<noteq> FR_OK then Ret (- INODE_INTERNAL_ERR, stat, s1)
        else Ret (INODE_OK, stat\<lparr>st_size := fi_fsize fi,
          st_attr := st_attr stat OR (if fattrib fi AND 0xFF = AM_DIR then INODE_TYPE_DIR else INODE_TYPE_REGULAR)\<rparr>, s1)))"

definition fat_sync :: "ptr \<Rightarrow> 'a kfatfs_scheme \<Rightarrow> (int \<times> 'a kfatfs_scheme) kres" where
  "fat_sync inode s =
     (if inode = NULL then Ret (- INODE_PNULL, s)
      else if fatinode_type (fatinodes s inode) \<noteq> FAT_Type_File then Ret (- INODE_NOT_FILE, s)
      else kbind (lockFatInode inode s) (\<lambda>s1.
           kbind (fatbase_sync (fatbase_data inode) s1) (\<lambda>(ret, s2).
           kbind (sync_all_bcache s2) (\<lambda>(_, s3).
           kbind (unlockFatInode inode s3) (\<lambda>s4. Ret (ret, s4))))))"

definition fat_get_type :: "ptr \<Rightarrow> 'a kfatfs_scheme \<Rightarrow> (int \<times> u32 \<times> 'a kfatfs_scheme) kres" where
  "fat_get_type inode s =
     (if inode = NULL then Ret (- INODE_PNULL, 0, s)
      else Ret (INODE_OK, case fatinode_type (fatinodes s inode) of FAT_Type_File \<Rightarrow> INODE_TYPE_REGULAR | FAT_Type_Dir \<Rightarrow> INODE_TYPE_DIR, s))"

section \<open>Tables of operations\<close>

definition fat_file_op :: "('a kfatfs_scheme) INodeOps" where
  "fat_file_op = no_ops\<lparr>iop_lookup := Some fat_lookup, iop_open := Some fat_openfile, iop_read := Some fat_read, iop_write := Some fat_write,
     iop_lseek := Some fat_lseek, iop_truncate := Some fat_truncate, iop_release := Some fat_release, iop_delete := Some fat_delete,
     iop_rename := Some fat_rename, iop_stat := Some fat_stat, iop_sync := Some fat_sync, iop_get_type := Some fat_get_type\<rparr>"

definition fat_dir_op :: "('a kfatfs_scheme) INodeOps" where
  "fat_dir_op = no_ops\<lparr>iop_lookup := Some fat_lookup, iop_open := Some fat_opendir, iop_create := Some fat_create,
     iop_readdir := Some fat_readdir, iop_mkdir := Some fat_mkdir, iop_release := Some fat_release, iop_delete := Some fat_delete,
     iop_rename := Some fat_rename, iop_stat := Some fat_stat, iop_get_type := Some fat_get_type\<rparr>"

text \<open>All tables of operations of the kernel.\<close>

definition freak_ops :: "('a kfatfs_scheme) kops" where
  "freak_ops = kernel_ops fat_file_op fat_dir_op get_fatfs_root_inode"

end
