(* ===== verification/Fork.thy ===== *)
theory Fork
  imports File_Correct Sysfile FatInode
begin

text \<open>
  Creation of tasks and waiting for them: the part of \<^verbatim>\<open>kern/krnl/task/task.c\<close> that duplicates a task's files and
  address space, sets up its kernel stack, starts kernel threads, creates the first two tasks and
  collects the ended children of a task.  Messages are left out.
\<close>

abbreviation (input) MAX_TASKS :: u32 where "MAX_TASKS \<equiv> 4096"
abbreviation (input) CLONE_VM :: u32 where "CLONE_VM \<equiv> 0x100"
abbreviation (input) CLONE_FILES :: u32 where "CLONE_FILES \<equiv> 0x800"
abbreviation (input) KERNEL_CS :: u32 where "KERNEL_CS \<equiv> 8"
abbreviation (input) KERNEL_DS :: u32 where "KERNEL_DS \<equiv> 16"
abbreviation (input) sizeof_InterruptFrame_t :: u32 where "sizeof_InterruptFrame_t \<equiv> 76"

text \<open>The address of \<^verbatim>\<open>KernelStack\<close>, and of the functions that are used as values.\<close>

record kproc = kfatfs +
  KernelStack :: ptr
  code_of :: "string \<Rightarrow> u32"

definition zero_frame :: iframe where
  "zero_frame = \<lparr>if_gs = 0, if_fs = 0, if_es = 0, if_ds = 0, if_edi = 0, if_esi = 0, if_ebp = 0, if_esp = 0, if_ebx = 0, if_edx = 0,
     if_ecx = 0, if_eax = 0, int_no = 0, err_code = 0, if_eip = 0, if_cs = 0, if_eflags = 0, user_esp = 0, if_ss = 0\<rparr>"

section \<open>What a child inherits\<close>

definition copy_mm :: "u32 \<Rightarrow> ptr \<Rightarrow> 'a kproc_scheme \<Rightarrow> (int \<times> 'a kproc_scheme) kres" where
  "copy_mm clone_flags task s =
     (let old_mm = tmm (tasks s (CurrentTask s));
          out = (\<lambda>mm s.
            let s1 = upd_task task (\<lambda>t. t\<lparr>tmm := mm\<rparr>) (snd (mm_ref_inc mm s))
            in kbind (kva2pa (pgdir (mms s1 mm))) (\<lambda>pa. Ret (0, upd_task task (\<lambda>t. t\<lparr>tcr3 := pa\<rparr>) s1)))
      in if old_mm = NULL then Ret (0, s)
         else if clone_flags AND CLONE_VM \<noteq> 0 then out old_mm s
         else kbind (mm_create s) (\<lambda>(mm, s1).
           if mm = NULL then Ret (- E_NOMEM, s1)
           else kbind (setup_pgdir mm s1) (\<lambda>(r, s2).
             if r \<noteq> 0 then kbind (mm_destroy mm s2) (\<lambda>s3. Ret (- E_NOMEM, s3))
             else kbind (lock_mm old_mm s2) (\<lambda>s3.
                  kbind (dup_mm mm old_mm s3) (\<lambda>(ret, s4).
                  kbind (unlock_mm old_mm s4) (\<lambda>s5.
                    if ret \<noteq> 0
                    then kbind (exit_mmap mm s5) (\<lambda>s6. kbind (put_pgdir mm s6) (\<lambda>s7. kbind (mm_destroy mm s7) (\<lambda>s8. Ret (ret, s8))))
                    else out mm s5))))))"

text \<open>\<^verbatim>\<open>files_destroy\<close> is a stub.\<close>

definition files_destroy :: "ptr \<Rightarrow> 'a kfs_scheme \<Rightarrow> 'a kfs_scheme" where
  "files_destroy fs s = s"

definition copy_files :: "u32 \<Rightarrow> ptr \<Rightarrow> 'a kproc_scheme \<Rightarrow> (int \<times> 'a kproc_scheme) kres" where
  "copy_files clone_flags task s =
     (let old_files = tfiles (tasks s (CurrentTask s));
          ok = (\<lambda>fs s. Ret (0, upd_task task (\<lambda>t. t\<lparr>tfiles := fs\<rparr>) (snd (files_ref_inc fs s))))
      in if old_files = NULL then Ret (0, s)
         else if clone_flags AND CLONE_FILES \<noteq> 0 then ok old_files s
         else kbind (files_create s) (\<lambda>(fs, s1).
           if fs = NULL then Ret (-1, s1)
           else kbind (files_dup fs old_files s1) (\<lambda>(ret, s2).
             if ret \<noteq> 0 then Ret (ret, files_destroy fs s2) else ok fs s2)))"

definition put_files :: "ptr \<Rightarrow> 'a kproc_scheme \<Rightarrow> 'a kproc_scheme" where
  "put_files task s =
     (let fs = tfiles (tasks s task)
      in if fs \<noteq> NULL
         then let (r, s1) = files_ref_dec fs s in if r \<le> 0 then files_destroy fs s1 else s1
         else s)"

text \<open>
  \<^verbatim>\<open>kstack\<close> points to 32-bit words, so that \<^verbatim>\<open>kstack + KSTACKSIZE\<close> is \<open>4 * KSTACKSIZE\<close> bytes above the base of
  the stack.
\<close>

definition copy_task :: "ptr \<Rightarrow> u32 \<Rightarrow> iframe \<Rightarrow> 'a kproc_scheme \<Rightarrow> 'a kproc_scheme" where
  "copy_task task user_sp fr s =
     (let p = kstack (tasks s task) + 4 * KSTACKSIZE - sizeof_InterruptFrame_t;
          s1 = upd_task task (\<lambda>t. t\<lparr>tif := p\<rparr>) s;
          s2 = s1\<lparr>iframes := (iframes s1)(p := fr\<lparr>if_eax := 0, user_esp := user_sp, if_eflags := SetBit (if_eflags fr) 9\<rparr>)\<rparr>
      in upd_task task (\<lambda>t. t\<lparr>tcontext := (tcontext t)\<lparr>eip := code_of s2 ''forkret'', esp := p\<rparr>\<rparr>) s2)"

section \<open>Fork\<close>

definition do_fork :: "u32 \<Rightarrow> u32 \<Rightarrow> iframe \<Rightarrow> 'a kproc_scheme \<Rightarrow> (int \<times> 'a kproc_scheme) kres" where
  "do_fork clone_flags stack fr s =
     (if MAX_TASKS \<le> TaskCount s then Ret (- E_NO_FREE_TASK, s)
      else kbind (allocTask s) (\<lambda>(task, s1).
        if task = NULL then Ret (- E_NOMEM, s1)
        else
          let clean_task = (\<lambda>s. kbind (kfree task sizeof_Task_t s) (\<lambda>s'. Ret (- E_NOMEM, s')));
              clean_kstack = (\<lambda>s. kbind (kfree (kstack (tasks s task)) KSTACKSIZE s) clean_task);
              s2 = upd_task task (\<lambda>t. t\<lparr>parent := CurrentTask s1\<rparr>) s1
          in kbind (setupNewKstack task s2) (\<lambda>(r, s3).
               if r \<noteq> 0 then clean_task s3
               else kbind (copy_files clone_flags task s3) (\<lambda>(r, s4).
                 if r \<noteq> 0 then clean_kstack s4
                 else kbind (copy_mm clone_flags task s4) (\<lambda>(r, s5).
                   if r \<noteq> 0 then clean_kstack (put_files task s5)
                   else let s6 = copy_task task stack fr s5;
                            s7 = upd_task task (\<lambda>t. t\<lparr>tid := sint (get_new_tid s6)\<rparr>) s6
                        in kbind (wakeupTask task (add_task task s7)) (\<lambda>s8. Ret (tid (tasks s8 task), s8)))))))"

definition createKernelThread :: "u32 \<Rightarrow> u32 \<Rightarrow> u32 \<Rightarrow> 'a kproc_scheme \<Rightarrow> (int \<times> 'a kproc_scheme) kres" where
  "createKernelThread func arg clone_flags s =
     do_fork (clone_flags OR CLONE_VM) 0
       (zero_frame\<lparr>if_cs := KERNEL_CS, if_ds := KERNEL_DS, if_es := KERNEL_DS, if_ss := KERNEL_DS, if_ebx := func, if_edx := arg,
          if_eip := code_of s ''kernel_thread_entry_s''\<rparr>) s"

text \<open>\<^verbatim>\<open>rodata s\<close> is the address of a string literal; the name is copied from the literal's 31 bytes on.\<close>

definition initTask :: "'a kproc_scheme \<Rightarrow> 'a kproc_scheme kres" where
  "initTask s =
     (let s1 = initRunQueue s;
          s2 = s1\<lparr>TaskLinks := initList TaskHead (TaskLinks s1)\<rparr>
      in kbind (allocTask s2) (\<lambda>(idle, s3).
           let s4 = s3\<lparr>idle_task := idle, TaskLinks := listAdd TaskHead (TaskN idle) (TaskLinks s3)\<rparr>
           in if idle = NULL then Panic ''Can not create idle task!''
              else let s5 = upd_task idle (\<lambda>t. t\<lparr>tid := 0, tstate := TASK_RUNNABLE, wait_state := WT_NOTWAIT, kstack := KernelStack s4,
                              need_resched := True\<rparr>) s4
                   in kbind (files_create s5) (\<lambda>(fs, s6).
                        if fs = NULL then Panic ''idle task files create error!''
                        else let s7 = snd (files_ref_inc fs (upd_task idle (\<lambda>t. t\<lparr>tfiles := fs\<rparr>) s6));
                                 s8 = setTaskName idle (rdbytes (mem s7) (rodata s7 ''idle'') TASK_NAME_LEN) s7;
                                 s9 = s8\<lparr>TaskCount := TaskCount s8 + 1, CurrentTask := idle\<rparr>
                             in kbind (createKernelThread (code_of s9 ''init_task_func'') (rodata s9 ''Hello, world!'') 0 s9) (\<lambda>(init_tid, s10).
                                kbind (find_task init_tid s10) (\<lambda>t.
                                  if init_tid < 0 then Panic ''create init process failed.'' else Ret (s10\<lparr>init_task := t\<rparr>))))))"

section \<open>Waiting for a child\<close>

text \<open>The children of the current task from \<open>t\<close> on: a zombie (or \<open>NULL\<close>), and whether there was any child.\<close>

definition wait_scan_body :: "'a kproc_scheme \<Rightarrow> ptr \<times> bool \<Rightarrow> (ptr \<times> bool + ptr \<times> bool) kres" where
  "wait_scan_body s = (\<lambda>(t, haskid).
     Ret (if t = NULL then Inr (NULL, haskid)
          else if tstate (tasks s t) = TASK_ZOMBIE then Inr (t, True)
          else Inl (optr (tasks s t), True)))"

definition wait_scan :: "int \<Rightarrow> 'a kproc_scheme \<Rightarrow> (ptr \<times> bool) kres" where
  "wait_scan pid s =
     (if pid \<noteq> 0
      then kbind (find_task pid s) (\<lambda>t.
             Ret (if t \<noteq> NULL \<and> parent (tasks s t) = CurrentTask s
                  then (if tstate (tasks s t) = TASK_ZOMBIE then t else NULL, True) else (NULL, False)))
      else kwhile (wait_scan_body s) (cptr (tasks s (CurrentTask s)), False))"

text \<open>The four bytes of an \<^verbatim>\<open>int\<close> at a user address.\<close>

fun vput :: "u8 list \<Rightarrow> u32 \<Rightarrow> 'a ktask_scheme \<Rightarrow> 'a ktask_scheme kres" where
  "vput [] a s = Ret s"
| "vput (b # bs) a s = kbind (kaccess True a s) (\<lambda>(p, s1). vput bs (a + 1) (s1\<lparr>mem := (mem s1)(p := b)\<rparr>))"

definition bytes32 :: "u32 \<Rightarrow> u8 list" where
  "bytes32 w = map (\<lambda>k. ucast (drop_bit (8 * k) w)) [0..<4]"

definition wait_collect :: "ptr \<Rightarrow> u32 \<Rightarrow> 'a kproc_scheme \<Rightarrow> (int \<times> 'a kproc_scheme) kres" where
  "wait_collect task code_store s =
     (if task = idle_task s \<or> task = init_task s then Panic ''Can not wait idleproc or initproc!''
      else kbind (if code_store \<noteq> NULL then vput (bytes32 (of_int (exit_code (tasks s task)))) code_store s else Ret s) (\<lambda>s1.
           let s2 = del_task task s1
           in kbind (freeKstack task s2) (\<lambda>s3. kbind (kfree task sizeof_Task_t s3) (\<lambda>s4. Ret (0, s4)))))"

text \<open>
  From the label \<^verbatim>\<open>repeat\<close>: \<open>Inr\<close> the result, or \<open>Inl\<close> the state in which another task runs; when the waiting
  task runs again it goes on with \<open>do_wait_resume\<close>.
\<close>

definition do_wait_repeat :: "int \<Rightarrow> u32 \<Rightarrow> 'a kproc_scheme \<Rightarrow> ('a kproc_scheme + int \<times> 'a kproc_scheme) kres" where
  "do_wait_repeat pid code_store s =
     kbind (wait_scan pid s) (\<lambda>(task, haskid).
       if task \<noteq> NULL then kbind (wait_collect task code_store s) (\<lambda>r. Ret (Inr r))
       else if haskid
       then kbind (schedule (upd_task (CurrentTask s) (\<lambda>t. t\<lparr>tstate := TASK_SLEEPING, wait_state := WT_CHILD\<rparr>) s)) (\<lambda>s1. Ret (Inl s1))
       else Ret (Inr (- E_BAD_PROC, s)))"

definition do_wait_enter :: "int \<Rightarrow> u32 \<Rightarrow> 'a kproc_scheme \<Rightarrow> ('a kproc_scheme + int \<times> 'a kproc_scheme) kres" where
  "do_wait_enter pid code_store s =
     kbind (if code_store \<noteq> NULL then checkUserMem (tmm (tasks s (CurrentTask s))) code_store 4 True s else Ret (True, s)) (\<lambda>(ok, s1).
       if \<not> ok then Ret (Inr (- E_INVAL, s1)) else do_wait_repeat pid code_store s1)"

definition do_wait_resume :: "int \<Rightarrow> u32 \<Rightarrow> 'a kproc_scheme \<Rightarrow> ('a kproc_scheme + int \<times> 'a kproc_scheme) kres" where
  "do_wait_resume pid code_store s =
     (if tflags (tasks s (CurrentTask s)) AND PF_EXITING \<noteq> 0
      then kbind (do_exit (- E_KILLED) s) (\<lambda>s1. Ret (Inl s1))
      else do_wait_repeat pid code_store s)"

end
