(* ===== verification/Fork_Correct.thy ===== *)
theory Fork_Correct
  imports Fork
begin

text \<open>
  Correctness of \<^verbatim>\<open>do_wait\<close> and \<^verbatim>\<open>do_fork\<close>: a parent collects its youngest ended child and sleeps while all
  its children live; a new task is the youngest child of its creator and the last of the run queue.
\<close>

section \<open>Runs of pages\<close>

lemma freePhyPages_run:
  assumes "pmm_inv s" "0 < n" "{base ..< base + unat n} \<subseteq> managed_set s - free_set s"
  shows "\<exists>s'. freePhyPages base n s = Ret s' \<and> pmm_inv s' \<and> free_set s' = free_set s \<union> {base ..< base + unat n} \<and>
    pmm_frame {base ..< base + unat n} s s'"
proof -
  obtain bs where bs: "pmm_rel s bs" using assms(1) by (auto simp: pmm_inv_def)
  have new: "{base ..< base + unat n} \<inter> cover bs = {}" using assms(3) free_set_cover [OF bs] by auto
  have n: "0 < unat n" using assms(2) by (simp add: word_less_nat_alt)
  have "base + unat n - 1 \<in> {base ..< base + unat n}" using n by simp
  then have "base + unat n - 1 \<in> managed_set s" using assms(3) by blast
  then have "base + unat n - 1 < unat (PageCount s)" by (simp add: managed_set_def)
  then have bound: "base + unat n \<le> unat (PageCount s)" using n by linarith
  have res: "\<forall>i \<in> {base ..< base + unat n}. \<not> bit (pg_flags (Pages s i)) PGP_reserved"
    using assms(3) by (auto simp: managed_set_def)
  obtain t where t: "ff_free_pages base n s = Ret t" "pmm_rel t (spec_free base (unat n) bs)" "pmm_frame {base ..< base + unat n} s t"
    using ff_free_refines [OF bs assms(2) bound res new] by blast
  then show ?thesis
    using spec_free_correct(2) [OF pmm_rel_apart [OF bs] n new] free_set_cover [OF bs] free_set_cover [OF t(2)]
    by (intro exI [of _ t]) (auto simp: freePhyPages_def pmm_inv_def)
qed

lemma kfree_run:
  assumes "pmm_inv s" "unat (PageCount s) \<le> 0x40000" "0 < bytes" "unat bytes \<le> 0xFFFFF000"
    and "{p ..< p + npages bytes} \<subseteq> managed_set s - free_set s"
  shows "\<exists>s'. kfree (kva p) bytes s = Ret s' \<and> pmm_inv s' \<and> free_set s' = free_set s \<union> {p ..< p + npages bytes} \<and>
    managed_set s' = managed_set s \<and> pmm_frame {p ..< p + npages bytes} s s'"
proof -
  let ?n = "ROUNDUP bytes 4096 div PGSIZE"
  note n = unat_npages [OF assms(4)] ROUNDUP_pages_pos [OF assms(3,4)]
  obtain s' where s': "freePhyPages p ?n s = Ret s'" "pmm_inv s'" "free_set s' = free_set s \<union> {p ..< p + npages bytes}"
      "pmm_frame {p ..< p + npages bytes} s s'"
    using freePhyPages_run [OF assms(1) n(2), of p] assms(5) n(1) by auto
  have "0 < npages bytes" using n by (simp add: word_less_nat_alt)
  then have lt: "p < unat (PageCount s)" using assms(5) by (auto simp: managed_set_def subset_eq)
  then have "pa2page (kva p - KERNEL_BASE) s = Ret p"
    using kernel_addr [of p] assms(2) by (simp add: pa2page_def kva_def word_less_nat_alt)
  then show ?thesis using s' managed_set_frame [OF s'(4)] by (simp add: kfree_def dokfree2_def)
qed

lemma pmm_frame_task:
  fixes s t :: "'a ktask_scheme"
  assumes "pmm_frame R s t"
  shows "tasks t = tasks s" "CurrentTask t = CurrentTask s" "idle_task t = idle_task s" "init_task t = init_task s" "TaskLinks t = TaskLinks s"
    "TaskCount t = TaskCount s" "RunLinks t = RunLinks s" "task_num t = task_num s" "max_time_slice t = max_time_slice s" "mms t = mms s"
    "PageCount t = PageCount s" "mem t = mem s" "kernel_cr3 t = kernel_cr3 s" "iframes t = iframes s"
proof -
  have t: "t = s\<lparr>Pages := Pages t, FreeLinks := FreeLinks t, free_page_count := free_page_count t\<rparr>"
    using assms unfolding pmm_frame_def by blast
  show "tasks t = tasks s" "CurrentTask t = CurrentTask s" "idle_task t = idle_task s" "init_task t = init_task s" "TaskLinks t = TaskLinks s"
    "TaskCount t = TaskCount s" "RunLinks t = RunLinks s" "task_num t = task_num s" "max_time_slice t = max_time_slice s" "mms t = mms s"
    "PageCount t = PageCount s" "mem t = mem s" "kernel_cr3 t = kernel_cr3 s" "iframes t = iframes s"
    by (subst t, simp)+
qed

section \<open>Waiting\<close>

lemma wait_scan_sibs:
  "sibs (tasks s) y x cs \<Longrightarrow> kwhile (wait_scan_body s) (x, h) =
     Ret (case find (\<lambda>t. tstate (tasks s t) = TASK_ZOMBIE) cs of Some z \<Rightarrow> (z, True) | None \<Rightarrow> (NULL, h \<or> cs \<noteq> []))"
proof (induction cs arbitrary: y x h)
  case Nil
  then show ?case by (subst kwhile_unfold) (simp add: wait_scan_body_def)
next
  case (Cons c cs)
  show ?case
  proof (cases "tstate (tasks s c) = TASK_ZOMBIE")
    case True
    then show ?thesis using Cons.prems by (subst kwhile_unfold) (simp add: wait_scan_body_def)
  next
    case False
    have "kwhile (wait_scan_body s) (x, h) = kwhile (wait_scan_body s) (optr (tasks s c), True)"
      using Cons.prems False by (subst kwhile_unfold) (simp add: wait_scan_body_def)
    then show ?thesis using Cons.IH [of c "optr (tasks s c)" True] Cons.prems False by (cases "find (\<lambda>t. tstate (tasks s t) = TASK_ZOMBIE) cs") simp_all
  qed
qed

text \<open>The pages of a task: those of its structure and of its kernel stack.\<close>

definition task_pages :: "'a ktask_scheme \<Rightarrow> ptr \<Rightarrow> nat \<Rightarrow> nat \<Rightarrow> bool" where
  "task_pages s t p k \<longleftrightarrow> t = kva p \<and> kstack (tasks s t) = kva k \<and> p \<notin> {k ..< k + 2} \<and> insert p {k ..< k + 2} \<subseteq> managed_set s - free_set s"

lemma npages_task: "npages KSTACKSIZE = 2" "npages sizeof_Task_t = 1"
  by (simp_all add: npages_def)

lemma upd_task_other:
  fixes s :: "'a ktask_scheme"
  shows "pmm.truncate (upd_task a f s) = pmm.truncate s" "TaskCount (upd_task a f s) = TaskCount s" "TaskLinks (upd_task a f s) = TaskLinks s"
    "PageCount (upd_task a f s) = PageCount s" "mem (upd_task a f s) = mem s" "init_task (upd_task a f s) = init_task s" "mms (upd_task a f s) = mms s"
  by (simp_all add: upd_task_def pmm.defs)

lemma del_task_sel:
  "pmm.truncate (del_task t s) = pmm.truncate s" "kstack (tasks (del_task t s) x) = kstack (tasks s x)"
  "TaskCount (del_task t s) = TaskCount s - 1" "TaskLinks (del_task t s) = listDel (TaskN t) (TaskLinks s)"
  "CurrentTask (del_task t s) = CurrentTask s" "PageCount (del_task t s) = PageCount s"
proof -
  define s1 where "s1 = s\<lparr>TaskLinks := listDel (TaskN t) (TaskLinks s)\<rparr>"
  define s2 where "s2 = (if optr (tasks s1 t) \<noteq> NULL then upd_task (optr (tasks s1 t)) (\<lambda>x. x\<lparr>yptr := yptr (tasks s1 t)\<rparr>) s1 else s1)"
  define s3 where "s3 = (if yptr (tasks s2 t) \<noteq> NULL then upd_task (yptr (tasks s2 t)) (\<lambda>x. x\<lparr>optr := optr (tasks s2 t)\<rparr>) s2
    else upd_task (parent (tasks s2 t)) (\<lambda>x. x\<lparr>cptr := optr (tasks s2 t)\<rparr>) s2)"
  have e: "del_task t s = s3\<lparr>TaskCount := TaskCount s3 - 1\<rparr>"
    unfolding del_task_def Let_def s3_def s2_def s1_def by (rule refl)
  have 2: "pmm.truncate s2 = pmm.truncate s1" "kstack (tasks s2 x) = kstack (tasks s1 x)" "TaskCount s2 = TaskCount s1" "TaskLinks s2 = TaskLinks s1"
    "CurrentTask s2 = CurrentTask s1" "PageCount s2 = PageCount s1" for x
    by (simp_all add: s2_def upd_task_other)
  have 3: "pmm.truncate s3 = pmm.truncate s2" "kstack (tasks s3 x) = kstack (tasks s2 x)" "TaskCount s3 = TaskCount s2" "TaskLinks s3 = TaskLinks s2"
    "CurrentTask s3 = CurrentTask s2" "PageCount s3 = PageCount s2" for x
    by (simp_all add: s3_def upd_task_other)
  have 4: "pmm.truncate (s3\<lparr>TaskCount := n\<rparr>) = pmm.truncate s3" for n by (simp add: pmm.defs)
  have 1: "pmm.truncate s1 = pmm.truncate s" by (simp add: s1_def pmm.defs)
  show "pmm.truncate (del_task t s) = pmm.truncate s" unfolding e 4 3 2 1 by (rule refl)
  show "kstack (tasks (del_task t s) x) = kstack (tasks s x)" "TaskCount (del_task t s) = TaskCount s - 1"
    "TaskLinks (del_task t s) = listDel (TaskN t) (TaskLinks s)"
    "CurrentTask (del_task t s) = CurrentTask s" "PageCount (del_task t s) = PageCount s"
    unfolding e by (simp_all add: 2 3 s1_def)
qed

lemma wait_collect_ok:
  assumes "task_pages s z p k" "pmm_inv s" "unat (PageCount s) \<le> 0x40000" "z \<noteq> idle_task s" "z \<noteq> init_task s"
  shows "\<exists>s'. wait_collect z NULL s = Ret (0, s') \<and> pmm_inv s' \<and> free_set s' = free_set s \<union> insert p {k ..< k + 2} \<and>
    tasks s' = tasks (del_task z s) \<and> TaskCount s' = TaskCount s - 1 \<and> TaskLinks s' = listDel (TaskN z) (TaskLinks s) \<and> CurrentTask s' = CurrentTask s"
proof -
  define t where "t = del_task z s"
  note e = pmm_same [OF del_task_sel(1) [of z s], folded t_def]
  have z: "z = kva p" "kstack (tasks s z) = kva k" "p \<notin> {k ..< k + 2}" "insert p {k ..< k + 2} \<subseteq> managed_set s - free_set s"
    using assms(1) unfolding task_pages_def by blast+
  obtain u where u: "freeKstack z t = Ret u" "pmm_inv u" "free_set u = free_set s \<union> {k ..< k + 2}" "managed_set u = managed_set s" "pmm_frame {k ..< k + 2} t u"
    using kfree_run [of t KSTACKSIZE k] assms(2,3) z e unfolding npages_task freeKstack_def
    by (auto simp: t_def del_task_sel word_less_nat_alt)
  obtain v where v: "kfree z sizeof_Task_t u = Ret v" "pmm_inv v" "free_set v = free_set u \<union> {p ..< p + 1}" "pmm_frame {p ..< p + 1} u v"
    using kfree_run [of u sizeof_Task_t p] u z assms(3) e pmm_frame_task(11) [OF u(5)] unfolding npages_task
    by (auto simp: word_less_nat_alt)
  have "wait_collect z NULL s = Ret (0, v)" using assms(4,5) u(1) v(1) by (simp add: wait_collect_def t_def)
  then show ?thesis using v u(3) pmm_frame_task [OF v(4)] pmm_frame_task [OF u(5)] by (auto simp: t_def del_task_sel)
qed

lemma rq_inv_sleep:
  assumes inv: "rq_inv s q L" and c: "CurrentTask s = c"
  shows "rq_inv (upd_task c (\<lambda>t. t\<lparr>tstate := TASK_SLEEPING, wait_state := WT_CHILD\<rparr>) s) q L"
  using rq_inv_current [OF inv, of "\<lambda>t. t\<lparr>tstate := TASK_SLEEPING, wait_state := WT_CHILD\<rparr>"] inv c
  by (simp add: rq_inv_def)
lemma do_wait_ok:
  assumes inv: "rq_inv s q L" and c: "CurrentTask s = c" "c \<noteq> idle_task s"
    and fam: "family (tasks s) c cs" "c \<notin> set cs" "idle_task s \<notin> set cs" "init_task s \<notin> set cs"
    and pm: "pmm_inv s" "unat (PageCount s) \<le> 0x40000"
    and pages: "\<And>z. z \<in> set cs \<Longrightarrow> tstate (tasks s z) = TASK_ZOMBIE \<Longrightarrow> task_pages s z (pg z) (stk z)"
  shows "case find (\<lambda>t. tstate (tasks s t) = TASK_ZOMBIE) cs of
      Some z \<Rightarrow> \<exists>s' xs ys. do_wait_enter 0 NULL s = Ret (Inr (0, s')) \<and> cs = xs @ z # ys \<and> family (tasks s') c (xs @ ys) \<and>
        TaskLinks s' = listDel (TaskN z) (TaskLinks s) \<and> TaskCount s' = TaskCount s - 1 \<and> pmm_inv s' \<and>
        free_set s' = free_set s \<union> insert (pg z) {stk z ..< stk z + 2}
    | None \<Rightarrow> if cs = [] then do_wait_enter 0 NULL s = Ret (Inr (- E_BAD_PROC, s))
        else \<exists>s'. do_wait_enter 0 NULL s = Ret (Inl s') \<and> CurrentTask s' = (case q of [] \<Rightarrow> idle_task s | t # _ \<Rightarrow> t) \<and> rq_inv s' (tl q) L \<and>
          tstate (tasks s' c) = TASK_SLEEPING \<and> wait_state (tasks s' c) = WT_CHILD \<and> family (tasks s') c cs"
proof -
  let ?z = "\<lambda>t. tstate (tasks s t) = TASK_ZOMBIE"
  have "sibs (tasks s) NULL (cptr (tasks s c)) cs" using fam(1) by (simp add: family_def)
  note sc = wait_scan_sibs [OF this, of False]
  have run: "do_wait_enter 0 NULL s = do_wait_repeat 0 NULL s" by (simp add: do_wait_enter_def)
  have nn: "NULL \<notin> set cs" using fam(1) sibs_nonnull by (auto simp: family_def)
  have cL: "c \<noteq> NULL" using inv c(1) by (auto simp: rq_inv_def)
  show ?thesis
  proof (cases "find ?z cs")
    case (Some z)
    then obtain n where n: "n < length cs" "?z (cs ! n)" "z = cs ! n" unfolding find_Some_iff by blast
    define xs ys where "xs = take n cs" and "ys = drop (Suc n) cs"
    have z: "cs = xs @ z # ys" "?z z" unfolding xs_def ys_def n(3) using id_take_nth_drop [OF n(1)] n(2) by simp_all
    then have "task_pages s z (pg z) (stk z)" using pages by simp
    moreover have "z \<noteq> idle_task s" "z \<noteq> init_task s" "z \<noteq> NULL" using fam(3,4) nn z(1) by auto
    ultimately obtain s' where s': "wait_collect z NULL s = Ret (0, s')" "pmm_inv s'" "free_set s' = free_set s \<union> insert (pg z) {stk z ..< stk z + 2}"
        "tasks s' = tasks (del_task z s)" "TaskCount s' = TaskCount s - 1" "TaskLinks s' = listDel (TaskN z) (TaskLinks s)"
      using wait_collect_ok [OF _ pm] by blast
    have "family (tasks s') c (xs @ ys)"
      unfolding s'(4) by (rule del_task_family) (use fam(1,2) z(1) cL in auto)
    moreover have "do_wait_enter 0 NULL s = Ret (Inr (0, s'))"
      using sc Some s'(1) \<open>z \<noteq> NULL\<close> c(1) by (simp add: run do_wait_repeat_def wait_scan_def)
    ultimately show ?thesis using Some s' z(1) by auto
  next
    case None
    show ?thesis
    proof (cases "cs = []")
      case True
      then show ?thesis using sc None c(1) by (simp add: run do_wait_repeat_def wait_scan_def)
    next
      case False
      define t where "t = upd_task c (\<lambda>t. t\<lparr>tstate := TASK_SLEEPING, wait_state := WT_CHILD\<rparr>) s"
      have t: "requeue t q = q" "idle_task t = idle_task s" by (simp_all add: requeue_def t_def c(1))
      obtain s' where s': "schedule t = Ret s'" "rq_inv s' (tl q) L" "CurrentTask s' = (case q of [] \<Rightarrow> idle_task s | t # _ \<Rightarrow> t)"
          "\<forall>x. tstate (tasks s' x) = tstate (tasks t x)" "\<forall>x. wait_state (tasks s' x) = wait_state (tasks t x)"
        using schedule_ok [OF rq_inv_sleep [OF inv c(1)], folded t_def, unfolded t] by blast
      have "family (tasks t) c cs" using fam(1) family_cong [of "tasks t" "tasks s"] by (simp add: t_def)
      then have "family (tasks s') c cs" using schedule_kin [OF s'(1)] family_kin by metis
      moreover have "do_wait_enter 0 NULL s = Ret (Inl s')"
        using sc None False s'(1) c(1) by (simp add: run do_wait_repeat_def wait_scan_def t_def)
      ultimately show ?thesis using None False s' by (auto simp: t_def)
    qed
  qed
qed

section \<open>Fork\<close>

text \<open>What the steps of \<^verbatim>\<open>do_fork\<close> before \<^verbatim>\<open>add_task\<close> leave alone; \<open>t\<close> is the new task.\<close>

definition fork_frame :: "ptr \<Rightarrow> 'a kproc_scheme \<Rightarrow> 'a kproc_scheme \<Rightarrow> bool" where
  "fork_frame t s s' \<longleftrightarrow> (\<forall>x. x \<noteq> t \<longrightarrow> tasks s' x = tasks s x) \<and> CurrentTask s' = CurrentTask s \<and> idle_task s' = idle_task s \<and>
     init_task s' = init_task s \<and> RunLinks s' = RunLinks s \<and> task_num s' = task_num s \<and> max_time_slice s' = max_time_slice s \<and>
     TaskLinks s' = TaskLinks s \<and> TaskCount s' = TaskCount s \<and> PageCount s' = PageCount s \<and> managed_set s' = managed_set s \<and> code_of s' = code_of s"

lemma fork_frame_trans: "fork_frame t s u \<Longrightarrow> fork_frame t u v \<Longrightarrow> fork_frame t s v"
  by (simp add: fork_frame_def)

lemma fork_frame_task:
  fixes s :: "'a kproc_scheme"
  shows "fork_frame t s (upd_task t f s)"
proof -
  have "managed_set (upd_task t f s) = managed_set s" by (rule pmm_same) (simp add: upd_task_other)
  then show ?thesis unfolding fork_frame_def by (simp add: upd_task_def)
qed

lemma fork_frame_pmm:
  fixes s u :: "'a kproc_scheme"
  assumes "pmm_frame R s u"
  shows "fork_frame t s u"
proof -
  have u: "u = s\<lparr>Pages := Pages u, FreeLinks := FreeLinks u, free_page_count := free_page_count u\<rparr>"
    using assms unfolding pmm_frame_def by blast
  have "code_of u = code_of s" by (subst u) simp
  then show ?thesis using pmm_frame_task [OF assms] managed_set_frame [OF assms] by (simp add: fork_frame_def)
qed

lemma kmalloc_run:
  assumes "pmm_inv s" "0 < bytes" "unat bytes \<le> 0xFFFFF000" "unat (PageCount s) \<le> 0x40000" "{q ..< q + npages bytes} \<subseteq> free_set s"
  shows "\<exists>p s'. kmalloc bytes s = Ret (kva p, s') \<and> {p ..< p + npages bytes} \<subseteq> free_set s \<and> free_set s' = free_set s - {p ..< p + npages bytes} \<and>
    pmm_inv s' \<and> pmm_frame {} s s' \<and> kva p \<noteq> NULL"
proof -
  let ?n = "ROUNDUP bytes 4096 div PGSIZE"
  note n = unat_npages [OF assms(3)] ROUNDUP_pages_pos [OF assms(2,3)]
  obtain p s' where p: "allocPhyPages ?n s = Ret (Some p, s')" "pmm_inv s'" "{p ..< p + npages bytes} \<subseteq> free_set s"
      "free_set s' = free_set s - {p ..< p + npages bytes}"
    using pmm.alloc_some [OF assms(1) n(2), of q] assms(5) n(1) by auto
  have k: "kmalloc bytes s = Ret (kva p, s')" using p(1) by (simp add: kmalloc_def dokmalloc2_def kva_def)
  have "0 < npages bytes" using n by (simp add: word_less_nat_alt)
  then have "p \<in> free_set s" using p(3) by auto
  then have "p < 0x40000" using free_set_bound [OF assms(1)] assms(4) by fastforce
  then show ?thesis using p k kva_nonnull kmalloc_frame [OF k] by blast
qed

text \<open>What a wake-up leaves of a task, beside the family links.\<close>

definition task_ctx :: "task \<Rightarrow> ptr \<times> ptr \<times> cpu_context \<times> u32" where
  "task_ctx t = (tfiles t, tif t, tcontext t, tcr3 t)"

lemma enqueue_ctx: "enqueueRunQueue t s = Ret s' \<Longrightarrow> task_ctx (tasks s' x) = task_ctx (tasks s x) \<and> pmm.truncate s' = pmm.truncate s"
  by (auto simp: enqueueRunQueue_def task_ctx_def upd_task_def pmm.defs Let_def split: if_splits)

lemma wakeup_ctx: "wakeupTask t s = Ret s' \<Longrightarrow> task_ctx (tasks s' x) = task_ctx (tasks s x) \<and> pmm.truncate s' = pmm.truncate s"
proof -
  assume w: "wakeupTask t s = Ret s'"
  let ?s = "upd_task t (\<lambda>t. t\<lparr>tstate := TASK_RUNNABLE, wait_state := WT_NOTWAIT\<rparr>) s"
  have "task_ctx (tasks ?s x) = task_ctx (tasks s x) \<and> pmm.truncate ?s = pmm.truncate s" by (simp add: upd_task_def task_ctx_def pmm.defs)
  moreover have "s' = s \<or> s' = ?s \<or> enqueueRunQueue t ?s = Ret s'"
    using w by (auto simp: wakeupTask_def Let_def split: if_splits)
  ultimately show ?thesis using enqueue_ctx [of t ?s s' x] by auto
qed

lemma kproc_more:
  fixes s t :: "'a kproc_scheme"
  assumes "ksched.more t = ksched.more s"
  shows "iframes t = iframes s" "filestructs t = filestructs s" "mms t = mms s"
  using assms by (cases s, cases t, simp)+

lemma add_task_sel:
  fixes s :: "'a kproc_scheme"
  shows "TaskLinks (add_task t s) = listAdd TaskHead (TaskN t) (TaskLinks s)" "TaskCount (add_task t s) = TaskCount s + 1"
    "CurrentTask (add_task t s) = CurrentTask s" "idle_task (add_task t s) = idle_task s" "RunLinks (add_task t s) = RunLinks s"
    "task_num (add_task t s) = task_num s" "max_time_slice (add_task t s) = max_time_slice s" "iframes (add_task t s) = iframes s"
    "filestructs (add_task t s) = filestructs s" "mms (add_task t s) = mms s" "pmm.truncate (add_task t s) = pmm.truncate s"
  by (simp_all add: add_task_def Let_def upd_task_def pmm.defs)

lemma fork_tail:
  fixes s :: "'a kproc_scheme"
  assumes inv: "rq_inv s q L" and t: "t \<notin> L" "t \<noteq> NULL" "parent (tasks s t) = c" "tstate (tasks s t) = TASK_UNINIT" "time_slice (tasks s t) = 0"
    and c: "CurrentTask s = c" and fam: "family (tasks s) c cs" "c \<notin> set cs" "set cs \<subseteq> L"
    and tl: "dlist (TaskLinks s) TaskHead (map TaskN ts)" "t \<notin> set ts"
  shows "\<exists>s'. wakeupTask t (add_task t s) = Ret s' \<and> rq_inv s' (q @ [t]) (insert t L) \<and> family (tasks s') c (t # cs) \<and>
    dlist (TaskLinks s') TaskHead (map TaskN (t # ts)) \<and> TaskCount s' = TaskCount s + 1 \<and> CurrentTask s' = c \<and> tstate (tasks s' t) = TASK_RUNNABLE \<and>
    tid (tasks s' t) = tid (tasks s t) \<and> tmm (tasks s' t) = tmm (tasks s t) \<and> task_ctx (tasks s' t) = task_ctx (tasks s t) \<and>
    kstack (tasks s' t) = kstack (tasks s t) \<and>
    iframes s' = iframes s \<and> filestructs s' = filestructs s \<and> mms s' = mms s \<and> pmm.truncate s' = pmm.truncate s"
proof -
  have cL: "c \<in> L" "NULL \<notin> L" "idle_task s \<in> L" using inv c by (auto simp: rq_inv_def)
  then have ne: "t \<noteq> c" "c \<noteq> NULL" "t \<noteq> idle_task s" "t \<notin> set cs" using t(1) fam(3) by auto
  have "ready s (insert t L) = ready s L" using t(4) by (auto simp: ready_def)
  then have i1: "rq_inv s q (insert t L)" using inv t(2,5) by (auto simp: rq_inv_def)
  have ct: "cptr (tasks s c) \<noteq> t" "cptr (tasks s c) \<noteq> c"
    using family_first [OF fam(1)] ne t(2) fam(2) by (cases cs; auto)+
  note T = add_task_tasks [OF t(3) ne(1) ct]
  define u where "u = add_task t s"
  have keep: "tstate (tasks u x) = tstate (tasks s x)" "time_slice (tasks u x) = time_slice (tasks s x)" "tid (tasks u x) = tid (tasks s x)"
    "tmm (tasks u x) = tmm (tasks s x)" "kstack (tasks u x) = kstack (tasks s x)" "task_ctx (tasks u x) = task_ctx (tasks s x)" for x
    unfolding u_def T by (simp_all add: task_ctx_def)
  have i2: "rq_inv u q (insert t L)" by (rule rq_inv_states [OF i1 keep(1,2)]) (simp_all add: u_def add_task_sel)
  have cu: "CurrentTask u = c" "idle_task u = idle_task s" by (simp_all add: u_def add_task_sel c)
  obtain s' where s': "wakeupTask t u = Ret s'" "rq_inv s' (q @ [t]) (insert t L)" "CurrentTask s' = c" "tstate (tasks s' t) = TASK_RUNNABLE"
    using wakeupTask_ok [OF i2, of t] t(4) ne keep(1) cu by auto
  have f: "family (tasks u) c (t # cs)" unfolding u_def by (rule add_task_family) (use fam ne t c in auto)
  note m = wakeupTask_more [OF s'(1)]
  have "family (tasks s') c (t # cs)" using f family_kin wakeup_kin [OF s'(1)] by metis
  moreover have "dlist (TaskLinks u) TaskHead (TaskN t # map TaskN ts)"
    unfolding u_def add_task_sel using tl by (intro dlist_add) auto
  ultimately show ?thesis
    using s' ktask_more [OF m] kproc_more [OF m] wakeup_kin [OF s'(1), of t] wakeup_ctx [OF s'(1), of t] keep
    unfolding u_def [symmetric] kin_def
    by (intro exI [of _ s']) (simp add: u_def add_task_sel)
qed

lemma copy_files_shared:
  fixes s :: "'a kproc_scheme"
  assumes "CurrentTask s \<noteq> t" "tfiles (tasks s (CurrentTask s)) = NULL \<or> flags AND CLONE_FILES \<noteq> 0" "tfiles (tasks s t) = NULL"
    and "fs = tfiles (tasks s (CurrentTask s))"
  shows "\<exists>s'. copy_files flags t s = Ret (0, s') \<and> fork_frame t s s' \<and> tasks s' t = (tasks s t)\<lparr>tfiles := fs\<rparr> \<and>
    filestructs s' = (if fs = NULL then filestructs s else (filestructs s)(fs := (filestructs s fs)\<lparr>files_ref := files_ref (filestructs s fs) + 1\<rparr>)) \<and>
    mms s' = mms s \<and> pmm.truncate s' = pmm.truncate s"
proof (cases "fs = NULL")
  case True
  then have "(tasks s t)\<lparr>tfiles := fs\<rparr> = tasks s t" using assms(3) by (cases "tasks s t") simp
  then show ?thesis using True assms by (intro exI [of _ s]) (simp add: copy_files_def fork_frame_def)
next
  case False
  define u where "u = upd_filestruct fs (\<lambda>x. x\<lparr>files_ref := files_ref x + 1\<rparr>) s"
  define v where "v = upd_task t (\<lambda>x. x\<lparr>tfiles := fs\<rparr>) u"
  have pu: "pmm.truncate u = pmm.truncate s" by (simp add: u_def upd_filestruct_def pmm.defs)
  have "fork_frame t s u"
    using pmm_same(3) [OF pu] by (simp add: fork_frame_def) (simp add: u_def upd_filestruct_def)
  then have "fork_frame t s v" unfolding v_def by (rule fork_frame_trans [OF _ fork_frame_task])
  moreover have "copy_files flags t s = Ret (0, v)"
    using assms False by (simp add: copy_files_def files_ref_inc_def Let_def v_def u_def)
  moreover have "pmm.truncate v = pmm.truncate s" using pu by (simp add: v_def upd_task_other)
  ultimately show ?thesis using False
    by (intro exI [of _ v]) (simp add: v_def upd_task_def u_def upd_filestruct_def)
qed

lemma copy_mm_shared:
  fixes s :: "'a kproc_scheme"
  assumes "CurrentTask s \<noteq> t" "tmm (tasks s t) = NULL" "mm = tmm (tasks s (CurrentTask s))"
    and "mm = NULL \<or> flags AND CLONE_VM \<noteq> 0 \<and> KERNEL_BASE \<le> pgdir (mms s mm)"
  shows "\<exists>s' cr3. copy_mm flags t s = Ret (0, s') \<and> fork_frame t s s' \<and> tasks s' t = (tasks s t)\<lparr>tmm := mm, tcr3 := cr3\<rparr> \<and>
    (mm \<noteq> NULL \<longrightarrow> cr3 = pgdir (mms s mm) - KERNEL_BASE) \<and>
    mms s' = (if mm = NULL then mms s else (mms s)(mm := (mms s mm)\<lparr>mm_ref := mm_ref (mms s mm) + 1\<rparr>)) \<and>
    filestructs s' = filestructs s \<and> pmm.truncate s' = pmm.truncate s"
proof (cases "mm = NULL")
  case True
  then have "(tasks s t)\<lparr>tmm := mm, tcr3 := tcr3 (tasks s t)\<rparr> = tasks s t" using assms(2) by (cases "tasks s t") simp
  then show ?thesis using True assms by (intro exI [of _ s] exI [of _ "tcr3 (tasks s t)"]) (simp add: copy_mm_def fork_frame_def)
next
  case False
  let ?pa = "pgdir (mms s mm) - KERNEL_BASE"
  define u where "u = upd_mm mm (\<lambda>m. m\<lparr>mm_ref := mm_ref m + 1\<rparr>) s"
  define v where "v = upd_task t (\<lambda>x. x\<lparr>tcr3 := ?pa\<rparr>) (upd_task t (\<lambda>x. x\<lparr>tmm := mm\<rparr>) u)"
  have pu: "pmm.truncate u = pmm.truncate s" by (simp add: u_def upd_mm_def pmm.defs)
  have "fork_frame t s u" using pmm_same(3) [OF pu] by (simp add: fork_frame_def) (simp add: u_def upd_mm_def)
  then have "fork_frame t s v" unfolding v_def by (blast intro: fork_frame_trans fork_frame_task)
  moreover have "kva2pa (pgdir (mms s mm)) = Ret ?pa" using assms(4) False by (auto simp: kva2pa_def)
  then have "copy_mm flags t s = Ret (0, v)"
    using assms False by (simp add: copy_mm_def mm_ref_inc_def Let_def v_def u_def upd_mm_def upd_task_other)
  moreover have "pmm.truncate v = pmm.truncate s" using pu by (simp add: v_def upd_task_other)
  ultimately show ?thesis using False
    by (intro exI [of _ v] exI [of _ ?pa]) (simp add: v_def upd_task_def u_def upd_mm_def)
qed

lemma copy_task_ok:
  fixes s :: "'a kproc_scheme"
  assumes "u = copy_task t sp fr s" "i = kstack (tasks s t) + 4 * KSTACKSIZE - sizeof_InterruptFrame_t"
  shows "fork_frame t s u \<and> tasks u t = (tasks s t)\<lparr>tif := i, tcontext := (tcontext (tasks s t))\<lparr>eip := code_of s ''forkret'', esp := i\<rparr>\<rparr> \<and>
    iframes u i = fr\<lparr>if_eax := 0, user_esp := sp, if_eflags := SetBit (if_eflags fr) 9\<rparr> \<and> filestructs u = filestructs s \<and> mms u = mms s \<and>
    pmm.truncate u = pmm.truncate s"
proof -
  have p: "pmm.truncate u = pmm.truncate s" by (simp add: assms(1) copy_task_def Let_def upd_task_def pmm.defs)
  show ?thesis using pmm_same(3) [OF p] p
    by (simp add: fork_frame_def) (simp add: assms copy_task_def Let_def upd_task_def)
qed

text \<open>The new task and its kernel stack.\<close>

lemma fork_alloc:
  fixes s :: "'a kproc_scheme"
  assumes pm: "pmm_inv s" "unat (PageCount s) \<le> 0x40000" "free_set s \<noteq> {}" "\<forall>p \<in> free_set s. \<exists>k. {k ..< k + 2} \<subseteq> free_set s - {p}"
  shows "\<exists>p k s1 s3. allocTask s = Ret (kva p, s1) \<and> setupNewKstack (kva p) (upd_task (kva p) (\<lambda>t. t\<lparr>parent := CurrentTask s1\<rparr>) s1) = Ret (0, s3) \<and>
    p \<in> free_set s \<and> kva p \<noteq> NULL \<and> {k ..< k + 2} \<subseteq> free_set s - {p} \<and> pmm_inv s3 \<and> free_set s3 = free_set s - {p} - {k ..< k + 2} \<and>
    fork_frame (kva p) s s3 \<and> mms s3 = mms s \<and> filestructs s3 = filestructs s \<and>
    tstate (tasks s3 (kva p)) = TASK_UNINIT \<and> time_slice (tasks s3 (kva p)) = 0 \<and> parent (tasks s3 (kva p)) = CurrentTask s \<and>
    tmm (tasks s3 (kva p)) = NULL \<and> tfiles (tasks s3 (kva p)) = NULL \<and> kstack (tasks s3 (kva p)) = kva k \<and> tcontext (tasks s3 (kva p)) = zero_context"
proof -
  obtain x where x: "x \<in> free_set s" using pm(3) by blast
  have "{x ..< x + npages sizeof_Task_t} \<subseteq> free_set s" using x by (simp add: npages_task)
  then obtain p s0 where p: "kmalloc sizeof_Task_t s = Ret (kva p, s0)" "p \<in> free_set s" "free_set s0 = free_set s - {p}" "pmm_inv s0"
      "pmm_frame {} s s0" "kva p \<noteq> NULL"
    using kmalloc_run [OF pm(1) _ _ pm(2), of sizeof_Task_t x] unfolding npages_task by (auto simp: word_less_nat_alt)
  note f0 = pmm_frame_task [OF p(5)] pmm_frame_kfs [OF p(5)]
  obtain s1 f where s1: "allocTask s = Ret (kva p, s1)" "s1 = upd_task (kva p) f s0"
      "\<And>t. tstate (f t) = TASK_UNINIT \<and> time_slice (f t) = 0 \<and> tmm (f t) = NULL \<and> tfiles (f t) = NULL \<and> tcontext (f t) = zero_context"
    using p(1,6) unfolding allocTask_def by simp
  define s2 where "s2 = upd_task (kva p) (\<lambda>t. t\<lparr>parent := CurrentTask s1\<rparr>) s1"
  have p2: "pmm.truncate s2 = pmm.truncate s0" by (simp add: s2_def s1(2) upd_task_other)
  note e2 = pmm_same [OF p2]
  obtain k0 where "{k0 ..< k0 + 2} \<subseteq> free_set s2" using bspec [OF pm(4) p(2)] p(3) e2 by auto
  then obtain k sk where k: "kmalloc KSTACKSIZE s2 = Ret (kva k, sk)" "{k ..< k + 2} \<subseteq> free_set s2" "free_set sk = free_set s2 - {k ..< k + 2}"
      "pmm_inv sk" "pmm_frame {} s2 sk" "kva k \<noteq> NULL"
    using kmalloc_run [of s2 KSTACKSIZE k0] e2 p(4) pm(2) f0 unfolding npages_task by (auto simp: word_less_nat_alt)
  define s3 where "s3 = upd_task (kva p) (\<lambda>t. t\<lparr>kstack := kva k\<rparr>) sk"
  have "setupNewKstack (kva p) s2 = Ret (0, s3)" using k(1,6) by (simp add: setupNewKstack_def s3_def)
  moreover have "fork_frame (kva p) s s3"
    unfolding s3_def by (rule fork_frame_trans [OF _ fork_frame_task], rule fork_frame_trans [OF _ fork_frame_pmm [OF k(5)]])
      (simp only: s2_def s1(2), blast intro: fork_frame_trans fork_frame_task fork_frame_pmm [OF p(5)])
  moreover have "pmm.truncate s3 = pmm.truncate sk" by (simp add: s3_def upd_task_other)
  note e3 = pmm_same [OF this]
  moreover have "tasks s3 (kva p) = (f (tasks s (kva p)))\<lparr>parent := CurrentTask s, kstack := kva k\<rparr>"
    using pmm_frame_task [OF k(5)] f0 by (simp add: s3_def s2_def s1(2))
  moreover have "mms s3 = mms s" "filestructs s3 = filestructs s"
    using pmm_frame_task(10) [OF k(5)] pmm_frame_kfs(3) [OF k(5)] f0 by (simp_all add: s3_def s2_def s1(2) upd_task_def)
  ultimately show ?thesis using s1 p k e2 by (intro exI [of _ p] exI [of _ k] exI [of _ s1] exI [of _ s3]) (simp add: s2_def)
qed

lemma family_other: "t \<notin> insert p (set cs) \<Longrightarrow> (\<And>x. x \<noteq> t \<Longrightarrow> T' x = T x) \<Longrightarrow> family T' p cs = family T p cs"
proof -
  assume h: "t \<notin> insert p (set cs)" "\<And>x. x \<noteq> t \<Longrightarrow> T' x = T x"
  have e: "T' x = T x" if "x \<in> insert p (set cs)" for x using h that by metis
  show ?thesis using sibs_cong [of cs T' T] e by (simp add: family_def)
qed

lemma do_fork_shared:
  fixes s :: "'a kproc_scheme"
  assumes inv: "rq_inv s q L" and c: "CurrentTask s = c" and count: "TaskCount s < MAX_TASKS"
    and fam: "family (tasks s) c cs" "c \<notin> set cs" "set cs \<subseteq> L"
    and tl: "dlist (TaskLinks s) TaskHead (map TaskN ts)" and own: "\<forall>x \<in> L \<union> set ts. heap_owned s x"
    and pm: "pmm_inv s" "unat (PageCount s) \<le> 0x40000" "free_set s \<noteq> {}" "\<forall>p \<in> free_set s. \<exists>k. {k ..< k + 2} \<subseteq> free_set s - {p}"
    and fs: "fs = tfiles (tasks s c)" "fs = NULL \<or> flags AND CLONE_FILES \<noteq> 0"
    and mm: "mm = tmm (tasks s c)" "mm = NULL \<or> flags AND CLONE_VM \<noteq> 0 \<and> KERNEL_BASE \<le> pgdir (mms s mm)"
  shows "\<exists>t s'. do_fork flags sp fr s = Ret (sint (TaskCount s), s') \<and> t \<notin> L \<and> rq_inv s' (q @ [t]) (insert t L) \<and> family (tasks s') c (t # cs) \<and>
    dlist (TaskLinks s') TaskHead (map TaskN (t # ts)) \<and> TaskCount s' = TaskCount s + 1 \<and> CurrentTask s' = c \<and> tstate (tasks s' t) = TASK_RUNNABLE \<and>
    tid (tasks s' t) = sint (TaskCount s) \<and> tmm (tasks s' t) = mm \<and> tfiles (tasks s' t) = fs \<and>
    eip (tcontext (tasks s' t)) = code_of s ''forkret'' \<and> esp (tcontext (tasks s' t)) = tif (tasks s' t) \<and>
    iframes s' (tif (tasks s' t)) = fr\<lparr>if_eax := 0, user_esp := sp, if_eflags := SetBit (if_eflags fr) 9\<rparr> \<and>
    (mm \<noteq> NULL \<longrightarrow> mm_ref (mms s' mm) = mm_ref (mms s mm) + 1) \<and> (fs \<noteq> NULL \<longrightarrow> files_ref (filestructs s' fs) = files_ref (filestructs s fs) + 1) \<and>
    pmm_inv s' \<and> free_set s' \<subseteq> free_set s \<and> card (free_set s - free_set s') = 3"
proof -
  obtain p k s1 s3 where a: "allocTask s = Ret (kva p, s1)"
      "setupNewKstack (kva p) (upd_task (kva p) (\<lambda>t. t\<lparr>parent := CurrentTask s1\<rparr>) s1) = Ret (0, s3)"
      "p \<in> free_set s" "kva p \<noteq> NULL" "{k ..< k + 2} \<subseteq> free_set s - {p}" "pmm_inv s3" "free_set s3 = free_set s - {p} - {k ..< k + 2}"
      "fork_frame (kva p) s s3" "mms s3 = mms s" "filestructs s3 = filestructs s"
      "tstate (tasks s3 (kva p)) = TASK_UNINIT" "time_slice (tasks s3 (kva p)) = 0" "parent (tasks s3 (kva p)) = CurrentTask s"
      "tmm (tasks s3 (kva p)) = NULL" "tfiles (tasks s3 (kva p)) = NULL" "kstack (tasks s3 (kva p)) = kva k" "tcontext (tasks s3 (kva p)) = zero_context"
    using fork_alloc [OF pm] by (elim exE conjE) (rule that; assumption)
  define t where "t = kva p"
  note a = a [folded t_def]
  have "p < 0x40000" using free_set_bound [OF pm(1) a(3)] pm(2) by simp
  then have "\<not> heap_owned s t" using page_span [OF _ a(3), of 1 t] by (simp add: span_Suc t_def)
  then have nt: "t \<notin> L" "t \<notin> set ts" using own by auto
  have cL: "c \<in> L" using inv c by (auto simp: rq_inv_def)
  have c3: "CurrentTask s3 = c" "tasks s3 c = tasks s c" using a(8) c nt(1) cL by (auto simp: fork_frame_def)
  have ct: "c \<noteq> t" using nt(1) cL by auto
  have h3: "CurrentTask s3 \<noteq> t" "tfiles (tasks s3 (CurrentTask s3)) = NULL \<or> flags AND CLONE_FILES \<noteq> 0" "fs = tfiles (tasks s3 (CurrentTask s3))"
    using c3 ct fs by simp_all
  obtain s4 where s4: "copy_files flags t s3 = Ret (0, s4)" "fork_frame t s3 s4" "tasks s4 t = (tasks s3 t)\<lparr>tfiles := fs\<rparr>"
      "filestructs s4 = (if fs = NULL then filestructs s else (filestructs s)(fs := (filestructs s fs)\<lparr>files_ref := files_ref (filestructs s fs) + 1\<rparr>))"
      "mms s4 = mms s" "pmm.truncate s4 = pmm.truncate s3"
    using copy_files_shared [OF h3(1,2) a(15) h3(3), unfolded a(9,10)] by blast
  have c4: "CurrentTask s4 = c" "tasks s4 c = tasks s c" using s4(2) c3 nt(1) cL by (auto simp: fork_frame_def)
  have h4: "CurrentTask s4 \<noteq> t" "tmm (tasks s4 t) = NULL" "mm = tmm (tasks s4 (CurrentTask s4))"
    "mm = NULL \<or> flags AND CLONE_VM \<noteq> 0 \<and> KERNEL_BASE \<le> pgdir (mms s4 mm)"
    using c4 ct mm a(14) s4(3,5) by simp_all
  obtain s5 cr where s5: "copy_mm flags t s4 = Ret (0, s5)" "fork_frame t s4 s5" "tasks s5 t = (tasks s4 t)\<lparr>tmm := mm, tcr3 := cr\<rparr>"
      "mms s5 = (if mm = NULL then mms s else (mms s)(mm := (mms s mm)\<lparr>mm_ref := mm_ref (mms s mm) + 1\<rparr>))" "filestructs s5 = filestructs s4"
      "pmm.truncate s5 = pmm.truncate s4"
    using copy_mm_shared [OF h4, unfolded s4(5)] by blast
  define i where "i = kva k + 4 * KSTACKSIZE - sizeof_InterruptFrame_t"
  define s6 where "s6 = copy_task t sp fr s5"
  have s6: "fork_frame t s5 s6" "tasks s6 t = (tasks s5 t)\<lparr>tif := i, tcontext := (tcontext (tasks s5 t))\<lparr>eip := code_of s5 ''forkret'', esp := i\<rparr>\<rparr>"
      "iframes s6 i = fr\<lparr>if_eax := 0, user_esp := sp, if_eflags := SetBit (if_eflags fr) 9\<rparr>" "filestructs s6 = filestructs s5" "mms s6 = mms s5"
      "pmm.truncate s6 = pmm.truncate s5"
    using copy_task_ok [OF s6_def, of i] a(16) s4(3) s5(3) by (simp_all add: i_def)
  define s7 where "s7 = upd_task t (\<lambda>x. x\<lparr>tid := sint (get_new_tid s6)\<rparr>) s6"
  have fr7: "fork_frame t s s7"
    unfolding s7_def by (blast intro: fork_frame_trans [OF a(8)] fork_frame_trans [OF s4(2)] fork_frame_trans [OF s5(2)] fork_frame_trans [OF s6(1)] fork_frame_task)
  have p7: "pmm.truncate s7 = pmm.truncate s3" using s6(6) s5(6) s4(6) by (simp add: s7_def upd_task_other)
  have tc: "TaskCount s6 = TaskCount s" "code_of s5 = code_of s"
    using a(8) s4(2) s5(2) s6(1) by (simp_all add: fork_frame_def)
  have t7: "tasks s7 t = (tasks s3 t)\<lparr>tfiles := fs, tmm := mm, tcr3 := cr, tif := i, tcontext := zero_context\<lparr>eip := code_of s ''forkret'', esp := i\<rparr>,
      tid := sint (TaskCount s)\<rparr>"
    using s6(2) s5(3) s4(3) a(17) tc by (simp add: s7_def get_new_tid_def)
  have o7: "\<And>x. x \<noteq> t \<Longrightarrow> tasks s7 x = tasks s x" and l7: "CurrentTask s7 = c" "TaskLinks s7 = TaskLinks s" "TaskCount s7 = TaskCount s"
    using fr7 c by (auto simp: fork_frame_def)
  have "\<forall>x \<in> L. tasks s7 x = tasks s x" using o7 nt(1) by metis
  then have "ready s7 L = ready s L" using fr7 by (auto simp: ready_def fork_frame_def)
  then have r7: "rq_inv s7 q L"
    using inv fr7 \<open>\<forall>x \<in> L. tasks s7 x = tasks s x\<close> by (auto simp: rq_inv_def fork_frame_def ready_def)
  have f7: "family (tasks s7) c cs" using fam(1) family_other [of t c cs "tasks s7" "tasks s"] o7 nt(1) cL fam(3) by auto
  obtain s' where s': "wakeupTask t (add_task t s7) = Ret s'" "rq_inv s' (q @ [t]) (insert t L)" "family (tasks s') c (t # cs)"
      "dlist (TaskLinks s') TaskHead (map TaskN (t # ts))" "TaskCount s' = TaskCount s7 + 1" "CurrentTask s' = c" "tstate (tasks s' t) = TASK_RUNNABLE"
      "tid (tasks s' t) = tid (tasks s7 t)" "tmm (tasks s' t) = tmm (tasks s7 t)" "task_ctx (tasks s' t) = task_ctx (tasks s7 t)"
      "iframes s' = iframes s7" "filestructs s' = filestructs s7" "mms s' = mms s7" "pmm.truncate s' = pmm.truncate s7"
    using fork_tail [OF r7 nt(1) a(4) _ _ _ l7(1) f7 fam(2,3), of ts] t7 a(11,12,13) c tl l7(2) nt(2) by auto
  have td: "tid (tasks s' t) = sint (TaskCount s)" using s'(8) t7 by simp
  have run: "do_fork flags sp fr s = Ret (sint (TaskCount s), s')"
    using count a(1,2,4) s4(1) s5(1) s'(1) td unfolding s7_def s6_def
    by (simp add: do_fork_def Let_def linorder_not_le [symmetric])
  note e = pmm_same [OF trans [OF s'(14) p7]]
  have "card (free_set s - free_set s') = 3"
  proof -
    have "free_set s - free_set s' = insert p {k ..< k + 2}" using e(2) a(3,5,7) by auto
    moreover have "p \<notin> {k ..< k + 2}" using a(5) by blast
    ultimately show ?thesis by simp
  qed
  moreover have "pmm_inv s'" "free_set s' \<subseteq> free_set s" using e(1,2) a(6,7) by auto
  moreover have "iframes s7 = iframes s6" "filestructs s7 = filestructs s6" "mms s7 = mms s6" by (simp_all add: s7_def upd_task_def)
  ultimately show ?thesis using run s' nt(1) t7 l7 s6(3,4,5) s5(4,5) s4(4)
    by (intro exI [of _ t] exI [of _ s']) (simp add: task_ctx_def)
qed

section \<open>Sample states\<close>

definition sample_kproc :: kproc where
  "sample_kproc = kfatfs.extend (kfat.extend (kfs.extend sample_kfile (kfat.fields (\<lambda>_. zero_sb) (\<lambda>_. 0) 0 (\<lambda>_. \<lparr>part_pd = 0, part_pt = 0\<rparr>)
       (\<lambda>_. \<lparr>fp_id = 0, fp_flag = 0, sect_clust = 0, fp_fs = 0, fptr = 0, fsize = 0, org_clust = 0, curr_clust = 0, curr_sect = 0, dir_sect = 0, dir_ptr = 0\<rparr>)
       (\<lambda>_. new_dj 0)))
     (kfatfs.fields (\<lambda>_. \<lparr>ff_active = False, ff_devid = 0, ff_dev = 0, ff_boot_sector = 0, fatbase_sb = 0, fatbase_part = 0, fatbase_part_index = 0, next_id = 0\<rparr>)
       (\<lambda>_. \<lparr>fi_fatfs = 0, fi_id = 0, internal_path = 0, fi_flag = 0, fatinode_type = FAT_Type_File\<rparr>) \<lparr>lp_prev = (\<lambda>x. x), lp_next = (\<lambda>x. x)\<rparr> 0 0 0))
     (kproc.fields 0xC0100000 (\<lambda>_. 0xC0101000))"

lemma sample_kproc_sel:
  "tasks sample_kproc = tasks sample_ktask" "CurrentTask sample_kproc = 32" "idle_task sample_kproc = 8" "init_task sample_kproc = 16"
  "RunLinks sample_kproc = RunLinks sample_ktask" "task_num sample_kproc = task_num sample_ktask"
  "max_time_slice sample_kproc = max_time_slice sample_ktask" "TaskCount sample_kproc = 3"
  "TaskLinks sample_kproc = \<lparr>lp_prev = (\<lambda>x. x), lp_next = (\<lambda>x. x)\<rparr>" "pmm.truncate sample_kproc = pmm.truncate sample_kfile"
  by (simp_all add: sample_kproc_def sample_kfile_def sample_kfs_def kbc.defs kfs.defs kfat.defs kfatfs.defs kproc.defs sample_kbc_def kblk.defs kide.defs sample_kide_def
      ktask.defs sample_ktask_def kvm.defs sample_kvm_def ksync.defs sample_sync_def ksched.defs sample_sched_def pmm.defs)

lemma sample_kproc_inv: "rq_inv sample_kproc [] {8, 16, 32, 48}"
  using sample_ktask_inv by (simp add: rq_inv_def ready_def sample_kproc_sel sample_ktask_sel)

lemma sample_kproc_pmm: "pmm_inv sample_kproc" "free_set sample_kproc = {4 ..< 8}" "unat (PageCount sample_kproc) \<le> 0x40000"
  using pmm_same [OF sample_kproc_sel(10)] sample_kfile_pmm by simp_all

text \<open>The current task 32 has the zombie child at page 5, with its stack in pages 6 and 7.\<close>

definition sample_kwait :: kproc where
  "sample_kwait = sample_kproc\<lparr>
     Pages := (\<lambda>i. \<lparr>pg_flags = (if i < 4 then 1 else if i = 4 then 2 else 0), property = (if i = 4 then 1 else 0), ref = 0\<rparr>),
     free_page_count := 1,
     tasks := (\<lambda>_. blank_task)(32 := blank_task\<lparr>parent := 16, cptr := kva 5\<rparr>, kva 5 := blank_task\<lparr>parent := 32, tstate := TASK_ZOMBIE, kstack := kva 6\<rparr>,
       16 := blank_task\<lparr>tstate := TASK_SLEEPING, cptr := 32\<rparr>)\<rparr>"

lemma sample_kwait_pmm: "pmm_inv sample_kwait" "free_set sample_kwait = {4}" "{5, 6, 7} \<subseteq> managed_set sample_kwait - free_set sample_kwait"
  "unat (PageCount sample_kwait) \<le> 0x40000"
proof -
  have p: "PageCount sample_kwait = 8" "FreeLinks sample_kwait = FreeLinks sample_pmm"
  proof -
    have "pmm.truncate sample_kproc = pmm.truncate sample_kvm"
      by (simp add: sample_kproc_sel, simp add: sample_kfile_def sample_kfs_def kbc.defs kfs.defs sample_kbc_def kblk.defs kide.defs sample_kide_def ktask.defs
        sample_ktask_def kvm.defs pmm.defs)
    then have "PageCount sample_kproc = PageCount sample_kvm" "FreeLinks sample_kproc = FreeLinks sample_kvm" by (simp_all add: pmm.defs)
    then show "PageCount sample_kwait = 8" "FreeLinks sample_kwait = FreeLinks sample_pmm"
      by (simp_all add: sample_kwait_def sample_kvm_sel sample_kmach_pmm(3) sample_kmach_def)
  qed
  show "unat (PageCount sample_kwait) \<le> 0x40000" by (simp add: p)
  have rel: "pmm_rel sample_kwait [(4, 1)]"
  proof -
    have b: "bit (1 :: u32) 1 = False" "bit (2 :: u32) 1 = True" "bit (2 :: u32) 0 = False" by (simp_all add: bit_1_iff)
    have w: "Pages sample_kwait = (\<lambda>i. \<lparr>pg_flags = (if i < 4 then 1 else if i = 4 then 2 else 0), property = (if i = 4 then 1 else 0), ref = 0\<rparr>)"
      "free_page_count sample_kwait = 1" by (simp_all add: sample_kwait_def)
    show ?thesis unfolding pmm_rel_def p w using b by (auto simp: sample_pmm_def dlist_def pages_of_def)
  qed
  then show "pmm_inv sample_kwait" by (auto simp: pmm_inv_def)
  show f: "free_set sample_kwait = {4}" using free_set_cover [OF rel] by (auto simp: pages_of_def)
  show "{5, 6, 7} \<subseteq> managed_set sample_kwait - free_set sample_kwait"
    unfolding f by (simp add: managed_set_def p) (simp add: sample_kwait_def)
qed

section \<open>Properties\<close>





end
