(* ===== verification/Exec.thy ===== *)
theory Exec
  imports Fork
begin

text \<open>
  Program execution: \<^verbatim>\<open>load_icode\<close> and \<^verbatim>\<open>do_execve\<close> of \<^verbatim>\<open>kern/krnl/task/task.c\<close>.  The ELF file is read through the file
  system calls into new pages of a new address space; the argument strings pass through kernel buffers onto
  the user stack.  Structures on the kernel stack are given by their addresses; the local array \<^verbatim>\<open>kargv\<close> is a
  list.  Messages are left out.
\<close>

abbreviation (input) EXEC_MAX_ARG_NUM :: int where "EXEC_MAX_ARG_NUM \<equiv> 32"
abbreviation (input) EXEC_MAX_ARG_LEN :: u32 where "EXEC_MAX_ARG_LEN \<equiv> 4095"
abbreviation (input) ELF_MAGIC :: u32 where "ELF_MAGIC \<equiv> 0x464C457F"
abbreviation (input) ELF_PT_LOAD :: u32 where "ELF_PT_LOAD \<equiv> 1"
abbreviation (input) ELF_PF_X :: u32 where "ELF_PF_X \<equiv> 1"
abbreviation (input) ELF_PF_W :: u32 where "ELF_PF_W \<equiv> 2"
abbreviation (input) ELF_PF_R :: u32 where "ELF_PF_R \<equiv> 4"
abbreviation (input) USTACK_TOP :: u32 where "USTACK_TOP \<equiv> USER_TOP"
abbreviation (input) USTACK_SIZE :: u32 where "USTACK_SIZE \<equiv> 256 * PGSIZE"
abbreviation (input) USER_CS :: u32 where "USER_CS \<equiv> 0x1B"
abbreviation (input) USER_DS :: u32 where "USER_DS \<equiv> 0x23"
abbreviation (input) FL_IF :: u32 where "FL_IF \<equiv> 0x200"
abbreviation (input) sizeof_ELF_Header_t :: u32 where "sizeof_ELF_Header_t \<equiv> 52"
abbreviation (input) sizeof_ELF_SectionHeader_t :: u32 where "sizeof_ELF_SectionHeader_t \<equiv> 32"

section \<open>ELF headers\<close>

definition ld16 :: "memory \<Rightarrow> ptr \<Rightarrow> u32" where
  "ld16 m a = ucast (m a) OR push_bit 8 (ucast (m (a + 1)))"

text \<open>The fields that are read, at their offsets.\<close>

record ELF_Header =
  e_magic :: u32
  e_entry :: u32
  e_phoff :: u32
  e_phnum :: u32

definition elf_header :: "memory \<Rightarrow> ptr \<Rightarrow> ELF_Header" where
  "elf_header m p = \<lparr>e_magic = ld32 m p, e_entry = ld32 m (p + 24), e_phoff = ld32 m (p + 28), e_phnum = ld16 m (p + 44)\<rparr>"

record ELF_SectionHeader =
  p_type :: u32
  p_offset :: u32
  p_va :: u32
  p_filesz :: u32
  p_memsz :: u32
  p_flags :: u32

definition elf_section :: "memory \<Rightarrow> ptr \<Rightarrow> ELF_SectionHeader" where
  "elf_section m p = \<lparr>p_type = ld32 m p, p_offset = ld32 m (p + 4), p_va = ld32 m (p + 8), p_filesz = ld32 m (p + 16),
     p_memsz = ld32 m (p + 20), p_flags = ld32 m (p + 24)\<rparr>"

definition load_icode_read :: "('a kproc_scheme) kops \<Rightarrow> int \<Rightarrow> ptr \<Rightarrow> u32 \<Rightarrow> u32 \<Rightarrow> 'a kproc_scheme \<Rightarrow> (int \<times> 'a kproc_scheme) kres" where
  "load_icode_read K fd buf len offset s =
     kbind (sysfile_seek K fd (sint offset) LSEEK_SET s) (\<lambda>(ret, s1).
       if ret \<noteq> 0 then Ret (ret, s1)
       else kbind (sysfile_read K fd buf len s1) (\<lambda>(ret, s2).
         Ret (if of_int ret \<noteq> len then (if ret < 0 then ret else -1) else 0, s2)))"

section \<open>Segments\<close>

definition segment_flags :: "u32 \<Rightarrow> u32" where
  "segment_flags f =
     (if f AND ELF_PF_X \<noteq> 0 then VMM_EXEC else 0) OR (if f AND ELF_PF_W \<noteq> 0 then VMM_WRITE else 0) OR
     (if f AND ELF_PF_R \<noteq> 0 then VMM_READ else 0)"

definition segment_perm :: "u32 \<Rightarrow> u32" where
  "segment_perm vf = PTE_PAGE_USER OR (if vf AND VMM_WRITE \<noteq> 0 then PTE_PAGE_WRITEABLE else 0)"

text \<open>The number of bytes of a page from \<open>off\<close> that lie before \<open>fin\<close>; \<open>la\<close> is the end of the page.\<close>

definition page_part :: "u32 \<Rightarrow> u32 \<Rightarrow> u32 \<Rightarrow> u32" where
  "page_part off fin la = (let sz = PGSIZE - off in if fin < la then sz - (la - fin) else sz)"

text \<open>
  The loop variables are \<^verbatim>\<open>start\<close>, \<^verbatim>\<open>la\<close>, \<^verbatim>\<open>offset\<close> and the last \<^verbatim>\<open>page\<close>.  The loops end with the error (\<open>Inl\<close>) or
  the variables.
\<close>

definition load_file_body ::
    "('a kproc_scheme) kops \<Rightarrow> int \<Rightarrow> ptr \<Rightarrow> u32 \<Rightarrow> u32 \<Rightarrow> u32 \<times> u32 \<times> u32 \<times> nat option \<times> 'a kproc_scheme \<Rightarrow>
     (u32 \<times> u32 \<times> u32 \<times> nat option \<times> 'a kproc_scheme + (int + u32 \<times> u32 \<times> nat option) \<times> 'a kproc_scheme) kres" where
  "load_file_body K fd pgd perm fin = (\<lambda>(start, la, offset, page, s).
     if \<not> start < fin then Ret (Inr (Inr (start, la, page), s))
     else kbind (pgdir_alloc_page pgd la perm s) (\<lambda>(pg, s1).
       case pg of
         None \<Rightarrow> Ret (Inr (Inl (- E_NOMEM), s1))
       | Some pn \<Rightarrow>
           let off = start - la; la' = la + PGSIZE; sz = page_part off fin la'
           in kbind (page2kva pn s1) (\<lambda>kp.
              kbind (load_icode_read K fd (kp + off) sz offset s1) (\<lambda>(ret, s2).
                Ret (if ret \<noteq> 0 then Inr (Inl ret, s2) else Inl (start + sz, la', offset + sz, pg, s2))))))"

definition zero_part :: "nat option \<Rightarrow> u32 \<Rightarrow> u32 \<Rightarrow> 'a kproc_scheme \<Rightarrow> 'a kproc_scheme kres" where
  "zero_part page off sz s =
     (case page of
        None \<Rightarrow> Undef
      | Some pn \<Rightarrow> kbind (page2kva pn s) (\<lambda>kp. Ret (s\<lparr>mem := snd (memset (kp + off) 0 sz (mem s))\<rparr>)))"

definition load_bss_body ::
    "ptr \<Rightarrow> u32 \<Rightarrow> u32 \<Rightarrow> u32 \<times> u32 \<times> nat option \<times> 'a kproc_scheme \<Rightarrow>
     (u32 \<times> u32 \<times> nat option \<times> 'a kproc_scheme + (int + nat option) \<times> 'a kproc_scheme) kres" where
  "load_bss_body pgd perm fin = (\<lambda>(start, la, page, s).
     if \<not> start < fin then Ret (Inr (Inr page, s))
     else kbind (pgdir_alloc_page pgd la perm s) (\<lambda>(pg, s1).
       case pg of
         None \<Rightarrow> Ret (Inr (Inl (- E_NOMEM), s1))
       | Some _ \<Rightarrow>
           let off = start - la; la' = la + PGSIZE; sz = page_part off fin la'
           in kbind (zero_part pg off sz s1) (\<lambda>s2. Ret (Inl (start + sz, la', pg, s2)))))"

text \<open>One \<^verbatim>\<open>PT_LOAD\<close> segment: the area, the bytes of the file, the rest of the last page, the pages of zeros.\<close>

definition load_segment ::
    "('a kproc_scheme) kops \<Rightarrow> int \<Rightarrow> ptr \<Rightarrow> ELF_SectionHeader \<Rightarrow> nat option \<Rightarrow> 'a kproc_scheme \<Rightarrow>
     ((int + nat option) \<times> 'a kproc_scheme) kres" where
  "load_segment K fd mm ph page s =
     (let vf = segment_flags (p_flags ph); perm = segment_perm vf
      in kbind (mm_map mm (p_va ph) (p_memsz ph) vf NULL s) (\<lambda>(ret, s1).
        if ret \<noteq> 0 then Ret (Inl ret, s1)
        else kbind (kwhile (load_file_body K fd (pgdir (mms s1 mm)) perm (p_va ph + p_filesz ph))
                      (p_va ph, ROUNDDOWN (p_va ph) PGSIZE, p_offset ph, page, s1)) (\<lambda>(r, s2).
          case r of
            Inl ret \<Rightarrow> Ret (Inl ret, s2)
          | Inr (start, la, page) \<Rightarrow>
              let fin = p_va ph + p_memsz ph;
                  bss = (\<lambda>start s. kwhile (load_bss_body (pgdir (mms s mm)) perm fin) (start, la, page, s))
              in if start < la
                 then if start = fin then Ret (Inr page, s2)
                      else let off = start + PGSIZE - la; sz = page_part off fin la
                           in kbind (zero_part page off sz s2) (\<lambda>s3. bss (start + sz) s3)
                 else bss start s2)))"

definition load_icode_body ::
    "('a kproc_scheme) kops \<Rightarrow> int \<Rightarrow> ptr \<Rightarrow> ptr \<Rightarrow> ELF_Header \<Rightarrow> u32 \<times> nat option \<times> 'a kproc_scheme \<Rightarrow>
     (u32 \<times> nat option \<times> 'a kproc_scheme + int \<times> 'a kproc_scheme) kres" where
  "load_icode_body K fd mm ph elf = (\<lambda>(phnum, page, s).
     if \<not> phnum < e_phnum elf then Ret (Inr (0, s))
     else kbind (load_icode_read K fd ph sizeof_ELF_SectionHeader_t (e_phoff elf + sizeof_ELF_SectionHeader_t * phnum) s) (\<lambda>(ret, s1).
       let h = elf_section (mem s1) ph
       in if ret \<noteq> 0 then Ret (Inr (ret, s1))
          else if p_type h \<noteq> ELF_PT_LOAD then Ret (Inl (phnum + 1, page, s1))
          else if p_memsz h < p_filesz h then Ret (Inr (- E_INVAL_ELF, s1))
          else if p_filesz h = 0 then Ret (Inl (phnum + 1, page, s1))
          else kbind (load_segment K fd mm h page s1) (\<lambda>(r, s2).
            Ret (case r of Inl ret \<Rightarrow> Inr (ret, s2) | Inr page \<Rightarrow> Inl (phnum + 1, page, s2)))))"

section \<open>The user stack\<close>

text \<open>The loop of \<^verbatim>\<open>strcpy\<close> over virtual addresses.\<close>

definition vstrcpy_body :: "u32 \<times> u32 \<times> 'a ktask_scheme \<Rightarrow> (u32 \<times> u32 \<times> 'a ktask_scheme + 'a ktask_scheme) kres" where
  "vstrcpy_body = (\<lambda>(dest, src, s).
     kbind (kaccess False src s) (\<lambda>(p, s1).
       let b = mem s1 p
       in kbind (kaccess True dest s1) (\<lambda>(q, s2).
            let s3 = s2\<lparr>mem := (mem s2)(q := b)\<rparr>
            in Ret (if b = 0 then Inr s3 else Inl (dest + 1, src + 1, s3)))))"

definition arg_size :: "memory \<Rightarrow> ptr \<Rightarrow> u32" where
  "arg_size m arg = strnlen m arg (EXEC_MAX_ARG_LEN + 1) + 1"

text \<open>
  The strings go to \<open>stacktop + argv_size\<close>, their addresses to \<^verbatim>\<open>uargv\<close>.  As in the source, \<^verbatim>\<open>strcpy\<close> copies
  nothing from or to a null pointer.
\<close>

fun push_args :: "ptr list \<Rightarrow> u32 \<Rightarrow> u32 \<Rightarrow> 'a kproc_scheme \<Rightarrow> 'a kproc_scheme kres" where
  "push_args [] dest uargv s = Ret s"
| "push_args (arg # args) dest uargv s =
     kbind (if arg = NULL \<or> dest = NULL then Ret s else kwhile vstrcpy_body (dest, arg, s)) (\<lambda>s1.
     kbind (vput (bytes32 dest) uargv s1) (\<lambda>s2.
       push_args args (dest + arg_size (mem s2) arg) (uargv + 4) s2))"

definition setup_ustack :: "ptr list \<Rightarrow> 'a kproc_scheme \<Rightarrow> (u32 \<times> 'a kproc_scheme) kres" where
  "setup_ustack kargv s =
     (let argc = of_nat (length kargv);
          argv_size = fold (\<lambda>arg n. n + arg_size (mem s) arg) kargv 0;
          stacktop = USTACK_TOP - (argv_size div 4 + 1) * 4;
          uargv = stacktop - argc * 4
      in kbind (push_args kargv stacktop uargv s) (\<lambda>s1.
           let stacktop = uargv - 4
           in kbind (vput (bytes32 argc) stacktop s1) (\<lambda>s2. Ret (stacktop, s2))))"

section \<open>Loading\<close>

fun alloc_ustack :: "ptr \<Rightarrow> u32 list \<Rightarrow> 'a kproc_scheme \<Rightarrow> 'a kproc_scheme kres" where
  "alloc_ustack pgd [] s = Ret s"
| "alloc_ustack pgd (k # ks) s =
     kbind (pgdir_alloc_page pgd (USTACK_TOP - k * PGSIZE) PTE_USER s) (\<lambda>(pg, s1).
       kassert (pg \<noteq> None) ''pgdir_alloc_page err!'' (alloc_ustack pgd ks s1))"

text \<open>After the segments: the stack, the new address space, the arguments and the frame the task returns through.\<close>

definition load_icode_start :: "ptr \<Rightarrow> ELF_Header \<Rightarrow> ptr list \<Rightarrow> 'a kproc_scheme \<Rightarrow> (int \<times> 'a kproc_scheme) kres" where
  "load_icode_start mm elf kargv s =
     kbind (alloc_ustack (pgdir (mms s mm)) [1, 2, 3, 4] s) (\<lambda>s1.
       let s2 = upd_task (CurrentTask s1) (\<lambda>t. t\<lparr>tmm := mm\<rparr>) (snd (mm_ref_inc mm s1))
       in kbind (kva2pa (pgdir (mms s2 mm))) (\<lambda>pa.
            let s3 = lcr3 pa (upd_task (CurrentTask s2) (\<lambda>t. t\<lparr>tcr3 := pa\<rparr>) s2)
            in kbind (setup_ustack kargv s3) (\<lambda>(stacktop, s4).
                 Ret (0, s4\<lparr>iframes := (iframes s4)(tif (tasks s4 (CurrentTask s4)) :=
                     zero_frame\<lparr>if_cs := USER_CS, if_ds := USER_DS, if_es := USER_DS, if_ss := USER_DS, user_esp := stacktop,
                       if_eip := e_entry elf, if_eflags := FL_IF\<rparr>)\<rparr>))))"

definition load_icode ::
    "('a kproc_scheme) kops \<Rightarrow> ptr \<Rightarrow> ptr \<Rightarrow> int \<Rightarrow> ptr list \<Rightarrow> 'a kproc_scheme \<Rightarrow> (int \<times> 'a kproc_scheme) kres" where
  "load_icode K elfp php fd kargv s =
     (if tmm (tasks s (CurrentTask s)) \<noteq> NULL then Panic ''load_icode: current->mm must be empty.''
      else kbind (mm_create s) (\<lambda>(mm, s1).
        let cleanup_mm = (\<lambda>ret s. kbind (mm_destroy mm s) (\<lambda>s'. Ret (ret, s')));
            cleanup_pgdir = (\<lambda>ret s. kbind (put_pgdir mm s) (cleanup_mm ret));
            cleanup_mmap = (\<lambda>ret s. kbind (exit_mmap mm s) (cleanup_pgdir ret))
        in if mm = NULL then Ret (- E_NOMEM, s1)
           else kbind (setup_pgdir mm s1) (\<lambda>(r, s2).
             if r \<noteq> 0 then cleanup_mm (- E_NOMEM) s2
             else kbind (load_icode_read K fd elfp sizeof_ELF_Header_t 0 s2) (\<lambda>(ret, s3).
               let elf = elf_header (mem s3) elfp
               in if ret \<noteq> 0 then cleanup_pgdir ret s3
                  else if e_magic elf \<noteq> ELF_MAGIC then cleanup_pgdir (- E_INVAL_ELF) s3
                  else kbind (kwhile (load_icode_body K fd mm php elf) (0, None, s3)) (\<lambda>(ret, s4).
                    if ret \<noteq> 0 then cleanup_mmap ret s4
                    else kbind (sysfile_close K fd s4) (\<lambda>(_, s5).
                         kbind (mm_map mm (USTACK_TOP - USTACK_SIZE) USTACK_SIZE (VMM_READ OR VMM_WRITE OR VMM_STACK) NULL s5) (\<lambda>(ret, s6).
                           if ret \<noteq> 0 then cleanup_mmap ret s6 else load_icode_start mm elf kargv s6)))))))"

section \<open>execve\<close>

fun put_kargv :: "ptr list \<Rightarrow> 'a kproc_scheme \<Rightarrow> 'a kproc_scheme kres" where
  "put_kargv [] s = Ret s"
| "put_kargv (arg # args) s = kbind (put_kargv args s) (\<lambda>s1. kfree arg (EXEC_MAX_ARG_LEN + 1) s1)"

text \<open>A pointer read from user memory.\<close>

definition vget32 :: "u32 \<Rightarrow> 'a ktask_scheme \<Rightarrow> (u32 \<times> 'a ktask_scheme) kres" where
  "vget32 a s =
     kbind (kaccess False a s) (\<lambda>(p0, s0). kbind (kaccess False (a + 1) s0) (\<lambda>(p1, s1).
     kbind (kaccess False (a + 2) s1) (\<lambda>(p2, s2). kbind (kaccess False (a + 3) s2) (\<lambda>(p3, s3).
       Ret (ucast (mem s3 p0) OR push_bit 8 (ucast (mem s3 p1)) OR push_bit 16 (ucast (mem s3 p2)) OR push_bit 24 (ucast (mem s3 p3)), s3)))))"

text \<open>The arguments from number \<open>i\<close> on, of which \<open>n\<close> are left; \<open>kargv\<close> are those copied.\<close>

fun copy_kargv_loop :: "ptr \<Rightarrow> nat \<Rightarrow> u32 \<Rightarrow> ptr list \<Rightarrow> 'a kproc_scheme \<Rightarrow> (int \<times> ptr list \<times> 'a kproc_scheme) kres" where
  "copy_kargv_loop mm 0 argv kargv s = Ret (0, kargv, s)"
| "copy_kargv_loop mm (Suc n) argv kargv s =
     kbind (kmalloc (EXEC_MAX_ARG_LEN + 1) s) (\<lambda>(buffer, s1).
       if buffer = NULL then kbind (put_kargv kargv s1) (\<lambda>s2. Ret (- E_NOMEM, kargv, s2))
       else kbind (vget32 argv s1) (\<lambda>(arg, s2).
            kbind (copyLegalStr mm buffer arg (EXEC_MAX_ARG_LEN + 1) s2) (\<lambda>(ok, s3).
              if \<not> ok
              then kbind (kfree buffer (EXEC_MAX_ARG_LEN + 1) s3) (\<lambda>s4. kbind (put_kargv kargv s4) (\<lambda>s5. Ret (- E_INVAL, kargv, s5)))
              else copy_kargv_loop mm n (argv + 4) (kargv @ [buffer]) s3)))"

definition copy_kargv :: "ptr \<Rightarrow> int \<Rightarrow> u32 \<Rightarrow> 'a kproc_scheme \<Rightarrow> (int \<times> ptr list \<times> 'a kproc_scheme) kres" where
  "copy_kargv mm argc argv s =
     kbind (checkUserMem mm argv (4 * of_int argc) False s) (\<lambda>(ok, s1).
       if \<not> ok then Ret (- E_INVAL, [], s1) else copy_kargv_loop mm (nat argc) argv [] s1)"

text \<open>
  \<open>Inr\<close> the result, or \<open>Inl\<close> the state in which the task has been ended by \<^verbatim>\<open>do_exit\<close> and another one runs.
  \<open>loc\<close> is the address of \<^verbatim>\<open>local_name\<close>, a buffer of 32 bytes.
\<close>

definition do_execve ::
    "('a kproc_scheme) kops \<Rightarrow> ptr \<Rightarrow> ptr \<Rightarrow> ptr \<Rightarrow> u32 \<Rightarrow> int \<Rightarrow> u32 \<Rightarrow> 'a kproc_scheme \<Rightarrow>
     ('a kproc_scheme + int \<times> 'a kproc_scheme) kres" where
  "do_execve K loc elfp php name argc argv s =
     (let mm = tmm (tasks s (CurrentTask s))
      in if \<not> (1 \<le> argc \<and> argc \<le> EXEC_MAX_ARG_NUM) then Ret (Inr (- E_INVAL, s))
         else kbind (lock_mm mm (s\<lparr>mem := snd (memset loc 0 32 (mem s))\<rparr>)) (\<lambda>s1.
              kbind (if name = NULL
                     then kbind (strcpy loc (rodata s1 ''null'') (mem s1)) (\<lambda>(_, m). Ret (True, s1\<lparr>mem := m\<rparr>))
                     else copyLegalStr mm loc name 32 s1) (\<lambda>(ok, s2).
                if \<not> ok then kbind (unlock_mm mm s2) (\<lambda>s3. Ret (Inr (- E_INVAL, s3)))
                else kbind (copy_kargv mm argc argv s2) (\<lambda>(ret, kargv, s3).
                  if ret \<noteq> 0 then kbind (unlock_mm mm s3) (\<lambda>s4. Ret (Inr (ret, s4)))
                  else kbind (vget32 argv s3) (\<lambda>(path, s4).
                       kbind (unlock_mm mm s4) (\<lambda>s5.
                       kbind (files_closeall K (tfiles (tasks s5 (CurrentTask s5))) s5) (\<lambda>s6.
                       let exit = (\<lambda>ret s. kbind (put_kargv kargv s) (\<lambda>s'. kbind (do_exit ret s') (\<lambda>s''. Ret (Inl s''))))
                       in kbind (sysfile_open K path OPEN_READ s6) (\<lambda>(fd, s7).
                            if fd < 0 then exit fd s7
                            else kbind (if mm \<noteq> NULL then drop_mm mm s7 else Ret s7) (\<lambda>s8.
                                 kbind (load_icode K elfp php fd kargv s8) (\<lambda>(ret, s9).
                                   if ret \<noteq> 0 then exit ret s9
                                   else kbind (put_kargv kargv s9) (\<lambda>s10.
                                        Ret (Inr (0, setTaskName (CurrentTask s10) (rdbytes (mem s10) loc TASK_NAME_LEN) s10)))))))))))))"

end
