(* ===== verification/Syscall.thy ===== *)
theory Syscall
  imports Exec
begin

text \<open>
  System calls (\<^verbatim>\<open>kern/krnl/syscall.c\<close>) and the common interrupt entry \<^verbatim>\<open>IntrHandlerCall\<close> of \<^verbatim>\<open>kern/krnl/idt.c\<close>.  A
  call either returns a value or leaves another task running (\<open>Inl\<close>).  The addresses of structures on
  the kernel stack and the directory listing \<^verbatim>\<open>ls\<close> of the FAT library are arguments.
\<close>

record 's sys_env =
  loc_name :: ptr
  loc_elf :: ptr
  loc_ph :: ptr
  loc_stat :: ptr
  sys_ls :: "'s \<Rightarrow> 's kres"

section \<open>The calls\<close>

definition sys_exit :: "u32 list \<Rightarrow> 'a kproc_scheme \<Rightarrow> ('a kproc_scheme + int \<times> 'a kproc_scheme) kres" where
  "sys_exit arg s = kbind (do_exit (sint (arg ! 0)) s) (\<lambda>s1. Ret (Inl s1))"

definition sys_fork :: "u32 list \<Rightarrow> 'a kproc_scheme \<Rightarrow> ('a kproc_scheme + int \<times> 'a kproc_scheme) kres" where
  "sys_fork arg s =
     (let tf = iframes s (tif (tasks s (CurrentTask s))) in kbind (do_fork 0 (user_esp tf) tf s) (\<lambda>r. Ret (Inr r)))"

definition sys_wait :: "u32 list \<Rightarrow> 'a kproc_scheme \<Rightarrow> ('a kproc_scheme + int \<times> 'a kproc_scheme) kres" where
  "sys_wait arg s = do_wait_enter (sint (arg ! 0)) (arg ! 1) s"

definition sys_exec :: "('a kproc_scheme) kops \<Rightarrow> ('a kproc_scheme) sys_env \<Rightarrow> u32 list \<Rightarrow> 'a kproc_scheme \<Rightarrow> ('a kproc_scheme + int \<times> 'a kproc_scheme) kres" where
  "sys_exec K E arg s = do_execve K (loc_name E) (loc_elf E) (loc_ph E) (arg ! 0) (sint (arg ! 1)) (arg ! 2) s"

definition sys_getpid :: "u32 list \<Rightarrow> 'a kproc_scheme \<Rightarrow> ('a kproc_scheme + int \<times> 'a kproc_scheme) kres" where
  "sys_getpid arg s = Ret (Inr (tid (tasks s (CurrentTask s)), s))"

definition sys_putc :: "u32 list \<Rightarrow> 'a kproc_scheme \<Rightarrow> ('a kproc_scheme + int \<times> 'a kproc_scheme) kres" where
  "sys_putc arg s = Ret (Inr (0, s\<lparr>con := consolePutc (ucast (arg ! 0)) (con s)\<rparr>))"

definition sys_open :: "('a kproc_scheme) kops \<Rightarrow> u32 list \<Rightarrow> 'a kproc_scheme \<Rightarrow> ('a kproc_scheme + int \<times> 'a kproc_scheme) kres" where
  "sys_open K arg s = kbind (sysfile_open K (arg ! 0) (arg ! 1) s) (\<lambda>r. Ret (Inr r))"

definition sys_close :: "('a kproc_scheme) kops \<Rightarrow> u32 list \<Rightarrow> 'a kproc_scheme \<Rightarrow> ('a kproc_scheme + int \<times> 'a kproc_scheme) kres" where
  "sys_close K arg s = kbind (sysfile_close K (sint (arg ! 0)) s) (\<lambda>r. Ret (Inr r))"

definition sys_read :: "('a kproc_scheme) kops \<Rightarrow> u32 list \<Rightarrow> 'a kproc_scheme \<Rightarrow> ('a kproc_scheme + int \<times> 'a kproc_scheme) kres" where
  "sys_read K arg s = kbind (sysfile_read K (sint (arg ! 0)) (arg ! 1) (arg ! 2) s) (\<lambda>r. Ret (Inr r))"

definition sys_write :: "('a kproc_scheme) kops \<Rightarrow> u32 list \<Rightarrow> 'a kproc_scheme \<Rightarrow> ('a kproc_scheme + int \<times> 'a kproc_scheme) kres" where
  "sys_write K arg s = kbind (sysfile_write K (sint (arg ! 0)) (arg ! 1) (arg ! 2) s) (\<lambda>r. Ret (Inr r))"

definition sys_seek :: "('a kproc_scheme) kops \<Rightarrow> u32 list \<Rightarrow> 'a kproc_scheme \<Rightarrow> ('a kproc_scheme + int \<times> 'a kproc_scheme) kres" where
  "sys_seek K arg s = kbind (sysfile_seek K (sint (arg ! 0)) (sint (arg ! 1)) (arg ! 2) s) (\<lambda>r. Ret (Inr r))"

definition sys_fstat :: "('a kproc_scheme) kops \<Rightarrow> ('a kproc_scheme) sys_env \<Rightarrow> u32 list \<Rightarrow> 'a kproc_scheme \<Rightarrow> ('a kproc_scheme + int \<times> 'a kproc_scheme) kres" where
  "sys_fstat K E arg s = kbind (sysfile_fstat K (loc_stat E) (sint (arg ! 0)) (arg ! 1) s) (\<lambda>r. Ret (Inr r))"

definition sys_fsync :: "('a kproc_scheme) kops \<Rightarrow> u32 list \<Rightarrow> 'a kproc_scheme \<Rightarrow> ('a kproc_scheme + int \<times> 'a kproc_scheme) kres" where
  "sys_fsync K arg s = kbind (sysfile_fsync K (sint (arg ! 0)) s) (\<lambda>r. Ret (Inr r))"

definition sys_temp_ls :: "('a kproc_scheme) sys_env \<Rightarrow> u32 list \<Rightarrow> 'a kproc_scheme \<Rightarrow> ('a kproc_scheme + int \<times> 'a kproc_scheme) kres" where
  "sys_temp_ls E arg s = kbind (sys_ls E s) (\<lambda>s1. Ret (Inr (0, s1)))"

section \<open>Dispatch\<close>

text \<open>The table: \<open>None\<close> for the numbers without an entry.\<close>

definition syscalls ::
    "('a kproc_scheme) kops \<Rightarrow> ('a kproc_scheme) sys_env \<Rightarrow>
     (int \<times> (u32 list \<Rightarrow> 'a kproc_scheme \<Rightarrow> ('a kproc_scheme + int \<times> 'a kproc_scheme) kres)) list" where
  "syscalls K E =
     [(1, sys_exit), (2, sys_fork), (3, sys_wait), (4, sys_exec K E), (18, sys_getpid), (30, sys_putc), (100, sys_open K),
      (101, sys_close K), (102, sys_read K), (103, sys_write K), (104, sys_seek K), (110, sys_fstat K E), (111, sys_fsync K),
      (255, sys_temp_ls E)]"

text \<open>The result, also that of a call which has to wait first, goes to \<^verbatim>\<open>eax\<close> of the frame.\<close>

definition syscall_return :: "ptr \<Rightarrow> ('a kproc_scheme + int \<times> 'a kproc_scheme) \<Rightarrow> 'a kproc_scheme + 'a kproc_scheme" where
  "syscall_return tf r =
     (case r of
        Inl s \<Rightarrow> Inl s
      | Inr (ret, s) \<Rightarrow> Inr (s\<lparr>iframes := (iframes s)(tf := (iframes s tf)\<lparr>if_eax := of_int ret\<rparr>)\<rparr>))"

definition syscall :: "('a kproc_scheme) kops \<Rightarrow> ('a kproc_scheme) sys_env \<Rightarrow> 'a kproc_scheme \<Rightarrow> ('a kproc_scheme + 'a kproc_scheme) kres" where
  "syscall K E s =
     (let tf = tif (tasks s (CurrentTask s)); fr = iframes s tf
      in case map_of (syscalls K E) (sint (if_eax fr)) of
           None \<Rightarrow> Ret (Inr s)
         | Some f \<Rightarrow> kbind (f [if_edx fr, if_ecx fr, if_ebx fr, if_edi fr, if_esi fr] s) (\<lambda>r. Ret (syscall_return tf r)))"

section \<open>Interrupts\<close>

text \<open>
  \<open>handler\<close> is the handler registered for the number of the interrupt, \<open>\<lambda>s. Ret (Inr s)\<close> when there is none; the
  acknowledgements to the interrupt controllers are left out.  The second half runs when the handler has returned.
\<close>

definition intr_return :: "ptr \<Rightarrow> bool \<Rightarrow> 'a kproc_scheme \<Rightarrow> 'a kproc_scheme kres" where
  "intr_return old_if in_kernel s =
     (let s1 = upd_task (CurrentTask s) (\<lambda>t. t\<lparr>tif := old_if\<rparr>) s
      in if in_kernel then Ret s1
         else if tflags (tasks s1 (CurrentTask s1)) AND PF_EXITING \<noteq> 0 then do_exit (- E_KILLED) s1
         else if need_resched (tasks s1 (CurrentTask s1)) then schedule s1
         else Ret s1)"

definition IntrHandlerCall ::
    "('a kproc_scheme \<Rightarrow> ('a kproc_scheme + 'a kproc_scheme) kres) \<Rightarrow> ptr \<Rightarrow> 'a kproc_scheme \<Rightarrow> 'a kproc_scheme kres" where
  "IntrHandlerCall handler fr s =
     (if CurrentTask s = NULL then kbind (handler s) (\<lambda>r. Ret (case r of Inl s1 \<Rightarrow> s1 | Inr s1 \<Rightarrow> s1))
      else let old_if = tif (tasks s (CurrentTask s));
               s1 = upd_task (CurrentTask s) (\<lambda>t. t\<lparr>tif := fr\<rparr>) s;
               in_kernel = (if_cs (iframes s1 fr) = KERNEL_CS)
           in kbind (handler s1) (\<lambda>r. case r of Inl s2 \<Rightarrow> Ret s2 | Inr s2 \<Rightarrow> intr_return old_if in_kernel s2))"

end
