(* ===== verification/Kbd.thy ===== *)
theory Kbd
  imports Stdio_Correct
begin

text \<open>
  The keyboard driver, \<^verbatim>\<open>kern/driver/kbd.c\<close> with the tables of \<^verbatim>\<open>kern/include/kbd.h\<close>: scan codes are translated under
  the state of the modifier keys and go through a ring buffer of 512 characters to standard
  input.  The controller's pending scan codes are part of the state.  Programming of the interrupt controller is left out.
\<close>

abbreviation (input) KBD_BUFF_LEN :: u32 where "KBD_BUFF_LEN \<equiv> 512"
abbreviation (input) SHIFT :: u32 where "SHIFT \<equiv> 1"
abbreviation (input) CTL :: u32 where "CTL \<equiv> 2"
abbreviation (input) ALT :: u32 where "ALT \<equiv> 4"
abbreviation (input) CAPSLOCK :: u32 where "CAPSLOCK \<equiv> 8"
abbreviation (input) NUMLOCK :: u32 where "NUMLOCK \<equiv> 16"
abbreviation (input) SCROLLLOCK :: u32 where "SCROLLLOCK \<equiv> 32"
abbreviation (input) E0ESC :: u32 where "E0ESC \<equiv> 64"
abbreviation (input) KEY_DEL :: u32 where "KEY_DEL \<equiv> 0xE9"
abbreviation (input) sizeof_KeyBoardBuffer_t :: u32 where "sizeof_KeyBoardBuffer_t \<equiv> 520"

text \<open>
  \<open>kb_pending\<close>: the scan codes the controller holds; \<open>kb_shift\<close>: the static variable \<^verbatim>\<open>shift\<close>; \<open>kb_reset\<close>: the reset
  line has been pulled.  The characters of \<^verbatim>\<open>KBDbuffer\<close> are bytes in memory.
\<close>

record kkbd = kfs +
  kb_pending :: "u8 list"
  kb_shift :: u32
  kb_reset :: bool
  KBDbuffer :: ptr
  kb_rpos :: u32
  kb_wpos :: u32

section \<open>Tables\<close>

definition shiftcode :: "u32 \<Rightarrow> u32" where
  "shiftcode d = (if d = 0x1D then CTL else if d = 0x2A then SHIFT else if d = 0x36 then SHIFT else if d = 0x38 then ALT
     else if d = 0x9D then CTL else if d = 0xB8 then ALT else 0)"

definition togglecode :: "u32 \<Rightarrow> u32" where
  "togglecode d = (if d = 0x3A then CAPSLOCK else if d = 0x45 then NUMLOCK else if d = 0x46 then SCROLLLOCK else 0)"

text \<open>A table by its first entries and by those with a designated index; the others are 0.\<close>

definition keymap :: "u32 list \<Rightarrow> (u32 \<times> u32) list \<Rightarrow> u32 \<Rightarrow> u32" where
  "keymap xs ys d = (if unat d < length xs then xs ! unat d else case map_of ys d of Some c \<Rightarrow> c | None \<Rightarrow> 0)"

definition normalmap :: "u32 \<Rightarrow> u32" where
  "normalmap = keymap
    [0, 27, 49, 50, 51, 52, 53, 54, 55, 56, 57, 48, 45, 61, 8, 9,
     113, 119, 101, 114, 116, 121, 117, 105, 111, 112, 91, 93, 10, 0, 97, 115,
     100, 102, 103, 104, 106, 107, 108, 59, 39, 96, 0, 92, 122, 120, 99, 118,
     98, 110, 109, 44, 46, 47, 0, 42, 0, 32, 0, 0, 0, 0, 0, 0,
     0, 0, 0, 0, 0, 0, 0, 55, 56, 57, 45, 52, 53, 54, 43, 49,
     50, 51, 48, 46]
    [(0x97, 224), (0x9C, 10), (0xB5, 47), (0xC8, 226), (0xC9, 230), (0xCB, 228), (0xCD, 229), (0xCF, 225), (0xD0, 227), (0xD1, 231), (0xD2, 232), (0xD3, 233)]"

definition shiftmap :: "u32 \<Rightarrow> u32" where
  "shiftmap = keymap
    [0, 27, 33, 64, 35, 36, 37, 94, 38, 42, 40, 41, 95, 43, 8, 9,
     81, 87, 69, 82, 84, 89, 85, 73, 79, 80, 123, 125, 10, 0, 65, 83,
     68, 70, 71, 72, 74, 75, 76, 58, 34, 126, 0, 124, 90, 88, 67, 86,
     66, 78, 77, 60, 62, 63, 0, 42, 0, 32, 0, 0, 0, 0, 0, 0,
     0, 0, 0, 0, 0, 0, 0, 55, 56, 57, 45, 52, 53, 54, 43, 49,
     50, 51, 48, 46]
    [(0x97, 224), (0x9C, 10), (0xB5, 47), (0xC8, 226), (0xC9, 230), (0xCB, 228), (0xCD, 229), (0xCF, 225), (0xD0, 227), (0xD1, 231), (0xD2, 232), (0xD3, 233)]"

definition ctlmap :: "u32 \<Rightarrow> u32" where
  "ctlmap = keymap
    [0, 0, 0, 0, 0, 0, 0, 0, 0, 0, 0, 0, 0, 0, 0, 0,
     17, 23, 5, 18, 20, 25, 21, 9, 15, 16, 0, 0, 13, 0, 1, 19,
     4, 6, 7, 8, 10, 11, 12, 0, 0, 0, 0, 28, 26, 24, 3, 22,
     2, 14, 13, 0, 0, 239]
    [(0x97, 224), (0x9C, 13), (0xB5, 239), (0xC8, 226), (0xC9, 230), (0xCB, 228), (0xCD, 229), (0xCF, 225), (0xD0, 227), (0xD1, 231), (0xD2, 232), (0xD3, 233)]"

section \<open>Translation\<close>

definition charcode :: "u32 \<Rightarrow> u32 \<Rightarrow> u32" where
  "charcode i = (if i = 0 then normalmap else if i = 1 then shiftmap else ctlmap)"

definition kbd_case :: "u32 \<Rightarrow> u32 \<Rightarrow> u32" where
  "kbd_case shift c =
     (if shift AND CAPSLOCK \<noteq> 0
      then if 97 \<le> c \<and> c \<le> 122 then c - 32 else if 65 \<le> c \<and> c \<le> 90 then c + 32 else c
      else c)"

text \<open>The case of a pressed key: the new \<^verbatim>\<open>shift\<close> and the character.\<close>

definition kbd_press :: "u32 \<Rightarrow> u32 \<Rightarrow> u32 \<times> u32" where
  "kbd_press shift data =
     (let shift' = (shift OR shiftcode data) XOR togglecode data
      in (shift', kbd_case shift' (charcode (shift' AND (CTL OR SHIFT)) data)))"

definition kbdGetChar :: "'a kkbd_scheme \<Rightarrow> int \<times> 'a kkbd_scheme" where
  "kbdGetChar s =
     (case kb_pending s of
        [] \<Rightarrow> (-1, s)
      | code # rest \<Rightarrow>
          let data = ucast code; shift = kb_shift s; s1 = s\<lparr>kb_pending := rest\<rparr>
          in if data = 0xE0 then (0, s1\<lparr>kb_shift := shift OR E0ESC\<rparr>)
             else if data AND 0x80 \<noteq> 0
             then let data' = (if shift AND E0ESC \<noteq> 0 then data else data AND 0x7F)
                  in (0, s1\<lparr>kb_shift := shift AND NOT (shiftcode data' OR E0ESC)\<rparr>)
             else let (data', shift0) = (if shift AND E0ESC \<noteq> 0 then (data OR 0x80, shift AND NOT E0ESC) else (data, shift));
                      (shift', c) = kbd_press shift0 data';
                      s2 = s1\<lparr>kb_shift := shift'\<rparr>
                  in (uint c, if NOT shift' AND (CTL OR ALT) = 0 \<and> c = KEY_DEL then s2\<lparr>kb_reset := True\<rparr> else s2))"

lemma kbdGetChar_consumes: "fst (kbdGetChar s) \<noteq> -1 \<Longrightarrow> length (kb_pending (snd (kbdGetChar s))) < length (kb_pending s)"
  by (auto simp: kbdGetChar_def Let_def split: list.splits prod.splits if_splits)

section \<open>The ring buffer\<close>

definition kbd_put :: "int \<Rightarrow> 'a kkbd_scheme \<Rightarrow> 'a kkbd_scheme" where
  "kbd_put c s =
     (let w = kb_wpos s + 1; s1 = s\<lparr>mem := (mem s)(KBDbuffer s + kb_wpos s := of_int c)\<rparr>
      in s1\<lparr>kb_wpos := if KBD_BUFF_LEN \<le> w then 0 else w\<rparr>)"

function kbdPutChar2Buffer :: "'a kkbd_scheme \<Rightarrow> 'a kkbd_scheme" where
  "kbdPutChar2Buffer s =
     (if fst (kbdGetChar s) = -1 then snd (kbdGetChar s)
      else kbdPutChar2Buffer
        (if fst (kbdGetChar s) \<noteq> 0 then kbd_put (fst (kbdGetChar s)) (snd (kbdGetChar s)) else snd (kbdGetChar s)))"
  by pat_completeness auto
termination
  by (relation "measure (\<lambda>s. length (kb_pending s))") (auto simp: kbd_put_def Let_def dest: kbdGetChar_consumes)

declare kbdPutChar2Buffer.simps [simp del]

definition kbdGetCharFromBuffer :: "'a kkbd_scheme \<Rightarrow> int \<times> 'a kkbd_scheme" where
  "kbdGetCharFromBuffer s =
     (let s1 = kbdPutChar2Buffer s
      in if kb_rpos s1 \<noteq> kb_wpos s1
         then let r = kb_rpos s1 + 1
              in (uint (mem s1 (KBDbuffer s1 + kb_rpos s1)), s1\<lparr>kb_rpos := if KBD_BUFF_LEN \<le> r then 0 else r\<rparr>)
         else (0, s1))"

definition kbdIntrCallBack :: "'a kkbd_scheme \<Rightarrow> 'a kkbd_scheme kres" where
  "kbdIntrCallBack s = (let (c, s1) = kbdGetCharFromBuffer s in stdin_do_write (of_int c) s1)"

definition initKBD :: "'a kkbd_scheme \<Rightarrow> 'a kkbd_scheme kres" where
  "initKBD s =
     kbind (kmalloc sizeof_KeyBoardBuffer_t s) (\<lambda>(b, s1).
       if b = NULL then Panic ''kbd buffer kmalloc error!''
       else Ret (s1\<lparr>KBDbuffer := b, kb_rpos := 0, kb_wpos := 0\<rparr>))"

section \<open>Correctness\<close>

text \<open>
  The keyboard as its user sees it: which modifier keys are held, which locks are on, and whether the prefix of an extended key has been sent.  A key is
  numbered by its code, with 128 added for an extended key.
\<close>

record mods =
  m_shift :: bool
  m_ctl :: bool
  m_alt :: bool
  m_caps :: bool
  m_num :: bool
  m_scroll :: bool
  m_ext :: bool

definition key_down :: "u32 \<Rightarrow> mods \<Rightarrow> mods" where
  "key_down k M = M\<lparr>m_shift := m_shift M \<or> k \<in> {0x2A, 0x36}, m_ctl := m_ctl M \<or> k \<in> {0x1D, 0x9D}, m_alt := m_alt M \<or> k \<in> {0x38, 0xB8},
     m_caps := (m_caps M \<noteq> (k = 0x3A)), m_num := (m_num M \<noteq> (k = 0x45)), m_scroll := (m_scroll M \<noteq> (k = 0x46))\<rparr>"

definition key_up :: "u32 \<Rightarrow> mods \<Rightarrow> mods" where
  "key_up k M = M\<lparr>m_shift := m_shift M \<and> k \<notin> {0x2A, 0x36}, m_ctl := m_ctl M \<and> k \<notin> {0x1D, 0x9D}, m_alt := m_alt M \<and> k \<notin> {0x38, 0xB8}\<rparr>"

definition swap_case :: "u32 \<Rightarrow> u32" where
  "swap_case c = (if c \<in> {97..122} then c - 32 else if c \<in> {65..90} then c + 32 else c)"

text \<open>The character of a key, from the table for the modifiers held; the caps lock exchanges upper and lower case.\<close>

definition typed :: "mods \<Rightarrow> u32 \<Rightarrow> u32" where
  "typed M k = (let c = (if m_ctl M then ctlmap else if m_shift M then shiftmap else normalmap) k in if m_caps M then swap_case c else c)"

text \<open>One code: the new state, the character (0 for none), and whether Ctrl-Alt-Del was pressed.\<close>

definition key_event :: "mods \<Rightarrow> u8 \<Rightarrow> mods \<times> u8 \<times> bool" where
  "key_event M code =
     (if code = 0xE0 then (M\<lparr>m_ext := True\<rparr>, 0, False)
      else let k = of_nat (unat code mod 128 + (if m_ext M then 128 else 0)); M1 = M\<lparr>m_ext := False\<rparr>
           in if 128 \<le> unat code then (key_up k M1, 0, False)
              else let M2 = key_down k M1 in (M2, ucast (typed M2 k), m_ctl M2 \<and> m_alt M2 \<and> typed M2 k = KEY_DEL))"

fun type_keys :: "mods \<Rightarrow> u8 list \<Rightarrow> mods \<times> u8 list \<times> bool" where
  "type_keys M [] = (M, [], False)"
| "type_keys M (code # codes) =
     (let (M1, c, r) = key_event M code; (M2, cs, r') = type_keys M1 codes in (M2, if c \<noteq> 0 then c # cs else cs, r \<or> r'))"

text \<open>The variable \<^verbatim>\<open>shift\<close> has a bit for each of them.\<close>

definition mods_of :: "u32 \<Rightarrow> mods" where
  "mods_of w = \<lparr>m_shift = bit w 0, m_ctl = bit w 1, m_alt = bit w 2, m_caps = bit w 3, m_num = bit w 4, m_scroll = bit w 5, m_ext = bit w 6\<rparr>"

definition kbd_inv :: "'a kkbd_scheme \<Rightarrow> bool" where
  "kbd_inv s \<longleftrightarrow> kb_rpos s < KBD_BUFF_LEN \<and> kb_wpos s < KBD_BUFF_LEN"

definition kbd_slot :: "'a kkbd_scheme \<Rightarrow> nat \<Rightarrow> ptr" where
  "kbd_slot s k = KBDbuffer s + of_nat ((unat (kb_rpos s) + k) mod 512)"

definition kbd_len :: "'a kkbd_scheme \<Rightarrow> nat" where
  "kbd_len s = (unat (kb_wpos s) + 512 - unat (kb_rpos s)) mod 512"

definition kbd_queue :: "'a kkbd_scheme \<Rightarrow> u8 list" where
  "kbd_queue s = map (\<lambda>k. mem s (kbd_slot s k)) [0..<kbd_len s]"

subsection \<open>The tables\<close>

lemma keymap_le:
  assumes "\<forall>x \<in> set xs. x \<le> 255" "\<forall>x \<in> snd ` set ys. x \<le> 255"
  shows "keymap xs ys d \<le> 255"
proof (cases "unat d < length xs")
  case True
  then show ?thesis using assms(1) nth_mem [OF True] by (simp add: keymap_def)
next
  case False
  show ?thesis
  proof (cases "map_of ys d")
    case (Some c)
    then show ?thesis using assms(2) False map_of_SomeD [OF Some] by (force simp: keymap_def)
  qed (use False in \<open>simp add: keymap_def\<close>)
qed

lemma charcode_le: "charcode i d \<le> 255"
  unfolding charcode_def normalmap_def shiftmap_def ctlmap_def
  by (auto intro!: keymap_le)

lemma kbd_press_le: "snd (kbd_press sh d) \<le> 255"
proof -
  have "kbd_case a c \<le> 255" if "c \<le> 255" for a c
    using that unfolding kbd_case_def by unat_arith
  then show ?thesis using charcode_le by (simp add: kbd_press_def Let_def)
qed

lemma bit_u32_exp:
  "bit (1 :: u32) n \<longleftrightarrow> n = 0" "bit (2 :: u32) n \<longleftrightarrow> n = 1" "bit (4 :: u32) n \<longleftrightarrow> n = 2" "bit (8 :: u32) n \<longleftrightarrow> n = 3"
  "bit (16 :: u32) n \<longleftrightarrow> n = 4" "bit (32 :: u32) n \<longleftrightarrow> n = 5" "bit (64 :: u32) n \<longleftrightarrow> n = 6"
proof -
  have e: "bit (2 ^ k :: u32) n \<longleftrightarrow> n = k" if "k < 32" for k using that by (auto simp: bit_exp_iff possible_bit_word)
  show "bit (1 :: u32) n \<longleftrightarrow> n = 0" using e [of 0] by simp
  show "bit (2 :: u32) n \<longleftrightarrow> n = 1" using e [of 1] by simp
  show "bit (4 :: u32) n \<longleftrightarrow> n = 2" using e [of 2] by simp
  show "bit (8 :: u32) n \<longleftrightarrow> n = 3" using e [of 3] by simp
  show "bit (16 :: u32) n \<longleftrightarrow> n = 4" using e [of 4] by simp
  show "bit (32 :: u32) n \<longleftrightarrow> n = 5" using e [of 5] by simp
  show "bit (64 :: u32) n \<longleftrightarrow> n = 6" using e [of 6] by simp
qed

lemma bit_codes:
  "bit (shiftcode d) n \<longleftrightarrow> n = 0 \<and> d \<in> {0x2A, 0x36} \<or> n = 1 \<and> d \<in> {0x1D, 0x9D} \<or> n = 2 \<and> d \<in> {0x38, 0xB8}"
  "bit (togglecode d) n \<longleftrightarrow> n = 3 \<and> d = 0x3A \<or> n = 4 \<and> d = 0x45 \<or> n = 5 \<and> d = 0x46"
proof -
  have z: "\<not> bit (0 :: u32) n" by simp
  show "bit (shiftcode d) n \<longleftrightarrow> n = 0 \<and> d \<in> {0x2A, 0x36} \<or> n = 1 \<and> d \<in> {0x1D, 0x9D} \<or> n = 2 \<and> d \<in> {0x38, 0xB8}"
    unfolding shiftcode_def if_distrib [of "\<lambda>x. bit x n"] bit_u32_exp insert_iff empty_iff using z by auto
  show "bit (togglecode d) n \<longleftrightarrow> n = 3 \<and> d = 0x3A \<or> n = 4 \<and> d = 0x45 \<or> n = 5 \<and> d = 0x46"
    unfolding togglecode_def if_distrib [of "\<lambda>x. bit x n"] bit_u32_exp using z by auto
qed

lemma mask_bits:
  fixes x :: u32
  shows "x AND 8 \<noteq> 0 \<longleftrightarrow> bit x 3" "x AND 64 \<noteq> 0 \<longleftrightarrow> bit x 6"
    "x AND (CTL OR SHIFT) = (if bit x 1 then 2 else 0) + (if bit x 0 then 1 else 0)"
    "NOT x AND (CTL OR ALT) = 0 \<longleftrightarrow> bit x 1 \<and> bit x 2"
proof -
  show "x AND 8 \<noteq> 0 \<longleftrightarrow> bit x 3" using and_exp_eq_0_iff_not_bit [of x 3] by simp
  show "x AND 64 \<noteq> 0 \<longleftrightarrow> bit x 6" using and_exp_eq_0_iff_not_bit [of x 6] by simp
  have a: "y AND 1 = (if bit y 0 then 1 else 0)" "y AND 2 = (if bit y 1 then 2 else 0)" "y AND 4 = (if bit y 2 then 4 else 0)" for y :: u32
    by (rule bit_eqI; unfold bit_and_iff bit_u32_exp if_distrib [of "\<lambda>x. bit x _"]; metis bit_0_eq bot_apply bot_bool_def)+
  have "x AND (CTL OR SHIFT) = (x AND 2) OR (x AND 1)" by (simp only: bit.conj_disj_distrib)
  then show "x AND (CTL OR SHIFT) = (if bit x 1 then 2 else 0) + (if bit x 0 then 1 else 0)" unfolding a by simp
  have "NOT x AND (CTL OR ALT) = (NOT x AND 2) OR (NOT x AND 4)" by (simp only: bit.conj_disj_distrib)
  then show "NOT x AND (CTL OR ALT) = 0 \<longleftrightarrow> bit x 1 \<and> bit x 2" unfolding a by (simp add: bit_not_iff_eq possible_bit_word)
qed

lemma kbd_press_spec:
  "kbd_press w k = (sh, c) \<Longrightarrow> mods_of sh = key_down k (mods_of w) \<and> c = typed (mods_of sh) k"
proof -
  assume "kbd_press w k = (sh, c)"
  then have sh: "sh = (w OR shiftcode k) XOR togglecode k" and c: "c = kbd_case sh (charcode (sh AND (CTL OR SHIFT)) k)"
    unfolding kbd_press_def Let_def prod.inject by (metis)+
  have m: "mods_of sh = key_down k (mods_of w)" unfolding sh mods_of_def key_down_def bit_xor_iff bit_or_iff bit_codes by simp
  have ch: "charcode (sh AND (CTL OR SHIFT)) = (if bit sh 1 then ctlmap else if bit sh 0 then shiftmap else normalmap)"
    unfolding mask_bits charcode_def by simp
  have "c = typed (mods_of sh) k" unfolding c ch unfolding kbd_case_def mask_bits typed_def mods_of_def swap_case_def Let_def mods.simps atLeastAtMost_iff ..
  with m show ?thesis ..
qed

text \<open>The index of a key in the tables.\<close>

lemma key_index:
  fixes code :: u8
  shows "(ucast code :: u32) AND 0x80 \<noteq> 0 \<longleftrightarrow> 128 \<le> unat code" "(ucast code :: u32) AND 0x7F = of_nat (unat code mod 128)"
    "unat code < 128 \<Longrightarrow> (ucast code :: u32) OR 0x80 = of_nat (unat code mod 128 + 128)"
    "128 \<le> unat code \<Longrightarrow> (ucast code :: u32) = of_nat (unat code mod 128 + 128)" "unat code < 128 \<Longrightarrow> (ucast code :: u32) = of_nat (unat code mod 128)"
    "(ucast code :: u32) = 0xE0 \<longleftrightarrow> code = 0xE0"
proof -
  have "list_all (\<lambda>n. let x = of_nat n :: u32; y = of_nat n :: u8 in (x AND 0x80 \<noteq> 0 \<longleftrightarrow> 128 \<le> n) \<and> x AND 0x7F = of_nat (n mod 128) \<and>
      (n < 128 \<longrightarrow> x OR 0x80 = of_nat (n mod 128 + 128)) \<and> (128 \<le> n \<longrightarrow> x = of_nat (n mod 128 + 128)) \<and> (n < 128 \<longrightarrow> x = of_nat (n mod 128)) \<and>
      (x = 0xE0 \<longleftrightarrow> y = 0xE0)) [0..<256]"
    by code_simp
  moreover have "unat code \<in> set [0..<256]" using unsigned_less [of code, where 'a = nat] by (simp del: upt_rec_numeral)
  moreover have "ucast code = (of_nat (unat code) :: u32)" "code = of_nat (unat code)" by simp_all
  ultimately show "(ucast code :: u32) AND 0x80 \<noteq> 0 \<longleftrightarrow> 128 \<le> unat code" "(ucast code :: u32) AND 0x7F = of_nat (unat code mod 128)"
    "unat code < 128 \<Longrightarrow> (ucast code :: u32) OR 0x80 = of_nat (unat code mod 128 + 128)"
    "128 \<le> unat code \<Longrightarrow> (ucast code :: u32) = of_nat (unat code mod 128 + 128)" "unat code < 128 \<Longrightarrow> (ucast code :: u32) = of_nat (unat code mod 128)"
    "(ucast code :: u32) = 0xE0 \<longleftrightarrow> code = 0xE0"
    unfolding list_all_iff Let_def by metis+
qed

lemma mods_of_ext:
  "mods_of (w OR E0ESC) = (mods_of w)\<lparr>m_ext := True\<rparr>" "mods_of (w AND NOT E0ESC) = (mods_of w)\<lparr>m_ext := False\<rparr>"
  "mods_of (w AND NOT (shiftcode k OR E0ESC)) = key_up k ((mods_of w)\<lparr>m_ext := False\<rparr>)" "\<not> bit w 6 \<Longrightarrow> (mods_of w)\<lparr>m_ext := False\<rparr> = mods_of w"
proof -
  show "mods_of (w OR E0ESC) = (mods_of w)\<lparr>m_ext := True\<rparr>" "mods_of (w AND NOT E0ESC) = (mods_of w)\<lparr>m_ext := False\<rparr>"
    "mods_of (w AND NOT (shiftcode k OR E0ESC)) = key_up k ((mods_of w)\<lparr>m_ext := False\<rparr>)" "\<not> bit w 6 \<Longrightarrow> (mods_of w)\<lparr>m_ext := False\<rparr> = mods_of w"
    unfolding mods_of_def key_up_def bit_or_iff bit_and_iff bit_not_iff_eq possible_bit_word bit_codes bit_u32_exp by simp_all
qed

lemma kbdGetChar_event:
  assumes p: "kb_pending s = code # rest" and ev: "key_event (mods_of (kb_shift s)) code = (M, c, r)"
  shows "\<exists>sh. mods_of sh = M \<and> kbdGetChar s = (uint c, s\<lparr>kb_pending := rest, kb_shift := sh, kb_reset := kb_reset s \<or> r\<rparr>)"
proof -
  let ?w = "kb_shift s" and ?d = "ucast code :: u32"
  define k :: u32 where "k = of_nat (unat code mod 128 + (if m_ext (mods_of ?w) then 128 else 0))"
  have ext: "m_ext (mods_of ?w) = bit ?w 6" by (simp add: mods_of_def)
  have u: "uint (ucast x :: u8) = uint x" if "x \<le> 255" for x :: u32
  proof -
    have "uint x \<le> 255" using that by (simp add: word_le_def)
    then have "take_bit 8 (uint x) = uint x" by (intro take_bit_int_eq_self) simp_all
    then show ?thesis by (simp only: unsigned_ucast_eq) simp
  qed
  have id: "s\<lparr>kb_pending := rest, kb_shift := x\<rparr> = s\<lparr>kb_pending := rest, kb_shift := x, kb_reset := kb_reset s\<rparr>" for x by simp
  consider (ext) "code = 0xE0" | (up) "code \<noteq> 0xE0" "128 \<le> unat code" | (down) "code \<noteq> 0xE0" "unat code < 128" by linarith
  then show ?thesis
  proof cases
    case ext
    then have "M = (mods_of ?w)\<lparr>m_ext := True\<rparr>" "c = 0" "\<not> r" using ev by (simp_all add: key_event_def)
    then show ?thesis using ext p by (intro exI [of _ "?w OR E0ESC"]) (simp add: kbdGetChar_def key_index Let_def mods_of_ext)
  next
    case up
    then have ev': "M = key_up k ((mods_of ?w)\<lparr>m_ext := False\<rparr>)" "c = 0" "\<not> r" using ev by (simp_all add: key_event_def Let_def k_def)
    have "(if ?w AND E0ESC \<noteq> 0 then ?d else ?d AND 0x7F) = k"
      using up key_index(2,4) [of code] unfolding mask_bits k_def ext by simp
    then have "kbdGetChar s = (0, s\<lparr>kb_pending := rest, kb_shift := ?w AND NOT (shiftcode k OR E0ESC)\<rparr>)"
      using up p key_index(1,6) [of code] by (simp add: kbdGetChar_def Let_def)
    then show ?thesis using ev' mods_of_ext(3) [of ?w k] by (intro exI [of _ "?w AND NOT (shiftcode k OR E0ESC)"]) simp
  next
    case down
    define w0 where "w0 = (if bit ?w 6 then ?w AND NOT E0ESC else ?w)"
    have w0: "mods_of w0 = (mods_of ?w)\<lparr>m_ext := False\<rparr>" using mods_of_ext(2,4) [of ?w] by (simp add: w0_def)
    obtain sh x where pr: "kbd_press w0 k = (sh, x)" by (cases "kbd_press w0 k")
    note sp = kbd_press_spec [OF pr]
    have ev': "M = mods_of sh" "c = ucast x" "r = (m_ctl (mods_of sh) \<and> m_alt (mods_of sh) \<and> x = KEY_DEL)"
      using ev down(1) conjunct1 [OF sp] conjunct2 [OF sp] w0 down(2) unfolding key_event_def Let_def k_def [symmetric] by auto
    have "(if ?w AND E0ESC \<noteq> 0 then (?d OR 0x80, ?w AND NOT E0ESC) else (?d, ?w)) = (k, w0)"
      using key_index(3,5) [OF down(2)] unfolding mask_bits k_def ext w0_def by (cases "bit ?w 6") simp_all
    then have "kbdGetChar s = (let t = s\<lparr>kb_pending := rest, kb_shift := sh\<rparr> in
        (uint x, if NOT sh AND (CTL OR ALT) = 0 \<and> x = KEY_DEL then t\<lparr>kb_reset := True\<rparr> else t))"
      using down p key_index(1,6) [of code] pr by (simp add: kbdGetChar_def Let_def)
    moreover have "uint x = uint c" using u kbd_press_le [of w0 k] pr ev'(2) by simp
    ultimately show ?thesis using ev' unfolding mask_bits by (intro exI [of _ sh]) (auto simp: Let_def mods_of_def)
  qed
qed

subsection \<open>The ring\<close>

lemma ring_pos: "r < 512 \<Longrightarrow> w < 512 \<Longrightarrow> (r + (w + 512 - r) mod 512) mod 512 = (w :: nat)"
  by (simp add: mod_add_right_eq)

lemma ring_len: "r < 512 \<Longrightarrow> w < 512 \<Longrightarrow> (w + 512 - r) mod 512 = (if r \<le> w then w - r else w + 512 - r :: nat)"
proof -
  assume h: "r < 512" "w < 512"
  show ?thesis
  proof (cases "r \<le> w")
    case True
    then have e: "w + 512 - r = (w - r) + 512" by simp
    have "(w - r + 512) mod 512 = (w - r) mod 512" by (rule mod_add_self2)
    also have "\<dots> = w - r" using h by (intro mod_less) linarith
    finally show ?thesis unfolding e by (simp only: True if_True)
  qed (use h in simp)
qed

lemma ring_next:
  assumes "r < 512" "w < 512" "(w + 512 - r) mod 512 < 511"
  shows "(Suc w mod 512 + 512 - r) mod 512 = Suc ((w + 512 - r) mod (512 :: nat))"
proof (cases "Suc w < 512")
  case True
  then have e: "Suc w mod 512 = Suc w" by simp
  show ?thesis using assms(1,3) unfolding e ring_len [OF assms(1,2)] ring_len [OF assms(1) True] by (cases "r \<le> w") auto
next
  case False
  then have w: "w = 511" using assms(2) by simp
  have "(511 + 512 - r) mod 512 = 511 - r" using ring_len [OF assms(1), of 511] assms(1) by (simp split: if_splits)
  then have "r \<noteq> 0" "(511 + 512 - r) mod 512 = 511 - r" using assms(3) w by auto
  moreover have "(512 - r) mod 512 = 512 - r" using \<open>r \<noteq> 0\<close> by simp
  ultimately show ?thesis using assms(1) unfolding w by (simp add: Suc_diff_le)
qed

lemma ring_distinct: "k < n \<Longrightarrow> n < 512 \<Longrightarrow> (r + k) mod 512 \<noteq> (r + n) mod (512 :: nat)"
proof
  assume h: "k < n" "n < 512" "(r + k) mod 512 = (r + n) mod 512"
  then have "512 dvd (r + n) - (r + k)" using mod_eq_dvd_iff_nat [of "r + k" "r + n" 512] by simp
  then show False using h(1,2) by (auto dest: dvd_imp_le)
qed

lemma kbd_slot_inject: "k < n \<Longrightarrow> n < 512 \<Longrightarrow> kbd_slot s k \<noteq> kbd_slot s n"
proof
  assume k: "k < n" "n < 512" "kbd_slot s k = kbd_slot s n"
  have "(unat (kb_rpos s) + k) mod 512 = (unat (kb_rpos s) + n) mod 512"
    using k(3) of_nat_u32_inject [of "(unat (kb_rpos s) + k) mod 512" "(unat (kb_rpos s) + n) mod 512"]
    by (simp add: kbd_slot_def)
  then show False using ring_distinct [OF k(1,2)] by blast
qed

lemma unat_wrap: "w < KBD_BUFF_LEN \<Longrightarrow> unat (if KBD_BUFF_LEN \<le> w + 1 then 0 else w + 1) = Suc (unat w) mod 512"
proof -
  assume "w < KBD_BUFF_LEN"
  then have w: "unat w < 512" by (simp add: word_less_nat_alt)
  then have "unat (w + 1) = Suc (unat w)" by (simp add: unat_word_ariths)
  moreover have "Suc (unat w) mod 512 = (if 512 \<le> Suc (unat w) then 0 else Suc (unat w))"
    using w by (cases "unat w = 511") simp_all
  ultimately show ?thesis by (simp add: word_le_nat_alt)
qed

lemma kbd_put_queue:
  assumes "kbd_inv s" "length (kbd_queue s) < 511"
  shows "kbd_inv (kbd_put c s) \<and> kbd_queue (kbd_put c s) = kbd_queue s @ [of_int c]"
proof -
  have b: "unat (kb_rpos s) < 512" "unat (kb_wpos s) < 512" using assms(1) by (simp_all add: kbd_inv_def word_less_nat_alt)
  have n: "kbd_len s < 511" using assms(2) by (simp add: kbd_queue_def)
  let ?t = "kbd_put c s"
  have r: "kb_rpos ?t = kb_rpos s" "KBDbuffer ?t = KBDbuffer s" by (simp_all add: kbd_put_def Let_def)
  have w: "unat (kb_wpos ?t) = Suc (unat (kb_wpos s)) mod 512"
    using unat_wrap [of "kb_wpos s"] assms(1) by (simp add: kbd_put_def kbd_inv_def Let_def)
  have len: "kbd_len ?t = Suc (kbd_len s)"
    using ring_next [OF b] n unfolding kbd_len_def w r(1) by simp
  have sl: "kbd_slot ?t k = kbd_slot s k" for k by (simp add: kbd_slot_def r)
  have last: "KBDbuffer s + kb_wpos s = kbd_slot s (kbd_len s)"
    using ring_pos [OF b] by (simp add: kbd_slot_def kbd_len_def)
  have "mem ?t = (mem s)(kbd_slot s (kbd_len s) := of_int c)" unfolding last [symmetric] by (simp add: kbd_put_def Let_def)
  then have "kbd_queue ?t = kbd_queue s @ [of_int c]"
    using kbd_slot_inject [of _ "kbd_len s" s] n unfolding kbd_queue_def len sl by (simp add: map_eq_conv)
  moreover have "kb_wpos ?t < 512" using w by (simp add: word_less_nat_alt)
  ultimately show ?thesis using assms(1) r(1) by (simp add: kbd_inv_def)
qed

text \<open>What reading the controller may touch.\<close>

definition kbd_frame :: "'a kkbd_scheme \<Rightarrow> 'a kkbd_scheme \<Rightarrow> bool" where
  "kbd_frame s t \<longleftrightarrow> (\<exists>a b c d e. t = s\<lparr>mem := a, kb_pending := b, kb_shift := c, kb_reset := d, kb_wpos := e\<rparr> \<and>
     (\<forall>x. x \<notin> span (KBDbuffer s) 512 \<longrightarrow> a x = mem s x))"

lemma kbd_frame_trans: "kbd_frame s t \<Longrightarrow> kbd_frame t u \<Longrightarrow> kbd_frame s u"
  unfolding kbd_frame_def by clarsimp metis

lemma kbd_put_frame:
  assumes "kbd_inv s"
  shows "kbd_frame s (kbd_put c s)"
proof -
  have "KBDbuffer s + kb_wpos s \<in> span (KBDbuffer s) 512"
    using assms unfolding span_def kbd_inv_def by (intro image_eqI [of _ _ "unat (kb_wpos s)"]) (simp_all add: word_less_nat_alt)
  then have "((mem s)(KBDbuffer s + kb_wpos s := of_int c)) x = mem s x" if "x \<notin> span (KBDbuffer s) 512" for x using that by auto
  then show ?thesis unfolding kbd_frame_def kbd_put_def Let_def
    by (intro exI [of _ "(mem s)(KBDbuffer s + kb_wpos s := of_int c)"] exI [of _ "kb_pending s"] exI [of _ "kb_shift s"] exI [of _ "kb_reset s"]
        exI [of _ "if KBD_BUFF_LEN \<le> kb_wpos s + 1 then 0 else kb_wpos s + 1"]) simp
qed

lemma kbd_frame_queue:
  "kbd_inv (s\<lparr>kb_pending := b, kb_shift := c, kb_reset := d\<rparr>) = kbd_inv s"
  "kbd_queue (s\<lparr>kb_pending := b, kb_shift := c, kb_reset := d\<rparr>) = kbd_queue s"
  by (simp_all add: kbd_inv_def kbd_queue_def kbd_slot_def kbd_len_def)

lemma kbd_put_sel: "kb_pending (kbd_put c s) = kb_pending s" "kb_shift (kbd_put c s) = kb_shift s" "kb_reset (kbd_put c s) = kb_reset s"
  by (simp_all add: kbd_put_def Let_def)

lemma kbdPutChar2Buffer_ok:
  assumes "kbd_inv s" "type_keys (mods_of (kb_shift s)) (kb_pending s) = (M, ks, r)" "length (kbd_queue s @ ks) < 512"
  shows "kbd_inv (kbdPutChar2Buffer s) \<and> kbd_queue (kbdPutChar2Buffer s) = kbd_queue s @ ks \<and>
    kb_pending (kbdPutChar2Buffer s) = [] \<and> mods_of (kb_shift (kbdPutChar2Buffer s)) = M \<and>
    kb_reset (kbdPutChar2Buffer s) = (kb_reset s \<or> r) \<and> kbd_frame s (kbdPutChar2Buffer s)"
  using assms
proof (induction "kb_pending s" arbitrary: s ks r)
  case Nil
  then have g: "kbdGetChar s = (-1, s)" by (simp add: kbdGetChar_def)
  have "kbd_frame s s" unfolding kbd_frame_def
    by (intro exI [of _ "mem s"] exI [of _ "kb_pending s"] exI [of _ "kb_shift s"] exI [of _ "kb_reset s"] exI [of _ "kb_wpos s"]) simp
  moreover have "kbdPutChar2Buffer s = s" by (subst kbdPutChar2Buffer.simps) (simp add: g)
  moreover have "ks = []" "\<not> r" "M = mods_of (kb_shift s)" using Nil(1,3) by (auto simp: Nil(1) [symmetric])
  ultimately show ?case using Nil by simp
next
  case (Cons code rest)
  obtain M1 c r1 where ev: "key_event (mods_of (kb_shift s)) code = (M1, c, r1)" by (cases "key_event (mods_of (kb_shift s)) code") auto
  obtain M2 cs r2 where tk: "type_keys M1 rest = (M2, cs, r2)" by (cases "type_keys M1 rest") auto
  have k: "M = M2" "ks = (if c \<noteq> 0 then [c] else []) @ cs" "r = (r1 \<or> r2)"
    using Cons(4) unfolding Cons(2) [symmetric] by (auto simp: ev tk)
  obtain sh where b: "mods_of sh = M1" "kbdGetChar s = (uint c, s\<lparr>kb_pending := rest, kb_shift := sh, kb_reset := kb_reset s \<or> r1\<rparr>)"
    using kbdGetChar_event [OF Cons(2) [symmetric] ev] by blast
  define t where "t = s\<lparr>kb_pending := rest, kb_shift := sh, kb_reset := kb_reset s \<or> r1\<rparr>"
  define u where "u = (if c \<noteq> 0 then kbd_put (uint c) t else t)"
  have it: "kbd_inv t" "kbd_queue t = kbd_queue s" using Cons(3) by (simp_all add: t_def kbd_frame_queue)
  have "uint c \<noteq> -1" using uint_ge_0 [of c] by linarith
  then have run: "kbdPutChar2Buffer s = kbdPutChar2Buffer u"
    by (subst kbdPutChar2Buffer.simps) (simp add: b t_def [symmetric] u_def uint_0_iff)
  have u: "kbd_inv u \<and> kbd_queue u = kbd_queue s @ (if c \<noteq> 0 then [c] else [])"
    using kbd_put_queue [OF it(1), of "uint c"] it Cons(5) k(2) by (auto simp: u_def split: if_splits)
  have us: "kb_pending u = rest" "kb_shift u = sh" "kb_reset u = (kb_reset s \<or> r1)" by (simp_all add: u_def kbd_put_sel t_def)
  have "kbd_frame s t" unfolding kbd_frame_def t_def
    by (intro exI [of _ "mem s"] exI [of _ rest] exI [of _ sh] exI [of _ "kb_reset s \<or> r1"] exI [of _ "kb_wpos s"]) simp
  then have f: "kbd_frame s u" using kbd_put_frame [OF it(1)] kbd_frame_trans by (auto simp: u_def)
  have "kbd_inv (kbdPutChar2Buffer u) \<and> kbd_queue (kbdPutChar2Buffer u) = kbd_queue u @ cs \<and> kb_pending (kbdPutChar2Buffer u) = [] \<and>
      mods_of (kb_shift (kbdPutChar2Buffer u)) = M \<and> kb_reset (kbdPutChar2Buffer u) = (kb_reset u \<or> r2) \<and> kbd_frame u (kbdPutChar2Buffer u)"
    using Cons(1) [of u cs r2] u us tk b(1) k Cons(5) by (auto split: if_splits)
  then show ?case using u us k f kbd_frame_trans unfolding run by (auto split: if_splits)
qed

lemma kbd_frame_stdin:
  fixes s t :: "'a kkbd_scheme"
  assumes "kbd_frame s t" "span (KBDbuffer s) 512 \<inter> stdin_ring s = {}"
  shows "stdin_inv t = stdin_inv s" "stdin_inv s \<Longrightarrow> stdin_queue t = stdin_queue s" "stdin_wait t = stdin_wait s" "WaitLinks t = WaitLinks s"
    "stdin_ring t = stdin_ring s" "KBDbuffer t = KBDbuffer s" "kb_rpos t = kb_rpos s"
    "p_wpos t = p_wpos s" "waits t = waits s" "rq_inv t q L = rq_inv s q L" "sleepers t L ws = sleepers s L ws"
proof -
  obtain a b c d e where t: "t = s\<lparr>mem := a, kb_pending := b, kb_shift := c, kb_reset := d, kb_wpos := e\<rparr>"
    and a: "\<forall>x. x \<notin> span (KBDbuffer s) 512 \<longrightarrow> a x = mem s x" using assms(1) by (auto simp: kbd_frame_def)
  show "stdin_inv t = stdin_inv s" "stdin_wait t = stdin_wait s" "WaitLinks t = WaitLinks s" "stdin_ring t = stdin_ring s"
    "KBDbuffer t = KBDbuffer s" "kb_rpos t = kb_rpos s" "p_wpos t = p_wpos s" "waits t = waits s" "rq_inv t q L = rq_inv s q L" "sleepers t L ws = sleepers s L ws"
    by (simp_all add: t stdin_inv_def stdin_ring_def rq_inv_def ready_def sleepers_def waiting_ok_def)
  have "a (stdin_slot p s) = mem s (stdin_slot p s)" if "0 \<le> p" for p using a slot_in_ring [OF that, of s] assms(2) by blast
  then show "stdin_queue t = stdin_queue s" if "stdin_inv s" using that by (simp add: t stdin_queue_def stdin_slot_def stdin_inv_def)
qed

lemma ring_pop:
  assumes "r < 512" "w < 512" "(w + 512 - r) mod 512 = Suc n"
  shows "(w + 512 - Suc r mod 512) mod 512 = (n :: nat)"
proof (cases "Suc r < 512")
  case True
  then have e: "Suc r mod 512 = Suc r" by simp
  show ?thesis using assms unfolding e ring_len [OF assms(1,2)] ring_len [OF True assms(2)] by (auto split: if_splits)
next
  case False
  then have r: "r = 511" using assms(1) by simp
  have "w \<noteq> 511" using assms(3) r by auto
  then have "Suc n = w + 512 - 511" using assms(2,3) ring_len [OF assms(1,2)] unfolding r by (simp split: if_splits)
  then show ?thesis using assms(2) r by simp
qed

lemma kbd_pop:
  assumes "kbd_inv t" "kbd_queue t = c # q" "t' = t\<lparr>kb_rpos := if KBD_BUFF_LEN \<le> kb_rpos t + 1 then 0 else kb_rpos t + 1\<rparr>"
  shows "kb_rpos t \<noteq> kb_wpos t" "mem t (KBDbuffer t + kb_rpos t) = c" "kbd_inv t'" "kbd_queue t' = q"
proof -
  have b: "unat (kb_rpos t) < 512" "unat (kb_wpos t) < 512" using assms(1) by (simp_all add: kbd_inv_def word_less_nat_alt)
  have len: "kbd_len t = Suc (length q)" using arg_cong [OF assms(2), of length] by (simp add: kbd_queue_def)
  then show "kb_rpos t \<noteq> kb_wpos t" by (auto simp: kbd_len_def)
  have q: "kbd_queue t = mem t (kbd_slot t 0) # map (\<lambda>k. mem t (kbd_slot t (Suc k))) [0..<length q]"
    unfolding kbd_queue_def len upt_conv_Cons [OF zero_less_Suc] map_Suc_upt [symmetric] by (simp del: upt_Suc)
  have "kbd_slot t 0 = KBDbuffer t + kb_rpos t" using b(1) by (simp add: kbd_slot_def)
  then show "mem t (KBDbuffer t + kb_rpos t) = c" using q assms(2) by simp
  have r: "unat (kb_rpos t') = Suc (unat (kb_rpos t)) mod 512"
    using unat_wrap [of "kb_rpos t"] assms(1,3) by (simp add: kbd_inv_def)
  then have "kb_rpos t' < 512" by (simp add: word_less_nat_alt)
  then show "kbd_inv t'" using assms(1,3) by (simp add: kbd_inv_def)
  have "kbd_len t' = length q"
    using ring_pop [OF b] len r assms(3) by (simp add: kbd_len_def)
  moreover have "kbd_slot t' k = kbd_slot t (Suc k)" for k
  proof -
    have "(Suc (unat (kb_rpos t)) mod 512 + k) mod 512 = (unat (kb_rpos t) + Suc k) mod 512"
      using mod_add_left_eq [of "Suc (unat (kb_rpos t))" 512 k] by (simp only: add_Suc add_Suc_right)
    then show ?thesis unfolding kbd_slot_def r by (simp add: assms(3))
  qed
  ultimately show "kbd_queue t' = q" using q assms(2,3) by (simp add: kbd_queue_def)
qed

lemma kbdGetCharFromBuffer_ok:
  assumes "kbd_inv s" "stdin_inv s" "type_keys (mods_of (kb_shift s)) (kb_pending s) = (M, ks, r)" "length (kbd_queue s @ ks) < 512"
    and d: "span (KBDbuffer s) 512 \<inter> stdin_ring s = {}" and q: "q = kbd_queue s @ ks"
  shows "\<exists>t. kbdGetCharFromBuffer s = (case q of [] \<Rightarrow> 0 | c # _ \<Rightarrow> uint c, t) \<and> kbd_inv t \<and> kbd_queue t = tl q \<and> kb_pending t = [] \<and>
    mods_of (kb_shift t) = M \<and> kb_reset t = (kb_reset s \<or> r) \<and>
    stdin_inv t \<and> stdin_queue t = stdin_queue s \<and> stdin_wait t = stdin_wait s \<and> WaitLinks t = WaitLinks s \<and> waits t = waits s \<and>
    stdin_ring t = stdin_ring s \<and> KBDbuffer t = KBDbuffer s \<and> p_wpos t = p_wpos s \<and>
    (\<forall>rq L ws. rq_inv t rq L = rq_inv s rq L \<and> sleepers t L ws = sleepers s L ws)"
proof -
  define u where "u = kbdPutChar2Buffer s"
  have u: "kbd_inv u" "kbd_queue u = q" "kb_pending u = []" "mods_of (kb_shift u) = M" "kb_reset u = (kb_reset s \<or> r)" "kbd_frame s u"
    using kbdPutChar2Buffer_ok [OF assms(1,3,4)] by (simp_all add: u_def q)
  note f = kbd_frame_stdin [OF u(6) d]
  show ?thesis
  proof (cases q)
    case Nil
    then have l: "kbd_len u = 0" using u(2) by (simp add: kbd_queue_def)
    have b: "unat (kb_rpos u) < 512" "unat (kb_wpos u) < 512" using u(1) by (simp_all add: kbd_inv_def word_less_nat_alt)
    have "kb_rpos u = kb_wpos u" using ring_pos [OF b] l b unfolding kbd_len_def by (simp add: word_unat_eq_iff)
    then show ?thesis using u f Nil assms(2) by (intro exI [of _ u]) (simp add: kbdGetCharFromBuffer_def u_def [symmetric] Let_def)
  next
    case (Cons c q')
    define t where "t = u\<lparr>kb_rpos := if KBD_BUFF_LEN \<le> kb_rpos u + 1 then 0 else kb_rpos u + 1\<rparr>"
    have "kbd_queue u = c # q'" using u(2) Cons by simp
    note p = kbd_pop [OF u(1) this t_def]
    have "stdin_inv t = stdin_inv u" "stdin_queue t = stdin_queue u" "stdin_wait t = stdin_wait u" "WaitLinks t = WaitLinks u"
      "stdin_ring t = stdin_ring u" "KBDbuffer t = KBDbuffer u" "kb_pending t = kb_pending u" "kb_shift t = kb_shift u" "kb_reset t = kb_reset u"
      "waits t = waits u" "p_wpos t = p_wpos u" "rq_inv t rq L = rq_inv u rq L" "sleepers t L ws = sleepers u L ws" for rq L ws
      by (simp_all add: t_def stdin_inv_def stdin_queue_def stdin_slot_def stdin_ring_def rq_inv_def ready_def sleepers_def waiting_ok_def)
    moreover have "kbdGetCharFromBuffer s = (uint c, t)"
      using p(1,2) by (simp add: kbdGetCharFromBuffer_def u_def [symmetric] Let_def t_def)
    ultimately show ?thesis using u f p Cons assms(2) by (intro exI [of _ t]) simp
  qed
qed

lemma kbd_slot_in: "kbd_slot s k \<in> span (KBDbuffer s) 512"
  unfolding kbd_slot_def span_def by (rule imageI) simp

text \<open>Writing to standard input leaves the keyboard alone.\<close>

lemma kbd_write_frame:
  fixes s' t :: "'a kkbd_scheme"
  assumes "mem s' = mem (stdin_put c t)" "kfs.more s' = kfs.more t" "stdin_inv t" "span (KBDbuffer t) 512 \<inter> stdin_ring t = {}"
  shows "kbd_inv s' = kbd_inv t" "kbd_queue s' = kbd_queue t" "kb_pending s' = kb_pending t" "kb_shift s' = kb_shift t" "kb_reset s' = kb_reset t"
proof -
  have e: "KBDbuffer s' = KBDbuffer t" "kb_rpos s' = kb_rpos t" "kb_wpos s' = kb_wpos t" "kb_pending s' = kb_pending t" "kb_shift s' = kb_shift t"
    "kb_reset s' = kb_reset t"
    using assms(2) by (cases s', cases t, simp)+
  have "0 \<le> p_wpos t" using assms(3) by (simp add: stdin_inv_def)
  then have "mem s' (kbd_slot t k) = mem t (kbd_slot t k)" for k
    using kbd_slot_in [of t k] slot_in_ring [of "p_wpos t" t] assms(4) by (auto simp: assms(1) stdin_put_def Let_def)
  then show "kbd_queue s' = kbd_queue t" by (simp add: kbd_queue_def kbd_len_def kbd_slot_def e)
  show "kbd_inv s' = kbd_inv t" "kb_pending s' = kb_pending t" "kb_shift s' = kb_shift t" "kb_reset s' = kb_reset t" by (simp_all add: kbd_inv_def e)
qed

section \<open>Properties\<close>

text \<open>
  C30: a keyboard interrupt translates all pending scan codes in order behind the characters already
  buffered and passes the first character, if there is one, to standard input, waking its readers; the others stay in the ring buffer, in order, for the following
  interrupts.  The translation is that of \<open>type_keys\<close>: modifier keys act while they are held, the locks change at every press, and the state of both is that
  the next interrupt starts from; Ctrl-Alt-Del resets the machine.  This needs that the characters fit into the ring, and that fewer than \<open>2\<^sup>3\<^sup>1\<close>
  characters have been written to standard input.
\<close>

theorem kbdIntrCallBack_correct:
  fixes s :: "'a kkbd_scheme"
  assumes "kbd_inv s" "stdin_inv s" "p_wpos s < 0x7FFFFFFF" "span (KBDbuffer s) 512 \<inter> stdin_ring s = {}"
    and "rq_inv s rq L" "dlist (WaitLinks s) (stdin_wait s) ws" "sleepers s L ws"
    and "type_keys (mods_of (kb_shift s)) (kb_pending s) = (M, ks, r)" "q = kbd_queue s @ ks" "length q < 512" "0 \<notin> set q"
  shows "\<exists>s'. kbdIntrCallBack s = Ret s' \<and> kbd_inv s' \<and> stdin_inv s' \<and> kb_pending s' = [] \<and> kbd_queue s' = tl q \<and>
    mods_of (kb_shift s') = M \<and> kb_reset s' = (kb_reset s \<or> r) \<and>
    stdin_queue s' = (if q = [] then stdin_queue s
      else if length (stdin_queue s) < 2048 then stdin_queue s @ [hd q] else hd q # tl (stdin_queue s)) \<and>
    rq_inv s' (if q = [] then rq else rq @ map (\<lambda>w. wt_task (waits s w)) ws) L \<and>
    (q \<noteq> [] \<longrightarrow> (\<forall>w \<in> set ws. tstate (tasks s' (wt_task (waits s w))) = TASK_RUNNABLE))"
proof -
  obtain t where t: "kbdGetCharFromBuffer s = (case q of [] \<Rightarrow> 0 | c # _ \<Rightarrow> uint c, t)" "kbd_inv t" "kbd_queue t = tl q" "kb_pending t = []"
      "mods_of (kb_shift t) = M" "kb_reset t = (kb_reset s \<or> r)"
      "stdin_inv t" "stdin_queue t = stdin_queue s" "stdin_wait t = stdin_wait s" "WaitLinks t = WaitLinks s" "waits t = waits s"
      "stdin_ring t = stdin_ring s" "KBDbuffer t = KBDbuffer s" "p_wpos t = p_wpos s" "\<And>rq L ws. rq_inv t rq L = rq_inv s rq L" "\<And>L ws. sleepers t L ws = sleepers s L ws"
    using kbdGetCharFromBuffer_ok [OF assms(1,2,8) _ assms(4,9)] assms(9,10) by metis
  show ?thesis
  proof (cases q)
    case Nil
    then show ?thesis using t assms(5) by (intro exI [of _ t]) (simp add: kbdIntrCallBack_def stdin_do_write_def)
  next
    case (Cons c q')
    have c: "c \<noteq> 0" using assms(11) Cons by auto
    have run: "kbdIntrCallBack s = stdin_do_write c t" using t(1) Cons by (simp add: kbdIntrCallBack_def)
    have ok: "\<not> (length (stdin_queue t) < 2048 \<and> p_wpos t = 0x7FFFFFFF)" using assms(3) t(14) by simp
    obtain s' where s': "stdin_do_write c t = Ret s'" "stdin_inv s'" "stdin_queue s' = stdin_accepts (stdin_queue t) c"
        "rq_inv s' (rq @ map (\<lambda>w. wt_task (waits t w)) ws) L" "\<forall>w \<in> set ws. tstate (tasks s' (wt_task (waits t w))) = TASK_RUNNABLE"
        "mem s' = mem (stdin_put c t)" "kfs.more s' = kfs.more t"
      using stdin_do_write_ok [OF t(7) c, of rq L ws, unfolded if_not_P [OF ok]] assms(5-7) t(9,10,15,16) by auto
    have d: "span (KBDbuffer t) 512 \<inter> stdin_ring t = {}" using assms(4) t(12,13) by simp
    note fr = kbd_write_frame [OF s'(6,7) t(7) d]
    show ?thesis using run s'(1-5) fr t Cons by (intro exI [of _ s']) simp
  qed
qed

text \<open>The keys a, shift and b, then the caps lock and c, while \<^verbatim>\<open>init\<close> waits for input.\<close>

definition sample_kkbd :: kkbd where
  "sample_kkbd = kfs.extend sample_reader (kkbd.fields [0x1E, 0x9E, 0x2A, 0x30, 0xAA, 0x3A, 0x2E] 0 False 0xC0380000 0 0)"

lemma sample_kkbd_sel:
  "kb_pending sample_kkbd = [0x1E, 0x9E, 0x2A, 0x30, 0xAA, 0x3A, 0x2E]" "kb_shift sample_kkbd = 0" "kb_rpos sample_kkbd = 0" "kb_wpos sample_kkbd = 0"
  "KBDbuffer sample_kkbd = 0xC0380000" "p_rpos sample_kkbd = 0" "p_wpos sample_kkbd = 0" "stdin_buffer sample_kkbd = 0xC0370000"
  "stdin_wait sample_kkbd = 0xC000D000" "WaitLinks sample_kkbd = WaitLinks sample_reader" "waits sample_kkbd = waits sample_reader"
  "rq_inv sample_kkbd rq L = rq_inv sample_reader rq L" "sleepers sample_kkbd L ws = sleepers sample_reader L ws"
  by (simp_all add: sample_kkbd_def kfs.defs kkbd.defs sample_reader_def sample_kfs_sel rq_inv_def ready_def sleepers_def waiting_ok_def)

lemma type_aBC: "type_keys (mods_of 0) [0x1E, 0x9E, 0x2A, 0x30, 0xAA, 0x3A, 0x2E] = (mods_of 8, [97, 66, 67], False)"
  by code_simp

theorem kbdIntrCallBack_correct_witness:
  "\<exists>s'. kbdIntrCallBack sample_kkbd = Ret s' \<and> stdin_queue s' = [97] \<and> kbd_queue s' = [66, 67] \<and> m_caps (mods_of (kb_shift s')) \<and>
     tstate (tasks s' 16) = TASK_RUNNABLE"
proof -
  have i: "kbd_inv sample_kkbd" "stdin_inv sample_kkbd" "p_wpos sample_kkbd < 0x7FFFFFFF" by (simp_all add: kbd_inv_def stdin_inv_def sample_kkbd_sel)
  have q: "stdin_queue sample_kkbd = []" "kbd_queue sample_kkbd = []" by (simp_all add: stdin_queue_def kbd_queue_def kbd_len_def sample_kkbd_sel)
  have "a \<notin> span 0xC0370000 2048" if "a \<in> span (0xC0380000 :: ptr) 512" for a
  proof -
    have "unat (a - 0xC0380000) < 512" using that by (subst (asm) in_span_iff) simp_all
    then have a: "a = 0xC0380000 + of_nat (unat (a - 0xC0380000))" by simp
    have "unat (a - 0xC0370000) = 0x10000 + unat (a - 0xC0380000)"
    proof -
      have "a - 0xC0370000 = 0x10000 + (a - 0xC0380000)" by simp
      then show ?thesis using \<open>unat (a - 0xC0380000) < 512\<close> by (simp only: unat_word_ariths) simp
    qed
    then show ?thesis by (subst in_span_iff) simp_all
  qed
  then have d: "span (KBDbuffer sample_kkbd) 512 \<inter> stdin_ring sample_kkbd = {}"
    unfolding stdin_ring_def sample_kkbd_sel by blast
  have r: "rq_inv sample_kkbd [] {8, 16, 32, 48}" "dlist (WaitLinks sample_kkbd) (stdin_wait sample_kkbd) [0xC0010000]"
    "sleepers sample_kkbd {8, 16, 32, 48} [0xC0010000]"
    using sample_reader_ok(5-7) by (simp_all add: sample_kkbd_sel)
  have k: "type_keys (mods_of (kb_shift sample_kkbd)) (kb_pending sample_kkbd) = (mods_of 8, [97, 66, 67], False)" using type_aBC by (simp add: sample_kkbd_sel)
  show ?thesis
    using kbdIntrCallBack_correct [OF i d r k refl] unfolding q by (auto simp: sample_kkbd_sel(11) sample_reader_ok(8) mods_of_def)
qed

end
