(* ===== verification/Fat_Window.thy ===== *)
theory Fat_Window
  imports FatBase
begin

text \<open>
  The sector window of a FAT volume.  \<open>fview\<close> is what the driver sees of the volume's device: the window for
  the sector it holds, the block cache for the others.  Moving the window shows another sector and leaves
  the view of every sector alone, but for the copies of the allocation table, which follow the first one.
\<close>

section \<open>Frames\<close>

text \<open>The state without what the driver and the layers below it may change.\<close>

definition fat_rest :: "'a kfat_scheme \<Rightarrow> 'a kfat_scheme" where
  "fat_rest s = (io_rest s)\<lparr>SBs := undefined\<rparr>"

lemma fat_rest_upd [simp]:
  "fat_rest (s\<lparr>SBs := b\<rparr>) = fat_rest s" "fat_rest (upd_sb fs f s) = fat_rest s" "fat_rest (s\<lparr>mem := m\<rparr>) = fat_rest s"
  "fat_rest (upd_mem g s) = fat_rest s"
  by (simp_all add: fat_rest_def io_rest_def upd_sb_def upd_mem_def)

lemma io_fat_rest: "io_rest t = io_rest s \<Longrightarrow> fat_rest t = fat_rest s"
  by (simp add: fat_rest_def)

lemma io_rest_SBs:
  fixes s t :: "'a kfat_scheme"
  assumes "io_rest t = io_rest s"
  shows "SBs t = SBs s"
proof -
  have "SBs (io_rest u) = SBs u" for u :: "'a kfat_scheme" by (simp add: io_rest_def)
  then show ?thesis by (metis assms)
qed

lemma fat_rest_sel:
  fixes s t :: "'a kfat_scheme"
  assumes "fat_rest t = fat_rest s"
  shows "blockdevs t = blockdevs s" "BlkLinks t = BlkLinks s" "BlockDeviceList t = BlockDeviceList s" "BlockCacheSem t = BlockCacheSem s"
    "IDE_Sem t = IDE_Sem s" "WaitLinks t = WaitLinks s" "inodes t = inodes s" "FatFiles t = FatFiles s" "FatDirs t = FatDirs s"
    "Fat_SuperBlock t = Fat_SuperBlock s"
proof -
  have r: "blockdevs (fat_rest u) = blockdevs u" "BlkLinks (fat_rest u) = BlkLinks u" "BlockDeviceList (fat_rest u) = BlockDeviceList u"
    "BlockCacheSem (fat_rest u) = BlockCacheSem u" "IDE_Sem (fat_rest u) = IDE_Sem u" "WaitLinks (fat_rest u) = WaitLinks u"
    "inodes (fat_rest u) = inodes u" "FatFiles (fat_rest u) = FatFiles u" "FatDirs (fat_rest u) = FatDirs u"
    "Fat_SuperBlock (fat_rest u) = Fat_SuperBlock u"
    for u :: "'a kfat_scheme" by (simp_all add: fat_rest_def io_rest_def)
  show "blockdevs t = blockdevs s" "BlkLinks t = BlkLinks s" "BlockDeviceList t = BlockDeviceList s" "BlockCacheSem t = BlockCacheSem s"
    "IDE_Sem t = IDE_Sem s" "WaitLinks t = WaitLinks s" "inodes t = inodes s" "FatFiles t = FatFiles s" "FatDirs t = FatDirs s"
    "Fat_SuperBlock t = Fat_SuperBlock s"
    using r [of t] r [of s] assms by simp_all
qed

lemma getDevice_rest:
  fixes s t :: "'a kfat_scheme"
  assumes "fat_rest t = fat_rest s"
  shows "getDeviceWithId i t = getDeviceWithId i s"
  using fat_rest_sel [OF assms] by (simp add: getDeviceWithId_def)

lemma cache_upd_sb [simp]:
  "cache_inv (upd_sb fs f s) D = cache_inv s D" "cache_free (upd_sb fs f s) D = cache_free s D" "cache_mem (upd_sb fs f s) = cache_mem s"
  "mem (upd_sb fs f s) = mem s" "sems (upd_sb fs f s) = sems s" "BlockCache (upd_sb fs f s) = BlockCache s"
  "bc_hit (upd_sb fs f s) = bc_hit s"
  by (simp_all add: upd_sb_def cache_inv_def cache_free_def cache_mem_def dev_ok_def ide_ready_def sem_free_def ide_sem_def ideno_def
      waitlistIsEmpty_def bc_hit_def bc_bytes_def disk_def fun_eq_iff inj_on_def)

lemma bview_upd_sb [simp]: "bview (upd_sb fs f s) = bview s"
proof -
  have "bc_bytes (upd_sb fs f s) = bc_bytes s" "disk (upd_sb fs f s) = disk s"
    by (simp_all add: fun_eq_iff bc_bytes_def disk_def ideno_def upd_sb_def)
  then show ?thesis by (intro ext) (simp add: bview_def cong: option.case_cong)
qed

lemma SBs_upd_sb [simp]: "SBs (upd_sb fs f s) = (SBs s)(fs := f (SBs s fs))"
  by (simp add: upd_sb_def)

lemma upd_mem_sel [simp]:
  "mem (upd_mem g s) = g (mem s)" "SBs (upd_mem g t) = SBs t" "sems (upd_mem g u) = sems u" "BlockCache (upd_mem g v) = BlockCache v"
  "cache_mem (upd_mem g v) = cache_mem v" "cache_free (upd_mem g v) D = cache_free v D"
  by (simp_all add: upd_mem_def cache_mem_def cache_free_def sem_free_def ide_sem_def waitlistIsEmpty_def ideno_def)

lemma cache_upd_mem:
  fixes s :: "'a kbc_scheme"
  assumes "cache_inv s D" and "\<And>a. a \<in> cache_mem s \<Longrightarrow> m a = mem s a" and "i < N_BCACHE"
  shows "bc_bytes (s\<lparr>mem := m\<rparr>) i = bc_bytes s i"
  unfolding bc_bytes_def by (simp, rule rdbytes_cong) (use assms in \<open>auto simp: cache_mem_def\<close>)

lemma cache_write_elsewhere:
  fixes s :: "'a kbc_scheme"
  assumes "cache_inv s D" and "\<And>a. a \<in> cache_mem s \<Longrightarrow> g (mem s) a = mem s a"
  shows "cache_inv (upd_mem g s) D" "bview (upd_mem g s) = bview s"
proof -
  let ?t = "s\<lparr>mem := g (mem s)\<rparr>"
  note b = cache_upd_mem [OF assms(1), of "g (mem s)"]
  have sel: "bc_hit ?t = bc_hit s" "disk ?t = disk s" "ideno ?t = ideno s" "dev_ok ?t = dev_ok s"
    by (simp_all add: fun_eq_iff bc_hit_def disk_def ideno_def dev_ok_def ide_ready_def sem_free_def ide_sem_def waitlistIsEmpty_def)
  have "cache_inv ?t D"
    by (rule cache_invI) (use cache_invD [OF assms(1)] b assms(2) sel in \<open>auto simp: inj_on_def\<close>)
  then show "cache_inv (upd_mem g s) D" by (simp add: upd_mem_def)
  have "bview ?t d x = bview s d x" for d x
    by (rule bview_cases [of s d x]; rule bviewI)
      (use cache_invD(5) [OF assms(1)] b assms(2) sel in \<open>auto; blast\<close>)+
  then show "bview (upd_mem g s) = bview s" by (simp add: upd_mem_def fun_eq_iff)
qed

section \<open>One sector\<close>

definition vol_dev :: "ptr set \<Rightarrow> ptr \<Rightarrow> ptr \<Rightarrow> 'a kfat_scheme \<Rightarrow> bool" where
  "vol_dev D fs dev s \<longleftrightarrow> cache_inv s D \<and> cache_free s D \<and> dev \<in> D \<and> getDeviceWithId (ucast (sb_drive (SBs s fs))) s = Ret dev"

lemma diskIO_one:
  "dev \<noteq> NULL \<Longrightarrow> bcache_rw dev buf x w s = Ret (0, s') \<Longrightarrow>
   diskIO_BCache dev \<lparr>req_type = w, req_secno = x, req_nsecs = 1, req_buffer = buf, req_bsize = z\<rparr> s = Ret (0, s')"
  by (simp add: diskIO_BCache_def)

lemma fat_disk_one:
  fixes s :: "'a kfat_scheme"
  assumes "vol_dev D fs dev s" "x < MAX_DISK_NSECS" "span buf 512 \<inter> cache_mem s = {}"
  shows "\<exists>s'. (case w of IO_READ \<Rightarrow> fatbase_disk_read | IO_WRITE \<Rightarrow> fatbase_disk_write) (sb_drive (SBs s fs)) buf x 1 s = Ret (0, s') \<and>
    vol_dev D fs dev s' \<and> cframe s s' \<and> SBs s' = SBs s \<and> rw_effect w buf dev x D s s'"
proof -
  have a: "cache_inv s D" "cache_free s D" "dev \<in> D" "getDeviceWithId (ucast (sb_drive (SBs s fs))) s = Ret dev"
    using assms(1) by (simp_all add: vol_dev_def)
  have dev: "dev \<noteq> NULL" using cache_invD(1) [OF a(1,3)] by (simp add: dev_ok_def)
  obtain s' where s': "bcache_rw dev buf x w s = Ret (0, s')" "cache_inv s' D" "cframe s s'" "rw_effect w buf dev x D s s'"
    using bcache_rw_ok [OF a(1-3) assms(2), of buf w] assms(3) by (auto simp: buffer_cache_mem)
  have io: "io_rest s' = io_rest s" using s'(3) by (simp add: cframe_def)
  have "(case w of IO_READ \<Rightarrow> fatbase_disk_read | IO_WRITE \<Rightarrow> fatbase_disk_write) (sb_drive (SBs s fs)) buf x 1 s = Ret (0, s')"
    using diskIO_one [OF dev s'(1)] by (cases w) (simp_all add: fatbase_disk_read_def fatbase_disk_write_def disk_read_def disk_write_def a(4))
  moreover have "vol_dev D fs dev s'"
    using s'(2) a cframe_same(4) [OF s'(3)] getDevice_rest [OF io_fat_rest [OF io]] io_rest_SBs [OF io] by (simp add: vol_dev_def)
  ultimately show ?thesis using s'(3,4) io_rest_SBs [OF io] by blast
qed

lemmas fat_read_one = fat_disk_one [where w = IO_READ, simplified]
lemmas fat_write_one = fat_disk_one [where w = IO_WRITE, simplified]

section \<open>The view through the window\<close>

definition fview :: "ptr \<Rightarrow> ptr \<Rightarrow> 'a kfat_scheme \<Rightarrow> u32 \<Rightarrow> u8 list" where
  "fview fs dev s x = (if x = winsect (SBs s fs) \<and> x \<noteq> 0 then rdbytes (mem s) (win fs) 512 else bview s dev x)"

text \<open>The sectors of the further copies of the allocation table.\<close>

definition mirrored :: "FATBase_SuperBlock \<Rightarrow> u32 \<Rightarrow> bool" where
  "mirrored b x \<longleftrightarrow> unat (fatbase b) + unat (sects_fat b) \<le> unat x \<and> unat x < unat (fatbase b) + unat (n_fats b) * unat (sects_fat b)"

text \<open>
  A volume in use: its device and the cache are in order, the window is memory of its own, the allocation
  tables lie on the disk, and a clean window agrees with the cache.
\<close>

definition vol_ok :: "ptr set \<Rightarrow> ptr \<Rightarrow> ptr \<Rightarrow> 'a kfat_scheme \<Rightarrow> bool" where
  "vol_ok D fs dev s \<longleftrightarrow> vol_dev D fs dev s \<and> span (win fs) 512 \<inter> cache_mem s = {} \<and>
     (let b = SBs s fs
      in 0 < fatbase b \<and> 1 \<le> n_fats b \<and> unat (fatbase b) + unat (n_fats b) * unat (sects_fat b) \<le> unat MAX_DISK_NSECS \<and>
         winsect b < MAX_DISK_NSECS \<and> (winflag b \<noteq> 0 \<longrightarrow> fatbase b \<le> winsect b) \<and>
         (winsect b \<noteq> 0 \<longrightarrow> winflag b = 0 \<longrightarrow> rdbytes (mem s) (win fs) 512 = bview s dev (winsect b)))"

text \<open>The geometry of a volume: what the driver never changes once it is mounted.\<close>

definition geom :: "FATBase_SuperBlock \<Rightarrow> FATBase_SuperBlock" where
  "geom b = b\<lparr>winsect := 0, winflag := 0, last_clust := 0, free_clust := 0, fsi_flag := 0\<rparr>"

definition fat_frame :: "ptr \<Rightarrow> 'a kfat_scheme \<Rightarrow> 'a kfat_scheme \<Rightarrow> bool" where
  "fat_frame fs s t \<longleftrightarrow> fat_rest t = fat_rest s \<and> sems t = sems s \<and> (\<forall>j. bc_data (BlockCache t j) = bc_data (BlockCache s j)) \<and>
     (\<forall>g. g \<noteq> fs \<longrightarrow> SBs t g = SBs s g) \<and> geom (SBs t fs) = geom (SBs s fs) \<and>
     (\<forall>a. a \<notin> span (win fs) 512 \<union> cache_mem s \<longrightarrow> mem t a = mem s a)"

lemma fat_frame_refl [simp]: "fat_frame fs s s"
  by (simp add: fat_frame_def)

lemma fat_frame_cache_mem: "fat_frame fs s t \<Longrightarrow> cache_mem t = cache_mem s"
  by (simp add: fat_frame_def cache_mem_def)

lemma fat_frame_trans: "fat_frame fs s t \<Longrightarrow> fat_frame fs t u \<Longrightarrow> fat_frame fs s u"
  using fat_frame_cache_mem [of fs s t] unfolding fat_frame_def by simp

lemma geom_sel [simp]:
  "max_clust (geom b) = max_clust b" "fatbase (geom b) = fatbase b" "sects_fat (geom b) = sects_fat b" "n_fats (geom b) = n_fats b"
  "fs_type (geom b) = fs_type b" "sb_drive (geom b) = sb_drive b" "sects_clust (geom b) = sects_clust b" "database (geom b) = database b"
  "dirbase (geom b) = dirbase b" "n_rootdir (geom b) = n_rootdir b" "sb_id (geom b) = sb_id b"
  by (simp_all add: geom_def)

lemma geom_eqD:
  assumes "geom b = geom c"
  shows "max_clust b = max_clust c" "fatbase b = fatbase c" "sects_fat b = sects_fat c" "n_fats b = n_fats c"
    "fs_type b = fs_type c" "sb_drive b = sb_drive c" "sects_clust b = sects_clust c" "database b = database c"
    "dirbase b = dirbase c" "n_rootdir b = n_rootdir c" "sb_id b = sb_id c" "mirrored b = mirrored c"
proof -
  have m: "mirrored (geom d) = mirrored d" for d by (simp add: mirrored_def fun_eq_iff)
  show "max_clust b = max_clust c" "fatbase b = fatbase c" "sects_fat b = sects_fat c" "n_fats b = n_fats c"
    "fs_type b = fs_type c" "sb_drive b = sb_drive c" "sects_clust b = sects_clust c" "database b = database c"
    "dirbase b = dirbase c" "n_rootdir b = n_rootdir c" "sb_id b = sb_id c" "mirrored b = mirrored c"
    using geom_sel [of b] geom_sel [of c] m [of b] m [of c] unfolding assms by simp_all
qed

lemma mirror_ok:
  assumes "vol_dev D fs dev s" "span (win fs) 512 \<inter> cache_mem s = {}"
    "unat w + n * unat (sects_fat (SBs s fs)) < unat MAX_DISK_NSECS"
  shows "\<exists>s'. mirror_loop n fs w s = Ret s' \<and> vol_dev D fs dev s' \<and> cframe s s' \<and> SBs s' = SBs s \<and>
    (\<forall>a. a \<notin> cache_mem s \<longrightarrow> mem s' a = mem s a) \<and>
    (\<forall>y. (\<forall>k. 1 \<le> k \<and> k \<le> n \<longrightarrow> unat y \<noteq> unat w + k * unat (sects_fat (SBs s fs))) \<longrightarrow> bview s' dev y = bview s dev y)"
  using assms
proof (induction n arbitrary: w s)
  case 0
  then show ?case by simp
next
  case (Suc n)
  let ?f = "unat (sects_fat (SBs s fs))"
  define w1 where "w1 = w + sects_fat (SBs s fs)"
  have uw: "unat w1 = unat w + ?f"
    using Suc.prems(3) by (simp add: w1_def unat_word_ariths)
  have w1: "w1 < MAX_DISK_NSECS" using Suc.prems(3) uw by (simp add: word_less_nat_alt)
  obtain s1 where s1: "fatbase_disk_write (sb_drive (SBs s fs)) (win fs) w1 1 s = Ret (0, s1)" "vol_dev D fs dev s1" "cframe s s1" "SBs s1 = SBs s"
    "rw_effect IO_WRITE (win fs) dev w1 D s s1"
    using fat_write_one [OF Suc.prems(1) w1 Suc.prems(2)] by blast
  have dev: "dev \<in> D" using Suc.prems(1) by (simp add: vol_dev_def)
  have e: "bview s1 dev = (bview s dev)(w1 := rdbytes (mem s) (win fs) 512)" "\<forall>a. a \<notin> cache_mem s \<longrightarrow> mem s1 a = mem s a"
    using s1(5) dev by (simp_all add: rw_effect_def)
  note cm = cframe_same(1) [OF s1(3)]
  obtain s' where s': "mirror_loop n fs w1 s1 = Ret s'" "vol_dev D fs dev s'" "cframe s1 s'" "SBs s' = SBs s1"
    "\<forall>a. a \<notin> cache_mem s1 \<longrightarrow> mem s' a = mem s1 a"
    "\<forall>y. (\<forall>k. 1 \<le> k \<and> k \<le> n \<longrightarrow> unat y \<noteq> unat w1 + k * ?f) \<longrightarrow> bview s' dev y = bview s1 dev y"
    using Suc.IH [OF s1(2), of w1] Suc.prems(2,3) uw cm s1(4) by (auto simp: algebra_simps)
  have "bview s' dev y = bview s dev y" if y: "\<forall>k. 1 \<le> k \<and> k \<le> Suc n \<longrightarrow> unat y \<noteq> unat w + k * ?f" for y
  proof -
    have "unat y \<noteq> unat w1 + k * ?f" if "1 \<le> k \<and> k \<le> n" for k using y [rule_format, of "Suc k"] that uw by simp
    moreover have "y \<noteq> w1" using y [rule_format, of 1] uw by auto
    ultimately show ?thesis using s'(6) e(1) by simp
  qed
  then show ?case using s1 s' e(2) cm cframe_trans [OF s1(3) s'(3)] by (auto simp: Let_def w1_def)
qed

lemma vol_okD:
  assumes "vol_ok D fs dev s" and "b = SBs s fs"
  shows "vol_dev D fs dev s" "span (win fs) 512 \<inter> cache_mem s = {}" "dev \<in> D" "cache_inv s D"
    "fatbase b \<noteq> 0" "1 \<le> unat (n_fats b)" "unat (fatbase b) + unat (n_fats b) * unat (sects_fat b) \<le> unat MAX_DISK_NSECS"
    "winsect b < MAX_DISK_NSECS" "winflag b \<noteq> 0 \<Longrightarrow> unat (fatbase b) \<le> unat (winsect b)"
    "winsect b \<noteq> 0 \<Longrightarrow> winflag b = 0 \<Longrightarrow> rdbytes (mem s) (win fs) 512 = bview s dev (winsect b)"
  using assms unfolding vol_ok_def vol_dev_def by (simp_all add: Let_def word_le_nat_alt word_less_nat_alt unat_gt_0)

lemma vol_okI:
  assumes "vol_dev D fs dev t" "vol_ok D fs dev s" "cache_mem t = cache_mem s" "geom (SBs t fs) = geom (SBs s fs)"
    "winsect (SBs t fs) < MAX_DISK_NSECS" "winflag (SBs t fs) \<noteq> 0 \<Longrightarrow> unat (fatbase (SBs s fs)) \<le> unat (winsect (SBs t fs))"
    "winsect (SBs t fs) \<noteq> 0 \<Longrightarrow> winflag (SBs t fs) = 0 \<Longrightarrow> rdbytes (mem t) (win fs) 512 = bview t dev (winsect (SBs t fs))"
  shows "vol_ok D fs dev t"
  using assms geom_eqD [OF assms(4)] unfolding vol_ok_def by (simp add: Let_def word_le_nat_alt word_less_nat_alt)

lemma vol_dev_upd_sb:
  assumes "sb_drive (f (SBs s fs)) = sb_drive (SBs s fs)"
  shows "vol_dev D fs dev (upd_sb fs f s) = vol_dev D fs dev s"
  using assms by (simp add: vol_dev_def getDevice_rest [of "upd_sb fs f s" s])

lemma cframe_fat_rest: "cframe s t \<Longrightarrow> fat_rest t = fat_rest s"
  by (rule io_fat_rest) (simp add: cframe_def)

lemma fat_frameI:
  assumes "cframe s t" "SBs u = (SBs t)(fs := b)" "fat_rest u = fat_rest t" "sems u = sems t" "BlockCache u = BlockCache t" "mem u = mem t"
    "SBs t = SBs s" "geom b = geom (SBs s fs)" "\<forall>a. a \<notin> span (win fs) 512 \<union> cache_mem s \<longrightarrow> mem t a = mem s a"
  shows "fat_frame fs s u"
  using assms(1-9) cframe_fat_rest [OF assms(1)] by (simp add: fat_frame_def cframe_def)

text \<open>Writing the window back, with the copies of the allocation table.\<close>

lemma flush_ok:
  assumes v: "vol_ok D fs dev s"
  shows "\<exists>s'. window_flush fs s = Ret (True, s') \<and> vol_ok D fs dev s' \<and> fat_frame fs s s' \<and>
    SBs s' fs = (SBs s fs)\<lparr>winflag := 0\<rparr> \<and> (\<forall>a. a \<notin> cache_mem s \<longrightarrow> mem s' a = mem s a) \<and>
    (\<forall>y. \<not> mirrored (SBs s fs) y \<longrightarrow> fview fs dev s' y = fview fs dev s y)"
proof (cases "winflag (SBs s fs) = 0")
  case True
  then have "SBs s fs = (SBs s fs)\<lparr>winflag := 0\<rparr>" by simp
  then show ?thesis using True v by (auto simp: window_flush_def)
next
  case False
  define b where "b = SBs s fs"
  define w where "w = winsect b"
  note d = vol_okD [OF v b_def]
  have lo: "unat (fatbase b) \<le> unat w" using d(9) False by (simp add: w_def b_def)
  obtain s1 where s1: "fatbase_disk_write (sb_drive b) (win fs) w 1 s = Ret (0, s1)" "vol_dev D fs dev s1" "cframe s s1" "SBs s1 = SBs s"
    "rw_effect IO_WRITE (win fs) dev w D s s1"
    using fat_write_one [OF d(1) d(8) d(2)] unfolding w_def b_def by blast
  have e: "bview s1 dev = (bview s dev)(w := rdbytes (mem s) (win fs) 512)" "\<forall>a. a \<notin> cache_mem s \<longrightarrow> mem s1 a = mem s a"
    using s1(5) d(3) by (simp_all add: rw_effect_def)
  have cm: "cache_mem s1 = cache_mem s" by (rule cframe_same(1) [OF s1(3)])
  define s2 where "s2 = upd_sb fs (\<lambda>b. b\<lparr>winflag := 0\<rparr>) s1"
  have s2: "vol_dev D fs dev s2" "SBs s2 = (SBs s)(fs := b\<lparr>winflag := 0\<rparr>)" "mem s2 = mem s1" "bview s2 = bview s1" "cache_mem s2 = cache_mem s"
    "fat_rest s2 = fat_rest s1" "sems s2 = sems s1" "BlockCache s2 = BlockCache s1"
    using s1(2,4) cm by (simp_all add: s2_def vol_dev_upd_sb b_def)
  define n where "n = (if unat w < unat (fatbase b) + unat (sects_fat b) then unat (n_fats b) - 1 else 0)"
  have small: "unat (fatbase b + sects_fat b) = unat (fatbase b) + unat (sects_fat b)"
  proof -
    have "unat (sects_fat b) \<le> unat (n_fats b) * unat (sects_fat b)" using d(6) by simp
    then have "unat (fatbase b) + unat (sects_fat b) \<le> unat MAX_DISK_NSECS" using d(7) by (rule order_trans [OF add_left_mono])
    then show ?thesis by (simp add: unat_word_ariths)
  qed
  have bd: "unat w + n * unat (sects_fat (SBs s2 fs)) < unat MAX_DISK_NSECS"
  proof (cases "n = 0")
    case True
    then show ?thesis using d(8) by (simp add: w_def word_less_nat_alt)
  next
    case False
    then have n: "unat w < unat (fatbase b) + unat (sects_fat b)" "Suc n = unat (n_fats b)" using d(6) by (simp_all add: n_def split: if_splits)
    have "unat (n_fats b) * unat (sects_fat b) = unat (sects_fat b) + n * unat (sects_fat b)" by (simp add: n(2) [symmetric])
    then show ?thesis using n(1) d(7) by (simp add: s2(2))
  qed
  obtain s' where s': "mirror_loop n fs w s2 = Ret s'" "vol_dev D fs dev s'" "cframe s2 s'" "SBs s' = SBs s2" "\<forall>a. a \<notin> cache_mem s2 \<longrightarrow> mem s' a = mem s2 a"
    "\<forall>y. (\<forall>k. 1 \<le> k \<and> k \<le> n \<longrightarrow> unat y \<noteq> unat w + k * unat (sects_fat (SBs s2 fs))) \<longrightarrow> bview s' dev y = bview s2 dev y"
    using mirror_ok [OF s2(1) _ bd] d(2) s2(5) by auto
  have b1: "SBs s1 fs = b" by (simp add: s1(4) b_def)
  have run: "window_flush fs s = Ret (True, s')"
    using False s1(1) s'(1) small
    by (auto simp: window_flush_def b1 Let_def b_def [symmetric] w_def [symmetric] s2_def [symmetric] s2(2) n_def word_less_nat_alt split: if_splits)
  have mem': "\<forall>a. a \<notin> cache_mem s \<longrightarrow> mem s' a = mem s a" using s'(5) s2(3,5) e(2) by simp
  have wb: "rdbytes (mem s') (win fs) 512 = rdbytes (mem s) (win fs) 512" by (rule rdbytes_cong) (use mem' d(2) in auto)
  have out: "bview s' dev y = bview s2 dev y" if y: "\<not> mirrored b y" for y
  proof -
    have "unat y \<noteq> unat w + k * unat (sects_fat b)" if k: "1 \<le> k \<and> k \<le> n" for k
    proof
      assume eq: "unat y = unat w + k * unat (sects_fat b)"
      have n: "unat w < unat (fatbase b) + unat (sects_fat b)" "Suc n = unat (n_fats b)" using k d(6) by (simp_all add: n_def split: if_splits)
      have "unat (sects_fat b) \<le> k * unat (sects_fat b)" using k by simp
      moreover have "Suc k * unat (sects_fat b) \<le> unat (n_fats b) * unat (sects_fat b)" using k n(2) by (intro mult_right_mono) simp_all
      ultimately have "mirrored b y" unfolding mirrored_def mult_Suc using eq lo n(1) by linarith
      then show False using y by simp
    qed
    then show ?thesis using s'(6) by (simp add: s2(2))
  qed
  have wm: "\<not> mirrored b w" if "n \<noteq> 0" using that by (simp add: n_def mirrored_def split: if_splits)
  have bw: "bview s' dev w = rdbytes (mem s) (win fs) 512"
  proof (cases "n = 0")
    case True
    then show ?thesis using s'(1) e(1) s2(4) by simp
  next
    case False
    then show ?thesis using out [OF wm] e(1) s2(4) by simp
  qed
  have fr: "fat_frame fs s s'"
    using cframe_fat_rest [OF s1(3)] cframe_fat_rest [OF s'(3)] s1(3) s'(3) mem' s2
    by (simp add: fat_frame_def cframe_def s'(4) geom_def b_def)
  have "vol_ok D fs dev s'"
    by (rule vol_okI [OF s'(2) v]) (use fat_frame_cache_mem [OF fr] d(8) wb bw in \<open>simp_all add: s'(4) s2(2) geom_def b_def w_def\<close>)
  moreover have "fview fs dev s' y = fview fs dev s y" if "\<not> mirrored b y" for y
    using out [OF that] e(1) s2(4) wb lo d(5) by (auto simp: fview_def s'(4) s2(2) w_def b_def unat_eq_zero)
  ultimately show ?thesis using run fr mem' by (simp add: s'(4) s2(2) b_def)
qed

lemma move_window_ok:
  assumes v: "vol_ok D fs dev s" and x: "x < MAX_DISK_NSECS" "x \<noteq> 0"
  shows "\<exists>s'. move_window fs x s = Ret (True, s') \<and> vol_ok D fs dev s' \<and> fat_frame fs s s' \<and>
    SBs s' fs = (SBs s fs)\<lparr>winsect := x, winflag := winflag (SBs s' fs)\<rparr> \<and>
    (\<forall>y. \<not> mirrored (SBs s fs) y \<longrightarrow> fview fs dev s' y = fview fs dev s y)"
proof (cases "winsect (SBs s fs) = x")
  case True
  then have "SBs s fs = (SBs s fs)\<lparr>winsect := x, winflag := winflag (SBs s fs)\<rparr>" by simp
  then show ?thesis using True v by (auto simp: move_window_def)
next
  case False
  obtain s1 where s1: "window_flush fs s = Ret (True, s1)" "vol_ok D fs dev s1" "fat_frame fs s s1" "SBs s1 fs = (SBs s fs)\<lparr>winflag := 0\<rparr>"
    "\<forall>y. \<not> mirrored (SBs s fs) y \<longrightarrow> fview fs dev s1 y = fview fs dev s y"
    using flush_ok [OF v] by blast
  note d = vol_okD [OF s1(2) refl]
  obtain s2 where s2: "fatbase_disk_read (sb_drive (SBs s1 fs)) (win fs) x 1 s1 = Ret (0, s2)" "vol_dev D fs dev s2" "cframe s1 s2" "SBs s2 = SBs s1"
    "rw_effect IO_READ (win fs) dev x D s1 s2"
    using fat_read_one [OF d(1) x(1) d(2)] by blast
  have e: "bview s2 dev = bview s1 dev" "rdbytes (mem s2) (win fs) 512 = bview s1 dev x"
    "\<forall>a. a \<notin> span (win fs) 512 \<union> cache_mem s1 \<longrightarrow> mem s2 a = mem s1 a"
    using s2(5) d(3) by (simp_all add: rw_effect_def)
  define s' where "s' = upd_sb fs (\<lambda>b. b\<lparr>winsect := x\<rparr>) s2"
  have sb: "SBs s' fs = (SBs s fs)\<lparr>winsect := x, winflag := 0\<rparr>" by (simp add: s'_def s2(4) s1(4))
  have run: "move_window fs x s = Ret (True, s')"
    using False x(2) s1(1) s2(1) by (simp add: move_window_def s'_def)
  have f1: "fat_frame fs s1 s'"
    by (rule fat_frameI [OF s2(3), of _ _ "(SBs s1 fs)\<lparr>winsect := x\<rparr>"]) (use e(3) in \<open>simp_all add: s'_def s2(4) geom_def\<close>)
  have vd: "vol_dev D fs dev s'" using s2(2) by (simp add: s'_def vol_dev_upd_sb)
  have "vol_ok D fs dev s'"
  proof (rule vol_okI [OF vd s1(2) fat_frame_cache_mem [OF f1]])
    show "rdbytes (mem s') (win fs) 512 = bview s' dev (winsect (SBs s' fs))" unfolding sb using e by (simp add: s'_def)
  qed (use x in \<open>simp_all add: sb s1(4) geom_def\<close>)
  moreover have "fview fs dev s' y = fview fs dev s y" if y: "\<not> mirrored (SBs s fs) y" for y
  proof -
    have "fview fs dev s1 y = bview s1 dev y" using d(10) s1(4) by (auto simp: fview_def)
    moreover have "fview fs dev s' y = bview s1 dev y" using e by (simp add: fview_def sb) (simp add: s'_def e)
    ultimately show ?thesis using s1(5) y by simp
  qed
  ultimately show ?thesis using run fat_frame_trans [OF s1(3) f1] by (intro exI [of _ s']) (simp add: sb)
qed

end
