(* ===== verification/Fat_Table.thy ===== *)
theory Fat_Table
  imports Fat_Window
begin

text \<open>
  The file allocation table.  The table is an array of bytes spread over the sectors of the first copy; the
  three formats read and write its entries at their own offsets.  The locale \<open>cluster_table\<close> is the contract of
  \<^verbatim>\<open>get_cluster\<close> and \<^verbatim>\<open>put_cluster\<close>; the chain operations are proved in it once and hold for FAT12, FAT16 and
  FAT32 by interpretation.
\<close>

section \<open>The table as bytes\<close>

definition fbyte :: "ptr \<Rightarrow> ptr \<Rightarrow> 'a kfat_scheme \<Rightarrow> nat \<Rightarrow> u8" where
  "fbyte fs dev s i = fview fs dev s (fatbase (SBs s fs) + of_nat (i div 512)) ! (i mod 512)"

abbreviation (input) fat_bytes :: "FATBase_SuperBlock \<Rightarrow> nat" where
  "fat_bytes b \<equiv> unat (sects_fat b) * 512"

definition data_sector :: "FATBase_SuperBlock \<Rightarrow> u32 \<Rightarrow> bool" where
  "data_sector b y \<longleftrightarrow> unat y < unat (fatbase b) \<or> unat (fatbase b) + unat (n_fats b) * unat (sects_fat b) \<le> unat y"

text \<open>What reading and writing table entries leave alone.\<close>

definition fat_kept :: "ptr \<Rightarrow> ptr \<Rightarrow> 'a kfat_scheme \<Rightarrow> 'a kfat_scheme \<Rightarrow> bool" where
  "fat_kept fs dev s t \<longleftrightarrow> fat_frame fs s t \<and> last_clust (SBs t fs) = last_clust (SBs s fs) \<and>
     free_clust (SBs t fs) = free_clust (SBs s fs) \<and> fsi_flag (SBs t fs) = fsi_flag (SBs s fs) \<and>
     (winsect (SBs t fs) = winsect (SBs s fs) \<or> \<not> data_sector (SBs s fs) (winsect (SBs t fs))) \<and>
     (\<forall>y. data_sector (SBs s fs) y \<longrightarrow> fview fs dev t y = fview fs dev s y)"

lemma fat_frame_geom: "fat_frame fs s t \<Longrightarrow> geom (SBs t fs) = geom (SBs s fs)"
  by (simp add: fat_frame_def)

lemma data_sector_geom: "geom b = geom c \<Longrightarrow> data_sector b = data_sector c"
  using geom_eqD [of b c] by (simp add: fun_eq_iff data_sector_def)

lemma fat_kept_refl [simp]: "fat_kept fs dev s s"
  by (simp add: fat_kept_def)

lemma fat_kept_trans: "fat_kept fs dev s t \<Longrightarrow> fat_kept fs dev t u \<Longrightarrow> fat_kept fs dev s u"
  using data_sector_geom [OF fat_frame_geom, of fs s t] unfolding fat_kept_def by (auto intro: fat_frame_trans)

lemma fat_keptD:
  assumes "fat_kept fs dev s t"
  shows "fat_frame fs s t" "geom (SBs t fs) = geom (SBs s fs)" "max_clust (SBs t fs) = max_clust (SBs s fs)"
    "fatbase (SBs t fs) = fatbase (SBs s fs)" "sects_fat (SBs t fs) = sects_fat (SBs s fs)" "fs_type (SBs t fs) = fs_type (SBs s fs)"
    "last_clust (SBs t fs) = last_clust (SBs s fs)" "free_clust (SBs t fs) = free_clust (SBs s fs)"
  using assms geom_eqD [of "SBs t fs" "SBs s fs"] unfolding fat_kept_def fat_frame_def by auto

lemma data_not_mirrored: "data_sector b y \<Longrightarrow> \<not> mirrored b y"
  by (cases "n_fats b = 0") (auto simp: data_sector_def mirrored_def)

lemma fat_sector:
  assumes "vol_ok D fs dev s" "b = SBs s fs" "q < unat (sects_fat b)" "x = fatbase b + of_nat q"
  shows "unat x = unat (fatbase b) + q" "x \<noteq> 0" "x < MAX_DISK_NSECS" "\<not> mirrored b x" "\<not> data_sector b x"
proof -
  note d = vol_okD [OF assms(1,2)]
  have "1 * unat (sects_fat b) \<le> unat (n_fats b) * unat (sects_fat b)" by (rule mult_right_mono) (use d(6) in simp_all)
  then have hi: "unat (fatbase b) + q < unat (fatbase b) + unat (n_fats b) * unat (sects_fat b)" using assms(3) by linarith
  then have le: "unat (fatbase b) + q < unat MAX_DISK_NSECS" using d(7) by linarith
  then show u: "unat x = unat (fatbase b) + q" by (simp add: assms(4) unat_word_ariths unat_of_nat_u32)
  show "x < MAX_DISK_NSECS" using u le by (simp add: word_less_nat_alt)
  show "x \<noteq> 0" using u d(5) by (metis add_is_0 unat_eq_zero unat_0)
  show "\<not> mirrored b x" using u assms(3) by (simp add: mirrored_def)
  show "\<not> data_sector b x" unfolding data_sector_def u using hi by linarith
qed

definition win_at :: "ptr \<Rightarrow> nat \<Rightarrow> 'a kfat_scheme \<Rightarrow> bool" where
  "win_at fs q s \<longleftrightarrow> winsect (SBs s fs) = fatbase (SBs s fs) + of_nat q"

lemma goto_ok:
  assumes "vol_ok D fs dev s" "q < unat (sects_fat (SBs s fs))"
  shows "\<exists>s'. move_window fs (fatbase (SBs s fs) + of_nat q) s = Ret (True, s') \<and> vol_ok D fs dev s' \<and> fat_kept fs dev s s' \<and> win_at fs q s' \<and>
    (\<forall>i < fat_bytes (SBs s fs). fbyte fs dev s' i = fbyte fs dev s i)"
proof -
  let ?x = "fatbase (SBs s fs) + of_nat q"
  note x = fat_sector [OF assms(1) refl assms(2) refl]
  obtain s' where s': "move_window fs ?x s = Ret (True, s')" "vol_ok D fs dev s'" "fat_frame fs s s'"
    "SBs s' fs = (SBs s fs)\<lparr>winsect := ?x, winflag := winflag (SBs s' fs)\<rparr>" "\<forall>y. \<not> mirrored (SBs s fs) y \<longrightarrow> fview fs dev s' y = fview fs dev s y"
    using move_window_ok [OF assms(1) x(3,2)] by blast
  have sel: "last_clust (SBs s' fs) = last_clust (SBs s fs)" "free_clust (SBs s' fs) = free_clust (SBs s fs)" "fsi_flag (SBs s' fs) = fsi_flag (SBs s fs)"
    "fatbase (SBs s' fs) = fatbase (SBs s fs)" "winsect (SBs s' fs) = ?x"
    by (subst s'(4), simp)+
  have "fat_kept fs dev s s'" using s'(3,5) sel data_not_mirrored x(5) by (auto simp: fat_kept_def)
  moreover have "fbyte fs dev s' i = fbyte fs dev s i" if "i < fat_bytes (SBs s fs)" for i
  proof -
    have "i div 512 < unat (sects_fat (SBs s fs))" using that by (simp add: less_mult_imp_div_less)
    from fat_sector(4) [OF assms(1) refl this refl] show ?thesis using s'(5) by (simp add: fbyte_def sel)
  qed
  ultimately show ?thesis using s'(1,2) sel by (auto simp: win_at_def)
qed

lemma rdbytes_nth: "i < n \<Longrightarrow> rdbytes m p n ! i = m (p + of_nat i)"
  by (simp add: rdbytes_def)

lemma window_byte:
  assumes "vol_ok D fs dev s" "win_at fs q s" "q < unat (sects_fat (SBs s fs))" "i div 512 = q"
  shows "mem s (win fs + of_nat (i mod 512)) = fbyte fs dev s i"
proof -
  note x = fat_sector [OF assms(1) refl assms(3) refl]
  have "fview fs dev s (fatbase (SBs s fs) + of_nat q) = rdbytes (mem s) (win fs) 512"
    using assms(2) x(2) by (simp add: fview_def win_at_def)
  then show ?thesis using assms(4) by (simp add: fbyte_def rdbytes_nth)
qed

lemma poke_ok:
  assumes v: "vol_ok D fs dev s" and w: "win_at fs q s" "q < unat (sects_fat (SBs s fs))"
    and g: "\<forall>a. a \<notin> span (win fs) 512 \<longrightarrow> g (mem s) a = mem s a" and t: "t = set_winflag fs (upd_mem g s)"
  shows "vol_ok D fs dev t" "fat_kept fs dev s t" "win_at fs q t"
    "\<And>i. i < fat_bytes (SBs s fs) \<Longrightarrow> fbyte fs dev t i = (if i div 512 = q then g (mem s) (win fs + of_nat (i mod 512)) else fbyte fs dev s i)"
proof -
  note d = vol_okD [OF v refl] and x = fat_sector [OF v refl w(2) refl]
  have ws: "winsect (SBs s fs) = fatbase (SBs s fs) + of_nat q" using w(1) by (simp add: win_at_def)
  have c: "cache_inv (upd_mem g s) D" "bview (upd_mem g s) = bview s"
    by (rule cache_write_elsewhere [OF d(4)]; use g d(2) in blast)+
  have gd: "getDeviceWithId i (upd_mem g s) = getDeviceWithId i s" for i by (rule getDevice_rest) simp
  have vd: "vol_dev D fs dev (upd_mem g s)" using d(1) c(1) gd by (simp add: vol_dev_def)
  then have vt: "vol_dev D fs dev t" by (simp add: t set_winflag_def vol_dev_upd_sb)
  have sb: "SBs t fs = (SBs s fs)\<lparr>winflag := 1\<rparr>" "mem t = g (mem s)" "bview t = bview s" "cache_mem t = cache_mem s"
    by (simp_all add: t set_winflag_def c(2))
  show vol: "vol_ok D fs dev t"
    by (rule vol_okI [OF vt v sb(4)]) (use d(8) x(1) in \<open>simp_all add: sb geom_def ws\<close>)
  have fv: "fview fs dev t y = fview fs dev s y" if "y \<noteq> fatbase (SBs s fs) + of_nat q" for y
    using that by (simp add: fview_def sb ws)
  have fr: "fat_frame fs s t" using g by (simp add: fat_frame_def sb geom_def) (simp add: t set_winflag_def)
  have "fview fs dev t y = fview fs dev s y" if "data_sector (SBs s fs) y" for y by (rule fv) (use that x(5) in auto)
  then show "fat_kept fs dev s t" using fr by (simp add: fat_kept_def sb)
  show at: "win_at fs q t" using w(1) by (simp add: win_at_def sb)
  fix i assume i: "i < fat_bytes (SBs s fs)"
  show "fbyte fs dev t i = (if i div 512 = q then g (mem s) (win fs + of_nat (i mod 512)) else fbyte fs dev s i)"
  proof (cases "i div 512 = q")
    case True
    then show ?thesis using window_byte [OF vol at _ True] w(2) by (simp add: sb)
  next
    case False
    have q': "i div 512 < unat (sects_fat (SBs s fs))" using i by (simp add: less_mult_imp_div_less)
    note y = fat_sector [OF v refl q' refl]
    have "fatbase (SBs s fs) + of_nat (i div 512) \<noteq> fatbase (SBs s fs) + of_nat q"
      using x(1) y(1) False by (metis add_left_cancel)
    then show ?thesis using False fv by (simp add: fbyte_def sb)
  qed
qed

lemma sector_offset:
  assumes "(i :: nat) mod 512 + k < 512"
  shows "(i + k) mod 512 = i mod 512 + k" "(i + k) div 512 = i div 512"
proof -
  have e: "i + k = i div 512 * 512 + (i mod 512 + k)" by simp
  have "(i div 512 * 512 + (i mod 512 + k)) mod 512 = i mod 512 + k" "(i div 512 * 512 + (i mod 512 + k)) div 512 = i div 512"
    using assms mod_mult_self3 [of "i div 512" 512 "i mod 512 + k"] div_mult_self3 [of 512 "i div 512" "i mod 512 + k"] by simp_all
  then show "(i + k) mod 512 = i mod 512 + k" "(i + k) div 512 = i div 512" unfolding e [symmetric] by simp_all
qed

lemma window_bytes:
  assumes "vol_ok D fs dev s" "win_at fs (i div 512) s" "i div 512 < unat (sects_fat (SBs s fs))" "i mod 512 + k < 512"
  shows "mem s (win fs + of_nat (i mod 512) + of_nat k) = fbyte fs dev s (i + k)"
  using window_byte [OF assms(1-3), of "i + k"] sector_offset [OF assms(4)] by (simp add: add.assoc)

lemma poke_bytes:
  assumes v: "vol_ok D fs dev s" and w: "win_at fs (i div 512) s" "i div 512 < unat (sects_fat (SBs s fs))"
    and i: "i mod 512 + length vs \<le> 512" and t: "t = set_winflag fs (upd_mem (wrbytes (win fs + of_nat (i mod 512)) vs) s)"
  shows "vol_ok D fs dev t" "fat_kept fs dev s t" "win_at fs (i div 512) t"
    "\<And>j. j < fat_bytes (SBs s fs) \<Longrightarrow> fbyte fs dev t j = (if i \<le> j \<and> j < i + length vs then vs ! (j - i) else fbyte fs dev s j)"
proof -
  let ?p = "win fs + of_nat (i mod 512)"
  have "wrbytes ?p vs (mem s) a = mem s a" if "a \<notin> span (win fs) 512" for a
  proof (rule wrbytes_outside)
    fix k assume "k < length vs"
    then have "?p + of_nat k \<in> span (win fs) 512" unfolding span_def using i by (intro image_eqI [of _ _ "i mod 512 + k"]) simp_all
    then show "a \<noteq> ?p + of_nat k" using that by blast
  qed
  then have g: "\<forall>a. a \<notin> span (win fs) 512 \<longrightarrow> wrbytes ?p vs (mem s) a = mem s a" by blast
  note p = poke_ok [where g = "wrbytes ?p vs", OF v w g t]
  show "vol_ok D fs dev t" "fat_kept fs dev s t" "win_at fs (i div 512) t" using p(1-3) by simp_all
  fix j assume j: "j < fat_bytes (SBs s fs)"
  show "fbyte fs dev t j = (if i \<le> j \<and> j < i + length vs then vs ! (j - i) else fbyte fs dev s j)"
  proof (cases "i \<le> j \<and> j < i + length vs")
    case True
    define k where "k = j - i"
    have k: "j = i + k" "k < length vs" "i mod 512 + k < 512" using True i by (auto simp: k_def)
    have "wrbytes ?p vs (mem s) (?p + of_nat k) = vs ! k" by (rule wrbytes_inside) (use k i in simp_all)
    then show ?thesis using True p(4) [OF j] sector_offset [OF k(3)] k(1) by (simp add: add.assoc)
  next
    case False
    have "wrbytes ?p vs (mem s) (win fs + of_nat (j mod 512)) = mem s (win fs + of_nat (j mod 512))" if q: "j div 512 = i div 512"
    proof (rule wrbytes_outside)
      fix k assume k: "k < length vs"
      have "j mod 512 \<noteq> i mod 512 + k"
      proof
        assume e: "j mod 512 = i mod 512 + k"
        have "j = i div 512 * 512 + j mod 512" using div_mult_mod_eq [of j 512] q by simp
        then have "j = i + k" using div_mult_mod_eq [of i 512] unfolding e by linarith
        then show False using False k by simp
      qed
      moreover have "j mod 512 < 2 ^ 32" "i mod 512 + k < 2 ^ 32" using i k by simp_all
      ultimately show "win fs + of_nat (j mod 512) \<noteq> ?p + of_nat k" using of_nat_u32_inject [of "j mod 512" "i mod 512 + k"] by (simp add: add.assoc)
    qed
    then show ?thesis using False p(4) [OF j] window_byte [OF v w, of j] by auto
  qed
qed

lemma unat_and_511: "unat (x AND 511 :: u32) = unat x mod 512"
proof -
  have "x AND 511 = take_bit 9 x" by (simp add: take_bit_eq_mask mask_numeral)
  then show ?thesis by (simp add: take_bit_eq_mod unat_mod_distrib)
qed

text \<open>The offset in the window of a table entry of \<open>k\<close> bytes.\<close>

lemma entry_offset:
  assumes "k = 2 \<or> k = 4"
  shows "ucast (ucast (c :: u32) :: u16) * of_nat k AND 511 = (of_nat ((k * unat c) mod 512) :: u32)"
proof -
  have u: "unat (ucast (ucast c :: u16) :: u32) = unat c mod 65536" by (simp add: unsigned_ucast_eq take_bit_eq_mod unat_mod_distrib)
  have m: "unat c mod 65536 * k mod 4294967296 = unat c mod 65536 * k"
    by (rule mod_less) (use assms mod_less_divisor [of 65536 "unat c"] in \<open>auto simp: less_trans [of _ 262144]\<close>)
  have "unat c mod 65536 * k mod 512 = (unat c mod 65536 mod 512) * k mod 512" by (rule mod_mult_left_eq [symmetric])
  also have "unat c mod 65536 mod 512 = unat c mod 512" by (rule mod_mod_cancel) simp
  also have "unat c mod 512 * k mod 512 = unat c * k mod 512" by (rule mod_mult_left_eq)
  finally have "unat (ucast (ucast c :: u16) * of_nat k AND 511 :: u32) = unat c * k mod 512"
    using u m assms by (auto simp: unat_and_511 unat_word_ariths)
  moreover have "unat (of_nat (k * unat c mod 512) :: u32) = unat c * k mod 512"
    by (simp add: unat_of_nat_u32 mult.commute less_trans [of _ 512])
  ultimately show ?thesis by (simp only: word_unat_eq_iff)
qed

section \<open>Entries\<close>

definition e16 :: "(nat \<Rightarrow> u8) \<Rightarrow> nat \<Rightarrow> u32" where
  "e16 B c = ucast (ucast (B (2 * c)) OR push_bit 8 (ucast (B (2 * c + 1))) :: u16)"

definition e32 :: "(nat \<Rightarrow> u8) \<Rightarrow> nat \<Rightarrow> u32" where
  "e32 B c = (ucast (B (4 * c)) OR push_bit 8 (ucast (B (4 * c + 1))) OR push_bit 16 (ucast (B (4 * c + 2))) OR
     push_bit 24 (ucast (B (4 * c + 3)))) AND 0x0FFFFFFF"

definition e12 :: "(nat \<Rightarrow> u8) \<Rightarrow> nat \<Rightarrow> u32" where
  "e12 B c = (let w = (ucast (B (3 * c div 2)) OR push_bit 8 (ucast (B (3 * c div 2 + 1))) :: u16)
     in ucast (if odd c then drop_bit 4 w else w AND 0xFFF))"

text \<open>What the two operations do, for a way \<open>e\<close> to read entries and the bits \<open>m\<close> an entry keeps.\<close>

definition reads :: "((nat \<Rightarrow> u8) \<Rightarrow> nat \<Rightarrow> u32) \<Rightarrow> ptr set \<Rightarrow> ptr \<Rightarrow> ptr \<Rightarrow> u32 \<Rightarrow> 'a kfat_scheme \<Rightarrow> bool" where
  "reads e D fs dev c s \<longleftrightarrow> (\<exists>s'. get_cluster fs c s = Ret (e (fbyte fs dev s) (unat c), s') \<and> vol_ok D fs dev s' \<and> fat_kept fs dev s s' \<and>
     (\<forall>i < fat_bytes (SBs s fs). fbyte fs dev s' i = fbyte fs dev s i))"

definition writes :: "((nat \<Rightarrow> u8) \<Rightarrow> nat \<Rightarrow> u32) \<Rightarrow> u32 \<Rightarrow> ptr set \<Rightarrow> ptr \<Rightarrow> ptr \<Rightarrow> u32 \<Rightarrow> u32 \<Rightarrow> 'a kfat_scheme \<Rightarrow> bool" where
  "writes e m D fs dev c v s \<longleftrightarrow> (\<exists>s'. put_cluster fs c v s = Ret (True, s') \<and> vol_ok D fs dev s' \<and> fat_kept fs dev s s' \<and>
     (\<forall>k < unat (max_clust (SBs s fs)). e (fbyte fs dev s') k = (if k = unat c then v AND m else e (fbyte fs dev s) k)))"

lemma div_u32: "(c :: u32) div d = of_nat (unat c div unat d)"
  by (metis u32_of_unat unat_div_distrib)

text \<open>FAT16: two bytes an entry.\<close>

lemma fat16_at:
  assumes "2 * unat (max_clust b) \<le> fat_bytes b" "c < max_clust b"
  shows "2 * unat c div 512 < unat (sects_fat b)" "fatbase b + c div 256 = fatbase b + of_nat (2 * unat c div 512)"
    "ucast (ucast c :: u16) * 2 AND 511 = (of_nat (2 * unat c mod 512) :: u32)" "2 * unat c mod 512 + 1 < 512" "2 * unat c + 1 < fat_bytes b"
proof -
  have l: "unat c < unat (max_clust b)" using assms(2) by (simp add: word_less_nat_alt)
  then show f: "2 * unat c + 1 < fat_bytes b" using assms(1) by linarith
  then show "2 * unat c div 512 < unat (sects_fat b)" by (simp add: less_mult_imp_div_less)
  have "2 * unat c div 512 = unat c div 256" using div_mult2_eq [of "2 * unat c" 2 256] by simp
  then show "fatbase b + c div 256 = fatbase b + of_nat (2 * unat c div 512)" by (simp add: div_u32)
  show "ucast (ucast c :: u16) * 2 AND 511 = (of_nat (2 * unat c mod 512) :: u32)" using entry_offset [of 2 c] by simp
  have "2 * unat c mod 512 = 2 * (unat c mod 256)" using mult_mod_right [of 2 "unat c" 256] by simp
  then show "2 * unat c mod 512 + 1 < 512" by simp
qed

lemma get16:
  assumes v: "vol_ok D fs dev s" and b: "fs_type (SBs s fs) = FS_FAT16" "2 * unat (max_clust (SBs s fs)) \<le> fat_bytes (SBs s fs)"
    and c: "2 \<le> c" "c < max_clust (SBs s fs)"
  shows "reads e16 D fs dev c s"
proof -
  note a = fat16_at [OF b(2) c(2)]
  obtain s' where s': "move_window fs (fatbase (SBs s fs) + of_nat (2 * unat c div 512)) s = Ret (True, s')" "vol_ok D fs dev s'" "fat_kept fs dev s s'"
    "win_at fs (2 * unat c div 512) s'" "\<forall>i < fat_bytes (SBs s fs). fbyte fs dev s' i = fbyte fs dev s i"
    using goto_ok [OF v a(1)] by blast
  have q: "2 * unat c div 512 < unat (sects_fat (SBs s' fs))" using a(1) fat_keptD(5) [OF s'(3)] by simp
  have "mem s' (win fs + of_nat (2 * unat c mod 512)) = fbyte fs dev s (2 * unat c)"
    "mem s' (win fs + of_nat (2 * unat c mod 512) + 1) = fbyte fs dev s (2 * unat c + 1)"
    using window_bytes [OF s'(2,4) q, of 0] window_bytes [OF s'(2,4) q, of 1] a(4,5) s'(5) by simp_all
  then have "ucast (LD_WORD (mem s') (win fs + (ucast (ucast c :: u16) * 2 AND 511))) = e16 (fbyte fs dev s) (unat c)"
    unfolding a(3) by (simp add: LD_WORD_def e16_def)
  then have "get_cluster fs c s = Ret (e16 (fbyte fs dev s) (unat c), s')"
    using s'(1) b(1) c by (simp add: get_cluster_def a(2))
  then show ?thesis using s' by (auto simp: reads_def)
qed

lemma e16_put:
  assumes "\<forall>j < n. B' j = (if 2 * c \<le> j \<and> j < 2 * c + 2 then [ucast (ucast v :: u16), ucast (drop_bit 8 (ucast v :: u16))] ! (j - 2 * c) else B j)"
    "2 * k + 1 < n"
  shows "e16 B' k = (if k = c then v AND 0xFFFF else e16 B k)"
proof (cases "k = c")
  case True
  have m: "(0xFFFF :: u32) = mask 16" by (simp add: mask_numeral)
  have "B' (2 * c) = ucast (ucast v :: u16)" "B' (2 * c + 1) = ucast (drop_bit 8 (ucast v :: u16))" using assms True by simp_all
  moreover have "ucast (ucast (ucast (ucast v :: u16) :: u8) OR push_bit 8 (ucast (ucast (drop_bit 8 (ucast v :: u16)) :: u8)) :: u16) = v AND 0xFFFF"
    unfolding m by (rule bit_eqI) (auto simp: bit_ucast_iff bit_or_iff bit_and_iff bit_push_bit_iff bit_drop_bit_eq bit_mask_iff possible_bit_word)
  ultimately show ?thesis using True by (simp add: e16_def)
next
  case False
  then have "B' (2 * k) = B (2 * k)" "B' (2 * k + 1) = B (2 * k + 1)" using assms by auto
  then show ?thesis using False by (simp add: e16_def)
qed

lemma put16:
  assumes v: "vol_ok D fs dev s" and b: "fs_type (SBs s fs) = FS_FAT16" "2 * unat (max_clust (SBs s fs)) \<le> fat_bytes (SBs s fs)"
    and c: "c < max_clust (SBs s fs)"
  shows "writes e16 0xFFFF D fs dev c val s"
proof -
  note a = fat16_at [OF b(2) c]
  obtain s1 where s1: "move_window fs (fatbase (SBs s fs) + of_nat (2 * unat c div 512)) s = Ret (True, s1)" "vol_ok D fs dev s1" "fat_kept fs dev s s1"
    "win_at fs (2 * unat c div 512) s1" "\<forall>i < fat_bytes (SBs s fs). fbyte fs dev s1 i = fbyte fs dev s i"
    using goto_ok [OF v a(1)] by blast
  define p where "p = win fs + of_nat (2 * unat c mod 512)"
  define vs where "vs = [ucast (ucast val :: u16), ucast (drop_bit 8 (ucast val :: u16)) :: u8]"
  define t where "t = set_winflag fs (upd_mem (wrbytes p vs) s1)"
  have q: "2 * unat c div 512 < unat (sects_fat (SBs s1 fs))" using a(1) fat_keptD(5) [OF s1(3)] by simp
  have l: "2 * unat c mod 512 + length vs \<le> 512" using a(4) by (simp add: vs_def)
  note pk = poke_bytes [OF s1(2,4) q l t_def [unfolded p_def]]
  have "ST_WORD p (ucast val) = wrbytes p vs" by (simp add: fun_eq_iff ST_WORD_def vs_def)
  then have "put_cluster fs c val s = Ret (True, t)"
    using s1(1) b(1) by (simp add: put_cluster_def Let_def a(2,3) t_def p_def)
  moreover have "fbyte fs dev t j = (if 2 * unat c \<le> j \<and> j < 2 * unat c + 2 then vs ! (j - 2 * unat c) else fbyte fs dev s j)"
    if "j < fat_bytes (SBs s fs)" for j
    using pk(4) [of j] that s1(5) fat_keptD(5) [OF s1(3)] by (simp add: vs_def)
  then have "e16 (fbyte fs dev t) k = (if k = unat c then val AND 0xFFFF else e16 (fbyte fs dev s) k)" if "k < unat (max_clust (SBs s fs))" for k
    by (intro e16_put [of "fat_bytes (SBs s fs)"]) (use that b(2) in \<open>simp_all add: vs_def\<close>)
  ultimately show ?thesis using pk(1) fat_kept_trans [OF s1(3) pk(2)] by (auto simp: writes_def)
qed

text \<open>FAT32: four bytes an entry, of which the upper four bits are not part of it.\<close>

lemma fat32_at:
  assumes "4 * unat (max_clust b) \<le> fat_bytes b" "c < max_clust b"
  shows "4 * unat c div 512 < unat (sects_fat b)" "fatbase b + c div 128 = fatbase b + of_nat (4 * unat c div 512)"
    "ucast (ucast c :: u16) * 4 AND 511 = (of_nat (4 * unat c mod 512) :: u32)" "4 * unat c mod 512 + 3 < 512" "4 * unat c + 3 < fat_bytes b"
proof -
  have l: "unat c < unat (max_clust b)" using assms(2) by (simp add: word_less_nat_alt)
  then show f: "4 * unat c + 3 < fat_bytes b" using assms(1) by linarith
  then show "4 * unat c div 512 < unat (sects_fat b)" by (simp add: less_mult_imp_div_less)
  have "4 * unat c div 512 = unat c div 128" using div_mult2_eq [of "4 * unat c" 4 128] by simp
  then show "fatbase b + c div 128 = fatbase b + of_nat (4 * unat c div 512)" by (simp add: div_u32)
  show "ucast (ucast c :: u16) * 4 AND 511 = (of_nat (4 * unat c mod 512) :: u32)" using entry_offset [of 4 c] by simp
  have "4 * unat c mod 512 = 4 * (unat c mod 128)" using mult_mod_right [of 4 "unat c" 128] by simp
  moreover have "unat c mod 128 < 128" by simp
  ultimately show "4 * unat c mod 512 + 3 < 512" by linarith
qed

lemma get32:
  assumes v: "vol_ok D fs dev s" and b: "fs_type (SBs s fs) = FS_FAT32" "4 * unat (max_clust (SBs s fs)) \<le> fat_bytes (SBs s fs)"
    and c: "2 \<le> c" "c < max_clust (SBs s fs)"
  shows "reads e32 D fs dev c s"
proof -
  note a = fat32_at [OF b(2) c(2)]
  obtain s' where s': "move_window fs (fatbase (SBs s fs) + of_nat (4 * unat c div 512)) s = Ret (True, s')" "vol_ok D fs dev s'" "fat_kept fs dev s s'"
    "win_at fs (4 * unat c div 512) s'" "\<forall>i < fat_bytes (SBs s fs). fbyte fs dev s' i = fbyte fs dev s i"
    using goto_ok [OF v a(1)] by blast
  have q: "4 * unat c div 512 < unat (sects_fat (SBs s' fs))" using a(1) fat_keptD(5) [OF s'(3)] by simp
  note wb = window_bytes [OF s'(2,4) q]
  have "mem s' (win fs + of_nat (4 * unat c mod 512)) = fbyte fs dev s (4 * unat c)"
    "mem s' (win fs + of_nat (4 * unat c mod 512) + 1) = fbyte fs dev s (4 * unat c + 1)"
    "mem s' (win fs + of_nat (4 * unat c mod 512) + 2) = fbyte fs dev s (4 * unat c + 2)"
    "mem s' (win fs + of_nat (4 * unat c mod 512) + 3) = fbyte fs dev s (4 * unat c + 3)"
    using wb [of 0] wb [of 1] wb [of 2] wb [of 3] a(4,5) s'(5) by simp_all
  then have "LD_DWORD (mem s') (win fs + (ucast (ucast c :: u16) * 4 AND 511)) AND 0x0FFFFFFF = e32 (fbyte fs dev s) (unat c)"
    unfolding a(3) by (simp add: LD_DWORD_def ld32_def e32_def)
  then have "get_cluster fs c s = Ret (e32 (fbyte fs dev s) (unat c), s')"
    using s'(1) b(1) c by (simp add: get_cluster_def a(2))
  then show ?thesis using s' by (auto simp: reads_def)
qed

abbreviation (input) dword_bytes :: "u32 \<Rightarrow> u8 list" where
  "dword_bytes v \<equiv> [ucast v, ucast (drop_bit 8 v), ucast (drop_bit 16 v), ucast (drop_bit 24 v)]"

lemma e32_put:
  assumes "\<forall>j < n. B' j = (if 4 * c \<le> j \<and> j < 4 * c + 4 then dword_bytes v ! (j - 4 * c) else B j)" "4 * k + 3 < n"
  shows "e32 B' k = (if k = c then v AND 0x0FFFFFFF else e32 B k)"
proof (cases "k = c")
  case True
  have "B' (4 * c) = ucast v" "B' (4 * c + 1) = ucast (drop_bit 8 v)" "B' (4 * c + 2) = ucast (drop_bit 16 v)" "B' (4 * c + 3) = ucast (drop_bit 24 v)"
    using assms True by (simp_all add: numeral_3_eq_3 numeral_2_eq_2)
  moreover have "ld32 (st32 0 v (\<lambda>_. 0)) 0 = v" by (rule ld32_st32)
  then have "ucast (ucast v :: u8) OR push_bit 8 (ucast (ucast (drop_bit 8 v) :: u8)) OR push_bit 16 (ucast (ucast (drop_bit 16 v) :: u8)) OR
      push_bit 24 (ucast (ucast (drop_bit 24 v) :: u8)) = v"
    by (simp add: ld32_def st32_def)
  ultimately show ?thesis using True by (simp add: e32_def)
next
  case False
  then have "B' (4 * k) = B (4 * k)" "B' (4 * k + 1) = B (4 * k + 1)" "B' (4 * k + 2) = B (4 * k + 2)" "B' (4 * k + 3) = B (4 * k + 3)"
    using assms by auto
  then show ?thesis using False by (simp add: e32_def)
qed

lemma put32:
  assumes v: "vol_ok D fs dev s" and b: "fs_type (SBs s fs) = FS_FAT32" "4 * unat (max_clust (SBs s fs)) \<le> fat_bytes (SBs s fs)"
    and c: "c < max_clust (SBs s fs)"
  shows "writes e32 0x0FFFFFFF D fs dev c val s"
proof -
  note a = fat32_at [OF b(2) c]
  obtain s1 where s1: "move_window fs (fatbase (SBs s fs) + of_nat (4 * unat c div 512)) s = Ret (True, s1)" "vol_ok D fs dev s1" "fat_kept fs dev s s1"
    "win_at fs (4 * unat c div 512) s1" "\<forall>i < fat_bytes (SBs s fs). fbyte fs dev s1 i = fbyte fs dev s i"
    using goto_ok [OF v a(1)] by blast
  define p where "p = win fs + of_nat (4 * unat c mod 512)"
  define t where "t = set_winflag fs (upd_mem (wrbytes p (dword_bytes val)) s1)"
  have q: "4 * unat c div 512 < unat (sects_fat (SBs s1 fs))" using a(1) fat_keptD(5) [OF s1(3)] by simp
  have l: "4 * unat c mod 512 + length (dword_bytes val) \<le> 512" using a(4) by simp
  note pk = poke_bytes [OF s1(2,4) q l t_def [unfolded p_def]]
  have "ST_DWORD p val = wrbytes p (dword_bytes val)" by (simp add: fun_eq_iff ST_DWORD_def st32_def add.assoc)
  then have "put_cluster fs c val s = Ret (True, t)"
    using s1(1) b(1) by (simp add: put_cluster_def Let_def a(2,3) t_def p_def)
  moreover have "fbyte fs dev t j = (if 4 * unat c \<le> j \<and> j < 4 * unat c + 4 then dword_bytes val ! (j - 4 * unat c) else fbyte fs dev s j)"
    if "j < fat_bytes (SBs s fs)" for j
    using pk(4) [of j] that s1(5) fat_keptD(5) [OF s1(3)] by simp
  then have "e32 (fbyte fs dev t) k = (if k = unat c then val AND 0x0FFFFFFF else e32 (fbyte fs dev s) k)" if "k < unat (max_clust (SBs s fs))" for k
    by (intro e32_put [of "fat_bytes (SBs s fs)"]) (use that b(2) in simp_all)
  ultimately show ?thesis using pk(1) fat_kept_trans [OF s1(3) pk(2)] by (auto simp: writes_def)
qed

text \<open>FAT12: an entry is one byte and a half, and may lie in two sectors.\<close>

lemma bit_e12_even: "bit (e12 B (2 * m)) n \<longleftrightarrow> n < 8 \<and> bit (B (3 * m)) n \<or> 8 \<le> n \<and> n < 12 \<and> bit (B (3 * m + 1)) (n - 8)"
proof -
  have i: "3 * (2 * m) div 2 = 3 * m" by simp
  have m: "(0xFFF :: u16) = mask 12" by (simp add: mask_numeral)
  show ?thesis unfolding e12_def i m
    by (auto simp: bit_ucast_iff bit_or_iff bit_and_iff bit_push_bit_iff bit_mask_iff possible_bit_word dest: bit_imp_le_length)
qed

lemma bit_e12_odd: "bit (e12 B (2 * m + 1)) n \<longleftrightarrow> n < 4 \<and> bit (B (3 * m + 1)) (n + 4) \<or> 4 \<le> n \<and> n < 12 \<and> bit (B (3 * m + 2)) (n - 4)"
proof -
  have i: "3 * (2 * m + 1) div 2 = 3 * m + 1" by simp
  have "n + 4 - 8 = n - 4" by simp
  then show ?thesis unfolding e12_def i
    by (auto simp: bit_ucast_iff bit_or_iff bit_push_bit_iff bit_drop_bit_eq possible_bit_word add.commute dest: bit_imp_le_length)
qed

definition put12_lo :: "nat \<Rightarrow> u32 \<Rightarrow> u8 \<Rightarrow> u8" where
  "put12_lo c v x = (if odd c then (x AND 0x0F) OR push_bit 4 (ucast v) else ucast v)"

definition put12_hi :: "nat \<Rightarrow> u32 \<Rightarrow> u8 \<Rightarrow> u8" where
  "put12_hi c v x = (if odd c then ucast (drop_bit 4 v) else (x AND 0xF0) OR (ucast (drop_bit 8 v) AND 0x0F))"

lemma bit_put12:
  "bit (put12_lo c v x) n \<longleftrightarrow> n < 8 \<and> (if odd c then if n < 4 then bit x n else bit v (n - 4) else bit v n)"
  "bit (put12_hi c v x) n \<longleftrightarrow> n < 8 \<and> (if odd c then bit v (n + 4) else if n < 4 then bit v (n + 8) else bit x n)"
proof -
  have m: "(0x0F :: u8) = mask 4" "(0xF0 :: u8) = NOT (mask 4)" by (simp_all add: mask_numeral)
  show "bit (put12_lo c v x) n \<longleftrightarrow> n < 8 \<and> (if odd c then if n < 4 then bit x n else bit v (n - 4) else bit v n)"
    unfolding put12_lo_def m
    by (auto simp: bit_ucast_iff bit_or_iff bit_and_iff bit_push_bit_iff bit_mask_iff possible_bit_word dest: bit_imp_le_length)
  show "bit (put12_hi c v x) n \<longleftrightarrow> n < 8 \<and> (if odd c then bit v (n + 4) else if n < 4 then bit v (n + 8) else bit x n)"
    unfolding put12_hi_def m
    by (auto simp: bit_ucast_iff bit_or_iff bit_and_iff bit_drop_bit_eq bit_mask_iff bit_not_iff possible_bit_word add.commute dest: bit_imp_le_length)
qed

lemma e12_put_even:
  assumes "B' (3 * p) = put12_lo (2 * p) v (B (3 * p))" "B' (3 * p + 1) = put12_hi (2 * p) v (B (3 * p + 1))"
    and "\<forall>j. j < n \<longrightarrow> j \<noteq> 3 * p \<longrightarrow> j \<noteq> 3 * p + 1 \<longrightarrow> B' j = B j"
  shows "e12 B' (2 * p) = v AND mask 12" "3 * p + 2 < n \<Longrightarrow> e12 B' (2 * p + 1) = e12 B (2 * p + 1)"
    "q \<noteq> p \<Longrightarrow> 3 * q + 1 < n \<Longrightarrow> e12 B' (2 * q) = e12 B (2 * q)" "q \<noteq> p \<Longrightarrow> 3 * q + 2 < n \<Longrightarrow> e12 B' (2 * q + 1) = e12 B (2 * q + 1)"
proof -
  show "e12 B' (2 * p) = v AND mask 12"
    by (rule bit_eqI) (auto simp: bit_e12_even assms(1) assms(2) [simplified] bit_put12 bit_and_iff bit_mask_iff)
  show "e12 B' (2 * p + 1) = e12 B (2 * p + 1)" if "3 * p + 2 < n"
    by (rule bit_eqI) (use assms(3) [rule_format, of "3 * p + 2"] that in \<open>simp only: bit_e12_odd assms(2); auto simp: bit_put12\<close>)
  show "e12 B' (2 * q) = e12 B (2 * q)" if q: "q \<noteq> p" "3 * q + 1 < n"
  proof -
    have "B' (3 * q) = B (3 * q)" "B' (3 * q + 1) = B (3 * q + 1)" by (rule assms(3) [rule_format]; use q in arith)+
    then show ?thesis by (intro bit_eqI) (simp only: bit_e12_even)
  qed
  show "e12 B' (2 * q + 1) = e12 B (2 * q + 1)" if q: "q \<noteq> p" "3 * q + 2 < n"
  proof -
    have "B' (3 * q + 1) = B (3 * q + 1)" "B' (3 * q + 2) = B (3 * q + 2)" by (rule assms(3) [rule_format]; use q in arith)+
    then show ?thesis by (intro bit_eqI) (simp only: bit_e12_odd)
  qed
qed

lemma e12_put_odd:
  assumes "B' (3 * p + 1) = put12_lo (2 * p + 1) v (B (3 * p + 1))" "B' (3 * p + 2) = put12_hi (2 * p + 1) v (B (3 * p + 2))"
    and "\<forall>j. j < n \<longrightarrow> j \<noteq> 3 * p + 1 \<longrightarrow> j \<noteq> 3 * p + 2 \<longrightarrow> B' j = B j"
  shows "e12 B' (2 * p + 1) = v AND mask 12" "3 * p < n \<Longrightarrow> e12 B' (2 * p) = e12 B (2 * p)"
    "q \<noteq> p \<Longrightarrow> 3 * q + 1 < n \<Longrightarrow> e12 B' (2 * q) = e12 B (2 * q)" "q \<noteq> p \<Longrightarrow> 3 * q + 2 < n \<Longrightarrow> e12 B' (2 * q + 1) = e12 B (2 * q + 1)"
proof -
  show "e12 B' (2 * p + 1) = v AND mask 12"
    by (rule bit_eqI, simp only: bit_e12_odd assms(1,2)) (auto simp: bit_put12 bit_and_iff bit_mask_iff)
  show "e12 B' (2 * p) = e12 B (2 * p)" if "3 * p < n"
    by (rule bit_eqI) (use assms(3) [rule_format, of "3 * p"] that in \<open>simp only: bit_e12_even assms(1); auto simp: bit_put12\<close>)
  show "e12 B' (2 * q) = e12 B (2 * q)" if q: "q \<noteq> p" "3 * q + 1 < n"
  proof -
    have "B' (3 * q) = B (3 * q)" "B' (3 * q + 1) = B (3 * q + 1)" by (rule assms(3) [rule_format]; use q in arith)+
    then show ?thesis by (intro bit_eqI) (simp only: bit_e12_even)
  qed
  show "e12 B' (2 * q + 1) = e12 B (2 * q + 1)" if q: "q \<noteq> p" "3 * q + 2 < n"
  proof -
    have "B' (3 * q + 1) = B (3 * q + 1)" "B' (3 * q + 2) = B (3 * q + 2)" by (rule assms(3) [rule_format]; use q in arith)+
    then show ?thesis by (intro bit_eqI) (simp only: bit_e12_odd)
  qed
qed

lemma e12_put:
  assumes B: "\<forall>j < n. B' j = (if j = 3 * c div 2 then put12_lo c v (B j) else if j = 3 * c div 2 + 1 then put12_hi c v (B j) else B j)"
    and k: "3 * k div 2 + 1 < n" and c: "3 * c div 2 + 1 < n"
  shows "e12 B' k = (if k = c then v AND 0xFFF else e12 B k)"
proof -
  have m: "(0xFFF :: u32) = mask 12" by (simp add: mask_numeral)
  have i: "3 * (2 * p) div 2 = 3 * p" "3 * (2 * p + 1) div 2 = 3 * p + 1" for p :: nat by simp_all
  define q where "q = k div 2"
  show ?thesis
  proof (cases "even c")
    case True
    then obtain p where p: "c = 2 * p" by (elim evenE)
    have pre: "B' (3 * p) = put12_lo (2 * p) v (B (3 * p))" "B' (3 * p + 1) = put12_hi (2 * p) v (B (3 * p + 1))"
      "\<forall>j. j < n \<longrightarrow> j \<noteq> 3 * p \<longrightarrow> j \<noteq> 3 * p + 1 \<longrightarrow> B' j = B j"
      using B c unfolding p i by simp_all
    note e = e12_put_even [OF pre]
    show ?thesis
    proof (cases "even k")
      case True
      then have k': "k = 2 * q" by (simp add: q_def)
      show ?thesis using e(1) e(3) [of q] k unfolding k' p i m by auto
    next
      case False
      then have k': "k = 2 * q + 1" by (simp add: q_def)
      have "3 * q + 2 < n" using k unfolding k' i by simp
      moreover have "k \<noteq> c" unfolding k' p by presburger
      ultimately show ?thesis using e(2) e(4) [of q] unfolding k' by (cases "q = p") simp_all
    qed
  next
    case False
    then obtain p where p: "c = 2 * p + 1" by (elim oddE)
    have pre: "B' (3 * p + 1) = put12_lo (2 * p + 1) v (B (3 * p + 1))" "B' (3 * p + 2) = put12_hi (2 * p + 1) v (B (3 * p + 2))"
      "\<forall>j. j < n \<longrightarrow> j \<noteq> 3 * p + 1 \<longrightarrow> j \<noteq> 3 * p + 2 \<longrightarrow> B' j = B j"
      using B c unfolding p i by simp_all
    note e = e12_put_odd [OF pre]
    show ?thesis
    proof (cases "even k")
      case True
      then have k': "k = 2 * q" by (simp add: q_def)
      have "3 * q + 1 < n" using k unfolding k' i by simp
      moreover have "k \<noteq> c" unfolding k' p by presburger
      ultimately show ?thesis using e(2) e(3) [of q] unfolding k' by (cases "q = p") simp_all
    next
      case False
      then have k': "k = 2 * q + 1" by (simp add: q_def)
      have "3 * q + 2 < n" using k unfolding k' i by simp
      then show ?thesis using e(1) e(4) [of q] unfolding k' p m by auto
    qed
  qed
qed

lemma fat12_index:
  assumes "i < 65536"
  shows "fat12_at fs (of_nat i) = win fs + of_nat (i mod 512)" "fat12_sect b (of_nat i) = fatbase b + of_nat (i div 512)"
proof -
  have u: "unat (of_nat i :: u16) = i" using assms by (simp add: unsigned_of_nat take_bit_eq_mod)
  have "(of_nat i :: u16) AND 511 = take_bit 9 (of_nat i)" by (simp add: take_bit_eq_mask mask_numeral)
  then have "unat ((of_nat i :: u16) AND 511) = i mod 512" by (simp add: take_bit_eq_mod unat_mod_distrib u)
  then have "ucast ((of_nat i :: u16) AND 511) = (of_nat (i mod 512) :: u32)" by (metis of_nat_unat)
  then show "fat12_at fs (of_nat i) = win fs + of_nat (i mod 512)" by (simp add: fat12_at_def)
  have "unat ((of_nat i :: u16) div 512) = i div 512" by (simp add: unat_div_distrib u)
  then have "ucast ((of_nat i :: u16) div 512) = (of_nat (i div 512) :: u32)" by (metis of_nat_unat)
  then show "fat12_sect b (of_nat i) = fatbase b + of_nat (i div 512)" by (simp add: fat12_sect_def)
qed

lemma fat12_bc_nat:
  assumes "c < 0x1000"
  shows "fat12_bc c = of_nat (3 * unat c div 2)"
proof -
  have c: "unat c < 4096" using assms by (simp add: word_less_nat_alt)
  have "unat (ucast (ucast c :: u16) :: u32) = unat c mod 65536" by (simp add: unsigned_ucast_eq take_bit_eq_mod unat_mod_distrib)
  then have "unat (ucast (ucast c :: u16) * 3 div 2 :: u32) = 3 * unat c div 2" using c by (simp add: unat_div_distrib unat_word_ariths mult.commute)
  then show ?thesis unfolding fat12_bc_def by (metis of_nat_unat)
qed

lemma odd_u32: "((c :: u32) AND 1 \<noteq> 0) = odd (unat c)"
proof -
  have "(c AND 1 \<noteq> 0) = odd c" by (simp add: and_one_eq odd_iff_mod_2_eq_one)
  also have "odd c = bit c 0" by (simp add: bit_0)
  also have "\<dots> = bit (unat c) 0" by (simp add: bit_unsigned_iff)
  finally show ?thesis by (simp add: bit_0)
qed

lemma fat12_fits:
  assumes "3 * unat (max_clust b) \<le> 2 * fat_bytes b" "k < unat (max_clust b)"
  shows "3 * k div 2 + 1 < fat_bytes b"
proof -
  have "3 * k + 3 \<le> 2 * fat_bytes b" using assms by linarith
  moreover have "2 * (3 * k div 2) \<le> 3 * k" by simp
  ultimately show ?thesis by linarith
qed

text \<open>Where entry \<open>c\<close> lies: its bytes \<open>i\<close> and \<open>j\<close>.\<close>

lemma fat12_where:
  assumes b: "3 * unat (max_clust b) \<le> 2 * fat_bytes b" "max_clust b \<le> 0xFF7" and c: "c < max_clust b"
    and i: "i = 3 * unat c div 2" "j = i + 1"
  shows "fat12_at fs (fat12_bc c) = win fs + of_nat (i mod 512)" "fat12_sect d (fat12_bc c) = fatbase d + of_nat (i div 512)"
    "fat12_at fs (fat12_bc c + 1) = win fs + of_nat (j mod 512)" "fat12_sect d (fat12_bc c + 1) = fatbase d + of_nat (j div 512)"
    "i < fat_bytes b" "j < fat_bytes b" "i div 512 < unat (sects_fat b)" "j div 512 < unat (sects_fat b)"
proof -
  have cu: "unat c < unat (max_clust b)" using c by (simp add: word_less_nat_alt)
  have c12: "c < 0x1000" using c b(2) by (simp add: word_less_nat_alt word_le_nat_alt)
  have j: "j < 65536" "i < 65536" using c12 by (simp_all add: i word_less_nat_alt)
  show f: "i < fat_bytes b" "j < fat_bytes b" using fat12_fits [OF b(1) cu] by (simp_all add: i)
  then show "i div 512 < unat (sects_fat b)" "j div 512 < unat (sects_fat b)" by (simp_all add: less_mult_imp_div_less)
  have bc: "fat12_bc c = of_nat i" "fat12_bc c + 1 = of_nat j" using fat12_bc_nat [OF c12] by (simp_all add: i add.commute)
  show "fat12_at fs (fat12_bc c) = win fs + of_nat (i mod 512)" "fat12_sect d (fat12_bc c) = fatbase d + of_nat (i div 512)"
    unfolding bc(1) by (rule fat12_index [OF j(2)])+
  show "fat12_at fs (fat12_bc c + 1) = win fs + of_nat (j mod 512)" "fat12_sect d (fat12_bc c + 1) = fatbase d + of_nat (j div 512)"
    unfolding bc(2) by (rule fat12_index [OF j(1)])+
qed

lemma get12:
  assumes v: "vol_ok D fs dev s" and b: "fs_type (SBs s fs) = FS_FAT12" "3 * unat (max_clust (SBs s fs)) \<le> 2 * fat_bytes (SBs s fs)"
      "max_clust (SBs s fs) \<le> 0xFF7"
    and c: "2 \<le> c" "c < max_clust (SBs s fs)"
  shows "reads e12 D fs dev c s"
proof -
  define i j where "i = 3 * unat c div 2" and "j = i + 1"
  note x = fat12_where [OF b(2,3) c(2) this]
  obtain s1 where s1: "move_window fs (fatbase (SBs s fs) + of_nat (i div 512)) s = Ret (True, s1)" "vol_ok D fs dev s1" "fat_kept fs dev s s1"
    "win_at fs (i div 512) s1" "\<forall>k < fat_bytes (SBs s fs). fbyte fs dev s1 k = fbyte fs dev s k"
    using goto_ok [OF v x(7)] by blast
  note k1 = fat_keptD [OF s1(3)]
  obtain s2 where s2: "move_window fs (fatbase (SBs s1 fs) + of_nat (j div 512)) s1 = Ret (True, s2)" "vol_ok D fs dev s2" "fat_kept fs dev s1 s2"
    "win_at fs (j div 512) s2" "\<forall>k < fat_bytes (SBs s1 fs). fbyte fs dev s2 k = fbyte fs dev s1 k"
    using goto_ok [OF s1(2), of "j div 512"] x(8) k1(5) by auto
  have q1: "i div 512 < unat (sects_fat (SBs s1 fs))" "j div 512 < unat (sects_fat (SBs s2 fs))" using x(7,8) k1(5) fat_keptD(5) [OF s2(3)] by simp_all
  have b1: "mem s1 (win fs + of_nat (i mod 512)) = fbyte fs dev s i"
    using window_byte [OF s1(2,4) q1(1) refl] s1(5) x(5) by simp
  have b2: "mem s2 (win fs + of_nat (j mod 512)) = fbyte fs dev s j"
    using window_byte [OF s2(2,4) q1(2) refl] s2(5) s1(5) x(6) k1(5) by simp
  have e: "e12 B (unat c) = (let w = (ucast (B i) OR push_bit 8 (ucast (B j)) :: u16) in ucast (if odd (unat c) then drop_bit 4 w else w AND 0xFFF))" for B
    by (simp add: e12_def i_def j_def)
  have "get_cluster fs c s = Ret (e12 (fbyte fs dev s) (unat c), s2)"
    using s1(1) s2(1) [unfolded k1(4)] b(1) c b1 b2
    by (simp add: get_cluster_def Let_def x odd_u32 e)
  then show ?thesis using s2 s1(5) k1(5) fat_kept_trans [OF s1(3) s2(3)] by (auto simp: reads_def)
qed

lemma put12:
  assumes v: "vol_ok D fs dev s" and b: "fs_type (SBs s fs) = FS_FAT12" "3 * unat (max_clust (SBs s fs)) \<le> 2 * fat_bytes (SBs s fs)"
      "max_clust (SBs s fs) \<le> 0xFF7"
    and c: "c < max_clust (SBs s fs)"
  shows "writes e12 0xFFF D fs dev c val s"
proof -
  define i j where "i = 3 * unat c div 2" and "j = i + 1"
  note x = fat12_where [OF b(2,3) c this]
  obtain s1 where s1: "move_window fs (fatbase (SBs s fs) + of_nat (i div 512)) s = Ret (True, s1)" "vol_ok D fs dev s1" "fat_kept fs dev s s1"
    "win_at fs (i div 512) s1" "\<forall>k < fat_bytes (SBs s fs). fbyte fs dev s1 k = fbyte fs dev s k"
    using goto_ok [OF v x(7)] by blast
  note k1 = fat_keptD [OF s1(3)]
  have q1: "i div 512 < unat (sects_fat (SBs s1 fs))" using x(7,8) k1(5) by simp
  have b1: "mem s1 (win fs + of_nat (i mod 512)) = fbyte fs dev s i" using window_byte [OF s1(2,4) q1 refl] s1(5) x(5) by simp
  define lo where "lo = put12_lo (unat c) val (fbyte fs dev s i)"
  define s2 where "s2 = set_winflag fs (upd_mem (wrbytes (win fs + of_nat (i mod 512)) [lo]) s1)"
  have "i mod 512 + length [lo] \<le> 512" using mod_less_divisor [of 512 i] by simp
  note p2 = poke_bytes [OF s1(2,4) q1 this s2_def]
  note k2 = fat_keptD [OF p2(2)]
  have m2: "upd_mem (wrbytes (win fs + of_nat (i mod 512)) [lo]) s1 = upd_mem (\<lambda>m. m(win fs + of_nat (i mod 512) := if odd (unat c)
      then (m (win fs + of_nat (i mod 512)) AND 0x0F) OR push_bit 4 (ucast val) else ucast val)) s1"
    by (simp add: upd_mem_def lo_def put12_lo_def b1)
  obtain s3 where s3: "move_window fs (fatbase (SBs s2 fs) + of_nat (j div 512)) s2 = Ret (True, s3)" "vol_ok D fs dev s3" "fat_kept fs dev s2 s3"
    "win_at fs (j div 512) s3" "\<forall>k < fat_bytes (SBs s2 fs). fbyte fs dev s3 k = fbyte fs dev s2 k"
    using goto_ok [OF p2(1), of "j div 512"] x(8) k1(5) k2(5) by auto
  have q3: "j div 512 < unat (sects_fat (SBs s3 fs))" using x(7,8) k1(5) k2(5) fat_keptD(5) [OF s3(3)] by simp
  have B3: "fbyte fs dev s3 k = (if k = i then lo else fbyte fs dev s k)" if "k < fat_bytes (SBs s fs)" for k
    using s3(5) p2(4) [of k] s1(5) that k1(5) k2(5) by auto
  have ij: "j \<noteq> i" by (simp add: j_def)
  define hi where "hi = put12_hi (unat c) val (fbyte fs dev s j)"
  have b3: "mem s3 (win fs + of_nat (j mod 512)) = fbyte fs dev s j"
    using window_byte [OF s3(2,4) q3 refl] B3 [of j] x(6) ij by simp
  define t where "t = set_winflag fs (upd_mem (wrbytes (win fs + of_nat (j mod 512)) [hi]) s3)"
  have "j mod 512 + length [hi] \<le> 512" using mod_less_divisor [of 512 j] by simp
  note pt = poke_bytes [OF s3(2,4) q3 this t_def]
  have m3: "upd_mem (wrbytes (win fs + of_nat (j mod 512)) [hi]) s3 = upd_mem (\<lambda>m. m(win fs + of_nat (j mod 512) := if odd (unat c)
      then ucast (drop_bit 4 val) else (m (win fs + of_nat (j mod 512)) AND 0xF0) OR (ucast (drop_bit 8 val) AND 0x0F))) s3"
    by (simp add: upd_mem_def hi_def put12_hi_def b3)
  have run: "put_cluster fs c val s = Ret (True, t)"
    using s1(1) s3(1) [unfolded k2(4) k1(4)] b(1)
    by (simp add: put_cluster_def Let_def x odd_u32 s2_def m2 [symmetric] t_def m3 [symmetric])
  have "fbyte fs dev t k = (if k = i then put12_lo (unat c) val (fbyte fs dev s k) else if k = j then put12_hi (unat c) val (fbyte fs dev s k) else fbyte fs dev s k)"
    if "k < fat_bytes (SBs s fs)" for k
    using pt(4) [of k] B3 [OF that] that k1(5) k2(5) fat_keptD(5) [OF s3(3)] ij by (auto simp: lo_def hi_def)
  moreover have "unat c < unat (max_clust (SBs s fs))" using c by (simp add: word_less_nat_alt)
  ultimately have "e12 (fbyte fs dev t) k = (if k = unat c then val AND 0xFFF else e12 (fbyte fs dev s) k)" if "k < unat (max_clust (SBs s fs))" for k
    by (intro e12_put [of "fat_bytes (SBs s fs)"]) (use fat12_fits [OF b(2)] that in \<open>simp_all add: i_def j_def\<close>)
  moreover have "fat_kept fs dev s t" using s1(3) p2(2) s3(3) pt(2) by (blast intro: fat_kept_trans)
  ultimately show ?thesis using run pt(1) by (auto simp: writes_def)
qed

end
