(* ===== verification/Fat_Chain.thy ===== *)
theory Fat_Chain
  imports Fat_Table
begin

text \<open>
  Cluster chains.  The locale \<open>cluster_table\<close> states what \<^verbatim>\<open>get_cluster\<close> and \<^verbatim>\<open>put_cluster\<close> promise of the table of a
  volume, whatever its format; \<^verbatim>\<open>remove_chain\<close> and \<^verbatim>\<open>create_chain\<close> are proved from these laws.
\<close>

section \<open>Chains\<close>

text \<open>\<open>chain T mx c xs\<close>: following the table from \<open>c\<close> passes through the clusters \<open>xs\<close> and then leaves the range of clusters.\<close>

fun chain :: "(nat \<Rightarrow> u32) \<Rightarrow> u32 \<Rightarrow> u32 \<Rightarrow> u32 list \<Rightarrow> bool" where
  "chain T mx c [] = (\<not> (2 \<le> c \<and> c < mx))"
| "chain T mx c (x # xs) = (c = x \<and> 2 \<le> c \<and> c < mx \<and> T (unat c) \<noteq> 1 \<and> chain T mx (T (unat c)) xs)"

lemma chain_unique: "chain T mx c xs \<Longrightarrow> chain T mx c ys \<Longrightarrow> xs = ys"
proof (induction xs arbitrary: c ys)
  case Nil
  then show ?case by (cases ys) auto
next
  case (Cons x xs)
  then show ?case by (cases ys) auto
qed

lemma chain_suffix: "chain T mx c (xs @ x # ys) \<Longrightarrow> chain T mx x (x # ys)"
  by (induction xs arbitrary: c) auto

lemma chain_distinct: "chain T mx c xs \<Longrightarrow> distinct xs"
proof (rule ccontr)
  assume c: "chain T mx c xs" and "\<not> distinct xs"
  then obtain as x bs cs where "xs = as @ [x] @ bs @ [x] @ cs" using not_distinct_decomp by blast
  then have "chain T mx x (x # bs @ x # cs)" "chain T mx x (x # cs)"
    using c chain_suffix [of T mx c as x "bs @ x # cs"] chain_suffix [of T mx c "as @ x # bs" x cs] by simp_all
  from arg_cong [OF chain_unique [OF this], of length] show False by simp
qed

lemma chain_cong: "(\<And>x. x \<in> set xs \<Longrightarrow> T' (unat x) = T (unat x)) \<Longrightarrow> chain T' mx c xs = chain T mx c xs"
  by (induction xs arbitrary: c) auto

lemma chain_range: "chain T mx c xs \<Longrightarrow> x \<in> set xs \<Longrightarrow> 2 \<le> x \<and> x < mx"
  by (induction xs arbitrary: c) auto

section \<open>The contract of a cluster table\<close>

text \<open>The driver changed the table and its own bookkeeping only.\<close>

definition fat_data :: "ptr \<Rightarrow> ptr \<Rightarrow> 'a kfat_scheme \<Rightarrow> 'a kfat_scheme \<Rightarrow> bool" where
  "fat_data fs dev s t \<longleftrightarrow> fat_frame fs s t \<and> (\<forall>y. data_sector (SBs s fs) y \<longrightarrow> fview fs dev t y = fview fs dev s y)"

lemma fat_data_refl [simp]: "fat_data fs dev s s"
  by (simp add: fat_data_def)

lemma fat_data_trans: "fat_data fs dev s t \<Longrightarrow> fat_data fs dev t u \<Longrightarrow> fat_data fs dev s u"
  using data_sector_geom [OF fat_frame_geom, of fs s t] unfolding fat_data_def by (auto intro: fat_frame_trans)

lemma fat_kept_data: "fat_kept fs dev s t \<Longrightarrow> fat_data fs dev s t"
  by (simp add: fat_kept_def fat_data_def)

lemma fat_data_geom:
  assumes "fat_data fs dev s t"
  shows "geom (SBs t fs) = geom (SBs s fs)" "max_clust (SBs t fs) = max_clust (SBs s fs)"
  using assms geom_eqD(1) [of "SBs t fs" "SBs s fs"] by (auto simp: fat_data_def fat_frame_def)

text \<open>Updates of the bookkeeping.\<close>

definition book_upd :: "(FATBase_SuperBlock \<Rightarrow> FATBase_SuperBlock) \<Rightarrow> bool" where
  "book_upd f \<longleftrightarrow> (\<forall>b. geom (f b) = geom b \<and> winsect (f b) = winsect b \<and> winflag (f b) = winflag b)"

lemma book_upd_fview: "book_upd f \<Longrightarrow> fview fs dev (upd_sb fs f s) = fview fs dev s"
  by (rule ext) (auto simp: book_upd_def fview_def)

lemma book_upd_data: "book_upd f \<Longrightarrow> fat_data fs dev s (upd_sb fs f s)"
  using book_upd_fview [of f fs dev s] by (simp add: fat_data_def fat_frame_def) (simp add: book_upd_def)

lemma book_upd_simps [simp]:
  "book_upd (\<lambda>b. b\<lparr>last_clust := n\<rparr>)" "book_upd (\<lambda>b. b\<lparr>free_clust := g (free_clust b), fsi_flag := 1\<rparr>)"
  by (simp_all add: book_upd_def geom_def)

locale cluster_table =
  fixes inv :: "'a kfat_scheme \<Rightarrow> bool" and tab :: "'a kfat_scheme \<Rightarrow> nat \<Rightarrow> u32" and fs dev :: ptr
  assumes get: "inv s \<Longrightarrow> 2 \<le> c \<Longrightarrow> c < max_clust (SBs s fs) \<Longrightarrow>
      \<exists>s'. get_cluster fs c s = Ret (tab s (unat c), s') \<and> inv s' \<and> fat_kept fs dev s s' \<and> (\<forall>k < unat (max_clust (SBs s fs)). tab s' k = tab s k)"
    and put: "inv s \<Longrightarrow> 2 \<le> c \<Longrightarrow> c < max_clust (SBs s fs) \<Longrightarrow>
      \<exists>s' w. put_cluster fs c v s = Ret (True, s') \<and> inv s' \<and> fat_kept fs dev s s' \<and>
        (\<forall>k < unat (max_clust (SBs s fs)). tab s' k = (if k = unat c then w else tab s k)) \<and>
        (v < max_clust (SBs s fs) \<longrightarrow> w = v) \<and> (v = 0x0FFFFFFF \<longrightarrow> max_clust (SBs s fs) \<le> w)"
    and book: "inv s \<Longrightarrow> book_upd f \<Longrightarrow> inv (upd_sb fs f s) \<and> tab (upd_sb fs f s) = tab s"
begin

lemma count_free_ok:
  assumes "inv s"
  shows "inv (count_free g fs s)" "tab (count_free g fs s) = tab s" "fat_data fs dev s (count_free g fs s)"
    "free_clust (SBs (count_free g fs s) fs) = (if free_clust (SBs s fs) = 0xFFFFFFFF then 0xFFFFFFFF else g (free_clust (SBs s fs)))"
  using assms book [OF assms book_upd_simps(2)] book_upd_data [OF book_upd_simps(2), of fs dev s] by (auto simp: count_free_def)

lemma remove_chain_ok:
  assumes "inv s" "chain (tab s) (max_clust (SBs s fs)) c xs"
    and "free_clust (SBs s fs) = 0xFFFFFFFF \<or> unat (free_clust (SBs s fs)) + length xs < 0xFFFFFFFF"
  shows "\<exists>s'. remove_chain fs c s = Ret (True, s') \<and> inv s' \<and> fat_data fs dev s s' \<and>
    (\<forall>k < unat (max_clust (SBs s fs)). tab s' k = (if k \<in> unat ` set xs then 0 else tab s k)) \<and>
    free_clust (SBs s' fs) = (if free_clust (SBs s fs) = 0xFFFFFFFF then 0xFFFFFFFF else free_clust (SBs s fs) + of_nat (length xs))"
  using assms
proof (induction xs arbitrary: c s)
  case Nil
  then have "remove_chain fs c s = Ret (True, s)"
    unfolding remove_chain_def by (subst kwhile_unfold) (simp add: remove_chain_body_def)
  then show ?case using Nil.prems(1) by simp
next
  case (Cons x xs)
  let ?mx = "max_clust (SBs s fs)"
  have c: "c = x" "2 \<le> c" "c < ?mx" "tab s (unat c) \<noteq> 1" "chain (tab s) ?mx (tab s (unat c)) xs" using Cons.prems(2) by auto
  obtain s1 where s1: "get_cluster fs c s = Ret (tab s (unat c), s1)" "inv s1" "fat_kept fs dev s s1" "\<forall>k < unat ?mx. tab s1 k = tab s k"
    using get [OF Cons.prems(1) c(2,3)] by blast
  note k1 = fat_keptD [OF s1(3)]
  obtain s2 w where s2: "put_cluster fs c 0 s1 = Ret (True, s2)" "inv s2" "fat_kept fs dev s1 s2"
    "\<forall>k < unat ?mx. tab s2 k = (if k = unat c then w else tab s1 k)" "0 < ?mx \<longrightarrow> w = 0"
    using put [OF s1(2) c(2), of 0] c(3) by (auto simp: k1(3))
  have w: "w = 0" using s2(5) c(3) by (simp add: word_less_nat_alt)
  note k2 = fat_keptD [OF s2(3)]
  define s3 where "s3 = count_free (\<lambda>n. n + 1) fs s2"
  note f = count_free_ok [OF s2(2), of "\<lambda>n. n + 1", folded s3_def]
  have fr: "fat_data fs dev s s3" using s1(3) s2(3) f(3) by (blast intro: fat_kept_data fat_data_trans)
  have mx: "max_clust (SBs s3 fs) = ?mx" by (rule fat_data_geom(2) [OF fr])
  have free: "free_clust (SBs s3 fs) = (if free_clust (SBs s fs) = 0xFFFFFFFF then 0xFFFFFFFF else free_clust (SBs s fs) + 1)"
    using f(4) k1(8) k2(8) by simp
  have d: "distinct (x # xs)" using chain_distinct [OF Cons.prems(2)] by simp
  have t3: "tab s3 k = (if k = unat c then 0 else tab s k)" if "k < unat ?mx" for k using f(2) s2(4) s1(4) w that by simp
  have "chain (tab s3) ?mx (tab s (unat c)) xs = chain (tab s) ?mx (tab s (unat c)) xs"
  proof (rule chain_cong)
    fix y assume y: "y \<in> set xs"
    have "unat y \<noteq> unat c" using d y c(1) by (auto simp: word_unat_eq_iff [symmetric])
    then show "tab s3 (unat y) = tab s (unat y)" using t3 chain_range [OF c(5) y] by (simp add: word_less_nat_alt)
  qed
  then have ch: "chain (tab s3) (max_clust (SBs s3 fs)) (tab s (unat c)) xs" using c(5) mx by simp
  have fc: "free_clust (SBs s3 fs) = 0xFFFFFFFF \<or> unat (free_clust (SBs s3 fs)) + length xs < 0xFFFFFFFF"
    using Cons.prems(3) by (auto simp: free unat_word_ariths)
  obtain s' where s': "remove_chain fs (tab s (unat c)) s3 = Ret (True, s')" "inv s'" "fat_data fs dev s3 s'"
    "\<forall>k < unat ?mx. tab s' k = (if k \<in> unat ` set xs then 0 else tab s3 k)"
    "free_clust (SBs s' fs) = (if free_clust (SBs s3 fs) = 0xFFFFFFFF then 0xFFFFFFFF else free_clust (SBs s3 fs) + of_nat (length xs))"
    using Cons.IH [OF _ ch fc] f(1) s2(2) by (auto simp: mx)
  have "remove_chain fs c s = remove_chain fs (tab s (unat c)) s3"
    unfolding remove_chain_def using s1(1) s2(1) c(2-4)
    by (subst kwhile_unfold) (simp add: remove_chain_body_def s3_def)
  moreover have "free_clust (SBs s fs) + 1 = 0xFFFFFFFF \<Longrightarrow> free_clust (SBs s fs) = 0xFFFFFFFF"
    using Cons.prems(3) by (auto simp: word_unat_eq_iff unat_word_ariths)
  ultimately show ?case using s' t3 c(1) fat_data_trans [OF fr s'(3)] by (intro exI [of _ s']) (auto simp: free algebra_simps)
qed

end

section \<open>The search for a free cluster\<close>

text \<open>The entries are read, in no case changed.\<close>

definition searched :: "('a kfat_scheme \<Rightarrow> bool) \<Rightarrow> ('a kfat_scheme \<Rightarrow> nat \<Rightarrow> u32) \<Rightarrow> ptr \<Rightarrow> ptr \<Rightarrow> 'a kfat_scheme \<Rightarrow> 'a kfat_scheme \<Rightarrow> bool" where
  "searched J T fs dev s t \<longleftrightarrow> J t \<and> fat_kept fs dev s t \<and> (\<forall>k < unat (max_clust (SBs s fs)). T t k = T s k)"

text \<open>
  Where the search stands: it has passed the clusters after its start up to \<open>n\<close>, or after wrapping around all
  clusters above its start and those up to \<open>n\<close>.
\<close>

definition passed :: "nat \<Rightarrow> nat \<Rightarrow> nat \<Rightarrow> nat \<Rightarrow> bool" where
  "passed start lim n k \<longleftrightarrow> (if start \<le> n then start < k \<and> k \<le> n else start < k \<and> k < lim \<or> 2 \<le> k \<and> k \<le> n)"

text \<open>The table has a free cluster.\<close>

definition some_free :: "(nat \<Rightarrow> u32) \<Rightarrow> u32 \<Rightarrow> bool" where
  "some_free T mx \<longleftrightarrow> (\<exists>k. 2 \<le> k \<and> k < unat mx \<and> T k = 0)"

context cluster_table
begin

lemma visit:
  assumes "searched inv tab fs dev s t" "2 \<le> c" "c < max_clust (SBs s fs)"
  shows "\<exists>t'. get_cluster fs c t = Ret (tab s (unat c), t') \<and> searched inv tab fs dev s t'"
proof -
  have t: "inv t" "fat_kept fs dev s t" "\<forall>k < unat (max_clust (SBs s fs)). tab t k = tab s k" using assms(1) by (auto simp: searched_def)
  note k = fat_keptD [OF t(2)]
  obtain t' where t': "get_cluster fs c t = Ret (tab t (unat c), t')" "inv t'" "fat_kept fs dev t t'" "\<forall>k < unat (max_clust (SBs s fs)). tab t' k = tab t k"
    using get [OF t(1) assms(2)] assms(3) by (auto simp: k(3))
  have "tab t (unat c) = tab s (unat c)" using t(3) assms(3) by (simp add: word_less_nat_alt)
  then show ?thesis using t' t(3) fat_kept_trans [OF t(2) t'(3)] by (auto simp: searched_def)
qed

lemma find_free_ok:
  assumes "inv s" and mx: "mx = max_clust (SBs s fs)" and scl: "1 \<le> scl" "scl < mx \<or> scl = 1"
    and one: "\<forall>k. 2 \<le> k \<longrightarrow> k < unat mx \<longrightarrow> tab s k \<noteq> 1"
  shows "\<exists>r s'. kwhile (find_free_body fs scl mx) (scl, s) = Ret (r, s') \<and> searched inv tab fs dev s s' \<and>
    (case r of Inr n \<Rightarrow> 2 \<le> n \<and> n < mx \<and> tab s (unat n) = 0 | Inl e \<Rightarrow> e = 0 \<and> (\<forall>k. 2 \<le> k \<longrightarrow> k < unat mx \<longrightarrow> tab s k \<noteq> 0))"
proof -
  define S N where "S = unat scl" and "N = unat mx"
  define Q where "Q = (\<lambda>(r, s'). searched inv tab fs dev s s' \<and>
    (case r of Inr n \<Rightarrow> 2 \<le> n \<and> n < mx \<and> tab s (unat n) = 0 | Inl e \<Rightarrow> e = (0 :: u32) \<and> (\<forall>k. 2 \<le> k \<longrightarrow> k < N \<longrightarrow> tab s k \<noteq> 0)))"
  define I where "I = (\<lambda>(n :: u32, t). searched inv tab fs dev s t \<and> (S \<le> unat n \<and> (unat n < N \<or> unat n = S) \<or> 2 \<le> unat n \<and> unat n < S) \<and>
    (\<forall>k. passed S N (unat n) k \<longrightarrow> k < N \<longrightarrow> tab s k \<noteq> 0))"
  define \<mu> where "\<mu> = (\<lambda>(n :: u32, t :: 'a kfat_scheme). if S \<le> unat n then S + N - unat n + S else S - unat n)"
  have S: "1 \<le> S" "S < N \<or> S = 1" using scl by (auto simp: S_def N_def word_less_nat_alt word_le_nat_alt)
  have N32: "N < 4294967296" by (simp add: N_def unat_u32_less)
  have "\<exists>y. kwhile (find_free_body fs scl mx) (scl, s) = Ret y \<and> Q y"
  proof (rule kwhile_total [where I = I and \<mu> = \<mu>])
    show "I (scl, s)" using assms(1) by (auto simp: I_def searched_def S_def passed_def)
  next
    fix x :: "u32 \<times> 'a kfat_scheme" assume "I x"
    then obtain n t where x: "x = (n, t)" and t: "searched inv tab fs dev s t"
      and n: "S \<le> unat n \<and> (unat n < N \<or> unat n = S) \<or> 2 \<le> unat n \<and> unat n < S" and p: "\<And>k. passed S N (unat n) k \<Longrightarrow> k < N \<Longrightarrow> tab s k \<noteq> 0"
      by (cases x) (auto simp: I_def)
    have nb: "unat n < N \<or> unat n = 1" using n S by auto
    have n1: "unat (n + 1) = unat n + 1" using nb N32 by (auto simp: unat_word_ariths)
    show "(\<exists>y. find_free_body fs scl mx x = Ret (Inr y) \<and> Q y) \<or> (\<exists>x'. find_free_body fs scl mx x = Ret (Inl x') \<and> I x' \<and> \<mu> x' < \<mu> x)"
    proof (cases "mx \<le> n + 1 \<and> scl < 2")
      case True
      then have "S = 1" "N \<le> unat n + 1" using S n1 by (auto simp: S_def N_def word_le_nat_alt word_less_nat_alt)
      then have "tab s k \<noteq> 0" if "2 \<le> k" "k < N" for k using p [of k] that n by (auto simp: passed_def)
      then have "find_free_body fs scl mx x = Ret (Inr (Inl 0, t)) \<and> Q (Inl 0, t)" using True t by (simp add: find_free_body_def x Q_def)
      then show ?thesis by blast
    next
      case False
      define c where "c = (if mx \<le> n + 1 then 2 else n + 1)"
      have cN: "unat c = (if N \<le> unat n + 1 then 2 else unat n + 1)" by (simp add: c_def N_def word_le_nat_alt n1)
      have sc: "N \<le> unat n + 1 \<Longrightarrow> 2 \<le> S" using False n1 by (auto simp: S_def N_def word_le_nat_alt word_less_nat_alt)
      have c: "2 \<le> unat c" "unat c < N" using cN sc S n by (auto split: if_splits)
      then have cw: "2 \<le> c" "c < max_clust (SBs s fs)" by (simp_all add: N_def mx [symmetric] word_le_nat_alt word_less_nat_alt)
      obtain t' where t': "get_cluster fs c t = Ret (tab s (unat c), t')" "searched inv tab fs dev s t'" using visit [OF t cw] by blast
      have v1: "tab s (unat c) \<noteq> 1" using one c by (simp add: N_def)
      have body: "find_free_body fs scl mx x = Ret (if tab s (unat c) = 0 then Inr (Inr c, t') else if c = scl then Inr (Inl 0, t') else Inl (c, t'))"
        unfolding find_free_body_def x using False t'(1) v1 by (auto simp: Let_def c_def [symmetric])
      show ?thesis
      proof (cases "tab s (unat c) = 0")
        case True
        then have "find_free_body fs scl mx x = Ret (Inr (Inr c, t')) \<and> Q (Inr c, t')" using body t'(2) cw by (simp add: Q_def mx)
        then show ?thesis by blast
      next
        case nz: False
        have adv: "tab s k \<noteq> 0" if k: "passed S N (unat c) k \<or> unat c = S \<and> 2 \<le> k" "k < N" for k
        proof (cases "k = unat c")
          case True
          then show ?thesis using nz by simp
        next
          case k': False
          have "passed S N (unat n) k" using k k' cN sc n S by (auto simp: passed_def split: if_splits)
          then show ?thesis using p k(2) by blast
        qed
        show ?thesis
        proof (cases "c = scl")
          case True
          then have "find_free_body fs scl mx x = Ret (Inr (Inl 0, t')) \<and> Q (Inl 0, t')" using body nz t'(2) adv by (simp add: Q_def S_def)
          then show ?thesis by blast
        next
          case cs: False
          then have "unat c \<noteq> S" by (simp add: S_def word_unat_eq_iff)
          then have "I (c, t') \<and> \<mu> (c, t') < \<mu> x" using t'(2) adv c cN sc n S by (auto simp: I_def \<mu>_def x split: if_splits)
          then show ?thesis using body nz cs by auto
        qed
      qed
    qed
  qed
  then show ?thesis unfolding Q_def N_def by auto
qed

lemma link_ok:
  assumes "inv s" "2 \<le> n" "n < max_clust (SBs s fs)" "c = 0 \<or> 2 \<le> c \<and> c < max_clust (SBs s fs) \<and> c \<noteq> n"
  shows "\<exists>s' w. link_cluster fs c n s = Ret (n, s') \<and> inv s' \<and> fat_data fs dev s s' \<and> max_clust (SBs s fs) \<le> w \<and> last_clust (SBs s' fs) = n \<and>
    (\<forall>k < unat (max_clust (SBs s fs)). tab s' k = (if k = unat n then w else if c \<noteq> 0 \<and> k = unat c then n else tab s k)) \<and>
    free_clust (SBs s' fs) = (if free_clust (SBs s fs) = 0xFFFFFFFF then 0xFFFFFFFF else free_clust (SBs s fs) - 1)"
proof -
  let ?mx = "max_clust (SBs s fs)"
  obtain s1 w where s1: "put_cluster fs n 0x0FFFFFFF s = Ret (True, s1)" "inv s1" "fat_kept fs dev s s1"
    "\<forall>k < unat ?mx. tab s1 k = (if k = unat n then w else tab s k)" "?mx \<le> w"
    using put [OF assms(1-3), of "0x0FFFFFFF"] by auto
  note k1 = fat_keptD [OF s1(3)]
  obtain s2 where s2: "(if c \<noteq> 0 then put_cluster fs c n s1 else Ret (True, s1)) = Ret (True, s2)" "inv s2" "fat_kept fs dev s1 s2"
    "\<forall>k < unat ?mx. tab s2 k = (if k = unat n then w else if c \<noteq> 0 \<and> k = unat c then n else tab s k)"
  proof (cases "c = 0")
    case True
    then show ?thesis using that [of s1] s1 by simp
  next
    case False
    then have c: "2 \<le> c" "c < max_clust (SBs s1 fs)" "unat c \<noteq> unat n" using assms(4) by (simp_all add: k1(3), simp add: word_unat_eq_iff)
    obtain s2 v where "put_cluster fs c n s1 = Ret (True, s2)" "inv s2" "fat_kept fs dev s1 s2"
      "\<forall>k < unat ?mx. tab s2 k = (if k = unat c then v else tab s1 k)" "v = n"
      using put [OF s1(2) c(1,2), of n] assms(3) k1(3) by auto
    then show ?thesis using that [of s2] False s1(4) c(3) by auto
  qed
  note k2 = fat_keptD [OF s2(3)]
  define s3 where "s3 = upd_sb fs (\<lambda>b. b\<lparr>last_clust := n\<rparr>) s2"
  have s3: "inv s3" "tab s3 = tab s2" "fat_data fs dev s2 s3"
    using book [OF s2(2) book_upd_simps(1)] book_upd_data [OF book_upd_simps(1)] by (simp_all add: s3_def)
  note f = count_free_ok [OF s3(1), of "\<lambda>n. n - 1"]
  have "link_cluster fs c n s = Ret (n, count_free (\<lambda>n. n - 1) fs s3)"
    using s1(1) s2(1) by (cases "c = 0") (simp_all add: link_cluster_def s3_def)
  moreover have "fat_data fs dev s (count_free (\<lambda>n. n - 1) fs s3)"
    using s1(3) s2(3) s3(3) f(3) by (blast intro: fat_kept_data fat_data_trans)
  moreover have "last_clust (SBs (count_free (\<lambda>n. n - 1) fs s3) fs) = n" by (simp add: count_free_def s3_def)
  moreover have "free_clust (SBs s3 fs) = free_clust (SBs s fs)" using k1(8) k2(8) by (simp add: s3_def)
  ultimately show ?thesis using f(1,2,4) s3(2) s2(4) s1(5) by auto
qed

lemma create_from_ok:
  assumes "inv s" and scl: "1 \<le> scl" "scl < max_clust (SBs s fs) \<or> scl = 1"
    and one: "\<forall>k. 2 \<le> k \<longrightarrow> k < unat (max_clust (SBs s fs)) \<longrightarrow> tab s k \<noteq> 1"
    and c: "c = 0 \<or> 2 \<le> c \<and> c < max_clust (SBs s fs) \<and> tab s (unat c) \<noteq> 0"
  shows "\<exists>r s'. create_chain_from fs c scl (max_clust (SBs s fs)) s = Ret (r, s') \<and> inv s' \<and> fat_data fs dev s s' \<and>
    (if some_free (tab s) (max_clust (SBs s fs))
     then 2 \<le> r \<and> r < max_clust (SBs s fs) \<and> tab s (unat r) = 0 \<and> (\<exists>w \<ge> max_clust (SBs s fs). \<forall>k < unat (max_clust (SBs s fs)).
       tab s' k = (if k = unat r then w else if c \<noteq> 0 \<and> k = unat c then r else tab s k))
     else r = 0 \<and> (\<forall>k < unat (max_clust (SBs s fs)). tab s' k = tab s k))"
proof -
  let ?mx = "max_clust (SBs s fs)"
  obtain r s1 where s1: "kwhile (find_free_body fs scl ?mx) (scl, s) = Ret (r, s1)" "searched inv tab fs dev s s1"
    "case r of Inr n \<Rightarrow> 2 \<le> n \<and> n < ?mx \<and> tab s (unat n) = 0 | Inl e \<Rightarrow> e = 0 \<and> (\<forall>k. 2 \<le> k \<longrightarrow> k < unat ?mx \<longrightarrow> tab s k \<noteq> 0)"
    using find_free_ok [OF assms(1) refl scl one] by blast
  have s1': "inv s1" "fat_kept fs dev s s1" "\<forall>k < unat ?mx. tab s1 k = tab s k" using s1(2) by (simp_all add: searched_def)
  show ?thesis
  proof (cases r)
    case (Inl e)
    then show ?thesis using s1 s1' fat_kept_data [OF s1'(2)] by (auto simp: create_chain_from_def some_free_def)
  next
    case (Inr n)
    then have n: "2 \<le> n" "n < ?mx" "tab s (unat n) = 0" using s1(3) by simp_all
    have mx1: "max_clust (SBs s1 fs) = ?mx" by (rule fat_keptD(3) [OF s1'(2)])
    have "some_free (tab s) (max_clust (SBs s fs))" using n by (auto simp: some_free_def word_le_nat_alt word_less_nat_alt)
    moreover obtain s' w where "link_cluster fs c n s1 = Ret (n, s')" "inv s'" "fat_data fs dev s1 s'" "?mx \<le> w"
      "\<forall>k < unat ?mx. tab s' k = (if k = unat n then w else if c \<noteq> 0 \<and> k = unat c then n else tab s1 k)"
      using link_ok [OF s1'(1) n(1), of c] n(2,3) c mx1 by auto
    ultimately show ?thesis using n s1(1) s1'(3) Inr fat_data_trans [OF fat_kept_data [OF s1'(2)]] by (auto simp: create_chain_from_def)
  qed
qed

lemma create_chain_ok:
  assumes "inv s" and one: "\<forall>k. 2 \<le> k \<longrightarrow> k < unat (max_clust (SBs s fs)) \<longrightarrow> tab s k \<noteq> 1"
    and c: "c = 0 \<or> 2 \<le> c \<and> c < max_clust (SBs s fs) \<and> 2 \<le> tab s (unat c)"
  shows "\<exists>r s'. create_chain fs c s = Ret (r, s') \<and> inv s' \<and> fat_data fs dev s s' \<and>
    (if c \<noteq> 0 \<and> tab s (unat c) < max_clust (SBs s fs)
     then r = tab s (unat c) \<and> (\<forall>k < unat (max_clust (SBs s fs)). tab s' k = tab s k)
     else if some_free (tab s) (max_clust (SBs s fs))
     then 2 \<le> r \<and> r < max_clust (SBs s fs) \<and> tab s (unat r) = 0 \<and> (\<exists>w \<ge> max_clust (SBs s fs). \<forall>k < unat (max_clust (SBs s fs)).
       tab s' k = (if k = unat r then w else if c \<noteq> 0 \<and> k = unat c then r else tab s k))
     else r = 0 \<and> (\<forall>k < unat (max_clust (SBs s fs)). tab s' k = tab s k))"
proof (cases "c = 0")
  case True
  define scl where "scl = (if last_clust (SBs s fs) = 0 \<or> max_clust (SBs s fs) \<le> last_clust (SBs s fs) then 1 else last_clust (SBs s fs))"
  have scl: "1 \<le> scl" "scl < max_clust (SBs s fs) \<or> scl = 1" by (auto simp: scl_def word_le_nat_alt word_less_nat_alt Suc_le_eq unat_gt_0)
  have "create_chain fs c s = create_chain_from fs c scl (max_clust (SBs s fs)) s" using True by (simp add: create_chain_def scl_def Let_def)
  then show ?thesis using create_from_ok [OF assms(1) scl one, of c] True by simp
next
  case False
  let ?mx = "max_clust (SBs s fs)"
  have c': "2 \<le> c" "c < ?mx" "2 \<le> tab s (unat c)" using c False by auto
  obtain s1 where s1: "get_cluster fs c s = Ret (tab s (unat c), s1)" "inv s1" "fat_kept fs dev s s1" "\<forall>k < unat ?mx. tab s1 k = tab s k"
    using get [OF assms(1) c'(1,2)] by blast
  note k1 = fat_keptD [OF s1(3)]
  have t1: "tab s1 (unat c) = tab s (unat c)" using s1(4) c'(2) by (simp add: word_less_nat_alt)
  have nl: "\<not> tab s (unat c) < 2" using c'(3) by (simp add: not_less)
  show ?thesis
  proof (cases "tab s (unat c) < ?mx")
    case True
    then show ?thesis using False s1 nl fat_kept_data [OF s1(3)] by (simp add: create_chain_def Let_def)
  next
    case f: False
    have sc: "1 \<le> c" "c < max_clust (SBs s1 fs) \<or> c = 1" using c' k1(3) by (auto simp: word_le_nat_alt)
    have one': "\<forall>k. 2 \<le> k \<longrightarrow> k < unat (max_clust (SBs s1 fs)) \<longrightarrow> tab s1 k \<noteq> 1" using one s1(4) k1(3) by simp
    have cc: "c = 0 \<or> 2 \<le> c \<and> c < max_clust (SBs s1 fs) \<and> tab s1 (unat c) \<noteq> 0" using c' k1(3) t1 by (auto simp: word_le_nat_alt)
    have sf: "some_free (tab s1) ?mx = some_free (tab s) ?mx" using s1(4) k1(3) by (auto simp: some_free_def)
    have "create_chain fs c s = create_chain_from fs c c ?mx s1" using False f s1(1) nl by (simp add: create_chain_def Let_def)
    moreover obtain r s' where "create_chain_from fs c c ?mx s1 = Ret (r, s')" "inv s'" "fat_data fs dev s1 s'"
      "if some_free (tab s1) ?mx
       then 2 \<le> r \<and> r < ?mx \<and> tab s1 (unat r) = 0 \<and> (\<exists>w \<ge> ?mx. \<forall>k < unat ?mx. tab s' k = (if k = unat r then w else if c \<noteq> 0 \<and> k = unat c then r else tab s1 k))
       else r = 0 \<and> (\<forall>k < unat ?mx. tab s' k = tab s1 k)"
      using create_from_ok [OF s1(2) sc one' cc] unfolding k1(3) by blast
    ultimately show ?thesis
      using f s1(4) sf fat_data_trans [OF fat_kept_data [OF s1(3)]] by (auto simp: word_less_nat_alt split: if_splits)
  qed
qed

end

section \<open>The three formats\<close>

text \<open>A volume whose allocation table is large enough for its clusters, in one of the three formats.\<close>

definition fat_vol :: "ptr set \<Rightarrow> ptr \<Rightarrow> ptr \<Rightarrow> 'a kfat_scheme \<Rightarrow> bool" where
  "fat_vol D fs dev s \<longleftrightarrow> vol_ok D fs dev s \<and> (let b = SBs s fs
     in fs_type b = FS_FAT12 \<and> 3 * unat (max_clust b) \<le> 2 * fat_bytes b \<and> max_clust b \<le> 0xFF7 \<or>
        fs_type b = FS_FAT16 \<and> 2 * unat (max_clust b) \<le> fat_bytes b \<and> max_clust b \<le> 0xFFF7 \<or>
        fs_type b = FS_FAT32 \<and> 4 * unat (max_clust b) \<le> fat_bytes b \<and> max_clust b \<le> 0x0FFFFFF7)"

definition fat_entry :: "ptr \<Rightarrow> ptr \<Rightarrow> 'a kfat_scheme \<Rightarrow> nat \<Rightarrow> u32" where
  "fat_entry fs dev s = (if fs_type (SBs s fs) = FS_FAT12 then e12 else if fs_type (SBs s fs) = FS_FAT16 then e16 else e32) (fbyte fs dev s)"

text \<open>What the three formats have in common: a way \<open>e\<close> to read entries from the bytes of the table, and the bits \<open>m\<close> an entry keeps.\<close>

definition fat_format :: "((nat \<Rightarrow> u8) \<Rightarrow> nat \<Rightarrow> u32) \<Rightarrow> u32 \<Rightarrow> ptr set \<Rightarrow> ptr \<Rightarrow> ptr \<Rightarrow> 'a kfat_scheme \<Rightarrow> bool" where
  "fat_format e m D fs dev s \<longleftrightarrow> fat_entry fs dev s = e (fbyte fs dev s) \<and>
     (\<forall>t :: 'a kfat_scheme. vol_ok D fs dev t \<longrightarrow> geom (SBs t fs) = geom (SBs s fs) \<longrightarrow> fat_vol D fs dev t \<and> fat_entry fs dev t = e (fbyte fs dev t)) \<and>
     (\<forall>c. 2 \<le> c \<longrightarrow> c < max_clust (SBs s fs) \<longrightarrow> reads e D fs dev c s) \<and>
     (\<forall>c v. c < max_clust (SBs s fs) \<longrightarrow> writes e m D fs dev c v s) \<and>
     (\<forall>B B' k. k < unat (max_clust (SBs s fs)) \<longrightarrow> (\<forall>i < fat_bytes (SBs s fs). B' i = B i) \<longrightarrow> e B' k = e B k) \<and>
     (\<forall>v. v < max_clust (SBs s fs) \<longrightarrow> v AND m = v) \<and> max_clust (SBs s fs) \<le> 0x0FFFFFFF AND m"

lemma fat_vol_format:
  fixes s :: "'a kfat_scheme"
  assumes "fat_vol D fs dev s"
  shows "\<exists>e m. fat_format e m D fs dev s"
proof -
  let ?b = "SBs s fs"
  have v: "vol_ok D fs dev s" using assms by (simp add: fat_vol_def)
  have small: "v AND mask n = v" if "unat v < 2 ^ n" for v :: u32 and n
  proof -
    have "unat (take_bit n v) = unat v" using that by (simp add: unsigned_take_bit_eq take_bit_nat_eq_self)
    then show ?thesis by (simp only: word_unat_eq_iff take_bit_eq_mask)
  qed
  consider (f12) "fs_type ?b = FS_FAT12" "3 * unat (max_clust ?b) \<le> 2 * fat_bytes ?b" "max_clust ?b \<le> 0xFF7"
    | (f16) "fs_type ?b = FS_FAT16" "2 * unat (max_clust ?b) \<le> fat_bytes ?b" "max_clust ?b \<le> 0xFFF7"
    | (f32) "fs_type ?b = FS_FAT32" "4 * unat (max_clust ?b) \<le> fat_bytes ?b" "max_clust ?b \<le> 0x0FFFFFF7"
    using assms unfolding fat_vol_def Let_def by blast
  then show ?thesis
  proof cases
    case f12
    have m: "(0xFFF :: u32) = mask 12" by (simp add: mask_numeral)
    have "fat_vol D fs dev t \<and> fat_entry fs dev t = e12 (fbyte fs dev t)" if "vol_ok D fs dev t" "geom (SBs t fs) = geom ?b" for t :: "'a kfat_scheme"
      using that geom_eqD [OF that(2)] f12 by (simp add: fat_vol_def fat_entry_def Let_def)
    moreover have "e12 B' k = e12 B k" if "k < unat (max_clust ?b)" "\<forall>i < fat_bytes ?b. B' i = B i" for B B' k
      using fat12_fits [OF f12(2) that(1)] that(2) by (simp add: e12_def)
    moreover have "w AND 0xFFF = w" if "w < max_clust ?b" for w
      unfolding m by (rule small) (use that f12(3) in \<open>simp add: word_less_nat_alt word_le_nat_alt\<close>)
    moreover have "max_clust ?b \<le> 0x0FFFFFFF AND 0xFFF" using f12(3) by (simp add: word_le_nat_alt)
    moreover have "fat_entry fs dev s = e12 (fbyte fs dev s)" by (simp add: fat_entry_def f12(1))
    ultimately have "fat_format e12 0xFFF D fs dev s"
      unfolding fat_format_def using v get12 [OF v f12] put12 [OF v f12] by simp
    then show ?thesis by blast
  next
    case f16
    have m: "(0xFFFF :: u32) = mask 16" by (simp add: mask_numeral)
    have "fat_vol D fs dev t \<and> fat_entry fs dev t = e16 (fbyte fs dev t)" if "vol_ok D fs dev t" "geom (SBs t fs) = geom ?b" for t :: "'a kfat_scheme"
      using that geom_eqD [OF that(2)] f16 by (simp add: fat_vol_def fat_entry_def Let_def)
    moreover have "e16 B' k = e16 B k" if "k < unat (max_clust ?b)" "\<forall>i < fat_bytes ?b. B' i = B i" for B B' k
      using that f16(2) by (simp add: e16_def)
    moreover have "w AND 0xFFFF = w" if "w < max_clust ?b" for w
      unfolding m by (rule small) (use that f16(3) in \<open>simp add: word_less_nat_alt word_le_nat_alt\<close>)
    moreover have "max_clust ?b \<le> 0x0FFFFFFF AND 0xFFFF" using f16(3) by (simp add: word_le_nat_alt)
    moreover have "fat_entry fs dev s = e16 (fbyte fs dev s)" by (simp add: fat_entry_def f16(1))
    ultimately have "fat_format e16 0xFFFF D fs dev s"
      unfolding fat_format_def using v get16 [OF v f16(1,2)] put16 [OF v f16(1,2)] by simp
    then show ?thesis by blast
  next
    case f32
    have m: "(0x0FFFFFFF :: u32) = mask 28" by (simp add: mask_numeral)
    have "fat_vol D fs dev t \<and> fat_entry fs dev t = e32 (fbyte fs dev t)" if "vol_ok D fs dev t" "geom (SBs t fs) = geom ?b" for t :: "'a kfat_scheme"
      using that geom_eqD [OF that(2)] f32 by (simp add: fat_vol_def fat_entry_def Let_def)
    moreover have "e32 B' k = e32 B k" if "k < unat (max_clust ?b)" "\<forall>i < fat_bytes ?b. B' i = B i" for B B' k
      using that f32(2) by (simp add: e32_def)
    moreover have "w AND 0x0FFFFFFF = w" if "w < max_clust ?b" for w
      unfolding m by (rule small) (use that f32(3) in \<open>simp add: word_less_nat_alt word_le_nat_alt\<close>)
    moreover have "max_clust ?b \<le> 0x0FFFFFFF AND 0x0FFFFFFF" using f32(3) by (simp add: word_le_nat_alt)
    moreover have "fat_entry fs dev s = e32 (fbyte fs dev s)" by (simp add: fat_entry_def f32(1))
    ultimately have "fat_format e32 0x0FFFFFFF D fs dev s"
      unfolding fat_format_def using v get32 [OF v f32(1,2)] put32 [OF v f32(1,2)] by simp
    then show ?thesis by blast
  qed
qed

interpretation ct: cluster_table "fat_vol D fs dev" "fat_entry fs dev" fs dev for D fs dev
proof unfold_locales
  fix s :: "'a kfat_scheme" and c :: u32
  assume a: "fat_vol D fs dev s" and c: "2 \<le> c" "c < max_clust (SBs s fs)"
  obtain e m where f: "fat_format e m D fs dev s" using fat_vol_format [OF a] by blast
  then have f: "fat_entry fs dev s = e (fbyte fs dev s)"
    "\<forall>t :: 'a kfat_scheme. vol_ok D fs dev t \<longrightarrow> geom (SBs t fs) = geom (SBs s fs) \<longrightarrow> fat_vol D fs dev t \<and> fat_entry fs dev t = e (fbyte fs dev t)"
    "\<forall>c. 2 \<le> c \<longrightarrow> c < max_clust (SBs s fs) \<longrightarrow> reads e D fs dev c s" "\<forall>c v. c < max_clust (SBs s fs) \<longrightarrow> writes e m D fs dev c v s"
    "\<forall>B B' k. k < unat (max_clust (SBs s fs)) \<longrightarrow> (\<forall>i < fat_bytes (SBs s fs). B' i = B i) \<longrightarrow> e B' k = e B k"
    "\<forall>v. v < max_clust (SBs s fs) \<longrightarrow> v AND m = v" "max_clust (SBs s fs) \<le> 0x0FFFFFFF AND m"
    unfolding fat_format_def by blast+
  obtain s' where s': "get_cluster fs c s = Ret (fat_entry fs dev s (unat c), s')" "vol_ok D fs dev s'" "fat_kept fs dev s s'"
    "\<forall>i < fat_bytes (SBs s fs). fbyte fs dev s' i = fbyte fs dev s i"
    using f(3) [rule_format, OF c] unfolding reads_def f(1) by blast
  have t: "fat_vol D fs dev s'" "fat_entry fs dev s' = e (fbyte fs dev s')" using f(2) [rule_format, OF s'(2) fat_keptD(2) [OF s'(3)]] by simp_all
  have "fat_entry fs dev s' k = fat_entry fs dev s k" if "k < unat (max_clust (SBs s fs))" for k
    unfolding t(2) f(1) by (rule f(5) [rule_format, OF that]) (use s'(4) in blast)
  then show "\<exists>s'. get_cluster fs c s = Ret (fat_entry fs dev s (unat c), s') \<and> fat_vol D fs dev s' \<and> fat_kept fs dev s s' \<and>
      (\<forall>k < unat (max_clust (SBs s fs)). fat_entry fs dev s' k = fat_entry fs dev s k)"
    using s' t(1) by blast
  fix v :: u32
  obtain s1 where s1: "put_cluster fs c v s = Ret (True, s1)" "vol_ok D fs dev s1" "fat_kept fs dev s s1"
    "\<forall>k < unat (max_clust (SBs s fs)). e (fbyte fs dev s1) k = (if k = unat c then v AND m else e (fbyte fs dev s) k)"
    using f(4) [rule_format, OF c(2), of v] unfolding writes_def by blast
  have t1: "fat_vol D fs dev s1" "fat_entry fs dev s1 = e (fbyte fs dev s1)" using f(2) [rule_format, OF s1(2) fat_keptD(2) [OF s1(3)]] by simp_all
  show "\<exists>s' w. put_cluster fs c v s = Ret (True, s') \<and> fat_vol D fs dev s' \<and> fat_kept fs dev s s' \<and>
      (\<forall>k < unat (max_clust (SBs s fs)). fat_entry fs dev s' k = (if k = unat c then w else fat_entry fs dev s k)) \<and>
      (v < max_clust (SBs s fs) \<longrightarrow> w = v) \<and> (v = 0x0FFFFFFF \<longrightarrow> max_clust (SBs s fs) \<le> w)"
    using s1 t1 f(1,6,7) by (intro exI [of _ s1] exI [of _ "v AND m"]) auto
next
  fix s :: "'a kfat_scheme" and g
  assume a: "fat_vol D fs dev s" and g: "book_upd g"
  have sb: "geom (SBs (upd_sb fs g s) fs) = geom (SBs s fs)" "winsect (SBs (upd_sb fs g s) fs) = winsect (SBs s fs)"
    "winflag (SBs (upd_sb fs g s) fs) = winflag (SBs s fs)" using g by (simp_all add: book_upd_def)
  note k = geom_eqD [OF sb(1)]
  have v: "vol_ok D fs dev s" using a by (simp add: fat_vol_def)
  note d = vol_okD [OF v refl]
  have "vol_dev D fs dev (upd_sb fs g s)" using d(1) k(6) by (subst vol_dev_upd_sb) simp_all
  then have "vol_ok D fs dev (upd_sb fs g s)"
    by (rule vol_okI [OF _ v]) (use d sb in simp_all)
  moreover have "fbyte fs dev (upd_sb fs g s) = fbyte fs dev s"
    using book_upd_fview [OF g, of fs dev s] k(2) by (simp add: fbyte_def fun_eq_iff)
  ultimately show "fat_vol D fs dev (upd_sb fs g s) \<and> fat_entry fs dev (upd_sb fs g s) = fat_entry fs dev s"
    using a k by (simp add: fat_vol_def fat_entry_def Let_def)
qed

end
