(* ===== verification/Fat_Props.thy ===== *)
theory Fat_Props
  imports Fat_Chain Stdio_Correct
begin

text \<open>
  The properties of the FAT driver's allocation table, on volumes of any of the three formats, with a small
  FAT16 volume as an example: cluster 2 is followed by cluster 3, the other clusters are free.
\<close>

section \<open>Sample volume\<close>

definition sample_fat_sector :: "u8 list" where
  "sample_fat_sector = [0xF8, 0xFF, 0xFF, 0xFF, 3, 0, 0xFF, 0xFF] @ replicate 504 0"

definition sample_sb :: FATBase_SuperBlock where
  "sample_sb = \<lparr>sb_id = 1, n_rootdir = 16, winsect = 0, sects_fat = 1, max_clust = 100, fatbase = 1, dirbase = 3, database = 4,
     last_clust = 0, free_clust = 50, fsi_sector = 0, fsi_flag = 0, fs_type = 2, sects_clust = 1, n_fats = 2, sb_drive = 0, winflag = 0\<rparr>"

definition sample_kfat :: kfat where
  "sample_kfat = kfs.extend (sample_kfs\<lparr>drives := (\<lambda>_. sample_drive\<lparr>d_bad := (\<lambda>_. False), d_sectors := (\<lambda>_. sample_fat_sector)\<rparr>),
       BlockDeviceList := 0xC0008000, BlkLinks := listAdd 0xC0008000 0xC0009000 (initList 0xC0008000 \<lparr>lp_prev = (\<lambda>x. x), lp_next = (\<lambda>x. x)\<rparr>)\<rparr>)
     (kfat.fields (\<lambda>_. sample_sb) (\<lambda>_. 0xC032FFD0) 1 (\<lambda>_. \<lparr>part_pd = 0, part_pt = 0\<rparr>)
        (\<lambda>_. \<lparr>fp_id = 0, fp_flag = 0, sect_clust = 0, fp_fs = 0, fptr = 0, fsize = 0, org_clust = 0, curr_clust = 0, curr_sect = 0, dir_sect = 0, dir_ptr = 0\<rparr>)
        (\<lambda>_. \<lparr>dj_id = 0, dj_index = 0, dj_fs = 0, dj_sclust = 0, dj_clust = 0, dj_sect = 0\<rparr>))"

lemma sample_kfat_sel:
  "sems sample_kfat = (\<lambda>_. \<lparr>sem_value = 1\<rparr>)" "WaitLinks sample_kfat = \<lparr>lp_prev = (\<lambda>x. x), lp_next = (\<lambda>x. x)\<rparr>"
  "drives sample_kfat = (\<lambda>_. sample_drive\<lparr>d_bad := (\<lambda>_. False), d_sectors := (\<lambda>_. sample_fat_sector)\<rparr>)"
  "IDE_Devices sample_kfat = (\<lambda>_. \<lparr>ide_valid = True, ide_sets = 0, ide_size = 100, ide_desc = []\<rparr>)"
  "bd_ops (blockdevs sample_kfat d) = IdeOps 0" "bd_id (blockdevs sample_kfat d) = 0" "IDE_Sem sample_kfat = 0xC0007000"
  "BlockCacheSem sample_kfat = 0xC000A000" "BlockDeviceList sample_kfat = 0xC0008000"
  "BlkLinks sample_kfat = listAdd 0xC0008000 0xC0009000 (initList 0xC0008000 \<lparr>lp_prev = (\<lambda>x. x), lp_next = (\<lambda>x. x)\<rparr>)"
  "bc_data (BlockCache sample_kfat i) = 0xC0310000 + of_nat i * 512" "\<not> bc_occupied (BlockCache sample_kfat i)"
  "SBs sample_kfat fs = sample_sb"
  by (simp_all add: sample_kfat_def kfs.defs kfat.defs sample_kfs_def kbc.defs sample_kbc_def kblk.defs kide.defs sample_kide_def ktask.defs)

lemma sample_kfat_inv: "cache_inv sample_kfat {0xC0009000}"
proof (rule cache_invI)
  show "dev_ok sample_kfat d" if "d \<in> {0xC0009000}" for d
    using that by (simp add: dev_ok_def ideno_def ide_ready_def sem_free_def sample_kfat_sel sample_drive_def waitlistIsEmpty_def
        listIsEmpty_def sample_fat_sector_def)
  show "span (bc_data (BlockCache sample_kfat i)) 512 \<inter> span (bc_data (BlockCache sample_kfat j)) 512 = {}"
    if "i < N_BCACHE" "j < N_BCACHE" "i \<noteq> j" for i j
    unfolding sample_kfat_sel using that by (intro buffers_apart) simp_all
qed (simp_all add: bc_hit_def sample_kfat_sel)

lemma sample_kfat_device: "getDeviceWithId 0 sample_kfat = Ret 0xC0009000"
  unfolding getDeviceWithId_def listFind_def sample_kfat_sel listAdd_def listAddAfter_def list_add_raw_def initList_def
  by (subst listFind_from.simps) (simp add: kloop_def)

abbreviation (input) sample_fs :: ptr where "sample_fs \<equiv> 0xC032FFD0"
abbreviation (input) sample_dev :: ptr where "sample_dev \<equiv> 0xC0009000"

lemma sample_kfat_apart: "span (win sample_fs) 512 \<inter> cache_mem sample_kfat = {}"
proof -
  have "cache_mem sample_kfat = cache_mem (sample_kbc (\<lambda>_. False))" by (simp add: cache_mem_def sample_kfat_sel sample_kbc_sel)
  then show ?thesis using sample_kbc_buffer [of 256 1 "\<lambda>_. False"] by (simp add: win_def)
qed

lemma sample_kfat_free: "cache_free sample_kfat D"
  by (simp add: cache_free_def sem_free_def sample_kfat_sel waitlistIsEmpty_def listIsEmpty_def ide_sem_def ideno_def)

lemma sample_kfat_vol: "fat_vol {sample_dev} sample_fs sample_dev sample_kfat"
  using sample_kfat_inv sample_kfat_free sample_kfat_device sample_kfat_apart
  by (simp add: fat_vol_def vol_ok_def vol_dev_def sample_kfat_sel sample_sb_def)

lemma sample_kfat_view: "fview sample_fs sample_dev sample_kfat x = sample_fat_sector"
  using bview_miss [of sample_kfat sample_dev x]
  by (auto simp: fview_def sample_kfat_sel sample_sb_def bc_hit_def disk_def sample_drive_def)

lemma sample_kfat_entry:
  assumes "k < 256"
  shows "fat_entry sample_fs sample_dev sample_kfat k = (if k = 2 then 3 else if k = 0 then 0xFFF8 else if k = 1 \<or> k = 3 then 0xFFFF else 0)"
proof -
  have b: "fbyte sample_fs sample_dev sample_kfat i = sample_fat_sector ! (i mod 512)" for i by (simp add: fbyte_def sample_kfat_view)
  have "fat_entry sample_fs sample_dev sample_kfat k =
    ucast (ucast (sample_fat_sector ! (2 * k)) OR push_bit 8 (ucast (sample_fat_sector ! (2 * k + 1))) :: u16)"
    using assms by (simp add: fat_entry_def sample_kfat_sel sample_sb_def e16_def b)
  moreover have "k = 0 \<or> k = 1 \<or> k = 2 \<or> k = 3 \<or> (8 \<le> 2 * k \<and> 2 * k + 1 < 512)" using assms by arith
  ultimately show ?thesis by (auto simp: sample_fat_sector_def nth_append)
qed

section \<open>Properties\<close>

text \<open>
  C31: on a volume of any of the three formats, the value stored in a cluster's entry of the allocation table is
  the value read back, every other entry reads as before, and no sector outside the table changes.
\<close>

theorem put_get_cluster:
  assumes "fat_vol D fs dev s" "2 \<le> c" "c < max_clust (SBs s fs)" "v < max_clust (SBs s fs)"
  shows "\<exists>s1. put_cluster fs c v s = Ret (True, s1) \<and> fat_vol D fs dev s1 \<and>
    (\<forall>y. data_sector (SBs s fs) y \<longrightarrow> fview fs dev s1 y = fview fs dev s y) \<and>
    (\<forall>d. 2 \<le> d \<longrightarrow> d < max_clust (SBs s fs) \<longrightarrow>
      (\<exists>s2. get_cluster fs d s1 = Ret (if d = c then v else fat_entry fs dev s (unat d), s2)))"
proof -
  obtain s1 w where s1: "put_cluster fs c v s = Ret (True, s1)" "fat_vol D fs dev s1" "fat_kept fs dev s s1"
    "\<forall>k < unat (max_clust (SBs s fs)). fat_entry fs dev s1 k = (if k = unat c then w else fat_entry fs dev s k)" "w = v"
    using ct.put [OF assms(1-3), of v] assms(4) by blast
  have "\<exists>s2. get_cluster fs d s1 = Ret (if d = c then v else fat_entry fs dev s (unat d), s2)" if "2 \<le> d" "d < max_clust (SBs s fs)" for d
    using ct.get [OF s1(2) that(1)] that(2) s1(4,5) fat_keptD(3) [OF s1(3)] by (auto simp: word_less_nat_alt word_unat_eq_iff)
  then show ?thesis using s1(1-3) by (auto simp: fat_kept_def)
qed

theorem put_get_cluster_witness:
  "\<exists>s1. put_cluster sample_fs 2 7 sample_kfat = Ret (True, s1) \<and> (\<exists>s2. get_cluster sample_fs 2 s1 = Ret (7, s2)) \<and>
    (\<exists>s2. get_cluster sample_fs 3 s1 = Ret (0xFFFF, s2))"
proof -
  have c: "(2 :: u32) < max_clust (SBs sample_kfat sample_fs)" "(7 :: u32) < max_clust (SBs sample_kfat sample_fs)"
    "(3 :: u32) < max_clust (SBs sample_kfat sample_fs)"
    by (simp_all add: sample_kfat_sel sample_sb_def)
  obtain s1 where s1: "put_cluster sample_fs 2 7 sample_kfat = Ret (True, s1)"
    "\<forall>d. 2 \<le> d \<longrightarrow> d < max_clust (SBs sample_kfat sample_fs) \<longrightarrow>
      (\<exists>s2. get_cluster sample_fs d s1 = Ret (if d = 2 then 7 else fat_entry sample_fs sample_dev sample_kfat (unat d), s2))"
    using put_get_cluster [OF sample_kfat_vol order_refl c(1,2)] by blast
  show ?thesis using s1(1) s1(2) [rule_format, of 2] s1(2) [rule_format, of 3] c sample_kfat_entry [of 3] by simp
qed

text \<open>
  C32: \<^verbatim>\<open>create_chain\<close> on a consistent table.  A cluster that has a successor is followed; otherwise a free cluster
  is allocated exactly when there is one: its entry becomes an end mark, the given cluster's entry its
  number, and no other entry and no sector outside the table changes.  The search always ends.
\<close>

theorem create_chain_correct:
  assumes "fat_vol D fs dev s" "\<forall>k. 2 \<le> k \<longrightarrow> k < unat (max_clust (SBs s fs)) \<longrightarrow> fat_entry fs dev s k \<noteq> 1"
    and "c = 0 \<or> 2 \<le> c \<and> c < max_clust (SBs s fs) \<and> 2 \<le> fat_entry fs dev s (unat c)"
  shows "\<exists>r s'. create_chain fs c s = Ret (r, s') \<and> fat_vol D fs dev s' \<and> fat_data fs dev s s' \<and>
    (if c \<noteq> 0 \<and> fat_entry fs dev s (unat c) < max_clust (SBs s fs)
     then r = fat_entry fs dev s (unat c) \<and> (\<forall>k < unat (max_clust (SBs s fs)). fat_entry fs dev s' k = fat_entry fs dev s k)
     else if some_free (fat_entry fs dev s) (max_clust (SBs s fs))
     then 2 \<le> r \<and> r < max_clust (SBs s fs) \<and> fat_entry fs dev s (unat r) = 0 \<and>
       (\<exists>w \<ge> max_clust (SBs s fs). \<forall>k < unat (max_clust (SBs s fs)).
         fat_entry fs dev s' k = (if k = unat r then w else if c \<noteq> 0 \<and> k = unat c then r else fat_entry fs dev s k))
     else r = 0 \<and> (\<forall>k < unat (max_clust (SBs s fs)). fat_entry fs dev s' k = fat_entry fs dev s k))"
  by (rule ct.create_chain_ok [OF assms])

theorem create_chain_correct_witness:
  "\<exists>r s'. create_chain sample_fs 3 sample_kfat = Ret (r, s') \<and> 2 \<le> r \<and> r < 100 \<and> fat_entry sample_fs sample_dev sample_kfat (unat r) = 0 \<and>
    fat_entry sample_fs sample_dev s' 3 = r \<and> 100 \<le> fat_entry sample_fs sample_dev s' (unat r)"
proof -
  let ?T = "fat_entry sample_fs sample_dev sample_kfat"
  have mx: "max_clust (SBs sample_kfat sample_fs) = 100" by (simp add: sample_kfat_sel sample_sb_def)
  have one: "\<forall>k. 2 \<le> k \<longrightarrow> k < unat (max_clust (SBs sample_kfat sample_fs)) \<longrightarrow> ?T k \<noteq> 1" by (simp add: mx sample_kfat_entry)
  have c: "(3 :: u32) = 0 \<or> 2 \<le> (3 :: u32) \<and> 3 < max_clust (SBs sample_kfat sample_fs) \<and> 2 \<le> ?T (unat (3 :: u32))"
    by (simp add: mx sample_kfat_entry)
  have "some_free ?T 100" by (auto simp: some_free_def sample_kfat_entry intro!: exI [of _ 4])
  moreover have e: "?T 3 = 0xFFFF" by (simp add: sample_kfat_entry)
  ultimately obtain r s' w where r: "create_chain sample_fs 3 sample_kfat = Ret (r, s')" "2 \<le> r" "r < 100" "?T (unat r) = 0" "w \<ge> 100"
    "\<forall>k < 100. fat_entry sample_fs sample_dev s' k = (if k = unat r then w else if k = 3 then r else ?T k)"
    using create_chain_correct [OF sample_kfat_vol one c] unfolding mx by auto
  have "unat r < 100" "unat r \<noteq> 3" using r(3,4) e by (auto simp: word_less_nat_alt)
  then show ?thesis using r by auto
qed

text \<open>
  C33: \<^verbatim>\<open>remove_chain\<close> frees exactly the clusters of the chain that starts at the given cluster and counts them,
  and no other entry and no sector outside the table changes.
\<close>

theorem remove_chain_correct:
  assumes "fat_vol D fs dev s" "chain (fat_entry fs dev s) (max_clust (SBs s fs)) c xs"
    and "free_clust (SBs s fs) = 0xFFFFFFFF \<or> unat (free_clust (SBs s fs)) + length xs < 0xFFFFFFFF"
  shows "\<exists>s'. remove_chain fs c s = Ret (True, s') \<and> fat_vol D fs dev s' \<and> fat_data fs dev s s' \<and>
    (\<forall>k < unat (max_clust (SBs s fs)). fat_entry fs dev s' k = (if k \<in> unat ` set xs then 0 else fat_entry fs dev s k)) \<and>
    free_clust (SBs s' fs) = (if free_clust (SBs s fs) = 0xFFFFFFFF then 0xFFFFFFFF else free_clust (SBs s fs) + of_nat (length xs))"
  by (rule ct.remove_chain_ok [OF assms])

theorem remove_chain_correct_witness:
  "\<exists>s'. remove_chain sample_fs 2 sample_kfat = Ret (True, s') \<and> fat_entry sample_fs sample_dev s' 2 = 0 \<and>
    fat_entry sample_fs sample_dev s' 3 = 0 \<and> free_clust (SBs s' sample_fs) = 52"
proof -
  have sb: "max_clust (SBs sample_kfat sample_fs) = 100" "free_clust (SBs sample_kfat sample_fs) = 50" by (simp_all add: sample_kfat_sel sample_sb_def)
  have ch: "chain (fat_entry sample_fs sample_dev sample_kfat) (max_clust (SBs sample_kfat sample_fs)) 2 [2, 3]"
    by (simp add: sb sample_kfat_entry)
  have fc: "free_clust (SBs sample_kfat sample_fs) = 0xFFFFFFFF \<or>
      unat (free_clust (SBs sample_kfat sample_fs)) + length [2 :: u32, 3] < 0xFFFFFFFF" by (simp add: sb)
  show ?thesis using remove_chain_correct [OF sample_kfat_vol ch fc] unfolding sb by auto
qed

text \<open>
  C34: moving the sector window.  The window then shows the wanted sector, what it held before is on its way to
  the disk, and the view of the volume is unchanged but for the further copies of the allocation table.
\<close>

theorem move_window_transparent:
  assumes "vol_ok D fs dev s" "x < MAX_DISK_NSECS" "x \<noteq> 0"
  shows "\<exists>s'. move_window fs x s = Ret (True, s') \<and> vol_ok D fs dev s' \<and> rdbytes (mem s') (win fs) 512 = fview fs dev s' x \<and>
    (\<forall>y. \<not> mirrored (SBs s fs) y \<longrightarrow> fview fs dev s' y = fview fs dev s y)"
proof -
  obtain s' where s': "move_window fs x s = Ret (True, s')" "vol_ok D fs dev s'"
    "SBs s' fs = (SBs s fs)\<lparr>winsect := x, winflag := winflag (SBs s' fs)\<rparr>" "\<forall>y. \<not> mirrored (SBs s fs) y \<longrightarrow> fview fs dev s' y = fview fs dev s y"
    using move_window_ok [OF assms] by blast
  have "winsect (SBs s' fs) = x" by (subst s'(3)) simp
  then show ?thesis using s' assms(3) by (auto simp: fview_def)
qed

theorem move_window_transparent_witness:
  "\<exists>s'. move_window sample_fs 1 sample_kfat = Ret (True, s') \<and> rdbytes (mem s') (win sample_fs) 512 = sample_fat_sector"
proof -
  have "vol_ok {sample_dev} sample_fs sample_dev sample_kfat" using sample_kfat_vol by (simp add: fat_vol_def)
  from move_window_transparent [OF this, of 1] show ?thesis
    by (auto simp: sample_kfat_view sample_kfat_sel sample_sb_def mirrored_def)
qed

end
