(* ===== verification/Fat_Mount.thy ===== *)
theory Fat_Mount
  imports Fat_Props FatInode
begin

text \<open>
  Mounting a volume: from a sound boot record, \<^verbatim>\<open>auto_mount\<close> and \<^verbatim>\<open>fatbase_do_mount\<close> establish the invariant under which
  the allocation table was shown correct, with the geometry the boot record describes.
\<close>

section \<open>A boot record as a list of bytes\<close>

definition rec_mem :: "u8 list \<Rightarrow> memory" where
  "rec_mem B a = B ! unat a"

lemma rec_byte: "rdbytes m w 512 = B \<Longrightarrow> i < 512 \<Longrightarrow> m (w + of_nat i) = rec_mem B (of_nat i)"
  using rdbytes_nth [of i 512 m w] by (auto simp: rec_mem_def unat_of_nat_u32)

lemma rec_word:
  assumes "rdbytes m w 512 = B" "i + 1 < 512"
  shows "LD_WORD m (w + of_nat i) = LD_WORD (rec_mem B) (of_nat i)"
  using rec_byte [OF assms(1), of i] rec_byte [OF assms(1), of "i + 1"] assms(2) by (simp add: LD_WORD_def algebra_simps)

lemma rec_dword:
  assumes "rdbytes m w 512 = B" "i + 3 < 512"
  shows "LD_DWORD m (w + of_nat i) = LD_DWORD (rec_mem B) (of_nat i)"
  using rec_byte [OF assms(1), of i] rec_byte [OF assms(1), of "i + 1"] rec_byte [OF assms(1), of "i + 2"] rec_byte [OF assms(1), of "i + 3"] assms(2)
  by (simp add: LD_DWORD_def ld32_def algebra_simps)

lemma rec_bytes:
  assumes "rdbytes m w 512 = B" "i + k \<le> 512"
  shows "rdbytes m (w + of_nat i) k = rdbytes (rec_mem B) (of_nat i) k"
proof (rule nth_equalityI)
  fix j assume "j < length (rdbytes m (w + of_nat i) k)"
  then show "rdbytes m (w + of_nat i) k ! j = rdbytes (rec_mem B) (of_nat i) k ! j"
    using rec_byte [OF assms(1), of "i + j"] assms(2) by (simp add: rdbytes_nth algebra_simps)
qed simp

lemmas rec_bpb =
  rec_word [where i = 11, simplified] rec_word [where i = 14, simplified] rec_word [where i = 17, simplified] rec_word [where i = 19, simplified]
  rec_word [where i = 22, simplified] rec_word [where i = 48, simplified] rec_word [where i = 510, simplified]
  rec_dword [where i = 32, simplified] rec_dword [where i = 36, simplified] rec_dword [where i = 44, simplified]
  rec_byte [where i = 13, simplified] rec_byte [where i = 16, simplified] rec_byte [where i = 40, simplified]
  rec_bytes [where i = 54 and k = 3, simplified] rec_bytes [where i = 82 and k = 5, simplified]

text \<open>What the driver takes for the boot record of a volume, and for one that is not.\<close>

definition boot_mark :: "u8 list \<Rightarrow> bool" where
  "boot_mark B \<longleftrightarrow> LD_WORD (rec_mem B) 510 = 0xAA55"

definition fat_mark :: "u8 list \<Rightarrow> bool" where
  "fat_mark B \<longleftrightarrow> rdbytes (rec_mem B) 54 3 = [0x46, 0x41, 0x54] \<or>
     rdbytes (rec_mem B) 82 5 = [0x46, 0x41, 0x54, 0x33, 0x32] \<and> rec_mem B 40 AND 0x80 = 0"

definition boot_geometry :: "u8 list \<Rightarrow> u32 \<Rightarrow> FATBase_SuperBlock" where
  "boot_geometry B boot = read_geometry (rec_mem B) 0 boot zero_sb"

lemma read_geometry_rec:
  assumes "rdbytes m w 512 = B"
  shows "read_geometry m w boot b = read_geometry (rec_mem B) 0 boot b"
  unfolding read_geometry_def by (simp only: rec_bpb [OF assms] add_0_left)

section \<open>Steps of mounting\<close>

text \<open>A volume object that is not mounted yet: its device works and its window is memory of its own.\<close>

definition vol_raw :: "ptr set \<Rightarrow> ptr \<Rightarrow> ptr \<Rightarrow> 'a kfat_scheme \<Rightarrow> bool" where
  "vol_raw D fs dev s \<longleftrightarrow> vol_dev D fs dev s \<and> span (win fs) 512 \<inter> cache_mem s = {}"

lemma raw_read:
  assumes "vol_raw D fs dev s" "x < MAX_DISK_NSECS"
  shows "\<exists>s'. fatbase_disk_read (sb_drive (SBs s fs)) (win fs) x 1 s = Ret (0, s') \<and> vol_raw D fs dev s' \<and> SBs s' = SBs s \<and>
    rdbytes (mem s') (win fs) 512 = bview s dev x \<and> bview s' dev = bview s dev \<and> fat_rest s' = fat_rest s"
proof -
  have a: "vol_dev D fs dev s" "span (win fs) 512 \<inter> cache_mem s = {}" using assms(1) by (simp_all add: vol_raw_def)
  obtain s' where s': "fatbase_disk_read (sb_drive (SBs s fs)) (win fs) x 1 s = Ret (0, s')" "vol_dev D fs dev s'" "cframe s s'" "SBs s' = SBs s"
    "rw_effect IO_READ (win fs) dev x D s s'" using fat_read_one [OF a(1) assms(2) a(2)] by blast
  moreover have "dev \<in> D" using a(1) by (simp add: vol_dev_def)
  ultimately show ?thesis using a(2) cframe_same(1) [OF s'(3)] cframe_fat_rest [OF s'(3)] by (auto simp: vol_raw_def rw_effect_def)
qed

lemma check_fs_ok:
  assumes "vol_raw D fs dev s" "x < MAX_DISK_NSECS" "boot_mark (bview s dev x)"
  shows "\<exists>s'. check_fs fs x s = Ret (if fat_mark (bview s dev x) then 0 else 1, s') \<and> vol_raw D fs dev s' \<and> SBs s' = SBs s \<and>
    rdbytes (mem s') (win fs) 512 = bview s dev x \<and> bview s' dev = bview s dev \<and> fat_rest s' = fat_rest s"
proof -
  obtain s' where s': "fatbase_disk_read (sb_drive (SBs s fs)) (win fs) x 1 s = Ret (0, s')" "vol_raw D fs dev s'" "SBs s' = SBs s"
    "rdbytes (mem s') (win fs) 512 = bview s dev x" "bview s' dev = bview s dev" "fat_rest s' = fat_rest s"
    using raw_read [OF assms(1,2)] by blast
  have "check_fs fs x s = Ret (if fat_mark (bview s dev x) then 0 else 1, s')"
    using s'(1) assms(3) rec_bpb [OF s'(4)] by (auto simp: check_fs_def boot_mark_def fat_mark_def)
  then show ?thesis using s' by blast
qed

text \<open>Where the volume starts: at the given sector, or where the partition table there says.\<close>

definition boots_at :: "(u32 \<Rightarrow> u8 list) \<Rightarrow> u8 \<Rightarrow> u32 \<Rightarrow> u32 \<Rightarrow> bool" where
  "boots_at V pt x y \<longleftrightarrow> x < MAX_DISK_NSECS \<and> y < MAX_DISK_NSECS \<and> boot_mark (V x) \<and> boot_mark (V y) \<and> fat_mark (V y) \<and>
     (if fat_mark (V x) then y = x
      else pt < 4 \<and> rec_mem (V x) (446 + ucast pt * 16 + 4) \<noteq> 0 \<and> y = LD_DWORD (rec_mem (V x)) (446 + ucast pt * 16 + 8))"

lemma find_volume_ok:
  assumes "vol_raw D fs dev s" "boots_at (bview s dev) (part_pt (Fat_Drives s (unat drv))) x y"
  shows "\<exists>s'. find_volume fs drv x s = Ret (0, y, s') \<and> vol_raw D fs dev s' \<and> SBs s' = SBs s \<and>
    rdbytes (mem s') (win fs) 512 = bview s dev y \<and> bview s' dev = bview s dev \<and> fat_rest s' = fat_rest s"
proof -
  let ?V = "bview s dev" and ?pt = "part_pt (Fat_Drives s (unat drv))"
  have b: "x < MAX_DISK_NSECS" "y < MAX_DISK_NSECS" "boot_mark (?V x)" "boot_mark (?V y)" "fat_mark (?V y)" using assms(2) by (simp_all add: boots_at_def)
  obtain s1 where s1: "check_fs fs x s = Ret (if fat_mark (?V x) then 0 else 1, s1)" "vol_raw D fs dev s1" "SBs s1 = SBs s"
    "rdbytes (mem s1) (win fs) 512 = ?V x" "bview s1 dev = ?V" "fat_rest s1 = fat_rest s"
    using check_fs_ok [OF assms(1) b(1,3)] by blast
  show ?thesis
  proof (cases "fat_mark (?V x)")
    case True
    then show ?thesis using s1 assms(2) by (simp add: find_volume_def boots_at_def)
  next
    case False
    then have p: "?pt < 4" "rec_mem (?V x) (446 + ucast ?pt * 16 + 4) \<noteq> 0" "y = LD_DWORD (rec_mem (?V x)) (446 + ucast ?pt * 16 + 8)"
      using assms(2) by (simp_all add: boots_at_def)
    have fd: "Fat_Drives s1 = Fat_Drives s"
    proof -
      have "Fat_Drives (fat_rest u) = Fat_Drives u" for u :: "'a kfat_scheme" by (simp add: fat_rest_def io_rest_def)
      then show ?thesis using s1(6) by metis
    qed
    define k where "k = 446 + unat ?pt * 16"
    have k: "k + 12 < 512" "(446 + ucast ?pt * 16 :: u32) = of_nat k" using p(1) by (simp_all add: k_def word_less_nat_alt)
    have n4: "\<not> 4 \<le> ?pt" using p(1) by simp
    have tb: "mem s1 (win fs + 446 + ucast ?pt * 16 + 4) = rec_mem (?V x) (446 + ucast ?pt * 16 + 4)"
      using rec_byte [OF s1(4), of "k + 4"] k by (simp add: algebra_simps)
    have td: "LD_DWORD (mem s1) (win fs + 446 + ucast ?pt * 16 + 8) = y"
      using rec_dword [OF s1(4), of "k + 8"] k p(3) by (simp add: algebra_simps)
    obtain s2 where s2: "check_fs fs y s1 = Ret (0, s2)" "vol_raw D fs dev s2" "SBs s2 = SBs s1"
      "rdbytes (mem s2) (win fs) 512 = ?V y" "bview s2 dev = ?V" "fat_rest s2 = fat_rest s1"
      using check_fs_ok [OF s1(2) b(2)] b(4,5) by (auto simp: s1(5))
    have "find_volume fs drv x s = Ret (0, y, s2)"
      using s1(1) s2(1) False fd n4 p(2) tb td by (simp add: find_volume_def Let_def)
    then show ?thesis using s2 s1(3,6) by auto
  qed
qed

section \<open>The whole mount\<close>

lemma cache_upd_fsid [simp]:
  "cache_inv (s\<lparr>fsid := n\<rparr>) D = cache_inv s D" "cache_free (s\<lparr>fsid := n\<rparr>) D = cache_free s D" "cache_mem (s\<lparr>fsid := n\<rparr>) = cache_mem s"
  by (simp_all add: cache_inv_def cache_free_def cache_mem_def dev_ok_def ide_ready_def sem_free_def ide_sem_def ideno_def
      waitlistIsEmpty_def bc_hit_def bc_bytes_def disk_def fun_eq_iff inj_on_def)

lemma bview_upd_fsid [simp]: "bview (s\<lparr>fsid := n\<rparr>) = bview s"
proof -
  have "bc_bytes (s\<lparr>fsid := n\<rparr>) = bc_bytes s" "disk (s\<lparr>fsid := n\<rparr>) = disk s" "bc_hit (s\<lparr>fsid := n\<rparr>) = bc_hit s"
    by (simp_all add: fun_eq_iff bc_bytes_def disk_def ideno_def bc_hit_def)
  then show ?thesis by (intro ext) (simp add: bview_def cong: option.case_cong)
qed

lemma vol_raw_upd:
  "vol_raw D fs dev (s\<lparr>fsid := n\<rparr>) = vol_raw D fs dev s"
  "sb_drive (f (SBs s fs)) = sb_drive (SBs s fs) \<Longrightarrow> vol_raw D fs dev (upd_sb fs f s) = vol_raw D fs dev s"
  by (simp_all add: vol_raw_def vol_dev_def getDeviceWithId_def upd_sb_def)
    (simp_all add: upd_sb_def [symmetric])

lemma fat_rest_drives:
  fixes s t :: "'a kfat_scheme"
  assumes "fat_rest t = fat_rest s"
  shows "Fat_Drives t = Fat_Drives s" "fsid t = fsid s"
proof -
  have "Fat_Drives (fat_rest u) = Fat_Drives u" "fsid (fat_rest u) = fsid u" for u :: "'a kfat_scheme" by (simp_all add: fat_rest_def io_rest_def)
  then show "Fat_Drives t = Fat_Drives s" "fsid t = fsid s" using assms by metis+
qed

definition drive_ready :: "ptr set \<Rightarrow> ptr \<Rightarrow> ptr \<Rightarrow> u8 \<Rightarrow> 'a kfat_scheme \<Rightarrow> bool" where
  "drive_ready D fs dev drv s \<longleftrightarrow> cache_inv s D \<and> cache_free s D \<and> dev \<in> D \<and>
     getDeviceWithId (ucast (part_pd (Fat_Drives s (unat drv)))) s = Ret dev \<and> span (win fs) 512 \<inter> cache_mem s = {}"

lemma clear_raw:
  assumes "drive_ready D fs dev drv s" "s1 = upd_sb fs (\<lambda>b. b\<lparr>sb_drive := part_pd (Fat_Drives s (unat drv))\<rparr>) (clear_sb fs s)"
  shows "vol_raw D fs dev s1" "SBs s1 fs = zero_sb\<lparr>sb_drive := part_pd (Fat_Drives s (unat drv))\<rparr>" "bview s1 = bview s" "fat_rest s1 = fat_rest s"
proof -
  let ?g = "\<lambda>m. snd (memset (win fs) 0 512 m)"
  have d: "cache_inv s D" "cache_free s D" "dev \<in> D" "getDeviceWithId (ucast (part_pd (Fat_Drives s (unat drv)))) s = Ret dev"
    "span (win fs) 512 \<inter> cache_mem s = {}" using assms(1) by (simp_all add: drive_ready_def)
  define s0 where "s0 = upd_sb fs (\<lambda>_. zero_sb) s"
  have c0: "cache_inv s0 D" "cache_mem s0 = cache_mem s" "bview s0 = bview s" using d(1) by (simp_all add: s0_def)
  have m: "?g (mem s0) a = mem s0 a" if "a \<in> cache_mem s0" for a using that d(5) c0(2) by (auto simp: memset_def memset_loop_spec)
  note w = cache_write_elsewhere [OF c0(1), of ?g, OF m]
  have s1: "s1 = upd_sb fs (\<lambda>b. b\<lparr>sb_drive := part_pd (Fat_Drives s (unat drv))\<rparr>) (upd_mem ?g s0)"
    using assms(2) by (simp add: clear_sb_def s0_def)
  show r: "fat_rest s1 = fat_rest s" by (simp add: s1 s0_def)
  show "bview s1 = bview s" using w(2) c0(3) by (simp add: s1)
  show sb: "SBs s1 fs = zero_sb\<lparr>sb_drive := part_pd (Fat_Drives s (unat drv))\<rparr>" by (simp add: s1 s0_def)
  have "cache_inv s1 D" "cache_free s1 D" using w(1) d(2) by (simp_all add: s1 s0_def)
  then show "vol_raw D fs dev s1"
    using d(3,4,5) getDevice_rest [OF r] by (simp add: vol_raw_def vol_dev_def sb) (simp add: s1 s0_def)
qed

text \<open>A geometry whose tables lie on the disk and are large enough for the clusters.\<close>

definition sound_geometry :: "FATBase_SuperBlock \<Rightarrow> bool" where
  "sound_geometry b \<longleftrightarrow> fatbase b \<noteq> 0 \<and> 1 \<le> n_fats b \<and> unat (fatbase b) + unat (n_fats b) * unat (sects_fat b) \<le> unat MAX_DISK_NSECS \<and>
     (volume_format (max_clust b) = FS_FAT12 \<longrightarrow> 3 * unat (max_clust b) \<le> 2 * fat_bytes b) \<and>
     (volume_format (max_clust b) = FS_FAT16 \<longrightarrow> 2 * unat (max_clust b) \<le> fat_bytes b) \<and>
     (volume_format (max_clust b) = FS_FAT32 \<longrightarrow> 4 * unat (max_clust b) \<le> fat_bytes b \<and> max_clust b \<le> 0x0FFFFFF7)"

lemma sound_vol:
  assumes "vol_raw D fs dev s" "sound_geometry b" "geom (SBs s fs) = geom (b\<lparr>sb_drive := d, fs_type := volume_format (max_clust b), sb_id := i, fsi_sector := k\<rparr>)"
    and "winsect (SBs s fs) = 0" "winflag (SBs s fs) = 0"
  shows "fat_vol D fs dev s"
proof -
  note g = geom_eqD [OF assms(3), simplified]
  have f: "volume_format n = FS_FAT12 \<and> n \<le> 0xFF7 \<or> volume_format n = FS_FAT16 \<and> n \<le> 0xFFF7 \<or> volume_format n = FS_FAT32" for n
    by (auto simp: volume_format_def)
  show ?thesis
    using assms(1,2,4,5) g f [of "max_clust b"] by (auto simp: fat_vol_def vol_ok_def vol_raw_def sound_geometry_def Let_def word_gt_0)
qed

lemma read_fsinfo_ok:
  assumes "vol_raw D fs dev s" "boot + ucast (LD_WORD (mem s) (win fs + 48)) < MAX_DISK_NSECS"
  shows "\<exists>s'. read_fsinfo fs boot s = Ret s' \<and> vol_raw D fs dev s' \<and> bview s' dev = bview s dev \<and> fat_rest s' = fat_rest s \<and>
    (\<exists>l f. SBs s' fs = (SBs s fs)\<lparr>last_clust := l, free_clust := f, fsi_sector := boot + ucast (LD_WORD (mem s) (win fs + 48))\<rparr>)"
proof -
  define s1 where "s1 = upd_sb fs (\<lambda>b. b\<lparr>fsi_sector := boot + ucast (LD_WORD (mem s) (win fs + 48))\<rparr>) s"
  have v: "vol_raw D fs dev s1" using assms(1) by (simp add: s1_def vol_raw_upd)
  have x: "fsi_sector (SBs s1 fs) < MAX_DISK_NSECS" using assms(2) by (simp add: s1_def)
  obtain s2 where s2: "fatbase_disk_read (sb_drive (SBs s1 fs)) (win fs) (fsi_sector (SBs s1 fs)) 1 s1 = Ret (0, s2)" "vol_raw D fs dev s2" "SBs s2 = SBs s1"
    "bview s2 dev = bview s1 dev" "fat_rest s2 = fat_rest s1" using raw_read [OF v x] by blast
  have sb: "SBs s2 fs = (SBs s fs)\<lparr>fsi_sector := boot + ucast (LD_WORD (mem s) (win fs + 48))\<rparr>" using s2(3) by (simp add: s1_def)
  define P where "P \<longleftrightarrow> LD_WORD (mem s2) (win fs + 510) = 0xAA55 \<and> LD_DWORD (mem s2) (win fs) = 0x41615252 \<and> LD_DWORD (mem s2) (win fs + 484) = 0x61417272"
  define l f where "l = (if P then LD_DWORD (mem s2) (win fs + 492) else last_clust (SBs s fs))"
    and "f = (if P then LD_DWORD (mem s2) (win fs + 488) else free_clust (SBs s fs))"
  define s3 where "s3 = (if P then upd_sb fs (\<lambda>b. b\<lparr>last_clust := l, free_clust := f\<rparr>) s2 else s2)"
  have "read_fsinfo fs boot s = Ret s3"
    using s2(1) unfolding read_fsinfo_def s1_def [symmetric] Let_def by (simp add: s3_def l_def f_def P_def)
  moreover have "SBs s3 fs = (SBs s fs)\<lparr>last_clust := l, free_clust := f, fsi_sector := boot + ucast (LD_WORD (mem s) (win fs + 48))\<rparr>"
    by (simp add: s3_def sb l_def f_def)
  moreover have "vol_raw D fs dev s3" "bview s3 dev = bview s dev" "fat_rest s3 = fat_rest s"
    using s2(2,4,5) by (simp_all add: s3_def vol_raw_upd, simp_all add: s1_def)
  ultimately show ?thesis by blast
qed

definition mounted_sb :: "u8 list \<Rightarrow> u32 \<Rightarrow> u8 \<Rightarrow> u16 \<Rightarrow> FATBase_SuperBlock" where
  "mounted_sb B boot d i = (let b = boot_geometry B boot; f = volume_format (max_clust b)
     in b\<lparr>sb_drive := d, fs_type := f, sb_id := i, fsi_sector := (if f = FS_FAT32 then boot + ucast (LD_WORD (rec_mem B) 48) else 0)\<rparr>)"

lemma read_geometry_drive: "read_geometry m w boot (b\<lparr>sb_drive := d\<rparr>) = (read_geometry m w boot b)\<lparr>sb_drive := d\<rparr>"
  by (simp add: read_geometry_def Let_def)

lemma read_geometry_win: "winsect (read_geometry m w boot b) = winsect b" "winflag (read_geometry m w boot b) = winflag b"
  "sb_drive (read_geometry m w boot b) = sb_drive b" "fsi_sector (read_geometry m w boot b) = fsi_sector b"
  by (simp_all add: read_geometry_def Let_def)

lemma mount_volume_ok:
  assumes "drive_ready D fs dev drv s" "boots_at (bview s dev) (part_pt (Fat_Drives s (unat drv))) x y"
    and B: "B = bview s dev y" "LD_WORD (rec_mem B) 11 = 512" "rec_mem B 13 \<noteq> 0" "sound_geometry (boot_geometry B y)"
    and f32: "volume_format (max_clust (boot_geometry B y)) = FS_FAT32 \<Longrightarrow> y + ucast (LD_WORD (rec_mem B) 48) < MAX_DISK_NSECS"
  shows "\<exists>s'. mount_volume fs drv x wp s = Ret (FR_OK, s') \<and> fat_vol D fs dev s' \<and> bview s' dev = bview s dev \<and> fsid s' = fsid s + 1 \<and>
    geom (SBs s' fs) = geom (mounted_sb B y (part_pd (Fat_Drives s (unat drv))) (fsid s + 1))"
proof -
  let ?pd = "part_pd (Fat_Drives s (unat drv))" and ?b = "boot_geometry B y" and ?f = "volume_format (max_clust (boot_geometry B y))"
  define s1 where "s1 = upd_sb fs (\<lambda>b. b\<lparr>sb_drive := part_pd (Fat_Drives s (unat drv))\<rparr>) (clear_sb fs s)"
  note c = clear_raw [OF assms(1) s1_def]
  have "boots_at (bview s1 dev) (part_pt (Fat_Drives s1 (unat drv))) x y" using assms(2) c(3) fat_rest_drives(1) [OF c(4)] by simp
  from find_volume_ok [OF c(1) this] obtain s2 where s2: "find_volume fs drv x s1 = Ret (0, y, s2)" "vol_raw D fs dev s2" "SBs s2 = SBs s1"
    "rdbytes (mem s2) (win fs) 512 = B" "bview s2 dev = bview s dev" "fat_rest s2 = fat_rest s"
    using c(3,4) B(1) by auto
  note r = rec_bpb [OF s2(4)]
  define s3 where "s3 = upd_sb fs (read_geometry (mem s2) (win fs) y) s2"
  have sb3: "SBs s3 fs = ?b\<lparr>sb_drive := ?pd\<rparr>"
    by (simp add: s3_def s2(3) c(2) read_geometry_rec [OF s2(4)] read_geometry_drive boot_geometry_def)
  have v3: "vol_raw D fs dev s3" using s2(2) by (simp add: s3_def vol_raw_upd read_geometry_win)
  have k3: "LD_WORD (mem s3) (win fs + 48) = LD_WORD (rec_mem B) 48" using r(6) by (simp add: s3_def upd_sb_def)
  obtain s4 l f k where s4: "(if ?f = FS_FAT32 then read_fsinfo fs y s3 else Ret s3) = Ret s4" "vol_raw D fs dev s4" "bview s4 dev = bview s dev"
    "fat_rest s4 = fat_rest s" "SBs s4 fs = (?b\<lparr>sb_drive := ?pd\<rparr>)\<lparr>last_clust := l, free_clust := f, fsi_sector := k\<rparr>"
    "k = (if ?f = FS_FAT32 then y + ucast (LD_WORD (rec_mem B) 48) else 0)"
  proof (cases "?f = FS_FAT32")
    case True
    then have "y + ucast (LD_WORD (mem s3) (win fs + 48)) < MAX_DISK_NSECS" using f32 k3 by simp
    from read_fsinfo_ok [OF v3 this] show ?thesis using that True sb3 s2(5,6) k3 by (auto simp: s3_def)
  next
    case False
    have "fsi_sector ?b = 0" by (simp add: boot_geometry_def read_geometry_win zero_sb_def)
    then have "SBs s3 fs = (?b\<lparr>sb_drive := ?pd\<rparr>)\<lparr>last_clust := last_clust ?b, free_clust := free_clust ?b, fsi_sector := 0\<rparr>" by (simp add: sb3)
    moreover have "bview s3 dev = bview s dev" "fat_rest s3 = fat_rest s" using s2(5,6) by (simp_all add: s3_def)
    ultimately show ?thesis using False v3 by (intro that [where l = "last_clust ?b" and f = "free_clust ?b" and k = 0]) simp_all
  qed
  define s' where "s' = (upd_sb fs (\<lambda>b. b\<lparr>fs_type := ?f, sb_id := fsid s + 1\<rparr>) s4)\<lparr>fsid := fsid s + 1\<rparr>"
  have run: "mount_volume fs drv x wp s = Ret (FR_OK, s')"
    using s2(1) s4(1) B(2,3) r(1,11) fat_rest_drives(2) [OF s4(4)] sb3
    unfolding mount_volume_def Let_def s1_def [symmetric]
    by (simp add: fatbase_disk_initialize_def s3_def [symmetric] s'_def split: if_splits)
  have sb: "SBs s' fs = (mounted_sb B y ?pd (fsid s + 1))\<lparr>last_clust := l, free_clust := f\<rparr>" by (simp add: s'_def s4(5,6) mounted_sb_def Let_def)
  then have g: "geom (SBs s' fs) = geom (mounted_sb B y ?pd (fsid s + 1))" by (simp add: geom_def)
  have w: "winsect (SBs s' fs) = 0" "winflag (SBs s' fs) = 0"
    by (simp_all add: sb mounted_sb_def Let_def boot_geometry_def read_geometry_win zero_sb_def)
  have v: "vol_raw D fs dev s'" using s4(2) by (simp add: s'_def vol_raw_upd)
  have "fat_vol D fs dev s'" by (rule sound_vol [OF v B(4) _ w]) (simp add: g mounted_sb_def Let_def)
  then show ?thesis using run g s4(3) by (auto simp: s'_def)
qed

section \<open>Property\<close>


text \<open>A small volume: one reserved sector, two tables of one sector, 16 root entries, 110 sectors.\<close>

definition sample_boot_sector :: "u8 list" where
  "sample_boot_sector = replicate 11 0 @ [0, 2, 1, 1, 0, 2, 16, 0, 110, 0, 0xF8, 1, 0] @ replicate 30 0 @ [0x46, 0x41, 0x54] @ replicate 453 0 @ [0x55, 0xAA]"

definition sample_kmount :: kfat where
  "sample_kmount = sample_kfat\<lparr>drives := (\<lambda>_. sample_drive\<lparr>d_bad := (\<lambda>_. False), d_sectors := (\<lambda>_. sample_boot_sector)\<rparr>), SBs := (\<lambda>_. zero_sb)\<rparr>"

lemma sample_kmount_sel:
  "drives sample_kmount = (\<lambda>_. sample_drive\<lparr>d_bad := (\<lambda>_. False), d_sectors := (\<lambda>_. sample_boot_sector)\<rparr>)" "SBs sample_kmount fs = zero_sb"
  "sems sample_kmount = sems sample_kfat" "WaitLinks sample_kmount = WaitLinks sample_kfat" "IDE_Devices sample_kmount = IDE_Devices sample_kfat"
  "blockdevs sample_kmount = blockdevs sample_kfat" "IDE_Sem sample_kmount = IDE_Sem sample_kfat" "BlockCacheSem sample_kmount = BlockCacheSem sample_kfat"
  "BlockDeviceList sample_kmount = BlockDeviceList sample_kfat" "BlkLinks sample_kmount = BlkLinks sample_kfat" "BlockCache sample_kmount = BlockCache sample_kfat"
  "Fat_SuperBlock sample_kmount n = sample_fs" "Fat_Drives sample_kmount n = \<lparr>part_pd = 0, part_pt = 0\<rparr>" "channels sample_kmount = channels sample_kfat"
  by (simp_all add: sample_kmount_def sample_kfat_def kfs.defs kfat.defs)

lemma length_sample_boot_sector: "length sample_boot_sector = 512"
  by (simp add: sample_boot_sector_def)

lemma sample_kmount_ready: "drive_ready {sample_dev} sample_fs sample_dev 0 sample_kmount"
proof -
  have "cache_inv sample_kmount {sample_dev}"
  proof (rule cache_invI)
    show "dev_ok sample_kmount d" if "d \<in> {sample_dev}" for d
      using that by (simp add: dev_ok_def ideno_def ide_ready_def sem_free_def sample_kmount_sel sample_kfat_sel sample_drive_def waitlistIsEmpty_def
          listIsEmpty_def length_sample_boot_sector)
    show "span (bc_data (BlockCache sample_kmount i)) 512 \<inter> span (bc_data (BlockCache sample_kmount j)) 512 = {}"
      if "i < N_BCACHE" "j < N_BCACHE" "i \<noteq> j" for i j
      unfolding sample_kmount_sel sample_kfat_sel using that by (intro buffers_apart) simp_all
  qed (simp_all add: bc_hit_def sample_kmount_sel sample_kfat_sel)
  moreover have "cache_free sample_kmount {sample_dev}"
    by (simp add: cache_free_def sem_free_def sample_kmount_sel sample_kfat_sel waitlistIsEmpty_def listIsEmpty_def ide_sem_def ideno_def)
  moreover have "getDeviceWithId 0 sample_kmount = Ret sample_dev"
    using sample_kfat_device by (simp add: getDeviceWithId_def sample_kmount_sel)
  moreover have "cache_mem sample_kmount = cache_mem sample_kfat" by (simp add: cache_mem_def sample_kmount_sel)
  ultimately show ?thesis using sample_kfat_apart by (simp add: drive_ready_def sample_kmount_sel)
qed

lemma sample_kmount_view: "bview sample_kmount sample_dev x = sample_boot_sector"
  using bview_miss [of sample_kmount sample_dev x]
  by (auto simp: sample_kmount_sel sample_kfat_sel bc_hit_def disk_def sample_drive_def)


end
