(* ===== verification/Fat_Names.thy ===== *)
theory Fat_Names
  imports FatFile
begin

text \<open>
  Names in the 8.3 format.  \<open>name83\<close> says which names \<^verbatim>\<open>make_dirfile\<close> accepts and what it makes of them;
  \<^verbatim>\<open>get_fileinfo\<close> gives the name back.
\<close>

section \<open>Reference definition\<close>

definition lower_case :: "u8 \<Rightarrow> bool" where
  "lower_case c \<longleftrightarrow> 0x61 \<le> c \<and> c \<le> 0x7A"

definition upper_case :: "u8 \<Rightarrow> bool" where
  "upper_case c \<longleftrightarrow> 0x41 \<le> c \<and> c \<le> 0x5A"

definition to_upper :: "u8 \<Rightarrow> u8" where
  "to_upper c = (if lower_case c then c - 0x20 else c)"

text \<open>The characters that start a two-byte character.\<close>

definition sjis :: "u8 \<Rightarrow> bool" where
  "sjis c \<longleftrightarrow> 0x81 \<le> c \<and> c \<le> 0x9F \<or> 0xE0 \<le> c \<and> c \<le> 0xFC"

definition legal :: "u8 \<Rightarrow> bool" where
  "legal c \<longleftrightarrow> 0x20 < c \<and> c \<noteq> 0x22 \<and> \<not> (0x2A \<le> c \<and> c \<le> 0x2C) \<and> c \<noteq> 0x2E \<and> c \<noteq> 0x2F \<and> \<not> (0x3A \<le> c \<and> c \<le> 0x3F) \<and>
     \<not> (0x5B \<le> c \<and> c \<le> 0x5D) \<and> c \<noteq> 0x7C \<and> c \<noteq> 0x7F \<and> \<not> sjis c"

text \<open>The flag for a part written in lower case, which is stored in upper case.\<close>

definition nt_bit :: "u8 \<Rightarrow> u8 list \<Rightarrow> u8" where
  "nt_bit k cs = (if (\<exists>c \<in> set cs. lower_case c) \<and> \<not> (\<exists>c \<in> set cs. upper_case c) then k else 0)"

definition pad :: "nat \<Rightarrow> u8 list \<Rightarrow> u8 list" where
  "pad n cs = cs @ replicate (n - length cs) 0x20"

definition entry83 :: "u8 list \<Rightarrow> u8 list \<Rightarrow> u8 list" where
  "entry83 body ext = pad 8 (map to_upper body) @ pad 3 (map to_upper ext) @ [nt_bit 0x08 body OR nt_bit 0x10 ext]"

definition name83 :: "u8 list \<Rightarrow> u8 list option" where
  "name83 cs =
     (let body = takeWhile (\<lambda>c. c \<noteq> 0x2E) cs; ext = dropWhile (\<lambda>c. c = 0x2E) (dropWhile (\<lambda>c. c \<noteq> 0x2E) cs)
      in if body \<noteq> [] \<and> length body \<le> 8 \<and> length ext \<le> 3 \<and> list_all legal body \<and> list_all legal ext then Some (entry83 body ext) else None)"

section \<open>One character\<close>

text \<open>The flags of \<^verbatim>\<open>make_dirfile\<close>: whether the name and the extension have lower and upper case letters.\<close>

definition flag_a :: "bool \<Rightarrow> bool \<Rightarrow> u8" where
  "flag_a l8 l3 = (if l8 then 8 else 0) OR (if l3 then 0x10 else 0)"

definition flag_b :: "bool \<Rightarrow> bool \<Rightarrow> u8" where
  "flag_b u8 u3 = (if u8 then 0 else 8) OR (if u3 then 0 else 0x10)"

lemma flag_simps [simp]:
  "flag_a l8 l3 AND 1 = 0" "flag_a l8 l3 AND 0xFE = flag_a l8 l3"
  "(flag_a l8 l3 OR 8) AND 0xFE = flag_a True l3" "(flag_a l8 l3 OR 0x10) AND 0xFE = flag_a l8 True"
  "flag_b v8 v3 AND 0xF7 = flag_b True v3" "flag_b v8 v3 AND 0xEF = flag_b v8 True"
  "flag_a l8 l3 AND flag_b v8 v3 = (if l8 \<and> \<not> v8 then 8 else 0) OR (if l3 \<and> \<not> v3 then 0x10 else 0)"
  by (simp_all add: flag_a_def flag_b_def)

lemma dirfile_char_legal:
  assumes "legal c"
  shows "dirfile_char c n t (flag_a l8 l3) (flag_b v8 v3) = Some (to_upper c,
    if t = 8 then flag_a (l8 \<or> lower_case c) l3 else flag_a l8 (l3 \<or> lower_case c),
    if t = 8 then flag_b (v8 \<or> upper_case c) v3 else flag_b v8 (v3 \<or> upper_case c))"
proof -
  have r: "\<not> (0x81 \<le> c \<and> c \<le> 0x9F \<or> 0xE0 \<le> c \<and> c \<le> 0xFC)" "c \<noteq> 0x22" "\<not> (0x2A \<le> c \<and> c \<le> 0x2C)" "\<not> (0x3A \<le> c \<and> c \<le> 0x3F)"
    "\<not> (0x5B \<le> c \<and> c \<le> 0x5D)" "c \<noteq> 0x7C"
    using assms by (auto simp: legal_def sjis_def)
  have low: "\<not> lower_case c \<and> \<not> upper_case c" if "c \<le> 0x39" using that by (auto simp: lower_case_def upper_case_def word_le_nat_alt)
  consider "c \<le> 0x29" | "\<not> c \<le> 0x29" "\<not> c \<le> 0x2C" "c \<le> 0x39" | "\<not> c \<le> 0x29" "\<not> c \<le> 0x2C" "\<not> c \<le> 0x39" "\<not> c \<le> 0x3F"
    using r(3,4) by (auto simp: word_le_nat_alt)
  then show ?thesis
  proof cases
    case 1
    then have "\<not> lower_case c \<and> \<not> upper_case c" using low by (auto simp: word_le_nat_alt)
    then show ?thesis using 1 unfolding dirfile_char_def if_not_P [OF r(1)] if_not_P [OF r(2)] by (simp add: to_upper_def)
  next
    case 2
    then show ?thesis using low
      unfolding dirfile_char_def if_not_P [OF r(1)] if_not_P [OF r(2)] if_not_P [OF 2(1)] if_not_P [OF 2(2)] by (simp add: to_upper_def)
  next
    case 3
    have d: "\<not> (lower_case c \<and> upper_case c)" by (auto simp: lower_case_def upper_case_def word_le_nat_alt)
    show ?thesis
      using 3 r d unfolding dirfile_char_def if_not_P [OF r(1)] if_not_P [OF r(2)] if_not_P [OF 3(1)] if_not_P [OF 3(2)] if_not_P [OF 3(3)] if_not_P [OF 3(4)]
      by (auto simp: to_upper_def Let_def lower_case_def [symmetric] upper_case_def [symmetric])
  qed
qed

lemma dirfile_char_illegal:
  assumes "\<not> legal c" "\<not> sjis c" "\<not> c \<le> 0x20" "c \<noteq> 0x7F" "c \<noteq> 0x2E" "c \<noteq> 0x2F" "a AND 1 = 0"
  shows "dirfile_char c n t a b = None"
  using assms by (auto simp: dirfile_char_def legal_def sjis_def not_le word_le_nat_alt word_less_nat_alt)

section \<open>The loop\<close>

fun segment :: "memory \<Rightarrow> ptr \<Rightarrow> u8 list \<Rightarrow> u8 \<Rightarrow> bool" where
  "segment m p [] sep = (m p = sep \<and> (sep = 0 \<or> sep = 0x2F))"
| "segment m p (c # cs) sep = (c \<noteq> 0 \<and> c \<noteq> 0x2F \<and> m p = c \<and> segment m (p + 1) cs sep)"

abbreviation (input) dirfile_run :: "memory \<Rightarrow> ptr \<times> u8 list \<times> u8 \<times> u8 \<times> u8 \<times> u8 \<Rightarrow> (u8 \<times> ptr \<times> u8 list) kres" where
  "dirfile_run m \<equiv> kwhile (make_dirfile_body m)"

lemma run_end:
  assumes "m p = sep" "sep = 0 \<or> sep = 0x2F"
  shows "dirfile_run m (p, fn, n, t, a, b) = Ret (if n = 0 then (1, p + 1, fn) else (sep, p + 1, fn[11 := a AND b]))"
  using assms by (subst kwhile_unfold) (auto simp: make_dirfile_body_def)

lemma run_illegal:
  assumes "\<not> legal c" "\<not> sjis c" "m p = c" "c \<noteq> 0" "c \<noteq> 0x2F" "c \<noteq> 0x2E" "a AND 1 = 0"
  shows "dirfile_run m (p, fn, n, t, a, b) = Ret (1, p + 1, fn)"
proof -
  have "make_dirfile_body m (p, fn, n, t, a, b) = Ret (Inr (1, p + 1, fn))"
    using assms dirfile_char_illegal [OF assms(1,2) _ _ assms(6,5,7), of n t b] by (auto simp: make_dirfile_body_def Let_def)
  then show ?thesis by (subst kwhile_unfold) simp
qed

lemma run_legal:
  assumes "legal c" "m p = c"
  shows "dirfile_run m (p, fn, n, t, flag_a l8 l3, flag_b v8 v3) =
    (if t \<le> n then Ret (1, p + 1, fn)
     else dirfile_run m (p + 1, fn[unat n := to_upper c], n + 1, t,
       if t = 8 then flag_a (l8 \<or> lower_case c) l3 else flag_a l8 (l3 \<or> lower_case c),
       if t = 8 then flag_b (v8 \<or> upper_case c) v3 else flag_b v8 (v3 \<or> upper_case c)))"
proof -
  have "c \<noteq> 0" "c \<noteq> 0x2F" "c \<noteq> 0x2E" "\<not> c \<le> 0x20" "c \<noteq> 0x7F" using assms(1) by (auto simp: legal_def not_le)
  then show ?thesis
    using assms(2) by (subst kwhile_unfold) (simp add: make_dirfile_body_def dirfile_char_legal [OF assms(1)])
qed

lemma run_dot:
  assumes "m p = 0x2E" "a AND 1 = 0"
  shows "dirfile_run m (p, fn, n, t, a, b) =
    (if 1 \<le> n \<and> n \<le> 8 then dirfile_run m (p + 1, fn, 8, 11, a, b) else Ret (1, p + 1, fn))"
  using assms by (subst kwhile_unfold) (auto simp: make_dirfile_body_def)

text \<open>The flags and the entry after some characters.\<close>

definition has :: "(u8 \<Rightarrow> bool) \<Rightarrow> u8 list \<Rightarrow> bool" where
  "has P cs \<longleftrightarrow> (\<exists>c \<in> set cs. P c)"

lemma has_snoc [simp]: "has P (cs @ [c]) \<longleftrightarrow> has P cs \<or> P c"
  by (auto simp: has_def)

lemma has_Nil [simp]: "has P [] = False"
  by (simp add: has_def)

definition so_far :: "u8 list \<Rightarrow> u8 list \<Rightarrow> u8 list" where
  "so_far body ext = pad 8 (map to_upper body) @ pad 3 (map to_upper ext) @ [0]"

abbreviation (input) at_state :: "ptr \<Rightarrow> u8 list \<Rightarrow> u8 list \<Rightarrow> u8 \<Rightarrow> u8 \<Rightarrow> ptr \<times> u8 list \<times> u8 \<times> u8 \<times> u8 \<times> u8" where
  "at_state p body ext n t \<equiv> (p, so_far body ext, n, t, flag_a (has lower_case body) (has lower_case ext), flag_b (has upper_case body) (has upper_case ext))"

lemma length_pad [simp]: "length cs \<le> n \<Longrightarrow> length (pad n cs) = n"
  by (simp add: pad_def)

lemma pad_update: "length cs < n \<Longrightarrow> (pad n cs)[length cs := c] = pad n (cs @ [c])"
  by (simp add: pad_def list_update_append Suc_diff_Suc [symmetric])

lemma so_far_body: "length body < 8 \<Longrightarrow> (so_far body ext)[length body := to_upper c] = so_far (body @ [c]) ext"
  using pad_update [of "map to_upper body" 8 "to_upper c"] by (simp add: so_far_def list_update_append)

lemma so_far_ext: "length body \<le> 8 \<Longrightarrow> length ext < 3 \<Longrightarrow> (so_far body ext)[8 + length ext := to_upper c] = so_far body (ext @ [c])"
  using pad_update [of "map to_upper ext" 3 "to_upper c"] by (simp add: so_far_def list_update_append)

lemma so_far_end:
  assumes "length body \<le> 8" "length ext \<le> 3"
  shows "(so_far body ext)[11 := flag_a (has lower_case body) (has lower_case ext) AND flag_b (has upper_case body) (has upper_case ext)] = entry83 body ext"
  using assms by (simp add: so_far_def entry83_def list_update_append nt_bit_def has_def)

lemma run_ext:
  assumes "segment m p cs sep" "list_all (\<lambda>c. \<not> sjis c) cs" "body \<noteq> []" "length body \<le> 8" "length ext \<le> 3"
  defines "rest \<equiv> (if ext = [] then dropWhile (\<lambda>c. c = 0x2E) cs else cs)"
  shows "if length ext + length rest \<le> 3 \<and> list_all legal rest
    then dirfile_run m (at_state p body ext (of_nat (8 + length ext)) 11) = Ret (sep, p + of_nat (length cs) + 1, entry83 body (ext @ rest))
    else \<exists>q fn. dirfile_run m (at_state p body ext (of_nat (8 + length ext)) 11) = Ret (1, q, fn)"
  using assms(1,2,5) unfolding rest_def
proof (induction cs arbitrary: p ext)
  case Nil
  have n: "(of_nat (8 + length ext) :: u8) \<noteq> 0" using Nil.prems(3) by (simp add: word_unat_eq_iff unat_of_nat unat_word_ariths)
  show ?case using Nil.prems run_end [of m p sep _ "of_nat (8 + length ext)"] n so_far_end [OF assms(4) Nil.prems(3)] by auto
next
  case (Cons c cs)
  let ?n = "of_nat (8 + length ext) :: u8"
  have un: "unat ?n = 8 + length ext" using Cons.prems(3) by (simp add: unat_of_nat unat_word_ariths)
  have c: "c \<noteq> 0" "c \<noteq> 0x2F" "m p = c" "segment m (p + 1) cs sep" "\<not> sjis c" "list_all (\<lambda>c. \<not> sjis c) cs" using Cons.prems by auto
  show ?case
  proof (cases "c = 0x2E")
    case True
    have nl: "\<not> legal 0x2E" by (simp add: legal_def)
    show ?thesis
    proof (cases "ext = []")
      case e: True
      have "dirfile_run m (at_state p body ext ?n 11) = dirfile_run m (at_state (p + 1) body ext ?n 11)"
        using run_dot [of m p] c(3) True e by simp
      then show ?thesis using Cons.IH [OF c(4,6), of ext] e True by (auto simp: algebra_simps split: if_splits)
    next
      case False
      then have "\<not> (1 \<le> ?n \<and> ?n \<le> 8)" using un by (simp add: word_le_nat_alt)
      then have "dirfile_run m (at_state p body ext ?n 11) = Ret (1, p + 1, so_far body ext)" using run_dot [of m p] c(3) True by auto
      then show ?thesis using False True nl by auto
    qed
  next
    case nd: False
    show ?thesis
    proof (cases "legal c")
      case False
      then show ?thesis using run_illegal [where m = m and p = p, OF False c(5,3,1,2) nd] nd by auto
    next
      case True
      show ?thesis
      proof (cases "length ext = 3")
        case l: True
        then have "dirfile_run m (at_state p body ext ?n 11) = Ret (1, p + 1, so_far body ext)"
          using run_legal [where m = m and p = p, OF True c(3)] by simp
        then show ?thesis using l nd by auto
      next
        case False
        then have l: "length ext < 3" using Cons.prems(3) by simp
        have "\<not> (11 :: u8) \<le> ?n" using un l by (simp add: word_le_nat_alt)
        moreover have "?n + 1 = of_nat (8 + length (ext @ [c]))" by simp
        ultimately have "dirfile_run m (at_state p body ext ?n 11) = dirfile_run m (at_state (p + 1) body (ext @ [c]) (of_nat (8 + length (ext @ [c]))) 11)"
          using run_legal [where m = m and p = p, OF True c(3), of "so_far body ext" ?n 11] un so_far_ext [OF assms(4) l, of c] by simp
        then show ?thesis using Cons.IH [OF c(4,6), of "ext @ [c]"] l nd True by (auto simp: algebra_simps split: if_splits)
      qed
    qed
  qed
qed

lemma run_body:
  assumes "segment m p cs sep" "list_all (\<lambda>c. \<not> sjis c) cs" "length body \<le> 8"
  defines "mo \<equiv> takeWhile (\<lambda>c. c \<noteq> 0x2E) cs" and "ext \<equiv> dropWhile (\<lambda>c. c = 0x2E) (dropWhile (\<lambda>c. c \<noteq> 0x2E) cs)"
  shows "if body @ mo \<noteq> [] \<and> length (body @ mo) \<le> 8 \<and> length ext \<le> 3 \<and> list_all legal mo \<and> list_all legal ext
    then dirfile_run m (at_state p body [] (of_nat (length body)) 8) = Ret (sep, p + of_nat (length cs) + 1, entry83 (body @ mo) ext)
    else \<exists>q fn. dirfile_run m (at_state p body [] (of_nat (length body)) 8) = Ret (1, q, fn)"
  using assms(1-3) unfolding mo_def ext_def
proof (induction cs arbitrary: p body)
  case Nil
  have n: "(of_nat (length body) :: u8) = 0 \<longleftrightarrow> body = []" using Nil.prems(3) by (simp add: word_unat_eq_iff unat_of_nat)
  show ?case using Nil.prems run_end [of m p sep _ "of_nat (length body)"] n so_far_end [OF Nil.prems(3), of "[]"] by auto
next
  case (Cons c cs)
  let ?n = "of_nat (length body) :: u8"
  have un: "unat ?n = length body" using Cons.prems(3) by (simp add: unat_of_nat)
  have c: "c \<noteq> 0" "c \<noteq> 0x2F" "m p = c" "segment m (p + 1) cs sep" "\<not> sjis c" "list_all (\<lambda>c. \<not> sjis c) cs" using Cons.prems by auto
  show ?case
  proof (cases "c = 0x2E")
    case True
    show ?thesis
    proof (cases "body = []")
      case b: True
      then show ?thesis using run_dot [of m p] c(3) True by auto
    next
      case False
      then have "1 \<le> ?n \<and> ?n \<le> 8" using un Cons.prems(3) by (auto simp: word_le_nat_alt Suc_le_eq)
      then have "dirfile_run m (at_state p body [] ?n 8) = dirfile_run m (at_state (p + 1) body [] 8 11)"
        using run_dot [of m p] c(3) True by simp
      then show ?thesis using run_ext [OF c(4,6) False Cons.prems(3), of "[]"] True False Cons.prems(3) by (auto simp: algebra_simps split: if_splits)
    qed
  next
    case nd: False
    show ?thesis
    proof (cases "legal c")
      case False
      then show ?thesis using run_illegal [where m = m and p = p, OF False c(5,3,1,2) nd] nd by auto
    next
      case True
      show ?thesis
      proof (cases "length body = 8")
        case l: True
        then have "dirfile_run m (at_state p body [] ?n 8) = Ret (1, p + 1, so_far body [])"
          using run_legal [where m = m and p = p, OF True c(3)] by simp
        then show ?thesis using l nd by auto
      next
        case False
        then have l: "length body < 8" using Cons.prems(3) by simp
        have "\<not> (8 :: u8) \<le> ?n" using un l by (simp add: word_le_nat_alt)
        moreover have "?n + 1 = of_nat (length (body @ [c]))" by simp
        ultimately have "dirfile_run m (at_state p body [] ?n 8) = dirfile_run m (at_state (p + 1) (body @ [c]) [] (of_nat (length (body @ [c]))) 8)"
          using run_legal [where m = m and p = p, OF True c(3), of "so_far body []" ?n 8] un so_far_body [OF l, of "[]" c] by (simp add: add.commute)
        then show ?thesis using Cons.IH [OF c(4,6), of "body @ [c]"] l nd True by (auto simp: algebra_simps split: if_splits)
      qed
    qed
  qed
qed

lemma make_dirfile_ok:
  assumes "segment m path cs sep" "list_all (\<lambda>c. \<not> sjis c) cs"
  shows "case name83 cs of
      Some fn \<Rightarrow> make_dirfile m path = Ret (sep, path + of_nat (length cs) + 1, fn)
    | None \<Rightarrow> \<exists>q fn. make_dirfile m path = Ret (1, q, fn)"
proof -
  have "replicate 11 0x20 @ [0 :: u8] = so_far [] []" by (simp add: so_far_def pad_def numeral_eq_Suc)
  then have "make_dirfile m path = dirfile_run m (at_state path [] [] (of_nat (length ([] :: u8 list))) 8)"
    by (simp add: make_dirfile_def flag_a_def flag_b_def)
  then show ?thesis using run_body [OF assms, of "[]"] by (auto simp: name83_def Let_def split: if_splits)
qed

section \<open>The way back\<close>

lemma rdbytes_Suc: "rdbytes m p (Suc n) = m p # rdbytes m (p + 1) n"
  unfolding rdbytes_def upt_conv_Cons [OF zero_less_Suc] map_Suc_upt [symmetric] by (simp add: o_def algebra_simps)

lemma rdbytes_append: "rdbytes m p (j + k) = rdbytes m p j @ rdbytes m (p + of_nat j) k"
  by (induction j arbitrary: p) (simp_all add: rdbytes_Suc algebra_simps, simp add: rdbytes_def)

lemma copy_name_pad:
  "rdbytes m p n = pad n cs \<Longrightarrow> length cs \<le> n \<Longrightarrow> 0x20 \<notin> set cs \<Longrightarrow> copy_name f m p n = map f cs"
proof (induction n arbitrary: p cs)
  case 0
  then show ?case by simp
next
  case (Suc n)
  show ?case
  proof (cases cs)
    case Nil
    then have "m p = 0x20" using Suc.prems(1) by (simp add: rdbytes_Suc pad_def)
    then show ?thesis using Nil by simp
  next
    case (Cons c cs')
    then have "m p = c" "rdbytes m (p + 1) n = pad n cs'" using Suc.prems(1) by (simp_all add: rdbytes_Suc pad_def)
    then show ?thesis using Suc.IH [of "p + 1" cs'] Suc.prems Cons by simp
  qed
qed

text \<open>How a part of a name is shown: as it was written, unless it has an upper case letter.\<close>

definition shown :: "u8 list \<Rightarrow> u8 list" where
  "shown cs = (if \<exists>c \<in> set cs. upper_case c then map to_upper cs else cs)"

lemma to_upper_legal:
  assumes "legal c"
  shows "to_upper c \<noteq> 0x20" "to_upper c \<noteq> 0x05" "to_upper c \<noteq> 0" "to_upper c \<noteq> 0xE5"
  using assms by (auto simp: to_upper_def lower_case_def legal_def sjis_def word_le_nat_alt word_less_nat_alt unat_sub word_unat_eq_iff)

lemma lower_upper:
  assumes "\<not> upper_case c" "lower_case c \<Longrightarrow> l"
  shows "lower_if l (to_upper c) = c"
proof (cases "lower_case c")
  case True
  have "0x41 \<le> c - 0x20" "c - 0x20 \<le> 0x5A" using True by (auto simp: lower_case_def word_le_nat_alt unat_sub)
  then show ?thesis using True assms(2) by (simp add: lower_if_def to_upper_def)
next
  case False
  then show ?thesis using assms(1) by (auto simp: lower_if_def to_upper_def upper_case_def)
qed

lemma shown_upper: "map (\<lambda>c. lower_if (has lower_case cs \<and> \<not> has upper_case cs) (to_upper c)) cs = shown cs"
proof (cases "has upper_case cs")
  case True
  then show ?thesis by (simp add: shown_def has_def lower_if_def)
next
  case False
  then have "lower_if (has lower_case cs) (to_upper c) = c" if "c \<in> set cs" for c using that by (intro lower_upper) (auto simp: has_def)
  then show ?thesis using False by (simp add: shown_def has_def map_idI)
qed

lemma nt_bits:
  "(nt_bit 8 body OR nt_bit 0x10 ext) AND 8 \<noteq> 0 \<longleftrightarrow> has lower_case body \<and> \<not> has upper_case body"
  "(nt_bit 8 body OR nt_bit 0x10 ext) AND 0x10 \<noteq> 0 \<longleftrightarrow> has lower_case ext \<and> \<not> has upper_case ext"
  by (auto simp: nt_bit_def has_def)

lemma fileinfo_entry83:
  assumes "list_all legal body" "list_all legal ext" "length body \<le> 8" "length ext \<le> 3"
    and "rdbytes m dir 11 = take 11 (entry83 body ext)" "m (dir + DIR_NTres) = entry83 body ext ! 11"
  shows "fname (get_fileinfo m dir) = shown body @ (if ext = [] then [] else 0x2E # shown ext) @ [0]"
proof -
  have b: "rdbytes m dir 8 = pad 8 (map to_upper body)" and e: "rdbytes m (dir + 8) 3 = pad 3 (map to_upper ext)"
  proof -
    have "rdbytes m dir 11 = rdbytes m dir 8 @ rdbytes m (dir + 8) 3" using rdbytes_append [of m dir 8 3] by simp
    then have "rdbytes m dir 8 @ rdbytes m (dir + 8) 3 = pad 8 (map to_upper body) @ pad 3 (map to_upper ext)"
      using assms(3,4,5) by (simp add: entry83_def)
    then show "rdbytes m dir 8 = pad 8 (map to_upper body)" "rdbytes m (dir + 8) 3 = pad 3 (map to_upper ext)"
      using assms(3,4) by (auto simp: append_eq_append_conv)
  qed
  have nsp: "0x20 \<notin> set (map to_upper body)" "0x20 \<notin> set (map to_upper ext)"
    using assms(1,2) to_upper_legal(1) by (force simp: list_all_iff)+
  have a: "m (dir + DIR_NTres) = nt_bit 8 body OR nt_bit 0x10 ext" using assms(3,4,6) by (simp add: entry83_def nth_append)
  have "copy_name (\<lambda>c. lower_if (m (dir + DIR_NTres) AND 8 \<noteq> 0) (if c = 5 then 0xE5 else c)) m dir 8 = shown body"
    unfolding copy_name_pad [OF b, simplified, OF assms(3) nsp(1) [simplified]] a nt_bits
    unfolding shown_upper [symmetric] using assms(1) to_upper_legal(2) by (simp add: list_all_iff)
  moreover have "copy_name (lower_if (m (dir + DIR_NTres) AND 0x10 \<noteq> 0)) m (dir + 8) 3 = shown ext"
    unfolding copy_name_pad [OF e, simplified, OF assms(4) nsp(2) [simplified]] a nt_bits
    unfolding shown_upper [symmetric] by simp
  moreover have "m (dir + 8) \<noteq> 0x20 \<longleftrightarrow> ext \<noteq> []"
    using e nsp(2) by (cases ext) (auto simp: pad_def numeral_3_eq_3 rdbytes_Suc)
  ultimately show ?thesis by (simp add: get_fileinfo_def Let_def)
qed

lemma name_entry_bytes:
  assumes "length fn = 12"
  shows "rdbytes (name_entry dir fn m) dir 11 = take 11 fn" "name_entry dir fn m (dir + DIR_NTres) = fn ! 11"
proof -
  have "rdbytes (name_entry dir fn m) dir 11 = rdbytes (wrbytes dir (take 11 fn) m) dir 11"
  proof (rule rdbytes_cong)
    fix a assume "a \<in> span dir 11"
    then obtain i where i: "i < 11" "a = dir + of_nat i" by (auto simp: span_def)
    have "(of_nat i :: u32) \<noteq> of_nat 12" using i(1) of_nat_u32_inject [of i 12] by simp
    then show "name_entry dir fn m a = wrbytes dir (take 11 fn) m a" using i(2) by (simp add: name_entry_def)
  qed
  then show "rdbytes (name_entry dir fn m) dir 11 = take 11 fn" using assms by (simp add: rdbytes_wrbytes)
  show "name_entry dir fn m (dir + DIR_NTres) = fn ! 11" by (simp add: name_entry_def)
qed

section \<open>Well-formed entries\<close>

text \<open>
  The stored characters, read from the left: a byte that starts a two-byte character makes the next one its second byte, of which any character
  of a name will do.  All others are legal and none is a lower case letter.
\<close>

definition second_byte :: "u8 \<Rightarrow> bool" where
  "second_byte c \<longleftrightarrow> legal c \<or> c \<in> {0x5B, 0x5C, 0x5D, 0x7C}"

fun stored_ok :: "bool \<Rightarrow> u8 list \<Rightarrow> bool" where
  "stored_ok second [] = True"
| "stored_ok second (c # cs) =
     (if sjis c then stored_ok (\<not> second) cs else (if second then second_byte c else legal c \<and> \<not> lower_case c) \<and> stored_ok False cs)"

fun second_after :: "bool \<Rightarrow> u8 list \<Rightarrow> bool" where
  "second_after second [] = second"
| "second_after second (c # cs) = second_after (sjis c \<and> \<not> second) cs"

text \<open>The byte 5 in the first place stands for 0xE5, the mark of a deleted entry.\<close>

fun unmark :: "u8 list \<Rightarrow> u8 list" where
  "unmark [] = []"
| "unmark (c # cs) = (if c = 0x05 then 0xE5 else c) # cs"

definition entry_name :: "u8 list \<Rightarrow> bool" where
  "entry_name fn \<longleftrightarrow> (\<exists>body ext flags. fn = pad 8 body @ pad 3 ext @ [flags] \<and> body \<noteq> [] \<and> length body \<le> 8 \<and> length ext \<le> 3 \<and> hd body \<noteq> 0xE5 \<and>
     stored_ok False (unmark body) \<and> stored_ok False ext \<and> flags AND NOT 0x18 = 0)"

definition dirfile_inv :: "u8 list \<Rightarrow> u8 \<Rightarrow> u8 \<Rightarrow> u8 \<Rightarrow> u8 \<Rightarrow> bool" where
  "dirfile_inv fn n t a b \<longleftrightarrow> (\<exists>body ext. fn = pad 8 body @ pad 3 ext @ [0] \<and> length body \<le> 8 \<and> length ext \<le> 3 \<and>
     (body \<noteq> [] \<longrightarrow> hd body \<noteq> 0xE5) \<and> stored_ok False (unmark body) \<and> stored_ok False ext \<and> b AND NOT 0x18 = 0 \<and>
     (t = 8 \<and> n = of_nat (length body) \<and> ext = [] \<and> (a AND 1 \<noteq> 0 \<longleftrightarrow> second_after False (unmark body)) \<or>
      t = 11 \<and> n = of_nat (8 + length ext) \<and> body \<noteq> [] \<and> (a AND 1 \<noteq> 0 \<longleftrightarrow> second_after False ext)))"

lemma stored_ok_snoc [simp]:
  "stored_ok k (cs @ [c]) \<longleftrightarrow> stored_ok k cs \<and> (sjis c \<or> (if second_after k cs then second_byte c else legal c \<and> \<not> lower_case c))"
  "second_after k (cs @ [c]) \<longleftrightarrow> sjis c \<and> \<not> second_after k cs"
  by (induction cs arbitrary: k) auto

lemma unmark_snoc: "cs \<noteq> [] \<Longrightarrow> unmark (cs @ [c]) = unmark cs @ [c]"
  by (cases cs) auto

lemma and_mask_subset: "(b :: u8) AND c = 0 \<Longrightarrow> (a AND b) AND c = 0" "b AND c = 0 \<Longrightarrow> (b AND a) AND c = 0"
  by (simp_all add: bit_eq_iff bit_and_iff)

lemma legal_upper: "legal c \<Longrightarrow> legal (to_upper c) \<and> \<not> lower_case (to_upper c)"
proof (cases "lower_case c")
  case True
  then have u: "0x61 \<le> unat c" "unat c \<le> 0x7A" by (simp_all add: lower_case_def word_le_nat_alt)
  then have "unat (c - 0x20) = unat c - 0x20" by (simp add: unat_sub word_le_nat_alt)
  then have "0x41 \<le> unat (c - 0x20)" "unat (c - 0x20) \<le> 0x5A" using u by simp_all
  then have "legal (c - 0x20) \<and> \<not> lower_case (c - 0x20)"
    by (auto simp: legal_def lower_case_def sjis_def word_le_nat_alt word_less_nat_alt word_unat_eq_iff)
  then show ?thesis using True by (simp add: to_upper_def)
qed (simp add: to_upper_def)

text \<open>What is stored for a character, and the flags.\<close>

lemma dirfile_char_inv:
  assumes "dirfile_char c n t a b = Some (c', a', b')" "\<not> c \<le> 0x20" "c \<noteq> 0x7F" "c \<noteq> 0x2E" "c \<noteq> 0x2F" "b AND NOT 0x18 = 0"
  shows "b' AND NOT 0x18 = 0"
    "if sjis c then c' = (if n = 0 \<and> c = 0xE5 then 0x05 else c) \<and> (a' AND 1 \<noteq> 0 \<longleftrightarrow> a AND 1 = 0)
     else a' AND 1 = 0 \<and> \<not> sjis c' \<and> (if a AND 1 \<noteq> 0 then second_byte c' else legal c' \<and> \<not> lower_case c')"
proof -
  have "b' = b \<or> b' = b AND 0xF7 \<or> b' = b AND 0xEF" using assms(1) by (auto simp: dirfile_char_def Let_def split: if_splits)
  then show "b' AND NOT 0x18 = 0" using assms(6) and_mask_subset by blast
  have o1: "(x AND 0xFE) AND 1 = (0 :: u8)" for x by (simp add: and.assoc)
  have x1: "(x XOR 1) AND 1 \<noteq> (0 :: u8) \<longleftrightarrow> x AND 1 = 0" for x by (simp add: and_one_eq mod2_eq_if even_xor_iff)
  show "if sjis c then c' = (if n = 0 \<and> c = 0xE5 then 0x05 else c) \<and> (a' AND 1 \<noteq> 0 \<longleftrightarrow> a AND 1 = 0)
     else a' AND 1 = 0 \<and> \<not> sjis c' \<and> (if a AND 1 \<noteq> 0 then second_byte c' else legal c' \<and> \<not> lower_case c')"
  proof (cases "sjis c")
    case True
    then have "c' = (if n = 0 \<and> c = 0xE5 then 0x05 else c)" "a' = a XOR 1" using assms(1) by (simp_all add: dirfile_char_def sjis_def [symmetric])
    then show ?thesis using True x1 [of a] by simp
  next
    case False
    have a': "a' AND 1 = 0" using assms(1) False o1 unfolding dirfile_char_def sjis_def [symmetric] by (auto simp: Let_def split: if_splits)
    show ?thesis
    proof (cases "a AND 1 = 0")
      case a: True
      then have l: "legal c" using dirfile_char_illegal [of c a n t b] assms(1-5) False by auto
      have "c' = to_upper c" using assms(1) a False l unfolding dirfile_char_def sjis_def [symmetric]
        by (auto simp: Let_def to_upper_def lower_case_def word_le_nat_alt split: if_splits)
      then show ?thesis using False a a' legal_upper [OF l] by (auto simp: legal_def)
    next
      case a: False
      have c: "c' = c" "c \<noteq> 0x22" "\<not> (0x2A \<le> c \<and> c \<le> 0x2C)" "\<not> (0x3A \<le> c \<and> c \<le> 0x3F)"
        using assms(1) a False unfolding dirfile_char_def sjis_def [symmetric]
        by (auto simp: Let_def word_le_nat_alt split: if_splits)
      have "second_byte c" using False c(2-4) assms(2-5) by (auto simp: second_byte_def legal_def word_le_nat_alt word_less_nat_alt word_unat_eq_iff)
      then show ?thesis using False a a' c(1) by simp
    qed
  qed
qed

lemma dirfile_inv_end:
  assumes "dirfile_inv fn n t a b" "n \<noteq> 0"
  shows "entry_name (fn[11 := a AND b])"
proof -
  obtain body ext where i: "fn = pad 8 body @ pad 3 ext @ [0]" "length body \<le> 8" "length ext \<le> 3" "body \<noteq> [] \<longrightarrow> hd body \<noteq> 0xE5"
    "stored_ok False (unmark body)" "stored_ok False ext" "b AND NOT 0x18 = 0" and n: "n = of_nat (length body) \<or> body \<noteq> []"
    using assms(1) unfolding dirfile_inv_def by blast
  have "body \<noteq> []" using n assms(2) by auto
  have "fn[11 := a AND b] = pad 8 body @ pad 3 ext @ [a AND b]" using i(2,3) unfolding i(1) by (simp add: list_update_append)
  then show ?thesis unfolding entry_name_def using i \<open>body \<noteq> []\<close> and_mask_subset(1) [OF i(7), of a] by blast
qed

lemma dirfile_inv_char:
  assumes "dirfile_inv fn n t a b" "dirfile_char c n t a b = Some (c', a', b')" "\<not> c \<le> 0x20" "c \<noteq> 0x7F" "c \<noteq> 0x2E" "c \<noteq> 0x2F" "\<not> t \<le> n"
  shows "dirfile_inv (fn[unat n := c']) (n + 1) t a' b'"
proof -
  obtain body ext where i: "fn = pad 8 body @ pad 3 ext @ [0]" "length body \<le> 8" "length ext \<le> 3" "body \<noteq> [] \<longrightarrow> hd body \<noteq> 0xE5"
    "stored_ok False (unmark body)" "stored_ok False ext" "b AND NOT 0x18 = 0"
    "t = 8 \<and> n = of_nat (length body) \<and> ext = [] \<and> (a AND 1 \<noteq> 0 \<longleftrightarrow> second_after False (unmark body)) \<or>
      t = 11 \<and> n = of_nat (8 + length ext) \<and> body \<noteq> [] \<and> (a AND 1 \<noteq> 0 \<longleftrightarrow> second_after False ext)"
    using assms(1) unfolding dirfile_inv_def by auto
  note d = dirfile_char_inv [OF assms(2-6) i(7)]
  have s: "sjis 0xE5" "\<not> sjis 5" "\<not> legal 5" "\<not> second_byte 5" by (simp_all add: sjis_def legal_def second_byte_def)
  from i(8) show ?thesis
  proof (elim disjE conjE)
    assume t: "t = 8" "n = of_nat (length body)" "ext = []" "a AND 1 \<noteq> 0 \<longleftrightarrow> second_after False (unmark body)"
    have un: "unat n = length body" using i(2) t(2) by (simp add: unat_of_nat)
    then have l: "length body < 8" using assms(7) t(1) by (simp add: word_le_nat_alt)
    have n0: "n = 0 \<longleftrightarrow> body = []" using un unat_eq_zero [of n] by auto
    have fn: "fn[unat n := c'] = pad 8 (body @ [c']) @ pad 3 [] @ [0]" using pad_update [OF l] i(2) unfolding i(1) un t(3) by (simp add: list_update_append l)
    have "stored_ok False (unmark (body @ [c'])) \<and> (a' AND 1 \<noteq> 0 \<longleftrightarrow> second_after False (unmark (body @ [c']))) \<and> hd (body @ [c']) \<noteq> 0xE5"
    proof (cases body)
      case Nil
      then have "a AND 1 = 0" using t(4) by simp
      then show ?thesis using Nil d(2) s n0 by (auto split: if_splits)
    next
      case (Cons c0 cs)
      then show ?thesis using d(2) i(4,5) t(4) n0 unmark_snoc [of body c'] by (auto split: if_splits)
    qed
    then show ?thesis unfolding dirfile_inv_def using fn l i(7) d(1) t(1,2)
      by (intro exI [of _ "body @ [c']"] exI [of _ "[]"]) (simp add: add.commute)
  next
    assume t: "t = 11" "n = of_nat (8 + length ext)" "body \<noteq> []" "a AND 1 \<noteq> 0 \<longleftrightarrow> second_after False ext"
    have un: "unat n = 8 + length ext" using i(3) t(2) by (simp add: unat_of_nat unat_word_ariths)
    then have l: "length ext < 3" "n \<noteq> 0" using assms(7) t(1) by (auto simp: word_le_nat_alt)
    have fn: "fn[unat n := c'] = pad 8 body @ pad 3 (ext @ [c']) @ [0]" using pad_update [OF l(1)] i(2) less_imp_le [OF l(1)] unfolding i(1) un by (simp add: list_update_append l)
    have "stored_ok False (ext @ [c']) \<and> (a' AND 1 \<noteq> 0 \<longleftrightarrow> second_after False (ext @ [c']))"
      using d(2) i(6) t(4) l(2) by (auto split: if_splits)
    then show ?thesis unfolding dirfile_inv_def using fn l i d(1) t
      by (intro exI [of _ body] exI [of _ "ext @ [c']"]) simp
  qed
qed

lemma dirfile_inv_dot: "dirfile_inv fn n t a b \<Longrightarrow> a AND 1 = 0 \<Longrightarrow> 1 \<le> n \<Longrightarrow> n \<le> 8 \<Longrightarrow> dirfile_inv fn 8 11 a b"
proof -
  assume h: "dirfile_inv fn n t a b" "a AND 1 = 0" "1 \<le> n" "n \<le> 8"
  obtain body ext where i: "fn = pad 8 body @ pad 3 ext @ [0]" "length body \<le> 8" "length ext \<le> 3" "body \<noteq> [] \<longrightarrow> hd body \<noteq> 0xE5"
    "stored_ok False (unmark body)" "stored_ok False ext" "b AND NOT 0x18 = 0"
    "t = 8 \<and> n = of_nat (length body) \<and> ext = [] \<or> t = 11 \<and> n = of_nat (8 + length ext) \<and> body \<noteq> []"
    using h(1) unfolding dirfile_inv_def by auto
  from i(8) have "body \<noteq> [] \<and> ext = []"
  proof (elim disjE conjE)
    assume "t = 11" "n = of_nat (8 + length ext)" "body \<noteq> []"
    moreover from this have "unat n = 8 + length ext" using i(3) by (simp add: unat_of_nat unat_word_ariths)
    ultimately show ?thesis using h(4) by (simp add: word_le_nat_alt)
  qed (use h(3) in auto)
  then show ?thesis unfolding dirfile_inv_def using i h(2) by (intro exI [of _ body] exI [of _ ext]) simp
qed

lemma run_type:
  assumes "cstr m p cs" "dirfile_inv fn n t a b"
  shows "\<exists>ds q fn'. dirfile_run m (p, fn, n, t, a, b) = Ret (ds, q, fn') \<and> (ds = 1 \<or> (ds = 0 \<or> ds = 0x2F) \<and> entry_name fn')"
  using assms
proof (induction cs arbitrary: p fn n t a b)
  case Nil
  then show ?case using dirfile_inv_end [OF Nil.prems(2)] run_end [of m p 0 fn n t a b] by auto
next
  case (Cons c cs)
  have c: "c \<noteq> 0" "m p = c" "cstr m (p + 1) cs" using Cons.prems(1) by auto
  let ?body = "make_dirfile_body m (p, fn, n, t, a, b)"
  have "?body = Ret (Inr (1, p + 1, fn)) \<or> c = 0x2F \<and> n \<noteq> 0 \<and> ?body = Ret (Inr (0x2F, p + 1, fn[11 := a AND b])) \<or>
      (\<exists>fn' n' t' a' b'. ?body = Ret (Inl (p + 1, fn', n', t', a', b')) \<and> dirfile_inv fn' n' t' a' b')"
  proof (cases "c = 0x2F \<or> c \<le> 0x20 \<or> c = 0x7F \<or> c = 0x2E \<or> dirfile_char c n t a b = None \<or> t \<le> n")
    case True
    then show ?thesis
      using c(1,2) dirfile_inv_dot [OF Cons.prems(2)] by (cases "c = 0x2F"; cases "c \<le> 0x20 \<or> c = 0x7F"; cases "c = 0x2E"; cases "dirfile_char c n t a b")
        (auto simp: make_dirfile_body_def Let_def split: if_splits)
  next
    case False
    then obtain c' a' b' where d: "dirfile_char c n t a b = Some (c', a', b')" by (cases "dirfile_char c n t a b") auto
    then show ?thesis using False c(1,2) dirfile_inv_char [OF Cons.prems(2) d] by (simp add: make_dirfile_body_def)
  qed
  then consider "?body = Ret (Inr (1, p + 1, fn))" | "n \<noteq> 0" "?body = Ret (Inr (0x2F, p + 1, fn[11 := a AND b]))"
    | fn' n' t' a' b' where "?body = Ret (Inl (p + 1, fn', n', t', a', b'))" "dirfile_inv fn' n' t' a' b'" by blast
  then show ?case
  proof cases
    case 1
    then show ?thesis by (subst kwhile_unfold) simp
  next
    case 2
    then show ?thesis using dirfile_inv_end [OF Cons.prems(2)] by (subst kwhile_unfold) simp
  next
    case (3 fn' n' t' a' b')
    then show ?thesis using Cons.IH [OF c(3) 3(2)] by (subst kwhile_unfold) simp
  qed
qed

lemma segment_takeWhile: "cstr m p cs \<Longrightarrow> \<exists>sep. sep \<noteq> 1 \<and> segment m p (takeWhile (\<lambda>c. c \<noteq> 0x2F) cs) sep"
proof (induction cs arbitrary: p)
  case (Cons c cs)
  show ?case
  proof (cases "c = 0x2F")
    case False
    then show ?thesis using Cons.IH [of "p + 1"] Cons.prems by auto
  qed (use Cons.prems in auto)
qed auto

lemma make_dirfile_type_ok:
  assumes "cstr m path cs"
  shows "\<exists>ds q fn. make_dirfile m path = Ret (ds, q, fn) \<and> (ds = 1 \<or> (ds = 0 \<or> ds = 0x2F) \<and> entry_name fn)"
proof -
  have "dirfile_inv (replicate 11 0x20 @ [0]) 0 8 0 0x18"
    unfolding dirfile_inv_def by (intro exI [of _ "[]"]) (simp add: pad_def numeral_eq_Suc)
  then show ?thesis unfolding make_dirfile_def by (rule run_type [OF assms])
qed

section \<open>Properties\<close>

text \<open>
  C36: \<^verbatim>\<open>make_dirfile\<close> returns on every string.  It reports an invalid name only for a segment with a two-byte character or one that is no 8.3 name;
  otherwise it stops at the end of the string or at a slash with a well-formed entry name: a body of 1 to 8 and an extension of at most 3 characters, each padded
  with blanks on the right, without illegal characters or lower case letters outside two-byte characters, the first byte not the mark of a deleted entry also
  for a name that starts with the byte 0xE5, and only the case flags in the last byte.
\<close>

theorem make_dirfile_type:
  assumes "cstr m path cs"
  shows "\<exists>ds q fn. make_dirfile m path = Ret (ds, q, fn) \<and>
    (if ds = 1 then name83 (takeWhile (\<lambda>c. c \<noteq> 0x2F) cs) = None \<or> (\<exists>c \<in> set (takeWhile (\<lambda>c. c \<noteq> 0x2F) cs). sjis c)
     else (ds = 0 \<or> ds = 0x2F) \<and> entry_name fn)"
proof -
  let ?w = "takeWhile (\<lambda>c. c \<noteq> 0x2F) cs"
  obtain sep where s: "sep \<noteq> 1" "segment m path ?w sep" using segment_takeWhile [OF assms] by blast
  obtain ds q fn where r: "make_dirfile m path = Ret (ds, q, fn)" "ds = 1 \<or> (ds = 0 \<or> ds = 0x2F) \<and> entry_name fn"
    using make_dirfile_type_ok [OF assms] by blast
  have "name83 ?w = None \<or> (\<exists>c \<in> set ?w. sjis c)" if "ds = 1"
  proof (rule ccontr)
    assume n: "\<not> (name83 ?w = None \<or> (\<exists>c \<in> set ?w. sjis c))"
    then have "list_all (\<lambda>c. \<not> sjis c) ?w" by (simp only: list_all_iff) blast
    then show False using make_dirfile_ok [OF s(2)] n s(1) r(1) that by auto
  qed
  then show ?thesis using r by auto
qed

text \<open>The string \<^verbatim>\<open>a.TxT\<close> at address 100.\<close>

definition sample_name :: memory where
  "sample_name = (\<lambda>_. 0)(100 := 0x61, 101 := 0x2E, 102 := 0x54, 103 := 0x78, 104 := 0x54)"

theorem make_dirfile_type_witness:
  "\<exists>ds q fn. make_dirfile sample_name 100 = Ret (ds, q, fn) \<and> entry_name fn"
proof -
  let ?cs = "[0x61, 0x2E, 0x54, 0x78, 0x54] :: u8 list"
  have c: "cstr sample_name 100 ?cs" by (simp add: sample_name_def)
  have "\<not> (name83 ?cs = None \<or> (\<exists>c \<in> set ?cs. sjis c))" "takeWhile (\<lambda>c. c \<noteq> 0x2F) ?cs = ?cs" by code_simp+
  then show ?thesis using make_dirfile_type [OF c] by (auto split: if_splits)
qed

text \<open>
  C35: on path segments without two-byte characters \<^verbatim>\<open>make_dirfile\<close> computes the reference definition of 8.3
  names: it fails exactly on the names \<open>name83\<close> rejects, and otherwise returns the entry name, the separator and the
  rest of the path.
\<close>

theorem make_dirfile_equiv:
  assumes "segment m path cs sep" "\<forall>c \<in> set cs. \<not> sjis c"
  shows "case name83 cs of
      Some fn \<Rightarrow> make_dirfile m path = Ret (sep, path + of_nat (length cs) + 1, fn)
    | None \<Rightarrow> \<exists>q fn. make_dirfile m path = Ret (1, q, fn)"
  by (rule make_dirfile_ok [OF assms(1)]) (use assms(2) in \<open>simp add: list_all_iff\<close>)

theorem make_dirfile_equiv_witness:
  "make_dirfile sample_name 100 = Ret (0, 106, [0x41, 0x20, 0x20, 0x20, 0x20, 0x20, 0x20, 0x20, 0x54, 0x58, 0x54, 0x08])"
proof -
  let ?cs = "[0x61, 0x2E, 0x54, 0x78, 0x54] :: u8 list"
  have s: "segment sample_name 100 ?cs 0" by (simp add: sample_name_def)
  have j: "\<forall>c \<in> set ?cs. \<not> sjis c" by (simp add: sjis_def)
  have n: "name83 ?cs = Some [0x41, 0x20, 0x20, 0x20, 0x20, 0x20, 0x20, 0x20, 0x54, 0x58, 0x54, 0x08]"
    by code_simp
  show ?thesis using make_dirfile_equiv [OF s j, unfolded n] by simp
qed



end
