(* ===== verification/Fat_Data.thy ===== *)
theory Fat_Data
  imports Fat_Chain FatFile
begin

text \<open>
  The data sectors of a FAT volume.  File operations read and write them past the window, straight through the
  block cache; \<open>vol_keep\<close> collects what such a step leaves alone: the volume's invariant and geometry, the allocation
  table, the data sectors outside a given set, and the memory outside another.
\<close>

definition vol_keep :: "ptr set \<Rightarrow> ptr \<Rightarrow> ptr \<Rightarrow> ptr set \<Rightarrow> u32 set \<Rightarrow> 'a kfat_scheme \<Rightarrow> 'a kfat_scheme \<Rightarrow> bool" where
  "vol_keep D fs dev X Y s t \<longleftrightarrow> fat_vol D fs dev t \<and> geom (SBs t fs) = geom (SBs s fs) \<and> cache_mem t = cache_mem s \<and>
     (\<forall>k < unat (max_clust (SBs s fs)). fat_entry fs dev t k = fat_entry fs dev s k) \<and>
     (\<forall>y. data_sector (SBs s fs) y \<longrightarrow> y \<notin> Y \<longrightarrow> fview fs dev t y = fview fs dev s y) \<and>
     (winsect (SBs t fs) = winsect (SBs s fs) \<or> \<not> data_sector (SBs s fs) (winsect (SBs t fs))) \<and>
     (\<forall>a. a \<notin> span (win fs) 512 \<union> cache_mem s \<union> X \<longrightarrow> mem t a = mem s a)"

lemma vol_keepD:
  assumes "vol_keep D fs dev X Y s t"
  shows "fat_vol D fs dev t" "geom (SBs t fs) = geom (SBs s fs)" "cache_mem t = cache_mem s"
    "k < unat (max_clust (SBs s fs)) \<Longrightarrow> fat_entry fs dev t k = fat_entry fs dev s k"
    "data_sector (SBs s fs) y \<Longrightarrow> y \<notin> Y \<Longrightarrow> fview fs dev t y = fview fs dev s y"
    "winsect (SBs t fs) = winsect (SBs s fs) \<or> \<not> data_sector (SBs s fs) (winsect (SBs t fs))"
    "a \<notin> span (win fs) 512 \<union> cache_mem s \<union> X \<Longrightarrow> mem t a = mem s a"
  using assms by (simp_all add: vol_keep_def)

lemma vol_keep_refl: "fat_vol D fs dev s \<Longrightarrow> vol_keep D fs dev X Y s s"
  by (simp add: vol_keep_def)

lemma vol_keep_mono: "vol_keep D fs dev X Y s t \<Longrightarrow> X \<subseteq> X' \<Longrightarrow> Y \<subseteq> Y' \<Longrightarrow> vol_keep D fs dev X' Y' s t"
  unfolding vol_keep_def by blast

lemma vol_keep_trans:
  assumes "vol_keep D fs dev X Y s t" "vol_keep D fs dev X' Y' t u"
  shows "vol_keep D fs dev (X \<union> X') (Y \<union> Y') s u"
proof -
  note a = vol_keepD [OF assms(1)] and b = vol_keepD [OF assms(2)]
  note g = geom_eqD(1) [OF a(2)] data_sector_geom [OF a(2)]
  show ?thesis unfolding vol_keep_def using a b g by auto
qed

lemma fat_vol_geom: "fat_vol D fs dev s \<Longrightarrow> vol_ok D fs dev t \<Longrightarrow> geom (SBs t fs) = geom (SBs s fs) \<Longrightarrow> fat_vol D fs dev t"
  using geom_eqD [of "SBs t fs" "SBs s fs"] unfolding fat_vol_def Let_def by simp

lemma fat_vol_ok: "fat_vol D fs dev s \<Longrightarrow> vol_ok D fs dev s"
  by (simp add: fat_vol_def)

text \<open>The entries of the table depend on the sectors of the table only.\<close>

lemma fat_entry_cong:
  fixes s t :: "'a kfat_scheme"
  assumes v: "fat_vol D fs dev s" "vol_ok D fs dev t" and g: "geom (SBs t fs) = geom (SBs s fs)"
    and y: "\<And>y. \<not> data_sector (SBs s fs) y \<Longrightarrow> fview fs dev t y = fview fs dev s y" and k: "k < unat (max_clust (SBs s fs))"
  shows "fat_entry fs dev t k = fat_entry fs dev s k"
proof -
  obtain e m where f: "fat_format e m D fs dev s" using fat_vol_format [OF v(1)] by blast
  have "fbyte fs dev t i = fbyte fs dev s i" if i: "i < fat_bytes (SBs s fs)" for i
  proof -
    have "i div 512 < unat (sects_fat (SBs s fs))" using i by (simp add: less_mult_imp_div_less)
    from fat_sector(5) [OF fat_vol_ok [OF v(1)] refl this refl] show ?thesis
      using y geom_eqD(2) [OF g] by (simp add: fbyte_def)
  qed
  then have "e (fbyte fs dev t) k = e (fbyte fs dev s) k" using f k unfolding fat_format_def by blast
  then show ?thesis using f v(2) g unfolding fat_format_def by metis
qed

lemma bview_length: "cache_inv s D \<Longrightarrow> dev \<in> D \<Longrightarrow> length (bview s dev x) = 512"
  using cache_invD(1) [of s D dev]
  by (cases rule: bview_cases [of s dev x]) (auto simp: bc_bytes_def dev_ok_def ide_ready_def disk_def)

lemma fview_length: "fat_vol D fs dev s \<Longrightarrow> length (fview fs dev s x) = 512"
  using vol_okD(3,4) [OF fat_vol_ok refl, of D fs dev s] bview_length [of s D dev x] by (simp add: fview_def)

section \<open>Steps that do not touch the disk\<close>

lemma vol_upd_mem:
  assumes v: "fat_vol D fs dev s" and g: "\<And>a. a \<notin> X \<Longrightarrow> g (mem s) a = mem s a" and X: "X \<inter> (span (win fs) 512 \<union> cache_mem s) = {}"
  shows "vol_keep D fs dev X {} s (upd_mem g s)"
proof -
  note d = vol_okD [OF fat_vol_ok [OF v] refl]
  have c: "cache_inv (upd_mem g s) D" "bview (upd_mem g s) = bview s"
    by (rule cache_write_elsewhere [OF d(4)]; use g X in blast)+
  have gd: "getDeviceWithId i (upd_mem g s) = getDeviceWithId i s" for i by (rule getDevice_rest) simp
  have vd: "vol_dev D fs dev (upd_mem g s)" using d(1) c(1) gd by (simp add: vol_dev_def)
  have w: "rdbytes (g (mem s)) (win fs) 512 = rdbytes (mem s) (win fs) 512" by (rule rdbytes_cong) (use g X in blast)
  have vo: "vol_ok D fs dev (upd_mem g s)"
    by (rule vol_okI [OF vd fat_vol_ok [OF v]]) (use d w c in simp_all)
  have fv: "fview fs dev (upd_mem g s) y = fview fs dev s y" for y by (auto simp: fview_def w c)
  show ?thesis unfolding vol_keep_def
    using fat_vol_geom [OF v vo] fat_entry_cong [OF v vo] fv g by simp
qed

lemma upd_fp_sel [simp]:
  "mem (upd_fp fp g s) = mem s" "SBs (upd_fp fp g s) = SBs s" "cache_mem (upd_fp fp g s) = cache_mem s" "bview (upd_fp fp g s) = bview s"
  "FatFiles (upd_fp fp g s) = (FatFiles s)(fp := g (FatFiles s fp))" "cache_inv (upd_fp fp g s) D = cache_inv s D"
  "cache_free (upd_fp fp g s) D = cache_free s D" "getDeviceWithId i (upd_fp fp g s) = getDeviceWithId i s"
proof -
  show "bview (upd_fp fp g s) = bview s"
  proof -
    have "bc_bytes (upd_fp fp g s) = bc_bytes s" "disk (upd_fp fp g s) = disk s" "bc_hit (upd_fp fp g s) = bc_hit s"
      by (simp_all add: fun_eq_iff bc_bytes_def disk_def ideno_def upd_fp_def bc_hit_def)
    then show ?thesis by (intro ext) (simp add: bview_def upd_fp_def cong: option.case_cong)
  qed
qed (simp_all add: upd_fp_def cache_mem_def cache_inv_def cache_free_def dev_ok_def ide_ready_def sem_free_def ide_sem_def ideno_def
      waitlistIsEmpty_def bc_hit_def bc_bytes_def disk_def fun_eq_iff inj_on_def getDeviceWithId_def)

lemma vol_upd_fp:
  assumes "fat_vol D fs dev s"
  shows "vol_keep D fs dev X Y s (upd_fp fp g s)"
proof -
  have f: "fview fs dev (upd_fp fp g s) = fview fs dev s" by (auto simp: fview_def fun_eq_iff)
  have v: "vol_ok D fs dev (upd_fp fp g s)" using assms by (simp add: fat_vol_def vol_ok_def vol_dev_def)
  show ?thesis unfolding vol_keep_def
    using fat_vol_geom [OF assms v] fat_entry_cong [OF assms v] f by simp
qed

lemma vol_get_cluster:
  assumes "fat_vol D fs dev s" "2 \<le> c" "c < max_clust (SBs s fs)"
  shows "\<exists>t. get_cluster fs c s = Ret (fat_entry fs dev s (unat c), t) \<and> vol_keep D fs dev X Y s t \<and> FatFiles t = FatFiles s"
proof -
  obtain t where t: "get_cluster fs c s = Ret (fat_entry fs dev s (unat c), t)" "fat_vol D fs dev t" "fat_kept fs dev s t"
    "\<forall>k < unat (max_clust (SBs s fs)). fat_entry fs dev t k = fat_entry fs dev s k"
    using ct.get [OF assms] by blast
  have f: "fat_frame fs s t" using t(3) by (simp add: fat_kept_def)
  then have "FatFiles t = FatFiles s" by (intro fat_rest_sel(8)) (simp add: fat_frame_def)
  moreover have "vol_keep D fs dev X Y s t" unfolding vol_keep_def
    using t(2-4) f fat_frame_cache_mem [OF f] by (simp add: fat_kept_def fat_frame_def)
  ultimately show ?thesis using t(1) by blast
qed

section \<open>Sectors past the window\<close>

interpretation fd: sector_io
  "\<lambda>w buf x. diskIO_BCache dev \<lparr>req_type = w, req_secno = x, req_nsecs = 1, req_buffer = buf, req_bsize = SECTSIZE\<rparr>"
  "\<lambda>s :: 'a kfat_scheme. cache_inv s D \<and> cache_free s D \<and> dev \<in> D \<and> io_rest s = R" "\<lambda>s. bview s dev" mem cache_mem for D dev R
proof unfold_locales
  fix s :: "'a kfat_scheme" and x :: u32 and buf :: ptr
  assume a: "cache_inv s D \<and> cache_free s D \<and> dev \<in> D \<and> io_rest s = R" "x < MAX_DISK_NSECS" "span buf 512 \<inter> cache_mem s = {}"
  have dev: "dev \<noteq> NULL" using cache_invD(1) [of s D dev] a(1) by (simp add: dev_ok_def)
  have r: "\<exists>s'. diskIO_BCache dev \<lparr>req_type = w, req_secno = x, req_nsecs = 1, req_buffer = buf, req_bsize = SECTSIZE\<rparr> s = Ret (0, s') \<and>
      (cache_inv s' D \<and> cache_free s' D \<and> dev \<in> D \<and> io_rest s' = R) \<and> cache_mem s' = cache_mem s \<and> rw_effect w buf dev x D s s'" for w
  proof -
    obtain s' where s': "bcache_rw dev buf x w s = Ret (0, s')" "cache_inv s' D" "cframe s s'" "rw_effect w buf dev x D s s'"
      using bcache_rw_ok [of s D dev x buf w] a by (auto simp: buffer_cache_mem)
    then show ?thesis using diskIO_one [OF dev s'(1)] a(1) cframe_same(1,4) [OF s'(3)] by (auto simp: cframe_def)
  qed
  show "\<exists>s'. diskIO_BCache dev \<lparr>req_type = IO_READ, req_secno = x, req_nsecs = 1, req_buffer = buf, req_bsize = SECTSIZE\<rparr> s = Ret (0, s') \<and>
      (cache_inv s' D \<and> cache_free s' D \<and> dev \<in> D \<and> io_rest s' = R) \<and> bview s' dev = bview s dev \<and> cache_mem s' = cache_mem s \<and>
      rdbytes (mem s') buf 512 = bview s dev x \<and> (\<forall>a. a \<notin> span buf 512 \<union> cache_mem s \<longrightarrow> mem s' a = mem s a)"
    using r [of IO_READ] by (auto simp: rw_effect_def)
  show "\<exists>s'. diskIO_BCache dev \<lparr>req_type = IO_WRITE, req_secno = x, req_nsecs = 1, req_buffer = buf, req_bsize = SECTSIZE\<rparr> s = Ret (0, s') \<and>
      (cache_inv s' D \<and> cache_free s' D \<and> dev \<in> D \<and> io_rest s' = R) \<and> bview s' dev = (bview s dev)(x := rdbytes (mem s) buf 512) \<and>
      cache_mem s' = cache_mem s \<and> (\<forall>a. a \<notin> cache_mem s \<longrightarrow> mem s' a = mem s a)"
    using r [of IO_WRITE] by (fastforce simp: rw_effect_def)
qed

text \<open>A state after a transfer of data sectors to or from memory outside the window.\<close>

lemma vol_transfer:
  fixes s t :: "'a kfat_scheme"
  assumes v: "fat_vol D fs dev s" and t: "cache_inv t D \<and> cache_free t D \<and> dev \<in> D \<and> io_rest t = io_rest s" "cache_mem t = cache_mem s"
    and m: "\<And>a. a \<notin> X \<union> cache_mem s \<Longrightarrow> mem t a = mem s a" "X \<inter> span (win fs) 512 = {}"
    and b: "\<And>y. y \<notin> Y \<Longrightarrow> bview t dev y = bview s dev y" "winsect (SBs s fs) \<notin> Y" "\<And>y. y \<in> Y \<Longrightarrow> data_sector (SBs s fs) y"
  shows "vol_keep D fs dev X Y s t" "FatFiles t = FatFiles s" "y \<in> Y \<Longrightarrow> fview fs dev t y = bview t dev y"
proof -
  note d = vol_okD [OF fat_vol_ok [OF v] refl]
  have sb: "SBs t = SBs s" using io_rest_SBs t(1) by blast
  have r: "fat_rest t = fat_rest s" using io_fat_rest t(1) by blast
  show "FatFiles t = FatFiles s" by (rule fat_rest_sel(8) [OF r])
  have vd: "vol_dev D fs dev t" using d(1) t(1) getDevice_rest [OF r] by (simp add: vol_dev_def sb)
  have w: "rdbytes (mem t) (win fs) 512 = rdbytes (mem s) (win fs) 512" by (rule rdbytes_cong) (use m d(2) in blast)
  have vo: "vol_ok D fs dev t"
    by (rule vol_okI [OF vd fat_vol_ok [OF v] t(2)]) (use d w b in \<open>simp_all add: sb\<close>)
  have fv: "fview fs dev t y = fview fs dev s y" if "y \<notin> Y" for y using that b(1) by (auto simp: fview_def sb w)
  show "fview fs dev t y = bview t dev y" if "y \<in> Y" using that b(2) by (auto simp: fview_def sb)
  show "vol_keep D fs dev X Y s t" unfolding vol_keep_def
    using fat_vol_geom [OF v vo] fat_entry_cong [OF v vo] fv b(3) t(2) m(1) by (auto simp: sb)
qed

lemma vol_read:
  fixes s :: "'a kfat_scheme"
  assumes v: "fat_vol D fs dev s" and x: "unat x + n \<le> unat MAX_DISK_NSECS" "n < 2 ^ 23"
    and buf: "span buf (n * 512) \<inter> (span (win fs) 512 \<union> cache_mem s) = {}" and w: "\<And>k. k < n \<Longrightarrow> x + of_nat k \<noteq> winsect (SBs s fs)"
  shows "\<exists>t. fatbase_disk_read (sb_drive (SBs s fs)) buf x (of_nat n) s = Ret (0, t) \<and> vol_keep D fs dev (span buf (n * 512)) {} s t \<and>
    FatFiles t = FatFiles s \<and> rdbytes (mem t) buf (n * 512) = concat (map (\<lambda>k. fview fs dev s (x + of_nat k)) [0..<n])"
proof -
  note d = vol_okD [OF fat_vol_ok [OF v] refl]
  have a: "cache_inv s D \<and> cache_free s D \<and> dev \<in> D \<and> io_rest s = io_rest s" "getDeviceWithId (ucast (sb_drive (SBs s fs))) s = Ret dev"
    using d(1) by (simp_all add: vol_dev_def)
  obtain t where t: "each_sector (\<lambda>buf x. diskIO_BCache dev \<lparr>req_type = IO_READ, req_secno = x, req_nsecs = 1, req_buffer = buf, req_bsize = SECTSIZE\<rparr>) buf x n s = Ret (0, t)"
    "cache_inv t D \<and> cache_free t D \<and> dev \<in> D \<and> io_rest t = io_rest s" "bview t dev = bview s dev" "cache_mem t = cache_mem s"
    "rdbytes (mem t) buf (n * 512) = concat (map (\<lambda>k. bview s dev (x + of_nat k)) [0..<n])"
    "\<forall>a. a \<notin> span buf (n * 512) \<union> cache_mem s \<longrightarrow> mem t a = mem s a"
    using fd.read_many [OF a(1) x(1), of buf] x(2) buf by auto
  have "fatbase_disk_read (sb_drive (SBs s fs)) buf x (of_nat n) s = Ret (0, t)"
    using t(1) a(2) x(2) by (simp add: fatbase_disk_read_def disk_read_def unat_of_nat_u32)
  moreover have "rdbytes (mem t) buf (n * 512) = concat (map (\<lambda>k. fview fs dev s (x + of_nat k)) [0..<n])"
    unfolding t(5) using w by (intro arg_cong [of _ _ concat]) (auto simp: fview_def)
  moreover note vol_transfer(1,2) [OF v t(2,4), of "span buf (n * 512)" "{}"]
  ultimately show ?thesis using t(3,6) buf by (intro exI [of _ t]) auto
qed

lemma vol_write:
  fixes s :: "'a kfat_scheme"
  assumes v: "fat_vol D fs dev s" and x: "x < MAX_DISK_NSECS" "data_sector (SBs s fs) x" "x \<noteq> winsect (SBs s fs)"
    and buf: "span buf 512 \<inter> cache_mem s = {}"
  shows "\<exists>t. fatbase_disk_write (sb_drive (SBs s fs)) buf x 1 s = Ret (0, t) \<and> vol_keep D fs dev {} {x} s t \<and>
    FatFiles t = FatFiles s \<and> fview fs dev t x = rdbytes (mem s) buf 512"
proof -
  note d = vol_okD [OF fat_vol_ok [OF v] refl]
  obtain t where t: "fatbase_disk_write (sb_drive (SBs s fs)) buf x 1 s = Ret (0, t)" "vol_dev D fs dev t" "cframe s t"
    "rw_effect IO_WRITE buf dev x D s t"
    using fat_write_one [OF d(1) x(1) buf] by blast
  have i: "cache_inv t D \<and> cache_free t D \<and> dev \<in> D \<and> io_rest t = io_rest s" "cache_mem t = cache_mem s"
    using t(2,3) cframe_same(1) [OF t(3)] by (simp_all add: vol_dev_def cframe_def)
  have e: "bview t dev = (bview s dev)(x := rdbytes (mem s) buf 512)" "\<forall>a. a \<notin> cache_mem s \<longrightarrow> mem t a = mem s a"
    using t(4) d(3) by (simp_all add: rw_effect_def)
  note k = vol_transfer [OF v i, of "{}" "{x}"]
  show ?thesis using t(1) k e x by auto
qed

end
