(* ===== verification/Fat_Read.thy ===== *)
theory Fat_Read
  imports Fat_Data Fat_Props
begin

text \<open>
  Reading files.  A file is a chain of clusters; \<open>fsec\<close> is the disk sector that holds its \<open>k\<close>th sector.  The file
  object keeps one sector in a buffer of its own, which may be newer than the disk.  \<^verbatim>\<open>fatbase_read\<close> is proved to
  deliver exactly the bytes of the file from the current position, whatever mixture of whole sectors and
  fractions the request needs.
\<close>

section \<open>The sectors of a file\<close>

abbreviation (input) csz :: "FATBase_SuperBlock \<Rightarrow> nat" where
  "csz b \<equiv> unat (sects_clust b)"

definition data_area :: "FATBase_SuperBlock \<Rightarrow> bool" where
  "data_area b \<longleftrightarrow> 0 < csz b \<and> unat (fatbase b) + unat (n_fats b) * unat (sects_fat b) \<le> unat (database b) \<and>
     unat (database b) + (unat (max_clust b) - 2) * csz b \<le> unat MAX_DISK_NSECS"

definition fsec :: "FATBase_SuperBlock \<Rightarrow> u32 list \<Rightarrow> nat \<Rightarrow> u32" where
  "fsec b xs k = database b + of_nat ((unat (xs ! (k div csz b)) - 2) * csz b + k mod csz b)"

abbreviation (input) nsecs :: "FATBase_SuperBlock \<Rightarrow> u32 list \<Rightarrow> nat" where
  "nsecs b xs \<equiv> length xs * csz b"

lemma data_area_geom: "geom b = geom c \<Longrightarrow> data_area b = data_area c" "geom b = geom c \<Longrightarrow> fsec b = fsec c"
  using geom_eqD [of b c] by (simp_all add: data_area_def fsec_def fun_eq_iff)

lemma cluster_end:
  assumes "data_area b" "2 \<le> c" "c < max_clust b" "i \<le> csz b"
  shows "unat (database b) + (unat c - 2) * csz b + i \<le> unat MAX_DISK_NSECS"
proof -
  have "Suc (unat c - 2) \<le> unat (max_clust b) - 2" using assms(2,3) by (simp add: word_le_nat_alt word_less_nat_alt)
  then have "Suc (unat c - 2) * csz b \<le> (unat (max_clust b) - 2) * csz b" by (rule mult_right_mono) simp
  then show ?thesis using assms(1,4) by (simp add: data_area_def)
qed

lemma block_offset:
  assumes "(k :: nat) mod c + j < c"
  shows "(k + j) div c = k div c" "(k + j) mod c = k mod c + j" "k + j < c * Suc (k div c)"
proof -
  obtain q r where s: "k = c * q + r" "q = k div c" "r = k mod c" using mult_div_mod_eq [of c k] by metis
  have l: "r + j < c" using assms s(3) by simp
  then show "(k + j) div c = k div c" "k + j < c * Suc (k div c)"
    unfolding s(2) [symmetric] s(1) by (auto intro: div_nat_eqI simp: algebra_simps)
  then have "k + j = c * q + (k + j) mod c" using mult_div_mod_eq [of c "k + j"] s(2) by simp
  then show "(k + j) mod c = k mod c + j" unfolding s(3) [symmetric] using s(1) by linarith
qed

lemma unat_add_of_nat: "unat (d :: u32) + n < 2 ^ 32 \<Longrightarrow> unat (d + of_nat n) = unat d + n"
  by (simp add: unat_word_ariths unat_of_nat_u32)

lemma fsec_facts:
  assumes a: "data_area b" and r: "\<And>c. c \<in> set xs \<Longrightarrow> 2 \<le> c \<and> c < max_clust b" and k: "k < nsecs b xs" and j: "k mod csz b + j \<le> csz b"
  shows "unat (fsec b xs k) + j \<le> unat MAX_DISK_NSECS" "k mod csz b + j < csz b \<Longrightarrow> k + j < nsecs b xs \<and> fsec b xs (k + j) = fsec b xs k + of_nat j"
    "data_sector b (fsec b xs k)" "fsec b xs k < MAX_DISK_NSECS"
proof -
  let ?c = "xs ! (k div csz b)"
  have z: "0 < csz b" using a by (simp add: data_area_def)
  have q: "k div csz b < length xs" using k by (simp add: less_mult_imp_div_less)
  then have c: "2 \<le> ?c" "?c < max_clust b" using r nth_mem by blast+
  have e: "unat (database b) + (unat ?c - 2) * csz b + (k mod csz b + j) \<le> unat MAX_DISK_NSECS" by (rule cluster_end [OF a c j])
  have e1: "unat (database b) + (unat ?c - 2) * csz b + Suc (k mod csz b) \<le> unat MAX_DISK_NSECS"
    by (rule cluster_end [OF a c]) (use z in \<open>simp add: Suc_leI\<close>)
  then have u: "unat (fsec b xs k) = unat (database b) + ((unat ?c - 2) * csz b + k mod csz b)"
    unfolding fsec_def by (intro unat_add_of_nat) simp
  show "unat (fsec b xs k) + j \<le> unat MAX_DISK_NSECS" using e u by simp
  show "data_sector b (fsec b xs k)" using u a by (simp add: data_sector_def data_area_def)
  show "fsec b xs k < MAX_DISK_NSECS" using u e1 by (simp add: word_less_nat_alt)
  show "k + j < nsecs b xs \<and> fsec b xs (k + j) = fsec b xs k + of_nat j" if lt: "k mod csz b + j < csz b"
  proof -
    note block_offset(1,2) [OF lt]
    moreover have "k + j < nsecs b xs"
    proof -
      have "Suc (k div csz b) * csz b \<le> length xs * csz b" using q by (intro mult_right_mono) simp_all
      then show ?thesis using block_offset(3) [OF lt] by (simp only: mult.commute)
    qed
    ultimately show ?thesis by (simp add: fsec_def add.assoc)
  qed
qed

lemma clust2sect_fsec:
  assumes "data_area b" "2 \<le> xs ! i" "xs ! i < max_clust b"
  shows "clust2sect b (xs ! i) = fsec b xs (i * csz b)"
proof -
  have z: "0 < csz b" using assms(1) by (simp add: data_area_def)
  have u: "unat (xs ! i - 2) = unat (xs ! i) - 2" "unat (max_clust b - 2) = unat (max_clust b) - 2"
    using assms(2,3) by (simp_all add: unat_sub word_le_nat_alt word_less_nat_alt)
  have "\<not> max_clust b - 2 \<le> xs ! i - 2" using assms(2,3) by (simp add: word_le_nat_alt word_less_nat_alt u)
  moreover have "(xs ! i - 2) * ucast (sects_clust b) = of_nat ((unat (xs ! i) - 2) * csz b)"
  proof -
    have "of_nat (csz b) = (ucast (sects_clust b) :: u32)" by (simp add: unsigned_ucast_eq [symmetric])
    then show ?thesis using u(1) u32_of_unat [of "xs ! i - 2"] by simp
  qed
  ultimately show ?thesis using z by (simp add: clust2sect_def fsec_def)
qed

lemma chain_head: "chain T mx c xs \<Longrightarrow> xs \<noteq> [] \<Longrightarrow> c = xs ! 0"
  by (cases xs) auto

lemma chain_succ: "chain T mx c xs \<Longrightarrow> Suc i < length xs \<Longrightarrow> T (unat (xs ! i)) = xs ! Suc i"
proof (induction xs arbitrary: c i)
  case (Cons x xs)
  have t: "chain T mx (T (unat x)) xs" using Cons.prems(1) by auto
  show ?case
  proof (cases i)
    case 0
    then show ?thesis using chain_head [OF t] Cons.prems(2) by auto
  next
    case (Suc j)
    then show ?thesis using Cons.IH [OF t, of j] Cons.prems(2) by simp
  qed
qed simp


section \<open>Open files\<close>

definition dirty :: "FATBase_FILE \<Rightarrow> bool" where
  "dirty f \<longleftrightarrow> fp_flag f AND FA__DIRTY \<noteq> 0"

text \<open>The \<open>k\<close>th sector of a file: the buffer of the file object where it is newer than the disk.\<close>

definition file_sec :: "ptr \<Rightarrow> ptr \<Rightarrow> ptr \<Rightarrow> u32 list \<Rightarrow> 'a kfat_scheme \<Rightarrow> nat \<Rightarrow> u8 list" where
  "file_sec fs dev fp xs s k = (let y = fsec (SBs s fs) xs k
     in if dirty (FatFiles s fp) \<and> curr_sect (FatFiles s fp) = y then rdbytes (mem s) (fbuf fp) 512 else fview fs dev s y)"

definition file_byte :: "ptr \<Rightarrow> ptr \<Rightarrow> ptr \<Rightarrow> u32 list \<Rightarrow> 'a kfat_scheme \<Rightarrow> nat \<Rightarrow> u8" where
  "file_byte fs dev fp xs s p = file_sec fs dev fp xs s (p div 512) ! (p mod 512)"

text \<open>The contents of a file.\<close>

definition file_data :: "ptr \<Rightarrow> ptr \<Rightarrow> ptr \<Rightarrow> u32 list \<Rightarrow> 'a kfat_scheme \<Rightarrow> u8 list" where
  "file_data fs dev fp xs s = map (file_byte fs dev fp xs s) [0..<unat (fsize (FatFiles s fp))]"

definition at_sector :: "FATBase_SuperBlock \<Rightarrow> u32 list \<Rightarrow> FATBase_FILE \<Rightarrow> nat \<Rightarrow> bool" where
  "at_sector b xs f k \<longleftrightarrow> k < nsecs b xs \<and> curr_clust f = xs ! (k div csz b) \<and> curr_sect f = fsec b xs k \<and> unat (sect_clust f) = csz b - k mod csz b"

definition file_base :: "ptr set \<Rightarrow> ptr \<Rightarrow> ptr \<Rightarrow> u32 list \<Rightarrow> ptr \<Rightarrow> 'a kfat_scheme \<Rightarrow> bool" where
  "file_base D fs dev xs fp s \<longleftrightarrow> (let b = SBs s fs; f = FatFiles s fp
     in fat_vol D fs dev s \<and> data_area b \<and> fp_fs f = fs \<and> chain (fat_entry fs dev s) (max_clust b) (org_clust f) xs \<and>
        unat (fsize f) \<le> nsecs b xs * 512 \<and> fptr f \<le> fsize f \<and>
        span (fbuf fp) 512 \<inter> (span (win fs) 512 \<union> cache_mem s) = {} \<and> (\<forall>k < nsecs b xs. fsec b xs k \<noteq> winsect b))"

text \<open>
  An open file: its clusters hold its bytes and are not in the window, the counters describe the sector of the last byte
  before the position, and the buffer holds the sector of a position inside a sector.
\<close>

definition file_ok :: "ptr set \<Rightarrow> ptr \<Rightarrow> ptr \<Rightarrow> u32 list \<Rightarrow> ptr \<Rightarrow> 'a kfat_scheme \<Rightarrow> bool" where
  "file_ok D fs dev xs fp s \<longleftrightarrow> file_base D fs dev xs fp s \<and> (let b = SBs s fs; f = FatFiles s fp; p = unat (fptr f)
     in (if p = 0 then sect_clust f = 1 \<and> \<not> dirty f else at_sector b xs f ((p - 1) div 512)) \<and>
        (p mod 512 \<noteq> 0 \<longrightarrow> rdbytes (mem s) (fbuf fp) 512 = file_sec fs dev fp xs s (p div 512)))"

lemma file_baseD:
  assumes "file_base D fs dev xs fp s" and "b = SBs s fs" and "f = FatFiles s fp"
  shows "fat_vol D fs dev s" "data_area b" "fp_fs f = fs" "chain (fat_entry fs dev s) (max_clust b) (org_clust f) xs"
    "unat (fsize f) \<le> nsecs b xs * 512" "unat (fptr f) \<le> unat (fsize f)" "span (fbuf fp) 512 \<inter> (span (win fs) 512 \<union> cache_mem s) = {}"
    "\<And>k. k < nsecs b xs \<Longrightarrow> fsec b xs k \<noteq> winsect b" "\<And>c. c \<in> set xs \<Longrightarrow> 2 \<le> c \<and> c < max_clust b"
    "\<And>p. p < unat (fsize f) \<Longrightarrow> p div 512 < nsecs b xs"
proof -
  show *: "fat_vol D fs dev s" "data_area b" "fp_fs f = fs" "chain (fat_entry fs dev s) (max_clust b) (org_clust f) xs"
    "unat (fsize f) \<le> nsecs b xs * 512" "unat (fptr f) \<le> unat (fsize f)" "span (fbuf fp) 512 \<inter> (span (win fs) 512 \<union> cache_mem s) = {}"
    "\<And>k. k < nsecs b xs \<Longrightarrow> fsec b xs k \<noteq> winsect b"
    using assms by (simp_all add: file_base_def Let_def word_le_nat_alt)
  show "\<And>c. c \<in> set xs \<Longrightarrow> 2 \<le> c \<and> c < max_clust b" using chain_range [OF *(4)] by blast
  show "\<And>p. p < unat (fsize f) \<Longrightarrow> p div 512 < nsecs b xs" using *(5) by (simp add: less_mult_imp_div_less)
qed

lemma file_okD: "file_ok D fs dev xs fp s \<Longrightarrow> file_base D fs dev xs fp s"
  by (simp add: file_ok_def)

lemma file_base_keep:
  assumes "file_base D fs dev xs fp s" and v: "vol_keep D fs dev X Y s t"
    and f: "f = FatFiles s fp" "g = FatFiles t fp" "fp_fs g = fp_fs f" "org_clust g = org_clust f" "fsize g = fsize f" "unat (fptr g) \<le> unat (fsize f)"
  shows "file_base D fs dev xs fp t"
proof -
  note d = file_baseD [OF assms(1) refl f(1)] and k = vol_keepD [OF v]
  note g = geom_eqD [OF k(2)] data_area_geom [OF k(2)]
  have "chain (fat_entry fs dev t) (max_clust (SBs s fs)) (org_clust f) xs"
    by (subst chain_cong [of xs _ "fat_entry fs dev s"]) (use d(4,9) k(4) in \<open>simp_all add: word_less_nat_alt\<close>)
  moreover have "fsec (SBs s fs) xs j \<noteq> winsect (SBs t fs)" if "j < nsecs (SBs s fs) xs" for j
    using d(8) [OF that] fsec_facts(3) [OF d(2,9) that, of 0] k(6) mod_less_divisor [of "csz (SBs s fs)" j] d(2) by (auto simp: data_area_def)
  ultimately show ?thesis
    unfolding file_base_def Let_def using d k g f(2-6) by (simp add: word_le_nat_alt)
qed

lemma file_sector:
  assumes "file_base D fs dev xs fp s" "k < nsecs (SBs s fs) xs"
  shows "data_sector (SBs s fs) (fsec (SBs s fs) xs k)" "fsec (SBs s fs) xs k < MAX_DISK_NSECS" "fsec (SBs s fs) xs k \<noteq> winsect (SBs s fs)"
proof -
  note d = file_baseD [OF assms(1) refl refl]
  have "k mod csz (SBs s fs) + 0 \<le> csz (SBs s fs)" using d(2) mod_less_divisor [of "csz (SBs s fs)" k] by (simp add: data_area_def)
  from fsec_facts(3,4) [OF d(2,9) assms(2) this] show "data_sector (SBs s fs) (fsec (SBs s fs) xs k)" "fsec (SBs s fs) xs k < MAX_DISK_NSECS" by simp_all
  show "fsec (SBs s fs) xs k \<noteq> winsect (SBs s fs)" using d(8) assms(2) by blast
qed

lemma pred_block:
  assumes "0 < (c :: nat)"
  shows "k mod c \<noteq> 0 \<Longrightarrow> (k - 1) div c = k div c \<and> Suc ((k - 1) mod c) = k mod c"
    and "k mod c = 0 \<Longrightarrow> 0 < k \<Longrightarrow> Suc ((k - 1) div c) = k div c \<and> Suc ((k - 1) mod c) = c"
proof -
  obtain q r where s: "k = c * q + r" "q = k div c" "r = k mod c" using mult_div_mod_eq [of c k] by metis
  show "(k - 1) div c = k div c \<and> Suc ((k - 1) mod c) = k mod c" if "k mod c \<noteq> 0"
  proof -
    have "r \<noteq> 0" "r < c" using that s(3) assms by simp_all
    then obtain r' where r: "r = Suc r'" "r' < c" by (cases r) simp_all
    then have e: "k - 1 = c * q + r'" using s(1) by simp
    have "(k - 1) div c = q" "(k - 1) mod c = r'" unfolding e using r(2) by simp_all
    then show ?thesis unfolding s(2,3) [symmetric] using r(1) by simp
  qed
  show "Suc ((k - 1) div c) = k div c \<and> Suc ((k - 1) mod c) = c" if "k mod c = 0" "0 < k"
  proof -
    have "r = 0" "0 < k" using that s(3) by simp_all
    then obtain q' where q: "q = Suc q'" using s(1) by (cases q) simp_all
    obtain d where d: "c = Suc d" using assms by (cases c) simp_all
    have e: "k - 1 = c * q' + d" using s(1) \<open>r = 0\<close> q d by simp
    have "(k - 1) div c = q'" "(k - 1) mod c = d" unfolding e using d by (simp_all del: mult_Suc)
    then show ?thesis unfolding s(2) [symmetric] using q d by simp
  qed
qed

section \<open>The next sector\<close>

lemma upd_fp_upd_fp: "upd_fp fp g (upd_fp fp f s) = upd_fp fp (\<lambda>x. g (f x)) s"
  by (simp add: upd_fp_def)

lemma read_sector_ok:
  assumes ok: "file_ok D fs dev xs fp s" and f: "f = FatFiles s fp" and b: "b = SBs s fs"
    and k: "unat (fptr f) = k * 512" "fptr f < fsize f"
  shows "\<exists>t. read_sector fp s = Ret (Some (fsec b xs k), t) \<and> vol_keep D fs dev {} {} s t \<and>
    FatFiles t = (FatFiles s)(fp := f\<lparr>curr_clust := xs ! (k div csz b), sect_clust := of_nat (csz b - k mod csz b)\<rparr>)"
proof -
  note base = file_okD [OF ok]
  note d = file_baseD [OF base b f]
  have z: "0 < csz b" using d(2) by (simp add: data_area_def)
  have kn: "k < nsecs b xs" using d(10) [of "unat (fptr f)"] k by (simp add: word_less_nat_alt)
  then have i: "k div csz b < length xs" by (simp add: less_mult_imp_div_less)
  then have c: "2 \<le> xs ! (k div csz b)" "xs ! (k div csz b) < max_clust b" using d(9) nth_mem by blast+
  have at: "0 < k \<Longrightarrow> at_sector b xs f (k - 1)" "k = 0 \<Longrightarrow> sect_clust f = 1"
  proof -
    have "(k * 512 - 1) div 512 = k - 1" if "0 < k" using that pred_block(2) [of 512 "k * 512"] by simp
    then show "0 < k \<Longrightarrow> at_sector b xs f (k - 1)" "k = 0 \<Longrightarrow> sect_clust f = 1"
      using ok k(1) unfolding file_ok_def Let_def f [symmetric] b [symmetric] by (auto split: if_splits)
  qed
  define s1 where "s1 = upd_fp fp (\<lambda>f. f\<lparr>sect_clust := sect_clust f - 1\<rparr>) s"
  have s1: "vol_keep D fs dev {} {} s s1" unfolding s1_def by (rule vol_upd_fp [OF d(1)])
  show ?thesis
  proof (cases "k mod csz b = 0")
    case False
    then have k0: "0 < k" by (cases k) simp_all
    note p = pred_block(1) [OF z False]
    have a: "curr_clust f = xs ! (k div csz b)" "curr_sect f = fsec b xs (k - 1)" "unat (sect_clust f) = csz b - (k - 1) mod csz b"
      using at(1) [OF k0] p by (simp_all add: at_sector_def)
    have m: "k mod csz b < csz b" using z by simp
    have l: "unat (sect_clust f) = Suc (csz b - k mod csz b)" unfolding a(3) using p m by linarith
    have "sect_clust f = of_nat (Suc (csz b - k mod csz b))" unfolding l [symmetric] by simp
    then have left: "sect_clust f - 1 = of_nat (csz b - k mod csz b)" by simp
    have ne: "sect_clust f - 1 \<noteq> 0"
    proof
      assume "sect_clust f - 1 = 0"
      then have "sect_clust f = 1" by simp
      then show False using l m by simp
    qed
    have "fsec b xs k = fsec b xs (k - 1) + 1"
    proof -
      have "k - 1 < nsecs b xs" "(k - 1) mod csz b + 1 < csz b" using kn p m by simp_all
      then show ?thesis using fsec_facts(2) [OF d(2,9), where k = "k - 1" and j = 1 and xs = xs] k0 by simp
    qed
    then have "read_sector fp s = Ret (Some (fsec b xs k), s1)"
      using ne a(2) by (simp add: read_sector_def Let_def f [symmetric] s1_def upd_fp_def)
    moreover have "f\<lparr>curr_clust := xs ! (k div csz b), sect_clust := v\<rparr> = f\<lparr>sect_clust := v\<rparr>" for v using a(1) by (cases f) simp
    ultimately show ?thesis using s1 left by (simp add: s1_def f [symmetric])
  next
    case True
    have sc: "sect_clust f = 1"
    proof (cases k)
      case (Suc j)
      then have "Suc ((k - 1) mod csz b) = csz b" "unat (sect_clust f) = csz b - (k - 1) mod csz b"
        using pred_block(2) [OF z True] at(1) by (simp_all add: at_sector_def)
      then have "unat (sect_clust f) = 1" by linarith
      then show ?thesis by (simp add: word_unat_eq_iff)
    qed (use at(2) in simp)
    obtain s2 where s2: "(if fptr f = 0 then Ret (org_clust f, s1) else get_cluster fs (curr_clust f) s1) = Ret (xs ! (k div csz b), s2)"
      "vol_keep D fs dev {} {} s1 s2" "FatFiles s2 = FatFiles s1"
    proof (cases "k = 0")
      case True
      then have "org_clust f = xs ! (k div csz b)" using chain_head [OF d(4)] i by auto
      then show ?thesis using that vol_keep_refl [OF vol_keepD(1) [OF s1]] True k(1) by (simp add: unat_eq_zero)
    next
      case False
      note p = pred_block(2) [OF z True] and q = vol_keepD [OF s1]
      have cc: "curr_clust f = xs ! ((k - 1) div csz b)" using at(1) False by (simp add: at_sector_def)
      have j: "Suc ((k - 1) div csz b) < length xs" using p False i by simp
      then have r: "2 \<le> curr_clust f" "curr_clust f < max_clust b" unfolding cc using d(9) nth_mem Suc_lessD by blast+
      have e: "fat_entry fs dev s1 (unat (curr_clust f)) = xs ! (k div csz b)"
        using q(4) [of "unat (curr_clust f)"] r chain_succ [OF d(4) j] p False by (simp add: cc b word_less_nat_alt)
      have "max_clust (SBs s1 fs) = max_clust b" by (simp add: s1_def b)
      then obtain s2 where "get_cluster fs (curr_clust f) s1 = Ret (fat_entry fs dev s1 (unat (curr_clust f)), s2)"
        "vol_keep D fs dev {} {} s1 s2" "FatFiles s2 = FatFiles s1"
        using vol_get_cluster [OF q(1) r(1), of "{}" "{}"] r(2) by auto
      moreover have "fptr f \<noteq> 0" using False k(1) by auto
      ultimately show ?thesis using that e by simp
    qed
    have k2: "vol_keep D fs dev {} {} s s2" using vol_keep_trans [OF s1 s2(2)] by simp
    note g = geom_eqD [OF vol_keepD(2) [OF k2]]
    have cs: "clust2sect (SBs s2 fs) (xs ! (k div csz b)) = fsec b xs k"
    proof -
      have "clust2sect (SBs s2 fs) = clust2sect b" using g by (simp add: fun_eq_iff clust2sect_def b Let_def)
      moreover have "k div csz b * csz b = k" using True by (metis add.right_neutral mult.commute mult_div_mod_eq)
      ultimately show ?thesis using clust2sect_fsec [OF d(2) c] by simp
    qed
    define t where "t = upd_fp fp (\<lambda>f. f\<lparr>curr_clust := xs ! (k div csz b), sect_clust := sects_clust b\<rparr>) s2"
    have "read_sector fp s = Ret (Some (fsec b xs k), t)"
    proof -
      have e: "upd_fp fp (\<lambda>fa. fa\<lparr>sect_clust := sect_clust f - 1\<rparr>) s = s1" by (simp add: s1_def upd_fp_def f)
      show ?thesis unfolding read_sector_def Let_def f [symmetric] d(3) e s2(1) using sc c cs g by (simp add: b t_def not_less not_le)
    qed
    moreover have "vol_keep D fs dev {} {} s t" unfolding t_def using vol_keep_trans [OF k2 vol_upd_fp [OF vol_keepD(1) [OF k2]], of "{}" "{}"] by simp
    ultimately show ?thesis using True by (intro exI [of _ t]) (simp add: t_def s2(3) s1_def f)
  qed
qed

text \<open>What reading leaves of a file object, up to the dirty mark.\<close>

definition file_id :: "FATBase_FILE \<Rightarrow> FATBase_FILE" where
  "file_id f = f\<lparr>fp_flag := fp_flag f AND NOT FA__DIRTY, sect_clust := 0, fptr := 0, curr_clust := 0, curr_sect := 0\<rparr>"

lemma file_id_eqD:
  assumes "file_id g = file_id f"
  shows "fp_fs g = fp_fs f" "org_clust g = org_clust f" "fsize g = fsize f" "fp_id g = fp_id f"
    "fp_flag g AND NOT FA__DIRTY = fp_flag f AND NOT FA__DIRTY"
proof -
  have s: "fp_fs (file_id h) = fp_fs h" "org_clust (file_id h) = org_clust h" "fsize (file_id h) = fsize h" "fp_id (file_id h) = fp_id h"
    "fp_flag (file_id h) = fp_flag h AND NOT FA__DIRTY" for h by (simp_all add: file_id_def)
  show "fp_fs g = fp_fs f" "org_clust g = org_clust f" "fsize g = fsize f" "fp_id g = fp_id f"
    "fp_flag g AND NOT FA__DIRTY = fp_flag f AND NOT FA__DIRTY"
    using s [of g] s [of f] unfolding assms by (simp_all only:)
qed

lemma mask_off:
  fixes x m :: "'a :: len word"
  shows "x AND m = 0 \<Longrightarrow> x AND NOT m = x" "(x AND NOT m) AND m = 0" "(x AND NOT m) AND NOT m = x AND NOT m"
proof -
  show "x AND NOT m = x" if "x AND m = 0"
  proof (rule bit_eqI)
    fix n assume "possible_bit TYPE('a word) n"
    moreover have "\<not> bit (x AND m) n" using that by simp
    ultimately show "bit (x AND NOT m) n = bit x n" by (auto simp: bit_simps)
  qed
qed (rule bit_eqI, auto simp: bit_simps)+

lemma flush_file_ok:
  assumes base: "file_base D fs dev xs fp s" and f: "f = FatFiles s fp" "g = f\<lparr>fp_flag := fp_flag f AND NOT FA__DIRTY\<rparr>"
    and k: "dirty f \<Longrightarrow> \<exists>k < nsecs (SBs s fs) xs. curr_sect f = fsec (SBs s fs) xs k"
  shows "\<exists>t. flush_file fp s = Ret (True, t) \<and> vol_keep D fs dev {} (fsec (SBs s fs) xs ` {..<nsecs (SBs s fs) xs}) s t \<and>
    FatFiles t = (FatFiles s)(fp := g) \<and> (\<forall>j < nsecs (SBs s fs) xs. fview fs dev t (fsec (SBs s fs) xs j) = file_sec fs dev fp xs s j)"
proof (cases "dirty f")
  case False
  then have "g = f" using False f mask_off(1) [of "fp_flag f" "0x40"] by (cases f) (simp add: dirty_def)
  then have "(FatFiles s)(fp := g) = FatFiles s" by (simp add: f(1))
  then show ?thesis using False vol_keep_refl [OF file_baseD(1) [OF base refl refl]]
    by (intro exI [of _ s]) (simp add: flush_file_def dirty_def file_sec_def Let_def f(1) [symmetric])
next
  case True
  note d = file_baseD [OF base refl f(1)]
  obtain k where k: "k < nsecs (SBs s fs) xs" "curr_sect f = fsec (SBs s fs) xs k" using k True by blast
  note x = file_sector [OF base k(1), folded k(2)]
  have buf: "span (fbuf fp) 512 \<inter> cache_mem s = {}" using d(7) by blast
  obtain u where u: "fatbase_disk_write (sb_drive (SBs s fs)) (fbuf fp) (curr_sect f) 1 s = Ret (0, u)" "vol_keep D fs dev {} {curr_sect f} s u"
    "FatFiles u = FatFiles s" "fview fs dev u (curr_sect f) = rdbytes (mem s) (fbuf fp) 512"
    using vol_write [OF d(1) x(2,1,3) buf] by blast
  define t where "t = upd_fp fp (\<lambda>f. f\<lparr>fp_flag := fp_flag f AND NOT FA__DIRTY\<rparr>) u"
  have ut: "vol_keep D fs dev {} {} u t" unfolding t_def by (rule vol_upd_fp [OF vol_keepD(1) [OF u(2)]])
  have "{curr_sect f} \<subseteq> fsec (SBs s fs) xs ` {..<nsecs (SBs s fs) xs}" using k by auto
  then have "vol_keep D fs dev {} (fsec (SBs s fs) xs ` {..<nsecs (SBs s fs) xs}) s t"
    using vol_keep_mono [OF vol_keep_trans [OF u(2) ut]] by simp
  moreover have "flush_file fp s = Ret (True, t)" using True u(1) d(3) by (simp add: flush_file_def dirty_def Let_def f(1) [symmetric] t_def)
  moreover have "fview fs dev t (fsec (SBs s fs) xs j) = file_sec fs dev fp xs s j" if "j < nsecs (SBs s fs) xs" for j
  proof -
    have "fview fs dev t (fsec (SBs s fs) xs j) = fview fs dev u (fsec (SBs s fs) xs j)" by (auto simp: fview_def t_def)
    then show ?thesis using u(4) vol_keepD(5) [OF u(2), of "fsec (SBs s fs) xs j"] file_sector(1) [OF base that] True
      by (auto simp: file_sec_def Let_def f(1) [symmetric])
  qed
  moreover have "FatFiles t = (FatFiles s)(fp := g)" by (simp add: t_def u(3) f)
  ultimately show ?thesis by blast
qed

text \<open>A round of the loop on a sector boundary, up to the transfer: the file stands at its next sector with a clean buffer.\<close>

lemma enter_ok:
  assumes ok: "file_ok D fs dev xs fp s" and f: "f = FatFiles s fp" and b: "b = SBs s fs"
    and k: "unat (fptr f) = k * 512" "fptr f < fsize f"
  shows "\<exists>u v t. read_sector fp s = Ret (Some (fsec b xs k), u) \<and> flush_file fp u = Ret (True, v) \<and>
    t = upd_fp fp (\<lambda>f. f\<lparr>curr_sect := fsec b xs k\<rparr>) v \<and> vol_keep D fs dev {} (fsec b xs ` {..<nsecs b xs}) s t \<and>
    (\<exists>g. FatFiles t = (FatFiles s)(fp := g) \<and> at_sector b xs g k \<and> \<not> dirty g \<and> file_id g = file_id f \<and> fptr g = fptr f) \<and>
    (\<forall>j < nsecs b xs. fview fs dev t (fsec b xs j) = file_sec fs dev fp xs s j)"
proof -
  note base = file_okD [OF ok]
  note d = file_baseD [OF base b f]
  have z: "0 < csz b" using d(2) by (simp add: data_area_def)
  have kn: "k < nsecs b xs" using d(10) [of "unat (fptr f)"] k by (simp add: word_less_nat_alt)
  define g where "g = f\<lparr>curr_clust := xs ! (k div csz b), sect_clust := of_nat (csz b - k mod csz b)\<rparr>"
  obtain u where u: "read_sector fp s = Ret (Some (fsec b xs k), u)" "vol_keep D fs dev {} {} s u" "FatFiles u = (FatFiles s)(fp := g)"
    using read_sector_ok [OF ok f b k] unfolding g_def by blast
  have fb: "fsec (SBs u fs) = fsec b" "sects_clust (SBs u fs) = sects_clust b"
    using data_area_geom(2) [OF vol_keepD(2) [OF u(2)]] geom_eqD(7) [OF vol_keepD(2) [OF u(2)]] by (simp_all add: b)
  have gf: "g = FatFiles u fp" by (simp add: u(3))
  have bu: "file_base D fs dev xs fp u" by (rule file_base_keep [OF base u(2) f gf]) (use d(6) in \<open>simp_all add: g_def\<close>)
  have dk: "\<exists>k < nsecs (SBs u fs) xs. curr_sect g = fsec (SBs u fs) xs k" if "dirty g"
  proof -
    have "dirty f" using that by (simp add: g_def dirty_def)
    then have "at_sector b xs f ((unat (fptr f) - 1) div 512)"
      using ok unfolding file_ok_def Let_def f [symmetric] b [symmetric] by (auto split: if_splits)
    then show ?thesis unfolding fb by (auto simp: at_sector_def g_def)
  qed
  obtain v where v: "flush_file fp u = Ret (True, v)" "vol_keep D fs dev {} (fsec b xs ` {..<nsecs b xs}) u v"
    "FatFiles v = (FatFiles u)(fp := g\<lparr>fp_flag := fp_flag g AND NOT FA__DIRTY\<rparr>)" "\<forall>j < nsecs b xs. fview fs dev v (fsec b xs j) = file_sec fs dev fp xs u j"
    using flush_file_ok [OF bu gf refl] dk unfolding fb by blast
  define t where "t = upd_fp fp (\<lambda>f. f\<lparr>curr_sect := fsec b xs k\<rparr>) v"
  have vt: "vol_keep D fs dev {} {} v t" unfolding t_def by (rule vol_upd_fp [OF vol_keepD(1) [OF v(2)]])
  have st: "vol_keep D fs dev {} (fsec b xs ` {..<nsecs b xs}) s t" using vol_keep_trans [OF vol_keep_trans [OF u(2) v(2)] vt] by simp
  define h where "h = g\<lparr>fp_flag := fp_flag g AND NOT FA__DIRTY, curr_sect := fsec b xs k\<rparr>"
  have ft: "FatFiles t = (FatFiles s)(fp := h)" by (simp add: t_def v(3) u(3) h_def)
  have at: "at_sector b xs h k"
  proof -
    have "csz b < 256" using unsigned_less [of "sects_clust b", where 'a = nat] by simp
    then show ?thesis using kn by (simp add: at_sector_def h_def g_def unsigned_of_nat take_bit_eq_mod)
  qed
  have nd: "\<not> dirty h" "file_id h = file_id f" "fptr h = fptr f"
    using mask_off(2,3) [of "fp_flag f" "0x40"] by (simp_all add: dirty_def h_def g_def file_id_def)
  have "fview fs dev t (fsec b xs j) = file_sec fs dev fp xs s j" if j: "j < nsecs b xs" for j
  proof -
    have "fview fs dev t (fsec b xs j) = file_sec fs dev fp xs u j" using v(4) j by (auto simp: fview_def t_def)
    also have "\<dots> = file_sec fs dev fp xs s j"
    proof -
      have "mem u a = mem s a" if "a \<in> span (fbuf fp) 512" for a using vol_keepD(7) [OF u(2), of a] that d(7) by blast
      then have "rdbytes (mem u) (fbuf fp) 512 = rdbytes (mem s) (fbuf fp) 512" by (rule rdbytes_cong)
      moreover have "fview fs dev u (fsec b xs j) = fview fs dev s (fsec b xs j)"
        using vol_keepD(5) [OF u(2), of "fsec b xs j"] file_sector(1) [OF base] j by (simp add: b)
      ultimately show ?thesis by (simp add: file_sec_def fb b [symmetric] f [symmetric] u(3) Let_def) (auto simp: g_def dirty_def)
    qed
    finally show ?thesis .
  qed
  then show ?thesis using u(1) v(1) st t_def ft at nd by blast
qed

section \<open>Transfers\<close>

text \<open>The effect of reading \<open>c\<close> bytes into \<open>buf\<close>.\<close>

definition delivered :: "ptr set \<Rightarrow> ptr \<Rightarrow> ptr \<Rightarrow> u32 list \<Rightarrow> ptr \<Rightarrow> ptr \<Rightarrow> nat \<Rightarrow> 'a kfat_scheme \<Rightarrow> 'a kfat_scheme \<Rightarrow> bool" where
  "delivered D fs dev xs fp buf c s t \<longleftrightarrow> file_ok D fs dev xs fp t \<and>
     vol_keep D fs dev (span buf c \<union> span (fbuf fp) 512) (fsec (SBs s fs) xs ` {..<nsecs (SBs s fs) xs}) s t \<and>
     (\<forall>g. g \<noteq> fp \<longrightarrow> FatFiles t g = FatFiles s g) \<and> file_id (FatFiles t fp) = file_id (FatFiles s fp) \<and>
     unat (fptr (FatFiles t fp)) = unat (fptr (FatFiles s fp)) + c \<and>
     (\<forall>j < nsecs (SBs s fs) xs. file_sec fs dev fp xs t j = file_sec fs dev fp xs s j) \<and>
     (\<forall>i < c. mem t (buf + of_nat i) = file_byte fs dev fp xs s (unat (fptr (FatFiles s fp)) + i))"

lemma unat_rw_fraction: "unat (rw_fraction pos left) = min (unat left) (512 - unat pos mod 512)"
proof -
  have "unat (pos AND 511) < 512" by (simp add: unat_and_511)
  then have "unat (SS - (pos AND 511)) = 512 - unat pos mod 512" by (simp add: unat_sub word_le_nat_alt unat_and_511)
  then show ?thesis by (auto simp: rw_fraction_def Let_def word_less_nat_alt)
qed

lemma span_sub:
  assumes "k + n \<le> m"
  shows "span (p + of_nat k) n \<subseteq> span p m"
proof
  fix a assume "a \<in> span (p + of_nat k) n"
  then obtain i where "i < n" "a = p + of_nat (k + i)" by (auto simp: span_def add.assoc)
  then show "a \<in> span p m" unfolding span_def using assms by (intro image_eqI [of _ _ "k + i"]) auto
qed

lemma file_sec_same:
  assumes "geom (SBs t fs) = geom (SBs s fs)" "dirty (FatFiles t fp) = dirty (FatFiles s fp)" "curr_sect (FatFiles t fp) = curr_sect (FatFiles s fp)"
    "dirty (FatFiles s fp) \<Longrightarrow> rdbytes (mem t) (fbuf fp) 512 = rdbytes (mem s) (fbuf fp) 512" "fview fs dev t (fsec (SBs s fs) xs j) = fview fs dev s (fsec (SBs s fs) xs j)"
  shows "file_sec fs dev fp xs t j = file_sec fs dev fp xs s j"
  using assms(2-5) data_area_geom(2) [OF assms(1)] by (simp add: file_sec_def Let_def)

lemma read_part_ok:
  assumes base: "file_base D fs dev xs fp s" and f: "f = FatFiles s fp" and b: "b = SBs s fs" and p: "p = unat (fptr f)"
    and at: "at_sector b xs f (p div 512)" and buf: "rdbytes (mem s) (fbuf fp) 512 = file_sec fs dev fp xs s (p div 512)"
    and left: "0 < left" "p + unat left \<le> unat (fsize f)" and rb: "span rb (unat left) \<inter> (span (win fs) 512 \<union> cache_mem s \<union> span (fbuf fp) 512) = {}"
  shows "\<exists>c t. read_part fp (rb, left, got, s) = Ret (Inl (rb + c, left - c, got + c, t)) \<and> 0 < c \<and> c \<le> left \<and> delivered D fs dev xs fp rb (unat c) s t"
proof -
  note d = file_baseD [OF base b f]
  define c where "c = rw_fraction (fptr f) left"
  have uc: "unat c = min (unat left) (512 - p mod 512)" by (simp add: c_def unat_rw_fraction p)
  have c: "0 < unat c" "unat c \<le> unat left" "p mod 512 + unat c \<le> 512" using left(1) uc by (simp_all add: word_less_nat_alt)
  define t1 where "t1 = upd_mem (\<lambda>m. snd (memcpy rb (fbuf fp + (fptr f AND 511)) c m)) s"
  define t where "t = upd_fp fp (\<lambda>f. f\<lparr>fptr := fptr f + c\<rparr>) t1"
  have sp: "span rb (unat c) \<subseteq> span rb (unat left)" using span_sub [of 0 "unat c" "unat left" rb] c(2) by simp
  have m: "mem t a = mem s a" if "a \<notin> span rb (unat c)" for a
    using that by (simp add: t_def t1_def memcpy_def memcpy_loop_other)
  have k1: "vol_keep D fs dev (span rb (unat c)) {} s t1" unfolding t1_def
    by (rule vol_upd_mem [OF d(1)]) (use sp rb in \<open>auto simp: memcpy_def memcpy_loop_other\<close>)
  have k: "vol_keep D fs dev (span rb (unat c)) {} s t"
    using vol_keep_trans [OF k1 vol_upd_fp [OF vol_keepD(1) [OF k1], of "{}" "{}" fp "\<lambda>f. f\<lparr>fptr := fptr f + c\<rparr>"]] by (simp add: t_def)
  have ft: "FatFiles t = (FatFiles s)(fp := f\<lparr>fptr := fptr f + c\<rparr>)" "SBs t = SBs s" by (simp_all add: t_def t1_def f upd_mem_def)
  have up: "unat (fptr f + c) = p + unat c"
  proof -
    have "p + unat c < 2 ^ 32" using c(2) left(2) unsigned_less [of "fsize f", where 'a = nat] by simp
    then show ?thesis by (simp add: p unat_word_ariths)
  qed
  have fb: "rdbytes (mem t) (fbuf fp) 512 = rdbytes (mem s) (fbuf fp) 512" by (rule rdbytes_cong) (use m rb sp in blast)
  have sec: "file_sec fs dev fp xs t j = file_sec fs dev fp xs s j" if "j < nsecs b xs" for j
    by (rule file_sec_same) (use fb vol_keepD(5) [OF k, of "fsec b xs j"] file_sector(1) [OF base] that in \<open>simp_all add: ft f b dirty_def\<close>)
  have b': "file_base D fs dev xs fp t"
    by (rule file_base_keep [OF base k f refl]) (use up c(2) left(2) in \<open>simp_all add: ft\<close>)
  have q1: "(p + unat c - 1) div 512 = p div 512"
    using block_offset(1) [of p 512 "unat c - 1"] c(1,3) by simp
  have q2: "(p + unat c) div 512 = p div 512" if "(p + unat c) mod 512 \<noteq> 0"
  proof -
    have "p mod 512 + unat c \<noteq> 512" using that by (metis mod_add_left_eq mod_self)
    then show ?thesis using block_offset(1) [of p 512 "unat c"] c(3) by simp
  qed
  have k0: "p div 512 < nsecs b xs" using at by (simp add: at_sector_def)
  have ok: "file_ok D fs dev xs fp t"
    unfolding file_ok_def Let_def using b' up c(1) at q1 q2 fb buf sec [OF k0] by (simp add: ft b [symmetric] at_sector_def)
  have "mem t (rb + of_nat i) = file_byte fs dev fp xs s (p + i)" if i: "i < unat c" for i
  proof -
    have off: "fptr f AND 511 = of_nat (p mod 512)" by (simp add: word_unat_eq_iff unat_and_511 p unat_of_nat_u32 less_trans [of _ 512])
    have "span (fbuf fp + (fptr f AND 511)) (unat c) \<subseteq> span (fbuf fp) 512" unfolding off by (rule span_sub) (use c(3) in simp)
    then have "span rb (unat c) \<inter> span (fbuf fp + (fptr f AND 511)) (unat c) = {}" using rb sp by blast
    then have "mem t (rb + of_nat i) = mem s (fbuf fp + (fptr f AND 511) + of_nat i)"
      using memcpy_loop_copied [of "unat c" rb "fbuf fp + (fptr f AND 511)" i "mem s"] i unsigned_less [of c, where 'a = nat]
      by (simp add: t_def t1_def memcpy_def)
    also have "\<dots> = file_sec fs dev fp xs s (p div 512) ! (p mod 512 + i)"
      using rdbytes_nth [of "p mod 512 + i" 512 "mem s" "fbuf fp"] i c(3) by (simp add: buf off add.assoc)
    also have "\<dots> = file_byte fs dev fp xs s (p + i)" using block_offset(1,2) [of p 512 i] i c(3) by (simp add: file_byte_def)
    finally show ?thesis .
  qed
  then have "delivered D fs dev xs fp rb (unat c) s t"
    unfolding delivered_def using ok vol_keep_mono [OF k] sec up
    by (simp add: ft f [symmetric] b [symmetric] p file_id_def)
  moreover have "read_part fp (rb, left, got, s) = Ret (Inl (rb + c, left - c, got + c, t))"
    by (simp add: read_part_def rw_next_def Let_def f [symmetric] c_def [symmetric] t_def t1_def)
  ultimately show ?thesis using c(1,2) by (auto simp: word_less_nat_alt word_le_nat_alt)
qed

lemma concat_length: "(\<And>k. k < n \<Longrightarrow> length (F k) = c) \<Longrightarrow> length (concat (map F [0..<n])) = n * c"
  by (induction n) simp_all

lemma concat_nth: "(\<And>k. k < n \<Longrightarrow> length (F k) = c) \<Longrightarrow> i < n * c \<Longrightarrow> concat (map F [0..<n]) ! i = F (i div c) ! (i mod c)"
proof (induction n)
  case (Suc n)
  have l: "length (concat (map F [0..<n])) = n * c" by (rule concat_length) (simp add: Suc.prems(1))
  show ?case
  proof (cases "i < n * c")
    case True
    then show ?thesis using Suc.IH Suc.prems(1) l by (simp add: nth_append)
  next
    case False
    then obtain j where "i = n * c + j" "j < c" using Suc.prems(2) by (metis add.commute add_less_cancel_left le_add_diff_inverse mult_Suc not_less)
    then show ?thesis using l by (simp add: nth_append)
  qed
qed simp

text \<open>Whole sectors go straight to the caller's memory, as many as the cluster still has.\<close>

lemma read_many_ok:
  assumes base: "file_base D fs dev xs fp s" and f: "f = FatFiles s fp" and b: "b = SBs s fs" and p: "unat (fptr f) = k * 512"
    and at: "at_sector b xs f k" and nd: "\<not> dirty f" and cc: "cc = rw_many fp left s"
    and left: "512 \<le> unat left" "k * 512 + unat left \<le> unat (fsize f)"
    and rb: "span rb (unat left) \<inter> (span (win fs) 512 \<union> cache_mem s \<union> span (fbuf fp) 512) = {}"
  shows "\<exists>t. fatbase_disk_read (sb_drive b) rb (fsec b xs k) (ucast (ucast cc :: u8)) s = Ret (0, t) \<and>
    unat (cc * SS) = unat cc * 512 \<and> 0 < unat cc \<and> unat cc * 512 \<le> unat left \<and>
    delivered D fs dev xs fp rb (unat cc * 512) s (upd_fp fp (\<lambda>f. f\<lparr>fptr := fptr f + cc * SS\<rparr>) (rw_skip fp cc t))"
proof -
  note d = file_baseD [OF base b f]
  have z: "0 < csz b" using d(2) by (simp add: data_area_def)
  have c8: "csz b < 256" using unsigned_less [of "sects_clust b", where 'a = nat] by simp
  have a: "k < nsecs b xs" "curr_clust f = xs ! (k div csz b)" "curr_sect f = fsec b xs k" "unat (sect_clust f) = csz b - k mod csz b"
    using at by (simp_all add: at_sector_def)
  define n where "n = unat cc"
  have n: "n = min (unat left div 512) (csz b - k mod csz b)"
  proof -
    have "unat (ucast (sect_clust f) :: u32) = csz b - k mod csz b" using c8 a(4) by (simp add: unsigned_ucast_eq take_bit_nat_eq_self)
    then show ?thesis by (auto simp: n_def cc rw_many_def Let_def word_less_nat_alt unat_div_distrib f [symmetric])
  qed
  have m: "k mod csz b < csz b" using z by simp
  have n0: "0 < n" "k mod csz b + n \<le> csz b" "n < 256" "n * 512 \<le> unat left"
  proof -
    show "0 < n" "k mod csz b + n \<le> csz b" "n < 256" using n m left(1) c8 by (auto simp: min_def div_greater_zero_iff)
    have "n \<le> unat left div 512" using n by simp
    then show "n * 512 \<le> unat left" by (metis div_times_less_eq_dividend le_trans mult_le_mono1)
  qed
  have nw: "ucast (ucast cc :: u8) = (of_nat n :: u32)"
    using n0(3) by (simp add: n_def word_unat_eq_iff unsigned_ucast_eq unsigned_take_bit_eq take_bit_nat_eq_self)
  have sec: "k + j < nsecs b xs" "fsec b xs (k + j) = fsec b xs k + of_nat j" if "j < n" for j
    using fsec_facts(2) [OF d(2,9) a(1), of j] that n0(2) by simp_all
  have sp: "span rb (n * 512) \<subseteq> span rb (unat left)" using span_sub [of 0 "n * 512" "unat left" rb] n0(4) by simp
  obtain u where u: "fatbase_disk_read (sb_drive b) rb (fsec b xs k) (of_nat n) s = Ret (0, u)" "vol_keep D fs dev (span rb (n * 512)) {} s u"
    "FatFiles u = FatFiles s" "rdbytes (mem u) rb (n * 512) = concat (map (\<lambda>j. fview fs dev s (fsec b xs k + of_nat j)) [0..<n])"
  proof -
    have "unat (fsec b xs k) + n \<le> unat MAX_DISK_NSECS" by (rule fsec_facts(1) [OF d(2,9) a(1) n0(2)])
    moreover have "fsec b xs k + of_nat j \<noteq> winsect (SBs s fs)" if "j < n" for j using sec [OF that] d(8) b by metis
    moreover have "span rb (n * 512) \<inter> (span (win fs) 512 \<union> cache_mem s) = {}" using sp rb by blast
    ultimately show ?thesis using vol_read [OF d(1), of "fsec b xs k" n rb] n0(3) that unfolding b by auto
  qed
  define t where "t = upd_fp fp (\<lambda>f. f\<lparr>fptr := fptr f + cc * SS\<rparr>) (rw_skip fp cc u)"
  have k1: "vol_keep D fs dev (span rb (n * 512)) {} s t"
  proof -
    have "vol_keep D fs dev {} {} u t" unfolding t_def rw_skip_def upd_fp_upd_fp by (rule vol_upd_fp [OF vol_keepD(1) [OF u(2)]])
    from vol_keep_trans [OF u(2) this] show ?thesis by simp
  qed
  have ucs: "unat (cc * SS) = n * 512" using n0(3) by (simp add: n_def unat_word_ariths)
  define g where "g = f\<lparr>sect_clust := sect_clust f - ucast (cc - 1), curr_sect := curr_sect f + (cc - 1), fptr := fptr f + cc * SS\<rparr>"
  have ft: "FatFiles t = (FatFiles s)(fp := g)" by (simp add: t_def rw_skip_def u(3) f g_def)
  have c1: "cc - 1 = of_nat (n - 1)" using n0(1) by (simp add: n_def of_nat_diff Suc_le_eq)
  have up: "unat (fptr g) = (k + n) * 512"
  proof -
    have "unat (fptr f) + unat (cc * SS) < 2 ^ 32"
      using p ucs n0(4) left(2) unsigned_less [of "fsize f", where 'a = nat] by simp
    then show ?thesis using p ucs by (simp add: g_def unat_word_ariths)
  qed
  have atg: "at_sector b xs g (k + n - 1)"
  proof -
    have j: "n - 1 < n" "k + n - 1 = k + (n - 1)" using n0(1) by simp_all
    have o: "(k + (n - 1)) div csz b = k div csz b" "(k + (n - 1)) mod csz b = k mod csz b + (n - 1)"
      using block_offset(1,2) [of k "csz b" "n - 1"] n0(1,2) by simp_all
    have "unat (sect_clust f - ucast (cc - 1)) = csz b - (k mod csz b + (n - 1))"
    proof -
      have e: "unat (ucast (cc - 1) :: u8) = n - 1" using n0(3) by (simp add: c1 unsigned_ucast_eq unsigned_of_nat take_bit_nat_eq_self)
      then have "(ucast (cc - 1) :: u8) \<le> sect_clust f" using a(4) n0(1,2) by (simp add: word_le_nat_alt)
      then show ?thesis using e a(4) by (simp add: unat_sub)
    qed
    then show ?thesis unfolding j(2) using sec [OF j(1)] o a by (simp add: at_sector_def g_def c1)
  qed
  have ndg: "\<not> dirty g" using nd by (simp add: g_def dirty_def)
  have fs': "file_sec fs dev fp xs t j = file_sec fs dev fp xs s j" if "j < nsecs b xs" for j
  proof -
    have "fview fs dev t (fsec b xs j) = fview fs dev s (fsec b xs j)"
      using vol_keepD(5) [OF k1, of "fsec b xs j"] file_sector(1) [OF base] that by (simp add: b)
    then show ?thesis using nd ndg data_area_geom(2) [OF vol_keepD(2) [OF k1]] by (simp add: file_sec_def ft f b)
  qed
  have bt: "file_base D fs dev xs fp t"
    by (rule file_base_keep [OF base k1 f refl]) (use up n0(4) left(2) in \<open>simp_all add: ft g_def\<close>)
  have sb: "fsec (SBs t fs) = fsec b" "sects_clust (SBs t fs) = sects_clust b"
    using data_area_geom(2) [OF vol_keepD(2) [OF k1]] geom_eqD(7) [OF vol_keepD(2) [OF k1]] by (simp_all add: b)
  have "((k + n) * 512 - 1) div 512 = k + n - 1" using pred_block(2) [of 512 "(k + n) * 512"] n0(1) by simp
  then have ok: "file_ok D fs dev xs fp t"
    unfolding file_ok_def Let_def using bt up atg n0(1) by (simp add: ft at_sector_def sb)
  have "mem t (rb + of_nat i) = file_byte fs dev fp xs s (k * 512 + i)" if i: "i < n * 512" for i
  proof -
    have j: "i div 512 < n" using i by (simp add: less_mult_imp_div_less)
    have "mem t (rb + of_nat i) = rdbytes (mem u) rb (n * 512) ! i" using i by (simp add: rdbytes_nth t_def rw_skip_def)
    also have "\<dots> = fview fs dev s (fsec b xs k + of_nat (i div 512)) ! (i mod 512)"
      unfolding u(4) by (rule concat_nth [OF _ i]) (rule fview_length [OF d(1)])
    also have "\<dots> = file_byte fs dev fp xs s (k * 512 + i)"
      using sec [OF j] nd by (simp add: file_byte_def file_sec_def f [symmetric] b [symmetric] Let_def)
    finally show ?thesis .
  qed
  moreover have "file_id g = file_id f" by (simp add: g_def file_id_def)
  ultimately have "delivered D fs dev xs fp rb (n * 512) s t"
    unfolding delivered_def using ok vol_keep_mono [OF k1] fs' up p by (simp add: ft f [symmetric] b [symmetric])
  then show ?thesis using u(1) ucs n0 unfolding t_def nw n_def by blast
qed

section \<open>The loop\<close>

lemma delivered_after:
  assumes base: "file_base D fs dev xs fp s" and k: "vol_keep D fs dev (span (fbuf fp) 512) (fsec (SBs s fs) xs ` {..<nsecs (SBs s fs) xs}) s u"
    and u: "\<forall>g. g \<noteq> fp \<longrightarrow> FatFiles u g = FatFiles s g" "file_id (FatFiles u fp) = file_id (FatFiles s fp)" "fptr (FatFiles u fp) = fptr (FatFiles s fp)"
      "\<forall>j < nsecs (SBs s fs) xs. file_sec fs dev fp xs u j = file_sec fs dev fp xs s j"
    and t: "delivered D fs dev xs fp rb c u t" and c: "unat (fptr (FatFiles s fp)) + c \<le> unat (fsize (FatFiles s fp))"
  shows "delivered D fs dev xs fp rb c s t"
proof -
  note g = geom_eqD(7) [OF vol_keepD(2) [OF k]] data_area_geom(2) [OF vol_keepD(2) [OF k]]
  have "vol_keep D fs dev (span rb c \<union> span (fbuf fp) 512) (fsec (SBs s fs) xs ` {..<nsecs (SBs s fs) xs}) s t"
  proof -
    have "vol_keep D fs dev (span rb c \<union> span (fbuf fp) 512) (fsec (SBs s fs) xs ` {..<nsecs (SBs s fs) xs}) u t"
      using t by (simp add: delivered_def g)
    from vol_keep_mono [OF vol_keep_trans [OF k this]] show ?thesis by blast
  qed
  moreover have "file_byte fs dev fp xs u (unat (fptr (FatFiles s fp)) + i) = file_byte fs dev fp xs s (unat (fptr (FatFiles s fp)) + i)" if "i < c" for i
  proof -
    have "(unat (fptr (FatFiles s fp)) + i) div 512 < nsecs (SBs s fs) xs" by (rule file_baseD(10) [OF base refl refl]) (use that c in simp)
    then show ?thesis using u(4) by (simp add: file_byte_def)
  qed
  ultimately show ?thesis using t u unfolding delivered_def by (simp add: g)
qed

text \<open>The file stands at its sector \<open>k\<close>, as it was before and with nothing left to write back.\<close>

definition entered :: "ptr set \<Rightarrow> ptr \<Rightarrow> ptr \<Rightarrow> u32 list \<Rightarrow> ptr \<Rightarrow> nat \<Rightarrow> 'a kfat_scheme \<Rightarrow> 'a kfat_scheme \<Rightarrow> bool" where
  "entered D fs dev xs fp k s t \<longleftrightarrow> file_base D fs dev xs fp t \<and>
     vol_keep D fs dev (span (fbuf fp) 512) (fsec (SBs s fs) xs ` {..<nsecs (SBs s fs) xs}) s t \<and>
     (\<forall>g. g \<noteq> fp \<longrightarrow> FatFiles t g = FatFiles s g) \<and> file_id (FatFiles t fp) = file_id (FatFiles s fp) \<and>
     fptr (FatFiles t fp) = fptr (FatFiles s fp) \<and> at_sector (SBs t fs) xs (FatFiles t fp) k \<and> \<not> dirty (FatFiles t fp) \<and>
     (\<forall>j < nsecs (SBs s fs) xs. file_sec fs dev fp xs t j = file_sec fs dev fp xs s j)"

lemma entered_delivered:
  assumes "file_base D fs dev xs fp s" "entered D fs dev xs fp k s u" "delivered D fs dev xs fp rb c u t"
    "unat (fptr (FatFiles s fp)) + c \<le> unat (fsize (FatFiles s fp))"
  shows "delivered D fs dev xs fp rb c s t"
  using assms(2) by (intro delivered_after [OF assms(1) _ _ _ _ _ assms(3,4)]) (simp_all add: entered_def)

lemma enter_sector_ok:
  assumes ok: "file_ok D fs dev xs fp s" and k: "unat (fptr (FatFiles s fp)) = k * 512" "fptr (FatFiles s fp) < fsize (FatFiles s fp)"
  shows "\<exists>u v. read_sector fp s = Ret (Some (fsec (SBs s fs) xs k), u) \<and> flush_file fp u = Ret (True, v) \<and>
    entered D fs dev xs fp k s (upd_fp fp (\<lambda>f. f\<lparr>curr_sect := fsec (SBs s fs) xs k\<rparr>) v)"
proof -
  define b where "b = SBs s fs"
  note base = file_okD [OF ok]
  note d = file_baseD [OF base refl refl]
  obtain u v t g where e: "read_sector fp s = Ret (Some (fsec b xs k), u)" "flush_file fp u = Ret (True, v)"
    "t = upd_fp fp (\<lambda>f. f\<lparr>curr_sect := fsec b xs k\<rparr>) v" "vol_keep D fs dev {} (fsec b xs ` {..<nsecs b xs}) s t"
    "FatFiles t = (FatFiles s)(fp := g)" "at_sector b xs g k" "\<not> dirty g" "file_id g = file_id (FatFiles s fp)" "fptr g = fptr (FatFiles s fp)"
    "\<forall>j < nsecs b xs. fview fs dev t (fsec b xs j) = file_sec fs dev fp xs s j"
    using enter_ok [OF ok refl b_def k] by blast
  note gm = vol_keepD(2) [OF e(4), folded b_def]
  note g1 = geom_eqD [OF gm] data_area_geom(2) [OF gm]
  have gf: "g = FatFiles t fp" by (simp add: e(5))
  have "file_base D fs dev xs fp t"
    by (rule file_base_keep [OF base e(4) refl gf]) (use file_id_eqD [OF e(8)] d(6) e(9) in simp_all)
  moreover have "file_sec fs dev fp xs t j = file_sec fs dev fp xs s j" if "j < nsecs b xs" for j
    using e(7,10) that g1 by (simp add: file_sec_def gf [symmetric])
  moreover have "vol_keep D fs dev (span (fbuf fp) 512) (fsec b xs ` {..<nsecs b xs}) s t" by (rule vol_keep_mono [OF e(4)]) simp_all
  moreover have "at_sector (SBs t fs) xs g k" using e(6) g1 by (simp add: at_sector_def)
  ultimately have "entered D fs dev xs fp k s t" using e(7-9) by (simp add: entered_def b_def [symmetric] e(5))
  then show ?thesis using e(1-3) by (auto simp: b_def)
qed

text \<open>Loading the buffer of the file.\<close>

lemma read_load_ok:
  assumes en: "entered D fs dev xs fp k s t"
  shows "\<exists>u. fatbase_disk_read (sb_drive (SBs t fs)) (fbuf fp) (fsec (SBs s fs) xs k) 1 t = Ret (0, u) \<and> entered D fs dev xs fp k s u \<and>
    rdbytes (mem u) (fbuf fp) 512 = file_sec fs dev fp xs u k"
proof -
  let ?b = "SBs t fs" and ?Y = "fsec (SBs s fs) xs ` {..<nsecs (SBs s fs) xs}"
  have e: "file_base D fs dev xs fp t" "vol_keep D fs dev (span (fbuf fp) 512) ?Y s t"
    "\<forall>g. g \<noteq> fp \<longrightarrow> FatFiles t g = FatFiles s g" "file_id (FatFiles t fp) = file_id (FatFiles s fp)" "fptr (FatFiles t fp) = fptr (FatFiles s fp)"
    "at_sector ?b xs (FatFiles t fp) k" "\<not> dirty (FatFiles t fp)" "\<forall>j < nsecs (SBs s fs) xs. file_sec fs dev fp xs t j = file_sec fs dev fp xs s j"
    using en by (simp_all add: entered_def)
  note d = file_baseD [OF e(1) refl refl]
  note g1 = geom_eqD(7) [OF vol_keepD(2) [OF e(2)]] data_area_geom(2) [OF vol_keepD(2) [OF e(2)]]
  have kn: "k < nsecs ?b xs" using e(6) by (simp add: at_sector_def)
  note x = file_sector [OF e(1) kn]
  have "unat (fsec ?b xs k) + 1 \<le> unat MAX_DISK_NSECS" using x(2) by (simp add: word_less_nat_alt)
  then obtain u where u: "fatbase_disk_read (sb_drive ?b) (fbuf fp) (fsec ?b xs k) 1 t = Ret (0, u)"
    "vol_keep D fs dev (span (fbuf fp) 512) {} t u" "FatFiles u = FatFiles t" "rdbytes (mem u) (fbuf fp) 512 = fview fs dev t (fsec ?b xs k)"
    using vol_read [OF d(1), of "fsec ?b xs k" 1 "fbuf fp"] d(7) x(3) by auto
  note g2 = geom_eqD(7) [OF vol_keepD(2) [OF u(2)]] data_area_geom(2) [OF vol_keepD(2) [OF u(2)]]
  have sec: "file_sec fs dev fp xs u j = file_sec fs dev fp xs t j" if "j < nsecs ?b xs" for j
    by (rule file_sec_same)
      (use vol_keepD(2) [OF u(2)] u(3) e(7) vol_keepD(5) [OF u(2), of "fsec ?b xs j"] file_sector(1) [OF e(1) that] in simp_all)
  have "file_base D fs dev xs fp u" by (rule file_base_keep [OF e(1) u(2) refl refl]) (use d(6) u(3) in simp_all)
  moreover have "vol_keep D fs dev (span (fbuf fp) 512) ?Y s u" using vol_keep_trans [OF e(2) u(2)] by simp
  moreover have "at_sector (SBs u fs) xs (FatFiles u fp) k" using e(6) g2 u(3) by (simp add: at_sector_def)
  ultimately have "entered D fs dev xs fp k s u" using e sec g1 u(3) by (simp add: entered_def)
  moreover have "rdbytes (mem u) (fbuf fp) 512 = file_sec fs dev fp xs u k" using u(4) sec [OF kn] e(7) by (simp add: file_sec_def)
  ultimately show ?thesis using u(1) g1 by auto
qed

lemma read_step_ok:
  assumes ok: "file_ok D fs dev xs fp s" and f: "f = FatFiles s fp" and p: "p = unat (fptr f)"
    and left: "0 < left" "p + unat left \<le> unat (fsize f)"
    and rb: "span rb (unat left) \<inter> (span (win fs) 512 \<union> cache_mem s \<union> span (fbuf fp) 512) = {}"
  shows "\<exists>c t. read_body fp (rb, left, got, s) = Ret (Inl (rb + c, left - c, got + c, t)) \<and> 0 < c \<and> c \<le> left \<and> delivered D fs dev xs fp rb (unat c) s t"
proof -
  define b where "b = SBs s fs"
  note base = file_okD [OF ok]
  have a: "fptr f AND 511 = 0 \<longleftrightarrow> p mod 512 = 0" by (simp add: p unat_and_511 [symmetric] unat_eq_zero)
  have l0: "left \<noteq> 0" using left(1) by auto
  show ?thesis
  proof (cases "p mod 512 = 0")
    case False
    have p0: "p \<noteq> 0" using False by (cases p) simp_all
    have "(p - 1) div 512 = p div 512" using pred_block(1) [of 512 p] False by simp
    then have "at_sector b xs f (p div 512)" "rdbytes (mem s) (fbuf fp) 512 = file_sec fs dev fp xs s (p div 512)"
      using ok False p0 unfolding file_ok_def Let_def f [symmetric] p [symmetric] b_def [symmetric] by simp_all
    from read_part_ok [OF base f b_def p this left rb, of got] show ?thesis
      using l0 a False by (simp add: read_body_def f [symmetric])
  next
    case True
    define k where "k = p div 512"
    have k: "unat (fptr f) = k * 512" "fptr f < fsize f"
      using True left by (auto simp: k_def p [symmetric] word_less_nat_alt)
    obtain u v where uv: "read_sector fp s = Ret (Some (fsec b xs k), u)" "flush_file fp u = Ret (True, v)"
      "entered D fs dev xs fp k s (upd_fp fp (\<lambda>f. f\<lparr>curr_sect := fsec b xs k\<rparr>) v)"
      using enter_sector_ok [OF ok, folded f b_def, OF k] by blast
    define t where "t = upd_fp fp (\<lambda>f. f\<lparr>curr_sect := fsec b xs k\<rparr>) v"
    note en = uv(3) [folded t_def]
    have e: "file_base D fs dev xs fp t" "at_sector (SBs t fs) xs (FatFiles t fp) k" "\<not> dirty (FatFiles t fp)" "cache_mem t = cache_mem s"
      "file_id (FatFiles t fp) = file_id f" "fptr (FatFiles t fp) = fptr f" "geom (SBs t fs) = geom b"
      using en by (simp_all add: entered_def f b_def vol_keep_def)
    have sel: "fp_fs (FatFiles t fp) = fs" "fsize (FatFiles t fp) = fsize f" "fsec (SBs t fs) = fsec b"
      using file_baseD(3) [OF e(1) refl refl] file_id_eqD(3) [OF e(5)] data_area_geom(2) [OF e(7)] by simp_all
    have body: "read_body fp (rb, left, got, s) =
      (if left div SS \<noteq> 0
       then kbind (fatbase_disk_read (sb_drive (SBs t fs)) rb (fsec b xs k) (ucast (ucast (rw_many fp left t) :: u8)) t) (\<lambda>(r, s4).
              if r \<noteq> 0 then Ret (Inr (FR_RW_ERROR, got, file_error fp s4))
              else rw_next fp (rw_many fp left t * SS) rb left got (rw_skip fp (rw_many fp left t) s4))
       else kbind (fatbase_disk_read (sb_drive (SBs t fs)) (fbuf fp) (fsec b xs k) 1 t) (\<lambda>(r, s4).
              if r \<noteq> 0 then Ret (Inr (FR_RW_ERROR, got, file_error fp s4)) else read_part fp (rb, left, got, s4)))"
      using l0 a True uv(1,2) by (simp add: read_body_def f [symmetric] t_def [symmetric] sel(1) Let_def)
    show ?thesis
    proof (cases "left div SS \<noteq> 0")
      case big: True
      define cc where "cc = rw_many fp left t"
      have "unat (left div SS) \<noteq> 0" using big by (simp add: unat_eq_zero)
      then have l: "512 \<le> unat left" by (simp add: unat_div_distrib div_eq_0_iff)
      have g: "unat (fptr (FatFiles t fp)) = k * 512" "k * 512 + unat left \<le> unat (fsize (FatFiles t fp))" using k(1) e(6) left(2) sel(2) p by simp_all
      obtain w where w: "fatbase_disk_read (sb_drive (SBs t fs)) rb (fsec b xs k) (ucast (ucast cc :: u8)) t = Ret (0, w)"
        "unat (cc * SS) = unat cc * 512" "0 < unat cc" "unat cc * 512 \<le> unat left"
        "delivered D fs dev xs fp rb (unat cc * 512) t (upd_fp fp (\<lambda>f. f\<lparr>fptr := fptr f + cc * SS\<rparr>) (rw_skip fp cc w))"
        using read_many_ok [OF e(1) refl refl g(1) e(2,3) cc_def l g(2), of rb] rb e(4) unfolding sel(3) by auto
      define t' where "t' = upd_fp fp (\<lambda>f. f\<lparr>fptr := fptr f + cc * SS\<rparr>) (rw_skip fp cc w)"
      have "delivered D fs dev xs fp rb (unat (cc * SS)) s t'"
        unfolding w(2) by (rule entered_delivered [OF base en]) (use w(4,5) left(2) in \<open>simp_all add: f [symmetric] t'_def p\<close>)
      moreover have "read_body fp (rb, left, got, s) = Ret (Inl (rb + cc * SS, left - cc * SS, got + cc * SS, t'))"
        using body big w(1) by (simp add: cc_def [symmetric] rw_next_def t'_def)
      moreover have "0 < cc * SS" "cc * SS \<le> left" using w(2-4) by (simp_all add: word_less_nat_alt word_le_nat_alt)
      ultimately show ?thesis by blast
    next
      case small: False
      obtain w where w: "fatbase_disk_read (sb_drive (SBs t fs)) (fbuf fp) (fsec b xs k) 1 t = Ret (0, w)" "entered D fs dev xs fp k s w"
        "rdbytes (mem w) (fbuf fp) 512 = file_sec fs dev fp xs w k"
        using read_load_ok [OF en] unfolding b_def by blast
      have h: "file_base D fs dev xs fp w" "at_sector (SBs w fs) xs (FatFiles w fp) k" "cache_mem w = cache_mem s"
        "file_id (FatFiles w fp) = file_id f" "p = unat (fptr (FatFiles w fp))"
        using w(2) by (simp_all add: entered_def f vol_keep_def p)
      have kp: "p div 512 = k" by (simp add: k_def)
      obtain c t' where c: "read_part fp (rb, left, got, w) = Ret (Inl (rb + c, left - c, got + c, t'))" "0 < c" "c \<le> left"
        "delivered D fs dev xs fp rb (unat c) w t'"
        using read_part_ok [OF h(1) refl refl h(5) _ _ left(1), of rb got] h(2) w(3) left(2) rb unfolding kp file_id_eqD(3) [OF h(4)] h(3) by blast
      have "delivered D fs dev xs fp rb (unat c) s t'"
        by (rule entered_delivered [OF base w(2) c(4)]) (use c(3) left(2) in \<open>simp add: f [symmetric] p word_le_nat_alt\<close>)
      then show ?thesis using body small w(1) c(1-3) by auto
    qed
  qed
qed

lemma span_add: "span p (a + c) = span p a \<union> span (p + of_nat a) c"
proof -
  have "{..<a + c} = {..<a} \<union> (\<lambda>i. a + i) ` {..<c}"
    using image_add_atLeastLessThan [of a 0 c] by (auto simp: lessThan_atLeast0)
  then show ?thesis by (simp add: span_def image_Un image_image add.assoc)
qed

lemma span_after: "a + c \<le> 2 ^ 32 \<Longrightarrow> i < a \<Longrightarrow> p + of_nat i \<notin> span (p + of_nat a) c"
proof
  assume "a + c \<le> 2 ^ 32" "i < a" "p + of_nat i \<in> span (p + of_nat a) c"
  then obtain j where "j < c" "of_nat i = (of_nat (a + j) :: u32)" by (auto simp: span_def add.assoc)
  then show False using of_nat_u32_inject [of i "a + j"] \<open>a + c \<le> 2 ^ 32\<close> \<open>i < a\<close> by simp
qed

lemma delivered_trans:
  assumes base: "file_base D fs dev xs fp s" and a: "delivered D fs dev xs fp buf a s t" and c: "delivered D fs dev xs fp (buf + of_nat a) c t u"
    and n: "a + c \<le> 2 ^ 32" "unat (fptr (FatFiles s fp)) + (a + c) \<le> unat (fsize (FatFiles s fp))"
    and buf: "span buf (a + c) \<inter> (span (win fs) 512 \<union> cache_mem s \<union> span (fbuf fp) 512) = {}"
  shows "delivered D fs dev xs fp buf (a + c) s u"
proof -
  let ?Y = "fsec (SBs s fs) xs ` {..<nsecs (SBs s fs) xs}" and ?p = "unat (fptr (FatFiles s fp))"
  have ka: "vol_keep D fs dev (span buf a \<union> span (fbuf fp) 512) ?Y s t" using a by (simp add: delivered_def)
  note g = geom_eqD(7) [OF vol_keepD(2) [OF ka]] data_area_geom(2) [OF vol_keepD(2) [OF ka]] and cm = vol_keepD(3) [OF ka]
  have kc: "vol_keep D fs dev (span (buf + of_nat a) c \<union> span (fbuf fp) 512) ?Y t u" using c by (simp add: delivered_def g)
  have k: "vol_keep D fs dev (span buf (a + c) \<union> span (fbuf fp) 512) ?Y s u"
    by (rule vol_keep_mono [OF vol_keep_trans [OF ka kc]]) (auto simp: span_add)
  have bytes: "mem u (buf + of_nat i) = file_byte fs dev fp xs s (?p + i)" if i: "i < a + c" for i
  proof (cases "i < a")
    case True
    have "buf + of_nat i \<in> span buf (a + c)" using i by (auto simp: span_def)
    then have "mem u (buf + of_nat i) = mem t (buf + of_nat i)"
      using vol_keepD(7) [OF kc, of "buf + of_nat i"] span_after [OF n(1) True] buf cm by blast
    then show ?thesis using a True by (simp add: delivered_def)
  next
    case False
    then obtain j where j: "i = a + j" "j < c" using i by (metis add_less_cancel_left le_add_diff_inverse not_less)
    have "(?p + (a + j)) div 512 < nsecs (SBs s fs) xs" by (rule file_baseD(10) [OF base refl refl]) (use j n(2) in simp)
    then have "file_byte fs dev fp xs t (?p + (a + j)) = file_byte fs dev fp xs s (?p + (a + j))"
      using a by (simp add: delivered_def file_byte_def)
    moreover have "mem u (buf + of_nat a + of_nat j) = file_byte fs dev fp xs t (unat (fptr (FatFiles t fp)) + j)"
      using c j by (simp add: delivered_def)
    ultimately show ?thesis using a j(1) by (simp add: delivered_def add.assoc)
  qed
  show ?thesis using a c k bytes unfolding delivered_def by (simp add: g)
qed

lemma delivered_refl: "file_ok D fs dev xs fp s \<Longrightarrow> delivered D fs dev xs fp buf 0 s s"
  using vol_keep_refl [OF file_baseD(1) [OF file_okD refl refl]] by (simp add: delivered_def)

lemma read_loop_ok:
  assumes ok: "file_ok D fs dev xs fp s" and n: "unat (fptr (FatFiles s fp)) + unat left \<le> unat (fsize (FatFiles s fp))"
    and buf: "span buf (unat left) \<inter> (span (win fs) 512 \<union> cache_mem s \<union> span (fbuf fp) 512) = {}"
  shows "\<exists>t. kwhile (read_body fp) (buf, left, 0, s) = Ret (FR_OK, left, t) \<and> delivered D fs dev xs fp buf (unat left) s t"
proof -
  let ?I = "\<lambda>(rb :: ptr, l :: u32, got, t). rb = buf + got \<and> unat got + unat l = unat left \<and> delivered D fs dev xs fp buf (unat got) s t"
  have "\<exists>r. kwhile (read_body fp) (buf, left, 0, s) = Ret r \<and> (\<exists>t. r = (FR_OK, left, t) \<and> delivered D fs dev xs fp buf (unat left) s t)"
  proof (rule kwhile_total [where I = ?I and \<mu> = "\<lambda>(rb, l, got, t). unat l"])
    show "?I (buf, left, 0, s)" using delivered_refl [OF ok] by simp
    fix x assume "?I x"
    then obtain rb l got t where x: "x = (rb, l, got, t)" "rb = buf + got" "unat got + unat l = unat left" "delivered D fs dev xs fp buf (unat got) s t"
      by (cases x) auto
    show "(\<exists>y. read_body fp x = Ret (Inr y) \<and> (\<exists>t. y = (FR_OK, left, t) \<and> delivered D fs dev xs fp buf (unat left) s t)) \<or>
      (\<exists>x'. read_body fp x = Ret (Inl x') \<and> ?I x' \<and> (case x' of (rb, l, got, t) \<Rightarrow> unat l) < (case x of (rb, l, got, t) \<Rightarrow> unat l))"
    proof (cases "l = 0")
      case True
      then have "got = left" using x(3) by (simp add: word_unat_eq_iff)
      then show ?thesis using x True by (simp add: read_body_def)
    next
      case False
      have t: "file_ok D fs dev xs fp t" "file_id (FatFiles t fp) = file_id (FatFiles s fp)" "cache_mem t = cache_mem s"
        "unat (fptr (FatFiles t fp)) = unat (fptr (FatFiles s fp)) + unat got"
        using x(4) by (simp_all add: delivered_def vol_keep_def)
      have sp: "span rb (unat l) \<subseteq> span buf (unat left)" using span_sub [of "unat got" "unat l" "unat left" buf] x(2,3) by simp
      have l: "0 < l" "unat (fptr (FatFiles t fp)) + unat l \<le> unat (fsize (FatFiles t fp))"
        "span rb (unat l) \<inter> (span (win fs) 512 \<union> cache_mem t \<union> span (fbuf fp) 512) = {}"
        using False file_id_eqD(3) [OF t(2)] t(3,4) n x(3) sp buf by (auto simp: word_less_nat_alt unat_gt_0)
      obtain c u where c: "read_body fp x = Ret (Inl (rb + c, l - c, got + c, u))" "0 < c" "c \<le> l" "delivered D fs dev xs fp rb (unat c) t u"
        using read_step_ok [OF t(1) refl refl l, of got] x(1) by blast
      have u: "unat (l - c) = unat l - unat c" "unat (got + c) = unat got + unat c" "unat c \<le> unat l" "0 < unat c"
      proof -
        have "unat got + unat c < 2 ^ 32" using c(3) x(3) unsigned_less [of left, where 'a = nat] by (simp add: word_le_nat_alt)
        then show "unat (l - c) = unat l - unat c" "unat (got + c) = unat got + unat c" "unat c \<le> unat l" "0 < unat c"
          using c(2,3) by (simp_all add: unat_sub unat_word_ariths word_le_nat_alt word_less_nat_alt)
      qed
      have "delivered D fs dev xs fp buf (unat got + unat c) s u"
      proof (rule delivered_trans [OF file_okD [OF ok] x(4)])
        show "delivered D fs dev xs fp (buf + of_nat (unat got)) (unat c) t u" using c(4) x(2) by simp
        have le: "unat got + unat c \<le> unat left" using u x(3) by simp
        then show "unat got + unat c \<le> 2 ^ 32" using unsigned_less [of left, where 'a = nat] by simp
        show "unat (fptr (FatFiles s fp)) + (unat got + unat c) \<le> unat (fsize (FatFiles s fp))" using le n by simp
        have "span buf (unat got + unat c) \<subseteq> span buf (unat left)" using span_sub [of 0 "unat got + unat c" "unat left" buf] le by simp
        then show "span buf (unat got + unat c) \<inter> (span (win fs) 512 \<union> cache_mem s \<union> span (fbuf fp) 512) = {}" using buf by blast
      qed
      then show ?thesis using c(1) u x by (simp add: add.assoc)
    qed
  qed
  then show ?thesis by blast
qed

section \<open>Property\<close>

text \<open>
  C39: reading an open file.  \<^verbatim>\<open>fatbase_read\<close> returns, delivers exactly the bytes of the file from its position, as many
  as were asked for or are left, and moves the position behind them.  The contents of the file, every other data
  sector and all memory but the caller's buffer and the driver's own are as before, and the file can be read on.
\<close>

theorem fatbase_read_correct:
  assumes "file_ok D fs dev xs fp s" "fs \<noteq> NULL" "fp_id (FatFiles s fp) = sb_id (SBs s fs)"
    and "fp_flag (FatFiles s fp) AND FA__ERROR = 0" "fp_flag (FatFiles s fp) AND FA_READ \<noteq> 0"
    and "p = unat (fptr (FatFiles s fp))" "n = min (unat btr) (unat (fsize (FatFiles s fp)) - p)"
    and "span buff n \<inter> (span (win fs) 512 \<union> cache_mem s \<union> span (fbuf fp) 512) = {}"
  shows "\<exists>t. fatbase_read fp buff btr s = Ret (FR_OK, of_nat n, t) \<and> rdbytes (mem t) buff n = take n (drop p (file_data fs dev fp xs s)) \<and>
    unat (fptr (FatFiles t fp)) = p + n \<and> file_ok D fs dev xs fp t \<and> file_data fs dev fp xs t = file_data fs dev fp xs s \<and>
    (\<forall>y. data_sector (SBs s fs) y \<longrightarrow> y \<notin> fsec (SBs s fs) xs ` {..<nsecs (SBs s fs) xs} \<longrightarrow> fview fs dev t y = fview fs dev s y) \<and>
    (\<forall>a. a \<notin> span buff n \<union> span (fbuf fp) 512 \<union> span (win fs) 512 \<union> cache_mem s \<longrightarrow> mem t a = mem s a)"
proof -
  define f where "f = FatFiles s fp"
  define left where "left = (if fsize f - fptr f < btr then fsize f - fptr f else btr)"
  note d = file_baseD [OF file_okD [OF assms(1)] refl f_def]
  have ul: "unat left = n" using d(6) assms(6,7) by (auto simp: left_def f_def unat_sub word_le_nat_alt word_less_nat_alt)
  have val: "validate fs (fp_id f) s = FR_OK"
    using assms(2,3) d(1) by (auto simp: validate_def fatbase_disk_status_def f_def fat_vol_def Let_def)
  obtain t where t: "kwhile (read_body fp) (buff, left, 0, s) = Ret (FR_OK, left, t)" "delivered D fs dev xs fp buff n s t"
  proof -
    have "unat (fptr (FatFiles s fp)) + unat left \<le> unat (fsize (FatFiles s fp))" unfolding ul using d(6) assms(6,7) by (simp add: f_def)
    from read_loop_ok [OF assms(1) this, of buff] show ?thesis using assms(8) that unfolding ul by blast
  qed
  have "fatbase_read fp buff btr s = Ret (FR_OK, of_nat n, t)"
  proof -
    have nl: "of_nat n = left" using ul by auto
    have "fatbase_read fp buff btr s = kwhile (read_body fp) (buff, left, 0, s)"
      unfolding fatbase_read_def Let_def f_def [symmetric] d(3) val left_def using assms(4,5) by (simp add: f_def)
    then show ?thesis unfolding nl using t(1) by simp
  qed
  moreover have sz: "fsize (FatFiles t fp) = fsize f" unfolding f_def by (rule file_id_eqD(3)) (use t(2) in \<open>simp add: delivered_def\<close>)
  moreover have "file_byte fs dev fp xs t i = file_byte fs dev fp xs s i" if "i < unat (fsize f)" for i
    using t(2) d(10) [OF that] by (simp add: delivered_def file_byte_def)
  then have "file_data fs dev fp xs t = file_data fs dev fp xs s" by (simp add: file_data_def sz f_def [symmetric])
  moreover have "rdbytes (mem t) buff n = take n (drop p (file_data fs dev fp xs s))"
  proof (rule nth_equalityI)
    show "length (rdbytes (mem t) buff n) = length (take n (drop p (file_data fs dev fp xs s)))"
      using assms(7) by (simp add: file_data_def)
    fix i assume i: "i < length (rdbytes (mem t) buff n)"
    then have "mem t (buff + of_nat i) = file_byte fs dev fp xs s (p + i)" using t(2) assms(6) by (simp add: delivered_def)
    moreover have "p + i < unat (fsize f)" using i assms(7) by (simp add: f_def less_diff_conv add.commute)
    ultimately show "rdbytes (mem t) buff n ! i = take n (drop p (file_data fs dev fp xs s)) ! i"
      using i by (simp add: rdbytes_nth file_data_def f_def)
  qed
  ultimately show ?thesis using t(2) assms(6) by (auto simp: delivered_def vol_keep_def)
qed

text \<open>A file of 1000 bytes in the clusters 2 and 3 of the sample volume.\<close>

abbreviation (input) sample_fp :: ptr where "sample_fp \<equiv> 0xC03357DC"

definition sample_kread :: kfat where
  "sample_kread = upd_fp sample_fp (\<lambda>f. f\<lparr>fp_id := 1, fp_flag := FA_READ, sect_clust := 1, fp_fs := sample_fs, fsize := 1000, org_clust := 2\<rparr>) sample_kfat"

lemma span_disjoint:
  assumes "n \<le> unat (q - p)" "unat (q - p) + m \<le> 2 ^ 32"
  shows "span p n \<inter> span q m = {}"
proof -
  have False if i: "i < n" "j < m" "p + of_nat i = q + of_nat j" for i j
  proof -
    have "of_nat i = (q - p) + of_nat j" using i(3) by (simp add: algebra_simps)
    then have "of_nat i = (of_nat (unat (q - p) + j) :: u32)" by simp
    then show False using of_nat_u32_inject [of i "unat (q - p) + j"] i assms by simp
  qed
  then show ?thesis by (auto simp: span_def)
qed

lemma sample_kread_buffers:
  "span (fbuf sample_fp) 512 \<inter> (span (win sample_fs) 512 \<union> cache_mem sample_kread) = {}"
  "span 0xC0342000 600 \<inter> (span (win sample_fs) 512 \<union> cache_mem sample_kread \<union> span (fbuf sample_fp) 512) = {}"
proof -
  have "cache_mem sample_kread = cache_mem sample_kfat" by (simp add: sample_kread_def)
  then have c: "cache_mem sample_kread = cache_mem (sample_kbc (\<lambda>_. False))" by (simp add: cache_mem_def sample_kfat_sel sample_kbc_sel)
  have "span (fbuf sample_fp) 512 \<inter> cache_mem sample_kread = {}" "span 0xC0342000 (2 * 512) \<inter> cache_mem sample_kread = {}"
    using sample_kbc_buffer [of 300 1 "\<lambda>_. False"] sample_kbc_buffer [of 400 2 "\<lambda>_. False"] by (simp_all add: c fbuf_def)
  moreover have "span (0xC0342000 :: u32) 600 \<subseteq> span 0xC0342000 (2 * 512)" using span_sub [of 0 600 "2 * 512" "0xC0342000"] by simp
  moreover have "span (win sample_fs) 512 \<inter> span (fbuf sample_fp) 512 = {}" "span (win sample_fs) 512 \<inter> span 0xC0342000 600 = {}"
    "span (fbuf sample_fp) 512 \<inter> span 0xC0342000 600 = {}"
    by (rule span_disjoint; simp add: win_def fbuf_def)+
  ultimately show "span (fbuf sample_fp) 512 \<inter> (span (win sample_fs) 512 \<union> cache_mem sample_kread) = {}"
    "span 0xC0342000 600 \<inter> (span (win sample_fs) 512 \<union> cache_mem sample_kread \<union> span (fbuf sample_fp) 512) = {}" by blast+
qed

lemma sample_kread_ok: "file_ok {sample_dev} sample_fs sample_dev [2, 3] sample_fp sample_kread"
proof -
  have k: "vol_keep {sample_dev} sample_fs sample_dev {} {} sample_kfat sample_kread"
    unfolding sample_kread_def by (rule vol_upd_fp [OF sample_kfat_vol])
  have sb: "SBs sample_kread sample_fs = sample_sb" by (simp add: sample_kread_def sample_kfat_sel)
  have e: "fat_entry sample_fs sample_dev sample_kread 2 = 3" "fat_entry sample_fs sample_dev sample_kread 3 = 0xFFFF"
    using vol_keepD(4) [OF k, of 2] vol_keepD(4) [OF k, of 3] by (simp_all add: sample_kfat_entry sample_kfat_sel sample_sb_def)
  have f: "fptr (FatFiles sample_kread sample_fp) = 0" "fsize (FatFiles sample_kread sample_fp) = 1000" "org_clust (FatFiles sample_kread sample_fp) = 2"
    "fp_fs (FatFiles sample_kread sample_fp) = sample_fs" "sect_clust (FatFiles sample_kread sample_fp) = 1" "\<not> dirty (FatFiles sample_kread sample_fp)"
    by (simp_all add: sample_kread_def sample_kfat_def kfs.defs kfat.defs dirty_def)
  have "file_base {sample_dev} sample_fs sample_dev [2, 3] sample_fp sample_kread"
  proof -
    have "fsec sample_sb [2, 3] j \<noteq> winsect sample_sb" if "j < 2" for j
    proof -
      have "j = 0 \<or> j = 1" using that by arith
      then show ?thesis by (auto simp: fsec_def sample_sb_def)
    qed
    then show ?thesis unfolding file_base_def Let_def sb f using vol_keepD(1) [OF k] e sample_kread_buffers(1)
      by (simp add: sample_sb_def data_area_def)
  qed
  then show ?thesis by (simp add: file_ok_def f)
qed

theorem fatbase_read_correct_witness:
  "\<exists>t. fatbase_read sample_fp 0xC0342000 600 sample_kread = Ret (FR_OK, 600, t) \<and>
    rdbytes (mem t) 0xC0342000 600 = map (\<lambda>i. sample_fat_sector ! (i mod 512)) [0..<600]"
proof -
  have f: "fptr (FatFiles sample_kread sample_fp) = 0" "fsize (FatFiles sample_kread sample_fp) = 1000" "fp_id (FatFiles sample_kread sample_fp) = 1"
    "fp_flag (FatFiles sample_kread sample_fp) = 1" "\<not> dirty (FatFiles sample_kread sample_fp)" "SBs sample_kread sample_fs = sample_sb"
    by (simp_all add: sample_kread_def sample_kfat_def kfs.defs kfat.defs dirty_def)
  have v: "fview sample_fs sample_dev sample_kread x = sample_fat_sector" for x
    using sample_kfat_view [of x] by (auto simp: sample_kread_def fview_def)
  have "file_data sample_fs sample_dev sample_fp [2, 3] sample_kread = map (\<lambda>i. sample_fat_sector ! (i mod 512)) [0..<1000]"
    by (simp add: file_data_def file_byte_def file_sec_def f v Let_def)
  moreover have "take 600 (map F [0..<1000]) = map F [0..<600]" for F :: "nat \<Rightarrow> u8" by (simp add: take_map)
  ultimately show ?thesis
    using fatbase_read_correct [OF sample_kread_ok, of 0 600 600 "0xC0342000"] sample_kread_buffers(2) f
    by (auto simp: sample_sb_def)
qed

end
