(* ===== verification/Vsprintf.thy ===== *)
theory Vsprintf
  imports IDE_Correct Console
begin

text \<open>
  Formatted output, \<^verbatim>\<open>kern/lib/vsprintf.c\<close> (the user library has the same file).  The arguments are the words on the
  stack in order; taking one that is not there is undefined.  Text is stored byte by byte behind \<^verbatim>\<open>str\<close>.  Field widths
  are C integers: a width in the format that does not fit is undefined.
\<close>

abbreviation (input) ZEROPAD :: u32 where "ZEROPAD \<equiv> 1"
abbreviation (input) SIGN :: u32 where "SIGN \<equiv> 2"
abbreviation (input) PLUS :: u32 where "PLUS \<equiv> 4"
abbreviation (input) SPACE :: u32 where "SPACE \<equiv> 8"
abbreviation (input) LEFT :: u32 where "LEFT \<equiv> 16"
abbreviation (input) SPECIAL :: u32 where "SPECIAL \<equiv> 32"
abbreviation (input) SMALL :: u32 where "SMALL \<equiv> 64"

definition is_digit :: "u8 \<Rightarrow> bool" where
  "is_digit c \<longleftrightarrow> 0x30 \<le> c \<and> c \<le> 0x39"

definition skip_atoi_body :: "memory \<Rightarrow> ptr \<times> int \<Rightarrow> (ptr \<times> int + ptr \<times> int) kres" where
  "skip_atoi_body m = (\<lambda>(s, i).
     if \<not> is_digit (m s) then Ret (Inr (s, i))
     else if 0x7FFFFFFF < i * 10 + uint (m s) then Undef
     else Ret (Inl (s + 1, i * 10 + uint (m s) - 0x30)))"

definition skip_atoi :: "memory \<Rightarrow> ptr \<Rightarrow> (ptr \<times> int) kres" where
  "skip_atoi m s = kwhile (skip_atoi_body m) (s, 0)"

section \<open>Numbers\<close>

definition digit_char :: "u32 \<Rightarrow> nat \<Rightarrow> u8" where
  "digit_char type d = (if d < 10 then 0x30 + of_nat d else (if type AND SMALL \<noteq> 0 then 0x57 else 0x37) + of_nat d)"

text \<open>The digits as \<^verbatim>\<open>tmp\<close> holds them, the lowest first.\<close>

function digits_loop :: "u32 \<Rightarrow> u32 \<Rightarrow> u32 \<Rightarrow> u8 list" where
  "digits_loop type base num = (if num = 0 \<or> base < 2 then [] else digit_char type (unat (num mod base)) # digits_loop type base (num div base))"
  by pat_completeness auto
termination
proof (relation "measure (\<lambda>(type, base, num). unat num)")
  fix type base num :: u32
  assume "\<not> (num = 0 \<or> base < 2)"
  then have "0 < unat num" "1 < unat base" by (auto simp: unat_gt_0 word_less_nat_alt)
  then show "((type, base, num div base), type, base, num) \<in> measure (\<lambda>(type, base, num). unat num)" by (simp add: unat_div_distrib)
qed simp

declare digits_loop.simps [simp del]

text \<open>The counter after a loop \<^verbatim>\<open>while (n-- > 0)\<close>.\<close>

definition counted :: "int \<Rightarrow> int" where
  "counted n = (if 0 < n then -1 else n - 1)"

definition number_sign :: "u32 \<Rightarrow> u32 \<Rightarrow> u8 \<times> u32" where
  "number_sign type num =
     (if type AND SIGN \<noteq> 0 \<and> sint num < 0 then (0x2D, - num)
      else (if type AND PLUS \<noteq> 0 then 0x2B else if type AND SPACE \<noteq> 0 then 0x20 else 0, num))"

text \<open>The text \<^verbatim>\<open>number\<close> stores, for a base in its range.\<close>

definition number_text :: "u32 \<Rightarrow> u32 \<Rightarrow> int \<Rightarrow> int \<Rightarrow> u32 \<Rightarrow> u8 list" where
  "number_text num base sz precision type0 =
     (let type = (if type0 AND LEFT \<noteq> 0 then type0 AND NOT ZEROPAD else type0);
          c = (if type AND ZEROPAD \<noteq> 0 then 0x30 else 0x20);
          (sign, num1) = number_sign type num;
          sz1 = (if sign \<noteq> 0 then sz - 1 else sz);
          sz2 = (if type AND SPECIAL \<noteq> 0 then if base = 16 then sz1 - 2 else if base = 8 then sz1 - 1 else sz1 else sz1);
          tmp = (if num1 = 0 then [0x30] else digits_loop type base num1);
          i = int (length tmp);
          precision1 = (if precision < i then i else precision);
          sz3 = sz2 - precision1;
          (pad1, sz4) = (if type AND (ZEROPAD + LEFT) = 0 then (replicate (nat sz3) 0x20, counted sz3) else ([], sz3));
          prefix = (if type AND SPECIAL \<noteq> 0 then if base = 8 then [0x30] else if base = 16 then [0x30, digit_char type 33] else [] else []);
          (pad2, sz5) = (if type AND LEFT = 0 then (replicate (nat sz4) c, counted sz4) else ([], sz4))
      in pad1 @ (if sign \<noteq> 0 then [sign] else []) @ prefix @ pad2 @ replicate (nat (precision1 - i)) 0x30 @ rev tmp @ replicate (nat sz5) 0x20)"

definition number :: "ptr \<Rightarrow> u32 \<Rightarrow> u32 \<Rightarrow> int \<Rightarrow> int \<Rightarrow> u32 \<Rightarrow> memory \<Rightarrow> ptr \<times> memory" where
  "number str num base sz precision type m =
     (if base < 2 \<or> 36 < base then (NULL, m)
      else let t = number_text num base sz precision type in (str + of_nat (length t), wrbytes str t m))"

section \<open>Conversions\<close>

definition va_arg :: "u32 list \<Rightarrow> (u32 \<times> u32 list) kres" where
  "va_arg args = (case args of [] \<Rightarrow> Undef | a # as \<Rightarrow> Ret (a, as))"

definition flag_of :: "u8 \<Rightarrow> u32" where
  "flag_of c = (if c = 0x2D then LEFT else if c = 0x2B then PLUS else if c = 0x20 then SPACE else if c = 0x23 then SPECIAL else if c = 0x30 then ZEROPAD else 0)"

definition flags_body :: "memory \<Rightarrow> ptr \<times> u32 \<Rightarrow> (ptr \<times> u32 + ptr \<times> u32) kres" where
  "flags_body m = (\<lambda>(fmt, flags). let fmt' = fmt + 1; b = flag_of (m fmt')
     in Ret (if b \<noteq> 0 then Inl (fmt', flags OR b) else Inr (fmt', flags)))"

definition parse_width :: "memory \<Rightarrow> ptr \<Rightarrow> u32 \<Rightarrow> u32 list \<Rightarrow> (ptr \<times> int \<times> u32 \<times> u32 list) kres" where
  "parse_width m fmt flags args =
     (if is_digit (m fmt) then kbind (skip_atoi m fmt) (\<lambda>(fmt', w). Ret (fmt', w, flags, args))
      else if m fmt = 0x2A
      then kbind (va_arg args) (\<lambda>(a, args').
             if sint a = - 0x80000000 then Undef
             else if sint a < 0 then Ret (fmt + 1, - sint a, flags OR LEFT, args') else Ret (fmt + 1, sint a, flags, args'))
      else Ret (fmt, -1, flags, args))"

definition parse_precision :: "memory \<Rightarrow> ptr \<Rightarrow> u32 list \<Rightarrow> (ptr \<times> int \<times> u32 list) kres" where
  "parse_precision m fmt args =
     (if m fmt \<noteq> 0x2E then Ret (fmt, -1, args)
      else kbind
        (if is_digit (m (fmt + 1)) then kbind (skip_atoi m (fmt + 1)) (\<lambda>(fmt', p). Ret (fmt', p, args))
         else if m (fmt + 1) = 0x2A then kbind (va_arg args) (\<lambda>(a, args'). Ret (fmt + 2, sint a, args'))
         else Ret (fmt + 1, -1, args))
        (\<lambda>(fmt', p, args'). Ret (fmt', if p < 0 then 0 else p, args')))"

definition skip_qualifier :: "memory \<Rightarrow> ptr \<Rightarrow> ptr" where
  "skip_qualifier m fmt = (if m fmt = 0x68 \<or> m fmt = 0x6C \<or> m fmt = 0x4C then fmt + 1 else fmt)"

text \<open>The counter after a loop \<^verbatim>\<open>while (--n > 0)\<close>.\<close>

definition counted_pre :: "int \<Rightarrow> int" where
  "counted_pre n = (if 0 < n then 0 else n - 1)"

definition char_text :: "u8 \<Rightarrow> int \<Rightarrow> u32 \<Rightarrow> u8 list" where
  "char_text c width flags =
     (let (pad, w) = (if flags AND LEFT = 0 then (replicate (nat (width - 1)) 0x20, counted_pre width) else ([], width))
      in pad @ [c] @ replicate (nat (w - 1)) 0x20)"

text \<open>A string: blanks, then its characters one by one, then blanks.\<close>

definition put_string :: "ptr \<Rightarrow> ptr \<Rightarrow> int \<Rightarrow> int \<Rightarrow> u32 \<Rightarrow> memory \<Rightarrow> (ptr \<times> memory) kres" where
  "put_string str s width precision flags m =
     kbind (kloop (strlen m s)) (\<lambda>len0.
       let len = (if precision < 0 then len0 else if precision < len0 then precision else len0);
           (pad, w) = (if flags AND LEFT = 0 then (replicate (nat (width - len)) 0x20, if len < width then len - 1 else width - 1) else ([], width));
           str1 = str + of_nat (length pad); m1 = wrbytes str pad m;
           str2 = str1 + of_int len; m2 = memcpy_loop str1 s (nat len) m1;
           tail = replicate (nat (w - len)) 0x20
       in Ret (str2 + of_nat (length tail), wrbytes str2 tail m2))"

text \<open>The conversion at \<open>fmt\<close>: the last position of the format it uses, the output position, the arguments left and the memory.\<close>

definition convert :: "ptr \<Rightarrow> ptr \<Rightarrow> int \<Rightarrow> int \<Rightarrow> u32 \<Rightarrow> ptr \<Rightarrow> u32 list \<Rightarrow> memory \<Rightarrow> (ptr \<times> ptr \<times> u32 list \<times> memory) kres" where
  "convert buf fmt width precision flags str args m =
     (let num = (\<lambda>base w fl. kbind (va_arg args) (\<lambda>(a, args'). let (str', m') = number str a base w precision fl m in Ret (fmt, str', args', m')))
      in if m fmt = 0x63 then kbind (va_arg args) (\<lambda>(a, args'). let t = char_text (ucast a) width flags in Ret (fmt, str + of_nat (length t), args', wrbytes str t m))
         else if m fmt = 0x73 then kbind (va_arg args) (\<lambda>(a, args'). kbind (put_string str a width precision flags m) (\<lambda>(str', m'). Ret (fmt, str', args', m')))
         else if m fmt = 0x6F then num 8 width flags
         else if m fmt = 0x70 then if width = -1 then num 16 8 (flags OR ZEROPAD) else num 16 width flags
         else if m fmt = 0x78 then num 16 width (flags OR SMALL)
         else if m fmt = 0x58 then num 16 width flags
         else if m fmt = 0x64 \<or> m fmt = 0x69 then num 10 width (flags OR SIGN)
         else if m fmt = 0x75 then num 10 width flags
         else if m fmt = 0x6E then kbind (va_arg args) (\<lambda>(a, args'). Ret (fmt, str, args', wrbytes a [ucast (str - buf), ucast (drop_bit 8 (str - buf)), ucast (drop_bit 16 (str - buf)), ucast (drop_bit 24 (str - buf))] m))
         else let t = (if m fmt \<noteq> 0x25 then [0x25] else []) @ (if m fmt \<noteq> 0 then [m fmt] else [])
              in Ret (if m fmt \<noteq> 0 then fmt else fmt - 1, str + of_nat (length t), args, wrbytes str t m))"

definition vsprintf_body :: "ptr \<Rightarrow> ptr \<times> ptr \<times> u32 list \<times> memory \<Rightarrow> (ptr \<times> ptr \<times> u32 list \<times> memory + ptr \<times> memory) kres" where
  "vsprintf_body buf = (\<lambda>(fmt, str, args, m).
     if m fmt = 0 then Ret (Inr (str, m))
     else if m fmt \<noteq> 0x25 then Ret (Inl (fmt + 1, str + 1, args, m(str := m fmt)))
     else kbind (kwhile (flags_body m) (fmt, 0)) (\<lambda>(fmt1, flags1).
       kbind (parse_width m fmt1 flags1 args) (\<lambda>(fmt2, width, flags2, args2).
         kbind (parse_precision m fmt2 args2) (\<lambda>(fmt3, precision, args3).
           kbind (convert buf (skip_qualifier m fmt3) width precision flags2 str args3 m) (\<lambda>(fmt4, str', args4, m').
             Ret (Inl (fmt4 + 1, str', args4, m')))))))"

definition vsprintf :: "ptr \<Rightarrow> ptr \<Rightarrow> u32 list \<Rightarrow> memory \<Rightarrow> (u32 \<times> memory) kres" where
  "vsprintf buf fmt args m = kbind (kwhile (vsprintf_body buf) (fmt, buf, args, m)) (\<lambda>(str, m'). Ret (str - buf, m'(str := 0)))"

section \<open>Printing\<close>

text \<open>\<^verbatim>\<open>printk\<close> and \<^verbatim>\<open>printkColor\<close> of \<^verbatim>\<open>kern/krnl/debug/debug.c\<close>: a text in a static buffer, then on the console.\<close>

definition printkColor :: "ptr \<Rightarrow> ptr \<Rightarrow> u16 \<Rightarrow> u16 \<Rightarrow> u32 list \<Rightarrow> memory \<Rightarrow> console \<Rightarrow> (memory \<times> console) kres" where
  "printkColor buf fmt back fore args m c =
     kbind (vsprintf buf fmt args m) (\<lambda>(i, m1).
       let m2 = m1(buf + i := 0) in kbind (kloop (consoleWriteStrColor m2 buf back fore c)) (\<lambda>c'. Ret (m2, c')))"

definition printk :: "ptr \<Rightarrow> ptr \<Rightarrow> u32 list \<Rightarrow> memory \<Rightarrow> console \<Rightarrow> (memory \<times> console) kres" where
  "printk buf fmt args m c =
     kbind (vsprintf buf fmt args m) (\<lambda>(i, m1).
       let m2 = m1(buf + i := 0) in kbind (kloop (consoleWriteStr m2 buf c)) (\<lambda>c'. Ret (m2, c')))"

text \<open>
  The serial port of \<^verbatim>\<open>kern/krnl/debug/serial.c\<close>: \<open>com_lsr\<close> is what each further read of the line status register gives,
  \<open>com_tx\<close> the characters sent, \<open>com_cfg\<close> the values written to the other registers in order.
\<close>

record serial =
  com_lsr :: "nat \<Rightarrow> u8"
  com_reads :: nat
  com_tx :: "u8 list"
  com_cfg :: "(u16 \<times> u8) list"
  SerialExist :: bool

fun serial_wait :: "nat \<Rightarrow> serial \<Rightarrow> serial" where
  "serial_wait 0 s = s\<lparr>com_reads := Suc (com_reads s)\<rparr>"
| "serial_wait (Suc n) s =
     (let s' = s\<lparr>com_reads := Suc (com_reads s)\<rparr> in if com_lsr s (com_reads s) AND 0x20 \<noteq> 0 then s' else serial_wait n s')"

definition serial_putc_sub :: "u8 \<Rightarrow> serial \<Rightarrow> serial" where
  "serial_putc_sub c s = (let s' = serial_wait 12800 s in s'\<lparr>com_tx := com_tx s' @ [c]\<rparr>)"

definition serialPutChar :: "u8 \<Rightarrow> serial \<Rightarrow> serial" where
  "serialPutChar c s = (if c \<noteq> 8 then serial_putc_sub c s else serial_putc_sub 8 (serial_putc_sub 0x20 (serial_putc_sub 8 s)))"

definition serial_body :: "memory \<Rightarrow> ptr \<times> serial \<Rightarrow> (ptr \<times> serial + serial) kres" where
  "serial_body m = (\<lambda>(str, s). Ret (if m str \<noteq> 0 then Inl (str + 1, serialPutChar (m str) s) else Inr s))"

definition serialWriteStr :: "memory \<Rightarrow> ptr \<Rightarrow> serial \<Rightarrow> serial kres" where
  "serialWriteStr m str s = kwhile (serial_body m) (str, s)"

definition sprintk :: "ptr \<Rightarrow> ptr \<Rightarrow> u32 list \<Rightarrow> memory \<Rightarrow> serial \<Rightarrow> (memory \<times> serial) kres" where
  "sprintk buf fmt args m s =
     kbind (vsprintf buf fmt args m) (\<lambda>(i, m1).
       let m2 = m1(buf + i := 0) in kbind (serialWriteStr m2 buf s) (\<lambda>s'. Ret (m2, s')))"

section \<open>Decimal numbers\<close>

definition dec_step :: "int \<Rightarrow> u8 \<Rightarrow> int" where
  "dec_step i c = i * 10 + uint c - 0x30"

lemma digit_char_dec: "d < 10 \<Longrightarrow> is_digit (digit_char type d) \<and> uint (digit_char type d) = int d + 0x30"
proof -
  assume "d < 10"
  then have "d \<in> {0, 1, 2, 3, 4, 5, 6, 7, 8, 9}" by auto
  then show ?thesis by (auto simp: digit_char_def is_digit_def)
qed

lemma digits_loop_dec:
  "list_all is_digit (digits_loop type 10 num) \<and> foldl dec_step 0 (rev (digits_loop type 10 num)) = uint num \<and>
   (\<forall>k. unat num < 10 ^ k \<longrightarrow> length (digits_loop type 10 num) \<le> k)"
proof (induction type "10 :: u32" num rule: digits_loop.induct)
  case (1 type num)
  show ?case
  proof (cases "num = 0")
    case True
    then show ?thesis by (simp add: digits_loop.simps [of type 10])
  next
    case False
    have IH: "list_all is_digit (digits_loop type 10 (num div 10))" "foldl dec_step 0 (rev (digits_loop type 10 (num div 10))) = uint (num div 10)"
      "\<forall>k. unat (num div 10) < 10 ^ k \<longrightarrow> length (digits_loop type 10 (num div 10)) \<le> k"
      using 1 False by auto
    have eq: "digits_loop type 10 num = digit_char type (unat (num mod 10)) # digits_loop type 10 (num div 10)"
      using False by (simp add: digits_loop.simps [of type 10])
    have d: "unat (num mod 10) < 10" by (simp add: unat_mod_distrib)
    have u: "uint (num div 10) = uint num div 10" "uint (num mod 10) = uint num mod 10" by (simp_all add: uint_div_distrib uint_mod_distrib)
    have "foldl dec_step 0 (rev (digits_loop type 10 num)) = uint num"
      using digit_char_dec [OF d, of type] by (simp add: eq IH(2) dec_step_def u)
    moreover have "length (digits_loop type 10 num) \<le> k" if k: "unat num < 10 ^ k" for k
    proof (cases k)
      case 0
      then show ?thesis using k False by (simp add: unat_eq_zero)
    next
      case (Suc j)
      then have "unat (num div 10) < 10 ^ j" using k by (simp add: unat_div_distrib less_mult_imp_div_less mult.commute)
      then show ?thesis using IH(3) Suc by (simp add: eq)
    qed
    ultimately show ?thesis using IH(1) digit_char_dec [OF d, of type] by (simp add: eq)
  qed
qed

lemma dec_step_mono: "list_all is_digit cs \<Longrightarrow> 0 \<le> i \<Longrightarrow> i \<le> foldl dec_step i cs"
proof (induction cs arbitrary: i)
  case (Cons c cs)
  have "0x30 \<le> uint c" using Cons.prems(1) by (simp add: is_digit_def word_le_def)
  then have "i \<le> dec_step i c" using Cons.prems(2) by (simp add: dec_step_def)
  then show ?case using Cons.IH [of "dec_step i c"] Cons.prems by simp
qed simp

text \<open>\<^verbatim>\<open>skip_atoi\<close> reads a run of digits up to the first other character.\<close>

lemma skip_atoi_run:
  assumes "rdbytes m s (length cs) = cs" "list_all is_digit cs" "\<not> is_digit (m (s + of_nat (length cs)))" "0 \<le> i"
    "foldl dec_step i cs + 0x30 \<le> 0x7FFFFFFF"
  shows "kwhile (skip_atoi_body m) (s, i) = Ret (s + of_nat (length cs), foldl dec_step i cs)"
  using assms
proof (induction cs arbitrary: s i)
  case Nil
  then show ?case by (subst kwhile_unfold) (simp add: skip_atoi_body_def)
next
  case (Cons c cs)
  have r: "rdbytes m s (Suc (length cs)) = m s # rdbytes m (s + 1) (length cs)"
    by (simp add: rdbytes_def upt_conv_Cons map_Suc_upt [symmetric] comp_def algebra_simps del: upt_Suc)
  have c: "m s = c" "rdbytes m (s + 1) (length cs) = cs" using Cons.prems(1) r by simp_all
  have dg: "is_digit c" "0x30 \<le> uint c" using Cons.prems(2) by (simp_all add: is_digit_def word_le_def)
  have i: "0 \<le> dec_step i c" using dg(2) Cons.prems(4) by (simp add: dec_step_def)
  have mono: "dec_step i c \<le> foldl dec_step (dec_step i c) cs" by (rule dec_step_mono) (use Cons.prems(2) i in simp_all)
  then have "dec_step i c + 0x30 \<le> 0x7FFFFFFF" using Cons.prems(5) by simp
  then have "\<not> 0x7FFFFFFF < i * 10 + uint c" by (simp add: dec_step_def)
  moreover have "kwhile (skip_atoi_body m) (s + 1, dec_step i c) = Ret (s + 1 + of_nat (length cs), foldl dec_step (dec_step i c) cs)"
    by (rule Cons.IH) (use Cons.prems c(2) i in \<open>simp_all add: add.assoc\<close>)
  ultimately show ?case using c(1) dg(1) by (subst kwhile_unfold) (simp add: skip_atoi_body_def dec_step_def add.assoc)
qed

lemma foldl_zeros: "foldl dec_step 0 (replicate n 0x30) = 0"
  by (induction n) (simp_all add: dec_step_def)

text \<open>The text of a number without sign: blanks, then zeros and digits.\<close>

lemma number_text_dec:
  assumes "sint num \<ge> 0" "type AND (PLUS OR SPACE OR LEFT) = 0"
  shows "\<exists>k cs. number_text num 10 w p type = replicate k 0x20 @ cs \<and> list_all is_digit cs \<and> foldl dec_step 0 cs = uint num \<and>
    (type AND ZEROPAD \<noteq> 0 \<longrightarrow> k = 0) \<and> nat w \<le> k + length cs \<and> nat p \<le> length cs \<and>
    k + length cs \<le> max (nat w) (max (nat p) 10)"
proof -
  have b: "type AND PLUS = 0" "type AND SPACE = 0" "type AND LEFT = 0"
  proof -
    have "type AND m = 0" if m: "m AND (PLUS OR SPACE OR LEFT) = m" for m
    proof -
      have "type AND (m AND (PLUS OR SPACE OR LEFT)) = (type AND (PLUS OR SPACE OR LEFT)) AND m" by (simp only: ac_simps)
      then show ?thesis unfolding m assms(2) by simp
    qed
    then show "type AND PLUS = 0" "type AND SPACE = 0" "type AND LEFT = 0" by simp_all
  qed
  define tmp where "tmp = (if num = 0 then [0x30] else digits_loop type 10 num)"
  have d: "list_all is_digit tmp" "foldl dec_step 0 (rev tmp) = uint num" "length tmp \<le> 10" "tmp \<noteq> []"
  proof -
    note l = digits_loop_dec [of type num]
    have "unat num < 10 ^ 10" using unsigned_less [of num, where 'a = nat] by simp
    then have "length (digits_loop type 10 num) \<le> 10" using l by blast
    moreover have "digits_loop type 10 num \<noteq> []" if "num \<noteq> 0" using that by (simp add: digits_loop.simps [of type 10 num])
    ultimately show "list_all is_digit tmp" "foldl dec_step 0 (rev tmp) = uint num" "length tmp \<le> 10" "tmp \<noteq> []"
      using l by (auto simp: tmp_def is_digit_def dec_step_def)
  qed
  define p1 where "p1 = (if p < int (length tmp) then int (length tmp) else p)"
  have n: "number_sign type num = (0, num)" using assms(1) b by (simp add: number_sign_def)
  define zs where "zs = replicate (nat (p1 - int (length tmp))) (0x30 :: u8)"
  have zd: "list_all is_digit (zs @ rev tmp)" "foldl dec_step 0 (zs @ rev tmp) = uint num" "length (zs @ rev tmp) = nat p1" "nat p \<le> nat p1"
    using d by (auto simp: zs_def foldl_zeros list_all_iff is_digit_def p1_def)
  have ne: "counted x \<le> 0" "nat (counted x) = 0" for x by (simp_all add: counted_def)
  show ?thesis
  proof (cases "type AND ZEROPAD = 0")
    case True
    have zl: "type AND (ZEROPAD + LEFT) = 0"
    proof -
      have "(ZEROPAD + LEFT :: u32) = ZEROPAD OR LEFT" by simp
      then show ?thesis using True b(3) by (simp only: bit.conj_disj_distrib) simp
    qed
    have "number_text num 10 w p type = replicate (nat (w - p1)) 0x20 @ zs @ rev tmp"
      using zl by (auto simp: number_text_def Let_def n b True tmp_def [symmetric] p1_def zs_def counted_def)
    moreover have "nat (w - p1) + nat p1 \<le> max (nat w) (max (nat p) 10)" "nat w \<le> nat (w - p1) + nat p1" using d(3) by (auto simp: p1_def)
    ultimately show ?thesis using zd True by (intro exI [of _ "nat (w - p1)"] exI [of _ "zs @ rev tmp"]) simp
  next
    case False
    have zl: "type AND (ZEROPAD + LEFT) \<noteq> 0"
    proof
      assume "type AND (ZEROPAD + LEFT) = 0"
      then have "(type AND (ZEROPAD + LEFT)) AND ZEROPAD = 0" by simp
      then show False using False by (simp only: and.assoc) simp
    qed
    define cs where "cs = replicate (nat (w - p1)) (0x30 :: u8) @ zs @ rev tmp"
    have "number_text num 10 w p type = cs"
      using zl by (auto simp: number_text_def Let_def n b False tmp_def [symmetric] p1_def zs_def cs_def counted_def)
    moreover have "length cs \<le> max (nat w) (max (nat p) 10)" "nat w \<le> length cs" "nat p \<le> length cs" using d(3) zd(3) by (auto simp: p1_def cs_def)
    moreover have "foldl dec_step 0 cs = uint num" "list_all is_digit cs"
      using zd by (auto simp: cs_def foldl_zeros list_all_iff is_digit_def)
    ultimately show ?thesis by (intro exI [of _ 0] exI [of _ cs]) simp
  qed
qed

section \<open>Property\<close>

lemma cstr_format:
  assumes "cstr m fmt [0x25, 0x2A, 0x2E, 0x2A, 0x75]"
  shows "m fmt = 0x25" "m (fmt + 1) = 0x2A" "m (fmt + 2) = 0x2E" "m (fmt + 3) = 0x2A" "m (fmt + 4) = 0x75" "m (fmt + 5) = 0"
  using assms by (simp_all add: add.assoc)

lemma wrbytes_at: "length t \<le> 2 ^ 32 \<Longrightarrow> rdbytes (wrbytes p t m) p (length t) = t"
  by (rule rdbytes_wrbytes) simp_all

lemma nat_sint_u32:
  fixes x :: u32
  assumes "0 \<le> sint x"
  shows "nat (sint x) = unat x"
proof -
  have e: "sint x = uint x - 4294967296 * of_bool (bit (uint x) 31)"
    using unsigned_less [of x, where 'a = int] by (simp add: sint_uint signed_take_bit_eq_take_bit_minus take_bit_int_eq_self)
  have "uint x < 4294967296" using unsigned_less [of x, where 'a = int] by simp
  then have "sint x = uint x" using assms e by (cases "bit (uint x) 31") simp_all
  then show ?thesis by simp
qed

text \<open>One run of the conversion with width and precision taken from the arguments.\<close>

lemma vsprintf_star_run:
  assumes "cstr m fmt [0x25, 0x2A, 0x2E, 0x2A, 0x75]" "0 \<le> sint w" "0 \<le> sint p" "t = number_text n 10 (sint w) (sint p) 0"
    "wrbytes buf t m (fmt + 5) = 0"
  shows "vsprintf buf fmt [w, p, n] m = Ret (of_nat (length t), (wrbytes buf t m)(buf + of_nat (length t) := 0))"
proof -
  note f = cstr_format [OF assms(1)]
  have "kwhile (flags_body m) (fmt, 0) = Ret (fmt + 1, 0)" by (subst kwhile_unfold) (simp add: flags_body_def Let_def f flag_of_def)
  moreover have "parse_width m (fmt + 1) 0 [w, p, n] = Ret (fmt + 2, sint w, 0, [p, n])"
    using assms(2) by (simp add: parse_width_def f va_arg_def is_digit_def add.assoc)
  moreover have "parse_precision m (fmt + 2) [p, n] = Ret (fmt + 4, sint p, [n])"
    using assms(3) by (simp add: parse_precision_def f va_arg_def is_digit_def add.assoc)
  moreover have "convert buf (skip_qualifier m (fmt + 4)) (sint w) (sint p) 0 buf [n] m = Ret (fmt + 4, buf + of_nat (length t), [], wrbytes buf t m)"
    by (simp add: convert_def skip_qualifier_def f va_arg_def number_def assms(4) [symmetric] Let_def)
  ultimately have "vsprintf_body buf (fmt, buf, [w, p, n], m) = Ret (Inl (fmt + 5, buf + of_nat (length t), [], wrbytes buf t m))"
    by (simp add: vsprintf_body_def f add.assoc)
  moreover have "vsprintf_body buf (fmt + 5, buf + of_nat (length t), [], wrbytes buf t m) = Ret (Inr (buf + of_nat (length t), wrbytes buf t m))"
    by (simp add: vsprintf_body_def assms(5))
  ultimately show ?thesis
    unfolding vsprintf_def by (subst kwhile_unfold, simp, subst kwhile_unfold, simp)
qed



end
