(* ===== verification/Descriptors.thy ===== *)
theory Descriptors
  imports Machine
begin

text \<open>
  Segments and interrupts: the global descriptor table of \<^verbatim>\<open>kern/mm/gdt.c\<close>, and the interrupt descriptor table, the
  handlers and the two interrupt controllers of \<^verbatim>\<open>kern/krnl/idt.c\<close>.  Bit fields are words of their width.  The addresses of
  tables, stacks and interrupt stubs are arguments; loading a table into its register is an assignment.
\<close>

section \<open>Segments\<close>

record SegDesc =
  sd_lim_15_0 :: "16 word"
  sd_base_15_0 :: "16 word"
  sd_base_23_16 :: "8 word"
  sd_type :: "4 word"
  sd_s :: "1 word"
  sd_dpl :: "2 word"
  sd_present :: "1 word"
  sd_lim_19_16 :: "4 word"
  sd_avl :: "1 word"
  sd_reserved :: "1 word"
  sd_db :: "1 word"
  sd_granularity :: "1 word"
  sd_base_31_24 :: "8 word"

text \<open>Of the task state the kernel only uses the stack for entries from user mode.\<close>

record kgdt =
  GDT :: "nat \<Rightarrow> SegDesc"
  ts_esp0 :: u32
  ts_ss0 :: u16
  gdtPtr :: "u16 \<times> u32"
  gdtr :: "u16 \<times> u32"
  task_register :: u16

definition GDT_SetNullSegGate :: "nat \<Rightarrow> kgdt \<Rightarrow> kgdt" where
  "GDT_SetNullSegGate n g = g\<lparr>GDT := (GDT g)(n :=
     \<lparr>sd_lim_15_0 = 0, sd_base_15_0 = 0, sd_base_23_16 = 0, sd_type = 0, sd_s = 0, sd_dpl = 0, sd_present = 0, sd_lim_19_16 = 0,
      sd_avl = 0, sd_reserved = 0, sd_db = 0, sd_granularity = 0, sd_base_31_24 = 0\<rparr>)\<rparr>"

definition GDT_SetSegGate :: "nat \<Rightarrow> u32 \<Rightarrow> u32 \<Rightarrow> u32 \<Rightarrow> u32 \<Rightarrow> kgdt \<Rightarrow> kgdt" where
  "GDT_SetSegGate n type base limit dpl g = g\<lparr>GDT := (GDT g)(n :=
     \<lparr>sd_lim_15_0 = ucast (drop_bit 12 limit AND 0xFFFF), sd_base_15_0 = ucast (base AND 0xFFFF),
      sd_base_23_16 = ucast (drop_bit 16 base AND 0xFF), sd_type = ucast type, sd_s = 1, sd_dpl = ucast dpl, sd_present = 1,
      sd_lim_19_16 = ucast (drop_bit 28 limit), sd_avl = 0, sd_reserved = 0, sd_db = 1, sd_granularity = 1,
      sd_base_31_24 = ucast (drop_bit 24 base)\<rparr>)\<rparr>"

definition GDT_SetSegTSSGate :: "nat \<Rightarrow> u32 \<Rightarrow> u32 \<Rightarrow> u32 \<Rightarrow> u32 \<Rightarrow> kgdt \<Rightarrow> kgdt" where
  "GDT_SetSegTSSGate n type base limit dpl g = g\<lparr>GDT := (GDT g)(n :=
     \<lparr>sd_lim_15_0 = ucast (limit AND 0xFFFF), sd_base_15_0 = ucast (base AND 0xFFFF),
      sd_base_23_16 = ucast (drop_bit 16 base AND 0xFF), sd_type = ucast type, sd_s = 0, sd_dpl = ucast dpl, sd_present = 1,
      sd_lim_19_16 = ucast (drop_bit 16 limit), sd_avl = 0, sd_reserved = 0, sd_db = 1, sd_granularity = 0,
      sd_base_31_24 = ucast (drop_bit 24 base)\<rparr>)\<rparr>"

definition flushTSS :: "u16 \<Rightarrow> kgdt \<Rightarrow> kgdt" where
  "flushTSS sel g = g\<lparr>task_register := sel\<rparr>"

definition load_esp0 :: "u32 \<Rightarrow> kgdt \<Rightarrow> kgdt" where
  "load_esp0 esp0 g = g\<lparr>ts_esp0 := esp0\<rparr>"

text \<open>The size of the array is 48, and the limit is computed as if it were the size of an entry.\<close>

definition initGDT :: "ptr \<Rightarrow> ptr \<Rightarrow> u32 \<Rightarrow> kgdt \<Rightarrow> kgdt" where
  "initGDT gdt_addr ts_addr KernelStack g =
     (let g1 = g\<lparr>gdtPtr := (48 * 6 - 1, gdt_addr)\<rparr>;
          g2 = (load_esp0 KernelStack g1)\<lparr>ts_esp0 := KernelStack, ts_ss0 := 0x10\<rparr>;
          g3 = GDT_SetNullSegGate 0 g2;
          g4 = GDT_SetSegGate 1 (0x8 OR 0x2) 0 0xFFFFFFFF 0 g3;
          g5 = GDT_SetSegGate 2 0x2 0 0xFFFFFFFF 0 g4;
          g6 = GDT_SetSegGate 3 (0x8 OR 0x2) 0 0xFFFFFFFF 3 g5;
          g7 = GDT_SetSegGate 4 0x2 0 0xFFFFFFFF 3 g6;
          g8 = GDT_SetSegTSSGate 5 0x9 ts_addr 104 0 g7;
          g9 = g8\<lparr>gdtr := gdtPtr g8\<rparr>
      in flushTSS 0x28 g9)"

text \<open>How the processor reads a descriptor.\<close>

definition seg_base :: "SegDesc \<Rightarrow> u32" where
  "seg_base d = ucast (sd_base_15_0 d) OR push_bit 16 (ucast (sd_base_23_16 d)) OR push_bit 24 (ucast (sd_base_31_24 d))"

definition seg_limit :: "SegDesc \<Rightarrow> u32" where
  "seg_limit d = (let l = ucast (sd_lim_15_0 d) OR push_bit 16 (ucast (sd_lim_19_16 d))
     in if sd_granularity d = 1 then push_bit 12 l OR 0xFFF else l)"

lemma split_base:
  "(ucast (ucast (x AND 0xFFFF :: u32) :: 16 word) OR push_bit 16 (ucast (ucast (drop_bit 16 x AND 0xFF) :: 8 word)) OR
    push_bit 24 (ucast (ucast (drop_bit 24 x) :: 8 word)) :: u32) = x"
proof -
  have m: "(0xFFFF :: u32) = mask 16" "(0xFF :: u32) = mask 8" by (simp_all add: mask_numeral)
  show ?thesis unfolding m
  proof (rule bit_eqI)
    fix n assume n: "possible_bit TYPE(u32) n"
    consider "n < 16" | "16 \<le> n" "n < 24" | "24 \<le> n" by linarith
    then show "bit (ucast (ucast (x AND mask 16 :: u32) :: 16 word) OR push_bit 16 (ucast (ucast (drop_bit 16 x AND mask 8) :: 8 word)) OR
        push_bit 24 (ucast (ucast (drop_bit 24 x) :: 8 word)) :: u32) n = bit x n"
      by cases (use n in \<open>auto simp: bit_simps possible_bit_word\<close>)
  qed
qed

lemma seg_base_gates:
  "seg_base (GDT (GDT_SetSegGate n type base limit dpl g) n) = base"
  "seg_base (GDT (GDT_SetSegTSSGate n type base limit dpl g) n) = base"
  by (simp_all add: seg_base_def GDT_SetSegGate_def GDT_SetSegTSSGate_def split_base)

text \<open>The flat model: four segments over the whole address space, two of the kernel and two of user programs.\<close>

lemma initGDT_flat:
  assumes "g' = initGDT gdt_addr ts_addr stk g" "n \<in> {1, 2, 3, 4}" "d = GDT g' n"
  shows "seg_base d = 0" "seg_limit d = 0xFFFFFFFF" "sd_present d = 1" "sd_dpl d = (if n < 3 then 0 else 3)"
    "sd_type d = (if odd n then 0xA else 0x2)"
  using assms by (auto simp: initGDT_def Let_def GDT_SetSegGate_def GDT_SetNullSegGate_def GDT_SetSegTSSGate_def flushTSS_def load_esp0_def
      seg_base_def seg_limit_def)

section \<open>Interrupt controllers\<close>

text \<open>
  An 8259A: after the first initialisation word its data port takes three further ones, the first of them the vector of
  its lowest line; later writes set the mask.  Other commands end an interrupt.
\<close>

record pic =
  icw_left :: nat
  vector_base :: u8
  imr :: u8
  eois :: nat

definition pic_command :: "u8 \<Rightarrow> pic \<Rightarrow> pic" where
  "pic_command v p = (if v AND 0x10 \<noteq> 0 then p\<lparr>icw_left := 3, imr := 0\<rparr> else p\<lparr>eois := Suc (eois p)\<rparr>)"

definition pic_data :: "u8 \<Rightarrow> pic \<Rightarrow> pic" where
  "pic_data v p = (if icw_left p = 3 then p\<lparr>icw_left := 2, vector_base := v\<rparr>
     else if icw_left p \<noteq> 0 then p\<lparr>icw_left := icw_left p - 1\<rparr> else p\<lparr>imr := v\<rparr>)"

record IDT_Entry =
  base_low :: u16
  seg_selector :: u16
  always0 :: u8
  idt_flags :: u8
  base_high :: u16

record kidt =
  PIC1 :: pic
  PIC2 :: pic
  idt_entries :: "u8 \<Rightarrow> IDT_Entry"
  idt_ptr :: "u16 \<times> u32"
  idtr :: "u16 \<times> u32"
  interruptHandlers :: "u8 \<Rightarrow> ptr"

definition outb :: "u16 \<Rightarrow> u8 \<Rightarrow> 'a kidt_scheme \<Rightarrow> 'a kidt_scheme" where
  "outb port v s =
     (if port = 0x20 then s\<lparr>PIC1 := pic_command v (PIC1 s)\<rparr> else if port = 0x21 then s\<lparr>PIC1 := pic_data v (PIC1 s)\<rparr>
      else if port = 0xA0 then s\<lparr>PIC2 := pic_command v (PIC2 s)\<rparr> else if port = 0xA1 then s\<lparr>PIC2 := pic_data v (PIC2 s)\<rparr> else s)"

section \<open>The interrupt descriptor table\<close>

definition idtflag :: "bool \<Rightarrow> u8 \<Rightarrow> u8" where
  "idtflag istrap dpl = (if istrap then 0xF else 0xE) OR push_bit 5 (dpl AND 3) OR 0x80"

definition IDT_setGate :: "u8 \<Rightarrow> u32 \<Rightarrow> u16 \<Rightarrow> u8 \<Rightarrow> 'a kidt_scheme \<Rightarrow> 'a kidt_scheme" where
  "IDT_setGate num base sel flags s = s\<lparr>idt_entries := (idt_entries s)(num :=
     \<lparr>base_low = ucast (base AND 0xFFFF), seg_selector = sel, always0 = 0, idt_flags = flags, base_high = ucast (drop_bit 16 base AND 0xFFFF)\<rparr>)\<rparr>"

text \<open>The calls for the vectors 0 to 47: \<open>stub\<close> gives the addresses of \<^verbatim>\<open>isr0\<close> to \<^verbatim>\<open>isr31\<close>, \<^verbatim>\<open>irq0\<close> to \<^verbatim>\<open>irq15\<close> and \<^verbatim>\<open>isr170\<close>.\<close>

fun set_gates :: "(u8 \<Rightarrow> u32) \<Rightarrow> nat list \<Rightarrow> 'a kidt_scheme \<Rightarrow> 'a kidt_scheme" where
  "set_gates stub [] s = s"
| "set_gates stub (n # ns) s = set_gates stub ns (IDT_setGate (of_nat n) (stub (of_nat n)) 0x08 0x8E s)"

definition initIDT :: "ptr \<Rightarrow> (u8 \<Rightarrow> u32) \<Rightarrow> 'a kidt_scheme \<Rightarrow> 'a kidt_scheme" where
  "initIDT idt_addr stub s =
     (let s1 = outb 0xA0 0x11 (outb 0x20 0x11 s);
          s2 = outb 0xA1 0x28 (outb 0x21 0x20 s1);
          s3 = outb 0xA1 0x02 (outb 0x21 0x04 s2);
          s4 = outb 0xA1 0x01 (outb 0x21 0x01 s3);
          s5 = outb 0xA1 0 (outb 0x21 0 s4);
          s6 = s5\<lparr>interruptHandlers := (\<lambda>_. NULL), idt_ptr := (8 * 256 - 1, idt_addr),
                  idt_entries := (\<lambda>_. \<lparr>base_low = 0, seg_selector = 0, always0 = 0, idt_flags = 0, base_high = 0\<rparr>)\<rparr>;
          s7 = set_gates stub [0..<48] s6;
          s8 = IDT_setGate 0xAA (stub 0xAA) 0x08 (idtflag True 3) s7
      in s8\<lparr>idtr := idt_ptr s8\<rparr>)"

definition intrHandlerRegister :: "u8 \<Rightarrow> ptr \<Rightarrow> 'a kidt_scheme \<Rightarrow> 'a kidt_scheme" where
  "intrHandlerRegister n h s = s\<lparr>interruptHandlers := (interruptHandlers s)(n := h)\<rparr>"

definition enableIRQ :: "u8 \<Rightarrow> 'a kidt_scheme \<Rightarrow> 'a kidt_scheme kres" where
  "enableIRQ irq0 s =
     (let irq = irq0 - 32; mask0 = push_bit 8 (ucast (imr (PIC2 s))) + ucast (imr (PIC1 s)) :: u16;
          mask1 = mask0 AND ucast (NOT (push_bit (unat irq) 1 :: u32))
      in if 32 \<le> irq then Undef else Ret (outb 0xA1 (ucast (drop_bit 8 mask1)) (outb 0x21 (ucast mask1) s)))"

text \<open>The older entry points; \<open>call\<close> runs the handler at an address.\<close>

definition ISR_handlerCall :: "(ptr \<Rightarrow> u32 \<Rightarrow> 'a kidt_scheme \<Rightarrow> 'a kidt_scheme kres) \<Rightarrow> u32 \<Rightarrow> 'a kidt_scheme \<Rightarrow> 'a kidt_scheme kres" where
  "ISR_handlerCall call int_no s =
     (if 256 \<le> int_no then Undef
      else let h = interruptHandlers s (ucast int_no) in if h \<noteq> NULL then call h int_no s else Hang)"

definition IRQ_handlerCall :: "(ptr \<Rightarrow> u32 \<Rightarrow> 'a kidt_scheme \<Rightarrow> 'a kidt_scheme kres) \<Rightarrow> u32 \<Rightarrow> 'a kidt_scheme \<Rightarrow> 'a kidt_scheme kres" where
  "IRQ_handlerCall call int_no s =
     (let s1 = outb 0x20 0x20 (if 40 \<le> int_no then outb 0xA0 0x20 s else s)
      in if 256 \<le> int_no then Undef
         else let h = interruptHandlers s1 (ucast int_no) in if h \<noteq> NULL then call h int_no s1 else Ret s1)"

definition gate_base :: "IDT_Entry \<Rightarrow> u32" where
  "gate_base e = ucast (base_low e) OR push_bit 16 (ucast (base_high e))"

lemma split_gate: "(ucast (ucast (x AND 0xFFFF :: u32) :: u16) OR push_bit 16 (ucast (ucast (drop_bit 16 x AND 0xFFFF) :: u16)) :: u32) = x"
proof -
  have m: "(0xFFFF :: u32) = mask 16" by (simp add: mask_numeral)
  show ?thesis unfolding m by (rule bit_eqI) (auto simp: bit_simps possible_bit_word)
qed

lemma set_gates_entries:
  assumes "\<forall>k \<in> set ns. k < 256"
  shows "idt_entries (set_gates stub ns s) n = (if unat n \<in> set ns
    then \<lparr>base_low = ucast (stub n AND 0xFFFF), seg_selector = 0x08, always0 = 0, idt_flags = 0x8E, base_high = ucast (drop_bit 16 (stub n) AND 0xFFFF)\<rparr>
    else idt_entries s n)"
  using assms
proof (induction ns arbitrary: s)
  case (Cons k ns)
  have "(n = of_nat k) = (unat n = k)" using Cons.prems by (auto simp: unsigned_of_nat take_bit_eq_mod)
  then show ?case using Cons by (auto simp: IDT_setGate_def)
qed simp

lemma set_gates_frame: "PIC1 (set_gates stub ns s) = PIC1 s" "PIC2 (set_gates stub ns s) = PIC2 s"
  "interruptHandlers (set_gates stub ns s) = interruptHandlers s" "idt_ptr (set_gates stub ns s) = idt_ptr s"
  by (induction ns arbitrary: s) (simp_all add: IDT_setGate_def)

text \<open>
  After the initialisation the controllers deliver their lines as the vectors 32 to 47, all enabled; the
  vectors 0 to 47 lead to their stubs with the privilege of the kernel, and vector 170 with that of user programs.
\<close>

lemma initIDT_ok:
  fixes s :: "'a kidt_scheme"
  assumes "t = initIDT idt_addr stub s"
  shows "vector_base (PIC1 t) = 32" "vector_base (PIC2 t) = 40" "imr (PIC1 t) = 0" "imr (PIC2 t) = 0" "icw_left (PIC1 t) = 0" "icw_left (PIC2 t) = 0"
    "n < 48 \<or> n = 0xAA \<Longrightarrow> gate_base (idt_entries t n) = stub n" "n < 48 \<Longrightarrow> idt_flags (idt_entries t n) = 0x8E"
    "idt_flags (idt_entries t 0xAA) = 0xEF" "48 \<le> n \<Longrightarrow> n \<noteq> 0xAA \<Longrightarrow> idt_flags (idt_entries t n) = 0" "idtr t = (2047, idt_addr)"
proof -
  note defs = assms initIDT_def Let_def outb_def pic_command_def pic_data_def set_gates_frame IDT_setGate_def
  show "vector_base (PIC1 t) = 32" "vector_base (PIC2 t) = 40" "imr (PIC1 t) = 0" "imr (PIC2 t) = 0" "icw_left (PIC1 t) = 0" "icw_left (PIC2 t) = 0"
    "idtr t = (2047, idt_addr)"
    by (simp_all add: defs)
  have e: "idt_entries t n = (if n = 0xAA then \<lparr>base_low = ucast (stub n AND 0xFFFF), seg_selector = 0x08, always0 = 0, idt_flags = 0xEF, base_high = ucast (drop_bit 16 (stub n) AND 0xFFFF)\<rparr>
      else if n < 48 then \<lparr>base_low = ucast (stub n AND 0xFFFF), seg_selector = 0x08, always0 = 0, idt_flags = 0x8E, base_high = ucast (drop_bit 16 (stub n) AND 0xFFFF)\<rparr>
      else \<lparr>base_low = 0, seg_selector = 0, always0 = 0, idt_flags = 0, base_high = 0\<rparr>)" for n
    by (simp add: defs set_gates_entries idtflag_def word_less_nat_alt del: upt_rec_numeral)
  show "n < 48 \<or> n = 0xAA \<Longrightarrow> gate_base (idt_entries t n) = stub n" by (auto simp: e gate_base_def split_gate)
  show "n < 48 \<Longrightarrow> idt_flags (idt_entries t n) = 0x8E" "48 \<le> n \<Longrightarrow> n \<noteq> 0xAA \<Longrightarrow> idt_flags (idt_entries t n) = 0"
    "idt_flags (idt_entries t 0xAA) = 0xEF" by (auto simp: e)
qed

end
