(* ===== verification/Kernel_Elf.thy ===== *)
theory Kernel_Elf
  imports Vsprintf Descriptors
begin

text \<open>
  The kernel's own symbol table (\<^verbatim>\<open>kern/krnl/elf.c\<close>) and the trace of return addresses that a panic prints
  (\<^verbatim>\<open>kern/krnl/debug/debug.c\<close>).  The tables are where the boot loader left them in memory: a section header has 40 bytes, a symbol 16.
  The serial port's initialisation is here too, because it enables an interrupt and prints.  String literals are at addresses given as arguments.
\<close>

record DebugELF =
  symtab :: ptr
  symtabsz :: u32
  strtab :: ptr
  strtabsz :: u32

text \<open>The section header \<open>sh\<close> with its name at \<open>name\<close>; \<open>lits\<close> are the addresses of the literals \<^verbatim>\<open>.strtab\<close> and \<^verbatim>\<open>.symtab\<close>.\<close>

definition elf_strtab :: "memory \<Rightarrow> ptr \<Rightarrow> DebugELF \<Rightarrow> DebugELF" where
  "elf_strtab m sh e = e\<lparr>strtab := ld32 m (sh + 12) + KERNEL_BASE, strtabsz := ld32 m (sh + 20)\<rparr>"

definition elf_symtab :: "memory \<Rightarrow> ptr \<Rightarrow> DebugELF \<Rightarrow> DebugELF" where
  "elf_symtab m sh e =
     (if symtab e \<le> KERNEL_BASE then e\<lparr>symtab := ld32 m (sh + 12) + KERNEL_BASE, symtabsz := ld32 m (sh + 20)\<rparr>
      else e\<lparr>symtab := ld32 m (sh + 12), symtabsz := ld32 m (sh + 20)\<rparr>)"

definition elf_take :: "ptr \<times> ptr \<Rightarrow> memory \<Rightarrow> ptr \<Rightarrow> ptr \<Rightarrow> DebugELF \<Rightarrow> DebugELF kres" where
  "elf_take lits m sh name e =
     kbind (strcmp m name (fst lits)) (\<lambda>c1.
       let e1 = (if c1 = 0 then elf_strtab m sh e else e)
       in kbind (strcmp m name (snd lits)) (\<lambda>c2. Ret (if c2 = 0 then elf_symtab m sh e1 else e1)))"

fun elf_loop :: "ptr \<times> ptr \<Rightarrow> memory \<Rightarrow> ptr \<Rightarrow> nat \<Rightarrow> ptr \<Rightarrow> DebugELF \<Rightarrow> DebugELF kres" where
  "elf_loop lits m shstrtab 0 sh e = Ret e"
| "elf_loop lits m shstrtab (Suc n) sh e =
     kbind (elf_take lits m sh (shstrtab + ld32 m sh + KERNEL_BASE) e) (\<lambda>e1. elf_loop lits m shstrtab n (sh + 40) e1)"

definition MultiBootGetELF :: "ptr \<times> ptr \<Rightarrow> memory \<Rightarrow> ptr \<Rightarrow> DebugELF \<Rightarrow> DebugELF kres" where
  "MultiBootGetELF lits m mb out_elf =
     (let sh = ld32 m (mb + 36); shstrtab = ld32 m (sh + ld32 m (mb + 40) * 40 + 12)
      in elf_loop lits m shstrtab (unat (ld32 m (mb + 28))) sh out_elf)"

text \<open>Lookup of the function that contains an address.\<close>

definition symbol_covers :: "memory \<Rightarrow> u32 \<Rightarrow> ptr \<Rightarrow> bool" where
  "symbol_covers m addr p \<longleftrightarrow> ld32 m (p + 4) \<le> addr \<and> addr < ld32 m (p + 4) + ld32 m (p + 8)"

fun symbol_loop :: "memory \<Rightarrow> ptr \<Rightarrow> u32 \<Rightarrow> nat \<Rightarrow> ptr \<Rightarrow> ptr" where
  "symbol_loop m elfstrtab addr 0 p = NULL"
| "symbol_loop m elfstrtab addr (Suc n) p =
     (if m (p + 12) AND 0xF \<noteq> 2 then symbol_loop m elfstrtab addr n (p + 16)
      else if symbol_covers m addr p then elfstrtab + ld32 m p
      else symbol_loop m elfstrtab addr n (p + 16))"

definition ELF_SymbolLookup :: "u32 \<Rightarrow> DebugELF \<Rightarrow> memory \<Rightarrow> ptr" where
  "ELF_SymbolLookup addr elf m = symbol_loop m (strtab elf) addr (unat (symtabsz elf div 16)) (symtab elf)"

text \<open>The trace follows the chain of saved frame pointers; it ends at a zero.\<close>

definition trace_body :: "ptr \<Rightarrow> ptr \<times> ptr \<Rightarrow> DebugELF \<Rightarrow> ptr \<times> memory \<times> console \<Rightarrow> (ptr \<times> memory \<times> console + memory \<times> console) kres" where
  "trace_body buf fmts elf = (\<lambda>(ebp, m, c).
     if ebp = NULL then Ret (Inr (m, c))
     else let eip = ld32 m (ebp + 4); symbol = ELF_SymbolLookup eip elf m
          in kbind (if symbol \<noteq> NULL then printk buf (fst fmts) [eip, symbol] m c else printk buf (snd fmts) [eip] m c)
               (\<lambda>(m1, c1). Ret (Inl (ld32 m1 ebp, m1, c1))))"

definition printStackTrace :: "ptr \<Rightarrow> ptr \<times> ptr \<Rightarrow> DebugELF \<Rightarrow> ptr \<Rightarrow> memory \<Rightarrow> console \<Rightarrow> (memory \<times> console) kres" where
  "printStackTrace buf fmts elf ebp0 m c = kwhile (trace_body buf fmts elf) (ebp0, m, c)"

text \<open>The initialisation of the serial port: its registers, then its interrupt when the port exists.\<close>

definition initDebugSerial :: "ptr \<Rightarrow> ptr \<Rightarrow> ptr \<times> ptr \<Rightarrow> memory \<Rightarrow> console \<Rightarrow> serial \<Rightarrow> 'a kidt_scheme \<Rightarrow>
    (memory \<times> console \<times> serial \<times> 'a kidt_scheme) kres" where
  "initDebugSerial buf fmt lits m c sp s =
     (let sp1 = sp\<lparr>com_cfg := com_cfg sp @ [(0x3FA, 0), (0x3FB, 0x80), (0x3F8, 12), (0x3F9, 0), (0x3FB, 0x03 AND NOT 0x80), (0x3FC, 0), (0x3F9, 0x01)]\<rparr>;
          sp2 = sp1\<lparr>SerialExist := com_lsr sp1 (com_reads sp1) \<noteq> 0xFF, com_reads := Suc (com_reads sp1)\<rparr>
      in kbind (if SerialExist sp2 then enableIRQ 36 s else Ret s) (\<lambda>s1.
           kbind (printk buf fmt [if SerialExist sp2 then fst lits else snd lits] m c) (\<lambda>(m1, c1). Ret (m1, c1, sp2, s1))))"

section \<open>What a lookup returns\<close>

definition function_at :: "memory \<Rightarrow> u32 \<Rightarrow> ptr \<Rightarrow> bool" where
  "function_at m addr p \<longleftrightarrow> m (p + 12) AND 0xF = 2 \<and> symbol_covers m addr p"

lemma symbol_loop_find:
  "symbol_loop m st addr n p =
     (case find (\<lambda>i. function_at m addr (p + of_nat i * 16)) [0..<n] of None \<Rightarrow> NULL | Some i \<Rightarrow> st + ld32 m (p + of_nat i * 16))"
proof (induction n arbitrary: p)
  case (Suc n)
  have "find (\<lambda>i. function_at m addr (p + of_nat i * 16)) (map Suc [0..<n]) =
      map_option Suc (find (\<lambda>i. function_at m addr (p + 16 + of_nat i * 16)) [0..<n])"
    by (simp add: find_map o_def add.assoc ring_distribs)
  then show ?case using Suc [of "p + 16"]
    by (auto simp: upt_conv_Cons function_at_def map_Suc_upt [symmetric] simp del: map_Suc_upt upt_Suc split: option.splits simp: ring_distribs add.assoc)
qed simp

text \<open>The name is that of the first function symbol around the address; without one there is no name.\<close>

lemma ELF_SymbolLookup_first:
  assumes "i < unat (symtabsz elf div 16)" "function_at m addr (symtab elf + of_nat i * 16)"
    and "\<forall>j < i. \<not> function_at m addr (symtab elf + of_nat j * 16)"
  shows "ELF_SymbolLookup addr elf m = strtab elf + ld32 m (symtab elf + of_nat i * 16)"
proof -
  have "find (\<lambda>i. function_at m addr (symtab elf + of_nat i * 16)) [0..<unat (symtabsz elf div 16)] = Some i"
    using assms by (simp add: find_Some_iff) (intro exI [of _ i]; simp)
  then show ?thesis by (simp add: ELF_SymbolLookup_def symbol_loop_find)
qed

lemma ELF_SymbolLookup_none:
  assumes "\<forall>i < unat (symtabsz elf div 16). \<not> function_at m addr (symtab elf + of_nat i * 16)"
  shows "ELF_SymbolLookup addr elf m = NULL"
proof -
  have "find (\<lambda>i. function_at m addr (symtab elf + of_nat i * 16)) [0..<unat (symtabsz elf div 16)] = None"
    using assms by (simp add: find_None_iff)
  then show ?thesis by (simp add: ELF_SymbolLookup_def symbol_loop_find)
qed

end
