(* ===== verification/Bucket.thy ===== *)
theory Bucket
  imports Machine
begin

text \<open>
  The bucket allocator of \<^verbatim>\<open>kern/mm/kmalloc.c\<close> (\<^verbatim>\<open>doKmalloc\<close>, \<^verbatim>\<open>doKfree\<close>), which the kernel keeps beside the page
  allocator in use.  Buckets and the free blocks of their pages live in memory: a bucket is four words (size, page, next bucket,
  first free block), a free block starts with the address of the next one.  The heads of the eight bucket lists and of the list of
  unused buckets are static variables, whose addresses are components of the state.
\<close>

record kbucket = kmach +
  BucketTable :: ptr
  BucketFreeList :: ptr
  InitBucketCount :: nat

abbreviation (input) bk_size :: "ptr \<Rightarrow> ptr" where "bk_size b \<equiv> b"
abbreviation (input) bk_page :: "ptr \<Rightarrow> ptr" where "bk_page b \<equiv> b + 4"
abbreviation (input) bk_next :: "ptr \<Rightarrow> ptr" where "bk_next b \<equiv> b + 8"
abbreviation (input) bk_entry :: "ptr \<Rightarrow> ptr" where "bk_entry b \<equiv> b + 12"
abbreviation (input) sizeof_Bucket_t :: u32 where "sizeof_Bucket_t \<equiv> 16"

definition wrmem :: "(memory \<Rightarrow> memory) \<Rightarrow> 'a kbucket_scheme \<Rightarrow> 'a kbucket_scheme" where
  "wrmem g s = s\<lparr>mem := g (mem s)\<rparr>"

text \<open>A fresh page, as a kernel address.\<close>

definition heap_pages :: "u32 \<Rightarrow> 'a kbucket_scheme \<Rightarrow> (ptr \<times> 'a kbucket_scheme) kres" where
  "heap_pages n s = kbind (allocPhyPages n s) (\<lambda>(page, s1).
     case page of None \<Rightarrow> Undef | Some p \<Rightarrow> Ret (page2pa p + KERNEL_BASE, s1))"

text \<open>The loop that splits a page into unused buckets.\<close>

definition split_body :: "ptr \<Rightarrow> ptr \<times> ptr \<times> memory \<Rightarrow> (ptr \<times> ptr \<times> memory + memory) kres" where
  "split_body page_end = (\<lambda>(p, q, m).
     if p < page_end
     then let p' = p + sizeof_Bucket_t in Ret (Inl (p', p', st32 (bk_next p') 0 (st32 (bk_next q) p' m)))
     else Ret (Inr m))"

definition allocBucket :: "'a kbucket_scheme \<Rightarrow> (ptr \<times> 'a kbucket_scheme) kres" where
  "allocBucket s =
     kbind (if ld32 (mem s) (bk_next (BucketFreeList s)) = 0
            then kbind (heap_pages 1 s) (\<lambda>(page_addr, s1).
                   kbind (kwhile (split_body (page_addr + PGSIZE)) (page_addr, BucketFreeList s1, mem s1)) (\<lambda>m. Ret (s1\<lparr>mem := m\<rparr>)))
            else Ret s) (\<lambda>s2.
       let p = ld32 (mem s2) (bk_next (BucketFreeList s2))
       in Ret (p, wrmem (st32 (bk_next (BucketFreeList s2)) (ld32 (mem s2) (bk_next p))) s2))"

fun link_blocks :: "nat list \<Rightarrow> ptr \<Rightarrow> u32 \<Rightarrow> ptr \<Rightarrow> memory \<Rightarrow> memory" where
  "link_blocks [] page_addr sz q m = m"
| "link_blocks (i # is) page_addr sz q m =
     (let p = page_addr + of_nat i * sz in link_blocks is page_addr sz p (st32 p 0 (st32 q p m)))"

definition initBucket :: "ptr \<Rightarrow> u32 \<Rightarrow> 'a kbucket_scheme \<Rightarrow> (int \<times> 'a kbucket_scheme) kres" where
  "initBucket bk sz s =
     kbind (heap_pages 1 s) (\<lambda>(page_addr, s1).
       if sz = 0 then Undef
       else Ret (0, wrmem (\<lambda>m. link_blocks [0..<4096 div unat sz] page_addr sz page_addr
              (st32 (bk_entry bk) page_addr (st32 (bk_size bk) sz (st32 (bk_page bk) page_addr m)))) s1))"

text \<open>The two loops of \<^verbatim>\<open>doKmalloc\<close>: along the buckets of the list, and through a new bucket when there is none with a free block.\<close>

definition kmalloc_body :: "ptr \<Rightarrow> u32 \<Rightarrow> ptr \<times> 'a kbucket_scheme \<Rightarrow> (ptr \<times> 'a kbucket_scheme + ptr \<times> 'a kbucket_scheme) kres" where
  "kmalloc_body bk_head sz = (\<lambda>(bk, s).
     if bk \<noteq> NULL
     then let be = ld32 (mem s) (bk_entry bk)
          in if be \<noteq> NULL then Ret (Inr (be, wrmem (\<lambda>m. st32 (bk_entry bk) (ld32 m be) m) s))
             else Ret (Inl (ld32 (mem s) (bk_next bk), s))
     else kbind (allocBucket (s\<lparr>InitBucketCount := Suc (InitBucketCount s)\<rparr>)) (\<lambda>(bk', s1).
            kbind (initBucket bk' sz s1) (\<lambda>(_, s2).
              Ret (Inl (bk', wrmem (\<lambda>m. st32 (bk_next bk_head) bk' (st32 (bk_next bk') (ld32 m (bk_next bk_head)) m)) s2)))))"

definition doKmalloc :: "u32 \<Rightarrow> 'a kbucket_scheme \<Rightarrow> (ptr \<times> 'a kbucket_scheme) kres" where
  "doKmalloc sz s =
     (if sz = 0 then Ret (0, s)
      else if PGSIZE \<le> sz then heap_pages (ROUNDUP sz 4096 div PGSIZE) s
      else let bk_head = BucketTable s + of_int (getBucketSlot (uint sz)) * sizeof_Bucket_t
           in kwhile (kmalloc_body bk_head (ld32 (mem s) (bk_size bk_head))) (bk_head, s))"

definition kfree_body :: "ptr \<Rightarrow> ptr \<Rightarrow> ptr \<times> 'a kbucket_scheme \<Rightarrow> (ptr \<times> 'a kbucket_scheme + int \<times> 'a kbucket_scheme) kres" where
  "kfree_body page_addr be = (\<lambda>(bk, s).
     if bk = NULL then Ret (Inr (-2, s))
     else if ld32 (mem s) (bk_page bk) = page_addr
     then Ret (Inr (0, wrmem (\<lambda>m. st32 (bk_entry bk) be (st32 be (ld32 m (bk_entry bk)) m)) s))
     else Ret (Inl (ld32 (mem s) (bk_next bk), s)))"

text \<open>
  Freeing whole pages does not return, and \<^verbatim>\<open>index\<close> is unsigned, so that its test never fails: for more than a page the table is
  read far outside its bounds.
\<close>

definition doKfree :: "ptr \<Rightarrow> u32 \<Rightarrow> 'a kbucket_scheme \<Rightarrow> (int \<times> 'a kbucket_scheme) kres" where
  "doKfree vaddr sz s =
     (if sz = 0 \<or> vaddr = NULL then Ret (0, s)
      else kbind (if PGSIZE \<le> sz
                  then kbind (pa2page (vaddr - KERNEL_BASE) s) (\<lambda>page. freePhyPages page (ROUNDUP sz 4096 div PGSIZE) s)
                  else Ret s) (\<lambda>s1.
        let index = getBucketSlot (sint sz)
        in if index < 0 then Undef
           else kbind (pa2page (vaddr - KERNEL_BASE) s1) (\<lambda>page.
             kwhile (kfree_body (page2pa page + KERNEL_BASE) vaddr) (BucketTable s1 + of_int index * sizeof_Bucket_t, s1))))"

section \<open>Taking a block and giving it back\<close>

lemma byte_bit: "bit (b :: u8) n \<Longrightarrow> n < 8"
  using bit_imp_le_length [of b n] by simp

lemma st32_ld32: "st32 a (ld32 m a) m = m"
proof -
  have "ucast (ld32 m a) = m a" unfolding ld32_def
    by (rule bit_eqI) (auto simp: bit_simps possible_bit_word dest: byte_bit)
  moreover have "ucast (drop_bit 8 (ld32 m a)) = m (a + 1)" unfolding ld32_def
    by (rule bit_eqI) (auto simp: bit_simps possible_bit_word dest: byte_bit)
  moreover have "ucast (drop_bit 16 (ld32 m a)) = m (a + 2)" unfolding ld32_def
    by (rule bit_eqI) (auto simp: bit_simps possible_bit_word dest: byte_bit)
  moreover have "ucast (drop_bit 24 (ld32 m a)) = m (a + 3)" unfolding ld32_def
    by (rule bit_eqI) (auto simp: bit_simps possible_bit_word dest: byte_bit)
  ultimately show ?thesis by (auto simp: st32_def fun_eq_iff)
qed

lemma st32_st32: "st32 a v (st32 a w m) = st32 a v m"
  by (simp add: st32_def fun_eq_iff)

text \<open>
  A free block of the first bucket of its size is handed out, and freeing it makes memory exactly what it was.
\<close>

lemma block_roundtrip:
  assumes sz: "0 < sz" "sz < PGSIZE" and head: "bk = BucketTable s + of_int (getBucketSlot (uint sz)) * 16" "bk \<noteq> NULL"
    and be: "ld32 (mem s) (bk + 12) = be" "be \<noteq> NULL" "aligned4 be" "aligned4 (bk + 12)" "aligned4 (bk + 4)" "be \<noteq> bk + 12" "bk + 4 \<noteq> bk + 12"
    and page: "pa2page (be - KERNEL_BASE) s = Ret page" "ld32 (mem s) (bk + 4) = page2pa page + KERNEL_BASE"
  shows "\<exists>s1. doKmalloc sz s = Ret (be, s1) \<and> (\<exists>s2. doKfree be sz s1 = Ret (0, s2) \<and> mem s2 = mem s)"
proof -
  let ?s1 = "wrmem (\<lambda>m. st32 (bk + 12) (ld32 m be) m) s"
  have idx: "sint sz = uint sz" "0 \<le> getBucketSlot (uint sz)"
  proof -
    have u: "uint sz < 4096" "0 < uint sz" using sz by (simp_all add: word_less_def)
    show "sint sz = uint sz" unfolding sint_uint by (rule signed_take_bit_int_eq_self) (use u in simp_all)
    show "0 \<le> getBucketSlot (uint sz)" using u by (simp add: getBucketSlot_def bucket_slot_loop.simps)
  qed
  have "doKmalloc sz s = Ret (be, ?s1)"
    using sz head be(1,2) by (subst doKmalloc_def, subst kwhile_unfold) (auto simp: Let_def kmalloc_body_def)
  moreover have "doKfree be sz ?s1 = Ret (0, wrmem (\<lambda>m. st32 (bk + 12) be (st32 be (ld32 m (bk + 12)) m)) ?s1)"
  proof -
    have "pa2page (be - KERNEL_BASE) ?s1 = Ret page" using page(1) by (simp add: pa2page_def wrmem_def split: if_splits)
    moreover have "ld32 (mem ?s1) (bk + 4) = page2pa page + KERNEL_BASE"
      using page(2) ld32_st32_other [OF be(4,5)] be(7) by (simp add: wrmem_def)
    moreover have "BucketTable ?s1 = BucketTable s" by (simp add: wrmem_def)
    ultimately show ?thesis using sz be(2) head idx
      by (subst doKfree_def, subst kwhile_unfold) (auto simp: Let_def kfree_body_def)
  qed
  moreover have "mem (wrmem (\<lambda>m. st32 (bk + 12) be (st32 be (ld32 m (bk + 12)) m)) ?s1) = mem s"
  proof -
    have "ld32 (st32 (bk + 12) (ld32 (mem s) be) (mem s)) be = ld32 (mem s) be" using ld32_st32_other [OF be(4,3)] be(6) by simp
    then have "st32 be (ld32 (mem s) be) (st32 (bk + 12) (ld32 (mem s) be) (mem s)) = st32 (bk + 12) (ld32 (mem s) be) (mem s)"
      using st32_ld32 [of be "st32 (bk + 12) (ld32 (mem s) be) (mem s)"] by simp
    then show ?thesis using st32_ld32 [of "bk + 12" "mem s"] be(1) by (simp add: wrmem_def st32_st32)
  qed
  ultimately show ?thesis by blast
qed

end
