(* ===== verification/Spec2Isabelle.thy ===== *)
theory Spec2Isabelle
  imports Boot_VMM Fork_Correct Syscall Kbd Fat_Mount Fat_Names Fat_Read Kernel_Elf Bucket
begin

text \<open>
  A verification of FreakOS, a 32-bit x86 kernel with physical and virtual memory management, tasks,
  system calls, an IDE disk with a block cache, a virtual file system and character devices.

  \<^bold>\<open>How the kernel is modelled.\<close>  A kernel function is a HOL function on an explicit state.  The state is
  a chain of records, one extension per component (\<open>pmm\<close>, \<open>kmach\<close>, \<open>ksched\<close>, \<open>ksync\<close>, \<open>kvm\<close>,
  \<open>ktask\<close>, \<open>kide\<close>, \<open>kblk\<close>, \<open>kbc\<close>, \<open>kfs\<close>, \<open>kfat\<close>, \<open>kfatfs\<close>, \<open>kproc\<close>; \<open>kkbd\<close> extends \<open>kfs\<close>), so that the functions of a
  component run on every later state.  Structures
  that the code reaches through pointers are maps from addresses (\<open>u32\<close>) to records; the bytes of
  memory are a map from addresses to \<open>u8\<close>, and page tables, buffers and strings live there.  A function
  returns a \<open>kres\<close>: \<open>Ret\<close> with its result and the new state, \<open>Panic\<close> for \<^verbatim>\<open>panic\<close> and failed
  assertions, \<open>Undef\<close> where C leaves the behaviour open, \<open>Hang\<close> where the machine is stopped, \<open>Block\<close>
  where the task waits and nothing else can run.  Functions that give the processor to another task are
  cut at the switch: an \<open>enter\<close> part up to it and a \<open>resume\<close> part after it.  32-bit integers are words, so
  that every wrap-around of the C code is a wrap-around of the model.

  Loops whose bound is a variable are recursions on that bound.  Loops without one are \<open>kwhile\<close> of theory
  \<open>Prelude\<close>, a \<open>partial_function\<close> in which not returning is the value \<open>Hang\<close>; there is no fuel, and
  the theorems about such loops state that they return.  Hardware (IDE registers, scan codes, interrupts)
  and the code of user programs are arguments or oracle components of the state.

  \<^bold>\<open>Theories and sources\<close> (under \<^verbatim>\<open>kern/\<close>).

  \<^item> \<open>Prelude\<close>: outcomes, sequencing, error numbers, the macros of \<^verbatim>\<open>include/types.h\<close>.
  \<^item> \<open>Intrusive_List\<close>: \<^verbatim>\<open>include/list.h\<close>, with the locale \<open>linked_list\<close> of its contract.
  \<^item> \<open>First_Fit_Spec\<close>, \<open>PMM\<close>, \<open>PMM_Correct\<close>: \<^verbatim>\<open>mm/pmm.c\<close>, \<^verbatim>\<open>mm/ff_mmanager.c\<close>; the page allocator
    refines an abstract first-fit allocator (locale \<open>page_allocator\<close>).
  \<^item> \<open>Kmalloc\<close>, \<open>Bucket\<close>: \<^verbatim>\<open>mm/kmalloc.c\<close>, the page allocator in use and the bucket allocator beside it.
  \<^item> \<open>Strings\<close>: \<^verbatim>\<open>include/string.h\<close>.  \<open>Machine\<close>: memory as the kernel sees it.
  \<^item> \<open>Paging\<close>, \<open>Paging_Correct\<close>, \<open>Boot_VMM\<close>: \<^verbatim>\<open>mm/page.c\<close>, \<^verbatim>\<open>mm/boot_vmm.c\<close>; page tables as a finite map
    with one page reference per mapping (locale \<open>address_space\<close>).
  \<^item> \<open>Sched\<close>, \<open>Sync\<close>: \<^verbatim>\<open>krnl/task/sched.c\<close>, \<^verbatim>\<open>krnl/sync\<close>; the run queue and semaphores as step relations with
    invariants.
  \<^item> \<open>VMM\<close>, \<open>VMM_Correct\<close>, \<open>PageFault\<close>: \<^verbatim>\<open>mm/vmm.c\<close>, \<^verbatim>\<open>mm/page_fault.c\<close>.
  \<^item> \<open>Task_Core\<close>, \<open>Task_Exit\<close>, \<open>Fork\<close>, \<open>Fork_Correct\<close>, \<open>Exec\<close>: \<^verbatim>\<open>krnl/task/task.c\<close>.
  \<^item> \<open>IDE\<close>, \<open>IDE_Correct\<close>, \<open>Block\<close>, \<open>Bcache\<close>, \<open>Bcache_Correct\<close>: \<^verbatim>\<open>driver/ide.c\<close>, \<^verbatim>\<open>driver/ide_entity.c\<close>,
    \<^verbatim>\<open>driver/block.c\<close>, \<^verbatim>\<open>driver/partiton.c\<close>, \<^verbatim>\<open>driver/bcache.c\<close>; sector transfers share the locale \<open>sector_io\<close>.
  \<^item> \<open>Descriptors\<close>: \<^verbatim>\<open>mm/gdt.c\<close> and the tables, handlers and interrupt controllers of \<^verbatim>\<open>krnl/idt.c\<close>.
  \<^item> \<open>Vsprintf\<close>, \<open>Kernel_Elf\<close>: \<^verbatim>\<open>lib/vsprintf.c\<close>, \<^verbatim>\<open>krnl/debug\<close> (console and serial output, stack trace), \<^verbatim>\<open>krnl/elf.c\<close>.
  \<^item> \<open>Console\<close>, \<open>Kbd\<close>: \<^verbatim>\<open>driver/console.c\<close>, \<^verbatim>\<open>driver/kbd.c\<close>.
  \<^item> \<open>Inode\<close>, \<open>VFS\<close>, \<open>VFS_Correct\<close>, \<open>File\<close>, \<open>File_Correct\<close>, \<open>Sysfile\<close>, \<open>Stdio\<close>, \<open>Stdio_Correct\<close>:
    \<^verbatim>\<open>fs/vfs\<close>, \<^verbatim>\<open>fs/vdev\<close>, \<^verbatim>\<open>fs/file.c\<close>, \<^verbatim>\<open>fs/sysfile.c\<close>, \<^verbatim>\<open>fs/stdio\<close>, \<^verbatim>\<open>fs/block\<close>.
  \<^item> \<open>FatBase\<close>, \<open>FatDir\<close>, \<open>FatFile\<close>, \<open>FatOps\<close>: \<^verbatim>\<open>fs/fat/fat_base.c\<close>, \<^verbatim>\<open>fs/fat/fat_io.c\<close>: the sector window and the
    allocation table, directories, names and mounting, files, operations on paths.  \<open>FatInode\<close>: \<^verbatim>\<open>fs/fat/fat_inode.c\<close>,
    \<^verbatim>\<open>fs/fat/fat_fs.c\<close>, \<^verbatim>\<open>fs/fat/fat_lock.c\<close> and the detection of file systems in \<^verbatim>\<open>fs/vfs/vfs.c\<close>.
  \<^item> \<open>Fat_Window\<close>, \<open>Fat_Table\<close>, \<open>Fat_Chain\<close>, \<open>Fat_Props\<close>: correctness of the window, the table in its three formats and the
    cluster chains (locale \<open>cluster_table\<close>).  \<open>Fat_Mount\<close>: mounting.  \<open>Fat_Names\<close>: 8.3 names.
    \<open>Fat_Data\<close>, \<open>Fat_Read\<close>: data sectors and reading of files.
  \<^item> \<open>Syscall\<close>: \<^verbatim>\<open>krnl/syscall.c\<close> and \<^verbatim>\<open>IntrHandlerCall\<close> of \<^verbatim>\<open>krnl/idt.c\<close>.

  \<^bold>\<open>What is shown.\<close>  Lists: each operation implements its list function.  Memory: allocated pages are
  free before and used after, freeing merges neighbours, the allocator refines first fit; mapping, unmapping
  and duplicating keep the page tables and reference counts consistent; area lists stay sorted and disjoint;
  a page fault maps a page exactly where an area allows it.  Tasks: the run queue is round robin without loss,
  semaphores keep their count and wake waiters in order, exit gives the children to init, fork and wait are
  inverse on the family tree.  Disk: transfers move exactly the requested sectors, the cache is transparent
  and synchronisation makes the disk equal to its view.  Files and devices: paths resolve to devices, opening and
  closing are inverse, standard input is a queue, keyboard and console respect their buffers.  FAT volumes: mounting establishes
  the invariant of a volume, table entries are read as they were stored, chains grow and are freed cluster by
  cluster, the window never loses a sector, names are stored and shown as given, reading a file
  delivers its bytes.  Machine tables and output: the segments cover the whole address space, every vector leads to its stub,
  a printed number is read back, a stack trace names the first function around an address, a block of the bucket allocator that is
  taken and given back leaves memory unchanged.  Where the code
  departs from its intent, a theorem states what it does.

  \<^bold>\<open>Not modelled.\<close>  Assembly (boot, interrupt stubs; the context switch and the loading of tables are state changes), start-up
  order (\<^verbatim>\<open>init/main.c\<close>, \<^verbatim>\<open>init/entry.c\<close>, \<^verbatim>\<open>krnl/task/init_task.c\<close>), the listings of registers and of the memory map in \<^verbatim>\<open>krnl/debug/debug.c\<close>, the
  messages that functions print on the way, the self tests, the user programs, and \<^verbatim>\<open>f_mkfs\<close>, which nothing calls and whose disk size
  comes from a stub.
\<close>

end
